(* ===== verification/Prelude.thy ===== *)
theory Prelude
  imports Main "HOL-Library.AList" "HOL-Library.Char_ord" "HOL-Library.List_Lexorder"
begin

section \<open>Prelude: results, ordered dictionaries, shared automation\<close>

text \<open>
  The vocabulary every component shares. Python exceptions are values of a sum type: an
  operation that cannot change state returns \<open>error + value\<close>; a method that mutates its object
  returns \<open>(error + value) \<times> state\<close>, and the state component is the object as it is when the
  exception leaves the method, so a mutation made before a \<open>raise\<close> stays visible.
  A Python \<open>dict\<close> is an association list kept in insertion order: \<open>AList.update\<close> overwrites a
  present key in place and appends a new one, \<open>AList.delete\<close> removes it, \<open>map_of\<close> looks it up,
  exactly as \<open>d[k] = v\<close>, \<open>del d[k]\<close> and \<open>d.get(k)\<close> do. Strings are their UTF-8 bytes, ordered
  lexicographically (Python orders by code point, which UTF-8 preserves).
\<close>

named_theorems result_simps \<open>how the combinators on results compute\<close>
named_theorems dict_simps \<open>facts about dictionaries built by comprehension\<close>

type_synonym ('k, 'v) dict = "('k \<times> 'v) list"
type_synonym ('s, 'e, 'a) outcome = "('e + 'a) \<times> 's"

subsection \<open>Results\<close>

definition bindE :: "'e + 'a \<Rightarrow> ('a \<Rightarrow> 'e + 'b) \<Rightarrow> 'e + 'b" where
  "bindE r f = (case r of Inl e \<Rightarrow> Inl e | Inr a \<Rightarrow> f a)"

text \<open>\<open>all(...)\<close> and the generator filter \<open>[x for x in xs if p(x)]\<close> when \<open>p\<close> may raise:
  the first exception leaves the loop, and \<open>all\<close> stops at the first false element.\<close>

fun allE :: "('a \<Rightarrow> 'e + bool) \<Rightarrow> 'a list \<Rightarrow> 'e + bool" where
  "allE p [] = Inr True"
| "allE p (x # xs) =
     (case p x of Inl e \<Rightarrow> Inl e | Inr b \<Rightarrow> if b then allE p xs else Inr False)"

fun filterE :: "('a \<Rightarrow> 'e + bool) \<Rightarrow> 'a list \<Rightarrow> 'e + 'a list" where
  "filterE p [] = Inr []"
| "filterE p (x # xs) =
     (case p x of Inl e \<Rightarrow> Inl e
      | Inr b \<Rightarrow> (case filterE p xs of Inl e \<Rightarrow> Inl e
                 | Inr ys \<Rightarrow> Inr (if b then x # ys else ys)))"

lemma bindE_simps [simp, result_simps]:
  "bindE (Inl e) f = Inl e" "bindE (Inr a) f = f a"
  by (simp_all add: bindE_def)

lemma bindE_Inr_iff: "bindE r f = Inr b \<longleftrightarrow> (\<exists>a. r = Inr a \<and> f a = Inr b)"
  by (cases r) auto

lemma allE_total:
  "\<forall>x \<in> set xs. p x = Inr (q x) \<Longrightarrow> allE p xs = Inr (list_all q xs)"
  by (induction xs) auto

lemma allE_True_iff: "allE p xs = Inr True \<longleftrightarrow> (\<forall>x \<in> set xs. p x = Inr True)"
  by (induction xs) (auto split: sum.splits)

lemma allE_False_or_True: "allE p xs = Inr b \<Longrightarrow> b \<Longrightarrow> x \<in> set xs \<Longrightarrow> p x = Inr True"
  using allE_True_iff [of p xs] by auto

lemma filterE_total:
  "\<forall>x \<in> set xs. p x = Inr (q x) \<Longrightarrow> filterE p xs = Inr (filter q xs)"
  by (induction xs) auto

lemma filterE_member:
  "filterE p xs = Inr ys \<Longrightarrow> y \<in> set ys \<longleftrightarrow> y \<in> set xs \<and> p y = Inr True"
proof (induction xs arbitrary: ys)
  case Nil
  then show ?case by simp
next
  case (Cons x xs)
  then obtain b zs where b: "p x = Inr b" and zs: "filterE p xs = Inr zs"
    and ys: "ys = (if b then x # zs else zs)"
    by (auto split: sum.splits)
  show ?case using Cons.IH [OF zs] b ys by (cases "y = x") simp_all
qed

lemma filterE_Inr_set:
  "filterE p xs = Inr ys \<Longrightarrow> set ys = {x \<in> set xs. p x = Inr True}"
  by (rule set_eqI) (simp add: filterE_member)

lemma filterE_distinct_map:
  "filterE p xs = Inr ys \<Longrightarrow> distinct (map f xs) \<Longrightarrow> distinct (map f ys)"
proof (induction xs arbitrary: ys)
  case Nil
  then show ?case by simp
next
  case (Cons x xs)
  then obtain b zs where b: "p x = Inr b" and zs: "filterE p xs = Inr zs"
    and ys: "ys = (if b then x # zs else zs)"
    by (auto split: sum.splits)
  from filterE_member [OF zs] have "set zs \<subseteq> set xs" by blast
  with Cons.IH [OF zs] Cons.prems(2) ys show ?case by auto
qed

text \<open>A closed term that compares a result with \<open>Inr\<close> or \<open>Inl\<close>.\<close>

definition is_ok :: "('e + 'a) \<Rightarrow> bool" where
  "is_ok r = (case r of Inl _ \<Rightarrow> False | Inr _ \<Rightarrow> True)"

lemma is_ok_simps [simp, result_simps]: "is_ok (Inr a)" "\<not> is_ok (Inl e)"
  by (simp_all add: is_ok_def)

lemma is_ok_iff: "is_ok r \<longleftrightarrow> (\<exists>a. r = Inr a)"
  by (cases r) auto

subsection \<open>Methods that change their object\<close>

text \<open>
  \<open>thenS m f\<close> runs \<open>m\<close> and hands its result and the object it left to \<open>f\<close>; an exception of \<open>m\<close>
  ends the method with the object as \<open>m\<close> left it. \<open>keeps I m\<close>: the method preserves \<open>I\<close> whether
  it returns or raises; \<open>leads P m Q\<close>: from \<open>P\<close> it comes to \<open>Q\<close>, whether it returns or raises.
\<close>

definition thenS ::
  "('s \<Rightarrow> ('s, 'e, 'a) outcome) \<Rightarrow> ('a \<Rightarrow> 's \<Rightarrow> ('s, 'e, 'b) outcome) \<Rightarrow> 's \<Rightarrow> ('s, 'e, 'b) outcome" where
  "thenS m f s = (case m s of (Inl e, s') \<Rightarrow> (Inl e, s') | (Inr a, s') \<Rightarrow> f a s')"

definition keeps :: "('s \<Rightarrow> bool) \<Rightarrow> ('s \<Rightarrow> ('s, 'e, 'a) outcome) \<Rightarrow> bool" where
  "keeps I m \<longleftrightarrow> (\<forall>s r s'. I s \<longrightarrow> m s = (r, s') \<longrightarrow> I s')"

definition leads :: "('s \<Rightarrow> bool) \<Rightarrow> ('s \<Rightarrow> ('s, 'e, 'a) outcome) \<Rightarrow> ('s \<Rightarrow> bool) \<Rightarrow> bool" where
  "leads P m Q \<longleftrightarrow> (\<forall>s r s'. P s \<longrightarrow> m s = (r, s') \<longrightarrow> Q s')"

lemma thenS_simps [result_simps]:
  "m s = (Inl e, s') \<Longrightarrow> thenS m f s = (Inl e, s')"
  "m s = (Inr a, s') \<Longrightarrow> thenS m f s = f a s'"
  by (simp_all add: thenS_def)

lemma thenS_Inr:
  assumes "thenS m f s = (Inr b, s'')"
  obtains a s' where "m s = (Inr a, s')" "f a s' = (Inr b, s'')"
  using assms by (auto simp: thenS_def split: prod.splits sum.splits)

lemma thenS_cases:
  assumes "thenS m f s = (r, s'')"
  obtains (first) e where "m s = (Inl e, s'')" "r = Inl e"
  | (both) a s' where "m s = (Inr a, s')" "f a s' = (r, s'')"
  using assms by (auto simp: thenS_def split: prod.splits sum.splits)

lemma keepsD: "keeps I m \<Longrightarrow> I s \<Longrightarrow> m s = (r, s') \<Longrightarrow> I s'"
  unfolding keeps_def by blast

lemma keepsI: "(\<And>s r s'. I s \<Longrightarrow> m s = (r, s') \<Longrightarrow> I s') \<Longrightarrow> keeps I m"
  unfolding keeps_def by blast

lemma keeps_thenS: "keeps I m \<Longrightarrow> (\<And>a. keeps I (f a)) \<Longrightarrow> keeps I (thenS m f)"
  by (rule keepsI) (erule thenS_cases, (erule (2) keepsD | metis keepsD)+)

lemma leadsD: "leads P m Q \<Longrightarrow> P s \<Longrightarrow> m s = (r, s') \<Longrightarrow> Q s'"
  unfolding leads_def by blast

lemma leadsI: "(\<And>s r s'. P s \<Longrightarrow> m s = (r, s') \<Longrightarrow> Q s') \<Longrightarrow> leads P m Q"
  unfolding leads_def by blast

lemma leads_keeps: "keeps I m \<Longrightarrow> leads I m I"
  by (simp add: leads_def keeps_def)

lemma leads_thenS: "leads P m R \<Longrightarrow> (\<And>s. R s \<Longrightarrow> Q s) \<Longrightarrow> (\<And>a. leads R (f a) Q) \<Longrightarrow> leads P (thenS m f) Q"
  by (rule leadsI) (erule thenS_cases, (blast dest: leadsD)+)

subsection \<open>Ordered dictionaries\<close>

text \<open>The dict comprehension \<open>{f(x): x for x in xs}\<close>: later items overwrite earlier ones.\<close>

definition dict_of :: "('a \<Rightarrow> 'k) \<Rightarrow> 'a list \<Rightarrow> ('k, 'a) dict" where
  "dict_of f xs = fold (\<lambda>x d. AList.update (f x) x d) xs []"

abbreviation dict_keys :: "('k, 'v) dict \<Rightarrow> 'k list" where
  "dict_keys d \<equiv> map fst d"

abbreviation dict_values :: "('k, 'v) dict \<Rightarrow> 'v list" where
  "dict_values d \<equiv> map snd d"

abbreviation wf_dict :: "('k, 'v) dict \<Rightarrow> bool" where
  "wf_dict d \<equiv> distinct (map fst d)"

definition has_key :: "('k, 'v) dict \<Rightarrow> 'k \<Rightarrow> bool" where
  "has_key d k = (k \<in> set (map fst d))"

lemma has_key_map_of: "has_key d k \<longleftrightarrow> map_of d k \<noteq> None"
  by (simp add: has_key_def map_of_eq_None_iff)

lemma has_key_update [simp]: "has_key (AList.update k v d) k' \<longleftrightarrow> k' = k \<or> has_key d k'"
  by (auto simp: has_key_map_of update_conv')

lemma map_of_update [simp]: "map_of (AList.update k v d) = (map_of d)(k \<mapsto> v)"
  by (rule update_conv')

lemma map_of_delete [simp]: "map_of (AList.delete k d) = (map_of d)(k := None)"
  by (rule delete_conv')

lemma wf_dict_update [simp]: "wf_dict d \<Longrightarrow> wf_dict (AList.update k v d)"
  by (rule distinct_update)

lemma wf_dict_delete [simp]: "wf_dict d \<Longrightarrow> wf_dict (AList.delete k d)"
  by (rule distinct_delete)

lemma set_update_wf:
  "wf_dict d \<Longrightarrow> set (AList.update k v d) = {(k', v') \<in> set d. k' \<noteq> k} \<union> {(k, v)}"
  by (induction d) (auto simp: rev_image_eqI)

lemma set_update_subset: "set (AList.update k v d) \<subseteq> insert (k, v) (set d)"
  by (induction d) auto

lemma set_delete_subset: "set (AList.delete k d) \<subseteq> set d"
  by (induction d) auto

lemma values_update_subset: "set (dict_values (AList.update k v d)) \<subseteq> insert v (set (dict_values d))"
proof -
  have "snd ` set (AList.update k v d) \<subseteq> snd ` insert (k, v) (set d)"
    by (rule image_mono) (rule set_update_subset)
  then show ?thesis by simp
qed

lemma values_update_all:
  "\<forall>x \<in> set (dict_values d). P x \<Longrightarrow> P v \<Longrightarrow> \<forall>x \<in> set (dict_values (AList.update k v d)). P x"
  using values_update_subset [of k v d] by blast

lemma values_delete_all:
  "\<forall>x \<in> set (dict_values d). P x \<Longrightarrow> \<forall>x \<in> set (dict_values (AList.delete k d)). P x"
  by (induction d) (auto split: if_splits)

lemma keys_update: "set (dict_keys (AList.update k v d)) = insert k (set (dict_keys d))"
  using dom_update [of k v d] by simp

lemma fold_update_props:
  "wf_dict d \<Longrightarrow>
   wf_dict (fold (\<lambda>x d. AList.update (f x) x d) xs d) \<and>
   set (dict_keys (fold (\<lambda>x d. AList.update (f x) x d) xs d)) = set (dict_keys d) \<union> f ` set xs \<and>
   set (fold (\<lambda>x d. AList.update (f x) x d) xs d) \<subseteq> set d \<union> (\<lambda>x. (f x, x)) ` set xs"
proof (induction xs arbitrary: d)
  case Nil
  then show ?case by simp
next
  case (Cons x xs)
  have "wf_dict (AList.update (f x) x d)" using Cons.prems by simp
  note IH = Cons.IH [OF this]
  have sub: "set (AList.update (f x) x d) \<subseteq> insert (f x, x) (set d)"
    by (rule set_update_subset)
  from IH have "wf_dict (fold (\<lambda>x d. AList.update (f x) x d) (x # xs) d)"
    by simp
  moreover from IH have "set (dict_keys (fold (\<lambda>x d. AList.update (f x) x d) (x # xs) d)) =
      set (dict_keys d) \<union> f ` set (x # xs)"
    by (simp only: fold.simps comp_def keys_update) auto
  moreover from IH sub have "set (fold (\<lambda>x d. AList.update (f x) x d) (x # xs) d) \<subseteq>
      set d \<union> (\<lambda>x. (f x, x)) ` set (x # xs)"
    by auto
  ultimately show ?case by blast
qed

lemma wf_dict_of [simp, dict_simps]: "wf_dict (dict_of f xs)"
  using fold_update_props [of "[]" f xs] by (simp add: dict_of_def)

lemma keys_dict_of [dict_simps]: "set (dict_keys (dict_of f xs)) = f ` set xs"
  using fold_update_props [of "[]" f xs] by (simp add: dict_of_def)

lemma set_dict_of: "(k, v) \<in> set (dict_of f xs) \<Longrightarrow> k = f v \<and> v \<in> set xs"
  using fold_update_props [of "[]" f xs] by (auto simp: dict_of_def)

lemma values_dict_of: "set (dict_values (dict_of f xs)) \<subseteq> set xs"
  by (auto dest: set_dict_of)

lemma keys_eq_values_dict_of [dict_simps]: "map fst (dict_of f xs) = map f (map snd (dict_of f xs))"
  by (auto dest: set_dict_of)

lemma fold_update_append:
  "distinct (map f xs) \<Longrightarrow> f ` set xs \<inter> set (dict_keys d) = {} \<Longrightarrow>
   fold (\<lambda>x d. AList.update (f x) x d) xs d = d @ map (\<lambda>x. (f x, x)) xs"
proof (induction xs arbitrary: d)
  case Nil
  then show ?case by simp
next
  case (Cons x xs)
  have upd: "AList.update (f x) x d = d @ [(f x, x)]"
    using Cons.prems(2) by (induction d) auto
  have "f ` set xs \<inter> set (dict_keys (d @ [(f x, x)])) = {}"
    using Cons.prems by auto
  with Cons.prems have "fold (\<lambda>x d. AList.update (f x) x d) xs (d @ [(f x, x)]) =
      (d @ [(f x, x)]) @ map (\<lambda>x. (f x, x)) xs"
    by (intro Cons.IH) auto
  with upd show ?case by simp
qed

lemma dict_of_distinct [dict_simps]:
  "distinct (map f xs) \<Longrightarrow> dict_of f xs = map (\<lambda>x. (f x, x)) xs"
  using fold_update_append [of f xs "[]"] by (simp add: dict_of_def)

lemma values_dict_of_distinct [dict_simps]:
  "distinct (map f xs) \<Longrightarrow> dict_values (dict_of f xs) = xs"
  by (simp add: dict_of_distinct comp_def)

text \<open>Sums of an \<open>int\<close> measure over the values of a dictionary under the three updates.\<close>

definition dict_sum :: "('v \<Rightarrow> int) \<Rightarrow> ('k, 'v) dict \<Rightarrow> int" where
  "dict_sum g d = sum_list (map (\<lambda>p. g (snd p)) d)"

lemma dict_sum_simps [simp]:
  "dict_sum g [] = 0" "dict_sum g (p # d) = g (snd p) + dict_sum g d"
  by (simp_all add: dict_sum_def)

definition old_measure :: "('v \<Rightarrow> int) \<Rightarrow> ('k, 'v) dict \<Rightarrow> 'k \<Rightarrow> int" where
  "old_measure g d k = (case map_of d k of None \<Rightarrow> 0 | Some v \<Rightarrow> g v)"

lemma dict_sum_update: "dict_sum g (AList.update k v d) = dict_sum g d - old_measure g d k + g v"
  by (induction d) (auto simp: old_measure_def)

lemma delete_absent: "map_of d k = None \<Longrightarrow> AList.delete k d = d"
  by (induction d) (auto split: if_splits)

lemma dict_sum_delete:
  "wf_dict d \<Longrightarrow> dict_sum g (AList.delete k d) = dict_sum g d - old_measure g d k"
proof (induction d)
  case Nil
  then show ?case by (simp add: old_measure_def)
next
  case (Cons p d)
  then have wf: "wf_dict d" by simp
  show ?case
  proof (cases "fst p = k")
    case True
    with Cons.prems have "map_of d k = None" by (auto simp: map_of_eq_None_iff)
    then have "AList.delete k d = d" by (rule delete_absent)
    with True show ?thesis by (cases p) (simp add: old_measure_def)
  next
    case False
    with Cons.IH [OF wf] show ?thesis by (cases p) (auto simp: old_measure_def)
  qed
qed

lemma dict_sum_nonneg: "(\<And>k v. (k, v) \<in> set d \<Longrightarrow> 0 \<le> g v) \<Longrightarrow> 0 \<le> dict_sum g d"
  by (induction d) force+

lemma dict_sum_as_sum:
  "wf_dict d \<Longrightarrow> dict_sum g d = (\<Sum>k \<in> set (dict_keys d). old_measure g d k)"
proof (induction d)
  case Nil
  then show ?case by simp
next
  case (Cons p d)
  obtain k v where p: "p = (k, v)" by (cases p)
  from Cons.prems p have fresh: "k \<notin> set (dict_keys d)" and wf: "wf_dict d" by auto
  have "(\<Sum>x \<in> set (dict_keys d). old_measure g (p # d) x) =
        (\<Sum>x \<in> set (dict_keys d). old_measure g d x)"
    using fresh p by (intro sum.cong) (auto simp: old_measure_def)
  with fresh p Cons.IH [OF wf] show ?case by (simp add: old_measure_def)
qed

subsection \<open>Sorting\<close>

lemma sort_key_eqI:
  "distinct (map f xs) \<Longrightarrow> set xs = set ys \<Longrightarrow> distinct (map f ys) \<Longrightarrow> sort_key f xs = sort_key f ys"
proof -
  assume d: "distinct (map f xs)" "distinct (map f ys)" and s: "set xs = set ys"
  have inj: "inj_on f (set xs)" using d(1) by (simp add: distinct_map)
  have "map f (sort_key f xs) = map f (sort_key f ys)"
    by (rule sorted_distinct_set_unique) (use d s in \<open>auto simp: distinct_map\<close>)
  moreover have "inj_on f (set (sort_key f xs) \<union> set (sort_key f ys))"
    using inj s by simp
  ultimately show ?thesis by (simp add: inj_on_map_eq_map)
qed

lemma map_sort_key_id: "map f (sort_key f xs) = sort (map f xs)"
proof -
  have "map f (insort_key f x ys) = insort (f x) (map f ys)" for x ys
    by (induction ys) auto
  then show ?thesis by (induction xs) auto
qed

end
