(* ===== verification/Crypto.thy ===== *)
theory Crypto
  imports Prelude
begin

section \<open>Canonical encoding, digests and signatures (ccd_nexus/crypto.py)\<close>

text \<open>
  \<open>canonical_bytes\<close> is \<open>json.dumps(value, sort_keys=True, separators=(",", ":"),
  ensure_ascii=False).encode("utf-8")\<close>, written out on a datatype of JSON values: object keys
  sorted, no white space, the escapes of \<open>json.encoder\<close>, every other character raw. Tuples and
  lists are both \<open>JArr\<close>, as they are for \<open>json.dumps\<close>. A float is kept as the text Python prints
  for it; no statement the protocol signs carries one.
  SHA-256 and Ed25519 are compiled code outside the repository (\<open>hashlib\<close>, \<open>cryptography\<close>):
  they are the four functions of the record \<open>crypto\<close>, an argument of every definition that
  hashes or signs. What the proofs use of them is a named hypothesis where it is used:
  \<open>sound_signatures\<close> (a genuine signature verifies) and \<open>no_collision\<close> (two given messages
  do not collide).
\<close>

subsection \<open>JSON values and their canonical bytes\<close>

datatype json =
    JNull
  | JBool bool
  | JInt int
  | JFloat string
  | JStr string
  | JArr "json list"
  | JObj "(string \<times> json) list"

definition hexdigit :: "nat \<Rightarrow> char" where
  "hexdigit n = ''0123456789abcdef'' ! n"

definition hex_byte :: "char \<Rightarrow> string" where
  "hex_byte c = [hexdigit (of_char c div 16), hexdigit (of_char c mod 16)]"

text \<open>\<open>bytes.hex()\<close>\<close>

definition hex :: "string \<Rightarrow> string" where
  "hex bs = concat (map hex_byte bs)"

fun nat_str :: "nat \<Rightarrow> string" where
  "nat_str n = (if n < 10 then [hexdigit n] else nat_str (n div 10) @ [hexdigit (n mod 10)])"

declare nat_str.simps [simp del]

text \<open>\<open>str(int)\<close>\<close>

definition int_str :: "int \<Rightarrow> string" where
  "int_str i = (if i < 0 then CHR 0x2D # nat_str (nat (- i)) else nat_str (nat i))"

definition esc_char :: "char \<Rightarrow> string" where
  "esc_char c =
     (if c = CHR 0x5C then [CHR 0x5C, CHR 0x5C]
      else if c = CHR 0x22 then [CHR 0x5C, CHR 0x22]
      else if c = CHR 0x08 then [CHR 0x5C, CHR 0x62]
      else if c = CHR 0x0C then [CHR 0x5C, CHR 0x66]
      else if c = CHR 0x0A then [CHR 0x5C, CHR 0x6E]
      else if c = CHR 0x0D then [CHR 0x5C, CHR 0x72]
      else if c = CHR 0x09 then [CHR 0x5C, CHR 0x74]
      else if of_char c < (32::nat) then [CHR 0x5C, CHR 0x75, CHR 0x30, CHR 0x30] @ hex_byte c
      else [c])"

definition enc_str :: "string \<Rightarrow> string" where
  "enc_str s = CHR 0x22 # concat (map esc_char s) @ [CHR 0x22]"

text \<open>\<open>",".join(items)\<close>\<close>

fun join_comma :: "string list \<Rightarrow> string" where
  "join_comma [] = []"
| "join_comma [x] = x"
| "join_comma (x # y # zs) = x @ CHR 0x2C # join_comma (y # zs)"

fun canonical_bytes :: "json \<Rightarrow> string" where
  "canonical_bytes JNull = ''null''"
| "canonical_bytes (JBool b) = (if b then ''true'' else ''false'')"
| "canonical_bytes (JInt i) = int_str i"
| "canonical_bytes (JFloat s) = s"
| "canonical_bytes (JStr s) = enc_str s"
| "canonical_bytes (JArr vs) = CHR 0x5B # join_comma (map canonical_bytes vs) @ [CHR 0x5D]"
| "canonical_bytes (JObj kvs) =
     CHR 0x7B # join_comma (map (\<lambda>(k, s). enc_str k @ CHR 0x3A # s)
       (sort_key fst (map (\<lambda>(k, v). (k, canonical_bytes v)) kvs))) @ [CHR 0x7D]"

subsection \<open>Hashes and keys\<close>

record crypto =
  sha256 :: "string \<Rightarrow> string"
  ed25519_public :: "string \<Rightarrow> string"
  ed25519_sign :: "string \<Rightarrow> string \<Rightarrow> string"
  ed25519_verify :: "string \<Rightarrow> string \<Rightarrow> string \<Rightarrow> bool"

definition digest :: "crypto \<Rightarrow> json \<Rightarrow> string" where
  "digest cr v = hex (sha256 cr (canonical_bytes v))"

definition identity_from_public_key :: "crypto \<Rightarrow> string \<Rightarrow> string" where
  "identity_from_public_key cr pk = take 32 (hex (sha256 cr pk))"

record keypair =
  private_bytes :: string

definition public_key :: "crypto \<Rightarrow> keypair \<Rightarrow> string" where
  "public_key cr kp = ed25519_public cr (private_bytes kp)"

definition identity :: "crypto \<Rightarrow> keypair \<Rightarrow> string" where
  "identity cr kp = identity_from_public_key cr (public_key cr kp)"

definition sign :: "crypto \<Rightarrow> keypair \<Rightarrow> string \<Rightarrow> string" where
  "sign cr kp message = ed25519_sign cr (private_bytes kp) message"

text \<open>\<open>KeyPair.verify\<close> turns every exception of the library into \<open>False\<close>, so it is total.\<close>

definition verify :: "crypto \<Rightarrow> string \<Rightarrow> string \<Rightarrow> string \<Rightarrow> bool" where
  "verify cr pk message signature = ed25519_verify cr pk message signature"

definition sound_signatures :: "crypto \<Rightarrow> bool" where
  "sound_signatures cr \<longleftrightarrow>
     (\<forall>sk m. ed25519_verify cr (ed25519_public cr sk) m (ed25519_sign cr sk m))"

definition no_collision :: "crypto \<Rightarrow> json \<Rightarrow> json \<Rightarrow> bool" where
  "no_collision cr v w \<longleftrightarrow>
     (digest cr v = digest cr w \<longrightarrow> canonical_bytes v = canonical_bytes w)"

lemma verify_sign [simp]:
  "sound_signatures cr \<Longrightarrow> verify cr (public_key cr kp) m (sign cr kp m)"
  by (simp add: sound_signatures_def verify_def public_key_def sign_def)

subsection \<open>The canonical encoding is injective\<close>

text \<open>
  Two values with the same canonical bytes are the same value up to the order of object keys.
  The proof reads the encoding from the left: each encoder is a prefix code when what follows
  does not continue a number (\<open>boundary\<close>), and every rest is carried along.
\<close>

fun json_norm :: "json \<Rightarrow> json" where
  "json_norm (JArr vs) = JArr (map json_norm vs)"
| "json_norm (JObj kvs) = JObj (sort_key fst (map (\<lambda>(k, v). (k, json_norm v)) kvs))"
| "json_norm v = v"

fun float_free :: "json \<Rightarrow> bool" where
  "float_free (JFloat s) = False"
| "float_free (JArr vs) = (\<forall>v \<in> set vs. float_free v)"
| "float_free (JObj kvs) = (\<forall>p \<in> set kvs. float_free (snd p))"
| "float_free v = True"

definition is_digit :: "char \<Rightarrow> bool" where
  "is_digit c = (c \<in> set ''0123456789'')"

definition boundary :: "string \<Rightarrow> bool" where
  "boundary r \<longleftrightarrow> (case r of [] \<Rightarrow> True | c # _ \<Rightarrow> \<not> is_digit c)"

lemma hexdigit_inject: "m < 16 \<Longrightarrow> n < 16 \<Longrightarrow> hexdigit m = hexdigit n \<Longrightarrow> m = n"
proof -
  have "distinct ''0123456789abcdef''" by simp
  then show "m < 16 \<Longrightarrow> n < 16 \<Longrightarrow> hexdigit m = hexdigit n \<Longrightarrow> m = n"
    unfolding hexdigit_def by (subst (asm) nth_eq_iff_index_eq) auto
qed

lemma hex_byte_inject: "hex_byte c = hex_byte d \<Longrightarrow> c = d"
proof -
  assume eq: "hex_byte c = hex_byte d"
  have b: "of_char x div 16 < (16::nat)" for x :: char
    using nat_of_char_less_256 [of x] by (simp add: div_less_iff_less_mult)
  from eq have "of_char c div 16 = (of_char d div 16 :: nat)"
    by (intro hexdigit_inject b) (simp add: hex_byte_def)
  moreover from eq have "of_char c mod 16 = (of_char d mod 16 :: nat)"
    by (intro hexdigit_inject) (auto simp: hex_byte_def)
  ultimately have "of_char c = (of_char d :: nat)" by (metis div_mod_decomp)
  then show ?thesis by simp
qed

lemma hex_byte_length [simp]: "length (hex_byte c) = 2"
  by (simp add: hex_byte_def)

lemma hex_inject: "hex xs = hex ys \<Longrightarrow> xs = ys"
proof (induction xs arbitrary: ys)
  case Nil
  then show ?case by (cases ys) (auto simp: hex_def hex_byte_def)
next
  case (Cons x xs)
  from Cons.prems obtain y zs where ys: "ys = y # zs"
    by (cases ys) (auto simp: hex_def hex_byte_def)
  with Cons.prems have "hex_byte x @ hex xs = hex_byte y @ hex zs" by (simp add: hex_def)
  then have "hex_byte x = hex_byte y" "hex xs = hex zs"
    by (simp_all add: append_eq_append_conv)
  with Cons.IH ys show ?case by (simp add: hex_byte_inject)
qed

lemma hex_eq_Nil [simp]: "hex bs = [] \<longleftrightarrow> bs = []"
  by (cases bs) (simp_all add: hex_def hex_byte_def)

lemma boundary_simps [simp]:
  "boundary []" "boundary (c # r) \<longleftrightarrow> \<not> is_digit c"
  by (simp_all add: boundary_def)

lemma is_digit_hexdigit: "n < 10 \<Longrightarrow> is_digit (hexdigit n)"
proof -
  assume "n < 10"
  then have "hexdigit n = ''0123456789'' ! n"
    unfolding hexdigit_def using nth_append [of "''0123456789''" "''abcdef''" n] by simp
  moreover have "''0123456789'' ! n \<in> set ''0123456789''"
    using \<open>n < 10\<close> by (intro nth_mem) simp
  ultimately show ?thesis unfolding is_digit_def by (simp only:)
qed

lemma nat_str_digits: "c \<in> set (nat_str n) \<Longrightarrow> is_digit c"
proof (induction n arbitrary: c rule: nat_str.induct)
  case (1 n)
  then show ?case
    by (cases "n < 10") (auto simp: nat_str.simps [of n] is_digit_hexdigit)
qed

lemma nat_str_ne [simp]: "nat_str n \<noteq> []"
  by (subst nat_str.simps) simp

lemma nat_str_inject: "nat_str m = nat_str n \<Longrightarrow> m = n"
proof (induction m arbitrary: n rule: nat_str.induct)
  case (1 m)
  have big: "length (nat_str k) = 1 \<longleftrightarrow> k < 10" for k
    by (subst nat_str.simps) auto
  show ?case
  proof (cases "m < 10")
    case True
    with "1.prems" big [of m] big [of n] have "n < 10" by simp
    with True "1.prems" show ?thesis
      by (intro hexdigit_inject) (simp_all add: nat_str.simps)
  next
    case False
    with "1.prems" big [of m] big [of n] have n: "\<not> n < 10" by simp
    from "1.prems" have "nat_str (m div 10) @ [hexdigit (m mod 10)] = nat_str (n div 10) @ [hexdigit (n mod 10)]"
      by (simp add: nat_str.simps [of m] nat_str.simps [of n] False n)
    then have "nat_str (m div 10) = nat_str (n div 10)" "hexdigit (m mod 10) = hexdigit (n mod 10)"
      by simp_all
    then have "m div 10 = n div 10" "m mod 10 = n mod 10"
      using "1.IH" [OF False] hexdigit_inject [of "m mod 10" "n mod 10"] by simp_all
    then show ?thesis by (metis div_mod_decomp)
  qed
qed

lemma digits_prefix:
  assumes "\<forall>c \<in> set xs. is_digit c" "\<forall>c \<in> set ys. is_digit c" "boundary r" "boundary r'"
    and "xs @ r = ys @ r'"
  shows "xs = ys \<and> r = r'"
proof -
  have "takeWhile is_digit (zs @ q) = zs" if "\<forall>c \<in> set zs. is_digit c" "boundary q" for zs q
    using that by (cases q) (auto simp: takeWhile_append2)
  then have "xs = ys" using assms by metis
  with assms show ?thesis by simp
qed

lemma not_digit_minus [simp]: "\<not> is_digit (CHR 0x2D)"
  by (simp add: is_digit_def)

lemma int_str_ne [simp]: "int_str i \<noteq> []"
  by (simp add: int_str_def)

lemma hd_int_str: "hd (int_str i) = CHR 0x2D \<or> is_digit (hd (int_str i))"
  using nat_str_digits [of "hd (nat_str (nat i))" "nat i"] by (auto simp: int_str_def)

lemma hd_nat_str: "is_digit (hd (nat_str n))"
  by (rule nat_str_digits [of _ n]) simp

lemma int_str_prefix:
  assumes "int_str i @ r = int_str j @ r'" "boundary r" "boundary r'"
  shows "i = j \<and> r = r'"
proof -
  have d: "\<forall>c \<in> set (nat_str n). is_digit c" for n using nat_str_digits by blast
  have sign: "(i < 0) = (j < 0)"
  proof -
    have "hd (int_str k @ q) = CHR 0x2D \<longleftrightarrow> k < 0" for k q
      using hd_nat_str [of "nat k"] by (auto simp: int_str_def)
    with assms(1) show ?thesis by metis
  qed
  with assms(1) have "nat_str (nat \<bar>i\<bar>) @ r = nat_str (nat \<bar>j\<bar>) @ r'"
    by (auto simp: int_str_def split: if_splits)
  with digits_prefix [OF d d assms(2,3)] have "nat_str (nat \<bar>i\<bar>) = nat_str (nat \<bar>j\<bar>)" "r = r'"
    by auto
  with sign nat_str_inject [of "nat \<bar>i\<bar>" "nat \<bar>j\<bar>"] show ?thesis by auto
qed

text \<open>Strings: every escape is a prefix code that does not start with a quote.\<close>

lemma esc_char_ne [simp]: "esc_char c \<noteq> []"
  by (simp add: esc_char_def)

lemma esc_char_no_quote: "hd (esc_char c) \<noteq> CHR 0x22"
  by (simp add: esc_char_def)

lemma esc_char_prefix: "esc_char c @ x = esc_char d @ y \<Longrightarrow> c = d \<and> x = y"
  by (auto simp: esc_char_def hex_byte_def [symmetric] append_eq_append_conv hex_byte_inject
      split: if_splits)

lemma enc_body_prefix:
  "concat (map esc_char s) @ CHR 0x22 # r = concat (map esc_char t) @ CHR 0x22 # r' \<Longrightarrow> s = t \<and> r = r'"
proof (induction s arbitrary: t)
  case Nil
  show ?case
  proof (cases t)
    case Nil
    with Nil.prems show ?thesis by simp
  next
    case (Cons d ds)
    with Nil.prems have "hd (esc_char d) = CHR 0x22" by (cases "esc_char d") auto
    with esc_char_no_quote show ?thesis by simp
  qed
next
  case (Cons c cs)
  show ?case
  proof (cases t)
    case Nil
    with Cons.prems have "hd (esc_char c) = CHR 0x22" by (cases "esc_char c") auto
    with esc_char_no_quote show ?thesis by simp
  next
    case (Cons d ds)
    with Cons.prems esc_char_prefix
    have "c = d" "concat (map esc_char cs) @ CHR 0x22 # r = concat (map esc_char ds) @ CHR 0x22 # r'"
      by fastforce+
    with Cons.IH Cons show ?thesis by blast
  qed
qed

lemma enc_str_prefix: "enc_str s @ r = enc_str t @ r' \<Longrightarrow> s = t \<and> r = r'"
  by (intro enc_body_prefix) (simp add: enc_str_def)

lemma enc_str_ne [simp]: "enc_str s \<noteq> []"
  by (simp add: enc_str_def)

text \<open>Sequences: \<open>f\<close> encodes the items, \<open>g\<close> is what of an item its encoding determines.\<close>

definition item_start :: "string \<Rightarrow> bool" where
  "item_start s \<longleftrightarrow> s \<noteq> [] \<and> hd s \<noteq> CHR 0x5D \<and> hd s \<noteq> CHR 0x7D \<and> hd s \<noteq> CHR 0x2C"

definition closer :: "char \<Rightarrow> bool" where
  "closer c \<longleftrightarrow> c = CHR 0x5D \<or> c = CHR 0x7D"

lemma join_comma_Cons: "xs \<noteq> [] \<Longrightarrow> join_comma (x # xs) = x @ CHR 0x2C # join_comma xs"
  by (cases xs) auto

lemma join_comma_start: "xs \<noteq> [] \<Longrightarrow> item_start (hd xs) \<Longrightarrow> item_start (join_comma xs)"
  by (cases xs; cases "tl xs") (auto simp: item_start_def hd_append)

lemma join_comma_prefix:
  assumes "\<And>x y r r'. x \<in> set xs \<Longrightarrow> y \<in> set ys \<Longrightarrow> boundary r \<Longrightarrow> boundary r' \<Longrightarrow>
             f x @ r = f y @ r' \<Longrightarrow> g x = g y \<and> r = r'"
    and "\<forall>x \<in> set xs \<union> set ys. item_start (f x)" and c: "closer c"
    and "join_comma (map f xs) @ c # r = join_comma (map f ys) @ c # r'"
  shows "map g xs = map g ys \<and> r = r'"
  using assms
proof (induction xs arbitrary: ys)
  case Nil
  show ?case
  proof (cases ys)
    case Nil
    with Nil.prems show ?thesis by simp
  next
    case (Cons y zs)
    with Nil.prems have "item_start (join_comma (map f ys))" by (intro join_comma_start) auto
    with Nil.prems c show ?thesis
      by (cases "join_comma (map f ys)") (auto simp: item_start_def closer_def)
  qed
next
  case (Cons x xs)
  show ?case
  proof (cases ys)
    case Nil
    with Cons.prems have "item_start (join_comma (map f (x # xs)))" by (intro join_comma_start) auto
    with Cons.prems c Nil show ?thesis
      by (cases "join_comma (map f (x # xs))") (auto simp: item_start_def closer_def)
  next
    case ys: (Cons y zs)
    define q where "q = (if xs = [] then c # r else CHR 0x2C # join_comma (map f xs) @ c # r)"
    define q' where "q' = (if zs = [] then c # r' else CHR 0x2C # join_comma (map f zs) @ c # r')"
    have "f x @ q = f y @ q'"
      using Cons.prems(4) ys by (auto simp: q_def q'_def join_comma_Cons split: if_splits)
    moreover have "boundary q" "boundary q'"
      using c by (auto simp: q_def q'_def closer_def is_digit_def)
    ultimately have g: "g x = g y" and q: "q = q'"
      using Cons.prems(1) [of x y q q'] ys by simp_all
    from c have "c \<noteq> CHR 0x2C" by (auto simp: closer_def)
    with q have tails: "(xs = []) = (zs = [])" by (auto simp: q_def q'_def split: if_splits)
    show ?thesis
    proof (cases "xs = []")
      case True
      with q tails g ys show ?thesis by (simp add: q_def q'_def)
    next
      case False
      with q tails have "join_comma (map f xs) @ c # r = join_comma (map f zs) @ c # r'"
        by (simp add: q_def q'_def)
      then have "map g xs = map g zs \<and> r = r'"
        using Cons.prems(2) ys by (intro Cons.IH [OF Cons.prems(1) _ c]) auto
      with g ys show ?thesis by simp
    qed
  qed
qed

lemma canonical_start: "float_free v \<Longrightarrow> item_start (canonical_bytes v)"
proof (cases v)
  case (JInt i)
  have "\<not> is_digit (CHR 0x5D)" "\<not> is_digit (CHR 0x7D)" "\<not> is_digit (CHR 0x2C)"
    by (simp_all add: is_digit_def)
  with JInt hd_int_str [of i] show ?thesis by (auto simp: item_start_def)
qed (auto simp: item_start_def enc_str_def)

lemma insort_key_map_pair:
  "insort_key fst (k, f v) (map (\<lambda>(k, v). (k, f v)) ps) = map (\<lambda>(k, v). (k, f v)) (insort_key fst (k, v) ps)"
  by (induction ps) auto

lemma sort_key_map_pair:
  "sort_key fst (map (\<lambda>(k, v). (k, f v)) ps) = map (\<lambda>(k, v). (k, f v)) (sort_key fst ps)"
  by (induction ps) (auto simp: insort_key_map_pair)

definition enc_pair :: "string \<times> json \<Rightarrow> string" where
  "enc_pair p = enc_str (fst p) @ CHR 0x3A # canonical_bytes (snd p)"

lemma canonical_obj:
  "canonical_bytes (JObj kvs) =
     CHR 0x7B # join_comma (map enc_pair (sort_key fst kvs)) @ [CHR 0x7D]"
  unfolding canonical_bytes.simps sort_key_map_pair map_map comp_def enc_pair_def [abs_def]
  by (simp add: case_prod_unfold)

fun json_tag :: "json \<Rightarrow> nat" where
  "json_tag JNull = 0"
| "json_tag (JBool b) = (if b then 1 else 2)"
| "json_tag (JInt i) = 3"
| "json_tag (JFloat s) = 3"
| "json_tag (JStr s) = 4"
| "json_tag (JArr vs) = 5"
| "json_tag (JObj kvs) = 6"

definition char_tag :: "char \<Rightarrow> nat" where
  "char_tag c = (if c = CHR 0x6E then 0 else if c = CHR 0x74 then 1 else if c = CHR 0x66 then 2
     else if c = CHR 0x22 then 4 else if c = CHR 0x5B then 5 else if c = CHR 0x7B then 6 else 3)"

lemma char_tag_digit: "is_digit c \<or> c = CHR 0x2D \<Longrightarrow> char_tag c = 3"
  by (auto simp: is_digit_def char_tag_def)

lemma char_tag_canonical:
  "float_free v \<Longrightarrow> char_tag (hd (canonical_bytes v @ r)) = json_tag v"
proof (cases v)
  case (JInt i)
  then show ?thesis using hd_int_str [of i] by (auto intro: char_tag_digit)
qed (auto simp: char_tag_def enc_str_def)

lemma same_tag:
  "float_free v \<Longrightarrow> float_free w \<Longrightarrow> canonical_bytes v @ r = canonical_bytes w @ r' \<Longrightarrow>
   json_tag v = json_tag w"
  by (metis char_tag_canonical)

lemma enc_pair_start: "item_start (enc_pair p)"
  by (simp add: enc_pair_def item_start_def enc_str_def)

lemma canonical_prefix:
  "float_free v \<Longrightarrow> float_free w \<Longrightarrow> boundary r \<Longrightarrow> boundary r' \<Longrightarrow>
   canonical_bytes v @ r = canonical_bytes w @ r' \<Longrightarrow> json_norm v = json_norm w \<and> r = r'"
proof (induction v arbitrary: w r r')
  case JNull
  from same_tag [OF JNull.prems(1,2,5)] have "w = JNull" by (cases w) (auto split: if_splits)
  with JNull.prems(5) show ?case by simp
next
  case (JBool b)
  from same_tag [OF JBool.prems(1,2,5)] have "w = JBool b" by (cases w) (auto split: if_splits)
  with JBool.prems(5) show ?case by simp
next
  case (JInt i)
  from same_tag [OF JInt.prems(1,2,5)] JInt.prems(2) obtain j where w: "w = JInt j"
    by (cases w) (auto split: if_splits)
  with JInt.prems(5) have "int_str i @ r = int_str j @ r'" by simp
  from int_str_prefix [OF this JInt.prems(3,4)] w show ?case by simp
next
  case (JFloat s)
  then show ?case by simp
next
  case (JStr s)
  from same_tag [OF JStr.prems(1,2,5)] obtain t where w: "w = JStr t"
    by (cases w) (auto split: if_splits)
  with JStr.prems(5) have "enc_str s @ r = enc_str t @ r'" by simp
  from enc_str_prefix [OF this] w show ?case by simp
next
  case (JArr vs)
  from same_tag [OF JArr.prems(1,2,5)] obtain ws where w: "w = JArr ws"
    by (cases w) (auto split: if_splits)
  have eq: "join_comma (map canonical_bytes vs) @ CHR 0x5D # r =
      join_comma (map canonical_bytes ws) @ CHR 0x5D # r'"
    using JArr.prems(5) w by simp
  have step: "json_norm x = json_norm y \<and> q = q'"
    if "x \<in> set vs" "y \<in> set ws" "boundary q" "boundary q'"
      "canonical_bytes x @ q = canonical_bytes y @ q'" for x y q q'
    using JArr.prems(1,2) w that by (intro JArr.IH) auto
  have "map json_norm vs = map json_norm ws \<and> r = r'"
  proof (rule join_comma_prefix [OF step _ _ eq])
    show "\<forall>x \<in> set vs \<union> set ws. item_start (canonical_bytes x)"
      using JArr.prems(1,2) w by (auto intro: canonical_start)
    show "closer (CHR 0x5D)" by (simp add: closer_def)
  qed
  with w show ?case by simp
next
  case (JObj kvs)
  from same_tag [OF JObj.prems(1,2,5)] obtain ps where w: "w = JObj ps"
    by (cases w) (auto split: if_splits)
  let ?g = "\<lambda>p. (fst p, json_norm (snd p))"
  have eq: "join_comma (map enc_pair (sort_key fst kvs)) @ CHR 0x7D # r =
      join_comma (map enc_pair (sort_key fst ps)) @ CHR 0x7D # r'"
    using JObj.prems(5) unfolding w canonical_obj by simp
  have step: "?g x = ?g y \<and> q = q'"
    if x: "x \<in> set (sort_key fst kvs)" and y: "y \<in> set (sort_key fst ps)"
      and b: "boundary q" "boundary q'" and e: "enc_pair x @ q = enc_pair y @ q'" for x y q q'
  proof -
    from e have "fst x = fst y" and v: "canonical_bytes (snd x) @ q = canonical_bytes (snd y) @ q'"
      using enc_str_prefix [of "fst x" "CHR 0x3A # canonical_bytes (snd x) @ q" "fst y"]
      by (auto simp: enc_pair_def)
    moreover have "json_norm (snd x) = json_norm (snd y) \<and> q = q'"
      using JObj.IH [of x "snd x" "snd y" q q'] x y b v JObj.prems(1,2) w
      by (cases x) auto
    ultimately show ?thesis by simp
  qed
  have "map ?g (sort_key fst kvs) = map ?g (sort_key fst ps) \<and> r = r'"
    by (rule join_comma_prefix [OF step _ _ eq]) (simp_all add: enc_pair_start closer_def)
  then show ?case
    unfolding w json_norm.simps sort_key_map_pair by (simp add: case_prod_unfold)
qed

lemma canonical_norm:
  "float_free v \<Longrightarrow> float_free w \<Longrightarrow> canonical_bytes v = canonical_bytes w \<Longrightarrow>
   json_norm v = json_norm w"
  using canonical_prefix [of v w "[]" "[]"] by simp

text \<open>A digest names one statement as long as the two messages do not collide.\<close>

lemma digest_norm:
  "digest cr v = digest cr w \<Longrightarrow> no_collision cr v w \<Longrightarrow> float_free v \<Longrightarrow> float_free w \<Longrightarrow>
   json_norm v = json_norm w"
  by (rule canonical_norm) (simp_all add: no_collision_def)

text \<open>
  C26. The canonical encoding is injective: two float-free values with the same canonical bytes are
  equal up to the order of the keys of their objects. So what a node signs or hashes determines
  every field of the statement, and no two different statements share a message.
\<close>

theorem canonical_bytes_injective:
  "float_free v \<Longrightarrow> float_free w \<Longrightarrow> canonical_bytes v = canonical_bytes w \<Longrightarrow>
   json_norm v = json_norm w"
  by (rule canonical_norm)

theorem canonical_bytes_injective_witness:
  "json_norm (JObj [(''b'', JInt 2), (''a'', JInt (- 1))]) =
   json_norm (JObj [(''a'', JInt (- 1)), (''b'', JInt 2)])"
  by (rule canonical_bytes_injective) (simp_all add: canonical_obj)

subsection \<open>An instance of the parameters\<close>

text \<open>
  The instance the witnesses are evaluated at: the hash is the identity and a signature is the
  private key, which also serves as public key, so hashes do not collide and signatures verify.
\<close>

definition demo_crypto :: crypto where
  "demo_crypto = \<lparr>sha256 = (\<lambda>m. m), ed25519_public = (\<lambda>sk. sk), ed25519_sign = (\<lambda>sk m. sk),
     ed25519_verify = (\<lambda>pk m s. s = pk)\<rparr>"

lemma demo_verify [simp]: "verify demo_crypto pk m s \<longleftrightarrow> s = pk"
  by (simp add: verify_def demo_crypto_def)

lemma demo_keys [simp]:
  "public_key demo_crypto kp = private_bytes kp" "sign demo_crypto kp m = private_bytes kp"
  by (simp_all add: public_key_def sign_def demo_crypto_def)

lemma demo_sound [simp]: "sound_signatures demo_crypto"
  by (simp add: sound_signatures_def demo_crypto_def)

lemma demo_no_collision [simp]: "no_collision demo_crypto v w"
  by (auto simp: no_collision_def digest_def demo_crypto_def dest: hex_inject)

lemma canonical_ne: "float_free v \<Longrightarrow> canonical_bytes v \<noteq> []"
  by (cases v) simp_all

lemma demo_digest_ne: "float_free v \<Longrightarrow> digest demo_crypto v \<noteq> []"
  by (simp add: digest_def demo_crypto_def canonical_ne)

end
