(* ===== verification/Model.thy ===== *)
theory Model
  imports Crypto
begin

section \<open>Protocol objects and outcomes (mosaic/model.py, mosaic/ectc.py)\<close>

text \<open>
  The frozen dataclasses are records, their \<open>create\<close> class methods functions into
  \<open>mosaic_error + object\<close>, the JSON statements they hash and sign are written out field by field.
  \<open>mosaic_error\<close> has one constructor per exception class of the package, with its message, and
  \<open>PyKeyError\<close> for the \<open>KeyError\<close> of a failed \<open>d[k]\<close>.
\<close>

record member =
  member_id :: string
  member_keypair :: "keypair option"
  weight :: int
  public_key_override :: "string option"

record state_seal =
  resource_id :: string
  seal_epoch :: int
  version :: int
  state_root :: string
  capability_hash :: string
  owner :: string

definition seal_statement :: "state_seal \<Rightarrow> json" where
  "seal_statement s = JObj
     [(''resource_id'', JStr (resource_id s)), (''epoch'', JInt (seal_epoch s)),
      (''version'', JInt (version s)), (''state_root'', JStr (state_root s)),
      (''capability_hash'', JStr (capability_hash s)), (''owner'', JStr (owner s))]"

definition seal_id :: "crypto \<Rightarrow> state_seal \<Rightarrow> string" where
  "seal_id cr s = digest cr (seal_statement s)"

subsection \<open>Capsules\<close>

record capsule =
  capsule_id :: string
  predecessor_id :: string
  successor_root :: string
  rule_id :: string
  rule_witness :: string
  bundle_id :: "string option"
  attempt :: int
  capsule_epoch :: int
  client_id :: string
  client_public_key :: string
  client_signature :: string

definition opt_str :: "string option \<Rightarrow> json" where
  "opt_str x = (case x of None \<Rightarrow> JNull | Some s \<Rightarrow> JStr s)"

definition unsigned_statement :: "capsule \<Rightarrow> json" where
  "unsigned_statement c = JObj
     [(''protocol'', JStr ''MOSAIC/CAPSULE/v0.1''), (''predecessor_id'', JStr (predecessor_id c)),
      (''successor_root'', JStr (successor_root c)), (''rule_id'', JStr (rule_id c)),
      (''rule_witness'', JStr (rule_witness c)), (''bundle_id'', opt_str (bundle_id c)),
      (''attempt'', JInt (attempt c)), (''epoch'', JInt (capsule_epoch c)),
      (''client_id'', JStr (client_id c)), (''client_public_key'', JStr (hex (client_public_key c)))]"

definition capsule_create ::
  "crypto \<Rightarrow> keypair \<Rightarrow> state_seal \<Rightarrow> string \<Rightarrow> string \<Rightarrow> string \<Rightarrow> int \<Rightarrow> string option \<Rightarrow> capsule" where
  "capsule_create cr client pred root rule wit att bundle =
     (let unsigned = JObj
        [(''protocol'', JStr ''MOSAIC/CAPSULE/v0.1''), (''predecessor_id'', JStr (seal_id cr pred)),
         (''successor_root'', JStr root), (''rule_id'', JStr rule), (''rule_witness'', JStr wit),
         (''bundle_id'', opt_str bundle), (''attempt'', JInt att), (''epoch'', JInt (seal_epoch pred)),
         (''client_id'', JStr (identity cr client)),
         (''client_public_key'', JStr (hex (public_key cr client)))]
      in \<lparr>capsule_id = digest cr unsigned, predecessor_id = seal_id cr pred, successor_root = root,
          rule_id = rule, rule_witness = wit, bundle_id = bundle, attempt = att,
          capsule_epoch = seal_epoch pred, client_id = identity cr client,
          client_public_key = public_key cr client,
          client_signature = sign cr client (canonical_bytes unsigned)\<rparr>)"

definition verify_client_signature :: "crypto \<Rightarrow> capsule \<Rightarrow> bool" where
  "verify_client_signature cr c =
     verify cr (client_public_key c) (canonical_bytes (unsigned_statement c)) (client_signature c)"

subsection \<open>Receipts and the proofs built from them\<close>

record witness_receipt =
  r_capsule_id :: string
  r_predecessor_id :: string
  witness_id :: string
  r_epoch :: int
  r_attempt :: int
  r_status :: string
  r_signature :: string

definition receipt_fields :: "witness_receipt \<Rightarrow> (string \<times> json) list" where
  "receipt_fields r =
     [(''protocol'', JStr ''MOSAIC/RECEIPT/v0.1''), (''capsule_id'', JStr (r_capsule_id r)),
      (''predecessor_id'', JStr (r_predecessor_id r)), (''witness_id'', JStr (witness_id r)),
      (''epoch'', JInt (r_epoch r)), (''attempt'', JInt (r_attempt r)),
      (''status'', JStr (r_status r))]"

definition receipt_statement :: "witness_receipt \<Rightarrow> json" where
  "receipt_statement r = JObj (receipt_fields r)"

definition receipt_id :: "crypto \<Rightarrow> witness_receipt \<Rightarrow> string" where
  "receipt_id cr r =
     digest cr (JObj (receipt_fields r @ [(''signature'', JStr (hex (r_signature r)))]))"

record closure_proof =
  c_capsule_id :: string
  c_predecessor_id :: string
  c_epoch :: int
  c_attempt :: int
  c_signer_ids :: "string list"
  c_receipts :: "witness_receipt list"
  c_proof_id :: string

record conflict_evidence =
  e_predecessor_id :: string
  capsule_a :: string
  capsule_b :: string
  e_signatures :: "string \<times> string"
  evidence_id :: string

record abandon_proof =
  a_predecessor_id :: string
  a_capsule_id :: string
  a_epoch :: int
  a_attempt :: int
  a_signer_ids :: "string list"
  a_receipts :: "witness_receipt list"
  a_proof_id :: string

record bundle_closure =
  b_bundle_id :: string
  closure_ids :: "string list"
  b_proof_id :: string

datatype mosaic_error =
    MosaicError string
  | CapsuleInvalid string
  | ClosureInvalid string
  | ConflictDetected conflict_evidence
  | PyKeyError string

definition member_public_key :: "crypto \<Rightarrow> member \<Rightarrow> mosaic_error + string" where
  "member_public_key cr m =
     (case member_keypair m of
        Some kp \<Rightarrow> Inr (public_key cr kp)
      | None \<Rightarrow> (case public_key_override m of
          Some pk \<Rightarrow> Inr pk
        | None \<Rightarrow> Inl (MosaicError ''member has no public key'')))"

definition closure_statement ::
  "crypto \<Rightarrow> string \<Rightarrow> string \<Rightarrow> int \<Rightarrow> int \<Rightarrow> witness_receipt list \<Rightarrow> json" where
  "closure_statement cr cid pid ep att rs = JObj
     [(''protocol'', JStr ''MOSAIC/CLOSURE/v0.1''), (''capsule_id'', JStr cid),
      (''predecessor_id'', JStr pid), (''epoch'', JInt ep), (''attempt'', JInt att),
      (''receipts'', JArr (map (\<lambda>r. JStr (receipt_id cr r)) rs))]"

text \<open>\<open>same_capsule\<close> is the negation of the \<open>any(... != first....)\<close> test of both proofs.\<close>

definition same_capsule :: "witness_receipt \<Rightarrow> witness_receipt \<Rightarrow> bool" where
  "same_capsule first r \<longleftrightarrow> r_capsule_id r = r_capsule_id first
     \<and> r_predecessor_id r = r_predecessor_id first \<and> r_epoch r = r_epoch first
     \<and> r_attempt r = r_attempt first"

definition closure_create :: "crypto \<Rightarrow> witness_receipt list \<Rightarrow> mosaic_error + closure_proof" where
  "closure_create cr receipts =
     (case sort_key witness_id receipts of
        [] \<Rightarrow> Inl (ClosureInvalid ''closure requires receipts'')
      | first # rest \<Rightarrow>
          (let ordered = first # rest in
           if \<not> (\<forall>r \<in> set ordered. r_status r = ''ACCEPT'' \<and> same_capsule first r)
           then Inl (ClosureInvalid ''receipts do not describe one capsule'')
           else Inr \<lparr>c_capsule_id = r_capsule_id first, c_predecessor_id = r_predecessor_id first,
                     c_epoch = r_epoch first, c_attempt = r_attempt first,
                     c_signer_ids = map witness_id ordered, c_receipts = ordered,
                     c_proof_id = digest cr (closure_statement cr (r_capsule_id first)
                       (r_predecessor_id first) (r_epoch first) (r_attempt first) ordered)\<rparr>))"

definition conflict_create :: "crypto \<Rightarrow> capsule \<Rightarrow> capsule \<Rightarrow> mosaic_error + conflict_evidence" where
  "conflict_create cr c1 c2 =
     (if predecessor_id c1 \<noteq> predecessor_id c2
      then Inl (MosaicError ''conflict requires one predecessor'')
      else if capsule_id c1 = capsule_id c2
      then Inl (MosaicError ''conflict requires distinct capsules'')
      else (let (x, y) = (if capsule_id c1 \<le> capsule_id c2 then (c1, c2) else (c2, c1))
            in Inr \<lparr>e_predecessor_id = predecessor_id c1, capsule_a = capsule_id x,
                    capsule_b = capsule_id y,
                    e_signatures = (client_signature x, client_signature y),
                    evidence_id = digest cr (JObj
                      [(''protocol'', JStr ''MOSAIC/CONFLICT/v0.1''),
                       (''predecessor_id'', JStr (predecessor_id c1)),
                       (''capsule_a'', JStr (capsule_id x)), (''capsule_b'', JStr (capsule_id y)),
                       (''signatures'', JArr [JStr (hex (client_signature x)),
                                              JStr (hex (client_signature y))])])\<rparr>))"

definition abandon_create :: "crypto \<Rightarrow> witness_receipt list \<Rightarrow> mosaic_error + abandon_proof" where
  "abandon_create cr receipts =
     (case sort_key witness_id receipts of
        [] \<Rightarrow> Inl (ClosureInvalid ''abandon proof requires abandon receipts'')
      | first # rest \<Rightarrow>
          (let ordered = first # rest in
           if \<not> (\<forall>r \<in> set ordered. r_status r = ''ABANDON'')
           then Inl (ClosureInvalid ''abandon proof requires abandon receipts'')
           else if \<not> (\<forall>r \<in> set ordered. same_capsule first r)
           then Inl (ClosureInvalid ''abandon receipts do not match'')
           else Inr \<lparr>a_predecessor_id = r_predecessor_id first, a_capsule_id = r_capsule_id first,
                     a_epoch = r_epoch first, a_attempt = r_attempt first,
                     a_signer_ids = map witness_id ordered, a_receipts = ordered,
                     a_proof_id = digest cr (JObj
                       [(''protocol'', JStr ''MOSAIC/ABANDON/v0.1''),
                        (''capsule_id'', JStr (r_capsule_id first)),
                        (''predecessor_id'', JStr (r_predecessor_id first)),
                        (''epoch'', JInt (r_epoch first)), (''attempt'', JInt (r_attempt first)),
                        (''receipts'', JArr (map (\<lambda>r. JStr (receipt_id cr r)) ordered))])\<rparr>))"

definition bundle_create :: "crypto \<Rightarrow> string \<Rightarrow> closure_proof list \<Rightarrow> mosaic_error + bundle_closure" where
  "bundle_create cr bid closures =
     (case sort_key c_predecessor_id closures of
        [] \<Rightarrow> Inl (ClosureInvalid ''bundle closure requires domain closures'')
      | first # rest \<Rightarrow>
          (let ordered = first # rest in
           Inr \<lparr>b_bundle_id = bid, closure_ids = map c_proof_id ordered,
                b_proof_id = digest cr (JObj
                  [(''protocol'', JStr ''MOSAIC/BUNDLE-CLOSURE/v0.1''), (''bundle_id'', JStr bid),
                   (''closures'', JArr (map (\<lambda>c. JStr (c_proof_id c)) ordered))])\<rparr>))"

subsection \<open>Evidence-complete outcomes (ectc.py)\<close>

datatype ectc_status = CLOSED | CONFLICT | ABANDONED

record transition_outcome =
  o_capsule_id :: string
  o_predecessor_id :: string
  o_status :: ectc_status
  evidence_ids :: "string list"
  successor_seal_id :: "string option"
  conflicting_capsule_ids :: "string list"

definition is_evidence_complete :: "transition_outcome \<Rightarrow> bool" where
  "is_evidence_complete t =
     (case o_status t of
        CLOSED \<Rightarrow> evidence_ids t \<noteq> [] \<and> (case successor_seal_id t of None \<Rightarrow> False | Some s \<Rightarrow> s \<noteq> [])
      | _ \<Rightarrow> evidence_ids t \<noteq> [])"

subsection \<open>Facts about the constructors\<close>

lemma capsule_create_statement:
  "unsigned_statement (capsule_create cr kp pred root rule wit att bundle) = JObj
     [(''protocol'', JStr ''MOSAIC/CAPSULE/v0.1''), (''predecessor_id'', JStr (seal_id cr pred)),
      (''successor_root'', JStr root), (''rule_id'', JStr rule), (''rule_witness'', JStr wit),
      (''bundle_id'', opt_str bundle), (''attempt'', JInt att), (''epoch'', JInt (seal_epoch pred)),
      (''client_id'', JStr (identity cr kp)),
      (''client_public_key'', JStr (hex (public_key cr kp)))]"
  by (simp add: capsule_create_def unsigned_statement_def Let_def)

lemma capsule_create_id:
  "capsule_id (capsule_create cr kp pred root rule wit att bundle) =
   digest cr (unsigned_statement (capsule_create cr kp pred root rule wit att bundle))"
  unfolding capsule_create_statement by (simp add: capsule_create_def Let_def)

lemma capsule_create_verifies:
  "sound_signatures cr \<Longrightarrow> verify_client_signature cr (capsule_create cr kp pred root rule wit att bundle)"
  unfolding verify_client_signature_def capsule_create_statement
  by (simp add: capsule_create_def Let_def)

lemma closure_create_Inr:
  assumes "closure_create cr receipts = Inr cl"
  shows "c_receipts cl = sort_key witness_id receipts"
    and "c_signer_ids cl = map witness_id (c_receipts cl)"
    and "r \<in> set receipts \<Longrightarrow> r_status r = ''ACCEPT'' \<and> r_capsule_id r = c_capsule_id cl
           \<and> r_predecessor_id r = c_predecessor_id cl \<and> r_epoch r = c_epoch cl
           \<and> r_attempt r = c_attempt cl"
    and "c_proof_id cl = digest cr (closure_statement cr (c_capsule_id cl) (c_predecessor_id cl)
           (c_epoch cl) (c_attempt cl) (c_receipts cl))"
    and "receipts \<noteq> []"
proof -
  from assms obtain first rest where o: "sort_key witness_id receipts = first # rest"
    by (auto simp: closure_create_def split: list.splits)
  then have s: "set receipts = set (first # rest)" by (metis set_sort)
  from assms o show "c_receipts cl = sort_key witness_id receipts"
    "c_signer_ids cl = map witness_id (c_receipts cl)"
    "c_proof_id cl = digest cr (closure_statement cr (c_capsule_id cl) (c_predecessor_id cl)
           (c_epoch cl) (c_attempt cl) (c_receipts cl))"
    by (auto simp: closure_create_def Let_def split: if_splits)
  from assms o s show "r \<in> set receipts \<Longrightarrow> r_status r = ''ACCEPT'' \<and> r_capsule_id r = c_capsule_id cl
           \<and> r_predecessor_id r = c_predecessor_id cl \<and> r_epoch r = c_epoch cl
           \<and> r_attempt r = c_attempt cl"
    by (auto simp: closure_create_def Let_def same_capsule_def split: if_splits)
  from o show "receipts \<noteq> []" by auto
qed

lemma closure_create_total:
  assumes "receipts \<noteq> []"
    and "\<forall>r \<in> set receipts. r_status r = ''ACCEPT'' \<and> r_capsule_id r = cid
           \<and> r_predecessor_id r = pid \<and> r_epoch r = ep \<and> r_attempt r = att"
  shows "\<exists>cl. closure_create cr receipts = Inr cl \<and> c_capsule_id cl = cid
           \<and> c_predecessor_id cl = pid \<and> c_epoch cl = ep \<and> c_attempt cl = att"
proof -
  from assms(1) obtain first rest where o: "sort_key witness_id receipts = first # rest"
    by (cases "sort_key witness_id receipts") (auto dest: arg_cong [where f = set])
  then have "set receipts = set (first # rest)" by (metis set_sort)
  with assms(2) o show ?thesis
    by (auto simp: closure_create_def Let_def same_capsule_def)
qed

lemma conflict_create_Inr:
  assumes "conflict_create cr c1 c2 = Inr e"
  shows "predecessor_id c1 = predecessor_id c2" "capsule_id c1 \<noteq> capsule_id c2"
    "e_predecessor_id e = predecessor_id c1" "{capsule_a e, capsule_b e} = {capsule_id c1, capsule_id c2}"
  using assms by (auto simp: conflict_create_def Let_def split: if_splits)

lemma conflict_create_total:
  "predecessor_id c1 = predecessor_id c2 \<Longrightarrow> capsule_id c1 \<noteq> capsule_id c2 \<Longrightarrow>
   \<exists>e. conflict_create cr c1 c2 = Inr e"
  by (simp add: conflict_create_def Let_def split: prod.splits)

lemma seal_statement_inject:
  "json_norm (seal_statement s) = json_norm (seal_statement t) \<Longrightarrow> s = t"
  by (cases s; cases t) (simp add: seal_statement_def)

lemma seal_statement_float_free [simp]: "float_free (seal_statement s)"
  by (simp add: seal_statement_def)

lemma seal_id_inject:
  "seal_id cr s = seal_id cr t \<Longrightarrow> no_collision cr (seal_statement s) (seal_statement t) \<Longrightarrow> s = t"
  by (rule seal_statement_inject, rule digest_norm) (simp_all add: seal_id_def)

end
