(* ===== verification/Safety.thy ===== *)
theory Safety
  imports Model
begin

section \<open>Quorum intersection (mosaic/safety.py) and the committee interface\<close>

text \<open>
  The functions of safety.py, which check finite instances of the quorum argument, and the
  argument itself as the interface \<open>committee\<close>: a state with a finite set of voters, weights
  that are not negative and a threshold of \<open>(2 * total) // 3 + 1\<close>. Every component that counts
  weight against such a threshold interprets it on its own state.
\<close>

subsection \<open>The committee interface\<close>

locale committee =
  fixes wf_committee :: "'s \<Rightarrow> bool"
    and voters :: "'s \<Rightarrow> 'v set"
    and vote_weight :: "'s \<Rightarrow> 'v \<Rightarrow> int"
    and quorum :: "'s \<Rightarrow> int"
  assumes voters_finite: "wf_committee s \<Longrightarrow> finite (voters s)"
    and weight_nonneg: "wf_committee s \<Longrightarrow> v \<in> voters s \<Longrightarrow> 0 \<le> vote_weight s v"
    and quorum_two_thirds:
      "wf_committee s \<Longrightarrow> quorum s = (2 * (\<Sum>v \<in> voters s. vote_weight s v)) div 3 + 1"
begin

lemma reaches_iff:
  "wf_committee s \<Longrightarrow>
   quorum s \<le> (\<Sum>v \<in> A. vote_weight s v) \<longleftrightarrow>
   2 * (\<Sum>v \<in> voters s. vote_weight s v) < 3 * (\<Sum>v \<in> A. vote_weight s v)"
  using quorum_two_thirds [of s] by linarith

lemma overlap_weight:
  assumes wf: "wf_committee s" and A: "A \<subseteq> voters s" and B: "B \<subseteq> voters s"
    and qA: "quorum s \<le> (\<Sum>v \<in> A. vote_weight s v)"
    and qB: "quorum s \<le> (\<Sum>v \<in> B. vote_weight s v)"
  shows "(\<Sum>v \<in> voters s. vote_weight s v) < 3 * (\<Sum>v \<in> A \<inter> B. vote_weight s v)"
proof -
  let ?w = "\<lambda>X. \<Sum>v \<in> X. vote_weight s v"
  have fin: "finite A" "finite B" using voters_finite [OF wf] A B by (auto intro: finite_subset)
  have "?w (A \<union> B) + ?w (A \<inter> B) = ?w A + ?w B"
    using fin by (rule sum.union_inter)
  moreover have "?w (A \<union> B) \<le> ?w (voters s)"
    using voters_finite [OF wf] A B weight_nonneg [OF wf] by (intro sum_mono2) auto
  ultimately show ?thesis using qA qB reaches_iff [OF wf] by (auto simp: algebra_simps)
qed

lemma honest_overlap_weight:
  assumes wf: "wf_committee s" and A: "A \<subseteq> voters s" and B: "B \<subseteq> voters s"
    and qA: "quorum s \<le> (\<Sum>v \<in> A. vote_weight s v)"
    and qB: "quorum s \<le> (\<Sum>v \<in> B. vote_weight s v)"
    and byz: "F \<subseteq> voters s"
      "3 * (\<Sum>v \<in> F. vote_weight s v) \<le> (\<Sum>v \<in> voters s. vote_weight s v)"
  shows "0 < (\<Sum>v \<in> A \<inter> B - F. vote_weight s v)"
proof -
  let ?w = "\<lambda>X. \<Sum>v \<in> X. vote_weight s v"
  have fin: "finite (A \<inter> B)" "finite F"
    using voters_finite [OF wf] A byz(1) by (auto intro: finite_subset)
  have "?w (A \<inter> B) = ?w (A \<inter> B - F) + ?w (A \<inter> B \<inter> F)"
    using fin sum.Int_Diff [of "A \<inter> B" "vote_weight s" F] by simp
  moreover have "?w (A \<inter> B \<inter> F) \<le> ?w F"
    using fin byz(1) weight_nonneg [OF wf] by (intro sum_mono2) auto
  ultimately show ?thesis using overlap_weight [OF wf A B qA qB] byz(2) by linarith
qed

lemma honest_overlap:
  assumes "wf_committee s" "A \<subseteq> voters s" "B \<subseteq> voters s"
    "quorum s \<le> (\<Sum>v \<in> A. vote_weight s v)" "quorum s \<le> (\<Sum>v \<in> B. vote_weight s v)"
    "F \<subseteq> voters s" "3 * (\<Sum>v \<in> F. vote_weight s v) \<le> (\<Sum>v \<in> voters s. vote_weight s v)"
  obtains h where "h \<in> A" "h \<in> B" "h \<notin> F" "h \<in> voters s"
proof -
  from honest_overlap_weight [OF assms] have "A \<inter> B - F \<noteq> {}" by (metis less_irrefl sum.empty)
  with assms(2) that show ?thesis by blast
qed

lemma everyone_reaches:
  "wf_committee s \<Longrightarrow> 0 < (\<Sum>v \<in> voters s. vote_weight s v) \<Longrightarrow>
   quorum s \<le> (\<Sum>v \<in> voters s. vote_weight s v)"
  by (simp add: reaches_iff)

lemma superset_reaches:
  assumes "wf_committee s" "A \<subseteq> B" "B \<subseteq> voters s" "quorum s \<le> (\<Sum>v \<in> A. vote_weight s v)"
  shows "quorum s \<le> (\<Sum>v \<in> B. vote_weight s v)"
proof -
  have "(\<Sum>v \<in> A. vote_weight s v) \<le> (\<Sum>v \<in> B. vote_weight s v)"
    using assms voters_finite [OF assms(1)] weight_nonneg [OF assms(1)]
    by (intro sum_mono2) (auto intro: finite_subset)
  with assms(4) show ?thesis by linarith
qed

end

subsection \<open>The functions of safety.py\<close>

datatype value_error = ValueError string

definition unweighted_fault_bound :: "int \<Rightarrow> value_error + int" where
  "unweighted_fault_bound n =
     (if n < 1 then Inl (ValueError ''committee size must be positive'') else Inr ((n - 1) div 3))"

definition unweighted_quorum_size :: "int \<Rightarrow> value_error + int" where
  "unweighted_quorum_size n =
     bindE (unweighted_fault_bound n) (\<lambda>f.
       if n < 3 * f + 1 then Inl (ValueError ''committee does not satisfy N >= 3f + 1'')
       else Inr (2 * f + 1))"

definition unweighted_honest_intersection ::
  "int \<Rightarrow> int list \<Rightarrow> int list \<Rightarrow> int list \<Rightarrow> value_error + bool" where
  "unweighted_honest_intersection n quorum_a quorum_b byzantine =
     (let universe = {0..<n}; a = set quorum_a; b = set quorum_b; byz = set byzantine
      in bindE (unweighted_quorum_size n) (\<lambda>q.
         if \<not> a \<subseteq> universe \<or> \<not> b \<subseteq> universe \<or> \<not> byz \<subseteq> universe then Inr False
         else bindE (unweighted_fault_bound n) (\<lambda>f.
           if int (card byz) > f \<or> int (card a) < q \<or> int (card b) < q then Inr False
           else Inr ((a \<inter> b) - byz \<noteq> {}))))"

definition node_weight :: "(string, int) dict \<Rightarrow> string \<Rightarrow> int" where
  "node_weight weights node = (case map_of weights node of None \<Rightarrow> 0 | Some w \<Rightarrow> w)"

definition weighted_quorum_threshold :: "(string, int) dict \<Rightarrow> value_error + int" where
  "weighted_quorum_threshold weights =
     (let total = sum_list (dict_values weights)
      in if total \<le> 0 \<or> (\<exists>w \<in> set (dict_values weights). w \<le> 0)
         then Inl (ValueError ''weights must be positive and have positive total'')
         else Inr ((2 * total) div 3 + 1))"

text \<open>The \<open>weights[node]\<close> of the code run after the subset tests, so every key is present.\<close>

definition weighted_honest_intersection ::
  "(string, int) dict \<Rightarrow> string list \<Rightarrow> string list \<Rightarrow> string list \<Rightarrow> bool" where
  "weighted_honest_intersection weights quorum_a quorum_b byzantine =
     (let universe = set (dict_keys weights);
          a = set quorum_a; b = set quorum_b; byz = set byzantine
      in if \<not> a \<subseteq> universe \<or> \<not> b \<subseteq> universe \<or> \<not> byz \<subseteq> universe then False
         else (let total = sum_list (dict_values weights);
                   byz_weight = (\<Sum>v \<in> byz. node_weight weights v);
                   weight_a = (\<Sum>v \<in> a. node_weight weights v);
                   weight_b = (\<Sum>v \<in> b. node_weight weights v)
               in if 3 * byz_weight > total then False
                  else if 3 * weight_a \<le> 2 * total \<or> 3 * weight_b \<le> 2 * total then False
                  else (\<Sum>v \<in> (a \<inter> b) - byz. node_weight weights v) > 0))"

definition closure_exclusivity_premise :: "string set \<Rightarrow> string set \<Rightarrow> string set \<Rightarrow> bool" where
  "closure_exclusivity_premise quorum_a quorum_b honest_validators \<longleftrightarrow>
     (quorum_a \<inter> quorum_b) \<inter> honest_validators \<noteq> {}"

subsection \<open>Model B: weighted committees\<close>

definition positive_weights :: "(string, int) dict \<Rightarrow> bool" where
  "positive_weights weights \<longleftrightarrow> wf_dict weights \<and> (\<forall>w \<in> set (dict_values weights). 0 < w)"

definition threshold_of :: "(string, int) dict \<Rightarrow> int" where
  "threshold_of weights = (2 * sum_list (dict_values weights)) div 3 + 1"

lemma sum_values_as_sum:
  "wf_dict weights \<Longrightarrow>
   sum_list (dict_values weights) = (\<Sum>v \<in> set (dict_keys weights). node_weight weights v)"
  using dict_sum_as_sum [of weights "\<lambda>w. w"]
  by (simp add: dict_sum_def old_measure_def node_weight_def)

lemma node_weight_pos:
  "positive_weights weights \<Longrightarrow> v \<in> set (dict_keys weights) \<Longrightarrow> 0 < node_weight weights v"
  by (auto simp: positive_weights_def node_weight_def split: option.splits
      dest: map_of_SomeD weak_map_of_SomeI)

interpretation model_b: committee positive_weights "\<lambda>w. set (dict_keys w)" node_weight threshold_of
proof unfold_locales
  fix s :: "(string, int) dict" and v
  assume wf: "positive_weights s"
  show "finite (set (dict_keys s))" by simp
  show "v \<in> set (dict_keys s) \<Longrightarrow> 0 \<le> node_weight s v"
    using node_weight_pos [OF wf] by force
  from wf show "threshold_of s = 2 * (\<Sum>v \<in> set (dict_keys s). node_weight s v) div 3 + 1"
    by (simp add: threshold_of_def sum_values_as_sum positive_weights_def)
qed

lemma weighted_quorum_threshold_Inr:
  "weighted_quorum_threshold weights = Inr t \<Longrightarrow> wf_dict weights \<Longrightarrow>
   positive_weights weights \<and> t = threshold_of weights"
  by (auto simp: weighted_quorum_threshold_def positive_weights_def threshold_of_def Let_def
      not_le split: if_splits)

text \<open>
  Weighted quorum intersection: whenever \<open>weighted_quorum_threshold\<close> accepts the weights, two
  signer sets that both reach that threshold and a Byzantine set of at most one third of the
  weight pass \<open>weighted_honest_intersection\<close>: the quorums share positive honest weight.
\<close>

theorem weighted_intersection_holds:
  assumes "wf_dict weights" and t: "weighted_quorum_threshold weights = Inr t"
    and sub: "set qa \<subseteq> set (dict_keys weights)" "set qb \<subseteq> set (dict_keys weights)"
      "set byz \<subseteq> set (dict_keys weights)"
    and q: "t \<le> (\<Sum>v \<in> set qa. node_weight weights v)" "t \<le> (\<Sum>v \<in> set qb. node_weight weights v)"
    and byz: "3 * (\<Sum>v \<in> set byz. node_weight weights v) \<le> sum_list (dict_values weights)"
  shows "weighted_honest_intersection weights qa qb byz"
proof -
  from weighted_quorum_threshold_Inr [OF t assms(1)]
  have pos: "positive_weights weights" and th: "t = threshold_of weights" by auto
  note total = sum_values_as_sum [OF assms(1)]
  have "0 < (\<Sum>v \<in> set qa \<inter> set qb - set byz. node_weight weights v)"
    using sub q byz pos by (intro model_b.honest_overlap_weight) (auto simp: th total)
  moreover have "2 * sum_list (dict_values weights) < 3 * (\<Sum>v \<in> set qa. node_weight weights v)"
    "2 * sum_list (dict_values weights) < 3 * (\<Sum>v \<in> set qb. node_weight weights v)"
    using q model_b.reaches_iff [OF pos] by (auto simp: th total)
  ultimately show ?thesis
    using sub byz by (auto simp: weighted_honest_intersection_def Let_def)
qed

theorem weighted_intersection_holds_witness:
  "weighted_honest_intersection [(''a'', 4), (''b'', 3), (''c'', 2), (''d'', 1)]
     [''a'', ''b''] [''a'', ''c'', ''d''] [''d'']"
  by (rule weighted_intersection_holds [where t = 7])
     (simp_all add: weighted_quorum_threshold_def Let_def node_weight_def)

subsection \<open>Model A: unweighted committees\<close>

text \<open>
  With \<open>n = 3f + 1\<close> members the quorum size \<open>2f + 1\<close> is the committee threshold and two
  quorums meet in an honest member.
\<close>

definition exact_committee :: "int \<Rightarrow> bool" where
  "exact_committee n \<longleftrightarrow> 1 \<le> n \<and> n mod 3 = 1"

definition quorum_size_of :: "int \<Rightarrow> int" where
  "quorum_size_of n = 2 * ((n - 1) div 3) + 1"

lemma unweighted_quorum_size_Inr:
  "1 \<le> n \<Longrightarrow> unweighted_quorum_size n = Inr (quorum_size_of n)"
  by (auto simp: unweighted_quorum_size_def unweighted_fault_bound_def quorum_size_of_def)

interpretation model_a: committee exact_committee "\<lambda>n. {0..<n}" "\<lambda>_ _. 1" quorum_size_of
proof unfold_locales
  fix n :: int and v :: int
  assume "exact_committee n"
  then obtain k where "n = 3 * k + 1" "0 \<le> k"
    by (metis exact_committee_def add.commute div_mult_mod_eq mult.commute pos_imp_zdiv_nonneg_iff
        zero_less_numeral zero_le_one order.trans)
  then show "quorum_size_of n = 2 * (\<Sum>v \<in> {0..<n}. 1) div 3 + 1"
    by (simp add: quorum_size_of_def)
qed simp_all

text \<open>
  Unweighted quorum intersection: in a committee of \<open>3f + 1\<close> members, any two sets of
  \<open>unweighted_quorum_size\<close> members and at most \<open>f\<close> Byzantine ones pass
  \<open>unweighted_honest_intersection\<close>.
\<close>

theorem unweighted_intersection_holds:
  assumes "1 \<le> n" "n mod 3 = 1"
    and sub: "set qa \<subseteq> {0..<n}" "set qb \<subseteq> {0..<n}" "set byz \<subseteq> {0..<n}"
    and q: "quorum_size_of n \<le> int (card (set qa))" "quorum_size_of n \<le> int (card (set qb))"
    and byz: "int (card (set byz)) \<le> (n - 1) div 3"
  shows "unweighted_honest_intersection n qa qb byz = Inr True"
proof -
  have wf: "exact_committee n" using assms(1,2) by (simp add: exact_committee_def)
  have "3 * ((n - 1) div 3) \<le> n" by simp
  with byz have "3 * int (card (set byz)) \<le> n" by linarith
  then have "0 < (\<Sum>v \<in> set qa \<inter> set qb - set byz. 1 :: int)"
    using sub q assms(1) by (intro model_a.honest_overlap_weight [OF wf]) simp_all
  then have "set qa \<inter> set qb - set byz \<noteq> {}" by fastforce
  with assms show ?thesis
    by (simp add: unweighted_honest_intersection_def unweighted_quorum_size_Inr
        unweighted_fault_bound_def Let_def)
qed

theorem unweighted_intersection_holds_witness:
  "unweighted_honest_intersection 4 [0, 1, 2] [1, 2, 3] [1] = Inr True"
  by (rule unweighted_intersection_holds) (simp_all add: quorum_size_of_def)

text \<open>
  The quorum size \<open>2f + 1\<close> is not enough when the committee has more than \<open>3f + 1\<close>
  members, although \<open>unweighted_quorum_size\<close> accepts every \<open>n \<ge> 3f + 1\<close>: six members have
  two quorums of the accepted size with no common member at all, and five members have two
  quorums whose only common member may be the Byzantine one.
\<close>

theorem unweighted_quorum_size_unsafe:
  "unweighted_quorum_size 6 = Inr 3 \<and>
   unweighted_honest_intersection 6 [0, 1, 2] [3, 4, 5] [] = Inr False \<and>
   unweighted_honest_intersection 5 [0, 1, 2] [2, 3, 4] [2] = Inr False"
  by (auto simp: unweighted_honest_intersection_def unweighted_quorum_size_def
      unweighted_fault_bound_def Let_def)

end
