(* ===== verification/Protocol.thy ===== *)
theory Protocol
  imports Safety
begin

section \<open>The protocol state machine (mosaic/protocol.py)\<close>

text \<open>
  \<open>MosaicProtocol\<close> is the record \<open>protocol\<close>; its dictionaries keep their insertion order. Each
  method is one function. A method that assigns to \<open>self\<close> returns the new state beside its
  result or exception; a method that only reads returns a result. \<open>verify_receipt\<close> may raise,
  because \<open>member.public_key\<close> raises for a member with neither key.
\<close>

record protocol =
  members :: "(string, member) dict"
  epoch :: int
  current_seals :: "(string, state_seal) dict"
  known_seals :: "(string, state_seal) dict"
  locks :: "(string, string \<times> int \<times> string) dict"
  capsules :: "(string, capsule) dict"
  closures :: "(string, closure_proof) dict"
  abandons :: "(string, abandon_proof) dict"
  conflicts :: "(string, conflict_evidence) dict"

type_synonym 'a p_outcome = "(protocol, mosaic_error, 'a) outcome"

definition protocol_init :: "(string, member) dict \<Rightarrow> int \<Rightarrow> protocol" where
  "protocol_init ms ep = \<lparr>members = ms, epoch = ep, current_seals = [], known_seals = [],
     locks = [], capsules = [], closures = [], abandons = [], conflicts = []\<rparr>"

definition total_weight :: "protocol \<Rightarrow> int" where
  "total_weight p = sum_list (map weight (dict_values (members p)))"

definition threshold :: "protocol \<Rightarrow> int" where
  "threshold p = (2 * total_weight p) div 3 + 1"

definition get_member :: "protocol \<Rightarrow> string \<Rightarrow> mosaic_error + member" where
  "get_member p mid = (case map_of (members p) mid of
     None \<Rightarrow> Inl (MosaicError (''unknown witness: '' @ mid)) | Some m \<Rightarrow> Inr m)"

text \<open>\<open>self.members[x].weight\<close> where the code has just checked that \<open>x\<close> is a member.\<close>

definition member_weight :: "protocol \<Rightarrow> string \<Rightarrow> int" where
  "member_weight p mid = (case map_of (members p) mid of None \<Rightarrow> 0 | Some m \<Rightarrow> weight m)"

subsection \<open>Resources and capsules\<close>

definition create_resource ::
  "crypto \<Rightarrow> string \<Rightarrow> string \<Rightarrow> string \<Rightarrow> string \<Rightarrow> protocol \<Rightarrow> state_seal p_outcome" where
  "create_resource cr rid own root secret p =
     (if has_key (current_seals p) rid then (Inl (MosaicError ''resource already exists''), p)
      else (let seal = \<lparr>resource_id = rid, seal_epoch = epoch p, version = 0, state_root = root,
                        capability_hash = digest cr (JStr secret), owner = own\<rparr>
            in (Inr seal, p\<lparr>current_seals := AList.update rid seal (current_seals p),
                            known_seals := AList.update (seal_id cr seal) seal (known_seals p)\<rparr>)))"

definition create_capsule ::
  "crypto \<Rightarrow> keypair \<Rightarrow> state_seal \<Rightarrow> string \<Rightarrow> string \<Rightarrow> string \<Rightarrow> int \<Rightarrow> string option \<Rightarrow>
   protocol \<Rightarrow> capsule p_outcome" where
  "create_capsule cr client pred root rule wit att bundle p =
     (if map_of (current_seals p) (resource_id pred) \<noteq> Some pred
      then (Inl (CapsuleInvalid ''predecessor is not the current seal''), p)
      else if seal_epoch pred \<noteq> epoch p
      then (Inl (CapsuleInvalid ''predecessor belongs to another epoch''), p)
      else (let c = capsule_create cr client pred root rule wit att bundle
            in (Inr c, p\<lparr>capsules := AList.update (capsule_id c) c (capsules p)\<rparr>)))"

definition validate_capsule :: "crypto \<Rightarrow> protocol \<Rightarrow> capsule \<Rightarrow> mosaic_error + unit" where
  "validate_capsule cr p c =
     (case map_of (known_seals p) (predecessor_id c) of
        None \<Rightarrow> Inl (CapsuleInvalid ''unknown predecessor seal'')
      | Some current \<Rightarrow>
          if capsule_epoch c \<noteq> epoch p \<or> seal_epoch current \<noteq> epoch p
          then Inl (CapsuleInvalid ''capsule epoch mismatch'')
          else if \<not> verify_client_signature cr c
          then Inl (CapsuleInvalid ''invalid client signature'')
          else if attempt c < 0 then Inl (CapsuleInvalid ''attempt cannot be negative'')
          else if successor_root c = [] then Inl (CapsuleInvalid ''successor root is empty'')
          else Inr ())"

subsection \<open>Receipts\<close>

definition unsigned_receipt :: "string \<Rightarrow> capsule \<Rightarrow> string \<Rightarrow> json" where
  "unsigned_receipt mid c status = JObj
     [(''protocol'', JStr ''MOSAIC/RECEIPT/v0.1''), (''capsule_id'', JStr (capsule_id c)),
      (''predecessor_id'', JStr (predecessor_id c)), (''witness_id'', JStr mid),
      (''epoch'', JInt (capsule_epoch c)), (''attempt'', JInt (attempt c)),
      (''status'', JStr status)]"

definition sign_receipt ::
  "crypto \<Rightarrow> member \<Rightarrow> capsule \<Rightarrow> string \<Rightarrow> mosaic_error + witness_receipt" where
  "sign_receipt cr m c status =
     (case member_keypair m of
        None \<Rightarrow> Inl (MosaicError ''validator private key is not loaded on this node'')
      | Some kp \<Rightarrow> Inr \<lparr>r_capsule_id = capsule_id c, r_predecessor_id = predecessor_id c,
          witness_id = member_id m, r_epoch = capsule_epoch c, r_attempt = attempt c,
          r_status = status,
          r_signature = sign cr kp (canonical_bytes (unsigned_receipt (member_id m) c status))\<rparr>)"

definition verify_receipt :: "crypto \<Rightarrow> protocol \<Rightarrow> witness_receipt \<Rightarrow> mosaic_error + bool" where
  "verify_receipt cr p r =
     (case map_of (members p) (witness_id r) of
        None \<Rightarrow> Inr False
      | Some m \<Rightarrow> (case map_of (capsules p) (r_capsule_id r) of
          None \<Rightarrow> Inr False
        | Some c \<Rightarrow>
            if r_predecessor_id r = predecessor_id c
               \<and> r_epoch r = capsule_epoch c \<and> capsule_epoch c = epoch p
               \<and> r_attempt r = attempt c
            then bindE (member_public_key cr m) (\<lambda>pk.
                   Inr (verify cr pk (canonical_bytes (receipt_statement r)) (r_signature r)))
            else Inr False))"

text \<open>
  \<open>record_conflict\<close> is the three-line sequence that witness_receipt repeats: build the evidence,
  store it, raise \<open>ConflictDetected\<close>.
\<close>

definition record_conflict :: "crypto \<Rightarrow> capsule \<Rightarrow> capsule \<Rightarrow> protocol \<Rightarrow> 'a p_outcome" where
  "record_conflict cr first c p =
     (case conflict_create cr first c of
        Inl e \<Rightarrow> (Inl e, p)
      | Inr ev \<Rightarrow> (Inl (ConflictDetected ev),
                   p\<lparr>conflicts := AList.update (evidence_id ev) ev (conflicts p)\<rparr>))"

definition lock_as :: "capsule \<Rightarrow> string \<Rightarrow> protocol \<Rightarrow> protocol" where
  "lock_as c status p =
     p\<lparr>locks := AList.update (predecessor_id c) (capsule_id c, attempt c, status) (locks p),
       capsules := AList.update (capsule_id c) c (capsules p)\<rparr>"

text \<open>The \<open>ACCEPT\<close> branch up to the signature.\<close>

definition accept_lock :: "crypto \<Rightarrow> capsule \<Rightarrow> protocol \<Rightarrow> unit p_outcome" where
  "accept_lock cr c p =
     (let existing = map_of (locks p) (predecessor_id c) in
      case map_of (known_seals p) (predecessor_id c) of
        None \<Rightarrow> (Inl (PyKeyError (predecessor_id c)), p)
      | Some pred \<Rightarrow> (case map_of (current_seals p) (resource_id pred) of
          None \<Rightarrow> (Inl (PyKeyError (resource_id pred)), p)
        | Some current \<Rightarrow>
            if seal_id cr current \<noteq> predecessor_id c
            then (case existing of
                    None \<Rightarrow> (Inl (CapsuleInvalid ''predecessor is not current''), p)
                  | Some (cid, att, st) \<Rightarrow>
                      if cid \<noteq> capsule_id c
                      then (case map_of (capsules p) cid of
                              None \<Rightarrow> (Inl (CapsuleInvalid ''predecessor is not current''), p)
                            | Some first \<Rightarrow> record_conflict cr first c p)
                      else (Inl (CapsuleInvalid ''predecessor is not current''), p))
            else (case existing of
                    None \<Rightarrow> (Inr (), lock_as c ''ACCEPT'' p)
                  | Some (cid, att, st) \<Rightarrow>
                      if cid = capsule_id c \<and> att = attempt c then (Inr (), p)
                      else if st = ''ABANDON'' \<and> attempt c > att
                      then (Inr (), lock_as c ''ACCEPT'' p)
                      else (case map_of (capsules p) cid of
                              None \<Rightarrow> (Inl (PyKeyError cid), p)
                            | Some first \<Rightarrow> record_conflict cr first c p))))"

text \<open>The \<open>ABANDON\<close> branch up to the signature.\<close>

definition abandon_lock :: "crypto \<Rightarrow> capsule \<Rightarrow> protocol \<Rightarrow> unit p_outcome" where
  "abandon_lock cr c p =
     (let existing = map_of (locks p) (predecessor_id c);
          release = (if has_key (closures p) (capsule_id c)
                     then (Inl (MosaicError ''cannot abandon a closed capsule''), p)
                     else (Inr (), lock_as c ''ABANDON'' p))
      in case existing of
           None \<Rightarrow> release
         | Some (cid, att, st) \<Rightarrow>
             if cid \<noteq> capsule_id c \<or> att \<noteq> attempt c
             then (case map_of (capsules p) cid of
                     None \<Rightarrow> (Inl (MosaicError ''cannot abandon an unknown local lock''), p)
                   | Some first \<Rightarrow> record_conflict cr first c p)
             else release)"

definition issue_receipt ::
  "crypto \<Rightarrow> string \<Rightarrow> capsule \<Rightarrow> string \<Rightarrow> protocol \<Rightarrow> witness_receipt p_outcome" where
  "issue_receipt cr mid c status p =
     (if status \<noteq> ''ACCEPT'' \<and> status \<noteq> ''ABANDON''
      then (Inl (MosaicError ''unknown receipt status''), p)
      else (case validate_capsule cr p c of
        Inl e \<Rightarrow> (Inl e, p)
      | Inr _ \<Rightarrow> (case get_member p mid of
          Inl e \<Rightarrow> (Inl e, p)
        | Inr m \<Rightarrow>
            (case (if status = ''ACCEPT'' then accept_lock cr c p else abandon_lock cr c p) of
               (Inl e, p') \<Rightarrow> (Inl e, p')
             | (Inr _, p') \<Rightarrow> (sign_receipt cr m c status, p')))))"

fun collect_accept ::
  "crypto \<Rightarrow> string list \<Rightarrow> capsule \<Rightarrow> protocol \<Rightarrow> (witness_receipt list) p_outcome" where
  "collect_accept cr [] c p = (Inr [], p)"
| "collect_accept cr (mid # mids) c p =
     (case issue_receipt cr mid c ''ACCEPT'' p of
        (Inl (ConflictDetected ev), p') \<Rightarrow> collect_accept cr mids c p'
      | (Inl e, p') \<Rightarrow> (Inl e, p')
      | (Inr r, p') \<Rightarrow>
          (case verify_receipt cr p' r of
             Inl e \<Rightarrow> (Inl e, p')
           | Inr ok \<Rightarrow> (case collect_accept cr mids c p' of
               (Inl e, p'') \<Rightarrow> (Inl e, p'')
             | (Inr rs, p'') \<Rightarrow> (Inr (if ok then r # rs else rs), p''))))"

definition collect_accept_receipts :: "crypto \<Rightarrow> capsule \<Rightarrow> protocol \<Rightarrow> (witness_receipt list) p_outcome" where
  "collect_accept_receipts cr c p = collect_accept cr (sort (dict_keys (members p))) c p"

text \<open>\<open>except MosaicError: continue\<close> covers every class of the package but not \<open>KeyError\<close>.\<close>

fun collect_abandon ::
  "crypto \<Rightarrow> string list \<Rightarrow> capsule \<Rightarrow> protocol \<Rightarrow> (witness_receipt list) p_outcome" where
  "collect_abandon cr [] c p = (Inr [], p)"
| "collect_abandon cr (mid # mids) c p =
     (case issue_receipt cr mid c ''ABANDON'' p of
        (Inl (PyKeyError k), p') \<Rightarrow> (Inl (PyKeyError k), p')
      | (Inl e, p') \<Rightarrow> collect_abandon cr mids c p'
      | (Inr r, p') \<Rightarrow>
          (case verify_receipt cr p' r of
             Inl e \<Rightarrow> (Inl e, p')
           | Inr ok \<Rightarrow> (case collect_abandon cr mids c p' of
               (Inl e, p'') \<Rightarrow> (Inl e, p'')
             | (Inr rs, p'') \<Rightarrow> (Inr (if ok then r # rs else rs), p''))))"

definition collect_abandon_receipts :: "crypto \<Rightarrow> capsule \<Rightarrow> protocol \<Rightarrow> (witness_receipt list) p_outcome" where
  "collect_abandon_receipts cr c p = collect_abandon cr (sort (dict_keys (members p))) c p"

subsection \<open>Closures\<close>

definition good_receipt ::
  "crypto \<Rightarrow> protocol \<Rightarrow> string \<Rightarrow> capsule \<Rightarrow> witness_receipt \<Rightarrow> mosaic_error + bool" where
  "good_receipt cr p status c r =
     bindE (verify_receipt cr p r) (\<lambda>ok. Inr (ok \<and> r_status r = status \<and> r_capsule_id r = capsule_id c))"

definition verify_closure :: "crypto \<Rightarrow> protocol \<Rightarrow> capsule \<Rightarrow> closure_proof \<Rightarrow> mosaic_error + bool" where
  "verify_closure cr p c cl =
     (if c_capsule_id cl \<noteq> capsule_id c \<or> c_predecessor_id cl \<noteq> predecessor_id c
         \<or> c_epoch cl \<noteq> capsule_epoch c \<or> c_attempt cl \<noteq> attempt c
      then Inr False
      else (let unique = dict_of witness_id (c_receipts cl) in
        if sort (dict_keys unique) \<noteq> sort (c_signer_ids cl) then Inr False
        else bindE (allE (good_receipt cr p ''ACCEPT'' c) (dict_values unique)) (\<lambda>valid.
          let w = sum_list (map (member_weight p) (dict_keys unique));
              expected = digest cr (closure_statement cr (capsule_id c) (predecessor_id c)
                (capsule_epoch c) (attempt c) (sort_key witness_id (dict_values unique)))
          in Inr (valid \<and> w \<ge> threshold p \<and> expected = c_proof_id cl))))"

definition has_conflict :: "protocol \<Rightarrow> string \<Rightarrow> bool" where
  "has_conflict p pid \<longleftrightarrow> (\<exists>ev \<in> set (dict_values (conflicts p)). e_predecessor_id ev = pid)"

definition register_closure :: "crypto \<Rightarrow> capsule \<Rightarrow> closure_proof \<Rightarrow> protocol \<Rightarrow> unit p_outcome" where
  "register_closure cr c cl p =
     (case verify_closure cr p c cl of
        Inl e \<Rightarrow> (Inl e, p)
      | Inr ok \<Rightarrow>
          if \<not> ok then (Inl (ClosureInvalid ''invalid closure proof''), p)
          else if has_conflict p (predecessor_id c)
          then (Inl (ClosureInvalid ''predecessor has conflict evidence''), p)
          else if has_key (closures p) (capsule_id c) then (Inr (), p)
          else (Inr (), p\<lparr>closures := AList.update (capsule_id c) cl (closures p)\<rparr>))"

text \<open>\<open>receipts or self.collect_...()\<close>: an absent or empty tuple makes the node collect its own.\<close>

definition given_or_collect ::
  "(capsule \<Rightarrow> protocol \<Rightarrow> (witness_receipt list) p_outcome) \<Rightarrow> witness_receipt list option \<Rightarrow>
   capsule \<Rightarrow> protocol \<Rightarrow> (witness_receipt list) p_outcome" where
  "given_or_collect collect receipts c p =
     (case receipts of Some (r # rs) \<Rightarrow> (Inr (r # rs), p) | _ \<Rightarrow> collect c p)"

definition receipts_weight :: "protocol \<Rightarrow> witness_receipt list \<Rightarrow> int" where
  "receipts_weight p rs = sum_list (map (\<lambda>r. member_weight p (witness_id r)) rs)"

definition close ::
  "crypto \<Rightarrow> capsule \<Rightarrow> witness_receipt list option \<Rightarrow> protocol \<Rightarrow> closure_proof p_outcome" where
  "close cr c receipts p =
     (case validate_capsule cr p c of
        Inl e \<Rightarrow> (Inl e, p)
      | Inr _ \<Rightarrow> (case given_or_collect (collect_accept_receipts cr) receipts c p of
          (Inl e, p') \<Rightarrow> (Inl e, p')
        | (Inr rs, p') \<Rightarrow>
            (case filterE (good_receipt cr p' ''ACCEPT'' c) (dict_values (dict_of witness_id rs)) of
               Inl e \<Rightarrow> (Inl e, p')
             | Inr valid \<Rightarrow>
                 if receipts_weight p' valid < threshold p'
                 then (Inl (ClosureInvalid (''insufficient closure weight: ''
                        @ int_str (receipts_weight p' valid) @ '' < '' @ int_str (threshold p'))), p')
                 else if has_conflict p' (predecessor_id c)
                 then (Inl (ClosureInvalid ''predecessor has conflict evidence''), p')
                 else (case closure_create cr valid of
                         Inl e \<Rightarrow> (Inl e, p')
                       | Inr cl \<Rightarrow> (case register_closure cr c cl p' of
                           (Inl e, p'') \<Rightarrow> (Inl e, p'')
                         | (Inr _, p'') \<Rightarrow> (Inr cl, p''))))))"

definition abandon ::
  "crypto \<Rightarrow> capsule \<Rightarrow> witness_receipt list option \<Rightarrow> protocol \<Rightarrow> abandon_proof p_outcome" where
  "abandon cr c receipts p =
     (if has_key (closures p) (capsule_id c)
      then (Inl (ClosureInvalid ''cannot abandon a closed capsule''), p)
      else (case given_or_collect (collect_abandon_receipts cr) receipts c p of
          (Inl e, p') \<Rightarrow> (Inl e, p')
        | (Inr rs, p') \<Rightarrow>
            (case filterE (good_receipt cr p' ''ABANDON'' c) (dict_values (dict_of witness_id rs)) of
               Inl e \<Rightarrow> (Inl e, p')
             | Inr valid \<Rightarrow>
                 if receipts_weight p' valid < threshold p'
                 then (Inl (ClosureInvalid (''insufficient abandon weight: ''
                        @ int_str (receipts_weight p' valid) @ '' < '' @ int_str (threshold p'))), p')
                 else (case abandon_create cr valid of
                         Inl e \<Rightarrow> (Inl e, p')
                       | Inr proof \<Rightarrow>
                           (Inr proof,
                            p'\<lparr>abandons := AList.update (capsule_id c) proof (abandons p')\<rparr>)))))"

subsection \<open>Applying a closure\<close>

definition successor_seal :: "crypto \<Rightarrow> state_seal \<Rightarrow> capsule \<Rightarrow> state_seal" where
  "successor_seal cr current c =
     \<lparr>resource_id = resource_id current, seal_epoch = seal_epoch current,
      version = version current + 1, state_root = successor_root c,
      capability_hash = digest cr (JStr (capsule_id c)), owner = client_id c\<rparr>"

definition install_seal :: "crypto \<Rightarrow> state_seal \<Rightarrow> protocol \<Rightarrow> protocol" where
  "install_seal cr seal p =
     p\<lparr>current_seals := AList.update (resource_id seal) seal (current_seals p),
       known_seals := AList.update (seal_id cr seal) seal (known_seals p)\<rparr>"

definition apply_closure :: "crypto \<Rightarrow> capsule \<Rightarrow> closure_proof \<Rightarrow> protocol \<Rightarrow> state_seal p_outcome" where
  "apply_closure cr c cl p =
     (if c_capsule_id cl \<noteq> capsule_id c
      then (Inl (ClosureInvalid ''closure belongs to another capsule''), p)
      else (case verify_closure cr p c cl of
        Inl e \<Rightarrow> (Inl e, p)
      | Inr ok \<Rightarrow>
          if \<not> ok then (Inl (ClosureInvalid ''closure was not verified''), p)
          else (case (if has_key (closures p) (capsule_id c) then (Inr (), p)
                      else register_closure cr c cl p) of
            (Inl e, p') \<Rightarrow> (Inl e, p')
          | (Inr _, p') \<Rightarrow> (case map_of (known_seals p') (predecessor_id c) of
              None \<Rightarrow> (Inl (ClosureInvalid ''predecessor not found''), p')
            | Some pred \<Rightarrow> (case map_of (current_seals p') (resource_id pred) of
                None \<Rightarrow> (Inl (ClosureInvalid ''resource state not found''), p')
              | Some current \<Rightarrow>
                  if seal_id cr current \<noteq> predecessor_id c
                  then (if version current = version pred + 1
                           \<and> state_root current = successor_root c
                           \<and> capability_hash current = digest cr (JStr (capsule_id c))
                        then (Inr current, p')
                        else (Inl (ClosureInvalid ''predecessor is not current''), p'))
                  else (let next_seal = successor_seal cr current c
                        in (Inr next_seal, install_seal cr next_seal p')))))))"

subsection \<open>Outcomes\<close>

definition find_successor :: "crypto \<Rightarrow> protocol \<Rightarrow> capsule \<Rightarrow> state_seal option" where
  "find_successor cr p c =
     find (\<lambda>seal. has_key (current_seals p) (resource_id seal)
       \<and> version seal = version (case map_of (known_seals p) (predecessor_id c) of
                                   None \<Rightarrow> seal | Some s \<Rightarrow> s) + 1
       \<and> state_root seal = successor_root c
       \<and> capability_hash seal = digest cr (JStr (capsule_id c)))
     (dict_values (known_seals p))"

definition outcome_of :: "crypto \<Rightarrow> protocol \<Rightarrow> capsule \<Rightarrow> transition_outcome option" where
  "outcome_of cr p c =
     (case (map_of (closures p) (capsule_id c), find_successor cr p c) of
        (Some cl, Some succ) \<Rightarrow>
          Some \<lparr>o_capsule_id = capsule_id c, o_predecessor_id = predecessor_id c, o_status = CLOSED,
                evidence_ids = [c_proof_id cl], successor_seal_id = Some (seal_id cr succ),
                conflicting_capsule_ids = []\<rparr>
      | _ \<Rightarrow>
          (case find (\<lambda>ev. capsule_id c = capsule_a ev \<or> capsule_id c = capsule_b ev)
                  (dict_values (conflicts p)) of
             Some ev \<Rightarrow>
               Some \<lparr>o_capsule_id = capsule_id c, o_predecessor_id = predecessor_id c,
                     o_status = CONFLICT, evidence_ids = [evidence_id ev], successor_seal_id = None,
                     conflicting_capsule_ids =
                       [if capsule_a ev = capsule_id c then capsule_b ev else capsule_a ev]\<rparr>
           | None \<Rightarrow>
               (case map_of (abandons p) (capsule_id c) of
                  Some ab \<Rightarrow>
                    Some \<lparr>o_capsule_id = capsule_id c, o_predecessor_id = predecessor_id c,
                          o_status = ABANDONED, evidence_ids = [a_proof_id ab],
                          successor_seal_id = None, conflicting_capsule_ids = []\<rparr>
                | None \<Rightarrow> None)))"

subsection \<open>Bundles\<close>

definition make_bundle :: "crypto \<Rightarrow> protocol \<Rightarrow> string \<Rightarrow> closure_proof list \<Rightarrow> mosaic_error + bundle_closure" where
  "make_bundle cr p bid cls =
     (if cls = [] then Inl (ClosureInvalid ''empty bundle'')
      else if \<exists>cl \<in> set cls. \<not> has_key (closures p) (c_capsule_id cl)
      then Inl (ClosureInvalid ''bundle contains unknown closure'')
      else bundle_create cr bid cls)"

fun check_entries ::
  "crypto \<Rightarrow> protocol \<Rightarrow> (capsule \<times> closure_proof) list \<Rightarrow> mosaic_error + unit" where
  "check_entries cr p [] = Inr ()"
| "check_entries cr p ((c, cl) # rest) =
     (if map_of (closures p) (capsule_id c) \<noteq> Some cl
      then Inl (ClosureInvalid ''bundle contains unregistered closure'')
      else if c_capsule_id cl \<noteq> capsule_id c then Inl (ClosureInvalid ''bundle closure mismatch'')
      else bindE (verify_closure cr p c cl) (\<lambda>ok.
        if \<not> ok then Inl (ClosureInvalid ''bundle contains invalid closure'')
        else if \<not> (\<exists>s \<in> set (dict_values (current_seals p)). seal_id cr s = predecessor_id c)
        then Inl (ClosureInvalid ''bundle predecessor not current'')
        else check_entries cr p rest))"

text \<open>\<open>next(seal for ...)\<close> finds one: \<open>check_entries\<close> has just seen it.\<close>

fun bundle_seals ::
  "crypto \<Rightarrow> protocol \<Rightarrow> (capsule \<times> closure_proof) list \<Rightarrow> state_seal list" where
  "bundle_seals cr p [] = []"
| "bundle_seals cr p ((c, cl) # rest) =
     (case find (\<lambda>s. seal_id cr s = predecessor_id c) (dict_values (current_seals p)) of
        None \<Rightarrow> bundle_seals cr p rest
      | Some current \<Rightarrow> successor_seal cr current c # bundle_seals cr p rest)"

definition apply_bundle ::
  "crypto \<Rightarrow> bundle_closure \<Rightarrow> (capsule \<times> closure_proof) list \<Rightarrow> protocol \<Rightarrow> (state_seal list) p_outcome" where
  "apply_bundle cr b entries p =
     (if entries = [] \<or> b_bundle_id b = []
      then (Inl (ClosureInvalid ''invalid bundle application''), p)
      else if sort (map (\<lambda>(c, cl). c_proof_id cl) entries) \<noteq> sort (closure_ids b)
      then (Inl (ClosureInvalid ''bundle closure does not cover entries''), p)
      else (case check_entries cr p entries of
              Inl e \<Rightarrow> (Inl e, p)
            | Inr _ \<Rightarrow> (let next_seals = bundle_seals cr p entries
                        in (Inr next_seals, fold (install_seal cr) next_seals p))))"

end
