(* ===== verification/Runs.thy ===== *)
theory Runs
  imports Closure_Safety
begin

section \<open>Runs of one node, and what its lock promises\<close>

text \<open>
  \<open>node_run cr p0 R p\<close>: from state \<open>p0\<close> the node has reached \<open>p\<close> by calls of its operations,
  and \<open>R\<close> is the set of receipts it has signed on the way. There is one rule per public
  operation of \<open>MosaicProtocol\<close>, whatever it returns (an exception too leaves its state behind),
  and one for the assignment \<open>protocol.capsules[id] = capsule\<close> of the network handlers. \<open>close\<close>
  and \<open>abandon\<close> without receipts first call \<open>witness_receipt\<close> for each member and then go on as
  with these receipts, so they are runs too (\<open>node_run_close\<close>, \<open>node_run_abandon\<close>).
\<close>

named_theorems frame \<open>which components an operation leaves alone\<close>

definition signed :: "mosaic_error + witness_receipt \<Rightarrow> witness_receipt set" where
  "signed res = (case res of Inl _ \<Rightarrow> {} | Inr r \<Rightarrow> {r})"

lemma signed_simps [simp]: "signed (Inl e) = {}" "signed (Inr r) = {r}"
  by (simp_all add: signed_def)

definition store_capsule :: "capsule \<Rightarrow> protocol \<Rightarrow> protocol" where
  "store_capsule c p = p\<lparr>capsules := AList.update (capsule_id c) c (capsules p)\<rparr>"

inductive node_run :: "crypto \<Rightarrow> protocol \<Rightarrow> witness_receipt set \<Rightarrow> protocol \<Rightarrow> bool"
  for cr p0 where
  start: "node_run cr p0 {} p0"
| resource: "node_run cr p0 R p \<Longrightarrow> create_resource cr rid own root secret p = (res, p') \<Longrightarrow>
    node_run cr p0 R p'"
| capsule: "node_run cr p0 R p \<Longrightarrow> create_capsule cr kp pred root rule wit att bid p = (res, p') \<Longrightarrow>
    node_run cr p0 R p'"
| store: "node_run cr p0 R p \<Longrightarrow> node_run cr p0 R (store_capsule c p)"
| witness: "node_run cr p0 R p \<Longrightarrow> issue_receipt cr mid c status p = (res, p') \<Longrightarrow>
    node_run cr p0 (R \<union> signed res) p'"
| register: "node_run cr p0 R p \<Longrightarrow> register_closure cr c cl p = (res, p') \<Longrightarrow> node_run cr p0 R p'"
| close_call: "node_run cr p0 R p \<Longrightarrow> close cr c (Some (r # rs)) p = (res, p') \<Longrightarrow> node_run cr p0 R p'"
| abandon_call: "node_run cr p0 R p \<Longrightarrow> abandon cr c (Some (r # rs)) p = (res, p') \<Longrightarrow> node_run cr p0 R p'"
| apply_call: "node_run cr p0 R p \<Longrightarrow> apply_closure cr c cl p = (res, p') \<Longrightarrow> node_run cr p0 R p'"
| bundle_call: "node_run cr p0 R p \<Longrightarrow> apply_bundle cr b entries p = (res, p') \<Longrightarrow> node_run cr p0 R p'"

subsection \<open>Frames\<close>

definition only_conflicts :: "protocol \<Rightarrow> protocol \<Rightarrow> bool" where
  "only_conflicts p p' \<longleftrightarrow> (\<exists>cf. p' = p\<lparr>conflicts := cf\<rparr>)"

lemma only_conflicts_refl [simp]: "only_conflicts p p"
  unfolding only_conflicts_def by (rule exI [of _ "conflicts p"]) simp

lemma record_conflict_frame:
  assumes "record_conflict cr first c p = (res, p')"
  shows "(\<exists>e. res = Inl e) \<and> only_conflicts p p'"
proof (cases "conflict_create cr first c")
  case (Inl e)
  with assms show ?thesis by (auto simp: record_conflict_def)
next
  case (Inr ev)
  with assms show ?thesis by (auto simp: record_conflict_def only_conflicts_def)
qed

lemma accept_lock_cases:
  assumes "accept_lock cr c p = (res, p')"
  obtains (fail) e where "res = Inl e" "only_conflicts p p'"
  | (fresh) "res = Inr ()" "p' = lock_as c ''ACCEPT'' p" "map_of (locks p) (predecessor_id c) = None"
  | (again) st where "res = Inr ()" "p' = p"
      "map_of (locks p) (predecessor_id c) = Some (capsule_id c, attempt c, st)"
  | (retry) cid att where "res = Inr ()" "p' = lock_as c ''ACCEPT'' p"
      "map_of (locks p) (predecessor_id c) = Some (cid, att, ''ABANDON'')" "att < attempt c"
  using assms
  by (auto simp: accept_lock_def Let_def dest!: record_conflict_frame
      split: option.splits if_splits prod.splits)

lemma abandon_lock_cases:
  assumes "abandon_lock cr c p = (res, p')"
  obtains (fail) e where "res = Inl e" "only_conflicts p p'"
  | (fresh) "res = Inr ()" "p' = lock_as c ''ABANDON'' p" "map_of (locks p) (predecessor_id c) = None"
      "\<not> has_key (closures p) (capsule_id c)"
  | (again) st where "res = Inr ()" "p' = lock_as c ''ABANDON'' p"
      "map_of (locks p) (predecessor_id c) = Some (capsule_id c, attempt c, st)"
      "\<not> has_key (closures p) (capsule_id c)"
  using assms
  by (auto simp: abandon_lock_def Let_def dest!: record_conflict_frame
      split: option.splits if_splits prod.splits)

text \<open>The ways a call of \<open>witness_receipt\<close> can end.\<close>

lemma issue_receipt_cases:
  assumes "issue_receipt cr mid c status p = (res, p')"
  obtains (fail) e where "res = Inl e" "only_conflicts p p'"
  | (lock) m where "validate_capsule cr p c = Inr ()" "get_member p mid = Inr m"
      "res = sign_receipt cr m c status"
      "status = ''ACCEPT'' \<and> accept_lock cr c p = (Inr (), p') \<or>
       status = ''ABANDON'' \<and> abandon_lock cr c p = (Inr (), p')"
proof (cases "status = ''ACCEPT'' \<or> status = ''ABANDON''")
  case False
  with assms have "res = Inl (MosaicError ''unknown receipt status'')" "p' = p"
    by (auto simp: issue_receipt_def)
  then show ?thesis by (intro fail) auto
next
  case status: True
  show ?thesis
  proof (cases "\<exists>m. validate_capsule cr p c = Inr () \<and> get_member p mid = Inr m")
    case False
    with assms status have "is_ok res = False" "p' = p"
      by (auto simp: issue_receipt_def split: sum.splits)
    then show ?thesis by (cases res) (auto intro: fail)
  next
    case True
    then obtain m where v: "validate_capsule cr p c = Inr ()" and m: "get_member p mid = Inr m" by blast
    obtain lres q where l: "(if status = ''ACCEPT'' then accept_lock cr c p else abandon_lock cr c p) = (lres, q)"
      by fastforce
    show ?thesis
    proof (cases lres)
      case (Inl e)
      with l have "only_conflicts p q"
        by (auto split: if_splits elim: accept_lock_cases abandon_lock_cases)
      with assms status v m l Inl show ?thesis
        by (intro fail [of e]) (auto simp: issue_receipt_def split: if_splits)
    next
      case (Inr u)
      with assms status v m l show ?thesis
        by (intro lock [of m]) (auto simp: issue_receipt_def split: if_splits)
    qed
  qed
qed

lemma sign_receipt_Inr:
  "sign_receipt cr m c status = Inr r \<Longrightarrow>
   r_capsule_id r = capsule_id c \<and> r_predecessor_id r = predecessor_id c
   \<and> witness_id r = member_id m \<and> r_epoch r = capsule_epoch c \<and> r_attempt r = attempt c
   \<and> r_status r = status"
  by (auto simp: sign_receipt_def split: option.splits)

subsection \<open>The lock only moves forward\<close>

text \<open>
  \<open>promised p pid cid att\<close>: the lock of predecessor \<open>pid\<close> stands at attempt \<open>att\<close> with capsule
  \<open>cid\<close>, or at a later attempt. Once true it stays true, whatever the node does.
\<close>

definition promised :: "protocol \<Rightarrow> string \<Rightarrow> string \<Rightarrow> int \<Rightarrow> bool" where
  "promised p pid cid att \<longleftrightarrow>
     (case map_of (locks p) pid of
        None \<Rightarrow> False
      | Some (cid', att', st) \<Rightarrow> att < att' \<or> att = att' \<and> cid = cid')"

lemma promised_cong: "locks p' = locks p \<Longrightarrow> promised p' pid cid att = promised p pid cid att"
  by (simp add: promised_def)

lemma promised_unique: "promised p pid cid att \<Longrightarrow> map_of (locks p) pid = Some (cid', att, st) \<Longrightarrow> cid = cid'"
  by (simp add: promised_def)

lemma only_conflicts_fields [frame]:
  assumes "only_conflicts p p'"
  shows "locks p' = locks p" "members p' = members p" "epoch p' = epoch p" "capsules p' = capsules p"
    "current_seals p' = current_seals p" "known_seals p' = known_seals p"
    "closures p' = closures p" "abandons p' = abandons p"
  using assms by (auto simp: only_conflicts_def)

lemma lock_as_fields [simp, frame]:
  "locks (lock_as c st p) = AList.update (predecessor_id c) (capsule_id c, attempt c, st) (locks p)"
  "capsules (lock_as c st p) = AList.update (capsule_id c) c (capsules p)"
  "members (lock_as c st p) = members p" "epoch (lock_as c st p) = epoch p"
  "current_seals (lock_as c st p) = current_seals p" "known_seals (lock_as c st p) = known_seals p"
  "closures (lock_as c st p) = closures p" "abandons (lock_as c st p) = abandons p"
  "conflicts (lock_as c st p) = conflicts p"
  by (simp_all add: lock_as_def)

lemma lock_as_promised:
  assumes "promised p pid cid att"
    and "map_of (locks p) (predecessor_id c) = None
         \<or> (\<exists>s. map_of (locks p) (predecessor_id c) = Some (capsule_id c, attempt c, s))
         \<or> (\<exists>k a s. map_of (locks p) (predecessor_id c) = Some (k, a, s) \<and> a < attempt c)"
  shows "promised (lock_as c st p) pid cid att"
  using assms by (auto simp: promised_def split: option.splits)

lemma issue_receipt_locks:
  assumes "issue_receipt cr mid c status p = (res, p')"
  shows "promised p pid cid att \<Longrightarrow> promised p' pid cid att"
    and "r \<in> signed res \<Longrightarrow>
      (\<exists>st. map_of (locks p') (r_predecessor_id r) = Some (r_capsule_id r, r_attempt r, st))"
proof -
  have "(promised p pid cid att \<longrightarrow> promised p' pid cid att) \<and> (r \<in> signed res \<longrightarrow>
      (\<exists>st. map_of (locks p') (r_predecessor_id r) = Some (r_capsule_id r, r_attempt r, st)))"
    using assms
  proof (cases rule: issue_receipt_cases)
    case (fail e)
    from promised_cong [OF only_conflicts_fields(1) [OF fail(2)]] fail(1) show ?thesis by simp
  next
    case (lock m)
    have sig: "r \<in> signed res \<Longrightarrow> r_predecessor_id r = predecessor_id c
        \<and> r_capsule_id r = capsule_id c \<and> r_attempt r = attempt c"
      using lock(3) by (cases "sign_receipt cr m c status") (auto dest: sign_receipt_Inr)
    from lock(4) have
      "(promised p pid cid att \<longrightarrow> promised p' pid cid att) \<and>
       (\<exists>st. map_of (locks p') (predecessor_id c) = Some (capsule_id c, attempt c, st))"
      by (auto elim!: accept_lock_cases abandon_lock_cases intro!: lock_as_promised)
    with sig show ?thesis by auto
  qed
  then show "promised p pid cid att \<Longrightarrow> promised p' pid cid att"
    "r \<in> signed res \<Longrightarrow>
      (\<exists>st. map_of (locks p') (r_predecessor_id r) = Some (r_capsule_id r, r_attempt r, st))"
    by blast+
qed

lemma create_resource_frame [frame]:
  "create_resource cr rid own root secret p = (res, p') \<Longrightarrow>
   locks p' = locks p \<and> capsules p' = capsules p \<and> closures p' = closures p \<and> conflicts p' = conflicts p
   \<and> abandons p' = abandons p \<and> members p' = members p \<and> epoch p' = epoch p"
  by (auto simp: create_resource_def Let_def split: if_splits)

lemma create_capsule_frame [frame]:
  "create_capsule cr kp pred root rule wit att bid p = (res, p') \<Longrightarrow>
   locks p' = locks p \<and> current_seals p' = current_seals p \<and> known_seals p' = known_seals p
   \<and> closures p' = closures p \<and> conflicts p' = conflicts p \<and> abandons p' = abandons p
   \<and> members p' = members p \<and> epoch p' = epoch p"
  by (auto simp: create_capsule_def Let_def split: if_splits)

lemma store_capsule_frame [simp, frame]:
  "locks (store_capsule c p) = locks p" "current_seals (store_capsule c p) = current_seals p"
  "known_seals (store_capsule c p) = known_seals p" "closures (store_capsule c p) = closures p"
  "conflicts (store_capsule c p) = conflicts p" "abandons (store_capsule c p) = abandons p"
  "members (store_capsule c p) = members p" "epoch (store_capsule c p) = epoch p"
  "capsules (store_capsule c p) = AList.update (capsule_id c) c (capsules p)"
  by (simp_all add: store_capsule_def)

lemma register_closure_cases:
  assumes "register_closure cr c cl p = (res, p')"
  obtains (fail) e where "res = Inl e" "p' = p"
  | (old) "res = Inr ()" "p' = p" "verify_closure cr p c cl = Inr True"
      "\<not> has_conflict p (predecessor_id c)" "has_key (closures p) (capsule_id c)"
  | (new) "res = Inr ()" "p' = p\<lparr>closures := AList.update (capsule_id c) cl (closures p)\<rparr>"
      "verify_closure cr p c cl = Inr True" "\<not> has_conflict p (predecessor_id c)"
      "\<not> has_key (closures p) (capsule_id c)"
  using assms by (auto simp: register_closure_def split: sum.splits if_splits)

lemma register_closure_frame [frame]:
  "register_closure cr c cl p = (res, p') \<Longrightarrow>
   locks p' = locks p \<and> capsules p' = capsules p \<and> current_seals p' = current_seals p
   \<and> known_seals p' = known_seals p \<and> conflicts p' = conflicts p \<and> abandons p' = abandons p
   \<and> members p' = members p \<and> epoch p' = epoch p
   \<and> (\<forall>k. has_key (closures p) k \<longrightarrow> has_key (closures p') k)"
  by (erule register_closure_cases) auto

lemma given_receipts [simp]: "given_or_collect f (Some (r # rs)) c p = (Inr (r # rs), p)"
  by (simp add: given_or_collect_def)

lemma close_given_frame [frame]:
  "close cr c (Some (r # rs)) p = (res, p') \<Longrightarrow>
   locks p' = locks p \<and> capsules p' = capsules p \<and> current_seals p' = current_seals p
   \<and> known_seals p' = known_seals p \<and> conflicts p' = conflicts p \<and> abandons p' = abandons p
   \<and> members p' = members p \<and> epoch p' = epoch p
   \<and> (\<forall>k. has_key (closures p) k \<longrightarrow> has_key (closures p') k)"
  by (auto simp: close_def dest!: register_closure_frame split: sum.splits if_splits prod.splits)

lemma abandon_given_frame [frame]:
  "abandon cr c (Some (r # rs)) p = (res, p') \<Longrightarrow>
   locks p' = locks p \<and> capsules p' = capsules p \<and> current_seals p' = current_seals p
   \<and> known_seals p' = known_seals p \<and> conflicts p' = conflicts p \<and> closures p' = closures p
   \<and> members p' = members p \<and> epoch p' = epoch p"
  by (auto simp: abandon_def Let_def split: sum.splits if_splits prod.splits)

lemma install_seal_frame [simp, frame]:
  "locks (install_seal cr s p) = locks p" "capsules (install_seal cr s p) = capsules p"
  "closures (install_seal cr s p) = closures p" "conflicts (install_seal cr s p) = conflicts p"
  "abandons (install_seal cr s p) = abandons p" "members (install_seal cr s p) = members p"
  "epoch (install_seal cr s p) = epoch p"
  "current_seals (install_seal cr s p) = AList.update (resource_id s) s (current_seals p)"
  "known_seals (install_seal cr s p) = AList.update (seal_id cr s) s (known_seals p)"
  by (simp_all add: install_seal_def)

lemma install_seals_frame [simp, frame]:
  "locks (fold (install_seal cr) ss p) = locks p"
  "capsules (fold (install_seal cr) ss p) = capsules p"
  "closures (fold (install_seal cr) ss p) = closures p"
  "conflicts (fold (install_seal cr) ss p) = conflicts p"
  "abandons (fold (install_seal cr) ss p) = abandons p"
  "members (fold (install_seal cr) ss p) = members p"
  "epoch (fold (install_seal cr) ss p) = epoch p"
  by (induction ss arbitrary: p) simp_all

text \<open>
  What a call of \<open>apply\<close> did: raised (perhaps after registering the closure), found the successor
  already installed, or installed it. \<open>q\<close> is the state after the registration.
\<close>

lemma apply_closure_cases:
  assumes "apply_closure cr c cl p = (res, p')"
  obtains (fail) e where "res = Inl e" "p' = p \<or> register_closure cr c cl p = (Inr (), p')"
  | (applied) q pred current where "verify_closure cr p c cl = Inr True"
      "has_key (closures p) (capsule_id c) \<and> q = p \<or> register_closure cr c cl p = (Inr (), q)"
      "has_key (closures q) (capsule_id c)"
      "map_of (known_seals q) (predecessor_id c) = Some pred"
      "map_of (current_seals q) (resource_id pred) = Some current"
      "seal_id cr current \<noteq> predecessor_id c" "version current = version pred + 1"
      "state_root current = successor_root c"
      "capability_hash current = digest cr (JStr (capsule_id c))" "res = Inr current" "p' = q"
  | (installed) q pred current where "verify_closure cr p c cl = Inr True"
      "has_key (closures p) (capsule_id c) \<and> q = p \<or> register_closure cr c cl p = (Inr (), q)"
      "has_key (closures q) (capsule_id c)"
      "map_of (known_seals q) (predecessor_id c) = Some pred"
      "map_of (current_seals q) (resource_id pred) = Some current"
      "seal_id cr current = predecessor_id c" "res = Inr (successor_seal cr current c)"
      "p' = install_seal cr (successor_seal cr current c) q"
proof (cases "c_capsule_id cl = capsule_id c \<and> verify_closure cr p c cl = Inr True")
  case False
  with assms have "\<not> is_ok res" "p' = p"
    by (auto simp: apply_closure_def split: if_splits sum.splits)
  then show ?thesis by (cases res) (auto intro: fail)
next
  case v: True
  obtain rr q where reg: "(if has_key (closures p) (capsule_id c) then (Inr (), p)
      else register_closure cr c cl p) = (rr, q)" by fastforce
  show ?thesis
  proof (cases rr)
    case (Inl e)
    with reg have "q = p" by (auto split: if_splits elim: register_closure_cases)
    with assms v reg Inl show ?thesis
      by (intro fail [of e]) (auto simp: apply_closure_def split: if_splits)
  next
    case (Inr u)
    with reg have q: "has_key (closures p) (capsule_id c) \<and> q = p \<or> register_closure cr c cl p = (Inr (), q)"
      by (auto split: if_splits)
    then have key: "has_key (closures q) (capsule_id c)"
      by (auto elim!: register_closure_cases)
    have rest:
      "(case map_of (known_seals q) (predecessor_id c) of
          None \<Rightarrow> (Inl (ClosureInvalid ''predecessor not found''), q)
        | Some pred \<Rightarrow> (case map_of (current_seals q) (resource_id pred) of
            None \<Rightarrow> (Inl (ClosureInvalid ''resource state not found''), q)
          | Some current \<Rightarrow>
              if seal_id cr current \<noteq> predecessor_id c
              then (if version current = version pred + 1 \<and> state_root current = successor_root c
                       \<and> capability_hash current = digest cr (JStr (capsule_id c))
                    then (Inr current, q)
                    else (Inl (ClosureInvalid ''predecessor is not current''), q))
              else (Inr (successor_seal cr current c),
                    install_seal cr (successor_seal cr current c) q))) = (res, p')"
      using assms v unfolding apply_closure_def Let_def reg Inr by simp
    show ?thesis
    proof (cases res)
      case res: (Inl e)
      with rest have "p' = q" by (auto split: option.splits if_splits)
      with q res show ?thesis by (intro fail [of e]) auto
    next
      case (Inr s)
      with rest obtain pred current where seals: "map_of (known_seals q) (predecessor_id c) = Some pred"
        "map_of (current_seals q) (resource_id pred) = Some current"
        by (auto split: option.splits)
      show ?thesis
      proof (cases "seal_id cr current = predecessor_id c")
        case True
        with rest seals have "res = Inr (successor_seal cr current c)"
          "p' = install_seal cr (successor_seal cr current c) q" by simp_all
        with True v q key seals show ?thesis by (intro installed) simp_all
      next
        case False
        with rest seals Inr have "version current = version pred + 1"
          "state_root current = successor_root c"
          "capability_hash current = digest cr (JStr (capsule_id c))" "res = Inr current" "p' = q"
          by (auto split: if_splits)
        with False v q key seals show ?thesis by (intro applied) simp_all
      qed
    qed
  qed
qed

lemma register_closure_locks: "register_closure cr c cl p = (res, p') \<Longrightarrow> locks p' = locks p"
  using register_closure_frame by blast

lemma apply_closure_locks:
  assumes "apply_closure cr c cl p = (res, p')"
  shows "locks p' = locks p"
  using assms
proof (cases rule: apply_closure_cases)
  case (fail e)
  then show ?thesis using register_closure_locks by blast
next
  case (applied q pred current)
  then show ?thesis using register_closure_locks by blast
next
  case (installed q pred current)
  have "locks q = locks p" using installed(2) register_closure_locks by blast
  then show ?thesis by (simp add: installed(8))
qed

lemma apply_bundle_cases:
  assumes "apply_bundle cr b entries p = (res, p')"
  obtains (fail) e where "res = Inl e" "p' = p"
  | (done_all) "check_entries cr p entries = Inr ()" "res = Inr (bundle_seals cr p entries)"
      "p' = fold (install_seal cr) (bundle_seals cr p entries) p"
proof (cases "entries = [] \<or> b_bundle_id b = []
    \<or> sort (map (\<lambda>(c, cl). c_proof_id cl) entries) \<noteq> sort (closure_ids b)")
  case True
  with assms have "\<not> is_ok res" "p' = p" by (auto simp only: apply_bundle_def if_True if_False is_ok_simps split: if_splits)
  then show ?thesis by (cases res) (auto intro: fail)
next
  case ok: False
  show ?thesis
  proof (cases "check_entries cr p entries")
    case (Inl e)
    with assms ok have "res = Inl e" "p' = p" by (simp_all add: apply_bundle_def)
    then show ?thesis by (rule fail)
  next
    case (Inr u)
    with assms ok have "res = Inr (bundle_seals cr p entries)"
      "p' = fold (install_seal cr) (bundle_seals cr p entries) p"
      by (simp_all add: apply_bundle_def Let_def)
    with Inr show ?thesis by (intro done_all) simp_all
  qed
qed

lemma apply_bundle_locks: "apply_bundle cr b entries p = (res, p') \<Longrightarrow> locks p' = locks p"
  by (erule apply_bundle_cases) simp_all

subsection \<open>What a run promises\<close>

text \<open>
  Every receipt a node signed is still promised by its lock, and two receipts for one
  predecessor and attempt name one capsule.
\<close>

definition consistent :: "witness_receipt set \<Rightarrow> bool" where
  "consistent R \<longleftrightarrow> (\<forall>r \<in> R. \<forall>s \<in> R. r_predecessor_id r = r_predecessor_id s \<and> r_attempt r = r_attempt s
     \<longrightarrow> r_capsule_id r = r_capsule_id s)"

definition promises :: "witness_receipt set \<Rightarrow> protocol \<Rightarrow> bool" where
  "promises R p \<longleftrightarrow> (\<forall>r \<in> R. promised p (r_predecessor_id r) (r_capsule_id r) (r_attempt r))"

lemma promises_cong: "locks p' = locks p \<Longrightarrow> promises R p' = promises R p"
  unfolding promises_def promised_def by simp

lemma issue_receipt_promises:
  assumes call: "issue_receipt cr mid c status p = (res, p')"
    and inv: "promises R p" "consistent R"
  shows "promises (R \<union> signed res) p' \<and> consistent (R \<union> signed res)"
proof -
  have old: "promised p' (r_predecessor_id r) (r_capsule_id r) (r_attempt r)" if "r \<in> R" for r
    using inv(1) that issue_receipt_locks(1) [OF call] by (auto simp: promises_def)
  have new: "\<exists>st. map_of (locks p') (r_predecessor_id r) = Some (r_capsule_id r, r_attempt r, st)"
    if "r \<in> signed res" for r
    using that by (rule issue_receipt_locks(2) [OF call])
  have cross: "r_capsule_id r = r_capsule_id s"
    if "r \<in> R" "s \<in> signed res" "r_predecessor_id r = r_predecessor_id s" "r_attempt r = r_attempt s"
    for r s
    using old [OF that(1)] new [OF that(2)] that(3,4) by (auto simp: promised_def)
  have one: "r = s" if "r \<in> signed res" "s \<in> signed res" for r s
    using that by (cases res) auto
  have "promised p' (r_predecessor_id r) (r_capsule_id r) (r_attempt r)" if "r \<in> signed res" for r
    using new [OF that] by (auto simp: promised_def)
  with old have "promises (R \<union> signed res) p'" unfolding promises_def by blast
  moreover have "consistent (R \<union> signed res)"
    unfolding consistent_def
  proof (intro ballI impI, elim conjE UnE)
    fix r s :: witness_receipt
    assume eq: "r_predecessor_id r = r_predecessor_id s" "r_attempt r = r_attempt s"
    show "r \<in> R \<Longrightarrow> s \<in> R \<Longrightarrow> r_capsule_id r = r_capsule_id s"
      using inv(2) eq unfolding consistent_def by blast
    show "r \<in> R \<Longrightarrow> s \<in> signed res \<Longrightarrow> r_capsule_id r = r_capsule_id s" using cross eq by blast
    show "r \<in> signed res \<Longrightarrow> s \<in> R \<Longrightarrow> r_capsule_id r = r_capsule_id s"
      using cross [of s r] eq by simp
    show "r \<in> signed res \<Longrightarrow> s \<in> signed res \<Longrightarrow> r_capsule_id r = r_capsule_id s"
      using one by blast
  qed
  ultimately show ?thesis by blast
qed

lemma node_run_promises:
  assumes "node_run cr p0 R p"
  shows "promises R p \<and> consistent R"
  using assms
proof (induction rule: node_run.induct)
  case start
  then show ?case by (simp add: promises_def consistent_def)
next
  case (witness R p mid c status res p')
  then show ?case by (blast dest: issue_receipt_promises)
next
  case (resource R p rid own root secret res p')
  then show ?case using promises_cong [of p' p R] create_resource_frame by blast
next
  case (capsule R p kp pred root rule wit att bid res p')
  then show ?case using promises_cong [of p' p R] create_capsule_frame by blast
next
  case (store R p c)
  then show ?case using promises_cong [of "store_capsule c p" p R] by simp
next
  case (register R p c cl res p')
  then show ?case using promises_cong [of p' p R] register_closure_frame by blast
next
  case (close_call R p c r rs res p')
  then show ?case using promises_cong [of p' p R] close_given_frame by blast
next
  case (abandon_call R p c r rs res p')
  then show ?case using promises_cong [of p' p R] abandon_given_frame by blast
next
  case (apply_call R p c cl res p')
  then show ?case using promises_cong [of p' p R] apply_closure_locks by blast
next
  case (bundle_call R p b entries res p')
  then show ?case using promises_cong [of p' p R] apply_bundle_locks by blast
qed

lemma honest_first_claim:
  "node_run cr p0 R p \<Longrightarrow> r \<in> R \<Longrightarrow> s \<in> R \<Longrightarrow> r_predecessor_id r = r_predecessor_id s \<Longrightarrow>
   r_attempt r = r_attempt s \<Longrightarrow> r_capsule_id r = r_capsule_id s"
  using node_run_promises [of cr p0 R p] unfolding consistent_def by blast

end
