(* ===== verification/Demo.thy ===== *)
theory Demo
  imports Runs
begin

section \<open>A concrete run\<close>

text \<open>
  One validator, one client, one resource: the concrete values at which the hypotheses of the
  protocol properties are discharged, over \<open>demo_crypto\<close>.
\<close>

definition demo_member :: member where
  "demo_member = \<lparr>member_id = ''v1'', member_keypair = Some \<lparr>private_bytes = ''k1''\<rparr>, weight = 1,
     public_key_override = None\<rparr>"

definition demo_client :: keypair where
  "demo_client = \<lparr>private_bytes = ''alice''\<rparr>"

definition demo_start :: protocol where
  "demo_start = protocol_init [(''v1'', demo_member)] 0"

definition demo_seal :: state_seal where
  "demo_seal = \<lparr>resource_id = ''doc'', seal_epoch = 0, version = 0, state_root = ''r0'',
     capability_hash = digest demo_crypto (JStr ''secret''), owner = ''alice''\<rparr>"

definition demo_created :: protocol where
  "demo_created = demo_start\<lparr>current_seals := [(''doc'', demo_seal)],
     known_seals := [(seal_id demo_crypto demo_seal, demo_seal)]\<rparr>"

definition demo_capsule :: capsule where
  "demo_capsule = capsule_create demo_crypto demo_client demo_seal ''r1'' ''rule'' ''w'' 0 None"

definition demo_proposed :: protocol where
  "demo_proposed = demo_created\<lparr>capsules := [(capsule_id demo_capsule, demo_capsule)]\<rparr>"

definition demo_receipt :: witness_receipt where
  "demo_receipt = \<lparr>r_capsule_id = capsule_id demo_capsule,
     r_predecessor_id = predecessor_id demo_capsule, witness_id = ''v1'', r_epoch = 0,
     r_attempt = 0, r_status = ''ACCEPT'', r_signature = ''k1''\<rparr>"

definition demo_locked :: protocol where
  "demo_locked = lock_as demo_capsule ''ACCEPT'' demo_proposed"

definition demo_closure :: closure_proof where
  "demo_closure = \<lparr>c_capsule_id = capsule_id demo_capsule,
     c_predecessor_id = predecessor_id demo_capsule, c_epoch = 0, c_attempt = 0,
     c_signer_ids = [''v1''], c_receipts = [demo_receipt],
     c_proof_id = digest demo_crypto (closure_statement demo_crypto (capsule_id demo_capsule)
       (predecessor_id demo_capsule) 0 0 [demo_receipt])\<rparr>"

definition demo_closed :: protocol where
  "demo_closed = demo_locked\<lparr>closures := [(capsule_id demo_capsule, demo_closure)]\<rparr>"

definition demo_next :: state_seal where
  "demo_next = successor_seal demo_crypto demo_seal demo_capsule"

definition demo_applied :: protocol where
  "demo_applied = install_seal demo_crypto demo_next demo_closed"

lemma demo_capsule_fields [simp]:
  "predecessor_id demo_capsule = seal_id demo_crypto demo_seal" "successor_root demo_capsule = ''r1''"
  "attempt demo_capsule = 0" "capsule_epoch demo_capsule = 0"
  "client_public_key demo_capsule = ''alice''" "client_signature demo_capsule = ''alice''"
  by (simp_all add: demo_capsule_def capsule_create_def Let_def demo_client_def demo_seal_def)

lemma demo_create:
  "create_resource demo_crypto ''doc'' ''alice'' ''r0'' ''secret'' demo_start = (Inr demo_seal, demo_created)"
  by (simp add: create_resource_def demo_start_def protocol_init_def demo_seal_def demo_created_def
      has_key_def Let_def)

lemma demo_propose:
  "create_capsule demo_crypto demo_client demo_seal ''r1'' ''rule'' ''w'' 0 None demo_created =
   (Inr demo_capsule, demo_proposed)"
  by (simp add: create_capsule_def demo_created_def demo_start_def protocol_init_def Let_def
      demo_proposed_def demo_capsule_def [symmetric]) (simp add: demo_seal_def)

lemma demo_states [simp]:
  "members demo_start = [(''v1'', demo_member)]" "epoch demo_start = 0"
  "members demo_proposed = [(''v1'', demo_member)]" "epoch demo_proposed = 0"
  "locks demo_proposed = []" "closures demo_proposed = []" "conflicts demo_proposed = []"
  "capsules demo_proposed = [(capsule_id demo_capsule, demo_capsule)]"
  "known_seals demo_proposed = [(seal_id demo_crypto demo_seal, demo_seal)]"
  "current_seals demo_proposed = [(''doc'', demo_seal)]" "resource_id demo_seal = ''doc''"
  "seal_epoch demo_seal = 0"
  by (simp_all add: demo_start_def protocol_init_def demo_proposed_def demo_created_def demo_seal_def)

lemma demo_valid: "validate_capsule demo_crypto demo_proposed demo_capsule = Inr ()"
  by (simp add: validate_capsule_def verify_client_signature_def)

lemma demo_witness:
  "issue_receipt demo_crypto ''v1'' demo_capsule ''ACCEPT'' demo_proposed = (Inr demo_receipt, demo_locked)"
  by (simp add: issue_receipt_def demo_valid get_member_def accept_lock_def sign_receipt_def
      demo_locked_def demo_receipt_def demo_member_def)

lemma demo_locked_states [simp]:
  "members demo_locked = [(''v1'', demo_member)]" "epoch demo_locked = 0"
  "closures demo_locked = []" "conflicts demo_locked = []"
  "capsules demo_locked = [(capsule_id demo_capsule, demo_capsule)]"
  "known_seals demo_locked = [(seal_id demo_crypto demo_seal, demo_seal)]"
  "current_seals demo_locked = [(''doc'', demo_seal)]"
  by (simp_all add: demo_locked_def)

lemma demo_wf: "members p = [(''v1'', demo_member)] \<Longrightarrow> wf_members p"
  by (simp add: wf_members_def demo_member_def)

lemma demo_threshold: "members p = [(''v1'', demo_member)] \<Longrightarrow> threshold p = 1"
  by (simp add: threshold_def total_weight_def demo_member_def)

lemma demo_verified: "verify_closure demo_crypto demo_locked demo_capsule demo_closure = Inr True"
proof -
  have good: "good_receipt demo_crypto demo_locked ''ACCEPT'' demo_capsule demo_receipt = Inr True"
    by (simp add: good_receipt_def verify_receipt_def demo_receipt_def member_public_key_def demo_member_def)
  show ?thesis
    by (simp add: verify_closure_def demo_closure_def dict_of_def demo_receipt_def [symmetric] good
        demo_threshold member_weight_def Let_def)
       (simp add: demo_receipt_def good [unfolded demo_receipt_def] demo_member_def)
qed

lemma demo_register:
  "register_closure demo_crypto demo_capsule demo_closure demo_locked = (Inr (), demo_closed)"
  by (simp add: register_closure_def demo_verified has_conflict_def has_key_def demo_closed_def)

lemma demo_closed_states [simp]:
  "members demo_closed = [(''v1'', demo_member)]" "epoch demo_closed = 0"
  "closures demo_closed = [(capsule_id demo_capsule, demo_closure)]" "conflicts demo_closed = []"
  "capsules demo_closed = [(capsule_id demo_capsule, demo_capsule)]"
  "known_seals demo_closed = [(seal_id demo_crypto demo_seal, demo_seal)]"
  "current_seals demo_closed = [(''doc'', demo_seal)]" "abandons demo_closed = []"
  by (simp_all add: demo_closed_def demo_locked_def demo_proposed_def demo_created_def
      demo_start_def protocol_init_def)

lemma demo_closed_verified: "verify_closure demo_crypto demo_closed demo_capsule demo_closure = Inr True"
  using verify_closure_cong [of demo_closed demo_locked demo_crypto demo_capsule demo_closure] demo_verified
  by simp

lemma demo_apply:
  "apply_closure demo_crypto demo_capsule demo_closure demo_closed = (Inr demo_next, demo_applied)"
  by (simp add: apply_closure_def demo_closed_verified has_key_def demo_next_def demo_applied_def Let_def)
     (simp add: demo_closure_def)

lemma demo_run: "node_run demo_crypto demo_start {demo_receipt} demo_applied"
proof -
  have "node_run demo_crypto demo_start {} demo_proposed"
    by (rule node_run.capsule [OF node_run.resource [OF node_run.start demo_create] demo_propose])
  from node_run.witness [OF this demo_witness] have "node_run demo_crypto demo_start {demo_receipt} demo_locked"
    by simp
  from node_run.apply_call [OF node_run.register [OF this demo_register] demo_apply] show ?thesis .
qed

end
