(* ===== verification/Agreement.thy ===== *)
theory Agreement
  imports Demo
begin

section \<open>Closure exclusivity across nodes\<close>

text \<open>
  Honest validators each run the protocol on a node of their own (\<open>node_run\<close>); the others may
  sign anything. Two closures that verify, possibly on different nodes, for one predecessor and
  one attempt name one capsule. Signatures enter as \<open>unforged\<close>: a receipt that verifies under the
  key of an honest validator carries a statement this validator's node has signed.
\<close>

definition unforged ::
  "crypto \<Rightarrow> protocol \<Rightarrow> string set \<Rightarrow> (string \<Rightarrow> witness_receipt set) \<Rightarrow> witness_receipt list \<Rightarrow> bool" where
  "unforged cr p H R rs \<longleftrightarrow> (\<forall>r \<in> set rs. witness_id r \<in> H \<and> verify_receipt cr p r = Inr True \<longrightarrow>
     (\<exists>s \<in> R (witness_id r). receipt_statement s = receipt_statement r))"

lemma receipt_statement_inject:
  "receipt_statement r = receipt_statement s \<longleftrightarrow>
   r_capsule_id r = r_capsule_id s \<and> r_predecessor_id r = r_predecessor_id s
   \<and> witness_id r = witness_id s \<and> r_epoch r = r_epoch s \<and> r_attempt r = r_attempt s
   \<and> r_status r = r_status s"
  by (auto simp: receipt_statement_def receipt_fields_def)

text \<open>
  What a verified closure says about its receipts. \<open>verify_receipt\<close> compares a receipt with the
  capsule the node has stored under the receipt's capsule id, not with the capsule handed to
  \<open>verify_closure\<close>: that these are the same is a hypothesis (see \<open>forged_capsule_applies\<close>).
\<close>

lemma verified_closureD:
  assumes v: "verify_closure cr p c cl = Inr True"
    and stored: "map_of (capsules p) (capsule_id c) = Some c"
  shows "witness_id ` set (c_receipts cl) \<subseteq> validators p"
    and "threshold p \<le> (\<Sum>w \<in> witness_id ` set (c_receipts cl). member_weight p w)"
    and "w \<in> witness_id ` set (c_receipts cl) \<Longrightarrow>
      \<exists>r \<in> set (c_receipts cl). witness_id r = w \<and> verify_receipt cr p r = Inr True
       \<and> r_status r = ''ACCEPT'' \<and> r_capsule_id r = capsule_id c
       \<and> r_predecessor_id r = predecessor_id c \<and> r_attempt r = attempt c"
proof -
  let ?u = "dict_of witness_id (c_receipts cl)"
  have W: "set (dict_keys ?u) = witness_id ` set (c_receipts cl)" by (rule keys_dict_of)
  from v have good: "allE (good_receipt cr p ''ACCEPT'' c) (dict_values ?u) = Inr True"
    and weight: "threshold p \<le> sum_list (map (member_weight p) (dict_keys ?u))"
    by (auto simp: verify_closure_def bindE_Inr_iff Let_def simp del: map_map split: if_splits)
  from weight W show "threshold p \<le> (\<Sum>w \<in> witness_id ` set (c_receipts cl). member_weight p w)"
    by (metis sum_list_distinct_conv_sum_set wf_dict_of)
  have each: "\<exists>r \<in> set (c_receipts cl). witness_id r = w \<and> verify_receipt cr p r = Inr True
       \<and> r_status r = ''ACCEPT'' \<and> r_capsule_id r = capsule_id c
       \<and> r_predecessor_id r = predecessor_id c \<and> r_attempt r = attempt c"
    if w: "w \<in> witness_id ` set (c_receipts cl)" for w
  proof -
    from w W obtain r where wr: "(w, r) \<in> set ?u" by force
    then have r: "witness_id r = w" "r \<in> set (c_receipts cl)" by (auto dest: set_dict_of)
    from wr have "r \<in> set (dict_values ?u)" by force
    with good have g: "verify_receipt cr p r = Inr True" "r_status r = ''ACCEPT''"
      "r_capsule_id r = capsule_id c"
      by (auto simp: allE_True_iff good_receipt_True)
    from g(1) obtain c' where "map_of (capsules p) (r_capsule_id r) = Some c'"
      "r_predecessor_id r = predecessor_id c'" "r_attempt r = attempt c'" by (rule verify_receiptD)
    with stored g(3) have "r_predecessor_id r = predecessor_id c" "r_attempt r = attempt c" by auto
    with r g show ?thesis by blast
  qed
  then show "w \<in> witness_id ` set (c_receipts cl) \<Longrightarrow>
      \<exists>r \<in> set (c_receipts cl). witness_id r = w \<and> verify_receipt cr p r = Inr True
       \<and> r_status r = ''ACCEPT'' \<and> r_capsule_id r = capsule_id c
       \<and> r_predecessor_id r = predecessor_id c \<and> r_attempt r = attempt c" by blast
  show "witness_id ` set (c_receipts cl) \<subseteq> validators p"
  proof
    fix w
    assume "w \<in> witness_id ` set (c_receipts cl)"
    from each [OF this] obtain r where "witness_id r = w" "verify_receipt cr p r = Inr True" by blast
    then show "w \<in> validators p" using verify_receipt_witness by metis
  qed
qed

lemma one_capsule_closed:
  assumes wf: "wf_members p" and same: "members q = members p"
    and v1: "verify_closure cr p c cl = Inr True" "map_of (capsules p) (capsule_id c) = Some c"
    and v2: "verify_closure cr q c' cl' = Inr True" "map_of (capsules q) (capsule_id c') = Some c'"
    and spend: "predecessor_id c = predecessor_id c'" "attempt c = attempt c'"
    and honest: "\<forall>h \<in> H. node_run cr (initial h) (R h) (final h)"
    and sigs: "unforged cr p H R (c_receipts cl)" "unforged cr q H R (c_receipts cl')"
    and faulty: "3 * (\<Sum>v \<in> validators p - H. member_weight p v) \<le> total_weight p"
  shows "capsule_id c = capsule_id c'"
proof -
  have mw: "member_weight q = member_weight p" and tq: "threshold q = threshold p"
    using same by (auto simp: member_weight_def threshold_def total_weight_def)
  let ?A = "witness_id ` set (c_receipts cl)" and ?B = "witness_id ` set (c_receipts cl')"
  have "3 * (\<Sum>v \<in> validators p - H. member_weight p v) \<le> (\<Sum>v \<in> validators p. member_weight p v)"
    using faulty wf by (simp add: total_weight_as_sum wf_members_def)
  then obtain h where h: "h \<in> ?A" "h \<in> ?B" "h \<in> H"
    using mosaic.honest_overlap [OF wf verified_closureD(1) [OF v1]
        verified_closureD(1) [OF v2, unfolded same] verified_closureD(2) [OF v1]
        verified_closureD(2) [OF v2, unfolded mw tq], of "validators p - H"] by blast
  from verified_closureD(3) [OF v1 h(1)] obtain r1 where r1: "r1 \<in> set (c_receipts cl)"
    "witness_id r1 = h" "verify_receipt cr p r1 = Inr True" "r_capsule_id r1 = capsule_id c"
    "r_predecessor_id r1 = predecessor_id c" "r_attempt r1 = attempt c" by blast
  from verified_closureD(3) [OF v2 h(2)] obtain r2 where r2: "r2 \<in> set (c_receipts cl')"
    "witness_id r2 = h" "verify_receipt cr q r2 = Inr True" "r_capsule_id r2 = capsule_id c'"
    "r_predecessor_id r2 = predecessor_id c'" "r_attempt r2 = attempt c'" by blast
  from sigs(1) r1 h(3) obtain s1 where s1: "s1 \<in> R h" "receipt_statement s1 = receipt_statement r1"
    unfolding unforged_def by blast
  from sigs(2) r2 h(3) obtain s2 where s2: "s2 \<in> R h" "receipt_statement s2 = receipt_statement r2"
    unfolding unforged_def by blast
  have "r_capsule_id s1 = r_capsule_id s2"
  proof (rule honest_first_claim [OF _ s1(1) s2(1)])
    show "node_run cr (initial h) (R h) (final h)" using honest h(3) by blast
    show "r_predecessor_id s1 = r_predecessor_id s2" "r_attempt s1 = r_attempt s2"
      using s1(2) s2(2) r1 r2 spend by (simp_all add: receipt_statement_inject)
  qed
  with s1(2) s2(2) r1 r2 show ?thesis by (simp add: receipt_statement_inject)
qed

text \<open>
  C1. Closure exclusivity. Two nodes \<open>p\<close> and \<open>q\<close> have the same members, and each has verified a
  closure for a capsule it has stored; the two capsules spend one predecessor in one attempt.
  Every validator of \<open>H\<close> is honest (its node only ever ran the protocol), the others hold at most
  a third of the weight, and nobody forged an honest signature. Then the two closures are for
  the same capsule.
\<close>

theorem closure_exclusivity:
  assumes wf: "wf_members p" and same: "members q = members p"
    and v1: "verify_closure cr p c cl = Inr True" "map_of (capsules p) (capsule_id c) = Some c"
    and v2: "verify_closure cr q c' cl' = Inr True" "map_of (capsules q) (capsule_id c') = Some c'"
    and spend: "predecessor_id c = predecessor_id c'" "attempt c = attempt c'"
    and honest: "\<forall>h \<in> H. node_run cr (initial h) (R h) (final h)"
    and sigs: "unforged cr p H R (c_receipts cl)" "unforged cr q H R (c_receipts cl')"
    and faulty: "3 * (\<Sum>v \<in> validators p - H. member_weight p v) \<le> total_weight p"
  shows "capsule_id c = capsule_id c'"
  using assms by (rule one_capsule_closed)

lemma demo_witness_run: "node_run demo_crypto demo_proposed {demo_receipt} demo_locked"
  using node_run.witness [OF node_run.start demo_witness] by simp

theorem closure_exclusivity_witness:
  "verify_closure demo_crypto demo_locked demo_capsule demo_closure = Inr True
   \<and> node_run demo_crypto demo_proposed {demo_receipt} demo_locked
   \<and> capsule_id demo_capsule = capsule_id demo_capsule"
proof (intro conjI demo_verified demo_witness_run, rule closure_exclusivity [where p = demo_locked and q = demo_locked and c = demo_capsule
    and c' = demo_capsule and H = "{''v1''}" and R = "\<lambda>_. {demo_receipt}"
    and initial = "\<lambda>_. demo_proposed" and final = "\<lambda>_. demo_locked"])
  show "wf_members demo_locked" by (rule demo_wf) simp
  show "verify_closure demo_crypto demo_locked demo_capsule demo_closure = Inr True"
    by (rule demo_verified)
  then show "verify_closure demo_crypto demo_locked demo_capsule demo_closure = Inr True" .
  show "unforged demo_crypto demo_locked {''v1''} (\<lambda>_. {demo_receipt}) (c_receipts demo_closure)"
    by (simp add: unforged_def demo_closure_def)
  then show "unforged demo_crypto demo_locked {''v1''} (\<lambda>_. {demo_receipt}) (c_receipts demo_closure)" .
  show "3 * (\<Sum>v \<in> validators demo_locked - {''v1''}. member_weight demo_locked v) \<le> total_weight demo_locked"
    by (simp add: total_weight_def demo_member_def)
qed (simp_all add: demo_witness_run)

end
