(* ===== verification/Seals.thy ===== *)
theory Seals
  imports Demo
begin

section \<open>Invariants of the sealed state\<close>

text \<open>
  \<open>seals_ok\<close> is the invariant of the seal dictionaries: every known seal is filed under its seal
  id, every current seal under its resource and known, versions are not negative, and every seal
  past version 0 carries the capability hash of a capsule with a registered closure.
  \<open>closures_ok\<close>: a registered closure names its capsule and distinct validators whose weight
  reaches the threshold. Both hold on every run (\<open>node_run\<close>) of a node that starts empty.
\<close>

definition quorum_backed :: "protocol \<Rightarrow> string \<Rightarrow> closure_proof \<Rightarrow> bool" where
  "quorum_backed p cid cl \<longleftrightarrow> c_capsule_id cl = cid \<and> distinct (c_signer_ids cl)
     \<and> set (c_signer_ids cl) \<subseteq> validators p
     \<and> threshold p \<le> (\<Sum>w \<in> set (c_signer_ids cl). member_weight p w)"

definition closures_ok :: "protocol \<Rightarrow> bool" where
  "closures_ok p \<longleftrightarrow> (\<forall>cid cl. map_of (closures p) cid = Some cl \<longrightarrow> quorum_backed p cid cl)"

definition backed :: "crypto \<Rightarrow> protocol \<Rightarrow> state_seal \<Rightarrow> bool" where
  "backed cr p s \<longleftrightarrow> (\<exists>cid. has_key (closures p) cid \<and> capability_hash s = digest cr (JStr cid))"

definition seals_ok :: "crypto \<Rightarrow> protocol \<Rightarrow> bool" where
  "seals_ok cr p \<longleftrightarrow>
     (\<forall>(k, s) \<in> set (known_seals p).
        k = seal_id cr s \<and> 0 \<le> version s \<and> (version s = 0 \<or> backed cr p s))
   \<and> (\<forall>(rid, s) \<in> set (current_seals p).
        resource_id s = rid \<and> 0 \<le> version s \<and> has_key (known_seals p) (seal_id cr s))"

lemma seals_okI:
  assumes "\<And>k s. (k, s) \<in> set (known_seals p) \<Longrightarrow>
      k = seal_id cr s \<and> 0 \<le> version s \<and> (version s = 0 \<or> backed cr p s)"
    and "\<And>rid s. (rid, s) \<in> set (current_seals p) \<Longrightarrow>
      resource_id s = rid \<and> 0 \<le> version s \<and> has_key (known_seals p) (seal_id cr s)"
  shows "seals_ok cr p"
  using assms unfolding seals_ok_def by blast

lemma seals_ok_known:
  "seals_ok cr p \<Longrightarrow> (k, s) \<in> set (known_seals p) \<Longrightarrow>
   k = seal_id cr s \<and> 0 \<le> version s \<and> (version s = 0 \<or> backed cr p s)"
  unfolding seals_ok_def by blast

lemma seals_ok_current:
  "seals_ok cr p \<Longrightarrow> (rid, s) \<in> set (current_seals p) \<Longrightarrow>
   resource_id s = rid \<and> 0 \<le> version s \<and> has_key (known_seals p) (seal_id cr s)"
  unfolding seals_ok_def by blast

text \<open>The two invariants read the members, the closures and the seal dictionaries only.\<close>

lemma quorum_backed_cong: "members p' = members p \<Longrightarrow> quorum_backed p' = quorum_backed p"
  by (intro ext) (simp add: quorum_backed_def threshold_def total_weight_def member_weight_def)

lemma closures_ok_cong:
  assumes "members p' = members p" "closures p' = closures p"
  shows "closures_ok p' = closures_ok p"
  unfolding closures_ok_def quorum_backed_cong [OF assms(1)] assms(2) ..

lemma seals_ok_grow:
  assumes "seals_ok cr p" "known_seals p' = known_seals p" "current_seals p' = current_seals p"
    "\<And>k. has_key (closures p) k \<Longrightarrow> has_key (closures p') k"
  shows "seals_ok cr p'"
proof (rule seals_okI)
  fix k s
  assume "(k, s) \<in> set (known_seals p')"
  with assms(2) have "(k, s) \<in> set (known_seals p)" by simp
  from seals_ok_known [OF assms(1) this] assms(4)
  show "k = seal_id cr s \<and> 0 \<le> version s \<and> (version s = 0 \<or> backed cr p' s)"
    unfolding backed_def by blast
next
  fix rid s
  assume "(rid, s) \<in> set (current_seals p')"
  with assms(3) have "(rid, s) \<in> set (current_seals p)" by simp
  from seals_ok_current [OF assms(1) this]
  show "resource_id s = rid \<and> 0 \<le> version s \<and> has_key (known_seals p') (seal_id cr s)"
    unfolding assms(2) .
qed

text \<open>Filing one seal under its resource and its id.\<close>

lemma filed_seals_ok:
  assumes ok: "seals_ok cr p" and s: "0 \<le> version s" "version s = 0 \<or> backed cr p s"
    and p': "known_seals p' = AList.update (seal_id cr s) s (known_seals p)"
      "current_seals p' = AList.update (resource_id s) s (current_seals p)" "closures p' = closures p"
  shows "seals_ok cr p'"
proof (rule seals_okI)
  have bk: "backed cr p' t = backed cr p t" for t by (simp add: backed_def p'(3))
  fix k t
  assume "(k, t) \<in> set (known_seals p')"
  then have "(k, t) = (seal_id cr s, s) \<or> (k, t) \<in> set (known_seals p)"
    using set_update_subset [of "seal_id cr s" s "known_seals p"] unfolding p'(1) by blast
  then show "k = seal_id cr t \<and> 0 \<le> version t \<and> (version t = 0 \<or> backed cr p' t)"
    unfolding bk using s seals_ok_known [OF ok, of k t] by auto
next
  fix rid t
  assume "(rid, t) \<in> set (current_seals p')"
  then have "(rid, t) = (resource_id s, s) \<or> (rid, t) \<in> set (current_seals p)"
    using set_update_subset [of "resource_id s" s "current_seals p"] unfolding p'(2) by blast
  then show "resource_id t = rid \<and> 0 \<le> version t \<and> has_key (known_seals p') (seal_id cr t)"
    unfolding p' has_key_update using s seals_ok_current [OF ok, of rid t] by auto
qed
lemma verified_quorum_backed:
  assumes v: "verify_closure cr p c cl = Inr True"
  shows "quorum_backed p (capsule_id c) cl"
proof -
  from v have valid: "valid_closure cr p c cl" by (simp add: verify_closure_valid)
  then have "w \<in> validators p" if w: "w \<in> set (c_signer_ids cl)" for w
  proof -
    from w valid have "w \<in> witness_id ` set (c_receipts cl)" by (simp add: valid_closure_def)
    then obtain r where r: "latest (c_receipts cl) w = Some r" using latest_exists by blast
    with valid w have "verify_receipt cr p r = Inr True" by (simp add: valid_closure_def)
    with latest_Some [OF r] show ?thesis using verify_receipt_witness by metis
  qed
  with valid show ?thesis by (auto simp: quorum_backed_def valid_closure_def)
qed

lemma register_closure_closures_ok:
  assumes ok: "closures_ok p" and call: "register_closure cr c cl p = (res, p')"
  shows "closures_ok p'"
  using call
proof (cases rule: register_closure_cases)
  case new
  have m: "members p' = members p" by (simp add: new(2))
  have "quorum_backed p cid k" if "map_of (closures p') cid = Some k" for cid k
    using that ok verified_quorum_backed [OF new(3)]
    by (auto simp: new(2) closures_ok_def split: if_splits)
  then show ?thesis unfolding closures_ok_def quorum_backed_cong [OF m] by blast
qed (use ok in simp_all)

lemma create_resource_seals_ok:
  assumes ok: "seals_ok cr p" and call: "create_resource cr rid own root secret p = (res, p')"
  shows "seals_ok cr p'"
proof (cases "has_key (current_seals p) rid")
  case True
  with call ok show ?thesis by (simp add: create_resource_def)
next
  case False
  define s where "s = \<lparr>resource_id = rid, seal_epoch = epoch p, version = 0, state_root = root,
    capability_hash = digest cr (JStr secret), owner = own\<rparr>"
  from False call have p': "p' = p\<lparr>current_seals := AList.update rid s (current_seals p),
      known_seals := AList.update (seal_id cr s) s (known_seals p)\<rparr>"
    by (simp add: create_resource_def Let_def s_def)
  show ?thesis by (rule filed_seals_ok [OF ok, of s]) (simp_all add: p' s_def)
qed

lemma install_seal_seals_ok:
  assumes ok: "seals_ok cr p" and "0 \<le> version s" "backed cr p s"
  shows "seals_ok cr (install_seal cr s p)"
  by (rule filed_seals_ok [OF ok]) (use assms in simp_all)

lemma install_seals_seals_ok:
  "seals_ok cr p \<Longrightarrow> \<forall>s \<in> set ss. 0 \<le> version s \<and> backed cr p s \<Longrightarrow>
   seals_ok cr (fold (install_seal cr) ss p)"
proof (induction ss arbitrary: p)
  case Nil
  then show ?case by simp
next
  case (Cons s ss)
  have "\<forall>t \<in> set ss. 0 \<le> version t \<and> backed cr (install_seal cr s p) t"
    using Cons.prems(2) by (auto simp: backed_def)
  with Cons.IH [of "install_seal cr s p"] Cons.prems show ?case
    by (simp add: install_seal_seals_ok)
qed

lemma successor_backed:
  assumes "0 \<le> version current" "has_key (closures p) (capsule_id c)"
  shows "0 \<le> version (successor_seal cr current c) \<and> backed cr p (successor_seal cr current c)"
  using assms by (auto simp: successor_seal_def backed_def)

lemma apply_closure_seals_ok:
  assumes ok: "seals_ok cr p" and call: "apply_closure cr c cl p = (res, p')"
  shows "seals_ok cr p'"
proof -
  have reg: "seals_ok cr q" if "register_closure cr c cl p = (rr, q)" for rr q
    using register_closure_frame [OF that] by (intro seals_ok_grow [OF ok]) blast+
  from call show ?thesis
  proof (cases rule: apply_closure_cases)
    case (fail e)
    with ok reg show ?thesis by blast
  next
    case (applied q pred current)
    with ok reg show ?thesis by blast
  next
    case (installed q pred current)
    from installed(2) ok reg have q: "seals_ok cr q" by blast
    from seals_ok_current [OF this map_of_SomeD [OF installed(5)]] have "0 \<le> version current" by blast
    with install_seal_seals_ok [OF q] successor_backed [of current q c cr] installed(3)
    show ?thesis unfolding installed(8) by blast
  qed
qed

lemma check_entries_registered:
  "check_entries cr p entries = Inr () \<Longrightarrow> (c, cl) \<in> set entries \<Longrightarrow>
   map_of (closures p) (capsule_id c) = Some cl \<and> verify_closure cr p c cl = Inr True
   \<and> (\<exists>s \<in> set (dict_values (current_seals p)). seal_id cr s = predecessor_id c)"
  by (induction cr p entries rule: check_entries.induct)
     (auto simp: bindE_Inr_iff split: if_splits)

lemma bundle_seals_from:
  "s \<in> set (bundle_seals cr p entries) \<Longrightarrow>
   \<exists>c cl current. (c, cl) \<in> set entries \<and> current \<in> set (dict_values (current_seals p))
     \<and> seal_id cr current = predecessor_id c \<and> s = successor_seal cr current c"
proof (induction cr p entries rule: bundle_seals.induct)
  case (2 cr p c cl rest)
  show ?case
  proof (cases "find (\<lambda>s. seal_id cr s = predecessor_id c) (dict_values (current_seals p))")
    case None
    with 2 show ?thesis by auto
  next
    case (Some current)
    then have cur: "current \<in> set (dict_values (current_seals p))" "seal_id cr current = predecessor_id c"
      by (auto simp: find_Some_iff)
    show ?thesis
    proof (cases "s = successor_seal cr current c")
      case True
      with cur show ?thesis by auto
    next
      case False
      with 2(3) Some have "s \<in> set (bundle_seals cr p rest)" by simp
      from 2(2) [OF Some this] show ?thesis by auto
    qed
  qed
qed simp

lemma apply_bundle_seals_ok:
  assumes ok: "seals_ok cr p" and call: "apply_bundle cr b entries p = (res, p')"
  shows "seals_ok cr p'"
  using call
proof (cases rule: apply_bundle_cases)
  case (fail e)
  with ok show ?thesis by simp
next
  case done_all
  have "0 \<le> version s \<and> backed cr p s" if "s \<in> set (bundle_seals cr p entries)" for s
  proof -
    from bundle_seals_from [OF that] obtain c cl current where e: "(c, cl) \<in> set entries"
      "current \<in> set (dict_values (current_seals p))" "s = successor_seal cr current c" by blast
    from e(2) obtain rid where "(rid, current) \<in> set (current_seals p)" by auto
    from seals_ok_current [OF ok this] have v: "0 \<le> version current" by blast
    from check_entries_registered [OF done_all(1) e(1)] have "has_key (closures p) (capsule_id c)"
      by (simp add: has_key_map_of)
    from successor_backed [OF v this] e(3) show ?thesis by simp
  qed
  then show ?thesis unfolding done_all(3) by (intro install_seals_seals_ok [OF ok]) blast
qed

lemma closures_ok_same:
  "members p' = members p \<and> closures p' = closures p \<Longrightarrow> closures_ok p \<Longrightarrow> closures_ok p'"
  using closures_ok_cong by blast

lemma close_given_closures:
  assumes "close cr c (Some (r # rs)) p = (res, p')"
  obtains (kept) "closures p' = closures p"
  | (registered) cl where "register_closure cr c cl p = (Inr (), p')" "res = Inr cl"
proof -
  have "closures p' = closures p \<or> (\<exists>cl. register_closure cr c cl p = (Inr (), p') \<and> res = Inr cl)"
  proof (cases res)
    case (Inl e)
    with assms show ?thesis
      by (auto simp: close_def split: sum.splits if_splits prod.splits elim: register_closure_cases)
  next
    case (Inr cl)
    with assms show ?thesis
      by (auto simp: close_def split: sum.splits if_splits prod.splits)
  qed
  with that show ?thesis by blast
qed

subsection \<open>Both invariants on every run\<close>

lemma issue_receipt_frame:
  assumes "issue_receipt cr mid c status p = (res, p')"
  shows "members p' = members p \<and> epoch p' = epoch p \<and> closures p' = closures p
    \<and> known_seals p' = known_seals p \<and> current_seals p' = current_seals p \<and> abandons p' = abandons p"
  using assms
proof (cases rule: issue_receipt_cases)
  case (fail e)
  from only_conflicts_fields [OF fail(2)] show ?thesis by blast
next
  case (lock m)
  then have "p' = p \<or> (\<exists>st. p' = lock_as c st p)"
    by (auto elim: accept_lock_cases abandon_lock_cases)
  then show ?thesis by auto
qed

text \<open>An operation that leaves these four components alone keeps both invariants.\<close>

lemma sealed_state_same:
  assumes "members p' = members p \<and> closures p' = closures p
    \<and> known_seals p' = known_seals p \<and> current_seals p' = current_seals p"
    and "seals_ok cr p \<and> closures_ok p"
  shows "seals_ok cr p' \<and> closures_ok p'"
  using assms seals_ok_grow [of cr p p'] closures_ok_cong [of p' p] by simp

lemma node_run_sealed:
  assumes "node_run cr p0 R p" "seals_ok cr p0 \<and> closures_ok p0"
  shows "seals_ok cr p \<and> closures_ok p"
  using assms
proof (induction rule: node_run.induct)
  case start
  then show ?case .
next
  case (resource R p rid own root secret res p')
  then show ?case using create_resource_seals_ok [OF _ resource(2)]
      closures_ok_same [of p' p] create_resource_frame [OF resource(2)] by blast
next
  case (capsule R p kp pred root rule wit att bid res p')
  show ?case
    by (rule sealed_state_same [OF _ capsule(3)]) (use create_capsule_frame [OF capsule(2)] capsule(4) in blast)+
next
  case (store R p c)
  show ?case by (rule sealed_state_same [OF _ store(2)]) (use store(3) in simp_all)
next
  case (witness R p mid c status res p')
  show ?case
    by (rule sealed_state_same [OF _ witness(3)]) (use issue_receipt_frame [OF witness(2)] witness(4) in blast)+
next
  case (register R p c cl res p')
  have "seals_ok cr p'"
    by (rule seals_ok_grow [of cr p]) (use register(3,4) register_closure_frame [OF register(2)] in blast)+
  with register register_closure_closures_ok [OF _ register(2)] show ?case by blast
next
  case (close_call R p c r rs res p')
  note frame = close_given_frame [OF close_call(2)]
  have seals: "seals_ok cr p'"
    by (rule seals_ok_grow [of cr p]) (use close_call(3,4) frame in blast)+
  from close_call(2) show ?case
  proof (cases rule: close_given_closures)
    case kept
    with seals close_call(3,4) frame closures_ok_same [of p' p] show ?thesis by blast
  next
    case (registered cl)
    with seals close_call(3,4) register_closure_closures_ok show ?thesis by blast
  qed
next
  case (abandon_call R p c r rs res p')
  show ?case
    by (rule sealed_state_same [OF _ abandon_call(3)])
       (use abandon_given_frame [OF abandon_call(2)] abandon_call(4) in blast)+
next
  case (apply_call R p c cl res p')
  then have "seals_ok cr p'" using apply_closure_seals_ok [OF _ apply_call(2)] by blast
  moreover have "closures_ok p'"
    using apply_call(2)
  proof (cases rule: apply_closure_cases)
    case (fail e)
    with apply_call(3,4) register_closure_closures_ok show ?thesis by blast
  next
    case (applied q pred current)
    with apply_call(3,4) register_closure_closures_ok show ?thesis by blast
  next
    case (installed q pred current)
    then have "closures_ok q" using apply_call(3,4) register_closure_closures_ok by blast
    with closures_ok_same [of p' q] show ?thesis by (simp add: installed(8))
  qed
  ultimately show ?case by blast
next
  case (bundle_call R p b entries res p')
  then have "seals_ok cr p'" using apply_bundle_seals_ok [OF _ bundle_call(2)] by blast
  moreover have "members p' = members p \<and> closures p' = closures p"
    using bundle_call(2) by (cases rule: apply_bundle_cases) simp_all
  ultimately show ?case using closures_ok_same [of p' p] bundle_call(3,4) by blast
qed

lemma protocol_init_sealed: "seals_ok cr (protocol_init ms ep) \<and> closures_ok (protocol_init ms ep)"
  by (simp add: protocol_init_def seals_ok_def closures_ok_def)

lemma node_run_members: "node_run cr p0 R p \<Longrightarrow> members p = members p0 \<and> epoch p = epoch p0"
proof (induction rule: node_run.induct)
  case (apply_call R p c cl res p')
  have reg: "members q = members p \<and> epoch q = epoch p" if "register_closure cr c cl p = (rr, q)" for rr q
    using register_closure_frame [OF that] by blast
  from apply_call(2) have "members p' = members p \<and> epoch p' = epoch p"
  proof (cases rule: apply_closure_cases)
    case (fail e)
    with reg show ?thesis by blast
  next
    case (applied q pred current)
    with reg show ?thesis by blast
  next
    case (installed q pred current)
    from installed(2) reg have "members q = members p \<and> epoch q = epoch p" by blast
    then show ?thesis by (simp add: installed(8))
  qed
  with apply_call(3) show ?case by simp
next
  case (bundle_call R p b entries res p')
  then have "members p' = members p \<and> epoch p' = epoch p"
    by (auto elim: apply_bundle_cases)
  with bundle_call(3) show ?case by simp
next
  case (resource R p rid own root secret res p')
  then show ?case using create_resource_frame by metis
next
  case (capsule R p kp pred root rule wit att bid res p')
  then show ?case using create_capsule_frame by metis
next
  case (witness R p mid c status res p')
  then show ?case using issue_receipt_frame by metis
next
  case (register R p c cl res p')
  then show ?case using register_closure_frame by metis
next
  case (close_call R p c r rs res p')
  then show ?case using close_given_frame by metis
next
  case (abandon_call R p c r rs res p')
  then show ?case using abandon_given_frame by metis
qed simp_all

text \<open>
  C5. No seal without a quorum: whatever a node that started empty has done, every seal it knows
  past version 0 carries the capability hash of a capsule whose closure is registered, and the
  signers of this closure are distinct validators whose weight reaches the threshold.
\<close>

theorem applied_seals_backed:
  assumes "node_run cr (protocol_init ms ep) R p"
    and "(k, s) \<in> set (known_seals p)" "version s \<noteq> 0"
  shows "\<exists>cid cl. capability_hash s = digest cr (JStr cid) \<and> map_of (closures p) cid = Some cl
    \<and> c_capsule_id cl = cid \<and> distinct (c_signer_ids cl) \<and> set (c_signer_ids cl) \<subseteq> validators p
    \<and> threshold p \<le> (\<Sum>w \<in> set (c_signer_ids cl). member_weight p w)"
proof -
  from node_run_sealed [OF assms(1) protocol_init_sealed] have ok: "seals_ok cr p" "closures_ok p"
    by blast+
  from seals_ok_known [OF ok(1) assms(2)] assms(3) have "backed cr p s" by blast
  then obtain cid cl where "capability_hash s = digest cr (JStr cid)" "map_of (closures p) cid = Some cl"
    unfolding backed_def has_key_map_of by blast
  moreover from ok(2) this(2) have "quorum_backed p cid cl" unfolding closures_ok_def by blast
  ultimately show ?thesis unfolding quorum_backed_def by blast
qed

theorem applied_seals_backed_witness:
  "\<exists>cid cl. capability_hash demo_next = digest demo_crypto (JStr cid)
    \<and> map_of (closures demo_applied) cid = Some cl \<and> c_capsule_id cl = cid
    \<and> distinct (c_signer_ids cl) \<and> set (c_signer_ids cl) \<subseteq> validators demo_applied
    \<and> threshold demo_applied \<le> (\<Sum>w \<in> set (c_signer_ids cl). member_weight demo_applied w)"
proof (rule applied_seals_backed)
  show "node_run demo_crypto (protocol_init [(''v1'', demo_member)] 0) {demo_receipt} demo_applied"
    using demo_run by (simp add: demo_start_def)
  show "(seal_id demo_crypto demo_next, demo_next) \<in> set (known_seals demo_applied)"
    by (rule map_of_SomeD) (simp add: demo_applied_def)
  show "version demo_next \<noteq> 0"
    by (simp add: demo_next_def successor_seal_def demo_seal_def)
qed

end
