(* ===== verification/Protocol_Props.thy ===== *)
theory Protocol_Props
  imports Agreement Seals
begin

section \<open>What each operation of the protocol promises\<close>

text \<open>
  Functional behaviour of the operations of \<open>MosaicProtocol\<close> beyond the run invariants: applying
  a closure, closing, conflicts, bundles, outcomes, and three places where the code admits more
  than its documents say.
\<close>

subsection \<open>Applying\<close>

text \<open>\<open>collision_free\<close>: no two different seals this node holds have one seal id.\<close>

definition collision_free :: "crypto \<Rightarrow> protocol \<Rightarrow> bool" where
  "collision_free cr p \<longleftrightarrow>
     (\<forall>s \<in> set (dict_values (known_seals p)) \<union> set (dict_values (current_seals p)).
      \<forall>t \<in> set (dict_values (known_seals p)) \<union> set (dict_values (current_seals p)).
        seal_id cr s = seal_id cr t \<longrightarrow> s = t)"

lemma collision_free_current:
  assumes "collision_free cr p" "seals_ok cr p" "map_of (known_seals p) k = Some pred"
    "map_of (current_seals p) rid = Some current" "seal_id cr current = k"
  shows "current = pred"
proof -
  from seals_ok_known [OF assms(2) map_of_SomeD [OF assms(3)]] have "seal_id cr pred = k" by simp
  moreover have "pred \<in> set (dict_values (known_seals p))" "current \<in> set (dict_values (current_seals p))"
    using assms(3,4) by (force dest: map_of_SomeD)+
  ultimately show ?thesis using assms(1,5) unfolding collision_free_def by blast
qed

text \<open>What the registration inside \<open>apply\<close> leaves alone.\<close>

lemma apply_registration:
  assumes "has_key (closures p) k \<and> q = p \<or> register_closure cr c cl p = (Inr (), q)"
  shows "known_seals q = known_seals p \<and> current_seals q = current_seals p \<and> members q = members p
    \<and> capsules q = capsules p \<and> epoch q = epoch p \<and> conflicts q = conflicts p"
  using assms register_closure_frame by blast

lemma apply_successor:
  assumes call: "apply_closure cr c cl p = (Inr s, p')" and ok: "seals_ok cr p" and cf: "collision_free cr p"
  shows "\<exists>pred. map_of (known_seals p) (predecessor_id c) = Some pred
    \<and> resource_id s = resource_id pred \<and> version s = version pred + 1
    \<and> state_root s = successor_root c \<and> capability_hash s = digest cr (JStr (capsule_id c))
    \<and> map_of (current_seals p') (resource_id s) = Some s"
  using call
proof (cases rule: apply_closure_cases)
  case (applied q pred current)
  note same = apply_registration [OF applied(2)]
  from applied(5) same have "map_of (current_seals p) (resource_id pred) = Some current" by simp
  from seals_ok_current [OF ok map_of_SomeD [OF this]] have "resource_id current = resource_id pred" by blast
  with applied same show ?thesis by auto
next
  case (installed q pred current)
  note same = apply_registration [OF installed(2)]
  from installed(4,5) same have known: "map_of (known_seals p) (predecessor_id c) = Some pred"
    "map_of (current_seals p) (resource_id pred) = Some current" by simp_all
  from collision_free_current [OF cf ok known installed(6)] have "current = pred" .
  with known show ?thesis using installed(7,8) by (auto simp: successor_seal_def)
qed simp

text \<open>
  C34. A successful \<open>apply\<close> has verified the closure, registered it, and returns the direct
  successor of the capsule's predecessor: same resource, the next version, the capsule's root,
  the hash of the capsule's id; this seal is current and known afterwards.
\<close>

theorem apply_installs_successor:
  assumes "apply_closure cr c cl p = (Inr s, p')" "seals_ok cr p" "collision_free cr p"
  shows "verify_closure cr p c cl = Inr True \<and> has_key (closures p') (capsule_id c)
    \<and> (\<exists>pred. map_of (known_seals p) (predecessor_id c) = Some pred
        \<and> resource_id s = resource_id pred \<and> version s = version pred + 1)
    \<and> state_root s = successor_root c \<and> capability_hash s = digest cr (JStr (capsule_id c))
    \<and> map_of (current_seals p') (resource_id s) = Some s \<and> has_key (known_seals p') (seal_id cr s)"
proof -
  from apply_closure_seals_ok [OF assms(2,1)] have ok': "seals_ok cr p'" .
  from apply_successor [OF assms] have cur: "map_of (current_seals p') (resource_id s) = Some s" by blast
  have "verify_closure cr p c cl = Inr True \<and> has_key (closures p') (capsule_id c)"
    using assms(1) by (cases rule: apply_closure_cases) (simp_all del: has_key_update)
  moreover have "has_key (known_seals p') (seal_id cr s)"
    using seals_ok_current [OF ok' map_of_SomeD [OF cur]] by blast
  ultimately show ?thesis using apply_successor [OF assms] by blast
qed

lemma demo_sealed: "seals_ok demo_crypto demo_closed"
proof -
  have "node_run demo_crypto demo_start {} demo_proposed"
    by (rule node_run.capsule [OF node_run.resource [OF node_run.start demo_create] demo_propose])
  from node_run.register [OF node_run.witness [OF this demo_witness] demo_register]
  show ?thesis using node_run_sealed protocol_init_sealed unfolding demo_start_def by blast
qed

lemma demo_collision_free: "collision_free demo_crypto demo_closed"
  by (simp add: collision_free_def)

theorem apply_installs_successor_witness:
  "verify_closure demo_crypto demo_closed demo_capsule demo_closure = Inr True
   \<and> has_key (closures demo_applied) (capsule_id demo_capsule)
   \<and> (\<exists>pred. map_of (known_seals demo_closed) (predecessor_id demo_capsule) = Some pred
       \<and> resource_id demo_next = resource_id pred \<and> version demo_next = version pred + 1)
   \<and> state_root demo_next = successor_root demo_capsule
   \<and> capability_hash demo_next = digest demo_crypto (JStr (capsule_id demo_capsule))
   \<and> map_of (current_seals demo_applied) (resource_id demo_next) = Some demo_next
   \<and> has_key (known_seals demo_applied) (seal_id demo_crypto demo_next)"
  by (rule apply_installs_successor [OF demo_apply demo_sealed demo_collision_free])

text \<open>
  \<open>apply\<close> is idempotent: calling it again with the same capsule and closure returns the same
  seal and changes nothing, as long as the new seal's id is not the predecessor's.
\<close>

theorem apply_idempotent:
  assumes call: "apply_closure cr c cl p = (Inr s, p')" and ok: "seals_ok cr p" "collision_free cr p"
    and fresh: "seal_id cr s \<noteq> predecessor_id c"
  shows "apply_closure cr c cl p' = (Inr s, p')"
proof -
  obtain pred where pred: "map_of (known_seals p) (predecessor_id c) = Some pred"
    "resource_id s = resource_id pred" "version s = version pred + 1" "state_root s = successor_root c"
    "capability_hash s = digest cr (JStr (capsule_id c))"
    "map_of (current_seals p') (resource_id s) = Some s"
    using apply_successor [OF call ok] by blast
  have rest: "members p' = members p \<and> capsules p' = capsules p \<and> epoch p' = epoch p
      \<and> has_key (closures p') (capsule_id c) \<and> c_capsule_id cl = capsule_id c
      \<and> verify_closure cr p c cl = Inr True
      \<and> map_of (known_seals p') (predecessor_id c) = map_of (known_seals p) (predecessor_id c)"
    using call
  proof (cases rule: apply_closure_cases)
    case (applied q pr cu)
    from applied(1) have "c_capsule_id cl = capsule_id c" by (simp add: verify_closure_valid valid_closure_def)
    with applied apply_registration [OF applied(2)] show ?thesis by simp
  next
    case (installed q pr cu)
    from installed(1) have "c_capsule_id cl = capsule_id c" by (simp add: verify_closure_valid valid_closure_def)
    with installed apply_registration [OF installed(2)] fresh show ?thesis by simp
  qed simp
  then have "verify_closure cr p' c cl = Inr True"
    using verify_closure_cong [of p' p cr c cl] by simp
  with rest pred fresh show ?thesis by (simp add: apply_closure_def)
qed

lemma demo_next_fresh: "seal_id demo_crypto demo_next \<noteq> seal_id demo_crypto demo_seal"
proof
  assume "seal_id demo_crypto demo_next = seal_id demo_crypto demo_seal"
  then have "demo_next = demo_seal" by (rule seal_id_inject) simp
  then have "version demo_next = version demo_seal" by simp
  then show False by (simp add: demo_next_def successor_seal_def)
qed

theorem apply_idempotent_witness:
  "apply_closure demo_crypto demo_capsule demo_closure demo_applied = (Inr demo_next, demo_applied)"
  by (rule apply_idempotent [OF demo_apply demo_sealed demo_collision_free])
     (simp add: demo_next_fresh)

definition forged_capsule :: capsule where
  "forged_capsule = demo_capsule\<lparr>successor_root := ''evil'', client_signature := ''none''\<rparr>"

lemma forged_fields:
  "capsule_id forged_capsule = capsule_id demo_capsule"
  "predecessor_id forged_capsule = predecessor_id demo_capsule"
  "attempt forged_capsule = attempt demo_capsule"
  "capsule_epoch forged_capsule = capsule_epoch demo_capsule"
  by (simp_all add: forged_capsule_def)

text \<open>
  \<open>apply\<close> trusts the capsule it is handed. The receipts of a closure are compared with the
  capsule stored under the capsule id, and \<open>apply\<close> neither recomputes this id nor checks the
  client's signature: with the closure of a capsule for root \<open>r1\<close>, a capsule object that has the
  same id, another root and no valid signature is applied, and its root becomes current.
\<close>

theorem forged_capsule_applies:
  "\<not> verify_client_signature demo_crypto forged_capsule
   \<and> (\<exists>s p'. apply_closure demo_crypto forged_capsule demo_closure demo_closed = (Inr s, p')
       \<and> state_root s = ''evil'' \<and> map_of (current_seals p') ''doc'' = Some s)"
proof -
  have v: "verify_closure demo_crypto demo_closed forged_capsule demo_closure = Inr True"
    using demo_closed_verified unfolding verify_closure_def good_receipt_def forged_fields .
  have "apply_closure demo_crypto forged_capsule demo_closure demo_closed =
      (Inr (successor_seal demo_crypto demo_seal forged_capsule),
       install_seal demo_crypto (successor_seal demo_crypto demo_seal forged_capsule) demo_closed)"
    by (simp add: apply_closure_def v has_key_def Let_def) (simp add: forged_capsule_def demo_closure_def)
  moreover have "\<not> verify_client_signature demo_crypto forged_capsule"
    by (simp add: verify_client_signature_def forged_capsule_def)
  ultimately show ?thesis by (simp add: successor_seal_def forged_capsule_def)
qed

subsection \<open>Closing\<close>

lemma sort_key_sort_key: "sort_key f (sort_key f xs) = sort_key f xs"
  by (rule sort_key_id_if_sorted) simp

lemma receipts_weight_distinct:
  "distinct (map witness_id rs) \<Longrightarrow>
   receipts_weight p rs = (\<Sum>w \<in> witness_id ` set rs. member_weight p w)"
  using sum_list_distinct_conv_sum_set [of "map witness_id rs" "member_weight p"]
  by (simp add: receipts_weight_def comp_def)

text \<open>A closure created from enough good receipts of one stored capsule verifies.\<close>

lemma created_closure_verifies:
  assumes dist: "distinct (map witness_id rs)"
    and good: "\<forall>r \<in> set rs. good_receipt cr p ''ACCEPT'' c r = Inr True"
    and stored: "map_of (capsules p) (capsule_id c) = Some c"
    and weight: "threshold p \<le> receipts_weight p rs"
    and create: "closure_create cr rs = Inr cl"
  shows "verify_closure cr p c cl = Inr True"
proof -
  let ?o = "sort_key witness_id rs"
  from create obtain first rest where o: "?o = first # rest"
    by (cases ?o) (simp_all add: closure_create_def)
  have set_o: "set ?o = set rs" by simp
  have each: "r_capsule_id r = capsule_id c \<and> r_predecessor_id r = predecessor_id c
      \<and> r_epoch r = capsule_epoch c \<and> r_attempt r = attempt c" if "r \<in> set rs" for r
  proof -
    from good that have g: "verify_receipt cr p r = Inr True" "r_capsule_id r = capsule_id c"
      by (simp_all add: good_receipt_True)
    from g(1) show ?thesis by (rule verify_receiptD) (use g(2) stored in auto)
  qed
  have "first \<in> set rs" using o set_o by (metis list.set_intros(1))
  note head = each [OF this]
  from create o have cl: "c_capsule_id cl = r_capsule_id first" "c_predecessor_id cl = r_predecessor_id first"
    "c_epoch cl = r_epoch first" "c_attempt cl = r_attempt first" "c_signer_ids cl = map witness_id ?o"
    "c_receipts cl = ?o" "c_proof_id cl = digest cr (closure_statement cr (r_capsule_id first)
       (r_predecessor_id first) (r_epoch first) (r_attempt first) ?o)"
    by (auto simp: closure_create_def Let_def split: if_splits)
  have d: "distinct (map witness_id ?o)" using dist by (metis map_sort_key_id distinct_sort)
  have u: "dict_of witness_id ?o = map (\<lambda>x. (witness_id x, x)) ?o" by (rule dict_of_distinct [OF d])
  have keys: "dict_keys (dict_of witness_id ?o) = map witness_id ?o" and vals: "dict_values (dict_of witness_id ?o) = ?o"
    unfolding u by (simp_all add: comp_def)
  have allg: "allE (good_receipt cr p ''ACCEPT'' c) ?o = Inr True"
    unfolding allE_True_iff set_o by (rule good)
  have w: "sum_list (map (member_weight p) (map witness_id ?o)) = receipts_weight p rs"
    unfolding receipts_weight_distinct [OF dist]
    using sum_list_distinct_conv_sum_set [OF d, of "member_weight p"] by simp
  show ?thesis
    unfolding verify_closure_def cl keys vals Let_def allg
    using head weight w by (simp add: sort_key_sort_key)
qed

text \<open>
  What \<open>close\<close> returns, whether it collected the receipts or was given them, verifies on the
  state it leaves, is registered there, and its predecessor carries no conflict evidence.
\<close>

theorem close_sound:
  assumes "close cr c rs p = (Inr cl, p')"
  shows "verify_closure cr p' c cl = Inr True \<and> has_key (closures p') (capsule_id c)
    \<and> \<not> has_conflict p' (predecessor_id c)"
proof -
  from assms obtain q where reg: "register_closure cr c cl q = (Inr (), p')"
    by (auto simp: close_def split: sum.splits if_splits prod.splits)
  from register_closure_frame [OF reg] have same: "members p' = members q" "capsules p' = capsules q"
    "epoch p' = epoch q" "conflicts p' = conflicts q" by blast+
  have "has_conflict p' = has_conflict q" by (intro ext) (simp add: has_conflict_def same(4))
  with reg verify_closure_cong [OF same(1-3)] show ?thesis
    by (cases rule: register_closure_cases) auto
qed

lemma demo_close_given:
  "close demo_crypto demo_capsule (Some [demo_receipt]) demo_locked = (Inr demo_closure, demo_closed)"
proof -
  have valid: "validate_capsule demo_crypto demo_locked demo_capsule = Inr ()"
    by (simp add: validate_capsule_def verify_client_signature_def)
  have good: "good_receipt demo_crypto demo_locked ''ACCEPT'' demo_capsule demo_receipt = Inr True"
    by (simp add: good_receipt_def verify_receipt_def demo_receipt_def member_public_key_def demo_member_def)
  have made: "closure_create demo_crypto [demo_receipt] = Inr demo_closure"
    by (simp add: closure_create_def same_capsule_def Let_def demo_closure_def)
       (simp add: demo_receipt_def)
  show ?thesis
    by (simp add: close_def valid good dict_of_def demo_threshold receipts_weight_def has_conflict_def
        made demo_register member_weight_def)
       (simp add: demo_receipt_def demo_member_def)
qed

theorem close_sound_witness:
  "verify_closure demo_crypto demo_closed demo_capsule demo_closure = Inr True
   \<and> has_key (closures demo_closed) (capsule_id demo_capsule)
   \<and> \<not> has_conflict demo_closed (predecessor_id demo_capsule)"
  by (rule close_sound [OF demo_close_given])

end
