(* ===== verification/Liveness.thy ===== *)
theory Liveness
  imports Protocol_Props
begin

section \<open>Closing succeeds, conflicts are recorded\<close>

text \<open>
  On a node that holds the keys of all its members, \<open>close\<close> without receipts collects them itself
  and returns a closure, when the capsule is valid, its predecessor is current and free, and no
  conflict evidence names it. The second half is the other side: a second capsule for a locked
  predecessor leaves conflict evidence, and evidence blocks every later closure.
\<close>

subsection \<open>A free predecessor is closed\<close>

definition keys_loaded :: "protocol \<Rightarrow> bool" where
  "keys_loaded p \<longleftrightarrow> (\<forall>(k, m) \<in> set (members p). member_keypair m \<noteq> None)"

definition free_predecessor :: "crypto \<Rightarrow> protocol \<Rightarrow> capsule \<Rightarrow> bool" where
  "free_predecessor cr p c \<longleftrightarrow> map_of (locks p) (predecessor_id c) = None
     \<and> \<not> has_conflict p (predecessor_id c)
     \<and> (case map_of (known_seals p) (predecessor_id c) of None \<Rightarrow> False
        | Some pred \<Rightarrow> (case map_of (current_seals p) (resource_id pred) of None \<Rightarrow> False
           | Some cur \<Rightarrow> seal_id cr cur = predecessor_id c))"

definition own_receipt :: "crypto \<Rightarrow> protocol \<Rightarrow> capsule \<Rightarrow> string \<Rightarrow> witness_receipt" where
  "own_receipt cr p c mid =
     (case map_of (members p) mid of Some m \<Rightarrow>
        (case sign_receipt cr m c ''ACCEPT'' of Inr r \<Rightarrow> r))"

lemma validate_capsule_cong:
  assumes "known_seals p' = known_seals p" "epoch p' = epoch p"
  shows "validate_capsule cr p' c = validate_capsule cr p c"
  unfolding validate_capsule_def assms ..

lemma own_receipt_signed:
  assumes wf: "wf_members p" and keys: "keys_loaded p" and mid: "mid \<in> validators p"
  obtains m kp where "get_member p mid = Inr m" "map_of (members p) mid = Some m"
    "member_keypair m = Some kp" "member_id m = mid"
    "sign_receipt cr m c ''ACCEPT'' = Inr (own_receipt cr p c mid)"
    "own_receipt cr p c mid = \<lparr>r_capsule_id = capsule_id c, r_predecessor_id = predecessor_id c,
       witness_id = mid, r_epoch = capsule_epoch c, r_attempt = attempt c, r_status = ''ACCEPT'',
       r_signature = sign cr kp (canonical_bytes (unsigned_receipt mid c ''ACCEPT''))\<rparr>"
proof -
  from mid wf obtain m where m: "map_of (members p) mid = Some m"
    by (metis has_key_def has_key_map_of not_None_eq)
  from wf_memberD [OF wf m] have id: "member_id m = mid" by blast
  from keys map_of_SomeD [OF m] obtain kp where kp: "member_keypair m = Some kp"
    by (auto simp: keys_loaded_def)
  with m id have "sign_receipt cr m c ''ACCEPT'' = Inr (own_receipt cr p c mid)"
    by (simp add: own_receipt_def sign_receipt_def)
  with that m id kp show ?thesis by (simp add: get_member_def own_receipt_def sign_receipt_def)
qed

lemma own_receipt_verifies:
  assumes snd: "sound_signatures cr" and wf: "wf_members p" and keys: "keys_loaded p"
    and mid: "mid \<in> validators p" and ep: "capsule_epoch c = epoch p"
    and stored: "map_of (capsules q) (capsule_id c) = Some c"
    and q: "members q = members p" "epoch q = epoch p"
  shows "verify_receipt cr q (own_receipt cr p c mid) = Inr True"
proof -
  from own_receipt_signed [OF wf keys mid, of cr c] obtain m kp where m: "map_of (members p) mid = Some m"
    "member_keypair m = Some kp"
    and r: "own_receipt cr p c mid = \<lparr>r_capsule_id = capsule_id c, r_predecessor_id = predecessor_id c,
       witness_id = mid, r_epoch = capsule_epoch c, r_attempt = attempt c, r_status = ''ACCEPT'',
       r_signature = sign cr kp (canonical_bytes (unsigned_receipt mid c ''ACCEPT''))\<rparr>" .
  have "receipt_statement (own_receipt cr p c mid) = unsigned_receipt mid c ''ACCEPT''"
    by (simp add: r receipt_statement_def receipt_fields_def unsigned_receipt_def)
  with m r ep stored q snd show ?thesis
    by (simp add: verify_receipt_def member_public_key_def)
qed

lemma issue_free:
  assumes wf: "wf_members p" and keys: "keys_loaded p" and mid: "mid \<in> validators p"
    and valid: "validate_capsule cr p c = Inr ()" and free: "free_predecessor cr p c"
  shows "issue_receipt cr mid c ''ACCEPT'' p = (Inr (own_receipt cr p c mid), lock_as c ''ACCEPT'' p)"
proof -
  have "accept_lock cr c p = (Inr (), lock_as c ''ACCEPT'' p)"
    using free by (auto simp: accept_lock_def free_predecessor_def Let_def split: option.splits)
  moreover obtain m where "get_member p mid = Inr m" "sign_receipt cr m c ''ACCEPT'' = Inr (own_receipt cr p c mid)"
    using own_receipt_signed [OF wf keys mid] by metis
  ultimately show ?thesis using valid by (simp add: issue_receipt_def)
qed

lemma issue_again:
  assumes wf: "wf_members p" and keys: "keys_loaded p" and mid: "mid \<in> validators p"
    and valid: "validate_capsule cr p c = Inr ()" and free: "free_predecessor cr p c"
    and q: "q = lock_as c ''ACCEPT'' p"
  shows "issue_receipt cr mid c ''ACCEPT'' q = (Inr (own_receipt cr p c mid), q)"
proof -
  have "accept_lock cr c q = (Inr (), q)"
    using free by (auto simp: q accept_lock_def free_predecessor_def Let_def split: option.splits)
  moreover obtain m where "get_member p mid = Inr m" "sign_receipt cr m c ''ACCEPT'' = Inr (own_receipt cr p c mid)"
    using own_receipt_signed [OF wf keys mid] by metis
  moreover have "get_member q mid = get_member p mid" by (simp add: get_member_def q)
  moreover have "validate_capsule cr q c = Inr ()" using valid validate_capsule_cong [of q p] by (simp add: q)
  ultimately show ?thesis by (simp add: issue_receipt_def)
qed

lemma collect_again:
  assumes snd: "sound_signatures cr" and wf: "wf_members p" and keys: "keys_loaded p"
    and valid: "validate_capsule cr p c = Inr ()" and free: "free_predecessor cr p c"
    and ep: "capsule_epoch c = epoch p" and q: "q = lock_as c ''ACCEPT'' p"
    and mids: "set mids \<subseteq> validators p"
  shows "collect_accept cr mids c q = (Inr (map (own_receipt cr p c) mids), q)"
  using mids
proof (induction mids)
  case (Cons mid mids)
  then have mid: "mid \<in> validators p" and rest: "set mids \<subseteq> validators p" by simp_all
  have "verify_receipt cr q (own_receipt cr p c mid) = Inr True"
    by (rule own_receipt_verifies [OF snd wf keys mid ep]) (simp_all add: q)
  with Cons.IH [OF rest] issue_again [OF wf keys mid valid free q] show ?case by simp
qed simp

lemma collect_all:
  assumes snd: "sound_signatures cr" and wf: "wf_members p" and keys: "keys_loaded p"
    and valid: "validate_capsule cr p c = Inr ()" and free: "free_predecessor cr p c"
    and ep: "capsule_epoch c = epoch p" and ne: "members p \<noteq> []"
  shows "collect_accept_receipts cr c p =
    (Inr (map (own_receipt cr p c) (sort (dict_keys (members p)))), lock_as c ''ACCEPT'' p)"
proof -
  have sub: "set (sort (dict_keys (members p))) \<subseteq> validators p" by simp
  from ne obtain mid mids where mids: "sort (dict_keys (members p)) = mid # mids"
    by (cases "sort (dict_keys (members p))") (auto dest: arg_cong [where f = set])
  with sub have mid: "mid \<in> validators p" and rest: "set mids \<subseteq> validators p" by simp_all
  have "verify_receipt cr (lock_as c ''ACCEPT'' p) (own_receipt cr p c mid) = Inr True"
    by (rule own_receipt_verifies [OF snd wf keys mid ep]) simp_all
  with issue_free [OF wf keys mid valid free]
    collect_again [OF snd wf keys valid free ep refl rest]
  show ?thesis by (simp add: collect_accept_receipts_def mids)
qed

lemma close_free:
  assumes snd: "sound_signatures cr" and wf: "wf_members p" and keys: "keys_loaded p"
    and pos: "0 < total_weight p" and valid: "validate_capsule cr p c = Inr ()"
    and free: "free_predecessor cr p c"
  shows "\<exists>cl p'. close cr c None p = (Inr cl, p')
    \<and> register_closure cr c cl (lock_as c ''ACCEPT'' p) = (Inr (), p')"
proof -
  let ?q = "lock_as c ''ACCEPT'' p" and ?ids = "sort (dict_keys (members p))"
  let ?rs = "map (own_receipt cr p c) ?ids"
  from valid have ep: "capsule_epoch c = epoch p"
    by (auto simp: validate_capsule_def split: option.splits if_splits)
  from pos have ne: "members p \<noteq> []" by (auto simp: total_weight_def)
  have sub: "set ?ids = validators p" by simp
  have wid: "witness_id (own_receipt cr p c mid) = mid" if "mid \<in> validators p" for mid
    using own_receipt_signed [OF wf keys that, of cr c] by (metis witness_receipt.select_convs(3))
  have ids: "map witness_id ?rs = ?ids" by (simp add: comp_def) (rule map_idI, use wid in simp)
  have dist: "distinct (map witness_id ?rs)" unfolding ids using wf by (simp add: wf_members_def)
  have good: "\<forall>r \<in> set ?rs. good_receipt cr ?q ''ACCEPT'' c r = Inr True"
  proof
    fix r
    assume "r \<in> set ?rs"
    then obtain mid where mid: "mid \<in> validators p" "r = own_receipt cr p c mid" by auto
    have "verify_receipt cr ?q r = Inr True"
      unfolding mid(2) by (rule own_receipt_verifies [OF snd wf keys mid(1) ep]) simp_all
    moreover have "r_status r = ''ACCEPT'' \<and> r_capsule_id r = capsule_id c"
      using own_receipt_signed [OF wf keys mid(1), of cr c] mid(2)
      by (metis witness_receipt.select_convs(1,6))
    ultimately show "good_receipt cr ?q ''ACCEPT'' c r = Inr True" by (simp add: good_receipt_True)
  qed
  have vals: "dict_values (dict_of witness_id ?rs) = ?rs" by (rule values_dict_of_distinct [OF dist])
  have filt: "filterE (good_receipt cr ?q ''ACCEPT'' c) ?rs = Inr ?rs"
    using filterE_total [of ?rs "good_receipt cr ?q ''ACCEPT'' c" "\<lambda>_. True"] good by simp
  have mw: "member_weight ?q = member_weight p" and tq: "threshold ?q = threshold p"
    by (auto simp: member_weight_def threshold_def total_weight_def)
  have "witness_id ` set ?rs = validators p" using ids sub by (metis set_map)
  then have "receipts_weight ?q ?rs = total_weight p"
    unfolding receipts_weight_distinct [OF dist] mw
    using total_weight_as_sum [of p] wf by (simp add: wf_members_def)
  then have weight: "threshold ?q \<le> receipts_weight ?q ?rs"
    unfolding tq using pos by (simp add: threshold_def)
  obtain cl where create: "closure_create cr ?rs = Inr cl"
  proof -
    have "?rs \<noteq> []" using ne sub by (metis list.map_disc_iff set_empty map_is_Nil_conv)
    moreover have "\<forall>r \<in> set ?rs. r_status r = ''ACCEPT'' \<and> r_capsule_id r = capsule_id c
        \<and> r_predecessor_id r = predecessor_id c \<and> r_epoch r = capsule_epoch c \<and> r_attempt r = attempt c"
    proof
      fix r
      assume "r \<in> set ?rs"
      then obtain mid where mid: "mid \<in> validators p" "r = own_receipt cr p c mid" by auto
      then show "r_status r = ''ACCEPT'' \<and> r_capsule_id r = capsule_id c
        \<and> r_predecessor_id r = predecessor_id c \<and> r_epoch r = capsule_epoch c \<and> r_attempt r = attempt c"
        using own_receipt_signed [OF wf keys mid(1), of cr c] by (metis witness_receipt.select_convs)
    qed
    ultimately show ?thesis using closure_create_total that by metis
  qed
  have stored: "map_of (capsules ?q) (capsule_id c) = Some c" by simp
  have verified: "verify_closure cr ?q c cl = Inr True"
    by (rule created_closure_verifies [OF dist good stored weight create])
  have noc: "\<not> has_conflict ?q (predecessor_id c)"
    using free by (simp add: free_predecessor_def has_conflict_def)
  obtain p' where reg: "register_closure cr c cl ?q = (Inr (), p')"
    using verified noc by (cases "has_key (closures ?q) (capsule_id c)") (simp_all add: register_closure_def)
  have "close cr c None p = (Inr cl, p')"
    unfolding close_def given_or_collect_def
    using valid collect_all [OF snd wf keys valid free ep ne] filt weight noc create reg
    by (simp add: vals)
  with reg show ?thesis by blast
qed

text \<open>
  C15. Closing a free predecessor succeeds: on a well-formed committee of positive weight whose
  keys are all on this node, \<open>close\<close> without receipts locks the predecessor, gathers every
  member's receipt and returns a closure, which is registered.
\<close>

theorem close_succeeds:
  assumes "sound_signatures cr" "wf_members p" "keys_loaded p" "0 < total_weight p"
    and "validate_capsule cr p c = Inr ()" "free_predecessor cr p c"
  shows "\<exists>cl p'. close cr c None p = (Inr cl, p') \<and> has_key (closures p') (capsule_id c)"
proof -
  from close_free [OF assms] obtain cl p' where "close cr c None p = (Inr cl, p')"
    and reg: "register_closure cr c cl (lock_as c ''ACCEPT'' p) = (Inr (), p')" by blast
  moreover from reg have "has_key (closures p') (capsule_id c)"
    by (cases rule: register_closure_cases) simp_all
  ultimately show ?thesis by blast
qed

theorem close_succeeds_witness:
  "\<exists>cl p'. close demo_crypto demo_capsule None demo_proposed = (Inr cl, p')
     \<and> has_key (closures p') (capsule_id demo_capsule)"
proof (rule close_succeeds)
  show "wf_members demo_proposed" by (rule demo_wf) simp
qed (simp_all add: keys_loaded_def demo_member_def total_weight_def demo_valid free_predecessor_def
      has_conflict_def)

subsection \<open>Conflicts\<close>

lemma record_conflict_ev:
  assumes "conflict_create cr first c = Inr ev"
  shows "record_conflict cr first c p =
      (Inl (ConflictDetected ev), p\<lparr>conflicts := AList.update (evidence_id ev) ev (conflicts p)\<rparr>)"
    and "has_conflict (p\<lparr>conflicts := AList.update (evidence_id ev) ev (conflicts p)\<rparr>) (e_predecessor_id ev)"
proof -
  show "record_conflict cr first c p =
      (Inl (ConflictDetected ev), p\<lparr>conflicts := AList.update (evidence_id ev) ev (conflicts p)\<rparr>)"
    using assms by (simp add: record_conflict_def)
  have "map_of (AList.update (evidence_id ev) ev (conflicts p)) (evidence_id ev) = Some ev" by simp
  from map_of_SomeD [OF this]
  have "ev \<in> set (dict_values (AList.update (evidence_id ev) ev (conflicts p)))" by force
  then show "has_conflict (p\<lparr>conflicts := AList.update (evidence_id ev) ev (conflicts p)\<rparr>) (e_predecessor_id ev)"
    by (auto simp: has_conflict_def)
qed

text \<open>
  C17. A second claim is evidence: when the node has locked a predecessor for one capsule and is
  asked to accept another one for it in the same attempt, it signs nothing, raises
  \<open>ConflictDetected\<close> with both capsules' ids, records this evidence, and keeps its lock.
\<close>

theorem second_claim_conflicts:
  assumes lock: "map_of (locks p) (predecessor_id c) = Some (capsule_id first, attempt c, st)"
    and first: "map_of (capsules p) (capsule_id first) = Some first"
      "predecessor_id first = predecessor_id c" "capsule_id first \<noteq> capsule_id c"
    and valid: "validate_capsule cr p c = Inr ()" "get_member p mid = Inr m"
    and current: "map_of (known_seals p) (predecessor_id c) = Some pred"
      "map_of (current_seals p) (resource_id pred) = Some cur"
  shows "\<exists>ev p'. issue_receipt cr mid c ''ACCEPT'' p = (Inl (ConflictDetected ev), p')
    \<and> e_predecessor_id ev = predecessor_id c
    \<and> {capsule_a ev, capsule_b ev} = {capsule_id first, capsule_id c}
    \<and> has_conflict p' (predecessor_id c) \<and> locks p' = locks p"
proof -
  obtain ev where ev: "conflict_create cr first c = Inr ev"
    using conflict_create_total [OF first(2,3)] by blast
  note e = conflict_create_Inr [OF ev]
  let ?p' = "p\<lparr>conflicts := AList.update (evidence_id ev) ev (conflicts p)\<rparr>"
  have "accept_lock cr c p = (Inl (ConflictDetected ev), ?p')"
    using lock first current
    by (simp add: accept_lock_def Let_def record_conflict_ev(1) [OF ev])
  then have "issue_receipt cr mid c ''ACCEPT'' p = (Inl (ConflictDetected ev), ?p')"
    using valid by (simp add: issue_receipt_def)
  with e first(2) record_conflict_ev(2) [OF ev, of p] show ?thesis by auto
qed

definition demo_rival :: capsule where
  "demo_rival = capsule_create demo_crypto demo_client demo_seal ''r2'' ''rule'' ''w'' 0 None"

lemma demo_rival_fields [simp]:
  "predecessor_id demo_rival = seal_id demo_crypto demo_seal" "successor_root demo_rival = ''r2''"
  "attempt demo_rival = 0" "capsule_epoch demo_rival = 0"
  "client_public_key demo_rival = ''alice''" "client_signature demo_rival = ''alice''"
  by (simp_all add: demo_rival_def capsule_create_def Let_def demo_client_def demo_seal_def)

lemma demo_rival_distinct: "capsule_id demo_capsule \<noteq> capsule_id demo_rival"
proof
  assume "capsule_id demo_capsule = capsule_id demo_rival"
  then have "digest demo_crypto (unsigned_statement demo_capsule) =
      digest demo_crypto (unsigned_statement demo_rival)"
    by (simp add: demo_capsule_def demo_rival_def capsule_create_id)
  then have "json_norm (unsigned_statement demo_capsule) = json_norm (unsigned_statement demo_rival)"
    by (rule digest_norm) (simp_all add: unsigned_statement_def opt_str_def split: option.splits)
  then show False by (simp add: unsigned_statement_def)
qed

theorem second_claim_conflicts_witness:
  "\<exists>ev p'. issue_receipt demo_crypto ''v1'' demo_rival ''ACCEPT'' demo_locked = (Inl (ConflictDetected ev), p')
    \<and> e_predecessor_id ev = predecessor_id demo_rival
    \<and> {capsule_a ev, capsule_b ev} = {capsule_id demo_capsule, capsule_id demo_rival}
    \<and> has_conflict p' (predecessor_id demo_rival) \<and> locks p' = locks demo_locked"
proof (rule second_claim_conflicts [where st = "''ACCEPT''" and m = demo_member
    and pred = demo_seal and cur = demo_seal])
  show "map_of (locks demo_locked) (predecessor_id demo_rival) =
      Some (capsule_id demo_capsule, attempt demo_rival, ''ACCEPT'')"
    by (simp add: demo_locked_def)
  show "capsule_id demo_capsule \<noteq> capsule_id demo_rival" by (rule demo_rival_distinct)
  show "validate_capsule demo_crypto demo_locked demo_rival = Inr ()"
    by (simp add: validate_capsule_def verify_client_signature_def)
qed (simp_all add: get_member_def)

text \<open>Within one call every new evidence names the predecessor of the capsule at hand.\<close>

lemma record_conflict_keeps:
  assumes "record_conflict cr first c p = (res, p')" "has_conflict p (predecessor_id c)"
  shows "has_conflict p' (predecessor_id c)"
proof (cases "conflict_create cr first c")
  case (Inl e)
  with assms show ?thesis by (simp add: record_conflict_def)
next
  case (Inr ev)
  from conflict_create_Inr [OF Inr] have "e_predecessor_id ev = predecessor_id c" by simp
  moreover from assms(1) have "p' = p\<lparr>conflicts := AList.update (evidence_id ev) ev (conflicts p)\<rparr>"
    by (simp add: record_conflict_ev(1) [OF Inr])
  ultimately show ?thesis using record_conflict_ev(2) [OF Inr, of p] by simp
qed

lemma lock_as_conflict [simp]: "has_conflict (lock_as c st p) pid = has_conflict p pid"
  by (simp add: has_conflict_def)

lemma issue_receipt_keeps:
  assumes call: "issue_receipt cr mid c status p = (res, p')" and hc: "has_conflict p (predecessor_id c)"
  shows "has_conflict p' (predecessor_id c)"
proof -
  have a: "has_conflict q (predecessor_id c)" if "accept_lock cr c p = (r, q)" for r q
    using that hc
    by (auto simp: accept_lock_def Let_def split: option.splits if_splits dest: record_conflict_keeps)
  have b: "has_conflict q (predecessor_id c)" if "abandon_lock cr c p = (r, q)" for r q
    using that hc
    by (auto simp: abandon_lock_def Let_def split: option.splits if_splits dest: record_conflict_keeps)
  show ?thesis
  proof (cases "status = ''ACCEPT''")
    case True
    with call hc a show ?thesis
      by (auto simp: issue_receipt_def split: sum.splits prod.splits)
  next
    case False
    with call hc b show ?thesis
      by (auto simp: issue_receipt_def split: sum.splits prod.splits if_splits)
  qed
qed

text \<open>How a collection loop begins: with one \<open>witness_receipt\<close>, after which it has ended or goes on.\<close>

lemma collect_accept_step:
  assumes "collect_accept cr (mid # mids) c p = (res, p')"
  obtains (stop) r where "issue_receipt cr mid c ''ACCEPT'' p = (r, p')"
  | (more) r q res' where "issue_receipt cr mid c ''ACCEPT'' p = (r, q)"
      "collect_accept cr mids c q = (res', p')"
proof -
  obtain r q where i: "issue_receipt cr mid c ''ACCEPT'' p = (r, q)" by fastforce
  obtain res' q' where k: "collect_accept cr mids c q = (res', q')" by fastforce
  from assms i k have "p' = q \<or> p' = q'"
    by (auto split: sum.splits mosaic_error.splits)
  with that i k show ?thesis by blast
qed

lemma collect_accept_keeps:
  "collect_accept cr mids c p = (res, p') \<Longrightarrow>
   closures p' = closures p \<and> (has_conflict p (predecessor_id c) \<longrightarrow> has_conflict p' (predecessor_id c))"
proof (induction mids arbitrary: p res)
  case (Cons mid mids)
  from Cons.prems show ?case
  proof (cases rule: collect_accept_step)
    case (stop r)
    with issue_receipt_frame issue_receipt_keeps show ?thesis by metis
  next
    case (more r q res')
    with Cons.IH [OF more(2)] issue_receipt_frame issue_receipt_keeps show ?thesis by metis
  qed
qed simp

text \<open>
  Evidence blocks closing: once a node holds conflict evidence for a predecessor, \<open>close\<close>
  raises for every capsule on it, with or without receipts, and registers nothing.
\<close>

theorem conflict_blocks_closing:
  assumes "has_conflict p (predecessor_id c)" "close cr c rs p = (res, p')"
  shows "\<not> is_ok res \<and> closures p' = closures p"
proof -
  obtain got q where g: "given_or_collect (collect_accept_receipts cr) rs c p = (got, q)" by fastforce
  then have q: "closures q = closures p" "has_conflict q (predecessor_id c)"
    using assms(1) collect_accept_keeps [of cr _ c p got q]
    by (auto simp: given_or_collect_def collect_accept_receipts_def split: option.splits list.splits)
  from assms(2) g q show ?thesis
    by (auto simp: close_def split: sum.splits if_splits)
qed

lemma demo_conflicted:
  "has_conflict (demo_proposed\<lparr>conflicts := [(''e'', \<lparr>e_predecessor_id = seal_id demo_crypto demo_seal,
     capsule_a = ''a'', capsule_b = ''b'', e_signatures = (''x'', ''y''), evidence_id = ''e''\<rparr>)]\<rparr>)
   (predecessor_id demo_capsule)"
  by (simp add: has_conflict_def)

theorem conflict_blocks_closing_witness:
  "\<not> is_ok (fst (close demo_crypto demo_capsule None
     (demo_proposed\<lparr>conflicts := [(''e'', \<lparr>e_predecessor_id = seal_id demo_crypto demo_seal,
     capsule_a = ''a'', capsule_b = ''b'', e_signatures = (''x'', ''y''), evidence_id = ''e''\<rparr>)]\<rparr>)))"
  using conflict_blocks_closing [OF demo_conflicted prod.collapse [symmetric]] by blast

end
