(* ===== verification/Outcomes.thy ===== *)
theory Outcomes
  imports Liveness
begin

section \<open>Capsules, outcomes, bundles\<close>

text \<open>
  The remaining contracts of \<open>MosaicProtocol\<close>: a capsule the client creates validates; an outcome
  the node reports is evidence-complete; a bundle is applied as a whole or not at all; and
  abandoning a capsule does not keep the node from closing it afterwards.
\<close>

subsection \<open>Creating a capsule\<close>

text \<open>
  A capsule created on the current seal passes the node's own validation, and its id is the
  digest of the statement its client signed.
\<close>

theorem created_capsule_validates:
  assumes call: "create_capsule cr kp pred root rule wit att bid p = (Inr c, p')"
    and snd: "sound_signatures cr" and ok: "seals_ok cr p" "collision_free cr p"
    and args: "0 \<le> att" "root \<noteq> []"
  shows "validate_capsule cr p' c = Inr () \<and> capsule_id c = digest cr (unsigned_statement c)
    \<and> map_of (capsules p') (capsule_id c) = Some c"
proof -
  from call have cur: "map_of (current_seals p) (resource_id pred) = Some pred"
    and ep: "seal_epoch pred = epoch p"
    and c: "c = capsule_create cr kp pred root rule wit att bid"
    and p': "p' = p\<lparr>capsules := AList.update (capsule_id c) c (capsules p)\<rparr>"
    by (auto simp: create_capsule_def Let_def split: if_splits)
  from seals_ok_current [OF ok(1) map_of_SomeD [OF cur]]
  obtain s where s: "map_of (known_seals p) (seal_id cr pred) = Some s"
    by (auto simp: has_key_map_of)
  from collision_free_current [OF ok(2,1) s cur refl] have "s = pred" by simp
  have fields: "predecessor_id c = seal_id cr pred" "capsule_epoch c = seal_epoch pred"
    "attempt c = att" "successor_root c = root"
    by (simp_all add: c capsule_create_def Let_def)
  have sig: "verify_client_signature cr c" unfolding c by (rule capsule_create_verifies [OF snd])
  have "validate_capsule cr p' c = Inr ()"
    using s \<open>s = pred\<close> ep sig args by (simp add: validate_capsule_def fields p')
  then show ?thesis by (simp add: p' c capsule_create_id)
qed

theorem created_capsule_validates_witness:
  "validate_capsule demo_crypto demo_proposed demo_capsule = Inr ()
   \<and> capsule_id demo_capsule = digest demo_crypto (unsigned_statement demo_capsule)
   \<and> map_of (capsules demo_proposed) (capsule_id demo_capsule) = Some demo_capsule"
proof (rule created_capsule_validates [OF demo_propose demo_sound])
  have "node_run demo_crypto demo_start {} demo_created"
    by (rule node_run.resource [OF node_run.start demo_create])
  then show "seals_ok demo_crypto demo_created"
    using node_run_sealed protocol_init_sealed unfolding demo_start_def by blast
  show "collision_free demo_crypto demo_created" by (simp add: collision_free_def demo_created_def)
qed simp_all

subsection \<open>Outcomes\<close>

text \<open>
  Every outcome a node reports is evidence-complete: it carries at least one piece of
  evidence, and a closed one also the id of the successor seal (for a hash with nonempty output).
\<close>

theorem outcome_complete:
  assumes "\<forall>m. sha256 cr m \<noteq> []" "outcome_of cr p c = Some t"
  shows "is_evidence_complete t \<and> o_capsule_id t = capsule_id c"
  using assms
  by (auto simp: outcome_of_def is_evidence_complete_def seal_id_def digest_def
      split: option.splits)

lemma demo_outcome:
  "outcome_of (demo_crypto\<lparr>sha256 := (\<lambda>m. ''h'' @ m)\<rparr>)
     (demo_closed\<lparr>closures := [], abandons := [(capsule_id demo_capsule,
        \<lparr>a_predecessor_id = ''p'', a_capsule_id = capsule_id demo_capsule, a_epoch = 0, a_attempt = 0,
         a_signer_ids = [], a_receipts = [], a_proof_id = ''a''\<rparr>)]\<rparr>) demo_capsule =
   Some \<lparr>o_capsule_id = capsule_id demo_capsule, o_predecessor_id = predecessor_id demo_capsule,
     o_status = ABANDONED, evidence_ids = [''a''], successor_seal_id = None,
     conflicting_capsule_ids = []\<rparr>"
  by (simp add: outcome_of_def)

theorem outcome_complete_witness:
  "is_evidence_complete \<lparr>o_capsule_id = capsule_id demo_capsule,
     o_predecessor_id = predecessor_id demo_capsule, o_status = ABANDONED, evidence_ids = [''a''],
     successor_seal_id = None, conflicting_capsule_ids = []\<rparr>
   \<and> o_capsule_id \<lparr>o_capsule_id = capsule_id demo_capsule,
     o_predecessor_id = predecessor_id demo_capsule, o_status = ABANDONED, evidence_ids = [''a''],
     successor_seal_id = None, conflicting_capsule_ids = []\<rparr> = capsule_id demo_capsule"
  by (rule outcome_complete [OF _ demo_outcome]) simp

subsection \<open>Abandoned and closed\<close>

definition demo_abandon_receipt :: witness_receipt where
  "demo_abandon_receipt = demo_receipt\<lparr>r_status := ''ABANDON''\<rparr>"

definition demo_released :: protocol where
  "demo_released = lock_as demo_capsule ''ABANDON'' demo_proposed"

lemma demo_release:
  "issue_receipt demo_crypto ''v1'' demo_capsule ''ABANDON'' demo_proposed =
   (Inr demo_abandon_receipt, demo_released)"
  by (simp add: issue_receipt_def demo_valid get_member_def abandon_lock_def sign_receipt_def has_key_def
      demo_released_def demo_abandon_receipt_def demo_receipt_def demo_member_def)

lemma demo_released_states [simp]:
  "members demo_released = [(''v1'', demo_member)]" "epoch demo_released = 0"
  "closures demo_released = []" "conflicts demo_released = []" "abandons demo_released = []"
  "capsules demo_released = [(capsule_id demo_capsule, demo_capsule)]"
  "known_seals demo_released = [(seal_id demo_crypto demo_seal, demo_seal)]"
  "current_seals demo_released = [(''doc'', demo_seal)]"
  "locks demo_released = [(seal_id demo_crypto demo_seal, (capsule_id demo_capsule, 0, ''ABANDON''))]"
  by (simp_all add: demo_released_def)
     (simp_all add: demo_proposed_def demo_created_def demo_start_def protocol_init_def)

lemma demo_abandon:
  obtains ab where "abandon demo_crypto demo_capsule None demo_proposed =
    (Inr ab, demo_released\<lparr>abandons := [(capsule_id demo_capsule, ab)]\<rparr>)"
proof -
  have ver: "verify_receipt demo_crypto demo_released demo_abandon_receipt = Inr True"
    by (simp add: verify_receipt_def demo_abandon_receipt_def demo_receipt_def member_public_key_def
        demo_member_def)
  have st: "r_status demo_abandon_receipt = ''ABANDON''" "witness_id demo_abandon_receipt = ''v1''"
    "r_capsule_id demo_abandon_receipt = capsule_id demo_capsule"
    by (simp_all add: demo_abandon_receipt_def demo_receipt_def)
  have good: "good_receipt demo_crypto demo_released ''ABANDON'' demo_capsule demo_abandon_receipt = Inr True"
    by (simp add: good_receipt_True ver st)
  have coll: "collect_abandon_receipts demo_crypto demo_capsule demo_proposed =
      (Inr [demo_abandon_receipt], demo_released)"
    by (simp add: collect_abandon_receipts_def demo_release ver)
  obtain ab where ab: "abandon_create demo_crypto [demo_abandon_receipt] = Inr ab"
    by (simp add: abandon_create_def Let_def same_capsule_def st)
  have "receipts_weight demo_released [demo_abandon_receipt] = 1"
    by (simp add: receipts_weight_def member_weight_def st demo_member_def)
  then have "abandon demo_crypto demo_capsule None demo_proposed =
      (Inr ab, demo_released\<lparr>abandons := [(capsule_id demo_capsule, ab)]\<rparr>)"
    by (simp add: abandon_def has_key_def given_or_collect_def coll dict_of_def good demo_threshold ab)
  then show ?thesis by (rule that)
qed

text \<open>
  Abandoned is not final: after a quorum of ABANDON receipts has produced an abandon proof
  and the node reports ABANDONED, the same validators accept the same capsule in the same
  attempt, because \<open>witness_receipt\<close> does not look at the status of its lock and
  \<open>register_closure\<close> does not look at the abandon proofs. Both proofs are then registered.
\<close>

theorem abandoned_then_closed:
  "\<exists>ab p1 t cl p2. abandon demo_crypto demo_capsule None demo_proposed = (Inr ab, p1)
     \<and> outcome_of demo_crypto p1 demo_capsule = Some t \<and> o_status t = ABANDONED
     \<and> close demo_crypto demo_capsule None p1 = (Inr cl, p2)
     \<and> map_of (abandons p2) (capsule_id demo_capsule) = Some ab
     \<and> map_of (closures p2) (capsule_id demo_capsule) = Some cl"
proof -
  obtain ab where ab: "abandon demo_crypto demo_capsule None demo_proposed =
    (Inr ab, demo_released\<lparr>abandons := [(capsule_id demo_capsule, ab)]\<rparr>)" by (rule demo_abandon)
  let ?p = "demo_released\<lparr>abandons := [(capsule_id demo_capsule, ab)]\<rparr>"
  have valid: "validate_capsule demo_crypto ?p demo_capsule = Inr ()"
    by (simp add: validate_capsule_def verify_client_signature_def)
  have issue: "issue_receipt demo_crypto ''v1'' demo_capsule ''ACCEPT'' ?p = (Inr demo_receipt, ?p)"
    by (simp add: issue_receipt_def valid get_member_def accept_lock_def sign_receipt_def)
       (simp add: demo_receipt_def demo_member_def)
  have ver: "verify_receipt demo_crypto ?p demo_receipt = Inr True"
    by (simp add: verify_receipt_def demo_receipt_def member_public_key_def demo_member_def)
  have st: "r_status demo_receipt = ''ACCEPT''" "witness_id demo_receipt = ''v1''"
    "r_capsule_id demo_receipt = capsule_id demo_capsule"
    by (simp_all add: demo_receipt_def)
  have good: "good_receipt demo_crypto ?p ''ACCEPT'' demo_capsule demo_receipt = Inr True"
    by (simp add: good_receipt_True ver st)
  have coll: "collect_accept_receipts demo_crypto demo_capsule ?p = (Inr [demo_receipt], ?p)"
    by (simp add: collect_accept_receipts_def issue ver)
  have made: "closure_create demo_crypto [demo_receipt] = Inr demo_closure"
    by (simp add: closure_create_def same_capsule_def Let_def demo_closure_def)
       (simp add: demo_receipt_def)
  have w: "receipts_weight ?p [demo_receipt] = 1"
    by (simp add: receipts_weight_def member_weight_def st demo_member_def)
  have th: "threshold ?p = 1" by (rule demo_threshold) simp
  have "verify_closure demo_crypto ?p demo_capsule demo_closure = Inr True"
    by (rule created_closure_verifies [OF _ _ _ _ made]) (simp_all add: good th w)
  then have reg: "register_closure demo_crypto demo_capsule demo_closure ?p =
      (Inr (), ?p\<lparr>closures := [(capsule_id demo_capsule, demo_closure)]\<rparr>)"
    by (simp add: register_closure_def has_conflict_def has_key_def)
  have "close demo_crypto demo_capsule None ?p =
      (Inr demo_closure, ?p\<lparr>closures := [(capsule_id demo_capsule, demo_closure)]\<rparr>)"
    by (simp add: close_def valid given_or_collect_def coll dict_of_def good th w made reg has_conflict_def)
  moreover have "\<exists>t. outcome_of demo_crypto ?p demo_capsule = Some t \<and> o_status t = ABANDONED"
    by (simp add: outcome_of_def)
  ultimately show ?thesis using ab by fastforce
qed

subsection \<open>Bundles\<close>

definition succeeds :: "crypto \<Rightarrow> protocol \<Rightarrow> state_seal \<Rightarrow> capsule \<times> closure_proof \<Rightarrow> bool" where
  "succeeds cr p s entry \<longleftrightarrow> (case entry of (c, cl) \<Rightarrow>
     \<exists>pred \<in> set (dict_values (current_seals p)). seal_id cr pred = predecessor_id c
       \<and> s = \<lparr>resource_id = resource_id pred, seal_epoch = seal_epoch pred, version = version pred + 1,
              state_root = successor_root c, capability_hash = digest cr (JStr (capsule_id c)), owner = client_id c\<rparr>)"

lemma bundle_seals_all:
  "check_entries cr p entries = Inr () \<Longrightarrow> list_all2 (succeeds cr p) (bundle_seals cr p entries) entries"
proof (induction cr p entries rule: check_entries.induct)
  case (2 cr p c cl rest)
  then have ok: "check_entries cr p rest = Inr ()"
    "\<exists>s \<in> set (dict_values (current_seals p)). seal_id cr s = predecessor_id c"
    and IH: "list_all2 (succeeds cr p) (bundle_seals cr p rest) rest"
    by (auto simp: bindE_Inr_iff split: if_splits)
  from ok(2) obtain cur where find: "find (\<lambda>s. seal_id cr s = predecessor_id c) (dict_values (current_seals p)) = Some cur"
    by (cases "find (\<lambda>s. seal_id cr s = predecessor_id c) (dict_values (current_seals p))")
       (auto simp: find_None_iff)
  then have "cur \<in> set (dict_values (current_seals p))" "seal_id cr cur = predecessor_id c"
    by (auto simp: find_Some_iff)
  then have "succeeds cr p (successor_seal cr cur c) (c, cl)"
    unfolding succeeds_def successor_seal_def by blast
  with find IH show ?case by simp
qed simp

text \<open>Installing seals one after the other: the last one of a resource is its current seal.\<close>

lemma installed_seals:
  "map_of (current_seals (fold (install_seal cr) ss p))
     = map_of (current_seals p) ++ map_of (rev (map (\<lambda>s. (resource_id s, s)) ss))
   \<and> set (dict_keys (known_seals (fold (install_seal cr) ss p))) = set (dict_keys (known_seals p)) \<union> seal_id cr ` set ss
   \<and> (fold (install_seal cr) ss p)\<lparr>current_seals := current_seals p, known_seals := known_seals p\<rparr> = p"
proof (induction ss arbitrary: p)
  case (Cons s ss)
  let ?p = "install_seal cr s p"
  have one: "map_of (current_seals ?p) = (map_of (current_seals p))(resource_id s \<mapsto> s)"
    "set (dict_keys (known_seals ?p)) = insert (seal_id cr s) (set (dict_keys (known_seals p)))"
    "?p\<lparr>current_seals := current_seals p, known_seals := known_seals p\<rparr> = p"
    using keys_update [of "seal_id cr s" s "known_seals p"] by (simp_all add: install_seal_def update_conv' del: set_map)
  note IH = Cons.IH [of ?p]
  from IH have "map_of (current_seals (fold (install_seal cr) ss ?p))
      = (map_of (current_seals p))(resource_id s \<mapsto> s) ++ map_of (rev (map (\<lambda>s. (resource_id s, s)) ss))"
    unfolding one(1) by blast
  moreover from IH have "set (dict_keys (known_seals (fold (install_seal cr) ss ?p)))
      = insert (seal_id cr s) (set (dict_keys (known_seals p))) \<union> seal_id cr ` set ss"
    unfolding one(2) by blast
  moreover from IH have "(fold (install_seal cr) ss ?p)\<lparr>current_seals := current_seals ?p, known_seals := known_seals ?p,
      current_seals := current_seals p, known_seals := known_seals p\<rparr> = p"
    using one(3) by metis
  ultimately show ?case by (simp add: map_add_assoc [symmetric])
qed simp

text \<open>
  C18. Bundles are all or nothing. \<open>apply_bundle\<close> either raises and leaves the state as it was; or every
  entry was registered and verified, and it returns for every entry, in order, the successor of a seal that was
  current and that the capsule names: same resource and epoch, the next version, the capsule's root,
  owner and id. Each of them is known afterwards, and each resource of the bundle has the successor
  installed last for it as its current seal; no other current seal, no other known id and nothing else of
  the state changes.
\<close>

theorem bundle_all_or_nothing:
  assumes "apply_bundle cr b entries p = (res, p')"
  shows "case res of Inl e \<Rightarrow> p' = p
    | Inr ss \<Rightarrow> list_all (\<lambda>(c, cl). map_of (closures p) (capsule_id c) = Some cl
             \<and> verify_closure cr p c cl = Inr True) entries
        \<and> list_all2 (\<lambda>s (c, cl). \<exists>pred \<in> set (dict_values (current_seals p)). seal_id cr pred = predecessor_id c
             \<and> s = \<lparr>resource_id = resource_id pred, seal_epoch = seal_epoch pred, version = version pred + 1,
                    state_root = successor_root c, capability_hash = digest cr (JStr (capsule_id c)),
                    owner = client_id c\<rparr>) ss entries
        \<and> map_of (current_seals p') = map_of (current_seals p) ++ map_of (rev (map (\<lambda>s. (resource_id s, s)) ss))
        \<and> set (dict_keys (known_seals p')) = set (dict_keys (known_seals p)) \<union> seal_id cr ` set ss
        \<and> p'\<lparr>current_seals := current_seals p, known_seals := known_seals p\<rparr> = p"
  using assms
proof (cases rule: apply_bundle_cases)
  case (fail e)
  then show ?thesis by simp
next
  case done_all
  let ?ss = "bundle_seals cr p entries"
  have "list_all (\<lambda>(c, cl). map_of (closures p) (capsule_id c) = Some cl \<and> verify_closure cr p c cl = Inr True) entries"
    using check_entries_registered [OF done_all(1)] by (auto simp: list_all_iff)
  moreover note bundle_seals_all [OF done_all(1), unfolded succeeds_def] installed_seals [of cr ?ss p]
  ultimately show ?thesis unfolding done_all(2,3) sum.case by blast
qed

lemma demo_bundle:
  "apply_bundle demo_crypto \<lparr>b_bundle_id = ''b'', closure_ids = [c_proof_id demo_closure], b_proof_id = ''x''\<rparr>
     [(demo_capsule, demo_closure)] demo_closed = (Inr [demo_next], demo_applied)"
  by (simp add: apply_bundle_def demo_closed_verified Let_def demo_next_def demo_applied_def)
     (simp add: demo_closure_def)

theorem bundle_all_or_nothing_witness:
  "map_of (current_seals demo_applied) (resource_id demo_next) = Some demo_next
   \<and> seal_id demo_crypto demo_next \<in> set (dict_keys (known_seals demo_applied))
   \<and> (\<exists>pred \<in> set (dict_values (current_seals demo_closed)). version demo_next = version pred + 1)"
proof -
  note b = bundle_all_or_nothing [OF demo_bundle]
  from b obtain pred where "pred \<in> set (dict_values (current_seals demo_closed))" and "demo_next =
      \<lparr>resource_id = resource_id pred, seal_epoch = seal_epoch pred, version = version pred + 1,
       state_root = successor_root demo_capsule, capability_hash = digest demo_crypto (JStr (capsule_id demo_capsule)),
       owner = client_id demo_capsule\<rparr>" by auto
  moreover from this(2) have "version demo_next = version pred + 1" by (metis state_seal.select_convs(3))
  moreover from b have "map_of (current_seals demo_applied) (resource_id demo_next) = Some demo_next"
    by (simp del: set_map)
  moreover from b have "seal_id demo_crypto demo_next \<in> set (dict_keys (known_seals demo_applied))"
    by (simp del: set_map)
  ultimately show ?thesis by blast
qed

subsection \<open>Closing and abandoning without receipts are runs too\<close>

lemma collect_abandon_step:
  assumes "collect_abandon cr (mid # mids) c p = (res, p')"
  obtains (stop) r where "issue_receipt cr mid c ''ABANDON'' p = (r, p')"
  | (more) r q res' where "issue_receipt cr mid c ''ABANDON'' p = (r, q)"
      "collect_abandon cr mids c q = (res', p')"
proof -
  obtain r q where i: "issue_receipt cr mid c ''ABANDON'' p = (r, q)" by fastforce
  obtain res' q' where k: "collect_abandon cr mids c q = (res', q')" by fastforce
  from assms i k have "p' = q \<or> p' = q'"
    by (auto split: sum.splits mosaic_error.splits)
  with that i k show ?thesis by blast
qed

lemma node_run_collect_accept:
  "node_run cr p0 R p \<Longrightarrow> collect_accept cr mids c p = (res, p') \<Longrightarrow>
   \<exists>R'. R \<subseteq> R' \<and> node_run cr p0 R' p'"
proof (induction mids arbitrary: p R res)
  case (Cons mid mids)
  from Cons.prems(2) show ?case
  proof (cases rule: collect_accept_step)
    case (stop r)
    with node_run.witness [OF Cons.prems(1) stop] show ?thesis by blast
  next
    case (more r q res')
    from Cons.IH [OF node_run.witness [OF Cons.prems(1) more(1)] more(2)] show ?thesis by blast
  qed
qed auto

lemma node_run_collect_abandon:
  "node_run cr p0 R p \<Longrightarrow> collect_abandon cr mids c p = (res, p') \<Longrightarrow>
   \<exists>R'. R \<subseteq> R' \<and> node_run cr p0 R' p' \<and> closures p' = closures p"
proof (induction mids arbitrary: p R res)
  case (Cons mid mids)
  from Cons.prems(2) show ?case
  proof (cases rule: collect_abandon_step)
    case (stop r)
    with node_run.witness [OF Cons.prems(1) stop] issue_receipt_frame [OF stop] show ?thesis by blast
  next
    case (more r q res')
    from Cons.IH [OF node_run.witness [OF Cons.prems(1) more(1)] more(2)] issue_receipt_frame [OF more(1)]
    show ?thesis by (metis Un_subset_iff)
  qed
qed auto

lemma closure_create_empty: "closure_create cr [] = Inl (ClosureInvalid ''closure requires receipts'')"
  by (simp add: closure_create_def)

lemma abandon_create_empty:
  "abandon_create cr [] = Inl (ClosureInvalid ''abandon proof requires abandon receipts'')"
  by (simp add: abandon_create_def)

lemma collect_accept_seals:
  "collect_accept cr mids c p = (res, p') \<Longrightarrow> known_seals p' = known_seals p \<and> epoch p' = epoch p"
proof (induction mids arbitrary: p res)
  case (Cons mid mids)
  from Cons.prems show ?case
  proof (cases rule: collect_accept_step)
    case (stop r)
    with issue_receipt_frame show ?thesis by metis
  next
    case (more r q res')
    with Cons.IH [OF more(2)] issue_receipt_frame show ?thesis by metis
  qed
qed simp

lemma node_run_close:
  assumes run: "node_run cr p0 R p" and call: "close cr c None p = (res, p')"
  shows "\<exists>R'. R \<subseteq> R' \<and> node_run cr p0 R' p'"
proof (cases "validate_capsule cr p c")
  case (Inl e)
  with call run show ?thesis by (auto simp: close_def)
next
  case (Inr u)
  obtain got q where g: "collect_accept_receipts cr c p = (got, q)" by fastforce
  from node_run_collect_accept [OF run g [unfolded collect_accept_receipts_def]]
  obtain R' where R': "R \<subseteq> R'" "node_run cr p0 R' q" by blast
  show ?thesis
  proof (cases "\<exists>r rs. got = Inr (r # rs)")
    case False
    then have "got = Inr [] \<or> (\<exists>e. got = Inl e)" by (metis list.exhaust sum.exhaust)
    with call g Inr have "p' = q"
      by (auto simp: close_def given_or_collect_def dict_of_def closure_create_empty split: if_splits)
    with R' show ?thesis by blast
  next
    case True
    then obtain r rs where "got = Inr (r # rs)" by blast
    moreover have "validate_capsule cr q c = Inr ()"
      using validate_capsule_cong [of q p] collect_accept_seals [OF g [unfolded collect_accept_receipts_def]] Inr
      by simp
    ultimately have "close cr c (Some (r # rs)) q = (res, p')"
      using call g Inr unfolding close_def given_or_collect_def by simp
    from node_run.close_call [OF R'(2) this] R'(1) show ?thesis by blast
  qed
qed

lemma node_run_abandon:
  assumes run: "node_run cr p0 R p" and call: "abandon cr c None p = (res, p')"
  shows "\<exists>R'. R \<subseteq> R' \<and> node_run cr p0 R' p'"
proof (cases "has_key (closures p) (capsule_id c)")
  case True
  with call run show ?thesis by (auto simp: abandon_def)
next
  case no: False
  obtain got q where g: "collect_abandon_receipts cr c p = (got, q)" by fastforce
  from node_run_collect_abandon [OF run g [unfolded collect_abandon_receipts_def]]
  obtain R' where R': "R \<subseteq> R'" "node_run cr p0 R' q" "closures q = closures p" by blast
  show ?thesis
  proof (cases "\<exists>r rs. got = Inr (r # rs)")
    case False
    then have "got = Inr [] \<or> (\<exists>e. got = Inl e)" by (metis list.exhaust sum.exhaust)
    with call g no have "p' = q"
      by (auto simp: abandon_def given_or_collect_def dict_of_def abandon_create_empty split: if_splits)
    with R' show ?thesis by blast
  next
    case True
    then obtain r rs where "got = Inr (r # rs)" by blast
    then have "abandon cr c (Some (r # rs)) q = (res, p')"
      using call g no R'(3) unfolding abandon_def given_or_collect_def by simp
    from node_run.abandon_call [OF R'(2) this] R'(1) show ?thesis by blast
  qed
qed

end
