(* ===== verification/Stake.thy ===== *)
theory Stake
  imports Crypto
begin

section \<open>Stake bonds (mosaic/membership.py, StakeBond)\<close>

text \<open>The signed bond both the settlement ledger and the membership manager accept.\<close>

record stake_bond =
  sb_bond_id :: string
  sb_owner :: string
  sb_owner_public_key :: string
  sb_amount :: int
  sb_asset :: string
  sb_activation_epoch :: int
  sb_unlock_epoch :: int
  sb_owner_signature :: string

definition bond_fields :: "string \<Rightarrow> string \<Rightarrow> string \<Rightarrow> int \<Rightarrow> string \<Rightarrow> int \<Rightarrow> int \<Rightarrow> json" where
  "bond_fields bid own pk amt ast act unl = JObj
     [(''protocol'', JStr ''MOSAIC/STAKE-BOND/v1''), (''bond_id'', JStr bid), (''owner'', JStr own),
      (''owner_public_key'', JStr (hex pk)), (''amount'', JInt amt), (''asset'', JStr ast),
      (''activation_epoch'', JInt act), (''unlock_epoch'', JInt unl)]"

definition bond_create ::
  "crypto \<Rightarrow> keypair \<Rightarrow> string \<Rightarrow> int \<Rightarrow> string \<Rightarrow> int \<Rightarrow> int \<Rightarrow> stake_bond" where
  "bond_create cr own bid amt ast act unl =
     (let unsigned = bond_fields bid (identity cr own) (public_key cr own) amt ast act unl
      in \<lparr>sb_bond_id = bid, sb_owner = identity cr own, sb_owner_public_key = public_key cr own,
          sb_amount = amt, sb_asset = ast, sb_activation_epoch = act, sb_unlock_epoch = unl,
          sb_owner_signature = sign cr own (canonical_bytes unsigned)\<rparr>)"

definition bond_statement :: "stake_bond \<Rightarrow> json" where
  "bond_statement b = bond_fields (sb_bond_id b) (sb_owner b) (sb_owner_public_key b) (sb_amount b)
     (sb_asset b) (sb_activation_epoch b) (sb_unlock_epoch b)"

definition bond_verify :: "crypto \<Rightarrow> stake_bond \<Rightarrow> bool" where
  "bond_verify cr b \<longleftrightarrow> sb_amount b > 0 \<and> sb_activation_epoch b \<ge> 0
     \<and> sb_unlock_epoch b \<ge> sb_activation_epoch b
     \<and> verify cr (sb_owner_public_key b) (canonical_bytes (bond_statement b)) (sb_owner_signature b)"

lemma bond_create_verifies:
  "sound_signatures cr \<Longrightarrow> 0 < amt \<Longrightarrow> 0 \<le> act \<Longrightarrow> act \<le> unl \<Longrightarrow>
   bond_verify cr (bond_create cr own bid amt ast act unl)"
  by (simp add: bond_verify_def bond_create_def bond_statement_def Let_def)

end
