(* ===== verification/Economics.thy ===== *)
theory Economics
  imports Stake
begin

section \<open>The settlement ledger (mosaic/economics.py)\<close>

text \<open>
  \<open>SettlementLedger\<close> is the record \<open>ledger\<close>; its two sets are sets, its dictionaries keep their
  order. Every method is one function; the private helpers \<open>_credit\<close>, \<open>_debit\<close>, \<open>_event\<close> are
  sequenced by \<open>thenS\<close>, so what a method has done before an exception stays done.
\<close>

datatype settlement_error = SettlementError string

record bond_position =
  pos_bond_id :: string
  pos_owner :: string
  pos_asset :: string
  pos_amount :: int
  pos_unlock :: int
  pos_active :: bool
  pos_unbonding :: bool

record settlement_event =
  ev_id :: string
  ev_kind :: string
  ev_epoch :: int
  ev_account :: string
  ev_amount :: int
  ev_asset :: string
  ev_related :: string
  ev_metadata :: "(string \<times> string) list"

record ledger =
  l_asset :: string
  l_treasury :: string
  reporter_bps :: int
  balances :: "(string, int) dict"
  bonds :: "(string, bond_position) dict"
  events :: "(string, settlement_event) dict"
  slash_ids :: "string set"
  settled_epochs :: "int set"

type_synonym 'a l_outcome = "(ledger, settlement_error, 'a) outcome"

definition ledger_init :: "string \<Rightarrow> string \<Rightarrow> int \<Rightarrow> settlement_error + ledger" where
  "ledger_init ast tre bps =
     (if ast = [] \<or> tre = [] then Inl (SettlementError ''asset and treasury are required'')
      else if \<not> (0 \<le> bps \<and> bps \<le> 10000)
      then Inl (SettlementError ''reporter reward must be between 0 and 10000 bps'')
      else Inr \<lparr>l_asset = ast, l_treasury = tre, reporter_bps = bps, balances = [], bonds = [],
                events = [], slash_ids = {}, settled_epochs = {}\<rparr>)"

definition balance_of :: "ledger \<Rightarrow> string \<Rightarrow> int" where
  "balance_of l acct = (case map_of (balances l) acct of None \<Rightarrow> 0 | Some a \<Rightarrow> a)"

definition position_json :: "bond_position \<Rightarrow> json" where
  "position_json q = JObj
     [(''owner'', JStr (pos_owner q)), (''asset'', JStr (pos_asset q)), (''amount'', JInt (pos_amount q)),
      (''unlock_epoch'', JInt (pos_unlock q)), (''active'', JBool (pos_active q)),
      (''unbonding'', JBool (pos_unbonding q))]"

definition settlement_root :: "crypto \<Rightarrow> ledger \<Rightarrow> string" where
  "settlement_root cr l = digest cr (JObj
     [(''protocol'', JStr ''MOSAIC/SETTLEMENT-STATE/v1''), (''asset'', JStr (l_asset l)),
      (''balances'', JObj (map (\<lambda>(k, a). (k, JInt a)) (sort_key fst (balances l)))),
      (''bonds'', JObj (map (\<lambda>(k, q). (k, position_json q)) (sort_key fst (bonds l)))),
      (''events'', JArr (map JStr (sort (dict_keys (events l))))),
      (''slash_evidence_ids'', JArr (map JStr (sorted_list_of_set (slash_ids l)))),
      (''settled_reward_epochs'', JArr (map JInt (sorted_list_of_set (settled_epochs l))))])"

definition audit :: "ledger \<Rightarrow> bool" where
  "audit l \<longleftrightarrow> (\<forall>a \<in> set (dict_values (balances l)). a \<ge> 0)
     \<and> (\<forall>q \<in> set (dict_values (bonds l)). pos_amount q \<ge> 0 \<and> pos_asset q = l_asset l
          \<and> \<not> (pos_active q \<and> pos_unbonding q))
     \<and> (\<forall>e \<in> set (dict_values (events l)). ev_amount e \<ge> 0 \<and> ev_asset e = l_asset l)"

subsection \<open>The private helpers\<close>

definition credit :: "string \<Rightarrow> int \<Rightarrow> ledger \<Rightarrow> unit l_outcome" where
  "credit acct amt l =
     (if acct = [] \<or> amt < 0 then (Inl (SettlementError ''invalid credit''), l)
      else (Inr (), l\<lparr>balances := AList.update acct (balance_of l acct + amt) (balances l)\<rparr>))"

definition debit :: "string \<Rightarrow> int \<Rightarrow> ledger \<Rightarrow> unit l_outcome" where
  "debit acct amt l =
     (if amt < 0 \<or> balance_of l acct < amt
      then (Inl (SettlementError ''insufficient settlement balance''), l)
      else (Inr (), l\<lparr>balances := AList.update acct (balance_of l acct - amt) (balances l)\<rparr>))"

definition position :: "string \<Rightarrow> ledger \<Rightarrow> bond_position l_outcome" where
  "position bid l = (case map_of (bonds l) bid of
     None \<Rightarrow> (Inl (SettlementError ''unknown bond''), l) | Some q \<Rightarrow> (Inr q, l))"

definition event_id ::
  "crypto \<Rightarrow> string \<Rightarrow> string \<Rightarrow> int \<Rightarrow> string \<Rightarrow> int \<Rightarrow> string \<Rightarrow> (string \<times> string) list \<Rightarrow> string" where
  "event_id cr ast kind ep acct amt related meta = digest cr (JObj
     [(''protocol'', JStr ''MOSAIC/SETTLEMENT-EVENT/v1''), (''kind'', JStr kind), (''epoch'', JInt ep),
      (''account'', JStr acct), (''amount'', JInt amt), (''asset'', JStr ast),
      (''related_id'', JStr related),
      (''metadata'', JArr (map (\<lambda>(a, b). JArr [JStr a, JStr b]) meta))])"

definition log_event ::
  "crypto \<Rightarrow> string \<Rightarrow> int \<Rightarrow> string \<Rightarrow> int \<Rightarrow> string \<Rightarrow> (string \<times> string) list \<Rightarrow> ledger \<Rightarrow>
   settlement_event l_outcome" where
  "log_event cr kind ep acct amt related meta l =
     (let eid = event_id cr (l_asset l) kind ep acct amt related meta in
      if has_key (events l) eid then (Inl (SettlementError ''duplicate settlement event''), l)
      else (let e = \<lparr>ev_id = eid, ev_kind = kind, ev_epoch = ep, ev_account = acct, ev_amount = amt,
                     ev_asset = l_asset l, ev_related = related, ev_metadata = meta\<rparr>
            in (Inr e, l\<lparr>events := AList.update eid e (events l)\<rparr>)))"

definition set_position :: "string \<Rightarrow> bond_position \<Rightarrow> ledger \<Rightarrow> ledger" where
  "set_position bid q l = l\<lparr>bonds := AList.update bid q (bonds l)\<rparr>"

subsection \<open>The operations\<close>

definition fund :: "crypto \<Rightarrow> string \<Rightarrow> int \<Rightarrow> int \<Rightarrow> string option \<Rightarrow> ledger \<Rightarrow> settlement_event l_outcome" where
  "fund cr acct amt ep source l =
     (if amt \<le> 0 \<or> acct = [] then (Inl (SettlementError ''funding amount and account are invalid''), l)
      else (let related = (case source of Some (x # xs) \<Rightarrow> x # xs | _ \<Rightarrow>
                  digest cr (JObj [(''account'', JStr acct), (''amount'', JInt amt), (''epoch'', JInt ep)]))
            in thenS (log_event cr ''FUND'' ep acct amt related [(''source'', ''external'')])
                 (\<lambda>e. thenS (credit acct amt) (\<lambda>_ l'. (Inr e, l'))) l))"

definition settle_bond :: "crypto \<Rightarrow> stake_bond \<Rightarrow> int \<Rightarrow> ledger \<Rightarrow> settlement_event l_outcome" where
  "settle_bond cr b ep l =
     (if \<not> bond_verify cr b then (Inl (SettlementError ''invalid stake bond''), l)
      else if sb_asset b \<noteq> l_asset l
      then (Inl (SettlementError ''stake asset does not match ledger''), l)
      else if sb_activation_epoch b > ep
      then (Inl (SettlementError ''bond activation epoch has not arrived''), l)
      else if has_key (bonds l) (sb_bond_id b) then (Inl (SettlementError ''bond already settled''), l)
      else thenS (debit (sb_owner b) (sb_amount b)) (\<lambda>_ l'.
             log_event cr ''BOND'' ep (sb_owner b) (sb_amount b) (sb_bond_id b) []
               (set_position (sb_bond_id b)
                 \<lparr>pos_bond_id = sb_bond_id b, pos_owner = sb_owner b, pos_asset = sb_asset b,
                  pos_amount = sb_amount b, pos_unlock = sb_unlock_epoch b, pos_active = True,
                  pos_unbonding = False\<rparr> l')) l)"

definition request_unbond :: "crypto \<Rightarrow> string \<Rightarrow> int \<Rightarrow> int \<Rightarrow> ledger \<Rightarrow> settlement_event l_outcome" where
  "request_unbond cr bid ep delay = thenS (position bid) (\<lambda>q l.
     if delay < 0 \<or> \<not> pos_active q \<or> pos_unbonding q
     then (Inl (SettlementError ''bond cannot enter unbonding''), l)
     else log_event cr ''UNBOND_REQUEST'' ep (pos_owner q) 0 bid []
            (set_position bid (q\<lparr>pos_unlock := max (pos_unlock q) (ep + delay), pos_active := False,
               pos_unbonding := True\<rparr>) l))"

definition settle_withdraw :: "crypto \<Rightarrow> string \<Rightarrow> int \<Rightarrow> ledger \<Rightarrow> settlement_event l_outcome" where
  "settle_withdraw cr bid ep = thenS (position bid) (\<lambda>q l.
     if pos_active q
     then (Inl (SettlementError ''bond is still active; request unbonding first''), l)
     else if \<not> pos_unbonding q \<or> ep < pos_unlock q
     then (Inl (SettlementError ''withdrawal delay has not elapsed''), l)
     else thenS (credit (pos_owner q) (pos_amount q))
            (\<lambda>_. log_event cr ''WITHDRAW'' ep (pos_owner q) (pos_amount q) bid [])
            (l\<lparr>bonds := AList.delete bid (bonds l)\<rparr>))"

definition settle_slash ::
  "crypto \<Rightarrow> string \<Rightarrow> int \<Rightarrow> int \<Rightarrow> string \<Rightarrow> string option \<Rightarrow> ledger \<Rightarrow> (settlement_event list) l_outcome" where
  "settle_slash cr bid amt ep evidence reporter l =
     (if amt \<le> 0 \<or> evidence = []
      then (Inl (SettlementError ''slash amount and evidence are required''), l)
      else if evidence \<in> slash_ids l
      then (Inl (SettlementError ''slash evidence already settled''), l)
      else thenS (position bid) (\<lambda>q l.
        let penalty = min amt (pos_amount q);
            rep = (case reporter of None \<Rightarrow> [] | Some r \<Rightarrow> r);
            reporter_amount = (if rep = [] then 0 else penalty * reporter_bps l div 10000);
            l1 = set_position bid (q\<lparr>pos_amount := pos_amount q - penalty,
                   pos_active := pos_active q \<and> pos_amount q > penalty\<rparr>)
                 (l\<lparr>slash_ids := insert evidence (slash_ids l)\<rparr>)
        in thenS (log_event cr ''SLASH'' ep (pos_owner q) penalty evidence []) (\<lambda>e.
             thenS (credit (l_treasury l) (penalty - reporter_amount)) (\<lambda>_.
               if reporter_amount \<noteq> 0
               then thenS (credit rep reporter_amount) (\<lambda>_.
                      thenS (log_event cr ''REPORTER_REWARD'' ep rep reporter_amount evidence [])
                        (\<lambda>e2 l'. (Inr [e, e2], l')))
               else (\<lambda>l'. (Inr [e], l')))) l1) l)"

definition charge_fee :: "crypto \<Rightarrow> string \<Rightarrow> int \<Rightarrow> int \<Rightarrow> string \<Rightarrow> ledger \<Rightarrow> settlement_event l_outcome" where
  "charge_fee cr payer amt ep tx l =
     (if amt \<le> 0 \<or> tx = [] then (Inl (SettlementError ''fee amount and tx id are required''), l)
      else thenS (debit payer amt) (\<lambda>_. thenS (credit (l_treasury l) amt)
             (\<lambda>_. log_event cr ''FEE'' ep payer amt tx [])) l)"

text \<open>The loop of \<open>distribute_rewards\<close>: the last entry gets what is left.\<close>

fun pay_rewards ::
  "crypto \<Rightarrow> int \<Rightarrow> int \<Rightarrow> int \<Rightarrow> int \<Rightarrow> (string \<times> int) list \<Rightarrow> ledger \<Rightarrow> (settlement_event list) l_outcome" where
  "pay_rewards cr ep pot weight_sum distributed [] l = (Inr [], l)"
| "pay_rewards cr ep pot weight_sum distributed ((bid, w) # rest) l =
     thenS (position bid) (\<lambda>q.
       let amount = (if rest = [] then pot - distributed else pot * w div weight_sum)
       in thenS (credit (pos_owner q) amount) (\<lambda>_.
          thenS (log_event cr ''REWARD'' ep (pos_owner q) amount bid []) (\<lambda>e.
          thenS (pay_rewards cr ep pot weight_sum (distributed + amount) rest) (\<lambda>es l'.
            (Inr (e # es), l'))))) l"

definition distribute_rewards ::
  "crypto \<Rightarrow> int \<Rightarrow> int \<Rightarrow> (string, int) dict \<Rightarrow> ledger \<Rightarrow> (settlement_event list) l_outcome" where
  "distribute_rewards cr ep pot weights l =
     (if ep \<in> settled_epochs l then (Inl (SettlementError ''epoch rewards already settled''), l)
      else if pot \<le> 0 \<or> weights = [] \<or> (\<exists>w \<in> set (dict_values weights). w \<le> 0)
      then (Inl (SettlementError ''invalid reward distribution''), l)
      else thenS (debit (l_treasury l) pot) (\<lambda>_.
        thenS (pay_rewards cr ep pot (sum_list (dict_values weights)) 0 (sort_key fst weights))
          (\<lambda>es l'. (Inr es, l'\<lparr>settled_epochs := insert ep (settled_epochs l')\<rparr>))) l)"

end
