(* ===== verification/Membership.thy ===== *)
theory Membership
  imports Economics
begin

section \<open>Validators, admission and stake lifecycle (mosaic/membership.py)\<close>

text \<open>
  \<open>MembershipManager\<close> is the record \<open>manager\<close>; the settlement ledger it may hold is a component of
  it, updated in place also when the ledger raises. \<open>to_bytes8\<close> is \<open>n.to_bytes(8, "big")\<close> with its
  \<open>OverflowError\<close>, \<open>fromhex\<close> is \<open>bytes.fromhex\<close>, which skips white space between bytes.
\<close>

datatype membership_error =
    MembershipError string
  | FromSettlement settlement_error
  | OverflowError
  | HexError

definition be8 :: "int \<Rightarrow> string" where
  "be8 n = map (\<lambda>i. char_of (nat (n div 256 ^ (7 - i) mod 256))) [0..<8]"

definition to_bytes8 :: "int \<Rightarrow> membership_error + string" where
  "to_bytes8 n = (if 0 \<le> n \<and> n < 2 ^ 64 then Inr (be8 n) else Inl OverflowError)"

definition hexval :: "char \<Rightarrow> nat option" where
  "hexval c = (let n = of_char c :: nat in
     if 48 \<le> n \<and> n \<le> 57 then Some (n - 48)
     else if 97 \<le> n \<and> n \<le> 102 then Some (n - 87)
     else if 65 \<le> n \<and> n \<le> 70 then Some (n - 55) else None)"

definition is_space :: "char \<Rightarrow> bool" where
  "is_space c \<longleftrightarrow> (let n = of_char c :: nat in n = 32 \<or> 9 \<le> n \<and> n \<le> 13)"

fun fromhex :: "string \<Rightarrow> string option" where
  "fromhex [] = Some []"
| "fromhex [c] = (if is_space c then Some [] else None)"
| "fromhex (c # d # cs) =
     (if is_space c then fromhex (d # cs)
      else (case (hexval c, hexval d) of
        (Some a, Some b) \<Rightarrow> map_option (Cons (char_of (16 * a + b))) (fromhex cs)
      | _ \<Rightarrow> None))"

subsection \<open>Signed objects\<close>

record validator_record =
  v_id :: string
  v_public_key :: string
  v_stake :: int
  v_deposit_id :: string
  v_active :: bool
  v_locked_until :: int
  v_jailed :: bool

record admission_request =
  ar_validator_id :: string
  ar_public_key :: string
  ar_stake :: int
  ar_deposit_id :: string
  ar_requested_epoch :: int
  ar_signature :: string
  ar_bond_id :: "string option"

definition admission_fields ::
  "string \<Rightarrow> string \<Rightarrow> int \<Rightarrow> string \<Rightarrow> int \<Rightarrow> string option \<Rightarrow> (string \<times> json) list" where
  "admission_fields vid pk stake dep ep bid =
     [(''protocol'', JStr ''MOSAIC/ADMISSION/v1''), (''validator_id'', JStr vid),
      (''public_key'', JStr (hex pk)), (''stake'', JInt stake), (''deposit_id'', JStr dep),
      (''requested_epoch'', JInt ep),
      (''bond_id'', case bid of None \<Rightarrow> JNull | Some b \<Rightarrow> JStr b)]"

definition admission_create ::
  "crypto \<Rightarrow> keypair \<Rightarrow> string \<Rightarrow> int \<Rightarrow> string \<Rightarrow> int \<Rightarrow> string option \<Rightarrow> admission_request" where
  "admission_create cr kp vid stake dep ep bid =
     \<lparr>ar_validator_id = vid, ar_public_key = public_key cr kp, ar_stake = stake, ar_deposit_id = dep,
      ar_requested_epoch = ep,
      ar_signature = sign cr kp (canonical_bytes
        (JObj (admission_fields vid (public_key cr kp) stake dep ep bid))),
      ar_bond_id = bid\<rparr>"

definition admission_statement :: "admission_request \<Rightarrow> (string \<times> json) list" where
  "admission_statement r = admission_fields (ar_validator_id r) (ar_public_key r) (ar_stake r)
     (ar_deposit_id r) (ar_requested_epoch r) (ar_bond_id r)"

definition admission_verify :: "crypto \<Rightarrow> admission_request \<Rightarrow> bool" where
  "admission_verify cr r =
     verify cr (ar_public_key r) (canonical_bytes (JObj (admission_statement r))) (ar_signature r)"

record admission_certificate =
  ac_request_digest :: string
  ac_epoch :: int
  ac_approver_ids :: "string list"
  ac_certificate_id :: string

record exit_certificate =
  xc_validator_id :: string
  xc_epoch :: int
  xc_certificate_id :: string
  xc_unlock_epoch :: int

record withdrawal_receipt =
  wr_validator_id :: string
  wr_deposit_id :: string
  wr_amount :: int
  wr_unlock_epoch :: int
  wr_receipt_id :: string

record slash_evidence =
  se_offender :: string
  se_epoch :: int
  se_first :: string
  se_second :: string
  se_witnesses :: "string list"
  se_id :: string

definition slash_evidence_id ::
  "crypto \<Rightarrow> string \<Rightarrow> int \<Rightarrow> string \<Rightarrow> string \<Rightarrow> string list \<Rightarrow> string" where
  "slash_evidence_id cr off ep d1 d2 ws = digest cr (JObj
     [(''protocol'', JStr ''MOSAIC/SLASH-EVIDENCE/v1''), (''offender_id'', JStr off),
      (''epoch'', JInt ep), (''first_digest'', JStr d1), (''second_digest'', JStr d2),
      (''witness_ids'', JArr (map JStr ws))])"

definition slash_evidence_create ::
  "crypto \<Rightarrow> string \<Rightarrow> int \<Rightarrow> json \<Rightarrow> json \<Rightarrow> string list \<Rightarrow> membership_error + slash_evidence" where
  "slash_evidence_create cr off ep obj1 obj2 ws =
     (let d1 = digest cr obj1; d2 = digest cr obj2 in
      if d1 = d2 then Inl (MembershipError ''slash evidence objects must conflict'')
      else (let witnesses = sort (remdups ws)
            in Inr \<lparr>se_offender = off, se_epoch = ep, se_first = d1, se_second = d2,
                    se_witnesses = witnesses, se_id = slash_evidence_id cr off ep d1 d2 witnesses\<rparr>))"

definition slash_evidence_verify :: "crypto \<Rightarrow> slash_evidence \<Rightarrow> bool" where
  "slash_evidence_verify cr e \<longleftrightarrow> se_offender e \<noteq> [] \<and> se_epoch e \<ge> 0 \<and> se_first e \<noteq> se_second e
     \<and> se_id e = slash_evidence_id cr (se_offender e) (se_epoch e) (se_first e) (se_second e) (se_witnesses e)"

subsection \<open>Snapshots\<close>

record membership_snapshot =
  sn_epoch :: int
  sn_seed :: string
  sn_validators :: "validator_record list"
  sn_root :: string

definition votes :: "validator_record \<Rightarrow> bool" where
  "votes v \<longleftrightarrow> v_active v \<and> \<not> v_jailed v"

definition total_stake :: "membership_snapshot \<Rightarrow> int" where
  "total_stake s = sum_list (map v_stake (filter votes (sn_validators s)))"

definition snapshot_threshold :: "membership_snapshot \<Rightarrow> int" where
  "snapshot_threshold s = (2 * total_stake s) div 3 + 1"

definition by_id :: "membership_snapshot \<Rightarrow> (string, validator_record) dict" where
  "by_id s = dict_of v_id (filter votes (sn_validators s))"

definition validator_json :: "validator_record \<Rightarrow> json" where
  "validator_json v = JObj
     [(''validator_id'', JStr (v_id v)), (''public_key'', JStr (hex (v_public_key v))),
      (''stake'', JInt (v_stake v)), (''deposit_id'', JStr (v_deposit_id v)),
      (''locked_until_epoch'', JInt (v_locked_until v)), (''jailed'', JBool (v_jailed v))]"

definition membership_root :: "crypto \<Rightarrow> int \<Rightarrow> string \<Rightarrow> validator_record list \<Rightarrow> string" where
  "membership_root cr ep seed active = digest cr (JObj
     [(''protocol'', JStr ''MOSAIC/MEMBERSHIP-ROOT/v1''), (''epoch'', JInt ep),
      (''seed'', JStr (hex seed)), (''validators'', JArr (map validator_json active))])"

definition snapshot_verify :: "crypto \<Rightarrow> membership_snapshot \<Rightarrow> bool" where
  "snapshot_verify cr s =
     (let active = sort_key v_id (filter votes (sn_validators s))
      in membership_root cr (sn_epoch s) (sn_seed s) active = sn_root s
         \<and> (\<forall>v \<in> set active. v_stake v > 0))"

subsection \<open>The manager\<close>

record manager =
  genesis_seed :: string
  minimum_stake :: int
  max_tickets :: int
  withdrawal_delay :: int
  settlement :: "ledger option"
  validator_bonds :: "(string, string) dict"
  m_records :: "(string, validator_record) dict"
  deposits :: "string set"
  m_bonds :: "(string, stake_bond) dict"
  slash_history :: "(string, slash_evidence) dict"
  non_reveal_history :: "string set"
  m_epoch :: int
  m_seed :: string
  m_snapshot :: membership_snapshot

type_synonym 'a m_outcome = "(manager, membership_error, 'a) outcome"

definition build_snapshot :: "crypto \<Rightarrow> manager \<Rightarrow> membership_snapshot" where
  "build_snapshot cr m =
     (let vs = sort_key v_id (dict_values (m_records m))
      in \<lparr>sn_epoch = m_epoch m, sn_seed = m_seed m, sn_validators = vs,
          sn_root = membership_root cr (m_epoch m) (m_seed m) (filter votes vs)\<rparr>)"

definition refresh :: "crypto \<Rightarrow> manager \<Rightarrow> manager" where
  "refresh cr m = m\<lparr>m_snapshot := build_snapshot cr m\<rparr>"

definition manager_init :: "crypto \<Rightarrow> string \<Rightarrow> int \<Rightarrow> int \<Rightarrow> int \<Rightarrow> ledger option \<Rightarrow> manager" where
  "manager_init cr seed mins maxt delay led = refresh cr
     \<lparr>genesis_seed = seed, minimum_stake = mins, max_tickets = maxt, withdrawal_delay = delay,
      settlement = led, validator_bonds = [], m_records = [], deposits = {}, m_bonds = [],
      slash_history = [], non_reveal_history = {}, m_epoch = 0, m_seed = seed,
      m_snapshot = \<lparr>sn_epoch = 0, sn_seed = seed, sn_validators = [], sn_root = []\<rparr>\<rparr>"

definition stake_of :: "manager \<Rightarrow> string \<Rightarrow> membership_error + int" where
  "stake_of m vid = (case map_of (m_records m) vid of
     None \<Rightarrow> Inl (MembershipError ''unknown validator'') | Some v \<Rightarrow> Inr (v_stake v))"

definition new_record :: "admission_request \<Rightarrow> validator_record" where
  "new_record r = \<lparr>v_id = ar_validator_id r, v_public_key = ar_public_key r, v_stake = ar_stake r,
     v_deposit_id = ar_deposit_id r, v_active = True, v_locked_until = 0, v_jailed = False\<rparr>"

definition set_record :: "string \<Rightarrow> validator_record \<Rightarrow> manager \<Rightarrow> manager" where
  "set_record vid v m = m\<lparr>m_records := AList.update vid v (m_records m)\<rparr>"

definition raise_m :: "string \<Rightarrow> manager \<Rightarrow> 'a m_outcome" where
  "raise_m msg m = (Inl (MembershipError msg), m)"

text \<open>A call on the ledger, when there is one.\<close>

definition on_settlement :: "(ledger \<Rightarrow> 'a l_outcome) \<Rightarrow> manager \<Rightarrow> unit m_outcome" where
  "on_settlement f m = (case settlement m of
     None \<Rightarrow> (Inr (), m)
   | Some l \<Rightarrow> (case f l of
       (Inl e, l') \<Rightarrow> (Inl (FromSettlement e), m\<lparr>settlement := Some l'\<rparr>)
     | (Inr _, l') \<Rightarrow> (Inr (), m\<lparr>settlement := Some l'\<rparr>)))"

definition restore_admission ::
  "crypto \<Rightarrow> admission_request \<Rightarrow> stake_bond \<Rightarrow> manager \<Rightarrow> unit m_outcome" where
  "restore_admission cr r b m =
     (if \<not> admission_verify cr r \<or> \<not> bond_verify cr b
      then raise_m ''cannot restore invalid admission'' m
      else if ar_stake r < minimum_stake m \<or> ar_bond_id r \<noteq> Some (sb_bond_id b)
      then raise_m ''restored admission does not satisfy stake policy'' m
      else if has_key (m_records m) (ar_validator_id r) \<or> ar_deposit_id r \<in> deposits m
      then raise_m ''restored admission is duplicated'' m
      else if sb_owner_public_key b \<noteq> ar_public_key r \<or> sb_amount b \<noteq> ar_stake r
      then raise_m ''restored bond does not match admission'' m
      else (Inr (), refresh cr (set_record (ar_validator_id r) (new_record r)
             (m\<lparr>m_bonds := AList.update (sb_bond_id b) b (m_bonds m),
                validator_bonds := AList.update (ar_validator_id r) (sb_bond_id b) (validator_bonds m),
                deposits := insert (ar_deposit_id r) (deposits m)\<rparr>))))"

text \<open>The \<open>if bond is not None\<close> block of \<open>admit\<close>.\<close>

definition admit_bond ::
  "crypto \<Rightarrow> admission_request \<Rightarrow> stake_bond option \<Rightarrow> manager \<Rightarrow> unit m_outcome" where
  "admit_bond cr r bond m = (case bond of
     None \<Rightarrow> (Inr (), m)
   | Some b \<Rightarrow>
       if \<not> bond_verify cr b then raise_m ''invalid stake bond'' m
       else if sb_bond_id b \<noteq> (case ar_bond_id r of Some (x # xs) \<Rightarrow> x # xs | _ \<Rightarrow> ar_deposit_id r)
       then raise_m ''admission bond does not match request'' m
       else if sb_owner_public_key b \<noteq> ar_public_key r \<or> sb_amount b \<noteq> ar_stake r
       then raise_m ''stake bond owner or amount mismatch'' m
       else if sb_activation_epoch b > m_epoch m then raise_m ''stake bond is not active yet'' m
       else thenS (on_settlement (settle_bond cr b (m_epoch m))) (\<lambda>_ m1.
         (Inr (), m1\<lparr>m_bonds := AList.update (sb_bond_id b) b (m_bonds m1),
           validator_bonds := AList.update (ar_validator_id r) (sb_bond_id b) (validator_bonds m1)\<rparr>)) m)"

definition admit ::
  "crypto \<Rightarrow> admission_request \<Rightarrow> string list \<Rightarrow> stake_bond option \<Rightarrow> manager \<Rightarrow> admission_certificate m_outcome" where
  "admit cr r approver_ids bond m =
     (if \<not> admission_verify cr r then raise_m ''invalid applicant signature'' m
      else if ar_stake r < minimum_stake m then raise_m ''stake below minimum'' m
      else if ar_requested_epoch r < m_epoch m then raise_m ''admission request is stale'' m
      else if settlement m \<noteq> None \<and> bond = None
      then raise_m ''settlement-backed admission requires a stake bond'' m
      else if has_key (m_records m) (ar_validator_id r) then raise_m ''validator id already exists'' m
      else if ar_deposit_id r \<in> deposits m then raise_m ''deposit cannot be reused'' m
      else thenS (admit_bond cr r bond) (\<lambda>_ m1.
        let m2 = refresh cr (set_record (ar_validator_id r) (new_record r)
                   (m1\<lparr>deposits := insert (ar_deposit_id r) (deposits m1)\<rparr>));
            approvers = sort (remdups approver_ids);
            rd = digest cr (JObj (admission_statement r @ [(''signature'', JStr (hex (ar_signature r)))]))
        in (Inr \<lparr>ac_request_digest = rd, ac_epoch = m_epoch m2, ac_approver_ids = approvers,
                 ac_certificate_id = digest cr (JObj
                   [(''protocol'', JStr ''MOSAIC/ADMISSION-CERT/v1''), (''request'', JStr rd),
                    (''epoch'', JInt (m_epoch m2)), (''approvers'', JArr (map JStr approvers))])\<rparr>, m2)) m)"

definition exit_validator :: "crypto \<Rightarrow> string \<Rightarrow> int option \<Rightarrow> manager \<Rightarrow> exit_certificate m_outcome" where
  "exit_validator cr vid ep m =
     (case map_of (m_records m) vid of
        None \<Rightarrow> raise_m ''unknown validator'' m
      | Some v \<Rightarrow>
          if (case ep of None \<Rightarrow> False | Some e \<Rightarrow> e < m_epoch m) then raise_m ''stale exit epoch'' m
          else thenS (\<lambda>m. case settlement m of
                 None \<Rightarrow> (Inr (), m)
               | Some _ \<Rightarrow> (case map_of (validator_bonds m) vid of
                   None \<Rightarrow> raise_m ''validator has no settlement bond'' m
                 | Some bid \<Rightarrow> on_settlement (request_unbond cr bid (m_epoch m) (withdrawal_delay m)) m))
               (\<lambda>_ m1. let unlock = m_epoch m1 + withdrawal_delay m1 in
                 (Inr \<lparr>xc_validator_id = vid, xc_epoch = m_epoch m1,
                       xc_certificate_id = digest cr (JObj
                         [(''protocol'', JStr ''MOSAIC/EXIT/v1''), (''validator'', JStr vid),
                          (''epoch'', JInt (m_epoch m1)), (''unlock_epoch'', JInt unlock)]),
                       xc_unlock_epoch = unlock\<rparr>,
                  refresh cr (set_record vid (v\<lparr>v_active := False, v_locked_until := unlock\<rparr>) m1))) m)"

text \<open>\<open>except ValueError as exc: raise MembershipError(str(exc))\<close>\<close>

definition settlement_message :: "membership_error \<Rightarrow> membership_error" where
  "settlement_message e = (case e of FromSettlement (SettlementError s) \<Rightarrow> MembershipError s | _ \<Rightarrow> e)"

definition withdraw_validator :: "crypto \<Rightarrow> string \<Rightarrow> int option \<Rightarrow> manager \<Rightarrow> withdrawal_receipt m_outcome" where
  "withdraw_validator cr vid current m =
     (case map_of (m_records m) vid of
        None \<Rightarrow> raise_m ''unknown validator'' m
      | Some v \<Rightarrow>
          let ep = (case current of None \<Rightarrow> m_epoch m | Some e \<Rightarrow> e) in
          thenS (\<lambda>m. case settlement m of
              None \<Rightarrow> (Inr (), m)
            | Some _ \<Rightarrow> (case map_of (validator_bonds m) vid of
                None \<Rightarrow> raise_m ''validator has no settlement bond'' m
              | Some bid \<Rightarrow> (case on_settlement (settle_withdraw cr bid ep) m of
                  (Inl e, m') \<Rightarrow> (Inl (settlement_message e), m') | (Inr u, m') \<Rightarrow> (Inr u, m'))))
            (\<lambda>_ m1.
              if v_active v then raise_m ''validator is still active'' m1
              else if ep < v_locked_until v then raise_m ''withdrawal delay has not elapsed'' m1
              else (Inr \<lparr>wr_validator_id = vid, wr_deposit_id = v_deposit_id v, wr_amount = v_stake v,
                         wr_unlock_epoch = v_locked_until v,
                         wr_receipt_id = digest cr (JObj
                           [(''protocol'', JStr ''MOSAIC/WITHDRAWAL/v1''), (''validator'', JStr vid),
                            (''deposit'', JStr (v_deposit_id v)), (''amount'', JInt (v_stake v)),
                            (''unlock_epoch'', JInt (v_locked_until v))])\<rparr>,
                    refresh cr (m1\<lparr>m_records := AList.delete vid (m_records m1),
                      validator_bonds := AList.delete vid (validator_bonds m1)\<rparr>))) m)"

definition slash_validator ::
  "crypto \<Rightarrow> slash_evidence \<Rightarrow> int option \<Rightarrow> manager \<Rightarrow> validator_record m_outcome" where
  "slash_validator cr ev penalty m =
     (if \<not> slash_evidence_verify cr ev then raise_m ''invalid slash evidence'' m
      else if has_key (slash_history m) (se_id ev) then raise_m ''slash evidence already applied'' m
      else (case map_of (m_records m) (se_offender ev) of
        None \<Rightarrow> raise_m ''unknown slashing offender'' m
      | Some v \<Rightarrow>
          let amount = (case penalty of None \<Rightarrow> v_stake v | Some x \<Rightarrow> x) in
          thenS (\<lambda>m. case settlement m of
              None \<Rightarrow> (Inr (), m)
            | Some _ \<Rightarrow> (case map_of (validator_bonds m) (se_offender ev) of
                None \<Rightarrow> raise_m ''validator has no settlement bond'' m
              | Some bid \<Rightarrow> on_settlement (settle_slash cr bid amount (se_epoch ev) (se_id ev) None) m))
            (\<lambda>_ m1.
              if se_epoch ev > m_epoch m1 then raise_m ''slash evidence is from a future epoch'' m1
              else if amount \<le> 0 then raise_m ''slash penalty must be positive'' m1
              else (let new_stake = max 0 (v_stake v - amount);
                        updated = v\<lparr>v_stake := new_stake, v_active := new_stake > 0 \<and> \<not> v_jailed v,
                                    v_jailed := new_stake = 0 \<or> v_jailed v\<rparr>
                    in (Inr updated, refresh cr (set_record (se_offender ev) updated
                          (m1\<lparr>slash_history := AList.update (se_id ev) ev (slash_history m1)\<rparr>))))) m))"

definition penalize_non_reveal ::
  "crypto \<Rightarrow> string \<Rightarrow> int \<Rightarrow> int \<Rightarrow> int \<Rightarrow> manager \<Rightarrow> validator_record m_outcome" where
  "penalize_non_reveal cr vid ep rnd penalty m =
     (if ep \<noteq> m_epoch m then raise_m ''non-reveal epoch is not current'' m
      else if penalty \<le> 0 then raise_m ''non-reveal penalty must be positive'' m
      else (case map_of (m_records m) vid of
        None \<Rightarrow> raise_m ''unknown non-revealing validator'' m
      | Some v \<Rightarrow>
          let eid = digest cr (JObj [(''protocol'', JStr ''MOSAIC/NON-REVEAL/v1''),
                (''validator_id'', JStr vid), (''epoch'', JInt ep), (''round'', JInt rnd)]) in
          if eid \<in> non_reveal_history m then raise_m ''non-reveal penalty already applied'' m
          else (let new_stake = max 0 (v_stake v - penalty);
                    updated = v\<lparr>v_stake := new_stake, v_active := new_stake > 0 \<and> v_active v,
                                v_jailed := new_stake = 0 \<or> v_jailed v\<rparr>
                in (Inr updated, refresh cr (set_record vid updated
                      (m\<lparr>non_reveal_history := insert eid (non_reveal_history m)\<rparr>))))))"

text \<open>The epoch counter has moved already when \<open>fromhex\<close> or \<open>to_bytes\<close> raises.\<close>

definition advance_epoch :: "crypto \<Rightarrow> manager \<Rightarrow> membership_snapshot m_outcome" where
  "advance_epoch cr m =
     (let m1 = m\<lparr>m_epoch := m_epoch m + 1\<rparr> in
      case fromhex (sn_root (m_snapshot m)) of
        None \<Rightarrow> (Inl HexError, m1)
      | Some root \<Rightarrow> (case to_bytes8 (m_epoch m1) of
          Inl e \<Rightarrow> (Inl e, m1)
        | Inr ebytes \<Rightarrow>
            (let m2 = refresh cr (m1\<lparr>m_seed :=
                   sha256 cr (''MOSAIC/EPOCH-SEED/v1'' @ m_seed m1 @ root @ ebytes)\<rparr>)
             in (Inr (m_snapshot m2), m2))))"

end
