(* ===== verification/Selection.thy ===== *)
theory Selection
  imports Membership "HOL-Library.Product_Lexorder"
begin

section \<open>Randomness and committee selection (mosaic/membership.py)\<close>

text \<open>
  Commitments, reveals and the beacon made of them, the stake-weighted tickets of a snapshot, the
  selection of a committee and its verification.
\<close>

record randomness_commitment =
  rc_validator_id :: string
  rc_epoch :: int
  rc_round :: int
  rc_commitment :: string
  rc_signature :: string

definition commit_fields :: "string \<Rightarrow> int \<Rightarrow> int \<Rightarrow> string \<Rightarrow> json" where
  "commit_fields vid ep rnd com = JObj
     [(''protocol'', JStr ''MOSAIC/RANDOMNESS-COMMIT/v1''), (''validator_id'', JStr vid),
      (''epoch'', JInt ep), (''round'', JInt rnd), (''commitment'', JStr com)]"

definition commitment_of :: "crypto \<Rightarrow> string \<Rightarrow> string" where
  "commitment_of cr secret = hex (sha256 cr (''MOSAIC/RANDOMNESS-COMMIT/v1'' @ secret))"

definition commitment_create ::
  "crypto \<Rightarrow> keypair \<Rightarrow> int \<Rightarrow> int \<Rightarrow> string \<Rightarrow> string option \<Rightarrow> randomness_commitment" where
  "commitment_create cr kp ep rnd secret vid =
     (let mid = (case vid of None \<Rightarrow> identity cr kp | Some v \<Rightarrow> v); com = commitment_of cr secret
      in \<lparr>rc_validator_id = mid, rc_epoch = ep, rc_round = rnd, rc_commitment = com,
          rc_signature = sign cr kp (canonical_bytes (commit_fields mid ep rnd com))\<rparr>)"

definition commitment_statement :: "randomness_commitment \<Rightarrow> json" where
  "commitment_statement c = commit_fields (rc_validator_id c) (rc_epoch c) (rc_round c) (rc_commitment c)"

record randomness_reveal =
  rr_validator_id :: string
  rr_epoch :: int
  rr_round :: int
  rr_secret :: string
  rr_commitment :: string
  rr_signature :: string

definition reveal_fields :: "string \<Rightarrow> int \<Rightarrow> int \<Rightarrow> string \<Rightarrow> string \<Rightarrow> json" where
  "reveal_fields vid ep rnd secret com = JObj
     [(''protocol'', JStr ''MOSAIC/RANDOMNESS-REVEAL/v1''), (''validator_id'', JStr vid),
      (''epoch'', JInt ep), (''round'', JInt rnd), (''secret'', JStr (hex secret)),
      (''commitment'', JStr com)]"

definition reveal_create ::
  "crypto \<Rightarrow> keypair \<Rightarrow> int \<Rightarrow> int \<Rightarrow> string \<Rightarrow> string \<Rightarrow> string option \<Rightarrow> randomness_reveal" where
  "reveal_create cr kp ep rnd secret com vid =
     (let mid = (case vid of None \<Rightarrow> identity cr kp | Some v \<Rightarrow> v)
      in \<lparr>rr_validator_id = mid, rr_epoch = ep, rr_round = rnd, rr_secret = secret, rr_commitment = com,
          rr_signature = sign cr kp (canonical_bytes (reveal_fields mid ep rnd secret com))\<rparr>)"

definition reveal_statement :: "randomness_reveal \<Rightarrow> json" where
  "reveal_statement r =
     reveal_fields (rr_validator_id r) (rr_epoch r) (rr_round r) (rr_secret r) (rr_commitment r)"

record randomness_beacon =
  rb_epoch :: int
  rb_round :: int
  rb_reveal_ids :: "string list"
  rb_value :: string
  rb_proof_id :: string
  rb_mode :: string
  rb_commitment_ids :: "string list"

definition reveal_payload :: "int \<Rightarrow> int \<Rightarrow> string list \<Rightarrow> string \<Rightarrow> json" where
  "reveal_payload ep rnd ids v = JObj
     [(''protocol'', JStr ''MOSAIC/RANDOMNESS-BEACON/v1''), (''epoch'', JInt ep), (''round'', JInt rnd),
      (''reveal_ids'', JArr (map JStr ids)), (''beacon_value'', JStr (hex v))]"

definition fallback_payload :: "int \<Rightarrow> int \<Rightarrow> string list \<Rightarrow> string \<Rightarrow> json" where
  "fallback_payload ep rnd ids v = JObj
     [(''protocol'', JStr ''MOSAIC/RANDOMNESS-FALLBACK/v1''), (''epoch'', JInt ep), (''round'', JInt rnd),
      (''commitment_ids'', JArr (map JStr ids)), (''beacon_value'', JStr (hex v))]"

definition beacon_verify :: "crypto \<Rightarrow> randomness_beacon \<Rightarrow> bool" where
  "beacon_verify cr b \<longleftrightarrow>
     (if rb_mode b = ''reveal''
      then rb_reveal_ids b \<noteq> []
        \<and> rb_proof_id b = digest cr (reveal_payload (rb_epoch b) (rb_round b) (rb_reveal_ids b) (rb_value b))
      else if rb_mode b = ''commitment-fallback''
      then rb_commitment_ids b \<noteq> []
        \<and> rb_proof_id b = digest cr (fallback_payload (rb_epoch b) (rb_round b) (rb_commitment_ids b) (rb_value b))
      else False)"

subsection \<open>Making a beacon\<close>

text \<open>One turn of the loop over the reveals: the checks, then the stake it adds.\<close>

definition check_reveal ::
  "crypto \<Rightarrow> manager \<Rightarrow> int \<Rightarrow> (string, randomness_commitment) dict \<Rightarrow> string \<times> randomness_reveal \<Rightarrow>
   membership_error + int" where
  "check_reveal cr m rnd commitment_map kv =
     (let vid = fst kv; reveal = snd kv in
      case (map_of commitment_map vid, map_of (by_id (m_snapshot m)) vid) of
        (Some com, Some v) \<Rightarrow>
          if rc_epoch com \<noteq> m_epoch m \<or> rr_epoch reveal \<noteq> m_epoch m
          then Inl (MembershipError ''randomness epoch mismatch'')
          else if rc_round com \<noteq> rnd \<or> rr_round reveal \<noteq> rnd
          then Inl (MembershipError ''randomness round mismatch'')
          else if \<not> verify cr (v_public_key v) (canonical_bytes (commitment_statement com)) (rc_signature com)
          then Inl (MembershipError ''invalid randomness commitment signature'')
          else if \<not> verify cr (v_public_key v) (canonical_bytes (reveal_statement reveal)) (rr_signature reveal)
          then Inl (MembershipError ''invalid randomness reveal signature'')
          else if commitment_of cr (rr_secret reveal) \<noteq> rc_commitment com
               \<or> rr_commitment reveal \<noteq> rc_commitment com
          then Inl (MembershipError ''randomness reveal does not open commitment'')
          else Inr (v_stake v)
      | _ \<Rightarrow> Inl (MembershipError ''randomness reveal is not backed by active commitment''))"

fun sum_checked :: "('a \<Rightarrow> 'e + int) \<Rightarrow> 'a list \<Rightarrow> 'e + int" where
  "sum_checked f [] = Inr 0"
| "sum_checked f (x # xs) = bindE (f x) (\<lambda>w. bindE (sum_checked f xs) (\<lambda>s. Inr (w + s)))"

definition make_beacon ::
  "crypto \<Rightarrow> manager \<Rightarrow> randomness_commitment list \<Rightarrow> randomness_reveal list \<Rightarrow> int \<Rightarrow>
   membership_error + randomness_beacon" where
  "make_beacon cr m commitments reveals rnd =
     (let commitment_map = dict_of rc_validator_id commitments;
          reveal_map = dict_of rr_validator_id reveals in
      if reveal_map = [] then Inl (MembershipError ''randomness beacon has no reveals'')
      else bindE (sum_checked (check_reveal cr m rnd commitment_map) reveal_map) (\<lambda>w.
        if w < snapshot_threshold (m_snapshot m)
        then Inl (MembershipError ''insufficient randomness reveal weight'')
        else bindE (to_bytes8 rnd) (\<lambda>rbytes.
          let ids = sort (dict_keys reveal_map);
              secrets = map (\<lambda>i. rr_secret (the (map_of reveal_map i))) ids;
              value = sha256 cr (''MOSAIC/RANDOMNESS-BEACON/v1'' @ m_seed m @ rbytes @ concat secrets)
          in Inr \<lparr>rb_epoch = m_epoch m, rb_round = rnd, rb_reveal_ids = ids, rb_value = value,
                  rb_proof_id = digest cr (reveal_payload (m_epoch m) rnd ids value),
                  rb_mode = ''reveal'', rb_commitment_ids = []\<rparr>)))"

definition check_commitment ::
  "crypto \<Rightarrow> manager \<Rightarrow> int \<Rightarrow> string \<times> randomness_commitment \<Rightarrow> membership_error + int" where
  "check_commitment cr m rnd kv =
     (let vid = fst kv; com = snd kv in
      case map_of (by_id (m_snapshot m)) vid of
        None \<Rightarrow> Inl (MembershipError ''fallback commitment is not from active validator'')
      | Some v \<Rightarrow>
          if rc_epoch com \<noteq> m_epoch m \<or> rc_round com \<noteq> rnd
          then Inl (MembershipError ''fallback commitment epoch or round mismatch'')
          else if \<not> verify cr (v_public_key v) (canonical_bytes (commitment_statement com)) (rc_signature com)
          then Inl (MembershipError ''invalid fallback commitment signature'')
          else Inr (v_stake v))"

fun join_hex :: "string list \<Rightarrow> membership_error + string" where
  "join_hex [] = Inr []"
| "join_hex (s # ss) = (case fromhex s of None \<Rightarrow> Inl HexError
     | Some b \<Rightarrow> bindE (join_hex ss) (\<lambda>bs. Inr (b @ bs)))"

definition make_fallback_beacon ::
  "crypto \<Rightarrow> manager \<Rightarrow> randomness_commitment list \<Rightarrow> int \<Rightarrow> membership_error + randomness_beacon" where
  "make_fallback_beacon cr m commitments rnd =
     (let commitment_map = dict_of rc_validator_id commitments in
      if commitment_map = [] then Inl (MembershipError ''randomness fallback has no commitments'')
      else bindE (sum_checked (check_commitment cr m rnd) commitment_map) (\<lambda>w.
        if w < snapshot_threshold (m_snapshot m)
        then Inl (MembershipError ''insufficient commitment weight for randomness fallback'')
        else bindE (to_bytes8 rnd) (\<lambda>rbytes.
          let ids = sort (dict_keys commitment_map);
              coms = map (\<lambda>i. rc_commitment (the (map_of commitment_map i))) ids
          in bindE (join_hex coms) (\<lambda>joined.
             let value = sha256 cr (''MOSAIC/RANDOMNESS-FALLBACK/v1'' @ m_seed m @ rbytes @ joined)
             in Inr \<lparr>rb_epoch = m_epoch m, rb_round = rnd, rb_reveal_ids = [], rb_value = value,
                     rb_proof_id = digest cr (fallback_payload (m_epoch m) rnd ids value),
                     rb_mode = ''commitment-fallback'', rb_commitment_ids = ids\<rparr>))))"

subsection \<open>Tickets and committees\<close>

text \<open>\<open>int.from_bytes(b, "big")\<close>\<close>

definition int_of_bytes :: "string \<Rightarrow> int" where
  "int_of_bytes bs = foldl (\<lambda>a c. 256 * a + int (of_char c)) 0 bs"

type_synonym ticket = "int \<times> string \<times> int"

text \<open>\<open>slot\<close> counts a loop, so \<open>slot.to_bytes(8, "big")\<close> stays below its bound.\<close>

definition ticket_score :: "crypto \<Rightarrow> string \<Rightarrow> string \<Rightarrow> int \<Rightarrow> int" where
  "ticket_score cr seed vid slot =
     int_of_bytes (sha256 cr (''MOSAIC/TICKET/v1'' @ seed @ vid @ be8 slot))"

definition validator_tickets :: "crypto \<Rightarrow> int \<Rightarrow> string \<Rightarrow> validator_record \<Rightarrow> ticket list" where
  "validator_tickets cr maxt seed v =
     (if \<not> v_active v \<or> v_jailed v then []
      else map (\<lambda>i. (ticket_score cr seed (v_id v) (int i), v_id v, int i))
             [0..<nat (min (v_stake v) maxt)])"

definition tickets :: "crypto \<Rightarrow> manager \<Rightarrow> membership_snapshot \<Rightarrow> string option \<Rightarrow> ticket list" where
  "tickets cr m s seed =
     concat (map (validator_tickets cr (max_tickets m) (case seed of None \<Rightarrow> sn_seed s | Some x \<Rightarrow> x))
       (sn_validators s))"

text \<open>\<open>tuple(dict.fromkeys(xs))\<close>: duplicates removed, first occurrences kept.\<close>

definition fromkeys :: "'a list \<Rightarrow> 'a list" where
  "fromkeys xs = rev (remdups (rev xs))"

record selection_proof =
  sp_epoch :: int
  sp_size :: int
  sp_ids :: "string list"
  sp_tickets :: "(string \<times> int) list"
  sp_seed :: string
  sp_proof_id :: string
  sp_beacon_id :: "string option"

definition selection_payload ::
  "int \<Rightarrow> int \<Rightarrow> (string \<times> int) list \<Rightarrow> string \<Rightarrow> string option \<Rightarrow> json" where
  "selection_payload ep sz sel seed bid = JObj
     [(''protocol'', JStr ''MOSAIC/COMMITTEE/v1''), (''epoch'', JInt ep), (''size'', JInt sz),
      (''selected'', JArr (map (\<lambda>(v, s). JArr [JStr v, JInt s]) sel)), (''seed'', JStr (hex seed)),
      (''beacon_id'', case bid of None \<Rightarrow> JNull | Some b \<Rightarrow> JStr b)]"

text \<open>
  \<open>tickets[: min(committee_size, len(tickets))]\<close>. A negative bound, which only \<open>verify_selection\<close> can meet,
  counts from the end.
\<close>

definition py_take :: "int \<Rightarrow> 'a list \<Rightarrow> 'a list" where
  "py_take k xs = (if k \<ge> 0 then take (nat k) xs else take (nat (int (length xs) + k)) xs)"

definition lottery :: "crypto \<Rightarrow> manager \<Rightarrow> string \<Rightarrow> int \<Rightarrow> (string \<times> int) list" where
  "lottery cr m seed sz =
     (let ts = sort (tickets cr m (m_snapshot m) (Some seed))
      in map snd (py_take (min sz (int (length ts))) ts))"

definition select_committee ::
  "crypto \<Rightarrow> manager \<Rightarrow> int \<Rightarrow> randomness_beacon option \<Rightarrow> membership_error + selection_proof" where
  "select_committee cr m sz beacon =
     (if sz \<le> 0 then Inl (MembershipError ''committee size must be positive'')
      else if (case beacon of None \<Rightarrow> False | Some b \<Rightarrow> \<not> beacon_verify cr b \<or> rb_epoch b \<noteq> m_epoch m)
      then Inl (MembershipError ''invalid randomness beacon'')
      else (let seed = (case beacon of None \<Rightarrow> m_seed m | Some b \<Rightarrow> rb_value b);
                sel = lottery cr m seed sz;
                bid = map_option rb_proof_id beacon
            in Inr \<lparr>sp_epoch = m_epoch m, sp_size = sz, sp_ids = fromkeys (map fst sel),
                    sp_tickets = sel, sp_seed = seed,
                    sp_proof_id = digest cr (selection_payload (m_epoch m) sz sel seed bid),
                    sp_beacon_id = bid\<rparr>))"

definition verify_selection ::
  "crypto \<Rightarrow> manager \<Rightarrow> selection_proof \<Rightarrow> randomness_beacon option \<Rightarrow> bool" where
  "verify_selection cr m proof beacon =
     (if sp_epoch proof \<noteq> sn_epoch (m_snapshot m) then False
      else if (case sp_beacon_id proof of
          None \<Rightarrow> sp_seed proof \<noteq> sn_seed (m_snapshot m)
        | Some bid \<Rightarrow> (case beacon of
            None \<Rightarrow> True
          | Some b \<Rightarrow> \<not> beacon_verify cr b \<or> rb_proof_id b \<noteq> bid
              \<or> sp_seed proof \<noteq> rb_value b \<or> rb_epoch b \<noteq> sp_epoch proof))
      then False
      else (let expected = lottery cr m (sp_seed proof) (sp_size proof) in
        if expected \<noteq> sp_tickets proof then False
        else fromkeys (map fst expected) = sp_ids proof
          \<and> digest cr (selection_payload (sp_epoch proof) (sp_size proof) (sp_tickets proof)
              (sp_seed proof) (sp_beacon_id proof)) = sp_proof_id proof))"

end
