(* ===== verification/Membership_Props.thy ===== *)
theory Membership_Props
  imports Selection Safety
begin

section \<open>Invariants of membership, beacons and committees\<close>

text \<open>
  \<open>manager_ok\<close> is kept by every operation of the manager, on error paths too: records are filed
  under their validator, stakes are not negative, whoever votes has stake, and the published
  snapshot verifies. On such snapshots the \<open>committee\<close> interface is interpreted, which gives the
  overlap of any two beacons. Then the lottery: selection and its verification.
\<close>

definition record_ok :: "string \<Rightarrow> validator_record \<Rightarrow> bool" where
  "record_ok k v \<longleftrightarrow> v_id v = k \<and> 0 \<le> v_stake v \<and> (votes v \<longrightarrow> 0 < v_stake v)"

definition records_ok :: "manager \<Rightarrow> bool" where
  "records_ok m \<longleftrightarrow> wf_dict (m_records m) \<and> (\<forall>(k, v) \<in> set (m_records m). record_ok k v)"

definition snapshot_ok :: "crypto \<Rightarrow> membership_snapshot \<Rightarrow> bool" where
  "snapshot_ok cr s \<longleftrightarrow> snapshot_verify cr s \<and> distinct (map v_id (sn_validators s))
     \<and> (\<forall>v \<in> set (sn_validators s). record_ok (v_id v) v)"

definition manager_ok :: "crypto \<Rightarrow> manager \<Rightarrow> bool" where
  "manager_ok cr m \<longleftrightarrow> 0 < minimum_stake m \<and> records_ok m \<and> snapshot_ok cr (m_snapshot m)"

lemma build_snapshot_ok:
  assumes ok: "records_ok m"
  shows "snapshot_ok cr (build_snapshot cr m)"
proof -
  let ?vs = "sort_key v_id (dict_values (m_records m))"
  have ids: "map v_id (dict_values (m_records m)) = dict_keys (m_records m)"
    using ok by (auto simp: records_ok_def record_ok_def)
  have "distinct (map v_id ?vs)"
    using ok by (simp add: map_sort_key_id ids records_ok_def del: map_map)
  moreover have vs: "\<forall>v \<in> set ?vs. record_ok (v_id v) v"
    using ok by (auto simp: records_ok_def record_ok_def)
  moreover have "sort_key v_id (filter votes ?vs) = filter votes ?vs"
    by (rule sort_key_id_if_sorted) (simp add: sorted_filter)
  ultimately show ?thesis
    by (auto simp: snapshot_ok_def build_snapshot_def snapshot_verify_def Let_def record_ok_def)
qed

lemma refresh_ok:
  "0 < minimum_stake m \<Longrightarrow> records_ok m \<Longrightarrow> manager_ok cr (refresh cr m)"
proof -
  assume "0 < minimum_stake m" "records_ok m"
  moreover have "build_snapshot cr (refresh cr m) = build_snapshot cr m"
    by (simp add: build_snapshot_def refresh_def)
  ultimately show ?thesis
    using build_snapshot_ok [of m cr] by (simp add: manager_ok_def refresh_def records_ok_def)
qed

lemma set_record_ok:
  assumes ok: "records_ok m" and v: "record_ok k v"
  shows "records_ok (set_record k v m)"
  unfolding records_ok_def
proof
  show "wf_dict (m_records (set_record k v m))" using ok by (simp add: records_ok_def set_record_def)
  have "set (m_records (set_record k v m)) \<subseteq> insert (k, v) (set (m_records m))"
    using set_update_subset [of k v "m_records m"] by (simp add: set_record_def)
  with ok v show "\<forall>(k, v) \<in> set (m_records (set_record k v m)). record_ok k v"
    unfolding records_ok_def by blast
qed

lemma record_lookup: "manager_ok cr m \<Longrightarrow> map_of (m_records m) k = Some v \<Longrightarrow> record_ok k v"
  by (auto simp: manager_ok_def records_ok_def dest: map_of_SomeD)

text \<open>A changed manager with the same records, minimum and snapshot.\<close>

lemma manager_ok_same:
  "manager_ok cr m \<Longrightarrow> m_records m' = m_records m \<Longrightarrow> minimum_stake m' = minimum_stake m \<Longrightarrow>
   m_snapshot m' = m_snapshot m \<Longrightarrow> manager_ok cr m'"
  by (simp add: manager_ok_def records_ok_def)

lemma updated_ok:
  assumes "manager_ok cr m" "m_records m' = m_records m" "minimum_stake m' = minimum_stake m" "record_ok k v"
  shows "manager_ok cr (refresh cr (set_record k v m'))"
proof (rule refresh_ok)
  have "records_ok m'" using assms(1,2) by (simp add: manager_ok_def records_ok_def)
  then show "records_ok (set_record k v m')" by (rule set_record_ok [OF _ assms(4)])
  show "0 < minimum_stake (set_record k v m')" using assms(1,3) by (simp add: manager_ok_def set_record_def)
qed

lemma on_settlement_frame:
  "on_settlement f m = (r, m') \<Longrightarrow>
   m_records m' = m_records m \<and> minimum_stake m' = minimum_stake m \<and> m_snapshot m' = m_snapshot m
   \<and> m_epoch m' = m_epoch m \<and> validator_bonds m' = validator_bonds m \<and> deposits m' = deposits m
   \<and> withdrawal_delay m' = withdrawal_delay m \<and> slash_history m' = slash_history m"
  by (auto simp: on_settlement_def split: option.splits prod.splits sum.splits)

lemma keeps_same:
  assumes "\<And>m r m'. f m = (r, m') \<Longrightarrow> m_records m' = m_records m
    \<and> minimum_stake m' = minimum_stake m \<and> m_snapshot m' = m_snapshot m"
  shows "keeps (manager_ok cr) f"
  by (rule keepsI) (metis assms manager_ok_same)

subsection \<open>Every operation keeps the invariant\<close>

lemma raise_m_ok: "manager_ok cr m \<Longrightarrow> raise_m s m = (r, m') \<Longrightarrow> manager_ok cr m'"
  by (simp add: raise_m_def)

lemma new_record_ok: "manager_ok cr m \<Longrightarrow> minimum_stake m \<le> ar_stake r \<Longrightarrow> record_ok (ar_validator_id r) (new_record r)"
  by (auto simp: record_ok_def new_record_def manager_ok_def)

lemma restore_admission_ok:
  assumes ok: "manager_ok cr m" and call: "restore_admission cr r b m = (res, m')"
  shows "manager_ok cr m'"
proof (cases "is_ok res")
  case False
  with call have "m' = m" by (auto simp: restore_admission_def raise_m_def split: if_splits)
  with ok show ?thesis by simp
next
  case True
  let ?m = "m\<lparr>m_bonds := AList.update (sb_bond_id b) b (m_bonds m),
     validator_bonds := AList.update (ar_validator_id r) (sb_bond_id b) (validator_bonds m),
     deposits := insert (ar_deposit_id r) (deposits m)\<rparr>"
  from True call have m': "m' = refresh cr (set_record (ar_validator_id r) (new_record r) ?m)"
    and "minimum_stake m \<le> ar_stake r"
    by (auto simp: restore_admission_def raise_m_def split: if_splits)
  from new_record_ok [OF ok this(2)] show ?thesis unfolding m' by (intro updated_ok [OF ok]) simp_all
qed

lemma admit_bond_frame:
  assumes "admit_bond cr r bond m = (res, m')"
  shows "m_records m' = m_records m \<and> minimum_stake m' = minimum_stake m \<and> m_snapshot m' = m_snapshot m"
proof (cases bond)
  case None
  with assms show ?thesis by (simp add: admit_bond_def)
next
  case (Some b)
  show ?thesis
  proof (cases "bond_verify cr b \<and> sb_bond_id b = (case ar_bond_id r of Some (x # xs) \<Rightarrow> x # xs | _ \<Rightarrow> ar_deposit_id r)
      \<and> sb_owner_public_key b = ar_public_key r \<and> sb_amount b = ar_stake r \<and> sb_activation_epoch b \<le> m_epoch m")
    case False
    with Some assms show ?thesis by (auto simp: admit_bond_def raise_m_def split: if_splits)
  next
    case True
    with Some assms have "thenS (on_settlement (settle_bond cr b (m_epoch m))) (\<lambda>_ m1.
         (Inr (), m1\<lparr>m_bonds := AList.update (sb_bond_id b) b (m_bonds m1),
           validator_bonds := AList.update (ar_validator_id r) (sb_bond_id b) (validator_bonds m1)\<rparr>)) m = (res, m')"
      by (simp add: admit_bond_def)
    then show ?thesis
      by (cases rule: thenS_cases) (auto dest: on_settlement_frame)
  qed
qed

lemma admit_ok:
  assumes ok: "manager_ok cr m" and call: "admit cr r apps bond m = (res, m')"
  shows "manager_ok cr m'"
proof (cases "admission_verify cr r \<and> minimum_stake m \<le> ar_stake r \<and> m_epoch m \<le> ar_requested_epoch r
    \<and> \<not> (settlement m \<noteq> None \<and> bond = None) \<and> \<not> has_key (m_records m) (ar_validator_id r)
    \<and> ar_deposit_id r \<notin> deposits m")
  case False
  with call have "m' = m" by (auto simp: admit_def raise_m_def split: if_splits)
  with ok show ?thesis by simp
next
  case True
  from True call obtain u m1 where adm: "admit_bond cr r bond m = (u, m1)"
    and m': "m' = m1 \<or> m' = refresh cr (set_record (ar_validator_id r) (new_record r)
      (m1\<lparr>deposits := insert (ar_deposit_id r) (deposits m1)\<rparr>))"
    unfolding admit_def by (auto simp: Let_def elim!: thenS_cases)
  from admit_bond_frame [OF adm] have same: "m_records m1 = m_records m" "minimum_stake m1 = minimum_stake m"
    "m_snapshot m1 = m_snapshot m" by blast+
  from m' show ?thesis
  proof
    assume "m' = m1"
    with manager_ok_same [OF ok same] show ?thesis by simp
  next
    assume "m' = refresh cr (set_record (ar_validator_id r) (new_record r)
      (m1\<lparr>deposits := insert (ar_deposit_id r) (deposits m1)\<rparr>))"
    moreover from new_record_ok [OF ok, of r] True have "record_ok (ar_validator_id r) (new_record r)" by simp
    ultimately show ?thesis using same by (simp add: updated_ok [OF ok])
  qed
qed

lemma settlement_step_frame:
  assumes "(case settlement m of None \<Rightarrow> (Inr (), m)
     | Some _ \<Rightarrow> (case map_of (validator_bonds m) vid of
         None \<Rightarrow> raise_m msg m
       | Some bid \<Rightarrow> on_settlement (f bid) m)) = (r, m')"
  shows "m_records m' = m_records m \<and> minimum_stake m' = minimum_stake m \<and> m_snapshot m' = m_snapshot m
    \<and> m_epoch m' = m_epoch m \<and> withdrawal_delay m' = withdrawal_delay m"
  using assms
  by (cases "settlement m"; cases "map_of (validator_bonds m) vid")
     (auto simp: raise_m_def dest: on_settlement_frame)

lemma record_ok_inactive: "record_ok k v \<Longrightarrow> record_ok k (v\<lparr>v_active := False, v_locked_until := u\<rparr>)"
  by (simp add: record_ok_def votes_def)

lemma exit_validator_ok:
  assumes ok: "manager_ok cr m" and call: "exit_validator cr vid ep m = (res, m')"
  shows "manager_ok cr m'"
proof (cases "map_of (m_records m) vid = None \<or> (case ep of None \<Rightarrow> False | Some e \<Rightarrow> e < m_epoch m)")
  case True
  with call have "m' = m" by (auto simp: exit_validator_def raise_m_def split: option.splits if_splits)
  with ok show ?thesis by simp
next
  case False
  then obtain v where v: "map_of (m_records m) vid = Some v" by auto
  from False v call obtain u m1 where st: "(case settlement m of None \<Rightarrow> (Inr (), m)
     | Some _ \<Rightarrow> (case map_of (validator_bonds m) vid of
         None \<Rightarrow> raise_m ''validator has no settlement bond'' m
       | Some bid \<Rightarrow> on_settlement (request_unbond cr bid (m_epoch m) (withdrawal_delay m)) m)) = (u, m1)"
    and m': "m' = m1 \<or> m' = refresh cr (set_record vid
      (v\<lparr>v_active := False, v_locked_until := m_epoch m1 + withdrawal_delay m1\<rparr>) m1)"
    unfolding exit_validator_def by (auto simp: Let_def elim!: thenS_cases)
  from settlement_step_frame [OF st] have same: "m_records m1 = m_records m"
    "minimum_stake m1 = minimum_stake m" "m_snapshot m1 = m_snapshot m" by blast+
  from m' show ?thesis
  proof
    assume "m' = m1"
    with manager_ok_same [OF ok same] show ?thesis by simp
  next
    assume "m' = refresh cr (set_record vid
      (v\<lparr>v_active := False, v_locked_until := m_epoch m1 + withdrawal_delay m1\<rparr>) m1)"
    with updated_ok [OF ok same(1,2) record_ok_inactive [OF record_lookup [OF ok v]]] show ?thesis by simp
  qed
qed

lemma deleted_ok:
  assumes ok: "manager_ok cr m" and same: "m_records m1 = m_records m" "minimum_stake m1 = minimum_stake m"
  shows "manager_ok cr (refresh cr (m1\<lparr>m_records := AList.delete vid (m_records m1),
    validator_bonds := AList.delete vid (validator_bonds m1)\<rparr>))"
proof (rule refresh_ok)
  show "0 < minimum_stake (m1\<lparr>m_records := AList.delete vid (m_records m1),
    validator_bonds := AList.delete vid (validator_bonds m1)\<rparr>)"
    using ok same by (simp add: manager_ok_def)
  have "set (AList.delete vid (m_records m1)) \<subseteq> set (m_records m1)" 
    by (rule set_delete_subset)
  with ok same show "records_ok (m1\<lparr>m_records := AList.delete vid (m_records m1),
    validator_bonds := AList.delete vid (validator_bonds m1)\<rparr>)"
    unfolding manager_ok_def records_ok_def by (auto simp del: map_map)
qed

lemma withdraw_validator_ok:
  assumes ok: "manager_ok cr m" and call: "withdraw_validator cr vid cur m = (res, m')"
  shows "manager_ok cr m'"
proof (cases "map_of (m_records m) vid")
  case None
  with call ok show ?thesis by (simp add: withdraw_validator_def raise_m_def)
next
  case (Some v)
  let ?ep = "case cur of None \<Rightarrow> m_epoch m | Some e \<Rightarrow> e"
  have step: "m_records m1 = m_records m \<and> minimum_stake m1 = minimum_stake m \<and> m_snapshot m1 = m_snapshot m"
    if "(case settlement m of None \<Rightarrow> (Inr (), m)
     | Some _ \<Rightarrow> (case map_of (validator_bonds m) vid of
         None \<Rightarrow> raise_m ''validator has no settlement bond'' m
       | Some bid \<Rightarrow> (case on_settlement (settle_withdraw cr bid ?ep) m of
           (Inl e, m') \<Rightarrow> (Inl (settlement_message e), m') | (Inr u, m') \<Rightarrow> (Inr u, m')))) = (u, m1)" for u m1
    using that
    by (cases "settlement m"; cases "map_of (validator_bonds m) vid")
       (auto simp: raise_m_def dest!: on_settlement_frame split: prod.splits sum.splits)
  from call Some obtain u m1 where st: "m_records m1 = m_records m"
    "minimum_stake m1 = minimum_stake m" "m_snapshot m1 = m_snapshot m"
    and m': "m' = m1 \<or> m' = refresh cr (m1\<lparr>m_records := AList.delete vid (m_records m1),
      validator_bonds := AList.delete vid (validator_bonds m1)\<rparr>)"
    unfolding withdraw_validator_def
    by (auto simp: Let_def raise_m_def dest!: step elim!: thenS_cases split: if_splits)
  from m' manager_ok_same [OF ok st] deleted_ok [OF ok st(1,2), of vid] show ?thesis by blast
qed

lemma slash_validator_ok:
  assumes ok: "manager_ok cr m" and call: "slash_validator cr ev penalty m = (res, m')"
  shows "manager_ok cr m'"
proof (cases "\<not> slash_evidence_verify cr ev \<or> has_key (slash_history m) (se_id ev)
    \<or> map_of (m_records m) (se_offender ev) = None")
  case True
  with call have "m' = m" by (auto simp: slash_validator_def raise_m_def split: option.splits if_splits)
  with ok show ?thesis by simp
next
  case False
  then obtain v where v: "map_of (m_records m) (se_offender ev) = Some v" by auto
  define amount where "amount = (case penalty of None \<Rightarrow> v_stake v | Some x \<Rightarrow> x)"
  define updated where "updated = v\<lparr>v_stake := max 0 (v_stake v - amount),
    v_active := max 0 (v_stake v - amount) > 0 \<and> \<not> v_jailed v,
    v_jailed := max 0 (v_stake v - amount) = 0 \<or> v_jailed v\<rparr>"
  from False v call obtain u m1 where st: "(case settlement m of None \<Rightarrow> (Inr (), m)
     | Some _ \<Rightarrow> (case map_of (validator_bonds m) (se_offender ev) of
         None \<Rightarrow> raise_m ''validator has no settlement bond'' m
       | Some bid \<Rightarrow> on_settlement (settle_slash cr bid amount (se_epoch ev) (se_id ev) None) m)) = (u, m1)"
    and m': "m' = m1 \<or> m' = refresh cr (set_record (se_offender ev) updated
      (m1\<lparr>slash_history := AList.update (se_id ev) ev (slash_history m1)\<rparr>))"
    unfolding slash_validator_def
    by (auto simp: Let_def raise_m_def amount_def [symmetric] updated_def elim!: thenS_cases split: if_splits)
  from settlement_step_frame [OF st] have same: "m_records m1 = m_records m"
    "minimum_stake m1 = minimum_stake m" "m_snapshot m1 = m_snapshot m" by blast+
  have "record_ok (se_offender ev) updated"
    using record_lookup [OF ok v] by (simp add: record_ok_def updated_def votes_def)
  with m' manager_ok_same [OF ok same] same show ?thesis by (auto intro: updated_ok [OF ok])
qed

lemma penalize_non_reveal_ok:
  assumes ok: "manager_ok cr m" and call: "penalize_non_reveal cr vid ep rnd penalty m = (res, m')"
  shows "manager_ok cr m'"
proof (cases "is_ok res")
  case False
  with call have "m' = m"
    by (auto simp: penalize_non_reveal_def raise_m_def Let_def split: option.splits if_splits)
  with ok show ?thesis by simp
next
  case True
  with call obtain v H where v: "map_of (m_records m) vid = Some v"
    and m': "m' = refresh cr (set_record vid (v\<lparr>v_stake := max 0 (v_stake v - penalty),
      v_active := max 0 (v_stake v - penalty) > 0 \<and> v_active v,
      v_jailed := max 0 (v_stake v - penalty) = 0 \<or> v_jailed v\<rparr>) (m\<lparr>non_reveal_history := H\<rparr>))"
    by (auto simp: penalize_non_reveal_def raise_m_def Let_def split: option.splits if_splits)
  have "record_ok vid (v\<lparr>v_stake := max 0 (v_stake v - penalty),
      v_active := max 0 (v_stake v - penalty) > 0 \<and> v_active v,
      v_jailed := max 0 (v_stake v - penalty) = 0 \<or> v_jailed v\<rparr>)"
    using record_lookup [OF ok v] by (simp add: record_ok_def votes_def)
  then show ?thesis unfolding m' by (intro updated_ok [OF ok]) simp_all
qed

lemma advance_epoch_ok:
  assumes ok: "manager_ok cr m" and call: "advance_epoch cr m = (res, m')"
  shows "manager_ok cr m'"
proof (cases res)
  case (Inl e)
  with call have "m' = m\<lparr>m_epoch := m_epoch m + 1\<rparr>"
    by (auto simp: advance_epoch_def Let_def split: option.splits sum.splits)
  with manager_ok_same [OF ok, of m'] show ?thesis by simp
next
  case (Inr s)
  with call obtain seed where m': "m' = refresh cr (m\<lparr>m_epoch := m_epoch m + 1, m_seed := seed\<rparr>)"
    by (auto simp: advance_epoch_def Let_def split: option.splits sum.splits)
  show ?thesis unfolding m'
    by (rule refresh_ok) (use ok in \<open>simp_all add: manager_ok_def records_ok_def\<close>)
qed

datatype manager_call =
    Restore admission_request stake_bond
  | Admit admission_request "string list" "stake_bond option"
  | Exit string "int option"
  | WithdrawStake string "int option"
  | SlashStake slash_evidence "int option"
  | Penalize string int int int
  | Advance

definition after :: "'a m_outcome \<Rightarrow> manager" where
  "after out = snd out"

definition manage :: "crypto \<Rightarrow> manager_call \<Rightarrow> manager \<Rightarrow> manager" where
  "manage cr call m = (case call of
     Restore r b \<Rightarrow> after (restore_admission cr r b m)
   | Admit r apps bond \<Rightarrow> after (admit cr r apps bond m)
   | Exit vid ep \<Rightarrow> after (exit_validator cr vid ep m)
   | WithdrawStake vid cur \<Rightarrow> after (withdraw_validator cr vid cur m)
   | SlashStake ev penalty \<Rightarrow> after (slash_validator cr ev penalty m)
   | Penalize vid ep rnd penalty \<Rightarrow> after (penalize_non_reveal cr vid ep rnd penalty m)
   | Advance \<Rightarrow> after (advance_epoch cr m))"

lemma manage_ok: "manager_ok cr m \<Longrightarrow> manager_ok cr (manage cr call m)"
  unfolding manage_def after_def
  by (cases call) (auto intro: restore_admission_ok admit_ok exit_validator_ok withdraw_validator_ok
      slash_validator_ok penalize_non_reveal_ok advance_epoch_ok prod.collapse [symmetric])

lemma manager_init_ok: "0 < mins \<Longrightarrow> manager_ok cr (manager_init cr seed mins maxt delay led)"
  unfolding manager_init_def by (rule refresh_ok) (simp_all add: records_ok_def)

text \<open>
  C19. Membership stays sound: whatever calls a new manager with a positive minimum stake has
  served, failed ones included, its published snapshot verifies, names each validator once, and
  every validator that votes has positive stake.
\<close>

theorem membership_invariant:
  assumes "0 < mins" "m = fold (manage cr) calls (manager_init cr seed mins maxt delay led)"
  shows "snapshot_verify cr (m_snapshot m) \<and> distinct (map v_id (sn_validators (m_snapshot m)))
    \<and> list_all (\<lambda>v. 0 < v_stake v) (filter votes (sn_validators (m_snapshot m)))"
proof -
  have "manager_ok cr (fold (manage cr) calls m0)" if "manager_ok cr m0" for m0
    using that by (induction calls arbitrary: m0) (simp_all add: manage_ok)
  from this [OF manager_init_ok [OF assms(1)]] assms(2) have "manager_ok cr m" by simp
  then show ?thesis by (auto simp: manager_ok_def snapshot_ok_def record_ok_def list_all_iff)
qed

theorem membership_invariant_witness:
  "snapshot_verify demo_crypto (m_snapshot (manage demo_crypto Advance (manager_init demo_crypto ''s'' 1 5 2 None)))"
  using membership_invariant [OF zero_less_one refl, of demo_crypto "[Advance]" "''s''" 5 2 None] by simp

subsection \<open>Beacons and the quorum of a snapshot\<close>

definition voter_ids :: "membership_snapshot \<Rightarrow> string set" where
  "voter_ids s = v_id ` {v \<in> set (sn_validators s). votes v}"

definition stake_in :: "membership_snapshot \<Rightarrow> string \<Rightarrow> int" where
  "stake_in s vid = (case map_of (by_id s) vid of None \<Rightarrow> 0 | Some v \<Rightarrow> v_stake v)"

definition wf_snapshot :: "membership_snapshot \<Rightarrow> bool" where
  "wf_snapshot s \<longleftrightarrow> distinct (map v_id (sn_validators s)) \<and> (\<forall>v \<in> set (sn_validators s). 0 \<le> v_stake v)"

lemma by_id_distinct:
  assumes "wf_snapshot s"
  shows "by_id s = map (\<lambda>v. (v_id v, v)) (filter votes (sn_validators s))"
  unfolding by_id_def by (rule dict_of_distinct) (use assms in \<open>simp add: wf_snapshot_def distinct_map_filter\<close>)

lemma stake_in_voter:
  assumes "wf_snapshot s" "v \<in> set (sn_validators s)" "votes v"
  shows "stake_in s (v_id v) = v_stake v"
proof -
  have "map_of (by_id s) (v_id v) = Some v"
    unfolding by_id_distinct [OF assms(1)]
    by (rule map_of_is_SomeI) (use assms in \<open>auto simp: comp_def wf_snapshot_def distinct_map_filter\<close>)
  then show ?thesis by (simp add: stake_in_def)
qed

lemma total_stake_as_sum:
  assumes wf: "wf_snapshot s"
  shows "total_stake s = (\<Sum>i \<in> voter_ids s. stake_in s i)"
proof -
  let ?vs = "filter votes (sn_validators s)"
  have d: "distinct (map v_id ?vs)" using wf by (simp add: wf_snapshot_def distinct_map_filter)
  have "map v_stake ?vs = map (stake_in s) (map v_id ?vs)"
    using stake_in_voter [OF wf] by simp
  then have "total_stake s = sum_list (map (stake_in s) (map v_id ?vs))" by (simp add: total_stake_def del: map_map map_eq_conv)
  also have "\<dots> = (\<Sum>i \<in> set (map v_id ?vs). stake_in s i)"
    by (rule sum_list_distinct_conv_sum_set [OF d])
  also have "set (map v_id ?vs) = voter_ids s" by (simp add: voter_ids_def)
  finally show ?thesis .
qed

interpretation snapshot: committee wf_snapshot voter_ids stake_in snapshot_threshold
proof unfold_locales
  fix s i
  assume wf: "wf_snapshot s"
  show "finite (voter_ids s)" by (simp add: voter_ids_def)
  show "0 \<le> stake_in s i" if "i \<in> voter_ids s"
    using that stake_in_voter [OF wf] wf by (auto simp: voter_ids_def wf_snapshot_def)
  show "snapshot_threshold s = 2 * (\<Sum>i \<in> voter_ids s. stake_in s i) div 3 + 1"
    by (simp add: snapshot_threshold_def total_stake_as_sum [OF wf])
qed

lemma by_id_lookup:
  assumes "map_of (by_id s) vid = Some v"
  shows "vid \<in> voter_ids s" "v_id v = vid" "stake_in s vid = v_stake v"
proof -
  from map_of_SomeD [OF assms] have "vid = v_id v" "v \<in> set (filter votes (sn_validators s))"
    unfolding by_id_def by (auto dest: set_dict_of)
  then show "vid \<in> voter_ids s" "v_id v = vid" by (auto simp: voter_ids_def)
  from assms show "stake_in s vid = v_stake v" by (simp add: stake_in_def)
qed

lemma sum_checked_Inr:
  "sum_checked f xs = Inr w \<Longrightarrow> (\<forall>x \<in> set xs. \<exists>k. f x = Inr k)
   \<and> w = sum_list (map (\<lambda>x. case f x of Inr k \<Rightarrow> k | Inl _ \<Rightarrow> 0) xs)"
  by (induction xs arbitrary: w) (auto simp: bindE_Inr_iff)

lemma check_reveal_Inr:
  assumes "check_reveal cr m rnd cm kv = Inr w"
  shows "fst kv \<in> voter_ids (m_snapshot m) \<and> w = stake_in (m_snapshot m) (fst kv)
    \<and> (\<exists>com. map_of cm (fst kv) = Some com \<and> commitment_of cr (rr_secret (snd kv)) = rc_commitment com
         \<and> rc_epoch com = m_epoch m \<and> rc_round com = rnd)"
  using assms by_id_lookup [of "m_snapshot m" "fst kv"]
  by (auto simp: check_reveal_def Let_def split: option.splits if_splits)

lemma check_commitment_Inr:
  assumes "check_commitment cr m rnd kv = Inr w"
  shows "fst kv \<in> voter_ids (m_snapshot m) \<and> w = stake_in (m_snapshot m) (fst kv)"
  using assms by_id_lookup [of "m_snapshot m" "fst kv"]
  by (auto simp: check_commitment_def Let_def split: option.splits if_splits)

lemma checked_weight:
  assumes chk: "sum_checked f d = Inr w" and wf: "wf_dict d"
    and f: "\<And>kv k. f kv = Inr k \<Longrightarrow> fst kv \<in> voter_ids s \<and> k = stake_in s (fst kv)"
  shows "set (dict_keys d) \<subseteq> voter_ids s \<and> w = (\<Sum>i \<in> set (dict_keys d). stake_in s i)"
proof -
  note all = sum_checked_Inr [OF chk]
  then have "(case f kv of Inr k \<Rightarrow> k | Inl _ \<Rightarrow> 0) = stake_in s (fst kv)" if "kv \<in> set d" for kv
    using that f by fastforce
  then have "w = sum_list (map (\<lambda>kv. stake_in s (fst kv)) d)" using all by (metis (no_types, lifting) map_cong)
  also have "\<dots> = sum_list (map (stake_in s) (dict_keys d))" by (simp add: comp_def)
  also have "\<dots> = (\<Sum>i \<in> set (dict_keys d). stake_in s i)" by (rule sum_list_distinct_conv_sum_set [OF wf])
  finally have "w = (\<Sum>i \<in> set (dict_keys d). stake_in s i)" .
  moreover have "set (dict_keys d) \<subseteq> voter_ids s"
  proof
    fix i
    assume "i \<in> set (dict_keys d)"
    then obtain kv where kv: "kv \<in> set d" "fst kv = i" by auto
    from all kv(1) obtain k where "f kv = Inr k" by blast
    with f kv(2) show "i \<in> voter_ids s" by blast
  qed
  ultimately show ?thesis by blast
qed

lemma make_beacon_Inr:
  assumes "make_beacon cr m commitments reveals rnd = Inr b"
  shows "beacon_verify cr b \<and> rb_epoch b = m_epoch m \<and> set (rb_reveal_ids b) \<subseteq> voter_ids (m_snapshot m)
    \<and> snapshot_threshold (m_snapshot m) \<le> (\<Sum>i \<in> set (rb_reveal_ids b). stake_in (m_snapshot m) i)
    \<and> set (rb_reveal_ids b) = rr_validator_id ` set reveals"
proof -
  let ?rm = "dict_of rr_validator_id reveals"
  from assms obtain w where ne: "?rm \<noteq> []"
    and chk: "sum_checked (check_reveal cr m rnd (dict_of rc_validator_id commitments)) ?rm = Inr w"
    and wt: "snapshot_threshold (m_snapshot m) \<le> w"
    and ids: "rb_reveal_ids b = sort (dict_keys ?rm)" and mode: "rb_mode b = ''reveal''"
    and ep: "rb_epoch b = m_epoch m"
    and pid: "rb_proof_id b = digest cr (reveal_payload (rb_epoch b) (rb_round b) (rb_reveal_ids b) (rb_value b))"
    by (auto simp: make_beacon_def Let_def bindE_Inr_iff split: if_splits)
  have "set (dict_keys ?rm) \<subseteq> voter_ids (m_snapshot m)
      \<and> w = (\<Sum>i \<in> set (dict_keys ?rm). stake_in (m_snapshot m) i)"
    by (rule checked_weight [OF chk wf_dict_of]) (use check_reveal_Inr in blast)
  moreover have "rb_reveal_ids b \<noteq> []"
    unfolding ids using ne by (metis length_0_conv length_map length_sort)
  moreover have "set (dict_keys ?rm) = rr_validator_id ` set reveals" by (rule keys_dict_of)
  ultimately show ?thesis using wt ids mode ep pid by (simp add: beacon_verify_def)
qed

text \<open>
  A beacon needs a quorum: what \<open>make_beacon\<close> returns verifies, belongs to the current epoch,
  and was revealed by voting validators whose stake reaches the threshold of the snapshot; so
  any two beacons of one snapshot share a revealing validator outside any set that holds at most
  a third of the stake.
\<close>

theorem beacon_quorum:
  assumes "wf_snapshot (m_snapshot m)"
    and "make_beacon cr m cs1 rs1 rnd1 = Inr b1" "make_beacon cr m cs2 rs2 rnd2 = Inr b2"
    and "F \<subseteq> voter_ids (m_snapshot m)"
      "3 * (\<Sum>i \<in> F. stake_in (m_snapshot m) i) \<le> total_stake (m_snapshot m)"
  shows "beacon_verify cr b1 \<and> rb_epoch b1 = m_epoch m
    \<and> snapshot_threshold (m_snapshot m) \<le> (\<Sum>i \<in> set (rb_reveal_ids b1). stake_in (m_snapshot m) i)
    \<and> (\<exists>h. h \<in> set (rb_reveal_ids b1) \<and> h \<in> set (rb_reveal_ids b2) \<and> h \<notin> F)"
proof -
  note b1 = make_beacon_Inr [OF assms(2)] and b2 = make_beacon_Inr [OF assms(3)]
  have A: "set (rb_reveal_ids b1) \<subseteq> voter_ids (m_snapshot m)"
    "snapshot_threshold (m_snapshot m) \<le> (\<Sum>i \<in> set (rb_reveal_ids b1). stake_in (m_snapshot m) i)"
    using b1 by blast+
  have B: "set (rb_reveal_ids b2) \<subseteq> voter_ids (m_snapshot m)"
    "snapshot_threshold (m_snapshot m) \<le> (\<Sum>i \<in> set (rb_reveal_ids b2). stake_in (m_snapshot m) i)"
    using b2 by blast+
  obtain h where "h \<in> set (rb_reveal_ids b1)" "h \<in> set (rb_reveal_ids b2)" "h \<notin> F"
    using snapshot.honest_overlap [OF assms(1) A(1) B(1) A(2) B(2) assms(4)]
      assms(5) [unfolded total_stake_as_sum [OF assms(1)]] by blast
  with b1 A show ?thesis by blast
qed

definition demo_manager :: manager where
  "demo_manager = set_record ''v'' \<lparr>v_id = ''v'', v_public_key = ''k'', v_stake = 10, v_deposit_id = ''d'',
     v_active = True, v_locked_until = 0, v_jailed = False\<rparr> (manager_init demo_crypto ''s'' 1 5 2 None)"

lemma demo_beacon:
  "\<exists>b. make_beacon demo_crypto (refresh demo_crypto demo_manager)
     [commitment_create demo_crypto \<lparr>private_bytes = ''k''\<rparr> 0 0 ''x'' (Some ''v'')]
     [reveal_create demo_crypto \<lparr>private_bytes = ''k''\<rparr> 0 0 ''x'' (commitment_of demo_crypto ''x'') (Some ''v'')] 0
   = Inr b"
  by (simp add: make_beacon_def dict_of_def commitment_create_def reveal_create_def Let_def check_reveal_def
      refresh_def build_snapshot_def demo_manager_def set_record_def manager_init_def by_id_def votes_def
      snapshot_threshold_def total_stake_def to_bytes8_def)

lemma demo_snapshot_wf: "wf_snapshot (m_snapshot (refresh demo_crypto demo_manager))"
  by (simp add: wf_snapshot_def refresh_def build_snapshot_def demo_manager_def set_record_def manager_init_def Let_def)

theorem beacon_quorum_witness:
  "\<exists>b. make_beacon demo_crypto (refresh demo_crypto demo_manager)
     [commitment_create demo_crypto \<lparr>private_bytes = ''k''\<rparr> 0 0 ''x'' (Some ''v'')]
     [reveal_create demo_crypto \<lparr>private_bytes = ''k''\<rparr> 0 0 ''x'' (commitment_of demo_crypto ''x'') (Some ''v'')] 0
   = Inr b \<and> beacon_verify demo_crypto b \<and> (\<exists>h. h \<in> set (rb_reveal_ids b))"
proof -
  obtain b where b: "make_beacon demo_crypto (refresh demo_crypto demo_manager)
     [commitment_create demo_crypto \<lparr>private_bytes = ''k''\<rparr> 0 0 ''x'' (Some ''v'')]
     [reveal_create demo_crypto \<lparr>private_bytes = ''k''\<rparr> 0 0 ''x'' (commitment_of demo_crypto ''x'') (Some ''v'')] 0
   = Inr b" using demo_beacon by blast
  have "0 \<le> total_stake (m_snapshot (refresh demo_crypto demo_manager))"
    by (simp add: total_stake_def refresh_def build_snapshot_def demo_manager_def set_record_def
        manager_init_def Let_def votes_def)
  with beacon_quorum [OF demo_snapshot_wf b b, of "{}"] b show ?thesis by auto
qed

end
