(* ===== verification/Economics_Props.thy ===== *)
theory Economics_Props
  imports Economics "HOL-Library.Multiset"
begin

section \<open>Conservation and solvency of the settlement ledger\<close>

text \<open>
  \<open>total_value\<close> is everything the ledger holds: balances plus bonded stake. \<open>ledger_ok\<close> is the
  code's \<open>audit\<close> with the shape its constructor and dictionaries guarantee. Every operation keeps
  \<open>ledger_ok\<close>, on its error paths too; a successful one changes the total by what it mints, and
  an operation that raises never increases it.
\<close>

definition total_value :: "ledger \<Rightarrow> int" where
  "total_value l = dict_sum (\<lambda>a. a) (balances l) + dict_sum pos_amount (bonds l)"

definition ledger_ok :: "ledger \<Rightarrow> bool" where
  "ledger_ok l \<longleftrightarrow> audit l \<and> wf_dict (balances l) \<and> wf_dict (bonds l) \<and> l_treasury l \<noteq> []
     \<and> 0 \<le> reporter_bps l \<and> reporter_bps l \<le> 10000"

lemma ledger_init_ok: "ledger_init ast tre bps = Inr l \<Longrightarrow> ledger_ok l \<and> total_value l = 0"
  by (auto simp: ledger_init_def ledger_ok_def audit_def total_value_def split: if_splits)

lemma balance_nonneg: "ledger_ok l \<Longrightarrow> 0 \<le> balance_of l acct"
  by (force simp: ledger_ok_def audit_def balance_of_def split: option.splits dest: map_of_SomeD)

lemma position_ok:
  "ledger_ok l \<Longrightarrow> map_of (bonds l) bid = Some q \<Longrightarrow>
   0 \<le> pos_amount q \<and> pos_asset q = l_asset l \<and> \<not> (pos_active q \<and> pos_unbonding q)"
  by (force simp: ledger_ok_def audit_def dest: map_of_SomeD)

subsection \<open>The steps an operation is made of\<close>

text \<open>\<open>changes d m\<close>: under \<open>ledger_ok\<close>, \<open>m\<close> keeps it, a return changes the total by \<open>d\<close>,
  an exception leaves at most \<open>e\<close> more than before.\<close>

definition changes :: "int \<Rightarrow> int \<Rightarrow> (ledger \<Rightarrow> 'a l_outcome) \<Rightarrow> bool" where
  "changes d e m \<longleftrightarrow> (\<forall>l r l'. ledger_ok l \<longrightarrow> m l = (r, l') \<longrightarrow> ledger_ok l'
     \<and> (if is_ok r then total_value l' = total_value l + d else total_value l' \<le> total_value l + e)
     \<and> l_treasury l' = l_treasury l \<and> l_asset l' = l_asset l)"

lemma changesI:
  assumes "\<And>l r l'. ledger_ok l \<Longrightarrow> m l = (r, l') \<Longrightarrow> ledger_ok l'
     \<and> (if is_ok r then total_value l' = total_value l + d else total_value l' \<le> total_value l + e)
     \<and> l_treasury l' = l_treasury l \<and> l_asset l' = l_asset l"
  shows "changes d e m"
  using assms unfolding changes_def by blast

lemma changesD:
  "changes d e m \<Longrightarrow> ledger_ok l \<Longrightarrow> m l = (r, l') \<Longrightarrow> ledger_ok l'
     \<and> (if is_ok r then total_value l' = total_value l + d else total_value l' \<le> total_value l + e)
     \<and> l_treasury l' = l_treasury l \<and> l_asset l' = l_asset l"
  unfolding changes_def by blast

lemma changes_then:
  assumes "changes d1 e1 m" "\<And>a. changes d2 e2 (f a)" "d = d1 + d2" "e1 \<le> e" "d1 + e2 \<le> e"
  shows "changes d e (thenS m f)"
proof (rule changesI)
  fix l r l'
  assume ok: "ledger_ok l" and call: "thenS m f l = (r, l')"
  from call show "ledger_ok l'
     \<and> (if is_ok r then total_value l' = total_value l + d else total_value l' \<le> total_value l + e)
     \<and> l_treasury l' = l_treasury l \<and> l_asset l' = l_asset l"
  proof (cases rule: thenS_cases)
    case (first x)
    with changesD [OF assms(1) ok first(1)] assms(4) show ?thesis by simp
  next
    case (both a l1)
    from changesD [OF assms(1) ok both(1)] have l1: "ledger_ok l1" "total_value l1 = total_value l + d1"
      "l_treasury l1 = l_treasury l" "l_asset l1 = l_asset l" by simp_all
    from changesD [OF assms(2) l1(1) both(2)] l1 assms(3,5) show ?thesis by (auto split: if_splits)
  qed
qed

lemma changes_return: "changes 0 e (\<lambda>l. (Inr a, l))"
  by (simp add: changes_def)

lemma changes_raise: "0 \<le> e \<Longrightarrow> changes d e (\<lambda>l. (Inl x, l))"
  by (simp add: changes_def)

lemma set_balance:
  assumes ok: "ledger_ok l" and a: "0 \<le> a"
  shows "ledger_ok (l\<lparr>balances := AList.update acct a (balances l)\<rparr>)"
    and "total_value (l\<lparr>balances := AList.update acct a (balances l)\<rparr>) =
      total_value l - balance_of l acct + a"
proof -
  have "\<forall>x \<in> set (dict_values (AList.update acct a (balances l))). x \<ge> 0"
    by (rule values_update_all) (use ok a in \<open>unfold ledger_ok_def audit_def, blast+\<close>)
  with ok show "ledger_ok (l\<lparr>balances := AList.update acct a (balances l)\<rparr>)"
    by (simp add: ledger_ok_def audit_def del: set_map)
  show "total_value (l\<lparr>balances := AList.update acct a (balances l)\<rparr>) =
      total_value l - balance_of l acct + a"
    by (simp add: total_value_def dict_sum_update balance_of_def old_measure_def)
qed

lemma changes_credit: "changes amt 0 (credit acct amt)"
proof (rule changesI)
  fix l r l'
  assume ok: "ledger_ok l" and call: "credit acct amt l = (r, l')"
  show "ledger_ok l' \<and> (if is_ok r then total_value l' = total_value l + amt else total_value l' \<le> total_value l + 0)
     \<and> l_treasury l' = l_treasury l \<and> l_asset l' = l_asset l"
  proof (cases "acct = [] \<or> amt < 0")
    case True
    with ok call show ?thesis by (auto simp: credit_def)
  next
    case False
    then have "0 \<le> balance_of l acct + amt" using balance_nonneg [OF ok, of acct] by simp
    from set_balance [OF ok this, of acct] call False show ?thesis by (auto simp: credit_def)
  qed
qed

lemma changes_debit: "changes (- amt) 0 (debit acct amt)"
proof (rule changesI)
  fix l r l'
  assume ok: "ledger_ok l" and call: "debit acct amt l = (r, l')"
  show "ledger_ok l' \<and> (if is_ok r then total_value l' = total_value l + - amt else total_value l' \<le> total_value l + 0)
     \<and> l_treasury l' = l_treasury l \<and> l_asset l' = l_asset l"
  proof (cases "amt < 0 \<or> balance_of l acct < amt")
    case True
    with ok call show ?thesis by (auto simp: debit_def)
  next
    case False
    then have "0 \<le> balance_of l acct - amt" by simp
    from set_balance [OF ok this, of acct] call False show ?thesis by (auto simp: debit_def)
  qed
qed

lemma debit_positive: "debit acct amt l = (Inr u, l') \<Longrightarrow> 0 \<le> amt"
  by (simp add: debit_def split: if_splits)

lemma set_event:
  assumes ok: "ledger_ok l" and e: "0 \<le> ev_amount e" "ev_asset e = l_asset l"
  shows "ledger_ok (l\<lparr>events := AList.update k e (events l)\<rparr>)"
    and "total_value (l\<lparr>events := AList.update k e (events l)\<rparr>) = total_value l"
proof -
  have "\<forall>x \<in> set (dict_values (AList.update k e (events l))). ev_amount x \<ge> 0 \<and> ev_asset x = l_asset l"
    by (rule values_update_all) (use ok e in \<open>unfold ledger_ok_def audit_def, blast+\<close>)
  with ok show "ledger_ok (l\<lparr>events := AList.update k e (events l)\<rparr>)"
    by (simp add: ledger_ok_def audit_def del: set_map)
  show "total_value (l\<lparr>events := AList.update k e (events l)\<rparr>) = total_value l"
    by (simp add: total_value_def)
qed

lemma changes_log_event:
  assumes amt: "0 \<le> amt"
  shows "changes 0 0 (log_event cr kind ep acct amt related meta)"
proof (rule changesI)
  fix l r l'
  assume ok: "ledger_ok l" and call: "log_event cr kind ep acct amt related meta l = (r, l')"
  show "ledger_ok l' \<and> (if is_ok r then total_value l' = total_value l + 0 else total_value l' \<le> total_value l + 0)
     \<and> l_treasury l' = l_treasury l \<and> l_asset l' = l_asset l"
  proof (cases "has_key (events l) (event_id cr (l_asset l) kind ep acct amt related meta)")
    case True
    with ok call show ?thesis by (auto simp: log_event_def Let_def)
  next
    case False
    with call obtain k e where "r = Inr e" "l' = l\<lparr>events := AList.update k e (events l)\<rparr>"
      "ev_amount e = amt" "ev_asset e = l_asset l" by (auto simp: log_event_def Let_def)
    with set_event [OF ok, of e k] amt show ?thesis by simp
  qed
qed

lemma set_position_ok:
  assumes ok: "ledger_ok l" and q: "0 \<le> pos_amount q" "pos_asset q = l_asset l"
      "\<not> (pos_active q \<and> pos_unbonding q)"
  shows "ledger_ok (set_position bid q l)"
    and "total_value (set_position bid q l) =
      total_value l - old_measure pos_amount (bonds l) bid + pos_amount q"
proof -
  have "\<forall>x \<in> set (dict_values (AList.update bid q (bonds l))). pos_amount x \<ge> 0 \<and> pos_asset x = l_asset l
      \<and> \<not> (pos_active x \<and> pos_unbonding x)"
    by (rule values_update_all) (use ok q in \<open>unfold ledger_ok_def audit_def, blast+\<close>)
  with ok show "ledger_ok (set_position bid q l)"
    by (simp add: ledger_ok_def audit_def set_position_def del: set_map)
  show "total_value (set_position bid q l) =
      total_value l - old_measure pos_amount (bonds l) bid + pos_amount q"
    by (simp add: total_value_def set_position_def dict_sum_update)
qed

lemma set_position_fields [simp]:
  "l_treasury (set_position bid q l) = l_treasury l" "l_asset (set_position bid q l) = l_asset l"
  "reporter_bps (set_position bid q l) = reporter_bps l" "bonds (set_position bid q l) = AList.update bid q (bonds l)"
  "balances (set_position bid q l) = balances l" "slash_ids (set_position bid q l) = slash_ids l"
  "settled_epochs (set_position bid q l) = settled_epochs l"
  by (simp_all add: set_position_def)

text \<open>An operation that looks a bond up first.\<close>

lemma changes_position:
  assumes "0 \<le> e"
    and "\<And>l q r l'. ledger_ok l \<Longrightarrow> map_of (bonds l) bid = Some q \<Longrightarrow> f q l = (r, l') \<Longrightarrow>
      ledger_ok l' \<and> (if is_ok r then total_value l' = total_value l + d else total_value l' \<le> total_value l + e)
     \<and> l_treasury l' = l_treasury l \<and> l_asset l' = l_asset l"
  shows "changes d e (thenS (position bid) f)"
proof (rule changesI)
  fix l r l'
  assume ok: "ledger_ok l" and call: "thenS (position bid) f l = (r, l')"
  show "ledger_ok l' \<and> (if is_ok r then total_value l' = total_value l + d else total_value l' \<le> total_value l + e)
     \<and> l_treasury l' = l_treasury l \<and> l_asset l' = l_asset l"
  proof (cases "map_of (bonds l) bid")
    case None
    with call have "r = Inl (SettlementError ''unknown bond'')" "l' = l"
      by (simp_all add: thenS_def position_def)
    with ok assms(1) show ?thesis by simp
  next
    case (Some q)
    with call have "f q l = (r, l')" by (simp add: thenS_def position_def)
    from assms(2) [OF ok Some this] show ?thesis .
  qed
qed

text \<open>A step applied to a prepared ledger whose total is off by \<open>d0\<close>.\<close>

lemma changes_from:
  assumes "changes d1 e1 m" "ledger_ok l0" "m l0 = (r, l')" "total_value l0 = total_value l + d0"
    "l_treasury l0 = l_treasury l" "l_asset l0 = l_asset l" "d = d0 + d1" "d0 + e1 \<le> e"
  shows "ledger_ok l' \<and> (if is_ok r then total_value l' = total_value l + d else total_value l' \<le> total_value l + e)
     \<and> l_treasury l' = l_treasury l \<and> l_asset l' = l_asset l"
  using changesD [OF assms(1-3)] assms(4-8) by (auto split: if_splits)

subsection \<open>The operations\<close>

lemma changes_fund: "changes amt 0 (fund cr acct amt ep source)"
proof (cases "amt \<le> 0 \<or> acct = []")
  case True
  then have "fund cr acct amt ep source = (\<lambda>l. (Inl (SettlementError ''funding amount and account are invalid''), l))"
    by (intro ext) (simp add: fund_def)
  then show ?thesis by (simp add: changes_raise)
next
  case False
  then have "fund cr acct amt ep source =
      thenS (log_event cr ''FUND'' ep acct amt (case source of Some (x # xs) \<Rightarrow> x # xs | _ \<Rightarrow>
          digest cr (JObj [(''account'', JStr acct), (''amount'', JInt amt), (''epoch'', JInt ep)]))
          [(''source'', ''external'')])
        (\<lambda>e. thenS (credit acct amt) (\<lambda>_ l'. (Inr e, l')))"
    by (intro ext) (simp add: fund_def Let_def)
  moreover have "changes amt 0 (thenS (credit acct amt) (\<lambda>_ l'. (Inr e, l')))" for e
    by (rule changes_then [OF changes_credit changes_return [of "- amt"]]) simp_all
  ultimately show ?thesis
    using False by (auto intro!: changes_then [OF changes_log_event])
qed

lemma changes_settle_bond: "changes 0 0 (settle_bond cr b ep)"
proof (rule changesI)
  fix l r l'
  assume ok: "ledger_ok l" and call: "settle_bond cr b ep l = (r, l')"
  show "ledger_ok l' \<and> (if is_ok r then total_value l' = total_value l + 0 else total_value l' \<le> total_value l + 0)
     \<and> l_treasury l' = l_treasury l \<and> l_asset l' = l_asset l"
  proof (cases "bond_verify cr b \<and> sb_asset b = l_asset l \<and> sb_activation_epoch b \<le> ep
      \<and> \<not> has_key (bonds l) (sb_bond_id b)")
    case False
    with ok call show ?thesis by (auto simp: settle_bond_def split: if_splits)
  next
    case True
    let ?q = "\<lparr>pos_bond_id = sb_bond_id b, pos_owner = sb_owner b, pos_asset = sb_asset b,
       pos_amount = sb_amount b, pos_unlock = sb_unlock_epoch b, pos_active = True, pos_unbonding = False\<rparr>"
    from True call have "thenS (debit (sb_owner b) (sb_amount b)) (\<lambda>_ l'.
        log_event cr ''BOND'' ep (sb_owner b) (sb_amount b) (sb_bond_id b) [] (set_position (sb_bond_id b) ?q l')) l = (r, l')"
      by (simp add: settle_bond_def)
    then show ?thesis
    proof (cases rule: thenS_cases)
      case (first e)
      with changesD [OF changes_debit ok first(1)] show ?thesis by simp
    next
      case (both u l1)
      from changesD [OF changes_debit ok both(1)] have l1: "ledger_ok l1"
        "total_value l1 = total_value l - sb_amount b" "l_treasury l1 = l_treasury l" "l_asset l1 = l_asset l"
        by simp_all
      have bonds: "bonds l1 = bonds l" using both(1) by (auto simp: debit_def split: if_splits)
      have amt: "0 \<le> sb_amount b" by (rule debit_positive [OF both(1)])
      have q: "0 \<le> pos_amount ?q" "pos_asset ?q = l_asset l1" "\<not> (pos_active ?q \<and> pos_unbonding ?q)"
        using amt True l1(4) by simp_all
      have "old_measure pos_amount (bonds l1) (sb_bond_id b) = 0"
        using True bonds by (simp add: old_measure_def has_key_map_of)
      with set_position_ok [OF l1(1) q, of "sb_bond_id b"] l1
      have "ledger_ok (set_position (sb_bond_id b) ?q l1)"
        "total_value (set_position (sb_bond_id b) ?q l1) = total_value l + 0" by simp_all
      from changes_from [OF changes_log_event [OF amt] this(1) both(2) this(2), of 0 0] l1(3,4)
      show ?thesis by (cases "is_ok r") simp_all
    qed
  qed
qed

lemma old_measure_Some: "map_of d k = Some v \<Longrightarrow> old_measure g d k = g v"
  by (simp add: old_measure_def)

lemma changes_request_unbond: "changes 0 0 (request_unbond cr bid ep delay)"
  unfolding request_unbond_def
proof (rule changes_position)
  fix l q r l'
  assume ok: "ledger_ok l" and q: "map_of (bonds l) bid = Some q"
    and call: "(if delay < 0 \<or> \<not> pos_active q \<or> pos_unbonding q
     then (Inl (SettlementError ''bond cannot enter unbonding''), l)
     else log_event cr ''UNBOND_REQUEST'' ep (pos_owner q) 0 bid []
            (set_position bid (q\<lparr>pos_unlock := max (pos_unlock q) (ep + delay), pos_active := False,
               pos_unbonding := True\<rparr>) l)) = (r, l')"
  let ?q = "q\<lparr>pos_unlock := max (pos_unlock q) (ep + delay), pos_active := False, pos_unbonding := True\<rparr>"
  show "ledger_ok l' \<and> (if is_ok r then total_value l' = total_value l + 0 else total_value l' \<le> total_value l + 0)
     \<and> l_treasury l' = l_treasury l \<and> l_asset l' = l_asset l"
  proof (cases "delay < 0 \<or> \<not> pos_active q \<or> pos_unbonding q")
    case True
    with ok call show ?thesis by auto
  next
    case False
    with call have "log_event cr ''UNBOND_REQUEST'' ep (pos_owner q) 0 bid [] (set_position bid ?q l) = (r, l')"
      by simp
    note c = this
    have "ledger_ok (set_position bid ?q l)" "total_value (set_position bid ?q l) = total_value l + 0"
      using set_position_ok [OF ok, of ?q bid] position_ok [OF ok q] q by (simp_all add: old_measure_Some)
    from changes_from [OF changes_log_event [OF order_refl] this(1) c this(2), of 0 0] show ?thesis by (cases "is_ok r") simp_all
  qed
qed simp

lemma delete_position_ok:
  assumes ok: "ledger_ok l" and q: "map_of (bonds l) bid = Some q"
  shows "ledger_ok (l\<lparr>bonds := AList.delete bid (bonds l)\<rparr>)"
    and "total_value (l\<lparr>bonds := AList.delete bid (bonds l)\<rparr>) = total_value l + - pos_amount q"
proof -
  have "\<forall>x \<in> set (dict_values (AList.delete bid (bonds l))). pos_amount x \<ge> 0 \<and> pos_asset x = l_asset l
      \<and> \<not> (pos_active x \<and> pos_unbonding x)"
    by (rule values_delete_all) (use ok in \<open>unfold ledger_ok_def audit_def, blast\<close>)
  with ok show "ledger_ok (l\<lparr>bonds := AList.delete bid (bonds l)\<rparr>)"
    by (simp add: ledger_ok_def audit_def del: set_map)
  show "total_value (l\<lparr>bonds := AList.delete bid (bonds l)\<rparr>) = total_value l + - pos_amount q"
    using ok q by (simp add: total_value_def dict_sum_delete ledger_ok_def old_measure_Some)
qed

lemma changes_settle_withdraw: "changes 0 0 (settle_withdraw cr bid ep)"
  unfolding settle_withdraw_def
proof (rule changes_position)
  fix l q r l'
  assume ok: "ledger_ok l" and q: "map_of (bonds l) bid = Some q"
    and call: "(if pos_active q
     then (Inl (SettlementError ''bond is still active; request unbonding first''), l)
     else if \<not> pos_unbonding q \<or> ep < pos_unlock q
     then (Inl (SettlementError ''withdrawal delay has not elapsed''), l)
     else thenS (credit (pos_owner q) (pos_amount q))
            (\<lambda>_. log_event cr ''WITHDRAW'' ep (pos_owner q) (pos_amount q) bid [])
            (l\<lparr>bonds := AList.delete bid (bonds l)\<rparr>)) = (r, l')"
  let ?l0 = "l\<lparr>bonds := AList.delete bid (bonds l)\<rparr>"
  from position_ok [OF ok q] have amt: "0 \<le> pos_amount q" by simp
  show "ledger_ok l' \<and> (if is_ok r then total_value l' = total_value l + 0 else total_value l' \<le> total_value l + 0)
     \<and> l_treasury l' = l_treasury l \<and> l_asset l' = l_asset l"
  proof (cases "pos_active q \<or> \<not> pos_unbonding q \<or> ep < pos_unlock q")
    case True
    with ok call show ?thesis by (auto split: if_splits)
  next
    case False
    with call have c: "thenS (credit (pos_owner q) (pos_amount q))
        (\<lambda>_. log_event cr ''WITHDRAW'' ep (pos_owner q) (pos_amount q) bid []) ?l0 = (r, l')" by simp
    have ch: "changes (pos_amount q) (pos_amount q) (thenS (credit (pos_owner q) (pos_amount q))
        (\<lambda>_. log_event cr ''WITHDRAW'' ep (pos_owner q) (pos_amount q) bid []))"
      by (rule changes_then [OF changes_credit changes_log_event [OF amt]]) (use amt in simp_all)
    show ?thesis
      by (rule changes_from [OF ch delete_position_ok(1) [OF ok q] c delete_position_ok(2) [OF ok q]]) simp_all
  qed
qed simp

lemma changes_charge_fee: "changes 0 0 (charge_fee cr payer amt ep tx)"
proof (rule changesI)
  fix l r l'
  assume ok: "ledger_ok l" and call: "charge_fee cr payer amt ep tx l = (r, l')"
  show "ledger_ok l' \<and> (if is_ok r then total_value l' = total_value l + 0 else total_value l' \<le> total_value l + 0)
     \<and> l_treasury l' = l_treasury l \<and> l_asset l' = l_asset l"
  proof (cases "amt \<le> 0 \<or> tx = []")
    case True
    with ok call show ?thesis by (auto simp: charge_fee_def)
  next
    case False
    then have amt: "0 \<le> amt" by simp
    have inner: "changes amt amt (thenS (credit (l_treasury l) amt) (\<lambda>_. log_event cr ''FEE'' ep payer amt tx []))"
      by (rule changes_then [OF changes_credit changes_log_event [OF amt]]) (use amt in simp_all)
    have "changes 0 0 (thenS (debit payer amt) (\<lambda>_. thenS (credit (l_treasury l) amt)
        (\<lambda>_. log_event cr ''FEE'' ep payer amt tx [])))"
      by (rule changes_then [OF changes_debit inner]) simp_all
    from changesD [OF this ok, of r l'] call False show ?thesis
      by (cases "is_ok r") (simp_all add: charge_fee_def)
  qed
qed

text \<open>The split of a penalty between the reporter and the treasury.\<close>

lemma reporter_share:
  assumes "0 \<le> penalty" "0 \<le> bps" "bps \<le> 10000"
  shows "0 \<le> penalty * bps div (10000 :: int)" "penalty * bps div 10000 \<le> penalty"
proof -
  show "0 \<le> penalty * bps div 10000" using assms by (simp add: pos_imp_zdiv_nonneg_iff)
  have "penalty * bps \<le> penalty * 10000" using assms by (intro mult_left_mono) simp_all
  then show "penalty * bps div 10000 \<le> penalty" by (simp add: zdiv_mono1 [of _ "penalty * 10000" 10000, simplified])
qed

lemma changes_slash_payout:
  assumes "0 \<le> ra" "ra \<le> penalty"
  shows "changes penalty penalty (thenS (log_event cr ''SLASH'' ep own penalty evidence []) (\<lambda>e.
      thenS (credit tre (penalty - ra)) (\<lambda>_.
        if ra \<noteq> 0
        then thenS (credit rep ra) (\<lambda>_.
               thenS (log_event cr ''REPORTER_REWARD'' ep rep ra evidence []) (\<lambda>e2 l'. (Inr [e, e2], l')))
        else (\<lambda>l'. (Inr [e], l')))))"
proof -
  have pen: "0 \<le> penalty" using assms by simp
  have rew: "changes ra ra (thenS (credit rep ra) (\<lambda>_.
      thenS (log_event cr ''REPORTER_REWARD'' ep rep ra evidence []) (\<lambda>e2 l'. (Inr [e, e2], l'))))" for e
  proof (rule changes_then [OF changes_credit])
    show "changes 0 0 (thenS (log_event cr ''REPORTER_REWARD'' ep rep ra evidence []) (\<lambda>e2 l'. (Inr [e, e2], l')))"
      by (rule changes_then [OF changes_log_event [OF assms(1)] changes_return [of 0]]) simp_all
  qed (use assms in simp_all)
  have branch: "changes ra ra (if ra \<noteq> 0 then thenS (credit rep ra) (\<lambda>_.
      thenS (log_event cr ''REPORTER_REWARD'' ep rep ra evidence []) (\<lambda>e2 l'. (Inr [e, e2], l')))
      else (\<lambda>l'. (Inr [e], l')))" for e
    using rew changes_return [of 0] by (cases "ra = 0") simp_all
  have pay: "changes penalty penalty (thenS (credit tre (penalty - ra)) (\<lambda>_.
        if ra \<noteq> 0
        then thenS (credit rep ra) (\<lambda>_.
               thenS (log_event cr ''REPORTER_REWARD'' ep rep ra evidence []) (\<lambda>e2 l'. (Inr [e, e2], l')))
        else (\<lambda>l'. (Inr [e], l'))))" for e
    by (rule changes_then [OF changes_credit branch]) (use pen in simp_all)
  show ?thesis by (rule changes_then [OF changes_log_event [OF pen] pay]) (use pen in simp_all)
qed

lemma changes_settle_slash: "changes 0 0 (settle_slash cr bid amt ep evidence reporter)"
proof (rule changesI)
  fix l r l'
  assume ok: "ledger_ok l" and call: "settle_slash cr bid amt ep evidence reporter l = (r, l')"
  show "ledger_ok l' \<and> (if is_ok r then total_value l' = total_value l + 0 else total_value l' \<le> total_value l + 0)
     \<and> l_treasury l' = l_treasury l \<and> l_asset l' = l_asset l"
  proof (cases "amt \<le> 0 \<or> evidence = [] \<or> evidence \<in> slash_ids l \<or> map_of (bonds l) bid = None")
    case True
    with call have "\<not> is_ok r" "l' = l"
      by (auto simp: settle_slash_def thenS_def position_def split: if_splits)
    with ok show ?thesis by simp
  next
    case False
    then obtain q where q: "map_of (bonds l) bid = Some q" by auto
    define penalty where "penalty = min amt (pos_amount q)"
    define rep where "rep = (case reporter of None \<Rightarrow> [] | Some r \<Rightarrow> r)"
    define ra where "ra = (if rep = [] then 0 else penalty * reporter_bps l div 10000)"
    let ?q = "q\<lparr>pos_amount := pos_amount q - penalty, pos_active := pos_active q \<and> pos_amount q > penalty\<rparr>"
    let ?l = "l\<lparr>slash_ids := insert evidence (slash_ids l)\<rparr>"
    let ?l1 = "set_position bid ?q ?l"
    note pok = position_ok [OF ok q]
    have pen: "0 \<le> penalty" "penalty \<le> pos_amount q" using False pok by (auto simp: penalty_def)
    have ok1: "ledger_ok ?l" "total_value ?l = total_value l"
      using ok by (simp_all add: ledger_ok_def audit_def total_value_def)
    have ra: "0 \<le> ra" "ra \<le> penalty"
      using reporter_share [OF pen(1), of "reporter_bps l"] ok pen(1)
      by (auto simp: ra_def ledger_ok_def)
    have "ledger_ok ?l1" "total_value ?l1 = total_value l + - penalty"
      using set_position_ok [OF ok1(1), of ?q bid] pen pok q ok1(2) by (auto simp: old_measure_Some)
    note prepared = this
    have "thenS (log_event cr ''SLASH'' ep (pos_owner q) penalty evidence []) (\<lambda>e.
      thenS (credit (l_treasury l) (penalty - ra)) (\<lambda>_.
        if ra \<noteq> 0
        then thenS (credit rep ra) (\<lambda>_.
               thenS (log_event cr ''REPORTER_REWARD'' ep rep ra evidence []) (\<lambda>e2 l'. (Inr [e, e2], l')))
        else (\<lambda>l'. (Inr [e], l')))) ?l1 = (r, l')"
      using call False q unfolding settle_slash_def thenS_def [of "position bid"]
      by (cases "rep = []")
         (simp_all add: position_def Let_def penalty_def [symmetric] rep_def [symmetric] ra_def cong: if_cong)
    from changes_from [OF changes_slash_payout [OF ra] prepared(1) this prepared(2), of 0 0]
    show ?thesis by (cases "is_ok r") simp_all
  qed
qed

lemma changes_lookup: "changes 0 0 (position bid)"
  by (simp add: changes_def position_def split: option.splits)

text \<open>
  The rounding loop: as long as what was distributed is at most the exact share of the weight
  already served, the loop pays out what is left, to the last unit.
\<close>

lemma changes_pay_rewards:
  "entries \<noteq> [] \<Longrightarrow> \<forall>(b, w) \<in> set entries. 0 < w \<Longrightarrow> 0 \<le> pot \<Longrightarrow> 0 \<le> served \<Longrightarrow>
   ws = served + sum_list (map snd entries) \<Longrightarrow> distributed * ws \<le> pot * served \<Longrightarrow>
   changes (pot - distributed) (pot - distributed) (pay_rewards cr ep pot ws distributed entries)"
proof (induction entries arbitrary: distributed served)
  case (Cons entry rest)
  obtain bid w where entry: "entry = (bid, w)" by (cases entry)
  have "0 \<le> sum_list (map snd rest)" by (rule sum_list_nonneg) (use Cons.prems(2) in auto)
  with Cons.prems entry have w: "0 < w" and ws: "0 < ws" "served + w \<le> ws" by auto
  define amount where "amount = (if rest = [] then pot - distributed else pot * w div ws)"
  have left: "distributed \<le> pot"
  proof -
    have "distributed * ws \<le> pot * ws"
      using Cons.prems(3,6) ws w mult_left_mono [of served ws pot] by linarith
    then show ?thesis using ws(1) by simp
  qed
  have nonneg: "0 \<le> amount"
    using left Cons.prems(3) w ws(1) by (auto simp: amount_def pos_imp_zdiv_nonneg_iff)
  have within: "(distributed + amount) * ws \<le> pot * (served + w)" if "rest \<noteq> []"
  proof -
    have "pot * w div ws * ws \<le> pot * w" using ws(1) by (simp add: minus_mod_eq_div_mult [symmetric])
    with Cons.prems(6) that show ?thesis by (simp add: amount_def algebra_simps)
  qed
  have fits: "amount \<le> pot - distributed"
  proof (cases "rest = []")
    case False
    have "(distributed + amount) * ws \<le> pot * ws"
      using within [OF False] mult_left_mono [OF ws(2) Cons.prems(3)] by linarith
    then show ?thesis using ws(1) by simp
  qed (simp add: amount_def)
  have tail: "changes (pot - distributed - amount) (pot - distributed - amount)
      (thenS (pay_rewards cr ep pot ws (distributed + amount) rest) (\<lambda>es l'. (Inr (e # es), l')))" for e
  proof (cases "rest = []")
    case True
    then have "thenS (pay_rewards cr ep pot ws (distributed + amount) rest) (\<lambda>es l'. (Inr (e # es), l')) =
        (\<lambda>l. (Inr [e], l))"
      by (intro ext) (simp add: thenS_def)
    with True show ?thesis by (simp add: amount_def changes_return)
  next
    case False
    from within [OF False] Cons.IH [OF False _ Cons.prems(3), of "served + w" "distributed + amount"] Cons.prems w entry
    have more: "changes (pot - (distributed + amount)) (pot - (distributed + amount))
        (pay_rewards cr ep pot ws (distributed + amount) rest)" by simp
    show ?thesis
      by (rule changes_then [OF more changes_return [of 0]]) (simp_all add: algebra_simps)
  qed
  have step: "changes (pot - distributed) (pot - distributed) (thenS (credit (pos_owner q) amount) (\<lambda>_.
      thenS (log_event cr ''REWARD'' ep (pos_owner q) amount bid []) (\<lambda>e.
      thenS (pay_rewards cr ep pot ws (distributed + amount) rest) (\<lambda>es l'. (Inr (e # es), l')))))" for q
  proof (rule changes_then [OF changes_credit])
    show "changes (pot - distributed - amount) (pot - distributed - amount)
      (thenS (log_event cr ''REWARD'' ep (pos_owner q) amount bid []) (\<lambda>e.
       thenS (pay_rewards cr ep pot ws (distributed + amount) rest) (\<lambda>es l'. (Inr (e # es), l'))))"
      by (rule changes_then [OF changes_log_event [OF nonneg] tail]) (use fits in simp_all)
  qed (use left in simp_all)
  show ?case
    unfolding entry pay_rewards.simps Let_def amount_def [symmetric]
    by (rule changes_then [OF changes_lookup step]) (use left in simp_all)
qed simp

lemma changes_distribute_rewards: "changes 0 0 (distribute_rewards cr ep pot weights)"
proof (rule changesI)
  fix l r l'
  assume ok: "ledger_ok l" and call: "distribute_rewards cr ep pot weights l = (r, l')"
  show "ledger_ok l' \<and> (if is_ok r then total_value l' = total_value l + 0 else total_value l' \<le> total_value l + 0)
     \<and> l_treasury l' = l_treasury l \<and> l_asset l' = l_asset l"
  proof (cases "ep \<in> settled_epochs l \<or> pot \<le> 0 \<or> weights = [] \<or> (\<exists>w \<in> set (dict_values weights). w \<le> 0)")
    case True
    with ok call show ?thesis by (auto simp: distribute_rewards_def split: if_splits)
  next
    case False
    let ?ws = "sum_list (dict_values weights)"
    have "sort_key fst weights \<noteq> []" using False by (metis length_0_conv length_sort)
    moreover have "\<forall>(b, w) \<in> set (sort_key fst weights). 0 < w" using False by force
    moreover have "?ws = 0 + sum_list (map snd (sort_key fst weights))"
      by (simp add: sum_mset_sum_list [symmetric])
    ultimately have pay: "changes pot pot (pay_rewards cr ep pot ?ws 0 (sort_key fst weights))"
      using changes_pay_rewards [of "sort_key fst weights" pot 0 ?ws 0 cr ep] False by simp
    have fin: "changes 0 0 (\<lambda>l'. (Inr es, l'\<lparr>settled_epochs := insert ep (settled_epochs l')\<rparr>))" for es
      by (simp add: changes_def ledger_ok_def audit_def total_value_def)
    have paid: "changes pot pot (thenS (pay_rewards cr ep pot ?ws 0 (sort_key fst weights))
        (\<lambda>es l'. (Inr es, l'\<lparr>settled_epochs := insert ep (settled_epochs l')\<rparr>)))"
      by (rule changes_then [OF pay fin]) (use False in simp_all)
    have "changes 0 0 (thenS (debit (l_treasury l) pot) (\<lambda>_.
        thenS (pay_rewards cr ep pot ?ws 0 (sort_key fst weights))
        (\<lambda>es l'. (Inr es, l'\<lparr>settled_epochs := insert ep (settled_epochs l')\<rparr>))))"
      by (rule changes_then [OF changes_debit paid]) simp_all
    from changesD [OF this ok, of r l'] call False show ?thesis
      by (cases "is_ok r") (simp_all add: distribute_rewards_def)
  qed
qed

subsection \<open>Every call\<close>

datatype settle_call =
    Fund string int int "string option"
  | Bond stake_bond int
  | Unbond string int int
  | Withdraw string int
  | Slash string int int string "string option"
  | Fee string int int string
  | Rewards int int "(string, int) dict"

definition no_result :: "(ledger, settlement_error, 'a) outcome \<Rightarrow> unit l_outcome" where
  "no_result out = (case out of (Inl e, l) \<Rightarrow> (Inl e, l) | (Inr _, l) \<Rightarrow> (Inr (), l))"

definition settle :: "crypto \<Rightarrow> settle_call \<Rightarrow> ledger \<Rightarrow> unit l_outcome" where
  "settle cr call l = (case call of
     Fund acct amt ep source \<Rightarrow> no_result (fund cr acct amt ep source l)
   | Bond b ep \<Rightarrow> no_result (settle_bond cr b ep l)
   | Unbond bid ep delay \<Rightarrow> no_result (request_unbond cr bid ep delay l)
   | Withdraw bid ep \<Rightarrow> no_result (settle_withdraw cr bid ep l)
   | Slash bid amt ep evidence reporter \<Rightarrow> no_result (settle_slash cr bid amt ep evidence reporter l)
   | Fee payer amt ep tx \<Rightarrow> no_result (charge_fee cr payer amt ep tx l)
   | Rewards ep pot weights \<Rightarrow> no_result (distribute_rewards cr ep pot weights l))"

definition minted :: "settle_call \<Rightarrow> int" where
  "minted call = (case call of Fund acct amt ep source \<Rightarrow> amt | _ \<Rightarrow> 0)"

lemma no_result_cases:
  assumes "no_result out = (r, l')"
  obtains r0 where "out = (r0, l')" "is_ok r0 = is_ok r"
  using assms by (cases out) (auto simp: no_result_def split: sum.splits)

lemma changes_no_result: "changes d e m \<Longrightarrow> changes d e (\<lambda>l. no_result (m l))"
  by (rule changesI, erule no_result_cases) (metis changesD)

lemma changes_settle: "changes (minted call) 0 (settle cr call)"
  unfolding settle_def
  by (cases call) (simp_all add: minted_def changes_no_result changes_fund changes_settle_bond
      changes_request_unbond changes_settle_withdraw changes_settle_slash changes_charge_fee
      changes_distribute_rewards)

text \<open>A sequence of calls, whatever each returns, and what its successful fundings minted.\<close>

fun run_calls :: "crypto \<Rightarrow> settle_call list \<Rightarrow> ledger \<Rightarrow> int \<times> ledger" where
  "run_calls cr [] l = (0, l)"
| "run_calls cr (call # calls) l =
     (let (r, l1) = settle cr call l; (m, l2) = run_calls cr calls l1
      in ((if is_ok r then minted call else 0) + m, l2))"

text \<open>
  C13. Conservation: on a ledger that audits, a call that succeeds changes the total of balances
  and bonded stake by exactly what it funds, and a call that raises does not increase it; the
  ledger audits afterwards either way.
\<close>

theorem settlement_conserves:
  assumes "ledger_ok l" "settle cr call l = (r, l')"
  shows "ledger_ok l' \<and> audit l'
    \<and> (if is_ok r then total_value l' = total_value l + minted call else total_value l' \<le> total_value l)"
proof -
  from changesD [OF changes_settle assms] have "ledger_ok l'" "if is_ok r
      then total_value l' = total_value l + minted call else total_value l' \<le> total_value l + 0" by blast+
  then show ?thesis by (cases "is_ok r") (simp_all add: ledger_ok_def)
qed

lemma run_calls_bounded:
  "ledger_ok l \<Longrightarrow> run_calls cr calls l = (m, l') \<Longrightarrow> ledger_ok l' \<and> total_value l' \<le> total_value l + m"
proof (induction calls arbitrary: l m l')
  case (Cons call calls)
  obtain r l1 where c: "settle cr call l = (r, l1)" by fastforce
  obtain m1 l2 where rest: "run_calls cr calls l1 = (m1, l2)" by fastforce
  from changesD [OF changes_settle Cons.prems(1) c] have l1: "ledger_ok l1"
    "total_value l1 \<le> total_value l + (if is_ok r then minted call else 0)" by (simp_all split: if_splits)
  from Cons.IH [OF l1(1) rest] l1(2) c rest Cons.prems(2) show ?case by auto
qed simp

text \<open>
  Solvency: after any sequence of calls on a new ledger, failed ones included, no balance
  and no bond is negative and everything the ledger holds is at most what was funded.
\<close>

theorem settlement_solvent:
  assumes "ledger_init ast tre bps = Inr l0" "run_calls cr calls l0 = (funded, l)"
  shows "audit l \<and> total_value l \<le> funded"
proof -
  from ledger_init_ok [OF assms(1)] have "ledger_ok l0" "total_value l0 = 0" by simp_all
  with run_calls_bounded [OF this(1) assms(2)] show ?thesis by (simp add: ledger_ok_def)
qed

subsection \<open>A concrete ledger\<close>

definition demo_ledger :: ledger where
  "demo_ledger = \<lparr>l_asset = ''M'', l_treasury = ''t'', reporter_bps = 1000,
     balances = [(''a'', 10), (''t'', 7)],
     bonds = [(''b1'', \<lparr>pos_bond_id = ''b1'', pos_owner = ''a'', pos_asset = ''M'', pos_amount = 20,
       pos_unlock = 0, pos_active = True, pos_unbonding = False\<rparr>)],
     events = [], slash_ids = {}, settled_epochs = {}\<rparr>"

lemma demo_ledger_ok: "ledger_ok demo_ledger"
  by (simp add: ledger_ok_def audit_def demo_ledger_def)

lemma demo_slash:
  "\<exists>l'. settle demo_crypto (Slash ''b1'' 12 0 ''ev'' None) demo_ledger = (Inr (), l')
    \<and> balance_of l' ''t'' = 19"
  by (simp add: settle_def settle_slash_def no_result_def thenS_def position_def demo_ledger_def Let_def
      log_event_def has_key_def credit_def set_position_def balance_of_def)

theorem settlement_conserves_witness:
  "\<exists>l'. settle demo_crypto (Slash ''b1'' 12 0 ''ev'' None) demo_ledger = (Inr (), l')
    \<and> audit l' \<and> total_value l' = 37"
proof -
  obtain l' where c: "settle demo_crypto (Slash ''b1'' 12 0 ''ev'' None) demo_ledger = (Inr (), l')"
    using demo_slash by blast
  from settlement_conserves [OF demo_ledger_ok c] c show ?thesis
    by (simp add: minted_def) (simp add: total_value_def demo_ledger_def)
qed

theorem settlement_solvent_witness:
  "\<exists>funded l. run_calls demo_crypto [Fund ''a'' 5 0 None, Fee ''b'' 1 0 ''x'']
      \<lparr>l_asset = ''M'', l_treasury = ''t'', reporter_bps = 0, balances = [], bonds = [], events = [],
       slash_ids = {}, settled_epochs = {}\<rparr> = (funded, l)
    \<and> audit l \<and> total_value l \<le> funded"
proof -
  obtain funded l where r: "run_calls demo_crypto [Fund ''a'' 5 0 None, Fee ''b'' 1 0 ''x'']
      \<lparr>l_asset = ''M'', l_treasury = ''t'', reporter_bps = 0, balances = [], bonds = [], events = [],
       slash_ids = {}, settled_epochs = {}\<rparr> = (funded, l)" by fastforce
  have "ledger_init ''M'' ''t'' 0 = Inr \<lparr>l_asset = ''M'', l_treasury = ''t'', reporter_bps = 0,
      balances = [], bonds = [], events = [], slash_ids = {}, settled_epochs = {}\<rparr>"
    by (simp add: ledger_init_def)
  from settlement_solvent [OF this r] r show ?thesis by blast
qed

subsection \<open>Rewards, slashing, withdrawal\<close>

lemma pay_rewards_sum:
  "entries \<noteq> [] \<Longrightarrow> pay_rewards cr ep pot ws distributed entries l = (Inr es, l') \<Longrightarrow>
   sum_list (map ev_amount es) = pot - distributed"
proof (induction entries arbitrary: distributed l es l')
  case (Cons entry rest)
  obtain bid w where entry: "entry = (bid, w)" by (cases entry)
  define amount where "amount = (if rest = [] then pot - distributed else pot * w div ws)"
  from Cons.prems(2) obtain q :: bond_position and l1 l2 e l3 es' where
    "log_event cr ''REWARD'' ep (pos_owner q) amount bid [] l1 = (Inr e, l2)"
    and rest: "pay_rewards cr ep pot ws (distributed + amount) rest l2 = (Inr es', l3)"
    and es: "es = e # es'"
    by (auto simp: entry Let_def amount_def [symmetric] elim!: thenS_Inr)
  then have e: "ev_amount e = amount" by (auto simp: log_event_def Let_def split: if_splits)
  show ?case
  proof (cases "rest = []")
    case True
    with rest have "es' = []" by simp
    with True es e show ?thesis by (simp add: amount_def)
  next
    case False
    from Cons.IH [OF False rest] es e show ?thesis by simp
  qed
qed simp

text \<open>
  Rewards are exact: when \<open>distribute_rewards\<close> returns, the amounts of its reward events add
  up to the whole reward, rounding included, and the epoch is marked, so a second distribution
  for it raises and changes nothing.
\<close>

theorem rewards_exact:
  assumes "distribute_rewards cr ep pot weights l = (Inr es, l')"
  shows "sum_list (map ev_amount es) = pot
    \<and> distribute_rewards cr ep pot' weights' l' = (Inl (SettlementError ''epoch rewards already settled''), l')"
proof -
  from assms have ne: "sort_key fst weights \<noteq> []"
    by (auto simp: distribute_rewards_def split: if_splits) (metis length_0_conv length_sort)
  from assms obtain l1 l2 where
    pay: "pay_rewards cr ep pot (sum_list (dict_values weights)) 0 (sort_key fst weights) l1 = (Inr es, l2)"
    and l': "l' = l2\<lparr>settled_epochs := insert ep (settled_epochs l2)\<rparr>"
    by (auto simp: distribute_rewards_def split: if_splits elim!: thenS_Inr)
  from pay_rewards_sum [OF ne pay] l' show ?thesis by (simp add: distribute_rewards_def)
qed

lemma demo_rewards:
  "\<exists>es l'. distribute_rewards demo_crypto 3 5 [(''b1'', 2)] demo_ledger = (Inr es, l')"
  by (simp add: distribute_rewards_def demo_ledger_def thenS_def debit_def balance_of_def position_def
      credit_def log_event_def has_key_def Let_def)

theorem rewards_exact_witness:
  "\<exists>es l'. distribute_rewards demo_crypto 3 5 [(''b1'', 2)] demo_ledger = (Inr es, l')
    \<and> sum_list (map ev_amount es) = 5
    \<and> distribute_rewards demo_crypto 3 5 [(''b1'', 2)] l' =
        (Inl (SettlementError ''epoch rewards already settled''), l')"
  using demo_rewards rewards_exact [of demo_crypto 3 5 "[(''b1'', 2)]" demo_ledger] by blast

lemma log_event_keeps_position:
  "log_event cr kind ep acct amt related meta l = (r, l') \<Longrightarrow> bonds l' = bonds l \<and> slash_ids l' = slash_ids l"
  by (auto simp: log_event_def Let_def split: if_splits)

lemma credit_keeps_position: "credit acct amt l = (r, l') \<Longrightarrow> bonds l' = bonds l \<and> slash_ids l' = slash_ids l"
  by (auto simp: credit_def split: if_splits)

lemma slash_once:
  assumes call: "settle_slash cr bid amt ep evidence reporter l = (Inr es, l')"
  shows "\<exists>q q'. map_of (bonds l) bid = Some q \<and> map_of (bonds l') bid = Some q'
      \<and> pos_amount q' = pos_amount q - min amt (pos_amount q)
      \<and> (pos_active q' \<longrightarrow> pos_active q \<and> amt < pos_amount q)"
    and "\<not> is_ok (fst (settle_slash cr bid' amt' ep' evidence reporter' l'))
      \<and> snd (settle_slash cr bid' amt' ep' evidence reporter' l') = l'"
proof -
  obtain q where q: "map_of (bonds l) bid = Some q"
    and args: "0 < amt" "evidence \<noteq> []"
    using call by (cases "map_of (bonds l) bid")
      (auto simp: settle_slash_def thenS_def position_def split: if_splits)
  define q' where "q' = q\<lparr>pos_amount := pos_amount q - min amt (pos_amount q),
    pos_active := pos_active q \<and> pos_amount q > min amt (pos_amount q)\<rparr>"
  from call args q have "bonds l' = AList.update bid q' (bonds l) \<and> slash_ids l' = insert evidence (slash_ids l)"
    by (auto simp: settle_slash_def position_def Let_def q'_def thenS_def [of "position bid"]
        elim!: thenS_Inr split: if_splits dest!: log_event_keeps_position credit_keeps_position)
  then have b: "bonds l' = AList.update bid q' (bonds l)" and s: "evidence \<in> slash_ids l'" by auto
  show "\<exists>q q'. map_of (bonds l) bid = Some q \<and> map_of (bonds l') bid = Some q'
      \<and> pos_amount q' = pos_amount q - min amt (pos_amount q)
      \<and> (pos_active q' \<longrightarrow> pos_active q \<and> amt < pos_amount q)"
    using q b by (auto simp: q'_def)
  show "\<not> is_ok (fst (settle_slash cr bid' amt' ep' evidence reporter' l'))
      \<and> snd (settle_slash cr bid' amt' ep' evidence reporter' l') = l'"
    using s args by (simp add: settle_slash_def)
qed

text \<open>
  Slashing is bounded and happens once per evidence: a successful \<open>slash\<close> takes the smaller of
  the amount asked and the amount bonded, deactivates a bond it empties, and the same evidence
  raises from then on and changes nothing, on any bond.
\<close>

theorem slash_bounded_once:
  assumes "settle_slash cr bid amt ep evidence reporter l = (Inr es, l')"
  shows "(\<exists>q q'. map_of (bonds l) bid = Some q \<and> map_of (bonds l') bid = Some q'
      \<and> pos_amount q' = pos_amount q - min amt (pos_amount q)
      \<and> (pos_active q' \<longrightarrow> pos_active q \<and> amt < pos_amount q))
    \<and> \<not> is_ok (fst (settle_slash cr bid' amt' ep' evidence reporter' l'))
    \<and> snd (settle_slash cr bid' amt' ep' evidence reporter' l') = l'"
  using slash_once [OF assms] by blast

theorem slash_bounded_once_witness:
  "\<exists>es l'. settle_slash demo_crypto ''b1'' 12 0 ''ev'' None demo_ledger = (Inr es, l')
    \<and> (\<exists>q q'. map_of (bonds demo_ledger) ''b1'' = Some q \<and> map_of (bonds l') ''b1'' = Some q'
      \<and> pos_amount q' = pos_amount q - min 12 (pos_amount q))
    \<and> \<not> is_ok (fst (settle_slash demo_crypto ''b1'' 1 0 ''ev'' None l'))"
proof -
  obtain es l' where c: "settle_slash demo_crypto ''b1'' 12 0 ''ev'' None demo_ledger = (Inr es, l')"
    using demo_slash by (auto simp: settle_def elim!: no_result_cases) (metis is_ok_iff)
  from slash_bounded_once [OF c] c show ?thesis by blast
qed

text \<open>
  Errors are not atomic: a fee charged twice for one transaction raises ``duplicate settlement
  event'' the second time, but only after the payer has paid again; and a reward distribution
  that names an unknown bond raises after the treasury was debited, so its value is lost.
\<close>

theorem settlement_errors_not_atomic:
  "(\<exists>e l1 l2. charge_fee demo_crypto ''a'' 2 0 ''tx'' demo_ledger = (Inr e, l1)
      \<and> charge_fee demo_crypto ''a'' 2 0 ''tx'' l1 = (Inl (SettlementError ''duplicate settlement event''), l2)
      \<and> balance_of l2 ''a'' = balance_of l1 ''a'' - 2)
   \<and> fst (distribute_rewards demo_crypto 0 5 [(''nobody'', 1)] demo_ledger) =
       Inl (SettlementError ''unknown bond'')
   \<and> total_value (snd (distribute_rewards demo_crypto 0 5 [(''nobody'', 1)] demo_ledger)) =
       total_value demo_ledger - 5"
  by (auto simp: charge_fee_def distribute_rewards_def demo_ledger_def thenS_def debit_def balance_of_def
      position_def credit_def log_event_def has_key_def Let_def total_value_def)

end
