(* ===== verification/Committee_Props.thy ===== *)
theory Committee_Props
  imports Membership_Props Economics_Props
begin

section \<open>Committee selection and the stake lifecycle\<close>

text \<open>
  The lottery: what is selected verifies, is determined by seed and size, consists of voting
  validators, and seats no validator more often than its stake or the cap allow. Then the
  withdrawal lock, and three places where the two ledgers of stake come apart.
\<close>

subsection \<open>Selection\<close>

text \<open>
  A committee proof verifies: on a manager whose snapshot is current, what \<open>select_committee\<close>
  returns is accepted by \<open>verify_selection\<close> with the same beacon.
\<close>

theorem selection_roundtrip:
  assumes "m_snapshot m = build_snapshot cr m" "select_committee cr m sz beacon = Inr proof"
  shows "verify_selection cr m proof beacon"
proof -
  have "sn_epoch (m_snapshot m) = m_epoch m" "sn_seed (m_snapshot m) = m_seed m"
    by (simp_all add: assms(1) build_snapshot_def Let_def)
  with assms(2) show ?thesis
    by (cases beacon) (auto simp: select_committee_def verify_selection_def Let_def split: if_splits)
qed

definition demo_selector :: manager where
  "demo_selector = refresh demo_crypto demo_manager"

lemma demo_selector_snapshot: "m_snapshot demo_selector = build_snapshot demo_crypto demo_selector"
  by (simp add: demo_selector_def refresh_def build_snapshot_def)

lemma demo_selection: "\<exists>proof. select_committee demo_crypto demo_selector 3 None = Inr proof"
  by (simp add: select_committee_def Let_def)

theorem selection_roundtrip_witness:
  "\<exists>proof. select_committee demo_crypto demo_selector 3 None = Inr proof
     \<and> verify_selection demo_crypto demo_selector proof None"
  using demo_selection selection_roundtrip [OF demo_selector_snapshot] by blast

text \<open>
  A verified committee is the only one: two proofs that verify against one manager, for one
  size and the same beacon, seat the same validators in the same order.
\<close>

theorem selection_unique:
  assumes "verify_selection cr m p1 beacon" "verify_selection cr m p2 beacon"
    and "sp_size p1 = sp_size p2" "sp_beacon_id p1 = sp_beacon_id p2"
  shows "sp_ids p1 = sp_ids p2 \<and> sp_tickets p1 = sp_tickets p2 \<and> sp_seed p1 = sp_seed p2"
  using assms
  by (auto simp: verify_selection_def Let_def split: if_splits option.splits)

theorem selection_unique_witness:
  "\<exists>p1 p2. verify_selection demo_crypto demo_selector p1 None \<and> verify_selection demo_crypto demo_selector p2 None
     \<and> sp_ids p1 = sp_ids p2"
proof -
  obtain p where p: "select_committee demo_crypto demo_selector 3 None = Inr p" using demo_selection by blast
  have "verify_selection demo_crypto demo_selector p None"
    using p demo_selector_snapshot
    by (auto simp: select_committee_def verify_selection_def build_snapshot_def Let_def)
  with selection_unique [OF this this refl refl] show ?thesis by blast
qed

lemma length_filter_take: "length (filter P (take n xs)) \<le> length (filter P xs)"
proof -
  have "filter P xs = filter P (take n xs) @ filter P (drop n xs)"
    by (metis append_take_drop_id filter_append)
  then show ?thesis by simp
qed

lemma length_filter_py_take: "length (filter P (py_take k xs)) \<le> length (filter P xs)"
  by (simp add: py_take_def length_filter_take)

lemma ticket_owner: "t \<in> set (validator_tickets cr maxt seed v) \<Longrightarrow> fst (snd t) = v_id v \<and> votes v"
  by (auto simp: validator_tickets_def votes_def split: if_splits)

text \<open>The tickets one validator holds.\<close>

lemma tickets_of:
  "distinct (map v_id vs) \<Longrightarrow> v \<in> set vs \<Longrightarrow>
   length (filter (\<lambda>t. fst (snd t) = v_id v) (concat (map (validator_tickets cr maxt seed) vs)))
   = length (validator_tickets cr maxt seed v)"
proof (induction vs)
  case (Cons u vs)
  have own: "filter (\<lambda>t. fst (snd t) = v_id w) (validator_tickets cr maxt seed w) = validator_tickets cr maxt seed w" for w
    by (auto simp: filter_id_conv dest: ticket_owner)
  have other: "filter (\<lambda>t. fst (snd t) = i) (validator_tickets cr maxt seed w) = []" if "v_id w \<noteq> i" for w i
    using that by (auto simp: filter_empty_conv dest: ticket_owner)
  show ?case
  proof (cases "v_id u = v_id v")
    case True
    then have "u = v" using Cons.prems by (metis distinct.simps(2) image_eqI list.simps(9) list.set_map set_ConsD)
    have "filter (\<lambda>t. fst (snd t) = v_id v) (concat (map (validator_tickets cr maxt seed) vs)) = []"
    proof -
      have "filter (\<lambda>t. fst (snd t) = v_id v) (validator_tickets cr maxt seed w) = []" if "w \<in> set vs" for w
        using Cons.prems(1) True that by (intro other) (metis distinct.simps(2) image_eqI list.simps(9) list.set_map)
      then show ?thesis unfolding filter_concat by simp
    qed
    with own [of v] \<open>u = v\<close> show ?thesis by simp
  next
    case False
    with Cons.prems(2) have "v \<in> set vs" by auto
    with Cons.IH Cons.prems(1) other [OF False] show ?thesis by simp
  qed
qed simp

lemma validator_tickets_length:
  "length (validator_tickets cr maxt seed v) = (if votes v then nat (min (v_stake v) maxt) else 0)"
  by (simp add: validator_tickets_def votes_def)

lemma filter_map_snd: "length (filter P (map snd xs)) = length (filter (\<lambda>t. P (snd t)) xs)"
  by (simp add: filter_map comp_def)

lemma lottery_seats:
  assumes wf: "wf_snapshot (m_snapshot m)" and v: "v \<in> set (sn_validators (m_snapshot m))" "votes v"
  shows "length (filter (\<lambda>t. fst t = v_id v) (lottery cr m seed sz)) \<le> nat (min (v_stake v) (max_tickets m))"
proof -
  let ?ts = "tickets cr m (m_snapshot m) (Some seed)"
  have "length (filter (\<lambda>t. fst t = v_id v) (lottery cr m seed sz)) \<le>
      length (filter (\<lambda>t. fst (snd t) = v_id v) (sort ?ts))"
    unfolding lottery_def Let_def filter_map_snd by (rule length_filter_py_take)
  also have "\<dots> = length (filter (\<lambda>t. fst (snd t) = v_id v) ?ts)"
    by (simp add: filter_sort)
  also have "\<dots> = length (validator_tickets cr (max_tickets m) seed v)"
    unfolding tickets_def option.case
    by (rule tickets_of [OF _ v(1)]) (use wf in \<open>simp add: wf_snapshot_def\<close>)
  also have "\<dots> = nat (min (v_stake v) (max_tickets m))"
    using v(2) by (simp add: validator_tickets_length)
  finally show ?thesis .
qed

lemma lottery_voters: "t \<in> set (lottery cr m seed sz) \<Longrightarrow> fst t \<in> voter_ids (m_snapshot m)"
proof -
  assume "t \<in> set (lottery cr m seed sz)"
  then obtain u where u: "u \<in> set (tickets cr m (m_snapshot m) (Some seed))" "t = snd u"
    by (auto simp: lottery_def Let_def py_take_def split: if_splits dest!: in_set_takeD)
  then obtain v where "v \<in> set (sn_validators (m_snapshot m))"
    "u \<in> set (validator_tickets cr (max_tickets m) seed v)" by (auto simp: tickets_def)
  with ticket_owner u(2) show ?thesis by (fastforce simp: voter_ids_def)
qed

text \<open>
  C30. The lottery is fair in its bounds: a selected committee has at most the seats asked for,
  seats voting validators only, names each once, and gives a validator no more seats than its
  stake and no more than the cap on tickets.
\<close>

theorem selection_bounds:
  assumes sel: "select_committee cr m sz beacon = Inr proof" and wf: "wf_snapshot (m_snapshot m)"
    and v: "v \<in> set (sn_validators (m_snapshot m))" "votes v"
  shows "length (sp_tickets proof) \<le> nat sz \<and> set (sp_ids proof) \<subseteq> voter_ids (m_snapshot m)
    \<and> distinct (sp_ids proof)
    \<and> length (filter (\<lambda>t. fst t = v_id v) (sp_tickets proof)) \<le> nat (min (v_stake v) (max_tickets m))"
proof -
  from sel obtain seed where p: "sp_tickets proof = lottery cr m seed sz" "0 < sz"
    and ids: "sp_ids proof = fromkeys (map fst (lottery cr m seed sz))"
    by (auto simp: select_committee_def Let_def split: if_splits)
  have "length (sp_tickets proof) \<le> nat sz"
    using p(2) by (simp add: p(1) lottery_def Let_def py_take_def)
  moreover have "set (sp_ids proof) \<subseteq> voter_ids (m_snapshot m)"
    using lottery_voters by (auto simp: ids fromkeys_def)
  moreover have "distinct (sp_ids proof)" by (simp add: ids fromkeys_def)
  ultimately show ?thesis using lottery_seats [OF wf v] p(1) by simp
qed

theorem selection_bounds_witness:
  "\<exists>proof. select_committee demo_crypto demo_selector 3 None = Inr proof \<and> length (sp_tickets proof) \<le> 3
     \<and> distinct (sp_ids proof)"
proof -
  obtain p where p: "select_committee demo_crypto demo_selector 3 None = Inr p" using demo_selection by blast
  let ?v = "\<lparr>v_id = ''v'', v_public_key = ''k'', v_stake = 10, v_deposit_id = ''d'',
     v_active = True, v_locked_until = 0, v_jailed = False\<rparr>"
  have "?v \<in> set (sn_validators (m_snapshot demo_selector))"
    by (simp add: demo_selector_def refresh_def build_snapshot_def demo_manager_def set_record_def
        manager_init_def Let_def)
  from selection_bounds [OF p demo_snapshot_wf [folded demo_selector_def] this] p show ?thesis
    by (auto simp: votes_def)
qed

subsection \<open>The withdrawal lock\<close>

text \<open>
  Stake leaves only after the delay: a successful \<open>withdraw\<close> belongs to a validator that had
  exited (or was deactivated), not before the epoch its exit fixed; with a settlement ledger the
  bond was unbonding and due too; and the validator is gone from the records afterwards.
\<close>

theorem withdraw_waits:
  assumes "withdraw_validator cr vid cur m = (Inr r, m')"
  shows "\<exists>v. map_of (m_records m) vid = Some v \<and> \<not> v_active v
    \<and> v_locked_until v \<le> (case cur of None \<Rightarrow> m_epoch m | Some e \<Rightarrow> e)
    \<and> wr_amount r = v_stake v \<and> map_of (m_records m') vid = None
    \<and> (case settlement m of None \<Rightarrow> True | Some l \<Rightarrow>
        (\<exists>bid q. map_of (validator_bonds m) vid = Some bid \<and> map_of (bonds l) bid = Some q
           \<and> pos_unbonding q \<and> pos_unlock q \<le> (case cur of None \<Rightarrow> m_epoch m | Some e \<Rightarrow> e)))"
proof -
  let ?ep = "case cur of None \<Rightarrow> m_epoch m | Some e \<Rightarrow> e"
  from assms obtain v where v: "map_of (m_records m) vid = Some v"
    by (cases "map_of (m_records m) vid") (simp_all add: withdraw_validator_def raise_m_def)
  with assms obtain u m1 where
    st: "(case settlement m of None \<Rightarrow> (Inr (), m)
     | Some _ \<Rightarrow> (case map_of (validator_bonds m) vid of
         None \<Rightarrow> raise_m ''validator has no settlement bond'' m
       | Some bid \<Rightarrow> (case on_settlement (settle_withdraw cr bid ?ep) m of
           (Inl e, m') \<Rightarrow> (Inl (settlement_message e), m') | (Inr u, m') \<Rightarrow> (Inr u, m')))) = (Inr u, m1)"
    and rest: "\<not> v_active v" "v_locked_until v \<le> ?ep" "wr_amount r = v_stake v"
      "map_of (m_records m') vid = None"
    by (auto simp: withdraw_validator_def Let_def raise_m_def refresh_def elim!: thenS_Inr split: if_splits)
  have "case settlement m of None \<Rightarrow> True | Some l \<Rightarrow>
        (\<exists>bid q. map_of (validator_bonds m) vid = Some bid \<and> map_of (bonds l) bid = Some q
           \<and> pos_unbonding q \<and> pos_unlock q \<le> ?ep)"
  proof (cases "settlement m")
    case (Some l)
    with st obtain bid where bid: "map_of (validator_bonds m) vid = Some bid"
      by (cases "map_of (validator_bonds m) vid") (simp_all add: raise_m_def)
    with st Some obtain x l' where "settle_withdraw cr bid ?ep l = (Inr x, l')"
      by (auto simp: on_settlement_def split: prod.splits sum.splits)
    then obtain q where "map_of (bonds l) bid = Some q" "pos_unbonding q" "pos_unlock q \<le> ?ep"
      by (auto simp: settle_withdraw_def position_def elim!: thenS_Inr split: option.splits if_splits)
    with Some bid show ?thesis by auto
  qed simp
  with v rest show ?thesis by blast
qed

definition demo_leaving :: manager where
  "demo_leaving = set_record ''v'' \<lparr>v_id = ''v'', v_public_key = ''k'', v_stake = 10, v_deposit_id = ''d'',
     v_active = False, v_locked_until = 2, v_jailed = False\<rparr> (manager_init demo_crypto ''s'' 1 5 2 None)"

lemma demo_withdraw: "\<exists>r m'. withdraw_validator demo_crypto ''v'' (Some 2) demo_leaving = (Inr r, m')"
  by (simp add: withdraw_validator_def demo_leaving_def set_record_def manager_init_def refresh_def thenS_def Let_def)

theorem withdraw_waits_witness:
  "\<exists>r m'. withdraw_validator demo_crypto ''v'' (Some 2) demo_leaving = (Inr r, m')
     \<and> (\<exists>v. map_of (m_records demo_leaving) ''v'' = Some v \<and> \<not> v_active v
         \<and> v_locked_until v \<le> (case Some 2 of None \<Rightarrow> m_epoch demo_leaving | Some e \<Rightarrow> e))"
  using demo_withdraw withdraw_waits [of demo_crypto "''v''" "Some 2" demo_leaving] by blast

subsection \<open>Where the two ledgers of stake come apart\<close>

definition demo_evidence :: slash_evidence where
  "demo_evidence = \<lparr>se_offender = ''v'', se_epoch = 0, se_first = ''a'', se_second = ''b'', se_witnesses = [],
     se_id = slash_evidence_id demo_crypto ''v'' 0 ''a'' ''b'' []\<rparr>"

text \<open>
  Slashing brings an exited validator back: \<open>slash\<close> recomputes the active flag from the stake
  that is left and not from the old flag, so evidence against a validator that has exited, with a
  partial penalty, makes it a voting validator again, and its withdrawal then raises.
\<close>

theorem slash_revives_exited:
  "\<exists>v u m1 m2. map_of (m_records demo_leaving) ''v'' = Some v \<and> \<not> v_active v
     \<and> slash_validator demo_crypto demo_evidence (Some 3) demo_leaving = (Inr u, m1)
     \<and> votes u \<and> v_stake u = 7
     \<and> withdraw_validator demo_crypto ''v'' (Some 2) m1 =
         (Inl (MembershipError ''validator is still active''), m2)"
  by (simp add: slash_validator_def demo_evidence_def slash_evidence_verify_def demo_leaving_def
      set_record_def manager_init_def refresh_def thenS_def Let_def has_key_def votes_def
      withdraw_validator_def raise_m_def)

definition demo_backed :: manager where
  "demo_backed = demo_leaving\<lparr>settlement := Some demo_ledger, validator_bonds := [(''v'', ''b1'')]\<rparr>"

text \<open>
  \<open>slash\<close> is not atomic: evidence from a future epoch is refused by the manager only after the
  settlement ledger has slashed the bond and consumed the evidence id.
\<close>

theorem slash_not_atomic:
  "\<exists>m1 l q. slash_validator demo_crypto (demo_evidence\<lparr>se_epoch := 5,
        se_id := slash_evidence_id demo_crypto ''v'' 5 ''a'' ''b'' []\<rparr>) (Some 3) demo_backed =
      (Inl (MembershipError ''slash evidence is from a future epoch''), m1)
    \<and> m_records m1 = m_records demo_backed
    \<and> settlement m1 = Some l \<and> map_of (bonds l) ''b1'' = Some q \<and> pos_amount q = 17"
  by (simp add: slash_validator_def demo_evidence_def slash_evidence_verify_def demo_backed_def demo_leaving_def
      set_record_def manager_init_def refresh_def thenS_def Let_def has_key_def raise_m_def
      on_settlement_def settle_slash_def position_def demo_ledger_def log_event_def credit_def
      set_position_def balance_of_def slash_evidence_id_def demo_digest_ne)

end
