(* ===== verification/Execution.thy ===== *)
theory Execution
  imports Crypto
begin

section \<open>The deterministic executor (mosaic/execution.py)\<close>

text \<open>
  Values are JSON values. Python's \<open>isinstance(v, int)\<close> holds for booleans too, so \<open>as_int\<close> reads
  both and the sum of two such values is an integer. The state is a dictionary from keys to
  values; \<open>None\<close> and a missing key read the same with \<open>get\<close>. \<open>execute\<close> turns an
  \<open>ExecutionError\<close> of its body into a failed receipt and never raises.
\<close>

datatype execution_error = ExecutionError string

definition gas_costs :: "(string, int) dict" where
  "gas_costs = [(''SET'', 10), (''DELETE'', 8), (''ADD_INT'', 12)]"

definition max_key_bytes :: nat where "max_key_bytes = 256"

definition max_value_bytes :: nat where "max_value_bytes = 16 * 1024"

definition compute_state_root :: "crypto \<Rightarrow> (string, json) dict \<Rightarrow> string" where
  "compute_state_root cr st = digest cr (JObj
     [(''protocol'', JStr ''MOSAIC/STATE-ROOT/v1''), (''state'', JObj (sort_key fst st))])"

definition as_int :: "json \<Rightarrow> int option" where
  "as_int v = (case v of JInt i \<Rightarrow> Some i | JBool b \<Rightarrow> Some (if b then 1 else 0) | _ \<Rightarrow> None)"

definition get_value :: "(string, json) dict \<Rightarrow> string \<Rightarrow> json" where
  "get_value st k = (case map_of st k of None \<Rightarrow> JNull | Some v \<Rightarrow> v)"

record instruction =
  i_operation :: string
  i_key :: string
  i_value :: json

definition instruction_validate :: "instruction \<Rightarrow> execution_error + unit" where
  "instruction_validate i =
     (if \<not> has_key gas_costs (i_operation i)
      then Inl (ExecutionError ''unsupported deterministic operation'')
      else if i_key i = [] \<or> length (i_key i) > max_key_bytes
      then Inl (ExecutionError ''execution key is invalid or too large'')
      else if length (canonical_bytes (i_value i)) > max_value_bytes
      then Inl (ExecutionError ''execution value is too large'')
      else if i_operation i = ''ADD_INT'' \<and> as_int (i_value i) = None
      then Inl (ExecutionError ''ADD_INT requires an integer value'')
      else if i_operation i = ''DELETE'' \<and> i_value i \<noteq> JNull
      then Inl (ExecutionError ''DELETE cannot carry a value'')
      else Inr ())"

subsection \<open>Transactions and receipts\<close>

record transaction =
  tx_id :: string
  caller :: string
  caller_public_key :: string
  nonce :: int
  gas_limit :: int
  instructions :: "instruction list"
  tx_signature :: string

definition instruction_json :: "instruction \<Rightarrow> json" where
  "instruction_json i = JObj
     [(''operation'', JStr (i_operation i)), (''key'', JStr (i_key i)), (''value'', i_value i)]"

definition tx_fields :: "string \<Rightarrow> string \<Rightarrow> int \<Rightarrow> int \<Rightarrow> instruction list \<Rightarrow> json" where
  "tx_fields cal pk non gas ins = JObj
     [(''protocol'', JStr ''MOSAIC/EXECUTION-TX/v1''), (''caller'', JStr cal),
      (''caller_public_key'', JStr (hex pk)), (''nonce'', JInt non), (''gas_limit'', JInt gas),
      (''instructions'', JArr (map instruction_json ins))]"

definition transaction_create ::
  "crypto \<Rightarrow> keypair \<Rightarrow> int \<Rightarrow> int \<Rightarrow> instruction list \<Rightarrow> transaction" where
  "transaction_create cr kp non gas ins =
     (let unsigned = tx_fields (identity cr kp) (public_key cr kp) non gas ins
      in \<lparr>tx_id = digest cr unsigned, caller = identity cr kp, caller_public_key = public_key cr kp,
          nonce = non, gas_limit = gas, instructions = ins,
          tx_signature = sign cr kp (canonical_bytes unsigned)\<rparr>)"

definition transaction_statement :: "transaction \<Rightarrow> json" where
  "transaction_statement t =
     tx_fields (caller t) (caller_public_key t) (nonce t) (gas_limit t) (instructions t)"

definition transaction_verify :: "crypto \<Rightarrow> transaction \<Rightarrow> bool" where
  "transaction_verify cr t \<longleftrightarrow> nonce t \<ge> 0 \<and> gas_limit t > 0 \<and> instructions t \<noteq> []
     \<and> tx_id t = digest cr (transaction_statement t)
     \<and> verify cr (caller_public_key t) (canonical_bytes (transaction_statement t)) (tx_signature t)"

record execution_receipt =
  x_tx_id :: string
  pre_state_root :: string
  post_state_root :: string
  gas_used :: int
  event_root :: string
  state_diff_digest :: string
  success :: bool
  x_error :: "string option"

record execution_binding =
  bd_capsule_id :: string
  bd_predecessor_id :: string
  bd_pre_state_root :: string
  bd_receipt_digest :: string
  bd_binding_id :: string

definition receipt_digest :: "crypto \<Rightarrow> execution_receipt \<Rightarrow> string" where
  "receipt_digest cr r = digest cr (JObj
     [(''protocol'', JStr ''MOSAIC/EXECUTION-RECEIPT/v1''), (''tx_id'', JStr (x_tx_id r)),
      (''pre_state_root'', JStr (pre_state_root r)), (''post_state_root'', JStr (post_state_root r)),
      (''gas_used'', JInt (gas_used r)), (''event_root'', JStr (event_root r)),
      (''state_diff_digest'', JStr (state_diff_digest r))])"

definition binding_create ::
  "crypto \<Rightarrow> string \<Rightarrow> string \<Rightarrow> execution_receipt \<Rightarrow> execution_error + execution_binding" where
  "binding_create cr cid pid r =
     (if \<not> success r then Inl (ExecutionError ''cannot bind a failed execution receipt'')
      else if pre_state_root r = [] then Inl (ExecutionError ''execution receipt has no pre-state root'')
      else Inr \<lparr>bd_capsule_id = cid, bd_predecessor_id = pid, bd_pre_state_root = pre_state_root r,
                bd_receipt_digest = receipt_digest cr r,
                bd_binding_id = digest cr (JObj
                  [(''protocol'', JStr ''MOSAIC/EXECUTION-BINDING/v1''), (''capsule_id'', JStr cid),
                   (''predecessor_id'', JStr pid), (''pre_state_root'', JStr (pre_state_root r)),
                   (''receipt_digest'', JStr (receipt_digest cr r))])\<rparr>)"

definition binding_verify ::
  "crypto \<Rightarrow> execution_binding \<Rightarrow> execution_receipt \<Rightarrow> string \<Rightarrow> string \<Rightarrow> execution_error + bool" where
  "binding_verify cr b r cid pid =
     (if cid \<noteq> bd_capsule_id b \<or> pid \<noteq> bd_predecessor_id b then Inr False
      else bindE (binding_create cr cid pid r) (\<lambda>rebuilt. Inr (rebuilt = b)))"

subsection \<open>The executor\<close>

record executor =
  x_state :: "(string, json) dict"
  max_instructions :: int
  nonces :: "(string, int) dict"
  receipts :: "(string, execution_receipt) dict"

definition executor_init :: "(string, json) dict option \<Rightarrow> int \<Rightarrow> executor" where
  "executor_init st limit = \<lparr>x_state = (case st of None \<Rightarrow> [] | Some d \<Rightarrow> d), max_instructions = limit,
     nonces = [], receipts = []\<rparr>"

definition executor_root :: "crypto \<Rightarrow> executor \<Rightarrow> string" where
  "executor_root cr x = compute_state_root cr (x_state x)"

definition gas_of :: "instruction \<Rightarrow> int" where
  "gas_of i = (case map_of gas_costs (i_operation i) of None \<Rightarrow> 0 | Some g \<Rightarrow> g)"

text \<open>The three branches on the staged copy.\<close>

definition apply_instruction ::
  "instruction \<Rightarrow> (string, json) dict \<Rightarrow> execution_error + (string, json) dict" where
  "apply_instruction i staged =
     (if i_operation i = ''SET'' then Inr (AList.update (i_key i) (i_value i) staged)
      else if i_operation i = ''DELETE'' then Inr (AList.delete (i_key i) staged)
      else if i_operation i = ''ADD_INT''
      then (case as_int (case map_of staged (i_key i) of None \<Rightarrow> JInt 0 | Some v \<Rightarrow> v) of
              None \<Rightarrow> Inl (ExecutionError ''ADD_INT target is not an integer'')
            | Some a \<Rightarrow> Inr (AList.update (i_key i)
                (JInt (a + (case as_int (i_value i) of None \<Rightarrow> 0 | Some b \<Rightarrow> b))) staged))
      else Inr staged)"

definition event_json :: "instruction \<Rightarrow> json \<Rightarrow> json \<Rightarrow> json" where
  "event_json i before after = JObj
     [(''operation'', JStr (i_operation i)), (''key'', JStr (i_key i)), (''before'', before),
      (''after'', after)]"

text \<open>The instruction loop: staged state, events so far, gas so far.\<close>

fun run_instructions ::
  "int \<Rightarrow> instruction list \<Rightarrow> (string, json) dict \<Rightarrow> json list \<Rightarrow> int \<Rightarrow>
   execution_error + ((string, json) dict \<times> json list \<times> int)" where
  "run_instructions limit [] staged events gas = Inr (staged, events, gas)"
| "run_instructions limit (i # is) staged events gas =
     bindE (instruction_validate i) (\<lambda>_.
       let gas' = gas + gas_of i in
       if gas' > limit then Inl (ExecutionError ''gas limit exceeded'')
       else bindE (apply_instruction i staged) (\<lambda>staged'.
         run_instructions limit is staged'
           (events @ [event_json i (get_value staged (i_key i)) (get_value staged' (i_key i))]) gas'))"

definition diff_digest :: "crypto \<Rightarrow> (string, json) dict \<Rightarrow> (string, json) dict \<Rightarrow> string" where
  "diff_digest cr before after = digest cr (JObj [(''before'', JObj before), (''after'', JObj after)])"

definition expected_nonce :: "executor \<Rightarrow> string \<Rightarrow> int" where
  "expected_nonce x c = (case map_of (nonces x) c of None \<Rightarrow> 0 | Some n \<Rightarrow> n)"

text \<open>The body of the \<open>try\<close>, up to the point where the executor is changed.\<close>

definition try_execute ::
  "crypto \<Rightarrow> transaction \<Rightarrow> executor \<Rightarrow> execution_error + ((string, json) dict \<times> json list \<times> int)" where
  "try_execute cr t x =
     (if \<not> transaction_verify cr t
      then Inl (ExecutionError ''invalid execution transaction signature or digest'')
      else if int (length (instructions t)) > max_instructions x
      then Inl (ExecutionError ''instruction count exceeds limit'')
      else if nonce t \<noteq> expected_nonce x (caller t)
      then Inl (ExecutionError ''invalid transaction nonce'')
      else run_instructions (gas_limit t) (instructions t) (x_state x) [] 0)"

definition execute :: "crypto \<Rightarrow> transaction \<Rightarrow> executor \<Rightarrow> execution_receipt \<times> executor" where
  "execute cr t x =
     (case map_of (receipts x) (tx_id t) of
        Some r \<Rightarrow> (r, x)
      | None \<Rightarrow>
          let pre = executor_root cr x in
          (case try_execute cr t x of
             Inr (staged, events, gas) \<Rightarrow>
               let r = \<lparr>x_tx_id = tx_id t, pre_state_root = pre,
                        post_state_root = compute_state_root cr staged, gas_used = gas,
                        event_root = digest cr (JArr events),
                        state_diff_digest = diff_digest cr (x_state x) staged,
                        success = True, x_error = None\<rparr>
               in (r, x\<lparr>x_state := staged,
                        nonces := AList.update (caller t) (expected_nonce x (caller t) + 1) (nonces x),
                        receipts := AList.update (tx_id t) r (receipts x)\<rparr>)
           | Inl (ExecutionError msg) \<Rightarrow>
               let r = \<lparr>x_tx_id = tx_id t, pre_state_root = pre, post_state_root = pre, gas_used = 0,
                        event_root = digest cr (JArr []),
                        state_diff_digest = diff_digest cr (x_state x) (x_state x),
                        success = False, x_error = Some msg\<rparr>
               in (r, x\<lparr>receipts := AList.update (tx_id t) r (receipts x)\<rparr>)))"

fun execute_all :: "crypto \<Rightarrow> transaction list \<Rightarrow> executor \<Rightarrow> execution_receipt list \<times> executor" where
  "execute_all cr [] x = ([], x)"
| "execute_all cr (t # ts) x =
     (let (r, x1) = execute cr t x; (rs, x2) = execute_all cr ts x1 in (r # rs, x2))"

definition execute_batch ::
  "crypto \<Rightarrow> transaction list \<Rightarrow> executor \<Rightarrow> (executor, execution_error, execution_receipt list) outcome" where
  "execute_batch cr ts x =
     (if ts = [] then (Inl (ExecutionError ''empty execution batch''), x)
      else (let (rs, x') = execute_all cr ts x in
        if \<not> (\<forall>r \<in> set rs. success r)
        then (Inl (ExecutionError ''execution batch reverted atomically''),
              x'\<lparr>x_state := x_state x, nonces := nonces x, receipts := receipts x\<rparr>)
        else (Inr rs, x')))"

end
