(* ===== verification/Execution_Protocol.thy ===== *)
theory Execution_Protocol
  imports Execution Protocol
begin

section \<open>Execution under a closure (execution.py, protocol.py)\<close>

text \<open>
  \<open>execute_for_capsule\<close> and \<open>MosaicProtocol.apply_execution\<close>: the state is the executor, and for
  the second the pair of the protocol and the executor. \<open>apply_execution\<close> restores the executor
  when anything raises, not the protocol.
\<close>

datatype joint_error = FromExecution execution_error | FromProtocol mosaic_error

definition restore :: "executor \<Rightarrow> executor \<Rightarrow> executor" where
  "restore saved x = x\<lparr>x_state := x_state saved, nonces := nonces saved, receipts := receipts saved\<rparr>"

definition exec_error :: "string \<Rightarrow> joint_error" where
  "exec_error msg = FromExecution (ExecutionError msg)"

definition execute_for_capsule ::
  "crypto \<Rightarrow> transaction \<Rightarrow> capsule \<Rightarrow> closure_proof \<Rightarrow> protocol \<Rightarrow> executor \<Rightarrow>
   (executor, joint_error, execution_receipt \<times> execution_binding) outcome" where
  "execute_for_capsule cr t c cl p x =
     (if capsule_id c \<noteq> c_capsule_id cl then (Inl (exec_error ''closure does not belong to capsule''), x)
      else (case verify_closure cr p c cl of
        Inl e \<Rightarrow> (Inl (FromProtocol e), x)
      | Inr ok \<Rightarrow>
          if \<not> ok then (Inl (exec_error ''execution requires a verified closure''), x)
          else (case map_of (known_seals p) (predecessor_id c) of
            None \<Rightarrow> (Inl (exec_error ''executor state does not match capsule predecessor''), x)
          | Some pred \<Rightarrow>
              if state_root pred \<noteq> executor_root cr x
              then (Inl (exec_error ''executor state does not match capsule predecessor''), x)
              else if rule_witness c \<noteq> tx_id t
              then (Inl (exec_error ''capsule rule witness is not this transaction''), x)
              else if successor_root c = state_root pred
              then (Inl (exec_error ''capsule successor root does not advance state''), x)
              else (let (r, x') = execute cr t x in
                if \<not> success r \<or> pre_state_root r \<noteq> state_root pred
                   \<or> post_state_root r \<noteq> successor_root c
                then (Inl (exec_error ''execution receipt does not match capsule state roots''), restore x x')
                else (case binding_create cr (capsule_id c) (predecessor_id c) r of
                  Inl e \<Rightarrow> (Inl (FromExecution e), x')
                | Inr b \<Rightarrow> (Inr (r, b), x'))))))"

definition apply_execution ::
  "crypto \<Rightarrow> capsule \<Rightarrow> closure_proof \<Rightarrow> transaction \<Rightarrow> protocol \<times> executor \<Rightarrow>
   (protocol \<times> executor, joint_error, state_seal \<times> execution_receipt \<times> execution_binding) outcome" where
  "apply_execution cr c cl t s =
     (let (p, x) = s in
      case execute_for_capsule cr t c cl p x of
        (Inl e, x') \<Rightarrow> (Inl e, (p, restore x x'))
      | (Inr (r, b), x') \<Rightarrow>
          (case apply_closure cr c cl p of
             (Inl e, p') \<Rightarrow> (Inl (FromProtocol e), (p', restore x x'))
           | (Inr seal, p') \<Rightarrow>
               if state_root seal \<noteq> post_state_root r
               then (Inl (FromProtocol (ClosureInvalid ''applied seal does not match execution receipt'')),
                     (p', restore x x'))
               else (Inr (seal, r, b), (p', x'))))"

end
