(* ===== verification/Execution_Props.thy ===== *)
theory Execution_Props
  imports Execution_Protocol Liveness
begin

section \<open>Atomicity and agreement of execution\<close>

text \<open>
  A transaction takes effect as a whole or not at all, within its gas limit and its nonce; a
  batch does too; and an execution applied under a closure leaves an executor whose root is the
  root of the seal, unless the receipt was an old one.
\<close>

subsection \<open>One transaction\<close>

lemma gas_positive: "instruction_validate i = Inr () \<Longrightarrow> 0 < gas_of i"
  by (auto simp: instruction_validate_def gas_of_def gas_costs_def has_key_def split: if_splits)

lemma run_instructions_gas:
  "run_instructions limit ins st ev gas = Inr (st', ev', gas') \<Longrightarrow>
   gas' = gas + sum_list (map gas_of ins) \<and> gas \<le> gas' \<and> (ins \<noteq> [] \<longrightarrow> gas < gas' \<and> gas' \<le> limit)
   \<and> length ev' = length ev + length ins"
proof (induction ins arbitrary: st ev gas)
  case (Cons i ins)
  then obtain st1 where v: "instruction_validate i = Inr ()" and lim: "gas + gas_of i \<le> limit"
    and rest: "run_instructions limit ins st1
      (ev @ [event_json i (get_value st (i_key i)) (get_value st1 (i_key i))]) (gas + gas_of i) = Inr (st', ev', gas')"
    by (auto simp: bindE_Inr_iff Let_def split: if_splits)
  from Cons.IH [OF rest] gas_positive [OF v] lim show ?case by (cases ins) auto
qed simp

lemma execute_fresh:
  assumes "map_of (receipts x) (tx_id t) = None" "execute cr t x = (r, x')"
  obtains (ok) staged events gas where "try_execute cr t x = Inr (staged, events, gas)" "success r"
      "x_state x' = staged" "gas_used r = gas" "post_state_root r = compute_state_root cr staged"
      "pre_state_root r = executor_root cr x" "event_root r = digest cr (JArr events)"
      "nonces x' = AList.update (caller t) (expected_nonce x (caller t) + 1) (nonces x)"
      "receipts x' = AList.update (tx_id t) r (receipts x)" "max_instructions x' = max_instructions x"
  | (failed) msg where "try_execute cr t x = Inl (ExecutionError msg)" "\<not> success r" "x_error r = Some msg"
      "x' = x\<lparr>receipts := AList.update (tx_id t) r (receipts x)\<rparr>"
      "pre_state_root r = executor_root cr x" "post_state_root r = executor_root cr x" "gas_used r = 0"
proof (cases "try_execute cr t x")
  case (Inl e)
  with assms show ?thesis by (cases e) (auto simp: execute_def Let_def intro: failed)
next
  case (Inr out)
  obtain staged events gas where "out = (staged, events, gas)" by (cases out) auto
  with Inr assms show ?thesis by (auto simp: execute_def Let_def intro: ok)
qed

lemma try_execute_Inr:
  "try_execute cr t x = Inr (staged, events, gas) \<Longrightarrow>
   transaction_verify cr t \<and> nonce t = expected_nonce x (caller t)
   \<and> int (length (instructions t)) \<le> max_instructions x
   \<and> run_instructions (gas_limit t) (instructions t) (x_state x) [] 0 = Inr (staged, events, gas)"
  by (auto simp: try_execute_def split: if_splits)

text \<open>
  C28. A transaction is atomic: executing one the executor has not seen either succeeds, and then
  the state is what its instructions compute, the gas used is the sum of their costs and within
  the limit, and the caller's nonce was the expected one and moves by one; or it fails, and
  state and nonces are untouched. Executing it again returns the same receipt and changes nothing.
\<close>

theorem execute_atomic:
  assumes "map_of (receipts x) (tx_id t) = None" "execute cr t x = (r, x')"
  shows "(if success r
      then (\<exists>events. run_instructions (gas_limit t) (instructions t) (x_state x) [] 0 =
              Inr (x_state x', events, gas_used r))
        \<and> gas_used r = sum_list (map gas_of (instructions t)) \<and> 0 < gas_used r \<and> gas_used r \<le> gas_limit t
        \<and> nonce t = expected_nonce x (caller t) \<and> expected_nonce x' (caller t) = nonce t + 1
      else x_state x' = x_state x \<and> nonces x' = nonces x)
    \<and> pre_state_root r = executor_root cr x \<and> post_state_root r = executor_root cr x'
    \<and> execute cr t x' = (r, x')"
  using assms
proof (cases rule: execute_fresh)
  case (ok staged events gas)
  note run = try_execute_Inr [OF ok(1)]
  then have "instructions t \<noteq> []" by (simp add: transaction_verify_def)
  with run_instructions_gas [of "gas_limit t" "instructions t" "x_state x" "[]" 0 staged events gas] run ok
  show ?thesis by (simp add: executor_root_def expected_nonce_def execute_def)
next
  case (failed msg)
  then show ?thesis by (simp add: executor_root_def execute_def)
qed

definition demo_tx :: transaction where
  "demo_tx = transaction_create demo_crypto \<lparr>private_bytes = ''alice''\<rparr> 0 100
     [\<lparr>i_operation = ''SET'', i_key = ''k'', i_value = JInt 1\<rparr>]"

definition demo_undo :: transaction where
  "demo_undo = transaction_create demo_crypto \<lparr>private_bytes = ''alice''\<rparr> 1 100
     [\<lparr>i_operation = ''DELETE'', i_key = ''k'', i_value = JNull\<rparr>]"

lemma create_verifies:
  "sound_signatures cr \<Longrightarrow> 0 \<le> non \<Longrightarrow> 0 < gas \<Longrightarrow> ins \<noteq> [] \<Longrightarrow>
   transaction_verify cr (transaction_create cr kp non gas ins)"
  by (simp add: transaction_verify_def transaction_create_def transaction_statement_def Let_def)

lemma demo_txs [simp]:
  "transaction_verify demo_crypto demo_tx" "nonce demo_tx = 0" "gas_limit demo_tx = 100"
  "instructions demo_tx = [\<lparr>i_operation = ''SET'', i_key = ''k'', i_value = JInt 1\<rparr>]"
  "transaction_verify demo_crypto demo_undo" "nonce demo_undo = 1" "gas_limit demo_undo = 100"
  "instructions demo_undo = [\<lparr>i_operation = ''DELETE'', i_key = ''k'', i_value = JNull\<rparr>]"
  "caller demo_undo = caller demo_tx"
  by (simp_all add: demo_tx_def demo_undo_def create_verifies) (simp_all add: transaction_create_def Let_def)

lemma small_value: "length (canonical_bytes (JInt 1)) \<le> max_value_bytes"
    "length (canonical_bytes JNull) \<le> max_value_bytes"
  by (simp_all add: max_value_bytes_def int_str_def nat_str.simps)

lemma demo_execute_ok:
  "try_execute demo_crypto demo_tx (executor_init None 8) =
   Inr ([(''k'', JInt 1)], [event_json \<lparr>i_operation = ''SET'', i_key = ''k'', i_value = JInt 1\<rparr> JNull (JInt 1)], 10)"
  using small_value
  by (simp add: try_execute_def executor_init_def expected_nonce_def instruction_validate_def gas_costs_def
      has_key_def max_key_bytes_def gas_of_def apply_instruction_def get_value_def not_less)

theorem execute_atomic_witness:
  "\<exists>r x'. execute demo_crypto demo_tx (executor_init None 8) = (r, x') \<and> success r
     \<and> gas_used r = 10 \<and> execute demo_crypto demo_tx x' = (r, x')"
proof -
  obtain r x' where e: "execute demo_crypto demo_tx (executor_init None 8) = (r, x')" by fastforce
  have fresh: "map_of (receipts (executor_init None 8)) (tx_id demo_tx) = None" by (simp add: executor_init_def)
  from fresh e have "success r" "gas_used r = 10"
    by (cases rule: execute_fresh; simp add: demo_execute_ok)+
  with execute_atomic [OF fresh e] e show ?thesis by blast
qed

subsection \<open>Batches\<close>

lemma execute_max: "execute cr t x = (r, x') \<Longrightarrow> max_instructions x' = max_instructions x"
  by (auto simp: execute_def Let_def split: option.splits sum.splits execution_error.splits prod.splits)

lemma execute_all_max:
  "execute_all cr ts x = (rs, x') \<Longrightarrow> max_instructions x' = max_instructions x \<and> length rs = length ts"
  by (induction ts arbitrary: x rs) (auto simp: Let_def dest: execute_max split: prod.splits)

text \<open>
  A batch is atomic: \<open>execute_batch\<close> returns only successful receipts, one per transaction, or
  it raises and leaves the executor, its nonces and its receipts exactly as they were.
\<close>

theorem execute_batch_atomic:
  "case execute_batch cr ts x of
     (Inl e, x') \<Rightarrow> x' = x
   | (Inr rs, x') \<Rightarrow> length rs = length ts \<and> list_all success rs \<and> execute_all cr ts x = (rs, x')"
proof -
  obtain rs x' where e: "execute_all cr ts x = (rs, x')" by fastforce
  from execute_all_max [OF e] have m: "max_instructions x' = max_instructions x" "length rs = length ts" by blast+
  have "x'\<lparr>x_state := x_state x, nonces := nonces x, receipts := receipts x\<rparr> = x"
    using m(1) by (cases x; cases x') simp
  with e m show ?thesis by (auto simp: execute_batch_def list_all_iff)
qed

subsection \<open>Execution under a closure\<close>

lemma restore_same: "max_instructions x' = max_instructions x \<Longrightarrow> restore x x' = x"
  by (cases x; cases x') (simp add: restore_def)

lemma execute_for_capsule_max:
  "execute_for_capsule cr t c cl p x = (res, x') \<Longrightarrow> max_instructions x' = max_instructions x"
  by (auto simp: execute_for_capsule_def Let_def restore_def dest: execute_max
      split: if_splits sum.splits option.splits prod.splits)

lemma execute_for_capsule_Inr:
  assumes "execute_for_capsule cr t c cl p x = (Inr (r, b), x')"
  shows "execute cr t x = (r, x') \<and> success r \<and> post_state_root r = successor_root c
    \<and> pre_state_root r = executor_root cr x \<and> verify_closure cr p c cl = Inr True
    \<and> binding_create cr (capsule_id c) (predecessor_id c) r = Inr b"
  using assms
  by (auto simp: execute_for_capsule_def Let_def split: if_splits sum.splits option.splits prod.splits)

lemma binding_roundtrip:
  "binding_create cr cid pid r = Inr b \<Longrightarrow> binding_verify cr b r cid pid = Inr True"
  by (auto simp: binding_verify_def) (auto simp: binding_create_def split: if_splits)

text \<open>
  Seal and execution agree: when \<open>apply_execution\<close> returns, the receipt is successful, its
  post-state root is the root of the seal and of the capsule, and the binding verifies; if the
  transaction had not been executed before, the executor's own root is that of the seal. When
  anything raises, the executor is exactly as it was.
\<close>

theorem apply_execution_agrees:
  assumes "apply_execution cr c cl t (p, x) = (res, (p', x'))"
  shows "case res of Inl e \<Rightarrow> x' = x
    | Inr (seal, r, b) \<Rightarrow> success r \<and> state_root seal = post_state_root r
        \<and> post_state_root r = successor_root c
        \<and> binding_verify cr b r (capsule_id c) (predecessor_id c) = Inr True
        \<and> (map_of (receipts x) (tx_id t) = None \<longrightarrow> executor_root cr x' = state_root seal)"
proof -
  obtain er x1 where e: "execute_for_capsule cr t c cl p x = (er, x1)" by fastforce
  note undone = restore_same [OF execute_for_capsule_max [OF e]]
  show ?thesis
  proof (cases er)
    case (Inl err)
    with assms e undone show ?thesis by (auto simp: apply_execution_def)
  next
    case (Inr out)
    obtain r b where out: "out = (r, b)" by (cases out)
    with Inr e have "execute_for_capsule cr t c cl p x = (Inr (r, b), x1)" by simp
    note ex = execute_for_capsule_Inr [OF this]
    obtain ar p1 where a: "apply_closure cr c cl p = (ar, p1)" by fastforce
    show ?thesis
    proof (cases "\<exists>seal. ar = Inr seal \<and> state_root seal = post_state_root r")
      case False
      with assms e Inr out a undone show ?thesis
        by (cases ar) (auto simp: apply_execution_def)
    next
      case True
      then obtain seal where seal: "ar = Inr seal" "state_root seal = post_state_root r" by blast
      with assms e Inr out a have res: "res = Inr (seal, r, b)" and x': "x' = x1"
        by (simp_all add: apply_execution_def)
      have "executor_root cr x1 = post_state_root r" if "map_of (receipts x) (tx_id t) = None"
        using that ex[THEN conjunct1]
      proof (cases rule: execute_fresh)
        case (ok staged events gas)
        then show ?thesis by (simp add: executor_root_def)
      next
        case (failed msg)
        with ex show ?thesis by simp
      qed
      with res x' seal ex binding_roundtrip show ?thesis by simp
    qed
  qed
qed

subsection \<open>A concrete execution\<close>

definition exec_seal :: state_seal where
  "exec_seal = \<lparr>resource_id = ''doc'', seal_epoch = 0, version = 0,
     state_root = compute_state_root demo_crypto [], capability_hash = ''h'', owner = ''alice''\<rparr>"

definition exec_capsule :: capsule where
  "exec_capsule = capsule_create demo_crypto \<lparr>private_bytes = ''alice''\<rparr> exec_seal
     (compute_state_root demo_crypto [(''k'', JInt 1)]) ''rule'' (tx_id demo_tx) 0 None"

definition exec_protocol :: protocol where
  "exec_protocol = demo_start\<lparr>current_seals := [(''doc'', exec_seal)],
     known_seals := [(seal_id demo_crypto exec_seal, exec_seal)]\<rparr>"

lemma exec_capsule_fields [simp]:
  "predecessor_id exec_capsule = seal_id demo_crypto exec_seal" "attempt exec_capsule = 0"
  "capsule_epoch exec_capsule = 0" "rule_witness exec_capsule = tx_id demo_tx"
  "successor_root exec_capsule = compute_state_root demo_crypto [(''k'', JInt 1)]"
  "client_public_key exec_capsule = ''alice''" "client_signature exec_capsule = ''alice''"
  by (simp_all add: exec_capsule_def capsule_create_def Let_def exec_seal_def)

lemma exec_roots [simp]:
  "compute_state_root demo_crypto [(''k'', JInt 1)] \<noteq> []" "compute_state_root demo_crypto [] \<noteq> []"
  "compute_state_root demo_crypto [(''k'', JInt 1)] \<noteq> compute_state_root demo_crypto []"
proof -
  show "compute_state_root demo_crypto [(''k'', JInt 1)] \<noteq> compute_state_root demo_crypto []"
  proof
    assume "compute_state_root demo_crypto [(''k'', JInt 1)] = compute_state_root demo_crypto []"
    from digest_norm [OF this [unfolded compute_state_root_def] demo_no_collision] show False by simp
  qed
qed (simp_all add: compute_state_root_def demo_digest_ne)

lemma exec_states [simp]:
  "members exec_protocol = [(''v1'', demo_member)]" "epoch exec_protocol = 0" "locks exec_protocol = []"
  "conflicts exec_protocol = []" "current_seals exec_protocol = [(''doc'', exec_seal)]"
  "known_seals exec_protocol = [(seal_id demo_crypto exec_seal, exec_seal)]" "closures exec_protocol = []"
  by (simp_all add: exec_protocol_def demo_start_def protocol_init_def)

text \<open>A state with a registered closure for the capsule, by closing it.\<close>

lemma exec_closed:
  obtains cl p where "verify_closure demo_crypto p exec_capsule cl = Inr True"
    "has_key (closures p) (capsule_id exec_capsule)" "c_capsule_id cl = capsule_id exec_capsule"
    "known_seals p = [(seal_id demo_crypto exec_seal, exec_seal)]" "current_seals p = [(''doc'', exec_seal)]"
proof -
  have valid: "validate_capsule demo_crypto exec_protocol exec_capsule = Inr ()"
    by (simp add: validate_capsule_def verify_client_signature_def) (simp add: exec_seal_def)
  have "free_predecessor demo_crypto exec_protocol exec_capsule"
    by (simp add: free_predecessor_def has_conflict_def) (simp add: exec_seal_def)
  moreover have "keys_loaded exec_protocol" "0 < total_weight exec_protocol" "wf_members exec_protocol"
    by (simp_all add: keys_loaded_def demo_member_def total_weight_def demo_wf)
  ultimately obtain cl p where
    reg: "register_closure demo_crypto exec_capsule cl (lock_as exec_capsule ''ACCEPT'' exec_protocol) = (Inr (), p)"
    using close_free [OF demo_sound _ _ _ valid] by blast
  from register_closure_frame [OF reg] have same: "members p = members (lock_as exec_capsule ''ACCEPT'' exec_protocol)"
    "capsules p = capsules (lock_as exec_capsule ''ACCEPT'' exec_protocol)"
    "epoch p = epoch (lock_as exec_capsule ''ACCEPT'' exec_protocol)"
    "known_seals p = known_seals exec_protocol" "current_seals p = current_seals exec_protocol" by simp_all
  from reg have "verify_closure demo_crypto (lock_as exec_capsule ''ACCEPT'' exec_protocol) exec_capsule cl = Inr True"
    by (cases rule: register_closure_cases) simp_all
  with verify_closure_cong [OF same(1-3)] have v: "verify_closure demo_crypto p exec_capsule cl = Inr True" by simp
  from reg have k: "has_key (closures p) (capsule_id exec_capsule)"
    by (cases rule: register_closure_cases) (simp_all add: has_key_def)
  from v have "c_capsule_id cl = capsule_id exec_capsule" by (simp add: verify_closure_valid valid_closure_def)
  with that v k same(4,5) show ?thesis by simp
qed

lemma exec_applies:
  assumes "verify_closure demo_crypto p exec_capsule cl = Inr True"
    "has_key (closures p) (capsule_id exec_capsule)" "c_capsule_id cl = capsule_id exec_capsule"
    "known_seals p = [(seal_id demo_crypto exec_seal, exec_seal)]" "current_seals p = [(''doc'', exec_seal)]"
    and run: "execute demo_crypto demo_tx x = (r, x')" "success r"
      "pre_state_root r = compute_state_root demo_crypto []" "executor_root demo_crypto x = compute_state_root demo_crypto []"
      "post_state_root r = compute_state_root demo_crypto [(''k'', JInt 1)]"
  shows "\<exists>seal b p'. apply_execution demo_crypto exec_capsule cl demo_tx (p, x) = (Inr (seal, r, b), (p', x'))
    \<and> state_root seal = compute_state_root demo_crypto [(''k'', JInt 1)]"
proof -
  obtain b where b: "binding_create demo_crypto (capsule_id exec_capsule) (predecessor_id exec_capsule) r = Inr b"
    using run by (simp add: binding_create_def)
  have root: "state_root exec_seal = compute_state_root demo_crypto []" "resource_id exec_seal = ''doc''"
    by (simp_all add: exec_seal_def)
  have e: "execute_for_capsule demo_crypto demo_tx exec_capsule cl p x = (Inr (r, b), x')"
    using assms b root by (simp add: execute_for_capsule_def)
  have a: "apply_closure demo_crypto exec_capsule cl p =
      (Inr (successor_seal demo_crypto exec_seal exec_capsule),
       install_seal demo_crypto (successor_seal demo_crypto exec_seal exec_capsule) p)"
    using assms(1-5) root by (simp add: apply_closure_def Let_def)
  show ?thesis using e a run by (simp add: apply_execution_def successor_seal_def)
qed

lemma demo_run_tx:
  obtains r x' where "execute demo_crypto demo_tx (executor_init None 8) = (r, x')" "success r"
    "pre_state_root r = compute_state_root demo_crypto []"
    "post_state_root r = compute_state_root demo_crypto [(''k'', JInt 1)]"
    "x_state x' = [(''k'', JInt 1)]" "expected_nonce x' (caller demo_tx) = 1"
    "receipts x' = [(tx_id demo_tx, r)]" "max_instructions x' = 8"
proof -
  obtain r x' where e: "execute demo_crypto demo_tx (executor_init None 8) = (r, x')" by fastforce
  have fresh: "map_of (receipts (executor_init None 8)) (tx_id demo_tx) = None" by (simp add: executor_init_def)
  from fresh e have "success r" "x_state x' = [(''k'', JInt 1)]"
    "post_state_root r = compute_state_root demo_crypto [(''k'', JInt 1)]"
    "pre_state_root r = executor_root demo_crypto (executor_init None 8)"
    "nonces x' = AList.update (caller demo_tx) (expected_nonce (executor_init None 8) (caller demo_tx) + 1)
       (nonces (executor_init None 8))"
    "receipts x' = AList.update (tx_id demo_tx) r (receipts (executor_init None 8))"
    "max_instructions x' = max_instructions (executor_init None 8)"
    by (cases rule: execute_fresh; simp add: demo_execute_ok)+
  with e that show ?thesis
    by (simp add: executor_root_def executor_init_def expected_nonce_def)
qed

theorem apply_execution_agrees_witness:
  "\<exists>cl p seal r b p' x'. apply_execution demo_crypto exec_capsule cl demo_tx (p, executor_init None 8) =
      (Inr (seal, r, b), (p', x')) \<and> executor_root demo_crypto x' = state_root seal"
proof -
  obtain cl p where p: "verify_closure demo_crypto p exec_capsule cl = Inr True"
    "has_key (closures p) (capsule_id exec_capsule)" "c_capsule_id cl = capsule_id exec_capsule"
    "known_seals p = [(seal_id demo_crypto exec_seal, exec_seal)]" "current_seals p = [(''doc'', exec_seal)]"
    by (rule exec_closed)
  obtain r x' where run: "execute demo_crypto demo_tx (executor_init None 8) = (r, x')" "success r"
    "pre_state_root r = compute_state_root demo_crypto []"
    "post_state_root r = compute_state_root demo_crypto [(''k'', JInt 1)]" by (rule demo_run_tx)
  have "executor_root demo_crypto (executor_init None 8) = compute_state_root demo_crypto []"
    by (simp add: executor_root_def executor_init_def)
  from exec_applies [OF p run(1-3) this run(4)] obtain seal b p' where
    a: "apply_execution demo_crypto exec_capsule cl demo_tx (p, executor_init None 8) = (Inr (seal, r, b), (p', x'))"
    by blast
  from apply_execution_agrees [OF a] have "executor_root demo_crypto x' = state_root seal"
    by (simp add: executor_init_def)
  with a show ?thesis by blast
qed

text \<open>
  An old receipt can stand in for an execution: \<open>execute\<close> returns the cached receipt of a
  transaction it has seen, so after the transaction has run and a later one has undone its
  effect, a capsule for it is applied: the seal gets the post-state root of the old receipt
  while the executor stays at the root it had.
\<close>

theorem cached_receipt_diverges:
  "\<exists>r1 r2 x1 x2 cl p seal r b p' x'. execute demo_crypto demo_tx (executor_init None 8) = (r1, x1)
     \<and> execute demo_crypto demo_undo x1 = (r2, x2) \<and> success r1 \<and> success r2
     \<and> apply_execution demo_crypto exec_capsule cl demo_tx (p, x2) = (Inr (seal, r, b), (p', x'))
     \<and> x' = x2 \<and> executor_root demo_crypto x' \<noteq> state_root seal"
proof -
  obtain cl p where p: "verify_closure demo_crypto p exec_capsule cl = Inr True"
    "has_key (closures p) (capsule_id exec_capsule)" "c_capsule_id cl = capsule_id exec_capsule"
    "known_seals p = [(seal_id demo_crypto exec_seal, exec_seal)]" "current_seals p = [(''doc'', exec_seal)]"
    by (rule exec_closed)
  obtain r1 x1 where run: "execute demo_crypto demo_tx (executor_init None 8) = (r1, x1)" "success r1"
    "pre_state_root r1 = compute_state_root demo_crypto []"
    "post_state_root r1 = compute_state_root demo_crypto [(''k'', JInt 1)]"
    "x_state x1 = [(''k'', JInt 1)]" "expected_nonce x1 (caller demo_tx) = 1"
    "receipts x1 = [(tx_id demo_tx, r1)]" "max_instructions x1 = 8" by (rule demo_run_tx)
  have distinct_ids: "tx_id demo_undo \<noteq> tx_id demo_tx"
  proof
    assume "tx_id demo_undo = tx_id demo_tx"
    then have "digest demo_crypto (transaction_statement demo_undo) = digest demo_crypto (transaction_statement demo_tx)"
      by (metis demo_txs(1,5) transaction_verify_def)
    from digest_norm [OF this demo_no_collision] show False
      by (simp add: transaction_statement_def tx_fields_def instruction_json_def)
  qed
  have undo: "try_execute demo_crypto demo_undo x1 =
      Inr ([], [event_json \<lparr>i_operation = ''DELETE'', i_key = ''k'', i_value = JNull\<rparr> (JInt 1) JNull], 8)"
    using run small_value
    by (simp add: try_execute_def instruction_validate_def gas_costs_def has_key_def max_key_bytes_def
        gas_of_def apply_instruction_def get_value_def not_less)
  obtain r2 x2 where e2: "execute demo_crypto demo_undo x1 = (r2, x2)" by fastforce
  have "map_of (receipts x1) (tx_id demo_undo) = None" using run(7) distinct_ids by simp
  from this e2 have x2: "success r2" "x_state x2 = []" "map_of (receipts x2) (tx_id demo_tx) = Some r1"
    by (cases rule: execute_fresh; use undo run(7) distinct_ids in simp)+
  have root: "executor_root demo_crypto x2 = compute_state_root demo_crypto []"
    by (simp add: executor_root_def x2(2))
  have "execute demo_crypto demo_tx x2 = (r1, x2)" by (simp add: execute_def x2(3))
  from exec_applies [OF p this run(2,3) root run(4)] obtain seal b p' where
    "apply_execution demo_crypto exec_capsule cl demo_tx (p, x2) = (Inr (seal, r1, b), (p', x2))"
    "state_root seal = compute_state_root demo_crypto [(''k'', JInt 1)]" by blast
  with run(1,2) e2 x2(1) root show ?thesis by (metis exec_roots(3))
qed

end
