(* ===== verification/Ccd_Models.thy ===== *)
theory Ccd_Models
  imports Crypto "HOL-Library.Product_Lexorder"
begin

section \<open>CCD/NEXUS data models (ccd_nexus/models.py)\<close>

text \<open>
  The objects, operations, votes and certificates of the CCD/NEXUS prototype. Tuples are lists,
  public keys and signatures their bytes; \<open>vars(item)\<close> is the dictionary of the fields. The field
  names carry a short prefix of their class, as HOL record fields share one name space.
\<close>

datatype ccd_error =
    QuorumError string
  | DomainExecutionError string
  | JoinError string
  | CcdMembershipError string
  | ReconfigurationError string
  | CcdKeyError string
  | CcdIndexError string
  | CcdZeroDivision
  | CcdUnknownValidators "string list"

subsection \<open>Objects and operations\<close>

record object_state =
  ob_id :: string
  ob_version :: int
  ob_owner :: string
  ob_payload :: string
  ob_domain :: string

record input_ref =
  in_domain :: string
  in_object :: string
  in_version :: int

record write_intent =
  wr_domain :: string
  wr_object :: string
  wr_version :: int
  new_owner :: string
  new_payload :: string

record operation =
  op_id :: string
  op_epoch :: int
  op_signer :: string
  op_public_key :: string
  op_domains :: "string list"
  op_inputs :: "input_ref list"
  op_writes :: "write_intent list"
  op_parents :: "string list"
  op_nonce :: int
  op_signature :: string

definition object_json :: "object_state \<Rightarrow> json" where
  "object_json ob = JObj
     [(''object_id'', JStr (ob_id ob)), (''version'', JInt (ob_version ob)),
      (''owner'', JStr (ob_owner ob)), (''payload'', JStr (ob_payload ob)),
      (''domain_id'', JStr (ob_domain ob))]"

definition input_json :: "input_ref \<Rightarrow> json" where
  "input_json i = JObj
     [(''domain_id'', JStr (in_domain i)), (''object_id'', JStr (in_object i)),
      (''expected_version'', JInt (in_version i))]"

definition write_json :: "write_intent \<Rightarrow> json" where
  "write_json w = JObj
     [(''domain_id'', JStr (wr_domain w)), (''object_id'', JStr (wr_object w)),
      (''expected_version'', JInt (wr_version w)), (''new_owner'', JStr (new_owner w)),
      (''new_payload'', JStr (new_payload w))]"

definition op_fields ::
  "int \<Rightarrow> string \<Rightarrow> string \<Rightarrow> string list \<Rightarrow> input_ref list \<Rightarrow> write_intent list \<Rightarrow> string list \<Rightarrow>
   int \<Rightarrow> (string \<times> json) list" where
  "op_fields ep who pk doms ins wrs pars non =
     [(''epoch'', JInt ep), (''signer'', JStr who), (''public_key'', JStr (hex pk)),
      (''domain_ids'', JArr (map JStr doms)), (''inputs'', JArr (map input_json ins)),
      (''writes'', JArr (map write_json wrs)), (''parents'', JArr (map JStr pars)),
      (''nonce'', JInt non)]"

text \<open>\<open>tuple(sorted(set(items)))\<close>\<close>

definition sorted_set :: "'a::linorder list \<Rightarrow> 'a list" where
  "sorted_set xs = sort (remdups xs)"

definition operation_create ::
  "crypto \<Rightarrow> keypair \<Rightarrow> int \<Rightarrow> input_ref list \<Rightarrow> write_intent list \<Rightarrow> string list \<Rightarrow> string list \<Rightarrow>
   int \<Rightarrow> operation" where
  "operation_create cr kp ep ins wrs doms pars non =
     (let fields = op_fields ep (identity cr kp) (public_key cr kp) (sorted_set doms) ins wrs
                     (sorted_set pars) non;
          oid = digest cr (JObj fields)
      in \<lparr>op_id = oid, op_epoch = ep, op_signer = identity cr kp, op_public_key = public_key cr kp,
          op_domains = sorted_set doms, op_inputs = ins, op_writes = wrs,
          op_parents = sorted_set pars, op_nonce = non,
          op_signature = sign cr kp (canonical_bytes (JObj ((''op_id'', JStr oid) # fields)))\<rparr>)"

definition signing_payload :: "operation \<Rightarrow> string" where
  "signing_payload oper = canonical_bytes (JObj ((''op_id'', JStr (op_id oper)) #
     op_fields (op_epoch oper) (op_signer oper) (op_public_key oper) (op_domains oper)
       (op_inputs oper) (op_writes oper) (op_parents oper) (op_nonce oper)))"

definition operation_verify :: "crypto \<Rightarrow> operation \<Rightarrow> bool" where
  "operation_verify cr oper = verify cr (op_public_key oper) (signing_payload oper) (op_signature oper)"

definition dependency_digest :: "crypto \<Rightarrow> operation \<Rightarrow> string" where
  "dependency_digest cr oper = digest cr (JObj
     [(''parents'', JArr (map JStr (op_parents oper))),
      (''inputs'', JArr (map input_json (op_inputs oper)))])"

subsection \<open>Votes and certificates\<close>

type_synonym object_versions = "(string \<times> int) list"
type_synonym signature_items = "(string \<times> string) list"

record vote =
  vt_validator :: string
  vt_epoch :: int
  vt_domain :: string
  vt_versions :: object_versions
  vt_op_id :: string
  vt_dependency :: string
  vt_phase :: string
  vt_signature :: string

definition versions_json :: "object_versions \<Rightarrow> json" where
  "versions_json vs = JArr (map (\<lambda>(k, n). JArr [JStr k, JInt n]) vs)"

definition vote_fields ::
  "string \<Rightarrow> int \<Rightarrow> string \<Rightarrow> object_versions \<Rightarrow> string \<Rightarrow> string \<Rightarrow> json" where
  "vote_fields phase ep dm vs oid dep = JObj
     [(''protocol'', JStr ''CCD/NEXUS/v1''), (''phase'', JStr phase), (''epoch'', JInt ep),
      (''domain_id'', JStr dm), (''object_versions'', versions_json vs), (''op_id'', JStr oid),
      (''dependency_digest'', JStr dep)]"

definition vote_statement :: "vote \<Rightarrow> json" where
  "vote_statement v = vote_fields (vt_phase v) (vt_epoch v) (vt_domain v) (vt_versions v)
     (vt_op_id v) (vt_dependency v)"

record certificate =
  ct_id :: string
  ct_epoch :: int
  ct_domains :: "string list"
  ct_op_id :: string
  ct_phase :: string
  ct_signers :: "string list"
  ct_signatures :: signature_items
  ct_statement :: string

record join_certificate =
  jc_id :: string
  jc_epoch :: int
  jc_op_id :: string
  jc_certificates :: "certificate list"
  jc_signers :: "string list"
  jc_signatures :: signature_items
  jc_statement :: string

record epoch_transition_certificate =
  tc_id :: string
  tc_from :: int
  tc_to :: int
  tc_validators :: "string list"
  tc_signers :: "string list"
  tc_signatures :: signature_items
  tc_statement :: string

record state_snapshot =
  sn_id :: string
  sn_epoch :: int
  sn_domain :: string
  sn_root :: string
  sn_signers :: "string list"
  sn_signatures :: signature_items
  sn_statement :: string

record availability_certificate =
  da_id :: string
  da_epoch :: int
  da_op_id :: string
  da_payload :: string
  da_signers :: "string list"
  da_signatures :: signature_items
  da_statement :: string

record abort_certificate =
  ac_id :: string
  ac_epoch :: int
  ac_op_id :: string
  ac_domains :: "string list"
  ac_reason :: string
  ac_signers :: "string list"
  ac_signatures :: signature_items
  ac_statement :: string

record event =
  ev_id :: string
  ev_epoch :: int
  ev_creator :: string
  ev_parents :: "string list"
  ev_operations :: "string list"

subsection \<open>Validators\<close>

record validator =
  va_id :: string
  va_keypair :: keypair
  va_weight :: int
  va_byzantine :: bool

definition sign_vote ::
  "crypto \<Rightarrow> validator \<Rightarrow> int \<Rightarrow> string \<Rightarrow> object_versions \<Rightarrow> string \<Rightarrow> string \<Rightarrow> string \<Rightarrow> vote" where
  "sign_vote cr va ep dm vs oid dep phase =
     \<lparr>vt_validator = va_id va, vt_epoch = ep, vt_domain = dm, vt_versions = vs, vt_op_id = oid,
      vt_dependency = dep, vt_phase = phase,
      vt_signature = sign cr (va_keypair va) (canonical_bytes (vote_fields phase ep dm vs oid dep))\<rparr>"

record epoch_state =
  ep_number :: int
  ep_validators :: "(string, validator) dict"

definition epoch_total_weight :: "epoch_state \<Rightarrow> int" where
  "epoch_total_weight e = sum_list (map va_weight (dict_values (ep_validators e)))"

subsection \<open>Facts\<close>

lemma sorted_set_props [simp]:
  "set (sorted_set xs) = set xs" "distinct (sorted_set xs)" "sorted (sorted_set xs)"
  by (simp_all add: sorted_set_def)

lemma sorted_set_cong: "set xs = set ys \<Longrightarrow> sorted_set xs = sorted_set ys"
  by (rule sorted_distinct_set_unique) simp_all

lemma sorted_set_sort: "distinct xs \<Longrightarrow> sorted_set xs = sort xs"
  by (simp add: sorted_set_def distinct_remdups_id)

lemma created_operation_verifies [simp]:
  "sound_signatures cr \<Longrightarrow> operation_verify cr (operation_create cr kp ep ins wrs doms pars non)"
  by (simp add: operation_verify_def signing_payload_def operation_create_def Let_def)

lemma sign_vote_statement [simp]:
  "vote_statement (sign_vote cr va ep dm vs oid dep phase) = vote_fields phase ep dm vs oid dep"
  by (simp add: vote_statement_def sign_vote_def)

lemma vote_fields_float_free [simp]: "float_free (vote_fields phase ep dm vs oid dep)"
  by (auto simp: vote_fields_def versions_json_def)

end
