(* ===== verification/Quorum.thy ===== *)
theory Quorum
  imports Ccd_Models Safety
begin

section \<open>Quorum committees (ccd_nexus/quorum.py)\<close>

text \<open>
  The committee of a CCD/NEXUS domain: it records signed votes, one statement per validator and
  conflict key, and turns a quorum of them into a certificate. A method of \<open>QuorumCommittee\<close> is a
  function to an outcome; what only reads returns \<open>error + value\<close>. \<open>weight_of\<close> looks every
  identifier up, so it raises \<open>KeyError\<close> for an unknown one; the conjunctions of the verifiers
  evaluate it where Python does. Sets of identifiers are lists of which only the set is used.
\<close>

type_synonym vote_key = "int \<times> string \<times> object_versions \<times> string"

record equivocation_evidence =
  eq_validator :: string
  eq_first :: string
  eq_second :: string
  eq_epoch :: int
  eq_domain :: string
  eq_versions :: object_versions

record qcommittee =
  qc_validators :: "(string, validator) dict"
  qc_votes :: "(vote_key, (string, vote) dict) dict"
  qc_statements :: "(vote_key, (string, string \<times> string) dict) dict"
  qc_evidence :: "equivocation_evidence list"
  message_count :: int
  message_bytes :: int

definition new_committee :: "(string, validator) dict \<Rightarrow> qcommittee" where
  "new_committee vals = \<lparr>qc_validators = vals, qc_votes = [], qc_statements = [], qc_evidence = [],
     message_count = 0, message_bytes = 0\<rparr>"

definition qc_total_weight :: "qcommittee \<Rightarrow> int" where
  "qc_total_weight qc = sum_list (map va_weight (dict_values (qc_validators qc)))"

definition qc_threshold :: "qcommittee \<Rightarrow> int" where
  "qc_threshold qc = (2 * qc_total_weight qc) div 3 + 1"

definition validator_weight :: "qcommittee \<Rightarrow> string \<Rightarrow> int" where
  "validator_weight qc vid = (case map_of (qc_validators qc) vid of None \<Rightarrow> 0 | Some va \<Rightarrow> va_weight va)"

definition known_validators :: "qcommittee \<Rightarrow> string list \<Rightarrow> bool" where
  "known_validators qc vids \<longleftrightarrow> (\<forall>vid \<in> set vids. has_key (qc_validators qc) vid)"

definition qc_weight_of :: "qcommittee \<Rightarrow> string list \<Rightarrow> ccd_error + int" where
  "qc_weight_of qc vids =
     (if known_validators qc vids then Inr (\<Sum>vid \<in> set vids. validator_weight qc vid)
      else Inl (CcdKeyError (hd (filter (\<lambda>vid. \<not> has_key (qc_validators qc) vid) vids))))"

definition reset_metrics :: "qcommittee \<Rightarrow> qcommittee" where
  "reset_metrics qc = qc\<lparr>message_count := 0, message_bytes := 0\<rparr>"

subsection \<open>Recording votes\<close>

definition vote_key_of :: "vote \<Rightarrow> vote_key" where
  "vote_key_of v = (vt_epoch v, vt_domain v, vt_versions v, vt_phase v)"

definition statements_at :: "qcommittee \<Rightarrow> vote_key \<Rightarrow> (string, string \<times> string) dict" where
  "statements_at qc key = (case map_of (qc_statements qc) key of None \<Rightarrow> [] | Some d \<Rightarrow> d)"

definition votes_at :: "qcommittee \<Rightarrow> vote_key \<Rightarrow> (string, vote) dict" where
  "votes_at qc key = (case map_of (qc_votes qc) key of None \<Rightarrow> [] | Some d \<Rightarrow> d)"

definition equivocation :: "vote \<Rightarrow> string \<Rightarrow> equivocation_evidence" where
  "equivocation v first = \<lparr>eq_validator = vt_validator v, eq_first = first, eq_second = vt_op_id v,
     eq_epoch = vt_epoch v, eq_domain = vt_domain v, eq_versions = vt_versions v\<rparr>"

definition count_message :: "vote \<Rightarrow> qcommittee \<Rightarrow> qcommittee" where
  "count_message v qc = qc\<lparr>message_count := message_count qc + 1,
     message_bytes := message_bytes qc
       + int (length (canonical_bytes (vote_statement v)) + length (vt_signature v))\<rparr>"

definition record_vote :: "crypto \<Rightarrow> vote \<Rightarrow> qcommittee \<Rightarrow> (qcommittee, ccd_error, unit) outcome" where
  "record_vote cr v qc =
     (case map_of (qc_validators qc) (vt_validator v) of
        None \<Rightarrow> (Inl (QuorumError ''vote is from an unknown validator''), qc)
      | Some va \<Rightarrow>
          if vt_epoch v < 0 then (Inl (QuorumError ''epoch must be non-negative''), qc)
          else if \<not> verify cr (public_key cr (va_keypair va)) (canonical_bytes (vote_statement v))
                     (vt_signature v)
          then (Inl (QuorumError ''invalid validator signature''), qc)
          else
            (let key = vote_key_of v; stmt = (vt_op_id v, vt_dependency v);
                 known = statements_at qc key; previous = map_of known (vt_validator v);
                 qc1 = qc\<lparr>qc_statements := AList.update key known (qc_statements qc)\<rparr>
             in if previous \<noteq> None \<and> previous \<noteq> Some stmt
                then (Inl (QuorumError ''validator equivocated on the same object version''),
                      qc1\<lparr>qc_evidence := qc_evidence qc @ [equivocation v (fst (the previous))]\<rparr>)
                else (let qc2 = (if previous = None then count_message v qc1 else qc1)
                      in (Inr (), qc2\<lparr>qc_statements :=
                            AList.update key (AList.update (vt_validator v) stmt known) (qc_statements qc2),
                          qc_votes := AList.update key
                            (AList.update (vt_validator v) v (votes_at qc key)) (qc_votes qc2)\<rparr>))))"

subsection \<open>Certificates\<close>

text \<open>The digest every certificate is named by, and \<open>dict(signatures)\<close>.\<close>

definition certificate_digest :: "crypto \<Rightarrow> string \<Rightarrow> string list \<Rightarrow> signature_items \<Rightarrow> string" where
  "certificate_digest cr stmt who sigs = digest cr (JObj
     [(''statement'', JStr stmt), (''signers'', JArr (map JStr who)),
      (''signatures'', JArr (map (\<lambda>(vid, s). JArr [JStr vid, JStr (hex s)]) sigs))])"

definition signature_map :: "signature_items \<Rightarrow> (string, string) dict" where
  "signature_map sigs = fold (\<lambda>p d. AList.update (fst p) (snd p) d) sigs []"

text \<open>The three conjuncts on the signatures, which every verifier repeats.\<close>

definition signatures_valid ::
  "crypto \<Rightarrow> qcommittee \<Rightarrow> json \<Rightarrow> string list \<Rightarrow> signature_items \<Rightarrow> bool" where
  "signatures_valid cr qc stmt who sigs =
     (let m = signature_map (sort sigs)
      in set (dict_keys m) = set who \<and> known_validators qc (dict_keys m)
         \<and> (\<forall>(vid, s) \<in> set m. case map_of (qc_validators qc) vid of
               None \<Rightarrow> False
             | Some va \<Rightarrow> verify cr (public_key cr (va_keypair va)) (canonical_bytes stmt) s))"

definition matching_votes :: "crypto \<Rightarrow> qcommittee \<Rightarrow> vote_key \<Rightarrow> operation \<Rightarrow> vote list" where
  "matching_votes cr qc key oper =
     filter (\<lambda>v. vt_op_id v = op_id oper \<and> vt_dependency v = dependency_digest cr oper)
       (dict_values (votes_at qc key))"

definition statement_digest ::
  "crypto \<Rightarrow> string \<Rightarrow> int \<Rightarrow> string \<Rightarrow> object_versions \<Rightarrow> operation \<Rightarrow> string" where
  "statement_digest cr phase ep dm vs oper =
     digest cr (vote_fields phase ep dm vs (op_id oper) (dependency_digest cr oper))"

definition issue_certificate ::
  "crypto \<Rightarrow> qcommittee \<Rightarrow> int \<Rightarrow> string \<Rightarrow> object_versions \<Rightarrow> operation \<Rightarrow> string \<Rightarrow>
   ccd_error + certificate" where
  "issue_certificate cr qc ep dm vs oper phase =
     (let matching = matching_votes cr qc (ep, dm, vs, phase) oper;
          who = sorted_set (map vt_validator matching)
      in bindE (qc_weight_of qc who) (\<lambda>w.
         if w < qc_threshold qc
         then Inl (QuorumError (''insufficient quorum: weight='' @ int_str w @ '', required=''
                   @ int_str (qc_threshold qc)))
         else
           (let stmt = statement_digest cr phase ep dm vs oper;
                sigs = sort (map (\<lambda>v. (vt_validator v, vt_signature v)) matching)
            in Inr \<lparr>ct_id = certificate_digest cr stmt who sigs, ct_epoch = ep, ct_domains = [dm],
                   ct_op_id = op_id oper, ct_phase = phase, ct_signers = who,
                   ct_signatures = sigs, ct_statement = stmt\<rparr>)))"

definition verify_certificate ::
  "crypto \<Rightarrow> qcommittee \<Rightarrow> certificate \<Rightarrow> int \<Rightarrow> string \<Rightarrow> object_versions \<Rightarrow> operation \<Rightarrow>
   ccd_error + bool" where
  "verify_certificate cr qc ct ep dm vs oper =
     (let stmt = statement_digest cr (ct_phase ct) ep dm vs oper
      in if ct_id ct = certificate_digest cr stmt (sorted_set (ct_signers ct)) (sort (ct_signatures ct))
           \<and> ct_statement ct = stmt \<and> ct_epoch ct = ep \<and> ct_domains ct = [dm]
           \<and> ct_op_id ct = op_id oper \<and> ct_phase ct \<in> {''PREPARE'', ''COMMIT''}
           \<and> card (set (ct_signers ct)) = length (ct_signers ct)
         then bindE (qc_weight_of qc (ct_signers ct)) (\<lambda>w.
           Inr (w \<ge> qc_threshold qc \<and> known_validators qc (ct_signers ct)
             \<and> signatures_valid cr qc
                 (vote_fields (ct_phase ct) ep dm vs (op_id oper) (dependency_digest cr oper))
                 (ct_signers ct) (ct_signatures ct)))
         else Inr False)"

subsection \<open>Data availability certificates\<close>

definition availability_statement :: "operation \<Rightarrow> json" where
  "availability_statement oper = JObj
     [(''protocol'', JStr ''CCD/NEXUS/v1''), (''phase'', JStr ''DAC''), (''epoch'', JInt (op_epoch oper)),
      (''op_id'', JStr (op_id oper)), (''payload_digest'', JStr (op_id oper))]"

text \<open>\<open>tuple(sorted((v.validator_id, v.keypair.sign(m)) for v in validators.values()))\<close>\<close>

definition sign_all :: "crypto \<Rightarrow> qcommittee \<Rightarrow> json \<Rightarrow> signature_items" where
  "sign_all cr qc stmt = sort (map (\<lambda>va. (va_id va, sign cr (va_keypair va) (canonical_bytes stmt)))
     (dict_values (qc_validators qc)))"

definition count_signatures :: "json \<Rightarrow> signature_items \<Rightarrow> qcommittee \<Rightarrow> qcommittee" where
  "count_signatures stmt sigs qc = qc\<lparr>message_count := message_count qc + int (length sigs),
     message_bytes := message_bytes qc
       + int (sum_list (map (\<lambda>(_, s). length (canonical_bytes stmt) + length s) sigs))\<rparr>"

definition verify_dac :: "crypto \<Rightarrow> qcommittee \<Rightarrow> operation \<Rightarrow> availability_certificate \<Rightarrow> ccd_error + bool" where
  "verify_dac cr qc oper da =
     (let stmt = availability_statement oper
      in if da_id da = certificate_digest cr (digest cr stmt) (sort (da_signers da)) (sort (da_signatures da))
           \<and> da_statement da = digest cr stmt \<and> da_epoch da = op_epoch oper
           \<and> da_op_id da = op_id oper \<and> da_payload da = op_id oper
         then bindE (qc_weight_of qc (da_signers da)) (\<lambda>w.
           Inr (w \<ge> qc_threshold qc \<and> signatures_valid cr qc stmt (da_signers da) (da_signatures da)))
         else Inr False)"

definition issue_dac ::
  "crypto \<Rightarrow> operation \<Rightarrow> qcommittee \<Rightarrow> (qcommittee, ccd_error, availability_certificate) outcome" where
  "issue_dac cr oper qc =
     (let stmt = availability_statement oper; sigs = sign_all cr qc stmt; who = map fst sigs;
          qc' = count_signatures stmt sigs qc;
          da = \<lparr>da_id = certificate_digest cr (digest cr stmt) who sigs, da_epoch = op_epoch oper,
                da_op_id = op_id oper, da_payload = op_id oper, da_signers = who,
                da_signatures = sigs, da_statement = digest cr stmt\<rparr>
      in case verify_dac cr qc' oper da of
           Inl e \<Rightarrow> (Inl e, qc')
         | Inr ok \<Rightarrow> if ok then (Inr da, qc')
                    else (Inl (QuorumError ''issued DAC failed verification''), qc'))"

end
