(* ===== verification/Domain.thy ===== *)
theory Domain
  imports Quorum
begin

section \<open>Single-domain execution (ccd_nexus/domain.py)\<close>

text \<open>
  A \<open>DomainExecutor\<close> refers to a committee that several executors may share, so the committee is
  not a field here: the methods that vote act on the pair of the executor and the committee it
  refers to, and \<open>Join\<close> keeps the committees in a store.
\<close>

record domain =
  dm_id :: string
  dm_epoch :: int
  dm_objects :: "(string, object_state) dict"
  dm_committed :: "string list"
  dm_available :: "(string, availability_certificate) dict"
  dm_prepared :: "(string, certificate) dict"
  dm_commits :: "(string, certificate) dict"

type_synonym site = "domain \<times> qcommittee"

definition new_domain :: "string \<Rightarrow> int \<Rightarrow> domain" where
  "new_domain did ep = \<lparr>dm_id = did, dm_epoch = ep, dm_objects = [], dm_committed = [],
     dm_available = [], dm_prepared = [], dm_commits = []\<rparr>"

definition add_object :: "object_state \<Rightarrow> domain \<Rightarrow> (domain, ccd_error, unit) outcome" where
  "add_object ob d =
     (if ob_domain ob \<noteq> dm_id d
      then (Inl (DomainExecutionError ''object belongs to another domain''), d)
      else if has_key (dm_objects d) (ob_id ob)
      then (Inl (DomainExecutionError ''object already exists''), d)
      else (Inr (), d\<lparr>dm_objects := AList.update (ob_id ob) ob (dm_objects d)\<rparr>))"

definition local_inputs :: "domain \<Rightarrow> operation \<Rightarrow> input_ref list" where
  "local_inputs d oper = filter (\<lambda>i. in_domain i = dm_id d) (op_inputs oper)"

definition local_writes :: "domain \<Rightarrow> operation \<Rightarrow> write_intent list" where
  "local_writes d oper = filter (\<lambda>w. wr_domain w = dm_id d) (op_writes oper)"

definition object_versions_of :: "domain \<Rightarrow> operation \<Rightarrow> object_versions" where
  "object_versions_of d oper = sort (map (\<lambda>i. (in_object i, in_version i)) (local_inputs d oper))"

subsection \<open>Validation\<close>

definition input_key :: "input_ref \<Rightarrow> string \<times> string" where
  "input_key i = (in_domain i, in_object i)"

definition write_key :: "write_intent \<Rightarrow> string \<times> string" where
  "write_key w = (wr_domain w, wr_object w)"

definition write_version :: "operation \<Rightarrow> string \<times> string \<Rightarrow> int option" where
  "write_version oper key = map_option wr_version (map_of (dict_of write_key (op_writes oper)) key)"

fun check_inputs :: "domain \<Rightarrow> operation \<Rightarrow> input_ref list \<Rightarrow> ccd_error + unit" where
  "check_inputs d oper [] = Inr ()"
| "check_inputs d oper (i # is) =
     (case map_of (dm_objects d) (in_object i) of
        None \<Rightarrow> Inl (DomainExecutionError (''unknown object: '' @ in_object i))
      | Some ob \<Rightarrow>
          if ob_domain ob \<noteq> dm_id d
          then Inl (DomainExecutionError ''input references another domain'')
          else if ob_version ob \<noteq> in_version i
          then Inl (DomainExecutionError (''stale version for '' @ in_object i @ '': expected ''
                      @ int_str (in_version i) @ '', found '' @ int_str (ob_version ob)))
          else if ob_owner ob \<noteq> op_signer oper
          then Inl (DomainExecutionError ''operation signer does not own input'')
          else check_inputs d oper is)"

definition validate_operation :: "crypto \<Rightarrow> domain \<Rightarrow> operation \<Rightarrow> ccd_error + unit" where
  "validate_operation cr d oper =
     (let ikeys = map input_key (op_inputs oper); wkeys = map write_key (op_writes oper) in
      if op_epoch oper \<noteq> dm_epoch d
      then Inl (DomainExecutionError ''operation belongs to another epoch'')
      else if dm_id d \<notin> set (op_domains oper)
      then Inl (DomainExecutionError ''operation does not declare this domain'')
      else if \<not> operation_verify cr oper
      then Inl (DomainExecutionError ''invalid client signature'')
      else if op_id oper \<in> set (dm_committed d)
      then Inl (DomainExecutionError ''operation is already committed'')
      else if op_inputs oper = []
      then Inl (DomainExecutionError ''operation must have at least one input'')
      else if set (map in_domain (op_inputs oper)) \<noteq> set (op_domains oper)
      then Inl (DomainExecutionError ''domain declaration does not match inputs'')
      else if card (set ikeys) \<noteq> length ikeys
      then Inl (DomainExecutionError ''duplicate input object'')
      else if card (set wkeys) \<noteq> length wkeys
      then Inl (DomainExecutionError ''duplicate write intent'')
      else if set ikeys \<noteq> set wkeys
      then Inl (DomainExecutionError ''prototype requires one write intent per input'')
      else if \<not> (\<forall>i \<in> set (op_inputs oper). write_version oper (input_key i) = Some (in_version i))
      then Inl (DomainExecutionError ''write version disagrees with input version'')
      else if local_inputs d oper = []
      then Inl (DomainExecutionError ''operation has no input in this domain'')
      else check_inputs d oper (local_inputs d oper))"

subsection \<open>Preparing and committing\<close>

fun record_votes ::
  "crypto \<Rightarrow> domain \<Rightarrow> operation \<Rightarrow> string \<Rightarrow> validator list \<Rightarrow> qcommittee \<Rightarrow>
   (qcommittee, ccd_error, unit) outcome" where
  "record_votes cr d oper phase [] qc = (Inr (), qc)"
| "record_votes cr d oper phase (va # vas) qc =
     thenS (record_vote cr (sign_vote cr va (dm_epoch d) (dm_id d) (object_versions_of d oper)
              (op_id oper) (dependency_digest cr oper) phase))
       (\<lambda>_. record_votes cr d oper phase vas) qc"

text \<open>The part \<open>prepare\<close> and \<open>commit_certificate\<close> share: vote, issue, verify.\<close>

definition certify ::
  "crypto \<Rightarrow> domain \<Rightarrow> operation \<Rightarrow> string \<Rightarrow> string \<Rightarrow> qcommittee \<Rightarrow>
   (qcommittee, ccd_error, certificate) outcome" where
  "certify cr d oper phase failure qc =
     thenS (record_votes cr d oper phase (dict_values (qc_validators qc)))
       (\<lambda>_ qc'.
          (bindE (issue_certificate cr qc' (dm_epoch d) (dm_id d) (object_versions_of d oper) oper phase)
             (\<lambda>ct. bindE (verify_certificate cr qc' ct (dm_epoch d) (dm_id d)
                            (object_versions_of d oper) oper)
               (\<lambda>ok. if ok then Inr ct else Inl (QuorumError failure))), qc')) qc"

definition prepare ::
  "crypto \<Rightarrow> operation \<Rightarrow> availability_certificate option \<Rightarrow> site \<Rightarrow> (site, ccd_error, certificate) outcome" where
  "prepare cr oper given s =
     (let (d, qc) = s in
      case validate_operation cr d oper of
        Inl e \<Rightarrow> (Inl e, s)
      | Inr _ \<Rightarrow>
          (case (case given of Some da \<Rightarrow> (Inr da, qc) | None \<Rightarrow> issue_dac cr oper qc) of
             (Inl e, qc1) \<Rightarrow> (Inl e, (d, qc1))
           | (Inr da, qc1) \<Rightarrow>
               (case verify_dac cr qc1 oper da of
                  Inl e \<Rightarrow> (Inl e, (d, qc1))
                | Inr ok \<Rightarrow>
                    if \<not> ok
                    then (Inl (QuorumError ''operation data is not available to the quorum''), (d, qc1))
                    else (let d1 = d\<lparr>dm_available := AList.update (op_id oper) da (dm_available d)\<rparr> in
                      (case certify cr d1 oper ''PREPARE''
                              ''issued prepare certificate failed verification'' qc1 of
                         (Inl e, qc2) \<Rightarrow> (Inl e, (d1, qc2))
                       | (Inr ct, qc2) \<Rightarrow>
                           (Inr ct, (d1\<lparr>dm_prepared := AList.update (op_id oper) ct (dm_prepared d1)\<rparr>,
                                     qc2)))))))"

definition commit_certificate ::
  "crypto \<Rightarrow> operation \<Rightarrow> certificate \<Rightarrow> site \<Rightarrow> (site, ccd_error, certificate) outcome" where
  "commit_certificate cr oper prep s =
     (let (d, qc) = s in
      case validate_operation cr d oper of
        Inl e \<Rightarrow> (Inl e, s)
      | Inr _ \<Rightarrow>
          (case map_of (dm_prepared d) (op_id oper) of
             None \<Rightarrow> (Inl (DomainExecutionError ''operation has not been prepared''), s)
           | Some known \<Rightarrow>
               if prep \<noteq> known
               then (Inl (DomainExecutionError ''unknown prepare certificate''), s)
               else (case certify cr d oper ''COMMIT''
                             ''issued commit certificate failed verification'' qc of
                       (r, qc') \<Rightarrow> (r, (d, qc')))))"

fun apply_writes ::
  "write_intent list \<Rightarrow> (string, object_state) dict \<Rightarrow>
   ((string, object_state) dict, ccd_error, unit) outcome" where
  "apply_writes [] objs = (Inr (), objs)"
| "apply_writes (w # ws) objs =
     (case map_of objs (wr_object w) of
        None \<Rightarrow> (Inl (CcdKeyError (wr_object w)), objs)
      | Some ob \<Rightarrow> apply_writes ws (AList.update (wr_object w)
          (ob\<lparr>ob_version := ob_version ob + 1, ob_owner := new_owner w, ob_payload := new_payload w\<rparr>)
          objs))"

definition apply_committed ::
  "crypto \<Rightarrow> operation \<Rightarrow> certificate \<Rightarrow> site \<Rightarrow> (site, ccd_error, unit) outcome" where
  "apply_committed cr oper ct s =
     (let (d, qc) = s in
      case validate_operation cr d oper of
        Inl e \<Rightarrow> (Inl e, s)
      | Inr _ \<Rightarrow>
          (case verify_certificate cr qc ct (dm_epoch d) (dm_id d) (object_versions_of d oper) oper of
             Inl e \<Rightarrow> (Inl e, s)
           | Inr ok \<Rightarrow>
               if \<not> ok then (Inl (QuorumError ''invalid commit certificate''), s)
               else if op_id oper \<in> set (dm_committed d)
               then (Inl (DomainExecutionError ''operation would be applied twice''), s)
               else (case apply_writes (local_writes d oper) (dm_objects d) of
                       (Inl e, objs) \<Rightarrow> (Inl e, (d\<lparr>dm_objects := objs\<rparr>, qc))
                     | (Inr _, objs) \<Rightarrow>
                         (Inr (), (d\<lparr>dm_objects := objs,
                                     dm_committed := List.insert (op_id oper) (dm_committed d),
                                     dm_commits := AList.update (op_id oper) ct (dm_commits d)\<rparr>, qc)))))"

definition commit_operation ::
  "crypto \<Rightarrow> operation \<Rightarrow> certificate \<Rightarrow> site \<Rightarrow> (site, ccd_error, certificate) outcome" where
  "commit_operation cr oper prep =
     thenS (commit_certificate cr oper prep)
       (\<lambda>ct. thenS (apply_committed cr oper ct) (\<lambda>_ s. (Inr ct, s)))"

definition finalize :: "crypto \<Rightarrow> operation \<Rightarrow> site \<Rightarrow> (site, ccd_error, certificate) outcome" where
  "finalize cr oper = thenS (prepare cr oper None) (\<lambda>prep. commit_operation cr oper prep)"

subsection \<open>State roots and snapshots\<close>

definition domain_root :: "crypto \<Rightarrow> domain \<Rightarrow> string" where
  "domain_root cr d = digest cr (JObj
     [(''protocol'', JStr ''CCD/NEXUS/v1''), (''epoch'', JInt (dm_epoch d)),
      (''domain_id'', JStr (dm_id d)),
      (''objects'', JArr (map (\<lambda>p. object_json (snd p)) (sort_key fst (dm_objects d))))])"

definition snapshot_statement :: "int \<Rightarrow> string \<Rightarrow> string \<Rightarrow> json" where
  "snapshot_statement ep did root = JObj
     [(''protocol'', JStr ''CCD/NEXUS/v1''), (''phase'', JStr ''SNAPSHOT''), (''epoch'', JInt ep),
      (''domain_id'', JStr did), (''state_root'', JStr root)]"

definition create_snapshot :: "crypto \<Rightarrow> site \<Rightarrow> state_snapshot" where
  "create_snapshot cr s =
     (let (d, qc) = s; root = domain_root cr d;
          stmt = snapshot_statement (dm_epoch d) (dm_id d) root; sigs = sign_all cr qc stmt
      in \<lparr>sn_id = certificate_digest cr (digest cr stmt) (map fst sigs) sigs, sn_epoch = dm_epoch d,
          sn_domain = dm_id d, sn_root = root, sn_signers = map fst sigs, sn_signatures = sigs,
          sn_statement = digest cr stmt\<rparr>)"

definition verify_snapshot :: "crypto \<Rightarrow> site \<Rightarrow> state_snapshot \<Rightarrow> ccd_error + bool" where
  "verify_snapshot cr s sn =
     (let (d, qc) = s; stmt = snapshot_statement (sn_epoch sn) (sn_domain sn) (sn_root sn)
      in if sn_id sn = certificate_digest cr (digest cr stmt) (sort (sn_signers sn)) (sort (sn_signatures sn))
           \<and> sn_statement sn = digest cr stmt \<and> sn_epoch sn = dm_epoch d \<and> sn_domain sn = dm_id d
           \<and> sn_root sn = domain_root cr d
         then bindE (qc_weight_of qc (sn_signers sn)) (\<lambda>w.
           Inr (w \<ge> qc_threshold qc \<and> signatures_valid cr qc stmt (sn_signers sn) (sn_signatures sn)))
         else Inr False)"

end
