(* ===== verification/Join.thy ===== *)
theory Join
  imports Domain
begin

section \<open>Joining several domains atomically (ccd_nexus/join.py)\<close>

text \<open>
  The coordinator refers to executors, and each executor to a committee; the prototype requires
  the executors to share one committee object. The aliasing is explicit: the committees are a
  store from addresses to committees, and every executor carries the address of its own.
  \<open>on_domain\<close> runs a method of one executor on the store.
\<close>

record coordinator =
  jn_domains :: "(string, domain \<times> nat) dict"
  jn_store :: "nat \<Rightarrow> qcommittee"

definition on_domain ::
  "string \<Rightarrow> (site \<Rightarrow> (site, ccd_error, 'a) outcome) \<Rightarrow> coordinator \<Rightarrow>
   (coordinator, ccd_error, 'a) outcome" where
  "on_domain did m co =
     (case map_of (jn_domains co) did of
        None \<Rightarrow> (Inl (CcdKeyError did), co)
      | Some (d, adr) \<Rightarrow>
          (case m (d, jn_store co adr) of
             (r, (d', qc')) \<Rightarrow> (r, co\<lparr>jn_domains := AList.update did (d', adr) (jn_domains co),
                                    jn_store := (jn_store co)(adr := qc')\<rparr>)))"

text \<open>The property \<open>committee\<close>: the address all executors share.\<close>

definition shared_committee :: "coordinator \<Rightarrow> ccd_error + nat" where
  "shared_committee co =
     (let refs = remdups (map snd (dict_values (jn_domains co)))
      in if length refs \<noteq> 1
         then Inl (JoinError ''prototype requires one committee shared by all domains'')
         else Inr (hd refs))"

fun prepare_in ::
  "crypto \<Rightarrow> operation \<Rightarrow> string list \<Rightarrow> coordinator \<Rightarrow> (coordinator, ccd_error, certificate list) outcome" where
  "prepare_in cr oper [] co = (Inr [], co)"
| "prepare_in cr oper (did # dids) co =
     thenS (on_domain did (prepare cr oper None))
       (\<lambda>ct. thenS (prepare_in cr oper dids) (\<lambda>cts co. (Inr (ct # cts), co))) co"

definition prepare_all ::
  "crypto \<Rightarrow> operation \<Rightarrow> coordinator \<Rightarrow> (coordinator, ccd_error, certificate list) outcome" where
  "prepare_all cr oper co =
     (if set (op_domains oper) \<noteq> set (dict_keys (jn_domains co))
      then (Inl (JoinError ''coordinator domains do not match operation domains''), co)
      else prepare_in cr oper (sorted_set (op_domains oper)) co)"

subsection \<open>Join certificates\<close>

text \<open>
  \<open>cert.domain_ids[0]\<close> raises \<open>IndexError\<close> on a certificate without domains, at the first place
  that reads it; after that check \<open>first_domain\<close> is only used on certificates that have one.
\<close>

definition first_domain :: "certificate \<Rightarrow> string" where
  "first_domain ct = hd (ct_domains ct)"

definition lacks_domain :: "certificate list \<Rightarrow> bool" where
  "lacks_domain cts \<longleftrightarrow> (\<exists>ct \<in> set cts. ct_domains ct = [])"

definition index_error :: ccd_error where
  "index_error = CcdIndexError ''tuple index out of range''"

definition join_statement :: "operation \<Rightarrow> certificate list \<Rightarrow> json" where
  "join_statement oper cts = JObj
     [(''protocol'', JStr ''CCD/NEXUS/v1''), (''phase'', JStr ''JOIN''),
      (''epoch'', JInt (op_epoch oper)), (''op_id'', JStr (op_id oper)),
      (''domains'', JArr (map JStr (sort (op_domains oper)))),
      (''domain_certificates'', JArr (map (\<lambda>ct. JObj
         [(''domain'', JStr (first_domain ct)), (''certificate_id'', JStr (ct_id ct)),
          (''statement_digest'', JStr (ct_statement ct))]) cts))]"

definition not_prepare :: "operation \<Rightarrow> certificate \<Rightarrow> bool" where
  "not_prepare oper ct \<longleftrightarrow> ct_op_id ct \<noteq> op_id oper \<or> ct_phase ct \<noteq> ''PREPARE''"

definition issue_join_certificate ::
  "crypto \<Rightarrow> operation \<Rightarrow> certificate list \<Rightarrow> coordinator \<Rightarrow> (coordinator, ccd_error, join_certificate) outcome" where
  "issue_join_certificate cr oper cts co =
     (if length cts \<noteq> length (op_domains oper)
      then (Inl (JoinError ''missing domain certificate''), co)
      else if lacks_domain cts then (Inl index_error, co)
      else if set (map first_domain cts) \<noteq> set (op_domains oper)
      then (Inl (JoinError ''domain certificates do not cover operation domains''), co)
      else if \<exists>ct \<in> set cts. not_prepare oper ct
      then (Inl (JoinError ''domain certificate is not a prepare certificate for this operation''), co)
      else (case shared_committee co of
        Inl e \<Rightarrow> (Inl e, co)
      | Inr adr \<Rightarrow>
          (let stmt = join_statement oper cts; sigs = sign_all cr (jn_store co adr) stmt;
               co' = co\<lparr>jn_store := (jn_store co)(adr := count_signatures stmt sigs (jn_store co adr))\<rparr>
           in (Inr \<lparr>jc_id = certificate_digest cr (digest cr stmt) (map fst sigs) sigs,
                    jc_epoch = op_epoch oper, jc_op_id = op_id oper,
                    jc_certificates = sort_key first_domain cts, jc_signers = map fst sigs,
                    jc_signatures = sigs, jc_statement = digest cr stmt\<rparr>, co'))))"

text \<open>
  In Python \<open>signatures_valid\<close> reads the committee only when the signature map and the signers
  agree, and the final conjunction reads it only after its first three conjuncts.
\<close>

definition verify_join_certificate ::
  "crypto \<Rightarrow> coordinator \<Rightarrow> operation \<Rightarrow> join_certificate \<Rightarrow> ccd_error + bool" where
  "verify_join_certificate cr co oper jc =
     (if jc_epoch jc \<noteq> op_epoch oper \<or> jc_op_id jc \<noteq> op_id oper then Inr False
      else if lacks_domain (jc_certificates jc) then Inl index_error
      else if set (map first_domain (jc_certificates jc)) \<noteq> set (op_domains oper) then Inr False
      else if \<exists>ct \<in> set (jc_certificates jc). not_prepare oper ct then Inr False
      else
        (let stmt = join_statement oper (sort_key first_domain (jc_certificates jc));
             sigs = sort (jc_signatures jc);
             agree = (set (dict_keys (signature_map sigs)) = set (jc_signers jc));
             shape = (jc_id jc = certificate_digest cr (digest cr stmt) (sort (jc_signers jc)) sigs
                      \<and> jc_statement jc = digest cr stmt
                      \<and> card (set (jc_signers jc)) = length (jc_signers jc))
         in if \<not> agree \<and> \<not> shape then Inr False
            else bindE (shared_committee co) (\<lambda>adr.
              let qc = jn_store co adr in
              if \<not> shape \<or> \<not> known_validators qc (jc_signers jc) then Inr False
              else bindE (qc_weight_of qc (jc_signers jc)) (\<lambda>w.
                Inr (w \<ge> qc_threshold qc
                  \<and> signatures_valid cr qc stmt (jc_signers jc) (jc_signatures jc))))))"

subsection \<open>The all-or-nothing finalization\<close>

definition commit_known :: "crypto \<Rightarrow> operation \<Rightarrow> site \<Rightarrow> (site, ccd_error, certificate) outcome" where
  "commit_known cr oper s =
     (case map_of (dm_prepared (fst s)) (op_id oper) of
        None \<Rightarrow> (Inl (CcdKeyError (op_id oper)), s)
      | Some prep \<Rightarrow> commit_certificate cr oper prep s)"

fun commit_in ::
  "crypto \<Rightarrow> operation \<Rightarrow> string list \<Rightarrow> coordinator \<Rightarrow> (coordinator, ccd_error, certificate list) outcome" where
  "commit_in cr oper [] co = (Inr [], co)"
| "commit_in cr oper (did # dids) co =
     thenS (on_domain did (commit_known cr oper))
       (\<lambda>ct. thenS (commit_in cr oper dids) (\<lambda>cts co. (Inr (ct # cts), co))) co"

fun apply_in ::
  "crypto \<Rightarrow> operation \<Rightarrow> (string \<times> certificate) list \<Rightarrow> coordinator \<Rightarrow> (coordinator, ccd_error, unit) outcome" where
  "apply_in cr oper [] co = (Inr (), co)"
| "apply_in cr oper ((did, ct) # rest) co =
     thenS (on_domain did (apply_committed cr oper ct)) (\<lambda>_. apply_in cr oper rest) co"

definition check_join ::
  "crypto \<Rightarrow> operation \<Rightarrow> join_certificate \<Rightarrow> coordinator \<Rightarrow> (coordinator, ccd_error, unit) outcome" where
  "check_join cr oper jc co =
     (case verify_join_certificate cr co oper jc of
        Inl e \<Rightarrow> (Inl e, co)
      | Inr ok \<Rightarrow> if ok then (Inr (), co)
                 else (Inl (JoinError ''issued Join certificate failed verification''), co))"

definition join_finalize ::
  "crypto \<Rightarrow> operation \<Rightarrow> coordinator \<Rightarrow> (coordinator, ccd_error, join_certificate) outcome" where
  "join_finalize cr oper =
     thenS (prepare_all cr oper) (\<lambda>preps.
     thenS (issue_join_certificate cr oper preps) (\<lambda>jc.
     thenS (check_join cr oper jc) (\<lambda>_.
     thenS (commit_in cr oper (sort (op_domains oper))) (\<lambda>cts.
     thenS (apply_in cr oper (zip (sort (op_domains oper)) cts)) (\<lambda>_ co. (Inr jc, co))))))"

subsection \<open>Aborts\<close>

text \<open>\<open>not reason.strip()\<close> on the UTF-8 bytes: only white space characters of \<open>str.strip\<close>.\<close>

definition ascii_space :: "char \<Rightarrow> bool" where
  "ascii_space c \<longleftrightarrow> (let n = of_char c :: nat in (9 \<le> n \<and> n \<le> 13) \<or> (28 \<le> n \<and> n \<le> 32))"

definition space_pair :: "char \<Rightarrow> char \<Rightarrow> bool" where
  "space_pair a b \<longleftrightarrow> a = CHR 0xC2 \<and> (b = CHR 0x85 \<or> b = CHR 0xA0)"

definition space_triple :: "char \<Rightarrow> char \<Rightarrow> char \<Rightarrow> bool" where
  "space_triple a b c \<longleftrightarrow>
     (a = CHR 0xE1 \<and> b = CHR 0x9A \<and> c = CHR 0x80) \<or> (a = CHR 0xE3 \<and> b = CHR 0x80 \<and> c = CHR 0x80)
     \<or> (a = CHR 0xE2 \<and> b = CHR 0x81 \<and> c = CHR 0x9F)
     \<or> (a = CHR 0xE2 \<and> b = CHR 0x80
        \<and> ((128 \<le> (of_char c :: nat) \<and> (of_char c :: nat) \<le> 138)
           \<or> c = CHR 0xA8 \<or> c = CHR 0xA9 \<or> c = CHR 0xAF))"

function blank :: "string \<Rightarrow> bool" where
  "blank s = (case s of
       [] \<Rightarrow> True
     | a # r \<Rightarrow>
         if ascii_space a then blank r
         else (case r of
             b # r2 \<Rightarrow>
               if space_pair a b then blank r2
               else (case r2 of c # r3 \<Rightarrow> space_triple a b c \<and> blank r3 | [] \<Rightarrow> False)
           | [] \<Rightarrow> False))"
  by pat_completeness auto
termination by (relation "measure length") auto

declare blank.simps [simp del]

definition abort_statement :: "crypto \<Rightarrow> operation \<Rightarrow> string \<Rightarrow> json" where
  "abort_statement cr oper reason = JObj
     [(''protocol'', JStr ''CCD/NEXUS/v1''), (''phase'', JStr ''ABORT''),
      (''epoch'', JInt (op_epoch oper)), (''op_id'', JStr (op_id oper)),
      (''domains'', JArr (map JStr (sort (op_domains oper)))),
      (''reason_digest'', JStr (digest cr (JStr reason)))]"

definition verify_abort ::
  "crypto \<Rightarrow> coordinator \<Rightarrow> operation \<Rightarrow> abort_certificate \<Rightarrow> string \<Rightarrow> ccd_error + bool" where
  "verify_abort cr co oper ac reason =
     (let stmt = abort_statement cr oper reason; sigs = sort (ac_signatures ac);
          agree = (set (dict_keys (signature_map sigs)) = set (ac_signers ac));
          shape = (ac_id ac = certificate_digest cr (digest cr stmt) (sort (ac_signers ac)) sigs
                   \<and> ac_statement ac = digest cr stmt \<and> ac_epoch ac = op_epoch oper
                   \<and> ac_op_id ac = op_id oper \<and> ac_domains ac = sort (op_domains oper)
                   \<and> ac_reason ac = digest cr (JStr reason))
      in if \<not> agree \<and> \<not> shape then Inr False
         else bindE (shared_committee co) (\<lambda>adr.
           let qc = jn_store co adr in
           if \<not> shape then Inr False
           else bindE (qc_weight_of qc (ac_signers ac)) (\<lambda>w.
             Inr (w \<ge> qc_threshold qc
               \<and> signatures_valid cr qc stmt (ac_signers ac) (ac_signatures ac)))))"

definition abort_operation ::
  "crypto \<Rightarrow> coordinator \<Rightarrow> operation \<Rightarrow> string \<Rightarrow> ccd_error + abort_certificate" where
  "abort_operation cr co oper reason =
     (if blank reason then Inl (JoinError ''abort requires a reason'')
      else bindE (shared_committee co) (\<lambda>adr.
        let stmt = abort_statement cr oper reason; sigs = sign_all cr (jn_store co adr) stmt;
            ac = \<lparr>ac_id = certificate_digest cr (digest cr stmt) (map fst sigs) sigs,
                  ac_epoch = op_epoch oper, ac_op_id = op_id oper,
                  ac_domains = sort (op_domains oper), ac_reason = digest cr (JStr reason),
                  ac_signers = map fst sigs, ac_signatures = sigs, ac_statement = digest cr stmt\<rparr>
        in bindE (verify_abort cr co oper ac reason) (\<lambda>ok.
          if ok then Inr ac else Inl (JoinError ''issued Abort certificate failed verification''))))"

end
