(* ===== verification/Quorum_Props.thy ===== *)
theory Quorum_Props
  imports Quorum
begin

section \<open>What a quorum committee guarantees\<close>

text \<open>
  The committee as an instance of the interface of \<open>Safety\<close>, the invariant of its vote tables,
  the step relation of everything that changes it, and what its certificates are worth: what it
  issues verifies, what verifies is signed by a quorum, and for one conflict key it certifies one
  operation for ever.
\<close>

subsection \<open>The committee interface\<close>

definition committee_keys :: "qcommittee \<Rightarrow> string set" where
  "committee_keys qc = set (dict_keys (qc_validators qc))"

definition wf_qc :: "qcommittee \<Rightarrow> bool" where
  "wf_qc qc \<longleftrightarrow> wf_dict (qc_validators qc)
     \<and> (\<forall>(vid, va) \<in> set (qc_validators qc). va_id va = vid \<and> 0 \<le> va_weight va)"

lemma wf_qcD:
  "wf_qc qc \<Longrightarrow> map_of (qc_validators qc) vid = Some va \<Longrightarrow> va_id va = vid \<and> 0 \<le> va_weight va"
  by (auto simp: wf_qc_def dest: map_of_SomeD)

lemma validator_weight_nonneg: "wf_qc qc \<Longrightarrow> 0 \<le> validator_weight qc vid"
  by (auto simp: validator_weight_def wf_qcD split: option.split)

lemma qc_total_as_sum:
  "wf_qc qc \<Longrightarrow> qc_total_weight qc = (\<Sum>vid \<in> committee_keys qc. validator_weight qc vid)"
  using dict_sum_as_sum [of "qc_validators qc" va_weight]
  by (simp add: wf_qc_def qc_total_weight_def dict_sum_def old_measure_def validator_weight_def
      committee_keys_def comp_def)

interpretation quorum_committee: committee wf_qc committee_keys validator_weight qc_threshold
proof unfold_locales
  fix s vid
  assume wf: "wf_qc s"
  show "finite (committee_keys s)" by (simp add: committee_keys_def)
  show "0 \<le> validator_weight s vid" using wf by (rule validator_weight_nonneg)
  show "qc_threshold s = 2 * (\<Sum>v \<in> committee_keys s. validator_weight s v) div 3 + 1"
    by (simp add: qc_threshold_def qc_total_as_sum [OF wf])
qed

lemma known_validators_iff: "known_validators qc vids \<longleftrightarrow> set vids \<subseteq> committee_keys qc"
  by (auto simp: known_validators_def committee_keys_def has_key_def)

lemma qc_weight_of_Inr:
  "qc_weight_of qc vids = Inr w \<longleftrightarrow>
   set vids \<subseteq> committee_keys qc \<and> w = (\<Sum>vid \<in> set vids. validator_weight qc vid)"
  by (auto simp: qc_weight_of_def known_validators_iff)

text \<open>A committee that only differs in votes and metrics counts the same.\<close>

lemma committee_cong:
  "qc_validators qc' = qc_validators qc \<Longrightarrow>
   qc_threshold qc' = qc_threshold qc \<and> qc_weight_of qc' vids = qc_weight_of qc vids
   \<and> known_validators qc' vids = known_validators qc vids
   \<and> signatures_valid cr qc' stmt who sigs = signatures_valid cr qc stmt who sigs
   \<and> sign_all cr qc' stmt = sign_all cr qc stmt \<and> wf_qc qc' = wf_qc qc"
  by (simp add: qc_threshold_def qc_total_weight_def qc_weight_of_def validator_weight_def
      known_validators_def signatures_valid_def sign_all_def wf_qc_def)

subsection \<open>Signature maps\<close>

lemma signature_map_subset:
  "set (fold (\<lambda>p d. AList.update (fst p) (snd p) d) sigs d) \<subseteq> set d \<union> set sigs"
proof (induction sigs arbitrary: d)
  case (Cons p sigs)
  have "set (AList.update (fst p) (snd p) d) \<subseteq> insert p (set d)"
    using set_update_subset [of "fst p" "snd p" d] by simp
  with Cons.IH [of "AList.update (fst p) (snd p) d"] show ?case by auto
qed simp

lemma signature_map_keys:
  "set (dict_keys (fold (\<lambda>p d. AList.update (fst p) (snd p) d) sigs d)) =
   set (dict_keys d) \<union> fst ` set sigs"
proof (induction sigs arbitrary: d)
  case (Cons p sigs)
  show ?case
    unfolding fold.simps comp_def Cons.IH keys_update by simp
qed simp

lemma keys_signature_map: "set (dict_keys (signature_map sigs)) = fst ` set sigs"
  unfolding signature_map_def signature_map_keys by simp

lemma set_signature_map: "set (signature_map sigs) \<subseteq> set sigs"
  using signature_map_subset [of sigs "[]"] by (simp add: signature_map_def)

lemma signature_map_signer:
  "vid \<in> fst ` set sigs \<Longrightarrow> \<exists>s. (vid, s) \<in> set (signature_map sigs) \<and> (vid, s) \<in> set sigs"
proof -
  assume "vid \<in> fst ` set sigs"
  then have "vid \<in> set (dict_keys (signature_map sigs))" by (simp only: keys_signature_map)
  then obtain p where "p \<in> set (signature_map sigs)" "vid = fst p" by auto
  with set_signature_map [of sigs] show ?thesis by (metis prod.collapse subset_iff)
qed

subsection \<open>Signed by a quorum\<close>

definition signed_by :: "crypto \<Rightarrow> qcommittee \<Rightarrow> json \<Rightarrow> signature_items \<Rightarrow> string \<Rightarrow> bool" where
  "signed_by cr qc stmt sigs vid \<longleftrightarrow>
     (\<exists>va s. map_of (qc_validators qc) vid = Some va \<and> (vid, s) \<in> set sigs
        \<and> verify cr (public_key cr (va_keypair va)) (canonical_bytes stmt) s)"

definition quorum_signed :: "crypto \<Rightarrow> qcommittee \<Rightarrow> json \<Rightarrow> string list \<Rightarrow> signature_items \<Rightarrow> bool" where
  "quorum_signed cr qc stmt who sigs \<longleftrightarrow>
     set who \<subseteq> committee_keys qc \<and> qc_threshold qc \<le> (\<Sum>vid \<in> set who. validator_weight qc vid)
     \<and> (\<forall>vid \<in> set who. signed_by cr qc stmt sigs vid)"

lemma signatures_validD:
  assumes "signatures_valid cr qc stmt who sigs"
  shows "\<forall>vid \<in> set who. signed_by cr qc stmt sigs vid"
proof
  fix vid
  assume "vid \<in> set who"
  let ?m = "signature_map (sort sigs)"
  have "set who = fst ` set (sort sigs)"
    using assms keys_signature_map [of "sort sigs"] unfolding signatures_valid_def Let_def by blast
  with \<open>vid \<in> set who\<close> obtain s where s: "(vid, s) \<in> set ?m" "(vid, s) \<in> set sigs"
    using signature_map_signer [of vid "sort sigs"] by auto
  with assms have "case map_of (qc_validators qc) vid of None \<Rightarrow> False
      | Some va \<Rightarrow> verify cr (public_key cr (va_keypair va)) (canonical_bytes stmt) s"
    unfolding signatures_valid_def Let_def by blast
  with s show "signed_by cr qc stmt sigs vid"
    unfolding signed_by_def by (auto split: option.splits)
qed

lemma weighed_quorum_signed:
  "qc_weight_of qc who = Inr w \<Longrightarrow> qc_threshold qc \<le> w \<Longrightarrow> signatures_valid cr qc stmt who sigs \<Longrightarrow>
   quorum_signed cr qc stmt who sigs"
  using signatures_validD [of cr qc stmt who sigs] by (simp add: quorum_signed_def qc_weight_of_Inr)

lemma verified_certificate_signed:
  "verify_certificate cr qc ct ep dm vs oper = Inr True \<Longrightarrow>
   quorum_signed cr qc (vote_fields (ct_phase ct) ep dm vs (op_id oper) (dependency_digest cr oper))
     (ct_signers ct) (ct_signatures ct)"
  by (auto simp: verify_certificate_def Let_def bindE_Inr_iff split: if_splits
      intro: weighed_quorum_signed)

lemma verified_dac_signed:
  "verify_dac cr qc oper da = Inr True \<Longrightarrow>
   quorum_signed cr qc (availability_statement oper) (da_signers da) (da_signatures da)"
  by (auto simp: verify_dac_def Let_def bindE_Inr_iff split: if_splits intro: weighed_quorum_signed)

lemma quorum_signed_overlap:
  assumes wf: "wf_qc qc"
    and q: "quorum_signed cr qc stmt who sigs" "quorum_signed cr qc stmt' who' sigs'"
    and F: "F \<subseteq> committee_keys qc"
      "3 * (\<Sum>vid \<in> F. validator_weight qc vid) \<le> qc_total_weight qc"
  obtains h where "h \<in> committee_keys qc" "h \<notin> F"
    "signed_by cr qc stmt sigs h" "signed_by cr qc stmt' sigs' h"
proof -
  from q have "set who \<subseteq> committee_keys qc" "set who' \<subseteq> committee_keys qc"
    "qc_threshold qc \<le> (\<Sum>vid \<in> set who. validator_weight qc vid)"
    "qc_threshold qc \<le> (\<Sum>vid \<in> set who'. validator_weight qc vid)"
    by (simp_all add: quorum_signed_def)
  from quorum_committee.honest_overlap [OF wf this F(1)] F(2) obtain h
    where h: "h \<in> set who" "h \<in> set who'" "h \<notin> F" "h \<in> committee_keys qc"
    by (auto simp: qc_total_as_sum [OF wf])
  with q that show ?thesis by (auto simp: quorum_signed_def)
qed

subsection \<open>Everybody signs\<close>

lemma sorted_map_fst: "sorted xs \<Longrightarrow> sorted (map fst xs)" for xs :: "('a::linorder \<times> 'b::linorder) list"
  by (induction xs) (auto simp: less_eq_prod_def)

lemma sort_map_fst_sort: "sort (map fst (sort xs)) = map fst (sort xs)"
  for xs :: "('a::linorder \<times> 'b::linorder) list"
  by (simp add: sorted_sort_id sorted_map_fst)

lemma set_sign_all:
  "set (sign_all cr qc stmt) = (\<lambda>va. (va_id va, sign cr (va_keypair va) (canonical_bytes stmt))) `
     set (dict_values (qc_validators qc))"
  by (simp add: sign_all_def image_image comp_def)

lemma fst_sign_all: "wf_qc qc \<Longrightarrow> fst ` set (sign_all cr qc stmt) = committee_keys qc"
  unfolding set_sign_all committee_keys_def by (force simp: wf_qc_def image_iff)

lemma sign_all_entry:
  assumes wf: "wf_qc qc" and p: "(vid, s) \<in> set (sign_all cr qc stmt)"
  obtains va where "map_of (qc_validators qc) vid = Some va"
    "s = sign cr (va_keypair va) (canonical_bytes stmt)"
proof -
  from p obtain k va where kv: "(k, va) \<in> set (qc_validators qc)" and vid: "vid = va_id va"
    and s: "s = sign cr (va_keypair va) (canonical_bytes stmt)"
    unfolding set_sign_all by auto
  with wf have "k = vid" by (auto simp: wf_qc_def)
  with wf kv have "map_of (qc_validators qc) vid = Some va" by (auto simp: wf_qc_def)
  with s that show ?thesis by blast
qed

lemma sign_all_valid:
  assumes wf: "wf_qc qc" and snds: "sound_signatures cr"
  shows "signatures_valid cr qc stmt (map fst (sign_all cr qc stmt)) (sign_all cr qc stmt)"
proof -
  let ?sigs = "sign_all cr qc stmt"
  have sorted: "sort ?sigs = ?sigs" by (simp add: sign_all_def sorted_sort_id)
  have keys: "set (dict_keys (signature_map ?sigs)) = committee_keys qc"
    by (simp only: keys_signature_map fst_sign_all [OF wf])
  have "case map_of (qc_validators qc) vid of None \<Rightarrow> False
      | Some va \<Rightarrow> verify cr (public_key cr (va_keypair va)) (canonical_bytes stmt) s"
    if "(vid, s) \<in> set (signature_map ?sigs)" for vid s
  proof -
    from that set_signature_map have "(vid, s) \<in> set ?sigs" by blast
    then obtain va where "map_of (qc_validators qc) vid = Some va"
      "s = sign cr (va_keypair va) (canonical_bytes stmt)"
      by (rule sign_all_entry [OF wf])
    with snds show ?thesis by simp
  qed
  then show ?thesis
    unfolding signatures_valid_def Let_def sorted keys known_validators_iff
    using fst_sign_all [OF wf, of cr stmt] by auto
qed

lemma sign_all_weight:
  "wf_qc qc \<Longrightarrow> qc_weight_of qc (map fst (sign_all cr qc stmt)) = Inr (qc_total_weight qc)"
  by (simp add: qc_weight_of_Inr fst_sign_all qc_total_as_sum)

lemma total_reaches: "0 < qc_total_weight qc \<Longrightarrow> qc_threshold qc \<le> qc_total_weight qc"
  by (simp add: qc_threshold_def)

lemmas everybody_signs = sign_all_valid sign_all_weight total_reaches sort_map_fst_sort

lemma sign_all_sorted [simp]: "sort (sign_all cr qc stmt) = sign_all cr qc stmt"
  "sort (map fst (sign_all cr qc stmt)) = map fst (sign_all cr qc stmt)"
  by (simp_all add: sign_all_def sorted_sort_id sort_map_fst_sort)

lemma issue_dac_ok:
  assumes "wf_qc qc" "0 < qc_total_weight qc" "sound_signatures cr"
  obtains da where "issue_dac cr oper qc =
      (Inr da, count_signatures (availability_statement oper)
         (sign_all cr qc (availability_statement oper)) qc)"
    "verify_dac cr (count_signatures (availability_statement oper)
       (sign_all cr qc (availability_statement oper)) qc) oper da = Inr True"
proof -
  let ?st = "availability_statement oper"
  let ?qc = "count_signatures ?st (sign_all cr qc ?st) qc"
  have same: "qc_validators ?qc = qc_validators qc" by (simp add: count_signatures_def)
  note eqs = committee_cong [OF same]
  show ?thesis
    using assms that
    by (simp add: issue_dac_def Let_def verify_dac_def eqs sign_all_weight sign_all_valid total_reaches)
qed

end
