(* ===== verification/Votes.thy ===== *)
theory Votes
  imports Quorum_Props
begin

section \<open>The vote tables and what they certify\<close>

text \<open>
  The invariant of a committee's two tables, the step relation of every method that changes a
  committee, and the agreement theorem: one conflict key is certified for one operation.
\<close>

subsection \<open>The invariant\<close>

definition vote_valid :: "crypto \<Rightarrow> qcommittee \<Rightarrow> vote_key \<Rightarrow> string \<Rightarrow> vote \<Rightarrow> bool" where
  "vote_valid cr qc key vid v \<longleftrightarrow>
     vt_validator v = vid \<and> vote_key_of v = key
     \<and> map_of (statements_at qc key) vid = Some (vt_op_id v, vt_dependency v)
     \<and> (\<exists>va. map_of (qc_validators qc) vid = Some va
          \<and> verify cr (public_key cr (va_keypair va)) (canonical_bytes (vote_statement v)) (vt_signature v))"

definition votes_ok :: "crypto \<Rightarrow> qcommittee \<Rightarrow> bool" where
  "votes_ok cr qc \<longleftrightarrow> (\<forall>key. wf_dict (votes_at qc key)
     \<and> (\<forall>vid v. map_of (votes_at qc key) vid = Some v \<longrightarrow> vote_valid cr qc key vid v))"

text \<open>A later state of a committee: the same validators, and no statement is ever replaced.\<close>

definition extends :: "qcommittee \<Rightarrow> qcommittee \<Rightarrow> bool" where
  "extends qc qc' \<longleftrightarrow> qc_validators qc' = qc_validators qc
     \<and> (\<forall>key vid st. map_of (statements_at qc key) vid = Some st \<longrightarrow>
          map_of (statements_at qc' key) vid = Some st)"

lemma extends_refl [simp]: "extends qc qc"
  by (simp add: extends_def)

lemma extends_trans: "extends a b \<Longrightarrow> extends b c \<Longrightarrow> extends a c"
  unfolding extends_def by metis

lemma extendsD:
  "extends qc qc' \<Longrightarrow> map_of (statements_at qc key) vid = Some st \<Longrightarrow>
   map_of (statements_at qc' key) vid = Some st"
  unfolding extends_def by blast

lemma extendsI:
  "qc_validators qc' = qc_validators qc \<Longrightarrow>
   (\<And>key vid st. map_of (statements_at qc key) vid = Some st \<Longrightarrow>
      map_of (statements_at qc' key) vid = Some st) \<Longrightarrow> extends qc qc'"
  unfolding extends_def by blast

lemma votes_okD:
  "votes_ok cr qc \<Longrightarrow> wf_dict (votes_at qc key)"
  "votes_ok cr qc \<Longrightarrow> map_of (votes_at qc key) vid = Some v \<Longrightarrow> vote_valid cr qc key vid v"
  unfolding votes_ok_def by blast+

lemma votes_okI:
  "(\<And>key. wf_dict (votes_at qc key)) \<Longrightarrow>
   (\<And>key vid v. map_of (votes_at qc key) vid = Some v \<Longrightarrow> vote_valid cr qc key vid v) \<Longrightarrow>
   votes_ok cr qc"
  unfolding votes_ok_def by blast

lemma extends_validators: "extends qc qc' \<Longrightarrow> qc_validators qc' = qc_validators qc"
  by (simp add: extends_def)

text \<open>Recording a vote: a new or repeated statement is stored, anything else stores nothing.\<close>

lemma record_vote_cases:
  assumes "record_vote cr v qc = (r, qc')"
  obtains (refused) e where "r = Inl e" "qc_validators qc' = qc_validators qc"
      "\<And>key. statements_at qc' key = statements_at qc key" "\<And>key. votes_at qc' key = votes_at qc key"
  | (stored) va where "r = Inr ()" "map_of (qc_validators qc) (vt_validator v) = Some va"
      "verify cr (public_key cr (va_keypair va)) (canonical_bytes (vote_statement v)) (vt_signature v)"
      "qc_validators qc' = qc_validators qc"
      "map_of (statements_at qc (vote_key_of v)) (vt_validator v) \<in>
         {None, Some (vt_op_id v, vt_dependency v)}"
      "\<And>key. statements_at qc' key = (if key = vote_key_of v
         then AList.update (vt_validator v) (vt_op_id v, vt_dependency v) (statements_at qc key)
         else statements_at qc key)"
      "\<And>key. votes_at qc' key = (if key = vote_key_of v
         then AList.update (vt_validator v) v (votes_at qc key) else votes_at qc key)"
proof (cases "map_of (qc_validators qc) (vt_validator v)")
  case None
  with assms show ?thesis
    by (intro refused [of "QuorumError ''vote is from an unknown validator''"])
      (auto simp: record_vote_def)
next
  case va: (Some va)
  let ?known = "statements_at qc (vote_key_of v)"
  let ?prev = "map_of ?known (vt_validator v)"
  let ?sig = "verify cr (public_key cr (va_keypair va)) (canonical_bytes (vote_statement v)) (vt_signature v)"
  show ?thesis
  proof (cases "0 \<le> vt_epoch v \<and> ?sig")
    case False
    with assms va have "qc' = qc" "is_ok r = False"
      by (auto simp: record_vote_def split: if_splits)
    then show ?thesis by (cases r) (auto intro: refused)
  next
    case True
    note unfolded = assms [unfolded record_vote_def va option.case Let_def]
    show ?thesis
    proof (cases "?prev \<noteq> None \<and> ?prev \<noteq> Some (vt_op_id v, vt_dependency v)")
      case equivocates: True
      with True unfolded show ?thesis
        by (intro refused [of "QuorumError ''validator equivocated on the same object version''"])
          (auto simp: statements_at_def votes_at_def)
    next
      case False
      with True unfolded show ?thesis
        by (intro stored [of va])
          (auto simp: va count_message_def statements_at_def votes_at_def split: if_splits)
    qed
  qed
qed

lemma record_vote_extends: "record_vote cr v qc = (r, qc') \<Longrightarrow> extends qc qc'"
proof (erule record_vote_cases; rule extendsI)
  fix va key vid st
  assume "map_of (statements_at qc (vote_key_of v)) (vt_validator v) \<in>
      {None, Some (vt_op_id v, vt_dependency v)}"
    and eq: "\<And>key. statements_at qc' key = (if key = vote_key_of v
      then AList.update (vt_validator v) (vt_op_id v, vt_dependency v) (statements_at qc key)
      else statements_at qc key)"
    and "map_of (statements_at qc key) vid = Some st"
  then show "map_of (statements_at qc' key) vid = Some st" unfolding eq by auto
qed simp_all

lemma vote_valid_cong:
  "vote_valid cr qc key vid v \<Longrightarrow> extends qc qc' \<Longrightarrow> vote_valid cr qc' key vid v"
  using extendsD [of qc qc' key vid "(vt_op_id v, vt_dependency v)"] extends_validators [of qc qc']
  unfolding vote_valid_def by simp

lemma record_vote_ok:
  assumes ok: "votes_ok cr qc" and rv: "record_vote cr v qc = (r, qc')"
  shows "votes_ok cr qc'"
proof -
  note ext = record_vote_extends [OF rv]
  from rv show ?thesis
  proof (cases rule: record_vote_cases)
    case (refused e)
    with ok ext show ?thesis
      by (intro votes_okI) (auto dest: votes_okD intro: vote_valid_cong)
  next
    case (stored va)
    have new: "vote_valid cr qc' (vote_key_of v) (vt_validator v) v"
      using stored by (simp add: vote_valid_def)
    show ?thesis
    proof (rule votes_okI)
      fix key
      show "wf_dict (votes_at qc' key)" using votes_okD(1) [OF ok] by (simp add: stored(7))
    next
      fix key vid u
      assume u: "map_of (votes_at qc' key) vid = Some u"
      show "vote_valid cr qc' key vid u"
      proof (cases "key = vote_key_of v \<and> vid = vt_validator v")
        case True
        with u new stored(7) show ?thesis by simp
      next
        case False
        with u stored(7) have "map_of (votes_at qc key) vid = Some u"
          by (auto split: if_splits)
        from vote_valid_cong [OF votes_okD(2) [OF ok this] ext] show ?thesis .
      qed
    qed
  qed
qed

subsection \<open>Everything that changes a committee\<close>

inductive committee_step :: "crypto \<Rightarrow> qcommittee \<Rightarrow> qcommittee \<Rightarrow> bool" for cr where
  vote: "record_vote cr v qc = (r, qc') \<Longrightarrow> committee_step cr qc qc'"
| availability: "issue_dac cr oper qc = (r, qc') \<Longrightarrow> committee_step cr qc qc'"
| metrics: "committee_step cr qc (reset_metrics qc)"
| signatures: "committee_step cr qc (count_signatures stmt sigs qc)"

inductive_cases committee_stepE: "committee_step cr qc qc'"

inductive committee_steps :: "crypto \<Rightarrow> qcommittee \<Rightarrow> qcommittee \<Rightarrow> bool" for cr where
  start: "committee_steps cr qc qc"
| more: "committee_steps cr qc qc' \<Longrightarrow> committee_step cr qc' qc'' \<Longrightarrow> committee_steps cr qc qc''"

lemma issue_dac_state:
  "issue_dac cr oper qc = (r, qc') \<Longrightarrow>
   qc' = count_signatures (availability_statement oper) (sign_all cr qc (availability_statement oper)) qc"
  by (auto simp: issue_dac_def Let_def split: sum.splits if_splits)

lemma metrics_same [simp]:
  "extends qc (reset_metrics qc)" "extends qc (count_signatures stmt sigs qc)"
  "votes_at (reset_metrics qc) key = votes_at qc key"
  "votes_at (count_signatures stmt sigs qc) key = votes_at qc key"
  by (simp_all add: extends_def reset_metrics_def count_signatures_def statements_at_def votes_at_def)

lemma votes_ok_cong:
  "votes_ok cr qc \<Longrightarrow> extends qc qc' \<Longrightarrow> (\<And>key. votes_at qc' key = votes_at qc key) \<Longrightarrow> votes_ok cr qc'"
  by (rule votes_okI) (auto dest: votes_okD intro: vote_valid_cong)

lemma step_keeps:
  assumes "committee_step cr qc qc'"
  shows "extends qc qc'" "votes_ok cr qc \<Longrightarrow> votes_ok cr qc'"
  using assms
proof (atomize (full), cases rule: committee_step.cases)
  case (vote v r)
  then show "extends qc qc' \<and> (votes_ok cr qc \<longrightarrow> votes_ok cr qc')"
    using record_vote_extends record_vote_ok by blast
next
  case (availability oper r)
  then show "extends qc qc' \<and> (votes_ok cr qc \<longrightarrow> votes_ok cr qc')"
    using issue_dac_state [OF availability] votes_ok_cong [of cr qc qc'] by simp
next
  case metrics
  then show "extends qc qc' \<and> (votes_ok cr qc \<longrightarrow> votes_ok cr qc')"
    using votes_ok_cong [of cr qc qc'] by simp
next
  case (signatures stmt sigs)
  then show "extends qc qc' \<and> (votes_ok cr qc \<longrightarrow> votes_ok cr qc')"
    using votes_ok_cong [of cr qc qc'] by simp
qed

lemma steps_keep:
  assumes "committee_steps cr qc qc'"
  shows "extends qc qc'" "votes_ok cr qc \<Longrightarrow> votes_ok cr qc'"
  using assms by (induction rule: committee_steps.induct) (auto intro: extends_trans step_keeps)

lemma steps_trans: "committee_steps cr b c \<Longrightarrow> committee_steps cr a b \<Longrightarrow> committee_steps cr a c"
  by (induction rule: committee_steps.induct) (auto intro: committee_steps.more)

lemma step_steps: "committee_step cr a b \<Longrightarrow> committee_steps cr a b"
  by (rule committee_steps.more [OF committee_steps.start])

lemma new_committee_ok [simp]: "votes_ok cr (new_committee vals)"
  by (simp add: votes_ok_def new_committee_def votes_at_def)

subsection \<open>One operation per conflict key\<close>

lemma issue_certificate_Inr:
  assumes "issue_certificate cr qc ep dm vs oper phase = Inr ct"
  shows "set (ct_signers ct) = vt_validator ` set (matching_votes cr qc (ep, dm, vs, phase) oper)"
    and "set (ct_signers ct) \<subseteq> committee_keys qc"
    and "qc_threshold qc \<le> (\<Sum>vid \<in> set (ct_signers ct). validator_weight qc vid)"
    and "ct_op_id ct = op_id oper"
  using assms by (auto simp: issue_certificate_def Let_def bindE_Inr_iff qc_weight_of_Inr split: if_splits)

lemma matching_statement:
  assumes ok: "votes_ok cr qc" and vid: "vid \<in> vt_validator ` set (matching_votes cr qc key oper)"
  shows "map_of (statements_at qc key) vid = Some (op_id oper, dependency_digest cr oper)"
proof -
  from vid obtain k v where v: "(k, v) \<in> set (votes_at qc key)" "vt_validator v = vid"
    "vt_op_id v = op_id oper" "vt_dependency v = dependency_digest cr oper"
    by (auto simp: matching_votes_def)
  from v(1) votes_okD(1) [OF ok] have "map_of (votes_at qc key) k = Some v" by simp
  from votes_okD(2) [OF ok this] v show ?thesis by (auto simp: vote_valid_def)
qed

lemma certificates_agree:
  assumes wf: "wf_qc qc1" and ok: "votes_ok cr qc1" and steps: "committee_steps cr qc1 qc2"
    and c1: "issue_certificate cr qc1 ep dm vs oper1 phase = Inr ct1"
    and c2: "issue_certificate cr qc2 ep dm vs oper2 phase = Inr ct2"
  shows "op_id oper1 = op_id oper2 \<and> dependency_digest cr oper1 = dependency_digest cr oper2"
proof -
  let ?key = "(ep, dm, vs, phase)"
  note ext = steps_keep(1) [OF steps] and ok2 = steps_keep(2) [OF steps ok]
  have same: "qc_validators qc2 = qc_validators qc1" using ext by (rule extends_validators)
  then have eqs: "committee_keys qc2 = committee_keys qc1" "qc_threshold qc2 = qc_threshold qc1"
    "validator_weight qc2 = validator_weight qc1"
    by (simp_all add: committee_keys_def qc_threshold_def qc_total_weight_def
        validator_weight_def [abs_def])
  note i1 = issue_certificate_Inr [OF c1] and i2 = issue_certificate_Inr [OF c2]
  have nobody: "3 * (\<Sum>vid \<in> {}. validator_weight qc1 vid) \<le>
      (\<Sum>vid \<in> committee_keys qc1. validator_weight qc1 vid)"
    using validator_weight_nonneg [OF wf] by (simp add: sum_nonneg)
  obtain vid where vid: "vid \<in> set (ct_signers ct1)" "vid \<in> set (ct_signers ct2)"
    by (rule quorum_committee.honest_overlap [OF wf i1(2) i2(2) [unfolded eqs] i1(3)
          i2(3) [unfolded eqs] empty_subsetI nobody])
  from vid i1(1) have "map_of (statements_at qc1 ?key) vid = Some (op_id oper1, dependency_digest cr oper1)"
    using matching_statement [OF ok] by blast
  moreover from vid i2(1)
  have "map_of (statements_at qc2 ?key) vid = Some (op_id oper2, dependency_digest cr oper2)"
    using matching_statement [OF ok2] by blast
  ultimately show ?thesis using extendsD [OF ext] by fastforce
qed

subsection \<open>An issued certificate verifies\<close>

lemma distinct_matching: "votes_ok cr qc \<Longrightarrow> distinct (map vt_validator (matching_votes cr qc key oper))"
proof -
  assume ok: "votes_ok cr qc"
  have "map vt_validator (dict_values (votes_at qc key)) = dict_keys (votes_at qc key)"
  proof -
    have "vt_validator v = k" if "(k, v) \<in> set (votes_at qc key)" for k v
    proof -
      from that votes_okD(1) [OF ok] have "map_of (votes_at qc key) k = Some v" by simp
      from votes_okD(2) [OF ok this] show ?thesis by (simp add: vote_valid_def)
    qed
    then show ?thesis by auto
  qed
  with votes_okD(1) [OF ok, of key] have "distinct (map vt_validator (dict_values (votes_at qc key)))"
    by (simp only:)
  then show ?thesis unfolding matching_votes_def by (rule distinct_map_filter)
qed

lemma matching_vote_signed:
  assumes ok: "votes_ok cr qc" and v: "v \<in> set (matching_votes cr qc (ep, dm, vs, phase) oper)"
  shows "\<exists>va. map_of (qc_validators qc) (vt_validator v) = Some va
    \<and> verify cr (public_key cr (va_keypair va))
        (canonical_bytes (vote_fields phase ep dm vs (op_id oper) (dependency_digest cr oper)))
        (vt_signature v)"
proof -
  from v obtain k where k: "(k, v) \<in> set (votes_at qc (ep, dm, vs, phase))"
    and m: "vt_op_id v = op_id oper" "vt_dependency v = dependency_digest cr oper"
    by (auto simp: matching_votes_def)
  with votes_okD(1) [OF ok] have "map_of (votes_at qc (ep, dm, vs, phase)) k = Some v" by simp
  from votes_okD(2) [OF ok this] m show ?thesis by (auto simp: vote_valid_def vote_key_of_def vote_statement_def)
qed

lemma issued_verifies:
  assumes wf: "wf_qc qc" and ok: "votes_ok cr qc"
    and ic: "issue_certificate cr qc ep dm vs oper phase = Inr ct"
    and phase: "phase \<in> {''PREPARE'', ''COMMIT''}"
  shows "verify_certificate cr qc ct ep dm vs oper = Inr True"
proof -
  let ?ms = "matching_votes cr qc (ep, dm, vs, phase) oper"
  let ?sigs = "sort (map (\<lambda>v. (vt_validator v, vt_signature v)) ?ms)"
  let ?who = "sorted_set (map vt_validator ?ms)"
  let ?stmt = "vote_fields phase ep dm vs (op_id oper) (dependency_digest cr oper)"
  from ic have ct: "ct = \<lparr>ct_id = certificate_digest cr (statement_digest cr phase ep dm vs oper) ?who ?sigs,
      ct_epoch = ep, ct_domains = [dm], ct_op_id = op_id oper, ct_phase = phase, ct_signers = ?who,
      ct_signatures = ?sigs, ct_statement = statement_digest cr phase ep dm vs oper\<rparr>"
    by (auto simp: issue_certificate_def Let_def bindE_Inr_iff split: if_splits)
  note i = issue_certificate_Inr [OF ic]
  have fsts: "fst ` set ?sigs = set ?who" by (force simp: image_iff)
  have "case map_of (qc_validators qc) vid of None \<Rightarrow> False
      | Some va \<Rightarrow> verify cr (public_key cr (va_keypair va)) (canonical_bytes ?stmt) s"
    if "(vid, s) \<in> set (signature_map ?sigs)" for vid s
  proof -
    from that set_signature_map have "(vid, s) \<in> set ?sigs" by blast
    then obtain v where "v \<in> set ?ms" "vid = vt_validator v" "s = vt_signature v" by auto
    with matching_vote_signed [OF ok] show ?thesis by fastforce
  qed
  then have "signatures_valid cr qc ?stmt ?who ?sigs"
    unfolding signatures_valid_def Let_def sorted_sort_id [OF sorted_sort] keys_signature_map
      known_validators_iff fsts
    using i(2) ct by auto
  moreover have "card (set ?who) = length ?who" by (rule distinct_card) simp
  moreover have "sorted_set ?who = ?who" "sort ?sigs = ?sigs"
    by (simp_all add: sorted_set_sort sorted_sort_id)
  moreover from i(2,3) ct have "qc_weight_of qc ?who = Inr (\<Sum>vid \<in> set ?who. validator_weight qc vid)"
    "qc_threshold qc \<le> (\<Sum>vid \<in> set ?who. validator_weight qc vid)" "known_validators qc ?who"
    by (simp_all add: qc_weight_of_Inr known_validators_iff)
  ultimately show ?thesis using phase unfolding ct verify_certificate_def Let_def by simp
qed

end
