(* ===== verification/Domain_Props.thy ===== *)
theory Domain_Props
  imports Domain Votes
begin

section \<open>What an executor guarantees\<close>

text \<open>
  Every method of an executor moves its committee by committee steps, so what \<open>Votes\<close> proves of
  committees holds of executors; validation is spelled out once, the effect of applying a
  committed operation is a function of the objects, and a valid operation nobody competes with
  finalizes.
\<close>

subsection \<open>Methods as committee steps\<close>

lemma record_votes_steps:
  "record_votes cr d oper phase vas qc = (r, qc') \<Longrightarrow> committee_steps cr qc qc'"
proof (induction vas arbitrary: qc)
  case Nil
  then show ?case by (simp add: committee_steps.start)
next
  case (Cons va vas)
  from Cons.prems [unfolded record_votes.simps] show ?case
  proof (cases rule: thenS_cases)
    case (first e)
    then show ?thesis by (blast intro: step_steps committee_step.vote)
  next
    case (both a qc1)
    then show ?thesis
      using Cons.IH by (blast intro: steps_trans step_steps committee_step.vote)
  qed
qed

lemma certify_cases:
  assumes "certify cr d oper phase failure qc = (r, qc')"
  shows "committee_steps cr qc qc'"
    and "r = Inr ct \<Longrightarrow>
      issue_certificate cr qc' (dm_epoch d) (dm_id d) (object_versions_of d oper) oper phase = Inr ct
      \<and> verify_certificate cr qc' ct (dm_epoch d) (dm_id d) (object_versions_of d oper) oper = Inr True"
  using assms unfolding certify_def
  by (auto elim!: thenS_cases intro: record_votes_steps simp: bindE_Inr_iff split: if_splits)

text \<open>What a successful \<open>prepare\<close> has done, and what any \<open>prepare\<close> leaves alone.\<close>

lemma prepare_Inr:
  assumes "prepare cr oper given (d, qc) = (Inr ct, s')"
  obtains da qc1 qc2 where
    "validate_operation cr d oper = Inr ()"
    "committee_steps cr qc qc1" "committee_steps cr qc1 qc2"
    "verify_dac cr qc1 oper da = Inr True"
    "issue_certificate cr qc2 (dm_epoch d) (dm_id d) (object_versions_of d oper) oper ''PREPARE'' = Inr ct"
    "verify_certificate cr qc2 ct (dm_epoch d) (dm_id d) (object_versions_of d oper) oper = Inr True"
    "s' = (d\<lparr>dm_available := AList.update (op_id oper) da (dm_available d),
             dm_prepared := AList.update (op_id oper) ct (dm_prepared d)\<rparr>, qc2)"
proof -
  let ?dac = "case given of Some da \<Rightarrow> (Inr da, qc) | None \<Rightarrow> issue_dac cr oper qc"
  from assms obtain da qc1 qc2 where v: "validate_operation cr d oper = Inr ()"
    and da: "?dac = (Inr da, qc1)" "verify_dac cr qc1 oper da = Inr True"
    and c: "certify cr (d\<lparr>dm_available := AList.update (op_id oper) da (dm_available d)\<rparr>) oper
        ''PREPARE'' ''issued prepare certificate failed verification'' qc1 = (Inr ct, qc2)"
    and s': "s' = (d\<lparr>dm_available := AList.update (op_id oper) da (dm_available d),
        dm_prepared := AList.update (op_id oper) ct (dm_prepared d)\<rparr>, qc2)"
    by (auto simp: prepare_def Let_def split: sum.splits prod.splits if_splits)
  have "committee_steps cr qc qc1"
    using da(1) by (cases given)
      (auto intro: committee_steps.start step_steps committee_step.availability)
  moreover have same: "object_versions_of (d\<lparr>dm_available := x\<rparr>) oper = object_versions_of d oper" for x
    by (simp add: object_versions_of_def local_inputs_def)
  ultimately show ?thesis
    using that [OF v _ certify_cases(1) [OF c] da(2) _ _ s'] certify_cases(2) [OF c refl]
    by (simp add: same)
qed

lemma prepare_frame:
  assumes "prepare cr oper given (d, qc) = (r, (d', qc'))"
  shows "committee_steps cr qc qc'" "dm_objects d' = dm_objects d" "dm_committed d' = dm_committed d"
    "dm_commits d' = dm_commits d" "dm_id d' = dm_id d" "dm_epoch d' = dm_epoch d"
proof -
  have dac: "committee_steps cr qc qc1"
    if "(case given of Some da \<Rightarrow> (Inr da, qc) | None \<Rightarrow> issue_dac cr oper qc) = (r1, qc1)" for r1 qc1
    using that by (cases given)
      (auto intro: committee_steps.start step_steps committee_step.availability)
  have votes: "committee_steps cr qc q2"
    if "(case given of Some da \<Rightarrow> (Inr da, qc) | None \<Rightarrow> issue_dac cr oper qc) = (r1, q1)"
      "certify cr e oper phase failure q1 = (r2, q2)" for r1 q1 e phase failure r2 q2
    by (rule steps_trans [OF certify_cases(1) [OF that(2)] dac [OF that(1)]])
  show "committee_steps cr qc qc'"
    using assms
    by (auto simp: prepare_def Let_def split: sum.splits prod.splits if_splits
        intro: committee_steps.start dac votes)
  show "dm_objects d' = dm_objects d" "dm_committed d' = dm_committed d"
    "dm_commits d' = dm_commits d" "dm_id d' = dm_id d" "dm_epoch d' = dm_epoch d"
    using assms by (auto simp: prepare_def Let_def split: sum.splits prod.splits if_splits)
qed

lemma commit_certificate_frame:
  assumes "commit_certificate cr oper prep (d, qc) = (r, (d', qc'))"
  shows "committee_steps cr qc qc'" "d' = d"
  using assms certify_cases(1)
  by (auto simp: commit_certificate_def Let_def split: sum.splits prod.splits if_splits option.splits
      intro: committee_steps.start)

lemma commit_certificate_Inr:
  assumes "commit_certificate cr oper prep (d, qc) = (Inr ct, (d', qc'))"
  shows "validate_operation cr d oper = Inr ()"
    and "map_of (dm_prepared d) (op_id oper) = Some prep"
    and "issue_certificate cr qc' (dm_epoch d) (dm_id d) (object_versions_of d oper) oper ''COMMIT'' = Inr ct"
    and "verify_certificate cr qc' ct (dm_epoch d) (dm_id d) (object_versions_of d oper) oper = Inr True"
  using assms certify_cases(2)
  by (auto simp: commit_certificate_def Let_def split: sum.splits prod.splits if_splits option.splits)

subsection \<open>Validation\<close>

lemma check_inputs_Inr:
  "check_inputs d oper is = Inr () \<longleftrightarrow>
   (\<forall>i \<in> set is. \<exists>ob. map_of (dm_objects d) (in_object i) = Some ob \<and> ob_domain ob = dm_id d
      \<and> ob_version ob = in_version i \<and> ob_owner ob = op_signer oper)"
  by (induction "is") (auto split: option.splits)

lemma card_distinct_iff: "card (set xs) = length xs \<longleftrightarrow> distinct xs"
  using card_distinct distinct_card by blast

lemma validate_Inr:
  "validate_operation cr d oper = Inr () \<longleftrightarrow>
   op_epoch oper = dm_epoch d \<and> dm_id d \<in> set (op_domains oper) \<and> operation_verify cr oper
   \<and> op_id oper \<notin> set (dm_committed d) \<and> op_inputs oper \<noteq> []
   \<and> set (map in_domain (op_inputs oper)) = set (op_domains oper)
   \<and> distinct (map input_key (op_inputs oper)) \<and> distinct (map write_key (op_writes oper))
   \<and> set (map input_key (op_inputs oper)) = set (map write_key (op_writes oper))
   \<and> (\<forall>i \<in> set (op_inputs oper). write_version oper (input_key i) = Some (in_version i))
   \<and> local_inputs d oper \<noteq> [] \<and> check_inputs d oper (local_inputs d oper) = Inr ()"
  unfolding validate_operation_def Let_def card_distinct_iff by simp

lemma distinct_on_domain:
  "distinct (map write_key ws) \<Longrightarrow> distinct (map wr_object (filter (\<lambda>w. wr_domain w = k) ws))"
  by (auto simp: distinct_map inj_on_def write_key_def)

lemma local_write_input:
  assumes v: "validate_operation cr d oper = Inr ()" and w: "w \<in> set (local_writes d oper)"
  obtains ob where "map_of (dm_objects d) (wr_object w) = Some ob" "ob_domain ob = dm_id d"
    "ob_version ob = wr_version w" "ob_owner ob = op_signer oper"
proof -
  note [simp] = validate_Inr
  from w have w': "w \<in> set (op_writes oper)" "wr_domain w = dm_id d"
    by (auto simp: local_writes_def)
  with v have "write_key w \<in> set (map input_key (op_inputs oper))" by auto
  then obtain i where i: "i \<in> set (op_inputs oper)" "input_key i = write_key w" by auto
  with w' have "i \<in> set (local_inputs d oper)" by (auto simp: local_inputs_def input_key_def write_key_def)
  with v check_inputs_Inr obtain ob where ob: "map_of (dm_objects d) (in_object i) = Some ob"
    "ob_domain ob = dm_id d" "ob_version ob = in_version i" "ob_owner ob = op_signer oper" by force
  have "map_of (dict_of write_key (op_writes oper)) (write_key w) = Some w"
    using v w' by (simp add: dict_of_distinct) (rule map_of_is_SomeI; force simp: comp_def)
  moreover from v i have "write_version oper (write_key w) = Some (in_version i)" by auto
  ultimately have "in_version i = wr_version w"
    by (simp add: write_version_def del: map_of_eq_Some_iff)
  with ob i(2) that show ?thesis by (auto simp: input_key_def write_key_def)
qed

lemma local_writes_distinct:
  "validate_operation cr d oper = Inr () \<Longrightarrow> distinct (map wr_object (local_writes d oper))"
  unfolding validate_Inr local_writes_def by (blast intro: distinct_on_domain)

subsection \<open>The effect of a committed operation\<close>

definition write_object :: "write_intent \<Rightarrow> object_state \<Rightarrow> object_state" where
  "write_object w ob = ob\<lparr>ob_version := ob_version ob + 1, ob_owner := new_owner w,
     ob_payload := new_payload w\<rparr>"

text \<open>The specification: every object the operation writes in this domain goes one version up,
  to the owner and payload of its intent; every other object stays.\<close>

definition written :: "write_intent list \<Rightarrow> (string, object_state) dict \<Rightarrow> string \<Rightarrow> object_state option" where
  "written ws objs k = (case find (\<lambda>w. wr_object w = k) ws of
      None \<Rightarrow> map_of objs k
    | Some w \<Rightarrow> map_option (write_object w) (map_of objs k))"

lemma find_None_notin: "k \<notin> wr_object ` set ws \<Longrightarrow> find (\<lambda>w. wr_object w = k) ws = None"
  by (auto simp: find_None_iff)

lemma apply_writes_Inr:
  "\<forall>w \<in> set ws. map_of objs (wr_object w) \<noteq> None \<Longrightarrow> distinct (map wr_object ws) \<Longrightarrow>
   \<exists>objs'. apply_writes ws objs = (Inr (), objs') \<and> map_of objs' = written ws objs"
proof (induction ws arbitrary: objs)
  case Nil
  then show ?case by (auto simp: written_def [abs_def])
next
  case (Cons w ws)
  then obtain ob where ob: "map_of objs (wr_object w) = Some ob" by auto
  let ?objs = "AList.update (wr_object w) (write_object w ob) objs"
  have "\<exists>objs'. apply_writes ws ?objs = (Inr (), objs') \<and> map_of objs' = written ws ?objs"
    using Cons.prems by (intro Cons.IH) auto
  moreover have "written ws ?objs = written (w # ws) objs"
  proof
    fix k
    show "written ws ?objs k = written (w # ws) objs k"
      using Cons.prems(2) ob find_None_notin [of "wr_object w" ws]
      by (cases "k = wr_object w") (auto simp: written_def split: option.split)
  qed
  ultimately show ?case using ob by (simp add: write_object_def)
qed

definition applied :: "domain \<Rightarrow> operation \<Rightarrow> certificate \<Rightarrow> domain \<Rightarrow> bool" where
  "applied d oper ct d' \<longleftrightarrow>
     map_of (dm_objects d') = written (local_writes d oper) (dm_objects d)
     \<and> dm_committed d' = List.insert (op_id oper) (dm_committed d)
     \<and> dm_commits d' = AList.update (op_id oper) ct (dm_commits d)
     \<and> dm_id d' = dm_id d \<and> dm_epoch d' = dm_epoch d"

lemma apply_committed_Inr:
  assumes v: "validate_operation cr d oper = Inr ()"
    and ct: "verify_certificate cr qc ct (dm_epoch d) (dm_id d) (object_versions_of d oper) oper = Inr True"
  obtains d' where "apply_committed cr oper ct (d, qc) = (Inr (), (d', qc))" "applied d oper ct d'"
proof -
  have "\<forall>w \<in> set (local_writes d oper). map_of (dm_objects d) (wr_object w) \<noteq> None"
    using local_write_input [OF v] by (metis option.distinct(1))
  from apply_writes_Inr [OF this local_writes_distinct [OF v]] obtain objs'
    where "apply_writes (local_writes d oper) (dm_objects d) = (Inr (), objs')"
      "map_of objs' = written (local_writes d oper) (dm_objects d)" by blast
  moreover have "op_id oper \<notin> set (dm_committed d)" using v by (simp add: validate_Inr)
  ultimately show ?thesis
    using v ct that by (simp add: apply_committed_def applied_def Let_def)
qed

lemma apply_committed_refused:
  assumes "apply_committed cr oper ct (d, qc) = (Inl e, s')"
  shows "s' = (d, qc)"
proof (cases "validate_operation cr d oper = Inr () \<and>
    verify_certificate cr qc ct (dm_epoch d) (dm_id d) (object_versions_of d oper) oper = Inr True")
  case True
  then obtain d' where "apply_committed cr oper ct (d, qc) = (Inr (), (d', qc))"
    using apply_committed_Inr by metis
  with assms show ?thesis by simp
next
  case False
  with assms show ?thesis
    by (auto simp: apply_committed_def Let_def split: sum.splits if_splits prod.splits)
qed

end
