(* ===== verification/Finality.thy ===== *)
theory Finality
  imports Domain_Props
begin

section \<open>A valid operation finalizes, and no two share object versions\<close>

text \<open>
  The invariant under which voting, certifying and finalizing an operation that nobody competes with
  succeeds; the properties are in \<open>Finality_Props\<close>.
\<close>

subsection \<open>Voting succeeds when nobody voted for something else\<close>

definition free_for :: "crypto \<Rightarrow> qcommittee \<Rightarrow> vote_key \<Rightarrow> operation \<Rightarrow> bool" where
  "free_for cr qc key oper \<longleftrightarrow> (\<forall>vid \<in> committee_keys qc.
     map_of (statements_at qc key) vid \<in> {None, Some (op_id oper, dependency_digest cr oper)})"

definition phase_key :: "domain \<Rightarrow> operation \<Rightarrow> string \<Rightarrow> vote_key" where
  "phase_key d oper phase = (dm_epoch d, dm_id d, object_versions_of d oper, phase)"

definition vote_of :: "crypto \<Rightarrow> domain \<Rightarrow> operation \<Rightarrow> string \<Rightarrow> validator \<Rightarrow> vote" where
  "vote_of cr d oper phase va = sign_vote cr va (dm_epoch d) (dm_id d) (object_versions_of d oper)
     (op_id oper) (dependency_digest cr oper) phase"

lemma vote_of_simps [simp]:
  "vt_validator (vote_of cr d oper phase va) = va_id va"
  "vt_op_id (vote_of cr d oper phase va) = op_id oper"
  "vt_dependency (vote_of cr d oper phase va) = dependency_digest cr oper"
  "vt_epoch (vote_of cr d oper phase va) = dm_epoch d"
  "vote_key_of (vote_of cr d oper phase va) = phase_key d oper phase"
  by (simp_all add: vote_of_def sign_vote_def vote_key_of_def phase_key_def)

lemma vote_of_signed:
  "sound_signatures cr \<Longrightarrow> verify cr (public_key cr (va_keypair va))
     (canonical_bytes (vote_statement (vote_of cr d oper phase va)))
     (vt_signature (vote_of cr d oper phase va))"
  by (simp add: vote_of_def sign_vote_def vote_statement_def)

lemma record_vote_of:
  assumes va: "map_of (qc_validators qc) (va_id va) = Some va" and snds: "sound_signatures cr"
    and ep: "0 \<le> dm_epoch d" and free: "free_for cr qc (phase_key d oper phase) oper"
  obtains qc' where "record_vote cr (vote_of cr d oper phase va) qc = (Inr (), qc')"
    "qc_validators qc' = qc_validators qc" "free_for cr qc' (phase_key d oper phase) oper"
    "\<And>key. key \<noteq> phase_key d oper phase \<Longrightarrow> statements_at qc' key = statements_at qc key"
    "map_of (votes_at qc' (phase_key d oper phase)) =
       (map_of (votes_at qc (phase_key d oper phase)))(va_id va \<mapsto> vote_of cr d oper phase va)"
proof -
  let ?v = "vote_of cr d oper phase va" and ?key = "phase_key d oper phase"
  obtain r qc' where rv: "record_vote cr ?v qc = (r, qc')" by fastforce
  have "va_id va \<in> committee_keys qc" using va by (force simp: committee_keys_def dest: map_of_SomeD)
  with free have "map_of (statements_at qc ?key) (va_id va) \<in>
      {None, Some (op_id oper, dependency_digest cr oper)}"
    unfolding free_for_def by blast
  with rv va ep vote_of_signed [OF snds] have ok: "r = Inr ()"
    by (auto simp: record_vote_def Let_def)
  from rv show ?thesis
  proof (cases rule: record_vote_cases)
    case (stored va')
    have "free_for cr qc' ?key oper"
      using free stored(4) by (auto simp: free_for_def committee_keys_def stored(6))
    with that [of qc'] rv ok stored show ?thesis by simp
  qed (use ok in simp)
qed

lemma record_votes_succeed:
  "sound_signatures cr \<Longrightarrow> 0 \<le> dm_epoch d \<Longrightarrow> free_for cr qc (phase_key d oper phase) oper \<Longrightarrow>
   \<forall>va \<in> set vas. map_of (qc_validators qc) (va_id va) = Some va \<Longrightarrow>
   \<exists>qc'. record_votes cr d oper phase vas qc = (Inr (), qc')
     \<and> free_for cr qc' (phase_key d oper phase) oper
     \<and> (\<forall>key. key \<noteq> phase_key d oper phase \<longrightarrow> statements_at qc' key = statements_at qc key)
     \<and> (\<forall>va \<in> set vas. map_of (votes_at qc' (phase_key d oper phase)) (va_id va) =
          Some (vote_of cr d oper phase va))
     \<and> (\<forall>vid. vid \<notin> va_id ` set vas \<longrightarrow> map_of (votes_at qc' (phase_key d oper phase)) vid =
          map_of (votes_at qc (phase_key d oper phase)) vid)"
proof (induction vas arbitrary: qc)
  case Nil
  then show ?case by simp
next
  case (Cons va vas)
  let ?key = "phase_key d oper phase"
  from Cons.prems(4) have "map_of (qc_validators qc) (va_id va) = Some va" by simp
  then obtain qc1 where qc1: "record_vote cr (vote_of cr d oper phase va) qc = (Inr (), qc1)"
    "qc_validators qc1 = qc_validators qc" "free_for cr qc1 ?key oper"
    "\<And>key. key \<noteq> ?key \<Longrightarrow> statements_at qc1 key = statements_at qc key"
    "map_of (votes_at qc1 ?key) = (map_of (votes_at qc ?key))(va_id va \<mapsto> vote_of cr d oper phase va)"
    using record_vote_of [OF _ Cons.prems(1-3)] by blast
  from Cons.prems(4) qc1(2) have "\<forall>va \<in> set vas. map_of (qc_validators qc1) (va_id va) = Some va" by simp
  from Cons.IH [OF Cons.prems(1,2) qc1(3) this] obtain qc' where
    qc': "record_votes cr d oper phase vas qc1 = (Inr (), qc')"
    "free_for cr qc' ?key oper"
    "\<forall>key. key \<noteq> ?key \<longrightarrow> statements_at qc' key = statements_at qc1 key"
    "\<forall>va \<in> set vas. map_of (votes_at qc' ?key) (va_id va) = Some (vote_of cr d oper phase va)"
    "\<forall>vid. vid \<notin> va_id ` set vas \<longrightarrow> map_of (votes_at qc' ?key) vid = map_of (votes_at qc1 ?key) vid"
    by blast
  have "record_votes cr d oper phase (va # vas) qc = (Inr (), qc')"
    using qc1(1) qc'(1) by (simp add: thenS_def vote_of_def)
  moreover have "map_of (votes_at qc' ?key) (va_id va) = Some (vote_of cr d oper phase va)"
  proof (cases "va_id va \<in> va_id ` set vas")
    case True
    then obtain va' where "va' \<in> set vas" "va_id va' = va_id va" by auto
    with Cons.prems(4) have "va' = va" by fastforce
    with \<open>va' \<in> set vas\<close> qc'(4) show ?thesis by blast
  next
    case False
    with qc'(5) qc1(5) show ?thesis by simp
  qed
  ultimately show ?case using qc' qc1 by (auto intro!: exI [of _ qc'])
qed

lemma all_voted_issue:
  assumes wf: "wf_qc qc" and ok: "votes_ok cr qc" and pos: "0 < qc_total_weight qc"
    and all: "\<forall>va \<in> set (dict_values (qc_validators qc)).
      map_of (votes_at qc (phase_key d oper phase)) (va_id va) = Some (vote_of cr d oper phase va)"
  obtains ct where "issue_certificate cr qc (dm_epoch d) (dm_id d) (object_versions_of d oper) oper phase = Inr ct"
proof -
  let ?ms = "matching_votes cr qc (phase_key d oper phase) oper"
  have "committee_keys qc \<subseteq> vt_validator ` set ?ms"
  proof
    fix vid
    assume "vid \<in> committee_keys qc"
    then obtain va where va: "(vid, va) \<in> set (qc_validators qc)"
      by (auto simp: committee_keys_def)
    with wf have id: "va_id va = vid" by (auto simp: wf_qc_def)
    from va have "va \<in> set (dict_values (qc_validators qc))" by force
    with all id have "map_of (votes_at qc (phase_key d oper phase)) vid = Some (vote_of cr d oper phase va)"
      by blast
    then have "(vid, vote_of cr d oper phase va) \<in> set (votes_at qc (phase_key d oper phase))"
      by (rule map_of_SomeD)
    then have "vote_of cr d oper phase va \<in> set ?ms" by (force simp: matching_votes_def)
    with id show "vid \<in> vt_validator ` set ?ms" by force
  qed
  moreover have "vt_validator ` set ?ms \<subseteq> committee_keys qc"
  proof -
    have "vt_validator v \<in> committee_keys qc" if "v \<in> set ?ms" for v
      using matching_vote_signed [OF ok that [unfolded phase_key_def]]
      by (force simp: committee_keys_def dest: map_of_SomeD)
    then show ?thesis by blast
  qed
  ultimately have "qc_weight_of qc (sorted_set (map vt_validator ?ms)) = Inr (qc_total_weight qc)"
    by (simp add: qc_weight_of_Inr qc_total_as_sum [OF wf])
  with total_reaches [OF pos] that show ?thesis
    by (simp add: issue_certificate_def Let_def phase_key_def)
qed

lemma certify_succeeds:
  assumes wf: "wf_qc qc" and ok: "votes_ok cr qc" and pos: "0 < qc_total_weight qc"
    and snds: "sound_signatures cr" and ep: "0 \<le> dm_epoch d"
    and free: "free_for cr qc (phase_key d oper phase) oper"
    and phase: "phase \<in> {''PREPARE'', ''COMMIT''}"
  obtains ct qc' where "certify cr d oper phase failure qc = (Inr ct, qc')"
    "free_for cr qc' (phase_key d oper phase) oper"
    "\<And>key. key \<noteq> phase_key d oper phase \<Longrightarrow> statements_at qc' key = statements_at qc key"
proof -
  have vals: "\<forall>va \<in> set (dict_values (qc_validators qc)). map_of (qc_validators qc) (va_id va) = Some va"
    using wf by (auto simp: wf_qc_def)
  from record_votes_succeed [OF snds ep free vals] obtain qc' where
    rv: "record_votes cr d oper phase (dict_values (qc_validators qc)) qc = (Inr (), qc')"
    and free': "free_for cr qc' (phase_key d oper phase) oper"
    and st: "\<And>key. key \<noteq> phase_key d oper phase \<Longrightarrow> statements_at qc' key = statements_at qc key"
    and voted: "\<forall>va \<in> set (dict_values (qc_validators qc)).
      map_of (votes_at qc' (phase_key d oper phase)) (va_id va) = Some (vote_of cr d oper phase va)"
    by blast
  note keep = steps_keep [OF record_votes_steps [OF rv]]
  have same: "qc_validators qc' = qc_validators qc" using keep(1) by (rule extends_validators)
  have wf': "wf_qc qc'" and pos': "0 < qc_total_weight qc'"
    using wf pos same by (simp_all add: wf_qc_def qc_total_weight_def)
  obtain ct where ct:
    "issue_certificate cr qc' (dm_epoch d) (dm_id d) (object_versions_of d oper) oper phase = Inr ct"
    using all_voted_issue [OF wf' keep(2) [OF ok] pos'] voted same by metis
  from issued_verifies [OF wf' keep(2) [OF ok] this phase] ct rv
  have "certify cr d oper phase failure qc = (Inr ct, qc')"
    by (simp add: certify_def thenS_def)
  from that [OF this free' st] show ?thesis .
qed

subsection \<open>Finalization\<close>

lemma prepare_succeeds:
  assumes v: "validate_operation cr d oper = Inr ()" and wf: "wf_qc qc" and ok: "votes_ok cr qc"
    and pos: "0 < qc_total_weight qc" and snds: "sound_signatures cr" and ep: "0 \<le> dm_epoch d"
    and free: "free_for cr qc (phase_key d oper ''PREPARE'') oper"
  obtains ct d' qc' where "prepare cr oper None (d, qc) = (Inr ct, (d', qc'))"
    "\<And>key. key \<noteq> phase_key d oper ''PREPARE'' \<Longrightarrow> statements_at qc' key = statements_at qc key"
proof -
  let ?st = "availability_statement oper"
  let ?qc = "count_signatures ?st (sign_all cr qc ?st) qc"
  obtain da where da: "issue_dac cr oper qc = (Inr da, ?qc)" "verify_dac cr ?qc oper da = Inr True"
    using wf pos snds by (rule issue_dac_ok)
  let ?d = "d\<lparr>dm_available := AList.update (op_id oper) da (dm_available d)\<rparr>"
  have same: "qc_validators ?qc = qc_validators qc" "statements_at ?qc key = statements_at qc key" for key
    by (simp_all add: count_signatures_def statements_at_def)
  have ok': "votes_ok cr ?qc" using ok by (rule votes_ok_cong) simp_all
  have pk: "phase_key ?d oper phase = phase_key d oper phase" for phase
    by (simp add: phase_key_def object_versions_of_def local_inputs_def)
  have wf': "wf_qc ?qc" and pos': "0 < qc_total_weight ?qc" and ep': "0 \<le> dm_epoch ?d"
    using wf pos ep by (simp_all add: wf_qc_def qc_total_weight_def same)
  have free': "free_for cr ?qc (phase_key ?d oper ''PREPARE'') oper"
    using free by (simp add: free_for_def committee_keys_def same pk)
  obtain ct qc' where "certify cr ?d oper ''PREPARE'' ''issued prepare certificate failed verification'' ?qc
      = (Inr ct, qc')"
    and st: "\<And>key. key \<noteq> phase_key ?d oper ''PREPARE'' \<Longrightarrow> statements_at qc' key = statements_at ?qc key"
    using certify_succeeds [OF wf' ok' pos' snds ep' free'] by blast
  then have "prepare cr oper None (d, qc) =
      (Inr ct, (?d\<lparr>dm_prepared := AList.update (op_id oper) ct (dm_prepared ?d)\<rparr>, qc'))"
    using v da by (simp add: prepare_def Let_def)
  from that [OF this] st same(2) pk show ?thesis by simp
qed

lemma validate_cong:
  "dm_objects d' = dm_objects d \<Longrightarrow> dm_committed d' = dm_committed d \<Longrightarrow> dm_id d' = dm_id d \<Longrightarrow>
   dm_epoch d' = dm_epoch d \<Longrightarrow> validate_operation cr d' oper = validate_operation cr d oper"
proof -
  assume eqs: "dm_objects d' = dm_objects d" "dm_committed d' = dm_committed d" "dm_id d' = dm_id d"
    "dm_epoch d' = dm_epoch d"
  have "check_inputs d' oper is = check_inputs d oper is" for "is"
    by (induction "is") (simp_all add: eqs cong: option.case_cong if_cong)
  then show ?thesis by (simp only: validate_operation_def local_inputs_def eqs)
qed

lemma versions_cong: "dm_id d' = dm_id d \<Longrightarrow> object_versions_of d' oper = object_versions_of d oper"
  by (simp add: object_versions_of_def local_inputs_def)

lemma commit_certificate_ok:
  assumes v: "validate_operation cr d oper = Inr ()"
    and prep: "map_of (dm_prepared d) (op_id oper) = Some prep"
    and c: "certify cr d oper ''COMMIT'' ''issued commit certificate failed verification'' qc = (r, qc')"
  shows "commit_certificate cr oper prep (d, qc) = (r, (d, qc'))"
  using assms by (simp add: commit_certificate_def)

lemma prepare_prepared:
  "prepare cr oper given (d, qc) = (Inr ct, (d', qc')) \<Longrightarrow> map_of (dm_prepared d') (op_id oper) = Some ct"
  by (erule prepare_Inr) simp

text \<open>What an executor needs of its committee to get an operation through.\<close>

definition ready :: "crypto \<Rightarrow> qcommittee \<Rightarrow> bool" where
  "ready cr qc \<longleftrightarrow> wf_qc qc \<and> votes_ok cr qc \<and> 0 < qc_total_weight qc"

lemma ready_steps: "ready cr qc \<Longrightarrow> committee_steps cr qc qc' \<Longrightarrow> ready cr qc'"
  using steps_keep [of cr qc qc'] extends_validators [of qc qc']
  by (simp add: ready_def wf_qc_def qc_total_weight_def)

lemma free_for_cong:
  "free_for cr qc key oper \<Longrightarrow> qc_validators qc' = qc_validators qc \<Longrightarrow>
   statements_at qc' key = statements_at qc key \<Longrightarrow> free_for cr qc' key oper"
  by (simp add: free_for_def committee_keys_def)

definition final_effect :: "domain \<Rightarrow> operation \<Rightarrow> domain \<Rightarrow> bool" where
  "final_effect d oper d' \<longleftrightarrow>
     map_of (dm_objects d') = written (local_writes d oper) (dm_objects d)
     \<and> dm_committed d' = List.insert (op_id oper) (dm_committed d)"

lemma finalize_ok:
  assumes v: "validate_operation cr d oper = Inr ()" and wf: "wf_qc qc" and ok: "votes_ok cr qc"
    and pos: "0 < qc_total_weight qc" and snds: "sound_signatures cr" and ep: "0 \<le> dm_epoch d"
    and free: "free_for cr qc (phase_key d oper ''PREPARE'') oper"
      "free_for cr qc (phase_key d oper ''COMMIT'') oper"
  obtains ct d' qc' where "finalize cr oper (d, qc) = (Inr ct, (d', qc'))" "final_effect d oper d'"
proof -
  obtain prep d1 qc1 where p: "prepare cr oper None (d, qc) = (Inr prep, (d1, qc1))"
    and st: "\<And>key. key \<noteq> phase_key d oper ''PREPARE'' \<Longrightarrow> statements_at qc1 key = statements_at qc key"
    using prepare_succeeds [OF assms(1-7)] by blast
  note fr = prepare_frame [OF p] and keep = steps_keep [OF prepare_frame(1) [OF p]]
  have same: "qc_validators qc1 = qc_validators qc" using keep(1) by (rule extends_validators)
  have wf1: "wf_qc qc1" and pos1: "0 < qc_total_weight qc1"
    using wf pos same by (simp_all add: wf_qc_def qc_total_weight_def)
  note vs = versions_cong [OF fr(5)]
  have v1: "validate_operation cr d1 oper = Inr ()" using validate_cong [OF fr(2,3,5,6)] v by simp
  have prepared: "map_of (dm_prepared d1) (op_id oper) = Some prep"
    using p by (rule prepare_Inr) simp
  have pk: "phase_key d1 oper phase = phase_key d oper phase" for phase
    by (simp add: phase_key_def fr vs)
  have "phase_key d oper ''COMMIT'' \<noteq> phase_key d oper ''PREPARE''" by (simp add: phase_key_def)
  then have "free_for cr qc1 (phase_key d1 oper ''COMMIT'') oper"
    using free(2) by (simp add: free_for_def committee_keys_def same pk st)
  then obtain ct qc2 where c: "certify cr d1 oper ''COMMIT''
      ''issued commit certificate failed verification'' qc1 = (Inr ct, qc2)"
    using certify_succeeds [OF wf1 keep(2) [OF ok] pos1 snds] ep fr(6)
    by (metis insertCI)
  from certify_cases(2) [OF c refl]
  have "verify_certificate cr qc2 ct (dm_epoch d1) (dm_id d1) (object_versions_of d1 oper) oper = Inr True"
    by blast
  from apply_committed_Inr [OF v1 this] obtain d2
    where a: "apply_committed cr oper ct (d1, qc2) = (Inr (), (d2, qc2))" and e: "applied d1 oper ct d2"
    by blast
  have "finalize cr oper (d, qc) = (Inr ct, (d2, qc2))"
    using p v1 prepared c a
    by (simp add: finalize_def commit_operation_def commit_certificate_def thenS_def)
  moreover have "final_effect d oper d2"
    using e by (simp add: applied_def final_effect_def local_writes_def fr)
  ultimately show ?thesis using that by blast
qed

end
