(* ===== verification/Finality_Props.thy ===== *)
theory Finality_Props
  imports Finality
begin

section \<open>Finality: the properties, and where the conflict key is too wide\<close>

text \<open>
  A concrete committee, domain and operations, and the properties of a domain at them: finalizing
  succeeds, certificates are unique per list of object versions, and where lists overlap they are not.
\<close>

subsection \<open>A committee, a domain and operations the witnesses run on\<close>

definition demo_validator :: validator where
  "demo_validator = \<lparr>va_id = ''v'', va_keypair = \<lparr>private_bytes = ''k''\<rparr>, va_weight = 1, va_byzantine = False\<rparr>"

definition demo_committee :: qcommittee where
  "demo_committee = new_committee [(''v'', demo_validator)]"

definition demo_owner :: keypair where
  "demo_owner = \<lparr>private_bytes = ''c''\<rparr>"

definition demo_object :: "string \<Rightarrow> object_state" where
  "demo_object k = \<lparr>ob_id = k, ob_version = 0, ob_owner = identity demo_crypto demo_owner,
     ob_payload = ''0'', ob_domain = ''d''\<rparr>"

definition demo_domain :: domain where
  "demo_domain = new_domain ''d'' 0\<lparr>dm_objects := [(''a'', demo_object ''a''), (''b'', demo_object ''b'')]\<rparr>"

definition demo_input :: "string \<Rightarrow> input_ref" where
  "demo_input k = \<lparr>in_domain = ''d'', in_object = k, in_version = 0\<rparr>"

definition demo_write :: "string \<Rightarrow> write_intent" where
  "demo_write k = \<lparr>wr_domain = ''d'', wr_object = k, wr_version = 0, new_owner = ''o'', new_payload = ''1''\<rparr>"

definition demo_operation :: "string list \<Rightarrow> operation" where
  "demo_operation ks = operation_create demo_crypto demo_owner 0 (map demo_input ks) (map demo_write ks)
     [''d''] [] 0"

lemmas demo_defs = demo_validator_def demo_committee_def demo_owner_def demo_object_def
  demo_domain_def demo_input_def demo_write_def new_domain_def new_committee_def

lemma demo_ready: "ready demo_crypto demo_committee"
proof -
  have "votes_ok demo_crypto demo_committee" unfolding demo_committee_def by (rule new_committee_ok)
  then show ?thesis by (simp add: ready_def wf_qc_def qc_total_weight_def demo_defs)
qed

lemma demo_free: "free_for cr demo_committee key oper"
  by (simp add: free_for_def demo_committee_def new_committee_def statements_at_def)

lemma demo_operation_fields [simp]:
  "op_epoch (demo_operation ks) = 0" "op_domains (demo_operation ks) = [''d'']"
  "op_inputs (demo_operation ks) = map demo_input ks" "op_writes (demo_operation ks) = map demo_write ks"
  "op_signer (demo_operation ks) = identity demo_crypto demo_owner"
  "operation_verify demo_crypto (demo_operation ks)"
  by (simp_all add: demo_operation_def) (simp_all add: operation_create_def Let_def sorted_set_def)

lemma site_valid:
  assumes "ks = [''a''] \<or> ks = [''a'', ''b'']"
  shows "validate_operation demo_crypto demo_domain (demo_operation ks) = Inr ()"
proof -
  have "op_id (demo_operation ks) \<notin> set (dm_committed demo_domain)" by (simp add: demo_defs)
  then show ?thesis
    using assms unfolding validate_Inr
    by (elim disjE) (simp_all add: check_inputs_Inr local_inputs_def write_version_def input_key_def
        write_key_def dict_of_def demo_defs)
qed

lemma demo_ids_differ: "op_id (demo_operation [''a'']) \<noteq> op_id (demo_operation [''a'', ''b''])"
proof
  let ?v = "\<lambda>ks. JObj (op_fields 0 (identity demo_crypto demo_owner) (public_key demo_crypto demo_owner)
    [''d''] (map demo_input ks) (map demo_write ks) [] 0)"
  have oid: "op_id (demo_operation ks) = digest demo_crypto (?v ks)" for ks
    by (simp add: demo_operation_def operation_create_def Let_def sorted_set_def)
  assume "op_id (demo_operation [''a'']) = op_id (demo_operation [''a'', ''b''])"
  then have "digest demo_crypto (?v [''a'']) = digest demo_crypto (?v [''a'', ''b''])" unfolding oid .
  then have "json_norm (?v [''a'']) = json_norm (?v [''a'', ''b''])"
    by (rule digest_norm) (simp_all add: op_fields_def input_json_def write_json_def)
  then show False by (simp add: op_fields_def)
qed

lemma demo_epoch: "0 \<le> dm_epoch demo_domain"
  by (simp add: demo_defs)

subsection \<open>Properties\<close>

text \<open>
  Liveness of a domain: an operation that validates, on a committee of positive weight whose
  validators have not voted for another operation on the same object versions, is finalized by
  one call; afterwards every object it writes is one version up with the owner and payload of its
  intent, every other object is unchanged, and the operation is recorded as committed, so it is
  refused a second time.
\<close>

theorem finalize_succeeds:
  assumes v: "validate_operation cr d oper = Inr ()" and rdy: "ready cr qc"
    and snds: "sound_signatures cr" and ep: "0 \<le> dm_epoch d"
    and free: "free_for cr qc (phase_key d oper ''PREPARE'') oper"
      "free_for cr qc (phase_key d oper ''COMMIT'') oper"
  shows "\<exists>ct d' qc'. finalize cr oper (d, qc) = (Inr ct, (d', qc'))
    \<and> (\<forall>k. map_of (dm_objects d') k = written (local_writes d oper) (dm_objects d) k)
    \<and> op_id oper \<in> set (dm_committed d') \<and> validate_operation cr d' oper \<noteq> Inr ()"
proof -
  obtain ct d' qc' where "finalize cr oper (d, qc) = (Inr ct, (d', qc'))" "final_effect d oper d'"
    using finalize_ok [OF v _ _ _ snds ep free] rdy unfolding ready_def by blast
  then show ?thesis by (auto simp: final_effect_def validate_Inr)
qed

theorem finalize_succeeds_witness:
  "\<exists>ct d' qc'. finalize demo_crypto (demo_operation [''a'']) (demo_domain, demo_committee) = (Inr ct, (d', qc'))
    \<and> (\<forall>k. map_of (dm_objects d') k =
         written (local_writes demo_domain (demo_operation [''a''])) (dm_objects demo_domain) k)
    \<and> op_id (demo_operation [''a'']) \<in> set (dm_committed d')
    \<and> validate_operation demo_crypto d' (demo_operation [''a'']) \<noteq> Inr ()"
  by (rule finalize_succeeds [OF site_valid demo_ready demo_sound demo_epoch demo_free demo_free]) simp

text \<open>
  One call on an executor, seen from the other operations: what it votes on is \<open>key\<close>, everything
  validation reads is unchanged, and only \<open>oid\<close> may be newly prepared.
\<close>

definition other_untouched :: "crypto \<Rightarrow> vote_key \<Rightarrow> string \<Rightarrow> site \<Rightarrow> site \<Rightarrow> bool" where
  "other_untouched cr key oid s s' \<longleftrightarrow> ready cr (snd s')
     \<and> validate_operation cr (fst s') = validate_operation cr (fst s)
     \<and> phase_key (fst s') = phase_key (fst s) \<and> dm_epoch (fst s') = dm_epoch (fst s)
     \<and> (\<forall>k. k \<noteq> oid \<longrightarrow> map_of (dm_prepared (fst s')) k = map_of (dm_prepared (fst s)) k)
     \<and> (\<forall>key' oper. key' \<noteq> key \<longrightarrow> free_for cr (snd s) key' oper \<longrightarrow> free_for cr (snd s') key' oper)"

lemma other_untouchedD:
  assumes "other_untouched cr key oid s s'"
  shows "ready cr (snd s')" "validate_operation cr (fst s') = validate_operation cr (fst s)"
    "phase_key (fst s') = phase_key (fst s)" "dm_epoch (fst s') = dm_epoch (fst s)"
    "k \<noteq> oid \<Longrightarrow> map_of (dm_prepared (fst s')) k = map_of (dm_prepared (fst s)) k"
    "key' \<noteq> key \<Longrightarrow> free_for cr (snd s) key' oper \<Longrightarrow> free_for cr (snd s') key' oper"
  using assms unfolding other_untouched_def by blast+

lemma prepare_then:
  assumes "validate_operation cr (fst s) oper = Inr ()" "ready cr (snd s)" "sound_signatures cr"
    "0 \<le> dm_epoch (fst s)" "free_for cr (snd s) (phase_key (fst s) oper ''PREPARE'') oper"
  obtains prep s' where "prepare cr oper None s = (Inr prep, s')"
    "map_of (dm_prepared (fst s')) (op_id oper) = Some prep"
    "other_untouched cr (phase_key (fst s) oper ''PREPARE'') (op_id oper) s s'"
proof -
  obtain d qc where s: "s = (d, qc)" by fastforce
  obtain prep d' qc' where p: "prepare cr oper None (d, qc) = (Inr prep, (d', qc'))"
    and st: "\<And>key. key \<noteq> phase_key d oper ''PREPARE'' \<Longrightarrow> statements_at qc' key = statements_at qc key"
    using prepare_succeeds [of cr d oper qc] assms unfolding s ready_def by auto
  note fr = prepare_frame [OF p]
  have "validate_operation cr d' = validate_operation cr d"
    by (rule ext) (rule validate_cong [OF fr(2,3,5,6)])
  moreover have "phase_key d' = phase_key d"
    by (intro ext) (simp add: phase_key_def versions_cong [OF fr(5)] fr)
  moreover have "map_of (dm_prepared d') k = map_of (dm_prepared d) k" if "k \<noteq> op_id oper" for k
    using p that by (elim prepare_Inr) simp
  moreover have "ready cr qc'" using assms(2) ready_steps [OF _ fr(1)] by (simp add: s)
  moreover have "free_for cr qc' key oper'"
    if "key \<noteq> phase_key d oper ''PREPARE''" "free_for cr qc key oper'" for key oper'
    by (rule free_for_cong [OF that(2) extends_validators [OF steps_keep(1) [OF fr(1)]] st [OF that(1)]])
  ultimately have "other_untouched cr (phase_key d oper ''PREPARE'') (op_id oper) s (d', qc')"
    using fr(6) unfolding other_untouched_def s by auto
  with that [of prep "(d', qc')"] p prepare_prepared [OF p] s show ?thesis by simp
qed

lemma commit_then:
  assumes "validate_operation cr (fst s) oper = Inr ()" "ready cr (snd s)" "sound_signatures cr"
    "0 \<le> dm_epoch (fst s)" "map_of (dm_prepared (fst s)) (op_id oper) = Some prep"
    "free_for cr (snd s) (phase_key (fst s) oper ''COMMIT'') oper"
  obtains ct s' where "commit_certificate cr oper prep s = (Inr ct, s')" "fst s' = fst s"
    "free_for cr (snd s') (phase_key (fst s) oper ''COMMIT'') oper"
    "other_untouched cr (phase_key (fst s) oper ''COMMIT'') (op_id oper) s s'"
proof -
  obtain d qc where s: "s = (d, qc)" by fastforce
  have "wf_qc qc" "votes_ok cr qc" "0 < qc_total_weight qc" "0 \<le> dm_epoch d"
    "free_for cr qc (phase_key d oper ''COMMIT'') oper"
    using assms by (simp_all add: s ready_def)
  from certify_succeeds [OF this(1-3) assms(3) this(4,5)] obtain ct qc'
    where c: "certify cr d oper ''COMMIT'' ''issued commit certificate failed verification'' qc = (Inr ct, qc')"
      "free_for cr qc' (phase_key d oper ''COMMIT'') oper"
    and st: "\<And>key. key \<noteq> phase_key d oper ''COMMIT'' \<Longrightarrow> statements_at qc' key = statements_at qc key"
    by blast
  note steps = certify_cases(1) [OF c(1)]
  have "free_for cr qc' key oper'"
    if "key \<noteq> phase_key d oper ''COMMIT''" "free_for cr qc key oper'" for key oper'
    by (rule free_for_cong [OF that(2) extends_validators [OF steps_keep(1) [OF steps]] st [OF that(1)]])
  moreover have "ready cr qc'" using assms(2) ready_steps [OF _ steps] by (simp add: s)
  ultimately have "other_untouched cr (phase_key d oper ''COMMIT'') (op_id oper) s (d, qc')"
    unfolding other_untouched_def s by auto
  moreover have "commit_certificate cr oper prep (d, qc) = (Inr ct, (d, qc'))"
    using commit_certificate_ok [OF _ _ c(1)] assms by (simp add: s)
  ultimately show ?thesis using that [of ct "(d, qc')"] c(2) s by simp
qed

text \<open>
  C9. No two commit certificates for one set of object versions: once an executor of a committee
  has obtained a commit certificate, whatever the committee does afterwards, an executor of the
  same domain and epoch that obtains a commit certificate for the same object versions has it for
  the same operation with the same dependencies. No hypothesis on the validators is needed, as
  the committee itself refuses a second statement of any of them.
\<close>

theorem certified_once:
  assumes "ready cr qc"
    and c1: "commit_certificate cr oper1 prep1 (d1, qc) = (Inr ct1, (d1', qc1))"
    and later: "committee_steps cr qc1 qc2"
    and c2: "commit_certificate cr oper2 prep2 (d2, qc2) = (Inr ct2, (d2', qc3))"
    and same: "dm_id d2 = dm_id d1" "dm_epoch d2 = dm_epoch d1"
      "object_versions_of d2 oper2 = object_versions_of d1 oper1"
  shows "op_id oper1 = op_id oper2 \<and> dependency_digest cr oper1 = dependency_digest cr oper2"
proof -
  have "ready cr qc1" by (rule ready_steps [OF assms(1) commit_certificate_frame(1) [OF c1]])
  then have "wf_qc qc1" "votes_ok cr qc1" by (simp_all add: ready_def)
  from certificates_agree [OF this steps_trans [OF commit_certificate_frame(1) [OF c2] later]
      commit_certificate_Inr(3) [OF c1]] commit_certificate_Inr(3) [OF c2]
  show ?thesis by (simp add: same)
qed

theorem certified_once_witness:
  "\<exists>ct qc. (\<exists>prep d qc1. prepare demo_crypto (demo_operation [''a'']) None (demo_domain, demo_committee)
        = (Inr prep, (d, qc1))
      \<and> commit_certificate demo_crypto (demo_operation [''a'']) prep (d, qc1) = (Inr ct, (d, qc)))
    \<and> op_id (demo_operation [''a'']) = op_id (demo_operation [''a''])
    \<and> dependency_digest demo_crypto (demo_operation [''a'']) = dependency_digest demo_crypto (demo_operation [''a''])"
proof -
  let ?op = "demo_operation [''a'']" and ?s = "(demo_domain, demo_committee)"
  have v: "validate_operation demo_crypto (fst ?s) ?op = Inr ()" by (simp add: site_valid)
  obtain prep s where p: "prepare demo_crypto ?op None ?s = (Inr prep, s)"
    "map_of (dm_prepared (fst s)) (op_id ?op) = Some prep"
    and u: "other_untouched demo_crypto (phase_key (fst ?s) ?op ''PREPARE'') (op_id ?op) ?s s"
    using prepare_then [OF v] demo_ready demo_epoch demo_free by (metis demo_sound fst_conv snd_conv)
  note u = other_untouchedD [OF u]
  have v1: "validate_operation demo_crypto (fst s) ?op = Inr ()" using v by (simp only: u)
  have ep: "0 \<le> dm_epoch (fst s)" using demo_epoch by (simp add: u)
  have free: "free_for demo_crypto (snd s) (phase_key (fst s) ?op ''COMMIT'') ?op"
    unfolding u(3) by (rule u(6)) (simp_all add: phase_key_def demo_free)
  obtain ct s1 where c: "commit_certificate demo_crypto ?op prep s = (Inr ct, s1)" "fst s1 = fst s"
    "free_for demo_crypto (snd s1) (phase_key (fst s) ?op ''COMMIT'') ?op"
    and u1: "other_untouched demo_crypto (phase_key (fst s) ?op ''COMMIT'') (op_id ?op) s s1"
    by (rule commit_then [OF v1 u(1) demo_sound ep p(2) free])
  have v2: "validate_operation demo_crypto (fst s1) ?op = Inr ()" "0 \<le> dm_epoch (fst s1)"
    "map_of (dm_prepared (fst s1)) (op_id ?op) = Some prep"
    "free_for demo_crypto (snd s1) (phase_key (fst s1) ?op ''COMMIT'') ?op"
    using v1 ep p(2) c(2,3) by simp_all
  obtain ct2 s2 where c2: "commit_certificate demo_crypto ?op prep s1 = (Inr ct2, s2)"
    by (rule commit_then [OF v2(1) other_untouchedD(1) [OF u1] demo_sound v2(2-4)])
  have "op_id ?op = op_id ?op \<and> dependency_digest demo_crypto ?op = dependency_digest demo_crypto ?op"
    by (rule certified_once [of demo_crypto "snd s" ?op prep "fst s" ct "fst s1" "snd s1" "snd s1" ?op
          prep "fst s1" ct2 "fst s2" "snd s2", OF u(1) _ committee_steps.start])
      (simp_all only: prod.collapse c(1) c2, simp_all add: c(2))
  moreover have "prepare demo_crypto ?op None ?s = (Inr prep, (fst s, snd s))"
    "commit_certificate demo_crypto ?op prep (fst s, snd s) = (Inr ct, (fst s, snd s1))"
    using p(1) c(1,2) by (simp, cases s, cases s1, simp)
  ultimately show ?thesis by blast
qed

text \<open>
  The conflict key is the whole list of object versions, so two different operations whose
  input lists differ but share an object at one version do not conflict: both are prepared and
  both get a commit certificate that verifies, although only one of them can be applied. (The
  safety requirements of the repository ask that no two valid certificates exist for one domain,
  object and version.)
\<close>

theorem overlapping_inputs_certified:
  assumes v: "validate_operation cr d oper1 = Inr ()" "validate_operation cr d oper2 = Inr ()"
    and rdy: "ready cr qc" and snds: "sound_signatures cr" and ep: "0 \<le> dm_epoch d"
    and free: "\<And>phase. free_for cr qc (phase_key d oper1 phase) oper1"
      "\<And>phase. free_for cr qc (phase_key d oper2 phase) oper2"
    and differ: "object_versions_of d oper1 \<noteq> object_versions_of d oper2" "op_id oper1 \<noteq> op_id oper2"
  shows "\<exists>p1 s1 p2 s2 ct1 s3 ct2 d' qc'. prepare cr oper1 None (d, qc) = (Inr p1, s1)
    \<and> prepare cr oper2 None s1 = (Inr p2, s2) \<and> commit_certificate cr oper1 p1 s2 = (Inr ct1, s3)
    \<and> commit_certificate cr oper2 p2 s3 = (Inr ct2, (d', qc'))
    \<and> verify_certificate cr qc' ct2 (dm_epoch d) (dm_id d) (object_versions_of d oper2) oper2 = Inr True"
proof -
  let ?s = "(d, qc)"
  note start = v(1) rdy ep free(1) [of "''PREPARE''"]
  obtain p1 s1 where p1: "prepare cr oper1 None ?s = (Inr p1, s1)"
    "map_of (dm_prepared (fst s1)) (op_id oper1) = Some p1"
    and u1: "other_untouched cr (phase_key d oper1 ''PREPARE'') (op_id oper1) ?s s1"
    using prepare_then [of cr ?s oper1] start snds unfolding fst_conv snd_conv by metis
  note u1 = other_untouchedD [OF u1, unfolded fst_conv snd_conv]
  have apart: "phase_key d oper2 phase \<noteq> phase_key d oper1 phase'" for phase phase'
    using differ(1) by (simp add: phase_key_def)
  have commit: "phase_key d oper ''COMMIT'' \<noteq> phase_key d oper' ''PREPARE''" for oper oper'
    by (simp add: phase_key_def)
  have s1: "validate_operation cr (fst s1) oper2 = Inr ()" "0 \<le> dm_epoch (fst s1)"
    "free_for cr (snd s1) (phase_key (fst s1) oper2 ''PREPARE'') oper2"
    using v ep u1(6) [OF apart free(2)] by (simp_all add: u1)
  obtain p2 s2 where p2: "prepare cr oper2 None s1 = (Inr p2, s2)"
    "map_of (dm_prepared (fst s2)) (op_id oper2) = Some p2"
    and u2: "other_untouched cr (phase_key (fst s1) oper2 ''PREPARE'') (op_id oper2) s1 s2"
    by (rule prepare_then [OF s1(1) u1(1) snds s1(2,3)])
  note u2 = other_untouchedD [OF u2]
  have key: "phase_key (fst s2) = phase_key d" by (simp add: u1 u2)
  have s2: "validate_operation cr (fst s2) oper1 = Inr ()" "validate_operation cr (fst s2) oper2 = Inr ()"
    "0 \<le> dm_epoch (fst s2)" "map_of (dm_prepared (fst s2)) (op_id oper1) = Some p1"
    using v ep p1(2) u2(5) [OF differ(2)] by (simp_all add: u1 u2)
  have free2: "free_for cr (snd s2) (phase_key d oper1 ''COMMIT'') oper1"
    "free_for cr (snd s2) (phase_key d oper2 ''COMMIT'') oper2"
    using u2(6) [unfolded u1(3), OF commit u1(6) [OF commit free(1)]]
      u2(6) [unfolded u1(3), OF commit u1(6) [OF commit free(2)]] by blast+
  obtain ct1 s3 where c1: "commit_certificate cr oper1 p1 s2 = (Inr ct1, s3)" "fst s3 = fst s2"
    and u3: "other_untouched cr (phase_key d oper1 ''COMMIT'') (op_id oper1) s2 s3"
    using commit_then [OF s2(1) u2(1) snds s2(3,4)] free2(1) unfolding key by metis
  note u3 = other_untouchedD [OF u3]
  have s3: "validate_operation cr (fst s3) oper2 = Inr ()" "0 \<le> dm_epoch (fst s3)"
    "map_of (dm_prepared (fst s3)) (op_id oper2) = Some p2"
    "free_for cr (snd s3) (phase_key (fst s3) oper2 ''COMMIT'') oper2"
    using s2 p2(2) u3(6) [OF apart free2(2)] key by (simp_all add: c1(2))
  obtain ct2 s4 where c2: "commit_certificate cr oper2 p2 s3 = (Inr ct2, s4)"
    by (rule commit_then [OF s3(1) u3(1) snds s3(2-4)])
  have "phase_key (fst s3) oper2 ''COMMIT'' = phase_key d oper2 ''COMMIT''" using key c1(2) by simp
  then have "verify_certificate cr (snd s4) ct2 (dm_epoch d) (dm_id d) (object_versions_of d oper2) oper2 = Inr True"
    using commit_certificate_Inr(4) [of cr oper2 p2 "fst s3" "snd s3" ct2 "fst s4" "snd s4"] c2
    by (simp add: phase_key_def)
  with p1(1) p2(1) c1(1) c2 show ?thesis by (metis prod.collapse)
qed

theorem overlapping_inputs_certified_witness:
  "\<exists>p1 s1 p2 s2 ct1 s3 ct2 d' qc'.
     prepare demo_crypto (demo_operation [''a'']) None (demo_domain, demo_committee) = (Inr p1, s1)
   \<and> prepare demo_crypto (demo_operation [''a'', ''b'']) None s1 = (Inr p2, s2)
   \<and> commit_certificate demo_crypto (demo_operation [''a'']) p1 s2 = (Inr ct1, s3)
   \<and> commit_certificate demo_crypto (demo_operation [''a'', ''b'']) p2 s3 = (Inr ct2, (d', qc'))
   \<and> verify_certificate demo_crypto qc' ct2 (dm_epoch demo_domain) (dm_id demo_domain)
        (object_versions_of demo_domain (demo_operation [''a'', ''b''])) (demo_operation [''a'', ''b'']) = Inr True"
proof (rule overlapping_inputs_certified [OF site_valid site_valid demo_ready demo_sound demo_epoch demo_free demo_free])
  show "object_versions_of demo_domain (demo_operation [''a'']) \<noteq>
      object_versions_of demo_domain (demo_operation [''a'', ''b''])"
    by (simp add: object_versions_of_def local_inputs_def demo_defs)
  show "op_id (demo_operation [''a'']) \<noteq> op_id (demo_operation [''a'', ''b''])"
    by (rule demo_ids_differ)
qed simp_all

end
