(* ===== verification/Join_Props.thy ===== *)
theory Join_Props
  imports Join Finality_Props
begin

section \<open>A join refines one atomic transaction\<close>

text \<open>
  The specification of the coordinator is a ledger: a map from a domain and an object to the
  object's state, on which an operation is one atomic transaction (\<open>spec_enabled\<close>,
  \<open>spec_commit\<close>). \<open>abs_ledger\<close> forgets certificates, votes, metrics and the committees. Every call
  of \<open>join_finalize\<close> is either that transaction or nothing, whatever step raises.
\<close>

subsection \<open>What the steps before the last leave alone\<close>

definition ledger_view ::
  "coordinator \<Rightarrow> string \<Rightarrow> (string \<times> int \<times> (string, object_state) dict \<times> string list \<times> nat) option" where
  "ledger_view co did = map_option (\<lambda>(d, adr). (dm_id d, dm_epoch d, dm_objects d, dm_committed d, adr))
     (map_of (jn_domains co) did)"

definition moves :: "crypto \<Rightarrow> coordinator \<Rightarrow> coordinator \<Rightarrow> bool" where
  "moves cr co co' \<longleftrightarrow> ledger_view co' = ledger_view co
     \<and> dict_keys (jn_domains co') = dict_keys (jn_domains co)
     \<and> (\<forall>adr. committee_steps cr (jn_store co adr) (jn_store co' adr))"

lemma moves_refl [simp]: "moves cr co co"
  by (simp add: moves_def committee_steps.start)

lemma moves_trans: "moves cr a b \<Longrightarrow> moves cr b c \<Longrightarrow> moves cr a c"
  unfolding moves_def by (metis steps_trans)

lemma keys_update_present:
  "map_of d k = Some w \<Longrightarrow> dict_keys (AList.update k v d) = dict_keys d"
  by (simp add: update_keys) (metis map_of_eq_None_iff option.distinct(1) list.set_map)

lemma update_same: "map_of d k = Some v \<Longrightarrow> AList.update k v d = d"
  by (induction d) (auto split: if_splits)

lemma on_domain_cases:
  assumes "on_domain did m co = (r, co')"
  obtains (missing) "map_of (jn_domains co) did = None" "r = Inl (CcdKeyError did)" "co' = co"
  | (there) d adr d' qc' where "map_of (jn_domains co) did = Some (d, adr)"
      "m (d, jn_store co adr) = (r, (d', qc'))"
      "co' = co\<lparr>jn_domains := AList.update did (d', adr) (jn_domains co),
               jn_store := (jn_store co)(adr := qc')\<rparr>"
  using assms by (auto simp: on_domain_def split: option.splits prod.splits)

lemma moves_on_domain:
  assumes "map_of (jn_domains co) did = Some (d, adr)"
    and "committee_steps cr (jn_store co adr) qc'"
    and "dm_id d' = dm_id d" "dm_epoch d' = dm_epoch d" "dm_objects d' = dm_objects d"
      "dm_committed d' = dm_committed d"
  shows "moves cr co (co\<lparr>jn_domains := AList.update did (d', adr) (jn_domains co),
    jn_store := (jn_store co)(adr := qc')\<rparr>)"
  using assms unfolding moves_def
  by (auto simp: ledger_view_def keys_update_present fun_eq_iff committee_steps.start)

lemma moves_store:
  "committee_steps cr (jn_store co adr) qc' \<Longrightarrow>
   moves cr co (co\<lparr>jn_store := (jn_store co)(adr := qc')\<rparr>)"
  by (simp add: moves_def ledger_view_def [abs_def] committee_steps.start)

lemma on_prepare_moves:
  assumes "on_domain did (prepare cr oper given) co = (r, co')"
  shows "moves cr co co'"
  using assms
proof (cases rule: on_domain_cases)
  case (there d adr d' qc')
  note fr = prepare_frame [OF there(2)]
  show ?thesis unfolding there(3) by (rule moves_on_domain [OF there(1) fr(1,5,6,2,3)])
qed simp

lemma prepare_in_moves:
  "prepare_in cr oper dids co = (r, co') \<Longrightarrow>
   moves cr co co' \<and> (\<forall>cts. r = Inr cts \<longrightarrow> length cts = length dids)"
proof (induction dids arbitrary: co r co')
  case (Cons did dids)
  from Cons.prems [unfolded prepare_in.simps] show ?case
  proof (cases rule: thenS_cases)
    case (first e)
    then show ?thesis by (simp add: on_prepare_moves)
  next
    case (both ct co1)
    note m = on_prepare_moves [OF both(1)]
    from both(2) show ?thesis
    proof (cases rule: thenS_cases)
      case (first e)
      then show ?thesis using Cons.IH m by (blast intro: moves_trans)
    next
      case (both cts co2)
      then show ?thesis using Cons.IH [OF both(1)] m by (auto intro: moves_trans)
    qed
  qed
qed simp

lemma prepare_all_moves:
  "prepare_all cr oper co = (r, co') \<Longrightarrow>
   moves cr co co' \<and> (\<forall>cts. r = Inr cts \<longrightarrow> length cts = length (sorted_set (op_domains oper))
     \<and> set (op_domains oper) = set (dict_keys (jn_domains co)))"
  using prepare_in_moves by (auto simp: prepare_all_def simp del: set_map split: if_splits)

lemma issue_join_moves:
  "issue_join_certificate cr oper cts co = (r, co') \<Longrightarrow>
   moves cr co co' \<and> (\<forall>jc. r = Inr jc \<longrightarrow> length cts = length (op_domains oper)
     \<and> jn_domains co \<noteq> [])"
  by (auto simp: issue_join_certificate_def Let_def shared_committee_def
      intro!: moves_store step_steps committee_step.signatures split: if_splits sum.splits)

lemma check_join_same: "check_join cr oper jc co = (r, co') \<Longrightarrow> co' = co"
  by (auto simp: check_join_def split: sum.splits if_splits)

subsection \<open>The commit certificates\<close>

text \<open>\<open>certified_in co did ct\<close>: the executor of \<open>did\<close> can apply the operation with \<open>ct\<close>.\<close>

definition certified_in :: "crypto \<Rightarrow> operation \<Rightarrow> coordinator \<Rightarrow> string \<Rightarrow> certificate \<Rightarrow> bool" where
  "certified_in cr oper co did ct \<longleftrightarrow> (\<exists>d adr. map_of (jn_domains co) did = Some (d, adr)
     \<and> validate_operation cr d oper = Inr ()
     \<and> verify_certificate cr (jn_store co adr) ct (dm_epoch d) (dm_id d) (object_versions_of d oper) oper
         = Inr True)"

lemma verify_certificate_cong:
  assumes "committee_steps cr qc qc'"
  shows "verify_certificate cr qc' ct ep dm vs oper = verify_certificate cr qc ct ep dm vs oper"
proof -
  from assms have "qc_validators qc' = qc_validators qc" by (intro extends_validators steps_keep(1))
  from committee_cong [OF this] show ?thesis
    by (simp add: verify_certificate_def Let_def cong: if_cong)
qed

lemma certified_in_moves:
  assumes "certified_in cr oper co did ct" "jn_domains co' = jn_domains co" "moves cr co co'"
  shows "certified_in cr oper co' did ct"
  using assms verify_certificate_cong unfolding certified_in_def moves_def by metis

lemma on_commit_known:
  assumes "on_domain did (commit_known cr oper) co = (r, co')"
  shows "moves cr co co' \<and> jn_domains co' = jn_domains co
    \<and> (\<forall>ct. r = Inr ct \<longrightarrow> certified_in cr oper co' did ct)"
  using assms
proof (cases rule: on_domain_cases)
  case (there d adr d' qc')
  show ?thesis
  proof (cases "map_of (dm_prepared d) (op_id oper)")
    case None
    with there(2) have "d' = d" "qc' = jn_store co adr" "\<not> is_ok r"
      by (auto simp: commit_known_def)
    with there(1,3) show ?thesis by (auto simp: update_same)
  next
    case (Some prep)
    with there(2) have c: "commit_certificate cr oper prep (d, jn_store co adr) = (r, (d', qc'))"
      by (simp add: commit_known_def)
    note fr = commit_certificate_frame [OF c]
    have "moves cr co co'"
      unfolding there(3) using fr by (intro moves_on_domain [OF there(1)]) simp_all
    moreover have "jn_domains co' = jn_domains co" using there fr by (simp add: update_same)
    moreover have "certified_in cr oper co' did ct" if "r = Inr ct" for ct
      using commit_certificate_Inr [of cr oper prep d "jn_store co adr" ct d' qc'] c that there fr(2)
      by (auto simp: certified_in_def)
    ultimately show ?thesis by blast
  qed
qed simp

lemma commit_in_moves:
  "commit_in cr oper dids co = (r, co') \<Longrightarrow>
   moves cr co co' \<and> jn_domains co' = jn_domains co
   \<and> (\<forall>cts. r = Inr cts \<longrightarrow> length cts = length dids
        \<and> (\<forall>(did, ct) \<in> set (zip dids cts). certified_in cr oper co' did ct))"
proof (induction dids arbitrary: co r co')
  case (Cons did dids)
  from Cons.prems [unfolded commit_in.simps] show ?case
  proof (cases rule: thenS_cases)
    case (first e)
    then show ?thesis using on_commit_known by fastforce
  next
    case (both ct co1)
    note k = on_commit_known [OF both(1)]
    from both(2) show ?thesis
    proof (cases rule: thenS_cases)
      case (first e)
      then show ?thesis using Cons.IH [OF first(1)] k by (auto intro: moves_trans)
    next
      case (both cts co2)
      note IH = Cons.IH [OF both(1)]
      from both(2) have "co' = co2" "r = Inr (ct # cts)" by simp_all
      moreover have "certified_in cr oper co2 did ct"
        using k IH by (blast intro: certified_in_moves)
      moreover have "moves cr co co2" using k IH by (blast intro: moves_trans)
      ultimately show ?thesis using k IH by simp
    qed
  qed
qed simp

subsection \<open>The all-or-nothing point\<close>

lemma on_apply:
  assumes "certified_in cr oper co did ct"
  obtains d adr d' where "map_of (jn_domains co) did = Some (d, adr)" "applied d oper ct d'"
    "on_domain did (apply_committed cr oper ct) co =
       (Inr (), co\<lparr>jn_domains := AList.update did (d', adr) (jn_domains co)\<rparr>)"
proof -
  from assms obtain d adr where d: "map_of (jn_domains co) did = Some (d, adr)"
    "validate_operation cr d oper = Inr ()"
    "verify_certificate cr (jn_store co adr) ct (dm_epoch d) (dm_id d) (object_versions_of d oper) oper = Inr True"
    by (auto simp: certified_in_def)
  from apply_committed_Inr [OF d(2,3)] obtain d'
    where "apply_committed cr oper ct (d, jn_store co adr) = (Inr (), (d', jn_store co adr))"
      "applied d oper ct d'" by blast
  with d(1) that show ?thesis by (simp add: on_domain_def)
qed

lemma certified_in_other:
  "certified_in cr oper co did' ct \<Longrightarrow> did' \<noteq> did \<Longrightarrow>
   certified_in cr oper (co\<lparr>jn_domains := AList.update did v (jn_domains co)\<rparr>) did' ct"
  by (auto simp: certified_in_def)

lemma apply_in_ok:
  "distinct (map fst l) \<Longrightarrow> \<forall>(did, ct) \<in> set l. certified_in cr oper co did ct \<Longrightarrow>
   \<exists>co'. apply_in cr oper l co = (Inr (), co') \<and> jn_store co' = jn_store co
     \<and> dict_keys (jn_domains co') = dict_keys (jn_domains co)
     \<and> (\<forall>did. did \<notin> fst ` set l \<longrightarrow> map_of (jn_domains co') did = map_of (jn_domains co) did)
     \<and> (\<forall>(did, ct) \<in> set l. \<exists>d adr d'. map_of (jn_domains co) did = Some (d, adr)
          \<and> map_of (jn_domains co') did = Some (d', adr) \<and> applied d oper ct d')"
proof (induction l arbitrary: co)
  case (Cons p l)
  obtain did ct where p: "p = (did, ct)" by fastforce
  with Cons.prems(2) have "certified_in cr oper co did ct" by simp
  then obtain d adr d' where d: "map_of (jn_domains co) did = Some (d, adr)" "applied d oper ct d'"
    and a: "on_domain did (apply_committed cr oper ct) co =
      (Inr (), co\<lparr>jn_domains := AList.update did (d', adr) (jn_domains co)\<rparr>)"
    by (rule on_apply)
  let ?co = "co\<lparr>jn_domains := AList.update did (d', adr) (jn_domains co)\<rparr>"
  have "\<forall>(did', ct') \<in> set l. certified_in cr oper ?co did' ct'"
    using Cons.prems p by (force intro: certified_in_other)
  with Cons.prems(1) obtain co' where co': "apply_in cr oper l ?co = (Inr (), co')"
    "jn_store co' = jn_store ?co" "dict_keys (jn_domains co') = dict_keys (jn_domains ?co)"
    "\<forall>did. did \<notin> fst ` set l \<longrightarrow> map_of (jn_domains co') did = map_of (jn_domains ?co) did"
    "\<forall>(did, ct) \<in> set l. \<exists>d adr d'. map_of (jn_domains ?co) did = Some (d, adr)
       \<and> map_of (jn_domains co') did = Some (d', adr) \<and> applied d oper ct d'"
    using Cons.IH [of ?co] by auto
  have fresh: "did \<notin> fst ` set l" using Cons.prems(1) p by simp
  have "apply_in cr oper (p # l) co = (Inr (), co')" using a co'(1) p by (simp add: thenS_def)
  moreover have "\<exists>e adr e'. map_of (jn_domains co) k = Some (e, adr)
      \<and> map_of (jn_domains co') k = Some (e', adr) \<and> applied e oper c e'"
    if k: "(k, c) \<in> set (p # l)" for k c
  proof (cases "(k, c) = p")
    case True
    with d fresh co'(4) p show ?thesis by simp
  next
    case False
    with k have kc: "(k, c) \<in> set l" by simp
    with fresh have "k \<noteq> did" by force
    moreover from kc co'(5) have "\<exists>e adr e'. map_of (jn_domains ?co) k = Some (e, adr)
        \<and> map_of (jn_domains co') k = Some (e', adr) \<and> applied e oper c e'" by blast
    ultimately show ?thesis by simp
  qed
  then have "\<forall>(k, c) \<in> set (p # l). \<exists>e adr e'. map_of (jn_domains co) k = Some (e, adr)
      \<and> map_of (jn_domains co') k = Some (e', adr) \<and> applied e oper c e'"
    by blast
  ultimately show ?case
    using co'(2-4) d(1) p by (intro exI [of _ co']) (simp add: keys_update_present)
qed simp

subsection \<open>The abstract ledger\<close>

type_synonym abstract_ledger = "string \<times> string \<Rightarrow> object_state option"

definition abs_ledger :: "coordinator \<Rightarrow> abstract_ledger" where
  "abs_ledger co = (\<lambda>(did, k). case map_of (jn_domains co) did of None \<Rightarrow> None
     | Some (d, adr) \<Rightarrow> map_of (dm_objects d) k)"

definition abs_committed :: "coordinator \<Rightarrow> string \<Rightarrow> string set" where
  "abs_committed co did = (case map_of (jn_domains co) did of None \<Rightarrow> {}
     | Some (d, adr) \<Rightarrow> set (dm_committed d))"

text \<open>The transaction: enabled when every input is at its expected version and owned by the
  signer, it moves every written object one version up and touches nothing else.\<close>

definition spec_enabled :: "operation \<Rightarrow> abstract_ledger \<Rightarrow> bool" where
  "spec_enabled oper L \<longleftrightarrow> (\<forall>i \<in> set (op_inputs oper). \<exists>ob. L (input_key i) = Some ob
     \<and> ob_version ob = in_version i \<and> ob_owner ob = op_signer oper)"

definition spec_commit :: "operation \<Rightarrow> abstract_ledger \<Rightarrow> abstract_ledger" where
  "spec_commit oper L key = (case find (\<lambda>w. write_key w = key) (op_writes oper) of
      None \<Rightarrow> L key | Some w \<Rightarrow> map_option (write_object w) (L key))"

definition wf_coordinator :: "coordinator \<Rightarrow> bool" where
  "wf_coordinator co \<longleftrightarrow> (\<forall>did d adr. map_of (jn_domains co) did = Some (d, adr) \<longrightarrow> dm_id d = did)"

lemma abs_of_view:
  "abs_ledger co (did, k) = (case ledger_view co did of None \<Rightarrow> None
     | Some (i, ep, objs, com, adr) \<Rightarrow> map_of objs k)"
  "abs_committed co did = (case ledger_view co did of None \<Rightarrow> {} | Some (i, ep, objs, com, adr) \<Rightarrow> set com)"
  "wf_coordinator co \<longleftrightarrow> (\<forall>did v. ledger_view co did = Some v \<longrightarrow> fst v = did)"
  by (auto simp: abs_ledger_def abs_committed_def ledger_view_def wf_coordinator_def
      split: option.split prod.split)

lemma moves_abs:
  assumes "moves cr co co'"
  shows "abs_ledger co' = abs_ledger co" "abs_committed co' = abs_committed co"
    "wf_coordinator co' \<longleftrightarrow> wf_coordinator co"
proof -
  have v: "ledger_view co' = ledger_view co" using assms by (simp add: moves_def)
  show "abs_ledger co' = abs_ledger co" "abs_committed co' = abs_committed co"
    by (auto simp: fun_eq_iff abs_of_view v)
  show "wf_coordinator co' \<longleftrightarrow> wf_coordinator co" by (simp add: abs_of_view(3) v)
qed

lemma find_filter_domain:
  "find (\<lambda>w. wr_object w = k) (filter (\<lambda>w. wr_domain w = did) ws) = find (\<lambda>w. write_key w = (did, k)) ws"
  by (induction ws) (auto simp: write_key_def)

lemma spec_commit_local:
  "dm_id d = did \<Longrightarrow> L (did, k) = map_of (dm_objects d) k \<Longrightarrow>
   spec_commit oper L (did, k) = written (local_writes d oper) (dm_objects d) k"
  by (simp add: spec_commit_def written_def local_writes_def find_filter_domain split: option.split)

lemma certified_enabled:
  assumes wf: "wf_coordinator co" and ne: "op_domains oper \<noteq> []"
    and all: "\<forall>did \<in> set (op_domains oper). \<exists>ct. certified_in cr oper co did ct"
  shows "spec_enabled oper (abs_ledger co)"
  unfolding spec_enabled_def
proof
  fix i
  assume i: "i \<in> set (op_inputs oper)"
  from ne all obtain did0 ct0 where "certified_in cr oper co did0 ct0" by (meson last_in_set)
  then have "set (map in_domain (op_inputs oper)) = set (op_domains oper)"
    by (auto simp: certified_in_def validate_Inr)
  with i have "in_domain i \<in> set (op_domains oper)" by auto
  with all obtain d adr where d: "map_of (jn_domains co) (in_domain i) = Some (d, adr)"
    and v: "validate_operation cr d oper = Inr ()"
    by (fastforce simp: certified_in_def)
  from wf d have "dm_id d = in_domain i" unfolding wf_coordinator_def by blast
  with i have "i \<in> set (local_inputs d oper)" by (simp add: local_inputs_def)
  with v obtain ob where "map_of (dm_objects d) (in_object i) = Some ob" "ob_version ob = in_version i"
    "ob_owner ob = op_signer oper" unfolding validate_Inr check_inputs_Inr by blast
  with d show "\<exists>ob. abs_ledger co (input_key i) = Some ob \<and> ob_version ob = in_version i
      \<and> ob_owner ob = op_signer oper"
    by (simp add: abs_ledger_def input_key_def)
qed

lemma distinct_if_sorted_set_length: "length (sorted_set xs) = length xs \<Longrightarrow> distinct xs"
  by (metis length_remdups_eq length_sort sorted_set_def remdups_id_iff_distinct)

text \<open>The last step: every domain of the operation is certified, so every domain applies.\<close>

lemma apply_all:
  assumes wf: "wf_coordinator co" and dist: "distinct dids" and len: "length cts = length dids"
    and keys: "set dids = set (dict_keys (jn_domains co))"
    and cert: "\<forall>(did, ct) \<in> set (zip dids cts). certified_in cr oper co did ct"
  obtains co' where "apply_in cr oper (zip dids cts) co = (Inr (), co')"
    "abs_ledger co' = spec_commit oper (abs_ledger co)" "wf_coordinator co'"
    "\<forall>did \<in> set dids. abs_committed co' did = insert (op_id oper) (abs_committed co did)"
proof -
  let ?l = "zip dids cts"
  have fsts: "map fst ?l = dids" using len by simp
  from apply_in_ok [of ?l cr oper co] dist cert obtain co' where
    a: "apply_in cr oper ?l co = (Inr (), co')" and k': "dict_keys (jn_domains co') = dict_keys (jn_domains co)"
    and ap: "\<forall>(did, ct) \<in> set ?l. \<exists>d adr d'. map_of (jn_domains co) did = Some (d, adr)
      \<and> map_of (jn_domains co') did = Some (d', adr) \<and> applied d oper ct d'"
    unfolding fsts by blast
  have each: "\<exists>ct d adr d'. map_of (jn_domains co) did = Some (d, adr)
      \<and> map_of (jn_domains co') did = Some (d', adr) \<and> applied d oper ct d'" if "did \<in> set dids" for did
  proof -
    from that fsts have "did \<in> fst ` set ?l" by (metis list.set_map)
    with ap show ?thesis by fastforce
  qed
  have none: "map_of (jn_domains co) did = None \<and> map_of (jn_domains co') did = None"
    if "did \<notin> set dids" for did
    using that keys k' by (metis list.set_map map_of_eq_None_iff)
  have "abs_ledger co' key = spec_commit oper (abs_ledger co) key" for key
  proof (cases key)
    case (Pair did k)
    show ?thesis
    proof (cases "did \<in> set dids")
      case True
      from each [OF this] obtain ct d adr d' where d: "map_of (jn_domains co) did = Some (d, adr)"
        "map_of (jn_domains co') did = Some (d', adr)" "applied d oper ct d'" by blast
      moreover from wf d(1) have "dm_id d = did" unfolding wf_coordinator_def by blast
      ultimately have "spec_commit oper (abs_ledger co) (did, k) = written (local_writes d oper) (dm_objects d) k"
        by (intro spec_commit_local) (simp_all add: abs_ledger_def)
      with d Pair show ?thesis by (simp add: abs_ledger_def applied_def)
    next
      case False
      with none [OF this] Pair show ?thesis
        by (simp add: abs_ledger_def spec_commit_def split: option.split)
    qed
  qed
  moreover have "wf_coordinator co'"
    unfolding wf_coordinator_def
  proof (intro allI impI)
    fix did d' adr
    assume d': "map_of (jn_domains co') did = Some (d', adr)"
    with none have "did \<in> set dids" by force
    from each [OF this] d' obtain ct d where "map_of (jn_domains co) did = Some (d, adr)" "applied d oper ct d'"
      by auto
    with wf show "dm_id d' = did" unfolding wf_coordinator_def applied_def by metis
  qed
  moreover have "abs_committed co' did = insert (op_id oper) (abs_committed co did)" if "did \<in> set dids" for did
    using each [OF that] by (auto simp: abs_committed_def applied_def)
  ultimately show ?thesis using that [OF a] by blast
qed

text \<open>Every run either stops before the last step, or reaches it with all certificates.\<close>

lemma join_cases:
  assumes "join_finalize cr oper co = (r, co')"
  obtains (early) e where "moves cr co co'" "r = Inl e"
  | (last) jc cts co1 where "moves cr co co1" "distinct (op_domains oper)" "op_domains oper \<noteq> []"
      "set (op_domains oper) = set (dict_keys (jn_domains co))"
      "length cts = length (sort (op_domains oper))"
      "\<forall>(did, ct) \<in> set (zip (sort (op_domains oper)) cts). certified_in cr oper co1 did ct"
      "thenS (apply_in cr oper (zip (sort (op_domains oper)) cts)) (\<lambda>_ co. (Inr jc, co)) co1 = (r, co')"
  using assms [unfolded join_finalize_def]
proof (cases rule: thenS_cases)
  case (first e)
  then show ?thesis using prepare_all_moves early by blast
next
  case (both preps co1)
  note m1 = prepare_all_moves [OF both(1)]
  from both(2) show ?thesis
  proof (cases rule: thenS_cases)
    case (first e)
    then show ?thesis using issue_join_moves [OF first(1)] m1 early moves_trans by blast
  next
    case (both jc co2)
    note m2 = issue_join_moves [OF both(1)]
    have m12: "moves cr co co2" using m1 m2 by (blast intro: moves_trans)
    from both(2) show ?thesis
    proof (cases rule: thenS_cases)
      case (first e)
      then show ?thesis using check_join_same [OF first(1)] m12 early by blast
    next
      case (both u co3)
      then have "co3 = co2" using check_join_same by blast
      from both(2) [unfolded this] show ?thesis
      proof (cases rule: thenS_cases)
        case (first e)
        then show ?thesis using commit_in_moves [OF first(1)] m12 early moves_trans by blast
      next
        case (both cts co4)
        note m4 = commit_in_moves [OF both(1)]
        have "length (sorted_set (op_domains oper)) = length (op_domains oper)" using m1 m2 by simp
        then have dist: "distinct (op_domains oper)" by (rule distinct_if_sorted_set_length)
        have "dict_keys (jn_domains co1) = dict_keys (jn_domains co)" using m1 by (simp add: moves_def)
        then have "op_domains oper \<noteq> []" using m1 m2 by auto
        with dist show ?thesis using last [OF _ dist _ _ _ _ both(2)] m1 m4 m12 by (blast intro: moves_trans)
      qed
    qed
  qed
qed

lemma join_refines:
  assumes wf: "wf_coordinator co" and fin: "join_finalize cr oper co = (r, co')"
  shows "wf_coordinator co' \<and> (case r of
      Inl e \<Rightarrow> abs_ledger co' = abs_ledger co \<and> abs_committed co' = abs_committed co
    | Inr jc \<Rightarrow> spec_enabled oper (abs_ledger co)
        \<and> abs_ledger co' = spec_commit oper (abs_ledger co)
        \<and> set (op_domains oper) = set (dict_keys (jn_domains co))
        \<and> (\<forall>did \<in> set (op_domains oper).
             abs_committed co' did = insert (op_id oper) (abs_committed co did)))"
  using fin
proof (cases rule: join_cases)
  case (early e)
  then show ?thesis using moves_abs [OF early(1)] wf by simp
next
  case (last jc cts co1)
  let ?dids = "sort (op_domains oper)"
  have "dict_keys (jn_domains co1) = dict_keys (jn_domains co)" using last(1) by (simp add: moves_def)
  then have keys: "set ?dids = set (dict_keys (jn_domains co1))" using last(4) by simp
  have wf1: "wf_coordinator co1" using moves_abs(3) [OF last(1)] wf by simp
  have "distinct ?dids" using last(2) by simp
  from apply_all [OF wf1 this last(5) keys last(6)] obtain co2
    where co2: "apply_in cr oper (zip ?dids cts) co1 = (Inr (), co2)"
      "abs_ledger co2 = spec_commit oper (abs_ledger co1)" "wf_coordinator co2"
      "\<forall>did \<in> set ?dids. abs_committed co2 did = insert (op_id oper) (abs_committed co1 did)"
    by blast
  have r: "r = Inr jc" "co' = co2" using last(7) co2(1) by (simp_all add: thenS_def)
  have "\<exists>ct. certified_in cr oper co1 did ct" if "did \<in> set (op_domains oper)" for did
  proof -
    from that last(5) have "did \<in> set (map fst (zip ?dids cts))" by simp
    then obtain ct where "(did, ct) \<in> set (zip ?dids cts)" by auto
    with last(6) show ?thesis by blast
  qed
  then have "spec_enabled oper (abs_ledger co1)" by (intro certified_enabled [OF wf1 last(3)]) blast
  with r co2 last(4) moves_abs(1,2) [OF last(1)] show ?thesis by simp
qed

end
