(* ===== verification/Join_Live.thy ===== *)
theory Join_Live
  imports Join_Props
begin

section \<open>A join of valid, uncontended parts returns\<close>

text \<open>
  The executors of a coordinator share the committee at one address. When every domain validates
  the operation and nobody has voted for a competitor, every step of \<open>join_finalize\<close> succeeds, so
  by the refinement the transaction of the specification is executed.
\<close>

subsection \<open>The state the steps go through\<close>

text \<open>\<open>part co a oper did phase\<close>: the executor of \<open>did\<close> can vote on the operation in that phase.\<close>

definition part :: "crypto \<Rightarrow> coordinator \<Rightarrow> nat \<Rightarrow> operation \<Rightarrow> string \<Rightarrow> string \<Rightarrow> bool" where
  "part cr co a oper phase did \<longleftrightarrow> (\<exists>d. map_of (jn_domains co) did = Some (d, a) \<and> dm_id d = did
     \<and> 0 \<le> dm_epoch d \<and> validate_operation cr d oper = Inr ()
     \<and> free_for cr (jn_store co a) (phase_key d oper phase) oper)"

definition prepared_part :: "coordinator \<Rightarrow> nat \<Rightarrow> operation \<Rightarrow> string \<Rightarrow> bool" where
  "prepared_part co a oper did \<longleftrightarrow> (\<exists>d prep. map_of (jn_domains co) did = Some (d, a)
     \<and> map_of (dm_prepared d) (op_id oper) = Some prep)"

definition at_address :: "coordinator \<Rightarrow> nat \<Rightarrow> bool" where
  "at_address co a \<longleftrightarrow> jn_domains co \<noteq> [] \<and> snd ` snd ` set (jn_domains co) = {a}"

lemma shared_at: "at_address co a \<Longrightarrow> shared_committee co = Inr a"
proof -
  assume a: "at_address co a"
  let ?r = "remdups (map snd (dict_values (jn_domains co)))"
  have "set ?r = {a}" using a by (simp add: at_address_def image_image)
  then have "length ?r = 1" by (metis One_nat_def card.empty card_insert_disjoint distinct_card
      distinct_remdups empty_iff finite.emptyI)
  then obtain x where x: "?r = [x]" by (auto simp: length_Suc_conv)
  with \<open>set ?r = {a}\<close> have "set [x] = {a}" by metis
  with x have "?r = [a]" by simp
  then show ?thesis by (simp add: shared_committee_def)
qed

lemma at_update:
  assumes "at_address co a" "map_of (jn_domains co) did = Some (d, a)"
  shows "at_address (co\<lparr>jn_domains := AList.update did (d', a) (jn_domains co), jn_store := st\<rparr>) a"
proof -
  have "set (AList.update did (d', a) (jn_domains co)) \<subseteq> insert (did, (d', a)) (set (jn_domains co))"
    by (rule set_update_subset)
  moreover have "(did, (d', a)) \<in> set (AList.update did (d', a) (jn_domains co))"
    by (rule map_of_SomeD) simp
  ultimately show ?thesis using assms(1) unfolding at_address_def by force
qed

lemma phase_key_apart:
  "dm_id d \<noteq> dm_id d' \<or> phase \<noteq> phase' \<Longrightarrow> phase_key d oper phase \<noteq> phase_key d' oper phase'"
  by (auto simp: phase_key_def)

text \<open>A step on one executor leaves the others, and the other phases, as they are.\<close>

lemma part_other:
  assumes part: "part cr co a oper phase' did'"
    and d: "map_of (jn_domains co) did = Some (d, a)" "dm_id d = did"
    and u: "other_untouched cr (phase_key d oper phase) (op_id oper) (d, jn_store co a) (d', qc')"
    and diff: "did' \<noteq> did \<or> phase' \<noteq> phase" and id: "dm_id d' = dm_id d"
  shows "part cr (co\<lparr>jn_domains := AList.update did (d', a) (jn_domains co),
    jn_store := (jn_store co)(a := qc')\<rparr>) a oper phase' did'"
proof -
  note u = other_untouchedD [OF u, unfolded fst_conv snd_conv]
  from part obtain e where e: "map_of (jn_domains co) did' = Some (e, a)" "dm_id e = did'"
    "0 \<le> dm_epoch e" "validate_operation cr e oper = Inr ()"
    "free_for cr (jn_store co a) (phase_key e oper phase') oper"
    by (auto simp: part_def)
  have "phase_key e oper phase' \<noteq> phase_key d oper phase"
    using diff e(2) d(2) by (intro phase_key_apart) auto
  from u(6) [OF this e(5)] have f: "free_for cr qc' (phase_key e oper phase') oper" .
  show ?thesis
  proof (cases "did' = did")
    case True
    with d(1) e(1) have "e = d" by simp
    with f e d(2) id True show ?thesis by (simp add: part_def u)
  next
    case False
    with f e show ?thesis by (simp add: part_def)
  qed
qed

subsection \<open>Preparing\<close>

lemma prepare_shape:
  assumes "prepare cr oper given (d, qc) = (Inr ct, s')"
  shows "ct_domains ct = [dm_id d] \<and> ct_op_id ct = op_id oper \<and> ct_phase ct = ''PREPARE''"
  using assms by (elim prepare_Inr)
    (auto simp: issue_certificate_def Let_def bindE_Inr_iff split: if_splits)

lemma on_prepare_ok:
  assumes part: "part cr co a oper ''PREPARE'' did" and rdy: "ready cr (jn_store co a)"
    and snds: "sound_signatures cr" and at: "at_address co a"
  obtains ct co' where "on_domain did (prepare cr oper None) co = (Inr ct, co')"
    "ct_domains ct = [did]" "\<not> not_prepare oper ct"
    "ready cr (jn_store co' a)" "at_address co' a" "prepared_part co' a oper did"
    "\<And>did' phase'. part cr co a oper phase' did' \<Longrightarrow> did' \<noteq> did \<or> phase' \<noteq> ''PREPARE'' \<Longrightarrow>
       part cr co' a oper phase' did'"
    "\<And>did'. prepared_part co a oper did' \<Longrightarrow> prepared_part co' a oper did'"
proof -
  from part obtain d where d: "map_of (jn_domains co) did = Some (d, a)" "dm_id d = did"
    "0 \<le> dm_epoch d" "validate_operation cr d oper = Inr ()"
    "free_for cr (jn_store co a) (phase_key d oper ''PREPARE'') oper"
    by (auto simp: part_def)
  obtain prep s' where p: "prepare cr oper None (d, jn_store co a) = (Inr prep, s')"
    "map_of (dm_prepared (fst s')) (op_id oper) = Some prep"
    and u: "other_untouched cr (phase_key d oper ''PREPARE'') (op_id oper) (d, jn_store co a) s'"
    using prepare_then [of cr "(d, jn_store co a)" oper] d(3-5) rdy snds by auto
  obtain d' qc' where s': "s' = (d', qc')" by fastforce
  note p = p [unfolded s'] and u = u [unfolded s']
  let ?co = "co\<lparr>jn_domains := AList.update did (d', a) (jn_domains co), jn_store := (jn_store co)(a := qc')\<rparr>"
  note id = prepare_frame(5) [OF p(1)]
  have "on_domain did (prepare cr oper None) co = (Inr prep, ?co)" using d(1) p(1) by (simp add: on_domain_def)
  moreover have "ct_domains prep = [did]" "\<not> not_prepare oper prep"
    using prepare_shape [OF p(1)] d(2) by (simp_all add: not_prepare_def)
  moreover have "ready cr (jn_store ?co a)" using other_untouchedD(1) [OF u] by simp
  moreover have "at_address ?co a" by (rule at_update [OF at d(1)])
  moreover have "prepared_part ?co a oper did" using p(2) by (simp add: prepared_part_def)
  moreover have "prepared_part ?co a oper did'" if "prepared_part co a oper did'" for did'
    using that p(2) by (cases "did' = did") (auto simp: prepared_part_def)
  ultimately show ?thesis using that [of prep ?co] part_other [OF _ d(1,2) u _ id] by blast
qed

lemma prepare_in_ok:
  "sound_signatures cr \<Longrightarrow> ready cr (jn_store co a) \<Longrightarrow> at_address co a \<Longrightarrow> distinct dids \<Longrightarrow>
   \<forall>did \<in> set dids. part cr co a oper ''PREPARE'' did \<Longrightarrow>
   \<exists>cts co'. prepare_in cr oper dids co = (Inr cts, co') \<and> map ct_domains cts = map (\<lambda>did. [did]) dids
     \<and> (\<forall>ct \<in> set cts. \<not> not_prepare oper ct) \<and> ready cr (jn_store co' a) \<and> at_address co' a
     \<and> (\<forall>did \<in> set dids. prepared_part co' a oper did)
     \<and> (\<forall>did. prepared_part co a oper did \<longrightarrow> prepared_part co' a oper did)
     \<and> (\<forall>did. part cr co a oper ''COMMIT'' did \<longrightarrow> part cr co' a oper ''COMMIT'' did)"
proof (induction dids arbitrary: co)
  case Nil
  then show ?case by simp
next
  case (Cons did dids)
  from Cons.prems(5) have "part cr co a oper ''PREPARE'' did" by simp
  then obtain ct co1 where 1: "on_domain did (prepare cr oper None) co = (Inr ct, co1)"
    "ct_domains ct = [did]" "\<not> not_prepare oper ct" "ready cr (jn_store co1 a)" "at_address co1 a"
    "prepared_part co1 a oper did"
    and keep: "\<And>did' phase'. part cr co a oper phase' did' \<Longrightarrow> did' \<noteq> did \<or> phase' \<noteq> ''PREPARE'' \<Longrightarrow>
       part cr co1 a oper phase' did'"
    and old: "\<And>did'. prepared_part co a oper did' \<Longrightarrow> prepared_part co1 a oper did'"
    using on_prepare_ok [OF _ Cons.prems(2,1,3)] by blast
  have "\<forall>did' \<in> set dids. part cr co1 a oper ''PREPARE'' did'"
    using Cons.prems(4,5) keep by auto
  from Cons.IH [OF Cons.prems(1) 1(4,5) _ this] Cons.prems(4) obtain cts co' where
    2: "prepare_in cr oper dids co1 = (Inr cts, co')" "map ct_domains cts = map (\<lambda>did. [did]) dids"
    "\<forall>ct \<in> set cts. \<not> not_prepare oper ct" "ready cr (jn_store co' a)" "at_address co' a"
    "\<forall>did \<in> set dids. prepared_part co' a oper did"
    "\<forall>did. prepared_part co1 a oper did \<longrightarrow> prepared_part co' a oper did"
    "\<forall>did. part cr co1 a oper ''COMMIT'' did \<longrightarrow> part cr co' a oper ''COMMIT'' did"
    by auto
  have "prepare_in cr oper (did # dids) co = (Inr (ct # cts), co')" using 1(1) 2(1) by (simp add: thenS_def)
  moreover have "part cr co' a oper ''COMMIT'' did'" if "part cr co a oper ''COMMIT'' did'" for did'
    using keep [OF that] 2(8) by simp
  ultimately show ?case using 1 2 old by (intro exI [of _ "ct # cts"] exI [of _ co']) simp
qed

subsection \<open>Committing\<close>

lemma on_commit_ok:
  assumes part: "part cr co a oper ''COMMIT'' did" and prep: "prepared_part co a oper did"
    and rdy: "ready cr (jn_store co a)" and snds: "sound_signatures cr" and at: "at_address co a"
  obtains ct co' where "on_domain did (commit_known cr oper) co = (Inr ct, co')"
    "ready cr (jn_store co' a)" "jn_domains co' = jn_domains co"
    "\<And>did'. part cr co a oper ''COMMIT'' did' \<Longrightarrow> did' \<noteq> did \<Longrightarrow> part cr co' a oper ''COMMIT'' did'"
proof -
  from part obtain d where d: "map_of (jn_domains co) did = Some (d, a)" "dm_id d = did"
    "0 \<le> dm_epoch d" "validate_operation cr d oper = Inr ()"
    "free_for cr (jn_store co a) (phase_key d oper ''COMMIT'') oper"
    by (auto simp: part_def)
  from prep d(1) obtain p where p: "map_of (dm_prepared d) (op_id oper) = Some p"
    by (auto simp: prepared_part_def)
  obtain ct s' where c: "commit_certificate cr oper p (d, jn_store co a) = (Inr ct, s')" "fst s' = d"
    and u: "other_untouched cr (phase_key d oper ''COMMIT'') (op_id oper) (d, jn_store co a) s'"
    using commit_then [of cr "(d, jn_store co a)" oper p, unfolded fst_conv snd_conv] d(3-5) p rdy snds
    by blast
  from c(2) obtain qc' where s': "s' = (d, qc')" by (cases s') auto
  note u = u [unfolded s']
  let ?co = "co\<lparr>jn_domains := AList.update did (d, a) (jn_domains co), jn_store := (jn_store co)(a := qc')\<rparr>"
  have "on_domain did (commit_known cr oper) co = (Inr ct, ?co)"
    using d(1) c(1) p s' by (simp add: on_domain_def commit_known_def)
  moreover have "ready cr (jn_store ?co a)" using other_untouchedD(1) [OF u] by simp
  moreover have "jn_domains ?co = jn_domains co" using d(1) by (simp add: update_same)
  ultimately show ?thesis using that [of ct ?co] part_other [OF _ d(1,2) u _ refl] by blast
qed

lemma commit_in_ok:
  "sound_signatures cr \<Longrightarrow> ready cr (jn_store co a) \<Longrightarrow> at_address co a \<Longrightarrow> distinct dids \<Longrightarrow>
   \<forall>did \<in> set dids. part cr co a oper ''COMMIT'' did \<and> prepared_part co a oper did \<Longrightarrow>
   \<exists>cts co'. commit_in cr oper dids co = (Inr cts, co')"
proof (induction dids arbitrary: co)
  case Nil
  then show ?case by simp
next
  case (Cons did dids)
  from Cons.prems(5) have "part cr co a oper ''COMMIT'' did" "prepared_part co a oper did" by simp_all
  then obtain ct co1 where 1: "on_domain did (commit_known cr oper) co = (Inr ct, co1)"
    "ready cr (jn_store co1 a)" "jn_domains co1 = jn_domains co"
    and keep: "\<And>did'. part cr co a oper ''COMMIT'' did' \<Longrightarrow> did' \<noteq> did \<Longrightarrow> part cr co1 a oper ''COMMIT'' did'"
    using on_commit_ok [OF _ _ Cons.prems(2,1,3)] by blast
  have at: "at_address co1 a" using Cons.prems(3) 1(3) by (simp add: at_address_def)
  have "\<forall>did' \<in> set dids. part cr co1 a oper ''COMMIT'' did' \<and> prepared_part co1 a oper did'"
    using Cons.prems(4,5) keep 1(3) by (auto simp: prepared_part_def)
  with Cons.IH [OF Cons.prems(1) 1(2) at] Cons.prems(4)
  obtain cts co' where "commit_in cr oper dids co1 = (Inr cts, co')" by auto
  with 1(1) show ?case by (simp add: thenS_def)
qed

subsection \<open>The join certificate\<close>

lemma sign_all_distinct:
  assumes wf: "wf_qc qc"
  shows "distinct (map fst (sign_all cr qc stmt))"
proof -
  have "length (map fst (sign_all cr qc stmt)) = length (dict_keys (qc_validators qc))"
    by (simp add: sign_all_def)
  also have "\<dots> = card (set (dict_keys (qc_validators qc)))"
    using wf by (simp only: wf_qc_def distinct_card)
  also have "\<dots> = card (fst ` set (sign_all cr qc stmt))"
    by (simp only: fst_sign_all [OF wf] committee_keys_def)
  finally show ?thesis by (intro card_distinct) simp
qed

lemma first_domains:
  assumes "map ct_domains cts = map (\<lambda>did. [did]) dids"
  shows "map first_domain cts = dids" "\<not> lacks_domain cts" "length cts = length dids"
proof -
  have "map first_domain cts = map hd (map ct_domains cts)" by (simp add: first_domain_def)
  then show "map first_domain cts = dids" unfolding assms by (simp add: comp_def)
  have "set (map ct_domains cts) = (\<lambda>did. [did]) ` set dids" unfolding assms by simp
  then show "\<not> lacks_domain cts"
    unfolding lacks_domain_def by (metis image_iff list.set_map not_Cons_self2)
  from arg_cong [OF assms, of length] show "length cts = length dids" by simp
qed

lemma issue_join_ok:
  assumes snds: "sound_signatures cr" and rdy: "ready cr (jn_store co a)" and at: "at_address co a"
    and cts: "map ct_domains cts = map (\<lambda>did. [did]) (sort (op_domains oper))"
      "\<forall>ct \<in> set cts. \<not> not_prepare oper ct"
  obtains jc where "issue_join_certificate cr oper cts co = (Inr jc,
      co\<lparr>jn_store := (jn_store co)(a := count_signatures (join_statement oper cts)
        (sign_all cr (jn_store co a) (join_statement oper cts)) (jn_store co a))\<rparr>)"
    "verify_join_certificate cr (co\<lparr>jn_store := (jn_store co)(a := count_signatures (join_statement oper cts)
        (sign_all cr (jn_store co a) (join_statement oper cts)) (jn_store co a))\<rparr>) oper jc = Inr True"
proof -
  let ?stmt = "join_statement oper cts" and ?qc = "jn_store co a"
  let ?sigs = "sign_all cr ?qc ?stmt"
  let ?qc' = "count_signatures ?stmt ?sigs ?qc"
  let ?co = "co\<lparr>jn_store := (jn_store co)(a := ?qc')\<rparr>"
  note firsts = first_domains(1) [OF cts(1)] and lacks = first_domains(2) [OF cts(1)]
    and len = first_domains(3) [OF cts(1), simplified]
  have sorted: "sort_key first_domain cts = cts" using firsts by (intro sort_key_id_if_sorted) simp
  have wf: "wf_qc ?qc" "0 < qc_total_weight ?qc" using rdy by (simp_all add: ready_def)
  have at': "at_address ?co a" using at by (simp add: at_address_def)
  have "qc_validators ?qc' = qc_validators ?qc" by (simp add: count_signatures_def)
  note eqs = committee_cong [OF this]
  have keys: "fst ` set ?sigs = committee_keys ?qc" by (rule fst_sign_all [OF wf(1)])
  have known: "known_validators ?qc (map fst ?sigs)" by (simp add: known_validators_iff keys)
  have dist: "distinct (map fst ?sigs)" by (rule sign_all_distinct [OF wf(1)])
  obtain jc where jc: "jc = \<lparr>jc_id = certificate_digest cr (digest cr ?stmt) (map fst ?sigs) ?sigs,
      jc_epoch = op_epoch oper, jc_op_id = op_id oper, jc_certificates = cts, jc_signers = map fst ?sigs,
      jc_signatures = ?sigs, jc_statement = digest cr ?stmt\<rparr>" by simp
  have "issue_join_certificate cr oper cts co = (Inr jc, ?co)"
    using cts(2) lacks firsts sorted shared_at [OF at] len
    by (simp add: issue_join_certificate_def Let_def jc del: set_map)
  moreover have "verify_join_certificate cr ?co oper jc = Inr True"
  proof -
    have cover: "set (map first_domain cts) = set (op_domains oper)" unfolding firsts by simp
    have agree: "set (dict_keys (signature_map ?sigs)) = set (map fst ?sigs)"
      using keys_signature_map [of ?sigs] by simp
    have card: "card (set (map fst ?sigs)) = length (map fst ?sigs)" by (rule distinct_card [OF dist])
    show ?thesis
      unfolding verify_join_certificate_def Let_def jc join_certificate.simps sorted cover shared_at [OF at']
        sign_all_sorted agree card
      using cts(2) lacks known sign_all_valid [OF wf(1) snds] sign_all_weight [OF wf(1)] total_reaches [OF wf(2)]
      by (auto simp: eqs)
  qed
  ultimately show ?thesis using that by blast
qed

subsection \<open>The whole join\<close>

definition join_ready :: "crypto \<Rightarrow> coordinator \<Rightarrow> nat \<Rightarrow> operation \<Rightarrow> bool" where
  "join_ready cr co a oper \<longleftrightarrow> at_address co a \<and> ready cr (jn_store co a)
     \<and> distinct (op_domains oper) \<and> set (op_domains oper) = set (dict_keys (jn_domains co))
     \<and> (\<forall>did \<in> set (op_domains oper).
          part cr co a oper ''PREPARE'' did \<and> part cr co a oper ''COMMIT'' did)"

lemma part_store_cong:
  "part cr co a oper phase did \<Longrightarrow> extends (jn_store co a) qc \<Longrightarrow>
   (\<And>key. statements_at qc key = statements_at (jn_store co a) key) \<Longrightarrow>
   part cr (co\<lparr>jn_store := (jn_store co)(a := qc)\<rparr>) a oper phase did"
  unfolding part_def by (simp, metis free_for_cong extends_validators)

lemma join_returns:
  assumes snds: "sound_signatures cr" and jr: "join_ready cr co a oper"
  obtains jc co' where "join_finalize cr oper co = (Inr jc, co')"
proof -
  let ?dids = "sort (op_domains oper)"
  from jr have at: "at_address co a" and rdy: "ready cr (jn_store co a)" and dist: "distinct ?dids"
    and cover: "set (op_domains oper) = set (dict_keys (jn_domains co))"
    and parts: "\<forall>did \<in> set ?dids. part cr co a oper ''PREPARE'' did"
      "\<forall>did \<in> set ?dids. part cr co a oper ''COMMIT'' did"
    by (auto simp: join_ready_def simp del: set_map)
  have ss: "sorted_set (op_domains oper) = ?dids" using dist by (simp add: sorted_set_sort)
  from prepare_in_ok [OF snds rdy at dist parts(1)] obtain preps co1 where
    1: "prepare_in cr oper ?dids co = (Inr preps, co1)" "map ct_domains preps = map (\<lambda>did. [did]) ?dids"
    "\<forall>ct \<in> set preps. \<not> not_prepare oper ct" "ready cr (jn_store co1 a)" "at_address co1 a"
    "\<forall>did \<in> set ?dids. prepared_part co1 a oper did"
    "\<forall>did. part cr co a oper ''COMMIT'' did \<longrightarrow> part cr co1 a oper ''COMMIT'' did"
    by blast
  have p: "prepare_all cr oper co = (Inr preps, co1)" using 1(1) ss cover by (simp add: prepare_all_def del: set_map)
  let ?stmt = "join_statement oper preps"
  let ?qc = "count_signatures ?stmt (sign_all cr (jn_store co1 a) ?stmt) (jn_store co1 a)"
  let ?co = "co1\<lparr>jn_store := (jn_store co1)(a := ?qc)\<rparr>"
  obtain jc where j: "issue_join_certificate cr oper preps co1 = (Inr jc, ?co)"
    "verify_join_certificate cr ?co oper jc = Inr True"
    using issue_join_ok [OF snds 1(4,5,2,3)] by blast
  have "ready cr (jn_store ?co a)"
    using ready_steps [OF 1(4) step_steps [OF committee_step.signatures]] by simp
  moreover have "at_address ?co a" using 1(5) by (simp add: at_address_def)
  moreover have "\<forall>did \<in> set ?dids. part cr ?co a oper ''COMMIT'' did \<and> prepared_part ?co a oper did"
  proof (intro ballI conjI)
    fix did
    assume did: "did \<in> set ?dids"
    then have "part cr co1 a oper ''COMMIT'' did" using parts(2) 1(7) by blast
    then show "part cr ?co a oper ''COMMIT'' did"
      by (rule part_store_cong) (rule metrics_same(2), simp add: statements_at_def count_signatures_def)
    show "prepared_part ?co a oper did" using 1(6) did by (simp add: prepared_part_def)
  qed
  ultimately obtain cts co2 where c: "commit_in cr oper ?dids ?co = (Inr cts, co2)"
    using commit_in_ok [OF snds _ _ dist] by blast
  have fin: "join_finalize cr oper co =
      thenS (apply_in cr oper (zip ?dids cts)) (\<lambda>_ co. (Inr jc, co)) co2"
    using p j c by (simp add: join_finalize_def thenS_def check_join_def)
  note m4 = commit_in_moves [OF c]
  have len: "length cts = length ?dids"
    and cert: "\<forall>(did, ct) \<in> set (zip ?dids cts). certified_in cr oper co2 did ct"
    using m4 by auto
  from apply_in_ok [of "zip ?dids cts" cr oper co2] dist len cert
  obtain co3 where "apply_in cr oper (zip ?dids cts) co2 = (Inr (), co3)" by auto
  with fin that show ?thesis by (simp add: thenS_def)
qed

subsection \<open>Two domains, one committee\<close>

definition pair_domain :: "string \<Rightarrow> domain" where
  "pair_domain did = new_domain did 0\<lparr>dm_objects := [(''a'', \<lparr>ob_id = ''a'', ob_version = 0,
     ob_owner = identity demo_crypto demo_owner, ob_payload = ''0'', ob_domain = did\<rparr>)]\<rparr>"

definition pair_coordinator :: coordinator where
  "pair_coordinator = \<lparr>jn_domains = [(''d'', pair_domain ''d'', 0), (''e'', pair_domain ''e'', 0)],
     jn_store = (\<lambda>_. demo_committee)\<rparr>"

definition pair_operation :: operation where
  "pair_operation = operation_create demo_crypto demo_owner 0
     [\<lparr>in_domain = ''d'', in_object = ''a'', in_version = 0\<rparr>, \<lparr>in_domain = ''e'', in_object = ''a'', in_version = 0\<rparr>]
     [\<lparr>wr_domain = ''d'', wr_object = ''a'', wr_version = 0, new_owner = ''o'', new_payload = ''1''\<rparr>,
      \<lparr>wr_domain = ''e'', wr_object = ''a'', wr_version = 0, new_owner = ''o'', new_payload = ''2''\<rparr>]
     [''e'', ''d''] [] 0"

lemma pair_valid:
  assumes "did = ''d'' \<or> did = ''e''"
  shows "validate_operation demo_crypto (pair_domain did) pair_operation = Inr ()"
proof -
  have fields: "op_epoch pair_operation = 0" "op_domains pair_operation = [''d'', ''e'']"
    "operation_verify demo_crypto pair_operation"
    "op_signer pair_operation = identity demo_crypto demo_owner"
    by (simp_all add: pair_operation_def) (simp_all add: operation_create_def Let_def sorted_set_def)
  have "op_id pair_operation \<notin> set (dm_committed (pair_domain did))"
    by (simp add: pair_domain_def new_domain_def)
  with assms show ?thesis
    unfolding validate_Inr
    by (elim disjE) (simp_all add: fields, simp_all add: pair_operation_def operation_create_def Let_def
        check_inputs_Inr local_inputs_def write_version_def input_key_def write_key_def dict_of_def
        pair_domain_def new_domain_def insert_commute)
qed

lemma pair_ready: "join_ready demo_crypto pair_coordinator 0 pair_operation"
proof -
  have doms: "op_domains pair_operation = [''d'', ''e'']"
    by (simp add: pair_operation_def operation_create_def Let_def sorted_set_def)
  have "part demo_crypto pair_coordinator 0 pair_operation phase did"
    if "did = ''d'' \<or> did = ''e''" for did phase
  proof -
    have "map_of (jn_domains pair_coordinator) did = Some (pair_domain did, 0)"
      using that by (auto simp: pair_coordinator_def)
    moreover have "dm_id (pair_domain did) = did" "0 \<le> dm_epoch (pair_domain did)"
      by (simp_all add: pair_domain_def new_domain_def)
    moreover have "jn_store pair_coordinator 0 = demo_committee" by (simp add: pair_coordinator_def)
    ultimately show ?thesis using pair_valid [OF that] demo_free by (simp add: part_def)
  qed
  then show ?thesis
    using demo_ready by (simp add: join_ready_def doms at_address_def) (simp add: pair_coordinator_def)
qed

lemma join_ready_wf: "join_ready cr co a oper \<Longrightarrow> wf_coordinator co"
proof -
  assume jr: "join_ready cr co a oper"
  show ?thesis
    unfolding wf_coordinator_def
  proof (intro allI impI)
    fix did d adr
    assume d: "map_of (jn_domains co) did = Some (d, adr)"
    then have "did \<in> set (dict_keys (jn_domains co))" by (force dest: map_of_SomeD)
    with jr have "part cr co a oper ''PREPARE'' did" by (simp add: join_ready_def del: set_map)
    with d show "dm_id d = did" by (auto simp: part_def)
  qed
qed

text \<open>
  C16. Liveness of a join: when all executors share one ready committee, the operation names
  exactly the coordinator's domains, every domain validates it and no validator has voted for a
  competitor, \<open>finalize\<close> returns and the transaction of the specification has been executed.
\<close>

theorem join_succeeds:
  assumes "sound_signatures cr" and jr: "join_ready cr co a oper"
  shows "\<exists>jc co'. join_finalize cr oper co = (Inr jc, co')
    \<and> abs_ledger co' = spec_commit oper (abs_ledger co)"
proof -
  obtain jc co' where fin: "join_finalize cr oper co = (Inr jc, co')"
    using join_returns [OF assms] .
  from join_refines [OF join_ready_wf [OF jr] fin] fin show ?thesis by auto
qed

theorem join_succeeds_witness:
  "\<exists>jc co'. join_finalize demo_crypto pair_operation pair_coordinator = (Inr jc, co')
    \<and> abs_ledger co' = spec_commit pair_operation (abs_ledger pair_coordinator)"
  by (rule join_succeeds [OF demo_sound pair_ready])

text \<open>
  C7. A join refines one atomic transaction: whatever \<open>finalize\<close> of the coordinator does, returning
  or raising at any step, the objects and committed operations of all domains together change by
  exactly the enabled transaction of the specification when it returns, and not at all when it
  raises. No domain is ever applied without the others.
\<close>

theorem join_refines_transaction:
  assumes "wf_coordinator co" "join_finalize cr oper co = (r, co')"
  shows "wf_coordinator co' \<and> (case r of
      Inl e \<Rightarrow> abs_ledger co' = abs_ledger co \<and> abs_committed co' = abs_committed co
    | Inr jc \<Rightarrow> spec_enabled oper (abs_ledger co)
        \<and> abs_ledger co' = spec_commit oper (abs_ledger co)
        \<and> set (op_domains oper) = set (dict_keys (jn_domains co))
        \<and> (\<forall>did \<in> set (op_domains oper).
             abs_committed co' did = insert (op_id oper) (abs_committed co did)))"
  by (rule join_refines [OF assms])

theorem join_refines_transaction_witness:
  "\<exists>jc co'. join_finalize demo_crypto pair_operation pair_coordinator = (Inr jc, co')
    \<and> wf_coordinator co' \<and> spec_enabled pair_operation (abs_ledger pair_coordinator)
    \<and> abs_ledger co' = spec_commit pair_operation (abs_ledger pair_coordinator)"
proof -
  obtain jc co' where fin: "join_finalize demo_crypto pair_operation pair_coordinator = (Inr jc, co')"
    by (rule join_returns [OF demo_sound pair_ready])
  from join_refines_transaction [OF join_ready_wf [OF pair_ready] fin] fin show ?thesis by auto
qed

subsection \<open>Aborting\<close>

lemma abort_issued:
  assumes at: "at_address co a" and rdy: "ready cr (jn_store co a)" and snds: "sound_signatures cr"
    and reason: "\<not> blank reason"
  obtains ac where "abort_operation cr co oper reason = Inr ac" "verify_abort cr co oper ac reason = Inr True"
proof -
  let ?qc = "jn_store co a" and ?stmt = "abort_statement cr oper reason"
  let ?sigs = "sign_all cr ?qc ?stmt"
  obtain ac where ac: "ac = \<lparr>ac_id = certificate_digest cr (digest cr ?stmt) (map fst ?sigs) ?sigs,
      ac_epoch = op_epoch oper, ac_op_id = op_id oper, ac_domains = sort (op_domains oper),
      ac_reason = digest cr (JStr reason), ac_signers = map fst ?sigs, ac_signatures = ?sigs,
      ac_statement = digest cr ?stmt\<rparr>" by simp
  have wf: "wf_qc ?qc" "0 < qc_total_weight ?qc" using rdy by (simp_all add: ready_def)
  have "verify_abort cr co oper ac reason = Inr True"
    using sign_all_valid [OF wf(1) snds] sign_all_weight [OF wf(1)] total_reaches [OF wf(2)]
    by (simp add: verify_abort_def ac Let_def shared_at [OF at])
  then show ?thesis
    using that [of ac] reason by (simp add: abort_operation_def shared_at [OF at] Let_def ac)
qed

text \<open>
  An abort certificate stops nothing: \<open>abort\<close> neither reads nor changes the state of a domain, and
  no step of \<open>finalize\<close> looks for one, so an operation with a valid abort certificate is committed
  afterwards.
\<close>

lemma aborted_then_committed:
  assumes snds: "sound_signatures cr" and jr: "join_ready cr co a oper" and "\<not> blank reason"
  obtains ac jc co' where "abort_operation cr co oper reason = Inr ac"
    "verify_abort cr co oper ac reason = Inr True" "join_finalize cr oper co = (Inr jc, co')"
    "\<forall>did \<in> set (op_domains oper). op_id oper \<in> abs_committed co' did"
proof -
  from jr have "at_address co a" "ready cr (jn_store co a)" by (simp_all add: join_ready_def)
  from abort_issued [OF this snds assms(3)] obtain ac where ac: "abort_operation cr co oper reason = Inr ac"
    "verify_abort cr co oper ac reason = Inr True" by blast
  obtain jc co' where fin: "join_finalize cr oper co = (Inr jc, co')" using join_returns [OF snds jr] .
  from join_refines [OF join_ready_wf [OF jr] fin]
  have "\<forall>did \<in> set (op_domains oper). op_id oper \<in> abs_committed co' did" by simp
  with that ac fin show ?thesis by blast
qed

end
