(* ===== verification/Governance.thy ===== *)
theory Governance
  imports Quorum
begin

section \<open>Membership registry and epoch transitions (ccd_nexus/membership.py, governance.py)\<close>

text \<open>
  \<open>MembershipRegistry\<close> is the record \<open>registry\<close>, \<open>EpochManager\<close> the record of the current
  committee and its transitions; every method is one function with its exceptions as values.
\<close>

subsection \<open>The stake-weighted registry\<close>

record ccd_admission =
  ad_id :: string
  ad_epoch :: int
  ad_validator :: string
  ad_public_key :: string
  ad_deposit :: string
  ad_stake :: int
  ad_signatory :: string
  ad_signature :: string
  ad_statement :: string

record registry =
  rg_authority :: keypair
  rg_min_stake :: int
  rg_epoch :: int
  rg_records :: "(string, ccd_admission) dict"
  rg_deposits :: "string list"

definition new_registry :: "keypair \<Rightarrow> int \<Rightarrow> int \<Rightarrow> registry" where
  "new_registry kp lo ep =
     \<lparr>rg_authority = kp, rg_min_stake = lo, rg_epoch = ep, rg_records = [], rg_deposits = []\<rparr>"

definition authority_id :: "crypto \<Rightarrow> registry \<Rightarrow> string" where
  "authority_id cr rg = identity cr (rg_authority rg)"

definition registry_stake :: "registry \<Rightarrow> int" where
  "registry_stake rg = sum_list (map ad_stake (dict_values (rg_records rg)))"

definition registry_threshold :: "registry \<Rightarrow> int" where
  "registry_threshold rg = (2 * registry_stake rg) div 3 + 1"

definition ccd_admission_statement ::
  "crypto \<Rightarrow> registry \<Rightarrow> string \<Rightarrow> string \<Rightarrow> string \<Rightarrow> int \<Rightarrow> json" where
  "ccd_admission_statement cr rg vid pk deposit stake = JObj
     [(''protocol'', JStr ''CCD/NEXUS/v1''), (''phase'', JStr ''ADMISSION''),
      (''epoch'', JInt (rg_epoch rg)), (''validator_id'', JStr vid), (''public_key'', JStr (hex pk)),
      (''deposit_id'', JStr deposit), (''stake'', JInt stake),
      (''authority'', JStr (authority_id cr rg))]"

definition admission_digest :: "crypto \<Rightarrow> string \<Rightarrow> string \<Rightarrow> string" where
  "admission_digest cr stmt sig = digest cr (JObj
     [(''statement'', JStr stmt), (''authority_signature'', JStr (hex sig))])"

definition verify_ccd_admission :: "crypto \<Rightarrow> registry \<Rightarrow> ccd_admission \<Rightarrow> bool" where
  "verify_ccd_admission cr rg ad =
     (let stmt = ccd_admission_statement cr rg (ad_validator ad) (ad_public_key ad)
                   (ad_deposit ad) (ad_stake ad)
      in ad_id ad = admission_digest cr (digest cr stmt) (ad_signature ad)
         \<and> ad_statement ad = digest cr stmt \<and> ad_epoch ad = rg_epoch rg
         \<and> ad_signatory ad = authority_id cr rg \<and> ad_stake ad \<ge> rg_min_stake rg
         \<and> verify cr (public_key cr (rg_authority rg)) (canonical_bytes stmt) (ad_signature ad))"

definition enter_record :: "ccd_admission \<Rightarrow> registry \<Rightarrow> registry" where
  "enter_record ad rg = rg\<lparr>rg_records := AList.update (ad_validator ad) ad (rg_records rg),
     rg_deposits := List.insert (ad_deposit ad) (rg_deposits rg)\<rparr>"

definition registry_admit ::
  "crypto \<Rightarrow> string \<Rightarrow> string \<Rightarrow> string \<Rightarrow> int \<Rightarrow> registry \<Rightarrow> (registry, ccd_error, ccd_admission) outcome" where
  "registry_admit cr vid pk deposit stake rg =
     (if has_key (rg_records rg) vid
      then (Inl (CcdMembershipError ''validator identity already exists''), rg)
      else if deposit \<in> set (rg_deposits rg)
      then (Inl (CcdMembershipError ''deposit id has already been used''), rg)
      else if stake < rg_min_stake rg
      then (Inl (CcdMembershipError ''stake is below minimum''), rg)
      else if vid = [] \<or> deposit = [] \<or> pk = []
      then (Inl (CcdMembershipError ''identity, deposit and public key are required''), rg)
      else
        (let stmt = ccd_admission_statement cr rg vid pk deposit stake;
             sig = sign cr (rg_authority rg) (canonical_bytes stmt);
             ad = \<lparr>ad_id = admission_digest cr (digest cr stmt) sig, ad_epoch = rg_epoch rg,
                   ad_validator = vid, ad_public_key = pk, ad_deposit = deposit, ad_stake = stake,
                   ad_signatory = authority_id cr rg, ad_signature = sig,
                   ad_statement = digest cr stmt\<rparr>
         in if \<not> verify_ccd_admission cr rg ad
            then (Inl (CcdMembershipError ''issued admission certificate failed verification''), rg)
            else (Inr ad, enter_record ad rg)))"

definition register_external ::
  "crypto \<Rightarrow> ccd_admission \<Rightarrow> registry \<Rightarrow> (registry, ccd_error, unit) outcome" where
  "register_external cr ad rg =
     (if \<not> verify_ccd_admission cr rg ad
      then (Inl (CcdMembershipError ''invalid admission certificate''), rg)
      else if has_key (rg_records rg) (ad_validator ad)
      then (Inl (CcdMembershipError ''validator identity already exists''), rg)
      else if ad_deposit ad \<in> set (rg_deposits rg)
      then (Inl (CcdMembershipError ''deposit id has already been used''), rg)
      else (Inr (), enter_record ad rg))"

text \<open>\<open>budget // self.min_stake\<close> raises \<open>ZeroDivisionError\<close> for a minimum of 0.\<close>

definition sybil_capacity :: "registry \<Rightarrow> int \<Rightarrow> ccd_error + int" where
  "sybil_capacity rg budget =
     (if budget < 0 then Inl (CcdMembershipError ''budget cannot be negative'')
      else if rg_min_stake rg = 0 then Inl CcdZeroDivision
      else Inr (budget div rg_min_stake rg))"

definition registry_weight_of :: "registry \<Rightarrow> string list \<Rightarrow> ccd_error + int" where
  "registry_weight_of rg vids =
     (if \<exists>vid \<in> set vids. \<not> has_key (rg_records rg) vid
      then Inl (CcdUnknownValidators
             (sorted_set (filter (\<lambda>vid. \<not> has_key (rg_records rg) vid) vids)))
      else Inr (\<Sum>vid \<in> set vids. case map_of (rg_records rg) vid of None \<Rightarrow> 0 | Some ad \<Rightarrow> ad_stake ad))"

definition split_budget :: "registry \<Rightarrow> int \<Rightarrow> int \<Rightarrow> ccd_error + int list" where
  "split_budget rg budget n =
     (if n \<le> 0 then Inl (CcdMembershipError ''requested identities must be positive'')
      else bindE (sybil_capacity rg budget) (\<lambda>capacity.
        if capacity < n then Inl (CcdMembershipError ''budget cannot fund requested identities'')
        else Inr (map (\<lambda>k. budget div n + (if k < budget mod n then 1 else 0)) [0..n - 1])))"

subsection \<open>Epoch transitions\<close>

record epoch_manager =
  em_epoch :: int
  em_committee :: qcommittee

definition transition_statement :: "epoch_manager \<Rightarrow> (string, validator) dict \<Rightarrow> json" where
  "transition_statement em vals = JObj
     [(''protocol'', JStr ''CCD/NEXUS/v1''), (''phase'', JStr ''EPOCH_TRANSITION''),
      (''from_epoch'', JInt (em_epoch em)), (''to_epoch'', JInt (em_epoch em + 1)),
      (''validator_ids'', JArr (map JStr (sort (dict_keys vals))))]"

definition verify_transition ::
  "crypto \<Rightarrow> epoch_manager \<Rightarrow> epoch_transition_certificate \<Rightarrow> (string, validator) dict \<Rightarrow> ccd_error + bool" where
  "verify_transition cr em tc vals =
     (let stmt = transition_statement em vals; qc = em_committee em
      in if tc_id tc = certificate_digest cr (digest cr stmt) (sort (tc_signers tc)) (sort (tc_signatures tc))
           \<and> tc_from tc = em_epoch em \<and> tc_to tc = em_epoch em + 1
           \<and> tc_validators tc = sort (dict_keys vals) \<and> tc_statement tc = digest cr stmt
         then bindE (qc_weight_of qc (tc_signers tc)) (\<lambda>w.
           Inr (w \<ge> qc_threshold qc \<and> signatures_valid cr qc stmt (tc_signers tc) (tc_signatures tc)))
         else Inr False)"

definition propose_transition ::
  "crypto \<Rightarrow> epoch_manager \<Rightarrow> (string, validator) dict \<Rightarrow> ccd_error + epoch_transition_certificate" where
  "propose_transition cr em vals =
     (if vals = [] then Inl (ReconfigurationError ''new committee cannot be empty'')
      else
        (let stmt = transition_statement em vals; sigs = sign_all cr (em_committee em) stmt;
             tc = \<lparr>tc_id = certificate_digest cr (digest cr stmt) (map fst sigs) sigs,
                   tc_from = em_epoch em, tc_to = em_epoch em + 1,
                   tc_validators = sort (dict_keys vals), tc_signers = map fst sigs,
                   tc_signatures = sigs, tc_statement = digest cr stmt\<rparr>
         in bindE (verify_transition cr em tc vals) (\<lambda>ok.
           if ok then Inr tc
           else Inl (ReconfigurationError ''issued transition certificate failed verification''))))"

definition apply_transition ::
  "crypto \<Rightarrow> epoch_manager \<Rightarrow> epoch_transition_certificate \<Rightarrow> (string, validator) dict \<Rightarrow>
   ccd_error + epoch_manager" where
  "apply_transition cr em tc vals =
     bindE (verify_transition cr em tc vals) (\<lambda>ok.
       if ok then Inr \<lparr>em_epoch = em_epoch em + 1, em_committee = new_committee vals\<rparr>
       else Inl (ReconfigurationError ''invalid epoch transition certificate''))"

end
