(* ===== verification/Governance_Props.thy ===== *)
theory Governance_Props
  imports Governance Votes
begin

section \<open>The registry and epoch transitions: properties\<close>

text \<open>
  The arithmetic of splitting a budget, the bound on identities by stake, and the life of an epoch
  transition, with what its certificate does not bind.
\<close>

subsection \<open>Splitting a budget\<close>

lemma sum_shares:
  assumes "0 \<le> r" "r \<le> int n"
  shows "sum_list (map (\<lambda>k. b + (if k < r then 1 else 0)) [0..int n - 1]) = int n * b + r"
  using assms
proof (induction n arbitrary: r)
  case 0
  then show ?case by simp
next
  case (Suc n)
  have up: "[0..int (Suc n) - 1] = [0..int n - 1] @ [int n]"
    using upto_rec2 [of 0 "int n"] by simp
  show ?case
  proof (cases "r \<le> int n")
    case True
    then show ?thesis using Suc.IH [OF Suc.prems(1) True] unfolding up by (simp add: algebra_simps)
  next
    case False
    with Suc.prems have r: "r = int n + 1" by simp
    have "map (\<lambda>k. b + (if k < r then 1 else 0)) [0..int n - 1] =
        map (\<lambda>k. b + (if k < int n then 1 else 0)) [0..int n - 1]"
      using r by auto
    then have "sum_list (map (\<lambda>k. b + (if k < r then 1 else 0)) [0..int n - 1]) = int n * b + int n"
      using Suc.IH [of "int n"] by (metis of_nat_0_le_iff order_refl)
    then show ?thesis unfolding up using r by (simp add: algebra_simps)
  qed
qed

lemma split_budget_Inr:
  assumes "split_budget rg budget n = Inr shares"
  shows "0 < n" "0 < rg_min_stake rg" "n \<le> budget div rg_min_stake rg" "0 \<le> budget"
    "shares = map (\<lambda>k. budget div n + (if k < budget mod n then 1 else 0)) [0..n - 1]"
proof -
  from assms have n: "0 < n" and b: "0 \<le> budget" and m: "rg_min_stake rg \<noteq> 0"
    and le: "n \<le> budget div rg_min_stake rg"
    and sh: "shares = map (\<lambda>k. budget div n + (if k < budget mod n then 1 else 0)) [0..n - 1]"
    by (auto simp: split_budget_def sybil_capacity_def bindE_Inr_iff split: if_splits)
  from n le have "0 < budget div rg_min_stake rg" by linarith
  with b m have "0 < rg_min_stake rg" by (metis linorder_neqE_linordered_idom div_nonneg_neg_le0 not_le)
  with n b le sh show "0 < n" "0 < rg_min_stake rg" "n \<le> budget div rg_min_stake rg" "0 \<le> budget"
    "shares = map (\<lambda>k. budget div n + (if k < budget mod n then 1 else 0)) [0..n - 1]"
    by simp_all
qed

text \<open>
  Splitting a budget is exact: when \<open>split_budget\<close> returns, there are as many shares as
  identities, they add up to the whole budget, each is at least the minimum stake, so each can be
  admitted, and two of them differ by at most one. It returns exactly when the capacity covers the
  identities, so no budget buys more identities than \<open>sybil_capacity\<close>.
\<close>

theorem split_budget_exact:
  assumes "split_budget rg budget n = Inr shares"
  shows "int (length shares) = n \<and> sum_list shares = budget
    \<and> (\<forall>s \<in> set shares. rg_min_stake rg \<le> s) \<and> (\<forall>s \<in> set shares. \<forall>t \<in> set shares. s - t \<le> 1)
    \<and> (\<exists>capacity. sybil_capacity rg budget = Inr capacity \<and> n \<le> capacity)"
proof -
  note s = split_budget_Inr [OF assms]
  have "budget mod n \<le> n" using s(1) by (simp add: order_less_imp_le)
  then have "sum_list shares = n * (budget div n) + budget mod n"
    using sum_shares [of "budget mod n" "nat n" "budget div n"] s(1,5) by simp
  then have "sum_list shares = budget" by simp
  moreover have "rg_min_stake rg \<le> budget div n"
  proof -
    have "n * rg_min_stake rg \<le> (budget div rg_min_stake rg) * rg_min_stake rg"
      using s(2,3) by (intro mult_right_mono) simp_all
    also have "\<dots> \<le> budget" using s(2) by (metis div_mult_mod_eq le_add_same_cancel1 pos_mod_sign)
    finally show ?thesis using s(1) zdiv_mono1 [of "n * rg_min_stake rg" budget n] by simp
  qed
  then have "\<forall>t \<in> set shares. rg_min_stake rg \<le> t" unfolding s(5) by auto
  moreover have "int (length shares) = n" using s(1,5) by simp
  moreover have "\<forall>t \<in> set shares. \<forall>u \<in> set shares. t - u \<le> 1" unfolding s(5) by auto
  moreover have "\<exists>capacity. sybil_capacity rg budget = Inr capacity \<and> n \<le> capacity"
    using s(2-4) by (simp add: sybil_capacity_def)
  ultimately show ?thesis by blast
qed

theorem split_budget_exact_witness:
  "\<exists>shares. split_budget (new_registry \<lparr>private_bytes = ''a''\<rparr> 3 0) 10 3 = Inr shares
    \<and> int (length shares) = 3 \<and> sum_list shares = 10 \<and> list_all (\<lambda>s. 3 \<le> s) shares"
proof -
  have s: "split_budget (new_registry \<lparr>private_bytes = ''a''\<rparr> 3 0) 10 3 = Inr [4, 3, 3]"
    by (simp add: split_budget_def sybil_capacity_def new_registry_def upto.simps)
  from split_budget_exact [OF s] s show ?thesis by (simp add: new_registry_def)
qed

subsection \<open>Admissions\<close>

datatype registry_call = Admit string string string int | Register ccd_admission

definition registry_step :: "crypto \<Rightarrow> registry_call \<Rightarrow> registry \<Rightarrow> registry" where
  "registry_step cr c rg = (case c of
      Admit vid pk deposit stake \<Rightarrow> snd (registry_admit cr vid pk deposit stake rg)
    | Register ad \<Rightarrow> snd (register_external cr ad rg))"

definition registry_ok :: "crypto \<Rightarrow> registry \<Rightarrow> bool" where
  "registry_ok cr rg \<longleftrightarrow> wf_dict (rg_records rg)
     \<and> (\<forall>(vid, ad) \<in> set (rg_records rg). ad_validator ad = vid \<and> verify_ccd_admission cr rg ad)
     \<and> distinct (map ad_deposit (dict_values (rg_records rg)))
     \<and> set (rg_deposits rg) = set (map ad_deposit (dict_values (rg_records rg)))"

lemma update_fresh: "\<not> has_key d k \<Longrightarrow> AList.update k v d = d @ [(k, v)]"
  by (induction d) (auto simp: has_key_def)

lemma verify_admission_cong:
  "rg_authority rg' = rg_authority rg \<Longrightarrow> rg_min_stake rg' = rg_min_stake rg \<Longrightarrow> rg_epoch rg' = rg_epoch rg \<Longrightarrow>
   verify_ccd_admission cr rg' ad = verify_ccd_admission cr rg ad"
  by (simp add: verify_ccd_admission_def ccd_admission_statement_def authority_id_def)

lemma enter_record_ok:
  assumes ok: "registry_ok cr rg" and v: "verify_ccd_admission cr rg ad"
    and fresh: "\<not> has_key (rg_records rg) (ad_validator ad)" "ad_deposit ad \<notin> set (rg_deposits rg)"
  shows "registry_ok cr (enter_record ad rg)"
proof -
  have same: "verify_ccd_admission cr (enter_record ad rg) = verify_ccd_admission cr rg"
    by (rule ext) (rule verify_admission_cong; simp add: enter_record_def)
  have "rg_records (enter_record ad rg) = rg_records rg @ [(ad_validator ad, ad)]"
    "set (rg_deposits (enter_record ad rg)) = insert (ad_deposit ad) (set (rg_deposits rg))"
    using fresh by (simp_all add: enter_record_def update_fresh)
  with ok v fresh show ?thesis by (auto simp: registry_ok_def same has_key_def)
qed

lemma registry_step_ok: "registry_ok cr rg \<Longrightarrow> registry_ok cr (registry_step cr c rg)"
  by (cases c) (auto simp: registry_step_def registry_admit_def register_external_def Let_def
      intro!: enter_record_ok)

lemma registry_step_params:
  "rg_min_stake (registry_step cr c rg) = rg_min_stake rg"
  by (cases c) (simp_all add: registry_step_def registry_admit_def register_external_def
      enter_record_def Let_def)

lemma registry_run_ok:
  "registry_ok cr rg \<Longrightarrow> registry_ok cr (fold (registry_step cr) cs rg)
     \<and> rg_min_stake (fold (registry_step cr) cs rg) = rg_min_stake rg"
  by (induction cs arbitrary: rg) (simp_all add: registry_step_ok registry_step_params)

lemma registry_stake_bound:
  "registry_ok cr rg \<Longrightarrow> int (length (rg_records rg)) * rg_min_stake rg \<le> registry_stake rg"
proof -
  assume ok: "registry_ok cr rg"
  have "int (length d) * m \<le> sum_list (map ad_stake (dict_values d))"
    if "\<forall>p \<in> set d. m \<le> ad_stake (snd p)" for d :: "(string, ccd_admission) dict" and m
    using that by (induction d) (auto simp: algebra_simps)
  moreover from ok have "\<forall>p \<in> set (rg_records rg). rg_min_stake rg \<le> ad_stake (snd p)"
    by (auto simp: registry_ok_def verify_ccd_admission_def Let_def)
  ultimately show ?thesis by (simp add: registry_stake_def)
qed

text \<open>
  C29. The registry resists Sybil identities: after any sequence of admissions, its own and external
  ones, refused ones included, every record is a verified certificate under its own identity, no
  deposit backs two of them, and the number of identities times the minimum stake is at most the
  total stake, so with a positive minimum it is within \<open>sybil_capacity\<close> of that stake.
\<close>

theorem registry_sybil_bound:
  assumes rg: "rg = fold (registry_step cr) cs (new_registry authority lo ep)" and pos: "0 < lo"
  shows "registry_ok cr rg \<and> int (length (rg_records rg)) * lo \<le> registry_stake rg
    \<and> (\<exists>capacity. sybil_capacity rg (registry_stake rg) = Inr capacity \<and> int (length (rg_records rg)) \<le> capacity)"
proof -
  have start: "registry_ok cr (new_registry authority lo ep)"
    by (simp add: registry_ok_def new_registry_def)
  from registry_run_ok [OF start, of cs] rg have ok: "registry_ok cr rg" and lo: "rg_min_stake rg = lo"
    by (simp_all add: new_registry_def)
  note bound = registry_stake_bound [OF ok, unfolded lo]
  have "0 \<le> int (length (rg_records rg)) * lo" using pos by simp
  with bound have nn: "0 \<le> registry_stake rg" by linarith
  have "int (length (rg_records rg)) \<le> registry_stake rg div lo"
    using pos zdiv_mono1 [OF bound pos] by simp
  with ok bound nn pos lo show ?thesis by (simp add: sybil_capacity_def)
qed

theorem registry_sybil_bound_witness:
  "registry_ok demo_crypto (fold (registry_step demo_crypto) [Admit ''v'' ''k'' ''x'' 5, Admit ''w'' ''k'' ''x'' 5]
     (new_registry \<lparr>private_bytes = ''a''\<rparr> 3 0))
   \<and> int (length (rg_records (fold (registry_step demo_crypto) [Admit ''v'' ''k'' ''x'' 5, Admit ''w'' ''k'' ''x'' 5]
       (new_registry \<lparr>private_bytes = ''a''\<rparr> 3 0)))) * 3 \<le>
     registry_stake (fold (registry_step demo_crypto) [Admit ''v'' ''k'' ''x'' 5, Admit ''w'' ''k'' ''x'' 5]
       (new_registry \<lparr>private_bytes = ''a''\<rparr> 3 0))"
  using registry_sybil_bound [OF refl, of 3 demo_crypto
      "[Admit ''v'' ''k'' ''x'' 5, Admit ''w'' ''k'' ''x'' 5]" "\<lparr>private_bytes = ''a''\<rparr>" 0]
  by simp

subsection \<open>Epoch transitions\<close>

lemma verified_transition_signed:
  "verify_transition cr em tc vals = Inr True \<Longrightarrow>
   quorum_signed cr (em_committee em) (transition_statement em vals) (tc_signers tc) (tc_signatures tc)"
  by (auto simp: verify_transition_def Let_def bindE_Inr_iff split: if_splits intro: weighed_quorum_signed)

lemma propose_transition_ok:
  assumes "wf_qc (em_committee em)" "0 < qc_total_weight (em_committee em)" "sound_signatures cr" "vals \<noteq> []"
  obtains tc where "propose_transition cr em vals = Inr tc" "verify_transition cr em tc vals = Inr True"
  using assms that
  by (simp add: propose_transition_def verify_transition_def Let_def sign_all_weight sign_all_valid total_reaches)

text \<open>
  Epoch transitions: on a committee of positive weight a proposal for a nonempty committee is
  issued, and applying it moves the epoch by exactly one to the proposed validators with empty
  vote tables; whatever transition is applied, a quorum of the old committee has signed its
  statement; and a certificate is good for one epoch only: it is refused after it was applied.
\<close>

theorem epoch_transition:
  assumes wf: "wf_qc (em_committee em)" and pos: "0 < qc_total_weight (em_committee em)"
    and snds: "sound_signatures cr" and ne: "vals \<noteq> []"
  shows "(\<exists>tc. propose_transition cr em vals = Inr tc
      \<and> apply_transition cr em tc vals = Inr \<lparr>em_epoch = em_epoch em + 1, em_committee = new_committee vals\<rparr>)
    \<and> (\<forall>tc em'. apply_transition cr em tc vals = Inr em' \<longrightarrow>
        quorum_signed cr (em_committee em) (transition_statement em vals) (tc_signers tc) (tc_signatures tc)
        \<and> (\<forall>vals'. verify_transition cr em' tc vals' = Inr False))"
proof (intro conjI allI impI)
  obtain tc where "propose_transition cr em vals = Inr tc" "verify_transition cr em tc vals = Inr True"
    using propose_transition_ok [OF wf pos snds ne] .
  then show "\<exists>tc. propose_transition cr em vals = Inr tc
      \<and> apply_transition cr em tc vals = Inr \<lparr>em_epoch = em_epoch em + 1, em_committee = new_committee vals\<rparr>"
    by (auto simp: apply_transition_def)
next
  fix tc em' vals'
  assume "apply_transition cr em tc vals = Inr em'"
  then have v: "verify_transition cr em tc vals = Inr True" and em': "em_epoch em' = em_epoch em + 1"
    by (auto simp: apply_transition_def bindE_Inr_iff split: if_splits)
  show "quorum_signed cr (em_committee em) (transition_statement em vals) (tc_signers tc) (tc_signatures tc)"
    by (rule verified_transition_signed [OF v])
  from v have "tc_from tc = em_epoch em" by (auto simp: verify_transition_def Let_def split: if_splits)
  then show "verify_transition cr em' tc vals' = Inr False"
    by (simp add: verify_transition_def em' Let_def)
qed

definition demo_manager :: epoch_manager where
  "demo_manager = \<lparr>em_epoch = 0, em_committee = new_committee
     [(''v'', \<lparr>va_id = ''v'', va_keypair = \<lparr>private_bytes = ''k''\<rparr>, va_weight = 1, va_byzantine = False\<rparr>)]\<rparr>"

definition demo_successors :: "(string, validator) dict" where
  "demo_successors =
     [(''w'', \<lparr>va_id = ''w'', va_keypair = \<lparr>private_bytes = ''l''\<rparr>, va_weight = 2, va_byzantine = False\<rparr>)]"

theorem epoch_transition_witness:
  "\<exists>tc. propose_transition demo_crypto demo_manager demo_successors = Inr tc
    \<and> apply_transition demo_crypto demo_manager tc demo_successors =
        Inr \<lparr>em_epoch = em_epoch demo_manager + 1, em_committee = new_committee demo_successors\<rparr>"
proof -
  have "wf_qc (em_committee demo_manager)" "0 < qc_total_weight (em_committee demo_manager)"
    "demo_successors \<noteq> []"
    by (simp_all add: demo_manager_def new_committee_def wf_qc_def qc_total_weight_def demo_successors_def)
  from epoch_transition [OF this(1,2) demo_sound this(3)] show ?thesis by blast
qed

text \<open>
  A transition certificate names the new validators by identifier only: with the same certificate
  any committee with the same identifiers is installed, whatever its keys and weights.
\<close>

lemma transition_binds_identifiers_only:
  assumes "apply_transition cr em tc vals = Inr em'" "dict_keys vals' = dict_keys vals"
  shows "apply_transition cr em tc vals' =
    Inr \<lparr>em_epoch = em_epoch em + 1, em_committee = new_committee vals'\<rparr>"
  using assms
  by (auto simp: apply_transition_def verify_transition_def transition_statement_def Let_def bindE_Inr_iff
      split: if_splits)

end
