(* ===== verification/Gf256.thy ===== *)
theory Gf256
  imports Prelude
begin

unbundle bit_operations_syntax

section \<open>The field GF(256) of the erasure code (mosaic/availability.py)\<close>

text \<open>
  Python integers that are never negative are \<open>nat\<close>; \<open>&\<close>, \<open>^\<close>, \<open><<\<close> and \<open>>>\<close> are \<open>AND\<close>, \<open>XOR\<close>,
  \<open>push_bit\<close> and \<open>drop_bit\<close>. The \<open>while\<close> loop of \<open>_gf_mul\<close> ends because it halves \<open>right\<close>.
  The step on \<open>left\<close> is \<open>xtime\<close>, multiplication by the polynomial x; every nonzero element is a
  power of x and a product of powers adds the exponents, from which the laws of a field follow.
\<close>

definition gf_poly :: nat where "gf_poly = 0x11D"

definition xtime :: "nat \<Rightarrow> nat" where
  "xtime left = (let l = push_bit 1 left in if l AND 0x100 \<noteq> 0 then l XOR gf_poly else l)"

function gf_loop :: "nat \<Rightarrow> nat \<Rightarrow> nat \<Rightarrow> nat" where
  "gf_loop result left right =
     (if right = 0 then result
      else gf_loop (if right AND 1 \<noteq> 0 then result XOR left else result) (xtime left) (drop_bit 1 right))"
  by pat_completeness auto
termination by (relation "measure (\<lambda>(_, _, right). right)") (auto simp: drop_bit_eq_div)

declare gf_loop.simps [simp del]

definition gf_mul :: "nat \<Rightarrow> nat \<Rightarrow> nat" where
  "gf_mul left right = gf_loop 0 left right AND 0xFF"

fun gf_pow :: "nat \<Rightarrow> nat \<Rightarrow> nat" where
  "gf_pow value 0 = 1"
| "gf_pow value (Suc k) = gf_mul (gf_pow value k) value"

subsection \<open>Multiplication by x\<close>

lemma less_256: "(n::nat) < 256 \<longleftrightarrow> (\<forall>i \<ge> 8. \<not> bit n i)"
proof -
  have "n < 256 \<longleftrightarrow> take_bit 8 n = n" by (simp add: take_bit_nat_eq_self_iff)
  also have "\<dots> \<longleftrightarrow> (\<forall>i \<ge> 8. \<not> bit n i)"
    unfolding bit_eq_iff bit_take_bit_iff by (simp, metis not_le)
  finally show ?thesis .
qed

lemma bit_mul2 [simp]: "bit (l * 2) i \<longleftrightarrow> i \<noteq> 0 \<and> bit (l::nat) (i - 1)"
  using bit_double_iff [of l i] by (simp add: mult.commute)

lemma xor_less [simp]: "a < 256 \<Longrightarrow> b < 256 \<Longrightarrow> a XOR b < (256::nat)"
  by (simp add: less_256 bit_xor_iff)

lemma xor_cancel [simp]: "a XOR (a XOR b) = (b::nat)"
  by (simp flip: xor.assoc)

lemma xtime_0 [simp]: "xtime 0 = 0"
  by (simp add: xtime_def)

lemma and_256: "((l::nat) AND 0x100 = 0) = (\<not> bit l 8)"
proof -
  have "bit (0x100::nat) i \<longleftrightarrow> i = 8" for i
    using bit_exp_iff [of 8 i, where ?'a = nat] by simp
  then have b: "bit (l AND 0x100) i \<longleftrightarrow> bit l i \<and> i = 8" for i by (simp only: bit_and_iff)
  show ?thesis
  proof
    show "l AND 0x100 = 0 \<Longrightarrow> \<not> bit l 8" using b [of 8] by simp
    show "\<not> bit l 8 \<Longrightarrow> l AND 0x100 = 0" by (rule bit_eqI) (auto simp: b)
  qed
qed

lemma xtime_alt: "xtime l = push_bit 1 l XOR (if bit l 7 then gf_poly else 0)"
proof -
  have "bit (push_bit 1 l) 8 = bit l 7" by simp
  then show ?thesis unfolding xtime_def Let_def and_256 by simp
qed

lemma xtime_xor: "xtime (a XOR b) = xtime a XOR xtime b"
  unfolding xtime_alt push_bit_xor bit_xor_iff
  by (simp add: xor.assoc xor.left_commute xor.commute)

lemma bit_poly: "8 \<le> i \<Longrightarrow> bit gf_poly i \<longleftrightarrow> i = 8"
proof -
  have "bit gf_poly i = bit (0x1D::nat) i" if "8 < i" for i
  proof -
    have "bit gf_poly i = bit (0x1D XOR push_bit 8 1 :: nat) i" by (simp add: gf_poly_def)
    with that show ?thesis unfolding bit_xor_iff bit_push_bit_iff by (simp add: bit_Suc_0_iff)
  qed
  moreover have "\<not> bit (0x1D::nat) i" if "8 \<le> i" for i
    using less_256 [of "0x1D"] that by auto
  moreover have "bit gf_poly 8" by (simp add: gf_poly_def bit_Suc_0_iff)
  ultimately show "8 \<le> i \<Longrightarrow> bit gf_poly i \<longleftrightarrow> i = 8" by (metis le_neq_implies_less)
qed

lemma xtime_less [simp]: "l < 256 \<Longrightarrow> xtime l < 256"
proof -
  assume l: "l < 256"
  have "\<not> bit (xtime l) i" if i: "8 \<le> i" for i
  proof (cases "i = 8")
    case True
    then show ?thesis by (auto simp: xtime_alt bit_xor_iff bit_push_bit_iff bit_poly)
  next
    case False
    with i have "8 \<le> i - 1" by simp
    with l have "\<not> bit l (i - 1)" unfolding less_256 by blast
    with i False show ?thesis by (auto simp: xtime_alt bit_xor_iff bit_push_bit_iff bit_poly)
  qed
  then show ?thesis by (simp add: less_256)
qed

lemma xtime_eq_0: "l < 256 \<Longrightarrow> xtime l = 0 \<longleftrightarrow> l = 0"
proof
  assume l: "l < 256" and x: "xtime l = 0"
  have "\<not> bit l 7"
  proof
    assume "bit l 7"
    moreover have "bit gf_poly 0" by (simp add: gf_poly_def)
    ultimately have "bit (xtime l) 0" by (simp add: xtime_alt bit_xor_iff del: bit_0)
    with x show False by simp
  qed
  with x show "l = 0" by (simp add: xtime_alt)
qed simp

lemma xtime_inject: "a < 256 \<Longrightarrow> b < 256 \<Longrightarrow> xtime a = xtime b \<longleftrightarrow> a = b"
proof -
  assume "a < 256" "b < 256"
  then have "xtime (a XOR b) = 0 \<longleftrightarrow> a XOR b = 0" by (intro xtime_eq_0) simp
  then show ?thesis by (auto simp: xtime_xor bit_eq_iff bit_xor_iff)
qed

subsection \<open>The loop as a sum\<close>

lemma gf_loop_xor: "gf_loop result l r = result XOR gf_loop 0 l r"
proof (induction r arbitrary: result l rule: less_induct)
  case (less r)
  show ?case
  proof (cases "r = 0")
    case True
    then show ?thesis by (simp add: gf_loop.simps)
  next
    case False
    then have lt: "drop_bit 1 r < r" by (simp add: drop_bit_eq_div)
    have "gf_loop x l r = (if r AND 1 \<noteq> 0 then x XOR l else x) XOR gf_loop 0 (xtime l) (drop_bit 1 r)" for x
      using False by (subst gf_loop.simps, subst less.IH [OF lt]) simp
    from this [of result] this [of 0] show ?thesis by (simp add: xor.assoc)
  qed
qed

definition gf_sum :: "nat \<Rightarrow> nat \<Rightarrow> nat" where
  "gf_sum l r = gf_loop 0 l r"

lemma gf_sum_rec: "gf_sum l r = (if odd r then l else 0) XOR gf_sum (xtime l) (r div 2)"
proof (cases "r = 0")
  case False
  have "gf_sum l r = gf_loop (if r AND 1 \<noteq> 0 then 0 XOR l else 0) (xtime l) (drop_bit 1 r)"
    using False by (subst gf_sum_def, subst gf_loop.simps) simp
  also have "\<dots> = (if r AND 1 \<noteq> 0 then l else 0) XOR gf_sum (xtime l) (drop_bit 1 r)"
    by (subst gf_loop_xor) (simp add: gf_sum_def)
  also have "(r AND 1 \<noteq> 0) = odd r" by (simp add: and_one_eq odd_iff_mod_2_eq_one)
  finally show ?thesis by (simp add: drop_bit_Suc)
qed (simp add: gf_sum_def gf_loop.simps)

lemma gf_sum_0 [simp]: "gf_sum l 0 = 0"
  by (simp add: gf_sum_def gf_loop.simps)

text \<open>Induction along the bits of the second factor.\<close>

lemma bits_induct [case_names zero step]:
  "P 0 \<Longrightarrow> (\<And>r. r \<noteq> 0 \<Longrightarrow> P (r div 2) \<Longrightarrow> P r) \<Longrightarrow> P (r::nat)"
  by (induction r rule: less_induct) (metis div_less_dividend gr0I one_less_numeral_iff semiring_norm(76))

lemma gf_sum_0_left [simp]: "gf_sum 0 r = 0"
  by (induction r rule: bits_induct) (simp, subst gf_sum_rec, simp)

lemma gf_sum_xor_left: "gf_sum (l XOR l') r = gf_sum l r XOR gf_sum l' r"
proof (induction r arbitrary: l l' rule: bits_induct)
  case (step r)
  have "gf_sum (l XOR l') r = (if odd r then l XOR l' else 0)
      XOR (gf_sum (xtime l) (r div 2) XOR gf_sum (xtime l') (r div 2))"
    by (subst gf_sum_rec) (simp only: xtime_xor step.IH)
  also have "\<dots> = gf_sum l r XOR gf_sum l' r"
    by (subst (3 4) gf_sum_rec) (simp add: xor.assoc xor.left_commute)
  finally show ?case .
qed simp

lemma gf_sum_xor_right: "gf_sum l (r XOR r') = gf_sum l r XOR gf_sum l r'"
proof (induction r arbitrary: r' l rule: bits_induct)
  case (step r)
  have half: "(r XOR r') div 2 = (r div 2) XOR (r' div 2)"
    using drop_bit_xor [of 1 r r'] by (simp only: drop_bit_eq_div power_one_right)
  have "gf_sum l (r XOR r') = (if odd (r XOR r') then l else 0)
      XOR (gf_sum (xtime l) (r div 2) XOR gf_sum (xtime l) (r' div 2))"
    by (subst gf_sum_rec) (simp only: half step.IH)
  also have "\<dots> = gf_sum l r XOR gf_sum l r'"
    by (subst (3 4) gf_sum_rec) (auto simp: even_xor_iff xor.assoc xor.left_commute)
  finally show ?case .
qed simp

lemma gf_sum_less [simp]: "l < 256 \<Longrightarrow> gf_sum l r < 256"
proof (induction r arbitrary: l rule: bits_induct)
  case (step r)
  then show ?case by (subst gf_sum_rec) simp
qed simp

lemma gf_sum_xtime: "gf_sum (xtime l) r = xtime (gf_sum l r)"
proof (induction r arbitrary: l rule: bits_induct)
  case (step r)
  have "xtime (gf_sum l r) = (if odd r then xtime l else 0) XOR gf_sum (xtime (xtime l)) (r div 2)"
    by (subst gf_sum_rec) (simp add: xtime_xor step.IH)
  then show ?case by (subst gf_sum_rec) simp
qed simp

lemma gf_mul_sum: "l < 256 \<Longrightarrow> gf_mul l r = gf_sum l r"
proof -
  assume "l < 256"
  then have "gf_sum l r < 256" by simp
  moreover have "x AND 0xFF = take_bit 8 x" for x :: nat by (simp add: take_bit_eq_mask mask_eq_exp_minus_1)
  ultimately show ?thesis by (simp add: gf_mul_def gf_sum_def take_bit_nat_eq_self)
qed

subsection \<open>Powers of x\<close>

definition alpha :: "nat \<Rightarrow> nat" where
  "alpha i = (xtime ^^ i) 1"

lemma alpha_simps: "alpha 0 = 1" "alpha (Suc i) = xtime (alpha i)"
  "alpha (numeral k) = xtime (alpha (pred_numeral k))"
  by (simp_all add: alpha_def numeral_eq_Suc)

lemma alpha_less [simp]: "alpha i < 256"
  by (induction i) (simp_all add: alpha_simps)

lemma alpha_ne [simp]: "alpha i \<noteq> 0"
  by (induction i) (simp_all add: alpha_simps xtime_eq_0)

lemma alpha_pos [simp]: "0 < alpha i"
  by (rule gr0I) (rule notE [OF alpha_ne])

lemma funpow_xtime_less: "a < 256 \<Longrightarrow> (xtime ^^ i) a < 256"
  by (induction i) simp_all

lemma gf_sum_funpow: "gf_sum ((xtime ^^ i) l) r = (xtime ^^ i) (gf_sum l r)"
  by (induction i) (simp_all add: gf_sum_xtime)

lemma xtime_double: "l < 128 \<Longrightarrow> xtime l = 2 * l"
proof -
  assume "l < 128"
  then have "take_bit 7 l = l" by (simp add: take_bit_nat_eq_self)
  then have "\<not> bit l 7" by (metis bit_take_bit_iff less_irrefl)
  then show ?thesis by (simp add: xtime_alt)
qed

lemma bit_split: "(if odd r then 1 else 0) XOR (2 * (r div 2)) = (r::nat)"
proof (cases "odd r")
  case True
  have "1 XOR (2 * (r div 2)) = Suc (2 * (r div 2))" by (simp only: one_xor_eq) simp
  with True show ?thesis by simp
qed simp

lemma gf_sum_power: "k \<le> 8 \<Longrightarrow> r < 2 ^ k \<Longrightarrow> gf_sum (2 ^ (8 - k)) r = 2 ^ (8 - k) * r"
proof (induction k arbitrary: r)
  case (Suc k)
  have small: "(2::nat) ^ (8 - Suc k) < 2 ^ 7 \<or> k = 0" 
    by (cases k) (simp_all add: power_strict_increasing [of _ 7 "2::nat", simplified])
  show ?case
  proof (cases "k = 0")
    case True
    with Suc.prems have "r = 0 \<or> r = 1" by auto
    moreover have "gf_sum l 1 = l" for l by (subst gf_sum_rec) simp
    ultimately show ?thesis by auto
  next
    case False
    let ?b = "if odd r then 1 else 0 :: nat"
    from False small have "xtime (2 ^ (8 - Suc k)) = 2 ^ (8 - k)"
      using Suc.prems(1) by (simp add: xtime_double Suc_diff_Suc flip: power_Suc)
    moreover have "gf_sum (2 ^ (8 - k)) (r div 2) = 2 ^ (8 - k) * (r div 2)"
      using Suc.prems by (intro Suc.IH) auto
    moreover have pow: "(2::nat) ^ (8 - k) = 2 * 2 ^ (8 - Suc k)"
      using Suc.prems(1) by (simp add: Suc_diff_Suc flip: power_Suc)
    ultimately have "gf_sum (2 ^ (8 - Suc k)) r =
        push_bit (8 - Suc k) ?b XOR push_bit (8 - Suc k) (2 * (r div 2))"
      by (subst gf_sum_rec) (simp add: push_bit_eq_mult mult.assoc mult.commute mult.left_commute)
    also have "\<dots> = push_bit (8 - Suc k) (?b XOR 2 * (r div 2))" by (rule push_bit_xor [symmetric])
    also have "?b XOR 2 * (r div 2) = r" by (rule bit_split)
    finally show ?thesis by (simp add: push_bit_eq_mult mult.commute)
  qed
qed simp

lemma gf_sum_one: "r < 256 \<Longrightarrow> gf_sum (Suc 0) r = r"
  using gf_sum_power [of 8 r] by simp

text \<open>The order of x is 255, so its powers are all the nonzero elements.\<close>

lemma alpha_255: "alpha 255 = 1"
  by (simp add: alpha_simps xtime_def gf_poly_def Let_def)

lemma alpha_divisors: "alpha 85 \<noteq> 1" "alpha 51 \<noteq> 1" "alpha 15 \<noteq> 1"
  by (simp_all add: alpha_simps xtime_def gf_poly_def Let_def)

lemma alpha_add: "alpha (i + j) = (xtime ^^ i) (alpha j)"
  by (simp add: alpha_def funpow_add)

lemma alpha_mult: "alpha d = 1 \<Longrightarrow> alpha (d * n) = 1"
  by (induction n) (simp_all add: alpha_simps alpha_add, simp add: alpha_def)

lemma funpow_xtime_inject: "a < 256 \<Longrightarrow> b < 256 \<Longrightarrow> (xtime ^^ i) a = (xtime ^^ i) b \<longleftrightarrow> a = b"
  by (induction i) (simp_all add: xtime_inject funpow_xtime_less)

lemma alpha_cancel: "alpha (i + j) = alpha i \<longleftrightarrow> alpha j = 1"
proof -
  have "alpha i = (xtime ^^ i) (alpha 0)" by (simp add: alpha_def)
  then show ?thesis by (simp add: alpha_add funpow_xtime_inject alpha_simps)
qed

lemma alpha_gcd: "alpha d = 1 \<Longrightarrow> d \<noteq> 0 \<Longrightarrow> alpha (gcd d 255) = 1"
proof -
  assume d: "alpha d = 1" "d \<noteq> 0"
  from bezout_nat [OF d(2), of 255] obtain x y where "d * x = 255 * y + gcd d 255" by blast
  then have "alpha (255 * y + gcd d 255) = alpha (255 * y)"
    using alpha_mult [OF d(1), of x] alpha_mult [OF alpha_255, of y] by simp
  then show ?thesis by (simp add: alpha_cancel)
qed

lemma proper_divisor: "g dvd 255 \<Longrightarrow> g < 255 \<Longrightarrow> g dvd 85 \<or> g dvd 51 \<or> g dvd (15::nat)"
proof -
  assume g: "g dvd 255" "g < 255"
  from g(1) obtain m where m: "255 = g * m" by blast
  have "list_all (\<lambda>g. 255 mod g = 0 \<longrightarrow> 85 mod g = 0 \<or> 51 mod g = 0 \<or> 15 mod g = (0::nat)) [2..<128]"
    by (simp add: upt_rec_numeral)
  moreover from m g(2) have "m \<noteq> 0 \<and> m \<noteq> 1" by (metis less_irrefl mult.right_neutral mult_0_right zero_neq_numeral)
  then have "2 * g \<le> g * m" by (cases m) auto
  with m have "g < 128" by simp
  ultimately show ?thesis
    using g(1) by (cases "g < 2") (auto simp: list_all_iff mod_eq_0_iff_dvd numeral_2_eq_2 less_Suc_eq)
qed

lemma alpha_order: "0 < d \<Longrightarrow> d < 255 \<Longrightarrow> alpha d \<noteq> 1"
proof
  assume d: "0 < d" "d < 255" and one: "alpha d = 1"
  from alpha_gcd [OF one] d(1) have g: "alpha (gcd d 255) = 1" by simp
  have "gcd d 255 \<le> d" using d(1) by (simp add: gcd_le1_nat)
  with d(2) have "gcd d 255 dvd 85 \<or> gcd d 255 dvd 51 \<or> gcd d 255 dvd 15"
    by (intro proper_divisor) auto
  then show False
    using alpha_mult [OF g] alpha_divisors by (auto elim!: dvdE)
qed

lemma alpha_inj: "inj_on alpha {..<255}"
proof (rule linorder_inj_onI)
  fix i j :: nat
  assume ij: "i < j" "j \<in> {..<255}"
  then have "alpha (j - i) \<noteq> 1" by (intro alpha_order) auto
  then have "alpha (i + (j - i)) \<noteq> alpha i" by (simp add: alpha_cancel)
  with ij show "alpha i \<noteq> alpha j" by simp
qed auto

lemma alpha_surj: "0 < a \<Longrightarrow> a < 256 \<Longrightarrow> \<exists>i < 255. a = alpha i"
proof -
  assume a: "0 < a" "a < 256"
  have "alpha ` {..<255} \<subseteq> {1..<256}" by (auto simp: Suc_le_eq)
  moreover have "card (alpha ` {..<255}) = card {1..<256::nat}" by (simp add: card_image [OF alpha_inj])
  ultimately have "alpha ` {..<255} = {1..<256}" by (intro card_subset_eq) simp_all
  moreover have "a \<in> {1..<256}" using a by simp
  ultimately show ?thesis by blast
qed

subsection \<open>The laws of the field\<close>

lemma gf_mul_alpha: "r < 256 \<Longrightarrow> gf_mul (alpha i) r = (xtime ^^ i) r"
  using gf_sum_funpow [of i 1 r] by (simp add: gf_mul_sum gf_sum_one alpha_def funpow_xtime_less)

lemma gf_mul_alphas: "gf_mul (alpha i) (alpha j) = alpha (i + j)"
  by (simp add: gf_mul_alpha alpha_add)

lemma gf_mul_less [simp]: "gf_mul a b < 256"
proof -
  have "gf_mul a b = take_bit 8 (gf_loop 0 a b)"
    by (simp add: gf_mul_def take_bit_eq_mask mask_eq_exp_minus_1)
  then show ?thesis using take_bit_nat_less_exp [of 8] by simp
qed

lemma gf_mul_0 [simp]: "gf_mul a 0 = 0" "gf_mul 0 a = 0"
  by (simp_all add: gf_mul_sum, simp add: gf_mul_def gf_loop.simps)

lemma gf_mul_1 [simp]: "a < 256 \<Longrightarrow> gf_mul 1 a = a"
  by (simp add: gf_mul_sum gf_sum_one)

lemma gf_cases:
  assumes "a < 256"
  obtains "a = 0" | i where "a = alpha i" "i < 255"
  using assms alpha_surj by (cases "a = 0") auto

lemma gf_mul_commute: "a < 256 \<Longrightarrow> b < 256 \<Longrightarrow> gf_mul a b = gf_mul b a"
  by (erule gf_cases; erule gf_cases) (simp_all add: gf_mul_alphas add.commute)

lemma gf_mul_assoc: "a < 256 \<Longrightarrow> b < 256 \<Longrightarrow> c < 256 \<Longrightarrow> gf_mul (gf_mul a b) c = gf_mul a (gf_mul b c)"
  by (erule gf_cases; erule gf_cases; erule gf_cases) (simp_all add: gf_mul_alphas add.assoc)

lemma gf_mul_xor: "a < 256 \<Longrightarrow> gf_mul a (b XOR c) = gf_mul a b XOR gf_mul a c"
  by (simp add: gf_mul_sum gf_sum_xor_right)

lemma gf_pow_alpha: "gf_pow (alpha i) n = alpha (i * n)"
  by (induction n) (simp_all add: alpha_simps gf_mul_alphas add.commute)

lemma gf_inverse: "0 < a \<Longrightarrow> a < 256 \<Longrightarrow> gf_mul a (gf_pow a 254) = 1"
proof -
  assume "0 < a" "a < 256"
  then obtain i where "a = alpha i" using alpha_surj by blast
  then have "gf_mul a (gf_pow a 254) = alpha (255 * i)"
    by (simp add: gf_pow_alpha gf_mul_alphas)
  then show ?thesis by (simp add: alpha_mult alpha_255)
qed

lemma gf_pow_bound: "a < 256 \<Longrightarrow> gf_pow a n < 256"
  by (cases n) simp_all

lemma gf_pow_add: "x < 256 \<Longrightarrow> gf_pow x (a + d) = gf_mul (gf_pow x a) (gf_pow x d)"
proof (induction d)
  case 0
  have "gf_mul 1 (gf_pow x a) = gf_pow x a" using 0 by (intro gf_mul_1 gf_pow_bound)
  with 0 show ?case by (simp add: gf_mul_commute [OF gf_pow_bound])
next
  case (Suc d)
  then show ?case by (simp add: gf_mul_assoc gf_pow_bound)
qed

text \<open>Evaluation on numerals.\<close>

lemma gf_loop_eval:
  "gf_loop r l 0 = r" "gf_loop r l 1 = r XOR l" "gf_loop r l (Suc 0) = r XOR l"
  "gf_loop r l (numeral (num.Bit0 n)) = gf_loop r (xtime l) (numeral n)"
  "gf_loop r l (numeral (num.Bit1 n)) = gf_loop (r XOR l) (xtime l) (numeral n)"
  by (subst gf_loop.simps; simp add: gf_loop.simps)+

lemma gf_pow_numeral: "gf_pow v (numeral k) = gf_mul (gf_pow v (pred_numeral k)) v"
  by (simp add: numeral_eq_Suc)

lemmas gf_eval = gf_mul_def gf_loop_eval gf_pow_numeral xtime_def gf_poly_def Let_def

end
