(* ===== verification/Gf_Matrix.thy ===== *)
theory Gf_Matrix
  imports Gf256 Model
begin

unbundle bit_operations_syntax

section \<open>Matrices over GF(256) (mosaic/availability.py)\<close>

text \<open>
  \<open>_gf_inv\<close>, \<open>_matrix_inverse\<close> and \<open>_matrix_vector\<close>. A matrix is the list of its rows, as in the
  code; \<open>augmented\<close> is the same list of rows, each followed by its row of the right half. The
  field is used through the locale \<open>gf_field\<close> only: its multiplication, its inverse and the
  laws the elimination needs, interpreted on \<open>gf_mul\<close> and \<open>gf_inv\<close>. The result is that
  \<open>matrix_inverse\<close> decides whether a matrix has a nontrivial kernel, and inverts it otherwise.
\<close>

datatype availability_error =
    AvailabilityError string
  | AvIndexError
  | AvOverflowError
  | AvMosaicError mosaic_error

definition gf_inv :: "nat \<Rightarrow> availability_error + nat" where
  "gf_inv value =
     (if value = 0 then Inl (AvailabilityError ''zero has no finite-field inverse'')
      else Inr (gf_pow value 254))"

subsection \<open>Gauss-Jordan elimination\<close>

definition identity_row :: "nat \<Rightarrow> nat \<Rightarrow> nat list" where
  "identity_row sz index = map (\<lambda>column. if index = column then 1 else 0) [0..<sz]"

definition augment :: "nat list list \<Rightarrow> nat list list" where
  "augment matrix =
     map (\<lambda>index. matrix ! index @ identity_row (length matrix) index) [0..<length matrix]"

definition eliminate_row :: "nat \<Rightarrow> nat list list \<Rightarrow> nat \<Rightarrow> nat list list" where
  "eliminate_row column augmented row =
     (if row = column \<or> augmented ! row ! column = 0 then augmented
      else let factor = augmented ! row ! column
        in augmented[row := map2 (\<lambda>left right. left XOR gf_mul factor right)
                              (augmented ! row) (augmented ! column)])"

definition swap_rows :: "nat \<Rightarrow> nat \<Rightarrow> nat list list \<Rightarrow> nat list list" where
  "swap_rows column pivot augmented =
     augmented[column := augmented ! pivot, pivot := augmented ! column]"

definition eliminate_column ::
  "nat \<Rightarrow> nat list list \<Rightarrow> availability_error + nat list list" where
  "eliminate_column column augmented =
     (case find (\<lambda>row. augmented ! row ! column \<noteq> 0) [column..<length augmented] of
        None \<Rightarrow> Inl (AvailabilityError ''erasure matrix is singular'')
      | Some pivot \<Rightarrow>
          let swapped = swap_rows column pivot augmented in
          bindE (gf_inv (swapped ! column ! column)) (\<lambda>inverse.
            let scaled = swapped[column := map (\<lambda>item. gf_mul item inverse) (swapped ! column)]
            in Inr (foldl (eliminate_row column) scaled [0..<length augmented])))"

fun eliminate_columns ::
  "nat list \<Rightarrow> nat list list \<Rightarrow> availability_error + nat list list" where
  "eliminate_columns [] augmented = Inr augmented"
| "eliminate_columns (column # columns) augmented =
     bindE (eliminate_column column augmented) (eliminate_columns columns)"

definition matrix_inverse :: "nat list list \<Rightarrow> availability_error + nat list list" where
  "matrix_inverse matrix =
     (let sz = length matrix in
      if sz = 0 \<or> \<not> list_all (\<lambda>row. length row = sz) matrix
      then Inl (AvailabilityError ''matrix must be square'')
      else bindE (eliminate_columns [0..<sz] (augment matrix)) (\<lambda>augmented.
        Inr (map (drop sz) augmented)))"

subsection \<open>Products with a vector of byte strings\<close>

fun row_product ::
  "nat \<Rightarrow> nat list \<Rightarrow> (nat \<times> string) list \<Rightarrow> availability_error + nat list" where
  "row_product width result [] = Inr result"
| "row_product width result ((coefficient, shard) # rest) =
     (if length shard \<noteq> width then Inl (AvailabilityError ''shards have inconsistent sizes'')
      else row_product width
        (if coefficient \<noteq> 0
         then map2 (\<lambda>b value. b XOR gf_mul coefficient (of_char value)) result shard else result) rest)"

fun row_products ::
  "nat \<Rightarrow> string list \<Rightarrow> nat list list \<Rightarrow> availability_error + string list" where
  "row_products width vector [] = Inr []"
| "row_products width vector (row # rows) =
     bindE (row_product width (replicate width 0) (zip row vector)) (\<lambda>result.
       bindE (row_products width vector rows) (\<lambda>output. Inr (map char_of result # output)))"

text \<open>\<open>not matrix\<close> is tested first; an empty vector with an empty first row would raise
  \<open>IndexError\<close> at \<open>vector[0]\<close>.\<close>

definition matrix_vector ::
  "nat list list \<Rightarrow> string list \<Rightarrow> availability_error + string list" where
  "matrix_vector matrix vector =
     (if matrix = [] \<or> length (hd matrix) \<noteq> length vector
      then Inl (AvailabilityError ''matrix/vector dimensions do not match'')
      else if vector = [] then Inl AvIndexError
      else row_products (length (hd vector)) vector matrix)"

subsection \<open>Sums in the field\<close>

primrec xsum :: "(nat \<Rightarrow> nat) \<Rightarrow> nat \<Rightarrow> nat" where
  "xsum f 0 = 0"
| "xsum f (Suc n) = xsum f n XOR f n"

lemma xsum_cong: "(\<And>i. i < n \<Longrightarrow> f i = g i) \<Longrightarrow> xsum f n = xsum g n"
  by (induction n) simp_all

lemma xsum_zero [simp]: "xsum (\<lambda>i. 0) n = 0"
  by (induction n) simp_all

lemma xsum_less: "(\<And>i. i < n \<Longrightarrow> f i < 256) \<Longrightarrow> xsum f n < 256"
  by (induction n) simp_all

lemma xsum_xor: "xsum (\<lambda>i. f i XOR g i) n = xsum f n XOR xsum g n"
  by (induction n) (simp_all add: xor.assoc xor.left_commute)

lemma xsum_swap: "xsum (\<lambda>i. xsum (\<lambda>j. f i j) m) n = xsum (\<lambda>j. xsum (\<lambda>i. f i j) n) m"
  by (induction n) (simp_all add: xsum_xor)

lemma xsum_single: "xsum (\<lambda>i. if i = k then a else 0) n = (if k < n then a else 0)"
  by (induction n) auto

lemma xsum_unit: "k < n \<Longrightarrow> (\<And>i. i < n \<Longrightarrow> i \<noteq> k \<Longrightarrow> f i = 0) \<Longrightarrow> xsum f n = f k"
proof -
  assume k: "k < n" and f: "\<And>i. i < n \<Longrightarrow> i \<noteq> k \<Longrightarrow> f i = 0"
  have "xsum f n = xsum (\<lambda>i. if i = k then f k else 0) n" by (rule xsum_cong) (auto dest: f)
  with k show ?thesis by (simp add: xsum_single)
qed

text \<open>What the elimination uses of the field.\<close>

locale gf_field =
  fixes mul :: "nat \<Rightarrow> nat \<Rightarrow> nat" and inv :: "nat \<Rightarrow> nat"
  assumes mul_less: "mul a b < 256"
    and mul_zero: "mul a 0 = 0"
    and mul_one: "a < 256 \<Longrightarrow> mul 1 a = a"
    and mul_commute: "a < 256 \<Longrightarrow> b < 256 \<Longrightarrow> mul a b = mul b a"
    and mul_assoc: "a < 256 \<Longrightarrow> b < 256 \<Longrightarrow> c < 256 \<Longrightarrow> mul (mul a b) c = mul a (mul b c)"
    and mul_xor: "a < 256 \<Longrightarrow> mul a (b XOR c) = mul a b XOR mul a c"
    and mul_inv: "0 < a \<Longrightarrow> a < 256 \<Longrightarrow> mul a (inv a) = 1"
    and inv_less: "a < 256 \<Longrightarrow> inv a < 256"
begin

lemma mul_xsum: "a < 256 \<Longrightarrow> mul a (xsum f n) = xsum (\<lambda>i. mul a (f i)) n"
  by (induction n) (simp_all add: mul_zero mul_xor)

lemma xsum_mul: "a < 256 \<Longrightarrow> (\<And>i. i < n \<Longrightarrow> f i < 256) \<Longrightarrow> mul (xsum f n) a = xsum (\<lambda>i. mul (f i) a) n"
proof -
  assume a: "a < 256" and f: "\<And>i. i < n \<Longrightarrow> f i < 256"
  then have "mul (xsum f n) a = mul a (xsum f n)" by (intro mul_commute xsum_less)
  also have "\<dots> = xsum (\<lambda>i. mul a (f i)) n" using a by (rule mul_xsum)
  also have "\<dots> = xsum (\<lambda>i. mul (f i) a) n" by (rule xsum_cong) (simp add: a f mul_commute)
  finally show ?thesis .
qed

lemma xor_mul: "a < 256 \<Longrightarrow> b < 256 \<Longrightarrow> c < 256 \<Longrightarrow> mul (a XOR b) c = mul a c XOR mul b c"
  by (metis mul_commute mul_xor xor_less)

lemma mul_zero_left: "a < 256 \<Longrightarrow> mul 0 a = 0"
  using mul_commute [of 0 a] by (simp add: mul_zero)

lemma mul_eq_0: "a < 256 \<Longrightarrow> b < 256 \<Longrightarrow> mul a b = 0 \<longleftrightarrow> a = 0 \<or> b = 0"
proof
  assume ab: "a < 256" "b < 256" and z: "mul a b = 0"
  show "a = 0 \<or> b = 0"
  proof (cases "a = 0")
    case False
    with ab have "mul (mul (inv a) a) b = b"
      by (simp add: mul_commute [OF inv_less] mul_inv mul_one del: One_nat_def)
    moreover have "mul (mul (inv a) a) b = 0"
      using ab z by (simp add: mul_assoc inv_less mul_zero)
    ultimately show ?thesis by simp
  qed simp
qed (auto simp: mul_zero mul_zero_left)

text \<open>The product of a row with a matrix product, associated the other way.\<close>

lemma mul_xsum_xsum:
  assumes "\<And>i. i < n \<Longrightarrow> r i < 256" "\<And>i j. i < n \<Longrightarrow> j < m \<Longrightarrow> a i j < 256" "\<And>j. j < m \<Longrightarrow> v j < 256"
  shows "xsum (\<lambda>i. mul (r i) (xsum (\<lambda>j. mul (a i j) (v j)) m)) n =
         xsum (\<lambda>j. mul (xsum (\<lambda>i. mul (r i) (a i j)) n) (v j)) m"
proof -
  have "xsum (\<lambda>i. mul (r i) (xsum (\<lambda>j. mul (a i j) (v j)) m)) n =
      xsum (\<lambda>i. xsum (\<lambda>j. mul (mul (r i) (a i j)) (v j)) m) n"
    by (rule xsum_cong) (simp add: mul_xsum assms mul_assoc cong: xsum_cong)
  also have "\<dots> = xsum (\<lambda>j. xsum (\<lambda>i. mul (mul (r i) (a i j)) (v j)) n) m" by (rule xsum_swap)
  also have "\<dots> = xsum (\<lambda>j. mul (xsum (\<lambda>i. mul (r i) (a i j)) n) (v j)) m"
    by (rule xsum_cong) (simp add: xsum_mul assms mul_less)
  finally show ?thesis .
qed

lemma inv_nonzero: "0 < a \<Longrightarrow> a < 256 \<Longrightarrow> 0 < inv a"
  using mul_inv [of a] mul_zero [of a] by (cases "inv a = 0") auto

end

interpretation gf: gf_field gf_mul "\<lambda>a. gf_pow a 254"
  by unfold_locales
    ((rule gf_mul_less gf_mul_0 gf_mul_1 gf_mul_commute gf_mul_assoc gf_mul_xor gf_inverse gf_pow_bound; assumption)+)

subsection \<open>What the elimination keeps\<close>

text \<open>
  A row of the augmented matrix is \<open>balanced\<close> when its left half is its right half times the
  matrix; every row operation keeps that. \<open>kernel n rows v\<close>: \<open>v\<close> solves the homogeneous system;
  every row operation keeps the solutions.
\<close>

definition dotx :: "nat \<Rightarrow> nat list \<Rightarrow> (nat \<Rightarrow> nat) \<Rightarrow> nat" where
  "dotx n row v = xsum (\<lambda>j. gf_mul (row ! j) (v j)) n"

definition kernel :: "nat \<Rightarrow> nat list list \<Rightarrow> (nat \<Rightarrow> nat) \<Rightarrow> bool" where
  "kernel n rows v \<longleftrightarrow> (\<forall>r < length rows. dotx n (rows ! r) v = 0)"

definition byte_row :: "nat \<Rightarrow> nat list \<Rightarrow> bool" where
  "byte_row n row \<longleftrightarrow> length row = n \<and> list_all (\<lambda>a. a < 256) row"

definition balanced :: "nat list list \<Rightarrow> nat list \<Rightarrow> bool" where
  "balanced matrix row \<longleftrightarrow> byte_row (2 * length matrix) row \<and>
     (\<forall>j < length matrix. row ! j =
        xsum (\<lambda>i. gf_mul (row ! (length matrix + i)) (matrix ! i ! j)) (length matrix))"

definition square :: "nat list list \<Rightarrow> bool" where
  "square matrix \<longleftrightarrow> list_all (byte_row (length matrix)) matrix"

lemma byte_rowD: "byte_row n row \<Longrightarrow> i < n \<Longrightarrow> row ! i < 256" "byte_row n row \<Longrightarrow> length row = n"
  by (simp_all add: byte_row_def list_all_length)

lemma squareD: "square m \<Longrightarrow> i < length m \<Longrightarrow> j < length m \<Longrightarrow> m ! i ! j < 256"
  by (simp add: square_def list_all_length byte_row_def)

definition scale_row :: "nat \<Rightarrow> nat list \<Rightarrow> nat list" where
  "scale_row a row = map (\<lambda>item. gf_mul item a) row"

definition combine_row :: "nat \<Rightarrow> nat list \<Rightarrow> nat list \<Rightarrow> nat list" where
  "combine_row factor row base = map2 (\<lambda>left right. left XOR gf_mul factor right) row base"

lemma nth_scale_row [simp]: "i < length row \<Longrightarrow> scale_row a row ! i = gf_mul (row ! i) a"
  by (simp add: scale_row_def)

lemma nth_combine_row [simp]:
  "i < length row \<Longrightarrow> i < length base \<Longrightarrow> combine_row f row base ! i = row ! i XOR gf_mul f (base ! i)"
  by (simp add: combine_row_def)

lemma byte_row_scale [simp]: "byte_row n row \<Longrightarrow> byte_row n (scale_row a row)"
  by (simp add: byte_row_def scale_row_def list_all_length)

lemma byte_row_combine [simp]:
  "byte_row n row \<Longrightarrow> byte_row n base \<Longrightarrow> byte_row n (combine_row f row base)"
  by (simp add: byte_row_def combine_row_def list_all_length)

lemma balanced_scale:
  assumes m: "square m" and a: "a < 256" and b: "balanced m row"
  shows "balanced m (scale_row a row)"
proof -
  let ?n = "length m"
  from b have row: "byte_row (2 * ?n) row" by (simp add: balanced_def)
  have "scale_row a row ! j = xsum (\<lambda>i. gf_mul (scale_row a row ! (?n + i)) (m ! i ! j)) ?n"
    if j: "j < ?n" for j
  proof -
    have "gf_mul (row ! j) a = xsum (\<lambda>i. gf_mul (gf_mul (row ! (?n + i)) (m ! i ! j)) a) ?n"
      using b j a by (simp add: balanced_def gf.xsum_mul)
    also have "\<dots> = xsum (\<lambda>i. gf_mul (gf_mul (row ! (?n + i)) a) (m ! i ! j)) ?n"
    proof (rule xsum_cong)
      fix i assume "i < ?n"
      then have "row ! (?n + i) < 256" "m ! i ! j < 256"
        using row m j by (auto intro: byte_rowD squareD)
      with a show "gf_mul (gf_mul (row ! (?n + i)) (m ! i ! j)) a = gf_mul (gf_mul (row ! (?n + i)) a) (m ! i ! j)"
        by (simp add: gf_mul_assoc gf_mul_commute [of a])
    qed
    finally show ?thesis
      using j row by (simp add: byte_rowD(2) cong: xsum_cong)
  qed
  with row show ?thesis by (simp add: balanced_def)
qed

lemma balanced_combine:
  assumes m: "square m" and f: "f < 256" and b: "balanced m row" "balanced m base"
  shows "balanced m (combine_row f row base)"
proof -
  let ?n = "length m"
  from b have row: "byte_row (2 * ?n) row" and base: "byte_row (2 * ?n) base"
    by (simp_all add: balanced_def)
  have "combine_row f row base ! j =
      xsum (\<lambda>i. gf_mul (combine_row f row base ! (?n + i)) (m ! i ! j)) ?n" if j: "j < ?n" for j
  proof -
    have "row ! j XOR gf_mul f (base ! j) = xsum (\<lambda>i. gf_mul (row ! (?n + i)) (m ! i ! j)
        XOR gf_mul f (gf_mul (base ! (?n + i)) (m ! i ! j))) ?n"
      using b j f by (simp add: balanced_def gf.mul_xsum xsum_xor)
    also have "\<dots> = xsum (\<lambda>i. gf_mul (row ! (?n + i) XOR gf_mul f (base ! (?n + i))) (m ! i ! j)) ?n"
    proof (rule xsum_cong)
      fix i assume "i < ?n"
      then have "row ! (?n + i) < 256" "base ! (?n + i) < 256" "m ! i ! j < 256"
        using row base m j by (auto intro: byte_rowD squareD)
      with f show "gf_mul (row ! (?n + i)) (m ! i ! j) XOR gf_mul f (gf_mul (base ! (?n + i)) (m ! i ! j)) =
          gf_mul (row ! (?n + i) XOR gf_mul f (base ! (?n + i))) (m ! i ! j)"
        by (simp add: gf.xor_mul gf_mul_assoc)
    qed
    finally show ?thesis
      using j row base by (simp add: byte_rowD(2) cong: xsum_cong)
  qed
  with row base show ?thesis by (simp add: balanced_def)
qed

lemma dotx_scale:
  assumes "byte_row k row" "n \<le> k" "a < 256" "\<And>j. v j < 256"
  shows "dotx n (scale_row a row) v = gf_mul (dotx n row v) a"
proof -
  have "dotx n (scale_row a row) v = xsum (\<lambda>j. gf_mul (gf_mul (row ! j) (v j)) a) n"
    unfolding dotx_def
  proof (rule xsum_cong)
    fix j assume "j < n"
    with assms have "row ! j < 256" "j < length row" by (auto simp: byte_rowD)
    with assms(3,4) show "gf_mul (scale_row a row ! j) (v j) = gf_mul (gf_mul (row ! j) (v j)) a"
      by (simp add: gf_mul_assoc gf_mul_commute [of a])
  qed
  also have "\<dots> = gf_mul (dotx n row v) a" using assms(3) by (simp add: dotx_def gf.xsum_mul)
  finally show ?thesis .
qed

lemma dotx_combine:
  assumes "byte_row k row" "byte_row k base" "n \<le> k" "f < 256" "\<And>j. v j < 256"
  shows "dotx n (combine_row f row base) v = dotx n row v XOR gf_mul f (dotx n base v)"
proof -
  have "dotx n (combine_row f row base) v =
      xsum (\<lambda>j. gf_mul (row ! j) (v j) XOR gf_mul f (gf_mul (base ! j) (v j))) n"
    unfolding dotx_def
  proof (rule xsum_cong)
    fix j assume "j < n"
    with assms have "row ! j < 256" "base ! j < 256" "j < length row" "j < length base"
      by (auto simp: byte_rowD)
    with assms(4,5) show "gf_mul (combine_row f row base ! j) (v j) =
        gf_mul (row ! j) (v j) XOR gf_mul f (gf_mul (base ! j) (v j))"
      by (simp add: gf.xor_mul gf_mul_assoc)
  qed
  also have "\<dots> = dotx n row v XOR gf_mul f (dotx n base v)"
    using assms(4) by (simp add: dotx_def xsum_xor gf.mul_xsum)
  finally show ?thesis .
qed

lemma dotx_less: "dotx n row v < 256"
  by (simp add: dotx_def xsum_less)

subsection \<open>One column\<close>

lemma eliminate_row_length [simp]: "length (eliminate_row c rows r) = length rows"
  by (simp add: eliminate_row_def Let_def)

lemma eliminate_rows_length [simp]: "length (foldl (eliminate_row c) rows rs) = length rows"
  by (induction rs arbitrary: rows) simp_all

lemma eliminate_rows_nth:
  "k \<le> length rows \<Longrightarrow> c < length rows \<Longrightarrow> r < length rows \<Longrightarrow>
   foldl (eliminate_row c) rows [0..<k] ! r =
     (if r < k \<and> r \<noteq> c \<and> rows ! r ! c \<noteq> 0 then combine_row (rows ! r ! c) (rows ! r) (rows ! c)
      else rows ! r)"
proof (induction k arbitrary: r)
  case (Suc k)
  let ?E = "foldl (eliminate_row c) rows [0..<k]"
  have E: "?E ! c = rows ! c" "?E ! k = rows ! k" using Suc.IH [of c] Suc.IH [of k] Suc.prems by auto
  have "foldl (eliminate_row c) rows [0..<Suc k] = eliminate_row c ?E k" by simp
  then have "foldl (eliminate_row c) rows [0..<Suc k] ! r =
      (if k \<noteq> c \<and> rows ! k ! c \<noteq> 0 \<and> r = k then combine_row (rows ! k ! c) (rows ! k) (rows ! c)
       else ?E ! r)"
    using E Suc.prems by (simp add: eliminate_row_def Let_def combine_row_def nth_list_update)
  with Suc.IH [of r] Suc.prems show ?case by (auto simp: less_Suc_eq)
qed simp

definition unit_columns :: "nat \<Rightarrow> nat list list \<Rightarrow> bool" where
  "unit_columns c rows \<longleftrightarrow> (\<forall>j < c. \<forall>r < length rows. rows ! r ! j = (if r = j then 1 else 0))"

definition reduced :: "nat list list \<Rightarrow> nat \<Rightarrow> nat list list \<Rightarrow> bool" where
  "reduced m c rows \<longleftrightarrow>
     length rows = length m \<and> list_all (balanced m) rows \<and> unit_columns c rows"

definition same_kernel :: "nat \<Rightarrow> nat list list \<Rightarrow> nat list list \<Rightarrow> bool" where
  "same_kernel n rows rows' \<longleftrightarrow> (\<forall>v. (\<forall>j. v j < 256) \<longrightarrow> kernel n rows v = kernel n rows' v)"

lemma kernel_set: "kernel n rows v \<longleftrightarrow> (\<forall>row \<in> set rows. dotx n row v = 0)"
  by (simp add: kernel_def all_set_conv_all_nth)

lemma balanced_byte_row: "balanced m row \<Longrightarrow> byte_row (2 * length m) row"
  by (simp add: balanced_def)

lemma reducedD:
  assumes "reduced m c rows"
  shows "length rows = length m" "list_all (balanced m) rows" "unit_columns c rows"
    "r < length m \<Longrightarrow> byte_row (2 * length m) (rows ! r)"
  using assms by (auto simp: reduced_def list_all_length balanced_byte_row)

lemma swap_rows_props:
  assumes red: "reduced m c rows" and c: "c \<le> p" "p < length m"
  shows "reduced m c (swap_rows c p rows)" "same_kernel n rows (swap_rows c p rows)"
    "swap_rows c p rows ! c = rows ! p"
proof -
  have "c < length rows" "p < length rows" using c reducedD(1) [OF red] by auto
  then have sets: "set (swap_rows c p rows) = set rows" unfolding swap_rows_def by (rule set_swap)
  then show "same_kernel n rows (swap_rows c p rows)" by (simp add: same_kernel_def kernel_set)
  from sets reducedD(2) [OF red] have "list_all (balanced m) (swap_rows c p rows)"
    by (simp add: list_all_iff)
  moreover have "unit_columns c (swap_rows c p rows)"
    using red c by (auto simp: reduced_def unit_columns_def swap_rows_def nth_list_update)
  ultimately show "reduced m c (swap_rows c p rows)"
    using reducedD(1) [OF red] by (simp add: reduced_def swap_rows_def)
  show "swap_rows c p rows ! c = rows ! p"
    using red c by (simp add: swap_rows_def nth_list_update reducedD(1))
qed

lemma scale_props:
  assumes m: "square m" and red: "reduced m c rows" and c: "c < length m" and a: "0 < a" "a < 256"
  shows "reduced m c (rows[c := scale_row a (rows ! c)])"
    "same_kernel (length m) rows (rows[c := scale_row a (rows ! c)])"
proof -
  note len = reducedD(1) [OF red] and row = reducedD(4) [OF red c]
  have "balanced m (scale_row a (rows ! c))"
    using red c m a by (intro balanced_scale) (auto simp: reduced_def list_all_length)
  then have "list_all (balanced m) (rows[c := scale_row a (rows ! c)])"
    using red c by (simp add: reduced_def list_all_length nth_list_update)
  moreover have "unit_columns c (rows[c := scale_row a (rows ! c)])"
    using red c row a
    by (auto simp: reduced_def unit_columns_def nth_list_update byte_rowD(2) gf.mul_zero_left)
  ultimately show "reduced m c (rows[c := scale_row a (rows ! c)])"
    using len by (simp add: reduced_def)
  have "dotx (length m) (scale_row a (rows ! c)) v = 0 \<longleftrightarrow> dotx (length m) (rows ! c) v = 0"
    if v: "\<forall>j. v j < 256" for v
    using row v a by (subst dotx_scale [where k = "2 * length m"]) (simp_all add: gf.mul_eq_0 dotx_less)
  then show "same_kernel (length m) rows (rows[c := scale_row a (rows ! c)])"
    using len c by (auto simp: same_kernel_def kernel_def nth_list_update)
qed

lemma eliminate_props:
  assumes m: "square m" and red: "reduced m c rows" and c: "c < length m" and one: "rows ! c ! c = 1"
  shows "reduced m (Suc c) (foldl (eliminate_row c) rows [0..<length m])" (is "reduced m _ ?E")
    "same_kernel (length m) rows (foldl (eliminate_row c) rows [0..<length m])"
proof -
  note len = reducedD(1) [OF red] and row = reducedD(4) [OF red]
  have E: "?E ! r = (if r \<noteq> c \<and> rows ! r ! c \<noteq> 0
      then combine_row (rows ! r ! c) (rows ! r) (rows ! c) else rows ! r)" if "r < length m" for r
    using that c len by (simp add: eliminate_rows_nth)
  have f: "rows ! r ! c < 256" if "r < length m" for r
    using row [OF that] c by (simp add: byte_rowD(1))
  have bal: "balanced m (rows ! r)" if "r < length m" for r
    using red that by (simp add: reduced_def list_all_length)
  have lens: "j < length (rows ! r)" if "r < length m" "j < length m" for r j
    using row [OF that(1)] that by (simp add: byte_rowD(2))
  have "list_all (balanced m) ?E"
    using E f bal c len m by (simp add: list_all_length balanced_combine)
  moreover have "unit_columns (Suc c) ?E"
  proof (unfold unit_columns_def, intro allI impI)
    fix j r
    assume "j < Suc c" and "r < length ?E"
    then have r: "r < length m" and j: "j < length m" "j = c \<or> j < c" using len c by auto
    have *: "j < c \<Longrightarrow> rows ! q ! j = (if q = j then 1 else 0)" if "q < length m" for q
      using red that by (auto simp: reduced_def unit_columns_def)
    have "gf_mul (rows ! r ! c) 1 = rows ! r ! c"
      using gf_mul_commute [of "rows ! r ! c" 1] f [OF r] gf_mul_1 by simp
    then show "?E ! r ! j = (if r = j then 1 else 0)"
      using E [OF r] j(2) * [OF r] * [OF c] one lens [OF r j(1)] lens [OF c j(1)] by auto
  qed
  ultimately show "reduced m (Suc c) ?E" using len by (simp add: reduced_def)
  have "kernel (length m) ?E v \<longleftrightarrow> kernel (length m) rows v" if v: "\<And>j. v j < 256" for v
  proof -
    have d: "dotx (length m) (?E ! r) v = (if r \<noteq> c \<and> rows ! r ! c \<noteq> 0
        then dotx (length m) (rows ! r) v XOR gf_mul (rows ! r ! c) (dotx (length m) (rows ! c) v)
        else dotx (length m) (rows ! r) v)" if r: "r < length m" for r
      using E [OF r] dotx_combine [OF row [OF r] row [OF c] _ f [OF r] v, of "length m"] by simp
    show ?thesis
    proof
      assume k: "kernel (length m) ?E v"
      then have z: "dotx (length m) (?E ! r) v = 0" if "r < length m" for r
        using that len by (simp add: kernel_def)
      from z [OF c] d [OF c] have "dotx (length m) (rows ! c) v = 0" by simp
      then have "dotx (length m) (?E ! r) v = dotx (length m) (rows ! r) v" if "r < length m" for r
        using d [OF that] by simp
      with z show "kernel (length m) rows v" using len by (simp add: kernel_def)
    next
      assume "kernel (length m) rows v"
      with c d len show "kernel (length m) ?E v" by (simp add: kernel_def)
    qed
  qed
  then show "same_kernel (length m) rows ?E" by (simp add: same_kernel_def)
qed

lemma eliminate_column_Inr:
  assumes m: "square m" and red: "reduced m c rows" and c: "c < length m"
    and step: "eliminate_column c rows = Inr rows'"
  shows "reduced m (Suc c) rows'" "same_kernel (length m) rows rows'"
proof -
  note len = reducedD(1) [OF red]
  from step obtain p where "find (\<lambda>row. rows ! row ! c \<noteq> 0) [c..<length rows] = Some p"
    by (auto simp: eliminate_column_def split: option.splits)
  then have p: "c \<le> p" "p < length m" "rows ! p ! c \<noteq> 0"
    using len by (auto simp: find_Some_iff)
  let ?S = "swap_rows c p rows" and ?a = "gf_pow (rows ! p ! c) 254"
  note S = swap_rows_props [OF red p(1,2)]
  have lt: "rows ! p ! c < 256" using reducedD(4) [OF red p(2)] c by (simp add: byte_rowD(1))
  have a: "0 < ?a" "?a < 256" using p(3) lt by (auto intro: gf.inv_nonzero gf.inv_less)
  let ?T = "?S[c := scale_row ?a (?S ! c)]"
  note T = scale_props [OF m S(1) c a]
  have "c < length (rows ! p)" using reducedD(4) [OF red p(2)] c by (simp add: byte_rowD(2))
  then have "?T ! c ! c = 1"
    using c S(3) lt p(3) reducedD(1) [OF S(1)] by (simp add: gf_inverse)
  note E = eliminate_props [OF m T(1) c this]
  have "rows' = foldl (eliminate_row c) ?T [0..<length m]"
    using step p len S(3) \<open>find _ _ = Some p\<close>
    by (simp add: eliminate_column_def gf_inv_def scale_row_def Let_def)
  with E S(2) [of "length m"] T(2) show "reduced m (Suc c) rows'" "same_kernel (length m) rows rows'"
    by (simp_all add: same_kernel_def)
qed

text \<open>Where no pivot is left, the rows above give a solution of the homogeneous system.\<close>

lemma eliminate_column_Inl:
  assumes red: "reduced m c rows" and c: "c < length m" and step: "eliminate_column c rows = Inl e"
  shows "\<exists>v. (\<forall>j. v j < 256) \<and> v c = 1 \<and> kernel (length m) rows v"
    "e = AvailabilityError ''erasure matrix is singular''"
proof -
  note len = reducedD(1) [OF red]
  have none: "find (\<lambda>row. rows ! row ! c \<noteq> 0) [c..<length rows] = None"
  proof (rule ccontr)
    assume "find (\<lambda>row. rows ! row ! c \<noteq> 0) [c..<length rows] \<noteq> None"
    then obtain p where p: "find (\<lambda>row. rows ! row ! c \<noteq> 0) [c..<length rows] = Some p" by auto
    then have "c \<le> p" "p < length m" "rows ! p ! c \<noteq> 0" using len by (auto simp: find_Some_iff)
    with swap_rows_props(3) [OF red] p step show False
      by (simp add: eliminate_column_def gf_inv_def Let_def)
  qed
  with step show "e = AvailabilityError ''erasure matrix is singular''"
    by (simp add: eliminate_column_def)
  from none len have zero: "rows ! r ! c = 0" if "c \<le> r" "r < length m" for r
    using that by (auto simp: find_None_iff)
  define v where "v j = (if j < c then rows ! j ! c else if j = c then 1 else 0)" for j
  have lt: "rows ! r ! c < 256" if "r < length m" for r
    using reducedD(4) [OF red that] c by (simp add: byte_rowD(1))
  have "dotx (length m) (rows ! r) v = 0" if r: "r < length m" for r
  proof -
    have unit: "rows ! r ! j = (if r = j then 1 else 0)" if "j < c" for j
      using red r that by (simp add: reduced_def unit_columns_def)
    have "dotx (length m) (rows ! r) v =
        xsum (\<lambda>j. (if j = r then (if r < c then rows ! r ! c else 0) else 0) XOR
                  (if j = c then rows ! r ! c else 0)) (length m)"
      unfolding dotx_def
    proof (rule xsum_cong)
      fix j
      assume "j < length m"
      show "gf_mul (rows ! r ! j) (v j) = (if j = r then (if r < c then rows ! r ! c else 0) else 0) XOR
          (if j = c then rows ! r ! c else 0)"
        using unit [of j] lt [of r] lt [of j] r c gf_mul_commute [of "rows ! r ! c" 1] zero [of r]
          gf_mul_1 [of "rows ! r ! c"] by (cases j c rule: linorder_cases) (auto simp: v_def)
    qed
    also have "\<dots> = (if r < c then rows ! r ! c else 0) XOR rows ! r ! c"
      using r c by (simp add: xsum_xor xsum_single)
    also have "\<dots> = 0" using zero [of r] r by simp
    finally show ?thesis .
  qed
  then have "kernel (length m) rows v" using len by (simp add: kernel_def)
  moreover have "\<forall>j. v j < 256" "v c = 1" using lt c by (auto simp: v_def)
  ultimately show "\<exists>v. (\<forall>j. v j < 256) \<and> v c = 1 \<and> kernel (length m) rows v" by blast
qed

subsection \<open>The inverse\<close>

text \<open>\<open>product_row\<close>: entry \<open>j\<close> of the row vector \<open>row\<close> times the matrix.\<close>

definition product_entry :: "nat \<Rightarrow> nat list \<Rightarrow> nat list list \<Rightarrow> nat \<Rightarrow> nat" where
  "product_entry n row m j = xsum (\<lambda>i. gf_mul (row ! i) (m ! i ! j)) n"

definition singular :: "nat list list \<Rightarrow> bool" where
  "singular m \<longleftrightarrow>
     (\<exists>v. (\<forall>j. v j < 256) \<and> (\<exists>j < length m. v j \<noteq> 0) \<and> kernel (length m) m v)"

lemma augment_reduced: "square m \<Longrightarrow> reduced m 0 (augment m)"
proof -
  assume m: "square m"
  have "balanced m (m ! r @ identity_row (length m) r)" if r: "r < length m" for r
  proof -
    have row: "byte_row (length m) (m ! r)" using m r by (simp add: square_def list_all_length)
    then have "byte_row (2 * length m) (m ! r @ identity_row (length m) r)"
      by (auto simp: byte_row_def identity_row_def list_all_iff)
    moreover have "(m ! r @ identity_row (length m) r) ! j =
        xsum (\<lambda>i. gf_mul ((m ! r @ identity_row (length m) r) ! (length m + i)) (m ! i ! j)) (length m)"
      if j: "j < length m" for j
    proof -
      have "xsum (\<lambda>i. gf_mul ((m ! r @ identity_row (length m) r) ! (length m + i)) (m ! i ! j)) (length m)
          = xsum (\<lambda>i. gf_mul (if r = i then 1 else 0) (m ! i ! j)) (length m)"
        using row by (intro xsum_cong) (simp add: byte_row_def identity_row_def nth_append)
      also have "\<dots> = gf_mul 1 (m ! r ! j)"
        using r squareD [OF m _ j] by (subst xsum_unit [OF r]) (auto simp: gf.mul_zero_left)
      also have "\<dots> = m ! r ! j" using squareD [OF m r j] by (rule gf_mul_1)
      finally show ?thesis using row j by (simp add: byte_row_def nth_append)
    qed
    ultimately show ?thesis by (simp add: balanced_def)
  qed
  then show ?thesis by (simp add: reduced_def augment_def list_all_length unit_columns_def)
qed

lemma augment_kernel: "square m \<Longrightarrow> same_kernel (length m) m (augment m)"
proof -
  assume m: "square m"
  have "dotx (length m) (augment m ! r) v = dotx (length m) (m ! r) v" if "r < length m" for r v
    using m that unfolding dotx_def
    by (intro xsum_cong) (simp add: augment_def nth_append square_def list_all_length byte_row_def)
  then show ?thesis by (simp add: same_kernel_def kernel_def augment_def)
qed

lemma eliminate_columns_Inr:
  "square m \<Longrightarrow> reduced m c rows \<Longrightarrow> c \<le> length m \<Longrightarrow>
   eliminate_columns [c..<length m] rows = Inr rows' \<Longrightarrow> reduced m (length m) rows'"
proof (induction "length m - c" arbitrary: c rows)
  case (Suc k)
  then have c: "c < length m" by simp
  with Suc.prems obtain rows1 where 1: "eliminate_column c rows = Inr rows1"
    "eliminate_columns [Suc c..<length m] rows1 = Inr rows'"
    by (auto simp: upt_conv_Cons bindE_Inr_iff)
  have "k = length m - Suc c" "Suc c \<le> length m" using Suc.hyps(2) c by auto
  with eliminate_column_Inr(1) [OF Suc.prems(1,2) c 1(1)] Suc.hyps(1) Suc.prems(1) 1(2)
  show ?case by blast
qed simp

lemma eliminate_columns_Inl:
  "square m \<Longrightarrow> reduced m c rows \<Longrightarrow> c \<le> length m \<Longrightarrow> same_kernel (length m) m rows \<Longrightarrow>
   eliminate_columns [c..<length m] rows = Inl e \<Longrightarrow>
   singular m \<and> e = AvailabilityError ''erasure matrix is singular''"
proof (induction "length m - c" arbitrary: c rows)
  case (Suc k)
  then have c: "c < length m" by simp
  show ?case
  proof (cases "eliminate_column c rows")
    case (Inl e')
    with Suc.prems(5) c have "e' = e" by (simp add: upt_conv_Cons)
    with eliminate_column_Inl [OF Suc.prems(2) c Inl] obtain v where
      v: "\<forall>j. v j < 256" "v c = 1" "kernel (length m) rows v" and e: "e = AvailabilityError ''erasure matrix is singular''"
      by blast
    from v(1,3) Suc.prems(4) have "kernel (length m) m v" by (simp add: same_kernel_def)
    with v(1,2) c have "singular m" unfolding singular_def by (intro exI [of _ v]) auto
    with e show ?thesis by simp
  next
    case (Inr rows1)
    note step = eliminate_column_Inr [OF Suc.prems(1,2) c Inr]
    have "same_kernel (length m) m rows1" using step(2) Suc.prems(4) by (simp add: same_kernel_def)
    moreover have "eliminate_columns [Suc c..<length m] rows1 = Inl e"
      using Inr Suc.prems(5) c by (simp add: upt_conv_Cons)
    moreover have "k = length m - Suc c" "Suc c \<le> length m" using Suc.hyps(2) c by auto
    ultimately show ?thesis using Suc.hyps(1) Suc.prems(1) step(1) by blast
  qed
qed simp

definition inverse_of :: "nat list list \<Rightarrow> nat list list \<Rightarrow> bool" where
  "inverse_of m r \<longleftrightarrow> length r = length m \<and> list_all (byte_row (length m)) r \<and>
     (\<forall>i < length m. \<forall>j < length m. product_entry (length m) (r ! i) m j = (if i = j then 1 else 0))"

lemma square_guard: "square m \<Longrightarrow> list_all (\<lambda>row. length row = length m) m"
  by (simp add: square_def list_all_iff byte_row_def)

lemma matrix_inverse_Inr:
  assumes m: "square m" and inv: "matrix_inverse m = Inr r"
  shows "inverse_of m r"
proof -
  from inv obtain rows where rows: "eliminate_columns [0..<length m] (augment m) = Inr rows"
    and r: "r = map (drop (length m)) rows"
    by (auto simp: matrix_inverse_def Let_def bindE_Inr_iff split: if_splits)
  have red: "reduced m (length m) rows"
    by (rule eliminate_columns_Inr [OF m augment_reduced [OF m] _ rows]) simp
  note len = reducedD(1) [OF red]
  have entry: "product_entry (length m) (r ! i) m j = rows ! i ! j" if "i < length m" "j < length m" for i j
  proof -
    have "balanced m (rows ! i)" using red that by (simp add: reduced_def list_all_length)
    moreover have "length (rows ! i) = 2 * length m"
      using reducedD(4) [OF red that(1)] by (simp add: byte_row_def)
    ultimately show ?thesis
      using that len by (simp add: r balanced_def product_entry_def cong: xsum_cong)
  qed
  have "byte_row (length m) (drop (length m) (rows ! i))" if "i < length m" for i
    using reducedD(4) [OF red that] by (simp add: byte_row_def list_all_length)
  then have "list_all (byte_row (length m)) r" using len by (simp add: r list_all_length)
  with entry red len show ?thesis by (simp add: inverse_of_def r reduced_def unit_columns_def)
qed

lemma matrix_inverse_Inl:
  assumes m: "square m" "m \<noteq> []" and inv: "matrix_inverse m = Inl e"
  shows "singular m \<and> e = AvailabilityError ''erasure matrix is singular''"
proof -
  have "eliminate_columns [0..<length m] (augment m) = Inl e"
    using inv m(2) square_guard [OF m(1)] unfolding matrix_inverse_def Let_def
    by (cases "eliminate_columns [0..<length m] (augment m)") simp_all
  from eliminate_columns_Inl [OF m(1) augment_reduced [OF m(1)] _ augment_kernel [OF m(1)] this]
  show ?thesis by simp
qed

text \<open>An invertible matrix has a trivial kernel.\<close>

lemma inverse_solves:
  assumes m: "square m" and r: "inverse_of m r" and v: "\<And>j. v j < 256" and i: "i < length m"
  shows "xsum (\<lambda>j. gf_mul (r ! i ! j) (dotx (length m) (m ! j) v)) (length m) = v i"
proof -
  have ri: "r ! i ! j < 256" if "j < length m" for j
    using r i that by (auto simp: inverse_of_def list_all_length intro: byte_rowD(1))
  have "xsum (\<lambda>j. gf_mul (r ! i ! j) (dotx (length m) (m ! j) v)) (length m) =
      xsum (\<lambda>j. gf_mul (product_entry (length m) (r ! i) m j) (v j)) (length m)"
    unfolding dotx_def product_entry_def
    by (rule gf.mul_xsum_xsum) (use ri m v in \<open>auto intro: squareD\<close>)
  also have "\<dots> = xsum (\<lambda>j. gf_mul (if i = j then 1 else 0) (v j)) (length m)"
    using r i by (intro xsum_cong) (simp add: inverse_of_def)
  also have "\<dots> = v i"
    using i v gf_mul_1 [OF v] by (subst xsum_unit [OF i]) (auto simp: gf.mul_zero_left)
  finally show ?thesis .
qed

lemma inverse_not_singular: "square m \<Longrightarrow> inverse_of m r \<Longrightarrow> \<not> singular m"
proof
  assume m: "square m" and r: "inverse_of m r" and "singular m"
  then obtain v j where v: "\<forall>j. v j < 256" "kernel (length m) m v" and j: "j < length m" "v j \<noteq> 0"
    by (auto simp: singular_def)
  have "v j = xsum (\<lambda>i. gf_mul (r ! j ! i) (dotx (length m) (m ! i) v)) (length m)"
    using inverse_solves [OF m r _ j(1)] v(1) by simp
  also have "\<dots> = xsum (\<lambda>i. 0) (length m)"
    using v(2) by (intro xsum_cong) (simp add: kernel_def)
  finally show False using j(2) by simp
qed

lemma matrix_inverse_decides:
  assumes "square m" "m \<noteq> []"
  shows "matrix_inverse m =
    (if singular m then Inl (AvailabilityError ''erasure matrix is singular'') else matrix_inverse m)"
    "is_ok (matrix_inverse m) = (\<not> singular m)"
proof -
  have "\<not> singular m" if "matrix_inverse m = Inr r" for r
    using inverse_not_singular [OF assms(1) matrix_inverse_Inr [OF assms(1) that]] .
  with matrix_inverse_Inl [OF assms] show "matrix_inverse m =
    (if singular m then Inl (AvailabilityError ''erasure matrix is singular'') else matrix_inverse m)"
    "is_ok (matrix_inverse m) = (\<not> singular m)"
    by (cases "matrix_inverse m"; fastforce)+
qed

end
