(* ===== verification/Erasure.thy ===== *)
theory Erasure
  imports Gf_Matrix
begin

section \<open>Erasure coding and availability (mosaic/availability.py)\<close>

text \<open>
  Attestations and certificates of availability, shards, sampling proofs, the codec and the
  provider's store. Byte strings are \<open>string\<close>; the matrix code reads a byte as a \<open>nat\<close>. Shard
  indices and counts arrive from the network, so they are \<open>int\<close>. \<open>availability_error\<close> carries
  \<open>AvailabilityError\<close>, the exceptions of the standard operations the code performs and
  the \<open>MosaicError\<close> of \<open>Member.public_key\<close>, which \<open>AvailabilityCertificate.verify\<close> does not catch.
\<close>

subsection \<open>Attestations and certificates\<close>

record attestation =
  at_object_id :: string
  at_content_digest :: string
  at_shard_index :: int
  at_epoch :: int
  at_provider_id :: string
  at_signature :: string

definition attestation_statement :: "attestation \<Rightarrow> json" where
  "attestation_statement a = JObj
     [(''protocol'', JStr ''MOSAIC/AVAILABILITY-ATTEST/v1''),
      (''object_id'', JStr (at_object_id a)), (''content_digest'', JStr (at_content_digest a)),
      (''shard_index'', JInt (at_shard_index a)), (''epoch'', JInt (at_epoch a)),
      (''provider_id'', JStr (at_provider_id a))]"

definition attestation_create ::
  "crypto \<Rightarrow> member \<Rightarrow> string \<Rightarrow> string \<Rightarrow> int \<Rightarrow> int \<Rightarrow> availability_error + attestation" where
  "attestation_create cr m oid cd idx ep =
     (case member_keypair m of
        None \<Rightarrow> Inl (AvailabilityError ''provider private key is not loaded'')
      | Some kp \<Rightarrow>
          if idx < 0 \<or> ep < 0 then Inl (AvailabilityError ''invalid shard or epoch'')
          else let unsigned = JObj
              [(''protocol'', JStr ''MOSAIC/AVAILABILITY-ATTEST/v1''),
               (''object_id'', JStr oid), (''content_digest'', JStr cd),
               (''shard_index'', JInt idx), (''epoch'', JInt ep),
               (''provider_id'', JStr (member_id m))]
            in Inr \<lparr>at_object_id = oid, at_content_digest = cd, at_shard_index = idx, at_epoch = ep,
                    at_provider_id = member_id m,
                    at_signature = sign cr kp (canonical_bytes unsigned)\<rparr>)"

definition attestation_verify ::
  "crypto \<Rightarrow> (string, member) dict \<Rightarrow> attestation \<Rightarrow> availability_error + bool" where
  "attestation_verify cr members a =
     (case map_of members (at_provider_id a) of
        None \<Rightarrow> Inr False
      | Some m \<Rightarrow>
          if at_object_id a = [] \<or> at_content_digest a = [] \<or> at_shard_index a < 0 \<or> at_epoch a < 0
          then Inr False
          else (case member_public_key cr m of
                  Inl e \<Rightarrow> Inl (AvMosaicError e)
                | Inr pk \<Rightarrow> Inr (verify cr pk (canonical_bytes (attestation_statement a)) (at_signature a))))"

record av_certificate =
  avc_object_id :: string
  avc_content_digest :: string
  avc_epoch :: int
  avc_attestations :: "attestation list"
  avc_total_weight :: int
  avc_certificate_id :: string

definition av_certificate_create ::
  "crypto \<Rightarrow> attestation list \<Rightarrow> (string, member) dict \<Rightarrow> int
   \<Rightarrow> availability_error + av_certificate" where
  "av_certificate_create cr attestations members threshold =
     (if attestations = [] then Inl (AvailabilityError ''availability certificate cannot be empty'')
      else let unique = dict_of at_provider_id attestations in
      if length unique \<noteq> length attestations
      then Inl (AvailabilityError ''duplicate availability provider'')
      else let first = hd attestations in
      bindE (allE (\<lambda>item.
          if at_object_id item \<noteq> at_object_id first
             \<or> at_content_digest item \<noteq> at_content_digest first
             \<or> at_epoch item \<noteq> at_epoch first then Inr False
          else attestation_verify cr members item) attestations) (\<lambda>valid.
      if \<not> valid then Inl (AvailabilityError ''invalid or mismatched availability attestation'')
      else let total_weight =
          sum_list (map (\<lambda>provider_id. weight (the (map_of members provider_id))) (dict_keys unique)) in
      if total_weight < threshold then Inl (AvailabilityError ''insufficient availability weight'')
      else let ordered = sort_key at_provider_id attestations;
        certificate_id = digest cr (JObj
          [(''protocol'', JStr ''MOSAIC/AVAILABILITY-CERT/v1''),
           (''object_id'', JStr (at_object_id first)),
           (''content_digest'', JStr (at_content_digest first)),
           (''epoch'', JInt (at_epoch first)),
           (''attestations'', JArr (map (\<lambda>item. JObj
              [(''provider_id'', JStr (at_provider_id item)),
               (''shard_index'', JInt (at_shard_index item)),
               (''signature'', JStr (hex (at_signature item)))]) ordered)),
           (''total_weight'', JInt total_weight)])
      in Inr \<lparr>avc_object_id = at_object_id first, avc_content_digest = at_content_digest first,
              avc_epoch = at_epoch first, avc_attestations = ordered,
              avc_total_weight = total_weight, avc_certificate_id = certificate_id\<rparr>))"

definition av_certificate_verify ::
  "crypto \<Rightarrow> av_certificate \<Rightarrow> (string, member) dict \<Rightarrow> int \<Rightarrow> availability_error + bool" where
  "av_certificate_verify cr c members threshold =
     (case av_certificate_create cr (avc_attestations c) members threshold of
        Inl (AvailabilityError _) \<Rightarrow> Inr False
      | Inl e \<Rightarrow> Inl e
      | Inr rebuilt \<Rightarrow> Inr
          (avc_object_id rebuilt = avc_object_id c \<and> avc_content_digest rebuilt = avc_content_digest c
           \<and> avc_epoch rebuilt = avc_epoch c \<and> avc_total_weight rebuilt = avc_total_weight c
           \<and> avc_certificate_id rebuilt = avc_certificate_id c))"

subsection \<open>Shards and sampling proofs\<close>

record shard =
  sh_object_id :: string
  sh_content_digest :: string
  sh_shard_index :: int
  sh_total_shards :: int
  sh_data_shards :: int
  sh_payload :: string
  sh_shard_digest :: string

definition shard_statement :: "string \<Rightarrow> json" where
  "shard_statement payload =
     JObj [(''protocol'', JStr ''MOSAIC/ERASURE-SHARD/v1''), (''payload'', JStr (hex payload))]"

definition shard_create ::
  "crypto \<Rightarrow> string \<Rightarrow> string \<Rightarrow> int \<Rightarrow> int \<Rightarrow> int \<Rightarrow> string \<Rightarrow> shard" where
  "shard_create cr oid cd idx n k payload =
     \<lparr>sh_object_id = oid, sh_content_digest = cd, sh_shard_index = idx, sh_total_shards = n,
      sh_data_shards = k, sh_payload = payload,
      sh_shard_digest = digest cr (shard_statement payload)\<rparr>"

definition shard_verify :: "crypto \<Rightarrow> shard \<Rightarrow> bool" where
  "shard_verify cr s =
     (sh_object_id s \<noteq> [] \<and> sh_content_digest s \<noteq> []
      \<and> 0 \<le> sh_shard_index s \<and> sh_shard_index s < sh_total_shards s
      \<and> 0 < sh_data_shards s \<and> sh_data_shards s \<le> sh_total_shards s
      \<and> sh_shard_digest s = digest cr (shard_statement (sh_payload s)))"

record sampling_proof =
  smp_object_id :: string
  smp_content_digest :: string
  sampled_indices :: "int list"
  shard_digests :: "string list"
  smp_proof_id :: string

definition sampling_statement :: "string \<Rightarrow> string \<Rightarrow> int list \<Rightarrow> string list \<Rightarrow> json" where
  "sampling_statement oid cd indices digests = JObj
     [(''protocol'', JStr ''MOSAIC/SAMPLING-PROOF/v1''), (''object_id'', JStr oid),
      (''content_digest'', JStr cd), (''sampled_indices'', JArr (map JInt indices)),
      (''shard_digests'', JArr (map JStr digests))]"

definition sampling_create ::
  "crypto \<Rightarrow> shard list \<Rightarrow> int list \<Rightarrow> availability_error + sampling_proof" where
  "sampling_create cr shards sample_indices =
     (let shard_map = dict_of sh_shard_index shards;
          indices = sort (remdups sample_indices) in
      if indices = [] \<or> \<not> list_all (has_key shard_map) indices
      then Inl (AvailabilityError ''sampling index is missing'')
      else let selected = map (\<lambda>index. the (map_of shard_map index)) indices in
      if \<not> list_all (shard_verify cr) selected
      then Inl (AvailabilityError ''sampling contains invalid shard'')
      else let first = hd selected in
      if \<not> list_all (\<lambda>item. sh_object_id item = sh_object_id first
             \<and> sh_content_digest item = sh_content_digest first) selected
      then Inl (AvailabilityError ''sampling shards do not match object'')
      else let digests = map sh_shard_digest selected
      in Inr \<lparr>smp_object_id = sh_object_id first, smp_content_digest = sh_content_digest first,
              sampled_indices = indices, shard_digests = digests,
              smp_proof_id = digest cr
                (sampling_statement (sh_object_id first) (sh_content_digest first) indices digests)\<rparr>)"

definition sampling_verify :: "crypto \<Rightarrow> sampling_proof \<Rightarrow> bool" where
  "sampling_verify cr p =
     (sampled_indices p \<noteq> []
      \<and> smp_proof_id p = digest cr (sampling_statement (smp_object_id p) (smp_content_digest p)
           (sampled_indices p) (shard_digests p))
      \<and> length (sampled_indices p) = length (shard_digests p))"

subsection \<open>The codec\<close>

record erasure_codec =
  data_shards :: int
  parity_shards :: int
  total_shards :: int

definition codec_init :: "int \<Rightarrow> int \<Rightarrow> availability_error + erasure_codec" where
  "codec_init data parity =
     (if data \<le> 0 \<or> parity \<le> 0
      then Inl (AvailabilityError ''data and parity shard counts must be positive'')
      else if 255 < data + parity
      then Inl (AvailabilityError ''GF(256) supports at most 255 shards'')
      else Inr \<lparr>data_shards = data, parity_shards = parity, total_shards = data + parity\<rparr>)"

definition matrix_row :: "nat \<Rightarrow> nat \<Rightarrow> nat list" where
  "matrix_row k row =
     (if row < k then map (\<lambda>column. if row = column then 1 else 0) [0..<k]
      else map (\<lambda>column. gf_pow (row + 1) column) [0..<k])"

definition codec_matrix :: "erasure_codec \<Rightarrow> nat list list" where
  "codec_matrix codec = map (matrix_row (nat (data_shards codec))) [0..<nat (total_shards codec)]"

text \<open>\<open>n.to_bytes(8, "big")\<close>, \<open>int.from_bytes(bs, "big")\<close> and the slices of
  \<open>range(0, len(padded), shard_size)\<close>.\<close>

definition frame_length :: "nat \<Rightarrow> availability_error + string" where
  "frame_length n =
     (if 2 ^ 64 \<le> n then Inl AvOverflowError
      else Inr (map (\<lambda>i. char_of (n div 256 ^ (7 - i))) [0..<8]))"

definition from_bytes :: "string \<Rightarrow> nat" where
  "from_bytes bs = foldl (\<lambda>acc c. acc * 256 + of_char c) 0 bs"

definition slices :: "nat \<Rightarrow> string \<Rightarrow> string list" where
  "slices sz bs = map (\<lambda>i. take sz (drop (i * sz) bs)) [0..<(length bs + sz - 1) div sz]"

definition object_statement :: "string \<Rightarrow> json" where
  "object_statement payload =
     JObj [(''protocol'', JStr ''MOSAIC/OBJECT-DATA/v1''), (''payload'', JStr (hex payload))]"

definition shard_size :: "erasure_codec \<Rightarrow> string \<Rightarrow> nat" where
  "shard_size codec framed = (length framed + nat (data_shards codec) - 1) div nat (data_shards codec)"

definition data_blocks :: "erasure_codec \<Rightarrow> string \<Rightarrow> string list" where
  "data_blocks codec framed =
     (let sz = shard_size codec framed;
          padded = framed @ replicate (sz * nat (data_shards codec) - length framed) (char_of (0::nat))
      in slices sz padded)"

definition encode ::
  "crypto \<Rightarrow> erasure_codec \<Rightarrow> string \<Rightarrow> string \<Rightarrow> availability_error + shard list" where
  "encode cr codec oid payload =
     (if oid = [] then Inl (AvailabilityError ''object id cannot be empty'')
      else let cd = digest cr (object_statement payload) in
      bindE (frame_length (length payload)) (\<lambda>frame.
      bindE (matrix_vector (codec_matrix codec) (data_blocks codec (frame @ payload))) (\<lambda>all_payloads.
      Inr (map (\<lambda>(index, item). shard_create cr oid cd (int index)
             (total_shards codec) (data_shards codec) item) (enumerate 0 all_payloads)))))"

definition select_shards :: "erasure_codec \<Rightarrow> shard list \<Rightarrow> shard list" where
  "select_shards codec shards =
     (let shard_map = dict_of sh_shard_index shards
      in map (\<lambda>index. the (map_of shard_map index))
           (take (nat (data_shards codec)) (sort (dict_keys shard_map))))"

definition decode_blocks ::
  "erasure_codec \<Rightarrow> shard list \<Rightarrow> availability_error + string list" where
  "decode_blocks codec selected =
     (let submatrix = map (\<lambda>item. codec_matrix codec ! nat (sh_shard_index item)) selected in
      bindE (matrix_inverse submatrix) (\<lambda>data_matrix.
        matrix_vector data_matrix (map sh_payload selected)))"

definition recover :: "crypto \<Rightarrow> erasure_codec \<Rightarrow> shard list \<Rightarrow> availability_error + string" where
  "recover cr codec shards =
     (if int (length (dict_of sh_shard_index shards)) < data_shards codec
      then Inl (AvailabilityError ''not enough shards for recovery'')
      else let selected = select_shards codec shards in
      if \<not> list_all (shard_verify cr) selected
      then Inl (AvailabilityError ''invalid shard in recovery set'')
      else let first = hd selected in
      if \<not> list_all (\<lambda>item. sh_object_id item = sh_object_id first
             \<and> sh_content_digest item = sh_content_digest first
             \<and> sh_total_shards item = total_shards codec
             \<and> sh_data_shards item = data_shards codec) selected
      then Inl (AvailabilityError ''incompatible shards'')
      else bindE (decode_blocks codec selected) (\<lambda>data_payloads.
        let framed = concat data_payloads;
            payload_size = from_bytes (take 8 framed);
            payload = take payload_size (drop 8 framed)
        in if digest cr (object_statement payload) \<noteq> sh_content_digest first
           then Inl (AvailabilityError ''recovered payload digest mismatch'')
           else Inr payload))"

definition codec_repair ::
  "crypto \<Rightarrow> erasure_codec \<Rightarrow> shard list \<Rightarrow> int list \<Rightarrow> availability_error + shard list" where
  "codec_repair cr codec available missing_indices =
     bindE (recover cr codec available) (\<lambda>payload.
     bindE (encode cr codec (sh_object_id (hd available)) payload) (\<lambda>encoded.
       let rebuilt = dict_of sh_shard_index encoded;
           missing = sort (remdups missing_indices)
       in if \<not> list_all (\<lambda>index. 0 \<le> index \<and> index < total_shards codec) missing
          then Inl (AvailabilityError ''repair index is outside shard set'')
          else Inr (map (\<lambda>index. the (map_of rebuilt index)) missing)))"

subsection \<open>The store of one provider\<close>

record availability_store =
  store_codec :: erasure_codec
  objects :: "(string, (int, shard) dict) dict"

type_synonym 'a store_run = "(availability_store, availability_error, 'a) outcome"

definition object_shards :: "availability_store \<Rightarrow> string \<Rightarrow> (int, shard) dict" where
  "object_shards st oid = (case map_of (objects st) oid of None \<Rightarrow> [] | Some d \<Rightarrow> d)"

definition publish :: "crypto \<Rightarrow> string \<Rightarrow> string \<Rightarrow> availability_store \<Rightarrow> shard list store_run" where
  "publish cr oid payload st =
     (case encode cr (store_codec st) oid payload of
        Inl e \<Rightarrow> (Inl e, st)
      | Inr shards \<Rightarrow>
          (Inr shards, st\<lparr>objects := AList.update oid (dict_of sh_shard_index shards) (objects st)\<rparr>))"

definition put_shard :: "crypto \<Rightarrow> shard \<Rightarrow> availability_store \<Rightarrow> unit store_run" where
  "put_shard cr s st =
     (if sh_total_shards s \<noteq> total_shards (store_codec st) \<or> sh_data_shards s \<noteq> data_shards (store_codec st)
      then (Inl (AvailabilityError ''shard codec parameters do not match store''), st)
      else if \<not> shard_verify cr s then (Inl (AvailabilityError ''invalid shard''), st)
      else let st1 = (if has_key (objects st) (sh_object_id s) then st
                      else st\<lparr>objects := AList.update (sh_object_id s) [] (objects st)\<rparr>);
               existing = object_shards st1 (sh_object_id s) in
      if existing \<noteq> [] \<and> sh_content_digest (snd (hd existing)) \<noteq> sh_content_digest s
      then (Inl (AvailabilityError ''object shard content digest mismatch''), st1)
      else (Inr (), st1\<lparr>objects := AList.update (sh_object_id s)
                            (AList.update (sh_shard_index s) s existing) (objects st1)\<rparr>))"

fun put_shards :: "crypto \<Rightarrow> shard list \<Rightarrow> availability_store \<Rightarrow> unit store_run" where
  "put_shards cr [] st = (Inr (), st)"
| "put_shards cr (s # ss) st = thenS (put_shard cr s) (\<lambda>_. put_shards cr ss) st"

definition store_shards :: "availability_store \<Rightarrow> string \<Rightarrow> shard list" where
  "store_shards st oid = dict_values (object_shards st oid)"

definition store_sample ::
  "crypto \<Rightarrow> availability_store \<Rightarrow> string \<Rightarrow> int list \<Rightarrow> availability_error + sampling_proof" where
  "store_sample cr st oid sample_indices = sampling_create cr (store_shards st oid) sample_indices"

definition store_recover :: "crypto \<Rightarrow> availability_store \<Rightarrow> string \<Rightarrow> availability_error + string" where
  "store_recover cr st oid = recover cr (store_codec st) (store_shards st oid)"

definition missing_shards :: "availability_store \<Rightarrow> string \<Rightarrow> int list" where
  "missing_shards st oid =
     (let present = dict_keys (object_shards st oid)
      in filter (\<lambda>index. index \<notin> set present)
           (map int [0..<nat (total_shards (store_codec st))]))"

definition store_repair ::
  "crypto \<Rightarrow> string \<Rightarrow> shard list option \<Rightarrow> availability_store \<Rightarrow> shard list store_run" where
  "store_repair cr oid source_shards st =
     (let source = (case source_shards of Some ss \<Rightarrow> ss | None \<Rightarrow> store_shards st oid);
          missing = missing_shards st oid in
      if missing = [] then (Inr [], st)
      else (case codec_repair cr (store_codec st) source missing of
              Inl e \<Rightarrow> (Inl e, st)
            | Inr repaired \<Rightarrow> thenS (put_shards cr repaired) (\<lambda>_ s. (Inr repaired, s)) st))"

definition available_weight :: "availability_store \<Rightarrow> string \<Rightarrow> (int, int) dict \<Rightarrow> int" where
  "available_weight st oid provider_weights =
     sum_list (map (\<lambda>index. case map_of provider_weights index of None \<Rightarrow> 0 | Some w \<Rightarrow> w)
       (dict_keys (object_shards st oid)))"

end
