(* ===== verification/Erasure_Codec.thy ===== *)
theory Erasure_Codec
  imports Erasure
begin

unbundle bit_operations_syntax

section \<open>The codec: what encoding produces and what decoding undoes\<close>

text \<open>
  The byte-level lemmas (framing, slicing, matrix products) and the two halves of the round trip:
  \<open>encode_returns\<close> gives every shard of an encoding, \<open>recover_encoded\<close> says what any selection of
  them decodes to. Which selections are invertible is in \<open>Erasure_Props\<close>.
\<close>

subsection \<open>Framing and slicing\<close>

lemma from_bytes_snoc: "from_bytes (bs @ [c]) = from_bytes bs * 256 + of_char c"
  by (simp add: from_bytes_def)

lemma from_bytes_prefix:
  "n < 256 ^ 8 \<Longrightarrow> j \<le> 8 \<Longrightarrow>
   from_bytes (map (\<lambda>i. char_of (n div 256 ^ (7 - i))) [0..<j]) = n div 256 ^ (8 - j)"
proof (induction j)
  case 0
  then show ?case by (simp add: from_bytes_def)
next
  case (Suc j)
  then have "(8::nat) - j = Suc (7 - j)" by simp
  then have "n div 256 ^ (8 - j) = n div 256 ^ (7 - j) div 256"
    by (simp add: div_mult2_eq mult.commute [of 256])
  with Suc show ?case by (simp add: from_bytes_snoc)
qed

lemma frame_length_Inr: "n < 2 ^ 64 \<Longrightarrow> \<exists>bs. frame_length n = Inr bs \<and> length bs = 8 \<and> from_bytes bs = n"
  using from_bytes_prefix [of n 8] by (simp add: frame_length_def)

lemma slices_props:
  assumes "0 < sz" "length bs = sz * k"
  shows "length (slices sz bs) = k" "concat (slices sz bs) = bs"
    "i < k \<Longrightarrow> length (slices sz bs ! i) = sz"
proof -
  have "(sz * k + (sz - 1)) div sz = k"
    using assms(1) div_mult_self2 [of sz "sz - 1" k] by (simp add: add.commute del: div_mult_self2)
  moreover have "length bs + sz - 1 = sz * k + (sz - 1)" using assms by simp
  ultimately have len: "(length bs + sz - 1) div sz = k" by (simp only:)
  then show "length (slices sz bs) = k" by (simp add: slices_def)
  have "concat (map (\<lambda>i. take sz (drop (i * sz) bs)) [0..<j]) = take (sz * j) bs" if "j \<le> k" for j
    using that
  proof (induction j)
    case (Suc j)
    have "take (sz * Suc j) bs = take (sz * j) bs @ take sz (drop (sz * j) bs)"
      by (simp only: mult_Suc_right add.commute [of sz] take_add)
    with Suc show ?case by (simp add: mult.commute)
  qed simp
  with len assms show "concat (slices sz bs) = bs" by (simp add: slices_def)
  assume i: "i < k"
  then have "sz * Suc i \<le> sz * k" by (simp only: mult_le_mono2 Suc_leI)
  then have "i * sz + sz \<le> length bs" using assms(2) by (simp add: mult.commute)
  with i len show "length (slices sz bs ! i) = sz" by (simp add: slices_def)
qed

lemma codec_init_Inr:
  "codec_init d p = Inr codec \<longleftrightarrow> 0 < d \<and> 0 < p \<and> d + p \<le> 255
     \<and> codec = \<lparr>data_shards = d, parity_shards = p, total_shards = d + p\<rparr>"
  by (auto simp: codec_init_def)

definition wf_codec :: "erasure_codec \<Rightarrow> bool" where
  "wf_codec codec \<longleftrightarrow> 0 < data_shards codec \<and> 0 < parity_shards codec
     \<and> total_shards codec = data_shards codec + parity_shards codec \<and> total_shards codec \<le> 255"

lemma codec_init_wf: "codec_init d p = Inr codec \<Longrightarrow> wf_codec codec"
  by (auto simp: codec_init_Inr wf_codec_def)

abbreviation dimension :: "erasure_codec \<Rightarrow> nat" where
  "dimension codec \<equiv> nat (data_shards codec)"

lemma data_blocks_props:
  assumes codec: "wf_codec codec" and ne: "framed \<noteq> []"
  shows "length (data_blocks codec framed) = dimension codec"
    "i < dimension codec \<Longrightarrow> length (data_blocks codec framed ! i) = shard_size codec framed"
    "\<exists>pad. concat (data_blocks codec framed) = framed @ pad"
    "0 < shard_size codec framed"
proof -
  let ?k = "dimension codec" and ?sz = "shard_size codec framed"
  have k: "0 < ?k" using codec by (simp add: wf_codec_def)
  have "0 < length framed" using ne by simp
  then have "?k \<le> length framed + ?k - 1" by linarith
  then have "?k div ?k \<le> (length framed + ?k - 1) div ?k" by (rule div_le_mono)
  with k show sz: "0 < ?sz" by (simp add: shard_size_def)
  have "length framed \<le> ?sz * ?k"
  proof -
    have "length framed + ?k - 1 = (length framed + ?k - 1) div ?k * ?k + (length framed + ?k - 1) mod ?k" by simp
    moreover have "(length framed + ?k - 1) mod ?k < ?k" using k by simp
    ultimately show ?thesis unfolding shard_size_def by linarith
  qed
  then have total: "length (framed @ replicate (?sz * ?k - length framed) (char_of (0::nat))) = ?sz * ?k"
    by simp
  note sl = slices_props [OF sz total]
  show "length (data_blocks codec framed) = ?k" using sl(1) by (simp add: data_blocks_def Let_def)
  show "\<exists>pad. concat (data_blocks codec framed) = framed @ pad"
    using sl(2) by (simp add: data_blocks_def Let_def)
  assume "i < ?k"
  with sl(3) show "length (data_blocks codec framed ! i) = ?sz" by (simp add: data_blocks_def Let_def)
qed

subsection \<open>Matrix products\<close>

lemma xsum_cong_simp: "n = m \<Longrightarrow> (\<And>i. i < m \<Longrightarrow> f i = g i) \<Longrightarrow> xsum f n = xsum g m"
  by (erule ssubst) (rule xsum_cong)

lemma xsum_shift: "xsum f (Suc n) = f 0 XOR xsum (\<lambda>i. f (Suc i)) n"
  by (induction n) (simp_all add: xor.assoc)

lemma row_product_Inr:
  "length result = width \<Longrightarrow> list_all (\<lambda>p. length (snd p) = width) ps \<Longrightarrow>
   row_product width result ps = Inr (map (\<lambda>b. result ! b XOR
     xsum (\<lambda>j. gf_mul (fst (ps ! j)) (of_char (snd (ps ! j) ! b))) (length ps)) [0..<width])"
proof (induction ps arbitrary: result)
  case Nil
  then show ?case using map_nth [of result] by simp
next
  case (Cons p ps)
  obtain c s where p: "p = (c, s)" by (cases p)
  let ?r = "if c \<noteq> 0 then map2 (\<lambda>b value. b XOR gf_mul c (of_char value)) result s else result"
  have s: "length s = width" using Cons.prems p by simp
  have "length ?r = width" using Cons.prems s by simp
  note IH = Cons.IH [OF this]
  have nth: "?r ! b = result ! b XOR gf_mul c (of_char (s ! b))" if "b < width" for b
    using that s Cons.prems(1) by simp
  show ?case
    using p s IH Cons.prems(2) nth
    by (auto simp: xsum_shift xor.assoc simp del: xsum.simps)
qed

definition vector_entry :: "nat list list \<Rightarrow> string list \<Rightarrow> nat \<Rightarrow> nat \<Rightarrow> nat" where
  "vector_entry m vec r b = xsum (\<lambda>j. gf_mul (m ! r ! j) (of_char (vec ! j ! b))) (length vec)"

lemma vector_entry_less: "vector_entry m vec r b < 256"
  by (simp add: vector_entry_def xsum_less)

lemma row_products_Inr:
  assumes "list_all (\<lambda>row. length row = length vec) m" "list_all (\<lambda>s. length s = width) vec"
  shows "row_products width vec m =
    Inr (map (\<lambda>r. map (\<lambda>b. char_of (vector_entry m vec r b)) [0..<width]) [0..<length m])"
  using assms(1)
proof (induction m)
  case (Cons row m)
  have all: "list_all (\<lambda>p. length (snd p) = width) (zip row vec)"
    using assms(2) by (auto simp: list_all_iff dest: set_zip_rightD)
  have "row_product width (replicate width 0) (zip row vec) =
      Inr (map (\<lambda>b. vector_entry (row # m) vec 0 b) [0..<width])"
    using Cons.prems by (subst row_product_Inr [OF _ all]) (simp_all add: vector_entry_def cong: xsum_cong_simp)
  moreover have "vector_entry (row # m) vec (Suc r) b = vector_entry m vec r b" for r b
    by (simp add: vector_entry_def)
  ultimately show ?case using Cons by (simp add: upt_conv_Cons map_Suc_upt [symmetric] del: upt_Suc)
qed simp

lemma matrix_vector_Inr:
  assumes "m \<noteq> []" "list_all (\<lambda>row. length row = length vec) m" "vec \<noteq> []"
    "list_all (\<lambda>s. length s = width) vec"
  shows "matrix_vector m vec =
    Inr (map (\<lambda>r. map (\<lambda>b. char_of (vector_entry m vec r b)) [0..<width]) [0..<length m])"
  using assms row_products_Inr [OF assms(2,4)]
  by (auto simp: matrix_vector_def list_all_iff neq_Nil_conv)

subsection \<open>The rows of the code matrix\<close>

lemma matrix_row_length [simp]: "length (matrix_row k r) = k"
  by (simp add: matrix_row_def)

lemma matrix_row_byte: "r < 255 \<Longrightarrow> byte_row k (matrix_row k r)"
  by (auto simp: byte_row_def matrix_row_def list_all_iff intro!: gf_pow_bound)

lemma codec_matrix_length [simp]: "length (codec_matrix codec) = nat (total_shards codec)"
  by (simp add: codec_matrix_def)

lemma codec_matrix_nth:
  "i < nat (total_shards codec) \<Longrightarrow> codec_matrix codec ! i = matrix_row (dimension codec) i"
  by (simp add: codec_matrix_def)

subsection \<open>Encoding\<close>

definition encoded_payload :: "erasure_codec \<Rightarrow> string \<Rightarrow> nat \<Rightarrow> string" where
  "encoded_payload codec framed r =
     map (\<lambda>b. char_of (vector_entry (codec_matrix codec) (data_blocks codec framed) r b))
       [0..<shard_size codec framed]"

definition encoded_shard :: "crypto \<Rightarrow> erasure_codec \<Rightarrow> string \<Rightarrow> string \<Rightarrow> string \<Rightarrow> nat \<Rightarrow> shard" where
  "encoded_shard cr codec oid payload frame r =
     shard_create cr oid (digest cr (object_statement payload)) (int r)
       (total_shards codec) (data_shards codec) (encoded_payload codec (frame @ payload) r)"

lemma encode_returns:
  assumes codec: "wf_codec codec" and oid: "oid \<noteq> []" and len: "length payload < 2 ^ 64"
  obtains frame where "frame_length (length payload) = Inr frame"
    "encode cr codec oid payload =
      Inr (map (encoded_shard cr codec oid payload frame) [0..<nat (total_shards codec)])"
proof -
  from frame_length_Inr [OF len] obtain frame where f: "frame_length (length payload) = Inr frame" "length frame = 8" by blast
  let ?ds = "data_blocks codec (frame @ payload)"
  have ne: "frame @ payload \<noteq> []" using f(2) by auto
  note blocks = data_blocks_props [OF codec ne]
  have "matrix_vector (codec_matrix codec) ?ds =
      Inr (map (encoded_payload codec (frame @ payload)) [0..<nat (total_shards codec)])"
  proof (subst matrix_vector_Inr)
    show "codec_matrix codec \<noteq> []" using codec by (simp add: codec_matrix_def wf_codec_def)
    show "list_all (\<lambda>row. length row = length ?ds) (codec_matrix codec)"
      using blocks(1) by (simp add: codec_matrix_def list_all_iff)
    have "0 < length ?ds" using blocks(1) codec by (simp add: wf_codec_def)
    then show "?ds \<noteq> []" by simp
    show "list_all (\<lambda>s. length s = shard_size codec (frame @ payload)) ?ds"
      using blocks(1,2) by (simp add: list_all_length)
  qed (simp add: encoded_payload_def cong: map_cong)
  then have "encode cr codec oid payload =
      Inr (map (encoded_shard cr codec oid payload frame) [0..<nat (total_shards codec)])"
    using oid f(1) by (simp add: encode_def encoded_shard_def enumerate_eq_zip zip_map2 zip_same_conv_map comp_def)
  with f(1) that show ?thesis by blast
qed

subsection \<open>Decoding a selection of shards\<close>

text \<open>\<open>recover\<close> works on the shards with the \<open>k\<close> smallest indices it was given.\<close>

definition chosen :: "erasure_codec \<Rightarrow> shard list \<Rightarrow> nat list" where
  "chosen codec ss = map nat (take (dimension codec) (sorted_list_of_set (sh_shard_index ` set ss)))"

definition chosen_rows :: "erasure_codec \<Rightarrow> shard list \<Rightarrow> nat list list" where
  "chosen_rows codec ss = map (matrix_row (dimension codec)) (chosen codec ss)"

lemma sorted_keys_dict_of:
  fixes f :: "'a \<Rightarrow> 'b::linorder"
  shows "sort (dict_keys (dict_of f xs)) = sorted_list_of_set (f ` set xs)"
proof -
  have "sorted_list_of_set (set ks) = sort ks" if "distinct ks" for ks :: "'b::linorder list"
    using that by (simp only: sorted_list_of_set_sort_remdups distinct_remdups_id)
  from this [OF wf_dict_of] have
    "sorted_list_of_set (set (dict_keys (dict_of f xs))) = sort (dict_keys (dict_of f xs))" .
  then show ?thesis by (simp only: keys_dict_of)
qed

lemma length_dict_of: "length (dict_of f xs) = card (f ` set xs)"
  using distinct_card [OF wf_dict_of [of f xs]] by (simp only: keys_dict_of length_map)

lemma chosen_props:
  assumes ss: "\<And>s. s \<in> set ss \<Longrightarrow> \<exists>r < n. sh_shard_index s = int r"
    and enough: "dimension codec \<le> card (sh_shard_index ` set ss)"
  shows "length (chosen codec ss) = dimension codec" "distinct (chosen codec ss)"
    "r \<in> set (chosen codec ss) \<Longrightarrow> r < n" "set (chosen codec ss) \<subseteq> (\<lambda>s. nat (sh_shard_index s)) ` set ss"
proof -
  let ?I = "sorted_list_of_set (sh_shard_index ` set ss)"
  have I: "set ?I = sh_shard_index ` set ss" "distinct ?I" by simp_all
  have "set (take (dimension codec) ?I) \<subseteq> sh_shard_index ` set ss"
    using set_take_subset [of "dimension codec" ?I] by (simp only: I)
  then show sub: "set (chosen codec ss) \<subseteq> (\<lambda>s. nat (sh_shard_index s)) ` set ss"
    by (fastforce simp: chosen_def)
  from sub show "r \<in> set (chosen codec ss) \<Longrightarrow> r < n" using ss by fastforce
  show "length (chosen codec ss) = dimension codec" using enough by (simp add: chosen_def)
  have "inj_on nat (set (take (dimension codec) ?I))"
  proof (rule inj_onI)
    fix x y
    assume "x \<in> set (take (dimension codec) ?I)" "y \<in> set (take (dimension codec) ?I)" "nat x = nat y"
    with \<open>set (take _ _) \<subseteq> _\<close> ss have "0 \<le> x" "0 \<le> y" by fastforce+
    with \<open>nat x = nat y\<close> show "x = y" by simp
  qed
  then show "distinct (chosen codec ss)" by (simp add: chosen_def distinct_map)
qed

lemma select_encoded:
  assumes ss: "\<And>s. s \<in> set ss \<Longrightarrow> \<exists>r < n. s = encoded_shard cr codec oid payload frame r"
  shows "select_shards codec ss = map (encoded_shard cr codec oid payload frame) (chosen codec ss)"
proof -
  let ?d = "dict_of sh_shard_index ss"
  have idx: "sh_shard_index (encoded_shard cr codec oid payload frame r) = int r" for r
    by (simp add: encoded_shard_def shard_create_def)
  have "the (map_of ?d i) = encoded_shard cr codec oid payload frame (nat i)" if i: "i \<in> set (dict_keys ?d)" for i
  proof -
    from i obtain s where s: "map_of ?d i = Some s" by (metis map_of_eq_None_iff option.exhaust set_map)
    then have "i = sh_shard_index s \<and> s \<in> set ss" by (intro set_dict_of map_of_SomeD)
    with ss s idx show ?thesis by fastforce
  qed
  then have "select_shards codec ss = map (\<lambda>i. encoded_shard cr codec oid payload frame (nat i))
      (take (dimension codec) (sort (dict_keys ?d)))"
    unfolding select_shards_def Let_def using set_take_subset [of "dimension codec" "sort (dict_keys ?d)"]
    by (intro map_cong refl) (simp only: set_sort subset_eq)
  then show ?thesis by (simp only: sorted_keys_dict_of chosen_def map_map comp_def)
qed

lemma chosen_rows_square:
  assumes "length (chosen codec ss) = dimension codec" "\<And>r. r \<in> set (chosen codec ss) \<Longrightarrow> r < 255"
  shows "square (chosen_rows codec ss)" "length (chosen_rows codec ss) = dimension codec"
  using assms by (auto simp: square_def chosen_rows_def list_all_iff matrix_row_byte)

text \<open>The data blocks, byte by byte, as a vector over the field.\<close>

definition block_bytes :: "string list \<Rightarrow> nat \<Rightarrow> nat \<Rightarrow> nat" where
  "block_bytes ds b j = of_char (ds ! j ! b)"

lemma block_bytes_less: "block_bytes ds b j < 256"
  by (simp add: block_bytes_def nat_of_char_less_256)

lemma encoded_payload_dotx:
  assumes "wf_codec codec" "framed \<noteq> []" "r < nat (total_shards codec)"
  shows "encoded_payload codec framed r = map (\<lambda>b. char_of (dotx (dimension codec)
    (matrix_row (dimension codec) r) (block_bytes (data_blocks codec framed) b))) [0..<shard_size codec framed]"
  using assms data_blocks_props(1) [OF assms(1,2)]
  by (simp add: encoded_payload_def vector_entry_def dotx_def block_bytes_def codec_matrix_nth cong: xsum_cong_simp)

lemma decode_encoded:
  assumes codec: "wf_codec codec" and ne: "framed \<noteq> []"
    and idx: "length (chosen codec ss) = dimension codec" "\<And>r. r \<in> set (chosen codec ss) \<Longrightarrow> r < nat (total_shards codec)"
    and sel: "map sh_payload selected = map (encoded_payload codec framed) (chosen codec ss)"
      "map (\<lambda>s. nat (sh_shard_index s)) selected = chosen codec ss"
    and regular: "\<not> singular (chosen_rows codec ss)"
  shows "decode_blocks codec selected = Inr (data_blocks codec framed)"
proof -
  let ?k = "dimension codec" and ?S = "chosen_rows codec ss" and ?sz = "shard_size codec framed"
  let ?ds = "data_blocks codec framed"
  let ?ps = "map (encoded_payload codec framed) (chosen codec ss)"
  have k: "0 < ?k" and n: "nat (total_shards codec) \<le> 255" using codec by (auto simp: wf_codec_def)
  note blocks = data_blocks_props [OF codec ne]
  have "r < 255" if "r \<in> set (chosen codec ss)" for r using idx(2) [OF that] n by simp
  note S = chosen_rows_square [OF idx(1) this]
  have "map (\<lambda>s. codec_matrix codec ! nat (sh_shard_index s)) selected =
      map (\<lambda>i. codec_matrix codec ! i) (map (\<lambda>s. nat (sh_shard_index s)) selected)" by simp
  also have "\<dots> = ?S"
    unfolding sel(2) chosen_rows_def by (rule map_cong) (simp_all add: codec_matrix_nth idx(2))
  finally have rows: "map (\<lambda>s. codec_matrix codec ! nat (sh_shard_index s)) selected = ?S" .
  have "?S \<noteq> []" using S(2) k by auto
  from matrix_inverse_decides(2) [OF S(1) this] regular obtain R where
    R: "matrix_inverse ?S = Inr R" by (auto simp: is_ok_iff)
  have inv: "inverse_of ?S R" by (rule matrix_inverse_Inr [OF S(1) R])
  have entry: "vector_entry R ?ps i b = block_bytes ?ds b i" if "i < ?k" "b < ?sz" for i b
  proof -
    have "of_char (?ps ! j ! b) = dotx ?k (?S ! j) (block_bytes ?ds b)" if "j < ?k" for j
      using that idx \<open>b < ?sz\<close> encoded_payload_dotx [OF codec ne idx(2)]
        dotx_less [of ?k "?S ! j" "block_bytes ?ds b"] by (simp add: chosen_rows_def)
    then have "vector_entry R ?ps i b = xsum (\<lambda>j. gf_mul (R ! i ! j) (dotx ?k (?S ! j) (block_bytes ?ds b))) ?k"
      using idx(1) by (simp add: vector_entry_def cong: xsum_cong_simp)
    also have "\<dots> = block_bytes ?ds b i"
      using inverse_solves [OF S(1) inv, of "block_bytes ?ds b" i] block_bytes_less that(1) S(2) by simp
    finally show ?thesis .
  qed
  have "matrix_vector R ?ps = Inr (map (\<lambda>r. map (\<lambda>b. char_of (vector_entry R ?ps r b)) [0..<?sz]) [0..<length R])"
  proof (rule matrix_vector_Inr)
    show "R \<noteq> []" using inv S(2) k by (auto simp: inverse_of_def)
    show "list_all (\<lambda>row. length row = length ?ps) R"
      using inv S(2) idx(1) by (simp add: inverse_of_def list_all_iff byte_row_def)
    have "0 < length ?ps" using idx(1) k by simp
    then show "?ps \<noteq> []" by simp
    show "list_all (\<lambda>s. length s = ?sz) ?ps" by (simp add: list_all_iff encoded_payload_def)
  qed
  also have "map (\<lambda>r. map (\<lambda>b. char_of (vector_entry R ?ps r b)) [0..<?sz]) [0..<length R] = ?ds"
    using blocks(1,2) inv S(2) entry
    by (intro nth_equalityI) (auto simp: inverse_of_def block_bytes_def)
  finally show ?thesis using R rows sel(1) by (simp add: decode_blocks_def)
qed

end
