(* ===== verification/Erasure_Props.thy ===== *)
theory Erasure_Props
  imports Erasure_Codec
begin

unbundle bit_operations_syntax

section \<open>What the codec guarantees\<close>

text \<open>
  Recovery never returns anything but the encoded payload, on whatever shards it is given
  (\<open>recover_never_wrong\<close>); on shards of an encoding it returns the payload exactly when the rows of
  the chosen shards are independent (\<open>recover_encoded\<close>), which is so for at most one parity shard
  (\<open>recover_one_parity\<close>) and for every choice with the daemon's default parameters
  (\<open>default_codec_any_five\<close>), and is not so in general (\<open>codec_five_four_singular\<close>).
\<close>

lemma encode_InrE:
  assumes "wf_codec codec" "encode cr codec oid payload = Inr shs"
  obtains frame where "frame_length (length payload) = Inr frame" "length frame = 8"
    "from_bytes frame = length payload" "oid \<noteq> []"
    "shs = map (encoded_shard cr codec oid payload frame) [0..<nat (total_shards codec)]"
proof -
  have oid: "oid \<noteq> []" using assms(2) by (auto simp: encode_def)
  have len: "length payload < 2 ^ 64"
    using assms(2) oid by (auto simp: encode_def frame_length_def split: if_splits)
  from encode_returns [OF assms(1) oid len, of cr] obtain frame where f: "frame_length (length payload) = Inr frame"
    "shs = map (encoded_shard cr codec oid payload frame) [0..<nat (total_shards codec)]"
    using assms(2) by auto
  with frame_length_Inr [OF len] oid that show ?thesis by auto
qed

lemma encoded_shard_verify:
  assumes "wf_codec codec" "oid \<noteq> []" "digest cr (object_statement payload) \<noteq> []" "r < nat (total_shards codec)"
  shows "shard_verify cr (encoded_shard cr codec oid payload frame r)"
  using assms by (auto simp: shard_verify_def encoded_shard_def shard_create_def wf_codec_def)

lemma encoded_shard_simps [simp]:
  "sh_shard_index (encoded_shard cr codec oid payload frame r) = int r"
  "sh_object_id (encoded_shard cr codec oid payload frame r) = oid"
  "sh_content_digest (encoded_shard cr codec oid payload frame r) = digest cr (object_statement payload)"
  "sh_total_shards (encoded_shard cr codec oid payload frame r) = total_shards codec"
  "sh_data_shards (encoded_shard cr codec oid payload frame r) = data_shards codec"
  "sh_payload (encoded_shard cr codec oid payload frame r) = encoded_payload codec (frame @ payload) r"
  by (simp_all add: encoded_shard_def shard_create_def)

lemma recover_selected:
  assumes "codec_init d p = Inr codec" and "encode cr codec oid payload = Inr shs"
    and "digest cr (object_statement payload) \<noteq> []"
    and "set ss \<subseteq> set shs" and "d \<le> int (card (sh_shard_index ` set ss))"
  shows "recover cr codec ss =
    (if singular (chosen_rows codec ss)
     then Inl (AvailabilityError ''erasure matrix is singular'') else Inr payload)"
proof -
  have codec: "wf_codec codec" and d: "data_shards codec = d"
    using assms(1) by (auto simp: codec_init_wf codec_init_Inr)
  from encode_InrE [OF codec assms(2)] obtain frame where frame: "length frame = 8"
    "from_bytes frame = length payload" "oid \<noteq> []"
    and shs: "shs = map (encoded_shard cr codec oid payload frame) [0..<nat (total_shards codec)]"
    by blast
  let ?E = "encoded_shard cr codec oid payload frame" and ?k = "dimension codec"
  have ss: "\<exists>r < nat (total_shards codec). s = ?E r" if "s \<in> set ss" for s
  proof -
    from that assms(4) have "s \<in> set shs" by blast
    with shs show ?thesis by auto
  qed
  have enough: "?k \<le> card (sh_shard_index ` set ss)" using assms(5) d by simp
  have idx: "length (chosen codec ss) = ?k" "\<And>r. r \<in> set (chosen codec ss) \<Longrightarrow> r < nat (total_shards codec)"
    using chosen_props [OF _ enough, of "nat (total_shards codec)"] ss by fastforce+
  have sel: "select_shards codec ss = map ?E (chosen codec ss)" using ss by (rule select_encoded)
  have ne: "chosen codec ss \<noteq> []" using idx(1) codec by (auto simp: wf_codec_def)
  have ok: "list_all (shard_verify cr) (map ?E (chosen codec ss))"
    using codec frame(3) assms(3) idx(2) by (simp add: list_all_iff encoded_shard_verify)
  have "recover cr codec ss = bindE (decode_blocks codec (map ?E (chosen codec ss))) (\<lambda>ds.
      let framed = concat ds; pl = take (from_bytes (take 8 framed)) (drop 8 framed)
      in if digest cr (object_statement pl) \<noteq> digest cr (object_statement payload)
         then Inl (AvailabilityError ''recovered payload digest mismatch'') else Inr pl)"
    using ok ne assms(5) d
    by (simp add: recover_def sel length_dict_of hd_map list_all_iff Let_def)
  moreover have "decode_blocks codec (map ?E (chosen codec ss)) =
      (if singular (chosen_rows codec ss) then Inl (AvailabilityError ''erasure matrix is singular'')
       else Inr (data_blocks codec (frame @ payload)))"
  proof (cases "singular (chosen_rows codec ss)")
    case False
    moreover have "frame @ payload \<noteq> []" using frame(1) by auto
    ultimately show ?thesis
      using decode_encoded [OF codec _ idx, of "frame @ payload" "map ?E (chosen codec ss)"]
      by (simp add: comp_def)
  next
    case True
    have "r < 255" if "r \<in> set (chosen codec ss)" for r
      using idx(2) [OF that] codec by (auto simp: wf_codec_def)
    note S = chosen_rows_square [OF idx(1) this]
    have "chosen_rows codec ss \<noteq> []" using ne by (simp add: chosen_rows_def)
    with matrix_inverse_decides(1) [OF S(1)] True
    have "matrix_inverse (chosen_rows codec ss) = Inl (AvailabilityError ''erasure matrix is singular'')" by simp
    moreover have "map (\<lambda>s. codec_matrix codec ! nat (sh_shard_index s)) (map ?E (chosen codec ss)) = chosen_rows codec ss"
      by (simp add: chosen_rows_def codec_matrix_nth idx(2))
    ultimately show ?thesis using True by (simp add: decode_blocks_def)
  qed
  moreover have ne: "frame @ payload \<noteq> []" using frame(1) by auto
  from data_blocks_props(3) [OF codec ne] obtain pad where
    "concat (data_blocks codec (frame @ payload)) = (frame @ payload) @ pad" by blast
  with frame(1) have
    "take 8 (concat (data_blocks codec (frame @ payload))) = frame"
    "take (length payload) (drop 8 (concat (data_blocks codec (frame @ payload)))) = payload"
    by simp_all
  ultimately show ?thesis using frame(2) by (simp only: Let_def bindE_simps if_distrib [of "\<lambda>r. bindE r _"] simp_thms if_False cong: if_cong)
qed

subsection \<open>Which choices are independent\<close>

text \<open>
  A solution of the homogeneous system of the chosen rows vanishes on every data shard that is
  present, because \<open>recover\<close> prefers the smallest indices; the parity rows must rule out the rest.
\<close>

lemma sorted_nth_ge:
  "sorted_wrt (<) (xs :: int list) \<Longrightarrow> \<forall>x \<in> set xs. 0 \<le> x \<Longrightarrow> i < length xs \<Longrightarrow> int i \<le> xs ! i"
proof (induction i)
  case (Suc i)
  then have "xs ! i < xs ! Suc i" by (simp add: sorted_wrt_iff_nth_less)
  with Suc show ?case by simp
qed simp

lemma present_chosen:
  assumes nonneg: "\<forall>s \<in> set ss. 0 \<le> sh_shard_index s"
    and j: "j < dimension codec" "int j \<in> sh_shard_index ` set ss"
  shows "j \<in> set (chosen codec ss)"
proof -
  let ?I = "sorted_list_of_set (sh_shard_index ` set ss)"
  from j(2) obtain i where i: "i < length ?I" "?I ! i = int j"
    by (metis in_set_conv_nth List.finite_set finite_imageI set_sorted_list_of_set)
  have "int i \<le> ?I ! i"
    using nonneg i(1) by (intro sorted_nth_ge) (auto simp del: sorted_list_of_set_nonempty)
  with i j(1) have "i < dimension codec" by simp
  with i have "int j \<in> set (take (dimension codec) ?I)" by (auto simp: in_set_conv_nth)
  then show ?thesis unfolding chosen_def by force
qed

definition parity_equation :: "nat \<Rightarrow> (nat \<Rightarrow> nat) \<Rightarrow> nat \<Rightarrow> bool" where
  "parity_equation k v p \<longleftrightarrow> xsum (\<lambda>j. gf_mul (gf_pow (p + 1) j) (v j)) k = 0"

lemma dotx_identity_row: "r < k \<Longrightarrow> v r < 256 \<Longrightarrow> dotx k (matrix_row k r) v = v r"
proof -
  assume r: "r < k" and v: "v r < 256"
  have "dotx k (matrix_row k r) v = xsum (\<lambda>j. if j = r then v r else 0) k"
    unfolding dotx_def by (rule xsum_cong) (use r gf_mul_1 [OF v] in \<open>auto simp: matrix_row_def\<close>)
  with r show ?thesis by (simp add: xsum_single)
qed

lemma dotx_parity_row: "k \<le> p \<Longrightarrow> dotx k (matrix_row k p) v = 0 \<longleftrightarrow> parity_equation k v p"
  by (simp add: dotx_def matrix_row_def parity_equation_def cong: xsum_cong)

lemma kernel_chosen:
  assumes v: "\<And>j. v j < 256" and ker: "kernel (dimension codec) (chosen_rows codec ss) v"
    and r: "r \<in> set (chosen codec ss)"
  shows "r < dimension codec \<Longrightarrow> v r = 0" "dimension codec \<le> r \<Longrightarrow> parity_equation (dimension codec) v r"
proof -
  from r ker have "dotx (dimension codec) (matrix_row (dimension codec) r) v = 0"
    by (auto simp: kernel_set chosen_rows_def)
  then show "r < dimension codec \<Longrightarrow> v r = 0" "dimension codec \<le> r \<Longrightarrow> parity_equation (dimension codec) v r"
    using v by (simp_all add: dotx_identity_row dotx_parity_row)
qed

definition lost :: "erasure_codec \<Rightarrow> shard list \<Rightarrow> nat set" where
  "lost codec ss = {j. j < dimension codec \<and> int j \<notin> sh_shard_index ` set ss}"

text \<open>
  As many parity rows are chosen as data shards are lost, and a nonzero solution lives on the
  lost columns and satisfies every chosen parity equation.
\<close>

definition lost_solution :: "erasure_codec \<Rightarrow> shard list \<Rightarrow> (nat \<Rightarrow> nat) \<Rightarrow> nat set \<Rightarrow> bool" where
  "lost_solution codec ss v P \<longleftrightarrow> (\<forall>j. v j < 256) \<and> (\<exists>j \<in> lost codec ss. v j \<noteq> 0)
     \<and> (\<forall>j < dimension codec. j \<notin> lost codec ss \<longrightarrow> v j = 0)
     \<and> P \<subseteq> set (chosen codec ss) \<and> card P = card (lost codec ss)
     \<and> (\<forall>p \<in> P. dimension codec \<le> p \<and> parity_equation (dimension codec) v p)"

lemma singular_lost:
  assumes nonneg: "\<forall>s \<in> set ss. 0 \<le> sh_shard_index s"
    and len: "length (chosen codec ss) = dimension codec" "distinct (chosen codec ss)"
    and sub: "set (chosen codec ss) \<subseteq> (\<lambda>s. nat (sh_shard_index s)) ` set ss"
    and sing: "singular (chosen_rows codec ss)"
  shows "\<exists>v P. lost_solution codec ss v P"
proof -
  let ?k = "dimension codec" and ?C = "set (chosen codec ss)"
  from sing len(1) obtain v where v: "\<And>j. v j < 256" "\<exists>j < ?k. v j \<noteq> 0" "kernel ?k (chosen_rows codec ss) v"
    by (auto simp: singular_def chosen_rows_def)
  have present: "j \<in> ?C" if "j < ?k" "j \<notin> lost codec ss" for j
    using that present_chosen [OF nonneg] by (auto simp: lost_def)
  have absent: "j \<notin> ?C" if "j \<in> lost codec ss" for j
    using that sub nonneg by (fastforce simp: lost_def)
  have "?C \<inter> {..<?k} = {..<?k} - lost codec ss" using present absent by auto
  moreover have "lost codec ss \<subseteq> {..<?k}" by (auto simp: lost_def)
  moreover from this have "finite (lost codec ss)" by (rule finite_subset) simp
  ultimately have "card (?C \<inter> {..<?k}) + card (lost codec ss) = ?k"
    by (simp add: card_Diff_subset card_mono [of "{..<?k}", simplified] le_add_diff_inverse2)
  moreover have "card ?C = card (?C \<inter> {..<?k}) + card {p \<in> ?C. ?k \<le> p}"
    by (subst card_Un_disjoint [symmetric]) (auto intro!: arg_cong [where f = card])
  moreover have "card ?C = ?k" using len by (simp add: distinct_card)
  ultimately have "card {p \<in> ?C. ?k \<le> p} = card (lost codec ss)" by simp
  moreover have zero: "v j = 0" if "j < ?k" "j \<notin> lost codec ss" for j
    using kernel_chosen(1) [OF v(1,3) present [OF that] that(1)] .
  moreover from v(2) obtain j where "j < ?k" "v j \<noteq> 0" by blast
  with zero [of j] have "\<exists>j \<in> lost codec ss. v j \<noteq> 0" by (cases "j \<in> lost codec ss") auto
  moreover have "parity_equation ?k v p" if "p \<in> {p \<in> ?C. ?k \<le> p}" for p
    using that kernel_chosen(2) [OF v(1,3)] by blast
  ultimately have "lost_solution codec ss v {p \<in> ?C. ?k \<le> p}" using v(1) by (simp add: lost_solution_def)
  then show ?thesis by blast
qed

lemma chosen_encoded:
  assumes "codec_init d p = Inr codec" and "encode cr codec oid payload = Inr shs"
    and "set ss \<subseteq> set shs" and "d \<le> int (card (sh_shard_index ` set ss))"
  shows "length (chosen codec ss) = dimension codec" "distinct (chosen codec ss)"
    "r \<in> set (chosen codec ss) \<Longrightarrow> r < nat (total_shards codec)"
    "set (chosen codec ss) \<subseteq> (\<lambda>s. nat (sh_shard_index s)) ` set ss"
    "\<forall>s \<in> set ss. 0 \<le> sh_shard_index s"
proof -
  have codec: "wf_codec codec" and d: "data_shards codec = d"
    using assms(1) by (auto simp: codec_init_wf codec_init_Inr)
  have ss: "\<exists>r < nat (total_shards codec). sh_shard_index s = int r" if "s \<in> set ss" for s
  proof -
    from encode_InrE [OF codec assms(2)] obtain frame where
      "shs = map (encoded_shard cr codec oid payload frame) [0..<nat (total_shards codec)]" by blast
    moreover from that assms(3) have "s \<in> set shs" by blast
    ultimately show ?thesis by auto
  qed
  then show "\<forall>s \<in> set ss. 0 \<le> sh_shard_index s" by fastforce
  have "dimension codec \<le> card (sh_shard_index ` set ss)" using assms(4) d by simp
  note props = chosen_props [OF ss this]
  show "length (chosen codec ss) = dimension codec" "distinct (chosen codec ss)"
    "set (chosen codec ss) \<subseteq> (\<lambda>s. nat (sh_shard_index s)) ` set ss"
    "r \<in> set (chosen codec ss) \<Longrightarrow> r < nat (total_shards codec)"
    using props by blast+
qed

lemma parity_power_nonzero: "p < 255 \<Longrightarrow> gf_pow (p + 1) j \<noteq> 0"
proof -
  assume "p < 255"
  then obtain i where "p + 1 = alpha i" using alpha_surj [of "p + 1"] by auto
  then show ?thesis by (simp add: gf_pow_alpha)
qed

lemma one_lost_regular:
  assumes "codec_init d p = Inr codec" and "encode cr codec oid payload = Inr shs"
    and "set ss \<subseteq> set shs" and "d \<le> int (card (sh_shard_index ` set ss))"
    and one: "card (lost codec ss) \<le> 1"
  shows "\<not> singular (chosen_rows codec ss)"
proof
  assume sing: "singular (chosen_rows codec ss)"
  let ?k = "dimension codec"
  note ch = chosen_encoded [OF assms(1-4)]
  from singular_lost [OF ch(5,1,2,4) sing] obtain v P where "lost_solution codec ss v P" by blast
  then have v: "\<And>j. v j < 256" and ne: "\<exists>j \<in> lost codec ss. v j \<noteq> 0"
    and zero: "\<And>j. j < ?k \<Longrightarrow> j \<notin> lost codec ss \<Longrightarrow> v j = 0"
    and P: "P \<subseteq> set (chosen codec ss)" "card P = card (lost codec ss)"
    and eqn: "\<And>p. p \<in> P \<Longrightarrow> parity_equation ?k v p"
    by (auto simp: lost_solution_def)
  from ne obtain j where j: "j \<in> lost codec ss" "v j \<noteq> 0" by blast
  have fin: "finite (lost codec ss)" by (rule finite_subset [of _ "{..<?k}"]) (auto simp: lost_def)
  with one j(1) have lost: "lost codec ss = {j}"
    by (auto simp: card_le_Suc0_iff_eq)
  with P(2) have "card P = 1" by simp
  then obtain p where p: "p \<in> P" by (metis card.empty ex_in_conv zero_neq_one)
  then have "p < 255" using P(1) ch(3) codec_init_wf [OF assms(1)] by (fastforce simp: wf_codec_def)
  have jk: "j < ?k" using j(1) by (simp add: lost_def)
  have "xsum (\<lambda>i. gf_mul (gf_pow (p + 1) i) (v i)) ?k = gf_mul (gf_pow (p + 1) j) (v j)"
    using zero lost by (intro xsum_unit [OF jk]) auto
  with eqn [OF p] have "gf_mul (gf_pow (p + 1) j) (v j) = 0" by (simp add: parity_equation_def)
  then show False
    using parity_power_nonzero [OF \<open>p < 255\<close>, of j] j(2) v \<open>p < 255\<close> by (simp add: gf.mul_eq_0 gf_pow_bound)
qed

text \<open>
  Recovery of an encoding. Given shards of one encoding with at least as many
  different indices as there are data shards, \<open>recover\<close> returns exactly the payload, unless the
  rows of the shards it chooses (those with the smallest indices) are linearly dependent over
  GF(256), and then it raises the singular-matrix error.
\<close>

theorem recover_encoded:
  assumes "codec_init d p = Inr codec" and "encode cr codec oid payload = Inr shs"
    and "digest cr (object_statement payload) \<noteq> []"
    and "set ss \<subseteq> set shs" and "d \<le> int (card (sh_shard_index ` set ss))"
  shows "recover cr codec ss =
    (if singular (chosen_rows codec ss)
     then Inl (AvailabilityError ''erasure matrix is singular'') else Inr payload)"
  by (rule recover_selected [OF assms])

text \<open>
  Recovery on any choice with at most one data shard lost. Given shards of one
  encoding with at least as many different indices as data shards, of which at most one data
  shard is missing, \<open>recover\<close> returns the payload.
\<close>

theorem recover_one_lost:
  assumes "codec_init d p = Inr codec" and "encode cr codec oid payload = Inr shs"
    and "digest cr (object_statement payload) \<noteq> []"
    and "set ss \<subseteq> set shs" and "d \<le> int (card (sh_shard_index ` set ss))"
    and "card (lost codec ss) \<le> 1"
  shows "recover cr codec ss = Inr payload"
  using recover_selected [OF assms(1-5)] one_lost_regular [OF assms(1,2,4,5,6)] by simp

subsection \<open>The default configuration of the daemon\<close>

text \<open>
  With five data and three parity shards at most three columns are lost. Two or three parity
  equations over the points 6, 7, 8 determine them, which reduces to finitely many products.
\<close>

context gf_field begin

lemma mul_left_commute:
  "a < 256 \<Longrightarrow> b < 256 \<Longrightarrow> c < 256 \<Longrightarrow> mul a (mul b c) = mul b (mul a c)"
  using mul_assoc [of a b c] mul_assoc [of b a c] mul_commute [of a b] by simp

lemma two_equations:
  assumes "a = mul p b" "a = mul q b" "p \<noteq> q" "b < 256" "p < 256" "q < 256"
  shows "b = 0"
proof -
  have "mul (p XOR q) b = mul p b XOR mul q b" using assms by (intro xor_mul) simp_all
  also have "\<dots> = 0" using assms by simp
  finally have "p XOR q = 0 \<or> b = 0" using assms by (simp add: mul_eq_0)
  moreover have "p XOR q \<noteq> 0" using assms(3) by (metis xor_cancel xor.right_neutral)
  ultimately show ?thesis by simp
qed

lemma three_equations:
  assumes eqs: "a = mul p b XOR mul p' c" "a = mul q b XOR mul q' c" "a = mul r b XOR mul r' c"
    and det: "mul (p XOR q) (p' XOR r') \<noteq> mul (p' XOR q') (p XOR r)"
    and lt: "b < 256" "c < 256" "p < 256" "q < 256" "r < 256" "p' < 256" "q' < 256" "r' < 256"
  shows "b = 0 \<and> c = 0"
proof -
  have eq: "mul (p XOR s) b = mul (p' XOR s') c"
    if "a = mul s b XOR mul s' c" "s < 256" "s' < 256" for s s'
  proof -
    have "mul (p XOR s) b XOR mul (p' XOR s') c = (mul p b XOR mul p' c) XOR (mul s b XOR mul s' c)"
      using lt that by (simp add: xor_mul xor.assoc xor.left_commute)
    also have "\<dots> = 0" using eqs(1) that(1) by (metis xor_self_eq)
    finally show ?thesis by (metis xor_cancel xor.right_neutral)
  qed
  let ?A = "p XOR q" and ?B = "p' XOR q'" and ?C = "p XOR r" and ?D = "p' XOR r'"
  have A: "mul ?A b = mul ?B c" and C: "mul ?C b = mul ?D c" using eqs lt by (auto intro: eq)
  have "mul (mul ?A ?D) c = mul ?A (mul ?C b)" using lt C by (simp add: mul_assoc)
  also have "\<dots> = mul ?C (mul ?A b)" using lt by (simp add: mul_left_commute)
  also have "\<dots> = mul (mul ?B ?C) c" using lt A by (simp add: mul_assoc mul_left_commute [of ?C ?B])
  finally have "c = 0"
    using det lt by (intro two_equations [of "mul (mul ?A ?D) c" "mul ?A ?D" c "mul ?B ?C"]) (simp_all add: mul_less)
  moreover from this A C have "mul ?A b = 0" "mul ?C b = 0" by (simp_all add: mul_zero)
  then have "b = 0" using det lt by (auto simp: mul_eq_0 mul_zero mul_zero_left)
  ultimately show ?thesis by simp
qed

end

lemma xsum_two:
  "a < n \<Longrightarrow> b < n \<Longrightarrow> a \<noteq> b \<Longrightarrow> (\<And>i. i < n \<Longrightarrow> i \<notin> {a, b} \<Longrightarrow> f i = 0) \<Longrightarrow>
   xsum f n = f a XOR f b"
proof -
  assume ab: "a < n" "b < n" "a \<noteq> b" and f: "\<And>i. i < n \<Longrightarrow> i \<notin> {a, b} \<Longrightarrow> f i = 0"
  have "xsum f n = xsum (\<lambda>i. (if i = a then f a else 0) XOR (if i = b then f b else 0)) n"
    by (rule xsum_cong) (use ab(3) f in auto)
  with ab show ?thesis by (simp add: xsum_xor xsum_single)
qed

lemma xsum_three:
  "a < n \<Longrightarrow> b < n \<Longrightarrow> c < n \<Longrightarrow> distinct [a, b, c] \<Longrightarrow>
   (\<And>i. i < n \<Longrightarrow> i \<notin> {a, b, c} \<Longrightarrow> f i = 0) \<Longrightarrow> xsum f n = f a XOR f b XOR f c"
proof -
  assume abc: "a < n" "b < n" "c < n" "distinct [a, b, c]"
    and f: "\<And>i. i < n \<Longrightarrow> i \<notin> {a, b, c} \<Longrightarrow> f i = 0"
  have "xsum f n = xsum (\<lambda>i. ((if i = a then f a else 0) XOR (if i = b then f b else 0))
      XOR (if i = c then f c else 0)) n"
    by (rule xsum_cong) (use abc(4) f in auto)
  with abc show ?thesis by (simp add: xsum_xor xsum_single xor.assoc)
qed

lemma xor_eq_0: "(a::nat) XOR b = 0 \<longleftrightarrow> a = b"
  by (metis xor_cancel xor.right_neutral xor_self_eq)

text \<open>The lowest lost column, from the others.\<close>

lemma parity_two:
  assumes eqn: "parity_equation k v p" and ab: "a < b" "b < k" and v: "\<And>j. v j < 256"
    and zero: "\<And>j. j < k \<Longrightarrow> j \<notin> {a, b} \<Longrightarrow> v j = 0" and p: "p < 255"
  shows "v a = gf_mul (gf_pow (p + 1) (b - a)) (v b)"
proof -
  let ?x = "gf_pow (p + 1)"
  have lt: "?x j < 256" for j using p by (intro gf_pow_bound) simp
  have "gf_mul (?x a) (v a) XOR gf_mul (?x b) (v b) = xsum (\<lambda>j. gf_mul (?x j) (v j)) k"
    using ab zero by (intro xsum_two [symmetric]) auto
  also have "\<dots> = 0" using eqn by (simp add: parity_equation_def)
  also have "?x b = gf_mul (?x a) (?x (b - a))" using gf_pow_add [of "p + 1" a "b - a"] p ab by simp
  finally have "gf_mul (?x a) (v a XOR gf_mul (?x (b - a)) (v b)) = 0"
    using lt v by (simp add: gf_mul_xor gf_mul_assoc)
  then show ?thesis
    using lt v parity_power_nonzero [OF p, of a] by (simp add: gf.mul_eq_0 xor_eq_0)
qed

lemma parity_three:
  assumes eqn: "parity_equation k v p" and abc: "a < b" "b < c" "c < k" and v: "\<And>j. v j < 256"
    and zero: "\<And>j. j < k \<Longrightarrow> j \<notin> {a, b, c} \<Longrightarrow> v j = 0" and p: "p < 255"
  shows "v a = gf_mul (gf_pow (p + 1) (b - a)) (v b) XOR gf_mul (gf_pow (p + 1) (c - a)) (v c)"
proof -
  let ?x = "gf_pow (p + 1)"
  have lt: "?x j < 256" for j using p by (intro gf_pow_bound) simp
  have "gf_mul (?x a) (v a) XOR gf_mul (?x b) (v b) XOR gf_mul (?x c) (v c) = xsum (\<lambda>j. gf_mul (?x j) (v j)) k"
    using abc zero by (intro xsum_three [symmetric]) auto
  also have "\<dots> = 0" using eqn by (simp add: parity_equation_def)
  also have "?x b = gf_mul (?x a) (?x (b - a))" using gf_pow_add [of "p + 1" a "b - a"] p abc by simp
  also have "?x c = gf_mul (?x a) (?x (c - a))" using gf_pow_add [of "p + 1" a "c - a"] p abc by simp
  finally have "gf_mul (?x a) (v a XOR (gf_mul (?x (b - a)) (v b) XOR gf_mul (?x (c - a)) (v c))) = 0"
    using lt v by (simp add: gf_mul_xor gf_mul_assoc)
  then show ?thesis
    using lt v parity_power_nonzero [OF p, of a] by (simp add: gf.mul_eq_0 xor_eq_0)
qed

text \<open>The powers of the three parity points.\<close>

lemma points_two:
  "d \<in> {1..4} \<Longrightarrow> {x, y} \<subseteq> {6, 7, 8} \<Longrightarrow> x \<noteq> y \<Longrightarrow> gf_pow x d \<noteq> gf_pow y d"
proof -
  assume "d \<in> {1..4}"
  then have "d = 1 \<or> d = 2 \<or> d = 3 \<or> d = 4" by auto
  then show "{x, y} \<subseteq> {6, 7, 8} \<Longrightarrow> x \<noteq> y \<Longrightarrow> gf_pow x d \<noteq> gf_pow y d"
    by (elim disjE) (auto simp: gf_eval)
qed

lemma points_three:
  "0 < d \<Longrightarrow> d < e \<Longrightarrow> e \<le> 4 \<Longrightarrow>
   gf_mul (gf_pow 6 d XOR gf_pow 7 d) (gf_pow 6 e XOR gf_pow 8 e) \<noteq>
   gf_mul (gf_pow 6 e XOR gf_pow 7 e) (gf_pow 6 d XOR gf_pow 8 d)"
proof -
  assume "0 < d" "d < e" "e \<le> 4"
  then have "(d, e) \<in> {(1, 2), (1, 3), (1, 4), (2, 3), (2, 4), (3, 4)}" by auto
  then show ?thesis by (elim insertE emptyE Pair_inject) (simp_all add: gf_eval)
qed

lemma solution_two:
  assumes ab: "a < b" "b < 5" and v: "\<And>j. v j < 256"
    and zero: "\<And>j. j < 5 \<Longrightarrow> j \<notin> {a, b} \<Longrightarrow> v j = 0"
    and pq: "p \<noteq> q" "{p, q} \<subseteq> {5, 6, 7}" "parity_equation 5 v p" "parity_equation 5 v q"
  shows "v a = 0 \<and> v b = 0"
proof -
  have lt: "p < 255" "q < 255" using pq(2) by auto
  note a = parity_two [OF pq(3) ab v zero lt(1)] and a' = parity_two [OF pq(4) ab v zero lt(2)]
  have "gf_pow (p + 1) (b - a) \<noteq> gf_pow (q + 1) (b - a)"
    using ab pq(1,2) by (intro points_two) auto
  moreover have "gf_pow (p + 1) (b - a) < 256" "gf_pow (q + 1) (b - a) < 256"
    using lt by (auto intro: gf_pow_bound)
  ultimately have "v b = 0" using gf.two_equations [OF a a'] v by blast
  with a show ?thesis by (simp add: gf.mul_zero)
qed

lemma solution_three:
  assumes abc: "a < b" "b < c" "c < 5" and v: "\<And>j. v j < 256"
    and zero: "\<And>j. j < 5 \<Longrightarrow> j \<notin> {a, b, c} \<Longrightarrow> v j = 0"
    and eqn: "parity_equation 5 v 5" "parity_equation 5 v 6" "parity_equation 5 v 7"
  shows "v a = 0 \<and> v b = 0 \<and> v c = 0"
proof -
  note a = parity_three [OF eqn(1) abc v zero, simplified] parity_three [OF eqn(2) abc v zero, simplified]
    parity_three [OF eqn(3) abc v zero, simplified]
  have "gf_mul (gf_pow 6 (b - a) XOR gf_pow 7 (b - a)) (gf_pow 6 (c - a) XOR gf_pow 8 (c - a)) \<noteq>
      gf_mul (gf_pow 6 (c - a) XOR gf_pow 7 (c - a)) (gf_pow 6 (b - a) XOR gf_pow 8 (b - a))"
    using abc by (intro points_three) auto
  then have "v b = 0 \<and> v c = 0" by (rule gf.three_equations [OF a]) (simp_all add: v gf_pow_bound)
  with a(1) show ?thesis by (simp add: gf.mul_zero)
qed

lemma sorted_two: "finite A \<Longrightarrow> card A = 2 \<Longrightarrow> \<exists>a b :: nat. A = {a, b} \<and> a < b"
  by (auto simp: card_2_iff) (metis insert_commute linorder_neqE_nat)

lemma sorted_three:
  assumes "finite A" "card A = 3"
  shows "\<exists>a b c :: nat. A = {a, b, c} \<and> a < b \<and> b < c"
proof -
  have "A \<noteq> {}" using assms(2) by auto
  then have "Max A \<in> A" using assms(1) by simp
  then have "card (A - {Max A}) = 2" using assms by simp
  then obtain a b where ab: "A - {Max A} = {a, b}" "a < b" using sorted_two assms(1) by blast
  then have "b \<in> A" "b \<noteq> Max A" by auto
  then have "b < Max A" using assms(1) by (simp add: le_neq_implies_less)
  moreover have "A = {a, b, Max A}"
    using ab assms Max_in [of A] by (metis card.empty insert_Diff insert_commute zero_neq_numeral)
  ultimately show ?thesis using ab(2) by blast
qed

lemma default_codec_regular:
  assumes "codec_init 5 3 = Inr codec" and "encode cr codec oid payload = Inr shs"
    and "set ss \<subseteq> set shs" and "5 \<le> card (sh_shard_index ` set ss)"
  shows "\<not> singular (chosen_rows codec ss)"
proof
  assume sing: "singular (chosen_rows codec ss)"
  have enough: "5 \<le> int (card (sh_shard_index ` set ss))" using assms(4) by simp
  note ch = chosen_encoded [OF assms(1,2,3) enough]
  have k: "dimension codec = 5" and n: "nat (total_shards codec) = 8"
    using assms(1) by (auto simp: codec_init_Inr)
  let ?L = "lost codec ss"
  from singular_lost [OF ch(5,1,2,4) sing] obtain v P where "lost_solution codec ss v P" by blast
  then have v: "\<And>j. v j < 256" and ne: "\<exists>j \<in> ?L. v j \<noteq> 0"
    and zero: "\<And>j. j < 5 \<Longrightarrow> j \<notin> ?L \<Longrightarrow> v j = 0"
    and P: "P \<subseteq> set (chosen codec ss)" "card P = card ?L"
    and eqn: "\<And>p. p \<in> P \<Longrightarrow> 5 \<le> p \<and> parity_equation 5 v p"
    by (auto simp: lost_solution_def k)
  have P8: "P \<subseteq> {5, 6, 7}"
  proof
    fix p
    assume p: "p \<in> P"
    with P(1) ch(3) n have "p < 8" by auto
    with eqn [OF p] show "p \<in> {5, 6, 7}" by auto
  qed
  have fin: "finite ?L" by (rule finite_subset [of _ "{..<5}"]) (auto simp: lost_def k)
  have L5: "j < 5" if "j \<in> ?L" for j using that by (simp add: lost_def k)
  have "card P \<le> card {5, 6, 7::nat}" by (rule card_mono) (use P8 in auto)
  moreover have "\<not> card ?L \<le> 1"
    using one_lost_regular [OF assms(1,2,3) enough] sing by blast
  ultimately have "card ?L = 2 \<or> card ?L = 3" using P(2) by auto
  then show False
  proof
    assume two: "card ?L = 2"
    from sorted_two [OF fin two] obtain a b where L: "?L = {a, b}" "a < b" by blast
    from two P(2) obtain p q where "p \<noteq> q" "{p, q} \<subseteq> P" by (metis card_2_iff order_refl)
    moreover from this P8 have "{p, q} \<subseteq> {5, 6, 7}" by blast
    moreover from \<open>{p, q} \<subseteq> P\<close> have "parity_equation 5 v p" "parity_equation 5 v q" using eqn by auto
    moreover have "b < 5" using L(1) by (intro L5) simp
    ultimately have "v a = 0 \<and> v b = 0" using L zero v by (intro solution_two [of a b v p q]) auto
    with ne L show False by auto
  next
    assume three: "card ?L = 3"
    from sorted_three [OF fin three] obtain a b c where L: "?L = {a, b, c}" "a < b" "b < c" by blast
    have "P = {5, 6, 7}" by (rule card_subset_eq) (use P8 P(2) three in auto)
    then have "parity_equation 5 v 5" "parity_equation 5 v 6" "parity_equation 5 v 7" using eqn by auto
    moreover have "c < 5" using L(1) by (intro L5) simp
    ultimately have "v a = 0 \<and> v b = 0 \<and> v c = 0" using L zero v by (intro solution_three [of a b c v]) auto
    with ne L show False by auto
  qed
qed

text \<open>
  C23. The daemon's default codec keeps its promise. With five data and three parity
  shards, any five different shards of an encoding (repeated, in any order, with others) recover
  the payload.
\<close>

theorem default_codec_any_five:
  assumes "codec_init 5 3 = Inr codec" and "encode cr codec oid payload = Inr shs"
    and "digest cr (object_statement payload) \<noteq> []"
    and "set ss \<subseteq> set shs" and "5 \<le> card (sh_shard_index ` set ss)"
  shows "recover cr codec ss = Inr payload"
  using recover_selected [OF assms(1-4)] assms(5) default_codec_regular [OF assms(1,2,4,5)] by simp

subsection \<open>A configuration that loses objects\<close>

definition kernel_witness :: "nat \<Rightarrow> nat" where
  "kernel_witness j =
     (if j = 0 then 100 else if j = 1 then 90 else if j = 2 then 91 else if j = 4 then 1 else 0)"

lemma kernel_witness_parity:
  "parity_equation 5 kernel_witness 5" "parity_equation 5 kernel_witness 6"
  "parity_equation 5 kernel_witness 7" "parity_equation 5 kernel_witness 8"
proof -
  have *: "parity_equation 5 v p \<longleftrightarrow> gf_mul 1 (v 0) XOR gf_mul (gf_pow (p + 1) 1) (v 1)
      XOR gf_mul (gf_pow (p + 1) 2) (v 2) XOR gf_mul (gf_pow (p + 1) 3) (v 3)
      XOR gf_mul (gf_pow (p + 1) 4) (v 4) = 0" for v p
    by (simp add: parity_equation_def numeral_eq_Suc xor.assoc)
  show "parity_equation 5 kernel_witness 5" "parity_equation 5 kernel_witness 6"
    "parity_equation 5 kernel_witness 7" "parity_equation 5 kernel_witness 8"
    unfolding * kernel_witness_def by (simp_all add: gf_eval)
qed

text \<open>
  Not every choice of k shards decodes. With five data and four parity shards, a
  configuration the codec accepts, the five shards 3, 5, 6, 7 and 8 of any encoding are refused
  as singular, whatever the payload: the matrix is the identity over rows of powers, and some of
  its square submatrices are singular over GF(256).
\<close>

theorem codec_five_four_singular:
  assumes "codec_init 5 4 = Inr codec" and "encode cr codec oid payload = Inr shs"
    and "digest cr (object_statement payload) \<noteq> []"
  shows "recover cr codec [shs ! 3, shs ! 5, shs ! 6, shs ! 7, shs ! 8] =
    Inl (AvailabilityError ''erasure matrix is singular'')"
proof -
  let ?ss = "[shs ! 3, shs ! 5, shs ! 6, shs ! 7, shs ! 8]"
  have k: "dimension codec = 5" and n: "nat (total_shards codec) = 9"
    using assms(1) by (auto simp: codec_init_Inr)
  from encode_InrE [OF codec_init_wf [OF assms(1)] assms(2)] n obtain frame where
    shs: "shs = map (encoded_shard cr codec oid payload frame) [0..<9]" by metis
  then have "set ?ss \<subseteq> set shs" by auto
  moreover have I: "sh_shard_index ` set ?ss = {3, 5, 6, 7, 8}" using shs by auto
  ultimately have rec: "recover cr codec ?ss =
      (if singular (chosen_rows codec ?ss)
       then Inl (AvailabilityError ''erasure matrix is singular'') else Inr payload)"
    by (intro recover_selected [OF assms]) simp_all
  have "chosen codec ?ss = [3, 5, 6, 7, 8]"
    unfolding chosen_def I k by simp
  then have rows: "chosen_rows codec ?ss = map (matrix_row 5) [3, 5, 6, 7, 8]"
    by (simp add: chosen_rows_def k)
  have lt: "kernel_witness j < 256" for j
    by (simp add: kernel_witness_def)
  have "kernel_witness 3 = 0" by (simp add: kernel_witness_def)
  then have "kernel 5 (chosen_rows codec ?ss) kernel_witness"
    using kernel_witness_parity lt
    by (simp add: rows kernel_set dotx_parity_row dotx_identity_row)
  moreover have "kernel_witness 4 \<noteq> 0" by (simp add: kernel_witness_def)
  moreover have "length (chosen_rows codec ?ss) = 5" by (simp add: rows)
  moreover have "(4::nat) < 5" by simp
  ultimately have "singular (chosen_rows codec ?ss)"
    using lt unfolding singular_def by (intro exI [of _ kernel_witness]) metis
  with rec show ?thesis by simp
qed

text \<open>
  C24. Recovery never returns a wrong payload. Whatever shards it is given, tampered or
  mixed, if they claim the content digest of an encoded payload and \<open>recover\<close> returns, it returns
  that payload, unless SHA-256 collides on the two payloads.
\<close>

theorem recover_never_wrong:
  assumes "recover cr codec ss = Inr result"
    and "\<forall>s \<in> set ss. sh_content_digest s = digest cr (object_statement payload)"
    and "0 < data_shards codec"
    and "no_collision cr (object_statement result) (object_statement payload)"
  shows "result = payload"
proof -
  have len: "\<not> int (length (dict_of sh_shard_index ss)) < data_shards codec"
    and d: "digest cr (object_statement result) = sh_content_digest (hd (select_shards codec ss))"
    using assms(1) by (auto simp: recover_def Let_def bindE_Inr_iff split: if_splits)
  let ?keys = "take (nat (data_shards codec)) (sort (dict_keys (dict_of sh_shard_index ss)))"
  have "0 < length (dict_of sh_shard_index ss)" using len assms(3) by linarith
  moreover have "sort xs = [] \<longleftrightarrow> xs = []" for xs :: "int list" by (metis length_0_conv length_sort)
  ultimately have ne: "?keys \<noteq> []" using assms(3) by simp
  then have "hd ?keys \<in> set (dict_keys (dict_of sh_shard_index ss))"
    using hd_in_set [OF ne] set_take_subset by fastforce
  then obtain s where s: "map_of (dict_of sh_shard_index ss) (hd ?keys) = Some s"
    by (metis map_of_eq_None_iff option.exhaust set_map)
  then have "s \<in> set ss" using set_dict_of by (fastforce dest: map_of_SomeD)
  moreover have "hd (select_shards codec ss) = s"
    using ne s by (simp add: select_shards_def Let_def hd_map)
  ultimately have "digest cr (object_statement result) = digest cr (object_statement payload)"
    using d assms(2) by simp
  from digest_norm [OF this assms(4)]
  have "json_norm (object_statement result) = json_norm (object_statement payload)"
    by (simp add: object_statement_def)
  then have "hex result = hex payload" by (simp add: object_statement_def)
  then show ?thesis by (rule hex_inject)
qed

subsection \<open>Concrete runs\<close>

lemma encode_exists:
  assumes "wf_codec codec" "oid \<noteq> []" "length payload < 2 ^ 64"
  obtains shs where "encode cr codec oid payload = Inr shs"
  using encode_returns [OF assms, of cr] by metis

lemma encoded_list:
  assumes "wf_codec codec" "encode cr codec oid payload = Inr shs"
  shows "length shs = nat (total_shards codec)"
    "i < nat (total_shards codec) \<Longrightarrow> sh_shard_index (shs ! i) = int i"
    "map sh_shard_index shs = map int [0..<nat (total_shards codec)]"
    "s \<in> set shs \<Longrightarrow> sh_content_digest s = digest cr (object_statement payload)"
    "s \<in> set shs \<Longrightarrow> sh_object_id s = oid"
    "s \<in> set shs \<Longrightarrow> sh_total_shards s = total_shards codec \<and> sh_data_shards s = data_shards codec"
proof -
  from encode_InrE [OF assms] obtain frame where
    "shs = map (encoded_shard cr codec oid payload frame) [0..<nat (total_shards codec)]" by metis
  then show "length shs = nat (total_shards codec)"
    "i < nat (total_shards codec) \<Longrightarrow> sh_shard_index (shs ! i) = int i"
    "map sh_shard_index shs = map int [0..<nat (total_shards codec)]"
    "s \<in> set shs \<Longrightarrow> sh_content_digest s = digest cr (object_statement payload)"
    "s \<in> set shs \<Longrightarrow> sh_object_id s = oid"
    "s \<in> set shs \<Longrightarrow> sh_total_shards s = total_shards codec \<and> sh_data_shards s = data_shards codec"
    by auto
qed

lemma demo_object_digest [simp]: "digest demo_crypto (object_statement payload) \<noteq> []"
  by (rule demo_digest_ne) (simp add: object_statement_def)

lemma demo_encode:
  assumes "codec_init d p = Inr codec"
  shows "\<exists>shs. encode demo_crypto codec ''o'' ''data'' = Inr shs \<and> data_shards codec = d
    \<and> (\<forall>i. sh_shard_index ` set (drop i shs) = {int i..<d + p})"
proof -
  have codec: "wf_codec codec" using assms by (rule codec_init_wf)
  from encode_exists [OF codec, of "''o''" "''data''" demo_crypto] obtain shs where
    shs: "encode demo_crypto codec ''o'' ''data'' = Inr shs" by auto
  moreover have "total_shards codec = d + p" "data_shards codec = d" using assms by (auto simp: codec_init_Inr)
  moreover have idx: "map sh_shard_index shs = map int [0..<nat (d + p)]"
    using calculation encoded_list(3) [OF codec shs] by simp
  moreover have "sh_shard_index ` set (drop i shs) = {int i..<d + p}" for i
  proof -
    have "sh_shard_index ` set (drop i shs) = set (map int [i..<nat (d + p)])"
      using idx by (metis drop_map drop_upt list.set_map plus_nat.add_0)
    also have "\<dots> = {int i..<d + p}" by (force simp: image_iff intro: bexI [of _ "nat _"])
    finally show ?thesis .
  qed
  ultimately show ?thesis using shs by blast
qed

theorem default_codec_any_five_witness:
  "bindE (codec_init 5 3) (\<lambda>codec. bindE (encode demo_crypto codec ''o'' ''data'')
     (\<lambda>shs. recover demo_crypto codec (rev (drop 3 shs)))) = Inr ''data''"
proof -
  obtain codec where codec: "codec_init 5 3 = Inr codec" by (simp add: codec_init_def)
  from demo_encode [OF this] obtain shs where shs: "encode demo_crypto codec ''o'' ''data'' = Inr shs"
    "\<forall>i. sh_shard_index ` set (drop i shs) = {int i..<8}" by auto
  have "recover demo_crypto codec (rev (drop 3 shs)) = Inr ''data''"
    using spec [OF shs(2), of 3] by (intro default_codec_any_five [OF codec shs(1)]) (auto dest: in_set_dropD)
  with codec shs(1) show ?thesis by simp
qed

lemma demo_lost:
  assumes "codec_init 2 1 = Inr codec"
  shows "\<exists>shs. encode demo_crypto codec ''o'' ''data'' = Inr shs \<and> data_shards codec = 2
    \<and> sh_shard_index ` set (drop 1 shs) = {1..<3} \<and> lost codec (drop 1 shs) = {0}"
proof -
  from demo_encode [OF assms] obtain shs where shs: "encode demo_crypto codec ''o'' ''data'' = Inr shs"
    "\<forall>i. sh_shard_index ` set (drop i shs) = {int i..<3}" "data_shards codec = 2" by auto
  from shs(2) have I: "sh_shard_index ` set (drop 1 shs) = {1..<3}" by (metis of_nat_1)
  have "lost codec (drop 1 shs) = {0}" unfolding lost_def I by (auto simp: shs(3))
  with shs(1,3) I show ?thesis by blast
qed

theorem recover_one_lost_witness:
  "bindE (codec_init 2 1) (\<lambda>codec. bindE (encode demo_crypto codec ''o'' ''data'')
     (\<lambda>shs. recover demo_crypto codec (drop 1 shs))) = Inr ''data''"
proof -
  obtain codec where codec: "codec_init 2 1 = Inr codec" by (simp add: codec_init_def)
  from demo_lost [OF this] obtain shs where shs: "encode demo_crypto codec ''o'' ''data'' = Inr shs"
    "sh_shard_index ` set (drop 1 shs) = {1..<3}" "lost codec (drop 1 shs) = {0}" by blast
  then have "recover demo_crypto codec (drop 1 shs) = Inr ''data''"
    using shs(2) by (intro recover_one_lost [OF codec shs(1)]) (auto dest: in_set_dropD)
  with codec shs(1) show ?thesis by simp
qed

theorem recover_encoded_witness:
  "\<exists>codec shs. codec_init 2 1 = Inr codec \<and> encode demo_crypto codec ''o'' ''data'' = Inr shs \<and>
     recover demo_crypto codec shs =
       (if singular (chosen_rows codec shs)
        then Inl (AvailabilityError ''erasure matrix is singular'') else Inr ''data'')"
proof -
  obtain codec where codec: "codec_init 2 1 = Inr codec" by (simp add: codec_init_def)
  from demo_encode [OF this] obtain shs where shs: "encode demo_crypto codec ''o'' ''data'' = Inr shs"
    "\<forall>i. sh_shard_index ` set (drop i shs) = {int i..<3}" by auto
  have "recover demo_crypto codec shs = (if singular (chosen_rows codec shs)
      then Inl (AvailabilityError ''erasure matrix is singular'') else Inr ''data'')"
    using spec [OF shs(2), of 0] by (intro recover_encoded [OF codec shs(1)]) auto
  with codec shs(1) show ?thesis by blast
qed

theorem codec_five_four_singular_witness:
  "bindE (codec_init 5 4) (\<lambda>codec. bindE (encode demo_crypto codec ''o'' ''data'') (\<lambda>shs.
     recover demo_crypto codec [shs ! 3, shs ! 5, shs ! 6, shs ! 7, shs ! 8])) =
   Inl (AvailabilityError ''erasure matrix is singular'')"
proof -
  obtain codec where codec: "codec_init 5 4 = Inr codec" by (simp add: codec_init_def)
  from demo_encode [OF this] obtain shs where shs: "encode demo_crypto codec ''o'' ''data'' = Inr shs" by auto
  from codec_five_four_singular [OF codec shs] codec shs show ?thesis by simp
qed

theorem recover_never_wrong_witness:
  "\<exists>codec shs result. encode demo_crypto codec ''o'' ''data'' = Inr shs \<and>
     recover demo_crypto codec (drop 1 shs) = Inr result \<and> result = ''data''"
proof -
  obtain codec where codec: "codec_init 2 1 = Inr codec" by (simp add: codec_init_def)
  from demo_lost [OF this] obtain shs where shs: "encode demo_crypto codec ''o'' ''data'' = Inr shs"
    "sh_shard_index ` set (drop 1 shs) = {1..<3}" "data_shards codec = 2" "lost codec (drop 1 shs) = {0}"
    by blast
  have sub: "set (drop 1 shs) \<subseteq> set shs" by (rule set_drop_subset)
  have enough: "2 \<le> int (card (sh_shard_index ` set (drop 1 shs)))" using shs(2) by simp
  have "\<not> singular (chosen_rows codec (drop 1 shs))"
    using shs(4) by (intro one_lost_regular [OF codec shs(1) sub enough]) simp
  then obtain result where r: "recover demo_crypto codec (drop 1 shs) = Inr result"
    using recover_selected [OF codec shs(1) _ sub enough] by auto
  have "sh_content_digest s = digest demo_crypto (object_statement ''data'')" if "s \<in> set (drop 1 shs)" for s
    using that sub encoded_list(4) [OF codec_init_wf [OF codec] shs(1)] by blast
  then have "result = ''data''" using shs(3) by (intro recover_never_wrong [OF r]) auto
  with shs r show ?thesis by blast
qed

end
