(* ===== verification/Erasure_Store.thy ===== *)
theory Erasure_Store
  imports Erasure_Props "HOL-Library.Multiset"
begin

section \<open>The provider's store and availability certificates\<close>

text \<open>
  \<open>store_ok\<close> is the invariant of \<open>AvailabilityStore\<close>: each object holds verified shards of the
  store's own codec under their own index, all with one content digest. Every operation keeps it,
  whether it returns or raises. \<open>store_repair_completes\<close>: a repair that returns leaves nothing
  missing. A certificate verifies under the committee it was built for, in whatever order the
  attestations came.
\<close>

definition entry_ok :: "crypto \<Rightarrow> erasure_codec \<Rightarrow> string \<Rightarrow> (int \<times> shard) \<Rightarrow> bool" where
  "entry_ok cr codec oid p \<longleftrightarrow> sh_shard_index (snd p) = fst p \<and> sh_object_id (snd p) = oid
     \<and> shard_verify cr (snd p) \<and> sh_total_shards (snd p) = total_shards codec
     \<and> sh_data_shards (snd p) = data_shards codec"

definition object_ok :: "crypto \<Rightarrow> erasure_codec \<Rightarrow> string \<Rightarrow> (int, shard) dict \<Rightarrow> bool" where
  "object_ok cr codec oid d \<longleftrightarrow> wf_dict d \<and> (\<forall>p \<in> set d. entry_ok cr codec oid p)
     \<and> (\<forall>p \<in> set d. \<forall>q \<in> set d. sh_content_digest (snd p) = sh_content_digest (snd q))"

definition store_ok :: "crypto \<Rightarrow> availability_store \<Rightarrow> bool" where
  "store_ok cr st \<longleftrightarrow> wf_codec (store_codec st) \<and> wf_dict (objects st)
     \<and> (\<forall>(oid, d) \<in> set (objects st). object_ok cr (store_codec st) oid d)"

lemma store_ok_update:
  assumes "store_ok cr st" "object_ok cr (store_codec st) oid d"
  shows "store_ok cr (st\<lparr>objects := AList.update oid d (objects st)\<rparr>)"
proof -
  have "set (AList.update oid d (objects st)) \<subseteq> insert (oid, d) (set (objects st))"
    by (rule set_update_subset)
  with assms show ?thesis by (auto simp: store_ok_def)
qed

lemma object_ok_Nil [simp]: "object_ok cr codec oid []"
  by (simp add: object_ok_def)

lemma object_shards_ok: "store_ok cr st \<Longrightarrow> object_ok cr (store_codec st) oid (object_shards st oid)"
  by (auto simp: store_ok_def object_shards_def split: option.splits dest: map_of_SomeD)

lemma object_ok_update:
  assumes ok: "object_ok cr codec oid d" and s: "entry_ok cr codec oid (i, s)"
    and same: "d \<noteq> [] \<Longrightarrow> sh_content_digest (snd (hd d)) = sh_content_digest s"
  shows "object_ok cr codec oid (AList.update i s d)"
proof -
  have sub: "set (AList.update i s d) \<subseteq> insert (i, s) (set d)" by (rule set_update_subset)
  have "sh_content_digest (snd p) = sh_content_digest s" if "p \<in> set d" for p
  proof -
    from that have "d \<noteq> []" by auto
    then have "hd d \<in> set d" by simp
    with ok that have "sh_content_digest (snd p) = sh_content_digest (snd (hd d))"
      unfolding object_ok_def by blast
    with same [OF \<open>d \<noteq> []\<close>] show ?thesis by simp
  qed
  with ok s have "\<forall>p \<in> insert (i, s) (set d). entry_ok cr codec oid p \<and> sh_content_digest (snd p) = sh_content_digest s"
    by (simp add: object_ok_def)
  with sub have "\<forall>p \<in> set (AList.update i s d). entry_ok cr codec oid p \<and> sh_content_digest (snd p) = sh_content_digest s"
    by blast
  moreover have "wf_dict (AList.update i s d)" using ok by (intro wf_dict_update) (simp add: object_ok_def)
  ultimately show ?thesis unfolding object_ok_def by auto
qed

lemma object_shards_update [simp]:
  "object_shards (st\<lparr>objects := AList.update oid d (objects st)\<rparr>) oid' =
     (if oid' = oid then d else object_shards st oid')"
  by (simp add: object_shards_def)

lemma put_shard_ok:
  assumes ok: "store_ok cr st" and put: "put_shard cr s st = (r, st')"
  shows "store_ok cr st'" "store_codec st' = store_codec st"
    "r = Inr () \<Longrightarrow> object_shards st' (sh_object_id s) =
       AList.update (sh_shard_index s) s (object_shards st (sh_object_id s))"
    "set (dict_keys (object_shards st oid)) \<subseteq> set (dict_keys (object_shards st' oid))"
proof -
  let ?oid = "sh_object_id s"
  define st1 where "st1 = (if has_key (objects st) ?oid then st
      else st\<lparr>objects := AList.update ?oid [] (objects st)\<rparr>)"
  have st1: "store_ok cr st1" "store_codec st1 = store_codec st"
    "\<And>oid. object_shards st1 oid = object_shards st oid"
    using ok by (auto simp: st1_def store_ok_update object_shards_def has_key_map_of)
  let ?ex = "object_shards st ?oid"
  from put consider (same) "st' = st" "r \<noteq> Inr ()" | (clash) "st' = st1" "r \<noteq> Inr ()"
    | (stored) "st' = st1\<lparr>objects := AList.update ?oid (AList.update (sh_shard_index s) s ?ex) (objects st1)\<rparr>"
        "shard_verify cr s" "sh_total_shards s = total_shards (store_codec st)"
        "sh_data_shards s = data_shards (store_codec st)"
        "?ex \<noteq> [] \<Longrightarrow> sh_content_digest (snd (hd ?ex)) = sh_content_digest s"
    by (auto simp: put_shard_def Let_def st1(3) simp flip: st1_def split: if_splits)
  then have "store_ok cr st' \<and> store_codec st' = store_codec st
    \<and> (r = Inr () \<longrightarrow> object_shards st' ?oid = AList.update (sh_shard_index s) s ?ex)
    \<and> set (dict_keys (object_shards st oid)) \<subseteq> set (dict_keys (object_shards st' oid))"
  proof cases
    case stored
    have "object_ok cr (store_codec st) ?oid (AList.update (sh_shard_index s) s ?ex)"
      using stored by (intro object_ok_update object_shards_ok [OF ok]) (auto simp: entry_ok_def)
    with st1 have "store_ok cr st'" unfolding stored(1) by (intro store_ok_update) simp_all
    then show ?thesis using st1 by (auto simp: stored(1) keys_update simp del: set_map)
  qed (use ok st1 in simp_all)
  then show "store_ok cr st'" "store_codec st' = store_codec st"
    "r = Inr () \<Longrightarrow> object_shards st' ?oid = AList.update (sh_shard_index s) s ?ex"
    "set (dict_keys (object_shards st oid)) \<subseteq> set (dict_keys (object_shards st' oid))" by blast+
qed

lemma put_shards_ok:
  "store_ok cr st \<Longrightarrow> put_shards cr ss st = (r, st') \<Longrightarrow>
   store_ok cr st' \<and> store_codec st' = store_codec st
   \<and> set (dict_keys (object_shards st oid)) \<subseteq> set (dict_keys (object_shards st' oid))
   \<and> (r = Inr () \<longrightarrow> (\<forall>s \<in> set ss. sh_object_id s = oid \<longrightarrow>
        sh_shard_index s \<in> set (dict_keys (object_shards st' oid))))"
proof (induction ss arbitrary: st)
  case (Cons s ss)
  from Cons.prems(2) show ?case unfolding put_shards.simps
  proof (cases rule: thenS_cases)
    case (first e)
    with put_shard_ok [OF Cons.prems(1) first(1)] show ?thesis by simp
  next
    case (both u st1)
    note step = put_shard_ok [OF Cons.prems(1) both(1)]
    note IH = Cons.IH [OF step(1) both(2)]
    have "sh_shard_index s \<in> set (dict_keys (object_shards st1 oid))" if "sh_object_id s = oid"
      using step(3) that by (simp add: keys_update del: set_map)
    with IH step(2) step(4) [of oid] show ?thesis by (auto simp del: set_map)
  qed
qed simp

lemma encode_object_ok:
  assumes codec: "wf_codec codec" and enc: "encode cr codec oid payload = Inr shs"
    and "digest cr (object_statement payload) \<noteq> []"
  shows "s \<in> set shs \<Longrightarrow> entry_ok cr codec oid (sh_shard_index s, s)"
    "object_ok cr codec oid (dict_of sh_shard_index shs)"
    "set (dict_keys (dict_of sh_shard_index shs)) = {0..<total_shards codec}"
proof -
  from encode_InrE [OF codec enc] obtain frame where "oid \<noteq> []" and
    shs: "shs = map (encoded_shard cr codec oid payload frame) [0..<nat (total_shards codec)]" by metis
  show entry: "entry_ok cr codec oid (sh_shard_index s, s)" if "s \<in> set shs" for s
    using that shs codec \<open>oid \<noteq> []\<close> assms(3) by (auto simp: entry_ok_def encoded_shard_verify)
  from shs entry show "object_ok cr codec oid (dict_of sh_shard_index shs)"
    by (auto simp: object_ok_def dest!: set_dict_of)
  have "sh_shard_index ` set shs = int ` {0..<nat (total_shards codec)}"
    using shs by (simp add: image_image)
  also have "\<dots> = {0..<total_shards codec}" by (force simp: image_iff intro: bexI [of _ "nat _"])
  finally show "set (dict_keys (dict_of sh_shard_index shs)) = {0..<total_shards codec}"
    by (simp only: keys_dict_of)
qed

subsection \<open>The store as a state machine\<close>

datatype store_operation =
    Publish string string
  | Put shard
  | Repair string "shard list option"

fun store_call :: "crypto \<Rightarrow> store_operation \<Rightarrow> availability_store \<Rightarrow> availability_store" where
  "store_call cr (Publish oid payload) st = snd (publish cr oid payload st)"
| "store_call cr (Put s) st = snd (put_shard cr s st)"
| "store_call cr (Repair oid src) st = snd (store_repair cr oid src st)"

lemma store_call_ok:
  assumes "\<And>payload. digest cr (object_statement payload) \<noteq> []" "store_ok cr st"
  shows "store_ok cr (store_call cr c st)"
proof (cases c)
  case (Publish oid payload)
  have "wf_codec (store_codec st)" using assms(2) by (simp add: store_ok_def)
  with Publish assms show ?thesis
    by (auto simp: publish_def encode_object_ok(2) store_ok_update split: sum.splits)
next
  case (Put s)
  with put_shard_ok(1) [OF assms(2)] show ?thesis by (cases "put_shard cr s st") simp
next
  case (Repair oid src)
  have "store_ok cr (snd (thenS (put_shards cr ss) (\<lambda>_ s. (Inr ss, s)) st))" for ss
    using put_shards_ok [OF assms(2)] by (fastforce simp: thenS_def split: prod.splits sum.splits)
  with Repair assms(2) show ?thesis by (auto simp: store_repair_def Let_def split: sum.splits)
qed

text \<open>
  What a provider's store holds. After any sequence of publications, puts and
  repairs, whether they returned or raised, every object of the store holds only verified shards of
  the store's codec, each under its own index, all with the same content digest.
\<close>

theorem store_run_ok:
  assumes "\<And>payload. digest cr (object_statement payload) \<noteq> []"
    and "store_ok cr st"
  shows "store_ok cr (fold (store_call cr) calls st)"
  using assms(2) by (induction calls arbitrary: st) (simp_all add: store_call_ok [OF assms(1)])

text \<open>
  A repair that returns is complete. If the source shards belong to the object being
  repaired and \<open>store_repair\<close> returns, then no index of the object is missing afterwards.
\<close>

theorem store_repair_completes:
  assumes "store_ok cr st"
    and "sh_object_id (hd (case src of Some ss \<Rightarrow> ss | None \<Rightarrow> store_shards st oid)) = oid"
    and "store_repair cr oid src st = (Inr repaired, st')"
  shows "missing_shards st' oid = []"
proof -
  let ?source = "case src of Some ss \<Rightarrow> ss | None \<Rightarrow> store_shards st oid"
  let ?missing = "missing_shards st oid"
  have codec: "wf_codec (store_codec st)" using assms(1) by (simp add: store_ok_def)
  show ?thesis
  proof (cases "?missing = []")
    case True
    with assms(3) show ?thesis by (simp add: store_repair_def)
  next
    case False
    with assms(3) obtain rep where rep: "codec_repair cr (store_codec st) ?source ?missing = Inr rep"
      and run: "thenS (put_shards cr rep) (\<lambda>_ s. (Inr rep, s)) st = (Inr repaired, st')"
      by (auto simp: store_repair_def Let_def split: sum.splits)
    from run have put: "put_shards cr rep st = (Inr (), st')"
      by (auto elim!: thenS_Inr)
    from rep assms(2) obtain payload encoded where enc: "encode cr (store_codec st) oid payload = Inr encoded"
      and r: "rep = map (\<lambda>i. the (map_of (dict_of sh_shard_index encoded) i)) (sort (remdups ?missing))"
      by (auto simp: codec_repair_def bindE_Inr_iff Let_def split: if_splits)
    have keys: "sh_shard_index ` set encoded = {0..<total_shards (store_codec st)}"
    proof -
      have "sh_shard_index ` set encoded = int ` {0..<nat (total_shards (store_codec st))}"
        using encoded_list(3) [OF codec enc] by (metis atLeastLessThan_upt list.set_map)
      also have "\<dots> = {0..<total_shards (store_codec st)}" by (force simp: image_iff intro: bexI [of _ "nat _"])
      finally show ?thesis .
    qed
    have rebuilt: "\<exists>s \<in> set rep. sh_object_id s = oid \<and> sh_shard_index s = i" if "i \<in> set ?missing" for i
    proof -
      from that have "i \<in> {0..<total_shards (store_codec st)}"
        by (auto simp: missing_shards_def Let_def)
      then have "i \<in> set (dict_keys (dict_of sh_shard_index encoded))" by (simp only: keys_dict_of keys)
      then obtain s where s: "map_of (dict_of sh_shard_index encoded) i = Some s"
        by (metis map_of_eq_None_iff option.exhaust set_map)
      then have "i = sh_shard_index s \<and> s \<in> set encoded" by (intro set_dict_of map_of_SomeD)
      moreover have "s \<in> set rep" using s that r by force
      ultimately show ?thesis using encoded_list(5) [OF codec enc] by blast
    qed
    from put_shards_ok [OF assms(1) put, of oid]
    have "set (dict_keys (object_shards st oid)) \<subseteq> set (dict_keys (object_shards st' oid))"
      "\<forall>s \<in> set rep. sh_object_id s = oid \<longrightarrow> sh_shard_index s \<in> set (dict_keys (object_shards st' oid))"
      "store_codec st' = store_codec st" by auto
    with rebuilt have all: "i \<in> set (dict_keys (object_shards st' oid))"
      if "i \<in> set ?missing \<or> i \<in> set (dict_keys (object_shards st oid))" for i
      using that by blast
    have "i \<in> set ?missing \<or> i \<in> set (dict_keys (object_shards st oid))"
      if "i \<in> set (map int [0..<nat (total_shards (store_codec st))])" for i
      using that unfolding missing_shards_def Let_def set_filter by blast
    with all have "\<forall>i \<in> set (map int [0..<nat (total_shards (store_codec st))]).
        i \<in> set (dict_keys (object_shards st' oid))" by blast
    with \<open>store_codec st' = store_codec st\<close> show ?thesis
      unfolding missing_shards_def Let_def filter_empty_conv by simp
  qed
qed

text \<open>Shards of the object the store already holds are accepted.\<close>

lemma put_shard_returns:
  assumes ok: "store_ok cr st" and s: "entry_ok cr (store_codec st) oid (sh_shard_index s, s)"
    and same: "\<And>t. t \<in> set (store_shards st oid) \<Longrightarrow> sh_content_digest t = sh_content_digest s"
  obtains st' where "put_shard cr s st = (Inr (), st')"
    "set (store_shards st' oid) \<subseteq> insert s (set (store_shards st oid))"
proof -
  have ex: "object_shards (if has_key (objects st) oid then st
      else st\<lparr>objects := AList.update oid [] (objects st)\<rparr>) oid = object_shards st oid"
    by (simp add: object_shards_def has_key_map_of)
  have "object_shards st oid = [] \<or> sh_content_digest (snd (hd (object_shards st oid))) = sh_content_digest s"
  proof (cases "object_shards st oid = []")
    case False
    then have "snd (hd (object_shards st oid)) \<in> set (store_shards st oid)" by (simp add: store_shards_def)
    from same [OF this] show ?thesis by simp
  qed simp
  with s ex have put: "fst (put_shard cr s st) = Inr ()"
    by (simp add: put_shard_def Let_def entry_ok_def)
  then obtain st' where st': "put_shard cr s st = (Inr (), st')" by (metis prod.collapse)
  moreover have "object_shards st' oid = AList.update (sh_shard_index s) s (object_shards st oid)"
    using put_shard_ok(3) [OF ok st'] s by (simp add: entry_ok_def)
  then have "set (store_shards st' oid) \<subseteq> insert s (set (store_shards st oid))"
    unfolding store_shards_def using values_update_subset by metis
  ultimately show ?thesis by (rule that)
qed

lemma put_shards_returns:
  "store_ok cr st \<Longrightarrow> \<forall>s \<in> set ss. entry_ok cr (store_codec st) oid (sh_shard_index s, s) \<Longrightarrow>
   \<forall>s \<in> set ss \<union> set (store_shards st oid). sh_content_digest s = cd \<Longrightarrow>
   \<exists>st'. put_shards cr ss st = (Inr (), st')
     \<and> set (store_shards st' oid) \<subseteq> set ss \<union> set (store_shards st oid)"
proof (induction ss arbitrary: st)
  case (Cons s ss)
  have "entry_ok cr (store_codec st) oid (sh_shard_index s, s)"
    "\<And>t. t \<in> set (store_shards st oid) \<Longrightarrow> sh_content_digest t = sh_content_digest s"
    using Cons.prems(2,3) by auto
  from put_shard_returns [OF Cons.prems(1) this] obtain st1 where
    st1: "put_shard cr s st = (Inr (), st1)" and sub: "set (store_shards st1 oid) \<subseteq> insert s (set (store_shards st oid))" .
  note ok = put_shard_ok [OF Cons.prems(1) st1]
  have "\<forall>t \<in> set ss \<union> set (store_shards st1 oid). sh_content_digest t = cd"
    using Cons.prems(3) sub by auto
  with Cons.IH [OF ok(1)] Cons.prems(2) ok(2) obtain st' where
    "put_shards cr ss st1 = (Inr (), st')" "set (store_shards st' oid) \<subseteq> set ss \<union> set (store_shards st1 oid)" by auto
  with st1 sub show ?case by (auto simp: thenS_def)
qed simp

text \<open>A repair from shards of an encoding returns the missing shards of that encoding.\<close>

lemma codec_repair_encoded:
  assumes codec: "wf_codec codec" and enc: "encode cr codec oid payload = Inr shs"
    and rec: "recover cr codec ss = Inr payload" and src: "hd ss \<in> set shs"
    and missing: "set missing \<subseteq> {0..<total_shards codec}"
  obtains rep where "codec_repair cr codec ss missing = Inr rep" "set rep \<subseteq> set shs"
proof -
  let ?d = "dict_of sh_shard_index shs"
  have "sh_object_id (hd ss) = oid" using encoded_list(5) [OF codec enc src] .
  moreover have "list_all (\<lambda>i. 0 \<le> i \<and> i < total_shards codec) (sort (remdups missing))"
    using missing by (auto simp: list_all_iff)
  ultimately have "codec_repair cr codec ss missing =
      Inr (map (\<lambda>i. the (map_of ?d i)) (sort (remdups missing)))"
    using rec enc by (simp add: codec_repair_def)
  moreover have "the (map_of ?d i) \<in> set shs" if "i \<in> set missing" for i
  proof -
    have "i \<in> sh_shard_index ` set shs"
    proof -
      from that missing have i: "0 \<le> i" "i < total_shards codec" by auto
      then have "nat i < nat (total_shards codec)" by simp
      with i encoded_list(1,2) [OF codec enc] have "sh_shard_index (shs ! nat i) = i" "shs ! nat i \<in> set shs" by simp_all
      then show ?thesis by (metis imageI)
    qed
    then have "i \<in> set (dict_keys ?d)" by (simp only: keys_dict_of)
    then obtain s where "map_of ?d i = Some s" by (metis map_of_eq_None_iff option.exhaust set_map)
    then show ?thesis using set_dict_of by (fastforce dest: map_of_SomeD)
  qed
  ultimately show ?thesis using that by (simp add: image_subset_iff)
qed

text \<open>
  The default store heals itself. A store with the daemon's default codec that holds
  at least five shards of an encoded object, and no foreign shard of it, repairs the object: the
  call returns, nothing is missing afterwards, the store then holds exactly the shards of the
  encoding, and recovery from it gives the payload.
\<close>

theorem default_store_heals:
  assumes "store_ok cr st" and "codec_init 5 3 = Inr (store_codec st)"
    and "encode cr (store_codec st) oid payload = Inr shs"
    and "digest cr (object_statement payload) \<noteq> []"
    and "set (store_shards st oid) \<subseteq> set shs" and "5 \<le> length (store_shards st oid)"
  shows "\<exists>repaired st'. store_repair cr oid None st = (Inr repaired, st') \<and> missing_shards st' oid = []
    \<and> set (store_shards st' oid) \<subseteq> set shs \<and> store_recover cr st' oid = Inr payload"
proof -
  let ?codec = "store_codec st" and ?held = "store_shards st oid"
  have codec: "wf_codec ?codec" using assms(1) by (simp add: store_ok_def)
  have distinct_held: "distinct (map sh_shard_index (store_shards st' oid))" if "store_ok cr st'" for st'
  proof -
    have "map sh_shard_index (store_shards st' oid) = dict_keys (object_shards st' oid)"
      using object_shards_ok [OF that, of oid] by (auto simp: store_shards_def object_ok_def entry_ok_def)
    moreover have "wf_dict (object_shards st' oid)"
      using object_shards_ok [OF that, of oid] by (simp add: object_ok_def)
    ultimately show ?thesis by (simp only:)
  qed
  have recovers: "recover cr ?codec ss = Inr payload"
    if "set ss \<subseteq> set shs" "distinct (map sh_shard_index ss)" "5 \<le> length ss" for ss
  proof -
    have "card (sh_shard_index ` set ss) = length ss" using distinct_card [OF that(2)] by simp
    with that show ?thesis
      using recover_selected [OF assms(2,3,4) that(1)] default_codec_regular [OF assms(2,3) that(1)] by simp
  qed
  note rec = recovers [OF assms(5) distinct_held [OF assms(1)] assms(6)]
  have "?held \<noteq> []" using assms(6) by auto
  then have src: "hd ?held \<in> set shs" using assms(5) by (meson hd_in_set subsetD)
  have "set (missing_shards st oid) \<subseteq> {0..<total_shards ?codec}" by (auto simp: missing_shards_def Let_def)
  from codec_repair_encoded [OF codec assms(3) rec src this] obtain rep where
    rep: "codec_repair cr ?codec ?held (missing_shards st oid) = Inr rep" "set rep \<subseteq> set shs" .
  have "\<forall>s \<in> set rep. entry_ok cr ?codec oid (sh_shard_index s, s)"
    using encode_object_ok(1) [OF codec assms(3,4)] rep(2) by blast
  moreover have "\<forall>s \<in> set rep \<union> set ?held. sh_content_digest s = digest cr (object_statement payload)"
    using rep(2) assms(5) encoded_list(4) [OF codec assms(3)] by blast
  ultimately obtain st' where st': "put_shards cr rep st = (Inr (), st')"
    "set (store_shards st' oid) \<subseteq> set rep \<union> set ?held"
    using put_shards_returns [OF assms(1)] by blast
  have len: "length (store_shards s oid) = card (set (dict_keys (object_shards s oid)))" if "store_ok cr s" for s
  proof -
    have "wf_dict (object_shards s oid)" using object_shards_ok [OF that, of oid] by (simp add: object_ok_def)
    from distinct_card [OF this] show ?thesis by (simp add: store_shards_def)
  qed
  note ok = put_shards_ok [OF assms(1) st'(1), of oid]
  show ?thesis
  proof (cases "missing_shards st oid = []")
    case True
    with rec assms(5) show ?thesis by (simp add: store_repair_def store_recover_def)
  next
    case False
    with rep st'(1) have run: "store_repair cr oid None st = (Inr rep, st')"
      by (simp add: store_repair_def thenS_def)
    have "sh_object_id (hd ?held) = oid" using encoded_list(5) [OF codec assms(3) src] .
    with run have "missing_shards st' oid = []" by (intro store_repair_completes [OF assms(1) _ run]) simp
    moreover have sub: "set (store_shards st' oid) \<subseteq> set shs" using st'(2) rep(2) assms(5) by blast
    moreover have "card (set (dict_keys (object_shards st oid))) \<le> card (set (dict_keys (object_shards st' oid)))"
      using ok by (intro card_mono) (simp_all del: set_map)
    then have "5 \<le> length (store_shards st' oid)" using assms(1,6) ok len by (metis le_trans)
    with ok have "store_recover cr st' oid = Inr payload"
      using recovers [OF sub distinct_held] by (simp add: store_recover_def)
    ultimately show ?thesis using run by blast
  qed
qed

subsection \<open>Certificates\<close>

text \<open>A certificate names the object its attestations name, and its attestations are valid.\<close>

lemma av_certificate_create_Inr:
  assumes "av_certificate_create cr as members threshold = Inr c"
  shows "as \<noteq> []" "distinct (map at_provider_id as)" "avc_attestations c = sort_key at_provider_id as"
    "a \<in> set as \<Longrightarrow> at_object_id a = avc_object_id c \<and> at_content_digest a = avc_content_digest c
       \<and> at_epoch a = avc_epoch c \<and> attestation_verify cr members a = Inr True"
    "avc_total_weight c = sum_list (map (\<lambda>a. weight (the (map_of members (at_provider_id a)))) as)"
    "threshold \<le> avc_total_weight c"
proof -
  show ne: "as \<noteq> []" using assms by (intro notI) (simp add: av_certificate_create_def)
  have "length (dict_of at_provider_id as) = length as"
    using assms by (auto simp: av_certificate_create_def Let_def split: if_splits)
  then have "card (at_provider_id ` set as) = length as" by (simp only: length_dict_of)
  then show dist: "distinct (map at_provider_id as)" by (metis card_distinct length_map list.set_map)
  have "allE (\<lambda>item. if at_object_id item \<noteq> at_object_id (hd as)
      \<or> at_content_digest item \<noteq> at_content_digest (hd as) \<or> at_epoch item \<noteq> at_epoch (hd as)
      then Inr False else attestation_verify cr members item) as = Inr True"
    using assms by (auto simp: av_certificate_create_def Let_def bindE_Inr_iff split: if_splits)
  moreover have c: "avc_object_id c = at_object_id (hd as)" "avc_content_digest c = at_content_digest (hd as)"
    "avc_epoch c = at_epoch (hd as)"
    using assms by (auto simp: av_certificate_create_def Let_def bindE_Inr_iff split: if_splits)
  ultimately show "a \<in> set as \<Longrightarrow> at_object_id a = avc_object_id c \<and> at_content_digest a = avc_content_digest c
       \<and> at_epoch a = avc_epoch c \<and> attestation_verify cr members a = Inr True"
    by (auto simp: allE_True_iff split: if_splits)
  show "avc_attestations c = sort_key at_provider_id as"
    using assms by (auto simp: av_certificate_create_def Let_def bindE_Inr_iff split: if_splits)
  show "threshold \<le> avc_total_weight c"
    using assms by (auto simp: av_certificate_create_def Let_def bindE_Inr_iff split: if_splits)
  show "avc_total_weight c = sum_list (map (\<lambda>a. weight (the (map_of members (at_provider_id a)))) as)"
    using assms dist by (auto simp: av_certificate_create_def Let_def bindE_Inr_iff dict_of_distinct comp_def split: if_splits)
qed

lemma av_certificate_create_perm:
  assumes c: "av_certificate_create cr as members threshold = Inr c" and perm: "mset bs = mset as"
  shows "av_certificate_create cr bs members threshold = Inr c"
proof -
  note props = av_certificate_create_Inr [OF c]
  have set: "set bs = set as" using perm by (rule mset_eq_setD)
  have ne: "bs \<noteq> []" using props(1) perm by auto
  have dist: "distinct (map at_provider_id bs)"
    using props(2) perm by (metis distinct_map mset_eq_imp_distinct_iff set)
  have hd: "hd bs \<in> set as" "hd as \<in> set as" using ne props(1) set by (metis hd_in_set)+
  note same = props(4) [OF hd(1)] props(4) [OF hd(2)]
  have "allE (\<lambda>item. if at_object_id item \<noteq> at_object_id (hd bs)
      \<or> at_content_digest item \<noteq> at_content_digest (hd bs) \<or> at_epoch item \<noteq> at_epoch (hd bs)
      then Inr False else attestation_verify cr members item) bs = Inr True"
    using props(4) same set by (simp add: allE_True_iff)
  moreover have "sort_key at_provider_id bs = sort_key at_provider_id as"
    by (rule sort_key_eqI) (use dist props(2) set in auto)
  moreover have "sum_list (map f bs) = sum_list (map f as)" for f :: "attestation \<Rightarrow> int"
    using perm by (metis mset_map sum_mset_sum_list)
  moreover note dict_of_distinct [OF dist] dict_of_distinct [OF props(2)]
  ultimately show ?thesis
    using c ne dist props(1,2) same unfolding av_certificate_create_def
    by (auto simp: Let_def bindE_Inr_iff comp_def split: if_splits)
qed

text \<open>
  An availability certificate verifies. A certificate that was created verifies under
  the same members and threshold, although verification rebuilds it from the attestations in
  sorted order.
\<close>

theorem av_certificate_roundtrip:
  assumes "av_certificate_create cr as members threshold = Inr c"
  shows "av_certificate_verify cr c members threshold = Inr True"
proof -
  have "mset (avc_attestations c) = mset as" using av_certificate_create_Inr(3) [OF assms] by simp
  from av_certificate_create_perm [OF assms this] show ?thesis by (simp add: av_certificate_verify_def)
qed

subsection \<open>Concrete runs of the store\<close>

definition demo_codec :: erasure_codec where
  "demo_codec = \<lparr>data_shards = 5, parity_shards = 3, total_shards = 8\<rparr>"

definition demo_store :: "(string, (int, shard) dict) dict \<Rightarrow> availability_store" where
  "demo_store objs = \<lparr>store_codec = demo_codec, objects = objs\<rparr>"

definition demo_provider :: member where
  "demo_provider = \<lparr>member_id = ''w1'', member_keypair = Some \<lparr>private_bytes = ''key''\<rparr>, weight = 1,
     public_key_override = None\<rparr>"

lemma demo_codec_init: "codec_init 5 3 = Inr demo_codec"
  by (simp add: codec_init_def demo_codec_def)

theorem store_run_ok_witness:
  "store_ok demo_crypto (fold (store_call demo_crypto)
     [Publish ''o'' ''data'', Repair ''o'' None, Publish [] ''data''] (demo_store []))"
  by (rule store_run_ok) (simp_all add: store_ok_def demo_store_def codec_init_wf [OF demo_codec_init])

theorem default_store_heals_witness:
  "\<exists>shs repaired st'. encode demo_crypto demo_codec ''o'' ''data'' = Inr shs
     \<and> store_repair demo_crypto ''o'' None (demo_store [(''o'', dict_of sh_shard_index (drop 3 shs))])
         = (Inr repaired, st')
     \<and> missing_shards st' ''o'' = [] \<and> store_recover demo_crypto st' ''o'' = Inr ''data''"
proof -
  note codec = codec_init_wf [OF demo_codec_init]
  from demo_encode [OF demo_codec_init] obtain shs where
    shs: "encode demo_crypto demo_codec ''o'' ''data'' = Inr shs"
    "\<forall>i. sh_shard_index ` set (drop i shs) = {int i..<8}" by auto
  let ?d = "dict_of sh_shard_index (drop 3 shs)" and ?st = "\<lambda>shs. demo_store [(''o'', dict_of sh_shard_index (drop 3 shs))]"
  have sub: "set (dict_values ?d) \<subseteq> set shs" 
    by (rule order_trans [OF values_dict_of set_drop_subset])
  have entry: "entry_ok demo_crypto demo_codec ''o'' p" if "p \<in> set ?d" for p
    using that encode_object_ok(1) [OF codec shs(1)] by (cases p rule: prod.exhaust) (auto dest!: set_dict_of in_set_dropD)
  have "sh_content_digest (snd p) = digest demo_crypto (object_statement ''data'')" if "p \<in> set ?d" for p
    using that encoded_list(4) [OF codec shs(1)] by (cases p rule: prod.exhaust) (auto dest!: set_dict_of in_set_dropD)
  with entry have "object_ok demo_crypto demo_codec ''o'' ?d" by (simp add: object_ok_def)
  then have ok: "store_ok demo_crypto (?st shs)" using codec by (simp add: store_ok_def demo_store_def)
  have shards: "store_shards (?st shs) ''o'' = dict_values ?d"
    by (simp add: store_shards_def object_shards_def demo_store_def)
  have "length ?d = 5" unfolding length_dict_of spec [OF shs(2), of 3] by simp
  then have "5 \<le> length (store_shards (?st shs) ''o'')" unfolding shards by simp
  moreover have "codec_init 5 3 = Inr (store_codec (?st shs))"
    using demo_codec_init by (simp add: demo_store_def)
  moreover have "encode demo_crypto (store_codec (?st shs)) ''o'' ''data'' = Inr shs"
    using shs(1) by (simp add: demo_store_def)
  moreover have "set (store_shards (?st shs) ''o'') \<subseteq> set shs" unfolding shards by (rule sub)
  ultimately have "\<exists>repaired st'. store_repair demo_crypto ''o'' None (?st shs) = (Inr repaired, st')
      \<and> missing_shards st' ''o'' = [] \<and> set (store_shards st' ''o'') \<subseteq> set shs
      \<and> store_recover demo_crypto st' ''o'' = Inr ''data''"
    by (intro default_store_heals [OF ok]) simp_all
  with shs(1) show ?thesis by blast
qed

theorem av_certificate_roundtrip_witness:
  "bindE (attestation_create demo_crypto demo_provider ''o'' ''d'' 0 1) (\<lambda>a.
     bindE (av_certificate_create demo_crypto [a] [(''w1'', demo_provider)] 1) (\<lambda>c.
       av_certificate_verify demo_crypto c [(''w1'', demo_provider)] 1)) = Inr True"
proof -
  obtain a where a: "attestation_create demo_crypto demo_provider ''o'' ''d'' 0 1 = Inr a"
    by (simp add: attestation_create_def demo_provider_def)
  then have "is_ok (av_certificate_create demo_crypto [a] [(''w1'', demo_provider)] 1)"
    by (auto simp: attestation_create_def demo_provider_def av_certificate_create_def dict_of_def
      attestation_verify_def member_public_key_def Let_def)
  then obtain c where c: "av_certificate_create demo_crypto [a] [(''w1'', demo_provider)] 1 = Inr c"
    by (auto simp: is_ok_iff)
  from av_certificate_roundtrip [OF c] a c show ?thesis by simp
qed

end
