(* ===== verification/Storage.thy ===== *)
theory Storage
  imports Crypto
begin

section \<open>The durable store (mosaic/storage.py)\<close>

text \<open>
  The tables of the SQLite file are the components of the record \<open>durable_store\<close>: one row per
  \<open>(kind, key)\<close> with its version, the event log with its \<open>AUTOINCREMENT\<close> counter, the snapshots and
  the schema version of \<open>mosaic_meta\<close>. A payload column holds the text of \<open>json.dumps(payload,
  sort_keys=True)\<close>; it is kept as the value \<open>json.loads\<close> reads back from it, which is
  \<open>json_norm payload\<close>. Time stamps are left out: nothing reads them.
  A transaction can fail in SQLite (a locked or full file); \<open>faults\<close> says what happens to the
  transactions to come, one entry each, \<open>None\<close> or the end of the list for success. A failed
  db_transaction is rolled back and raises \<open>StorageError\<close>.
\<close>

datatype storage_error = StorageError string

record stored_row =
  row_payload :: json
  row_version :: int

record stored_event =
  se_seq :: int
  se_kind :: string
  se_key :: string
  se_payload :: json

record stored_snapshot =
  ss_base :: int
  ss_payload :: json

record durable_store =
  rows :: "(string \<times> string, stored_row) dict"
  event_log :: "stored_event list"
  event_counter :: int
  snapshot_rows :: "(string, stored_snapshot) dict"
  meta_version :: "int option"
  faults :: "string option list"

type_synonym 'a s_outcome = "(durable_store, storage_error, 'a) outcome"

subsection \<open>Opening\<close>

definition current_schema_version :: int where
  "current_schema_version = 2"

definition migrate :: "int \<Rightarrow> int \<Rightarrow> storage_error + unit" where
  "migrate from_version to_version =
     (if from_version \<le> 1 \<and> 1 < to_version then Inr ()
      else Inl (StorageError (''no migration path from schema '' @ int_str from_version
             @ '' to '' @ int_str to_version)))"

definition open_store :: "durable_store \<Rightarrow> unit s_outcome" where
  "open_store db =
     (let version = (case meta_version db of Some v \<Rightarrow> v | None \<Rightarrow> 1) in
      if version > current_schema_version
      then (Inl (StorageError (''unsupported future storage schema: '' @ int_str version)), db)
      else (case (if version < current_schema_version then migrate version current_schema_version
                  else Inr ()) of
              Inl e \<Rightarrow> (Inl e, db)
            | Inr _ \<Rightarrow> (Inr (), db\<lparr>meta_version := Some current_schema_version\<rparr>)))"

definition schema_version :: "durable_store \<Rightarrow> int" where
  "schema_version db = (case meta_version db of Some v \<Rightarrow> v | None \<Rightarrow> 0)"

subsection \<open>Transactions\<close>

text \<open>\<open>BEGIN IMMEDIATE\<close>, the statements, \<open>commit\<close>, with \<open>rollback\<close> and \<open>StorageError\<close> on any exception.\<close>

definition db_transaction :: "(durable_store \<Rightarrow> 'a \<times> durable_store) \<Rightarrow> durable_store \<Rightarrow> 'a s_outcome" where
  "db_transaction statements db =
     (let db' = db\<lparr>faults := tl (faults db)\<rparr> in
      case faults db of
        Some msg # _ \<Rightarrow> (Inl (StorageError msg), db')
      | _ \<Rightarrow> (case statements db' of (a, db'') \<Rightarrow> (Inr a, db'')))"

definition upsert :: "string \<Rightarrow> string \<Rightarrow> json \<Rightarrow> durable_store \<Rightarrow> durable_store" where
  "upsert kind key encoded db =
     (let v = (case map_of (rows db) (kind, key) of None \<Rightarrow> 1 | Some r \<Rightarrow> row_version r + 1)
      in db\<lparr>rows := AList.update (kind, key) \<lparr>row_payload = encoded, row_version = v\<rparr> (rows db)\<rparr>)"

definition insert_event :: "string \<Rightarrow> string \<Rightarrow> json \<Rightarrow> durable_store \<Rightarrow> durable_store" where
  "insert_event kind key encoded db =
     db\<lparr>event_log := event_log db @ [\<lparr>se_seq = event_counter db + 1, se_kind = kind, se_key = key,
                                       se_payload = encoded\<rparr>],
        event_counter := event_counter db + 1\<rparr>"

definition store_put :: "string \<Rightarrow> string \<Rightarrow> json \<Rightarrow> bool \<Rightarrow> durable_store \<Rightarrow> unit s_outcome" where
  "store_put kind key payload event db =
     (let encoded = json_norm payload in
      db_transaction (\<lambda>db. ((),
        if event then insert_event kind key encoded (upsert kind key encoded db)
        else upsert kind key encoded db)) db)"

definition store_get :: "durable_store \<Rightarrow> string \<Rightarrow> string \<Rightarrow> json option" where
  "store_get db kind key = map_option row_payload (map_of (rows db) (kind, key))"

definition store_items :: "durable_store \<Rightarrow> string \<Rightarrow> (string \<times> json) list" where
  "store_items db kind =
     sort_key fst (map (\<lambda>((_, key), r). (key, row_payload r)) (filter (\<lambda>((k, _), _). k = kind) (rows db)))"

subsection \<open>Snapshots and pruning\<close>

definition latest_event :: "durable_store \<Rightarrow> int" where
  "latest_event db = foldr (\<lambda>e m. max (se_seq e) m) (event_log db) 0"

definition store_snapshot :: "string \<Rightarrow> json \<Rightarrow> int option \<Rightarrow> durable_store \<Rightarrow> unit s_outcome" where
  "store_snapshot sid payload base_event_seq db =
     (if sid = [] then (Inl (StorageError ''snapshot id cannot be empty''), db)
      else let encoded = json_norm payload; latest = latest_event db;
               base = (case base_event_seq of None \<Rightarrow> latest | Some b \<Rightarrow> b) in
      if base < 0 \<or> base > latest
      then (Inl (StorageError ''snapshot base event sequence is invalid''), db)
      else db_transaction (\<lambda>db. ((), db\<lparr>snapshot_rows :=
             AList.update sid \<lparr>ss_base = base, ss_payload = encoded\<rparr> (snapshot_rows db)\<rparr>)) db)"

definition snapshot_json :: "string \<Rightarrow> stored_snapshot \<Rightarrow> json" where
  "snapshot_json sid s = JObj
     [(''snapshot_id'', JStr sid), (''base_event_seq'', JInt (ss_base s)), (''payload'', ss_payload s)]"

definition get_snapshot :: "durable_store \<Rightarrow> string \<Rightarrow> json option" where
  "get_snapshot db sid = map_option (snapshot_json sid) (map_of (snapshot_rows db) sid)"

definition list_snapshots :: "durable_store \<Rightarrow> json list" where
  "list_snapshots db = map (\<lambda>(sid, s). snapshot_json sid s) (sort_key fst (snapshot_rows db))"

definition pruned :: "int \<Rightarrow> string list \<Rightarrow> stored_event \<Rightarrow> bool" where
  "pruned sequence retained e \<longleftrightarrow> se_seq e < sequence \<and> se_kind e \<notin> set retained"

definition prune_events_before :: "int \<Rightarrow> string list \<Rightarrow> durable_store \<Rightarrow> int s_outcome" where
  "prune_events_before sequence retain_event_kinds db =
     (if sequence < 0 then (Inl (StorageError ''event sequence cannot be negative''), db)
      else db_transaction (\<lambda>db.
        (int (length (filter (pruned sequence retain_event_kinds) (event_log db))),
         db\<lparr>event_log := filter (\<lambda>e. \<not> pruned sequence retain_event_kinds e) (event_log db)\<rparr>)) db)"

definition event_count :: "durable_store \<Rightarrow> int" where
  "event_count db = int (length (event_log db))"

text \<open>\<open>PRAGMA integrity_check\<close> answers \<open>ok\<close> unless SQLite finds the file damaged.\<close>

definition integrity_check :: "bool \<Rightarrow> durable_store \<Rightarrow> bool" where
  "integrity_check pragma_ok db \<longleftrightarrow> pragma_ok \<and> schema_version db = current_schema_version"

subsection \<open>What a client may rely on\<close>

text \<open>
  The interface of the store as its clients use it: a \<open>put\<close> that returns is read back by \<open>get\<close>
  under its key, and disturbs no other key; a \<open>put\<close> that raises has changed nothing they can read.
\<close>

locale key_value_store =
  fixes put :: "string \<Rightarrow> string \<Rightarrow> json \<Rightarrow> bool \<Rightarrow> 's \<Rightarrow> ('s, 'e, unit) outcome"
    and get :: "'s \<Rightarrow> string \<Rightarrow> string \<Rightarrow> json option"
  assumes get_put: "put kind key v ev s = (Inr u, s') \<Longrightarrow>
      get s' kind' key' = (if (kind', key') = (kind, key) then Some (json_norm v) else get s kind' key')"
    and put_failed: "put kind key v ev s = (Inl e, s') \<Longrightarrow> get s' kind' key' = get s kind' key'"
begin

lemma get_same: "put kind key v ev s = (Inr u, s') \<Longrightarrow> get s' kind key = Some (json_norm v)"
  by (simp add: get_put)

lemma get_other: "put kind key v ev s = (r, s') \<Longrightarrow> (kind', key') \<noteq> (kind, key) \<Longrightarrow> get s' kind' key' = get s kind' key'"
  by (cases r) (auto simp: put_failed get_put)

end

lemma db_transaction_cases:
  assumes "db_transaction f db = (r, db')"
  obtains (failed) msg where "r = Inl (StorageError msg)" "db' = db\<lparr>faults := tl (faults db)\<rparr>"
  | (committed) a where "r = Inr a" "f (db\<lparr>faults := tl (faults db)\<rparr>) = (a, db')"
  using assms by (auto simp: db_transaction_def Let_def split: list.splits option.splits prod.splits)

lemma store_get_faults [simp]: "store_get (db\<lparr>faults := fs\<rparr>) kind key = store_get db kind key"
  by (simp add: store_get_def)

lemma store_get_upsert:
  "store_get (upsert kind key v db) kind' key' =
     (if (kind', key') = (kind, key) then Some v else store_get db kind' key')"
  by (simp add: store_get_def upsert_def Let_def)

lemma store_get_event [simp]: "store_get (insert_event kind key v db) kind' key' = store_get db kind' key'"
  by (simp add: store_get_def insert_event_def)

interpretation durable: key_value_store store_put store_get
proof
  fix kind key v ev s u s' kind' key'
  assume "store_put kind key v ev s = (Inr u, s')"
  then show "store_get s' kind' key' = (if (kind', key') = (kind, key) then Some (json_norm v) else store_get s kind' key')"
    unfolding store_put_def Let_def by (cases rule: db_transaction_cases) (auto simp: store_get_upsert split: if_splits)
next
  fix kind key v ev s e s' kind' key'
  assume "store_put kind key v ev s = (Inl e, s')"
  then show "store_get s' kind' key' = store_get s kind' key'"
    unfolding store_put_def Let_def by (cases rule: db_transaction_cases) auto
qed

subsection \<open>The event log\<close>

text \<open>
  \<open>log_ok\<close>: sequence numbers increase, and the counter is never below one of them, so a number
  is never used again, even after pruning. \<open>replay\<close> rebuilds the objects from the log.
\<close>

definition log_ok :: "durable_store \<Rightarrow> bool" where
  "log_ok db \<longleftrightarrow> sorted_wrt (<) (map se_seq (event_log db))
     \<and> (\<forall>e \<in> set (event_log db). 0 < se_seq e \<and> se_seq e \<le> event_counter db) \<and> 0 \<le> event_counter db"

definition replay :: "stored_event list \<Rightarrow> (string \<times> string) \<rightharpoonup> json" where
  "replay es = foldl (\<lambda>m e. m((se_kind e, se_key e) \<mapsto> se_payload e)) Map.empty es"

datatype store_request =
    PutObject string string json bool
  | CreateSnapshot string json "int option"
  | Prune int "string list"

fun store_op :: "store_request \<Rightarrow> durable_store \<Rightarrow> durable_store" where
  "store_op (PutObject kind key v ev) db = snd (store_put kind key v ev db)"
| "store_op (CreateSnapshot sid v base) db = snd (store_snapshot sid v base db)"
| "store_op (Prune seq kinds) db = snd (prune_events_before seq kinds db)"

lemma log_ok_faults [simp]: "log_ok (db\<lparr>faults := fs\<rparr>) = log_ok db"
  by (simp add: log_ok_def)

lemma log_ok_insert: "log_ok db \<Longrightarrow> log_ok (insert_event kind key v db)"
  by (fastforce simp: log_ok_def insert_event_def sorted_wrt_append)

lemma log_ok_upsert [simp]: "log_ok (upsert kind key v db) = log_ok db"
  by (simp add: log_ok_def upsert_def Let_def)

lemma db_transaction_keeps:
  assumes "\<And>db. P db \<Longrightarrow> P (snd (f db))" "\<And>db fs. P db \<Longrightarrow> P (db\<lparr>faults := fs\<rparr>)" "P db"
  shows "P (snd (db_transaction f db))"
proof -
  from assms(1) [OF assms(2) [OF assms(3)], of "tl (faults db)"] assms(2) [OF assms(3), of "tl (faults db)"]
  show ?thesis
    by (cases "f (db\<lparr>faults := tl (faults db)\<rparr>)")
      (auto simp: db_transaction_def Let_def split: list.split option.split)
qed

lemma wf_rows_put: "wf_dict (rows db) \<Longrightarrow> wf_dict (rows (snd (store_put kind k v ev db)))"
  unfolding store_put_def Let_def
  by (intro db_transaction_keeps [where P = "\<lambda>db. wf_dict (rows db)"]) (simp_all add: upsert_def insert_event_def Let_def)

lemma put_calm:
  assumes "faults db = []"
  shows "\<exists>db'. store_put kind k v ev db = (Inr (), db') \<and> faults db' = []"
  using assms by (simp add: store_put_def db_transaction_def upsert_def insert_event_def Let_def)

lemma store_items_get:
  assumes "wf_dict (rows db)"
  shows "(k, v) \<in> set (store_items db kind) \<longleftrightarrow> store_get db kind k = Some v"
    "distinct (map fst (store_items db kind))"
proof -
  have "(k, v) \<in> set (store_items db kind) \<longleftrightarrow> (\<exists>r. ((kind, k), r) \<in> set (rows db) \<and> row_payload r = v)"
    by (force simp: store_items_def image_iff)
  then show "(k, v) \<in> set (store_items db kind) \<longleftrightarrow> store_get db kind k = Some v"
    using assms by (simp add: store_get_def)
  have "inj_on fst (set (filter (\<lambda>((k, _), _). k = kind) (rows db)))" "distinct (rows db)"
    using assms by (auto simp: distinct_map inj_on_def)
  then have "distinct (map (\<lambda>((_, key), r). key) (filter (\<lambda>((k, _), _). k = kind) (rows db)))"
    by (fastforce simp: distinct_map inj_on_def)
  then have "distinct (map fst (map (\<lambda>((_, key), r). (key, row_payload r)) (filter (\<lambda>((k, _), _). k = kind) (rows db))))"
    by (simp add: comp_def case_prod_unfold)
  then show "distinct (map fst (store_items db kind))"
    by (simp add: store_items_def distinct_map) (auto simp: inj_on_def)
qed

lemma store_op_log: "log_ok db \<Longrightarrow> log_ok (store_op c db)"
proof (cases c)
  case (PutObject kind key v ev)
  assume "log_ok db"
  then show ?thesis unfolding PutObject store_op.simps store_put_def Let_def
    by (intro db_transaction_keeps [where P = log_ok]) (simp_all add: log_ok_insert)
next
  case (CreateSnapshot sid v base)
  assume ok: "log_ok db"
  have "log_ok (snd (db_transaction (\<lambda>db. ((), db\<lparr>snapshot_rows :=
      AList.update sid s (snapshot_rows db)\<rparr>)) db))" for s
    using ok by (intro db_transaction_keeps [where P = log_ok]) (simp_all add: log_ok_def)
  with ok CreateSnapshot show ?thesis by (simp add: store_snapshot_def Let_def)
next
  case (Prune seq kinds)
  assume ok: "log_ok db"
  have "log_ok (snd (db_transaction (\<lambda>db.
        (int (length (filter (pruned seq kinds) (event_log db))),
         db\<lparr>event_log := filter (\<lambda>e. \<not> pruned seq kinds e) (event_log db)\<rparr>)) db))"
    using ok by (intro db_transaction_keeps [where P = log_ok]) (auto simp: log_ok_def sorted_wrt_map intro: sorted_wrt_filter)
  with ok Prune show ?thesis by (simp add: prune_events_before_def)
qed

lemma replay_snoc: "replay (es @ [e]) = (replay es)((se_kind e, se_key e) \<mapsto> se_payload e)"
  by (simp add: replay_def)

text \<open>A store whose objects are all in the log stays so under logged puts and snapshots.\<close>

definition replayable :: "durable_store \<Rightarrow> bool" where
  "replayable db \<longleftrightarrow> (\<forall>kind key. store_get db kind key = replay (event_log db) (kind, key))"

fun logged :: "store_request \<Rightarrow> bool" where
  "logged (PutObject kind key v ev) = ev"
| "logged (CreateSnapshot sid v base) = True"
| "logged (Prune seq kinds) = False"

lemma store_op_replayable: "logged c \<Longrightarrow> replayable db \<Longrightarrow> replayable (store_op c db)"
proof (cases c)
  case (PutObject kind key v ev)
  assume "logged c" and r: "replayable db"
  with PutObject have ev: "ev" by simp
  obtain res db' where p: "store_put kind key v ev db = (res, db')" by fastforce
  then have "replayable db'"
    unfolding store_put_def Let_def
  proof (cases rule: db_transaction_cases)
    case failed
    with r show ?thesis by (simp add: replayable_def)
  next
    case committed
    with r ev show ?thesis
      by (auto simp: replayable_def store_get_upsert upsert_def insert_event_def Let_def replay_snoc store_get_def)
  qed
  with p PutObject show ?thesis by simp
next
  case (CreateSnapshot sid v base)
  assume r: "replayable db"
  have "replayable (snd (db_transaction (\<lambda>db. ((), db\<lparr>snapshot_rows := AList.update sid s (snapshot_rows db)\<rparr>)) db))" for s
    using r by (intro db_transaction_keeps [where P = replayable]) (auto simp: replayable_def store_get_def)
  with r CreateSnapshot show ?thesis by (simp add: store_snapshot_def Let_def)
qed simp

text \<open>
  The event log rebuilds the store. Starting from a fresh store, after any logged puts
  and any snapshots, with any transactions failing, the last event of each kind and key is exactly
  the stored object, and sequence numbers increase strictly.
\<close>

theorem log_replays_objects:
  assumes "rows db = []" and "event_log db = []" and "event_counter db = 0"
    and "list_all logged ops"
  shows "store_get (fold store_op ops db) kind key = replay (event_log (fold store_op ops db)) (kind, key)
    \<and> sorted_wrt (<) (map se_seq (event_log (fold store_op ops db)))"
proof -
  have "log_ok db" "replayable db"
    using assms(1-3) by (simp_all add: log_ok_def replayable_def store_get_def replay_def)
  with assms(4) have "log_ok (fold store_op ops db) \<and> replayable (fold store_op ops db)"
    by (induction ops arbitrary: db) (simp_all add: store_op_log store_op_replayable)
  then show ?thesis by (simp add: log_ok_def replayable_def)
qed

definition empty_store :: durable_store where
  "empty_store = \<lparr>rows = [], event_log = [], event_counter = 0, snapshot_rows = [],
     meta_version = Some 2, faults = []\<rparr>"

theorem log_replays_objects_witness:
  "store_get (fold store_op [PutObject ''k'' ''a'' (JInt 1) True, PutObject ''k'' ''a'' (JInt 2) True] empty_store) ''k'' ''a''
     = replay (event_log (fold store_op [PutObject ''k'' ''a'' (JInt 1) True,
         PutObject ''k'' ''a'' (JInt 2) True] empty_store)) (''k'', ''a'')
   \<and> sorted_wrt (<) (map se_seq (event_log (fold store_op [PutObject ''k'' ''a'' (JInt 1) True,
         PutObject ''k'' ''a'' (JInt 2) True] empty_store)))"
  by (rule log_replays_objects) (simp_all add: empty_store_def)

text \<open>
  Snapshots forget pruned history. \<open>create_snapshot\<close> bounds the base sequence by the largest
  sequence number left in the table, not by the counter: after the log has been pruned, a snapshot
  is filed at base 0 although events have been recorded, and the true base is refused.
\<close>

theorem snapshot_base_after_prune:
  "let db = snd (prune_events_before 2 [] (snd (store_put ''k'' ''a'' (JInt 1) True empty_store))) in
     event_counter db = 1
     \<and> fst (store_snapshot ''s'' JNull (Some 1) db) = Inl (StorageError ''snapshot base event sequence is invalid'')
     \<and> map_of (snapshot_rows (snd (store_snapshot ''s'' JNull None db))) ''s'' = Some \<lparr>ss_base = 0, ss_payload = JNull\<rparr>"
  by (simp add: empty_store_def prune_events_before_def store_put_def db_transaction_def upsert_def
      insert_event_def pruned_def store_snapshot_def latest_event_def Let_def)

end
