(* ===== verification/Wire_Base.thy ===== *)
theory Wire_Base
  imports Model Membership
begin

section \<open>Reading JSON: fields, integers, base64\<close>

text \<open>
  What the \<open>..._from_wire\<close> functions do with a decoded message: \<open>data["k"]\<close> raises \<open>KeyError\<close>
  for an absent key and \<open>TypeError\<close> on a value that is not an object, \<open>int(x)\<close> takes an integer, a
  truth value or a decimal string, \<open>b64decode(s, validate=True)\<close> and \<open>bytes.fromhex\<close> raise
  \<open>ValueError\<close>. Two simplifications: a field the code takes over as text without looking at it is
  refused here when it is not a JSON string (\<open>as_text\<close>), and \<open>int(x)\<close> of a JSON float, which would
  truncate, is refused; no message the program writes has either.
\<close>

datatype wire_error = WireKeyError string | WireTypeError | WireValueError string

definition jfield :: "string \<Rightarrow> json \<Rightarrow> wire_error + json" where
  "jfield k v = (case v of
     JObj kvs \<Rightarrow> (case map_of kvs k of None \<Rightarrow> Inl (WireKeyError k) | Some w \<Rightarrow> Inr w)
   | _ \<Rightarrow> Inl WireTypeError)"

definition as_text :: "json \<Rightarrow> wire_error + string" where
  "as_text v = (case v of JStr s \<Rightarrow> Inr s | _ \<Rightarrow> Inl WireTypeError)"

definition as_optional_text :: "json \<Rightarrow> wire_error + string option" where
  "as_optional_text v = (case v of JNull \<Rightarrow> Inr None | JStr s \<Rightarrow> Inr (Some s) | _ \<Rightarrow> Inl WireTypeError)"

definition as_list :: "json \<Rightarrow> wire_error + json list" where
  "as_list v = (case v of JArr vs \<Rightarrow> Inr vs | _ \<Rightarrow> Inl WireTypeError)"

fun mapE :: "('a \<Rightarrow> 'e + 'b) \<Rightarrow> 'a list \<Rightarrow> 'e + 'b list" where
  "mapE f [] = Inr []"
| "mapE f (x # xs) = bindE (f x) (\<lambda>y. bindE (mapE f xs) (\<lambda>ys. Inr (y # ys)))"

lemma mapE_map: "(\<And>x. x \<in> set xs \<Longrightarrow> f (g x) = Inr (h x)) \<Longrightarrow> mapE f (map g xs) = Inr (map h xs)"
  by (induction xs) simp_all

subsection \<open>\<open>int(x)\<close>\<close>

definition digit_value :: "char \<Rightarrow> nat option" where
  "digit_value c = (let n = of_char c :: nat in if 48 \<le> n \<and> n \<le> 57 then Some (n - 48) else None)"

text \<open>Digits, with single underscores between them.\<close>

fun read_digits :: "nat \<Rightarrow> string \<Rightarrow> nat option" where
  "read_digits acc [] = Some acc"
| "read_digits acc [c] = map_option (\<lambda>d. acc * 10 + d) (digit_value c)"
| "read_digits acc (c # d # cs) =
     (case digit_value c of
        None \<Rightarrow> None
      | Some n \<Rightarrow> if d = CHR ''_'' \<and> cs \<noteq> [] then read_digits (acc * 10 + n) cs
                 else read_digits (acc * 10 + n) (d # cs))"

definition strip :: "string \<Rightarrow> string" where
  "strip s = rev (dropWhile is_space (rev (dropWhile is_space s)))"

definition int_of_text :: "string \<Rightarrow> wire_error + int" where
  "int_of_text text =
     (let s = strip text;
          (neg, ds) = (case s of
             c # cs \<Rightarrow> if c = CHR ''-'' then (True, cs) else if c = CHR ''+'' then (False, cs) else (False, s)
           | [] \<Rightarrow> (False, s))
      in if ds = [] then Inl (WireValueError ''invalid literal for int() with base 10'')
         else (case read_digits 0 ds of
                 None \<Rightarrow> Inl (WireValueError ''invalid literal for int() with base 10'')
               | Some n \<Rightarrow> Inr (if neg then - int n else int n)))"

definition as_integer :: "json \<Rightarrow> wire_error + int" where
  "as_integer v = (case v of
     JInt i \<Rightarrow> Inr i
   | JBool b \<Rightarrow> Inr (if b then 1 else 0)
   | JStr s \<Rightarrow> int_of_text s
   | _ \<Rightarrow> Inl WireTypeError)"

subsection \<open>base64\<close>

text \<open>The alphabet \<open>A-Za-z0-9+/\<close>.\<close>

definition b64_char :: "nat \<Rightarrow> char" where
  "b64_char n = char_of (if n < 26 then n + 65 else if n < 52 then n + 71 else if n < 62 then n - 4
     else if n = 62 then 43 else 47)"

definition b64_value :: "char \<Rightarrow> nat option" where
  "b64_value c = (let n = of_char c :: nat in
     if 65 \<le> n \<and> n \<le> 90 then Some (n - 65)
     else if 97 \<le> n \<and> n \<le> 122 then Some (n - 71)
     else if 48 \<le> n \<and> n \<le> 57 then Some (n + 4)
     else if n = 43 then Some 62 else if n = 47 then Some 63 else None)"

fun b64_encode :: "nat list \<Rightarrow> string" where
  "b64_encode [] = []"
| "b64_encode [a] = [b64_char (a div 4), b64_char (a mod 4 * 16), CHR ''='', CHR ''='']"
| "b64_encode [a, b] =
     [b64_char (a div 4), b64_char (a mod 4 * 16 + b div 16), b64_char (b mod 16 * 4), CHR ''='']"
| "b64_encode (a # b # c # bs) =
     [b64_char (a div 4), b64_char (a mod 4 * 16 + b div 16), b64_char (b mod 16 * 4 + c div 64),
      b64_char (c mod 64)] @ b64_encode bs"

text \<open>Groups of four; the last may end in one or two \<open>=\<close>. The unused bits of its last digit are ignored.\<close>

definition b64_group :: "char \<Rightarrow> char \<Rightarrow> char \<Rightarrow> char \<Rightarrow> bool \<Rightarrow> nat list option" where
  "b64_group p q r s final =
     (case (b64_value p, b64_value q) of
        (Some a, Some b) \<Rightarrow>
          if final \<and> r = CHR ''='' \<and> s = CHR ''='' then Some [a * 4 + b div 16]
          else (case b64_value r of
             None \<Rightarrow> None
           | Some c \<Rightarrow>
               if final \<and> s = CHR ''='' then Some [a * 4 + b div 16, b mod 16 * 16 + c div 4]
               else (case b64_value s of
                  None \<Rightarrow> None
                | Some d \<Rightarrow> Some [a * 4 + b div 16, b mod 16 * 16 + c div 4, c mod 4 * 64 + d]))
      | _ \<Rightarrow> None)"

fun b64_decode :: "string \<Rightarrow> nat list option" where
  "b64_decode [] = Some []"
| "b64_decode (p # q # r # s # rest) =
     (case b64_group p q r s (rest = []) of
        None \<Rightarrow> None
      | Some bs \<Rightarrow> map_option (\<lambda>more. bs @ more) (b64_decode rest))"
| "b64_decode _ = None"

definition b64 :: "string \<Rightarrow> string" where
  "b64 value = b64_encode (map of_char value)"

definition unb64 :: "string \<Rightarrow> wire_error + string" where
  "unb64 value = (case b64_decode value of
     None \<Rightarrow> Inl (WireValueError ''invalid base64 wire field'')
   | Some bs \<Rightarrow> Inr (map char_of bs))"

lemma b64_value_char: "n < 64 \<Longrightarrow> b64_value (b64_char n) = Some n"
  by (auto simp: b64_char_def b64_value_def Let_def)

lemma b64_char_pad: "n < 64 \<Longrightarrow> b64_char n \<noteq> CHR ''=''"
  using b64_value_char [of n] by (auto simp: b64_value_def)

lemma b64_roundtrip: "\<forall>b \<in> set bs. b < 256 \<Longrightarrow> b64_decode (b64_encode bs) = Some bs"
proof (induction bs rule: b64_encode.induct)
  case (2 a)
  then have "a div 4 < 64" "a mod 4 * 16 < 64" by auto
  then show ?case by (simp add: b64_group_def b64_value_char)
next
  case (3 a b)
  then have "a div 4 < 64" "a mod 4 * 16 + b div 16 < 64" "b mod 16 * 4 < 64" by auto
  moreover have "b div 16 < 16" using 3 by auto
  then have "(a mod 4 * 16 + b div 16) div 16 = a mod 4" "(a mod 4 * 16 + b div 16) mod 16 = b div 16"
    by simp_all
  ultimately show ?case by (simp add: b64_group_def b64_value_char b64_char_pad)
next
  case (4 a b c bs)
  then have "a div 4 < 64" "a mod 4 * 16 + b div 16 < 64" "b mod 16 * 4 + c div 64 < 64" "c mod 64 < 64"
    by auto
  moreover have "b div 16 < 16" "c div 64 < 4" using 4 by auto
  then have "(a mod 4 * 16 + b div 16) div 16 = a mod 4" "(a mod 4 * 16 + b div 16) mod 16 = b div 16"
    "(b mod 16 * 4 + c div 64) div 4 = b mod 16" "(b mod 16 * 4 + c div 64) mod 4 = c div 64"
    by simp_all
  ultimately show ?case using 4 by (simp add: b64_group_def b64_value_char b64_char_pad)
qed simp

lemma unb64_b64 [simp]: "unb64 (b64 value) = Inr value"
  using b64_roundtrip [of "map of_char value"]
  by (simp add: unb64_def b64_def nat_of_char_less_256 comp_def)

lemma hexval_hexdigit: "n < 16 \<Longrightarrow> hexval (hexdigit n) = Some n"
proof -
  have "list_all (\<lambda>n. hexval (hexdigit n) = Some n) [0..<16]"
    by code_simp
  then show "n < 16 \<Longrightarrow> ?thesis" by (simp add: list_all_iff)
qed

lemma hexdigit_not_space: "n < 16 \<Longrightarrow> \<not> is_space (hexdigit n)"
  using hexval_hexdigit [of n] by (auto simp: hexval_def is_space_def Let_def split: if_splits)

lemma fromhex_hex [simp]: "fromhex (hex bs) = Some bs"
proof (induction bs)
  case (Cons c bs)
  have "of_char c div 16 < (16::nat)" using nat_of_char_less_256 [of c] by (simp add: div_less_iff_less_mult)
  moreover have "(16 * (of_char c div 16) + of_char c mod 16 :: nat) = of_char c" by simp
  ultimately show ?case
    using Cons by (simp add: hex_def hex_byte_def hexval_hexdigit hexdigit_not_space)
qed (simp add: hex_def)

definition as_base64 :: "json \<Rightarrow> wire_error + string" where
  "as_base64 v = bindE (as_text v) unb64"

definition as_hex :: "json \<Rightarrow> wire_error + string" where
  "as_hex v = bindE (as_text v) (\<lambda>s. case fromhex s of
     None \<Rightarrow> Inl (WireValueError ''non-hexadecimal number found in fromhex() arg'') | Some bs \<Rightarrow> Inr bs)"

subsection \<open>What survives a JSON round trip\<close>

lemma jfield_simps: "jfield k (JObj kvs) = (case map_of kvs k of None \<Rightarrow> Inl (WireKeyError k) | Some w \<Rightarrow> Inr w)"
  by (simp add: jfield_def)

lemma map_of_sorted: "distinct (map fst kvs) \<Longrightarrow> map_of (sort_key fst kvs) k = map_of kvs k"
proof -
  assume d: "distinct (map fst kvs)"
  then have "distinct (map fst (sort_key fst kvs))" by (simp add: distinct_map)
  with d have "map_of (sort_key fst kvs) k = Some v \<longleftrightarrow> map_of kvs k = Some v" for v
    by (simp add: map_of_eq_Some_iff)
  then show ?thesis by (metis option.exhaust)
qed

lemma jfield_norm:
  "distinct (map fst kvs) \<Longrightarrow> jfield k (json_norm (JObj kvs)) =
     (case map_of kvs k of None \<Rightarrow> Inl (WireKeyError k) | Some w \<Rightarrow> Inr (json_norm w))"
proof -
  assume d: "distinct (map fst kvs)"
  have "map fst (map (\<lambda>(k, v). (k, json_norm v)) kvs) = map fst kvs" by auto
  with d have "distinct (map fst (map (\<lambda>(k, v). (k, json_norm v)) kvs))" by (simp only:)
  then have "map_of (sort_key fst (map (\<lambda>(k, v). (k, json_norm v)) kvs)) k = map_option json_norm (map_of kvs k)"
    by (simp only: map_of_sorted map_of_map comp_def)
  then show ?thesis by (simp add: jfield_def split: option.split)
qed

lemma wire_simps:
  "as_text (JStr s) = Inr s" "as_integer (JInt i) = Inr i" "as_optional_text (opt_str x) = Inr x"
  "as_list (JArr vs) = Inr vs" "as_base64 (JStr (b64 bs)) = Inr bs" "as_hex (JStr (hex bs)) = Inr bs"
  "json_norm (opt_str x) = opt_str x"
  by (simp_all add: as_text_def as_integer_def as_optional_text_def as_list_def as_base64_def as_hex_def
      opt_str_def split: option.split)

end
