(* ===== verification/Wire.thy ===== *)
theory Wire
  imports Wire_Base Erasure Selection
begin

section \<open>Wire encodings (mosaic/network.py, availability_network.py, onboarding.py, beacon.py)\<close>

text \<open>
  One pair \<open>..._to_wire\<close>, \<open>..._from_wire\<close> per object that crosses the network or is stored. The
  fields are read in the order of the code, so the first bad one decides the exception. Each pair is
  a round trip, also after the JSON text has been written with sorted keys and read back
  (\<open>json_norm\<close>); \<open>wire_roundtrips\<close> collects them.
\<close>

named_theorems wire_roundtrips \<open>an object read back from the wire is the object\<close>

definition text_field :: "string \<Rightarrow> json \<Rightarrow> wire_error + string" where
  "text_field k d = bindE (jfield k d) as_text"

definition int_field :: "string \<Rightarrow> json \<Rightarrow> wire_error + int" where
  "int_field k d = bindE (jfield k d) as_integer"

definition base64_field :: "string \<Rightarrow> json \<Rightarrow> wire_error + string" where
  "base64_field k d = bindE (jfield k d) as_base64"

definition hex_field :: "string \<Rightarrow> json \<Rightarrow> wire_error + string" where
  "hex_field k d = bindE (jfield k d) as_hex"

definition text_list_field :: "string \<Rightarrow> json \<Rightarrow> wire_error + string list" where
  "text_list_field k d = bindE (jfield k d) (\<lambda>v. bindE (as_list v) (mapE as_text))"

lemmas wire_field_defs = text_field_def int_field_def base64_field_def hex_field_def text_list_field_def

subsection \<open>Protocol objects\<close>

definition seal_to_wire :: "state_seal \<Rightarrow> json" where
  "seal_to_wire s = JObj
     [(''resource_id'', JStr (resource_id s)), (''epoch'', JInt (seal_epoch s)),
      (''version'', JInt (version s)), (''state_root'', JStr (state_root s)),
      (''capability_hash'', JStr (capability_hash s)), (''owner'', JStr (owner s))]"

definition seal_from_wire :: "json \<Rightarrow> wire_error + state_seal" where
  "seal_from_wire d =
     bindE (text_field ''resource_id'' d) (\<lambda>rid.
     bindE (int_field ''epoch'' d) (\<lambda>ep.
     bindE (int_field ''version'' d) (\<lambda>ver.
     bindE (text_field ''state_root'' d) (\<lambda>root.
     bindE (text_field ''capability_hash'' d) (\<lambda>cap.
     bindE (text_field ''owner'' d) (\<lambda>own.
       Inr \<lparr>resource_id = rid, seal_epoch = ep, version = ver, state_root = root,
            capability_hash = cap, owner = own\<rparr>))))))"

definition capsule_to_wire :: "capsule \<Rightarrow> json" where
  "capsule_to_wire c = JObj
     [(''capsule_id'', JStr (capsule_id c)), (''predecessor_id'', JStr (predecessor_id c)),
      (''successor_root'', JStr (successor_root c)), (''rule_id'', JStr (rule_id c)),
      (''rule_witness'', JStr (rule_witness c)), (''bundle_id'', opt_str (bundle_id c)),
      (''attempt'', JInt (attempt c)), (''epoch'', JInt (capsule_epoch c)),
      (''client_id'', JStr (client_id c)),
      (''client_public_key'', JStr (b64 (client_public_key c))),
      (''client_signature'', JStr (b64 (client_signature c)))]"

definition capsule_from_wire :: "json \<Rightarrow> wire_error + capsule" where
  "capsule_from_wire d =
     bindE (text_field ''capsule_id'' d) (\<lambda>cid.
     bindE (text_field ''predecessor_id'' d) (\<lambda>pid.
     bindE (text_field ''successor_root'' d) (\<lambda>root.
     bindE (text_field ''rule_id'' d) (\<lambda>rule.
     bindE (text_field ''rule_witness'' d) (\<lambda>wit.
     bindE (bindE (jfield ''bundle_id'' d) as_optional_text) (\<lambda>bid.
     bindE (int_field ''attempt'' d) (\<lambda>att.
     bindE (int_field ''epoch'' d) (\<lambda>ep.
     bindE (text_field ''client_id'' d) (\<lambda>client.
     bindE (base64_field ''client_public_key'' d) (\<lambda>pk.
     bindE (base64_field ''client_signature'' d) (\<lambda>sig.
       Inr \<lparr>capsule_id = cid, predecessor_id = pid, successor_root = root, rule_id = rule,
            rule_witness = wit, bundle_id = bid, attempt = att, capsule_epoch = ep, client_id = client,
            client_public_key = pk, client_signature = sig\<rparr>)))))))))))"

definition receipt_to_wire :: "witness_receipt \<Rightarrow> json" where
  "receipt_to_wire r = JObj
     [(''capsule_id'', JStr (r_capsule_id r)), (''predecessor_id'', JStr (r_predecessor_id r)),
      (''witness_id'', JStr (witness_id r)), (''epoch'', JInt (r_epoch r)),
      (''attempt'', JInt (r_attempt r)), (''status'', JStr (r_status r)),
      (''signature'', JStr (b64 (r_signature r)))]"

definition receipt_from_wire :: "json \<Rightarrow> wire_error + witness_receipt" where
  "receipt_from_wire d =
     bindE (text_field ''capsule_id'' d) (\<lambda>cid.
     bindE (text_field ''predecessor_id'' d) (\<lambda>pid.
     bindE (text_field ''witness_id'' d) (\<lambda>wid.
     bindE (int_field ''epoch'' d) (\<lambda>ep.
     bindE (int_field ''attempt'' d) (\<lambda>att.
     bindE (text_field ''status'' d) (\<lambda>status.
     bindE (base64_field ''signature'' d) (\<lambda>sig.
       Inr \<lparr>r_capsule_id = cid, r_predecessor_id = pid, witness_id = wid, r_epoch = ep,
            r_attempt = att, r_status = status, r_signature = sig\<rparr>)))))))"

definition closure_to_wire :: "closure_proof \<Rightarrow> json" where
  "closure_to_wire cl = JObj
     [(''capsule_id'', JStr (c_capsule_id cl)), (''predecessor_id'', JStr (c_predecessor_id cl)),
      (''epoch'', JInt (c_epoch cl)), (''attempt'', JInt (c_attempt cl)),
      (''signer_ids'', JArr (map JStr (c_signer_ids cl))),
      (''receipts'', JArr (map receipt_to_wire (c_receipts cl))), (''proof_id'', JStr (c_proof_id cl))]"

definition closure_from_wire :: "json \<Rightarrow> wire_error + closure_proof" where
  "closure_from_wire d =
     bindE (text_field ''capsule_id'' d) (\<lambda>cid.
     bindE (text_field ''predecessor_id'' d) (\<lambda>pid.
     bindE (int_field ''epoch'' d) (\<lambda>ep.
     bindE (int_field ''attempt'' d) (\<lambda>att.
     bindE (text_list_field ''signer_ids'' d) (\<lambda>signers.
     bindE (bindE (jfield ''receipts'' d) (\<lambda>v. bindE (as_list v) (mapE receipt_from_wire))) (\<lambda>rs.
     bindE (text_field ''proof_id'' d) (\<lambda>prf.
       Inr \<lparr>c_capsule_id = cid, c_predecessor_id = pid, c_epoch = ep, c_attempt = att,
            c_signer_ids = signers, c_receipts = rs, c_proof_id = prf\<rparr>)))))))"

subsection \<open>Availability\<close>

definition shard_to_wire :: "shard \<Rightarrow> json" where
  "shard_to_wire s = JObj
     [(''object_id'', JStr (sh_object_id s)), (''content_digest'', JStr (sh_content_digest s)),
      (''shard_index'', JInt (sh_shard_index s)), (''total_shards'', JInt (sh_total_shards s)),
      (''data_shards'', JInt (sh_data_shards s)), (''payload'', JStr (hex (sh_payload s))),
      (''shard_digest'', JStr (sh_shard_digest s))]"

definition shard_from_wire :: "json \<Rightarrow> wire_error + shard" where
  "shard_from_wire d =
     bindE (text_field ''object_id'' d) (\<lambda>oid.
     bindE (text_field ''content_digest'' d) (\<lambda>cd.
     bindE (int_field ''shard_index'' d) (\<lambda>idx.
     bindE (int_field ''total_shards'' d) (\<lambda>n.
     bindE (int_field ''data_shards'' d) (\<lambda>k.
     bindE (hex_field ''payload'' d) (\<lambda>pl.
     bindE (text_field ''shard_digest'' d) (\<lambda>dg.
       Inr \<lparr>sh_object_id = oid, sh_content_digest = cd, sh_shard_index = idx, sh_total_shards = n,
            sh_data_shards = k, sh_payload = pl, sh_shard_digest = dg\<rparr>)))))))"

definition sampling_to_wire :: "sampling_proof \<Rightarrow> json" where
  "sampling_to_wire p = JObj
     [(''object_id'', JStr (smp_object_id p)), (''content_digest'', JStr (smp_content_digest p)),
      (''sampled_indices'', JArr (map JInt (sampled_indices p))),
      (''shard_digests'', JArr (map JStr (shard_digests p))), (''proof_id'', JStr (smp_proof_id p))]"

subsection \<open>Onboarding\<close>

definition admission_to_wire :: "admission_request \<Rightarrow> json" where
  "admission_to_wire r = JObj
     [(''validator_id'', JStr (ar_validator_id r)), (''public_key'', JStr (b64 (ar_public_key r))),
      (''stake'', JInt (ar_stake r)), (''deposit_id'', JStr (ar_deposit_id r)),
      (''requested_epoch'', JInt (ar_requested_epoch r)),
      (''applicant_signature'', JStr (b64 (ar_signature r))), (''bond_id'', opt_str (ar_bond_id r))]"

text \<open>\<open>_unb64\<close> of the onboarding module reports \<open>OnboardingError\<close>, another \<open>ValueError\<close>;
  \<open>data.get("bond_id")\<close> reads an absent key as \<open>None\<close>.\<close>

definition optional_field :: "string \<Rightarrow> json \<Rightarrow> wire_error + json" where
  "optional_field k d = (case jfield k d of Inl (WireKeyError _) \<Rightarrow> Inr JNull | r \<Rightarrow> r)"

definition admission_from_wire :: "json \<Rightarrow> wire_error + admission_request" where
  "admission_from_wire d =
     bindE (text_field ''validator_id'' d) (\<lambda>vid.
     bindE (base64_field ''public_key'' d) (\<lambda>pk.
     bindE (int_field ''stake'' d) (\<lambda>stk.
     bindE (text_field ''deposit_id'' d) (\<lambda>dep.
     bindE (int_field ''requested_epoch'' d) (\<lambda>ep.
     bindE (base64_field ''applicant_signature'' d) (\<lambda>sig.
     bindE (bindE (optional_field ''bond_id'' d) as_optional_text) (\<lambda>bid.
       Inr \<lparr>ar_validator_id = vid, ar_public_key = pk, ar_stake = stk, ar_deposit_id = dep,
            ar_requested_epoch = ep, ar_signature = sig, ar_bond_id = bid\<rparr>)))))))"

definition bond_to_wire :: "stake_bond \<Rightarrow> json" where
  "bond_to_wire b = JObj
     [(''bond_id'', JStr (sb_bond_id b)), (''owner'', JStr (sb_owner b)),
      (''owner_public_key'', JStr (b64 (sb_owner_public_key b))), (''amount'', JInt (sb_amount b)),
      (''asset'', JStr (sb_asset b)), (''activation_epoch'', JInt (sb_activation_epoch b)),
      (''unlock_epoch'', JInt (sb_unlock_epoch b)),
      (''owner_signature'', JStr (b64 (sb_owner_signature b)))]"

definition bond_from_wire :: "json \<Rightarrow> wire_error + stake_bond" where
  "bond_from_wire d =
     bindE (text_field ''bond_id'' d) (\<lambda>bid.
     bindE (text_field ''owner'' d) (\<lambda>own.
     bindE (base64_field ''owner_public_key'' d) (\<lambda>pk.
     bindE (int_field ''amount'' d) (\<lambda>amt.
     bindE (text_field ''asset'' d) (\<lambda>ast.
     bindE (int_field ''activation_epoch'' d) (\<lambda>act.
     bindE (int_field ''unlock_epoch'' d) (\<lambda>unl.
     bindE (base64_field ''owner_signature'' d) (\<lambda>sig.
       Inr \<lparr>sb_bond_id = bid, sb_owner = own, sb_owner_public_key = pk, sb_amount = amt,
            sb_asset = ast, sb_activation_epoch = act, sb_unlock_epoch = unl,
            sb_owner_signature = sig\<rparr>))))))))"

subsection \<open>Randomness\<close>

definition commitment_to_wire :: "randomness_commitment \<Rightarrow> json" where
  "commitment_to_wire c = JObj
     [(''validator_id'', JStr (rc_validator_id c)), (''epoch'', JInt (rc_epoch c)),
      (''round'', JInt (rc_round c)), (''commitment'', JStr (rc_commitment c)),
      (''signature'', JStr (hex (rc_signature c)))]"

definition commitment_from_wire :: "json \<Rightarrow> wire_error + randomness_commitment" where
  "commitment_from_wire d =
     bindE (text_field ''validator_id'' d) (\<lambda>vid.
     bindE (int_field ''epoch'' d) (\<lambda>ep.
     bindE (int_field ''round'' d) (\<lambda>rnd.
     bindE (text_field ''commitment'' d) (\<lambda>com.
     bindE (hex_field ''signature'' d) (\<lambda>sig.
       Inr \<lparr>rc_validator_id = vid, rc_epoch = ep, rc_round = rnd, rc_commitment = com,
            rc_signature = sig\<rparr>)))))"

definition reveal_to_wire :: "randomness_reveal \<Rightarrow> json" where
  "reveal_to_wire r = JObj
     [(''validator_id'', JStr (rr_validator_id r)), (''epoch'', JInt (rr_epoch r)),
      (''round'', JInt (rr_round r)), (''secret'', JStr (hex (rr_secret r))),
      (''commitment'', JStr (rr_commitment r)), (''signature'', JStr (hex (rr_signature r)))]"

definition reveal_from_wire :: "json \<Rightarrow> wire_error + randomness_reveal" where
  "reveal_from_wire d =
     bindE (text_field ''validator_id'' d) (\<lambda>vid.
     bindE (int_field ''epoch'' d) (\<lambda>ep.
     bindE (int_field ''round'' d) (\<lambda>rnd.
     bindE (hex_field ''secret'' d) (\<lambda>secret.
     bindE (text_field ''commitment'' d) (\<lambda>com.
     bindE (hex_field ''signature'' d) (\<lambda>sig.
       Inr \<lparr>rr_validator_id = vid, rr_epoch = ep, rr_round = rnd, rr_secret = secret,
            rr_commitment = com, rr_signature = sig\<rparr>))))))"

subsection \<open>Round trips\<close>

lemma norm_simps:
  "json_norm (JArr vs) = JArr (map json_norm vs)" "json_norm (JStr t) = JStr t" "json_norm (JInt i) = JInt i"
  "json_norm (JBool b) = JBool b" "json_norm JNull = JNull"
  by simp_all

lemma map_norm_text: "map json_norm (map JStr xs) = map JStr xs"
  by simp

lemma mapE_text: "mapE as_text (map JStr xs) = Inr xs"
  by (induction xs) (simp_all add: wire_simps)

lemmas roundtrip_simps =
  jfield_norm wire_simps norm_simps map_norm_text mapE_text wire_field_defs optional_field_def

lemma seal_roundtrip [wire_roundtrips]: "seal_from_wire (json_norm (seal_to_wire s)) = Inr s"
  unfolding seal_to_wire_def seal_from_wire_def by (simp add: roundtrip_simps del: json_norm.simps(2))

lemma capsule_roundtrip [wire_roundtrips]: "capsule_from_wire (json_norm (capsule_to_wire c)) = Inr c"
  unfolding capsule_to_wire_def capsule_from_wire_def by (simp add: roundtrip_simps del: json_norm.simps(2))

lemma receipt_roundtrip [wire_roundtrips]: "receipt_from_wire (json_norm (receipt_to_wire r)) = Inr r"
  unfolding receipt_to_wire_def receipt_from_wire_def by (simp add: roundtrip_simps del: json_norm.simps(2))

lemma closure_roundtrip [wire_roundtrips]: "closure_from_wire (json_norm (closure_to_wire cl)) = Inr cl"
proof -
  have "mapE receipt_from_wire (map json_norm (map receipt_to_wire rs)) = Inr rs" for rs
    using mapE_map [of rs receipt_from_wire "\<lambda>r. json_norm (receipt_to_wire r)" "\<lambda>r. r"]
    by (simp add: receipt_roundtrip comp_def)
  then show ?thesis
    unfolding closure_to_wire_def closure_from_wire_def
    by (simp add: roundtrip_simps del: json_norm.simps(2) map_map)
qed

lemma shard_roundtrip [wire_roundtrips]: "shard_from_wire (json_norm (shard_to_wire s)) = Inr s"
  unfolding shard_to_wire_def shard_from_wire_def by (simp add: roundtrip_simps del: json_norm.simps(2))

lemma admission_roundtrip [wire_roundtrips]: "admission_from_wire (json_norm (admission_to_wire r)) = Inr r"
  unfolding admission_to_wire_def admission_from_wire_def by (simp add: roundtrip_simps del: json_norm.simps(2))

lemma bond_roundtrip [wire_roundtrips]: "bond_from_wire (json_norm (bond_to_wire b)) = Inr b"
  unfolding bond_to_wire_def bond_from_wire_def by (simp add: roundtrip_simps del: json_norm.simps(2))

lemma commitment_roundtrip [wire_roundtrips]:
  "commitment_from_wire (json_norm (commitment_to_wire c)) = Inr c"
  unfolding commitment_to_wire_def commitment_from_wire_def by (simp add: roundtrip_simps del: json_norm.simps(2))

lemma reveal_roundtrip [wire_roundtrips]: "reveal_from_wire (json_norm (reveal_to_wire r)) = Inr r"
  unfolding reveal_to_wire_def reveal_from_wire_def by (simp add: roundtrip_simps del: json_norm.simps(2))

text \<open>
  Wire encodings lose nothing. Seals, capsules, receipts, closures, shards, admission
  requests, bonds, commitments and reveals written for the network or the store, and read back from
  the JSON with its keys sorted, are the objects that were written; so their digests and signatures
  still verify.
\<close>

theorem wire_encodings_roundtrip:
  "seal_from_wire (json_norm (seal_to_wire seal)) = Inr seal
   \<and> capsule_from_wire (json_norm (capsule_to_wire c)) = Inr c
   \<and> receipt_from_wire (json_norm (receipt_to_wire r)) = Inr r
   \<and> closure_from_wire (json_norm (closure_to_wire cl)) = Inr cl
   \<and> shard_from_wire (json_norm (shard_to_wire s)) = Inr s
   \<and> admission_from_wire (json_norm (admission_to_wire req)) = Inr req
   \<and> bond_from_wire (json_norm (bond_to_wire b)) = Inr b
   \<and> commitment_from_wire (json_norm (commitment_to_wire com)) = Inr com
   \<and> reveal_from_wire (json_norm (reveal_to_wire rvl)) = Inr rvl"
  by (simp add: wire_roundtrips del: json_norm.simps(2))

end
