(* ===== verification/Availability_Node.thy ===== *)
theory Availability_Node
  imports Erasure_Store Storage Wire
begin

section \<open>The availability provider of a node (mosaic/availability_network.py)\<close>

text \<open>
  \<open>AvailabilityCoordinator\<close>: the shard store of a provider with the durable store behind it. An
  \<open>AvailabilityError\<close> of the shard store is reported as \<open>AvailabilityNetworkError\<close> by every
  operation but \<open>restore_from_store\<close>, which lets it pass; other exceptions pass everywhere.
\<close>

datatype provider_error =
    AvailabilityNetworkError string
  | ProviderAvailability availability_error
  | ProviderStorage storage_error
  | ProviderWire wire_error

record provider =
  provider_store :: availability_store
  durable_shards :: "durable_store option"

type_synonym 'a p_outcome = "(provider, provider_error, 'a) outcome"

definition as_network_error :: "availability_error \<Rightarrow> provider_error" where
  "as_network_error e = (case e of AvailabilityError msg \<Rightarrow> AvailabilityNetworkError msg | _ \<Rightarrow> ProviderAvailability e)"

definition shard_key :: "shard \<Rightarrow> string" where
  "shard_key s = sh_object_id s @ '':'' @ int_str (sh_shard_index s)"

definition provider_put :: "crypto \<Rightarrow> shard \<Rightarrow> provider \<Rightarrow> unit p_outcome" where
  "provider_put cr s p =
     (case put_shard cr s (provider_store p) of
        (Inl e, ps) \<Rightarrow> (Inl (as_network_error e), p\<lparr>provider_store := ps\<rparr>)
      | (Inr _, ps) \<Rightarrow>
          (case durable_shards p of
             None \<Rightarrow> (Inr (), p\<lparr>provider_store := ps\<rparr>)
           | Some db \<Rightarrow>
               (case store_put ''availability_shard'' (shard_key s) (shard_to_wire s) True db of
                  (Inl e, db') \<Rightarrow> (Inl (ProviderStorage e), p\<lparr>provider_store := ps, durable_shards := Some db'\<rparr>)
                | (Inr _, db') \<Rightarrow> (Inr (), p\<lparr>provider_store := ps, durable_shards := Some db'\<rparr>))))"

definition provider_fetch :: "provider \<Rightarrow> string \<Rightarrow> int \<Rightarrow> provider_error + shard" where
  "provider_fetch p oid index =
     (case filter (\<lambda>s. sh_shard_index s = index) (store_shards (provider_store p) oid) of
        s # _ \<Rightarrow> Inr s
      | [] \<Rightarrow> Inl (AvailabilityNetworkError ''requested shard is not stored by provider''))"

definition provider_sample :: "crypto \<Rightarrow> provider \<Rightarrow> string \<Rightarrow> int list \<Rightarrow> provider_error + sampling_proof" where
  "provider_sample cr p oid indices =
     (case store_sample cr (provider_store p) oid indices of
        Inl e \<Rightarrow> Inl (as_network_error e) | Inr prf \<Rightarrow> Inr prf)"

fun provider_puts :: "crypto \<Rightarrow> shard list \<Rightarrow> provider \<Rightarrow> unit p_outcome" where
  "provider_puts cr [] p = (Inr (), p)"
| "provider_puts cr (s # ss) p = thenS (provider_put cr s) (\<lambda>_. provider_puts cr ss) p"

definition provider_repair ::
  "crypto \<Rightarrow> shard list \<Rightarrow> int list \<Rightarrow> provider \<Rightarrow> shard list p_outcome" where
  "provider_repair cr source_shards missing p =
     (if source_shards = [] then (Inl (AvailabilityNetworkError ''repair requires source shards''), p)
      else (case codec_repair cr (store_codec (provider_store p)) source_shards missing of
              Inl e \<Rightarrow> (Inl (as_network_error e), p)
            | Inr repaired \<Rightarrow> thenS (provider_puts cr repaired) (\<lambda>_ p. (Inr repaired, p)) p))"

fun restore_items :: "crypto \<Rightarrow> (string \<times> json) list \<Rightarrow> nat \<Rightarrow> availability_store \<Rightarrow> (availability_store, provider_error, nat) outcome" where
  "restore_items cr [] n ps = (Inr n, ps)"
| "restore_items cr ((_, payload) # items) n ps =
     (case shard_from_wire payload of
        Inl e \<Rightarrow> (Inl (ProviderWire e), ps)
      | Inr s \<Rightarrow> (case put_shard cr s ps of
          (Inl e, ps') \<Rightarrow> (Inl (ProviderAvailability e), ps')
        | (Inr _, ps') \<Rightarrow> restore_items cr items (n + 1) ps'))"

definition provider_restore :: "crypto \<Rightarrow> provider \<Rightarrow> nat p_outcome" where
  "provider_restore cr p =
     (case durable_shards p of
        None \<Rightarrow> (Inr 0, p)
      | Some db \<Rightarrow>
          (case restore_items cr (store_items db ''availability_shard'') 0 (provider_store p) of
             (r, ps) \<Rightarrow> (r, p\<lparr>provider_store := ps\<rparr>)))"

subsection \<open>The keys of the durable rows\<close>

lemma int_str_colon: "CHR '':'' \<notin> set (int_str i)"
proof -
  have "CHR '':'' \<notin> set (nat_str n)" for n
    using nat_str_digits [of "CHR '':''" n] by (auto simp: is_digit_def)
  then show ?thesis by (auto simp: int_str_def)
qed

lemma shard_key_inject: "shard_key s = shard_key t \<longleftrightarrow> sh_object_id s = sh_object_id t \<and> sh_shard_index s = sh_shard_index t"
proof
  have parts: "takeWhile (\<lambda>c. c \<noteq> CHR '':'') (rev (oid @ CHR '':'' # int_str i)) = rev (int_str i)"
    "dropWhile (\<lambda>c. c \<noteq> CHR '':'') (rev (oid @ CHR '':'' # int_str i)) = CHR '':'' # rev oid" for oid i
    using int_str_colon [of i] by (auto simp: takeWhile_append dropWhile_append)
  assume eq: "shard_key s = shard_key t"
  from arg_cong [OF eq, of "\<lambda>k. takeWhile (\<lambda>c. c \<noteq> CHR '':'') (rev k)"]
  have "int_str (sh_shard_index s) = int_str (sh_shard_index t)" by (simp add: shard_key_def parts del: rev_append)
  then have "sh_shard_index s = sh_shard_index t" using int_str_prefix [of _ "[]" _ "[]"] by simp
  moreover from arg_cong [OF eq, of "\<lambda>k. dropWhile (\<lambda>c. c \<noteq> CHR '':'') (rev k)"]
  have "sh_object_id s = sh_object_id t" by (simp add: shard_key_def parts del: rev_append)
  ultimately show "sh_object_id s = sh_object_id t \<and> sh_shard_index s = sh_shard_index t" by simp
qed (simp add: shard_key_def)

subsection \<open>Provider and durable store agree\<close>

definition shard_at :: "availability_store \<Rightarrow> string \<Rightarrow> int \<Rightarrow> shard option" where
  "shard_at ps oid i = map_of (object_shards ps oid) i"

definition shard_row :: "durable_store \<Rightarrow> string \<Rightarrow> json option" where
  "shard_row db k = store_get db ''availability_shard'' k"

text \<open>\<open>mirrored\<close>: the rows of kind \<open>availability_shard\<close> are exactly the shards the provider holds.\<close>

definition mirrored :: "crypto \<Rightarrow> provider \<Rightarrow> durable_store \<Rightarrow> bool" where
  "mirrored cr p db \<longleftrightarrow> durable_shards p = Some db \<and> store_ok cr (provider_store p) \<and> wf_dict (rows db)
     \<and> (\<forall>k v. shard_row db k = Some v \<longleftrightarrow>
          (\<exists>s. k = shard_key s \<and> v = json_norm (shard_to_wire s)
             \<and> shard_at (provider_store p) (sh_object_id s) (sh_shard_index s) = Some s))"

lemma put_shard_at:
  assumes "store_ok cr ps" "put_shard cr s ps = (r, ps')"
  shows "shard_at ps' oid i = (if is_ok r \<and> oid = sh_object_id s \<and> i = sh_shard_index s then Some s
    else shard_at ps oid i)"
proof (cases r)
  case (Inr u)
  with assms put_shard_ok(3) [of cr ps s r ps'] have own: "object_shards ps' (sh_object_id s) =
      AList.update (sh_shard_index s) s (object_shards ps (sh_object_id s))" by simp
  have "object_shards ps' oid = object_shards ps oid" if "oid \<noteq> sh_object_id s"
    using assms(2) that by (auto simp: put_shard_def Let_def split: if_splits)
  with own Inr show ?thesis by (cases "oid = sh_object_id s") (auto simp: shard_at_def)
next
  case (Inl e)
  with assms(2) have "object_shards ps' oid = object_shards ps oid"
    by (auto simp: put_shard_def Let_def object_shards_def has_key_map_of split: if_splits)
  with Inl show ?thesis by (simp add: shard_at_def)
qed

lemma shard_at_ok:
  assumes "store_ok cr ps" "shard_at ps oid i = Some s"
  shows "sh_object_id s = oid" "sh_shard_index s = i" "entry_ok cr (store_codec ps) oid (i, s)"
proof -
  from assms have "(i, s) \<in> set (object_shards ps oid)" by (simp add: shard_at_def map_of_SomeD)
  with object_shards_ok [OF assms(1), of oid] show "entry_ok cr (store_codec ps) oid (i, s)"
    by (auto simp: object_ok_def)
  then show "sh_object_id s = oid" "sh_shard_index s = i" by (simp_all add: entry_ok_def)
qed

lemma shard_at_same_digest:
  assumes "store_ok cr ps" "shard_at ps oid i = Some s" "shard_at ps oid j = Some t"
  shows "sh_content_digest s = sh_content_digest t"
proof -
  from assms have "(i, s) \<in> set (object_shards ps oid)" "(j, t) \<in> set (object_shards ps oid)"
    by (simp_all add: shard_at_def map_of_SomeD)
  with object_shards_ok [OF assms(1), of oid] show ?thesis by (fastforce simp: object_ok_def)
qed

lemma store_shards_at: "store_ok cr ps \<Longrightarrow> set (store_shards ps oid) = {s. \<exists>i. shard_at ps oid i = Some s}"
  using object_shards_ok [of cr ps oid]
  by (auto simp: store_shards_def shard_at_def object_ok_def image_iff) (metis map_of_SomeD snd_conv)

lemma fetch_at:
  assumes "store_ok cr (provider_store p)"
  shows "provider_fetch p oid i = (case shard_at (provider_store p) oid i of Some s \<Rightarrow> Inr s
    | None \<Rightarrow> Inl (AvailabilityNetworkError ''requested shard is not stored by provider''))"
proof -
  let ?hits = "filter (\<lambda>s. sh_shard_index s = i) (store_shards (provider_store p) oid)"
  have hit: "s \<in> set ?hits \<longleftrightarrow> shard_at (provider_store p) oid i = Some s" for s
    using shard_at_ok [OF assms] by (auto simp: store_shards_at [OF assms])
  show ?thesis
  proof (cases ?hits)
    case Nil
    then have "shard_at (provider_store p) oid i = None" using hit by (cases "shard_at (provider_store p) oid i") auto
    with Nil show ?thesis by (simp add: provider_fetch_def)
  next
    case (Cons s ss)
    then have "shard_at (provider_store p) oid i = Some s" using hit [of s] by simp
    with Cons show ?thesis by (simp add: provider_fetch_def)
  qed
qed

lemma provider_put_mirrored:
  assumes m: "mirrored cr p db" and put: "provider_put cr s p = (r, p')" and r: "\<nexists>e. r = Inl (ProviderStorage e)"
  shows "\<exists>db'. mirrored cr p' db' \<and> store_codec (provider_store p') = store_codec (provider_store p)"
proof -
  obtain q ps where q: "put_shard cr s (provider_store p) = (q, ps)" by fastforce
  from m have ok: "store_ok cr (provider_store p)" and db: "durable_shards p = Some db" by (auto simp: mirrored_def)
  note ps = put_shard_ok(1,2) [OF ok q] and at = put_shard_at [OF ok q]
  show ?thesis
  proof (cases q)
    case (Inl e)
    with put q have p': "p' = p\<lparr>provider_store := ps\<rparr>" by (simp add: provider_put_def)
    from Inl at have "shard_at ps oid i = shard_at (provider_store p) oid i" for oid i by simp
    with m ps have "mirrored cr p' db" unfolding p' mirrored_def by simp
    with ps p' show ?thesis by auto
  next
    case (Inr u)
    obtain w db' where w: "store_put ''availability_shard'' (shard_key s) (shard_to_wire s) True db = (w, db')" by fastforce
    have q': "put_shard cr s (provider_store p) = (Inr (), ps)" using q Inr by simp
    have "\<exists>v. w = Inr v"
    proof (cases w)
      case (Inl e)
      have "provider_put cr s p = (Inl (ProviderStorage e), p\<lparr>provider_store := ps, durable_shards := Some db'\<rparr>)"
        by (simp add: provider_put_def q' db w Inl)
      with put have "r = Inl (ProviderStorage e)" by simp
      with r show ?thesis by blast
    qed simp
    then have v: "w = Inr ()" by auto
    have "provider_put cr s p = (Inr (), p\<lparr>provider_store := ps, durable_shards := Some db'\<rparr>)"
      by (simp add: provider_put_def q' db w v)
    with put have p': "p' = p\<lparr>provider_store := ps, durable_shards := Some db'\<rparr>" by (simp only: prod.inject)
    have row: "shard_row db' k = (if k = shard_key s then Some (json_norm (shard_to_wire s)) else shard_row db k)" for k
      using durable.get_put [OF w [unfolded v], of "''availability_shard''" k] by (simp add: shard_row_def)
    have "wf_dict (rows (snd (store_put ''availability_shard'' (shard_key s) (shard_to_wire s) True db)))"
      using m by (intro wf_rows_put) (simp add: mirrored_def)
    then have "wf_dict (rows db')" unfolding w by simp
    moreover have "shard_row db' k = Some v \<longleftrightarrow> (\<exists>t. k = shard_key t \<and> v = json_norm (shard_to_wire t)
        \<and> shard_at ps (sh_object_id t) (sh_shard_index t) = Some t)" for k v
    proof (cases "k = shard_key s")
      case True
      have "shard_at ps (sh_object_id t) (sh_shard_index t) = Some t \<longleftrightarrow> t = s" if "shard_key s = shard_key t" for t
        using that Inr by (auto simp: at shard_key_inject)
      then show ?thesis unfolding row if_P [OF True] unfolding True by blast
    next
      case False
      have "shard_at ps (sh_object_id t) (sh_shard_index t) = shard_at (provider_store p) (sh_object_id t) (sh_shard_index t)"
        if "k = shard_key t" for t
        using False unfolding that at shard_key_inject by (auto split: if_splits)
      then show ?thesis unfolding row if_not_P [OF False] using m unfolding mirrored_def by (metis (no_types, lifting))
    qed
    ultimately show ?thesis using ps unfolding p' mirrored_def by simp
  qed
qed

lemma provider_put_calm:
  assumes m: "mirrored cr p db" and calm: "faults db = []" and codec: "store_codec (provider_store p) = codec"
  shows "\<exists>db'. mirrored cr (snd (provider_put cr s p)) db' \<and> faults db' = []
    \<and> store_codec (provider_store (snd (provider_put cr s p))) = codec"
proof -
  obtain q ps where q: "put_shard cr s (provider_store p) = (q, ps)" by fastforce
  from m have db: "durable_shards p = Some db" by (simp add: mirrored_def)
  obtain db' where w: "store_put ''availability_shard'' (shard_key s) (shard_to_wire s) True db = (Inr (), db')"
    and calm': "faults db' = []" using put_calm [OF calm] by metis
  obtain r p' where put: "provider_put cr s p = (r, p')" by fastforce
  have shape: "(\<nexists>e. r = Inl (ProviderStorage e)) \<and> (durable_shards p' = Some db \<or> durable_shards p' = Some db')"
  proof (cases q)
    case (Inl e)
    then have "provider_put cr s p = (Inl (as_network_error e), p\<lparr>provider_store := ps\<rparr>)"
      by (simp add: provider_put_def q)
    with put db show ?thesis by (auto simp: as_network_error_def split: availability_error.splits)
  next
    case (Inr u)
    then have "provider_put cr s p = (Inr (), p\<lparr>provider_store := ps, durable_shards := Some db'\<rparr>)"
      by (simp add: provider_put_def q db w)
    with put show ?thesis by auto
  qed
  from provider_put_mirrored [OF m put] shape obtain db'' where
    m': "mirrored cr p' db''" and c': "store_codec (provider_store p') = store_codec (provider_store p)" by blast
  from m' have "durable_shards p' = Some db''" by (simp add: mirrored_def)
  with shape calm calm' have "faults db'' = []" by auto
  with m' c' codec put show ?thesis by auto
qed

subsection \<open>Restoring\<close>

text \<open>\<open>restorable\<close>: the shards can be put one after the other into the store.\<close>

lemma put_shard_accepts:
  assumes ok: "store_ok cr ps" and s: "entry_ok cr (store_codec ps) (sh_object_id s) (sh_shard_index s, s)"
    and same: "\<And>i t. shard_at ps (sh_object_id s) i = Some t \<Longrightarrow> sh_content_digest t = sh_content_digest s"
  shows "\<exists>ps'. put_shard cr s ps = (Inr (), ps')"
proof -
  have "sh_content_digest t = sh_content_digest s" if "t \<in> set (store_shards ps (sh_object_id s))" for t
    using that same store_shards_at [OF ok, of "sh_object_id s"] by auto
  from put_shard_returns [OF ok s this] show ?thesis by metis
qed

lemma restore_items_returns:
  assumes "store_ok cr ps"
    and "\<forall>s \<in> set ss. entry_ok cr (store_codec ps) (sh_object_id s) (sh_shard_index s, s)"
    and "\<forall>s \<in> set ss. \<forall>t \<in> set ss. sh_object_id s = sh_object_id t \<longrightarrow> sh_content_digest s = sh_content_digest t"
    and "\<forall>s \<in> set ss. \<forall>i t. shard_at ps (sh_object_id s) i = Some t \<longrightarrow> sh_content_digest t = sh_content_digest s"
    and "distinct (map shard_key ss)"
  shows "\<exists>ps'. restore_items cr (map (\<lambda>s. (shard_key s, json_norm (shard_to_wire s))) ss) n ps = (Inr (n + length ss), ps')
    \<and> store_ok cr ps' \<and> (\<forall>oid i. shard_at ps' oid i =
        (case filter (\<lambda>s. sh_object_id s = oid \<and> sh_shard_index s = i) ss of s # _ \<Rightarrow> Some s | [] \<Rightarrow> shard_at ps oid i))"
  using assms
proof (induction ss arbitrary: n ps)
  case (Cons s ss)
  have "entry_ok cr (store_codec ps) (sh_object_id s) (sh_shard_index s, s)" using Cons.prems(2) by simp
  moreover have "sh_content_digest t = sh_content_digest s" if "shard_at ps (sh_object_id s) i = Some t" for i t
    using Cons.prems(4) that by (meson list.set_intros(1))
  ultimately have "\<exists>ps1. put_shard cr s ps = (Inr (), ps1)" by (rule put_shard_accepts [OF Cons.prems(1)])
  then obtain ps1 where put: "put_shard cr s ps = (Inr (), ps1)" by (elim exE)
  note ps1 = put_shard_ok(1,2) [OF Cons.prems(1) put] and at = put_shard_at [OF Cons.prems(1) put]
  have "\<forall>x \<in> set ss. \<forall>i t. shard_at ps1 (sh_object_id x) i = Some t \<longrightarrow> sh_content_digest t = sh_content_digest x"
  proof (intro ballI allI impI)
    fix x i t assume x: "x \<in> set ss" and t: "shard_at ps1 (sh_object_id x) i = Some t"
    show "sh_content_digest t = sh_content_digest x"
    proof (cases "sh_object_id x = sh_object_id s \<and> i = sh_shard_index s")
      case True
      with t at have "t = s" by simp
      with True x Cons.prems(3) show ?thesis by (metis list.set_intros)
    next
      case False
      with t at have "shard_at ps (sh_object_id x) i = Some t" by (auto split: if_splits)
      with x Cons.prems(4) show ?thesis by (meson list.set_intros(2))
    qed
  qed
  note rest = this
  have "\<exists>ps'. restore_items cr (map (\<lambda>s. (shard_key s, json_norm (shard_to_wire s))) ss) (n + 1) ps1 = (Inr (n + 1 + length ss), ps')
    \<and> store_ok cr ps' \<and> (\<forall>oid i. shard_at ps' oid i =
        (case filter (\<lambda>s. sh_object_id s = oid \<and> sh_shard_index s = i) ss of s # _ \<Rightarrow> Some s | [] \<Rightarrow> shard_at ps1 oid i))"
  proof (rule Cons.IH)
    show "\<forall>s \<in> set ss. entry_ok cr (store_codec ps1) (sh_object_id s) (sh_shard_index s, s)"
      using Cons.prems(2) ps1 by simp
    show "\<forall>s \<in> set ss. \<forall>t \<in> set ss. sh_object_id s = sh_object_id t \<longrightarrow> sh_content_digest s = sh_content_digest t"
      using Cons.prems(3) by (meson list.set_intros(2))
    show "distinct (map shard_key ss)" using Cons.prems(5) by simp
  qed (rule ps1 rest)+
  then obtain ps' where
    run: "restore_items cr (map (\<lambda>s. (shard_key s, json_norm (shard_to_wire s))) ss) (n + 1) ps1 = (Inr (n + 1 + length ss), ps')"
    and ok: "store_ok cr ps'" and at': "\<And>oid i. shard_at ps' oid i =
        (case filter (\<lambda>s. sh_object_id s = oid \<and> sh_shard_index s = i) ss of s # _ \<Rightarrow> Some s | [] \<Rightarrow> shard_at ps1 oid i)"
    by (elim exE conjE) (rule that, assumption+, blast)
  have "filter (\<lambda>t. sh_object_id t = sh_object_id s \<and> sh_shard_index t = sh_shard_index s) ss = []"
    using Cons.prems(5) by (auto simp: filter_empty_conv shard_key_inject [symmetric] image_iff)
  with at at' have "shard_at ps' oid i =
        (case filter (\<lambda>s. sh_object_id s = oid \<and> sh_shard_index s = i) (s # ss) of t # _ \<Rightarrow> Some t | [] \<Rightarrow> shard_at ps oid i)" for oid i
    by (cases "sh_object_id s = oid \<and> sh_shard_index s = i") (auto split: list.splits)
  with run ok put show ?case by (auto simp: shard_roundtrip)
qed auto

lemma shard_wire_inject: "json_norm (shard_to_wire s) = json_norm (shard_to_wire t) \<longleftrightarrow> s = t"
  using shard_roundtrip [of s] shard_roundtrip [of t] by (metis sum.inject(2))

lemma mirrored_items:
  assumes m: "mirrored cr p db"
  obtains ss where "store_items db ''availability_shard'' = map (\<lambda>s. (shard_key s, json_norm (shard_to_wire s))) ss"
    "set ss = {s. shard_at (provider_store p) (sh_object_id s) (sh_shard_index s) = Some s}"
    "distinct (map shard_key ss)"
proof -
  let ?item = "\<lambda>s. (shard_key s, json_norm (shard_to_wire s))"
  have items: "(k, v) \<in> set (store_items db ''availability_shard'') \<longleftrightarrow> shard_row db k = Some v" for k v
    using m store_items_get(1) by (simp add: mirrored_def shard_row_def)
  have held: "shard_row db (shard_key s) = Some (json_norm (shard_to_wire s))
      \<longleftrightarrow> shard_at (provider_store p) (sh_object_id s) (sh_shard_index s) = Some s" for s
    using m by (auto simp: mirrored_def shard_wire_inject)
  have "\<forall>y \<in> set (store_items db ''availability_shard''). \<exists>s. y = ?item s"
    using items m by (auto simp: mirrored_def)
  then obtain ss where ss: "store_items db ''availability_shard'' = map ?item ss"
    unfolding ex_map_conv [symmetric] by (elim exE)
  have mem: "s \<in> set ss \<longleftrightarrow> ?item s \<in> set (map ?item ss)" for s
    by (auto simp: shard_wire_inject)
  have "set ss = {s. shard_at (provider_store p) (sh_object_id s) (sh_shard_index s) = Some s}"
    using mem unfolding ss [symmetric] items held by blast
  moreover have "distinct (map fst (map ?item ss))"
    using m store_items_get(2) unfolding ss [symmetric] mirrored_def by blast
  ultimately show ?thesis using ss by (intro that) (simp_all add: comp_def)
qed

lemma mirrored_restores:
  assumes m: "mirrored cr p db" and codec: "store_codec (provider_store p) = codec"
  shows "\<exists>n p'. provider_restore cr (p\<lparr>provider_store := \<lparr>store_codec = codec, objects = []\<rparr>\<rparr>) = (Inr n, p')
    \<and> (\<forall>oid i. provider_fetch p' oid i = provider_fetch p oid i)"
proof -
  let ?empty = "\<lparr>store_codec = codec, objects = []\<rparr>"
  from m have ok: "store_ok cr (provider_store p)" and db: "durable_shards p = Some db" by (auto simp: mirrored_def)
  from mirrored_items [OF m] obtain ss where
    items: "store_items db ''availability_shard'' = map (\<lambda>s. (shard_key s, json_norm (shard_to_wire s))) ss"
    and ss: "set ss = {s. shard_at (provider_store p) (sh_object_id s) (sh_shard_index s) = Some s}"
    and dist: "distinct (map shard_key ss)" by blast
  have none: "shard_at ?empty oid i = None" for oid i by (simp add: shard_at_def object_shards_def)
  have "\<exists>ps'. restore_items cr (map (\<lambda>s. (shard_key s, json_norm (shard_to_wire s))) ss) 0 ?empty = (Inr (0 + length ss), ps')
    \<and> store_ok cr ps' \<and> (\<forall>oid i. shard_at ps' oid i =
        (case filter (\<lambda>s. sh_object_id s = oid \<and> sh_shard_index s = i) ss of s # _ \<Rightarrow> Some s | [] \<Rightarrow> shard_at ?empty oid i))"
  proof (rule restore_items_returns)
    show "store_ok cr ?empty" using ok codec by (simp add: store_ok_def)
    show "\<forall>s \<in> set ss. entry_ok cr (store_codec ?empty) (sh_object_id s) (sh_shard_index s, s)"
      using shard_at_ok(3) [OF ok] codec by (auto simp: ss)
    show "\<forall>s \<in> set ss. \<forall>t \<in> set ss. sh_object_id s = sh_object_id t \<longrightarrow> sh_content_digest s = sh_content_digest t"
    proof (intro ballI impI)
      fix s t assume "s \<in> set ss" "t \<in> set ss" and same: "sh_object_id s = sh_object_id t"
      then have "shard_at (provider_store p) (sh_object_id t) (sh_shard_index s) = Some s"
        "shard_at (provider_store p) (sh_object_id t) (sh_shard_index t) = Some t" by (simp_all add: ss)
      then show "sh_content_digest s = sh_content_digest t" by (rule shard_at_same_digest [OF ok])
    qed
  qed (simp_all add: none dist)
  then obtain ps' where all: "restore_items cr (store_items db ''availability_shard'') 0 ?empty = (Inr (0 + length ss), ps')
    \<and> store_ok cr ps' \<and> (\<forall>oid i. shard_at ps' oid i =
        (case filter (\<lambda>s. sh_object_id s = oid \<and> sh_shard_index s = i) ss of s # _ \<Rightarrow> Some s | [] \<Rightarrow> None))"
    unfolding items none by (elim exE)
  note run = all [THEN conjunct1] and ok' = all [THEN conjunct2, THEN conjunct1]
    and at = all [THEN conjunct2, THEN conjunct2, rule_format]
  have "shard_at ps' oid i = shard_at (provider_store p) oid i" for oid i
  proof (cases "filter (\<lambda>s. sh_object_id s = oid \<and> sh_shard_index s = i) ss")
    case Nil
    have "shard_at (provider_store p) oid i \<noteq> Some s" for s
      using Nil shard_at_ok(1,2) [OF ok, of oid i s] ss by (auto simp: filter_empty_conv)
    with Nil at show ?thesis by (cases "shard_at (provider_store p) oid i") auto
  next
    case (Cons s rest)
    then have "s \<in> set (filter (\<lambda>s. sh_object_id s = oid \<and> sh_shard_index s = i) ss)" by simp
    then have "shard_at (provider_store p) oid i = Some s" using ss by auto
    with Cons at show ?thesis by simp
  qed
  with run ok' ok db show ?thesis by (simp add: provider_restore_def fetch_at)
qed

text \<open>
  C25. A provider finds its shards again after a restart. Whatever shards are put to a coordinator
  over a fresh durable store, accepted or refused, as long as the durable store's transactions
  commit: a new coordinator over that store restores without an exception and answers every fetch
  as the old one did.
\<close>

theorem provider_restores:
  assumes "codec_init k m = Inr codec" and "rows db = []" and "faults db = []"
    and "p = fold (\<lambda>s p. snd (provider_put cr s p)) ss
      \<lparr>provider_store = \<lparr>store_codec = codec, objects = []\<rparr>, durable_shards = Some db\<rparr>"
  shows "\<exists>n p'. provider_restore cr (p\<lparr>provider_store := \<lparr>store_codec = codec, objects = []\<rparr>\<rparr>) = (Inr n, p')
    \<and> (\<forall>oid i. provider_fetch p' oid i = provider_fetch p oid i)"
proof -
  define inv where "inv p \<longleftrightarrow> (\<exists>db. mirrored cr p db \<and> faults db = [] \<and> store_codec (provider_store p) = codec)" for p
  have "inv \<lparr>provider_store = \<lparr>store_codec = codec, objects = []\<rparr>, durable_shards = Some db\<rparr>"
    using assms(2,3) codec_init_wf [OF assms(1)]
    by (simp add: inv_def mirrored_def store_ok_def shard_row_def store_get_def shard_at_def object_shards_def)
  moreover have "inv (snd (provider_put cr s p))" if "inv p" for s p
    using that unfolding inv_def by (metis provider_put_calm)
  ultimately have "inv p" unfolding assms(4) by (induction ss rule: rev_induct) simp_all
  then show ?thesis using mirrored_restores unfolding inv_def by blast
qed

definition fresh_provider :: provider where
  "fresh_provider = \<lparr>provider_store = demo_store [], durable_shards = Some empty_store\<rparr>"

theorem provider_restores_witness:
  "let p = fold (\<lambda>s p. snd (provider_put demo_crypto s p))
         [shard_create demo_crypto ''o'' ''d'' 0 8 5 ''x'', shard_create demo_crypto ''o'' ''e'' 1 8 5 ''y''] fresh_provider
   in \<exists>n p'. provider_restore demo_crypto (p\<lparr>provider_store := demo_store []\<rparr>) = (Inr n, p')
     \<and> (\<forall>oid i. provider_fetch p' oid i = provider_fetch p oid i)"
  unfolding Let_def demo_store_def fresh_provider_def
  by (rule provider_restores [OF demo_codec_init _ _ refl]) (simp_all add: empty_store_def)

end
