(* ===== verification/Persistence.thy ===== *)
theory Persistence
  imports Execution Storage Wire
begin

section \<open>Saving and restoring the ledger and the executor (mosaic/economics.py, mosaic/execution.py)\<close>

text \<open>
  \<open>to_dict\<close>, \<open>persist\<close> and \<open>from_store\<close> of \<open>SettlementLedger\<close> and \<open>DeterministicExecutor\<close>. What is
  restored is the object with its dictionaries in key order, the order in which \<open>json.dumps\<close> with
  \<open>sort_keys\<close> wrote them; as Python values the dictionaries are equal.
\<close>

datatype persist_error =
    PersistSettlement settlement_error
  | PersistExecution execution_error
  | PersistWire wire_error

definition liftE :: "('e \<Rightarrow> 'f) \<Rightarrow> 'e + 'a \<Rightarrow> 'f + 'a" where
  "liftE f r = (case r of Inl e \<Rightarrow> Inl (f e) | Inr a \<Rightarrow> Inr a)"

lemma liftE_simps [simp]: "liftE f (Inl e) = Inl (f e)" "liftE f (Inr a) = Inr a"
  by (simp_all add: liftE_def)

text \<open>\<open>bool(x)\<close>, and \<open>x.items()\<close> of a JSON object.\<close>

definition truth :: "json \<Rightarrow> bool" where
  "truth v = (case v of JNull \<Rightarrow> False | JBool b \<Rightarrow> b | JInt i \<Rightarrow> i \<noteq> 0
     | JFloat t \<Rightarrow> t \<notin> {''0.0'', ''-0.0''} | JStr t \<Rightarrow> t \<noteq> [] | JArr vs \<Rightarrow> vs \<noteq> [] | JObj kvs \<Rightarrow> kvs \<noteq> [])"

definition items_of :: "json \<Rightarrow> wire_error + (string \<times> json) list" where
  "items_of v = (case v of JObj kvs \<Rightarrow> Inr kvs | _ \<Rightarrow> Inl WireTypeError)"

definition read_dict :: "(json \<Rightarrow> wire_error + 'a) \<Rightarrow> json \<Rightarrow> wire_error + (string, 'a) dict" where
  "read_dict f v = bindE (items_of v) (mapE (\<lambda>(k, w). bindE (f w) (\<lambda>a. Inr (k, a))))"

definition dict_json :: "('a \<Rightarrow> json) \<Rightarrow> (string, 'a) dict \<Rightarrow> json" where
  "dict_json f d = JObj (map (\<lambda>(k, a). (k, f a)) d)"

definition sorted_dict :: "(string, 'a) dict \<Rightarrow> (string, 'a) dict" where
  "sorted_dict d = sort_key fst d"

lemma sorted_dict_sort [simp]: "sort_key fst (sorted_dict d) = sorted_dict d"
  by (simp add: sorted_dict_def sort_key_id_if_sorted)

lemma set_sorted_dict [simp]: "set (sorted_dict d) = set d"
  by (simp add: sorted_dict_def)

lemma keys_sorted_dict: "sort (dict_keys (sorted_dict d)) = sort (dict_keys d)"
  unfolding sorted_dict_def map_sort_key_id [symmetric] by (simp add: sort_key_id_if_sorted)

lemma read_dict_json:
  assumes "\<And>a. a \<in> set (dict_values d) \<Longrightarrow> f (json_norm (g a)) = Inr (h a)"
  shows "read_dict f (json_norm (dict_json g d)) = Inr (sorted_dict (map (\<lambda>(k, a). (k, h a)) d))"
proof -
  have "json_norm (dict_json g d) = JObj (map (\<lambda>(k, a). (k, json_norm (g a))) (sort_key fst d))"
    by (simp add: dict_json_def comp_def case_prod_unfold flip: sort_key_map_pair [where f = "\<lambda>a. json_norm (g a)", unfolded case_prod_unfold])
  moreover have "mapE (\<lambda>(k, w). bindE (f w) (\<lambda>a. Inr (k, a)))
      (map (\<lambda>(k, a). (k, json_norm (g a))) (sort_key fst d)) = Inr (map (\<lambda>(k, a). (k, h a)) (sort_key fst d))"
    by (rule mapE_map) (use assms in \<open>force simp: case_prod_unfold\<close>)
  ultimately show ?thesis
    by (simp add: read_dict_def items_of_def sorted_dict_def sort_key_map_pair)
qed

subsection \<open>The settlement ledger\<close>

definition bond_position_json :: "bond_position \<Rightarrow> json" where
  "bond_position_json q = JObj
     [(''bond_id'', JStr (pos_bond_id q)), (''owner'', JStr (pos_owner q)), (''asset'', JStr (pos_asset q)),
      (''amount'', JInt (pos_amount q)), (''unlock_epoch'', JInt (pos_unlock q)),
      (''active'', JBool (pos_active q)), (''unbonding'', JBool (pos_unbonding q))]"

definition settlement_event_json :: "settlement_event \<Rightarrow> json" where
  "settlement_event_json e = JObj
     [(''event_id'', JStr (ev_id e)), (''kind'', JStr (ev_kind e)), (''epoch'', JInt (ev_epoch e)),
      (''account'', JStr (ev_account e)), (''amount'', JInt (ev_amount e)), (''asset'', JStr (ev_asset e)),
      (''related_id'', JStr (ev_related e)),
      (''metadata'', JArr (map (\<lambda>(a, b). JArr [JStr a, JStr b]) (ev_metadata e)))]"

definition ledger_to_dict :: "crypto \<Rightarrow> ledger \<Rightarrow> json" where
  "ledger_to_dict cr l = JObj
     [(''protocol'', JStr ''MOSAIC/SETTLEMENT-STATE/v1''), (''asset'', JStr (l_asset l)),
      (''treasury'', JStr (l_treasury l)), (''reporter_reward_bps'', JInt (reporter_bps l)),
      (''balances'', dict_json JInt (balances l)),
      (''bonds'', dict_json bond_position_json (bonds l)),
      (''events'', dict_json settlement_event_json (events l)),
      (''slash_evidence_ids'', JArr (map JStr (sorted_list_of_set (slash_ids l)))),
      (''settled_reward_epochs'', JArr (map JInt (sorted_list_of_set (settled_epochs l)))),
      (''state_root'', JStr (settlement_root cr l))]"

definition ledger_persist :: "crypto \<Rightarrow> ledger \<Rightarrow> durable_store \<Rightarrow> unit s_outcome" where
  "ledger_persist cr l db = store_put ''settlement_state'' ''ledger'' (ledger_to_dict cr l) False db"

definition read_position :: "json \<Rightarrow> wire_error + bond_position" where
  "read_position v =
     bindE (text_field ''bond_id'' v) (\<lambda>bid.
     bindE (text_field ''owner'' v) (\<lambda>own.
     bindE (text_field ''asset'' v) (\<lambda>ast.
     bindE (int_field ''amount'' v) (\<lambda>amt.
     bindE (int_field ''unlock_epoch'' v) (\<lambda>unl.
     bindE (jfield ''active'' v) (\<lambda>act.
     bindE (jfield ''unbonding'' v) (\<lambda>unb.
       Inr \<lparr>pos_bond_id = bid, pos_owner = own, pos_asset = ast, pos_amount = amt, pos_unlock = unl,
            pos_active = truth act, pos_unbonding = truth unb\<rparr>)))))))"

definition read_pair :: "json \<Rightarrow> wire_error + string \<times> string" where
  "read_pair v = bindE (as_list v) (\<lambda>ws. case ws of
     [a, b] \<Rightarrow> bindE (as_text a) (\<lambda>a. bindE (as_text b) (\<lambda>b. Inr (a, b))) | _ \<Rightarrow> Inl WireTypeError)"

definition read_event :: "json \<Rightarrow> wire_error + settlement_event" where
  "read_event v =
     bindE (text_field ''event_id'' v) (\<lambda>eid.
     bindE (text_field ''kind'' v) (\<lambda>kind.
     bindE (int_field ''epoch'' v) (\<lambda>ep.
     bindE (text_field ''account'' v) (\<lambda>acct.
     bindE (int_field ''amount'' v) (\<lambda>amt.
     bindE (text_field ''asset'' v) (\<lambda>ast.
     bindE (text_field ''related_id'' v) (\<lambda>related.
     bindE (case jfield ''metadata'' v of Inl (WireKeyError _) \<Rightarrow> Inr (JArr []) | r \<Rightarrow> r) (\<lambda>meta.
     bindE (bindE (as_list meta) (mapE read_pair)) (\<lambda>meta.
       Inr \<lparr>ev_id = eid, ev_kind = kind, ev_epoch = ep, ev_account = acct, ev_amount = amt,
            ev_asset = ast, ev_related = related, ev_metadata = meta\<rparr>)))))))))"

definition ledger_from_store :: "crypto \<Rightarrow> durable_store \<Rightarrow> persist_error + ledger" where
  "ledger_from_store cr db =
     (case store_get db ''settlement_state'' ''ledger'' of
        None \<Rightarrow> Inl (PersistSettlement (SettlementError ''settlement ledger state is missing''))
      | Some payload \<Rightarrow>
          bindE (liftE PersistWire (text_field ''asset'' payload)) (\<lambda>ast.
          bindE (liftE PersistWire (text_field ''treasury'' payload)) (\<lambda>tre.
          bindE (liftE PersistWire (int_field ''reporter_reward_bps'' payload)) (\<lambda>bps.
          bindE (liftE PersistSettlement (ledger_init ast tre bps)) (\<lambda>l.
          bindE (liftE PersistWire (bindE (jfield ''balances'' payload) (read_dict as_integer))) (\<lambda>bs.
          bindE (liftE PersistWire (bindE (jfield ''bonds'' payload) (read_dict read_position))) (\<lambda>qs.
          bindE (liftE PersistWire (bindE (jfield ''events'' payload) (read_dict read_event))) (\<lambda>es.
          bindE (liftE PersistWire (text_list_field ''slash_evidence_ids'' payload)) (\<lambda>slashed.
          bindE (liftE PersistWire (bindE (jfield ''settled_reward_epochs'' payload)
                   (\<lambda>v. bindE (as_list v) (mapE as_integer)))) (\<lambda>settled.
          bindE (liftE PersistWire (text_field ''state_root'' payload)) (\<lambda>root.
          let restored = l\<lparr>balances := bs, bonds := qs, events := es, slash_ids := set slashed,
                           settled_epochs := set settled\<rparr>
          in if \<not> audit restored \<or> settlement_root cr restored \<noteq> root
             then Inl (PersistSettlement (SettlementError ''settlement ledger state root mismatch''))
             else Inr restored)))))))))))"

subsection \<open>The executor\<close>

definition execution_receipt_json :: "execution_receipt \<Rightarrow> json" where
  "execution_receipt_json r = JObj
     [(''tx_id'', JStr (x_tx_id r)), (''pre_state_root'', JStr (pre_state_root r)),
      (''post_state_root'', JStr (post_state_root r)), (''gas_used'', JInt (gas_used r)),
      (''event_root'', JStr (event_root r)), (''state_diff_digest'', JStr (state_diff_digest r)),
      (''success'', JBool (success r)), (''error'', opt_str (x_error r))]"

definition executor_to_dict :: "crypto \<Rightarrow> executor \<Rightarrow> json" where
  "executor_to_dict cr x = JObj
     [(''protocol'', JStr ''MOSAIC/EXECUTION-STATE/v1''), (''state'', dict_json (\<lambda>v. v) (x_state x)),
      (''nonces'', dict_json JInt (nonces x)), (''receipts'', dict_json execution_receipt_json (receipts x)),
      (''state_root'', JStr (executor_root cr x))]"

definition executor_persist :: "crypto \<Rightarrow> executor \<Rightarrow> durable_store \<Rightarrow> unit s_outcome" where
  "executor_persist cr x db = store_put ''execution_state'' ''executor'' (executor_to_dict cr x) False db"

definition read_execution_receipt :: "json \<Rightarrow> wire_error + execution_receipt" where
  "read_execution_receipt v =
     bindE (text_field ''tx_id'' v) (\<lambda>tx.
     bindE (text_field ''pre_state_root'' v) (\<lambda>pre.
     bindE (text_field ''post_state_root'' v) (\<lambda>post.
     bindE (int_field ''gas_used'' v) (\<lambda>gas.
     bindE (text_field ''event_root'' v) (\<lambda>eroot.
     bindE (text_field ''state_diff_digest'' v) (\<lambda>diff.
     bindE (jfield ''success'' v) (\<lambda>ok.
     bindE (bindE (optional_field ''error'' v) as_optional_text) (\<lambda>err.
       Inr \<lparr>x_tx_id = tx, pre_state_root = pre, post_state_root = post, gas_used = gas, event_root = eroot,
            state_diff_digest = diff, success = truth ok, x_error = err\<rparr>))))))))"

definition executor_from_store :: "crypto \<Rightarrow> durable_store \<Rightarrow> int \<Rightarrow> persist_error + executor" where
  "executor_from_store cr db limit =
     (case store_get db ''execution_state'' ''executor'' of
        None \<Rightarrow> Inl (PersistExecution (ExecutionError ''execution state is missing''))
      | Some payload \<Rightarrow>
          bindE (liftE PersistWire (bindE (jfield ''state'' payload) items_of)) (\<lambda>st.
          bindE (liftE PersistWire (bindE (jfield ''nonces'' payload) (read_dict as_integer))) (\<lambda>ns.
          bindE (liftE PersistWire (bindE (jfield ''receipts'' payload) (read_dict read_execution_receipt))) (\<lambda>rs.
          bindE (liftE PersistWire (text_field ''state_root'' payload)) (\<lambda>root.
          let x = (executor_init (Some st) limit)\<lparr>nonces := ns, receipts := rs\<rparr>
          in if executor_root cr x \<noteq> root
             then Inl (PersistExecution (ExecutionError ''execution state root mismatch'')) else Inr x)))))"

subsection \<open>What is restored\<close>

definition ledger_sorted :: "ledger \<Rightarrow> ledger" where
  "ledger_sorted l = l\<lparr>balances := sorted_dict (balances l), bonds := sorted_dict (bonds l),
     events := sorted_dict (events l)\<rparr>"

definition executor_sorted :: "executor \<Rightarrow> executor" where
  "executor_sorted x = x\<lparr>x_state := sorted_dict (map (\<lambda>(k, v). (k, json_norm v)) (x_state x)),
     nonces := sorted_dict (nonces x), receipts := sorted_dict (receipts x)\<rparr>"

definition storable :: "ledger \<Rightarrow> bool" where
  "storable l \<longleftrightarrow> audit l \<and> l_asset l \<noteq> [] \<and> l_treasury l \<noteq> [] \<and> 0 \<le> reporter_bps l \<and> reporter_bps l \<le> 10000
     \<and> finite (slash_ids l) \<and> finite (settled_epochs l)"

lemma settlement_root_sorted: "settlement_root cr (ledger_sorted l) = settlement_root cr l"
  using keys_sorted_dict [of "events l"]
  by (simp add: settlement_root_def ledger_sorted_def) (simp add: sorted_dict_def)

lemma audit_sorted: "audit (ledger_sorted l) = audit l"
  by (simp add: audit_def ledger_sorted_def)

lemma read_position_json: "read_position (json_norm (bond_position_json q)) = Inr q"
  unfolding read_position_def bond_position_json_def
  by (simp add: roundtrip_simps truth_def del: json_norm.simps(2))

lemma read_metadata:
  "mapE read_pair (map json_norm (map (\<lambda>(a, b). JArr [JStr a, JStr b]) meta)) = Inr meta"
  by (induction meta) (auto simp: read_pair_def wire_simps)

lemma read_event_json: "read_event (json_norm (settlement_event_json e)) = Inr e"
  unfolding read_event_def settlement_event_json_def
  using read_metadata [of "ev_metadata e"]
  by (simp add: roundtrip_simps del: json_norm.simps(2) map_map)

lemma read_execution_receipt_json: "read_execution_receipt (json_norm (execution_receipt_json r)) = Inr r"
  unfolding read_execution_receipt_def execution_receipt_json_def
  by (simp add: roundtrip_simps truth_def del: json_norm.simps(2))

lemma map_pair_id: "map (\<lambda>(k, a). (k, a)) d = d"
  by (simp add: case_prod_unfold)

lemma read_dict_values:
  "read_dict as_integer (json_norm (dict_json JInt d)) = Inr (sorted_dict d)"
  "read_dict read_position (json_norm (dict_json bond_position_json qs)) = Inr (sorted_dict qs)"
  "read_dict read_event (json_norm (dict_json settlement_event_json es)) = Inr (sorted_dict es)"
  "read_dict read_execution_receipt (json_norm (dict_json execution_receipt_json rs)) = Inr (sorted_dict rs)"
  using read_dict_json [of d as_integer JInt "\<lambda>a. a"] read_dict_json [of qs read_position bond_position_json "\<lambda>a. a"]
    read_dict_json [of es read_event settlement_event_json "\<lambda>a. a"]
    read_dict_json [of rs read_execution_receipt execution_receipt_json "\<lambda>a. a"]
  by (simp_all add: map_pair_id wire_simps read_position_json read_event_json read_execution_receipt_json)

lemma items_of_dict:
  "items_of (json_norm (dict_json (\<lambda>v. v) d)) = Inr (sorted_dict (map (\<lambda>(k, v). (k, json_norm v)) d))"
  by (simp add: items_of_def dict_json_def sorted_dict_def comp_def case_prod_unfold)

lemma mapE_integers: "mapE as_integer (map JInt xs) = Inr xs"
  by (induction xs) (simp_all add: wire_simps)

lemma map_norm_ints: "map json_norm (map JInt xs) = map JInt xs"
  by simp

lemma restore_ledger:
  assumes "storable l" "store_get db ''settlement_state'' ''ledger'' = Some (json_norm (ledger_to_dict cr l))"
  shows "ledger_from_store cr db = Inr (ledger_sorted l)"
proof -
  have "ledger_init (l_asset l) (l_treasury l) (reporter_bps l) = Inr \<lparr>l_asset = l_asset l, l_treasury = l_treasury l,
      reporter_bps = reporter_bps l, balances = [], bonds = [], events = [], slash_ids = {}, settled_epochs = {}\<rparr>"
    using assms(1) by (simp add: storable_def ledger_init_def)
  moreover have "\<lparr>l_asset = l_asset l, l_treasury = l_treasury l, reporter_bps = reporter_bps l,
      balances = sorted_dict (balances l), bonds = sorted_dict (bonds l), events = sorted_dict (events l),
      slash_ids = slash_ids l, settled_epochs = settled_epochs l\<rparr> = ledger_sorted l"
    by (simp add: ledger_sorted_def)
  moreover have "audit (ledger_sorted l)" using assms(1) by (simp add: audit_sorted storable_def)
  ultimately show ?thesis
    using assms unfolding ledger_from_store_def ledger_to_dict_def
    by (simp add: roundtrip_simps read_dict_values mapE_integers map_norm_ints settlement_root_sorted storable_def
        del: json_norm.simps(2) map_map)
qed

text \<open>
  A persisted ledger is restored. When \<open>persist\<close> returns, \<open>from_store\<close> gives the ledger
  back with its dictionaries in key order, with the same balances, the same state root and the same
  audit; when \<open>persist\<close> raises, the store still gives what it gave before.
\<close>

theorem ledger_persist_roundtrip:
  assumes "storable l" and "ledger_persist cr l db = (r, db')"
  shows "ledger_from_store cr db' = (if is_ok r then Inr (ledger_sorted l) else ledger_from_store cr db)
    \<and> settlement_root cr (ledger_sorted l) = settlement_root cr l
    \<and> (wf_dict (balances l) \<longrightarrow> balance_of (ledger_sorted l) = balance_of l)"
proof -
  have "ledger_from_store cr db' = (if is_ok r then Inr (ledger_sorted l) else ledger_from_store cr db)"
  proof (cases r)
    case (Inr u)
    with assms(2) have "store_get db' ''settlement_state'' ''ledger'' = Some (json_norm (ledger_to_dict cr l))"
      unfolding ledger_persist_def by (intro durable.get_same) simp
    with Inr restore_ledger [OF assms(1)] show ?thesis by simp
  next
    case (Inl e)
    with assms(2) have "store_get db' k i = store_get db k i" for k i
      unfolding ledger_persist_def by (intro durable.put_failed) simp
    with Inl show ?thesis by (simp add: ledger_from_store_def)
  qed
  moreover have "wf_dict (balances l) \<Longrightarrow> balance_of (ledger_sorted l) = balance_of l"
    by (rule ext) (simp add: balance_of_def ledger_sorted_def sorted_dict_def map_of_sorted)
  ultimately show ?thesis by (simp add: settlement_root_sorted)
qed

definition stored_ledger :: ledger where
  "stored_ledger = \<lparr>l_asset = ''MOS'', l_treasury = ''treasury'', reporter_bps = 1000,
     balances = [(''bob'', 7), (''alice'', 5)], bonds = [], events = [], slash_ids = {''e1''},
     settled_epochs = {0}\<rparr>"

lemma put_on_empty: "is_ok (fst (store_put kind k v False empty_store))"
  by (simp add: store_put_def db_transaction_def upsert_def empty_store_def Let_def is_ok_def)

theorem ledger_persist_roundtrip_witness:
  "ledger_from_store demo_crypto (snd (ledger_persist demo_crypto stored_ledger empty_store))
     = Inr (stored_ledger\<lparr>balances := [(''alice'', 5), (''bob'', 7)]\<rparr>)"
proof -
  have "storable stored_ledger"
    by (simp add: storable_def audit_def stored_ledger_def)
  then have "ledger_from_store demo_crypto (snd (ledger_persist demo_crypto stored_ledger empty_store))
      = Inr (ledger_sorted stored_ledger)"
    using ledger_persist_roundtrip [of stored_ledger demo_crypto empty_store] put_on_empty
    by (metis ledger_persist_def prod.collapse)
  then show ?thesis
    by (simp add: ledger_sorted_def sorted_dict_def stored_ledger_def)
qed

subsection \<open>The executor comes back with its state root\<close>

lemma sort_twice:
  "sort_key fst (map (\<lambda>(k, v). (k, f v)) (sort_key fst (map (\<lambda>(k, v). (k, g v)) xs)))
    = sort_key fst (map (\<lambda>(k, v). (k, f (g v))) xs)" for xs :: "('k::linorder \<times> 'v) list"
proof -
  have "map (\<lambda>(k, v). (k, f v)) (sort_key fst (map (\<lambda>(k, v). (k, g v)) xs))
      = sort_key fst (map (\<lambda>(k, v). (k, f v)) (map (\<lambda>(k, v). (k, g v)) xs))"
    by (simp only: sort_key_map_pair)
  moreover have "map (\<lambda>(k, v). (k, f v)) (map (\<lambda>(k, v). (k, g v)) xs) = map (\<lambda>(k, v). (k, f (g v))) xs"
    by (induction xs) auto
  ultimately show ?thesis by (simp only: sort_key_id_if_sorted sorted_sort_key)
qed

lemma canonical_json_norm: "canonical_bytes (json_norm v) = canonical_bytes v"
proof (induction v rule: canonical_bytes.induct)
  case (6 vs)
  then show ?case by (simp cong: map_cong)
next
  case (7 kvs)
  have same: "map (\<lambda>(k, v). (k, canonical_bytes (json_norm v))) kvs = map (\<lambda>(k, v). (k, canonical_bytes v)) kvs"
    using 7 by (intro map_cong) auto
  show ?case
    unfolding json_norm.simps canonical_bytes.simps sort_twice [where f = canonical_bytes and g = json_norm] same ..
qed simp_all

lemma canonical_sorted: "canonical_bytes (JObj (sort_key fst kvs)) = canonical_bytes (JObj kvs)"
  by (simp add: canonical_obj) (simp add: sort_key_id_if_sorted flip: sort_key_map_pair)

lemma state_root_sorted:
  "executor_root cr (executor_sorted x) = executor_root cr x"
proof -
  have "canonical_bytes (JObj (sort_key fst (map (\<lambda>(k, v). (k, json_norm v)) (x_state x))))
      = canonical_bytes (JObj (x_state x))"
    using canonical_json_norm [of "JObj (x_state x)"] by simp
  then have "canonical_bytes (JObj (sort_key fst (sort_key fst (map (\<lambda>(k, v). (k, json_norm v)) (x_state x)))))
      = canonical_bytes (JObj (sort_key fst (x_state x)))"
    unfolding canonical_sorted .
  then show ?thesis
    by (simp add: executor_root_def executor_sorted_def compute_state_root_def sorted_dict_def digest_def
        del: canonical_bytes.simps(7)) (simp del: sort_key_map_pair)
qed

text \<open>
  A persisted executor is restored: after \<open>persist\<close> has returned, \<open>from_store\<close> finds the recorded
  state root on the state it reads back and gives the executor with its dictionaries in key order;
  after \<open>persist\<close> has raised, the store still gives what it gave before.
\<close>

theorem executor_persist_roundtrip:
  assumes "executor_persist cr x db = (r, db')"
  shows "executor_from_store cr db' (max_instructions x)
      = (if is_ok r then Inr (executor_sorted x) else executor_from_store cr db (max_instructions x))"
proof (cases r)
  case (Inr u)
  with assms have "store_get db' ''execution_state'' ''executor'' = Some (json_norm (executor_to_dict cr x))"
    unfolding executor_persist_def by (intro durable.get_same) simp
  moreover have "(executor_init (Some (sorted_dict (map (\<lambda>(k, v). (k, json_norm v)) (x_state x)))) (max_instructions x))
      \<lparr>nonces := sorted_dict (nonces x), receipts := sorted_dict (receipts x)\<rparr> = executor_sorted x"
    by (simp add: executor_sorted_def executor_init_def)
  ultimately show ?thesis
    using Inr unfolding executor_from_store_def executor_to_dict_def
    by (simp add: roundtrip_simps read_dict_values items_of_dict state_root_sorted del: json_norm.simps(2) map_map)
next
  case (Inl e)
  with assms have "store_get db' k i = store_get db k i" for k i
    unfolding executor_persist_def by (intro durable.put_failed) simp
  with Inl show ?thesis by (simp add: executor_from_store_def)
qed

definition stored_executor :: executor where
  "stored_executor = \<lparr>x_state = [(''b'', JInt 1), (''a'', JObj [(''y'', JNull), (''x'', JBool True)])],
     max_instructions = 8, nonces = [(''alice'', 1)], receipts = []\<rparr>"

theorem executor_persist_roundtrip_witness:
  "executor_from_store demo_crypto (snd (executor_persist demo_crypto stored_executor empty_store)) 8
     = Inr (stored_executor\<lparr>x_state := [(''a'', JObj [(''x'', JBool True), (''y'', JNull)]), (''b'', JInt 1)]\<rparr>)"
proof -
  have "executor_from_store demo_crypto (snd (executor_persist demo_crypto stored_executor empty_store))
      (max_instructions stored_executor) = Inr (executor_sorted stored_executor)"
    using executor_persist_roundtrip [of demo_crypto stored_executor empty_store] put_on_empty
    by (metis executor_persist_def prod.collapse)
  then show ?thesis
    by (simp add: executor_sorted_def sorted_dict_def stored_executor_def)
qed

end
