(* ===== verification/Gossip.thy ===== *)
theory Gossip
  imports Seals Storage Wire
begin

section \<open>The gossip node (mosaic/network.py)\<close>

text \<open>
  \<open>MosaicNode\<close> runs its handlers on one asyncio loop, so a handler is interrupted only where it
  waits for \<open>_broadcast\<close> or for the answer of a submission. The code between two such points is one
  function on the node's state (a section); what is left to do after it is returned as a list of
  \<open>work\<close>, done first to last. Messages a section broadcasts and answers it gives are appended
  to \<open>g_outbox\<close>; delivery, which may lose, repeat and delay messages, is the environment's.
  A future is the ticket under which its submission waits. Frames, sockets, TLS, rate limits and the
  counters that only \<open>_handle\<close> and \<open>_send\<close> touch are not part of the state; neither are
  \<open>error_types\<close>, \<open>error_details\<close> and the status queue, which nothing reads.
\<close>

datatype gossip_error = GMosaic mosaic_error | GStorage storage_error

datatype gossip_message =
    GCapsule capsule
  | GReceipt witness_receipt
  | GClosure capsule closure_proof

datatype submit_answer =
    Finalized string string state_seal
  | Rejected string mosaic_error
  | AtCapacity
  | AlreadyPending
  | TimedOut string

datatype gossip_output = Broadcast gossip_message | Answer submit_answer

datatype gossip_work =
    Deliver gossip_message
  | Submit capsule
  | Equivocate capsule
  | Finish string
  | Retry "(string \<times> capsule) list" string
  | Expire string nat

record gossip_node =
  g_id :: string
  g_max_pending :: nat
  g_equivocates :: bool
  g_protocol :: protocol
  g_store :: "durable_store option"
  g_pending :: "(string, capsule \<times> nat) dict"
  g_ticket :: nat
  g_pool :: "(string, (string, witness_receipt) dict) dict"
  g_history :: "(string \<times> string, string set) dict"
  g_seen :: "string set"
  g_waiting :: "(string, capsule) dict"
  g_emitted :: "string set"
  g_metrics :: "(string, int) dict"
  g_outbox :: "gossip_output list"

type_synonym 'a g_outcome = "(gossip_node, gossip_error, 'a) outcome"
type_synonym g_section = "gossip_node \<Rightarrow> gossip_work list g_outcome"

definition gossip_init :: "string \<Rightarrow> nat \<Rightarrow> bool \<Rightarrow> protocol \<Rightarrow> durable_store option \<Rightarrow> gossip_node" where
  "gossip_init nid limit byz p db = \<lparr>g_id = nid, g_max_pending = limit, g_equivocates = byz, g_protocol = p,
     g_store = db, g_pending = [], g_ticket = 0, g_pool = [], g_history = [], g_seen = {}, g_waiting = [],
     g_emitted = {}, g_metrics = [], g_outbox = []\<rparr>"

subsection \<open>Counters, output, protocol calls, persistence\<close>

definition bump :: "string \<Rightarrow> gossip_node \<Rightarrow> gossip_node" where
  "bump k n = n\<lparr>g_metrics := AList.update k
     ((case map_of (g_metrics n) k of None \<Rightarrow> 0 | Some i \<Rightarrow> i) + 1) (g_metrics n)\<rparr>"

definition emit :: "gossip_output \<Rightarrow> gossip_node \<Rightarrow> gossip_node" where
  "emit out n = n\<lparr>g_outbox := g_outbox n @ [out]\<rparr>"

definition on_protocol :: "(protocol \<Rightarrow> 'a p_outcome) \<Rightarrow> gossip_node \<Rightarrow> 'a g_outcome" where
  "on_protocol f n = (case f (g_protocol n) of
     (Inl e, p) \<Rightarrow> (Inl (GMosaic e), n\<lparr>g_protocol := p\<rparr>) | (Inr a, p) \<Rightarrow> (Inr a, n\<lparr>g_protocol := p\<rparr>))"

definition on_store :: "(durable_store \<Rightarrow> unit s_outcome) \<Rightarrow> gossip_node \<Rightarrow> unit g_outcome" where
  "on_store f n = (case g_store n of
     None \<Rightarrow> (Inr (), n)
   | Some db \<Rightarrow> (case f db of
       (Inl e, db') \<Rightarrow> (Inl (GStorage e), n\<lparr>g_store := Some db'\<rparr>)
     | (Inr _, db') \<Rightarrow> (Inr (), n\<lparr>g_store := Some db'\<rparr>)))"

definition persist :: "string \<Rightarrow> string \<Rightarrow> json \<Rightarrow> gossip_node \<Rightarrow> unit g_outcome" where
  "persist kind key payload = on_store (store_put kind key payload True)"

definition put_capsule :: "capsule \<Rightarrow> gossip_node \<Rightarrow> gossip_node" where
  "put_capsule c n = n\<lparr>g_protocol := store_capsule c (g_protocol n)\<rparr>"

definition persist_capsule :: "capsule \<Rightarrow> gossip_node \<Rightarrow> unit g_outcome" where
  "persist_capsule c = persist ''capsule'' (capsule_id c) (capsule_to_wire c)"

definition persist_receipt :: "crypto \<Rightarrow> witness_receipt \<Rightarrow> gossip_node \<Rightarrow> unit g_outcome" where
  "persist_receipt cr r = persist ''receipt'' (receipt_id cr r) (receipt_to_wire r)"

text \<open>The seal a capsule spends and the current seal of its resource, or \<open>KeyError\<close>.\<close>

definition seals_of :: "protocol \<Rightarrow> capsule \<Rightarrow> mosaic_error + state_seal \<times> state_seal" where
  "seals_of p c = (case map_of (known_seals p) (predecessor_id c) of
     None \<Rightarrow> Inl (PyKeyError (predecessor_id c))
   | Some pred \<Rightarrow> (case map_of (current_seals p) (resource_id pred) of
       None \<Rightarrow> Inl (PyKeyError (resource_id pred)) | Some cur \<Rightarrow> Inr (pred, cur)))"

definition persist_closure :: "crypto \<Rightarrow> capsule \<Rightarrow> closure_proof \<Rightarrow> gossip_node \<Rightarrow> unit g_outcome" where
  "persist_closure cr c cl =
     thenS (persist ''closure'' (c_proof_id cl) (closure_to_wire cl)) (\<lambda>_.
     thenS (on_protocol (\<lambda>p. (seals_of p c, p))) (\<lambda>(pred, cur).
     thenS (persist ''seal_known'' (seal_id cr pred) (seal_to_wire pred)) (\<lambda>_.
     thenS (persist ''seal_known'' (seal_id cr cur) (seal_to_wire cur)) (\<lambda>_.
     thenS (persist ''seal_current'' (resource_id cur) (seal_to_wire cur)) (\<lambda>_.
     on_store (store_snapshot (resource_id cur @ '':'' @ seal_id cr cur)
       (JObj [(''resource_id'', JStr (resource_id cur)), (''current_seal'', seal_to_wire cur),
              (''closure_id'', JStr (c_proof_id cl)), (''capsule_id'', JStr (capsule_id c))]) None))))))"

text \<open>\<open>except (ClosureInvalid, ConflictDetected, CapsuleInvalid)\<close> counts a rejection, \<open>except
  Exception\<close> an error.\<close>

definition is_rejection :: "gossip_error \<Rightarrow> bool" where
  "is_rejection e = (case e of
     GMosaic (ClosureInvalid _) \<Rightarrow> True | GMosaic (ConflictDetected _) \<Rightarrow> True
   | GMosaic (CapsuleInvalid _) \<Rightarrow> True | _ \<Rightarrow> False)"

definition count_failure :: "gossip_error \<Rightarrow> gossip_node \<Rightarrow> gossip_node" where
  "count_failure e n = bump (if is_rejection e then ''protocol_rejections'' else ''errors'') n"

subsection \<open>Answers\<close>

definition finish_pending :: "string \<Rightarrow> g_section" where
  "finish_pending cid n =
     (case map_of (g_pending n) cid of
        None \<Rightarrow> (Inr [], n)
      | Some (c, _) \<Rightarrow>
          (case seals_of (g_protocol n) c of
             Inl e \<Rightarrow> (Inl (GMosaic e), n)
           | Inr (_, cur) \<Rightarrow>
               (case map_of (closures (g_protocol n)) cid of
                  None \<Rightarrow> (Inl (GMosaic (PyKeyError cid)), n)
                | Some cl \<Rightarrow>
                    (Inr [], (emit (Answer (Finalized cid (c_proof_id cl) cur)) n)
                       \<lparr>g_pending := AList.delete cid (g_pending n)\<rparr>))))"

definition expire :: "string \<Rightarrow> nat \<Rightarrow> g_section" where
  "expire cid ticket n =
     (case map_of (g_pending n) cid of
        Some (_, t) \<Rightarrow>
          if t = ticket
          then (Inr [], (emit (Answer (TimedOut cid)) n)\<lparr>g_pending := AList.delete cid (g_pending n)\<rparr>)
          else (Inr [], n)
      | None \<Rightarrow> (Inr [], n))"

definition submit :: "crypto \<Rightarrow> capsule \<Rightarrow> g_section" where
  "submit cr c n =
     (if g_max_pending n \<le> length (g_pending n) then (Inr [], emit (Answer AtCapacity) n)
      else if has_key (g_pending n) (capsule_id c) then (Inr [], emit (Answer AlreadyPending) n)
      else (case map_of (closures (g_protocol n)) (capsule_id c) of
        Some cl \<Rightarrow>
          (case seals_of (g_protocol n) c of
             Inl e \<Rightarrow> (Inl (GMosaic e), n)
           | Inr (_, cur) \<Rightarrow>
               (Inr [], emit (Answer (Finalized (capsule_id c) (c_proof_id cl) cur)) n))
      | None \<Rightarrow>
          thenS (persist_capsule c) (\<lambda>_ n.
            case validate_capsule cr (g_protocol n) c of
              Inl e \<Rightarrow>
                if is_rejection (GMosaic e)
                then (Inr [], emit (Answer (Rejected (capsule_id c) e)) (bump ''protocol_rejections'' n))
                else (Inl (GMosaic e), n)
            | Inr _ \<Rightarrow>
                (Inr [Expire (capsule_id c) (g_ticket n)],
                 emit (Broadcast (GCapsule c))
                   (n\<lparr>g_pending := AList.update (capsule_id c) (c, g_ticket n) (g_pending n),
                      g_ticket := g_ticket n + 1\<rparr>)))
          (put_capsule c n)))"

subsection \<open>Capsules\<close>

definition witness_accept :: "crypto \<Rightarrow> capsule \<Rightarrow> gossip_node \<Rightarrow> witness_receipt g_outcome" where
  "witness_accept cr c n = on_protocol (issue_receipt cr (g_id n) c ''ACCEPT'') n"

definition on_capsule :: "crypto \<Rightarrow> capsule \<Rightarrow> g_section" where
  "on_capsule cr c n =
     (if capsule_id c \<in> g_seen n
      then (if has_key (closures (g_protocol n)) (capsule_id c) then (Inr [], n)
            else (case witness_accept cr c n of
              (Inr r, n') \<Rightarrow> (Inr [], emit (Broadcast (GReceipt r)) n')
            | (Inl (GMosaic (CapsuleInvalid _)), n') \<Rightarrow> (Inr [], n')
            | (Inl (GMosaic (ConflictDetected _)), n') \<Rightarrow> (Inr [], n')
            | (Inl e, n') \<Rightarrow> (Inl e, n')))
      else thenS (persist_capsule c) (\<lambda>_ n.
        case witness_accept cr c n of
          (Inr r, n') \<Rightarrow>
            (Inr (if g_equivocates n' then [Equivocate c] else []), emit (Broadcast (GReceipt r)) n')
        | (Inl (GMosaic (CapsuleInvalid _)), n') \<Rightarrow>
            (Inr [], n'\<lparr>g_waiting := AList.update (capsule_id c) c (g_waiting n')\<rparr>)
        | (Inl (GMosaic (ConflictDetected _)), n') \<Rightarrow> (Inr [], bump ''conflicts'' n')
        | (Inl e, n') \<Rightarrow> (Inl e, n'))
      (put_capsule c (n\<lparr>g_seen := insert (capsule_id c) (g_seen n)\<rparr>)))"

definition equivocate :: "crypto \<Rightarrow> capsule \<Rightarrow> g_section" where
  "equivocate cr c n =
     (case bindE (get_member (g_protocol n) (g_id n)) (\<lambda>m. sign_receipt cr m c ''ABANDON'') of
        Inl e \<Rightarrow> (Inl (GMosaic e), n)
      | Inr r \<Rightarrow> (Inr [], emit (Broadcast (GReceipt r)) n))"

subsection \<open>Receipts and closures\<close>

definition pool_of :: "gossip_node \<Rightarrow> string \<Rightarrow> (string, witness_receipt) dict" where
  "pool_of n cid = (case map_of (g_pool n) cid of None \<Rightarrow> [] | Some d \<Rightarrow> d)"

definition valid_accepts :: "crypto \<Rightarrow> gossip_node \<Rightarrow> string \<Rightarrow> mosaic_error + witness_receipt list" where
  "valid_accepts cr n cid =
     filterE (\<lambda>r. if r_status r = ''ACCEPT'' then verify_receipt cr (g_protocol n) r else Inr False)
       (dict_values (pool_of n cid))"

definition close_with :: "crypto \<Rightarrow> capsule \<Rightarrow> closure_proof \<Rightarrow> gossip_node \<Rightarrow> unit g_outcome" where
  "close_with cr c cl =
     thenS (on_protocol (register_closure cr c cl)) (\<lambda>_.
     thenS (on_protocol (apply_closure cr c cl)) (\<lambda>_.
     persist_closure cr c cl))"

definition try_close :: "crypto \<Rightarrow> capsule \<Rightarrow> g_section" where
  "try_close cr c n =
     (if has_key (closures (g_protocol n)) (capsule_id c) then finish_pending (capsule_id c) n
      else (case valid_accepts cr n (capsule_id c) of
        Inl e \<Rightarrow> (Inl (GMosaic e), n)
      | Inr valid \<Rightarrow>
          if receipts_weight (g_protocol n) valid < threshold (g_protocol n) then (Inr [], n)
          else (case closure_create cr valid of
            Inl e \<Rightarrow> (Inr [], count_failure (GMosaic e) n)
          | Inr cl \<Rightarrow>
              (case close_with cr c cl n of
                 (Inl e, n') \<Rightarrow> (Inr [], count_failure e n')
               | (Inr _, n') \<Rightarrow>
                   if c_proof_id cl \<in> g_emitted n' then finish_pending (capsule_id c) n'
                   else (Inr [Finish (capsule_id c)],
                         emit (Broadcast (GClosure c cl)) (bump ''closures_issued''
                           (n'\<lparr>g_emitted := insert (c_proof_id cl) (g_emitted n')\<rparr>)))))))"

definition file_receipt :: "crypto \<Rightarrow> witness_receipt \<Rightarrow> gossip_node \<Rightarrow> gossip_node" where
  "file_receipt cr r n =
     (let key = (r_capsule_id r, witness_id r);
          ids = (case map_of (g_history n) key of None \<Rightarrow> {} | Some s \<Rightarrow> s);
          n = (if ids = {} then n else bump ''conflicts'' n)
      in n\<lparr>g_history := AList.update key (insert (receipt_id cr r) ids) (g_history n),
           g_pool := AList.update (r_capsule_id r)
             (AList.update (witness_id r) r (pool_of n (r_capsule_id r))) (g_pool n)\<rparr>)"

definition on_receipt :: "crypto \<Rightarrow> witness_receipt \<Rightarrow> g_section" where
  "on_receipt cr r n =
     (if (case map_of (g_history n) (r_capsule_id r, witness_id r) of
            None \<Rightarrow> False | Some ids \<Rightarrow> receipt_id cr r \<in> ids) then (Inr [], n)
      else thenS (persist_receipt cr r) (\<lambda>_ n.
        case map_of (capsules (g_protocol n)) (r_capsule_id r) of
          None \<Rightarrow> (Inr [], n)
        | Some c \<Rightarrow>
            (case verify_receipt cr (g_protocol n) r of
               Inl e \<Rightarrow> (Inl (GMosaic e), n)
             | Inr ok \<Rightarrow> if ok then try_close cr c n else (Inr [], n)))
      (file_receipt cr r n))"

definition on_closure :: "crypto \<Rightarrow> capsule \<Rightarrow> closure_proof \<Rightarrow> g_section" where
  "on_closure cr c cl n =
     thenS (persist_capsule c) (\<lambda>_ n.
       case close_with cr c cl n of
         (Inl e, n') \<Rightarrow> (Inr [], count_failure e n')
       | (Inr _, n') \<Rightarrow> (Inr [Retry (g_waiting n') (capsule_id c)], n'))
     (put_capsule c n)"

definition retry_next :: "crypto \<Rightarrow> (string \<times> capsule) list \<Rightarrow> string \<Rightarrow> g_section" where
  "retry_next cr waiting cid n =
     (case waiting of
        [] \<Rightarrow> (Inr [Finish cid], n)
      | (k, c) # rest \<Rightarrow>
          (case map_of (known_seals (g_protocol n)) (predecessor_id c) of
             None \<Rightarrow> (Inr [Retry rest cid], n)
           | Some pred \<Rightarrow>
               (case map_of (current_seals (g_protocol n)) (resource_id pred) of
                  None \<Rightarrow> (Inr [Retry rest cid], n)
                | Some cur \<Rightarrow>
                    if seal_id cr cur = predecessor_id c
                    then thenS (on_capsule cr c) (\<lambda>ws n. (Inr (ws @ [Retry rest cid]), n))
                           (n\<lparr>g_waiting := AList.delete k (g_waiting n), g_seen := g_seen n - {k}\<rparr>)
                    else (Inr [Retry rest cid], n))))"

subsection \<open>Sections and tasks\<close>

fun deliver :: "crypto \<Rightarrow> gossip_message \<Rightarrow> g_section" where
  "deliver cr (GCapsule c) = on_capsule cr c"
| "deliver cr (GReceipt r) = on_receipt cr r"
| "deliver cr (GClosure c cl) = on_closure cr c cl"

fun section_of :: "crypto \<Rightarrow> gossip_work \<Rightarrow> g_section" where
  "section_of cr (Deliver m) = deliver cr m"
| "section_of cr (Submit c) = submit cr c"
| "section_of cr (Equivocate c) = equivocate cr c"
| "section_of cr (Finish cid) = finish_pending cid"
| "section_of cr (Retry waiting cid) = retry_next cr waiting cid"
| "section_of cr (Expire cid t) = expire cid t"

fun is_retry :: "gossip_work \<Rightarrow> bool" where
  "is_retry (Retry _ _) = True"
| "is_retry _ = False"

text \<open>
  A task is the work one handler has left. An exception ends it; if it comes from within
  \<open>_retry_pending\<close>, the handlers of \<open>_on_closure\<close> count it first.
\<close>

definition run_section :: "crypto \<Rightarrow> gossip_work \<Rightarrow> gossip_work list \<Rightarrow> gossip_node \<Rightarrow> gossip_work list \<times> gossip_node" where
  "run_section cr w rest n =
     (case section_of cr w n of
        (Inr ws, n') \<Rightarrow> (ws @ rest, n')
      | (Inl e, n') \<Rightarrow> ([], if list_ex is_retry (w # rest) then count_failure e n' else n'))"

inductive gossip_step ::
  "crypto \<Rightarrow> gossip_work list list \<times> gossip_node \<Rightarrow> gossip_work list list \<times> gossip_node \<Rightarrow> bool" for cr where
  arrive: "gossip_step cr (ts, n) (ts @ [[Deliver m]], n)"
| request: "gossip_step cr (ts, n) (ts @ [[Submit c]], n)"
| proceed: "i < length ts \<Longrightarrow> ts ! i = w # rest \<Longrightarrow> run_section cr w rest n = (task, n') \<Longrightarrow>
    gossip_step cr (ts, n) (ts[i := task], n')"

inductive gossip_reach ::
  "crypto \<Rightarrow> gossip_node \<Rightarrow> gossip_work list list \<times> gossip_node \<Rightarrow> bool" for cr n0 where
  initially: "gossip_reach cr n0 ([], n0)"
| later: "gossip_reach cr n0 s \<Longrightarrow> gossip_step cr s s' \<Longrightarrow> gossip_reach cr n0 s'"

subsection \<open>Restarting\<close>

text \<open>
  \<open>_restore\<close>: the rows of the store read back into a node that has just been created. Reading a
  row raises for a malformed one, which ends \<open>run\<close>; a closure that is refused is counted. The
  part for availability and onboarding is \<open>restore_from_store\<close> of these components.
\<close>

fun restore_rows :: "(json \<Rightarrow> gossip_node \<Rightarrow> wire_error + gossip_node) \<Rightarrow> (string \<times> json) list \<Rightarrow> gossip_node \<Rightarrow> wire_error + gossip_node" where
  "restore_rows f [] n = Inr n"
| "restore_rows f ((_, payload) # rest) n = bindE (f payload n) (restore_rows f rest)"

definition restore_known :: "crypto \<Rightarrow> json \<Rightarrow> gossip_node \<Rightarrow> wire_error + gossip_node" where
  "restore_known cr payload n = bindE (seal_from_wire payload) (\<lambda>s. Inr (n\<lparr>g_protocol :=
     (g_protocol n)\<lparr>known_seals := AList.update (seal_id cr s) s (known_seals (g_protocol n))\<rparr>\<rparr>))"

definition restore_current :: "json \<Rightarrow> gossip_node \<Rightarrow> wire_error + gossip_node" where
  "restore_current payload n = bindE (seal_from_wire payload) (\<lambda>s. Inr (n\<lparr>g_protocol :=
     (g_protocol n)\<lparr>current_seals := AList.update (resource_id s) s (current_seals (g_protocol n))\<rparr>\<rparr>))"

definition restore_capsule :: "json \<Rightarrow> gossip_node \<Rightarrow> wire_error + gossip_node" where
  "restore_capsule payload n = bindE (capsule_from_wire payload) (\<lambda>c.
     Inr (put_capsule c (n\<lparr>g_seen := insert (capsule_id c) (g_seen n)\<rparr>)))"

definition restore_receipt :: "json \<Rightarrow> gossip_node \<Rightarrow> wire_error + gossip_node" where
  "restore_receipt payload n = bindE (receipt_from_wire payload) (\<lambda>r. Inr (n\<lparr>g_pool :=
     AList.update (r_capsule_id r) (AList.update (witness_id r) r (pool_of n (r_capsule_id r))) (g_pool n)\<rparr>))"

definition restore_closure :: "crypto \<Rightarrow> json \<Rightarrow> gossip_node \<Rightarrow> wire_error + gossip_node" where
  "restore_closure cr payload n = bindE (closure_from_wire payload) (\<lambda>cl.
     case map_of (capsules (g_protocol n)) (c_capsule_id cl) of
       None \<Rightarrow> Inr n
     | Some c \<Rightarrow> (case on_protocol (register_closure cr c cl) n of
         (Inl _, n') \<Rightarrow> Inr (bump ''errors'' n') | (Inr _, n') \<Rightarrow> Inr n'))"

definition restore_node :: "crypto \<Rightarrow> gossip_node \<Rightarrow> wire_error + gossip_node" where
  "restore_node cr n =
     (case g_store n of
        None \<Rightarrow> Inr n
      | Some db \<Rightarrow>
          bindE (restore_rows (restore_known cr) (store_items db ''seal_known'') n) (\<lambda>n.
          bindE (restore_rows restore_current (store_items db ''seal_current'') n) (\<lambda>n.
          bindE (restore_rows restore_capsule (store_items db ''capsule'') n) (\<lambda>n.
          bindE (restore_rows restore_receipt (store_items db ''receipt'') n) (\<lambda>n.
          restore_rows (restore_closure cr) (store_items db ''closure'') n)))))"

text \<open>A process that starts again over the store of \<open>n\<close>, with the protocol object of its configuration.\<close>

definition restart :: "crypto \<Rightarrow> protocol \<Rightarrow> gossip_node \<Rightarrow> wire_error + gossip_node" where
  "restart cr p n = restore_node cr (gossip_init (g_id n) (g_max_pending n) (g_equivocates n) p (g_store n))"

end
