(* ===== verification/Gossip_Safety.thy ===== *)
theory Gossip_Safety
  imports Gossip Agreement
begin

section \<open>What a gossip node does to its protocol\<close>

text \<open>
  Every section of a node that does not equivocate is a run of the protocol object, and every
  receipt it broadcasts was signed on that run. So what holds on all runs of \<open>MosaicProtocol\<close>
  holds for the node under any interleaving of its tasks, whatever messages arrive. The locale
  \<open>node_invariant\<close> names the few steps an invariant of this kind has to survive.
\<close>

definition sent :: "gossip_node \<Rightarrow> witness_receipt set" where
  "sent n = {r. Broadcast (GReceipt r) \<in> set (g_outbox n)}"

definition honest_node :: "crypto \<Rightarrow> protocol \<Rightarrow> gossip_node \<Rightarrow> bool" where
  "honest_node cr p0 n \<longleftrightarrow> (\<exists>R. node_run cr p0 R (g_protocol n) \<and> sent n \<subseteq> R)"

text \<open>The identity of a node: what no section changes.\<close>

definition identity_of :: "gossip_node \<Rightarrow> string \<times> nat \<times> bool" where
  "identity_of n = (g_id n, g_max_pending n, g_equivocates n)"

named_theorems kept \<open>methods that keep the invariant\<close>

lemma node_fields [simp]:
  "g_protocol (bump k n) = g_protocol n" "g_outbox (bump k n) = g_outbox n"
  "g_protocol (emit out n) = g_protocol n" "g_outbox (emit out n) = g_outbox n @ [out]"
  "g_protocol (count_failure e n) = g_protocol n" "g_outbox (count_failure e n) = g_outbox n"
  "g_protocol (put_capsule c n) = store_capsule c (g_protocol n)" "g_outbox (put_capsule c n) = g_outbox n"
  "g_equivocates (bump k n) = g_equivocates n" "g_equivocates (emit out n) = g_equivocates n"
  "g_equivocates (put_capsule c n) = g_equivocates n" "g_equivocates (count_failure e n) = g_equivocates n"
  by (simp_all add: bump_def emit_def count_failure_def put_capsule_def)

lemma sent_simps [simp]:
  "sent (bump k n) = sent n" "sent (count_failure e n) = sent n" "sent (put_capsule c n) = sent n"
  "sent (emit (Answer a) n) = sent n" "sent (emit (Broadcast (GCapsule c)) n) = sent n"
  "sent (emit (Broadcast (GClosure c cl)) n) = sent n"
  "sent (emit (Broadcast (GReceipt r)) n) = insert r (sent n)"
  by (auto simp: sent_def)

lemma identity_simps [simp]:
  "identity_of (bump k n) = identity_of n" "identity_of (count_failure e n) = identity_of n"
  "identity_of (put_capsule c n) = identity_of n" "identity_of (emit out n) = identity_of n"
  by (simp_all add: identity_of_def bump_def emit_def count_failure_def put_capsule_def)

lemma keeps_pair: "(\<And>x y. keeps I (m x y)) \<Longrightarrow> keeps I (case z of (x, y) \<Rightarrow> m x y)"
  by (cases z) simp

lemma persist_capsule_limits:
  assumes "persist_capsule c (put_capsule c' n) = (q, m)"
  shows "g_max_pending m = g_max_pending n" "g_pending m = g_pending n"
  using assms by (auto simp: persist_capsule_def persist_def on_store_def put_capsule_def
      split: option.splits prod.splits sum.splits)

locale node_invariant =
  fixes cr :: crypto and I :: "gossip_node \<Rightarrow> bool"
  assumes inert: "g_protocol n' = g_protocol n \<Longrightarrow> g_store n' = g_store n \<Longrightarrow> sent n' = sent n \<Longrightarrow>
      identity_of n' = identity_of n \<Longrightarrow> g_pool n' = g_pool n \<Longrightarrow> g_pending n' = g_pending n \<Longrightarrow> I n' = I n"
    and admitted: "I n \<Longrightarrow> length (g_pending n) < g_max_pending n \<Longrightarrow>
      I (n\<lparr>g_pending := AList.update cid x (g_pending n)\<rparr>)"
    and finished: "I n \<Longrightarrow> I (n\<lparr>g_pending := AList.delete cid (g_pending n)\<rparr>)"
    and filed: "I n \<Longrightarrow> I (file_receipt cr r n)"
    and put_capsule_kept: "I n \<Longrightarrow> I (put_capsule c n)"
    and persist_capsule_kept: "keeps I (persist_capsule c)"
    and persist_receipt_kept: "keeps I (persist_receipt cr r)"
    and close_with_kept: "keeps I (close_with cr c cl)"
    and witnesses: "I n \<Longrightarrow> witness_accept cr c n = (q, n') \<Longrightarrow> I n'"
      "I n \<Longrightarrow> witness_accept cr c n = (q, n') \<Longrightarrow> q = Inr r \<Longrightarrow> I (emit (Broadcast (GReceipt r)) n')"
begin

lemma inert_simps [simp]:
  "I (bump k n) = I n" "I (count_failure e n) = I n" "I (emit (Answer a) n) = I n"
  "I (emit (Broadcast (GCapsule c)) n) = I n" "I (emit (Broadcast (GClosure c cl)) n) = I n"
  "I (n\<lparr>g_ticket := x2\<rparr>) = I n" "I (n\<lparr>g_waiting := x3\<rparr>) = I n"
  "I (n\<lparr>g_seen := x4\<rparr>) = I n" "I (n\<lparr>g_emitted := x6\<rparr>) = I n"
  by (rule inert; (simp; fail | simp add: sent_def identity_of_def bump_def count_failure_def emit_def))+

lemma finished_emit: "I n \<Longrightarrow> I ((emit (Answer a) n)\<lparr>g_pending := AList.delete cid (g_pending n)\<rparr>)"
proof -
  assume "I n"
  then have "I (n\<lparr>g_pending := AList.delete cid (g_pending n)\<rparr>)" by (rule finished)
  then show ?thesis
    by (rule iffD2 [OF inert, rotated -1]) (auto simp: sent_def identity_of_def emit_def)
qed

lemma finish_kept [kept]: "keeps I (finish_pending cid)"
  by (rule keepsI) (auto simp: finish_pending_def finished_emit split: option.splits sum.splits prod.splits)

lemma expire_kept [kept]: "keeps I (expire cid t)"
  by (rule keepsI) (auto simp: expire_def finished_emit split: option.splits if_splits)

lemma submit_kept: "keeps I (submit cr c)"
proof (rule keepsI)
  fix n r n'
  assume h: "I n" and call: "submit cr c n = (r, n')"
  obtain q m where q: "persist_capsule c (put_capsule c n) = (q, m)" by fastforce
  have m: "I m"
    using persist_capsule_kept put_capsule_kept [OF h] q by (rule keepsD)
  have adm: "I (m\<lparr>g_pending := AList.update cid x (g_pending m), g_ticket := t\<rparr>)"
    if "\<not> g_max_pending n \<le> length (g_pending n)" for cid x t
  proof -
    have "I (m\<lparr>g_pending := AList.update cid x (g_pending m)\<rparr>)"
      using persist_capsule_limits [OF q] that by (intro admitted [OF m]) simp
    then show ?thesis
      by (rule iffD2 [OF inert, rotated -1]) (simp_all add: sent_def identity_of_def)
  qed
  from h call q m adm show "I n'"
    by (auto simp: submit_def thenS_def split: if_splits option.splits sum.splits prod.splits)
qed

lemma on_capsule_kept: "keeps I (on_capsule cr c)"
proof (rule keepsI)
  fix n r n'
  assume h: "I n" and call: "on_capsule cr c n = (r, n')"
  let ?n1 = "put_capsule c (n\<lparr>g_seen := insert (capsule_id c) (g_seen n)\<rparr>)"
  have h1: "I ?n1" using h by (intro put_capsule_kept) simp
  show "I n'"
  proof (cases "capsule_id c \<in> g_seen n")
    case True
    obtain q m where q: "witness_accept cr c n = (q, m)" by fastforce
    note hm = witnesses [OF h q]
    from True call q h hm show ?thesis
      by (auto simp: on_capsule_def split: if_splits sum.splits gossip_error.splits mosaic_error.splits)
  next
    case False
    obtain u m1 where u: "persist_capsule c ?n1 = (u, m1)" by fastforce
    have hm1: "I m1" using persist_capsule_kept h1 u by (rule keepsD)
    obtain q m where q: "witness_accept cr c m1 = (q, m)" by fastforce
    note hm = witnesses [OF hm1 q]
    from False call u q hm1 hm show ?thesis
      by (auto simp: on_capsule_def thenS_def split: if_splits sum.splits gossip_error.splits mosaic_error.splits)
  qed
qed

lemma try_close_kept: "keeps I (try_close cr c)"
proof (rule keepsI)
  fix n r n'
  assume h: "I n" and call: "try_close cr c n = (r, n')"
  show "I n'"
  proof (cases "has_key (closures (g_protocol n)) (capsule_id c)")
    case True
    with call have "finish_pending (capsule_id c) n = (r, n')" by (simp add: try_close_def)
    then show ?thesis by (rule keepsD [OF finish_kept h])
  next
    case False
    show ?thesis
    proof (cases "\<exists>valid cl. valid_accepts cr n (capsule_id c) = Inr valid \<and> closure_create cr valid = Inr cl
        \<and> \<not> receipts_weight (g_protocol n) valid < threshold (g_protocol n)")
      case none: False
      with False call h show ?thesis by (auto simp: try_close_def split: sum.splits if_splits)
    next
      case True
      then obtain valid cl where v: "valid_accepts cr n (capsule_id c) = Inr valid" "closure_create cr valid = Inr cl"
        "\<not> receipts_weight (g_protocol n) valid < threshold (g_protocol n)" by blast
      obtain q m where q: "close_with cr c cl n = (q, m)" by fastforce
      have hm: "I m" using close_with_kept h q by (rule keepsD)
      from False v q call hm show ?thesis
        by (auto simp: try_close_def split: sum.splits if_splits dest: keepsD [OF finish_kept])
    qed
  qed
qed

lemma on_receipt_kept: "keeps I (on_receipt cr r)"
proof -
  have "keeps I (\<lambda>n. case map_of (capsules (g_protocol n)) (r_capsule_id r) of
          None \<Rightarrow> (Inr [], n)
        | Some c \<Rightarrow>
            (case verify_receipt cr (g_protocol n) r of
               Inl e \<Rightarrow> (Inl (GMosaic e), n)
             | Inr ok \<Rightarrow> if ok then try_close cr c n else (Inr [], n)))"
    by (rule keepsI) (auto split: option.splits sum.splits if_splits dest: keepsD [OF try_close_kept])
  note m = keeps_thenS [OF persist_receipt_kept [of r] this]
  show ?thesis
  proof (rule keepsI)
    fix n q n'
    assume h: "I n" and call: "on_receipt cr r n = (q, n')"
    show "I n'"
    proof (cases "case map_of (g_history n) (r_capsule_id r, witness_id r) of
        None \<Rightarrow> False | Some ids \<Rightarrow> receipt_id cr r \<in> ids")
      case False
      have "I (file_receipt cr r n)" using h by (rule filed)
      moreover from False call have "thenS (persist_receipt cr r) (\<lambda>_ n.
          case map_of (capsules (g_protocol n)) (r_capsule_id r) of
            None \<Rightarrow> (Inr [], n)
          | Some c \<Rightarrow> (case verify_receipt cr (g_protocol n) r of
              Inl e \<Rightarrow> (Inl (GMosaic e), n)
            | Inr ok \<Rightarrow> if ok then try_close cr c n else (Inr [], n))) (file_receipt cr r n) = (q, n')"
        unfolding on_receipt_def by (simp only: if_False)
      ultimately show ?thesis by (rule keepsD [OF m])
    qed (use h call in \<open>simp add: on_receipt_def\<close>)
  qed
qed

lemma on_closure_kept: "keeps I (on_closure cr c cl)"
proof -
  have "keeps I (\<lambda>n. case close_with cr c cl n of
         (Inl e, n') \<Rightarrow> (Inr [], count_failure e n')
       | (Inr _, n') \<Rightarrow> (Inr [Retry (g_waiting n') (capsule_id c)], n'))"
    by (rule keepsI) (auto split: prod.splits sum.splits dest: keepsD [OF close_with_kept])
  from keeps_thenS [OF persist_capsule_kept [of c] this]
  show ?thesis
    by (intro keepsI) (auto simp: on_closure_def dest: keepsD intro: put_capsule_kept)
qed

lemma retry_next_kept: "keeps I (retry_next cr waiting cid)"
proof (rule keepsI)
  fix n r n'
  assume h: "I n" and call: "retry_next cr waiting cid n = (r, n')"
  have m: "I n'" if "thenS (on_capsule cr c) (\<lambda>ws n. (Inr (f ws), n)) (n\<lparr>g_waiting := x, g_seen := y\<rparr>) = (r, n')"
    for c x y and f :: "gossip_work list \<Rightarrow> gossip_work list"
  proof -
    have "keeps I (thenS (on_capsule cr c) (\<lambda>ws n. (Inr (f ws), n)))"
      by (rule keeps_thenS) (rule on_capsule_kept, simp add: keeps_def)
    moreover have "I (n\<lparr>g_waiting := x, g_seen := y\<rparr>)" using h by simp
    ultimately show ?thesis using that by (rule keepsD)
  qed
  from h call show "I n'"
    by (auto simp: retry_next_def split: list.splits option.splits if_splits dest: m)
qed

lemma section_kept:
  assumes "\<And>c. w \<noteq> Equivocate c"
  shows "keeps I (section_of cr w)"
  using assms
proof (cases w)
  case (Deliver m)
  then show ?thesis by (cases m) (simp_all add: on_capsule_kept on_receipt_kept on_closure_kept)
qed (simp_all add: submit_kept finish_kept retry_next_kept expire_kept assms)

end

text \<open>Invariants of the protocol object and the broadcast receipts alone.\<close>

locale protocol_invariant =
  fixes cr :: crypto and I :: "gossip_node \<Rightarrow> bool"
  assumes inert: "g_protocol n' = g_protocol n \<Longrightarrow> sent n' = sent n \<Longrightarrow> identity_of n' = identity_of n \<Longrightarrow> I n' = I n"
    and put_capsule_kept: "I n \<Longrightarrow> I (put_capsule c n)"
    and registers: "I n \<Longrightarrow> on_protocol (register_closure cr c cl) n = (u, n') \<Longrightarrow> I n'"
    and applies: "I n \<Longrightarrow> on_protocol (apply_closure cr c cl) n = (s, n') \<Longrightarrow> I n'"
    and witnesses: "I n \<Longrightarrow> witness_accept cr c n = (q, n') \<Longrightarrow> I n'"
      "I n \<Longrightarrow> witness_accept cr c n = (q, n') \<Longrightarrow> q = Inr r \<Longrightarrow> I (emit (Broadcast (GReceipt r)) n')"
begin

lemma store_inert: "I (n\<lparr>g_store := x\<rparr>) = I n"
  by (rule inert) (simp_all add: sent_def identity_of_def)

lemma on_store_kept [kept]: "keeps I (on_store f)"
  by (rule keepsI) (auto simp: on_store_def simp: store_inert split: option.splits prod.splits sum.splits)

lemma persist_kept [kept]: "keeps I (persist kind k v)"
  unfolding persist_def by (rule on_store_kept)

lemma reads_kept [kept]: "keeps I (on_protocol (\<lambda>p. (seals_of p c, p)))"
  by (rule keepsI) (auto simp: on_protocol_def split: sum.splits)

lemma register_kept [kept]: "keeps I (on_protocol (register_closure cr c cl))"
  by (rule keepsI) (rule registers)

lemma apply_kept [kept]: "keeps I (on_protocol (apply_closure cr c cl))"
  by (rule keepsI) (rule applies)

lemma persist_capsule_kept [kept]: "keeps I (persist_capsule c)"
  unfolding persist_capsule_def by (rule persist_kept)

lemma persist_receipt_kept [kept]: "keeps I (persist_receipt cr r)"
  unfolding persist_receipt_def by (rule persist_kept)

lemma persist_closure_kept [kept]: "keeps I (persist_closure cr c cl)"
  unfolding persist_closure_def by (intro keeps_thenS keeps_pair kept)

lemma close_with_kept [kept]: "keeps I (close_with cr c cl)"
  unfolding close_with_def by (intro keeps_thenS kept)

end

sublocale protocol_invariant \<subseteq> node: node_invariant cr I
proof unfold_locales
  fix n n' :: gossip_node and c q r
  show "g_protocol n' = g_protocol n \<Longrightarrow> g_store n' = g_store n \<Longrightarrow> sent n' = sent n \<Longrightarrow>
      identity_of n' = identity_of n \<Longrightarrow> g_pool n' = g_pool n \<Longrightarrow> g_pending n' = g_pending n \<Longrightarrow> I n' = I n"
    by (rule inert)
  show "I n \<Longrightarrow> I (n\<lparr>g_pending := AList.update cid x (g_pending n)\<rparr>)" for cid x
    by (subst inert [of _ n]) (simp_all add: sent_def identity_of_def)
  show "I n \<Longrightarrow> I (n\<lparr>g_pending := AList.delete cid (g_pending n)\<rparr>)" for cid
    by (subst inert [of _ n]) (simp_all add: sent_def identity_of_def)
  show "I n \<Longrightarrow> I (file_receipt cr w n)" for w
    by (subst inert [of _ n]) (simp_all add: file_receipt_def Let_def sent_def identity_of_def bump_def)
  show "I n \<Longrightarrow> I (put_capsule c n)" by (rule put_capsule_kept)
  show "I n \<Longrightarrow> witness_accept cr c n = (q, n') \<Longrightarrow> I n'" by (rule witnesses)
  show "I n \<Longrightarrow> witness_accept cr c n = (q, n') \<Longrightarrow> q = Inr r \<Longrightarrow> I (emit (Broadcast (GReceipt r)) n')"
    by (rule witnesses)
qed (rule kept)+

subsection \<open>The two instances\<close>

lemma honest_protocol:
  assumes h: "honest_node cr p0 n" and call: "on_protocol f n = (r, n')"
    and run: "\<And>R q p'. node_run cr p0 R (g_protocol n) \<Longrightarrow> f (g_protocol n) = (q, p') \<Longrightarrow> node_run cr p0 R p'"
  shows "honest_node cr p0 n'"
proof -
  from h obtain R where R: "node_run cr p0 R (g_protocol n)" "sent n \<subseteq> R" by (auto simp: honest_node_def)
  obtain q p' where f: "f (g_protocol n) = (q, p')" by fastforce
  with call have "n' = n\<lparr>g_protocol := p'\<rparr>" by (auto simp: on_protocol_def split: sum.splits)
  with run [OF R(1) f] R(2) show "honest_node cr p0 n'" by (auto simp: honest_node_def sent_def)
qed

lemma witness_accept_honest:
  assumes "honest_node cr p0 n" "witness_accept cr c n = (q, n')"
  shows "honest_node cr p0 n'" "q = Inr r \<Longrightarrow> honest_node cr p0 (emit (Broadcast (GReceipt r)) n')"
proof -
  from assms(1) obtain R where R: "node_run cr p0 R (g_protocol n)" "sent n \<subseteq> R" by (auto simp: honest_node_def)
  obtain res p' where i: "issue_receipt cr (g_id n) c ''ACCEPT'' (g_protocol n) = (res, p')" by fastforce
  from node_run.witness [OF R(1) i] have run: "node_run cr p0 (R \<union> signed res) p'" .
  from assms(2) i have n': "n' = n\<lparr>g_protocol := p'\<rparr>" and q: "q = (case res of Inl e \<Rightarrow> Inl (GMosaic e) | Inr r \<Rightarrow> Inr r)"
    by (auto simp: witness_accept_def on_protocol_def split: sum.splits)
  from run R(2) n' show "honest_node cr p0 n'" by (auto simp: honest_node_def sent_def)
  assume "q = Inr r"
  with q have "res = Inr r" by (auto split: sum.splits)
  with run R(2) n' show "honest_node cr p0 (emit (Broadcast (GReceipt r)) n')"
    by (auto simp: honest_node_def sent_def emit_def intro!: exI [of _ "R \<union> {r}"])
qed

interpretation honest: protocol_invariant cr "honest_node cr p0" for cr p0
proof
  fix n n' :: gossip_node and c cl u s
  show "g_protocol n' = g_protocol n \<Longrightarrow> sent n' = sent n \<Longrightarrow> identity_of n' = identity_of n \<Longrightarrow>
      honest_node cr p0 n' = honest_node cr p0 n"
    by (simp add: honest_node_def)
  assume h: "honest_node cr p0 n"
  then show "honest_node cr p0 (put_capsule c n)"
    by (auto simp: honest_node_def intro: node_run.store)
  show "on_protocol (register_closure cr c cl) n = (u, n') \<Longrightarrow> honest_node cr p0 n'"
    by (erule honest_protocol [OF h]) (rule node_run.register)
  show "on_protocol (apply_closure cr c cl) n = (s, n') \<Longrightarrow> honest_node cr p0 n'"
    by (erule honest_protocol [OF h]) (rule node_run.apply_call)
qed (rule witness_accept_honest; assumption)+

lemma on_protocol_identity: "on_protocol f n = (r, n') \<Longrightarrow> identity_of n' = identity_of n"
  by (auto simp: on_protocol_def identity_of_def split: prod.splits sum.splits)

interpretation named: protocol_invariant cr "\<lambda>n. identity_of n = ident" for cr ident
  by unfold_locales (auto simp: witness_accept_def dest: on_protocol_identity)

subsection \<open>Reachable states\<close>

lemma sections_equivocate:
  assumes "section_of cr w n = (Inr ws, n')" "\<not> g_equivocates n'" "\<And>c. w \<noteq> Equivocate c"
  shows "Equivocate c \<notin> set ws"
proof -
  have fin: "finish_pending cid m = (Inr vs, m') \<Longrightarrow> vs = []" for cid m m' vs
    by (auto simp: finish_pending_def split: option.splits sum.splits prod.splits)
  have cap: "on_capsule cr k m = (Inr vs, m') \<Longrightarrow> \<not> g_equivocates m' \<Longrightarrow> vs = []" for k m m' vs
    by (auto simp: on_capsule_def thenS_def emit_def split: if_splits sum.splits prod.splits gossip_error.splits mosaic_error.splits)
  have clo: "try_close cr k m = (Inr vs, m') \<Longrightarrow> set vs \<subseteq> {Finish (capsule_id k)}" for k m m' vs
    by (auto simp: try_close_def dest: fin split: if_splits sum.splits prod.splits)
  show ?thesis
  proof (cases w)
    case (Deliver m)
    with assms show ?thesis
      by (cases m) (auto simp: on_receipt_def on_closure_def thenS_def dest: cap clo
          split: if_splits option.splits sum.splits prod.splits)
  next
    case (Submit k)
    with assms(1) show ?thesis
      by (auto simp: submit_def thenS_def split: if_splits option.splits sum.splits prod.splits)
  next
    case (Retry waiting cid)
    with assms(1,2) show ?thesis
      by (auto simp: retry_next_def elim!: thenS_Inr split: list.splits option.splits if_splits)
        (metis cap empty_iff empty_set)
  next
    case (Finish cid)
    with assms(1) show ?thesis by (auto dest: fin)
  next
    case (Expire cid t)
    with assms(1) show ?thesis by (auto simp: expire_def split: option.splits if_splits)
  qed (use assms(3) in simp)
qed

definition no_equivocation :: "gossip_work list list \<Rightarrow> bool" where
  "no_equivocation ts \<longleftrightarrow> (\<forall>t \<in> set ts. \<forall>c. Equivocate c \<notin> set t)"

lemma identity_equivocates: "identity_of n = (a, b, e) \<Longrightarrow> g_equivocates n = e"
  by (simp add: identity_of_def)

context node_invariant
begin

lemma run_section_kept:
  assumes "I n" "\<And>c. w \<noteq> Equivocate c" "run_section cr w rest n = (task, n')"
  shows "I n'"
proof -
  obtain r m where sec: "section_of cr w n = (r, m)" by fastforce
  have "I m" using section_kept [OF assms(2)] assms(1) sec by (rule keepsD)
  with assms(3) sec show ?thesis by (auto simp: run_section_def split: sum.splits if_splits)
qed

end

lemma run_section_equivocates:
  assumes "run_section cr w rest n = (task, n')" "\<not> g_equivocates n" "\<And>c. Equivocate c \<notin> set (w # rest)"
  shows "\<not> g_equivocates n'" "Equivocate c \<notin> set task"
proof -
  obtain r m where sec: "section_of cr w n = (r, m)" by fastforce
  have w: "w \<noteq> Equivocate c" for c using assms(3) [of c] by auto
  have "identity_of m = identity_of n"
    by (rule keepsD [OF named.node.section_kept [OF w] _ sec]) simp
  then have m: "\<not> g_equivocates m" using assms(2) by (simp add: identity_of_def)
  with assms(1) sec show "\<not> g_equivocates n'" by (auto simp: run_section_def split: sum.splits if_splits)
  show "Equivocate c \<notin> set task"
    using assms(1,3) sec sections_equivocate [OF _ m w] by (auto simp: run_section_def split: sum.splits)
qed

context node_invariant
begin

lemma reach_kept:
  assumes "gossip_reach cr n0 s" "I n0" "\<not> g_equivocates n0"
  shows "I (snd s) \<and> \<not> g_equivocates (snd s) \<and> no_equivocation (fst s)"
  using assms
proof (induction rule: gossip_reach.induct)
  case (later s s')
  then have inv: "I (snd s)" "\<not> g_equivocates (snd s)" "no_equivocation (fst s)" by simp_all
  from later.hyps(2) show ?case
  proof (cases rule: gossip_step.cases)
    case (proceed i ts w rest n task n')
    from proceed(3,4) have mem: "w # rest \<in> set ts" by (metis nth_mem)
    then have none: "Equivocate c \<notin> set (w # rest)" for c
      using inv(3) mem unfolding proceed(1) no_equivocation_def fst_conv by blast
    have w: "w \<noteq> Equivocate c" for c using none [of c] by auto
    have "I n'" using run_section_kept [OF _ w proceed(5)] inv(1) proceed(1) by simp
    moreover have "\<not> g_equivocates n'" "\<And>c. Equivocate c \<notin> set task"
      using run_section_equivocates [OF proceed(5) _ none] inv(2) proceed(1) by simp_all
    moreover have "set (ts[i := task]) \<subseteq> insert task (set ts)" by (rule set_update_subset_insert)
    ultimately show ?thesis using inv(3) proceed(1,2) unfolding no_equivocation_def by auto
  qed (use inv in \<open>auto simp: no_equivocation_def\<close>)
qed (simp add: no_equivocation_def)

end

text \<open>
  C3. The gossip node implements the protocol. However the tasks of a node that does not equivocate
  interleave, and whatever capsules, receipts and closures arrive, repeated, forged or out of order:
  its protocol object has gone through a run of \<open>MosaicProtocol\<close>'s operations, and every receipt
  the node has broadcast was signed by \<open>witness_receipt\<close> on that run.
\<close>

theorem gossip_refines_protocol:
  assumes "gossip_reach cr (gossip_init nid limit False p0 db) (ts, n)"
  shows "\<exists>R. node_run cr p0 R (g_protocol n) \<and> {r. Broadcast (GReceipt r) \<in> set (g_outbox n)} \<subseteq> R"
proof -
  have "honest_node cr p0 (gossip_init nid limit False p0 db)"
    by (auto simp: honest_node_def sent_def gossip_init_def intro: node_run.start)
  with honest.node.reach_kept [OF assms] show ?thesis
    by (simp add: honest_node_def sent_def gossip_init_def)
qed

text \<open>
  C2. Agreement between gossip nodes. Honest validators run gossip nodes that never restart and may
  have taken any number of interleaved steps; the other validators, with at most a third of the
  weight, and the network do anything but forge the signatures of the receipts the honest nodes
  broadcast. Two closures that verify on two nodes with the same members, for stored capsules that
  spend one predecessor in one attempt, close the same capsule.
\<close>

theorem gossip_exclusivity:
  assumes wf: "wf_members p" and same: "members q = members p"
    and v1: "verify_closure cr p c cl = Inr True" "map_of (capsules p) (capsule_id c) = Some c"
    and v2: "verify_closure cr q c' cl' = Inr True" "map_of (capsules q) (capsule_id c') = Some c'"
    and spend: "predecessor_id c = predecessor_id c'" "attempt c = attempt c'"
    and honest: "\<forall>h \<in> H. gossip_reach cr (gossip_init h (limit h) False (initial h) (db h)) (tasks h, node h)"
    and sigs: "unforged cr p H (\<lambda>h. sent (node h)) (c_receipts cl)"
      "unforged cr q H (\<lambda>h. sent (node h)) (c_receipts cl')"
    and faulty: "3 * (\<Sum>v \<in> validators p - H. member_weight p v) \<le> total_weight p"
  shows "capsule_id c = capsule_id c'"
proof -
  have "\<exists>R. node_run cr (initial h) R (g_protocol (node h)) \<and> sent (node h) \<subseteq> R" if "h \<in> H" for h
  proof -
    have "honest_node cr (initial h) (gossip_init h (limit h) False (initial h) (db h))"
      by (auto simp: honest_node_def sent_def gossip_init_def intro: node_run.start)
    with honest.node.reach_kept [of cr _ _ "initial h"] honest that show ?thesis
      by (fastforce simp: honest_node_def gossip_init_def)
  qed
  then obtain R where R: "\<forall>h \<in> H. node_run cr (initial h) (R h) (g_protocol (node h)) \<and> sent (node h) \<subseteq> R h"
    by metis
  have "unforged cr p H R (c_receipts cl)" "unforged cr q H R (c_receipts cl')"
    using sigs R unfolding unforged_def by blast+
  with R show ?thesis
    by (intro one_capsule_closed [OF wf same v1 v2 spend _ _ _ faulty, where R = R and initial = initial
        and final = "\<lambda>h. g_protocol (node h)"]) simp_all
qed

end
