(* ===== verification/Gossip_Recovery.thy ===== *)
theory Gossip_Recovery
  imports Gossip_Safety Liveness
begin

section \<open>What a restarted gossip node remembers\<close>

text \<open>
  \<open>mirrors\<close> relates the current seals of a node, as a map, and the ids of its known seals to what its
  store holds: the seals of its configuration overridden by the stored ones. Every stored row
  is the encoding of an object under its key.
\<close>

definition decode_seal :: "json option \<Rightarrow> state_seal option" where
  "decode_seal o' = (case o' of None \<Rightarrow> None
     | Some v \<Rightarrow> (case seal_from_wire v of Inl _ \<Rightarrow> None | Inr s \<Rightarrow> Some s))"

definition row_ok :: "crypto \<Rightarrow> string \<Rightarrow> string \<Rightarrow> json \<Rightarrow> bool" where
  "row_ok cr kind key v \<longleftrightarrow>
     (kind = ''seal_known'' \<longrightarrow> (\<exists>s. v = json_norm (seal_to_wire s) \<and> key = seal_id cr s))
   \<and> (kind = ''seal_current'' \<longrightarrow> (\<exists>s. v = json_norm (seal_to_wire s) \<and> key = resource_id s))
   \<and> (kind = ''capsule'' \<longrightarrow> (\<exists>c. v = json_norm (capsule_to_wire c)))
   \<and> (kind = ''receipt'' \<longrightarrow> (\<exists>r. v = json_norm (receipt_to_wire r)))
   \<and> (kind = ''closure'' \<longrightarrow> (\<exists>cl. v = json_norm (closure_to_wire cl)))"

type_synonym row_view = "string \<Rightarrow> string \<Rightarrow> json option"
type_synonym seal_map = "string \<rightharpoonup> state_seal"

definition mirrors :: "crypto \<Rightarrow> protocol \<Rightarrow> seal_map \<Rightarrow> string set \<Rightarrow> row_view \<Rightarrow> bool" where
  "mirrors cr p0 C K G \<longleftrightarrow> (\<forall>kind key v. G kind key = Some v \<longrightarrow> row_ok cr kind key v)
     \<and> C = map_of (current_seals p0) ++ (\<lambda>k. decode_seal (G ''seal_current'' k))
     \<and> K = set (dict_keys (known_seals p0)) \<union> {k. G ''seal_known'' k \<noteq> None}"

definition put_row :: "row_view \<Rightarrow> string \<Rightarrow> string \<Rightarrow> json \<Rightarrow> row_view" where
  "put_row G kind key v = (\<lambda>k i. if (k, i) = (kind, key) then Some (json_norm v) else G k i)"

lemma decode_seal_simps [simp]:
  "decode_seal None = None" "decode_seal (Some (json_norm (seal_to_wire s))) = Some s"
  by (simp_all add: decode_seal_def seal_roundtrip del: json_norm.simps(2))

lemma mirrors_other:
  assumes "mirrors cr p0 C K G" "row_ok cr kind key (json_norm v)" "kind \<noteq> ''seal_current''" "kind \<noteq> ''seal_known''"
  shows "mirrors cr p0 C K (put_row G kind key v)"
  using assms by (auto simp: mirrors_def put_row_def)

lemma mirrors_known:
  assumes "mirrors cr p0 C K G"
  shows "mirrors cr p0 C (insert (seal_id cr s) K) (put_row G ''seal_known'' (seal_id cr s) (seal_to_wire s))"
proof -
  let ?G = "put_row G ''seal_known'' (seal_id cr s) (seal_to_wire s)"
  have "{k. ?G ''seal_known'' k \<noteq> None} = insert (seal_id cr s) {k. G ''seal_known'' k \<noteq> None}"
    by (auto simp: put_row_def)
  moreover have "?G ''seal_current'' = G ''seal_current''" by (rule ext) (simp add: put_row_def)
  moreover have "row_ok cr ''seal_known'' (seal_id cr s) (json_norm (seal_to_wire s))"
    unfolding row_ok_def by blast
  then have "\<forall>kind key v. ?G kind key = Some v \<longrightarrow> row_ok cr kind key v"
    using assms unfolding mirrors_def put_row_def by (auto split: if_splits)
  ultimately show ?thesis using assms unfolding mirrors_def by simp
qed

lemma mirrors_current:
  assumes "mirrors cr p0 C K G"
  shows "mirrors cr p0 (C(resource_id s \<mapsto> s)) K (put_row G ''seal_current'' (resource_id s) (seal_to_wire s))"
proof -
  let ?G = "put_row G ''seal_current'' (resource_id s) (seal_to_wire s)"
  have "(\<lambda>k. decode_seal (?G ''seal_current'' k)) = (\<lambda>k. decode_seal (G ''seal_current'' k))(resource_id s \<mapsto> s)"
    by (rule ext) (simp add: put_row_def del: json_norm.simps(2))
  moreover have "?G ''seal_known'' = G ''seal_known''" by (rule ext) (simp add: put_row_def)
  moreover have "row_ok cr ''seal_current'' (resource_id s) (json_norm (seal_to_wire s))"
    unfolding row_ok_def by blast
  then have "\<forall>kind key v. ?G kind key = Some v \<longrightarrow> row_ok cr kind key v"
    using assms unfolding mirrors_def put_row_def by (auto split: if_splits)
  ultimately show ?thesis using assms unfolding mirrors_def by simp
qed

subsection \<open>A store whose transactions commit\<close>

definition calm :: "durable_store \<Rightarrow> bool" where
  "calm db \<longleftrightarrow> faults db = [] \<and> wf_dict (rows db)"

lemma persist_calm:
  assumes "g_store n = Some db" "calm db"
  shows "\<exists>db'. persist kind key v n = (Inr (), n\<lparr>g_store := Some db'\<rparr>) \<and> calm db'
    \<and> store_get db' = put_row (store_get db) kind key v"
proof -
  from put_calm [of db kind key v True] assms(2) obtain db' where
    put: "store_put kind key v True db = (Inr (), db')" and "faults db' = []" by (auto simp: calm_def)
  moreover from wf_rows_put [of db kind key v True] assms(2) put have "wf_dict (rows db')" by (simp add: calm_def)
  moreover have "store_get db' = put_row (store_get db) kind key v"
    by (intro ext) (simp add: durable.get_put [OF put] put_row_def)
  ultimately show ?thesis using assms(1)
    by (intro exI [of _ db']) (simp add: persist_def on_store_def calm_def)
qed

lemma snapshot_calm:
  assumes "g_store n = Some db" "calm db" "sid \<noteq> []"
  shows "\<exists>db'. on_store (store_snapshot sid v None) n = (Inr (), n\<lparr>g_store := Some db'\<rparr>) \<and> calm db'
    \<and> store_get db' = store_get db"
proof -
  have "0 \<le> foldr (\<lambda>e m. max (se_seq e) m) es 0" for es :: "stored_event list"
    by (induction es) auto
  then have "0 \<le> latest_event db" by (simp add: latest_event_def)
  with assms show ?thesis
    by (intro exI [of _ "db\<lparr>faults := [], snapshot_rows := AList.update sid
        \<lparr>ss_base = latest_event db, ss_payload = json_norm v\<rparr> (snapshot_rows db)\<rparr>"])
      (auto simp: on_store_def store_snapshot_def Let_def db_transaction_def calm_def store_get_def [abs_def])
qed

text \<open>
  \<open>persist_closure\<close> on such a store: it returns, and the store afterwards mirrors the seals with the
  two seals it wrote.
\<close>

lemma persist_closure_calm:
  assumes db: "g_store n = Some db" "calm db" and m: "mirrors cr p0 C K (store_get db)"
    and seals: "seals_of (g_protocol n) c = Inr (pred, cur)"
  shows "\<exists>db'. persist_closure cr c cl n = (Inr (), n\<lparr>g_store := Some db'\<rparr>) \<and> calm db'
    \<and> mirrors cr p0 (C(resource_id cur \<mapsto> cur)) (insert (seal_id cr cur) (insert (seal_id cr pred) K)) (store_get db')"
proof -
  obtain db1 where 1: "persist ''closure'' (c_proof_id cl) (closure_to_wire cl) n = (Inr (), n\<lparr>g_store := Some db1\<rparr>)"
    "calm db1" "store_get db1 = put_row (store_get db) ''closure'' (c_proof_id cl) (closure_to_wire cl)"
    using persist_calm [OF db] by blast
  let ?n1 = "n\<lparr>g_store := Some db1\<rparr>"
  have read: "on_protocol (\<lambda>p. (seals_of p c, p)) ?n1 = (Inr (pred, cur), ?n1)"
    using seals by (simp add: on_protocol_def)
  obtain db2 where 2: "persist ''seal_known'' (seal_id cr pred) (seal_to_wire pred) ?n1 = (Inr (), n\<lparr>g_store := Some db2\<rparr>)"
    "calm db2" "store_get db2 = put_row (store_get db1) ''seal_known'' (seal_id cr pred) (seal_to_wire pred)"
    using persist_calm [of ?n1 db1 "''seal_known''" "seal_id cr pred" "seal_to_wire pred"] 1(2) by auto
  let ?n2 = "n\<lparr>g_store := Some db2\<rparr>"
  obtain db3 where 3: "persist ''seal_known'' (seal_id cr cur) (seal_to_wire cur) ?n2 = (Inr (), n\<lparr>g_store := Some db3\<rparr>)"
    "calm db3" "store_get db3 = put_row (store_get db2) ''seal_known'' (seal_id cr cur) (seal_to_wire cur)"
    using persist_calm [of ?n2 db2 "''seal_known''" "seal_id cr cur" "seal_to_wire cur"] 2(2) by auto
  let ?n3 = "n\<lparr>g_store := Some db3\<rparr>"
  obtain db4 where 4: "persist ''seal_current'' (resource_id cur) (seal_to_wire cur) ?n3 = (Inr (), n\<lparr>g_store := Some db4\<rparr>)"
    "calm db4" "store_get db4 = put_row (store_get db3) ''seal_current'' (resource_id cur) (seal_to_wire cur)"
    using persist_calm [of ?n3 db3 "''seal_current''" "resource_id cur" "seal_to_wire cur"] 3(2) by auto
  let ?n4 = "n\<lparr>g_store := Some db4\<rparr>"
  let ?snap = "JObj [(''resource_id'', JStr (resource_id cur)), (''current_seal'', seal_to_wire cur),
              (''closure_id'', JStr (c_proof_id cl)), (''capsule_id'', JStr (capsule_id c))]"
  obtain db5 where 5: "on_store (store_snapshot (resource_id cur @ '':'' @ seal_id cr cur) ?snap None) ?n4
      = (Inr (), n\<lparr>g_store := Some db5\<rparr>)" "calm db5" "store_get db5 = store_get db4"
    using snapshot_calm [of ?n4 db4 "resource_id cur @ '':'' @ seal_id cr cur" ?snap] 4(2) by auto
  have "row_ok cr ''closure'' (c_proof_id cl) (json_norm (closure_to_wire cl))"
    unfolding row_ok_def by (simp, blast)
  then have "mirrors cr p0 C K (store_get db1)" unfolding 1(3) by (intro mirrors_other [OF m]) simp_all
  from mirrors_known [OF this, of pred] have "mirrors cr p0 C (insert (seal_id cr pred) K) (store_get db2)"
    unfolding 2(3) .
  from mirrors_known [OF this, of cur]
  have "mirrors cr p0 C (insert (seal_id cr cur) (insert (seal_id cr pred) K)) (store_get db3)" unfolding 3(3) .
  from mirrors_current [OF this, of cur]
  have "mirrors cr p0 (C(resource_id cur \<mapsto> cur)) (insert (seal_id cr cur) (insert (seal_id cr pred) K)) (store_get db5)"
    unfolding 5(3) 4(3) .
  moreover have "persist_closure cr c cl n = (Inr (), n\<lparr>g_store := Some db5\<rparr>)"
    unfolding persist_closure_def by (simp add: thenS_def 1(1) read 2(1) 3(1) 4(1) 5(1) del: append.simps)
  ultimately show ?thesis using 5(2) by blast
qed

subsection \<open>The seals of a node are mirrored\<close>

definition mirrored_seals :: "crypto \<Rightarrow> protocol \<Rightarrow> gossip_node \<Rightarrow> bool" where
  "mirrored_seals cr p0 n \<longleftrightarrow> (\<exists>db. g_store n = Some db \<and> calm db \<and> seals_ok cr (g_protocol n)
     \<and> mirrors cr p0 (map_of (current_seals (g_protocol n))) (set (dict_keys (known_seals (g_protocol n)))) (store_get db))"

lemma mirrored_sealsI:
  assumes "g_store n = Some db" "calm db" "seals_ok cr (g_protocol n)"
    "mirrors cr p0 (map_of (current_seals (g_protocol n))) (set (dict_keys (known_seals (g_protocol n)))) (store_get db)"
  shows "mirrored_seals cr p0 n"
  using assms unfolding mirrored_seals_def by blast

lemma persist_row_kept:
  assumes "row_ok cr kind key (json_norm v)" "kind \<noteq> ''seal_current''" "kind \<noteq> ''seal_known''"
  shows "keeps (mirrored_seals cr p0) (persist kind key v)"
proof (rule keepsI)
  fix n r n'
  assume "mirrored_seals cr p0 n" and call: "persist kind key v n = (r, n')"
  then obtain db where db: "g_store n = Some db" "calm db" and ok: "seals_ok cr (g_protocol n)"
    and m: "mirrors cr p0 (map_of (current_seals (g_protocol n))) (set (dict_keys (known_seals (g_protocol n)))) (store_get db)"
    unfolding mirrored_seals_def by blast
  from persist_calm [OF db, of kind key v] call obtain db' where n': "n' = n\<lparr>g_store := Some db'\<rparr>"
    and db': "calm db'" "store_get db' = put_row (store_get db) kind key v" by auto
  from mirrors_other [OF m assms] show "mirrored_seals cr p0 n'"
    using db' ok unfolding n' by (intro mirrored_sealsI [of _ db']) simp_all
qed

text \<open>Finding the seals of a capsule again after its closure has been applied.\<close>

lemma seals_of_Inr:
  assumes "seals_ok cr p" "seals_of p c = Inr (pred, cur)"
  shows "map_of (known_seals p) (seal_id cr pred) = Some pred" "seal_id cr pred = predecessor_id c"
    "resource_id cur = resource_id pred" "map_of (current_seals p) (resource_id cur) = Some cur"
    "has_key (known_seals p) (seal_id cr cur)"
proof -
  from assms(2) have k: "map_of (known_seals p) (predecessor_id c) = Some pred"
    and c: "map_of (current_seals p) (resource_id pred) = Some cur"
    by (auto simp: seals_of_def split: option.splits)
  from seals_ok_known [OF assms(1) map_of_SomeD [OF k]] show "seal_id cr pred = predecessor_id c" by simp
  with k show "map_of (known_seals p) (seal_id cr pred) = Some pred" by simp
  from seals_ok_current [OF assms(1) map_of_SomeD [OF c]] show "resource_id cur = resource_id pred"
    "has_key (known_seals p) (seal_id cr cur)" by simp_all
  with c show "map_of (current_seals p) (resource_id cur) = Some cur" by simp
qed

lemma persist_after_apply:
  assumes "g_store n = Some db" "calm db" "seals_ok cr (g_protocol n)" "mirrors cr p0 C K (store_get db)"
    and "seals_of (g_protocol n) c = Inr (pred, cur)"
    and "map_of (current_seals (g_protocol n)) = C(resource_id cur \<mapsto> cur)"
    and "set (dict_keys (known_seals (g_protocol n))) = insert (seal_id cr cur) (insert (seal_id cr pred) K)"
    and "persist_closure cr c cl n = (r, n')"
  shows "mirrored_seals cr p0 n'"
proof -
  from persist_closure_calm [OF assms(1,2,4,5), of cl] assms(8) obtain db' where
    n': "n' = n\<lparr>g_store := Some db'\<rparr>" and db': "calm db'"
    "mirrors cr p0 (C(resource_id cur \<mapsto> cur)) (insert (seal_id cr cur) (insert (seal_id cr pred) K)) (store_get db')"
    by auto
  show ?thesis
    using db' assms(3) unfolding n' assms(6,7) [symmetric] by (intro mirrored_sealsI [of _ db']) simp_all
qed

lemma key_in: "map_of d k = Some v \<Longrightarrow> k \<in> set (dict_keys d)"
  by (force dest: map_of_SomeD)

lemma close_with_mirrored: "keeps (mirrored_seals cr p0) (close_with cr c cl)"
proof (rule keepsI)
  fix n r n'
  assume "mirrored_seals cr p0 n" and call: "close_with cr c cl n = (r, n')"
  then obtain db where db: "g_store n = Some db" "calm db" and ok: "seals_ok cr (g_protocol n)"
    and m: "mirrors cr p0 (map_of (current_seals (g_protocol n))) (set (dict_keys (known_seals (g_protocol n)))) (store_get db)"
    unfolding mirrored_seals_def by blast
  obtain u p1 where reg: "register_closure cr c cl (g_protocol n) = (u, p1)" by fastforce
  note f1 = register_closure_frame [OF reg]
  have ok1: "seals_ok cr p1" using f1 by (intro seals_ok_grow [OF ok]) blast+
  have same: "mirrored_seals cr p0 (n\<lparr>g_protocol := q\<rparr>)"
    if "seals_ok cr q" "current_seals q = current_seals (g_protocol n)" "known_seals q = known_seals (g_protocol n)" for q
    using that db m by (intro mirrored_sealsI [of _ db]) simp_all
  show "mirrored_seals cr p0 n'"
  proof (cases u)
    case (Inl e)
    with call reg have "n' = n\<lparr>g_protocol := p1\<rparr>" by (simp add: close_with_def thenS_def on_protocol_def)
    then show ?thesis using same [of p1] ok1 f1 by simp
  next
    case (Inr v)
    obtain res p2 where app: "apply_closure cr c cl p1 = (res, p2)" by fastforce
    have ok2: "seals_ok cr p2" by (rule apply_closure_seals_ok [OF ok1 app])
    have rest: "(case res of Inl e \<Rightarrow> (Inl (GMosaic e), n\<lparr>g_protocol := p2\<rparr>)
        | Inr s \<Rightarrow> persist_closure cr c cl (n\<lparr>g_protocol := p2\<rparr>)) = (r, n')"
      using call reg app Inr by (simp add: close_with_def thenS_def on_protocol_def split: sum.splits)
    from app show ?thesis
    proof (cases rule: apply_closure_cases)
      case (fail e)
      have "current_seals p2 = current_seals p1 \<and> known_seals p2 = known_seals p1"
        using fail(2) register_closure_frame by blast
      with rest fail(1) f1 same [of p2] ok2 show ?thesis by simp
    next
      case (applied q pred current)
      have q: "current_seals q = current_seals p1" "known_seals q = known_seals p1"
        using applied(2) register_closure_frame by blast+
      have so: "seals_of p2 c = Inr (pred, current)" using applied(4,5,11) by (simp add: seals_of_def)
      note s = seals_of_Inr [OF ok2 so]
      show ?thesis
      proof (rule persist_after_apply)
        show "g_store (n\<lparr>g_protocol := p2\<rparr>) = Some db" using db by simp
        show "persist_closure cr c cl (n\<lparr>g_protocol := p2\<rparr>) = (r, n')" using rest applied(10) by simp
        show "map_of (current_seals (g_protocol (n\<lparr>g_protocol := p2\<rparr>))) =
            (map_of (current_seals (g_protocol n)))(resource_id current \<mapsto> current)"
          using s(4) applied(11) q f1 by (simp add: fun_upd_idem)
        show "set (dict_keys (known_seals (g_protocol (n\<lparr>g_protocol := p2\<rparr>)))) =
            insert (seal_id cr current) (insert (seal_id cr pred) (set (dict_keys (known_seals (g_protocol n)))))"
          using key_in [OF s(1)] s(5) applied(11) q f1 by (simp add: has_key_def insert_absorb)
      qed (use db m ok2 so in simp_all)
    next
      case (installed q pred current)
      let ?s = "successor_seal cr current c"
      have q: "current_seals q = current_seals p1" "known_seals q = known_seals p1"
        using installed(2) register_closure_frame by blast+
      have okq: "seals_ok cr q" using installed(2) ok1 register_closure_frame by (metis seals_ok_grow)
      have sq: "seals_of q c = Inr (pred, current)" using installed(4,5) by (simp add: seals_of_def)
      note s = seals_of_Inr [OF okq sq]
      have rid: "resource_id ?s = resource_id pred" using s(3) by (simp add: successor_seal_def)
      obtain pred' where so: "seals_of p2 c = Inr (pred', ?s)"
      proof (cases "seal_id cr ?s = predecessor_id c")
        case True
        then show ?thesis using that [of ?s] installed(8) by (simp add: seals_of_def)
      next
        case False
        then show ?thesis using that [of pred] installed(4,8) rid by (simp add: seals_of_def)
      qed
      note s' = seals_of_Inr [OF ok2 so]
      show ?thesis
      proof (rule persist_after_apply)
        show "g_store (n\<lparr>g_protocol := p2\<rparr>) = Some db" using db by simp
        show "persist_closure cr c cl (n\<lparr>g_protocol := p2\<rparr>) = (r, n')" using rest installed(7) by simp
        show "map_of (current_seals (g_protocol (n\<lparr>g_protocol := p2\<rparr>))) =
            (map_of (current_seals (g_protocol n)))(resource_id ?s \<mapsto> ?s)"
          using installed(8) q f1 by simp
        have known: "set (dict_keys (known_seals p2)) = insert (seal_id cr ?s) (set (dict_keys (known_seals p1)))"
          unfolding installed(8) install_seal_frame keys_update q(2) ..
        have "seal_id cr pred' \<in> set (dict_keys (known_seals p1))"
          using key_in [OF s(1)] unfolding s'(2) s(2) q(2) .
        then show "set (dict_keys (known_seals (g_protocol (n\<lparr>g_protocol := p2\<rparr>)))) =
            insert (seal_id cr ?s) (insert (seal_id cr pred') (set (dict_keys (known_seals (g_protocol n)))))"
          using known f1 by (simp add: insert_absorb)
      qed (use db m ok2 so in simp_all)
    qed
  qed
qed

lemma same_seals_mirrored:
  assumes "mirrored_seals cr p0 n" "g_store n' = g_store n" "seals_ok cr (g_protocol n')"
    "current_seals (g_protocol n') = current_seals (g_protocol n)" "known_seals (g_protocol n') = known_seals (g_protocol n)"
  shows "mirrored_seals cr p0 n'"
  using assms unfolding mirrored_seals_def by (metis (no_types))

lemma witness_mirrored:
  assumes n: "mirrored_seals cr p0 n" and call: "witness_accept cr c n = (q, n')"
  shows "mirrored_seals cr p0 n'" "mirrored_seals cr p0 (emit out n')"
proof -
  obtain res p' where i: "issue_receipt cr (g_id n) c ''ACCEPT'' (g_protocol n) = (res, p')" by fastforce
  with call have n': "n' = n\<lparr>g_protocol := p'\<rparr>" by (auto simp: witness_accept_def on_protocol_def split: sum.splits)
  from n have ok: "seals_ok cr (g_protocol n)" by (auto simp: mirrored_seals_def)
  note f = issue_receipt_frame [OF i]
  have "seals_ok cr p'" using f by (intro seals_ok_grow [OF ok]) simp_all
  then show m: "mirrored_seals cr p0 n'" using f unfolding n' by (intro same_seals_mirrored [OF n]) simp_all
  show "mirrored_seals cr p0 (emit out n')"
    using m by (intro same_seals_mirrored [OF m]) (auto simp: mirrored_seals_def emit_def)
qed

lemma mirrored_inert:
  assumes "g_protocol n' = g_protocol n" "g_store n' = g_store n"
  shows "mirrored_seals cr p0 n' = mirrored_seals cr p0 n"
  using assms by (simp add: mirrored_seals_def)

interpretation mirrored: node_invariant cr "mirrored_seals cr p0" for cr p0
proof unfold_locales
  fix n n' :: gossip_node and c r q
  show "g_protocol n' = g_protocol n \<Longrightarrow> g_store n' = g_store n \<Longrightarrow> sent n' = sent n \<Longrightarrow>
      identity_of n' = identity_of n \<Longrightarrow> g_pool n' = g_pool n \<Longrightarrow> g_pending n' = g_pending n \<Longrightarrow>
      mirrored_seals cr p0 n' = mirrored_seals cr p0 n"
    by (rule mirrored_inert)
  show "mirrored_seals cr p0 n \<Longrightarrow> mirrored_seals cr p0 (n\<lparr>g_pending := AList.update cid x (g_pending n)\<rparr>)" for cid x
    by (simp add: mirrored_seals_def)
  show "mirrored_seals cr p0 n \<Longrightarrow> mirrored_seals cr p0 (n\<lparr>g_pending := AList.delete cid (g_pending n)\<rparr>)" for cid
    by (simp add: mirrored_seals_def)
  show "mirrored_seals cr p0 n \<Longrightarrow> mirrored_seals cr p0 (file_receipt cr w n)" for w
    by (simp add: mirrored_seals_def file_receipt_def Let_def bump_def)
  show "mirrored_seals cr p0 (put_capsule c n)" if n: "mirrored_seals cr p0 n"
  proof (rule same_seals_mirrored [OF n])
    from n have "seals_ok cr (g_protocol n)" by (auto simp: mirrored_seals_def)
    then show "seals_ok cr (g_protocol (put_capsule c n))" by (rule seals_ok_grow) simp_all
  qed (simp_all add: put_capsule_def)
  show "keeps (mirrored_seals cr p0) (persist_capsule c)"
    unfolding persist_capsule_def by (rule persist_row_kept) (simp_all add: row_ok_def, blast)
  show "keeps (mirrored_seals cr p0) (persist_receipt cr r)"
    unfolding persist_receipt_def by (rule persist_row_kept) (simp_all add: row_ok_def, blast)
  show "mirrored_seals cr p0 n \<Longrightarrow> witness_accept cr c n = (q, n') \<Longrightarrow> mirrored_seals cr p0 n'"
    by (rule witness_mirrored)
  show "mirrored_seals cr p0 n \<Longrightarrow> witness_accept cr c n = (q, n') \<Longrightarrow> q = Inr r \<Longrightarrow>
      mirrored_seals cr p0 (emit (Broadcast (GReceipt r)) n')"
    by (rule witness_mirrored)
qed (rule close_with_mirrored)

subsection \<open>Reading the rows back\<close>

lemma keys_update_image: "fst ` set (AList.update k v d) = insert k (fst ` set d)"
  using keys_update [of k v d] by simp

lemma restore_known_rows:
  assumes "\<forall>(k, v) \<in> set items. \<exists>s. v = json_norm (seal_to_wire s) \<and> k = seal_id cr s"
  shows "\<exists>n'. restore_rows (restore_known cr) items n = Inr n'
    \<and> set (dict_keys (known_seals (g_protocol n'))) = set (dict_keys (known_seals (g_protocol n))) \<union> fst ` set items
    \<and> current_seals (g_protocol n') = current_seals (g_protocol n)"
  using assms
proof (induction items arbitrary: n)
  case (Cons kv items)
  obtain k v where kv: "kv = (k, v)" by fastforce
  with Cons.prems obtain s where s: "v = json_norm (seal_to_wire s)" "k = seal_id cr s" by auto
  let ?n = "n\<lparr>g_protocol := (g_protocol n)\<lparr>known_seals := AList.update (seal_id cr s) s (known_seals (g_protocol n))\<rparr>\<rparr>"
  have "restore_known cr v n = Inr ?n" by (simp add: restore_known_def s seal_roundtrip del: json_norm.simps(2))
  with Cons.IH [of ?n] Cons.prems kv s show ?case by (simp add: keys_update_image)
qed simp

lemma restore_current_rows:
  assumes "\<forall>(k, v) \<in> set items. \<exists>s. v = json_norm (seal_to_wire s) \<and> k = resource_id s" "distinct (map fst items)"
  shows "\<exists>n'. restore_rows restore_current items n = Inr n'
    \<and> map_of (current_seals (g_protocol n')) = map_of (current_seals (g_protocol n)) ++ (\<lambda>k. decode_seal (map_of items k))
    \<and> known_seals (g_protocol n') = known_seals (g_protocol n)"
  using assms
proof (induction items arbitrary: n)
  case (Cons kv items)
  obtain k v where kv: "kv = (k, v)" by fastforce
  with Cons.prems obtain s where s: "v = json_norm (seal_to_wire s)" "k = resource_id s" by auto
  let ?n = "n\<lparr>g_protocol := (g_protocol n)\<lparr>current_seals := AList.update (resource_id s) s (current_seals (g_protocol n))\<rparr>\<rparr>"
  have r: "restore_current v n = Inr ?n" by (simp add: restore_current_def s seal_roundtrip del: json_norm.simps(2))
  have "\<exists>n'. restore_rows restore_current items ?n = Inr n'
      \<and> map_of (current_seals (g_protocol n')) = map_of (current_seals (g_protocol ?n)) ++ (\<lambda>k. decode_seal (map_of items k))
      \<and> known_seals (g_protocol n') = known_seals (g_protocol ?n)"
    by (rule Cons.IH) (use Cons.prems kv in auto)
  then obtain n' where all: "restore_rows restore_current items ?n = Inr n'
      \<and> map_of (current_seals (g_protocol n')) = map_of (current_seals (g_protocol ?n)) ++ (\<lambda>k. decode_seal (map_of items k))
      \<and> known_seals (g_protocol n') = known_seals (g_protocol ?n)" by (elim exE)
  have n': "restore_rows restore_current items ?n = Inr n'"
    "map_of (current_seals (g_protocol n')) = (map_of (current_seals (g_protocol n)))(k \<mapsto> s) ++ (\<lambda>k. decode_seal (map_of items k))"
    "known_seals (g_protocol n') = known_seals (g_protocol n)"
    using all s(2) by simp_all
  have "map_of items k = None" using Cons.prems(2) kv by (simp add: map_of_eq_None_iff)
  then have "(map_of (current_seals (g_protocol n)))(k \<mapsto> s) ++ (\<lambda>k. decode_seal (map_of items k))
      = map_of (current_seals (g_protocol n)) ++ (\<lambda>k. decode_seal (map_of (kv # items) k))"
    by (intro ext) (auto simp: kv s map_add_def simp del: json_norm.simps(2) split: option.split)
  with n' r kv show ?case by simp
qed (simp add: map_add_def)

definition same_seals :: "gossip_node \<Rightarrow> gossip_node \<Rightarrow> bool" where
  "same_seals n n' \<longleftrightarrow> current_seals (g_protocol n') = current_seals (g_protocol n)
     \<and> known_seals (g_protocol n') = known_seals (g_protocol n)"

lemma restore_rows_same:
  assumes "\<And>k v n. (k, v) \<in> set items \<Longrightarrow> \<exists>n'. f v n = Inr n' \<and> same_seals n n'"
  shows "\<exists>n'. restore_rows f items n = Inr n' \<and> same_seals n n'"
  using assms
proof (induction items arbitrary: n)
  case (Cons kv items)
  obtain k v where kv: "kv = (k, v)" by fastforce
  with Cons.prems [of k v n] obtain n1 where n1: "f v n = Inr n1" "same_seals n n1" by auto
  from Cons.IH [of n1] Cons.prems obtain n2 where "restore_rows f items n1 = Inr n2" "same_seals n1 n2"
    by (metis list.set_intros(2))
  with n1 kv show ?case by (simp add: same_seals_def)
qed (simp add: same_seals_def)

lemma restore_capsule_same:
  "\<exists>n'. restore_capsule (json_norm (capsule_to_wire c)) n = Inr n' \<and> same_seals n n'"
  by (simp add: restore_capsule_def capsule_roundtrip same_seals_def put_capsule_def del: json_norm.simps(2))

lemma restore_receipt_same:
  "\<exists>n'. restore_receipt (json_norm (receipt_to_wire r)) n = Inr n' \<and> same_seals n n'"
  by (simp add: restore_receipt_def receipt_roundtrip same_seals_def del: json_norm.simps(2))

lemma restore_closure_same:
  "\<exists>n'. restore_closure cr (json_norm (closure_to_wire cl)) n = Inr n' \<and> same_seals n n'"
proof (cases "map_of (capsules (g_protocol n)) (c_capsule_id cl)")
  case (Some c)
  obtain u p' where reg: "register_closure cr c cl (g_protocol n) = (u, p')" by fastforce
  from register_closure_frame [OF reg] reg Some show ?thesis
    by (cases u) (simp_all add: restore_closure_def closure_roundtrip on_protocol_def same_seals_def del: json_norm.simps(2))
qed (simp add: restore_closure_def closure_roundtrip same_seals_def del: json_norm.simps(2))

lemma restart_mirrors:
  assumes db: "g_store n = Some db" "calm db" and m: "mirrors cr p0 C K (store_get db)"
  shows "\<exists>n'. restart cr p0 n = Inr n' \<and> map_of (current_seals (g_protocol n')) = C
    \<and> set (dict_keys (known_seals (g_protocol n'))) = K"
proof -
  let ?n0 = "gossip_init (g_id n) (g_max_pending n) (g_equivocates n) p0 (g_store n)"
  note items = store_items_get [of db] db(2) [unfolded calm_def, THEN conjunct2]
  have row: "(k, v) \<in> set (store_items db kind) \<Longrightarrow> row_ok cr kind k v" for kind k v
    using m items by (simp add: mirrors_def)
  have "\<forall>(k, v) \<in> set (store_items db ''seal_known''). \<exists>s. v = json_norm (seal_to_wire s) \<and> k = seal_id cr s"
    using row [of _ _ "''seal_known''"] unfolding row_ok_def by blast
  from restore_known_rows [OF this, of ?n0] obtain n1 where
    n1: "restore_rows (restore_known cr) (store_items db ''seal_known'') ?n0 = Inr n1"
    "set (dict_keys (known_seals (g_protocol n1))) = set (dict_keys (known_seals p0)) \<union> fst ` set (store_items db ''seal_known'')"
    "current_seals (g_protocol n1) = current_seals p0"
    unfolding gossip_init_def by (simp only: gossip_node.select_convs) blast
  have "\<forall>(k, v) \<in> set (store_items db ''seal_current''). \<exists>s. v = json_norm (seal_to_wire s) \<and> k = resource_id s"
    using row [of _ _ "''seal_current''"] unfolding row_ok_def by blast
  from restore_current_rows [OF this, of n1] items obtain n2 where
    n2: "restore_rows restore_current (store_items db ''seal_current'') n1 = Inr n2"
    "map_of (current_seals (g_protocol n2)) = map_of (current_seals p0) ++ (\<lambda>k. decode_seal (map_of (store_items db ''seal_current'') k))"
    "known_seals (g_protocol n2) = known_seals (g_protocol n1)"
    unfolding n1(3) by blast
  obtain n3 where n3: "restore_rows restore_capsule (store_items db ''capsule'') n2 = Inr n3" "same_seals n2 n3"
    using restore_rows_same [of "store_items db ''capsule''" restore_capsule n2] row [of _ _ "''capsule''"] restore_capsule_same
    unfolding row_ok_def by metis
  obtain n4 where n4: "restore_rows restore_receipt (store_items db ''receipt'') n3 = Inr n4" "same_seals n3 n4"
    using restore_rows_same [of "store_items db ''receipt''" restore_receipt n3] row [of _ _ "''receipt''"] restore_receipt_same
    unfolding row_ok_def by metis
  obtain n5 where n5: "restore_rows (restore_closure cr) (store_items db ''closure'') n4 = Inr n5" "same_seals n4 n5"
    using restore_rows_same [of "store_items db ''closure''" "restore_closure cr" n4] row [of _ _ "''closure''"] restore_closure_same
    unfolding row_ok_def by metis
  have "restart cr p0 n = Inr n5"
    using n1(1) n2(1) n3(1) n4(1) n5(1) db(1) by (simp add: restart_def restore_node_def) (simp add: gossip_init_def)
  moreover have "map_of (store_items db ''seal_current'') = store_get db ''seal_current''"
  proof
    fix k
    have "map_of (store_items db ''seal_current'') k = Some v \<longleftrightarrow> store_get db ''seal_current'' k = Some v" for v
      using items by simp
    then show "map_of (store_items db ''seal_current'') k = store_get db ''seal_current'' k"
      by (metis option.exhaust)
  qed
  moreover have "fst ` set (store_items db ''seal_known'') = {k. store_get db ''seal_known'' k \<noteq> None}"
    using items by (force simp: image_iff)
  ultimately show ?thesis
    using n1(2) n2(2,3) n3(2) n4(2) n5(2) m by (simp add: same_seals_def mirrors_def)
qed

text \<open>
  C10. A restart keeps the sealed state. A node whose store starts empty and whose transactions commit
  has taken any interleaving of sections. Its process ends at any moment between two sections and
  starts again with the seals of its configuration: restoring raises no exception, every resource has
  the current seal it had before, and the known seals have the same ids.
\<close>

theorem restart_keeps_seals:
  assumes "gossip_reach cr (gossip_init nid limit False p0 (Some db)) (ts, n)"
    and "seals_ok cr p0" and "rows db = []" and "faults db = []"
  shows "\<exists>n'. restart cr p0 n = Inr n'
    \<and> (\<forall>rid. map_of (current_seals (g_protocol n')) rid = map_of (current_seals (g_protocol n)) rid)
    \<and> (\<forall>sid. has_key (known_seals (g_protocol n')) sid = has_key (known_seals (g_protocol n)) sid)"
proof -
  have "mirrors cr p0 (map_of (current_seals p0)) (set (dict_keys (known_seals p0))) (store_get db)"
    using assms(3) by (simp add: mirrors_def store_get_def map_add_def)
  then have "mirrored_seals cr p0 (gossip_init nid limit False p0 (Some db))"
    using assms(2-4) by (intro mirrored_sealsI [of _ db]) (simp_all add: gossip_init_def calm_def)
  with mirrored.reach_kept [OF assms(1)] have "mirrored_seals cr p0 n" by (simp add: gossip_init_def)
  then show ?thesis
    unfolding mirrored_seals_def using restart_mirrors by (metis has_key_def)
qed

end
