(* ===== verification/Gossip_Props.thy ===== *)
theory Gossip_Props
  imports Gossip_Recovery
begin

section \<open>Gossip nodes: concrete runs, progress and weak points\<close>

text \<open>
  The concrete runs at which the theorems on gossip nodes are applied, and three runs that show
  what a restart, a refused capsule and a forged receipt do.
\<close>

subsection \<open>A concrete node\<close>

definition demo_gossip :: "durable_store option \<Rightarrow> gossip_node" where
  "demo_gossip db = gossip_init ''v1'' 10 False demo_created db"

lemma demo_store_capsule: "store_capsule demo_capsule demo_created = demo_proposed"
  by (simp add: store_capsule_def demo_created_def demo_start_def protocol_init_def demo_proposed_def)

definition demo_voted :: gossip_node where
  "demo_voted = (demo_gossip None)\<lparr>g_seen := {capsule_id demo_capsule}, g_protocol := demo_locked,
     g_outbox := [Broadcast (GReceipt demo_receipt)]\<rparr>"

lemma demo_vote:
  "run_section demo_crypto (Deliver (GCapsule demo_capsule)) [] (demo_gossip None) = ([], demo_voted)"
  by (simp add: run_section_def on_capsule_def demo_gossip_def gossip_init_def thenS_def persist_capsule_def
      persist_def on_store_def witness_accept_def on_protocol_def put_capsule_def demo_store_capsule demo_witness
      emit_def demo_voted_def)

lemma demo_voted_reached: "gossip_reach demo_crypto (demo_gossip None) ([[]], demo_voted)"
proof -
  have "gossip_step demo_crypto ([], demo_gossip None) ([[Deliver (GCapsule demo_capsule)]], demo_gossip None)"
    using gossip_step.arrive [of demo_crypto "[]"] by simp
  from gossip_reach.later [OF gossip_reach.initially this]
  have r: "gossip_reach demo_crypto (demo_gossip None) ([[Deliver (GCapsule demo_capsule)]], demo_gossip None)" .
  have "gossip_step demo_crypto ([[Deliver (GCapsule demo_capsule)]], demo_gossip None) ([[]], demo_voted)"
    using gossip_step.proceed [of 0 "[[Deliver (GCapsule demo_capsule)]]", OF _ _ demo_vote] by simp
  from gossip_reach.later [OF r this] show ?thesis .
qed

theorem gossip_refines_protocol_witness:
  "\<exists>R. node_run demo_crypto demo_created R (g_protocol demo_voted)
     \<and> {r. Broadcast (GReceipt r) \<in> set (g_outbox demo_voted)} \<subseteq> R \<and> demo_receipt \<in> R"
  using gossip_refines_protocol [OF demo_voted_reached [unfolded demo_gossip_def]]
  by (auto simp: demo_voted_def)

theorem gossip_exclusivity_witness:
  "verify_closure demo_crypto demo_locked demo_capsule demo_closure = Inr True
   \<and> capsule_id demo_capsule = capsule_id demo_capsule"
proof (intro conjI demo_verified, rule gossip_exclusivity [where p = demo_locked and q = demo_locked
    and c = demo_capsule and c' = demo_capsule and H = "{''v1''}" and node = "\<lambda>_. demo_voted"
    and tasks = "\<lambda>_. [[]]" and initial = "\<lambda>_. demo_created" and limit = "\<lambda>_. 10" and db = "\<lambda>_. None"])
  show "wf_members demo_locked" by (rule demo_wf) simp
  show "verify_closure demo_crypto demo_locked demo_capsule demo_closure = Inr True"
    by (rule demo_verified)
  then show "verify_closure demo_crypto demo_locked demo_capsule demo_closure = Inr True" .
  show "unforged demo_crypto demo_locked {''v1''} (\<lambda>_. sent demo_voted) (c_receipts demo_closure)"
    by (simp add: unforged_def demo_closure_def sent_def demo_voted_def)
  then show "unforged demo_crypto demo_locked {''v1''} (\<lambda>_. sent demo_voted) (c_receipts demo_closure)" .
  show "3 * (\<Sum>v \<in> validators demo_locked - {''v1''}. member_weight demo_locked v) \<le> total_weight demo_locked"
    by (simp add: total_weight_def demo_member_def)
  show "\<forall>h \<in> {''v1''}. gossip_reach demo_crypto (gossip_init h 10 False demo_created None) ([[]], demo_voted)"
    using demo_voted_reached by (simp add: demo_gossip_def)
qed simp_all

text \<open>The seals of the configuration, a fresh store, no step yet.\<close>

lemma demo_created_ok: "seals_ok demo_crypto demo_created"
proof -
  have "node_run demo_crypto demo_start {} demo_created"
    by (rule node_run.resource [OF node_run.start demo_create])
  then show ?thesis using node_run_sealed protocol_init_sealed unfolding demo_start_def by blast
qed

definition fresh_store :: durable_store where
  "fresh_store = \<lparr>rows = [], event_log = [], event_counter = 0, snapshot_rows = [], meta_version = Some 2, faults = []\<rparr>"

theorem restart_keeps_seals_witness:
  "\<exists>n. gossip_reach demo_crypto (demo_gossip (Some fresh_store)) ([[]], n)
     \<and> (\<exists>n'. restart demo_crypto demo_created n = Inr n'
       \<and> (\<forall>rid. map_of (current_seals (g_protocol n')) rid = map_of (current_seals (g_protocol n)) rid)
       \<and> (\<forall>sid. has_key (known_seals (g_protocol n')) sid = has_key (known_seals (g_protocol n)) sid))"
proof -
  obtain n where n: "run_section demo_crypto (Deliver (GCapsule demo_capsule)) [] (demo_gossip (Some fresh_store)) = ([], n)"
    using run_section_equivocates
    by (auto simp: run_section_def on_capsule_def demo_gossip_def gossip_init_def thenS_def persist_capsule_def
      persist_def on_store_def put_calm fresh_store_def witness_accept_def on_protocol_def put_capsule_def
      demo_store_capsule demo_witness emit_def store_put_def db_transaction_def Let_def)
  have "gossip_step demo_crypto ([], demo_gossip (Some fresh_store)) ([[Deliver (GCapsule demo_capsule)]], demo_gossip (Some fresh_store))"
    using gossip_step.arrive [of demo_crypto "[]"] by simp
  moreover have "gossip_step demo_crypto ([[Deliver (GCapsule demo_capsule)]], demo_gossip (Some fresh_store)) ([[]], n)"
    using gossip_step.proceed [of 0 "[[Deliver (GCapsule demo_capsule)]]", OF _ _ n] by simp
  ultimately have r: "gossip_reach demo_crypto (demo_gossip (Some fresh_store)) ([[]], n)"
    by (metis gossip_reach.initially gossip_reach.later)
  show ?thesis
    using r restart_keeps_seals [OF r [unfolded demo_gossip_def] demo_created_ok]
    by (auto simp: fresh_store_def)
qed

subsection \<open>A restart forgets the locks\<close>

definition voted_store :: durable_store where
  "voted_store = snd (store_put ''capsule'' (capsule_id demo_capsule) (capsule_to_wire demo_capsule) True fresh_store)"

lemma voted_store_fields:
  "store_put ''capsule'' (capsule_id demo_capsule) (capsule_to_wire demo_capsule) True fresh_store = (Inr (), voted_store)"
  "rows voted_store = [((''capsule'', capsule_id demo_capsule),
     \<lparr>row_payload = json_norm (capsule_to_wire demo_capsule), row_version = 1\<rparr>)]" "faults voted_store = []"
  by (simp_all add: voted_store_def fresh_store_def store_put_def db_transaction_def Let_def upsert_def insert_event_def
      del: json_norm.simps(2))

definition voted_durably :: gossip_node where
  "voted_durably = demo_voted\<lparr>g_store := Some voted_store\<rparr>"

lemma durable_vote:
  "run_section demo_crypto (Deliver (GCapsule demo_capsule)) [] (demo_gossip (Some fresh_store)) = ([], voted_durably)"
  by (simp add: run_section_def on_capsule_def demo_gossip_def gossip_init_def thenS_def persist_capsule_def
      persist_def on_store_def voted_store_fields(1) witness_accept_def on_protocol_def put_capsule_def
      demo_store_capsule demo_witness emit_def demo_voted_def voted_durably_def)

lemma one_delivery:
  assumes "run_section cr (Deliver m) [] n = ([], n')"
  shows "gossip_reach cr n ([[]], n')"
proof -
  have "gossip_step cr ([], n) ([[Deliver m]], n)" using gossip_step.arrive [of cr "[]"] by simp
  moreover have "gossip_step cr ([[Deliver m]], n) ([[]], n')"
    using gossip_step.proceed [of 0 "[[Deliver m]]", OF _ _ assms] by simp
  ultimately show ?thesis by (metis gossip_reach.initially gossip_reach.later)
qed

definition restarted :: gossip_node where
  "restarted = (demo_gossip (Some voted_store))\<lparr>g_protocol := demo_proposed, g_seen := {capsule_id demo_capsule}\<rparr>"

lemma demo_restart: "restart demo_crypto demo_created voted_durably = Inr restarted"
proof -
  have items: "store_items voted_store kind = (if kind = ''capsule''
      then [(capsule_id demo_capsule, json_norm (capsule_to_wire demo_capsule))] else [])" for kind
    by (simp add: store_items_def voted_store_fields(2) del: json_norm.simps(2))
  show ?thesis
    by (simp add: restart_def voted_durably_def demo_voted_def demo_gossip_def gossip_init_def restore_node_def
        items restore_capsule_def capsule_roundtrip put_capsule_def demo_store_capsule restarted_def
        del: json_norm.simps(2))
qed

definition rival_receipt :: witness_receipt where
  "rival_receipt = demo_receipt\<lparr>r_capsule_id := capsule_id demo_rival\<rparr>"

lemma rival_vote:
  "\<exists>n. run_section demo_crypto (Deliver (GCapsule demo_rival)) [] restarted = ([], n) \<and> rival_receipt \<in> sent n"
proof -
  let ?p = "store_capsule demo_rival demo_proposed"
  have valid: "validate_capsule demo_crypto ?p demo_rival = Inr ()"
    by (simp add: validate_capsule_def verify_client_signature_def)
  have vote: "issue_receipt demo_crypto ''v1'' demo_rival ''ACCEPT'' ?p = (Inr rival_receipt, lock_as demo_rival ''ACCEPT'' ?p)"
    by (simp add: issue_receipt_def valid get_member_def accept_lock_def sign_receipt_def rival_receipt_def
        demo_receipt_def demo_member_def)
  obtain db where "store_put ''capsule'' (capsule_id demo_rival) (capsule_to_wire demo_rival) True voted_store = (Inr (), db)"
    using put_calm [OF voted_store_fields(3)] by metis
  then show ?thesis
    using demo_rival_distinct vote
    by (simp add: run_section_def on_capsule_def restarted_def demo_gossip_def gossip_init_def thenS_def
        persist_capsule_def persist_def on_store_def witness_accept_def on_protocol_def put_capsule_def emit_def sent_def)
qed

text \<open>
  C38. A restart breaks the promise of a witness. \<open>_restore\<close> does not bring back the locks, and
  nothing persists them: a correct node accepts a capsule, restarts, and accepts another capsule for
  the same predecessor and attempt. It has then signed the two conflicting receipts that
  \<open>gossip_exclusivity\<close> counts as a fault.
\<close>

theorem restart_double_signs:
  "\<exists>n n' n'' r r'. gossip_reach demo_crypto (demo_gossip (Some fresh_store)) ([[]], n) \<and> r \<in> sent n
     \<and> restart demo_crypto demo_created n = Inr n' \<and> gossip_reach demo_crypto n' ([[]], n'') \<and> r' \<in> sent n''
     \<and> witness_id r = witness_id r' \<and> r_status r = ''ACCEPT'' \<and> r_status r' = ''ACCEPT''
     \<and> r_predecessor_id r = r_predecessor_id r' \<and> r_attempt r = r_attempt r' \<and> r_capsule_id r \<noteq> r_capsule_id r'"
proof -
  obtain n'' where vote: "run_section demo_crypto (Deliver (GCapsule demo_rival)) [] restarted = ([], n'')"
    and sent: "rival_receipt \<in> sent n''" using rival_vote by blast
  have "demo_receipt \<in> sent voted_durably" by (simp add: sent_def voted_durably_def demo_voted_def)
  moreover have "r_capsule_id demo_receipt \<noteq> r_capsule_id rival_receipt"
    using demo_rival_distinct by (simp add: rival_receipt_def demo_receipt_def)
  moreover have "r_status demo_receipt = ''ACCEPT''" by (simp add: demo_receipt_def)
  ultimately show ?thesis
    using one_delivery [OF durable_vote] demo_restart one_delivery [OF vote] sent
    by (intro exI [of _ voted_durably] exI [of _ restarted] exI [of _ n''] exI [of _ demo_receipt]
        exI [of _ rival_receipt]) (simp add: rival_receipt_def)
qed

subsection \<open>Unverified input\<close>

text \<open>
  A capsule that is refused replaces the stored one. \<open>_submit\<close> stores the capsule under the id it
  carries before it validates it: a capsule with a false signature and the id of a stored capsule
  takes its place, and the receipts signed for the genuine capsule no longer verify.
\<close>

definition hijacking :: capsule where
  "hijacking = demo_capsule\<lparr>attempt := 1, client_signature := ''none''\<rparr>"

theorem submit_overwrites:
  "\<exists>n e. submit demo_crypto hijacking demo_voted = (Inr [], n)
     \<and> last (g_outbox n) = Answer (Rejected (capsule_id demo_capsule) e)
     \<and> verify_receipt demo_crypto (g_protocol demo_voted) demo_receipt = Inr True
     \<and> verify_receipt demo_crypto (g_protocol n) demo_receipt = Inr False"
proof -
  have ids: "capsule_id hijacking = capsule_id demo_capsule" "predecessor_id hijacking = predecessor_id demo_capsule"
    "attempt hijacking = 1" "capsule_epoch hijacking = 0"
    by (simp_all add: hijacking_def)
  have sig: "\<not> verify_client_signature demo_crypto hijacking"
    by (simp add: hijacking_def verify_client_signature_def)
  have valid: "validate_capsule demo_crypto (store_capsule hijacking demo_locked) hijacking
      = Inl (CapsuleInvalid ''invalid client signature'')"
    using sig by (simp add: validate_capsule_def ids)
  have good: "verify_receipt demo_crypto demo_locked demo_receipt = Inr True"
    by (simp add: verify_receipt_def demo_receipt_def member_public_key_def demo_member_def)
  show ?thesis
    using valid good
    by (simp add: submit_def demo_voted_def demo_gossip_def gossip_init_def thenS_def persist_capsule_def persist_def
        on_store_def put_capsule_def has_key_def is_rejection_def emit_def bump_def ids)
      (simp add: verify_receipt_def demo_receipt_def ids)
qed

text \<open>
  A forged receipt silences a witness. \<open>_on_receipt\<close> files a receipt in the pool before it verifies it,
  one per witness: a receipt with a false signature takes the place of the genuine one, and when the
  genuine one is sent again it is dropped, because its id is already in the history. The pool then
  holds no valid receipt of this witness.
\<close>

definition forged_receipt :: witness_receipt where
  "forged_receipt = demo_receipt\<lparr>r_signature := ''no''\<rparr>"

theorem forged_receipt_silences:
  "let n1 = snd (on_receipt demo_crypto forged_receipt (file_receipt demo_crypto demo_receipt demo_voted));
       n2 = snd (on_receipt demo_crypto demo_receipt n1)
   in n2 = n1 \<and> valid_accepts demo_crypto n2 (capsule_id demo_capsule) = Inr []
     \<and> verify_receipt demo_crypto (g_protocol n2) demo_receipt = Inr True"
proof -
  have f: "witness_id forged_receipt = ''v1''" "r_capsule_id forged_receipt = capsule_id demo_capsule"
    by (simp_all add: forged_receipt_def demo_receipt_def)
  have g: "witness_id demo_receipt = ''v1''" "r_capsule_id demo_receipt = capsule_id demo_capsule"
    by (simp_all add: demo_receipt_def)
  have bad: "verify_receipt demo_crypto demo_locked forged_receipt = Inr False"
    by (simp add: verify_receipt_def forged_receipt_def demo_receipt_def member_public_key_def demo_member_def)
  have good: "verify_receipt demo_crypto demo_locked demo_receipt = Inr True"
    by (simp add: verify_receipt_def demo_receipt_def member_public_key_def demo_member_def)
  have "receipt_id demo_crypto forged_receipt \<noteq> receipt_id demo_crypto demo_receipt"
  proof
    assume "receipt_id demo_crypto forged_receipt = receipt_id demo_crypto demo_receipt"
    then have "json_norm (JObj (receipt_fields forged_receipt @ [(''signature'', JStr (hex (r_signature forged_receipt)))]))
      = json_norm (JObj (receipt_fields demo_receipt @ [(''signature'', JStr (hex (r_signature demo_receipt)))]))"
      unfolding receipt_id_def by (rule digest_norm) (simp_all add: receipt_fields_def)
    then show False
      by (simp add: receipt_fields_def forged_receipt_def demo_receipt_def hex_def hex_byte_def hexdigit_def)
  qed
  then show ?thesis
    by (simp add: Let_def on_receipt_def file_receipt_def demo_voted_def demo_gossip_def gossip_init_def thenS_def
        persist_receipt_def persist_def on_store_def pool_of_def bump_def f g bad good valid_accepts_def)
qed

end
