(* ===== verification/Gossip_Live.thy ===== *)
theory Gossip_Live
  imports Gossip_Props
begin

section \<open>The books of a gossip node, and progress\<close>

text \<open>
  The receipt pool and the pending table keep their shape in every reachable state: receipts are
  filed under their own capsule and witness, one per witness, and no more submissions wait than the
  limit allows. With it, the receipt that completes a quorum makes the node close the capsule.
\<close>

subsection \<open>What only some sections touch\<close>

definition books :: "gossip_node \<Rightarrow> nat \<times> (string, capsule \<times> nat) dict \<times> (string, (string, witness_receipt) dict) dict" where
  "books n = (g_max_pending n, g_pending n, g_pool n)"

lemma books_simps [simp]:
  "books (bump k n) = books n" "books (count_failure e n) = books n" "books (emit out n) = books n"
  "books (put_capsule c n) = books n" "books (n\<lparr>g_protocol := p\<rparr>) = books n" "books (n\<lparr>g_store := s\<rparr>) = books n"
  by (simp_all add: books_def bump_def count_failure_def emit_def put_capsule_def)

lemma on_store_books: "keeps (\<lambda>n. books n = b) (on_store f)"
  by (rule keepsI) (auto simp: on_store_def split: option.splits prod.splits sum.splits)

lemma on_protocol_books: "keeps (\<lambda>n. books n = b) (on_protocol f)"
  by (rule keepsI) (auto simp: on_protocol_def split: prod.splits sum.splits)

lemma persist_books: "keeps (\<lambda>n. books n = b) (persist kind k v)"
  unfolding persist_def by (rule on_store_books)

lemmas books_kept = keeps_thenS keeps_pair on_protocol_books persist_books on_store_books

lemma persist_closure_books: "keeps (\<lambda>n. books n = b) (persist_closure cr c cl)"
  unfolding persist_closure_def by (intro books_kept)

lemma close_with_books: "keeps (\<lambda>n. books n = b) (close_with cr c cl)"
  unfolding close_with_def by (intro books_kept persist_closure_books)

lemma persist_receipt_books: "keeps (\<lambda>n. books n = b) (persist_receipt cr r)"
  unfolding persist_receipt_def by (intro books_kept)

lemma persist_capsule_books: "keeps (\<lambda>n. books n = b) (persist_capsule c)"
  unfolding persist_capsule_def by (intro books_kept)

text \<open>An invariant of the books alone: filing a receipt and the pending table are all that matters.\<close>

locale books_invariant =
  fixes cr :: crypto and B :: "nat \<times> (string, capsule \<times> nat) dict \<times> (string, (string, witness_receipt) dict) dict \<Rightarrow> bool"
  assumes admits: "B (m, pend, pool) \<Longrightarrow> length pend < m \<Longrightarrow> B (m, AList.update cid x pend, pool)"
    and finishes: "B (m, pend, pool) \<Longrightarrow> B (m, AList.delete cid pend, pool)"
    and files: "B (m, pend, pool) \<Longrightarrow> d = (case map_of pool (r_capsule_id r) of None \<Rightarrow> [] | Some d \<Rightarrow> d) \<Longrightarrow>
      B (m, pend, AList.update (r_capsule_id r) (AList.update (witness_id r) r d) pool)"
begin

lemma lift_kept:
  assumes "\<And>b. keeps (\<lambda>n. books n = b) f"
  shows "keeps (\<lambda>n. B (books n)) f"
proof (rule keepsI)
  fix n r n'
  assume "B (books n)" "f n = (r, n')"
  with keepsD [OF assms refl] show "B (books n')" by simp
qed

end

sublocale books_invariant \<subseteq> node: node_invariant cr "\<lambda>n. B (books n)"
proof unfold_locales
  fix n n' :: gossip_node and c q r
  show "g_protocol n' = g_protocol n \<Longrightarrow> g_store n' = g_store n \<Longrightarrow> sent n' = sent n \<Longrightarrow>
      identity_of n' = identity_of n \<Longrightarrow> g_pool n' = g_pool n \<Longrightarrow> g_pending n' = g_pending n \<Longrightarrow>
      B (books n') = B (books n)"
    by (simp add: books_def identity_of_def)
  show "B (books n) \<Longrightarrow> length (g_pending n) < g_max_pending n \<Longrightarrow>
      B (books (n\<lparr>g_pending := AList.update cid x (g_pending n)\<rparr>))" for cid x
    by (simp add: books_def admits)
  show "B (books n) \<Longrightarrow> B (books (n\<lparr>g_pending := AList.delete cid (g_pending n)\<rparr>))" for cid
    by (simp add: books_def finishes)
  show "B (books n) \<Longrightarrow> B (books (file_receipt cr w n))" for w
    using files [OF _ refl, of "g_max_pending n" "g_pending n" "g_pool n" w]
    by (auto simp: books_def file_receipt_def Let_def pool_of_def bump_def)
  show "B (books n) \<Longrightarrow> B (books (put_capsule c n))" by simp
  show "B (books n) \<Longrightarrow> witness_accept cr c n = (q, n') \<Longrightarrow> B (books n')"
    unfolding witness_accept_def by (rule keepsD [OF lift_kept [OF on_protocol_books]])
  then show "B (books n) \<Longrightarrow> witness_accept cr c n = (q, n') \<Longrightarrow> q = Inr r \<Longrightarrow>
      B (books (emit (Broadcast (GReceipt r)) n'))" by simp
qed (intro lift_kept persist_capsule_books persist_receipt_books close_with_books)+

subsection \<open>The two instances\<close>

definition pool_ok :: "(string, (string, witness_receipt) dict) dict \<Rightarrow> bool" where
  "pool_ok pool \<longleftrightarrow> (\<forall>cid d. map_of pool cid = Some d \<longrightarrow> wf_dict d
     \<and> (\<forall>(w, r) \<in> set d. witness_id r = w \<and> r_capsule_id r = cid))"

lemma pool_ok_update:
  assumes "pool_ok pool" "d = (case map_of pool (r_capsule_id r) of None \<Rightarrow> [] | Some d \<Rightarrow> d)"
  shows "pool_ok (AList.update (r_capsule_id r) (AList.update (witness_id r) r d) pool)"
proof -
  have "wf_dict d \<and> (\<forall>(w, x) \<in> set d. witness_id x = w \<and> r_capsule_id x = r_capsule_id r)"
    using assms by (cases "map_of pool (r_capsule_id r)") (auto simp: pool_ok_def)
  with assms(1) show ?thesis unfolding pool_ok_def by (auto simp: update_conv' set_update_wf)
qed

interpretation pooled: books_invariant cr "\<lambda>(m, pend, pool). pool_ok pool" for cr
  by unfold_locales (simp_all add: pool_ok_update)

lemma length_update: "length (AList.update k v d) \<le> Suc (length d)"
  by (induction d) (auto split: prod.splits)

interpretation bounded: books_invariant cr "\<lambda>(m, pend, pool). wf_dict pend \<and> length pend \<le> m" for cr
proof unfold_locales
  fix m :: nat and pend :: "(string, capsule \<times> nat) dict" and pool cid x
  assume "case (m, pend, pool) of (m, pend, pool) \<Rightarrow> wf_dict pend \<and> length pend \<le> m"
  then have h: "wf_dict pend" "length pend \<le> m" by simp_all
  show "case (m, AList.delete cid pend, pool) of (m, pend, pool) \<Rightarrow> wf_dict pend \<and> length pend \<le> m"
    using h length_delete_le [of cid pend] by simp
  assume "length pend < m"
  with h show "case (m, AList.update cid x pend, pool) of (m, pend, pool) \<Rightarrow> wf_dict pend \<and> length pend \<le> m"
    using length_update [of cid x pend] by simp
qed simp

text \<open>
  C33. The receipt pool is well formed. Whatever receipts arrive and however the tasks of a node
  interleave, each receipt in the pool is filed under the capsule and the witness it names, and a
  witness has at most one receipt per capsule; so the weight of a set of pooled receipts counts no
  member twice.
\<close>

theorem gossip_pool_typed:
  assumes "gossip_reach cr (gossip_init nid limit False p db) (ts, n)"
  shows "pool_ok (g_pool n)"
proof -
  have "case books (gossip_init nid limit False p db) of (m, pend, pool) \<Rightarrow> pool_ok pool"
    by (simp add: books_def gossip_init_def pool_ok_def)
  with pooled.node.reach_kept [OF assms] show ?thesis by (simp add: books_def gossip_init_def)
qed

text \<open>
  Backpressure. The submissions that wait for an answer never exceed \<open>max_pending\<close>, and no
  capsule waits twice.
\<close>

theorem gossip_pending_bounded:
  assumes "gossip_reach cr (gossip_init nid limit False p db) (ts, n)"
  shows "length (g_pending n) \<le> limit \<and> distinct (dict_keys (g_pending n))"
proof -
  have "case books (gossip_init nid limit False p db) of (m, pend, pool) \<Rightarrow> wf_dict pend \<and> length pend \<le> m"
    by (simp add: books_def gossip_init_def)
  with bounded.node.reach_kept [OF assms] have "case books n of (m, pend, pool) \<Rightarrow> wf_dict pend \<and> length pend \<le> m"
    by (simp add: gossip_init_def)
  moreover have "identity_of n = identity_of (gossip_init nid limit False p db)"
    using named.node.reach_kept [OF assms] by (simp add: gossip_init_def)
  ultimately show ?thesis by (simp add: books_def identity_of_def gossip_init_def)
qed

theorem gossip_pool_typed_witness: "pool_ok (g_pool demo_voted)"
  using gossip_pool_typed [OF demo_voted_reached [unfolded demo_gossip_def]] .

theorem gossip_pending_bounded_witness:
  "length (g_pending demo_voted) \<le> 10 \<and> distinct (dict_keys (g_pending demo_voted))"
  using gossip_pending_bounded [OF demo_voted_reached [unfolded demo_gossip_def]] .

subsection \<open>Calls that touch only a working store\<close>

definition works :: "durable_store option \<Rightarrow> bool" where
  "works s \<longleftrightarrow> (\<forall>db. s = Some db \<longrightarrow> calm db)"

definition settles :: "(gossip_node \<Rightarrow> 'a g_outcome) \<Rightarrow> 'a \<Rightarrow> gossip_node \<Rightarrow> bool" where
  "settles m a n \<longleftrightarrow> (\<forall>s. works s \<longrightarrow> (\<exists>s'. works s' \<and> m (n\<lparr>g_store := s\<rparr>) = (Inr a, n\<lparr>g_store := s'\<rparr>)))"

lemma settles_thenS: "settles m a n \<Longrightarrow> settles (f a) b n \<Longrightarrow> settles (thenS m f) b n"
  unfolding settles_def by (metis thenS_simps(2))

lemma settles_call:
  assumes "settles m a n" "works (g_store n)"
  obtains s where "works s" "m n = (Inr a, n\<lparr>g_store := s\<rparr>)"
proof -
  have "\<exists>s'. works s' \<and> m (n\<lparr>g_store := g_store n\<rparr>) = (Inr a, n\<lparr>g_store := s'\<rparr>)"
    using assms unfolding settles_def by blast
  with that show ?thesis by auto
qed

lemma settles_persist: "settles (persist kind key v) () n"
  unfolding settles_def
proof (intro allI impI)
  fix s :: "durable_store option"
  assume "works s"
  show "\<exists>s'. works s' \<and> persist kind key v (n\<lparr>g_store := s\<rparr>) = (Inr (), n\<lparr>g_store := s'\<rparr>)"
  proof (cases s)
    case None
    then show ?thesis by (intro exI [of _ None]) (simp add: persist_def on_store_def works_def)
  next
    case (Some db)
    with \<open>works s\<close> persist_calm [of "n\<lparr>g_store := s\<rparr>" db kind key v]
    obtain db' where "persist kind key v (n\<lparr>g_store := s\<rparr>) = (Inr (), n\<lparr>g_store := Some db'\<rparr>)" "calm db'"
      by (auto simp: works_def)
    then show ?thesis by (intro exI [of _ "Some db'"]) (simp add: works_def)
  qed
qed

lemma settles_snapshot: "sid \<noteq> [] \<Longrightarrow> settles (on_store (store_snapshot sid v None)) () n"
  unfolding settles_def
proof (intro allI impI)
  fix s :: "durable_store option"
  assume "sid \<noteq> []" "works s"
  show "\<exists>s'. works s' \<and> on_store (store_snapshot sid v None) (n\<lparr>g_store := s\<rparr>) = (Inr (), n\<lparr>g_store := s'\<rparr>)"
  proof (cases s)
    case None
    then show ?thesis by (intro exI [of _ None]) (simp add: on_store_def works_def)
  next
    case (Some db)
    with \<open>works s\<close> \<open>sid \<noteq> []\<close> snapshot_calm [of "n\<lparr>g_store := s\<rparr>" db sid v]
    obtain db' where "on_store (store_snapshot sid v None) (n\<lparr>g_store := s\<rparr>) = (Inr (), n\<lparr>g_store := Some db'\<rparr>)" "calm db'"
      by (auto simp: works_def)
    then show ?thesis by (intro exI [of _ "Some db'"]) (simp add: works_def)
  qed
qed

lemma settles_read: "f (g_protocol n) = Inr a \<Longrightarrow> settles (on_protocol (\<lambda>p. (f p, p))) a n"
  unfolding settles_def by (auto simp: on_protocol_def)

lemma settles_persist_closure:
  assumes "seals_of (g_protocol n) c = Inr (pred, cur)"
  shows "settles (persist_closure cr c cl) () n"
  unfolding persist_closure_def
proof (rule settles_thenS [OF settles_persist], rule settles_thenS)
  show "settles (on_protocol (\<lambda>p. (seals_of p c, p))) (pred, cur) n"
    using assms by (rule settles_read)
qed (simp, intro settles_thenS [OF settles_persist] settles_snapshot, simp)

subsection \<open>The receipt that completes a quorum\<close>

lemma file_receipt_fields [simp]:
  "g_protocol (file_receipt cr r n) = g_protocol n" "g_store (file_receipt cr r n) = g_store n"
  "g_emitted (file_receipt cr r n) = g_emitted n" "g_pending (file_receipt cr r n) = g_pending n"
  "g_outbox (file_receipt cr r n) = g_outbox n"
  by (simp_all add: file_receipt_def Let_def bump_def)

lemma file_receipt_pool:
  "pool_of (file_receipt cr r n) (r_capsule_id r) = AList.update (witness_id r) r (pool_of n (r_capsule_id r))"
  by (simp add: file_receipt_def Let_def pool_of_def bump_def)

lemma file_receipt_pool_ok: "pool_ok (g_pool n) \<Longrightarrow> pool_ok (g_pool (file_receipt cr r n))"
  using pool_ok_update [OF _ refl, of "g_pool n" r]
  by (simp add: file_receipt_def Let_def pool_of_def bump_def)

lemma pool_ok_of:
  assumes "pool_ok (g_pool n)"
  shows "wf_dict (pool_of n cid)" "(w, r) \<in> set (pool_of n cid) \<Longrightarrow> witness_id r = w \<and> r_capsule_id r = cid"
proof -
  have "wf_dict (pool_of n cid) \<and> (\<forall>(w, r) \<in> set (pool_of n cid). witness_id r = w \<and> r_capsule_id r = cid)"
    using assms by (cases "map_of (g_pool n) cid") (simp_all add: pool_of_def pool_ok_def)
  then show "wf_dict (pool_of n cid)" "(w, r) \<in> set (pool_of n cid) \<Longrightarrow> witness_id r = w \<and> r_capsule_id r = cid"
    by auto
qed

text \<open>The receipts the node would close with, and their weight.\<close>

lemma valid_accepts_pool:
  assumes wf: "wf_members (g_protocol n)" and pool: "pool_ok (g_pool n)"
  obtains rs where "valid_accepts cr n cid = Inr rs" "distinct (map witness_id rs)"
    "\<forall>r. r \<in> set rs \<longleftrightarrow> map_of (pool_of n cid) (witness_id r) = Some r \<and> r_status r = ''ACCEPT''
       \<and> verify_receipt cr (g_protocol n) r = Inr True"
    "\<forall>r \<in> set rs. r_capsule_id r = cid"
proof -
  let ?ok = "\<lambda>r. r_status r = ''ACCEPT'' \<and> verify_receipt cr (g_protocol n) r = Inr True"
  let ?vs = "dict_values (pool_of n cid)"
  have each: "(if r_status r = ''ACCEPT'' then verify_receipt cr (g_protocol n) r else Inr False) = Inr (?ok r)" for r
    using verify_receipt_total [OF wf, of cr r] by auto
  have va: "valid_accepts cr n cid = Inr (filter ?ok ?vs)"
    unfolding valid_accepts_def by (rule filterE_total) (simp add: each)
  note shape = pool_ok_of(1) [OF pool, of cid] pool_ok_of(2) [OF pool, of _ _ cid] pool_ok_of(1) [OF pool, of cid]
  have keys: "map witness_id ?vs = dict_keys (pool_of n cid)"
    unfolding map_map by (rule map_cong [OF refl]) (use shape(2) in auto)
  have dist: "distinct (map witness_id (filter ?ok ?vs))"
    by (rule distinct_map_filter) (unfold keys, rule shape(3))
  have mem: "r \<in> set ?vs \<longleftrightarrow> map_of (pool_of n cid) (witness_id r) = Some r" for r
    using shape by (force simp: map_of_eq_Some_iff)
  show ?thesis
  proof (rule that [OF va dist])
    show "\<forall>r. r \<in> set (filter ?ok ?vs) \<longleftrightarrow> map_of (pool_of n cid) (witness_id r) = Some r \<and> r_status r = ''ACCEPT''
       \<and> verify_receipt cr (g_protocol n) r = Inr True"
      unfolding set_filter mem [symmetric] by simp
    show "\<forall>r \<in> set (filter ?ok ?vs). r_capsule_id r = cid"
      using shape(2) by auto
  qed
qed

definition spendable :: "crypto \<Rightarrow> protocol \<Rightarrow> capsule \<Rightarrow> state_seal \<Rightarrow> bool" where
  "spendable cr p c cur \<longleftrightarrow> (\<exists>pred. map_of (known_seals p) (predecessor_id c) = Some pred
     \<and> map_of (current_seals p) (resource_id pred) = Some cur \<and> resource_id cur = resource_id pred
     \<and> seal_id cr cur = predecessor_id c)"

definition closed_with :: "crypto \<Rightarrow> capsule \<Rightarrow> closure_proof \<Rightarrow> state_seal \<Rightarrow> protocol \<Rightarrow> protocol" where
  "closed_with cr c cl cur p = install_seal cr (successor_seal cr cur c)
     (p\<lparr>closures := AList.update (capsule_id c) cl (closures p)\<rparr>)"

lemma closed_with_seals:
  assumes "spendable cr p c cur"
  shows "\<exists>pred. seals_of (closed_with cr c cl cur p) c = Inr (pred, successor_seal cr cur c)"
  using assms by (auto simp: spendable_def closed_with_def install_seal_def seals_of_def successor_seal_def)

lemma register_apply:
  assumes v: "verify_closure cr p c cl = Inr True" and conf: "\<not> has_conflict p (predecessor_id c)"
    and new: "\<not> has_key (closures p) (capsule_id c)" and sp: "spendable cr p c cur"
  shows "register_closure cr c cl p = (Inr (), p\<lparr>closures := AList.update (capsule_id c) cl (closures p)\<rparr>)"
    "apply_closure cr c cl (p\<lparr>closures := AList.update (capsule_id c) cl (closures p)\<rparr>)
       = (Inr (successor_seal cr cur c), closed_with cr c cl cur p)"
proof -
  let ?q = "p\<lparr>closures := AList.update (capsule_id c) cl (closures p)\<rparr>"
  show "register_closure cr c cl p = (Inr (), ?q)" using v conf new by (simp add: register_closure_def)
  have "verify_closure cr ?q c cl = Inr True" using verify_closure_cong [of ?q p cr c cl] v by simp
  moreover have "c_capsule_id cl = capsule_id c" using v by (simp add: verify_closure_valid valid_closure_def)
  moreover obtain pred where "map_of (known_seals p) (predecessor_id c) = Some pred"
    "map_of (current_seals p) (resource_id pred) = Some cur" "seal_id cr cur = predecessor_id c"
    using sp unfolding spendable_def by blast
  ultimately show "apply_closure cr c cl ?q = (Inr (successor_seal cr cur c), closed_with cr c cl cur p)"
    by (simp add: apply_closure_def closed_with_def Let_def)
qed

lemma close_with_succeeds:
  assumes v: "verify_closure cr (g_protocol n) c cl = Inr True"
    and conf: "\<not> has_conflict (g_protocol n) (predecessor_id c)"
    and new: "\<not> has_key (closures (g_protocol n)) (capsule_id c)"
    and sp: "spendable cr (g_protocol n) c cur" and st: "works (g_store n)"
  obtains s where "works s"
    "close_with cr c cl n = (Inr (), n\<lparr>g_protocol := closed_with cr c cl cur (g_protocol n), g_store := s\<rparr>)"
proof -
  let ?m = "n\<lparr>g_protocol := closed_with cr c cl cur (g_protocol n)\<rparr>"
  obtain pred where "seals_of (g_protocol ?m) c = Inr (pred, successor_seal cr cur c)"
    using closed_with_seals [OF sp] by auto
  from settles_persist_closure [OF this] have "settles (persist_closure cr c cl) () ?m" .
  moreover have "works (g_store ?m)" using st by simp
  ultimately obtain s where "works s" "persist_closure cr c cl ?m = (Inr (), ?m\<lparr>g_store := s\<rparr>)"
    by (rule settles_call)
  with that show ?thesis
    by (simp add: close_with_def thenS_def on_protocol_def register_apply [OF v conf new sp])
qed

lemma quorum_closure:
  assumes wf: "wf_members (g_protocol n)" and pool: "pool_ok (g_pool n)"
    and stored: "map_of (capsules (g_protocol n)) (capsule_id c) = Some c"
    and W: "\<forall>w \<in> W. \<exists>x. map_of (pool_of n (capsule_id c)) w = Some x \<and> r_status x = ''ACCEPT''
      \<and> verify_receipt cr (g_protocol n) x = Inr True"
    and some: "W \<noteq> {}" and weight: "threshold (g_protocol n) \<le> (\<Sum>w \<in> W. member_weight (g_protocol n) w)"
  obtains rs cl where "valid_accepts cr n (capsule_id c) = Inr rs"
    "threshold (g_protocol n) \<le> receipts_weight (g_protocol n) rs" "closure_create cr rs = Inr cl"
    "verify_closure cr (g_protocol n) c cl = Inr True"
proof -
  obtain rs where rs: "valid_accepts cr n (capsule_id c) = Inr rs" "distinct (map witness_id rs)"
    "\<forall>r. r \<in> set rs \<longleftrightarrow> map_of (pool_of n (capsule_id c)) (witness_id r) = Some r \<and> r_status r = ''ACCEPT''
       \<and> verify_receipt cr (g_protocol n) r = Inr True"
    "\<forall>r \<in> set rs. r_capsule_id r = capsule_id c"
    by (rule valid_accepts_pool [OF wf pool, where cr = cr and cid = "capsule_id c"])
  have sub: "W \<subseteq> witness_id ` set rs"
  proof
    fix w
    assume "w \<in> W"
    with W obtain x where x: "map_of (pool_of n (capsule_id c)) w = Some x" "r_status x = ''ACCEPT''"
      "verify_receipt cr (g_protocol n) x = Inr True" by blast
    moreover from pool_ok_of(2) [OF pool map_of_SomeD [OF x(1)]] have "witness_id x = w" by blast
    ultimately show "w \<in> witness_id ` set rs" using rs(3) by blast
  qed
  have "(\<Sum>w \<in> W. member_weight (g_protocol n) w) \<le> receipts_weight (g_protocol n) rs"
    unfolding receipts_weight_distinct [OF rs(2)]
    by (rule sum_mono2) (simp_all add: sub member_weight_nonneg [OF wf])
  with weight have thr: "threshold (g_protocol n) \<le> receipts_weight (g_protocol n) rs" by simp
  have ne: "rs \<noteq> []" using sub some by auto
  have each: "r_status r = ''ACCEPT'' \<and> r_capsule_id r = capsule_id c \<and> r_predecessor_id r = predecessor_id c
      \<and> r_epoch r = capsule_epoch c \<and> r_attempt r = attempt c" if "r \<in> set rs" for r
  proof -
    from that rs(3) have g: "verify_receipt cr (g_protocol n) r = Inr True" "r_status r = ''ACCEPT''" by blast+
    from g(1) show ?thesis by (rule verify_receiptD) (use g(2) stored rs(4) that in auto)
  qed
  obtain cl where cl: "closure_create cr rs = Inr cl"
    using closure_create_total [OF ne] each by blast
  have good: "\<forall>r \<in> set rs. good_receipt cr (g_protocol n) ''ACCEPT'' c r = Inr True"
    using rs(3,4) by (simp add: good_receipt_True)
  from that [OF rs(1) thr cl created_closure_verifies [OF rs(2) good stored thr cl]] show ?thesis .
qed

lemma try_close_succeeds:
  assumes "wf_members (g_protocol n)" "pool_ok (g_pool n)"
    and "map_of (capsules (g_protocol n)) (capsule_id c) = Some c"
    and "\<forall>w \<in> W. \<exists>x. map_of (pool_of n (capsule_id c)) w = Some x \<and> r_status x = ''ACCEPT''
      \<and> verify_receipt cr (g_protocol n) x = Inr True"
    and "W \<noteq> {}" "threshold (g_protocol n) \<le> (\<Sum>w \<in> W. member_weight (g_protocol n) w)"
    and conf: "\<not> has_conflict (g_protocol n) (predecessor_id c)"
    and new: "\<not> has_key (closures (g_protocol n)) (capsule_id c)"
    and sp: "spendable cr (g_protocol n) c cur" and st: "works (g_store n)"
    and fresh: "\<And>cl :: closure_proof. c_capsule_id cl = capsule_id c \<Longrightarrow> c_proof_id cl \<notin> g_emitted n"
  obtains cl n' where "verify_closure cr (g_protocol n) c cl = Inr True"
    "try_close cr c n = (Inr [Finish (capsule_id c)], n')"
    "g_protocol n' = closed_with cr c cl cur (g_protocol n)" "g_pending n' = g_pending n"
    "g_outbox n' = g_outbox n @ [Broadcast (GClosure c cl)]"
proof -
  obtain rs cl where rs: "valid_accepts cr n (capsule_id c) = Inr rs"
    "threshold (g_protocol n) \<le> receipts_weight (g_protocol n) rs" "closure_create cr rs = Inr cl"
    and v: "verify_closure cr (g_protocol n) c cl = Inr True"
    by (rule quorum_closure [OF assms(1-6)])
  obtain s where "works s"
    and close: "close_with cr c cl n = (Inr (), n\<lparr>g_protocol := closed_with cr c cl cur (g_protocol n), g_store := s\<rparr>)"
    by (rule close_with_succeeds [OF v conf new sp st])
  have "c_capsule_id cl = capsule_id c" using v by (simp add: verify_closure_valid valid_closure_def)
  then have "c_proof_id cl \<notin> g_emitted n" by (rule fresh)
  with new rs close that [OF v] show ?thesis
    by (simp add: try_close_def has_key_def emit_def bump_def)
qed

text \<open>
  C6. A quorum closes. A node holds a capsule that spends the current seal of its resource, has no
  closure yet and no conflict evidence, and its pool has verified \<open>ACCEPT\<close> receipts of the members
  \<open>W\<close>. When a verified \<open>ACCEPT\<close> receipt arrives and its witness brings the weight of \<open>W\<close> to the
  threshold, the handler registers a closure that verifies, makes the successor the current seal
  of the resource, and broadcasts the closure; and if a submission of the capsule is waiting, the
  next section of the task answers it with this closure and this seal.
\<close>

theorem quorum_closes:
  assumes wf: "wf_members (g_protocol n)" and pool: "pool_ok (g_pool n)"
    and stored: "map_of (capsules (g_protocol n)) (capsule_id c) = Some c"
    and receipt: "r_capsule_id r = capsule_id c" "r_status r = ''ACCEPT''" "verify_receipt cr (g_protocol n) r = Inr True"
    and first: "map_of (g_history n) (capsule_id c, witness_id r) = None"
    and W: "\<forall>w \<in> W. \<exists>x. map_of (pool_of n (capsule_id c)) w = Some x \<and> r_status x = ''ACCEPT''
      \<and> verify_receipt cr (g_protocol n) x = Inr True"
    and weight: "threshold (g_protocol n) \<le> (\<Sum>w \<in> insert (witness_id r) W. member_weight (g_protocol n) w)"
    and conf: "\<not> has_conflict (g_protocol n) (predecessor_id c)"
    and new: "\<not> has_key (closures (g_protocol n)) (capsule_id c)"
    and sp: "spendable cr (g_protocol n) c cur" and st: "works (g_store n)"
    and fresh: "\<forall>cl :: closure_proof. c_capsule_id cl = capsule_id c \<longrightarrow> c_proof_id cl \<notin> g_emitted n"
  shows "\<exists>cl n' n''. run_section cr (Deliver (GReceipt r)) [] n = ([Finish (capsule_id c)], n')
    \<and> verify_closure cr (g_protocol n) c cl = Inr True
    \<and> map_of (closures (g_protocol n')) (capsule_id c) = Some cl
    \<and> map_of (current_seals (g_protocol n')) (resource_id cur) = Some (successor_seal cr cur c)
    \<and> Broadcast (GClosure c cl) \<in> set (g_outbox n')
    \<and> run_section cr (Finish (capsule_id c)) [] n' = ([], n'')
    \<and> (\<forall>t. map_of (g_pending n) (capsule_id c) = Some (c, t) \<longrightarrow>
         Answer (Finalized (capsule_id c) (c_proof_id cl) (successor_seal cr cur c)) \<in> set (g_outbox n''))"
proof -
  let ?m = "file_receipt cr r n"
  have "works (g_store ?m)" using st by simp
  with settles_persist obtain s where s: "works s" "persist_receipt cr r ?m = (Inr (), ?m\<lparr>g_store := s\<rparr>)"
    unfolding persist_receipt_def by (rule settles_call)
  let ?k = "?m\<lparr>g_store := s\<rparr>"
  have p: "g_protocol ?k = g_protocol n" by simp
  have pool_k: "pool_of ?k (capsule_id c) = AList.update (witness_id r) r (pool_of n (capsule_id c))"
    using file_receipt_pool [of cr r n] receipt(1) by (simp add: pool_of_def)
  have W': "\<forall>w \<in> insert (witness_id r) W. \<exists>x. map_of (pool_of ?k (capsule_id c)) w = Some x
      \<and> r_status x = ''ACCEPT'' \<and> verify_receipt cr (g_protocol ?k) x = Inr True"
    unfolding p pool_k using W receipt by auto
  have f: "c_proof_id cl \<notin> g_emitted ?k" if "c_capsule_id cl = capsule_id c" for cl :: closure_proof using fresh that by simp
  have ok: "pool_ok (g_pool ?k)" using file_receipt_pool_ok [OF pool, of cr r] by simp
  have st': "works (g_store ?k)" using s(1) by simp
  have here: "wf_members (g_protocol ?k)" "map_of (capsules (g_protocol ?k)) (capsule_id c) = Some c"
    "threshold (g_protocol ?k) \<le> (\<Sum>w \<in> insert (witness_id r) W. member_weight (g_protocol ?k) w)"
    "\<not> has_conflict (g_protocol ?k) (predecessor_id c)" "\<not> has_key (closures (g_protocol ?k)) (capsule_id c)"
    "spendable cr (g_protocol ?k) c cur"
    unfolding p by (fact wf stored weight conf new sp)+
  obtain cl n' where v: "verify_closure cr (g_protocol ?k) c cl = Inr True"
    and close: "try_close cr c ?k = (Inr [Finish (capsule_id c)], n')"
    and n': "g_protocol n' = closed_with cr c cl cur (g_protocol ?k)" "g_pending n' = g_pending ?k"
      "g_outbox n' = g_outbox ?k @ [Broadcast (GClosure c cl)]"
    by (rule try_close_succeeds [OF here(1) ok here(2) W' insert_not_empty here(3-6) st' f])
  have "run_section cr (Deliver (GReceipt r)) [] n = ([Finish (capsule_id c)], n')"
    using first receipt stored s(2) close
    by (simp add: run_section_def on_receipt_def thenS_def)
  moreover have cls: "map_of (closures (g_protocol n')) (capsule_id c) = Some cl"
    by (simp add: n' closed_with_def install_seal_def)
  moreover have "map_of (current_seals (g_protocol n')) (resource_id cur) = Some (successor_seal cr cur c)"
    by (simp add: n' closed_with_def install_seal_def successor_seal_def)
  moreover obtain n'' where "run_section cr (Finish (capsule_id c)) [] n' = ([], n'')"
    and "\<forall>t. map_of (g_pending n) (capsule_id c) = Some (c, t) \<longrightarrow>
         Answer (Finalized (capsule_id c) (c_proof_id cl) (successor_seal cr cur c)) \<in> set (g_outbox n'')"
  proof -
    obtain pred where seals: "seals_of (g_protocol n') c = Inr (pred, successor_seal cr cur c)"
      using closed_with_seals [OF sp] n' by auto
    have "fst (run_section cr (Finish (capsule_id c)) [] n') = []"
      by (auto simp: run_section_def finish_pending_def split: option.splits sum.splits prod.splits)
    then obtain n'' where fin: "run_section cr (Finish (capsule_id c)) [] n' = ([], n'')" by (metis prod.collapse)
    show ?thesis
    proof (rule that [OF fin], intro allI impI)
      fix t
      assume "map_of (g_pending n) (capsule_id c) = Some (c, t)"
      with fin seals cls n' show "Answer (Finalized (capsule_id c) (c_proof_id cl) (successor_seal cr cur c)) \<in> set (g_outbox n'')"
        by (auto simp: run_section_def finish_pending_def emit_def)
    qed
  qed
  ultimately show ?thesis using v n' by (intro exI conjI) (assumption | simp)+
qed

definition demo_waiting :: gossip_node where
  "demo_waiting = demo_voted\<lparr>g_pending := [(capsule_id demo_capsule, (demo_capsule, 0))], g_ticket := 1\<rparr>"

theorem quorum_closes_witness:
  "\<exists>n :: gossip_node. g_outbox demo_waiting = [Broadcast (GReceipt demo_receipt)]
    \<and> (\<exists>cl :: closure_proof. Answer (Finalized (capsule_id demo_capsule) (c_proof_id cl) demo_next) \<in> set (g_outbox n))"
proof -
  have same: "g_protocol demo_waiting = demo_locked" "g_history demo_waiting = []" "g_pool demo_waiting = []"
    "g_store demo_waiting = None" "g_emitted demo_waiting = {}"
    "g_pending demo_waiting = [(capsule_id demo_capsule, (demo_capsule, 0))]"
    "g_outbox demo_waiting = [Broadcast (GReceipt demo_receipt)]"
    by (simp_all add: demo_waiting_def demo_voted_def demo_gossip_def gossip_init_def)
  have good: "verify_receipt demo_crypto demo_locked demo_receipt = Inr True"
    by (simp add: verify_receipt_def demo_receipt_def member_public_key_def demo_member_def)
  have r: "r_capsule_id demo_receipt = capsule_id demo_capsule" "r_status demo_receipt = ''ACCEPT''"
    "witness_id demo_receipt = ''v1''" by (simp_all add: demo_receipt_def)
  have "\<exists>cl n' n''. run_section demo_crypto (Deliver (GReceipt demo_receipt)) [] demo_waiting = ([Finish (capsule_id demo_capsule)], n')
    \<and> verify_closure demo_crypto (g_protocol demo_waiting) demo_capsule cl = Inr True
    \<and> map_of (closures (g_protocol n')) (capsule_id demo_capsule) = Some cl
    \<and> map_of (current_seals (g_protocol n')) (resource_id demo_seal) = Some (successor_seal demo_crypto demo_seal demo_capsule)
    \<and> Broadcast (GClosure demo_capsule cl) \<in> set (g_outbox n')
    \<and> run_section demo_crypto (Finish (capsule_id demo_capsule)) [] n' = ([], n'')
    \<and> (\<forall>t. map_of (g_pending demo_waiting) (capsule_id demo_capsule) = Some (demo_capsule, t) \<longrightarrow>
         Answer (Finalized (capsule_id demo_capsule) (c_proof_id cl) (successor_seal demo_crypto demo_seal demo_capsule)) \<in> set (g_outbox n''))"
    by (rule quorum_closes [where W = "{}"])
      (use good in \<open>simp_all add: same r demo_wf demo_threshold pool_ok_def spendable_def works_def has_conflict_def
        has_key_def member_weight_def demo_member_def\<close>)
  then show ?thesis by (auto simp: same demo_next_def)
qed

end
