(* ===== verification/Gossip_Tasks.thy ===== *)
theory Gossip_Tasks
  imports Gossip_Live
begin

section \<open>Every task of a gossip node ends\<close>

text \<open>
  A handler is a task that takes one section at a time, while other tasks change the node in
  between. The size of the work left bounds the sections a task still takes, whatever the node looks
  like when it gets its turns; only \<open>_retry_pending\<close> loops, over a copy of the waiting capsules.
\<close>

fun work_size :: "gossip_work \<Rightarrow> nat" where
  "work_size (Retry waiting _) = 2 * length waiting + 2"
| "work_size _ = 1"

definition task_size :: "gossip_work list \<Rightarrow> nat" where
  "task_size ws = sum_list (map work_size ws)"

text \<open>What is left of a task after \<open>k\<close> sections, the i-th of which finds the node in state \<open>f i\<close>\<close>

fun task_after :: "crypto \<Rightarrow> (nat \<Rightarrow> gossip_node) \<Rightarrow> nat \<Rightarrow> gossip_work list \<Rightarrow> gossip_work list" where
  "task_after cr f 0 task = task"
| "task_after cr f (Suc k) task =
     task_after cr (\<lambda>i. f (Suc i)) k (case task of [] \<Rightarrow> [] | w # rest \<Rightarrow> fst (run_section cr w rest (f 0)))"

lemma task_size_simps [simp]:
  "task_size [] = 0" "task_size (w # ws) = work_size w + task_size ws"
  "task_size (ws @ ws') = task_size ws + task_size ws'"
  by (simp_all add: task_size_def)

lemma work_size_pos [simp]: "0 < work_size w"
  by (cases w) simp_all

lemma task_size_0: "task_size ws = 0 \<longleftrightarrow> ws = []"
  by (cases ws) simp_all

subsection \<open>What a section leaves behind\<close>

lemma finish_leaves: "finish_pending cid n = (Inr ws, n') \<Longrightarrow> ws = []"
  by (auto simp: finish_pending_def split: option.splits sum.splits prod.splits)

lemma expire_leaves: "expire cid t n = (Inr ws, n') \<Longrightarrow> ws = []"
  by (auto simp: expire_def split: option.splits if_splits)

lemma equivocate_leaves: "equivocate cr c n = (Inr ws, n') \<Longrightarrow> ws = []"
  by (auto simp: equivocate_def split: sum.splits)

lemma submit_leaves: "submit cr c n = (Inr ws, n') \<Longrightarrow> task_size ws \<le> 1"
  by (auto simp: submit_def thenS_def split: if_splits option.splits sum.splits prod.splits)

lemma on_capsule_leaves: "on_capsule cr c n = (Inr ws, n') \<Longrightarrow> task_size ws \<le> 1"
  by (auto simp: on_capsule_def thenS_def
      split: if_splits sum.splits prod.splits gossip_error.splits mosaic_error.splits)

lemma try_close_leaves: "try_close cr c n = (Inr ws, n') \<Longrightarrow> task_size ws \<le> 1"
  by (auto simp: try_close_def split: if_splits sum.splits prod.splits dest: finish_leaves)

lemma on_receipt_leaves: "on_receipt cr r n = (Inr ws, n') \<Longrightarrow> task_size ws \<le> 1"
  by (auto simp: on_receipt_def thenS_def split: if_splits sum.splits prod.splits option.splits
      dest: try_close_leaves)

lemma on_store_waiting: "keeps (\<lambda>n. g_waiting n = b) (on_store f)"
  by (rule keepsI) (auto simp: on_store_def split: option.splits prod.splits sum.splits)

lemma on_protocol_waiting: "keeps (\<lambda>n. g_waiting n = b) (on_protocol f)"
  by (rule keepsI) (auto simp: on_protocol_def split: prod.splits sum.splits)

lemma persist_waiting: "keeps (\<lambda>n. g_waiting n = b) (persist kind key v)"
  unfolding persist_def by (rule on_store_waiting)

lemma close_with_waiting: "keeps (\<lambda>n. g_waiting n = b) (close_with cr c cl)"
  unfolding close_with_def persist_closure_def
  by (intro keeps_thenS keeps_pair on_protocol_waiting persist_waiting on_store_waiting)

lemma on_closure_leaves:
  assumes "on_closure cr c cl n = (Inr ws, n')"
  shows "task_size ws \<le> 2 * length (g_waiting n) + 2"
proof -
  obtain q m where q: "persist_capsule c (put_capsule c n) = (q, m)" by fastforce
  have m: "g_waiting m = g_waiting n"
    using q unfolding persist_capsule_def by (rule keepsD [OF persist_waiting, rotated]) (simp add: put_capsule_def)
  obtain q2 m2 where q2: "close_with cr c cl m = (q2, m2)" by fastforce
  have "g_waiting m2 = g_waiting n"
    using keepsD [OF close_with_waiting m q2] .
  with assms q q2 show ?thesis
    by (auto simp: on_closure_def thenS_def split: sum.splits)
qed

lemma retry_leaves: "retry_next cr waiting cid n = (Inr ws, n') \<Longrightarrow> task_size ws < 2 * length waiting + 2"
  by (auto simp: retry_next_def thenS_def split: list.splits option.splits if_splits sum.splits prod.splits
      dest!: on_capsule_leaves)

lemma deliver_leaves: "deliver cr m n = (Inr ws, n') \<Longrightarrow> task_size ws \<le> 2 * length (g_waiting n) + 2"
  by (cases m) (auto dest: on_capsule_leaves on_receipt_leaves on_closure_leaves)

subsection \<open>Tasks end\<close>

text \<open>Work that starts a task, and work that is left over\<close>

fun is_start :: "gossip_work \<Rightarrow> bool" where
  "is_start (Deliver _) = True"
| "is_start (Submit _) = True"
| "is_start _ = False"

lemma leftover_smaller: "\<not> is_start w \<Longrightarrow> section_of cr w n = (Inr ws, n') \<Longrightarrow> task_size ws < work_size w"
  by (cases w) (auto dest: equivocate_leaves finish_leaves expire_leaves retry_leaves)

lemma on_capsule_no_start: "on_capsule cr c n = (Inr ws, n') \<Longrightarrow> \<not> list_ex is_start ws"
  by (auto simp: on_capsule_def thenS_def
      split: if_splits sum.splits prod.splits gossip_error.splits mosaic_error.splits)

lemma try_close_no_start: "try_close cr c n = (Inr ws, n') \<Longrightarrow> \<not> list_ex is_start ws"
  by (auto simp: try_close_def split: if_splits sum.splits prod.splits dest: finish_leaves)

lemma deliver_no_start: "deliver cr m n = (Inr ws, n') \<Longrightarrow> \<not> list_ex is_start ws"
proof (cases m)
  case (GReceipt r)
  assume "deliver cr m n = (Inr ws, n')"
  with GReceipt show ?thesis
    by (auto simp: on_receipt_def thenS_def split: if_splits sum.splits prod.splits option.splits
        dest: try_close_no_start)
next
  case (GClosure c cl)
  assume "deliver cr m n = (Inr ws, n')"
  with GClosure show ?thesis
    by (auto simp: on_closure_def thenS_def split: sum.splits prod.splits)
qed (auto dest: on_capsule_no_start)

lemma section_no_start: "section_of cr w n = (Inr ws, n') \<Longrightarrow> \<not> list_ex is_start ws"
proof (cases w)
  case (Submit c)
  assume "section_of cr w n = (Inr ws, n')"
  with Submit show ?thesis
    by (auto simp: submit_def thenS_def split: if_splits option.splits sum.splits prod.splits)
next
  case (Retry waiting cid)
  assume "section_of cr w n = (Inr ws, n')"
  with Retry show ?thesis
    by (auto simp: retry_next_def elim!: thenS_Inr split: list.splits option.splits if_splits
        dest!: on_capsule_no_start)
qed (auto dest: deliver_no_start equivocate_leaves finish_leaves expire_leaves)

lemma leftover_shrinks:
  assumes "\<not> list_ex is_start task" and "task_size task \<le> k"
  shows "task_after cr f k task = []"
  using assms
proof (induction k arbitrary: f task)
  case 0
  then show ?case by (simp add: task_size_0)
next
  case (Suc k)
  show ?case
  proof (cases task)
    case Nil
    with Suc.IH [of "[]"] show ?thesis by simp
  next
    case (Cons w rest)
    let ?next = "fst (run_section cr w rest (f 0))"
    have "\<not> list_ex is_start ?next" "task_size ?next \<le> k"
      using Suc.prems Cons leftover_smaller [of w cr "f 0"] section_no_start [of cr w "f 0"]
      by (force simp: run_section_def split: prod.splits sum.splits)+
    with Suc.IH [of ?next] Cons show ?thesis by simp
  qed
qed

text \<open>
  C14. Every task ends. A handler of a message, or of a submission, has no work left after at most
  \<open>2w + 3\<close> sections, where \<open>w\<close> capsules wait on the node when it starts, whatever state the other
  tasks leave the node in between its sections: no message makes a node loop, and a closure message
  retries each waiting capsule once.
\<close>

theorem gossip_tasks_end:
  "task_after cr f (2 * length (g_waiting (f 0)) + 3) [Deliver m] = []
   \<and> task_after cr f 2 [Submit c] = []"
proof -
  let ?k = "2 * length (g_waiting (f 0)) + 2"
  let ?next = "fst (run_section cr (Deliver m) [] (f 0))"
  have "\<not> list_ex is_start ?next" "task_size ?next \<le> ?k"
    using deliver_leaves [of cr m "f 0"] deliver_no_start [of cr m "f 0"]
    by (force simp: run_section_def split: prod.splits sum.splits)+
  then have "task_after cr (\<lambda>i. f (Suc i)) ?k ?next = []" by (rule leftover_shrinks)
  then have "task_after cr f (Suc ?k) [Deliver m] = []"
    by (simp only: task_after.simps list.case)
  moreover have "\<not> list_ex is_start (fst (run_section cr (Submit c) [] (f 0)))"
    "task_size (fst (run_section cr (Submit c) [] (f 0))) \<le> Suc 0"
    using submit_leaves [of cr c "f 0"] section_no_start [of cr "Submit c" "f 0"]
    by (force simp: run_section_def split: prod.splits sum.splits)+
  then have "task_after cr f (Suc (Suc 0)) [Submit c] = []"
    using leftover_shrinks [of "fst (run_section cr (Submit c) [] (f 0))" "Suc 0" cr "\<lambda>i. f (Suc i)"] by simp
  ultimately show ?thesis
    by (simp add: eval_nat_numeral)
qed

end
