(* ===== verification/Randomness.thy ===== *)
theory Randomness
  imports Selection Wire_Base
begin

section \<open>Settling a randomness round (mosaic/randomness.py)\<close>

text \<open>
  \<open>RandomnessIncentiveManager.settle_round\<close> works on a membership manager and a settlement ledger,
  which it changes as it goes: what a call has done before an exception stays done. The state of the
  round is the pair of the two. \<open>SettlementError\<close> and \<open>MembershipError\<close> are reported as
  \<open>RandomnessIncentiveError\<close>; other exceptions of the manager pass.
\<close>

datatype randomness_error =
    RandomnessIncentiveError string
  | RandomnessMembership membership_error
  | RandomnessKeyError string

record round_settlement =
  rs_epoch :: int
  rs_round :: int
  rs_beacon :: randomness_beacon
  rs_committed :: "string list"
  rs_revealed :: "string list"
  rs_non_revealed :: "string list"
  rs_reward_events :: "string list"
  rs_penalty_events :: "string list"
  rs_id :: string

type_synonym round_state = "manager \<times> ledger"
type_synonym 'a r_outcome = "(round_state, randomness_error, 'a) outcome"

definition as_incentive_error :: "membership_error \<Rightarrow> randomness_error" where
  "as_incentive_error e = (case e of MembershipError msg \<Rightarrow> RandomnessIncentiveError msg | _ \<Rightarrow> RandomnessMembership e)"

definition on_round_ledger :: "(ledger \<Rightarrow> 'a l_outcome) \<Rightarrow> round_state \<Rightarrow> 'a r_outcome" where
  "on_round_ledger f s = (case f (snd s) of
     (Inl (SettlementError msg), l) \<Rightarrow> (Inl (RandomnessIncentiveError msg), (fst s, l))
   | (Inr a, l) \<Rightarrow> (Inr a, (fst s, l)))"

definition on_round_manager :: "(manager \<Rightarrow> 'a m_outcome) \<Rightarrow> round_state \<Rightarrow> 'a r_outcome" where
  "on_round_manager f s = (case f (fst s) of
     (Inl e, m) \<Rightarrow> (Inl (as_incentive_error e), (m, snd s)) | (Inr a, m) \<Rightarrow> (Inr a, (m, snd s)))"

definition epoch_of :: "manager \<Rightarrow> int" where
  "epoch_of m = sn_epoch (m_snapshot m)"

definition non_reveal_evidence :: "int \<Rightarrow> int \<Rightarrow> string \<Rightarrow> string" where
  "non_reveal_evidence ep rnd vid =
     ''MOSAIC/NON-REVEAL/'' @ int_str ep @ ''/'' @ int_str rnd @ ''/'' @ vid"

text \<open>The loop over \<open>non_revealed_ids\<close>: the bond is slashed, then the stake.\<close>

definition penalize_one :: "crypto \<Rightarrow> string \<Rightarrow> int \<Rightarrow> int \<Rightarrow> string \<Rightarrow> round_state \<Rightarrow> (string list) r_outcome" where
  "penalize_one cr bid rnd penalty vid s =
     (let ep = epoch_of (fst s) in
      thenS (on_round_ledger (settle_slash cr bid penalty ep (non_reveal_evidence ep rnd vid) None)) (\<lambda>evs.
      thenS (\<lambda>s. on_round_manager (penalize_non_reveal cr vid (epoch_of (fst s)) rnd penalty) s) (\<lambda>_ s.
        (Inr (map ev_id evs), s))) s)"

fun penalize_all ::
  "crypto \<Rightarrow> (string, string) dict \<Rightarrow> int \<Rightarrow> int \<Rightarrow> string list \<Rightarrow> round_state \<Rightarrow> (string list) r_outcome" where
  "penalize_all cr vb rnd penalty [] s = (Inr [], s)"
| "penalize_all cr vb rnd penalty (vid # vids) s =
     (if penalty \<le> 0 then penalize_all cr vb rnd penalty vids s
      else (case map_of vb vid of
        None \<Rightarrow> (Inl (RandomnessKeyError vid), s)
      | Some bid \<Rightarrow> thenS (penalize_one cr bid rnd penalty vid) (\<lambda>ids.
          thenS (penalize_all cr vb rnd penalty vids) (\<lambda>rest s. (Inr (ids @ rest), s))) s))"

definition lookup_key :: "(string, 'a) dict \<Rightarrow> string \<Rightarrow> randomness_error + 'a" where
  "lookup_key d k = (case map_of d k of None \<Rightarrow> Inl (RandomnessKeyError k) | Some a \<Rightarrow> Inr a)"

text \<open>Reveals of a quorum make the beacon; with fewer, the commitments do.\<close>

definition round_beacon ::
  "crypto \<Rightarrow> manager \<Rightarrow> (string, randomness_commitment) dict \<Rightarrow> (string, randomness_reveal) dict \<Rightarrow> int \<Rightarrow>
   randomness_error + randomness_beacon" where
  "round_beacon cr m commitment_map reveal_map rnd =
     bindE (sum_checked (\<lambda>vid. bindE (lookup_key (by_id (m_snapshot m)) vid) (\<lambda>v. Inr (v_stake v)))
              (dict_keys reveal_map)) (\<lambda>reveal_weight.
       case (if snapshot_threshold (m_snapshot m) \<le> reveal_weight
             then make_beacon cr m (dict_values commitment_map) (dict_values reveal_map) rnd
             else make_fallback_beacon cr m (dict_values commitment_map) rnd) of
         Inl e \<Rightarrow> Inl (as_incentive_error e) | Inr b \<Rightarrow> Inr b)"

definition pay_reveals ::
  "crypto \<Rightarrow> (string, string) dict \<Rightarrow> string list \<Rightarrow> int \<Rightarrow> int \<Rightarrow> round_state \<Rightarrow> (string list) r_outcome" where
  "pay_reveals cr vb revealers rnd reward s =
     (if reward \<noteq> 0 \<and> revealers \<noteq> [] then
        (case mapE (lookup_key vb) revealers of
           Inl e \<Rightarrow> (Inl e, s)
         | Inr bids \<Rightarrow>
             thenS (on_round_ledger (distribute_rewards cr (epoch_of (fst s) * 1000000 + rnd)
               (reward * int (length revealers)) (map (\<lambda>(b, _). (b, 1)) (dict_of (\<lambda>b. b) bids))))
               (\<lambda>evs s. (Inr (map ev_id evs), s)) s)
      else (Inr [], s))"

text \<open>The checks before the first effect, in their order.\<close>

definition round_refused ::
  "(string, randomness_commitment) dict \<Rightarrow> (string, randomness_reveal) dict \<Rightarrow> (string, string) dict \<Rightarrow> int \<Rightarrow> int \<Rightarrow>
   round_state \<Rightarrow> string option" where
  "round_refused commitment_map reveal_map vb reward penalty s =
     (let committed = set (dict_keys commitment_map); revealers = set (dict_keys reveal_map) in
      if reward < 0 \<or> penalty < 0 then Some ''incentive amounts cannot be negative''
      else if commitment_map = [] then Some ''randomness round has no commitments''
      else if \<not> revealers \<subseteq> committed then Some ''reveal is not backed by a commitment''
      else if \<not> committed \<subseteq> set (dict_keys (by_id (m_snapshot (fst s))))
      then Some ''commitment is not from active validator''
      else if \<not> committed \<subseteq> set (dict_keys vb) then Some ''missing settlement bond mapping''
      else if reward \<noteq> 0 \<and> balance_of (snd s) (l_treasury (snd s)) < reward * int (length reveal_map)
      then Some ''treasury cannot fund reveal rewards''
      else None)"

definition settle_round ::
  "crypto \<Rightarrow> randomness_commitment list \<Rightarrow> randomness_reveal list \<Rightarrow> (string, string) dict \<Rightarrow> int \<Rightarrow> int \<Rightarrow> int \<Rightarrow>
   round_state \<Rightarrow> round_settlement r_outcome" where
  "settle_round cr commitments reveals vb rnd reward penalty s =
     (let commitment_map = dict_of rc_validator_id commitments;
          reveal_map = dict_of rr_validator_id reveals;
          committed = dict_keys commitment_map; revealers = dict_keys reveal_map;
          missing = sort (filter (\<lambda>vid. vid \<notin> set revealers) committed) in
      case round_refused commitment_map reveal_map vb reward penalty s of
        Some msg \<Rightarrow> (Inl (RandomnessIncentiveError msg), s)
      | None \<Rightarrow>
          (case round_beacon cr (fst s) commitment_map reveal_map rnd of
             Inl e \<Rightarrow> (Inl e, s)
           | Inr beacon \<Rightarrow>
               thenS (penalize_all cr vb rnd penalty missing) (\<lambda>penalties.
               thenS (pay_reveals cr vb revealers rnd reward) (\<lambda>rewards s.
                 (Inr \<lparr>rs_epoch = epoch_of (fst s), rs_round = rnd, rs_beacon = beacon,
                       rs_committed = sort committed, rs_revealed = sort revealers, rs_non_revealed = missing,
                       rs_reward_events = rewards, rs_penalty_events = penalties,
                       rs_id = ''MOSAIC/RANDOMNESS-SETTLEMENT/'' @ int_str (epoch_of (fst s)) @ ''/'' @ int_str rnd\<rparr>,
                  s))) s))"

end
