(* ===== verification/Beacon.thy ===== *)
theory Beacon
  imports Randomness Persistence
begin

section \<open>Beacon rounds and onboarding (mosaic/beacon.py, mosaic/onboarding.py)\<close>

text \<open>
  \<open>BeaconRoundCoordinator\<close> and \<open>AdmissionCoordinator\<close>. As \<open>load_node\<close> wires them, they share one
  membership manager, the ledger this manager settles with, and one durable store; the record
  \<open>services\<close> holds the three and what the beacon rounds have gathered. Without a ledger the first
  use of it raises \<open>AttributeError\<close>.
\<close>

datatype service_error =
    BeaconRoundError string
  | OnboardingError string
  | ServiceMembership membership_error
  | ServiceRandomness randomness_error
  | ServiceStorage storage_error
  | ServiceWire wire_error
  | ServiceAttributeError

type_synonym round_key = "int \<times> int \<times> string"

record services =
  sv_manager :: manager
  sv_store :: "durable_store option"
  sv_commitments :: "(round_key, randomness_commitment) dict"
  sv_reveals :: "(round_key, randomness_reveal) dict"
  sv_settlements :: "(int \<times> int, round_settlement) dict"

type_synonym 'a v_outcome = "(services, service_error, 'a) outcome"

definition services_init :: "manager \<Rightarrow> durable_store option \<Rightarrow> services" where
  "services_init m db = \<lparr>sv_manager = m, sv_store = db, sv_commitments = [], sv_reveals = [], sv_settlements = []\<rparr>"

definition raise_v :: "service_error \<Rightarrow> services \<Rightarrow> 'a v_outcome" where
  "raise_v e s = (Inl e, s)"

definition save :: "(durable_store \<Rightarrow> unit s_outcome) \<Rightarrow> services \<Rightarrow> unit v_outcome" where
  "save f s = (case sv_store s of
     None \<Rightarrow> (Inr (), s)
   | Some db \<Rightarrow> (case f db of
       (Inl e, db') \<Rightarrow> (Inl (ServiceStorage e), s\<lparr>sv_store := Some db'\<rparr>)
     | (Inr _, db') \<Rightarrow> (Inr (), s\<lparr>sv_store := Some db'\<rparr>)))"

definition ledger_of :: "services \<Rightarrow> service_error + ledger" where
  "ledger_of s = (case settlement (sv_manager s) of None \<Rightarrow> Inl ServiceAttributeError | Some l \<Rightarrow> Inr l)"

definition save_ledger :: "crypto \<Rightarrow> services \<Rightarrow> unit v_outcome" where
  "save_ledger cr s = (case ledger_of s of Inl e \<Rightarrow> (Inl e, s) | Inr l \<Rightarrow> save (ledger_persist cr l) s)"

definition commitment_key :: "randomness_commitment \<Rightarrow> round_key" where
  "commitment_key c = (rc_epoch c, rc_round c, rc_validator_id c)"

definition reveal_key :: "randomness_reveal \<Rightarrow> round_key" where
  "reveal_key r = (rr_epoch r, rr_round r, rr_validator_id r)"

subsection \<open>Commitments and reveals\<close>

definition submit_commitment :: "crypto \<Rightarrow> randomness_commitment \<Rightarrow> services \<Rightarrow> unit v_outcome" where
  "submit_commitment cr c s =
     (case map_of (by_id (m_snapshot (sv_manager s))) (rc_validator_id c) of
        None \<Rightarrow> raise_v (BeaconRoundError ''commitment validator is not active'') s
      | Some v \<Rightarrow>
          if rc_epoch c \<noteq> epoch_of (sv_manager s)
          then raise_v (BeaconRoundError ''commitment epoch is not current'') s
          else if rc_round c < 0 \<or> rc_commitment c = []
          then raise_v (BeaconRoundError ''invalid commitment round'') s
          else if \<not> verify cr (v_public_key v) (canonical_bytes (commitment_statement c)) (rc_signature c)
          then raise_v (BeaconRoundError ''invalid commitment signature'') s
          else if (case map_of (sv_commitments s) (commitment_key c) of None \<Rightarrow> False | Some old \<Rightarrow> old \<noteq> c)
          then raise_v (BeaconRoundError ''validator equivocated in commitment round'') s
          else save (store_put ''beacon_commitment'' (digest cr (commitment_statement c)) (commitment_to_wire c) True)
                 (s\<lparr>sv_commitments := AList.update (commitment_key c) c (sv_commitments s)\<rparr>))"

definition submit_reveal :: "crypto \<Rightarrow> randomness_reveal \<Rightarrow> services \<Rightarrow> unit v_outcome" where
  "submit_reveal cr r s =
     (case map_of (by_id (m_snapshot (sv_manager s))) (rr_validator_id r) of
        None \<Rightarrow> raise_v (BeaconRoundError ''reveal validator is not active'') s
      | Some v \<Rightarrow>
          if (case map_of (sv_commitments s) (reveal_key r) of
                None \<Rightarrow> True | Some c \<Rightarrow> rc_commitment c \<noteq> rr_commitment r)
          then raise_v (BeaconRoundError ''reveal has no matching commitment'') s
          else if \<not> verify cr (v_public_key v) (canonical_bytes (reveal_statement r)) (rr_signature r)
          then raise_v (BeaconRoundError ''invalid reveal signature'') s
          else if rr_commitment r \<noteq> commitment_of cr (rr_secret r)
          then raise_v (BeaconRoundError ''reveal secret does not match commitment'') s
          else if (case map_of (sv_reveals s) (reveal_key r) of None \<Rightarrow> False | Some old \<Rightarrow> old \<noteq> r)
          then raise_v (BeaconRoundError ''validator equivocated in reveal round'') s
          else save (store_put ''beacon_reveal'' (digest cr (reveal_statement r)) (reveal_to_wire r) True)
                 (s\<lparr>sv_reveals := AList.update (reveal_key r) r (sv_reveals s)\<rparr>))"

subsection \<open>Closing a round\<close>

definition round_items :: "int \<Rightarrow> int \<Rightarrow> (round_key, 'a) dict \<Rightarrow> 'a list" where
  "round_items ep rnd d = map snd (filter (\<lambda>((e, r, _), _). e = ep \<and> r = rnd) d)"

definition settlement_json :: "crypto \<Rightarrow> round_settlement \<Rightarrow> manager \<Rightarrow> ledger \<Rightarrow> json" where
  "settlement_json cr t m l = JObj
     [(''epoch'', JInt (rs_epoch t)), (''round'', JInt (rs_round t)),
      (''mode'', JStr (rb_mode (rs_beacon t))), (''proof_id'', JStr (rb_proof_id (rs_beacon t))),
      (''beacon_value'', JStr (hex (rb_value (rs_beacon t)))),
      (''committed_ids'', JArr (map JStr (rs_committed t))), (''revealed_ids'', JArr (map JStr (rs_revealed t))),
      (''non_revealed_ids'', JArr (map JStr (rs_non_revealed t))),
      (''reward_event_ids'', JArr (map JStr (rs_reward_events t))),
      (''penalty_event_ids'', JArr (map JStr (rs_penalty_events t))),
      (''membership_root'', JStr (sn_root (m_snapshot m))), (''settlement_root'', JStr (settlement_root cr l))]"

definition settle_services ::
  "crypto \<Rightarrow> int \<Rightarrow> int \<Rightarrow> int \<Rightarrow> services \<Rightarrow> round_settlement v_outcome" where
  "settle_services cr rnd reward penalty s =
     (let ep = epoch_of (sv_manager s) in
      case ledger_of s of
        Inl e \<Rightarrow> (Inl e, s)
      | Inr l \<Rightarrow>
          (case settle_round cr (round_items ep rnd (sv_commitments s)) (round_items ep rnd (sv_reveals s))
                  (validator_bonds (sv_manager s)) rnd reward penalty (sv_manager s, l) of
             (r, (m, l')) \<Rightarrow>
               (case r of
                  Inl (RandomnessIncentiveError msg) \<Rightarrow> Inl (BeaconRoundError msg)
                | Inl e \<Rightarrow> Inl (ServiceRandomness e)
                | Inr t \<Rightarrow> Inr t, s\<lparr>sv_manager := m\<lparr>settlement := Some l'\<rparr>\<rparr>)))"

definition beacon_finalize ::
  "crypto \<Rightarrow> int \<Rightarrow> int \<Rightarrow> int \<Rightarrow> services \<Rightarrow> round_settlement v_outcome" where
  "beacon_finalize cr rnd reward penalty s =
     (let ep = epoch_of (sv_manager s) in
      case map_of (sv_settlements s) (ep, rnd) of
        Some t \<Rightarrow> (Inr t, s)
      | None \<Rightarrow>
          if round_items ep rnd (sv_commitments s) = []
          then raise_v (BeaconRoundError ''cannot finalize empty beacon round'') s
          else thenS (settle_services cr rnd reward penalty) (\<lambda>t s.
            let s1 = s\<lparr>sv_settlements := AList.update (ep, rnd) t (sv_settlements s)\<rparr> in
            if sv_store s1 = None then (Inr t, s1)
            else thenS (save_ledger cr) (\<lambda>_ s.
              case ledger_of s of
                Inl e \<Rightarrow> (Inl e, s)
              | Inr l \<Rightarrow> thenS (save (store_put ''beacon_round'' (rs_id t) (settlement_json cr t (sv_manager s) l) True))
                  (\<lambda>_ s. (Inr t, s)) s) s1) s)"

subsection \<open>Onboarding\<close>

definition certificate_json :: "admission_certificate \<Rightarrow> json" where
  "certificate_json c = JObj
     [(''request_digest'', JStr (ac_request_digest c)), (''epoch'', JInt (ac_epoch c)),
      (''approver_ids'', JArr (map JStr (ac_approver_ids c))), (''signatures'', JArr []),
      (''certificate_id'', JStr (ac_certificate_id c))]"

definition onboarding_root :: "crypto \<Rightarrow> manager \<Rightarrow> ledger \<Rightarrow> string" where
  "onboarding_root cr m l = digest cr (JObj
     [(''membership_root'', JStr (sn_root (m_snapshot m))), (''settlement_root'', JStr (settlement_root cr l))])"

definition admission_row :: "crypto \<Rightarrow> admission_request \<Rightarrow> stake_bond \<Rightarrow> admission_certificate \<Rightarrow> manager \<Rightarrow> ledger \<Rightarrow> json" where
  "admission_row cr r b c m l = JObj
     [(''protocol'', JStr ''MOSAIC/ONBOARDING/v1''), (''request'', admission_to_wire r), (''bond'', bond_to_wire b),
      (''certificate'', certificate_json c), (''state_root'', JStr (settlement_root cr l)),
      (''membership_root'', JStr (sn_root (m_snapshot m)))]"

text \<open>\<open>membership.admit\<close> with its \<open>MembershipError\<close> and \<open>SettlementError\<close> reported as \<open>OnboardingError\<close>.\<close>

definition on_membership :: "(manager \<Rightarrow> 'a m_outcome) \<Rightarrow> services \<Rightarrow> 'a v_outcome" where
  "on_membership f s = (case f (sv_manager s) of
     (Inl e, m) \<Rightarrow> (Inl (case e of
         MembershipError msg \<Rightarrow> OnboardingError msg
       | FromSettlement (SettlementError msg) \<Rightarrow> OnboardingError msg
       | _ \<Rightarrow> ServiceMembership e), s\<lparr>sv_manager := m\<rparr>)
   | (Inr a, m) \<Rightarrow> (Inr a, s\<lparr>sv_manager := m\<rparr>))"

definition onboard ::
  "crypto \<Rightarrow> admission_request \<Rightarrow> stake_bond \<Rightarrow> string list \<Rightarrow> services \<Rightarrow> admission_certificate v_outcome" where
  "onboard cr r b approvers s =
     (if \<not> admission_verify cr r then raise_v (OnboardingError ''invalid applicant signature'') s
      else if \<not> bond_verify cr b then raise_v (OnboardingError ''invalid stake bond signature'') s
      else if ar_bond_id r \<noteq> Some (sb_bond_id b)
      then raise_v (OnboardingError ''request and bond ids do not match'') s
      else if ar_public_key r \<noteq> sb_owner_public_key b \<or> ar_stake r \<noteq> sb_amount b
      then raise_v (OnboardingError ''request and bond owner or amount mismatch'') s
      else (case ledger_of s of
        Inl e \<Rightarrow> (Inl e, s)
      | Inr l \<Rightarrow>
          if balance_of l (sb_owner b) < sb_amount b
          then raise_v (OnboardingError ''applicant has insufficient settled balance'') s
          else thenS (on_membership (admit cr r approvers (Some b))) (\<lambda>c s.
            if sv_store s = None
            then raise_v (OnboardingError ''onboarding coordinator is not bound to durable store'') s
            else thenS (save_ledger cr) (\<lambda>_ s.
              case ledger_of s of
                Inl e \<Rightarrow> (Inl e, s)
              | Inr l \<Rightarrow> thenS (save (store_put ''onboarding'' (ac_certificate_id c)
                  (admission_row cr r b c (sv_manager s) l) True)) (\<lambda>_ s. (Inr c, s)) s) s) s))"

text \<open>The loop of \<open>restore_from_store\<close>; its errors are those of the rows and of \<open>restore_admission\<close>.\<close>

fun restore_admissions :: "crypto \<Rightarrow> (string \<times> json) list \<Rightarrow> nat \<Rightarrow> services \<Rightarrow> nat v_outcome" where
  "restore_admissions cr [] k s = (Inr k, s)"
| "restore_admissions cr ((_, payload) # rest) k s =
     (case bindE (jfield ''request'' payload) admission_from_wire of
        Inl e \<Rightarrow> (Inl (ServiceWire e), s)
      | Inr r \<Rightarrow> (case bindE (jfield ''bond'' payload) bond_from_wire of
          Inl e \<Rightarrow> (Inl (ServiceWire e), s)
        | Inr b \<Rightarrow> (case restore_admission cr r b (sv_manager s) of
            (Inl e, m) \<Rightarrow> (Inl (ServiceMembership e), s\<lparr>sv_manager := m\<rparr>)
          | (Inr _, m) \<Rightarrow> restore_admissions cr rest (k + 1) (s\<lparr>sv_manager := m\<rparr>))))"

text \<open>
  The two roots compared at the end are the same digest of the same state, computed twice.
\<close>

definition onboarding_restore :: "crypto \<Rightarrow> services \<Rightarrow> nat v_outcome" where
  "onboarding_restore cr s = (case sv_store s of
     None \<Rightarrow> raise_v (OnboardingError ''onboarding coordinator is not bound to durable store'') s
   | Some db \<Rightarrow> thenS (restore_admissions cr (store_items db ''onboarding'') 0) (\<lambda>k s.
       if k = 0 then (Inr k, s)
       else (case ledger_of s of
         Inl e \<Rightarrow> (Inl e, s)
       | Inr l \<Rightarrow>
           if onboarding_root cr (sv_manager s) l \<noteq> digest cr (JObj
                [(''membership_root'', JStr (sn_root (m_snapshot (sv_manager s)))),
                 (''settlement_root'', JStr (settlement_root cr l))])
           then raise_v (OnboardingError ''restored onboarding root mismatch'') s
           else (Inr k, s))) s)"

end
