(* ===== verification/Security.thy ===== *)
theory Security
  imports Crypto Complex_Main
begin

section \<open>Operational security helpers (mosaic/security.py)\<close>

text \<open>
  The replay window, the token bucket and the capability vault. Times and token counts are Python
  floats; they are rationals here, so rounding is not modelled. AES-GCM and HKDF are the parameters
  \<open>aead\<close> and \<open>hkdf\<close>; the nonce that \<open>secrets.token_bytes\<close> draws is an argument.
\<close>

datatype security_error = SecurityError string

subsection \<open>Replay guard\<close>

text \<open>The annotated type of an id is \<open>str\<close>; the node passes what a message holds, so the ids are a type parameter.\<close>

record 'k replay_guard =
  max_entries :: nat
  ttl_seconds :: rat
  seen_at :: "('k, rat) dict"

definition replay_init :: "nat \<Rightarrow> rat \<Rightarrow> 'k replay_guard" where
  "replay_init n ttl = \<lparr>max_entries = n, ttl_seconds = ttl, seen_at = []\<rparr>"

text \<open>Expired entries go first, the oldest ones last, when there are more than \<open>max_entries\<close>.\<close>

definition replay_accept :: "'k \<Rightarrow> rat \<Rightarrow> 'k replay_guard \<Rightarrow> bool \<times> 'k replay_guard" where
  "replay_accept mid now g =
     (let live = filter (\<lambda>(_, t). \<not> now - t > ttl_seconds g) (seen_at g) in
      if has_key live mid then (False, g\<lparr>seen_at := live\<rparr>)
      else (let entries = live @ [(mid, now)]
            in (True, g\<lparr>seen_at := drop (length entries - max_entries g) entries\<rparr>)))"

subsection \<open>Token bucket\<close>

record token_bucket =
  capacity :: rat
  refill :: rat
  tokens :: rat
  updated_at :: rat

definition bucket_init :: "rat \<Rightarrow> rat \<Rightarrow> rat \<Rightarrow> security_error + token_bucket" where
  "bucket_init cap ref now =
     (if cap \<le> 0 \<or> ref \<le> 0 then Inl (SecurityError ''bucket parameters must be positive'')
      else Inr \<lparr>capacity = cap, refill = ref, tokens = cap, updated_at = now\<rparr>)"

definition bucket_allow :: "rat \<Rightarrow> rat \<Rightarrow> token_bucket \<Rightarrow> (token_bucket, security_error, bool) outcome" where
  "bucket_allow amount now b =
     (if amount \<le> 0 then (Inl (SecurityError ''amount must be positive''), b)
      else (let available = min (capacity b) (tokens b + max 0 (now - updated_at b) * refill b)
            in if available < amount
               then (Inr False, b\<lparr>tokens := available, updated_at := now\<rparr>)
               else (Inr True, b\<lparr>tokens := available - amount, updated_at := now\<rparr>)))"

subsection \<open>Capability vault and node keys\<close>

record aead =
  aead_encrypt :: "string \<Rightarrow> string \<Rightarrow> string \<Rightarrow> string \<Rightarrow> string"
  aead_decrypt :: "string \<Rightarrow> string \<Rightarrow> string \<Rightarrow> string \<Rightarrow> string option"

record vault =
  vault_key :: string
  vault_items :: "(string, string \<times> string) dict"

type_synonym 'a vault_outcome = "(vault, security_error, 'a) outcome"

definition vault_init :: "string \<Rightarrow> security_error + vault" where
  "vault_init key =
     (if length key \<notin> {16, 24, 32} then Inl (SecurityError ''master key must be 128, 192 or 256 bits'')
      else Inr \<lparr>vault_key = key, vault_items = []\<rparr>)"

definition vault_put :: "aead \<Rightarrow> string \<Rightarrow> string \<Rightarrow> string \<Rightarrow> string \<Rightarrow> vault \<Rightarrow> vault" where
  "vault_put ae nonce cid secret ad v =
     v\<lparr>vault_items := AList.update cid (nonce, aead_encrypt ae (vault_key v) nonce secret ad) (vault_items v)\<rparr>"

definition vault_get :: "aead \<Rightarrow> string \<Rightarrow> string \<Rightarrow> vault \<Rightarrow> security_error + string" where
  "vault_get ae cid ad v =
     (case map_of (vault_items v) cid of
        None \<Rightarrow> Inl (SecurityError ''unknown capability'')
      | Some (nonce, ciphertext) \<Rightarrow>
          (case aead_decrypt ae (vault_key v) nonce ciphertext ad of
             None \<Rightarrow> Inl (SecurityError ''capability authentication failed'')
           | Some secret \<Rightarrow> Inr secret))"

definition vault_consume :: "aead \<Rightarrow> string \<Rightarrow> string \<Rightarrow> vault \<Rightarrow> string vault_outcome" where
  "vault_consume ae cid ad v =
     (case vault_get ae cid ad v of
        Inl e \<Rightarrow> (Inl e, v)
      | Inr secret \<Rightarrow> (Inr secret, v\<lparr>vault_items := AList.delete cid (vault_items v)\<rparr>))"

definition derive_node_key :: "(string \<Rightarrow> string \<Rightarrow> string) \<Rightarrow> string \<Rightarrow> string \<Rightarrow> int \<Rightarrow> security_error + string" where
  "derive_node_key hkdf master node_id ep =
     (if length master < 16 then Inl (SecurityError ''master key too short'')
      else Inr (hkdf master (''MOSAIC/NODE/'' @ node_id @ ''/'' @ int_str ep)))"

end
