(* ===== verification/Node.thy ===== *)
theory Node
  imports Gossip Availability_Node Beacon Security
begin

section \<open>A validator node: its services and its entry point (mosaic/network.py)\<close>

text \<open>
  The part of \<open>MosaicNode\<close> around the gossip handlers: \<open>_dispatch\<close>, the handlers for admission, beacon
  rounds and availability, and the checks of \<open>_handle\<close>. The gossip node holds the durable store; the
  services and the shard provider work on the same one, so a call hands it over and takes it back.
  What a handler broadcasts is appended to \<open>vn_outbox\<close>; the dispatch of a gossip message gives the work
  of a new task of the gossip model. Answers are values: texts of exceptions are their exceptions. The
  loop over sockets, byte counters and the status queue are not part of the state.
\<close>

datatype node_exception =
    NWire wire_error
  | NService service_error
  | NProvider provider_error
  | NAttribute

text \<open>\<open>except (KeyError, ValueError, \<dots>)\<close>: \<open>OverflowError\<close>, \<open>TypeError\<close> and \<open>StorageError\<close> pass.\<close>

definition wire_caught :: "wire_error \<Rightarrow> bool" where
  "wire_caught e = (case e of WireTypeError \<Rightarrow> False | _ \<Rightarrow> True)"

definition membership_caught :: "membership_error \<Rightarrow> bool" where
  "membership_caught e = (case e of OverflowError \<Rightarrow> False | _ \<Rightarrow> True)"

definition service_caught :: "service_error \<Rightarrow> bool" where
  "service_caught e = (case e of
     ServiceMembership m \<Rightarrow> membership_caught m
   | ServiceRandomness (RandomnessMembership m) \<Rightarrow> membership_caught m
   | ServiceStorage _ \<Rightarrow> False
   | ServiceWire w \<Rightarrow> wire_caught w
   | ServiceAttributeError \<Rightarrow> False
   | _ \<Rightarrow> True)"

definition provider_caught :: "provider_error \<Rightarrow> bool" where
  "provider_caught e = (case e of
     AvailabilityNetworkError _ \<Rightarrow> True
   | ProviderAvailability (AvailabilityError _) \<Rightarrow> True
   | ProviderAvailability (AvMosaicError _) \<Rightarrow> True
   | ProviderAvailability _ \<Rightarrow> False
   | ProviderStorage _ \<Rightarrow> False
   | ProviderWire w \<Rightarrow> wire_caught w)"

definition caught :: "node_exception \<Rightarrow> bool" where
  "caught e = (case e of
     NWire w \<Rightarrow> wire_caught w | NService v \<Rightarrow> service_caught v | NProvider v \<Rightarrow> provider_caught v | NAttribute \<Rightarrow> False)"

datatype node_message =
    NAdmission admission_request stake_bond
  | NCommitment randomness_commitment
  | NReveal randomness_reveal

datatype node_answer =
    Disabled string
  | Refused node_exception
  | Duplicate
  | AdmittedAs admission_certificate
  | CommitmentTaken randomness_commitment
  | RevealTaken randomness_reveal
  | RoundSettled round_settlement
  | ShardStored shard
  | ShardFetched shard
  | Sampled sampling_proof
  | Repaired "shard list"
  | MetricsAnswer
  | ShuttingDown
  | UnknownKind
  | NoAnswer "gossip_work list"

record validator_node =
  vn_gossip :: gossip_node
  vn_services :: services
  vn_onboards :: bool
  vn_beacons :: bool
  vn_provider :: "provider option"
  vn_requests :: "string set"
  vn_outbox :: "node_message list"
  vn_stopped :: bool

type_synonym 'a n_outcome = "(validator_node, node_exception, 'a) outcome"

definition node_bump :: "string \<Rightarrow> validator_node \<Rightarrow> validator_node" where
  "node_bump k n = n\<lparr>vn_gossip := bump k (vn_gossip n)\<rparr>"

definition node_emit :: "node_message \<Rightarrow> validator_node \<Rightarrow> validator_node" where
  "node_emit m n = n\<lparr>vn_outbox := vn_outbox n @ [m]\<rparr>"

definition on_services :: "(services \<Rightarrow> 'a v_outcome) \<Rightarrow> validator_node \<Rightarrow> 'a n_outcome" where
  "on_services f n = (case f ((vn_services n)\<lparr>sv_store := g_store (vn_gossip n)\<rparr>) of
     (r, s) \<Rightarrow> (case r of Inl e \<Rightarrow> Inl (NService e) | Inr a \<Rightarrow> Inr a,
       n\<lparr>vn_services := s, vn_gossip := (vn_gossip n)\<lparr>g_store := sv_store s\<rparr>\<rparr>))"

definition on_provider :: "provider \<Rightarrow> (provider \<Rightarrow> 'a Availability_Node.p_outcome) \<Rightarrow> validator_node \<Rightarrow> 'a n_outcome" where
  "on_provider p f n = (case f (p\<lparr>durable_shards := g_store (vn_gossip n)\<rparr>) of
     (r, q) \<Rightarrow> (case r of Inl e \<Rightarrow> Inl (NProvider e) | Inr a \<Rightarrow> Inr a,
       n\<lparr>vn_provider := Some q, vn_gossip := (vn_gossip n)\<lparr>g_store := durable_shards q\<rparr>\<rparr>))"

text \<open>The \<open>try\<close> of a handler: a caught exception is counted and answered.\<close>

definition try_answer :: "(validator_node \<Rightarrow> node_answer n_outcome) \<Rightarrow> validator_node \<Rightarrow> node_answer n_outcome" where
  "try_answer f n = (case f n of
     (Inl e, n') \<Rightarrow> if caught e then (Inr (Refused e), node_bump ''protocol_rejections'' n') else (Inl e, n')
   | (Inr a, n') \<Rightarrow> (Inr a, n'))"

definition read_field :: "(json \<Rightarrow> wire_error + 'a) \<Rightarrow> string \<Rightarrow> json \<Rightarrow> validator_node \<Rightarrow> 'a n_outcome" where
  "read_field f k msg n = (case bindE (jfield k msg) f of Inl e \<Rightarrow> (Inl (NWire e), n) | Inr a \<Rightarrow> (Inr a, n))"

text \<open>\<open>message.get("gossip")\<close> as a truth value, and \<open>int(message.get(k, default))\<close>\<close>

definition is_gossip :: "json \<Rightarrow> bool" where
  "is_gossip msg = (case jfield ''gossip'' msg of Inl _ \<Rightarrow> False | Inr v \<Rightarrow> truth v)"

definition int_or :: "int \<Rightarrow> string \<Rightarrow> json \<Rightarrow> validator_node \<Rightarrow> int n_outcome" where
  "int_or d k msg n = (case jfield k msg of
     Inl (WireKeyError _) \<Rightarrow> (Inr d, n)
   | Inl e \<Rightarrow> (Inl (NWire e), n)
   | Inr v \<Rightarrow> (case as_integer v of Inl e \<Rightarrow> (Inl (NWire e), n) | Inr i \<Rightarrow> (Inr i, n)))"

subsection \<open>Admission and beacon rounds\<close>

definition request_key :: "crypto \<Rightarrow> admission_request \<Rightarrow> string" where
  "request_key cr r = digest cr (JObj (admission_statement r @ [(''signature'', JStr (hex (ar_signature r)))]))"

definition persist_admission ::
  "admission_request \<Rightarrow> stake_bond \<Rightarrow> admission_certificate \<Rightarrow> validator_node \<Rightarrow> unit n_outcome" where
  "persist_admission r b c =
     on_services (save (store_put ''admission'' (ac_certificate_id c)
       (JObj [(''request'', admission_to_wire r), (''bond'', bond_to_wire b), (''certificate'', certificate_json c)]) True))"

definition node_admit :: "crypto \<Rightarrow> json \<Rightarrow> validator_node \<Rightarrow> node_answer n_outcome" where
  "node_admit cr msg n =
     (if \<not> vn_onboards n then (Inr (Disabled ''onboarding is disabled''), n)
      else try_answer (
        thenS (read_field admission_from_wire ''request'' msg) (\<lambda>r.
        thenS (read_field bond_from_wire ''bond'' msg) (\<lambda>b n.
          if request_key cr r \<in> vn_requests n then (Inr Duplicate, n)
          else thenS (on_services (onboard cr r b [])) (\<lambda>c n.
            thenS (persist_admission r b c) (\<lambda>_ n.
              (Inr (AdmittedAs c), if is_gossip msg then n else node_emit (NAdmission r b) n))
            (node_bump ''admissions'' (n\<lparr>vn_requests := insert (request_key cr r) (vn_requests n)\<rparr>))) n))) n)"

definition node_commit :: "crypto \<Rightarrow> json \<Rightarrow> validator_node \<Rightarrow> node_answer n_outcome" where
  "node_commit cr msg n =
     (if \<not> vn_beacons n then (Inr (Disabled ''beacon is disabled''), n)
      else try_answer (
        thenS (read_field commitment_from_wire ''commitment'' msg) (\<lambda>c.
        thenS (on_services (submit_commitment cr c)) (\<lambda>_ n.
          (Inr (CommitmentTaken c),
           (if is_gossip msg then (\<lambda>n. n) else node_emit (NCommitment c)) (node_bump ''beacon_commits'' n))))) n)"

definition node_reveal :: "crypto \<Rightarrow> json \<Rightarrow> validator_node \<Rightarrow> node_answer n_outcome" where
  "node_reveal cr msg n =
     (if \<not> vn_beacons n then (Inr (Disabled ''beacon is disabled''), n)
      else try_answer (
        thenS (read_field reveal_from_wire ''reveal'' msg) (\<lambda>r.
        thenS (on_services (submit_reveal cr r)) (\<lambda>_ n.
          (Inr (RevealTaken r),
           (if is_gossip msg then (\<lambda>n. n) else node_emit (NReveal r)) (node_bump ''beacon_reveals'' n))))) n)"

definition node_finalize :: "crypto \<Rightarrow> json \<Rightarrow> validator_node \<Rightarrow> node_answer n_outcome" where
  "node_finalize cr msg n =
     (if \<not> vn_beacons n then (Inr (Disabled ''beacon is disabled''), n)
      else try_answer (
        thenS (read_field as_integer ''round'' msg) (\<lambda>rnd.
        thenS (int_or 1 ''reveal_reward'' msg) (\<lambda>reward.
        thenS (int_or 1 ''non_reveal_penalty'' msg) (\<lambda>penalty.
        thenS (on_services (beacon_finalize cr rnd reward penalty)) (\<lambda>t n.
          (Inr (RoundSettled t), node_bump ''beacon_finalizations'' n)))))) n)"

subsection \<open>Availability\<close>

definition with_provider :: "(provider \<Rightarrow> validator_node \<Rightarrow> node_answer n_outcome) \<Rightarrow> validator_node \<Rightarrow> node_answer n_outcome" where
  "with_provider f n = (case vn_provider n of
     None \<Rightarrow> (Inr (Disabled ''availability is disabled''), n) | Some p \<Rightarrow> try_answer (f p) n)"

definition pure_call :: "provider_error + 'a \<Rightarrow> validator_node \<Rightarrow> 'a n_outcome" where
  "pure_call r n = (case r of Inl e \<Rightarrow> (Inl (NProvider e), n) | Inr a \<Rightarrow> (Inr a, n))"

definition int_list :: "json \<Rightarrow> wire_error + int list" where
  "int_list v = bindE (as_list v) (mapE as_integer)"

definition node_put :: "crypto \<Rightarrow> json \<Rightarrow> validator_node \<Rightarrow> node_answer n_outcome" where
  "node_put cr msg = with_provider (\<lambda>p.
     thenS (read_field shard_from_wire ''shard'' msg) (\<lambda>s.
     thenS (on_provider p (provider_put cr s)) (\<lambda>_ n.
       (Inr (ShardStored s), node_bump ''availability_puts'' n))))"

definition node_fetch :: "json \<Rightarrow> validator_node \<Rightarrow> node_answer n_outcome" where
  "node_fetch msg = with_provider (\<lambda>p.
     thenS (read_field as_text ''object_id'' msg) (\<lambda>oid.
     thenS (read_field as_integer ''shard_index'' msg) (\<lambda>i.
     thenS (pure_call (provider_fetch p oid i)) (\<lambda>s n.
       (Inr (ShardFetched s), node_bump ''availability_fetches'' n)))))"

definition node_sample :: "crypto \<Rightarrow> json \<Rightarrow> validator_node \<Rightarrow> node_answer n_outcome" where
  "node_sample cr msg = with_provider (\<lambda>p.
     thenS (read_field as_text ''object_id'' msg) (\<lambda>oid.
     thenS (read_field int_list ''indices'' msg) (\<lambda>is.
     thenS (pure_call (provider_sample cr p oid is)) (\<lambda>prf n.
       (Inr (Sampled prf), node_bump ''availability_samples'' n)))))"

definition node_repair :: "crypto \<Rightarrow> json \<Rightarrow> validator_node \<Rightarrow> node_answer n_outcome" where
  "node_repair cr msg = with_provider (\<lambda>p.
     thenS (read_field (\<lambda>v. bindE (as_list v) (mapE shard_from_wire)) ''source_shards'' msg) (\<lambda>source.
     thenS (read_field int_list ''missing_indices'' msg) (\<lambda>missing.
     thenS (on_provider p (provider_repair cr source missing)) (\<lambda>repaired n.
       (Inr (Repaired repaired), node_bump ''availability_repairs'' n)))))"

subsection \<open>Dispatch\<close>

definition spawn :: "(json \<Rightarrow> wire_error + gossip_work) \<Rightarrow> json \<Rightarrow> validator_node \<Rightarrow> node_answer n_outcome" where
  "spawn f msg n = (case f msg of Inl e \<Rightarrow> (Inl (NWire e), n) | Inr w \<Rightarrow> (Inr (NoAnswer [w]), n))"

definition read_capsule :: "json \<Rightarrow> wire_error + capsule" where
  "read_capsule msg = bindE (jfield ''capsule'' msg) capsule_from_wire"

definition dispatch :: "crypto \<Rightarrow> json \<Rightarrow> validator_node \<Rightarrow> node_answer n_outcome" where
  "dispatch cr msg n =
     (case msg of
        JObj kvs \<Rightarrow>
          (let kind = map_of kvs ''type'' in
           if kind = Some (JStr ''ADMISSION'') then node_admit cr msg n
           else if kind = Some (JStr ''BEACON_COMMIT'') then node_commit cr msg n
           else if kind = Some (JStr ''BEACON_REVEAL'') then node_reveal cr msg n
           else if kind = Some (JStr ''BEACON_FINALIZE'') then node_finalize cr msg n
           else if kind = Some (JStr ''AVAILABILITY_PUT'') then node_put cr msg n
           else if kind = Some (JStr ''AVAILABILITY_FETCH'') then node_fetch msg n
           else if kind = Some (JStr ''AVAILABILITY_SAMPLE'') then node_sample cr msg n
           else if kind = Some (JStr ''AVAILABILITY_REPAIR'') then node_repair cr msg n
           else if kind = Some (JStr ''SUBMIT'')
           then spawn (\<lambda>m. bindE (read_capsule m) (\<lambda>c. Inr (Submit c))) msg n
           else if kind = Some (JStr ''CAPSULE'')
           then spawn (\<lambda>m. bindE (read_capsule m) (\<lambda>c. Inr (Deliver (GCapsule c)))) msg n
           else if kind = Some (JStr ''RECEIPT'')
           then spawn (\<lambda>m. bindE (jfield ''receipt'' m) (\<lambda>v. bindE (receipt_from_wire v) (\<lambda>r.
                  Inr (Deliver (GReceipt r))))) msg n
           else if kind = Some (JStr ''CLOSURE'')
           then spawn (\<lambda>m. bindE (read_capsule m) (\<lambda>c. bindE (jfield ''closure'' m) (\<lambda>v.
                  bindE (closure_from_wire v) (\<lambda>cl. Inr (Deliver (GClosure c cl)))))) msg n
           else if kind = Some (JStr ''METRICS'') then (Inr MetricsAnswer, n)
           else if kind = Some (JStr ''SHUTDOWN'') then (Inr ShuttingDown, n\<lparr>vn_stopped := True\<rparr>)
           else (Inr UnknownKind, node_bump ''errors'' n))
      | _ \<Rightarrow> (Inl NAttribute, n))"

end
