(* ===== verification/Node_Entry.thy ===== *)
theory Node_Entry
  imports Node
begin

section \<open>Connections, starting and sending (mosaic/network.py)\<close>

text \<open>
  What \<open>MosaicNode._handle\<close> does around the dispatch: it counts the connections of a peer, reads one
  frame, charges the token buckets, rejects replays and counts failures; \<open>_restore\<close> as a whole; and
  the retries of \<open>_send\<close>. A handler of a connection waits twice, for the frame and inside the dispatch, so
  it is three sections here: accept, receive, close. What reading a frame gives is in \<open>Frames\<close>.
  The three clock readings of a section are arguments. \<open>received_bytes\<close>, the counters by type, and the
  failure to write an answer are left out.
\<close>

record entry_node =
  en_node :: validator_node
  en_guard :: "json replay_guard"
  en_rate :: token_bucket
  en_limiters :: "(string, token_bucket) dict"
  en_connections :: "(string, int) dict"
  en_max_connections :: int
  en_peer_capacity :: rat
  en_peer_refill :: rat

datatype entry_error = EntrySecurity security_error | EntryNode node_exception

type_synonym 'a e_outcome = "(entry_node, entry_error, 'a) outcome"

datatype frame =
    FrameTimeout
  | FrameTruncated
  | ConnectionLost
  | FrameInvalid
  | Frame json

definition entry_bump :: "string \<Rightarrow> entry_node \<Rightarrow> entry_node" where
  "entry_bump k s = s\<lparr>en_node := node_bump k (en_node s)\<rparr>"

text \<open>A node as it is created: \<open>ReplayGuard()\<close>, \<open>TokenBucket(1000, 1000)\<close>, no connections.\<close>

definition entry_init :: "validator_node \<Rightarrow> int \<Rightarrow> rat \<Rightarrow> rat \<Rightarrow> rat \<Rightarrow> entry_node" where
  "entry_init n limit cap ref now = \<lparr>en_node = n, en_guard = replay_init 100000 300,
     en_rate = \<lparr>capacity = 1000, refill = 1000, tokens = 1000, updated_at = now\<rparr>, en_limiters = [],
     en_connections = [], en_max_connections = limit, en_peer_capacity = cap, en_peer_refill = ref\<rparr>"

subsection \<open>Opening and closing\<close>

definition open_connections :: "entry_node \<Rightarrow> string \<Rightarrow> int" where
  "open_connections s peer = (case map_of (en_connections s) peer of None \<Rightarrow> 0 | Some k \<Rightarrow> k)"

text \<open>The answer tells whether the connection is served. \<open>TokenBucket(\<dots>)\<close> is built on every call.\<close>

definition accept_connection :: "string \<Rightarrow> rat \<Rightarrow> entry_node \<Rightarrow> bool e_outcome" where
  "accept_connection peer now s =
     (if en_max_connections s \<le> open_connections s peer then (Inr False, entry_bump ''rate_limited'' s)
      else (let s1 = s\<lparr>en_connections := AList.update peer (open_connections s peer + 1) (en_connections s)\<rparr> in
        case bucket_init (en_peer_capacity s) (en_peer_refill s) now of
          Inl e \<Rightarrow> (Inl (EntrySecurity e), s1)
        | Inr b \<Rightarrow> (Inr True, if has_key (en_limiters s1) peer then s1
                       else s1\<lparr>en_limiters := AList.update peer b (en_limiters s1)\<rparr>)))"

definition close_connection :: "string \<Rightarrow> entry_node \<Rightarrow> entry_node" where
  "close_connection peer s =
     (let left = max 0 ((case map_of (en_connections s) peer of None \<Rightarrow> 1 | Some k \<Rightarrow> k) - 1) in
      s\<lparr>en_connections := (if left = 0 then AList.delete peer (en_connections s)
                           else AList.update peer left (en_connections s))\<rparr>)"

subsection \<open>One frame\<close>

definition bucket_take :: "rat \<Rightarrow> token_bucket \<Rightarrow> bool \<times> token_bucket" where
  "bucket_take now b = (case bucket_allow 1 now b of (r, b') \<Rightarrow> (r = Inr True, b'))"

text \<open>
  \<open>self.rate_limiter.allow()\<close>, and only then \<open>limiter.allow()\<close>. The limiter of a connection that has
  been accepted is in the table for good.
\<close>

definition admit_frame :: "string \<Rightarrow> rat \<Rightarrow> rat \<Rightarrow> entry_node \<Rightarrow> bool \<times> entry_node" where
  "admit_frame peer t1 t2 s =
     (case bucket_take t1 (en_rate s) of
        (False, b) \<Rightarrow> (False, s\<lparr>en_rate := b\<rparr>)
      | (True, b) \<Rightarrow>
          (case map_of (en_limiters s) peer of
             None \<Rightarrow> (False, s\<lparr>en_rate := b\<rparr>)
           | Some l \<Rightarrow> (case bucket_take t2 l of
               (ok, l') \<Rightarrow> (ok, s\<lparr>en_rate := b, en_limiters := AList.update peer l' (en_limiters s)\<rparr>))))"

text \<open>
  \<open>message.get("message_id") or json.dumps(\<dots>)\<close>; lists and dicts have no hash; \<open>True\<close> is the key \<open>1\<close>.
\<close>

definition message_key :: "json \<Rightarrow> node_exception + json" where
  "message_key msg = (case msg of
     JObj kvs \<Rightarrow> (case map_of kvs ''message_id'' of
        None \<Rightarrow> Inr (JStr (canonical_bytes msg))
      | Some v \<Rightarrow>
          if \<not> truth v then Inr (JStr (canonical_bytes msg))
          else (case v of JArr _ \<Rightarrow> Inl (NWire WireTypeError) | JObj _ \<Rightarrow> Inl (NWire WireTypeError)
                | JBool _ \<Rightarrow> Inr (JInt 1) | _ \<Rightarrow> Inr v))
   | _ \<Rightarrow> Inl NAttribute)"

text \<open>The counters of the \<open>except\<close> clauses, or \<open>None\<close> for what none of them catches.\<close>

definition wire_counters :: "wire_error \<Rightarrow> string list" where
  "wire_counters e = (case e of WireValueError _ \<Rightarrow> [''malformed_frames'', ''protocol_rejections''] | _ \<Rightarrow> [''errors''])"

definition entry_counters :: "node_exception \<Rightarrow> string list option" where
  "entry_counters e = (case e of
     NAttribute \<Rightarrow> Some [''errors'']
   | NWire w \<Rightarrow> Some (wire_counters w)
   | NService (ServiceWire w) \<Rightarrow> Some (wire_counters w)
   | NService ServiceAttributeError \<Rightarrow> Some [''errors'']
   | NProvider (ProviderWire w) \<Rightarrow> Some (wire_counters w)
   | _ \<Rightarrow> None)"

definition entry_failure :: "node_exception \<Rightarrow> entry_node \<Rightarrow> node_answer option e_outcome" where
  "entry_failure e s = (case entry_counters e of
     None \<Rightarrow> (Inl (EntryNode e), s) | Some ks \<Rightarrow> (Inr None, fold entry_bump ks s))"

definition dispatch_frame :: "crypto \<Rightarrow> json \<Rightarrow> entry_node \<Rightarrow> node_answer option e_outcome" where
  "dispatch_frame cr msg s = (case dispatch cr msg (en_node s) of
     (Inl e, n) \<Rightarrow> entry_failure e (s\<lparr>en_node := n\<rparr>)
   | (Inr a, n) \<Rightarrow> (Inr (Some a), s\<lparr>en_node := n\<rparr>))"

definition receive_message :: "crypto \<Rightarrow> string \<Rightarrow> rat \<times> rat \<times> rat \<Rightarrow> json \<Rightarrow> entry_node \<Rightarrow> node_answer option e_outcome" where
  "receive_message cr peer clock msg s =
     (case clock of (t1, t2, t3) \<Rightarrow>
      case admit_frame peer t1 t2 s of
        (False, s1) \<Rightarrow> (Inr None, entry_bump ''rate_limited'' s1)
      | (True, s1) \<Rightarrow>
          (case message_key msg of
             Inl e \<Rightarrow> entry_failure e s1
           | Inr k \<Rightarrow>
               (case replay_accept k t3 (en_guard s1) of
                  (False, g) \<Rightarrow> (Inr None, entry_bump ''replay_rejected'' (s1\<lparr>en_guard := g\<rparr>))
                | (True, g) \<Rightarrow> dispatch_frame cr msg (entry_bump ''received_messages'' (s1\<lparr>en_guard := g\<rparr>)))))"

definition receive_frame :: "crypto \<Rightarrow> string \<Rightarrow> rat \<times> rat \<times> rat \<Rightarrow> frame \<Rightarrow> entry_node \<Rightarrow> node_answer option e_outcome" where
  "receive_frame cr peer clock fr s = (case fr of
     FrameTimeout \<Rightarrow> (Inr None, entry_bump ''frame_timeouts'' s)
   | FrameTruncated \<Rightarrow> (Inr None, entry_bump ''malformed_frames'' s)
   | ConnectionLost \<Rightarrow> (Inr None, entry_bump ''transport_failures'' s)
   | FrameInvalid \<Rightarrow> (Inr None, entry_bump ''protocol_rejections'' (entry_bump ''malformed_frames'' s))
   | Frame msg \<Rightarrow> receive_message cr peer clock msg s)"

subsection \<open>Starting over a store\<close>

definition restore_provider :: "crypto \<Rightarrow> validator_node \<Rightarrow> validator_node" where
  "restore_provider cr n = (case vn_provider n of
     None \<Rightarrow> n
   | Some p \<Rightarrow> (case on_provider p (provider_restore cr) n of
       (Inl _, n') \<Rightarrow> node_bump ''errors'' n' | (Inr _, n') \<Rightarrow> n'))"

fun restore_requests :: "crypto \<Rightarrow> (string \<times> json) list \<Rightarrow> validator_node \<Rightarrow> unit n_outcome" where
  "restore_requests cr [] n = (Inr (), n)"
| "restore_requests cr ((_, payload) # rest) n =
     thenS (read_field admission_from_wire ''request'' payload) (\<lambda>r n.
       restore_requests cr rest (n\<lparr>vn_requests := insert (request_key cr r) (vn_requests n)\<rparr>)) n"

definition restore_onboarding :: "crypto \<Rightarrow> durable_store \<Rightarrow> validator_node \<Rightarrow> validator_node" where
  "restore_onboarding cr db n =
     (if \<not> vn_onboards n then n
      else (case thenS (on_services (onboarding_restore cr)) (\<lambda>k n.
              restore_requests cr (store_items db ''onboarding'')
                (n\<lparr>vn_gossip := (vn_gossip n)\<lparr>g_metrics := AList.update ''onboarding_restored'' (int k)
                    (g_metrics (vn_gossip n))\<rparr>\<rparr>)) n of
        (Inl _, n') \<Rightarrow> node_bump ''errors'' n' | (Inr _, n') \<Rightarrow> n'))"

definition node_restore :: "crypto \<Rightarrow> validator_node \<Rightarrow> wire_error + validator_node" where
  "node_restore cr n = (case g_store (vn_gossip n) of
     None \<Rightarrow> Inr n
   | Some db \<Rightarrow> bindE (restore_node cr (vn_gossip n)) (\<lambda>g.
       Inr (restore_onboarding cr db (restore_provider cr (n\<lparr>vn_gossip := g\<rparr>)))))"

subsection \<open>Sending\<close>

datatype attempt = AttemptDropped | AttemptFailed | AttemptSent

fun try_send :: "attempt list \<Rightarrow> nat \<Rightarrow> entry_node \<Rightarrow> bool \<times> entry_node" where
  "try_send [] k s = (False, s)"
| "try_send (a # as) k s =
     (let s1 = (if k = 0 then s else entry_bump ''retries'' s) in
      case a of
        AttemptDropped \<Rightarrow> try_send as (k + 1) (entry_bump ''dropped_messages'' s1)
      | AttemptFailed \<Rightarrow> try_send as (k + 1) (entry_bump ''transport_failures'' s1)
      | AttemptSent \<Rightarrow> (True, entry_bump ''sent_messages'' s1))"

definition answer_work :: "node_answer \<Rightarrow> gossip_work list" where
  "answer_work a = (case a of NoAnswer ws \<Rightarrow> ws | _ \<Rightarrow> [])"

text \<open>
  The network decides what becomes of each attempt (\<open>world\<close>); a message to oneself is dispatched, and gives
  the work of its handler.
\<close>

definition send_message ::
  "crypto \<Rightarrow> string list \<Rightarrow> nat \<Rightarrow> (nat \<Rightarrow> attempt) \<Rightarrow> string \<Rightarrow> json \<Rightarrow> entry_node \<Rightarrow> (bool \<times> gossip_work list) e_outcome" where
  "send_message cr peers retries world peer msg s =
     (if peer = g_id (vn_gossip (en_node s))
      then (case dispatch cr msg (en_node s) of
              (Inl e, n) \<Rightarrow> (Inl (EntryNode e), s\<lparr>en_node := n\<rparr>) | (Inr a, n) \<Rightarrow> (Inr (True, answer_work a), s\<lparr>en_node := n\<rparr>))
      else if peer \<notin> set peers then (Inr (False, []), entry_bump ''errors'' s)
      else (case try_send (map world [0..<retries + 1]) 0 s of (b, s') \<Rightarrow> (Inr (b, []), s')))"

end
