(* ===== verification/Daemon.thy ===== *)
theory Daemon
  imports Node_Entry Persistence
begin

section \<open>Starting a node (mosaic/daemon.py)\<close>

text \<open>
  \<open>load_node\<close> builds a validator node from its configuration, a JSON object, and its durable store,
  which \<open>DurableStore\<close> has opened. What it does to the store happens also when it raises later. The
  parameters of the node that are floats are arguments, as numbers; reading the configuration file,
  the TLS contexts, the addresses and the command line are left out. Texts of exceptions of the
  libraries are not kept apart.
\<close>

datatype daemon_error =
    DaemonValueError string
  | DaemonWire wire_error
  | DaemonAttributeError
  | DaemonSettlement settlement_error
  | DaemonMembership membership_error
  | DaemonAvailability availability_error
  | DaemonStorage storage_error

type_synonym 'a d_result = "daemon_error + 'a"
type_synonym 'a d_outcome = "(durable_store, daemon_error, 'a) outcome"

text \<open>\<open>v.get(k, d)\<close> and \<open>v.items()\<close>, and the elements a \<open>for\<close> loop takes from a JSON value\<close>

definition get_default :: "string \<Rightarrow> json \<Rightarrow> json \<Rightarrow> json d_result" where
  "get_default k d v = (case v of
     JObj kvs \<Rightarrow> Inr (case map_of kvs k of None \<Rightarrow> d | Some w \<Rightarrow> w) | _ \<Rightarrow> Inl DaemonAttributeError)"

definition dict_items :: "json \<Rightarrow> (string \<times> json) list d_result" where
  "dict_items v = (case v of JObj kvs \<Rightarrow> Inr kvs | _ \<Rightarrow> Inl DaemonAttributeError)"

definition iterated :: "json \<Rightarrow> json list d_result" where
  "iterated v = (case v of
     JArr vs \<Rightarrow> Inr vs | JObj kvs \<Rightarrow> Inr (map (\<lambda>(k, _). JStr k) kvs) | JStr t \<Rightarrow> Inr (map (\<lambda>c. JStr [c]) t)
   | _ \<Rightarrow> Inl (DaemonWire WireTypeError))"

definition get_int :: "string \<Rightarrow> int \<Rightarrow> json \<Rightarrow> int d_result" where
  "get_int k d v = bindE (get_default k (JInt d) v) (\<lambda>w. liftE DaemonWire (as_integer w))"

definition get_text :: "string \<Rightarrow> string \<Rightarrow> json \<Rightarrow> string d_result" where
  "get_text k d v = bindE (get_default k (JStr d) v) (\<lambda>w. liftE DaemonWire (as_text w))"

definition at_store :: "'a d_result \<Rightarrow> durable_store \<Rightarrow> 'a d_outcome" where
  "at_store r db = (r, db)"

fun foldE :: "('a \<Rightarrow> 's \<Rightarrow> 'e + 's) \<Rightarrow> 'a list \<Rightarrow> 's \<Rightarrow> 'e + 's" where
  "foldE f [] s = Inr s"
| "foldE f (x # xs) s = bindE (f x s) (foldE f xs)"

subsection \<open>Members and seals\<close>

text \<open>\<open>from_private_bytes\<close> takes 32 bytes and nothing else.\<close>

definition read_private_key :: "json \<Rightarrow> keypair d_result" where
  "read_private_key item =
     bindE (get_default ''private_key_b64'' JNull item) (\<lambda>v.
     if \<not> truth v then Inl (DaemonValueError ''local validator private_key_b64 is missing'')
     else bindE (liftE DaemonWire (as_base64 v)) (\<lambda>k.
       if length k \<noteq> 32 then Inl (DaemonValueError ''An Ed25519 private key is 32 bytes long'')
       else Inr \<lparr>private_bytes = k\<rparr>))"

definition read_member :: "string \<Rightarrow> string \<times> json \<Rightarrow> (string, member) dict \<Rightarrow> (string, member) dict d_result" where
  "read_member nid entry ms = (case entry of (mid, item) \<Rightarrow>
     bindE (if mid = nid then bindE (read_private_key item) (\<lambda>k. Inr (Some k)) else Inr None) (\<lambda>kp.
     bindE (liftE DaemonWire (base64_field ''public_key_b64'' item)) (\<lambda>pk.
     bindE (liftE DaemonWire (int_field ''weight'' item)) (\<lambda>w.
       Inr (AList.update mid \<lparr>member_id = mid, member_keypair = kp, weight = w, public_key_override = Some pk\<rparr> ms)))))"

definition load_protocol :: "json \<Rightarrow> string \<Rightarrow> protocol d_result" where
  "load_protocol config nid =
     bindE (liftE DaemonWire (jfield ''members'' config)) (\<lambda>v.
     bindE (dict_items v) (\<lambda>entries.
     bindE (foldE (read_member nid) entries []) (\<lambda>ms.
     bindE (get_int ''epoch'' 0 config) (\<lambda>ep. Inr (protocol_init ms ep)))))"

definition place_seal :: "crypto \<Rightarrow> json \<Rightarrow> protocol \<Rightarrow> protocol d_result" where
  "place_seal cr item p = bindE (liftE DaemonWire (seal_from_wire item)) (\<lambda>s.
     Inr (p\<lparr>current_seals := AList.update (resource_id s) s (current_seals p),
            known_seals := AList.update (seal_id cr s) s (known_seals p)\<rparr>))"

subsection \<open>Ledger\<close>

definition fund_genesis :: "crypto \<Rightarrow> string \<times> json \<Rightarrow> ledger \<Rightarrow> ledger d_result" where
  "fund_genesis cr entry l = (case entry of (acct, v) \<Rightarrow>
     bindE (liftE DaemonWire (as_integer v)) (\<lambda>amt.
       case fund cr acct amt 0 (Some (''genesis:'' @ acct)) l of
         (Inl e, _) \<Rightarrow> Inl (DaemonSettlement e) | (Inr _, l') \<Rightarrow> Inr l'))"

definition genesis_ledger :: "crypto \<Rightarrow> json \<Rightarrow> ledger d_result" where
  "genesis_ledger cr config =
     bindE (get_default ''settlement'' (JObj []) config) (\<lambda>st.
     bindE (get_text ''asset'' ''MOSAIC'' st) (\<lambda>ast.
     bindE (get_text ''treasury'' ''mosaic:treasury'' st) (\<lambda>tre.
     bindE (liftE DaemonSettlement (ledger_init ast tre 1000)) (\<lambda>l.
     bindE (get_default ''genesis_balances'' (JObj []) config) (\<lambda>v.
     bindE (dict_items v) (\<lambda>entries. foldE (fund_genesis cr) entries l))))))"

definition write_ledger :: "crypto \<Rightarrow> ledger \<Rightarrow> durable_store \<Rightarrow> unit d_outcome" where
  "write_ledger cr l db = (case ledger_persist cr l db of (r, db') \<Rightarrow> (liftE DaemonStorage r, db'))"

text \<open>\<open>except Exception\<close>: whatever is wrong with the stored ledger\<close>

definition load_ledger :: "crypto \<Rightarrow> json \<Rightarrow> durable_store \<Rightarrow> ledger d_outcome" where
  "load_ledger cr config db = (case ledger_from_store cr db of
     Inr l \<Rightarrow> (Inr l, db)
   | Inl _ \<Rightarrow> thenS (at_store (genesis_ledger cr config)) (\<lambda>l.
       thenS (write_ledger cr l) (\<lambda>_ db. (Inr l, db))) db)"

subsection \<open>Membership\<close>

definition load_manager :: "crypto \<Rightarrow> json \<Rightarrow> ledger \<Rightarrow> manager d_result" where
  "load_manager cr config l =
     bindE (get_default ''membership'' (JObj []) config) (\<lambda>mc.
     bindE (get_default ''genesis_seed'' (JStr ''mosaic-testnet-genesis'') config) (\<lambda>v.
     bindE (case v of JStr t \<Rightarrow> Inr t | _ \<Rightarrow> Inl DaemonAttributeError) (\<lambda>seed.
     bindE (get_int ''minimum_stake'' 1 mc) (\<lambda>mins.
     bindE (get_int ''withdrawal_delay'' 3 mc) (\<lambda>delay.
       Inr (manager_init cr seed mins 10000 delay (Some l)))))))"

definition settled_bonds :: "manager \<Rightarrow> (string, bond_position) dict" where
  "settled_bonds m = (case settlement m of None \<Rightarrow> [] | Some l \<Rightarrow> bonds l)"

definition run_manager :: "(manager \<Rightarrow> 'a m_outcome) \<Rightarrow> manager \<Rightarrow> manager d_result" where
  "run_manager f m = (case f m of (Inl e, _) \<Rightarrow> Inl (DaemonMembership e) | (Inr _, m') \<Rightarrow> Inr m')"

definition seat_validator :: "crypto \<Rightarrow> admission_request \<Rightarrow> stake_bond \<Rightarrow> manager \<Rightarrow> manager d_result" where
  "seat_validator cr r b m =
     (if has_key (by_id (m_snapshot m)) (ar_validator_id r) then Inr m
      else if has_key (settled_bonds m) (sb_bond_id b) then run_manager (restore_admission cr r b) m
      else run_manager (admit cr r [] (Some b)) m)"

definition genesis_admission :: "crypto \<Rightarrow> json \<Rightarrow> manager \<Rightarrow> manager d_result" where
  "genesis_admission cr item m =
     bindE (liftE DaemonWire (bindE (jfield ''request'' item) admission_from_wire)) (\<lambda>r.
     bindE (liftE DaemonWire (bindE (jfield ''bond'' item) bond_from_wire)) (\<lambda>b. seat_validator cr r b m))"

definition load_membership :: "crypto \<Rightarrow> json \<Rightarrow> ledger \<Rightarrow> manager d_result" where
  "load_membership cr config l =
     bindE (load_manager cr config l) (\<lambda>m.
     bindE (get_default ''genesis_admissions'' (JArr []) config) (\<lambda>v.
     bindE (iterated v) (\<lambda>items. foldE (genesis_admission cr) items m)))"

subsection \<open>The whole node\<close>

definition load_codec :: "json \<Rightarrow> erasure_codec d_result" where
  "load_codec config =
     bindE (get_default ''availability'' (JObj []) config) (\<lambda>ac.
     bindE (get_int ''data_shards'' 5 ac) (\<lambda>k.
     bindE (get_int ''parity_shards'' 3 ac) (\<lambda>j. liftE DaemonAvailability (codec_init k j))))"

definition read_endpoint :: "string \<times> json \<Rightarrow> unit \<Rightarrow> unit d_result" where
  "read_endpoint entry u = (case entry of (_, endpoint) \<Rightarrow>
     bindE (liftE DaemonWire (jfield ''host'' endpoint)) (\<lambda>_.
     bindE (liftE DaemonWire (int_field ''port'' endpoint)) (\<lambda>_. Inr ())))"

definition built_node :: "string \<Rightarrow> int \<Rightarrow> protocol \<Rightarrow> manager \<Rightarrow> erasure_codec \<Rightarrow> durable_store \<Rightarrow> validator_node" where
  "built_node nid limit p m cd db =
     \<lparr>vn_gossip = gossip_init nid (nat limit) False p (Some db), vn_services = services_init m (Some db),
      vn_onboards = True, vn_beacons = True,
      vn_provider = Some \<lparr>provider_store = \<lparr>store_codec = cd, objects = []\<rparr>, durable_shards = Some db\<rparr>,
      vn_requests = {}, vn_outbox = [], vn_stopped = False\<rparr>"

definition load_node :: "crypto \<Rightarrow> rat \<Rightarrow> rat \<Rightarrow> rat \<Rightarrow> json \<Rightarrow> durable_store \<Rightarrow> entry_node d_outcome" where
  "load_node cr cap ref now config =
     thenS (at_store (liftE DaemonWire (text_field ''node_id'' config))) (\<lambda>nid.
     thenS (at_store (load_protocol config nid)) (\<lambda>p.
     thenS (load_ledger cr config) (\<lambda>l.
     thenS (at_store (load_membership cr config l)) (\<lambda>m.
     thenS (case settlement m of Some k \<Rightarrow> write_ledger cr k | None \<Rightarrow> at_store (Inr ())) (\<lambda>_.
     thenS (at_store (load_codec config)) (\<lambda>cd.
     thenS (at_store (bindE (get_default ''initial_seals'' (JArr []) config) (\<lambda>v.
       bindE (iterated v) (\<lambda>items. foldE (place_seal cr) items p)))) (\<lambda>p.
     thenS (at_store (bindE (liftE DaemonWire (jfield ''peers'' config)) (\<lambda>v.
       bindE (dict_items v) (\<lambda>entries. foldE read_endpoint entries ())))) (\<lambda>_.
     thenS (at_store (liftE DaemonWire (int_field ''bind_port'' config))) (\<lambda>_.
     thenS (at_store (get_int ''max_connections_per_peer'' 64 config)) (\<lambda>conns.
     thenS (at_store (get_int ''max_pending_capsules'' 10000 config)) (\<lambda>limit db.
       (Inr (entry_init (built_node nid limit p m cd db) conns cap ref now), db))))))))))))"

text \<open>\<open>serve\<close> until the server listens: \<open>node.run()\<close> restores first.\<close>

definition serve_node :: "crypto \<Rightarrow> rat \<Rightarrow> rat \<Rightarrow> rat \<Rightarrow> json \<Rightarrow> durable_store \<Rightarrow> entry_node d_outcome" where
  "serve_node cr cap ref now config =
     thenS (load_node cr cap ref now config) (\<lambda>s db. case node_restore cr (en_node s) of
       Inl e \<Rightarrow> (Inl (DaemonWire e), db) | Inr n \<Rightarrow> (Inr (s\<lparr>en_node := n\<rparr>), db))"

end
