(* ===== verification/Randomness_Props.thy ===== *)
theory Randomness_Props
  imports Randomness Membership_Props Economics_Props
begin

section \<open>What a settled randomness round has done\<close>

text \<open>
  The two invariants of the parts, \<open>manager_ok\<close> and \<open>ledger_ok\<close>, survive a round whether it settles
  or raises, and value only moves. A round that settles has a beacon backed by a quorum, and has cut
  the stake of exactly the validators that committed and did not reveal.
\<close>

definition conserving :: "crypto \<Rightarrow> (round_state \<Rightarrow> 'a r_outcome) \<Rightarrow> bool" where
  "conserving cr f \<longleftrightarrow> (\<forall>s r s'. manager_ok cr (fst s) \<longrightarrow> ledger_ok (snd s) \<longrightarrow> f s = (r, s') \<longrightarrow>
     manager_ok cr (fst s') \<and> ledger_ok (snd s')
     \<and> (if is_ok r then total_value (snd s') = total_value (snd s) else total_value (snd s') \<le> total_value (snd s)))"

lemma conservingD:
  "conserving cr f \<Longrightarrow> manager_ok cr (fst s) \<Longrightarrow> ledger_ok (snd s) \<Longrightarrow> f s = (r, s') \<Longrightarrow>
     manager_ok cr (fst s') \<and> ledger_ok (snd s')
     \<and> (if is_ok r then total_value (snd s') = total_value (snd s) else total_value (snd s') \<le> total_value (snd s))"
  unfolding conserving_def by blast

lemma conserving_then:
  assumes "conserving cr f" "\<And>a. conserving cr (g a)"
  shows "conserving cr (thenS f g)"
  unfolding conserving_def
proof (intro allI impI)
  fix s r s'
  assume ok: "manager_ok cr (fst s)" "ledger_ok (snd s)" and call: "thenS f g s = (r, s')"
  from call show "manager_ok cr (fst s') \<and> ledger_ok (snd s')
     \<and> (if is_ok r then total_value (snd s') = total_value (snd s) else total_value (snd s') \<le> total_value (snd s))"
  proof (cases rule: thenS_cases)
    case (first e)
    with conservingD [OF assms(1) ok first(1)] show ?thesis by simp
  next
    case (both a s1)
    from conservingD [OF assms(1) ok both(1)] have s1: "manager_ok cr (fst s1)" "ledger_ok (snd s1)"
      "total_value (snd s1) = total_value (snd s)" by simp_all
    from conservingD [OF assms(2) s1(1,2) both(2)] s1(3) show ?thesis by (simp split: if_splits)
  qed
qed

lemma conserving_result: "conserving cr (\<lambda>s. (r, s))"
  by (simp add: conserving_def)

text \<open>At each state the method may be seen as a different one.\<close>

lemma conserving_at:
  assumes "\<And>s. \<exists>g. conserving cr g \<and> f s = g s"
  shows "conserving cr f"
  unfolding conserving_def
proof (intro allI impI)
  fix s r s'
  assume ok: "manager_ok cr (fst s)" "ledger_ok (snd s)" and call: "f s = (r, s')"
  from assms obtain g where g: "conserving cr g" "f s = g s" by blast
  from g(2) call have "g s = (r, s')" by simp
  from conservingD [OF g(1) ok this] show "manager_ok cr (fst s') \<and> ledger_ok (snd s')
     \<and> (if is_ok r then total_value (snd s') = total_value (snd s) else total_value (snd s') \<le> total_value (snd s))" .
qed

lemma conserving_ledger:
  assumes "changes 0 0 f"
  shows "conserving cr (on_round_ledger f)"
  unfolding conserving_def
proof (intro allI impI)
  fix s r s'
  assume ok: "manager_ok cr (fst s)" "ledger_ok (snd s)" and call: "on_round_ledger f s = (r, s')"
  obtain x l where f: "f (snd s) = (x, l)" by fastforce
  from changesD [OF assms ok(2) f] ok(1) call f show "manager_ok cr (fst s') \<and> ledger_ok (snd s')
     \<and> (if is_ok r then total_value (snd s') = total_value (snd s) else total_value (snd s') \<le> total_value (snd s))"
    by (auto simp: on_round_ledger_def split: sum.splits settlement_error.splits)
qed

lemma conserving_manager:
  assumes "keeps (manager_ok cr) f"
  shows "conserving cr (on_round_manager f)"
  unfolding conserving_def
  by (auto simp: on_round_manager_def split: prod.splits sum.splits dest: keepsD [OF assms])

lemma conserving_penalize_manager: "conserving cr (\<lambda>s. on_round_manager (penalize_non_reveal cr vid (h s) rnd pen) s)"
  unfolding conserving_def
  by (auto simp: on_round_manager_def split: prod.splits sum.splits dest: penalize_non_reveal_ok)

lemma conserving_penalize_one: "conserving cr (penalize_one cr bid rnd pen vid)"
proof (rule conserving_at)
  fix s :: round_state
  let ?ep = "epoch_of (fst s)"
  let ?g = "thenS (on_round_ledger (settle_slash cr bid pen ?ep (non_reveal_evidence ?ep rnd vid) None)) (\<lambda>evs.
      thenS (\<lambda>s. on_round_manager (penalize_non_reveal cr vid (epoch_of (fst s)) rnd pen) s) (\<lambda>_ s.
        (Inr (map ev_id evs), s)))"
  have "conserving cr ?g"
    by (intro conserving_then conserving_ledger changes_settle_slash conserving_penalize_manager conserving_result)
  moreover have "penalize_one cr bid rnd pen vid s = ?g s" unfolding penalize_one_def Let_def ..
  ultimately show "\<exists>g. conserving cr g \<and> penalize_one cr bid rnd pen vid s = g s" by (intro exI conjI)
qed

lemma conserving_penalize_all: "conserving cr (penalize_all cr vb rnd pen vids)"
proof (induction vids)
  case Nil
  then show ?case by (simp add: conserving_def)
next
  case (Cons vid vids)
  have one: "conserving cr (thenS (penalize_one cr bid rnd pen vid) (\<lambda>ids.
      thenS (penalize_all cr vb rnd pen vids) (\<lambda>rest s. (Inr (ids @ rest), s))))" for bid
    by (intro conserving_then conserving_penalize_one Cons.IH conserving_result)
  show ?case
  proof (rule conserving_at)
    fix s
    consider "pen \<le> 0" | "0 < pen" "map_of vb vid = None" | bid where "0 < pen" "map_of vb vid = Some bid"
      by (cases "map_of vb vid") force+
    then show "\<exists>g. conserving cr g \<and> penalize_all cr vb rnd pen (vid # vids) s = g s"
    proof cases
      case 1
      then show ?thesis using Cons.IH by (intro exI [of _ "penalize_all cr vb rnd pen vids"]) simp
    next
      case 2
      then show ?thesis by (intro exI [of _ "\<lambda>s. (Inl (RandomnessKeyError vid), s)"]) (simp add: conserving_result)
    next
      case 3
      then show ?thesis using one [of bid] by (intro exI conjI) (assumption, simp)
    qed
  qed
qed

lemma conserving_pay: "conserving cr (pay_reveals cr vb revealers rnd reward)"
proof (rule conserving_at)
  fix s :: round_state
  consider "reward = 0 \<or> revealers = []" | e where "reward \<noteq> 0" "revealers \<noteq> []" "mapE (lookup_key vb) revealers = Inl e"
    | bids where "reward \<noteq> 0" "revealers \<noteq> []" "mapE (lookup_key vb) revealers = Inr bids"
    by (cases "mapE (lookup_key vb) revealers") auto
  then show "\<exists>g. conserving cr g \<and> pay_reveals cr vb revealers rnd reward s = g s"
  proof cases
    case 1
    then show ?thesis by (intro exI [of _ "\<lambda>s. (Inr [], s)"]) (auto simp: conserving_result pay_reveals_def)
  next
    case 2
    then show ?thesis by (intro exI [of _ "\<lambda>s. (Inl e, s)"]) (simp add: conserving_result pay_reveals_def)
  next
    case 3
    have "conserving cr (thenS (on_round_ledger (distribute_rewards cr ep pot weights)) (\<lambda>evs s. (Inr (map ev_id evs), s)))"
      for ep pot weights
      by (intro conserving_then conserving_ledger changes_distribute_rewards conserving_result)
    then show ?thesis using 3 unfolding pay_reveals_def by (intro exI conjI) (assumption, simp)
  qed
qed

lemma settle_round_cases:
  obtains e where "settle_round cr commitments reveals vb rnd reward penalty s = (Inl e, s)"
  | beacon T where "0 \<le> penalty"
    "round_beacon cr (fst s) (dict_of rc_validator_id commitments) (dict_of rr_validator_id reveals) rnd = Inr beacon"
    "settle_round cr commitments reveals vb rnd reward penalty s = thenS
      (penalize_all cr vb rnd penalty (sort (filter (\<lambda>vid. vid \<notin> set (dict_keys (dict_of rr_validator_id reveals)))
        (dict_keys (dict_of rc_validator_id commitments))))) (\<lambda>penalties.
      thenS (pay_reveals cr vb (dict_keys (dict_of rr_validator_id reveals)) rnd reward) (\<lambda>rewards s.
        (Inr (T penalties rewards s), s))) s"
    "\<forall>ps ws s. rs_beacon (T ps ws s) = beacon
      \<and> rs_committed (T ps ws s) = sort (dict_keys (dict_of rc_validator_id commitments))
      \<and> rs_revealed (T ps ws s) = sort (dict_keys (dict_of rr_validator_id reveals))
      \<and> rs_non_revealed (T ps ws s) = sort (filter (\<lambda>vid. vid \<notin> set (dict_keys (dict_of rr_validator_id reveals)))
          (dict_keys (dict_of rc_validator_id commitments)))"
proof (cases "round_refused (dict_of rc_validator_id commitments) (dict_of rr_validator_id reveals) vb reward penalty s")
  case (Some msg)
  then show ?thesis by (intro that(1)) (simp add: settle_round_def Let_def)
next
  case None
  then have "0 \<le> penalty" by (auto simp: round_refused_def Let_def split: if_splits)
  with None that show ?thesis
    by (cases "round_beacon cr (fst s) (dict_of rc_validator_id commitments) (dict_of rr_validator_id reveals) rnd")
      (simp_all add: settle_round_def Let_def)
qed

lemma conserving_settle_round: "conserving cr (settle_round cr commitments reveals vb rnd reward penalty)"
proof (rule conserving_at)
  fix s
  show "\<exists>g. conserving cr g \<and> settle_round cr commitments reveals vb rnd reward penalty s = g s"
  proof (cases rule: settle_round_cases [of cr commitments reveals vb rnd reward penalty s])
    case (1 e)
    then show ?thesis by (intro exI [of _ "\<lambda>s. (Inl e, s)"]) (simp add: conserving_result)
  next
    case (2 beacon T)
    have "conserving cr (\<lambda>s. (Inr (T ps ws s), s))" for ps ws by (simp add: conserving_def)
    then have "conserving cr (thenS (penalize_all cr vb rnd penalty vids) (\<lambda>ps. thenS (pay_reveals cr vb rs rnd reward)
        (\<lambda>ws s. (Inr (T ps ws s), s))))" for vids rs
      by (intro conserving_then conserving_penalize_all conserving_pay)
    with 2(3) show ?thesis by blast
  qed
qed

subsection \<open>Stakes\<close>

definition stake_at :: "manager \<Rightarrow> string \<Rightarrow> int option" where
  "stake_at m vid = map_option v_stake (map_of (m_records m) vid)"

lemma penalize_non_reveal_stakes:
  assumes "penalize_non_reveal cr vid ep rnd pen m = (Inr v, m')"
  shows "stake_at m' = (stake_at m)(vid := map_option (\<lambda>k. max 0 (k - pen)) (stake_at m vid))"
  using assms
  by (auto simp: penalize_non_reveal_def raise_m_def Let_def refresh_def set_record_def stake_at_def fun_eq_iff
      split: option.splits if_splits)

lemma on_round_ledger_manager: "on_round_ledger f s = (r, s') \<Longrightarrow> fst s' = fst s"
  by (auto simp: on_round_ledger_def split: prod.splits sum.splits settlement_error.splits)

lemma penalize_one_stakes:
  assumes "penalize_one cr bid rnd pen vid s = (Inr ids, s')"
  shows "stake_at (fst s') = (stake_at (fst s))(vid := map_option (\<lambda>k. max 0 (k - pen)) (stake_at (fst s) vid))"
proof -
  from assms obtain evs s1 v where
    1: "on_round_ledger (settle_slash cr bid pen (epoch_of (fst s))
      (non_reveal_evidence (epoch_of (fst s)) rnd vid) None) s = (Inr evs, s1)"
    and 2: "on_round_manager (penalize_non_reveal cr vid (epoch_of (fst s1)) rnd pen) s1 = (Inr v, s')"
    by (auto simp: penalize_one_def Let_def elim!: thenS_Inr)
  from 2 obtain m where "penalize_non_reveal cr vid (epoch_of (fst s1)) rnd pen (fst s1) = (Inr v, m)" "fst s' = m"
    by (auto simp: on_round_manager_def split: prod.splits sum.splits)
  with penalize_non_reveal_stakes [OF this(1)] on_round_ledger_manager [OF 1] show ?thesis by simp
qed

lemma penalize_all_stakes:
  "penalize_all cr vb rnd pen vids s = (Inr ids, s') \<Longrightarrow> 0 < pen \<Longrightarrow> distinct vids \<Longrightarrow>
   stake_at (fst s') vid = (if vid \<in> set vids then map_option (\<lambda>k. max 0 (k - pen)) (stake_at (fst s) vid)
     else stake_at (fst s) vid)"
proof (induction vids arbitrary: s ids)
  case (Cons w ws)
  from Cons.prems(1,2) obtain bid ids1 ids2 s1 where one: "penalize_one cr bid rnd pen w s = (Inr ids1, s1)"
    and rest: "penalize_all cr vb rnd pen ws s1 = (Inr ids2, s')"
    by (auto split: option.splits elim!: thenS_Inr)
  from Cons.IH [OF rest Cons.prems(2)] Cons.prems(3) penalize_one_stakes [OF one] show ?case by auto
qed simp

lemma penalize_none: "pen \<le> 0 \<Longrightarrow> penalize_all cr vb rnd pen vids s = (Inr [], s)"
  by (induction vids) simp_all

lemma pay_reveals_manager: "pay_reveals cr vb revealers rnd reward s = (r, s') \<Longrightarrow> fst s' = fst s"
  by (auto simp: pay_reveals_def thenS_def split: if_splits sum.splits prod.splits dest: on_round_ledger_manager)

text \<open>An invariant of a round is kept when its three calls on the ledger and the manager keep it.\<close>

lemma settle_round_keeps:
  assumes slash: "\<And>bid ep ev. keeps I (on_round_ledger (settle_slash cr bid penalty ep ev None))"
    and cut: "\<And>vid. keeps I (\<lambda>s. on_round_manager (penalize_non_reveal cr vid (epoch_of (fst s)) rnd penalty) s)"
    and reward: "\<And>ep pot ws. keeps I (on_round_ledger (distribute_rewards cr ep pot ws))"
  shows "keeps I (settle_round cr commitments reveals vb rnd rew penalty)"
proof (rule keepsI)
  fix s r s'
  assume I: "I s" and call: "settle_round cr commitments reveals vb rnd rew penalty s = (r, s')"
  have ret: "keeps I (\<lambda>s. (f s, s))" for f :: "round_state \<Rightarrow> randomness_error + 'b"
    by (rule keepsI) simp
  have one: "keeps I (penalize_one cr bid rnd penalty vid)" for bid vid
  proof (rule keepsI)
    fix s r s'
    have "keeps I (thenS (on_round_ledger (settle_slash cr bid penalty ep ev None)) (\<lambda>evs.
      thenS (\<lambda>s. on_round_manager (penalize_non_reveal cr vid (epoch_of (fst s)) rnd penalty) s) (\<lambda>_ s.
        (Inr (map ev_id evs), s))))" for ep ev
      by (intro keeps_thenS slash cut ret)
    moreover assume "I s" "penalize_one cr bid rnd penalty vid s = (r, s')"
    ultimately show "I s'" unfolding penalize_one_def Let_def by (blast dest: keepsD)
  qed
  have all: "keeps I (penalize_all cr vb rnd penalty vids)" for vids
  proof (induction vids)
    case (Cons vid vids)
    have "keeps I (thenS (penalize_one cr bid rnd penalty vid) (\<lambda>ids.
        thenS (penalize_all cr vb rnd penalty vids) (\<lambda>rest s. (Inr (ids @ rest), s))))" for bid
      by (intro keeps_thenS one Cons ret)
    then show ?case
      by (intro keepsI) (auto split: if_splits option.splits dest: keepsD keepsD [OF Cons])
  qed (rule keepsI, simp)
  have pay: "keeps I (pay_reveals cr vb rs rnd rew)" for rs
  proof (rule keepsI)
    fix s r s'
    have "keeps I (thenS (on_round_ledger (distribute_rewards cr ep pot ws)) (\<lambda>evs s. (Inr (map ev_id evs), s)))" for ep pot ws
      by (intro keeps_thenS reward ret)
    moreover assume "I s" "pay_reveals cr vb rs rnd rew s = (r, s')"
    ultimately show "I s'" by (auto simp: pay_reveals_def split: if_splits sum.splits dest: keepsD)
  qed
  have rest: "keeps I (thenS (penalize_all cr vb rnd penalty vids) (\<lambda>ps. thenS (pay_reveals cr vb rs rnd rew) (\<lambda>ws s. (Inr (T ps ws s), s))))"
    for vids rs and T :: "string list \<Rightarrow> string list \<Rightarrow> round_state \<Rightarrow> round_settlement"
    by (intro keeps_thenS all pay ret)
  show "I s'"
  proof (cases rule: settle_round_cases [of cr commitments reveals vb rnd rew penalty s])
    case (1 e)
    with I call show ?thesis by simp
  next
    case (2 beacon T)
    from keepsD [OF rest I call [unfolded 2(3)]] show ?thesis .
  qed
qed

subsection \<open>The beacon\<close>

lemma make_fallback_Inr:
  assumes "make_fallback_beacon cr m commitments rnd = Inr b"
  shows "beacon_verify cr b \<and> rb_mode b = ''commitment-fallback'' \<and> set (rb_commitment_ids b) = rc_validator_id ` set commitments
    \<and> snapshot_threshold (m_snapshot m) \<le> (\<Sum>i \<in> rc_validator_id ` set commitments. stake_in (m_snapshot m) i)"
proof -
  let ?cm = "dict_of rc_validator_id commitments"
  from assms obtain w where ne: "?cm \<noteq> []"
    and chk: "sum_checked (check_commitment cr m rnd) ?cm = Inr w" and wt: "snapshot_threshold (m_snapshot m) \<le> w"
    and ids: "rb_commitment_ids b = sort (dict_keys ?cm)" and mode: "rb_mode b = ''commitment-fallback''"
    and pid: "rb_proof_id b = digest cr (fallback_payload (rb_epoch b) (rb_round b) (rb_commitment_ids b) (rb_value b))"
    by (auto simp: make_fallback_beacon_def Let_def bindE_Inr_iff split: if_splits)
  have "w = (\<Sum>i \<in> set (dict_keys ?cm). stake_in (m_snapshot m) i)"
    by (rule conjunct2 [OF checked_weight [OF chk wf_dict_of]]) (use check_commitment_Inr in blast)
  moreover have "rb_commitment_ids b \<noteq> []"
    unfolding ids using ne by (metis length_0_conv length_map length_sort)
  moreover have "set (dict_keys ?cm) = rc_validator_id ` set commitments" by (rule keys_dict_of)
  ultimately show ?thesis using wt mode pid ids by (simp add: beacon_verify_def)
qed

lemma dict_of_values: "(\<lambda>x. f x) ` set (dict_values (dict_of f xs)) = f ` set xs"
proof -
  have "f ` set (dict_values (dict_of f xs)) = fst ` set (dict_of f xs)"
    unfolding set_map image_image by (rule image_cong [OF refl]) (auto dest: set_dict_of)
  with keys_dict_of [of f xs] show ?thesis by simp
qed

lemma reveal_weight:
  assumes "sum_checked (\<lambda>vid. bindE (lookup_key (by_id s) vid) (\<lambda>v. Inr (v_stake v))) ids = Inr w" "distinct ids"
  shows "w = (\<Sum>i \<in> set ids. stake_in s i)"
proof -
  have "(case bindE (lookup_key (by_id s) i) (\<lambda>v. Inr (v_stake v)) of Inr k \<Rightarrow> k | Inl _ \<Rightarrow> 0) = stake_in s i" for i
    by (simp add: lookup_key_def stake_in_def bindE_def split: option.splits)
  with sum_checked_Inr [OF assms(1)] sum_list_distinct_conv_sum_set [OF assms(2), of "stake_in s"] show ?thesis by simp
qed

lemma dict_of_dict_of: "dict_of f (dict_values (dict_of f xs)) = dict_of f xs"
proof -
  have "distinct (map f (dict_values (dict_of f xs)))"
    unfolding keys_eq_values_dict_of [symmetric] by (rule wf_dict_of)
  then have "dict_of f (dict_values (dict_of f xs)) = map (\<lambda>x. (f x, x)) (dict_values (dict_of f xs))"
    by (rule dict_of_distinct)
  also have "\<dots> = dict_of f xs"
    unfolding map_map by (rule map_idI) (auto dest: set_dict_of)
  finally show ?thesis .
qed

text \<open>A reveal in a beacon opens the commitment of its validator.\<close>

lemma make_beacon_opens:
  assumes made: "make_beacon cr m commitments reveals rnd = Inr b" and vid: "vid \<in> rr_validator_id ` set reveals"
  shows "\<exists>c \<in> set commitments. \<exists>r \<in> set reveals. rc_validator_id c = vid \<and> rr_validator_id r = vid
    \<and> rc_commitment c = commitment_of cr (rr_secret r)"
proof -
  let ?rm = "dict_of rr_validator_id reveals" and ?cm = "dict_of rc_validator_id commitments"
  from made obtain w where chk: "sum_checked (check_reveal cr m rnd ?cm) ?rm = Inr w"
    by (auto simp: make_beacon_def Let_def bindE_Inr_iff split: if_splits)
  have "vid \<in> fst ` set ?rm" using vid keys_dict_of [of rr_validator_id reveals] by simp
  then obtain r where r: "(vid, r) \<in> set ?rm" by force
  with sum_checked_Inr [OF chk] obtain k where "check_reveal cr m rnd ?cm (vid, r) = Inr k" by blast
  from check_reveal_Inr [OF this] obtain c where c: "map_of ?cm vid = Some c" "commitment_of cr (rr_secret r) = rc_commitment c"
    by auto
  from set_dict_of [OF r] set_dict_of [OF map_of_SomeD [OF c(1)]] c(2) show ?thesis by metis
qed

text \<open>Which beacon a round gets: a quorum of reveals decides.\<close>

lemma round_beacon_mode:
  assumes "round_beacon cr m (dict_of rc_validator_id commitments) (dict_of rr_validator_id reveals) rnd = Inr b"
  shows "beacon_verify cr b \<and>
    (if snapshot_threshold (m_snapshot m) \<le> (\<Sum>i \<in> rr_validator_id ` set reveals. stake_in (m_snapshot m) i)
     then rb_mode b = ''reveal'' \<and> set (rb_reveal_ids b) = rr_validator_id ` set reveals
       \<and> (\<forall>vid \<in> rr_validator_id ` set reveals. \<exists>c \<in> set commitments. \<exists>r \<in> set reveals.
            rc_validator_id c = vid \<and> rr_validator_id r = vid \<and> rc_commitment c = commitment_of cr (rr_secret r))
     else rb_mode b = ''commitment-fallback'' \<and> set (rb_commitment_ids b) = rc_validator_id ` set commitments
       \<and> snapshot_threshold (m_snapshot m) \<le> (\<Sum>i \<in> rc_validator_id ` set commitments. stake_in (m_snapshot m) i))"
proof -
  let ?cm = "dict_of rc_validator_id commitments" and ?rm = "dict_of rr_validator_id reveals"
  let ?T = "snapshot_threshold (m_snapshot m)" and ?R = "rr_validator_id ` set reveals"
  from assms obtain w where w: "sum_checked (\<lambda>vid. bindE (lookup_key (by_id (m_snapshot m)) vid) (\<lambda>v. Inr (v_stake v))) (dict_keys ?rm) = Inr w"
    and made: "(if ?T \<le> w then make_beacon cr m (dict_values ?cm) (dict_values ?rm) rnd
      else make_fallback_beacon cr m (dict_values ?cm) rnd) = Inr b"
    by (auto simp: round_beacon_def bindE_Inr_iff split: if_splits sum.splits)
  have rv: "rr_validator_id ` set (dict_values ?rm) = ?R" "rc_validator_id ` set (dict_values ?cm) = rc_validator_id ` set commitments"
    by (rule dict_of_values)+
  have vals: "set (dict_values ?rm) \<subseteq> set reveals" "set (dict_values ?cm) \<subseteq> set commitments"
    by (auto dest: set_dict_of)
  have weight: "w = (\<Sum>i \<in> ?R. stake_in (m_snapshot m) i)"
    using reveal_weight [OF w wf_dict_of] unfolding keys_dict_of .
  show ?thesis
  proof (cases "?T \<le> w")
    case True
    with made have mk: "make_beacon cr m (dict_values ?cm) (dict_values ?rm) rnd = Inr b" by simp
    then have "rb_mode b = ''reveal''" by (auto simp: make_beacon_def Let_def bindE_Inr_iff split: if_splits)
    moreover have "\<exists>c \<in> set commitments. \<exists>r \<in> set reveals. rc_validator_id c = vid \<and> rr_validator_id r = vid
        \<and> rc_commitment c = commitment_of cr (rr_secret r)" if "vid \<in> ?R" for vid
      using make_beacon_opens [OF mk, of vid] that vals unfolding rv by blast
    moreover have "beacon_verify cr b" "set (rb_reveal_ids b) = ?R"
      using make_beacon_Inr [OF mk] unfolding rv by blast+
    ultimately show ?thesis using True unfolding weight by simp
  next
    case False
    with made have "make_fallback_beacon cr m (dict_values ?cm) rnd = Inr b" by simp
    from make_fallback_Inr [OF this, unfolded rv] False show ?thesis unfolding weight by simp
  qed
qed

text \<open>What a round does besides its beacon.\<close>

lemma settled_round:
  assumes ok: "manager_ok cr m" "ledger_ok l"
    and call: "settle_round cr commitments reveals vb rnd reward penalty (m, l) = (Inr t, (m', l'))"
  shows "round_beacon cr m (dict_of rc_validator_id commitments) (dict_of rr_validator_id reveals) rnd = Inr (rs_beacon t)
    \<and> set (rs_committed t) = rc_validator_id ` set commitments
    \<and> set (rs_revealed t) = rr_validator_id ` set reveals
    \<and> set (rs_non_revealed t) = set (rs_committed t) - set (rs_revealed t)
    \<and> (\<forall>vid. stake_at m' vid = (if vid \<in> set (rs_non_revealed t)
         then map_option (\<lambda>k. max 0 (k - penalty)) (stake_at m vid) else stake_at m vid))
    \<and> manager_ok cr m' \<and> ledger_ok l' \<and> total_value l' = total_value l"
proof -
  let ?cm = "dict_of rc_validator_id commitments" and ?rm = "dict_of rr_validator_id reveals"
  let ?missing = "sort (filter (\<lambda>vid. vid \<notin> set (dict_keys ?rm)) (dict_keys ?cm))"
  obtain ps s1 ws where pen: "0 \<le> penalty" and beacon: "round_beacon cr m ?cm ?rm rnd = Inr (rs_beacon t)"
    and all: "penalize_all cr vb rnd penalty ?missing (m, l) = (Inr ps, s1)"
    and pay: "pay_reveals cr vb (dict_keys ?rm) rnd reward s1 = (Inr ws, (m', l'))"
    and t: "rs_committed t = sort (dict_keys ?cm)" "rs_revealed t = sort (dict_keys ?rm)" "rs_non_revealed t = ?missing"
  proof (cases rule: settle_round_cases [of cr commitments reveals vb rnd reward penalty "(m, l)"])
    case (1 e)
    with call show ?thesis by simp
  next
    case (2 beacon T)
    from call [unfolded 2(3)] obtain ps s1 ws s2 where "penalize_all cr vb rnd penalty ?missing (m, l) = (Inr ps, s1)"
      "pay_reveals cr vb (dict_keys ?rm) rnd reward s1 = (Inr ws, s2)" "t = T ps ws s2" "s2 = (m', l')"
      by (auto elim!: thenS_Inr)
    with that [of ps s1 ws] 2 show ?thesis by simp
  qed
  have keys: "set (dict_keys ?cm) = rc_validator_id ` set commitments" "set (dict_keys ?rm) = rr_validator_id ` set reveals"
    by (rule keys_dict_of)+
  have wf: "distinct ?missing" by (simp add: wf_dict_of)
  have "m' = fst s1" using pay_reveals_manager [OF pay] by simp
  have stakes: "stake_at m' vid = (if vid \<in> set ?missing
         then map_option (\<lambda>k. max 0 (k - penalty)) (stake_at m vid) else stake_at m vid)" for vid
  proof (cases "penalty = 0")
    case True
    with all have "fst s1 = m" by (auto simp: penalize_none)
    moreover have "map_option (\<lambda>k. max 0 (k - 0)) (stake_at m vid) = stake_at m vid"
      using record_lookup [OF ok(1), of vid] by (cases "map_of (m_records m) vid") (simp_all add: stake_at_def record_ok_def)
    ultimately show ?thesis using True \<open>m' = fst s1\<close> by simp
  next
    case False
    with pen have "0 < penalty" by simp
    from penalize_all_stakes [OF all this wf, of vid] show ?thesis unfolding \<open>m' = fst s1\<close> by (simp only: fst_conv)
  qed
  from conservingD [OF conserving_settle_round _ _ call] ok
  have "manager_ok cr m'" "ledger_ok l'" "total_value l' = total_value l" by simp_all
  moreover have "set (rs_non_revealed t) = set (rs_committed t) - set (rs_revealed t)" unfolding t by auto
  ultimately show ?thesis using stakes t keys beacon by (simp only: set_sort) blast
qed

text \<open>
  C20. A settled randomness round. When \<open>settle_round\<close> returns, its beacon verifies. If the stake of the
  validators that revealed reaches the threshold, the beacon is of mode \<open>reveal\<close>, names exactly them, and each
  of their reveals opens the commitment of its validator. If it does not, the beacon is the fallback: it
  names those that committed, whose stake reaches the threshold. In both modes, the
  validators that committed are those that revealed and those that did not; the stake of each one that
  did not is cut by the penalty, down to zero at most, and no other stake changes; the ledger's total
  value is what it was, and the invariants of the manager and the ledger still hold.
\<close>

theorem round_settles:
  assumes ok: "manager_ok cr m" "ledger_ok l"
    and call: "settle_round cr commitments reveals vb rnd reward penalty (m, l) = (Inr t, (m', l'))"
  shows "beacon_verify cr (rs_beacon t)
    \<and> (if snapshot_threshold (m_snapshot m) \<le> (\<Sum>i \<in> set (rs_revealed t). stake_in (m_snapshot m) i)
       then rb_mode (rs_beacon t) = ''reveal'' \<and> set (rb_reveal_ids (rs_beacon t)) = set (rs_revealed t)
         \<and> (\<forall>vid \<in> set (rs_revealed t). \<exists>c \<in> set commitments. \<exists>r \<in> set reveals.
              rc_validator_id c = vid \<and> rr_validator_id r = vid \<and> rc_commitment c = commitment_of cr (rr_secret r))
       else rb_mode (rs_beacon t) = ''commitment-fallback'' \<and> set (rb_commitment_ids (rs_beacon t)) = set (rs_committed t)
         \<and> snapshot_threshold (m_snapshot m) \<le> (\<Sum>i \<in> set (rs_committed t). stake_in (m_snapshot m) i))
    \<and> set (rs_committed t) = rc_validator_id ` set commitments
    \<and> set (rs_revealed t) = rr_validator_id ` set reveals
    \<and> set (rs_non_revealed t) = set (rs_committed t) - set (rs_revealed t)
    \<and> (\<forall>vid. stake_at m' vid = (if vid \<in> set (rs_non_revealed t)
         then map_option (\<lambda>k. max 0 (k - penalty)) (stake_at m vid) else stake_at m vid))
    \<and> manager_ok cr m' \<and> ledger_ok l' \<and> total_value l' = total_value l"
proof -
  note r = settled_round [OF ok call]
  then have ids: "set (rs_committed t) = rc_validator_id ` set commitments" "set (rs_revealed t) = rr_validator_id ` set reveals"
    by blast+
  from r have "round_beacon cr m (dict_of rc_validator_id commitments) (dict_of rr_validator_id reveals) rnd = Inr (rs_beacon t)"
    by blast
  note round_beacon_mode [OF this, folded ids]
  with r show ?thesis unfolding ids by blast
qed

subsection \<open>A concrete round\<close>

text \<open>One validator commits. It does not reveal in time, or it does.\<close>

definition missed :: randomness_commitment where
  "missed = commitment_create demo_crypto \<lparr>private_bytes = ''k''\<rparr> 0 0 ''x'' (Some ''v'')"

lemma missed_fields: "rc_validator_id missed = ''v''" "rc_epoch missed = 0" "rc_round missed = 0"
  "rc_commitment missed = commitment_of demo_crypto ''x''" "rc_signature missed = ''k''"
  by (simp_all add: missed_def commitment_create_def)

lemma missed_signed: "verify demo_crypto ''k'' (canonical_bytes (commitment_statement missed)) ''k''"
  by simp

abbreviation voting :: manager where
  "voting \<equiv> refresh demo_crypto demo_manager"

lemma voting: "m_epoch voting = 0" "by_id (m_snapshot voting) = [(''v'', \<lparr>v_id = ''v'', v_public_key = ''k'', v_stake = 10, v_deposit_id = ''d'',
     v_active = True, v_locked_until = 0, v_jailed = False\<rparr>)]" "snapshot_threshold (m_snapshot voting) = 7"
   "epoch_of voting = 0" "m_records voting = [(''v'', \<lparr>v_id = ''v'', v_public_key = ''k'', v_stake = 10, v_deposit_id = ''d'',
     v_active = True, v_locked_until = 0, v_jailed = False\<rparr>)]" "non_reveal_history voting = {}"
  by (simp_all add: refresh_def build_snapshot_def demo_manager_def set_record_def manager_init_def by_id_def votes_def
      snapshot_threshold_def total_stake_def dict_of_def epoch_of_def Let_def)

lemma missed_round: "\<exists>b. round_beacon demo_crypto voting [(''v'', missed)] [] 0 = Inr b"
  by (simp add: round_beacon_def make_fallback_beacon_def dict_of_def missed_fields Let_def check_commitment_def
     voting to_bytes8_def commitment_of_def)

lemma missed_settles: "\<exists>t m l. settle_round demo_crypto [missed] [] [(''v'', ''b1'')] 0 0 1 (voting, demo_ledger) = (Inr t, (m, l))"
proof -
  obtain b where b: "round_beacon demo_crypto voting [(''v'', missed)] [] 0 = Inr b" using missed_round by blast
  have cm: "dict_of rc_validator_id [missed] = [(''v'', missed)]" "dict_of rr_validator_id [] = []"
    by (simp_all add: dict_of_def missed_fields)
  obtain evs l where s: "settle_slash demo_crypto ''b1'' 1 0 (non_reveal_evidence 0 0 ''v'') None demo_ledger = (Inr evs, l)"
    by (auto simp: settle_slash_def thenS_def position_def demo_ledger_def Let_def
      log_event_def has_key_def credit_def set_position_def balance_of_def non_reveal_evidence_def)
  obtain v m where p: "penalize_non_reveal demo_crypto ''v'' 0 0 1 voting = (Inr v, m)"
    by (auto simp: penalize_non_reveal_def voting Let_def)
  show ?thesis
    using b s p by (simp add: settle_round_def cm round_refused_def voting Let_def penalize_one_def on_round_ledger_def
      on_round_manager_def pay_reveals_def thenS_def)
qed

definition shown :: randomness_reveal where
  "shown = reveal_create demo_crypto \<lparr>private_bytes = ''k''\<rparr> 0 0 ''x'' (commitment_of demo_crypto ''x'') (Some ''v'')"

lemma shown_fields: "rr_validator_id shown = ''v''" "rr_epoch shown = 0" "rr_round shown = 0" "rr_secret shown = ''x''"
  "rr_commitment shown = commitment_of demo_crypto ''x''" "rr_signature shown = ''k''"
  by (simp_all add: shown_def reveal_create_def Let_def)

lemma shown_settles: "\<exists>t m l. settle_round demo_crypto [missed] [shown] [(''v'', ''b1'')] 0 0 1 (voting, demo_ledger) = (Inr t, (m, l))"
proof -
  have maps: "dict_of rc_validator_id [missed] = [(''v'', missed)]" "dict_of rr_validator_id [shown] = [(''v'', shown)]"
    by (simp_all add: dict_of_def missed_fields shown_fields)
  have "\<exists>b. make_beacon demo_crypto voting [missed] [shown] 0 = Inr b"
    by (simp add: make_beacon_def maps Let_def check_reveal_def voting missed_fields shown_fields to_bytes8_def)
  then obtain b where "round_beacon demo_crypto voting [(''v'', missed)] [(''v'', shown)] 0 = Inr b"
    by (auto simp: round_beacon_def lookup_key_def voting)
  then show ?thesis
    by (simp add: settle_round_def maps round_refused_def voting Let_def pay_reveals_def thenS_def)
qed

lemma voting_ok: "manager_ok demo_crypto voting"
  by (rule refresh_ok) (simp_all add: demo_manager_def set_record_def manager_init_def records_ok_def
      record_ok_def refresh_def)

theorem round_settles_witness:
  "(\<exists>t m l. settle_round demo_crypto [missed] [shown] [(''v'', ''b1'')] 0 0 1 (voting, demo_ledger) = (Inr t, (m, l))
     \<and> rb_mode (rs_beacon t) = ''reveal'' \<and> stake_at m ''v'' = Some 10)
   \<and> (\<exists>t m l. settle_round demo_crypto [missed] [] [(''v'', ''b1'')] 0 0 1 (voting, demo_ledger) = (Inr t, (m, l))
     \<and> rb_mode (rs_beacon t) = ''commitment-fallback'' \<and> stake_at m ''v'' = Some 9 \<and> total_value l = 37)"
proof
  have stakes: "stake_in (m_snapshot voting) ''v'' = 10" "stake_at voting ''v'' = Some 10"
    by (simp_all add: stake_in_def stake_at_def voting)
  obtain t m l where c: "settle_round demo_crypto [missed] [shown] [(''v'', ''b1'')] 0 0 1 (voting, demo_ledger) = (Inr t, (m, l))"
    using shown_settles by blast
  note facts = round_settles [OF voting_ok demo_ledger_ok c, unfolded voting(3) if_bool_eq_conj]
  from facts have sets: "set (rs_committed t) = rc_validator_id ` set [missed]" "set (rs_revealed t) = rr_validator_id ` set [shown]"
    "set (rs_non_revealed t) = set (rs_committed t) - set (rs_revealed t)"
    and st: "\<forall>vid. stake_at m vid = (if vid \<in> set (rs_non_revealed t)
         then map_option (\<lambda>k. max 0 (k - 1)) (stake_at voting vid) else stake_at voting vid)"
    and total: "total_value l = total_value demo_ledger" by - (elim conjE, assumption)+
  then have none: "set (rs_revealed t) = {''v''}" "set (rs_non_revealed t) = {}"
    by (simp_all add: shown_fields missed_fields)
  have "7 \<le> (\<Sum>i \<in> set (rs_revealed t). stake_in (m_snapshot voting) i)" by (simp add: stakes none)
  with facts have mode: "rb_mode (rs_beacon t) = ''reveal''" by - (elim conjE, drule (1) mp, elim conjE, assumption)
  have "stake_at m ''v'' = Some 10" using spec [OF st, of "''v''"] by (simp add: stakes none)
  with c mode show "\<exists>t m l. settle_round demo_crypto [missed] [shown] [(''v'', ''b1'')] 0 0 1 (voting, demo_ledger) = (Inr t, (m, l))
     \<and> rb_mode (rs_beacon t) = ''reveal'' \<and> stake_at m ''v'' = Some 10" by blast
  obtain t m l where c: "settle_round demo_crypto [missed] [] [(''v'', ''b1'')] 0 0 1 (voting, demo_ledger) = (Inr t, (m, l))"
    using missed_settles by blast
  note facts = round_settles [OF voting_ok demo_ledger_ok c, unfolded voting(3) if_bool_eq_conj]
  from facts have sets: "set (rs_committed t) = rc_validator_id ` set [missed]" "set (rs_revealed t) = rr_validator_id ` set ([] :: randomness_reveal list)"
    "set (rs_non_revealed t) = set (rs_committed t) - set (rs_revealed t)"
    and st: "\<forall>vid. stake_at m vid = (if vid \<in> set (rs_non_revealed t)
         then map_option (\<lambda>k. max 0 (k - 1)) (stake_at voting vid) else stake_at voting vid)"
    and total: "total_value l = total_value demo_ledger" by - (elim conjE, assumption)+
  then have none: "set (rs_revealed t) = {}" "set (rs_non_revealed t) = {''v''}"
    by (simp_all add: missed_fields)
  have "\<not> 7 \<le> (\<Sum>i \<in> set (rs_revealed t). stake_in (m_snapshot voting) i)" by (simp add: none)
  with facts have mode: "rb_mode (rs_beacon t) = ''commitment-fallback''" by - (elim conjE, drule (1) mp, elim conjE, assumption)
  have stake: "stake_at m ''v'' = Some 9" using spec [OF st, of "''v''"] by (simp add: stakes none)
  have "total_value l = 37" unfolding total by (simp add: total_value_def demo_ledger_def)
  with c mode stake show "\<exists>t m l. settle_round demo_crypto [missed] [] [(''v'', ''b1'')] 0 0 1 (voting, demo_ledger) = (Inr t, (m, l))
     \<and> rb_mode (rs_beacon t) = ''commitment-fallback'' \<and> stake_at m ''v'' = Some 9 \<and> total_value l = 37" by blast
qed

end
