(* ===== verification/Beacon_Props.thy ===== *)
theory Beacon_Props
  imports Beacon Randomness_Props
begin

section \<open>Beacon rounds\<close>

text \<open>
  What a coordinator of beacon rounds has accepted or settled stays as it is on every sequence of
  calls; and one commitment that is not hexadecimal stops a round.
\<close>

subsection \<open>What a coordinator keeps\<close>

datatype service_call =
    Commit randomness_commitment
  | Reveal randomness_reveal
  | FinalizeRound int int int
  | Onboard admission_request stake_bond "string list"
  | Membership manager_call

definition serve :: "crypto \<Rightarrow> service_call \<Rightarrow> services \<Rightarrow> services" where
  "serve cr call s = (case call of
     Commit c \<Rightarrow> snd (submit_commitment cr c s)
   | Reveal r \<Rightarrow> snd (submit_reveal cr r s)
   | FinalizeRound rnd reward penalty \<Rightarrow> snd (beacon_finalize cr rnd reward penalty s)
   | Onboard r b approvers \<Rightarrow> snd (onboard cr r b approvers s)
   | Membership mc \<Rightarrow> s\<lparr>sv_manager := manage cr mc (sv_manager s)\<rparr>)"

definition opens :: "crypto \<Rightarrow> randomness_reveal \<Rightarrow> randomness_commitment \<Rightarrow> bool" where
  "opens cr r c \<longleftrightarrow> commitment_key c = reveal_key r \<and> rc_commitment c = commitment_of cr (rr_secret r)"

definition rounds_ok :: "crypto \<Rightarrow> services \<Rightarrow> bool" where
  "rounds_ok cr s \<longleftrightarrow> (\<forall>k c. map_of (sv_commitments s) k = Some c \<longrightarrow> commitment_key c = k)
     \<and> (\<forall>k r. map_of (sv_reveals s) k = Some r \<longrightarrow> reveal_key r = k
          \<and> (\<exists>c. map_of (sv_commitments s) k = Some c \<and> opens cr r c))"

lemma rounds_okD:
  assumes "rounds_ok cr s" "map_of (sv_reveals s) k = Some r"
  shows "reveal_key r = k" "\<exists>c. map_of (sv_commitments s) k = Some c \<and> opens cr r c"
  using assms unfolding rounds_ok_def by blast+

text \<open>What has been accepted or settled stays as it is.\<close>

definition rounds_extend :: "services \<Rightarrow> services \<Rightarrow> bool" where
  "rounds_extend s s' \<longleftrightarrow> map_of (sv_commitments s) \<subseteq>\<^sub>m map_of (sv_commitments s')
     \<and> map_of (sv_reveals s) \<subseteq>\<^sub>m map_of (sv_reveals s')
     \<and> map_of (sv_settlements s) \<subseteq>\<^sub>m map_of (sv_settlements s')"

lemma rounds_extend_refl [intro]: "rounds_extend s s"
  by (simp add: rounds_extend_def)

lemma rounds_extend_trans: "rounds_extend s s' \<Longrightarrow> rounds_extend s' s'' \<Longrightarrow> rounds_extend s s''"
  unfolding rounds_extend_def by (meson map_le_trans)

definition same_rounds :: "services \<Rightarrow> services \<Rightarrow> bool" where
  "same_rounds s s' \<longleftrightarrow> sv_commitments s' = sv_commitments s \<and> sv_reveals s' = sv_reveals s
     \<and> sv_settlements s' = sv_settlements s"

lemma same_rounds_refl [simp]: "same_rounds s s"
  by (simp add: same_rounds_def)

lemma same_rounds_store [simp]: "same_rounds s (s'\<lparr>sv_store := x\<rparr>) = same_rounds s s'"
  "same_rounds s (s'\<lparr>sv_manager := m\<rparr>) = same_rounds s s'"
  by (simp_all add: same_rounds_def)

lemma same_rounds_keeps: "rounds_ok cr s \<Longrightarrow> same_rounds s s' \<Longrightarrow> rounds_ok cr s' \<and> rounds_extend s s'"
  by (simp add: rounds_ok_def rounds_extend_def same_rounds_def)

lemma save_same: "keeps (same_rounds s) (save f)"
  by (rule keepsI) (auto simp: save_def split: option.splits prod.splits sum.splits)

lemma save_ledger_same: "keeps (same_rounds s) (save_ledger cr)"
  by (rule keepsI) (auto simp: save_ledger_def split: sum.splits dest: keepsD [OF save_same])

lemma on_membership_same: "keeps (same_rounds s) (on_membership f)"
  by (rule keepsI) (auto simp: on_membership_def split: prod.splits sum.splits)

lemma onboard_same: "keeps (same_rounds s0) (onboard cr r b approvers)"
proof (rule keepsI)
  fix s res s'
  assume same: "same_rounds s0 s" and call: "onboard cr r b approvers s = (res, s')"
  have row: "keeps (same_rounds s0) (\<lambda>s. case ledger_of s of Inl e \<Rightarrow> (Inl e, s)
      | Inr l \<Rightarrow> thenS (save (f s l)) (\<lambda>_ s. (Inr c, s)) s)" for f :: "services \<Rightarrow> ledger \<Rightarrow> durable_store \<Rightarrow> unit s_outcome"
      and c :: admission_certificate
    by (rule keepsI) (auto split: sum.splits elim!: thenS_cases dest: keepsD [OF save_same])
  have fin: "keeps (same_rounds s0) (\<lambda>s. if sv_store s = None then raise_v e s else thenS (save_ledger cr)
      (\<lambda>_ s. case ledger_of s of Inl e \<Rightarrow> (Inl e, s) | Inr l \<Rightarrow> thenS (save (f s l)) (\<lambda>_ s. (Inr c, s)) s) s)" for e f
      and c :: admission_certificate
    by (rule keepsI)
      (auto simp: raise_v_def split: if_splits dest: keepsD [OF keeps_thenS [OF save_ledger_same row]])
  from call same show "same_rounds s0 s'"
    unfolding onboard_def
    by (auto simp: raise_v_def split: if_splits sum.splits dest: keepsD [OF keeps_thenS [OF on_membership_same fin]])
qed

lemma settle_services_same: "keeps (same_rounds s0) (settle_services cr rnd reward penalty)"
  by (rule keepsI) (auto simp: settle_services_def Let_def split: sum.splits prod.splits)

definition progresses :: "crypto \<Rightarrow> services \<Rightarrow> services \<Rightarrow> bool" where
  "progresses cr s s' \<longleftrightarrow> rounds_ok cr s' \<and> rounds_extend s s'"

lemma add_fresh: "(\<And>old. map_of d k = Some old \<Longrightarrow> old = v) \<Longrightarrow> map_of d \<subseteq>\<^sub>m map_of (AList.update k v d)"
  by (auto simp: map_le_def)

lemma commit_progresses:
  assumes ok: "rounds_ok cr s" and call: "submit_commitment cr c s = (res, s')"
  shows "progresses cr s s'"
proof (cases "s' = s")
  case True
  with ok show ?thesis by (auto simp: progresses_def)
next
  case False
  let ?s1 = "s\<lparr>sv_commitments := AList.update (commitment_key c) c (sv_commitments s)\<rparr>"
  from call False obtain f where new: "\<not> (case map_of (sv_commitments s) (commitment_key c) of None \<Rightarrow> False | Some old \<Rightarrow> old \<noteq> c)"
    and saved: "save f ?s1 = (res, s')"
    by (auto simp: submit_commitment_def raise_v_def split: option.splits if_splits)
  from new have fresh: "old = c" if "map_of (sv_commitments s) (commitment_key c) = Some old" for old
    using that by simp
  have le: "map_of (sv_commitments s) \<subseteq>\<^sub>m map_of (sv_commitments ?s1)"
    using add_fresh [of "sv_commitments s" "commitment_key c" c] fresh by simp
  have "rounds_ok cr ?s1"
    unfolding rounds_ok_def
  proof (intro conjI allI impI)
    fix k r
    assume r: "map_of (sv_reveals ?s1) k = Some r"
    note was = rounds_okD [OF ok, of k r]
    from r was show "reveal_key r = k" by simp
    from r was obtain x where "map_of (sv_commitments s) k = Some x" "opens cr r x" by auto
    with le show "\<exists>x. map_of (sv_commitments ?s1) k = Some x \<and> opens cr r x" by (metis domI map_le_def)
  qed (use ok in \<open>auto simp: rounds_ok_def split: if_splits\<close>)
  moreover have "rounds_extend s ?s1" using le by (simp add: rounds_extend_def)
  moreover have "same_rounds ?s1 s'" by (rule keepsD [OF save_same _ saved]) simp
  ultimately show ?thesis using same_rounds_keeps rounds_extend_trans unfolding progresses_def by blast
qed

lemma reveal_progresses:
  assumes ok: "rounds_ok cr s" and call: "submit_reveal cr r s = (res, s')"
  shows "progresses cr s s'"
proof (cases "s' = s")
  case True
  with ok show ?thesis by (auto simp: progresses_def)
next
  case False
  let ?s1 = "s\<lparr>sv_reveals := AList.update (reveal_key r) r (sv_reveals s)\<rparr>"
  from call False obtain f c where
    com: "map_of (sv_commitments s) (reveal_key r) = Some c" "rc_commitment c = rr_commitment r"
    and secret: "rr_commitment r = commitment_of cr (rr_secret r)"
    and new: "\<not> (case map_of (sv_reveals s) (reveal_key r) of None \<Rightarrow> False | Some old \<Rightarrow> old \<noteq> r)"
    and saved: "save f ?s1 = (res, s')"
    by (auto simp: submit_reveal_def raise_v_def split: option.splits if_splits)
  from com(1) ok have "commitment_key c = reveal_key r" unfolding rounds_ok_def by blast
  with com(2) secret have op: "opens cr r c" by (simp add: opens_def)
  have "rounds_ok cr ?s1" using ok com(1) op by (auto simp: rounds_ok_def)
  moreover have "rounds_extend s ?s1"
    using add_fresh [of "sv_reveals s" "reveal_key r" r] new by (simp add: rounds_extend_def split: option.splits)
  moreover have "same_rounds ?s1 s'" by (rule keepsD [OF save_same _ saved]) simp
  ultimately show ?thesis using same_rounds_keeps rounds_extend_trans unfolding progresses_def by blast
qed

lemma finalize_progresses:
  assumes ok: "rounds_ok cr s" and call: "beacon_finalize cr rnd reward penalty s = (res, s')"
  shows "progresses cr s s'"
proof -
  let ?ep = "epoch_of (sv_manager s)"
  have same: "progresses cr s x" if "same_rounds s x" for x
    using same_rounds_keeps [OF ok that] by (simp add: progresses_def)
  consider (unchanged) "s' = s" | (refused) e where "settle_services cr rnd reward penalty s = (Inl e, s')"
    | (settled) t s1 where "map_of (sv_settlements s) (?ep, rnd) = None"
      "settle_services cr rnd reward penalty s = (Inr t, s1)"
      "same_rounds (s1\<lparr>sv_settlements := AList.update (?ep, rnd) t (sv_settlements s1)\<rparr>) s'"
  proof -
    have row: "keeps (same_rounds x) (\<lambda>s. case ledger_of s of Inl e \<Rightarrow> (Inl e, s)
      | Inr l \<Rightarrow> thenS (save (f s l)) (\<lambda>_ s. (Inr c, s)) s)" for f :: "services \<Rightarrow> ledger \<Rightarrow> durable_store \<Rightarrow> unit s_outcome"
      and c :: round_settlement and x
      by (rule keepsI) (auto split: sum.splits elim!: thenS_cases dest: keepsD [OF save_same])
    have saved: "same_rounds x s'" if "thenS (save_ledger cr) (\<lambda>_ s. case ledger_of s of Inl e \<Rightarrow> (Inl e, s)
      | Inr l \<Rightarrow> thenS (save (store_put ''beacon_round'' (rs_id t) (settlement_json cr t (sv_manager s) l) True))
          (\<lambda>_ s. (Inr t, s)) s) x = (res, s')" for x t
      by (rule keepsD [OF keeps_thenS [OF save_ledger_same row] same_rounds_refl that])
    from call that show ?thesis
      unfolding beacon_finalize_def Let_def
      by (auto simp: raise_v_def split: option.splits if_splits elim!: thenS_cases [of "settle_services cr rnd reward penalty"])
        (drule saved, blast)
  qed
  then show ?thesis
  proof cases
    case (settled t s1)
    have s1: "same_rounds s s1" by (rule keepsD [OF settle_services_same same_rounds_refl settled(2)])
    let ?s2 = "s1\<lparr>sv_settlements := AList.update (?ep, rnd) t (sv_settlements s1)\<rparr>"
    have "map_of (sv_settlements s1) (?ep, rnd) = None" using settled(1) s1 by (simp add: same_rounds_def)
    then have "rounds_extend s1 ?s2"
      using add_fresh [of "sv_settlements s1" "(?ep, rnd)" t] by (simp add: rounds_extend_def)
    moreover have "rounds_ok cr ?s2" using same [OF s1] by (simp add: progresses_def rounds_ok_def)
    ultimately show ?thesis
      using same [OF s1] same_rounds_keeps [OF _ settled(3)] rounds_extend_trans unfolding progresses_def by blast
  qed (use same in \<open>auto dest: keepsD [OF settle_services_same same_rounds_refl]\<close>)
qed

lemma serve_progresses:
  assumes "rounds_ok cr s"
  shows "progresses cr s (serve cr call s)"
proof (cases call)
  case (Commit c)
  then show ?thesis using commit_progresses [OF assms prod.collapse [symmetric]] by (simp add: serve_def)
next
  case (Reveal r)
  then show ?thesis using reveal_progresses [OF assms prod.collapse [symmetric]] by (simp add: serve_def)
next
  case (FinalizeRound rnd reward penalty)
  then show ?thesis using finalize_progresses [OF assms prod.collapse [symmetric]] by (simp add: serve_def)
next
  case (Onboard r b approvers)
  have "same_rounds s (snd (onboard cr r b approvers s))"
    by (rule keepsD [OF onboard_same same_rounds_refl prod.collapse [symmetric]])
  then show ?thesis using Onboard same_rounds_keeps [OF assms] by (simp add: serve_def progresses_def)
next
  case (Membership mc)
  have "same_rounds s (serve cr call s)" by (simp add: Membership serve_def)
  then show ?thesis using same_rounds_keeps [OF assms] by (simp add: progresses_def)
qed

lemma serve_all: "rounds_ok cr s \<Longrightarrow> progresses cr s (fold (serve cr) calls s)"
proof (induction calls arbitrary: s)
  case Nil
  then show ?case by (auto simp: progresses_def)
next
  case (Cons call calls)
  from serve_progresses [OF Cons.prems] have one: "rounds_ok cr (serve cr call s)" "rounds_extend s (serve cr call s)"
    by (simp_all add: progresses_def)
  from Cons.IH [OF one(1)] one(2) show ?case using rounds_extend_trans by (auto simp: progresses_def)
qed

lemma services_init_ok: "rounds_ok cr (services_init m db)"
  by (simp add: rounds_ok_def services_init_def)

text \<open>
  C21. Beacon rounds bind. Whatever calls a coordinator has served, failed ones, admissions and
  membership changes included: a commitment or reveal it accepted stays as it is whatever is submitted
  later, every reveal it accepted opens the validator's commitment for that round, and a round that
  has been settled in the current epoch returns the same settlement for any later amounts, changing
  nothing.
\<close>

theorem beacon_rounds_bind:
  assumes "s = fold (serve cr) calls (services_init m db)" "s' = fold (serve cr) later s"
  shows "map_of (sv_commitments s) \<subseteq>\<^sub>m map_of (sv_commitments s')
    \<and> map_of (sv_reveals s) \<subseteq>\<^sub>m map_of (sv_reveals s')
    \<and> (\<forall>k r. map_of (sv_reveals s') k = Some r \<longrightarrow> (\<exists>c. map_of (sv_commitments s') k = Some c
         \<and> rc_validator_id c = rr_validator_id r \<and> rc_commitment c = commitment_of cr (rr_secret r)))
    \<and> (\<forall>rnd t. map_of (sv_settlements s) (epoch_of (sv_manager s'), rnd) = Some t \<longrightarrow>
         beacon_finalize cr rnd reward penalty s' = (Inr t, s'))"
proof -
  have "progresses cr (services_init m db) s" unfolding assms(1) by (rule serve_all [OF services_init_ok])
  then have "progresses cr s s'" unfolding assms(2) by (intro serve_all) (simp add: progresses_def)
  then have ok: "rounds_ok cr s'" and ext: "rounds_extend s s'" by (simp_all add: progresses_def)
  have "\<exists>c. map_of (sv_commitments s') k = Some c
         \<and> rc_validator_id c = rr_validator_id r \<and> rc_commitment c = commitment_of cr (rr_secret r)"
    if "map_of (sv_reveals s') k = Some r" for k r
    using rounds_okD(2) [OF ok that] by (auto simp: opens_def commitment_key_def reveal_key_def)
  moreover have "beacon_finalize cr rnd reward penalty s' = (Inr t, s')"
    if "map_of (sv_settlements s) (epoch_of (sv_manager s'), rnd) = Some t" for rnd t
  proof -
    from that ext have "map_of (sv_settlements s') (epoch_of (sv_manager s'), rnd) = Some t"
      by (auto simp: rounds_extend_def map_le_def dom_def)
    then show ?thesis by (simp add: beacon_finalize_def Let_def)
  qed
  ultimately show ?thesis using ext by (simp add: rounds_extend_def)
qed

definition demo_services :: services where
  "demo_services = services_init voting None"

lemma demo_commit: "submit_commitment demo_crypto missed demo_services =
    (Inr (), demo_services\<lparr>sv_commitments := [((0, 0, ''v''), missed)]\<rparr>)"
proof -
  have "commitment_of demo_crypto ''x'' \<noteq> []" by (simp add: commitment_of_def demo_crypto_def)
  then show ?thesis
    by (simp add: submit_commitment_def demo_services_def services_init_def voting missed_fields commitment_key_def save_def)
qed

theorem beacon_rounds_bind_witness:
  "map_of (sv_commitments (fold (serve demo_crypto) [Commit (missed\<lparr>rc_commitment := ''00''\<rparr>), Membership Advance]
     (fold (serve demo_crypto) [Commit missed] demo_services))) (0, 0, ''v'') = Some missed"
proof -
  have "fold (serve demo_crypto) [Commit missed] demo_services = demo_services\<lparr>sv_commitments := [((0, 0, ''v''), missed)]\<rparr>"
    by (simp add: serve_def demo_commit)
  then have "map_of (sv_commitments (fold (serve demo_crypto) [Commit missed] demo_services)) (0, 0, ''v'') = Some missed"
    by simp
  with beacon_rounds_bind [OF refl refl, of demo_crypto "[Commit missed]" voting None
      "[Commit (missed\<lparr>rc_commitment := ''00''\<rparr>), Membership Advance]"] show ?thesis
    unfolding demo_services_def map_le_def by (metis domI)
qed

subsection \<open>A commitment that cannot be read\<close>

lemma join_hex_bad: "s \<in> set ss \<Longrightarrow> fromhex s = None \<Longrightarrow> \<exists>e. join_hex ss = Inl e"
  by (induction ss) (auto split: option.splits sum.splits simp: bindE_def)

lemma unreadable_round:
  assumes com: "map_of (dict_of rc_validator_id commitments) vid = Some c" "fromhex (rc_commitment c) = None"
    and few: "(\<Sum>i \<in> rr_validator_id ` set reveals. stake_in (m_snapshot m) i) < snapshot_threshold (m_snapshot m)"
  shows "\<exists>e. round_beacon cr m (dict_of rc_validator_id commitments) (dict_of rr_validator_id reveals) rnd = Inl e"
proof (rule ccontr)
  let ?cm = "dict_of rc_validator_id commitments" and ?rm = "dict_of rr_validator_id reveals"
  let ?cm' = "dict_of rc_validator_id (dict_values ?cm)"
  assume "\<not> (\<exists>e. round_beacon cr m ?cm ?rm rnd = Inl e)"
  then obtain b where "round_beacon cr m ?cm ?rm rnd = Inr b" by (cases "round_beacon cr m ?cm ?rm rnd") auto
  then obtain w where w: "sum_checked (\<lambda>vid. bindE (lookup_key (by_id (m_snapshot m)) vid) (\<lambda>v. Inr (v_stake v))) (dict_keys ?rm) = Inr w"
    and made: "(case (if snapshot_threshold (m_snapshot m) \<le> w then make_beacon cr m (dict_values ?cm) (dict_values ?rm) rnd
      else make_fallback_beacon cr m (dict_values ?cm) rnd) of Inl e \<Rightarrow> Inl (as_incentive_error e) | Inr b \<Rightarrow> Inr b) = Inr b"
    by (auto simp: round_beacon_def bindE_Inr_iff)
  have "w = (\<Sum>i \<in> rr_validator_id ` set reveals. stake_in (m_snapshot m) i)"
    using reveal_weight [OF w wf_dict_of] keys_dict_of [of rr_validator_id reveals] by simp
  with few made have "make_fallback_beacon cr m (dict_values ?cm) rnd = Inr b" by (simp split: sum.splits)
  then obtain joined where "join_hex (map (\<lambda>i. rc_commitment (the (map_of ?cm' i))) (sort (dict_keys ?cm'))) = Inr joined"
    by (auto simp: make_fallback_beacon_def Let_def bindE_Inr_iff split: if_splits)
  moreover note same = dict_of_dict_of [of rc_validator_id commitments]
  have "vid \<in> set (sort (dict_keys ?cm'))" using com(1) unfolding same by (force dest: map_of_SomeD)
  then have "rc_commitment c \<in> set (map (\<lambda>i. rc_commitment (the (map_of ?cm' i))) (sort (dict_keys ?cm')))"
    unfolding same using com(1) by force
  ultimately show False using join_hex_bad [OF _ com(2)] by fastforce
qed

text \<open>
  One validator can stop a round for good. \<open>submit_commitment\<close> accepts any text as a commitment
  that is not empty and is signed; the fallback beacon reads the commitments as hexadecimal. When
  one of the commitments of a round is not hexadecimal and those who revealed hold less than the
  threshold, \<open>finalize\<close> raises and changes nothing, whatever the amounts, although the fallback is
  there to settle such rounds.
\<close>

theorem unreadable_commitment_blocks:
  assumes fresh: "map_of (sv_settlements s) (epoch_of (sv_manager s), rnd) = None"
    and com: "map_of (dict_of rc_validator_id (round_items (epoch_of (sv_manager s)) rnd (sv_commitments s))) vid = Some c"
    and bad: "fromhex (rc_commitment c) = None"
    and few: "(\<Sum>i \<in> rr_validator_id ` set (round_items (epoch_of (sv_manager s)) rnd (sv_reveals s)).
        stake_in (m_snapshot (sv_manager s)) i) < snapshot_threshold (m_snapshot (sv_manager s))"
  shows "\<exists>e. beacon_finalize cr rnd reward penalty s = (Inl e, s)"
proof -
  let ?cs = "round_items (epoch_of (sv_manager s)) rnd (sv_commitments s)"
    and ?rs = "round_items (epoch_of (sv_manager s)) rnd (sv_reveals s)" and ?m = "sv_manager s"
  from com have ne: "?cs \<noteq> []" by (auto simp: dict_of_def)
  have "\<exists>e. settle_services cr rnd reward penalty s = (Inl e, s)"
  proof (cases "settlement ?m")
    case None
    then show ?thesis by (simp add: settle_services_def ledger_of_def Let_def)
  next
    case (Some l)
    obtain e where "settle_round cr ?cs ?rs (validator_bonds ?m) rnd reward penalty (?m, l) = (Inl e, (?m, l))"
      by (cases rule: settle_round_cases [of cr ?cs ?rs "validator_bonds ?m" rnd reward penalty "(?m, l)"])
        (use unreadable_round [OF com bad few, of cr rnd] in auto)
    moreover have "s\<lparr>sv_manager := ?m\<lparr>settlement := Some l\<rparr>\<rparr> = s" using Some by simp
    ultimately show ?thesis
      using Some by (simp add: settle_services_def ledger_of_def Let_def split: randomness_error.splits)
  qed
  with fresh ne show ?thesis by (auto simp: beacon_finalize_def Let_def thenS_def)
qed

definition unreadable :: randomness_commitment where
  "unreadable = missed\<lparr>rc_commitment := ''zz''\<rparr>"

definition stuck_services :: services where
  "stuck_services = demo_services\<lparr>sv_commitments := [((0, 0, ''v''), unreadable)]\<rparr>"

theorem unreadable_commitment_blocks_witness:
  "submit_commitment demo_crypto unreadable demo_services = (Inr (), stuck_services)
   \<and> (\<exists>e. beacon_finalize demo_crypto 0 1 1 stuck_services = (Inl e, stuck_services))"
proof
  show "submit_commitment demo_crypto unreadable demo_services = (Inr (), stuck_services)"
    by (simp add: submit_commitment_def demo_services_def services_init_def voting missed_fields commitment_key_def
        save_def unreadable_def stuck_services_def)
  have items: "round_items 0 0 (sv_commitments stuck_services) = [unreadable]" "round_items 0 0 (sv_reveals stuck_services) = []"
    "sv_manager stuck_services = voting" "sv_settlements stuck_services = []"
    by (simp_all add: stuck_services_def demo_services_def services_init_def round_items_def)
  have "fromhex ''zz'' = None" by (simp add: hexval_def is_space_def Let_def)
  then show "\<exists>e. beacon_finalize demo_crypto 0 1 1 stuck_services = (Inl e, stuck_services)"
    by (intro unreadable_commitment_blocks [where c = unreadable and vid = "''v''"])
      (simp_all add: items voting dict_of_def unreadable_def missed_fields)
qed

end
