(* ===== verification/Onboarding_Props.thy ===== *)
theory Onboarding_Props
  imports Beacon_Props Gossip_Recovery
begin

section \<open>Admissions survive a restart\<close>

text \<open>
  A node that starts again over its store rebuilds the configured members, and
  \<open>restore_from_store\<close> adds the validators that were onboarded while it ran, as they were admitted:
  what has happened to them since is not in the store. \<open>recorded\<close> relates a coordinator to the admissions
  it has stored; every call it serves keeps this, and restoring such a store gives the records of the
  configuration and of the admissions.
\<close>

type_synonym admission = "string \<times> admission_request \<times> stake_bond"

definition decode_row :: "json \<Rightarrow> wire_error + admission_request \<times> stake_bond" where
  "decode_row p = bindE (bindE (jfield ''request'' p) admission_from_wire) (\<lambda>r.
     bindE (bindE (jfield ''bond'' p) bond_from_wire) (\<lambda>b. Inr (r, b)))"

lemma decode_admission_row: "decode_row (json_norm (admission_row cr r b c m l)) = Inr (r, b)"
  by (simp add: decode_row_def admission_row_def jfield_norm admission_roundtrip bond_roundtrip
      del: json_norm.simps(2))

definition record_set :: "manager \<Rightarrow> (string \<times> validator_record) set" where
  "record_set m = {(k, v). map_of (m_records m) k = Some v}"

definition vid_of :: "admission \<Rightarrow> string" where
  "vid_of a = ar_validator_id (fst (snd a))"

definition deposit_of :: "admission \<Rightarrow> string" where
  "deposit_of a = ar_deposit_id (fst (snd a))"

definition entry_of :: "admission \<Rightarrow> string \<times> validator_record" where
  "entry_of a = (vid_of a, new_record (fst (snd a)))"

definition valid_admission :: "crypto \<Rightarrow> int \<Rightarrow> admission \<Rightarrow> bool" where
  "valid_admission cr mins a \<longleftrightarrow> (case a of (_, r, b) \<Rightarrow> admission_verify cr r \<and> bond_verify cr b
     \<and> mins \<le> ar_stake r \<and> ar_bond_id r = Some (sb_bond_id b)
     \<and> sb_owner_public_key b = ar_public_key r \<and> sb_amount b = ar_stake r)"

text \<open>\<open>m\<close> is \<open>m0\<close> with the validators of \<open>As\<close> added.\<close>

definition adds :: "crypto \<Rightarrow> manager \<Rightarrow> admission set \<Rightarrow> manager \<Rightarrow> bool" where
  "adds cr m0 As m \<longleftrightarrow> record_set m = record_set m0 \<union> entry_of ` As \<and> deposits m = deposits m0 \<union> deposit_of ` As
     \<and> minimum_stake m = minimum_stake m0 \<and> m_epoch m = m_epoch m0 \<and> m_seed m = m_seed m0
     \<and> records_ok m \<and> 0 < minimum_stake m \<and> m_snapshot m = build_snapshot cr m"

lemma record_keys: "has_key (m_records m) k \<longleftrightarrow> (\<exists>v. (k, v) \<in> record_set m)"
  by (auto simp: record_set_def has_key_map_of)

lemma adds_one:
  assumes a: "adds cr m0 As m" and valid: "valid_admission cr (minimum_stake m0) (k, r, b)"
    and new: "\<not> has_key (m_records m) (ar_validator_id r)"
    and m': "m_records m' = m_records m" "deposits m' = insert (ar_deposit_id r) (deposits m)"
      "minimum_stake m' = minimum_stake m" "m_epoch m' = m_epoch m" "m_seed m' = m_seed m"
  shows "adds cr m0 (insert (k, r, b) As) (refresh cr (set_record (ar_validator_id r) (new_record r) m'))"
proof -
  let ?m = "set_record (ar_validator_id r) (new_record r) m'"
  have ok: "records_ok m'" using a m'(1) by (simp add: adds_def records_ok_def)
  have "record_ok (ar_validator_id r) (new_record r)"
    using valid a by (auto simp: record_ok_def new_record_def adds_def valid_admission_def)
  then have "records_ok ?m" by (rule set_record_ok [OF ok])
  then have "records_ok (refresh cr ?m)" by (simp add: records_ok_def refresh_def)
  moreover have "record_set (refresh cr ?m) = insert (entry_of (k, r, b)) (record_set m)"
    using new m'(1)
    by (auto simp: record_set_def refresh_def set_record_def entry_of_def vid_of_def has_key_map_of split: if_splits)
  moreover have "build_snapshot cr (refresh cr ?m) = build_snapshot cr ?m"
    by (simp add: build_snapshot_def refresh_def)
  ultimately show ?thesis
    using a m' by (auto simp: adds_def refresh_def set_record_def deposit_of_def)
qed

subsection \<open>Onboarding\<close>

text \<open>What \<open>admit\<close> checks and does, when it returns, and what it leaves when it raises.\<close>

lemma admit_bond_frame2:
  assumes "admit_bond cr r bond m = (res, m')"
  shows "m_records m' = m_records m \<and> deposits m' = deposits m \<and> minimum_stake m' = minimum_stake m
    \<and> m_epoch m' = m_epoch m \<and> m_seed m' = m_seed m \<and> m_snapshot m' = m_snapshot m"
proof -
  have s: "m_seed x' = m_seed x" if "on_settlement f x = (q, x')" for f :: "ledger \<Rightarrow> settlement_event l_outcome" and x q x'
    using that by (auto simp: on_settlement_def split: option.splits prod.splits sum.splits)
  show ?thesis
    using assms
    by (auto simp: admit_bond_def raise_m_def split: option.splits if_splits elim!: thenS_cases
        dest: on_settlement_frame s)
qed

lemma admit_cases:
  assumes "admit cr r approvers (Some b) m = (res, m')"
  obtains e where "res = Inl e" "m_records m' = m_records m" "deposits m' = deposits m" "minimum_stake m' = minimum_stake m"
    "m_epoch m' = m_epoch m" "m_seed m' = m_seed m" "m_snapshot m' = m_snapshot m"
  | c m1 where "res = Inr c" "minimum_stake m \<le> ar_stake r" "\<not> has_key (m_records m) (ar_validator_id r)"
    "ar_deposit_id r \<notin> deposits m"
    "m_records m1 = m_records m" "deposits m1 = insert (ar_deposit_id r) (deposits m)"
    "minimum_stake m1 = minimum_stake m" "m_epoch m1 = m_epoch m" "m_seed m1 = m_seed m"
    "m' = refresh cr (set_record (ar_validator_id r) (new_record r) m1)"
proof (cases "admission_verify cr r \<and> minimum_stake m \<le> ar_stake r \<and> m_epoch m \<le> ar_requested_epoch r
    \<and> \<not> has_key (m_records m) (ar_validator_id r) \<and> ar_deposit_id r \<notin> deposits m")
  case False
  with assms that(1) show ?thesis by (auto simp: admit_def raise_m_def split: if_splits)
next
  case True
  obtain u m1 where adm: "admit_bond cr r (Some b) m = (u, m1)" by fastforce
  note frame = admit_bond_frame2 [OF adm]
  show ?thesis
  proof (cases u)
    case (Inl e)
    with True assms adm have "res = Inl e" "m' = m1" by (simp_all add: admit_def thenS_def)
    with frame that(1) show ?thesis by blast
  next
    case (Inr x)
    with True assms adm frame that(2) [of _ "m1\<lparr>deposits := insert (ar_deposit_id r) (deposits m1)\<rparr>"] show ?thesis
      by (auto simp: admit_def thenS_def Let_def)
  qed
qed

lemma admit_settlement:
  assumes "admit cr r approvers (Some b) m = (res, m')" "settlement m \<noteq> None"
  shows "settlement m' \<noteq> None"
proof -
  have s: "settlement x' \<noteq> None" if "on_settlement f x = (q, x')" "settlement x \<noteq> None"
    for f :: "ledger \<Rightarrow> settlement_event l_outcome" and x q x'
    using that by (auto simp: on_settlement_def split: option.splits prod.splits sum.splits)
  have "settlement m1 \<noteq> None" if "admit_bond cr r (Some b) m = (u, m1)" for u m1
    using that assms(2) by (auto simp: admit_bond_def raise_m_def split: if_splits elim!: thenS_cases dest: s)
  with assms show ?thesis
    by (auto simp: admit_def raise_m_def Let_def refresh_def set_record_def split: if_splits elim!: thenS_cases)
qed

lemma save_calm:
  assumes "sv_store s = Some db" "calm db"
  obtains db' where "save (store_put kind key v ev) s = (Inr (), s\<lparr>sv_store := Some db'\<rparr>)" "calm db'"
    "store_get db' = put_row (store_get db) kind key v"
proof -
  from put_calm [of db kind key v ev] assms(2) obtain db' where
    put: "store_put kind key v ev db = (Inr (), db')" and "faults db' = []" by (auto simp: calm_def)
  moreover from wf_rows_put [of db kind key v ev] assms(2) put have "wf_dict (rows db')" by (simp add: calm_def)
  moreover have "store_get db' = put_row (store_get db) kind key v"
    by (intro ext) (simp add: durable.get_put [OF put] put_row_def)
  ultimately show ?thesis using assms(1) that [of db'] by (simp add: save_def calm_def)
qed

definition screened :: "crypto \<Rightarrow> admission_request \<Rightarrow> stake_bond \<Rightarrow> services \<Rightarrow> bool" where
  "screened cr r b s \<longleftrightarrow> admission_verify cr r \<and> bond_verify cr b \<and> ar_bond_id r = Some (sb_bond_id b)
     \<and> ar_public_key r = sb_owner_public_key b \<and> ar_stake r = sb_amount b
     \<and> (\<exists>l. ledger_of s = Inr l \<and> sb_amount b \<le> balance_of l (sb_owner b))"

text \<open>What follows the admission in \<open>onboard\<close>: on a working store it returns.\<close>

lemma onboard_cases:
  assumes call: "onboard cr r b approvers s = (res, s')" and st: "sv_store s = Some db" "calm db"
  obtains (refused) e where "res = Inl e" "sv_store s' = Some db"
      "\<not> screened cr r b s \<and> sv_manager s' = sv_manager s \<or> (\<exists>x. admit cr r approvers (Some b) (sv_manager s) = (Inl x, sv_manager s'))"
  | (admitted) c db' where "res = Inr c" "sv_store s' = Some db'" "calm db'"
      "admit cr r approvers (Some b) (sv_manager s) = (Inr c, sv_manager s')"
      "valid_admission cr (ar_stake r) (ac_certificate_id c, r, b)"
      "\<exists>p. decode_row p = Inr (r, b) \<and> store_get db' ''onboarding''
         = (\<lambda>k. if k = ac_certificate_id c then Some p else store_get db ''onboarding'' k)"
proof -
  define fin where "fin = (\<lambda>(c :: admission_certificate) s.
      if sv_store s = None
      then raise_v (OnboardingError ''onboarding coordinator is not bound to durable store'') s
      else thenS (save_ledger cr) (\<lambda>_ s. case ledger_of s of
          Inl e \<Rightarrow> (Inl e, s)
        | Inr l \<Rightarrow> thenS (save (store_put ''onboarding'' (ac_certificate_id c)
            (admission_row cr r b c (sv_manager s) l) True)) (\<lambda>_ s. (Inr c, s)) s) s)"
  show ?thesis
  proof (cases "screened cr r b s")
    case False
    with call have "s' = s" "\<exists>e. res = Inl e"
      by (auto simp: screened_def onboard_def raise_v_def split: if_splits sum.splits)
    with False st refused show ?thesis by blast
  next
    case True
    then obtain l where l: "ledger_of s = Inr l" by (auto simp: screened_def)
    from True call have run: "thenS (on_membership (admit cr r approvers (Some b))) fin s = (res, s')"
      by (auto simp: screened_def onboard_def fin_def)
    obtain q m1 where q: "admit cr r approvers (Some b) (sv_manager s) = (q, m1)" by fastforce
    show ?thesis
    proof (cases q)
      case (Inl x)
      with run q have "\<exists>e. res = Inl e" "s' = s\<lparr>sv_manager := m1\<rparr>"
        by (auto simp: thenS_def on_membership_def)
      with Inl q st refused show ?thesis by auto
    next
      case (Inr c)
      let ?s1 = "s\<lparr>sv_manager := m1\<rparr>"
      have "settlement m1 \<noteq> None"
        using admit_settlement [OF q] l by (auto simp: ledger_of_def split: option.splits)
      then obtain l1 where l1: "settlement m1 = Some l1" by blast
      obtain db1 where 1: "save (store_put ''settlement_state'' ''ledger'' (ledger_to_dict cr l1) False) ?s1 = (Inr (), ?s1\<lparr>sv_store := Some db1\<rparr>)"
        "calm db1" "store_get db1 = put_row (store_get db) ''settlement_state'' ''ledger'' (ledger_to_dict cr l1)"
      proof -
        have db: "sv_store ?s1 = Some db" using st(1) by simp
        show ?thesis by (rule save_calm [OF db st(2)]) (rule that)
      qed
      obtain db2 where 2: "save (store_put ''onboarding'' (ac_certificate_id c) (admission_row cr r b c m1 l1) True)
          (?s1\<lparr>sv_store := Some db1\<rparr>) = (Inr (), ?s1\<lparr>sv_store := Some db2\<rparr>)"
        "calm db2" "store_get db2 = put_row (store_get db1) ''onboarding'' (ac_certificate_id c) (admission_row cr r b c m1 l1)"
      proof -
        have "sv_store (?s1\<lparr>sv_store := Some db1\<rparr>) = Some db1" by simp
        from save_calm [OF this 1(2), of "''onboarding''" "ac_certificate_id c" "admission_row cr r b c m1 l1" True] that
        show ?thesis by auto
      qed
      have "fin c ?s1 = (Inr c, ?s1\<lparr>sv_store := Some db2\<rparr>)"
        using st l1 1(1) 2(1)
        by (simp add: fin_def save_ledger_def ledger_of_def thenS_def ledger_persist_def [abs_def])
      then have end_: "res = Inr c" "s' = ?s1\<lparr>sv_store := Some db2\<rparr>"
        using run Inr q by (auto simp: thenS_def on_membership_def)
      have "store_get db2 ''onboarding'' = (\<lambda>k. if k = ac_certificate_id c
          then Some (json_norm (admission_row cr r b c m1 l1)) else store_get db ''onboarding'' k)"
        by (intro ext) (simp add: 1(3) 2(3) put_row_def del: json_norm.simps(2))
      moreover have "valid_admission cr (ar_stake r) (ac_certificate_id c, r, b)"
        using True by (simp add: screened_def valid_admission_def)
      ultimately show ?thesis
        using end_ Inr q 2(2) decode_admission_row [of cr r b c m1 l1]
        by (intro admitted [of c db2]) auto
    qed
  qed
qed

lemma adds_same:
  assumes "adds cr m0 As m" "m_records m' = m_records m" "deposits m' = deposits m" "minimum_stake m' = minimum_stake m"
    "m_epoch m' = m_epoch m" "m_seed m' = m_seed m" "m_snapshot m' = m_snapshot m"
  shows "adds cr m0 As m'"
proof -
  have "record_set m' = record_set m" "records_ok m' = records_ok m" "build_snapshot cr m' = build_snapshot cr m"
    using assms(2,5,6) by (simp_all add: record_set_def records_ok_def build_snapshot_def)
  with assms show ?thesis by (simp add: adds_def)
qed

subsection \<open>What the other calls leave\<close>

text \<open>\<open>worn v v'\<close>: \<open>v'\<close> is the validator of \<open>v\<close> with no more stake.\<close>

definition worn :: "validator_record \<Rightarrow> validator_record \<Rightarrow> bool" where
  "worn v v' \<longleftrightarrow> v_public_key v' = v_public_key v \<and> v_deposit_id v' = v_deposit_id v \<and> v_stake v' \<le> max 0 (v_stake v)"

text \<open>From \<open>m\<close> to \<open>m'\<close> no record appears and none gains; unless validators may withdraw, none goes.\<close>

definition declines :: "bool \<Rightarrow> manager \<Rightarrow> manager \<Rightarrow> bool" where
  "declines w m m' \<longleftrightarrow> deposits m' = deposits m \<and> minimum_stake m' = minimum_stake m
     \<and> (\<forall>k v'. map_of (m_records m') k = Some v' \<longrightarrow> (\<exists>v. map_of (m_records m) k = Some v \<and> worn v v'))
     \<and> (\<not> w \<longrightarrow> dom (map_of (m_records m)) \<subseteq> dom (map_of (m_records m')))"

lemma worn_refl [simp]: "worn v v"
  by (simp add: worn_def)

lemma worn_trans: "worn u v \<Longrightarrow> worn v x \<Longrightarrow> worn u x"
  by (auto simp: worn_def)

lemma declines_refl [simp]: "declines w m m"
  by (auto simp: declines_def)

lemma declines_trans: "declines w m m' \<Longrightarrow> declines w m' m'' \<Longrightarrow> declines w m m''"
  unfolding declines_def by (metis (no_types, lifting) subset_trans worn_trans)

lemma declines_same:
  "m_records m' = m_records m \<Longrightarrow> deposits m' = deposits m \<Longrightarrow> minimum_stake m' = minimum_stake m \<Longrightarrow> declines w m m'"
  by (simp add: declines_def)

lemma declines_refresh [simp]: "declines w m (refresh cr m') = declines w m m'"
  by (simp add: declines_def refresh_def)

text \<open>A call on the ledger, then the new record of a validator\<close>

definition same_members :: "manager \<Rightarrow> manager \<Rightarrow> bool" where
  "same_members m m' \<longleftrightarrow> m_records m' = m_records m \<and> deposits m' = deposits m \<and> minimum_stake m' = minimum_stake m"

lemma on_settlement_members: "on_settlement f m = (r, m') \<Longrightarrow> same_members m m'"
  by (simp add: same_members_def on_settlement_frame)

lemma declines_set:
  assumes "map_of (m_records m) vid = Some v" "worn v v'" "same_members m m1"
  shows "declines w m (set_record vid v' m1)"
  using assms by (auto simp: declines_def same_members_def set_record_def update_conv')

lemma declines_then:
  assumes "thenS f g m = (res, m')" "\<And>q m1. f m = (q, m1) \<Longrightarrow> same_members m m1"
    and "\<And>a m1. same_members m m1 \<Longrightarrow> g a m1 = (res, m') \<Longrightarrow> declines w m m'"
  shows "declines w m m'"
  using assms(1)
proof (cases rule: thenS_cases)
  case (first e)
  with assms(2) show ?thesis by (auto simp: same_members_def intro: declines_same)
next
  case (both a m1)
  with assms(2,3) show ?thesis by blast
qed

lemma exit_declines:
  assumes call: "exit_validator cr vid ep m = (res, m')"
  shows "declines w m m'"
proof (cases "map_of (m_records m) vid")
  case None
  with call show ?thesis by (simp add: exit_validator_def raise_m_def)
next
  case (Some v)
  show ?thesis
  proof (cases "case ep of None \<Rightarrow> False | Some e \<Rightarrow> e < m_epoch m")
    case True
    with call Some show ?thesis by (simp add: exit_validator_def raise_m_def)
  next
    case False
    from call [unfolded exit_validator_def Some option.case if_not_P [OF False]] show ?thesis
    proof (rule declines_then)
      fix m1 :: manager and a :: unit
      assume "same_members m m1"
      then have "declines w m (set_record vid (v\<lparr>v_active := False, v_locked_until := x\<rparr>) m1)" for x
        by (intro declines_set [OF Some]) (simp_all add: worn_def)
      moreover assume "(let unlock = m_epoch m1 + withdrawal_delay m1 in
                 (Inr \<lparr>xc_validator_id = vid, xc_epoch = m_epoch m1,
                       xc_certificate_id = digest cr (JObj
                         [(''protocol'', JStr ''MOSAIC/EXIT/v1''), (''validator'', JStr vid),
                          (''epoch'', JInt (m_epoch m1)), (''unlock_epoch'', JInt unlock)]),
                       xc_unlock_epoch = unlock\<rparr>,
                  refresh cr (set_record vid (v\<lparr>v_active := False, v_locked_until := unlock\<rparr>) m1))) = (res, m')"
      ultimately show "declines w m m'" by (auto simp: Let_def)
    qed (auto simp: raise_m_def same_members_def split: option.splits dest!: on_settlement_members)
  qed
qed

lemma withdraw_declines:
  assumes call: "withdraw_validator cr vid cur m = (res, m')"
  shows "declines True m m'"
proof (cases "map_of (m_records m) vid")
  case None
  with call show ?thesis by (simp add: withdraw_validator_def raise_m_def)
next
  case (Some v)
  from call [unfolded withdraw_validator_def Some option.case Let_def] show ?thesis
  proof (rule declines_then)
    fix m1 :: manager and a :: unit
    let ?ep = "case cur of None \<Rightarrow> m_epoch m | Some e \<Rightarrow> e"
    assume m1: "same_members m m1"
    then have "declines True m m1" "declines True m (m1\<lparr>m_records := AList.delete vid (m_records m1), validator_bonds := b\<rparr>)" for b
      by (auto simp: declines_def same_members_def delete_conv' split: if_splits)
    moreover assume "(if v_active v then raise_m ''validator is still active'' m1
              else if ?ep < v_locked_until v then raise_m ''withdrawal delay has not elapsed'' m1
              else (Inr \<lparr>wr_validator_id = vid, wr_deposit_id = v_deposit_id v, wr_amount = v_stake v,
                         wr_unlock_epoch = v_locked_until v,
                         wr_receipt_id = digest cr (JObj
                           [(''protocol'', JStr ''MOSAIC/WITHDRAWAL/v1''), (''validator'', JStr vid),
                            (''deposit'', JStr (v_deposit_id v)), (''amount'', JInt (v_stake v)),
                            (''unlock_epoch'', JInt (v_locked_until v))])\<rparr>,
                    refresh cr (m1\<lparr>m_records := AList.delete vid (m_records m1),
                      validator_bonds := AList.delete vid (validator_bonds m1)\<rparr>))) = (res, m')"
    ultimately show "declines True m m'" by (auto simp: raise_m_def split: if_splits)
  qed (auto simp: raise_m_def same_members_def split: option.splits prod.splits sum.splits dest!: on_settlement_members)
qed

lemma slash_declines:
  assumes call: "slash_validator cr ev penalty m = (res, m')"
  shows "declines w m m'"
proof (cases "slash_evidence_verify cr ev \<and> \<not> has_key (slash_history m) (se_id ev)")
  case False
  with call show ?thesis by (auto simp: slash_validator_def raise_m_def split: if_splits)
next
  case True
  then have ok: "\<not> \<not> slash_evidence_verify cr ev" "\<not> has_key (slash_history m) (se_id ev)" by simp_all
  note call = call [unfolded slash_validator_def if_not_P [OF ok(1)] if_not_P [OF ok(2)]]
  show ?thesis
  proof (cases "map_of (m_records m) (se_offender ev)")
    case None
    with call show ?thesis by (simp add: raise_m_def)
  next
    case (Some v)
    define amount where "amount = (case penalty of None \<Rightarrow> v_stake v | Some x \<Rightarrow> x)"
    from call [unfolded Some option.case, folded amount_def, unfolded Let_def] show ?thesis
    proof (rule declines_then)
      fix m1 :: manager and a :: unit
      let ?v = "v\<lparr>v_stake := max 0 (v_stake v - amount), v_active := max 0 (v_stake v - amount) > 0 \<and> \<not> v_jailed v,
          v_jailed := max 0 (v_stake v - amount) = 0 \<or> v_jailed v\<rparr>"
      assume "same_members m m1"
      then have m1: "same_members m (m1\<lparr>slash_history := h\<rparr>)" "declines w m m1" for h
        by (simp_all add: same_members_def declines_same)
      from declines_set [OF Some _ m1(1)] have "declines w m (set_record (se_offender ev) ?v (m1\<lparr>slash_history := h\<rparr>))"
        if "0 < amount" for h using that by (simp add: worn_def)
      moreover assume "(if se_epoch ev > m_epoch m1 then raise_m ''slash evidence is from a future epoch'' m1
              else if amount \<le> 0 then raise_m ''slash penalty must be positive'' m1
              else (Inr ?v, refresh cr (set_record (se_offender ev) ?v
                          (m1\<lparr>slash_history := AList.update (se_id ev) ev (slash_history m1)\<rparr>)))) = (res, m')"
      ultimately show "declines w m m'" using m1(2) by (auto simp: raise_m_def not_le split: if_splits)
    qed (auto simp: raise_m_def same_members_def split: option.splits dest!: on_settlement_members)
  qed
qed

lemma penalize_declines: "penalize_non_reveal cr vid ep rnd penalty m = (res, m') \<Longrightarrow> declines w m m'"
  by (auto simp: penalize_non_reveal_def raise_m_def Let_def split: option.splits if_splits)
    (auto intro!: declines_set simp: worn_def same_members_def)

lemma advance_declines: "advance_epoch cr m = (res, m') \<Longrightarrow> declines w m m'"
  by (rule declines_same) (auto simp: advance_epoch_def Let_def refresh_def split: option.splits sum.splits)

lemma settle_round_declines:
  assumes "settle_round cr commitments reveals vb rnd reward penalty (m, l) = (res, (m', l'))"
  shows "declines w m m'"
proof -
  have "keeps (\<lambda>s. declines w m (fst s)) (settle_round cr commitments reveals vb rnd reward penalty)"
  proof (rule settle_round_keeps)
    show "keeps (\<lambda>s. declines w m (fst s)) (\<lambda>s. on_round_manager (penalize_non_reveal cr vid (epoch_of (fst s)) rnd penalty) s)" for vid
    proof (rule keepsI)
      fix s r s'
      assume I: "declines w m (fst s)"
        and call: "on_round_manager (penalize_non_reveal cr vid (epoch_of (fst s)) rnd penalty) s = (r, s')"
      obtain q x where p: "penalize_non_reveal cr vid (epoch_of (fst s)) rnd penalty (fst s) = (q, x)" by fastforce
      with call have "fst s' = x" by (auto simp: on_round_manager_def split: sum.splits)
      with declines_trans [OF I penalize_declines [OF p]] show "declines w m (fst s')" by simp
    qed
  qed (rule keepsI, simp add: on_round_ledger_manager)+
  from keepsD [OF this _ assms] show ?thesis by simp
qed

text \<open>The rows of the onboarding coordinator\<close>

definition stored :: "(string \<Rightarrow> json option) \<Rightarrow> services \<Rightarrow> bool" where
  "stored R s \<longleftrightarrow> (\<exists>db. sv_store s = Some db \<and> calm db \<and> store_get db ''onboarding'' = R)"

definition aside :: "bool \<Rightarrow> manager \<Rightarrow> (string \<Rightarrow> json option) \<Rightarrow> services \<Rightarrow> bool" where
  "aside w m R s \<longleftrightarrow> stored R s \<and> declines w m (sv_manager s)"

lemma save_aside:
  assumes "kind \<noteq> ''onboarding''"
  shows "keeps (aside w m R) (save (store_put kind key v ev))"
proof (rule keepsI)
  fix s r s'
  assume "aside w m R s" and call: "save (store_put kind key v ev) s = (r, s')"
  then obtain db where db: "sv_store s = Some db" "calm db" "store_get db ''onboarding'' = R" "declines w m (sv_manager s)"
    by (auto simp: aside_def stored_def)
  obtain db' where "save (store_put kind key v ev) s = (Inr (), s\<lparr>sv_store := Some db'\<rparr>)" "calm db'"
    "store_get db' = put_row (store_get db) kind key v"
    by (rule save_calm [OF db(1,2)])
  with call db assms show "aside w m R s'" by (auto simp: aside_def stored_def put_row_def)
qed

lemma save_ledger_aside: "keeps (aside w m R) (save_ledger cr)"
proof (rule keepsI)
  fix s r s'
  assume I: "aside w m R s" and call: "save_ledger cr s = (r, s')"
  have "keeps (aside w m R) (save (ledger_persist cr l))" for l
    unfolding ledger_persist_def [abs_def] by (rule save_aside) simp
  with I call show "aside w m R s'" by (auto simp: save_ledger_def split: sum.splits dest: keepsD)
qed

lemma submit_manager:
  "submit_commitment cr c s = (res, s') \<Longrightarrow> sv_manager s' = sv_manager s"
  "submit_reveal cr r s = (res', s'') \<Longrightarrow> sv_manager s'' = sv_manager s"
  by (auto simp: submit_commitment_def submit_reveal_def raise_v_def save_def
      split: option.splits if_splits prod.splits sum.splits)

lemma aside_simps [simp]:
  "aside w m R (s\<lparr>sv_commitments := c\<rparr>) = aside w m R s" "aside w m R (s\<lparr>sv_reveals := r\<rparr>) = aside w m R s"
  "aside w m R (s\<lparr>sv_settlements := t\<rparr>) = aside w m R s"
  by (simp_all add: aside_def stored_def)

lemma submit_aside: "keeps (aside w m R) (submit_commitment cr c)" "keeps (aside w m R) (submit_reveal cr r)"
  by (rule keepsI, auto simp: submit_commitment_def submit_reveal_def raise_v_def split: option.splits if_splits
      elim!: keepsD [OF save_aside, rotated 2])+

lemma finalize_aside: "keeps (aside w m R) (beacon_finalize cr rnd reward penalty)"
proof (rule keepsI)
  fix s res s'
  assume I: "aside w m R s" and call: "beacon_finalize cr rnd reward penalty s = (res, s')"
  have settle: "keeps (aside w m R) (settle_services cr rnd reward penalty)"
  proof (rule keepsI)
    fix s r s'
    assume I: "aside w m R s" and call: "settle_services cr rnd reward penalty s = (r, s')"
    show "aside w m R s'"
    proof (cases "settlement (sv_manager s)")
      case None
      with I call show ?thesis by (simp add: settle_services_def ledger_of_def Let_def)
    next
      case (Some l)
      let ?ep = "epoch_of (sv_manager s)"
      obtain q x l' where round: "settle_round cr (round_items ?ep rnd (sv_commitments s)) (round_items ?ep rnd (sv_reveals s))
          (validator_bonds (sv_manager s)) rnd reward penalty (sv_manager s, l) = (q, (x, l'))" by (metis prod.collapse)
      with Some call have s': "s' = s\<lparr>sv_manager := x\<lparr>settlement := Some l'\<rparr>\<rparr>"
        by (auto simp: settle_services_def ledger_of_def Let_def)
      from declines_trans [OF settle_round_declines [OF round] declines_same] have
        "declines w (sv_manager s) (x\<lparr>settlement := Some l'\<rparr>)" by simp
      with I s' show ?thesis by (auto simp: aside_def stored_def intro: declines_trans)
    qed
  qed
  have row: "keeps (aside w m R) (\<lambda>s. case ledger_of s of Inl e \<Rightarrow> (Inl e, s)
      | Inr l \<Rightarrow> thenS (save (store_put ''beacon_round'' k (f s l) True)) (\<lambda>_ s. (Inr t, s)) s)"
    for f k and t :: round_settlement
    by (rule keepsI) (auto split: sum.splits elim!: thenS_cases dest: keepsD [OF save_aside, rotated])
  have entry: "keeps (aside w m R) (\<lambda>s. let s1 = s\<lparr>sv_settlements := AList.update k t (sv_settlements s)\<rparr> in
      if sv_store s1 = None then (Inr t, s1)
      else thenS (save_ledger cr) (\<lambda>_ s. case ledger_of s of Inl e \<Rightarrow> (Inl e, s)
        | Inr l \<Rightarrow> thenS (save (store_put ''beacon_round'' (rs_id t) (settlement_json cr t (sv_manager s) l) True))
            (\<lambda>_ s. (Inr t, s)) s) s1)" for k and t :: round_settlement
  proof (rule keepsI)
    fix s s' :: services and res
    let ?s1 = "s\<lparr>sv_settlements := AList.update k t (sv_settlements s)\<rparr>"
    assume "aside w m R s"
    then have "aside w m R ?s1" by simp
    moreover assume "(let s1 = ?s1 in if sv_store s1 = None then (Inr t, s1)
      else thenS (save_ledger cr) (\<lambda>_ s. case ledger_of s of Inl e \<Rightarrow> (Inl e, s)
        | Inr l \<Rightarrow> thenS (save (store_put ''beacon_round'' (rs_id t) (settlement_json cr t (sv_manager s) l) True))
            (\<lambda>_ s. (Inr t, s)) s) s1) = (res, s')"
    ultimately show "aside w m R s'"
      by (auto simp: Let_def simp del: aside_simps split: if_splits dest: keepsD [OF keeps_thenS [OF save_ledger_aside row]])
  qed
  from keepsD [OF keeps_thenS [OF settle entry] I] call I show "aside w m R s'"
    by (auto simp: beacon_finalize_def raise_v_def Let_def split: option.splits if_splits)
qed


subsection \<open>What a coordinator has recorded\<close>

text \<open>
  The rows of the store are the admissions \<open>As\<close>, their deposits are taken, and every validator of the
  manager is one of the configuration or of \<open>As\<close>, with no more stake than it started with.
\<close>

definition origins :: "manager \<Rightarrow> admission list \<Rightarrow> (string \<times> validator_record) set" where
  "origins m0 As = record_set m0 \<union> entry_of ` set As"

definition rows_of :: "admission list \<Rightarrow> (string \<Rightarrow> json option) \<Rightarrow> bool" where
  "rows_of As R \<longleftrightarrow> (\<forall>k p. R k = Some p \<longrightarrow> (\<exists>r b. decode_row p = Inr (r, b) \<and> (k, r, b) \<in> set As))
     \<and> (\<forall>(k, r, b) \<in> set As. \<exists>p. R k = Some p \<and> decode_row p = Inr (r, b))"

definition taken :: "crypto \<Rightarrow> manager \<Rightarrow> admission list \<Rightarrow> manager \<Rightarrow> bool" where
  "taken cr m0 As m \<longleftrightarrow> deposits m = deposits m0 \<union> deposit_of ` set As \<and> minimum_stake m = minimum_stake m0
     \<and> distinct (map fst As) \<and> distinct (map deposit_of As)
     \<and> (\<forall>a \<in> set As. valid_admission cr (minimum_stake m0) a \<and> deposit_of a \<notin> deposits m0)"

definition traced :: "bool \<Rightarrow> manager \<Rightarrow> admission list \<Rightarrow> manager \<Rightarrow> bool" where
  "traced w m0 As m \<longleftrightarrow>
     (\<forall>k v. map_of (m_records m) k = Some v \<longrightarrow> (\<exists>v0. (k, v0) \<in> origins m0 As \<and> worn v0 v))
     \<and> (\<not> w \<longrightarrow> fst ` origins m0 As \<subseteq> dom (map_of (m_records m)) \<and> distinct (map vid_of As)
          \<and> (\<forall>a \<in> set As. \<not> has_key (m_records m0) (vid_of a)))"

definition recorded :: "crypto \<Rightarrow> bool \<Rightarrow> bool \<Rightarrow> manager \<Rightarrow> admission list \<Rightarrow> services \<Rightarrow> bool" where
  "recorded cr w g m0 As s \<longleftrightarrow> (\<exists>R. stored R s \<and> rows_of As R)
     \<and> taken cr m0 As (sv_manager s) \<and> traced w m0 As (sv_manager s) \<and> (g \<longrightarrow> adds cr m0 (set As) (sv_manager s))"

lemma recorded_start:
  assumes "adds cr m0 {} m0" and "calm db" "store_get db ''onboarding'' = (\<lambda>_. None)"
  shows "recorded cr w g m0 [] (services_init m0 (Some db))"
proof -
  have "stored (\<lambda>_. None) (services_init m0 (Some db))" using assms(2,3) by (simp add: stored_def services_init_def)
  moreover have "traced w m0 [] m0"
    by (force simp: traced_def origins_def record_set_def intro: worn_refl)
  moreover have "taken cr m0 [] m0" by (simp add: taken_def)
  moreover have "rows_of [] (\<lambda>_. None)" by (simp add: rows_of_def)
  moreover have "sv_manager (services_init m0 (Some db)) = m0" by (simp add: services_init_def)
  ultimately show ?thesis using assms(1) unfolding recorded_def by (metis list.set(1))
qed

text \<open>A call that declines the manager and leaves the rows\<close>

lemma traced_declines: "traced w m0 As m \<Longrightarrow> declines w m m' \<Longrightarrow> traced w m0 As m'"
  unfolding traced_def declines_def by (meson subset_trans worn_trans)

lemma recorded_aside:
  assumes rec: "recorded cr w g m0 As s" and kept: "\<And>R. stored R s \<Longrightarrow> aside w (sv_manager s) R s'"
    and same: "g \<Longrightarrow> adds cr m0 (set As) (sv_manager s) \<Longrightarrow> adds cr m0 (set As) (sv_manager s')"
  shows "recorded cr w g m0 As s'"
proof -
  from rec obtain R where R: "stored R s" "rows_of As R" by (auto simp: recorded_def)
  from kept [OF R(1)] have s': "stored R s'" and d: "declines w (sv_manager s) (sv_manager s')" by (simp_all add: aside_def)
  from rec d have "taken cr m0 As (sv_manager s')" by (simp add: recorded_def taken_def declines_def)
  moreover from rec d have "traced w m0 As (sv_manager s')" by (auto simp: recorded_def intro: traced_declines)
  ultimately show ?thesis using s' R(2) rec same unfolding recorded_def by blast
qed

lemma traced_admitted:
  assumes t: "traced w m0 As m" and new: "\<not> has_key (m_records m) (vid_of a)"
    and n: "map_of (m_records n) = (map_of (m_records m))(vid_of a \<mapsto> v)" "entry_of a = (vid_of a, v)"
  shows "traced w m0 (As @ [a]) n"
  unfolding traced_def
proof (intro conjI allI impI)
  have more: "origins m0 (As @ [a]) = insert (vid_of a, v) (origins m0 As)" by (auto simp: origins_def n(2))
  show "\<exists>v0. (k, v0) \<in> origins m0 (As @ [a]) \<and> worn v0 u" if k: "map_of (m_records n) k = Some u" for k u
  proof (cases "k = vid_of a")
    case True
    with k n(1) have "u = v" by simp
    with True show ?thesis unfolding more by (intro exI [of _ v]) simp
  next
    case False
    with k n(1) have "map_of (m_records m) k = Some u" by simp
    with t obtain v0 where "(k, v0) \<in> origins m0 As" "worn v0 u" unfolding traced_def by blast
    then show ?thesis unfolding more by blast
  qed
  assume w: "\<not> w"
  with t have sub: "fst ` origins m0 As \<subseteq> dom (map_of (m_records m))"
    and old: "distinct (map vid_of As)" "\<forall>a \<in> set As. \<not> has_key (m_records m0) (vid_of a)" unfolding traced_def by blast+
  from sub show "fst ` origins m0 (As @ [a]) \<subseteq> dom (map_of (m_records n))" unfolding more n(1) by auto
  have "vid_of a \<notin> dom (map_of (m_records m))" using new by (auto simp: has_key_map_of)
  with sub have out: "vid_of a \<notin> fst ` origins m0 As" by blast
  then have "vid_of a \<notin> vid_of ` set As" by (force simp: origins_def entry_of_def)
  with old(1) show "distinct (map vid_of (As @ [a]))" by simp
  from out have "\<not> has_key (m_records m0) (vid_of a)" by (force simp: record_keys origins_def)
  with old(2) show "\<forall>a \<in> set (As @ [a]). \<not> has_key (m_records m0) (vid_of a)" by simp
qed

lemma onboard_recorded:
  assumes rec: "recorded cr w g m0 As s" and call: "onboard cr r b approvers s = (res, s')"
    and new: "\<And>c. res = Inr c \<Longrightarrow> ac_certificate_id c \<notin> fst ` set As"
  shows "recorded cr w g m0 (case res of Inl _ \<Rightarrow> As | Inr c \<Rightarrow> As @ [(ac_certificate_id c, r, b)]) s'"
proof -
  from rec obtain R where R: "stored R s" "rows_of As R" by (auto simp: recorded_def)
  then obtain db where st: "sv_store s = Some db" "calm db" and db: "store_get db ''onboarding'' = R" by (auto simp: stored_def)
  from call st show ?thesis
  proof (cases rule: onboard_cases)
    case (refused e)
    have d: "declines w (sv_manager s) (sv_manager s')
        \<and> (adds cr m0 (set As) (sv_manager s) \<longrightarrow> adds cr m0 (set As) (sv_manager s'))"
      using refused(3)
    proof (elim disjE exE)
      fix x
      assume "admit cr r approvers (Some b) (sv_manager s) = (Inl x, sv_manager s')"
      then show ?thesis by (cases rule: admit_cases) (auto intro: declines_same adds_same)
    qed simp
    then have "aside w (sv_manager s) R' s'" if "stored R' s" for R'
      using that refused(2) st by (simp add: aside_def stored_def)
    with recorded_aside [OF rec] refused(1) d show ?thesis by simp
  next
    case (admitted c db')
    let ?a = "(ac_certificate_id c, r, b)" and ?n = "sv_manager s'"
    from rec have t: "taken cr m0 As (sv_manager s)" "traced w m0 As (sv_manager s)" by (simp_all add: recorded_def)
    from admitted(4) obtain m1 where m1: "minimum_stake (sv_manager s) \<le> ar_stake r"
      "\<not> has_key (m_records (sv_manager s)) (ar_validator_id r)" "ar_deposit_id r \<notin> deposits (sv_manager s)"
      "m_records m1 = m_records (sv_manager s)" "deposits m1 = insert (ar_deposit_id r) (deposits (sv_manager s))"
      "minimum_stake m1 = minimum_stake (sv_manager s)" "m_epoch m1 = m_epoch (sv_manager s)" "m_seed m1 = m_seed (sv_manager s)"
      "?n = refresh cr (set_record (ar_validator_id r) (new_record r) m1)"
      by (cases rule: admit_cases) auto
    have n: "map_of (m_records ?n) = (map_of (m_records (sv_manager s)))(vid_of ?a \<mapsto> new_record r)"
      "deposits ?n = insert (deposit_of ?a) (deposits (sv_manager s))" "minimum_stake ?n = minimum_stake (sv_manager s)"
      using m1(4-6,9) by (simp_all add: refresh_def set_record_def update_conv' vid_of_def deposit_of_def)
    have "traced w m0 (As @ [?a]) ?n"
      by (rule traced_admitted [OF t(2) _ n(1)]) (use m1(2) in \<open>simp_all add: vid_of_def entry_of_def\<close>)
    moreover have valid: "valid_admission cr (minimum_stake m0) ?a" "deposit_of ?a \<notin> deposits m0 \<union> deposit_of ` set As"
      using admitted(5) m1(1,3) t(1) by (simp_all add: valid_admission_def taken_def deposit_of_def)
    then have "taken cr m0 (As @ [?a]) ?n"
      using t(1) n(2,3) new [OF admitted(1)] unfolding taken_def by auto
    moreover have "adds cr m0 (set (As @ [?a])) ?n" if "adds cr m0 (set As) (sv_manager s)"
      using adds_one [OF that valid(1) m1(2,4-8)] m1(9) by simp
    moreover from admitted(6) obtain p where p: "decode_row p = Inr (r, b)"
      "store_get db' ''onboarding'' = R(ac_certificate_id c \<mapsto> p)" unfolding db fun_upd_def by blast
    have "rows_of (As @ [?a]) (R(ac_certificate_id c \<mapsto> p))"
      using R(2) p(1) new [OF admitted(1)] unfolding rows_of_def by (auto split: if_splits) force+
    moreover have "stored (R(ac_certificate_id c \<mapsto> p)) s'" using admitted(2,3) p(2) by (simp add: stored_def)
    ultimately show ?thesis using admitted(1) rec unfolding recorded_def by auto
  qed
qed

text \<open>The calls a coordinator serves, with the certificates it returned and their requests\<close>

fun service_run ::
  "crypto \<Rightarrow> service_call list \<Rightarrow> services \<Rightarrow> (admission_certificate \<times> admission_request) list \<times> services" where
  "service_run cr [] s = ([], s)"
| "service_run cr (Onboard r b approvers # calls) s =
     (case onboard cr r b approvers s of
        (Inl _, s1) \<Rightarrow> service_run cr calls s1
      | (Inr c, s1) \<Rightarrow> (case service_run cr calls s1 of (cs, s2) \<Rightarrow> ((c, r) # cs, s2)))"
| "service_run cr (call # calls) s = service_run cr calls (serve cr call s)"

lemma service_run_serves: "snd (service_run cr calls s) = fold (serve cr) calls s"
  by (induction cr calls s rule: service_run.induct) (auto simp: serve_def split: prod.splits sum.splits)

text \<open>Calls that do not go round the coordinator: admissions are made through it.\<close>

definition through_coordinator :: "service_call \<Rightarrow> bool" where
  "through_coordinator call \<longleftrightarrow> (case call of
     Membership (Restore _ _) \<Rightarrow> False | Membership (Admit _ _ _) \<Rightarrow> False | _ \<Rightarrow> True)"

text \<open>Calls that leave the validators as they are, and withdrawals\<close>

definition gentle :: "service_call \<Rightarrow> bool" where
  "gentle call \<longleftrightarrow> (case call of Commit _ \<Rightarrow> True | Reveal _ \<Rightarrow> True | Onboard _ _ _ \<Rightarrow> True | _ \<Rightarrow> False)"

definition withdraws :: "service_call \<Rightarrow> bool" where
  "withdraws call \<longleftrightarrow> (case call of Membership (WithdrawStake _ _) \<Rightarrow> True | _ \<Rightarrow> False)"

lemma serve_aside:
  assumes "stored R s" "through_coordinator call" "\<not> (\<exists>r b approvers. call = Onboard r b approvers)" "withdraws call \<longrightarrow> w"
  shows "aside w (sv_manager s) R (serve cr call s)"
proof -
  have start: "aside w (sv_manager s) R s" using assms(1) by (simp add: aside_def)
  show ?thesis
  proof (cases call)
    case (Commit c)
    then show ?thesis using keepsD [OF submit_aside(1) start prod.collapse [symmetric]] by (simp add: serve_def)
  next
    case (Reveal r)
    then show ?thesis using keepsD [OF submit_aside(2) start prod.collapse [symmetric]] by (simp add: serve_def)
  next
    case (FinalizeRound rnd reward penalty)
    then show ?thesis using keepsD [OF finalize_aside start prod.collapse [symmetric]] by (simp add: serve_def)
  next
    case (Membership mc)
    note calls = exit_declines slash_declines penalize_declines advance_declines
    have "declines w (sv_manager s) (manage cr mc (sv_manager s))"
      using Membership assms(2,4) withdraw_declines [OF prod.collapse [symmetric]]
      by (cases mc) (auto simp: manage_def after_def through_coordinator_def withdraws_def
          intro: calls [OF prod.collapse [symmetric]])
    then show ?thesis using Membership assms(1) by (simp add: serve_def aside_def stored_def)
  qed (use assms(3) in blast)
qed

definition admitted_as :: "admission \<Rightarrow> admission_certificate \<times> admission_request \<Rightarrow> bool" where
  "admitted_as a cert \<longleftrightarrow> (case (a, cert) of ((k, r, b), (c, r')) \<Rightarrow> k = ac_certificate_id c \<and> r = r')"

lemma service_run_recorded:
  "recorded cr w g m0 As s \<Longrightarrow> service_run cr calls s = (cs, s') \<Longrightarrow> list_all through_coordinator calls \<Longrightarrow>
   (\<exists>call \<in> set calls. withdraws call) \<longrightarrow> w \<Longrightarrow> g \<longrightarrow> list_all gentle calls \<Longrightarrow>
   distinct (map fst As @ map (\<lambda>(c, r). ac_certificate_id c) cs) \<Longrightarrow>
   \<exists>Bs. recorded cr w g m0 (As @ Bs) s' \<and> list_all2 admitted_as Bs cs"
proof (induction calls arbitrary: As s cs)
  case Nil
  then show ?case by (intro exI [of _ "[]"]) simp
next
  case (Cons call calls)
  show ?case
  proof (cases "\<exists>r b approvers. call = Onboard r b approvers")
    case False
    have "recorded cr w g m0 As (serve cr call s)"
    proof (rule recorded_aside [OF Cons.prems(1)])
      show "aside w (sv_manager s) R (serve cr call s)" if "stored R s" for R
        by (rule serve_aside [OF that]) (use False Cons.prems(3,4) in auto)
      show "adds cr m0 (set As) (sv_manager (serve cr call s))" if g "adds cr m0 (set As) (sv_manager s)"
        using that False Cons.prems(5) submit_manager [OF prod.collapse [symmetric]]
        by (cases call) (auto simp: gentle_def serve_def)
    qed
    moreover have "service_run cr calls (serve cr call s) = (cs, s')"
      using Cons.prems(2) False by (cases call) auto
    ultimately show ?thesis using Cons.IH Cons.prems(3-6) by simp
  next
    case True
    then obtain r b approvers where call: "call = Onboard r b approvers" by blast
    obtain res s1 where one: "onboard cr r b approvers s = (res, s1)" by fastforce
    show ?thesis
    proof (cases res)
      case (Inl e)
      with one Cons.prems(2) call have rest: "service_run cr calls s1 = (cs, s')" by simp
      from onboard_recorded [OF Cons.prems(1) one] Inl have "recorded cr w g m0 As s1" by simp
      with Cons.IH [OF this rest] Cons.prems(3-6) show ?thesis by simp
    next
      case (Inr c)
      with one Cons.prems(2) call obtain ds where rest: "service_run cr calls s1 = (ds, s')" and cs: "cs = (c, r) # ds"
        by (auto split: prod.splits)
      let ?a = "(ac_certificate_id c, r, b)"
      from Cons.prems(6) cs Inr onboard_recorded [OF Cons.prems(1) one]
      have "recorded cr w g m0 (As @ [?a]) s1" by auto
      from Cons.IH [OF this rest] Cons.prems(3-6) cs obtain Bs where
        "recorded cr w g m0 (As @ [?a] @ Bs) s'" "list_all2 admitted_as Bs ds" by auto
      then show ?thesis by (intro exI [of _ "?a # Bs"]) (simp add: cs, simp add: admitted_as_def)
    qed
  qed
qed

subsection \<open>Restoring\<close>

lemma restore_one:
  assumes a: "adds cr m0 As m" and valid: "valid_admission cr (minimum_stake m0) (k, r, b)"
    and new: "\<not> has_key (m_records m) (ar_validator_id r)" "ar_deposit_id r \<notin> deposits m"
  obtains m' where "restore_admission cr r b m = (Inr (), m')" "adds cr m0 (insert (k, r, b) As) m'"
proof -
  have "minimum_stake m = minimum_stake m0" using a by (simp add: adds_def)
  with valid new have call: "restore_admission cr r b m = (Inr (), refresh cr (set_record (ar_validator_id r) (new_record r)
             (m\<lparr>m_bonds := AList.update (sb_bond_id b) b (m_bonds m),
                validator_bonds := AList.update (ar_validator_id r) (sb_bond_id b) (validator_bonds m),
                deposits := insert (ar_deposit_id r) (deposits m)\<rparr>)))"
    by (simp add: restore_admission_def valid_admission_def)
  from adds_one [OF a valid new(1), of "m\<lparr>m_bonds := AList.update (sb_bond_id b) b (m_bonds m),
                validator_bonds := AList.update (ar_validator_id r) (sb_bond_id b) (validator_bonds m),
                deposits := insert (ar_deposit_id r) (deposits m)\<rparr>"] show ?thesis
    by (intro that [OF call]) simp
qed

lemma restore_list:
  "adds cr m0 As (sv_manager s) \<Longrightarrow>
   \<forall>(k, p) \<in> set items. \<exists>r b. decode_row p = Inr (r, b) \<and> (k, r, b) \<in> Bs \<Longrightarrow>
   \<forall>a \<in> As \<union> Bs. valid_admission cr (minimum_stake m0) a \<and> \<not> has_key (m_records m0) (vid_of a) \<and> deposit_of a \<notin> deposits m0 \<Longrightarrow>
   inj_on vid_of (As \<union> Bs) \<Longrightarrow> inj_on deposit_of (As \<union> Bs) \<Longrightarrow> distinct (map fst items) \<Longrightarrow>
   fst ` As \<inter> fst ` set items = {} \<Longrightarrow>
   \<exists>s' Cs. restore_admissions cr items n s = (Inr (n + length items), s') \<and> adds cr m0 (As \<union> Cs) (sv_manager s')
     \<and> Cs \<subseteq> Bs \<and> fst ` Cs = fst ` set items \<and> settlement (sv_manager s') = settlement (sv_manager s)"
proof (induction items arbitrary: As s n)
  case Nil
  then show ?case by (intro exI [of _ s] exI [of _ "{}"]) simp
next
  case (Cons item items)
  obtain k p where item: "item = (k, p)" by (cases item)
  from Cons.prems(2) item obtain r b where row: "decode_row p = Inr (r, b)" and mem: "(k, r, b) \<in> Bs" by auto
  let ?a = "(k, r, b)"
  have out: "?a \<notin> As" using Cons.prems(7) item by force
  have "vid_of ?a \<notin> vid_of ` As" "deposit_of ?a \<notin> deposit_of ` As"
    using inj_on_image_mem_iff [OF Cons.prems(4), of ?a As] inj_on_image_mem_iff [OF Cons.prems(5), of ?a As] mem out by auto
  moreover have "\<not> has_key (m_records m0) (vid_of ?a)" "deposit_of ?a \<notin> deposits m0"
    using Cons.prems(3) mem by auto
  ultimately have new: "\<not> has_key (m_records (sv_manager s)) (ar_validator_id r)" "ar_deposit_id r \<notin> deposits (sv_manager s)"
    using Cons.prems(1) by (auto simp: adds_def record_keys vid_of_def deposit_of_def entry_of_def)
  have valid: "valid_admission cr (minimum_stake m0) ?a" using Cons.prems(3) mem by auto
  obtain m' where m': "restore_admission cr r b (sv_manager s) = (Inr (), m')" "adds cr m0 (insert ?a As) m'"
    by (rule restore_one [OF Cons.prems(1) valid new])
  have led: "settlement m' = settlement (sv_manager s)"
    using m'(1) by (auto simp: restore_admission_def raise_m_def refresh_def set_record_def split: if_splits)
  have "adds cr m0 (insert ?a As) (sv_manager (s\<lparr>sv_manager := m'\<rparr>))" using m'(2) by simp
  moreover have "insert ?a As \<union> Bs = As \<union> Bs" using mem by auto
  ultimately obtain s' Cs where rest: "restore_admissions cr items (n + 1) (s\<lparr>sv_manager := m'\<rparr>) = (Inr (n + 1 + length items), s')"
    "adds cr m0 (insert ?a As \<union> Cs) (sv_manager s')" "Cs \<subseteq> Bs" "fst ` Cs = fst ` set items"
    "settlement (sv_manager s') = settlement m'"
    using Cons.IH [of "insert ?a As" "s\<lparr>sv_manager := m'\<rparr>" "n + 1"] Cons.prems(2-7) item by auto
  from row obtain x where "bindE (jfield ''request'' p) admission_from_wire = Inr r"
    "bindE (jfield ''bond'' p) bond_from_wire = Inr b"
    by (auto simp: decode_row_def bindE_Inr_iff)
  with rest m'(1) mem led show ?case
    by (intro exI [of _ s'] exI [of _ "insert ?a Cs"]) (auto simp: item)
qed

lemma sort_key_unique:
  assumes "distinct (map f xs)" "distinct (map f ys)" "set xs = set ys"
  shows "sort_key f xs = sort_key f ys"
proof (rule map_inj_on)
  have "mset xs = mset ys" using assms by (simp add: distinct_map set_eq_iff_mset_eq_distinct)
  then have "sort (map f xs) = sort (map f ys)" by (intro properties_for_sort) simp_all
  then show "map f (sort_key f xs) = map f (sort_key f ys)" by (simp only: map_sort_key_id)
  show "inj_on f (set (sort_key f xs) \<union> set (sort_key f ys))" using assms by (simp add: distinct_map)
qed

lemma record_set_values: "records_ok m \<Longrightarrow> set (dict_values (m_records m)) = snd ` record_set m"
  by (force simp: records_ok_def record_set_def)

lemma same_snapshot:
  assumes "records_ok m" "records_ok m'" "record_set m' = record_set m" "m_epoch m' = m_epoch m" "m_seed m' = m_seed m"
  shows "build_snapshot cr m' = build_snapshot cr m"
proof -
  have ids: "map v_id (dict_values (m_records x)) = dict_keys (m_records x)" if "records_ok x" for x
    using that by (auto simp: records_ok_def record_ok_def)
  have d: "distinct (map v_id (dict_values (m_records x)))" if "records_ok x" for x
    unfolding ids [OF that] using that by (simp add: records_ok_def)
  have "set (dict_values (m_records m')) = set (dict_values (m_records m))"
    unfolding record_set_values [OF assms(1)] record_set_values [OF assms(2)] assms(3) ..
  from sort_key_unique [OF d [OF assms(2)] d [OF assms(1)] this] assms(4,5) show ?thesis
    by (simp add: build_snapshot_def)
qed

text \<open>The records a manager has are determined by their origins.\<close>

lemma records_of_origins:
  assumes "records_ok m0" "distinct (map vid_of As)" "\<forall>a \<in> set As. \<not> has_key (m_records m0) (vid_of a)"
    and "record_set m = origins m0 As"
  shows "map_of (m_records m) = map_of (m_records m0 @ map entry_of As)"
proof -
  have keys: "map fst (map entry_of As) = map vid_of As" by (simp add: entry_of_def)
  have "distinct (map fst (m_records m0 @ map entry_of As))"
    using assms(1-3) unfolding map_append keys by (force simp: records_ok_def has_key_def)
  note look = map_of_eq_Some_iff [OF this]
  have "map_of (m_records m0) k = Some v \<longleftrightarrow> (k, v) \<in> set (m_records m0)" for k v
    using assms(1) by (intro map_of_eq_Some_iff) (simp add: records_ok_def)
  then have "(k, v) \<in> record_set m \<longleftrightarrow> map_of (m_records m0 @ map entry_of As) k = Some v" for k v
    unfolding assms(4) look by (auto simp: origins_def record_set_def)
  then have "map_of (m_records m) k = Some v \<longleftrightarrow> map_of (m_records m0 @ map entry_of As) k = Some v" for k v
    by (simp add: record_set_def)
  then show ?thesis by (metis (no_types) ext not_None_eq)
qed

lemma records_stake: "records_ok m \<Longrightarrow> map_of (m_records m) k = Some v \<Longrightarrow> 0 \<le> v_stake v"
  by (force simp: records_ok_def record_ok_def dest: map_of_SomeD)

lemma adds_unique:
  assumes "adds cr m0 As m" "adds cr m0 As m'"
  shows "m_snapshot m' = m_snapshot m \<and> map_of (m_records m') = map_of (m_records m)"
proof -
  have same: "records_ok m" "records_ok m'" "record_set m' = record_set m" "m_epoch m' = m_epoch m" "m_seed m' = m_seed m"
    using assms by (simp_all add: adds_def)
  have "map_of (m_records m') k = Some v \<longleftrightarrow> map_of (m_records m) k = Some v" for k v
    using same(3) by (auto simp: record_set_def set_eq_iff)
  then have "map_of (m_records m') = map_of (m_records m)" by (metis (no_types) ext not_None_eq)
  with same_snapshot [OF same] assms show ?thesis by (simp add: adds_def)
qed

text \<open>Restoring the rows of \<open>As\<close> over the configured members gives the members and \<open>As\<close>.\<close>

lemma restored_admissions:
  assumes a0: "adds cr m0 {} m0" and R: "stored R s" "rows_of As R" and t: "taken cr m0 As m"
    and new: "distinct (map vid_of As)" "\<forall>a \<in> set As. \<not> has_key (m_records m0) (vid_of a)"
    and s0: "sv_manager s0 = m0\<lparr>settlement := Some l\<rparr>" "sv_store s0 = sv_store s"
  shows "\<exists>s'. onboarding_restore cr s0 = (Inr (length As), s') \<and> adds cr m0 (set As) (sv_manager s')"
proof -
  from R(1) obtain d where d: "sv_store s = Some d" "calm d" "store_get d ''onboarding'' = R" by (auto simp: stored_def)
  let ?items = "store_items d ''onboarding''"
  have wf: "wf_dict (rows d)" using d(2) by (simp add: calm_def)
  have items: "(k, p) \<in> set ?items \<longleftrightarrow> R k = Some p" for k p using store_items_get(1) [OF wf] d(3) by simp
  have "adds cr m0 {} (sv_manager s0)" by (rule adds_same [OF a0]) (simp_all add: s0)
  moreover have "\<forall>(k, p) \<in> set ?items. \<exists>r b. decode_row p = Inr (r, b) \<and> (k, r, b) \<in> set As"
    using R(2) by (auto simp: rows_of_def items)
  moreover have "\<forall>a \<in> {} \<union> set As. valid_admission cr (minimum_stake m0) a \<and> \<not> has_key (m_records m0) (vid_of a) \<and> deposit_of a \<notin> deposits m0"
    "inj_on vid_of ({} \<union> set As)" "inj_on deposit_of ({} \<union> set As)" "distinct (map fst ?items)"
    "fst ` {} \<inter> fst ` set ?items = {}"
    using t new store_items_get(2) [OF wf] by (simp_all add: taken_def distinct_map)
  ultimately obtain s' Cs where res: "restore_admissions cr ?items 0 s0 = (Inr (0 + length ?items), s')"
    "adds cr m0 ({} \<union> Cs) (sv_manager s')" "Cs \<subseteq> set As" "fst ` Cs = fst ` set ?items"
    "settlement (sv_manager s') = settlement (sv_manager s0)"
    using restore_list [of cr m0 "{}" s0 ?items "set As" 0] by blast
  have fsts: "distinct (map fst As)" using t by (simp add: taken_def)
  have keys: "fst ` set ?items = fst ` set As"
  proof
    show "fst ` set ?items \<subseteq> fst ` set As" using res(3,4) by blast
    show "fst ` set As \<subseteq> fst ` set ?items"
    proof
      fix k
      assume "k \<in> fst ` set As"
      then obtain r b where "(k, r, b) \<in> set As" by auto
      with R(2) obtain p where "R k = Some p" unfolding rows_of_def by blast
      then have "(k, p) \<in> set ?items" by (simp add: items)
      then show "k \<in> fst ` set ?items" by (metis fst_conv image_eqI)
    qed
  qed
  have "set As \<subseteq> Cs"
  proof
    fix x
    assume x: "x \<in> set As"
    then have "fst x \<in> fst ` Cs" using keys res(4) by simp
    then obtain y where "y \<in> Cs" "fst y = fst x" by auto
    moreover with res(3) fsts x have "y = x" by (auto simp: distinct_map inj_on_def)
    ultimately show "x \<in> Cs" by simp
  qed
  with res(3) have Cs: "Cs = set As" by blast
  have "card (set (map fst ?items)) = length (map fst ?items)" "card (set (map fst As)) = length (map fst As)"
    using distinct_card store_items_get(2) [OF wf] fsts by blast+
  then have n: "length ?items = length As" using keys by simp
  have "settlement (sv_manager s') = Some l" using res(5) by (simp add: s0)
  then have "onboarding_restore cr s0 = (Inr (length As), s')"
    using res(1) n d(1) by (simp add: onboarding_restore_def thenS_def ledger_of_def onboarding_root_def s0)
  with res(2) Cs show ?thesis by auto
qed


subsection \<open>A concrete admission\<close>

lemma onboard_succeeds:
  assumes "screened cr r b s" "admit cr r approvers (Some b) (sv_manager s) = (Inr c, m)"
    "sv_store s = Some db" "calm db"
  shows "\<exists>s'. onboard cr r b approvers s = (Inr c, s') \<and> sv_manager s' = m"
proof -
  obtain res s' where call: "onboard cr r b approvers s = (res, s')" by fastforce
  from this assms(3,4) show ?thesis
    by (cases rule: onboard_cases) (use call assms(1,2) in auto)
qed

definition alice :: keypair where
  "alice = \<lparr>private_bytes = ''a''\<rparr>"

definition rich_ledger :: ledger where
  "rich_ledger = \<lparr>l_asset = ''M'', l_treasury = ''t'', reporter_bps = 0, balances = [(identity demo_crypto alice, 10)],
     bonds = [], events = [], slash_ids = {}, settled_epochs = {}\<rparr>"

definition open_manager :: manager where
  "open_manager = manager_init demo_crypto ''s'' 1 5 2 (Some rich_ledger)"

definition alice_request :: admission_request where
  "alice_request = admission_create demo_crypto alice ''w'' 10 ''d'' 0 (Some ''b'')"

definition alice_bond :: stake_bond where
  "alice_bond = bond_create demo_crypto alice ''b'' 10 ''M'' 0 0"

definition blank_store :: durable_store where
  "blank_store = \<lparr>rows = [], event_log = [], event_counter = 0, snapshot_rows = [], meta_version = Some 2, faults = []\<rparr>"

lemma alice_admitted: "\<exists>c m. admit demo_crypto alice_request [] (Some alice_bond) open_manager = (Inr c, m)"
  by (simp add: admit_def alice_request_def admission_create_def admission_verify_def admission_statement_def
    open_manager_def manager_init_def refresh_def admit_bond_def alice_bond_def bond_create_def bond_verify_def bond_statement_def
    alice_def thenS_def on_settlement_def settle_bond_def rich_ledger_def has_key_def debit_def balance_of_def log_event_def
    set_position_def Let_def identity_def)

definition open_services :: services where
  "open_services = services_init open_manager (Some blank_store)"

lemma alice_screened: "screened demo_crypto alice_request alice_bond open_services"
  by (simp add: screened_def alice_request_def admission_create_def admission_verify_def admission_statement_def
      open_services_def services_init_def open_manager_def manager_init_def refresh_def alice_bond_def bond_create_def
      bond_verify_def bond_statement_def alice_def ledger_of_def rich_ledger_def balance_of_def Let_def identity_def)

lemma alice_onboarded:
  obtains c s where "onboard demo_crypto alice_request alice_bond [] open_services = (Inr c, s)"
    "admit demo_crypto alice_request [] (Some alice_bond) open_manager = (Inr c, sv_manager s)"
proof -
  obtain c m where adm: "admit demo_crypto alice_request [] (Some alice_bond) open_manager = (Inr c, m)"
    using alice_admitted by blast
  moreover have "calm blank_store" by (simp add: calm_def blank_store_def)
  ultimately show ?thesis
    using onboard_succeeds [OF alice_screened, of "[]" c m blank_store] that
    by (auto simp: open_services_def services_init_def)
qed


end
