(* ===== verification/Node_Props.thy ===== *)
theory Node_Props
  imports Node Onboarding_Props
begin

section \<open>A validator node under arbitrary messages\<close>

text \<open>
  Every message a node dispatches, of any type and from anyone, keeps the funds and the beacon rounds
  of its services in order; the price of a round, though, is the sender's to choose.
\<close>

subsection \<open>Services keep the funds and the rounds\<close>

definition funds_ok :: "crypto \<Rightarrow> int \<Rightarrow> manager \<Rightarrow> bool" where
  "funds_ok cr T m \<longleftrightarrow> manager_ok cr m \<and> (\<exists>l. settlement m = Some l \<and> ledger_ok l \<and> total_value l \<le> T)"

definition services_ok :: "crypto \<Rightarrow> int \<Rightarrow> services \<Rightarrow> bool" where
  "services_ok cr T s \<longleftrightarrow> funds_ok cr T (sv_manager s) \<and> rounds_ok cr s"

lemma funds_settlement:
  assumes "funds_ok cr T m" "changes 0 0 f" "on_settlement f m = (r, m')"
    and "m_records m' = m_records m" "minimum_stake m' = minimum_stake m" "m_snapshot m' = m_snapshot m"
  shows "funds_ok cr T m'"
proof -
  have "manager_ok cr m'" using assms(1) manager_ok_same [OF _ assms(4-6)] by (simp add: funds_ok_def)
  moreover obtain l where l: "settlement m = Some l" "ledger_ok l" "total_value l \<le> T"
    using assms(1) by (auto simp: funds_ok_def)
  obtain x k where f: "f l = (x, k)" by fastforce
  with assms(3) l(1) have "settlement m' = Some k" by (auto simp: on_settlement_def split: sum.splits)
  moreover have "ledger_ok k" "total_value k \<le> T"
    using changesD [OF assms(2) l(2) f] l(3) by (auto split: if_splits)
  ultimately show ?thesis by (simp add: funds_ok_def)
qed

lemma admit_funds:
  assumes ok: "funds_ok cr T m" and call: "admit cr r approvers (Some b) m = (res, m')"
  shows "funds_ok cr T m'"
proof -
  have "manager_ok cr m'" using ok admit_ok [OF _ call] by (simp add: funds_ok_def)
  moreover obtain m1 where "settlement m' = settlement m1" "settlement m1 = settlement m
      \<or> (\<exists>q. on_settlement (settle_bond cr b (m_epoch m)) m = (q, m1))"
    using call
    by (auto simp: admit_def admit_bond_def raise_m_def Let_def refresh_def set_record_def
        split: if_splits elim!: thenS_cases)
  moreover have "funds_ok cr T m1" if "on_settlement (settle_bond cr b (m_epoch m)) m = (q, m1)" for q
    using funds_settlement [OF ok changes_settle_bond that] on_settlement_frame [OF that] by blast
  ultimately show ?thesis using ok unfolding funds_ok_def by metis
qed

lemma services_same:
  "services_ok cr T s \<Longrightarrow> sv_manager s' = sv_manager s \<Longrightarrow> same_rounds s s' \<Longrightarrow> services_ok cr T s'"
  using same_rounds_keeps unfolding services_ok_def by metis

lemma services_store [simp]: "services_ok cr T (s\<lparr>sv_store := x\<rparr>) = services_ok cr T s"
  by (simp add: services_ok_def rounds_ok_def)

lemma save_manager: "save f s = (r, s') \<Longrightarrow> sv_manager s' = sv_manager s"
  by (auto simp: save_def split: option.splits prod.splits sum.splits)

lemma save_ledger_manager: "save_ledger cr s = (r, s') \<Longrightarrow> sv_manager s' = sv_manager s"
  by (auto simp: save_ledger_def split: sum.splits dest: save_manager)

lemma save_services: "keeps (services_ok cr T) (save f)"
  by (rule keepsI) (auto simp: save_def split: option.splits prod.splits sum.splits)

lemma save_ledger_services: "keeps (services_ok cr T) (save_ledger cr)"
  by (rule keepsI) (auto simp: save_ledger_def split: sum.splits dest: keepsD [OF save_services])

lemma on_membership_services:
  assumes "keeps (funds_ok cr T) f"
  shows "keeps (services_ok cr T) (on_membership f)"
proof (rule keepsI)
  fix s r s'
  assume ok: "services_ok cr T s" and call: "on_membership f s = (r, s')"
  obtain q m where f: "f (sv_manager s) = (q, m)" by fastforce
  with call have s': "s' = s\<lparr>sv_manager := m\<rparr>" by (auto simp: on_membership_def split: sum.splits)
  have "funds_ok cr T m" using keepsD [OF assms _ f] ok by (simp add: services_ok_def)
  with ok s' show "services_ok cr T s'" by (simp add: services_ok_def rounds_ok_def)
qed

text \<open>
  What the two coordinators do around a call that changes the manager: from \<open>P\<close> the call comes to \<open>Q\<close>,
  writing the ledger to \<open>R\<close>, and writing the row of the call stays there.
\<close>

lemma report_leads:
  assumes "leads Q (save_ledger cr) R" "\<And>s. Q s \<Longrightarrow> R s" "\<And>key payload. keeps R (save (store_put kind key payload True))"
  shows "leads Q (\<lambda>s. thenS (save_ledger cr) (\<lambda>_ s. case ledger_of s of Inl e \<Rightarrow> (Inl e, s)
      | Inr l \<Rightarrow> thenS (save (store_put kind key (f s l) True)) (\<lambda>_ s. (Inr c, s)) s) s) R"
proof -
  have "leads R (\<lambda>s. case ledger_of s of Inl e \<Rightarrow> (Inl e, s)
      | Inr l \<Rightarrow> thenS (save (store_put kind key (f s l) True)) (\<lambda>_ s. (Inr c, s)) s) R"
    by (rule leadsI) (auto split: sum.splits elim!: thenS_cases dest: keepsD [OF assms(3)])
  from leads_thenS [OF assms(1) _ this] show ?thesis by simp
qed

lemma onboard_leads:
  assumes admits: "leads P (on_membership (admit cr r approvers (Some b))) Q" and saves: "leads Q (save_ledger cr) R"
    and weaker: "\<And>s. P s \<Longrightarrow> R s" "\<And>s. Q s \<Longrightarrow> R s"
    and puts: "\<And>key payload. keeps R (save (store_put ''onboarding'' key payload True))"
  shows "leads P (onboard cr r b approvers) R"
proof -
  have "leads Q (\<lambda>s. if sv_store s = None
            then raise_v (OnboardingError ''onboarding coordinator is not bound to durable store'') s
            else thenS (save_ledger cr) (\<lambda>_ s. case ledger_of s of
                Inl e \<Rightarrow> (Inl e, s)
              | Inr l \<Rightarrow> thenS (save (store_put ''onboarding'' (ac_certificate_id c)
                  (admission_row cr r b c (sv_manager s) l) True)) (\<lambda>_ s. (Inr c, s)) s) s) R" for c
  proof (rule leadsI)
    fix s q s'
    assume Q: "Q s" and call: "(if sv_store s = None
            then raise_v (OnboardingError ''onboarding coordinator is not bound to durable store'') s
            else thenS (save_ledger cr) (\<lambda>_ s. case ledger_of s of
                Inl e \<Rightarrow> (Inl e, s)
              | Inr l \<Rightarrow> thenS (save (store_put ''onboarding'' (ac_certificate_id c)
                  (admission_row cr r b c (sv_manager s) l) True)) (\<lambda>_ s. (Inr c, s)) s) s) = (q, s')"
    show "R s'"
    proof (cases "sv_store s = None")
      case True
      with Q call show ?thesis by (simp add: raise_v_def weaker(2))
    next
      case False
      show ?thesis by (rule leadsD [OF report_leads [OF saves weaker(2) puts] Q call [unfolded if_not_P [OF False]]])
    qed
  qed
  from leadsD [OF leads_thenS [OF admits weaker(2) this]] show ?thesis
    by (intro leadsI) (auto simp: onboard_def raise_v_def weaker(1) split: if_splits sum.splits)
qed

lemma finalize_leads:
  assumes settles: "leads P (settle_services cr rnd reward penalty) Q" and saves: "leads Q (save_ledger cr) R"
    and weaker: "\<And>s. P s \<Longrightarrow> R s" "\<And>s. Q s \<Longrightarrow> R s" and settlements: "\<And>s x. Q s \<Longrightarrow> Q (s\<lparr>sv_settlements := x\<rparr>)"
    and puts: "\<And>key payload. keeps R (save (store_put ''beacon_round'' key payload True))"
  shows "leads P (beacon_finalize cr rnd reward penalty) R"
proof -
  have "leads Q (\<lambda>s. let s1 = s\<lparr>sv_settlements := AList.update k t (sv_settlements s)\<rparr> in
      if sv_store s1 = None then (Inr t, s1)
      else thenS (save_ledger cr) (\<lambda>_ s. case ledger_of s of Inl e \<Rightarrow> (Inl e, s)
        | Inr l \<Rightarrow> thenS (save (store_put ''beacon_round'' (rs_id t) (settlement_json cr t (sv_manager s) l) True))
            (\<lambda>_ s. (Inr t, s)) s) s1) R" for k and t :: round_settlement
  proof (rule leadsI)
    fix s s' :: services and q
    let ?s = "s\<lparr>sv_settlements := AList.update k t (sv_settlements s)\<rparr>"
    assume "Q s" and call: "(let s1 = ?s in if sv_store s1 = None then (Inr t, s1)
      else thenS (save_ledger cr) (\<lambda>_ s. case ledger_of s of Inl e \<Rightarrow> (Inl e, s)
        | Inr l \<Rightarrow> thenS (save (store_put ''beacon_round'' (rs_id t) (settlement_json cr t (sv_manager s) l) True))
            (\<lambda>_ s. (Inr t, s)) s) s1) = (q, s')"
    from \<open>Q s\<close> have Q: "Q ?s" by (rule settlements)
    show "R s'"
    proof (cases "sv_store ?s = None")
      case True
      with Q call show ?thesis by (simp add: Let_def weaker(2))
    next
      case False
      show ?thesis
        by (rule leadsD [OF report_leads [OF saves weaker(2) puts] Q call [unfolded Let_def if_not_P [OF False]]])
    qed
  qed
  from leadsD [OF leads_thenS [OF settles weaker(2) this]] show ?thesis
    by (intro leadsI) (auto simp: beacon_finalize_def raise_v_def Let_def weaker(1) split: option.splits if_splits)
qed

lemma onboard_services: "leads (services_ok cr T) (onboard cr r b approvers) (services_ok cr T)"
proof (rule onboard_leads)
  show "leads (services_ok cr T) (on_membership (admit cr r approvers (Some b))) (services_ok cr T)"
    by (intro leads_keeps on_membership_services) (rule keepsI, rule admit_funds)
qed (auto intro: leads_keeps save_ledger_services save_services)

lemma submit_services:
  "keeps (services_ok cr T) (submit_commitment cr c)" "keeps (services_ok cr T) (submit_reveal cr r)"
proof -
  show "keeps (services_ok cr T) (submit_commitment cr c)"
    by (rule keepsI) (metis commit_progresses progresses_def services_ok_def submit_manager(1))
  show "keeps (services_ok cr T) (submit_reveal cr r)"
    by (rule keepsI) (metis reveal_progresses progresses_def services_ok_def submit_manager(2))
qed

lemma settle_services_funds:
  assumes ok: "services_ok cr T s" and call: "settle_services cr rnd reward penalty s = (res, s')"
  shows "services_ok cr T s'"
proof (cases "settlement (sv_manager s)")
  case None
  with ok call show ?thesis by (simp add: settle_services_def ledger_of_def Let_def)
next
  case (Some l)
  let ?ep = "epoch_of (sv_manager s)"
  obtain q m l' where round: "settle_round cr (round_items ?ep rnd (sv_commitments s)) (round_items ?ep rnd (sv_reveals s))
      (validator_bonds (sv_manager s)) rnd reward penalty (sv_manager s, l) = (q, (m, l'))" by (metis prod.collapse)
  with Some call have s': "s' = s\<lparr>sv_manager := m\<lparr>settlement := Some l'\<rparr>\<rparr>"
    by (auto simp: settle_services_def ledger_of_def Let_def)
  from ok Some have "manager_ok cr (sv_manager s)" "ledger_ok l" "total_value l \<le> T"
    by (simp_all add: services_ok_def funds_ok_def)
  with conservingD [OF conserving_settle_round _ _ round] have "manager_ok cr m" "ledger_ok l'" "total_value l' \<le> T"
    by (auto split: if_splits)
  moreover from this(1) have "manager_ok cr (m\<lparr>settlement := Some l'\<rparr>)" by (rule manager_ok_same) simp_all
  ultimately show ?thesis using ok s' by (simp add: services_ok_def funds_ok_def rounds_ok_def)
qed

lemma finalize_services: "leads (services_ok cr T) (beacon_finalize cr rnd reward penalty) (services_ok cr T)"
proof (rule finalize_leads)
  show "leads (services_ok cr T) (settle_services cr rnd reward penalty) (services_ok cr T)"
    by (rule leadsI) (rule settle_services_funds)
  show "services_ok cr T s \<Longrightarrow> services_ok cr T (s\<lparr>sv_settlements := x\<rparr>)" for s x
    by (simp add: services_ok_def rounds_ok_def)
qed (auto intro: leads_keeps save_ledger_services save_services)

subsection \<open>What the services promise a node\<close>

text \<open>
  The handlers of a node reach its manager, its rounds and its store through the operations of its
  services and the puts of its provider. What these lead from \<open>before\<close> to \<open>after\<close>, every message does.
\<close>

definition node_services :: "validator_node \<Rightarrow> services" where
  "node_services n = (vn_services n)\<lparr>sv_store := g_store (vn_gossip n)\<rparr>"

lemma node_services_simps [simp]:
  "node_services (node_bump k n) = node_services n" "node_services (node_emit m n) = node_services n"
  "node_services (n\<lparr>vn_requests := R\<rparr>) = node_services n" "node_services (n\<lparr>vn_stopped := b\<rparr>) = node_services n"
  by (simp_all add: node_services_def node_bump_def node_emit_def bump_def)

locale service_contract =
  fixes cr :: crypto and before after :: "services \<Rightarrow> bool"
  assumes weaker: "before s \<Longrightarrow> after s"
    and onboarding: "leads before (onboard cr r b []) after"
    and committing: "leads before (submit_commitment cr c) after"
    and revealing: "leads before (submit_reveal cr v) after"
    and finalizing: "leads before (beacon_finalize cr rnd reward penalty) after"
    and filing: "keeps after (save (store_put ''admission'' key payload True))"
    and shelving: "before s \<Longrightarrow> sv_store s = Some db \<Longrightarrow> store_put ''availability_shard'' key payload True db = (q, db') \<Longrightarrow>
      before (s\<lparr>sv_store := Some db'\<rparr>)"
begin

lemma services_lead:
  assumes "leads P f Q"
  shows "leads (\<lambda>n. P (node_services n)) (on_services f) (\<lambda>n. Q (node_services n))"
proof (rule leadsI)
  fix n r n'
  assume P: "P (node_services n)" and call: "on_services f n = (r, n')"
  obtain q s where f: "f (node_services n) = (q, s)" by fastforce
  with call have "node_services n' = s" by (auto simp: on_services_def node_services_def)
  with leadsD [OF assms P f] show "Q (node_services n')" by simp
qed

lemma reading:
  "leads (\<lambda>n. P (node_services n)) (read_field f k msg) (\<lambda>n. P (node_services n))"
  "leads (\<lambda>n. P (node_services n)) (int_or d k msg) (\<lambda>n. P (node_services n))"
  "leads (\<lambda>n. P (node_services n)) (pure_call x) (\<lambda>n. P (node_services n))"
  by (auto simp: read_field_def int_or_def pure_call_def intro!: leadsI split: sum.splits wire_error.splits)

lemma trying:
  "leads P f (\<lambda>n. Q (node_services n)) \<Longrightarrow> leads P (try_answer f) (\<lambda>n. Q (node_services n))"
  by (rule leadsI) (auto simp: try_answer_def split: prod.splits sum.splits if_splits dest: leadsD)

lemma returning:
  "(\<And>n. node_services (g n) = node_services n) \<Longrightarrow> leads (\<lambda>n. P (node_services n)) (\<lambda>n. (Inr (a n), g n)) (\<lambda>n. P (node_services n))"
  by (rule leadsI) auto

lemma weakened: "leads P f (\<lambda>n. before (node_services n)) \<Longrightarrow> leads P f (\<lambda>n. after (node_services n))"
  unfolding leads_def using weaker by blast

lemma called:
  assumes "leads before f after" "\<And>a. leads (\<lambda>n. after (node_services n)) (g a) (\<lambda>n. after (node_services n))"
  shows "leads (\<lambda>n. before (node_services n)) (thenS (on_services f) g) (\<lambda>n. after (node_services n))"
  by (rule leads_thenS [OF services_lead [OF assms(1)] _ assms(2)])

lemma providing:
  assumes "keeps (\<lambda>q. before ((node_services n)\<lparr>sv_store := durable_shards q\<rparr>)) f"
    and "before (node_services n)" "on_provider p f n = (r, n')"
  shows "before (node_services n')"
proof -
  obtain x q where f: "f (p\<lparr>durable_shards := g_store (vn_gossip n)\<rparr>) = (x, q)" by fastforce
  have "before ((node_services n)\<lparr>sv_store := durable_shards q\<rparr>)"
    by (rule keepsD [OF assms(1) _ f]) (use assms(2) in \<open>simp add: node_services_def\<close>)
  moreover have "node_services n' = (node_services n)\<lparr>sv_store := durable_shards q\<rparr>"
    using assms(3) f by (auto simp: on_provider_def node_services_def)
  ultimately show ?thesis by simp
qed

lemma put_shelves: "keeps (\<lambda>q. before (s\<lparr>sv_store := durable_shards q\<rparr>)) (provider_put cr sh)"
proof (rule keepsI)
  fix q r q'
  assume B: "before (s\<lparr>sv_store := durable_shards q\<rparr>)" and call: "provider_put cr sh q = (r, q')"
  have "before (s\<lparr>sv_store := Some db'\<rparr>)"
    if "durable_shards q = Some db" "store_put ''availability_shard'' key payload True db = (x, db')" for db key payload x db'
    using shelving [OF B _ that(2)] that(1) by simp
  with B call show "before (s\<lparr>sv_store := durable_shards q'\<rparr>)"
    by (auto simp: provider_put_def split: prod.splits sum.splits option.splits)
qed

lemma puts_shelve: "keeps (\<lambda>q. before (s\<lparr>sv_store := durable_shards q\<rparr>)) (provider_puts cr shs)"
proof (induction shs)
  case (Cons sh shs)
  from keepsD [OF keeps_thenS [OF put_shelves this]] show ?case by (intro keepsI) auto
qed (rule keepsI, simp)

lemma repair_shelves: "keeps (\<lambda>q. before (s\<lparr>sv_store := durable_shards q\<rparr>)) (provider_repair cr source missing)"
proof -
  have "keeps (\<lambda>q. before (s\<lparr>sv_store := durable_shards q\<rparr>)) (thenS (provider_puts cr shs) (\<lambda>_ p. (Inr shs, p)))" for shs
    by (intro keeps_thenS puts_shelve) (rule keepsI, simp)
  then show ?thesis
    by (intro keepsI) (auto simp: provider_repair_def split: if_splits sum.splits dest: keepsD)
qed

lemma admit_leads: "leads (\<lambda>n. before (node_services n)) (node_admit cr msg) (\<lambda>n. after (node_services n))"
proof -
  have persist: "leads (\<lambda>n. after (node_services n)) (persist_admission r b c) (\<lambda>n. after (node_services n))" for r b c
    unfolding persist_admission_def by (intro services_lead leads_keeps filing)
  have rest: "leads (\<lambda>n. after (node_services n)) (\<lambda>n. thenS (persist_admission r b c) (\<lambda>_ n.
      (Inr (AdmittedAs c), if is_gossip msg then n else node_emit (NAdmission r b) n))
      (node_bump ''admissions'' (n\<lparr>vn_requests := R n\<rparr>))) (\<lambda>n. after (node_services n))" for r b c R
  proof (rule leadsI)
    fix n q n'
    have "leads (\<lambda>n. after (node_services n)) (thenS (persist_admission r b c) (\<lambda>_ n.
        (Inr (AdmittedAs c), if is_gossip msg then n else node_emit (NAdmission r b) n))) (\<lambda>n. after (node_services n))"
      by (rule leads_thenS [OF persist]) (auto intro: returning)
    moreover assume "after (node_services n)"
    then have "after (node_services (node_bump ''admissions'' (n\<lparr>vn_requests := R n\<rparr>)))" by simp
    moreover assume "thenS (persist_admission r b c) (\<lambda>_ n.
        (Inr (AdmittedAs c), if is_gossip msg then n else node_emit (NAdmission r b) n))
        (node_bump ''admissions'' (n\<lparr>vn_requests := R n\<rparr>)) = (q, n')"
    ultimately show "after (node_services n')" by (rule leadsD)
  qed
  have body: "leads (\<lambda>n. before (node_services n)) (\<lambda>n. if request_key cr r \<in> vn_requests n then (Inr Duplicate, n)
          else thenS (on_services (onboard cr r b [])) (\<lambda>c n.
            thenS (persist_admission r b c) (\<lambda>_ n.
              (Inr (AdmittedAs c), if is_gossip msg then n else node_emit (NAdmission r b) n))
            (node_bump ''admissions'' (n\<lparr>vn_requests := insert (request_key cr r) (vn_requests n)\<rparr>))) n)
      (\<lambda>n. after (node_services n))" for r b
    using leadsD [OF called [OF onboarding rest]] by (intro leadsI) (auto split: if_splits intro: weaker)
  have "leads (\<lambda>n. before (node_services n)) (try_answer (thenS (read_field admission_from_wire ''request'' msg) (\<lambda>r.
        thenS (read_field bond_from_wire ''bond'' msg) (\<lambda>b n.
          if request_key cr r \<in> vn_requests n then (Inr Duplicate, n)
          else thenS (on_services (onboard cr r b [])) (\<lambda>c n.
            thenS (persist_admission r b c) (\<lambda>_ n.
              (Inr (AdmittedAs c), if is_gossip msg then n else node_emit (NAdmission r b) n))
            (node_bump ''admissions'' (n\<lparr>vn_requests := insert (request_key cr r) (vn_requests n)\<rparr>))) n))))
      (\<lambda>n. after (node_services n))"
    by (intro trying leads_thenS [OF reading(1)] weaker body)
  from leadsD [OF this] show ?thesis by (intro leadsI) (auto simp: node_admit_def intro: weaker split: if_splits)
qed

lemma beacon_leads:
  "leads (\<lambda>n. before (node_services n)) (node_commit cr msg) (\<lambda>n. after (node_services n))"
  "leads (\<lambda>n. before (node_services n)) (node_reveal cr msg) (\<lambda>n. after (node_services n))"
  "leads (\<lambda>n. before (node_services n)) (node_finalize cr msg) (\<lambda>n. after (node_services n))"
proof -
  have "leads (\<lambda>n. before (node_services n)) (try_answer (thenS (read_field commitment_from_wire ''commitment'' msg) (\<lambda>c.
        thenS (on_services (submit_commitment cr c)) (\<lambda>_ n.
          (Inr (CommitmentTaken c),
           (if is_gossip msg then (\<lambda>n. n) else node_emit (NCommitment c)) (node_bump ''beacon_commits'' n))))))
      (\<lambda>n. after (node_services n))"
    by (intro trying leads_thenS [OF reading(1)] called [OF committing] weaker returning) auto
  from leadsD [OF this] show "leads (\<lambda>n. before (node_services n)) (node_commit cr msg) (\<lambda>n. after (node_services n))"
    by (intro leadsI) (auto simp: node_commit_def intro: weaker split: if_splits)
  have "leads (\<lambda>n. before (node_services n)) (try_answer (thenS (read_field reveal_from_wire ''reveal'' msg) (\<lambda>r.
        thenS (on_services (submit_reveal cr r)) (\<lambda>_ n.
          (Inr (RevealTaken r),
           (if is_gossip msg then (\<lambda>n. n) else node_emit (NReveal r)) (node_bump ''beacon_reveals'' n))))))
      (\<lambda>n. after (node_services n))"
    by (intro trying leads_thenS [OF reading(1)] called [OF revealing] weaker returning) auto
  from leadsD [OF this] show "leads (\<lambda>n. before (node_services n)) (node_reveal cr msg) (\<lambda>n. after (node_services n))"
    by (intro leadsI) (auto simp: node_reveal_def intro: weaker split: if_splits)
  have "leads (\<lambda>n. before (node_services n)) (try_answer (thenS (read_field as_integer ''round'' msg) (\<lambda>rnd.
        thenS (int_or 1 ''reveal_reward'' msg) (\<lambda>reward.
        thenS (int_or 1 ''non_reveal_penalty'' msg) (\<lambda>penalty.
        thenS (on_services (beacon_finalize cr rnd reward penalty)) (\<lambda>t n.
          (Inr (RoundSettled t), node_bump ''beacon_finalizations'' n)))))))
      (\<lambda>n. after (node_services n))"
    by (intro trying leads_thenS [OF reading(1)] leads_thenS [OF reading(2)] called [OF finalizing]
        weaker returning) auto
  from leadsD [OF this] show "leads (\<lambda>n. before (node_services n)) (node_finalize cr msg) (\<lambda>n. after (node_services n))"
    by (intro leadsI) (auto simp: node_finalize_def intro: weaker split: if_splits)
qed

lemma provider_leads:
  "leads (\<lambda>n. before (node_services n)) (node_put cr msg) (\<lambda>n. after (node_services n))"
  "leads (\<lambda>n. before (node_services n)) (node_fetch msg) (\<lambda>n. after (node_services n))"
  "leads (\<lambda>n. before (node_services n)) (node_sample cr msg) (\<lambda>n. after (node_services n))"
  "leads (\<lambda>n. before (node_services n)) (node_repair cr msg) (\<lambda>n. after (node_services n))"
proof -
  have asked: "leads (\<lambda>n. before (node_services n)) (with_provider f) (\<lambda>n. after (node_services n))"
    if "\<And>p. leads (\<lambda>n. before (node_services n)) (f p) (\<lambda>n. before (node_services n))" for f
    by (rule leadsI)
      (auto simp: with_provider_def intro: weaker split: option.splits dest: leadsD [OF trying [OF weakened [OF that]]])
  have put: "leads (\<lambda>n. before (node_services n)) (on_provider p (provider_put cr s)) (\<lambda>n. before (node_services n))" for p s
    by (rule leadsI) (rule providing [OF put_shelves])
  have repair: "leads (\<lambda>n. before (node_services n)) (on_provider p (provider_repair cr source missing)) (\<lambda>n. before (node_services n))"
    for p source missing by (rule leadsI) (rule providing [OF repair_shelves])
  show "leads (\<lambda>n. before (node_services n)) (node_put cr msg) (\<lambda>n. after (node_services n))"
    unfolding node_put_def by (intro asked leads_thenS [OF reading(1)] leads_thenS [OF put] returning; simp)
  show "leads (\<lambda>n. before (node_services n)) (node_fetch msg) (\<lambda>n. after (node_services n))"
    unfolding node_fetch_def by (intro asked leads_thenS [OF reading(1)] leads_thenS [OF reading(3)] returning; simp)
  show "leads (\<lambda>n. before (node_services n)) (node_sample cr msg) (\<lambda>n. after (node_services n))"
    unfolding node_sample_def by (intro asked leads_thenS [OF reading(1)] leads_thenS [OF reading(3)] returning; simp)
  show "leads (\<lambda>n. before (node_services n)) (node_repair cr msg) (\<lambda>n. after (node_services n))"
    unfolding node_repair_def by (intro asked leads_thenS [OF reading(1)] leads_thenS [OF repair] returning; simp)
qed

lemma dispatch_leads: "before (node_services n) \<Longrightarrow> dispatch cr msg n = (r, n') \<Longrightarrow> after (node_services n')"
proof -
  assume B: "before (node_services n)" and call: "dispatch cr msg n = (r, n')"
  note calls = leadsD [OF admit_leads B] leadsD [OF beacon_leads(1) B] leadsD [OF beacon_leads(2) B]
    leadsD [OF beacon_leads(3) B] leadsD [OF provider_leads(1) B] leadsD [OF provider_leads(2) B]
    leadsD [OF provider_leads(3) B] leadsD [OF provider_leads(4) B]
  have spawned: "spawn f m n = (r, n') \<Longrightarrow> after (node_services n')" for f m
    using B by (auto simp: spawn_def intro: weaker split: sum.splits)
  show "after (node_services n')"
  proof (cases msg)
    case (JObj kvs)
    with call show ?thesis
      unfolding dispatch_def Let_def
      by (simp only: json.case split: if_split_asm) (use B in \<open>auto intro: weaker dest: calls spawned\<close>)
  qed (use B call in \<open>auto simp: dispatch_def intro: weaker\<close>)
qed

end

subsection \<open>The handlers keep the funds and the rounds\<close>

interpretation funds: service_contract cr "services_ok cr T" "services_ok cr T" for cr T
  by unfold_locales (auto intro: leads_keeps onboard_services submit_services finalize_services save_services)

definition node_ok :: "crypto \<Rightarrow> int \<Rightarrow> validator_node \<Rightarrow> bool" where
  "node_ok cr T n \<longleftrightarrow> services_ok cr T (vn_services n)"

lemma dispatch_kept: "node_ok cr T n \<Longrightarrow> dispatch cr msg n = (r, n') \<Longrightarrow> node_ok cr T n'"
  using funds.dispatch_leads by (simp add: node_ok_def node_services_def)

lemma messages_kept:
  "node_ok cr T n \<Longrightarrow> node_ok cr T (fold (\<lambda>msg n. snd (dispatch cr msg n)) msgs n)"
proof (induction msgs arbitrary: n)
  case (Cons msg msgs)
  from dispatch_kept [OF Cons.prems prod.collapse [symmetric]] show ?case by (simp add: Cons.IH)
qed simp

lemma node_ok_start:
  assumes "vn_services n = services_init m db" "manager_ok cr m" "settlement m = Some l" "ledger_ok l"
  shows "node_ok cr (total_value l) n"
  using assms services_init_ok by (simp add: node_ok_def services_ok_def funds_ok_def services_init_def)

text \<open>
  C11. No message mints value. A validator node starts with a sound membership manager and a ledger that
  audits. After any messages, of any type and from anyone, handled or refused, with broken fields or
  out of order: the ledger audits and holds no more in total than at the start, the membership
  snapshot verifies, and every accepted reveal opens the commitment of its validator.
\<close>

theorem node_conserves_value:
  assumes start: "vn_services n = services_init m db" "manager_ok cr m" "settlement m = Some l" "ledger_ok l"
    and run: "n' = fold (\<lambda>msg n. snd (dispatch cr msg n)) msgs n"
  shows "(\<exists>l'. settlement (sv_manager (vn_services n')) = Some l' \<and> audit l' \<and> total_value l' \<le> total_value l)
    \<and> snapshot_verify cr (m_snapshot (sv_manager (vn_services n')))
    \<and> (\<forall>k r. map_of (sv_reveals (vn_services n')) k = Some r \<longrightarrow>
         (\<exists>c. map_of (sv_commitments (vn_services n')) k = Some c \<and> rc_commitment c = commitment_of cr (rr_secret r)))"
proof -
  from messages_kept [OF node_ok_start [OF start]] have ok: "node_ok cr (total_value l) n'" unfolding run .
  then have "\<exists>l'. settlement (sv_manager (vn_services n')) = Some l' \<and> audit l' \<and> total_value l' \<le> total_value l"
    by (auto simp: node_ok_def services_ok_def funds_ok_def ledger_ok_def)
  moreover have "snapshot_verify cr (m_snapshot (sv_manager (vn_services n')))"
    using ok by (simp add: node_ok_def services_ok_def funds_ok_def manager_ok_def snapshot_ok_def)
  moreover have "rounds_ok cr (vn_services n')" using ok by (simp add: node_ok_def services_ok_def)
  ultimately show ?thesis using rounds_okD(2) unfolding opens_def by blast
qed

text \<open>The books of a validator with one missed commitment and a bond, and a request to settle the round.\<close>

definition bonded_services :: services where
  "bonded_services = services_init (voting\<lparr>settlement := Some demo_ledger, validator_bonds := [(''v'', ''b1'')]\<rparr>) None"

definition finalize_message :: "int \<Rightarrow> int \<Rightarrow> json" where
  "finalize_message rnd penalty =
     JObj [(''type'', JStr ''BEACON_FINALIZE''), (''round'', JInt rnd), (''non_reveal_penalty'', JInt penalty)]"

definition validator_with :: "services \<Rightarrow> validator_node" where
  "validator_with s = \<lparr>vn_gossip = gossip_init ''v'' 4 False (protocol_init [] 0) None, vn_services = s,
     vn_onboards = True, vn_beacons = True, vn_provider = None, vn_requests = {}, vn_outbox = [], vn_stopped = False\<rparr>"

lemma bonded_ok: "manager_ok demo_crypto (sv_manager bonded_services)" "settlement (sv_manager bonded_services) = Some demo_ledger"
proof -
  have "manager_ok demo_crypto voting"
    by (rule refresh_ok) (simp_all add: Membership_Props.demo_manager_def set_record_def manager_init_def records_ok_def
        record_ok_def refresh_def)
  then show "manager_ok demo_crypto (sv_manager bonded_services)"
    by (rule manager_ok_same) (simp_all add: bonded_services_def services_init_def)
qed (simp add: bonded_services_def services_init_def)

theorem node_conserves_value_witness:
  "\<exists>l. settlement (sv_manager (vn_services (fold (\<lambda>msg n. snd (dispatch demo_crypto msg n))
      [JNull, finalize_message 0 5, JObj [(''type'', JStr ''SHUTDOWN'')]] (validator_with bonded_services)))) = Some l
     \<and> audit l \<and> total_value l \<le> 37"
proof -
  have "vn_services (validator_with bonded_services) = services_init (sv_manager bonded_services) None"
    by (simp add: validator_with_def bonded_services_def services_init_def)
  from node_conserves_value [OF this bonded_ok demo_ledger_ok refl,
      of "[JNull, finalize_message 0 5, JObj [(''type'', JStr ''SHUTDOWN'')]]"]
  show ?thesis by (simp add: total_value_def demo_ledger_def)
qed

subsection \<open>Who may settle a round\<close>

lemma finalize_settles:
  assumes fresh: "map_of (sv_settlements s) (epoch_of (sv_manager s), rnd) = None"
    and call: "beacon_finalize cr rnd reward penalty s = (Inr t, s')"
  obtains s1 where "settle_services cr rnd reward penalty s = (Inr t, s1)" "sv_manager s' = sv_manager s1"
  using assms
  by (auto simp: beacon_finalize_def raise_v_def Let_def split: if_splits sum.splits elim!: thenS_Inr
      dest!: save_manager save_ledger_manager)

text \<open>
  C37. Any sender settles any round, at any price. A \<open>BEACON_FINALIZE\<close> message carries no signature and
  names its own penalty; a node does not ask who sent it and whether the time to reveal is over. When
  such a message settles an open round, every validator that has committed and not revealed yet
  loses as much stake as the sender chose, all of it if the penalty is high enough.
\<close>

theorem anyone_slashes:
  assumes ok: "services_ok cr T (vn_services n)"
    and open_round: "map_of (sv_settlements (vn_services n)) (epoch_of (sv_manager (vn_services n)), rnd) = None"
    and missing: "vid \<in> rc_validator_id ` set (round_items (epoch_of (sv_manager (vn_services n))) rnd (sv_commitments (vn_services n)))"
      "vid \<notin> rr_validator_id ` set (round_items (epoch_of (sv_manager (vn_services n))) rnd (sv_reveals (vn_services n)))"
    and settled: "dispatch cr (finalize_message rnd penalty) n = (Inr (RoundSettled t), n')"
  shows "stake_at (sv_manager (vn_services n')) vid =
    map_option (\<lambda>k. max 0 (k - penalty)) (stake_at (sv_manager (vn_services n)) vid)"
proof -
  let ?s = "(vn_services n)\<lparr>sv_store := g_store (vn_gossip n)\<rparr>" and ?ep = "epoch_of (sv_manager (vn_services n))"
  have "node_finalize cr (finalize_message rnd penalty) n = (Inr (RoundSettled t), n')"
    using settled by (simp add: dispatch_def finalize_message_def)
  then obtain s' where "beacon_finalize cr rnd 1 penalty ?s = (Inr t, s')" "vn_services n' = s'"
    by (auto simp: node_finalize_def try_answer_def finalize_message_def read_field_def int_or_def jfield_def
        as_integer_def on_services_def node_bump_def thenS_def bindE_def split: if_splits prod.splits sum.splits)
  moreover obtain l where l: "settlement (sv_manager (vn_services n)) = Some l" "ledger_ok l"
    "manager_ok cr (sv_manager (vn_services n))"
    using ok by (auto simp: services_ok_def funds_ok_def)
  ultimately obtain s1 where "settle_services cr rnd 1 penalty ?s = (Inr t, s1)" "sv_manager (vn_services n') = sv_manager s1"
    using finalize_settles [of ?s rnd cr 1 penalty t s'] open_round by auto
  moreover obtain q m l' where round: "settle_round cr (round_items ?ep rnd (sv_commitments (vn_services n)))
      (round_items ?ep rnd (sv_reveals (vn_services n))) (validator_bonds (sv_manager (vn_services n))) rnd 1 penalty
      (sv_manager (vn_services n), l) = (q, (m, l'))" by (metis prod.collapse)
  ultimately have "q = Inr t" "sv_manager (vn_services n') = m\<lparr>settlement := Some l'\<rparr>"
    using l(1) by (auto simp: settle_services_def ledger_of_def Let_def split: sum.splits randomness_error.splits)
  with settled_round [OF l(3,2)] round missing show ?thesis by (simp add: stake_at_def)
qed

definition late_services :: services where
  "late_services = bonded_services\<lparr>sv_commitments := [((0, 0, ''v''), missed)]\<rparr>"

lemma late_fields: "m_epoch (sv_manager late_services) = 0" "m_snapshot (sv_manager late_services) = m_snapshot voting"
  "m_records (sv_manager late_services) = m_records voting" "epoch_of (sv_manager late_services) = 0"
  "validator_bonds (sv_manager late_services) = [(''v'', ''b1'')]" "non_reveal_history (sv_manager late_services) = {}"
  "round_items 0 0 (sv_commitments late_services) = [missed]" "round_items 0 0 (sv_reveals late_services) = []"
  "sv_settlements late_services = []" "settlement (sv_manager late_services) = Some demo_ledger"
  using voting by (simp_all add: late_services_def bonded_services_def services_init_def round_items_def epoch_of_def)

lemma late_settles:
  "\<exists>t s. beacon_finalize demo_crypto 0 1 1000 (late_services\<lparr>sv_store := None\<rparr>) = (Inr t, s)"
proof -
  have cm: "dict_of rc_validator_id [missed] = [(''v'', missed)]" "dict_of rr_validator_id [] = []"
    by (simp_all add: dict_of_def missed_fields)
  obtain b where b: "round_beacon demo_crypto (sv_manager late_services) [(''v'', missed)] [] 0 = Inr b"
    using missed_round by (auto simp: round_beacon_def make_fallback_beacon_def dict_of_def missed_fields Let_def
        check_commitment_def late_fields voting to_bytes8_def commitment_of_def)
  obtain evs l where s: "settle_slash demo_crypto ''b1'' 1000 0 (non_reveal_evidence 0 0 ''v'') None demo_ledger = (Inr evs, l)"
    by (auto simp: settle_slash_def thenS_def position_def demo_ledger_def Let_def
      log_event_def has_key_def credit_def set_position_def balance_of_def non_reveal_evidence_def)
  obtain v m where p: "penalize_non_reveal demo_crypto ''v'' 0 0 1000 (sv_manager late_services) = (Inr v, m)"
    by (auto simp: penalize_non_reveal_def late_fields voting Let_def)
  have "\<exists>t m l. settle_round demo_crypto [missed] [] [(''v'', ''b1'')] 0 1 1000 (sv_manager late_services, demo_ledger) = (Inr t, (m, l))"
    using b s p by (simp add: settle_round_def cm round_refused_def late_fields voting Let_def penalize_one_def on_round_ledger_def
      on_round_manager_def pay_reveals_def thenS_def
      balance_of_def demo_ledger_def)
  then show ?thesis
    by (auto simp: beacon_finalize_def settle_services_def ledger_of_def late_fields Let_def thenS_def)
qed

theorem anyone_slashes_witness:
  "\<exists>t n'. dispatch demo_crypto (finalize_message 0 1000) (validator_with late_services) = (Inr (RoundSettled t), n')
     \<and> stake_at (sv_manager (vn_services n')) ''v'' = Some 0"
proof -
  let ?n = "validator_with late_services"
  obtain t s where "beacon_finalize demo_crypto 0 1 1000 (late_services\<lparr>sv_store := None\<rparr>) = (Inr t, s)"
    using late_settles by blast
  then obtain n' where run: "dispatch demo_crypto (finalize_message 0 1000) ?n = (Inr (RoundSettled t), n')"
    by (simp add: dispatch_def finalize_message_def node_finalize_def try_answer_def read_field_def int_or_def jfield_def
        as_integer_def on_services_def validator_with_def gossip_init_def thenS_def bindE_def)
  have same: "sv_manager late_services = sv_manager bonded_services" by (simp add: late_services_def)
  have "services_ok demo_crypto (total_value demo_ledger) (vn_services ?n)"
    using bonded_ok demo_ledger_ok
    by (simp add: services_ok_def funds_ok_def validator_with_def same)
      (simp add: rounds_ok_def late_services_def bonded_services_def services_init_def missed_fields commitment_key_def)
  from anyone_slashes [OF this _ _ _ run, of "''v''"] have "stake_at (sv_manager (vn_services n')) ''v'' = Some 0"
    by (simp add: validator_with_def late_fields missed_fields stake_at_def voting)
  with run show ?thesis by blast
qed

end
