(* ===== verification/Daemon_Run.thy ===== *)
theory Daemon_Run
  imports Node_Props
begin

section \<open>The ledger a running node has stored\<close>

text \<open>
  A node runs: it dispatches messages and works on the sections of its gossip tasks, in any order. The row
  of the ledger in its store is written by the coordinators only, and what they write is the ledger the
  node works on when the message is done; an admission or a settlement that is answered has been
  written. In a running node bonds are only added, so whatever was bonded at the start is bonded in
  every ledger it stores.
\<close>

subsection \<open>Bonds stay\<close>

definition grows :: "ledger \<Rightarrow> ledger \<Rightarrow> bool" where
  "grows l l' \<longleftrightarrow> set (dict_keys (bonds l)) \<subseteq> set (dict_keys (bonds l')) \<and> l_asset l' = l_asset l
     \<and> (finite (slash_ids l) \<longrightarrow> finite (slash_ids l')) \<and> (finite (settled_epochs l) \<longrightarrow> finite (settled_epochs l'))"

lemma grows_refl [simp]: "grows l l"
  by (simp add: grows_def)

lemma grows_parts [simp]:
  "grows l (l'\<lparr>balances := b\<rparr>) = grows l l'" "grows l (l'\<lparr>events := e\<rparr>) = grows l l'"
  by (simp_all add: grows_def)

lemma grows_more:
  "grows l l' \<Longrightarrow> grows l (l'\<lparr>slash_ids := insert e (slash_ids l')\<rparr>)"
  "grows l l' \<Longrightarrow> grows l (l'\<lparr>settled_epochs := insert i (settled_epochs l')\<rparr>)"
  "grows l l' \<Longrightarrow> grows l (set_position bid q l')"
  using keys_update [of bid q "bonds l'"] by (auto simp: grows_def set_position_def simp del: set_map)

named_theorems growing \<open>ledger operations under which bonds stay\<close>

lemma grows_basic [growing]:
  "keeps (grows l) (log_event cr kind ep acct amt related meta)" "keeps (grows l) (credit acct amt)"
  "keeps (grows l) (debit acct amt)" "keeps (grows l) (position bid)"
  by (auto intro!: keepsI simp: log_event_def credit_def debit_def position_def Let_def split: if_splits option.splits)

lemma grows_return [growing]: "(\<And>l'. grows l l' \<Longrightarrow> grows l (f l')) \<Longrightarrow> keeps (grows l) (\<lambda>l'. (r l', f l'))"
  by (rule keepsI) auto

lemma grows_from: "keeps (grows l) m \<Longrightarrow> (\<And>l'. grows l l' \<Longrightarrow> grows l (f l')) \<Longrightarrow> keeps (grows l) (\<lambda>l'. m (f l'))"
  by (rule keepsI) (blast dest: keepsD)

lemma grows_bond [growing]: "keeps (grows l0) (settle_bond cr b ep)"
proof -
  have "keeps (grows l0) (thenS (debit (sb_owner b) (sb_amount b)) (\<lambda>_ l'.
             log_event cr ''BOND'' ep (sb_owner b) (sb_amount b) (sb_bond_id b) [] (set_position (sb_bond_id b) q l')))" for q
    by (intro keeps_thenS growing grows_from grows_more)
  then show ?thesis by (intro keepsI) (auto simp: settle_bond_def split: if_splits dest: keepsD)
qed

lemma grows_slash [growing]: "keeps (grows l0) (settle_slash cr bid amt ep evidence reporter)"
proof -
  have rest: "keeps (grows l0) (thenS (log_event cr ''SLASH'' ep o' p evidence []) (\<lambda>e.
             thenS (credit t a) (\<lambda>_. if r \<noteq> 0 then thenS (credit rep r) (\<lambda>_.
                      thenS (log_event cr ''REPORTER_REWARD'' ep rep r evidence []) (\<lambda>e2 l'. (Inr [e, e2], l')))
               else (\<lambda>l'. (Inr [e], l')))))" for o' p t a r rep
    by (cases "r = 0") (simp_all, (intro keeps_thenS growing; assumption)+)
  have "keeps (grows l0) (thenS (position bid) (\<lambda>q l.
        let penalty = min amt (pos_amount q);
            rep = (case reporter of None \<Rightarrow> [] | Some r \<Rightarrow> r);
            reporter_amount = (if rep = [] then 0 else penalty * reporter_bps l div 10000);
            l1 = set_position bid (q\<lparr>pos_amount := pos_amount q - penalty,
                   pos_active := pos_active q \<and> pos_amount q > penalty\<rparr>)
                 (l\<lparr>slash_ids := insert evidence (slash_ids l)\<rparr>)
        in thenS (log_event cr ''SLASH'' ep (pos_owner q) penalty evidence []) (\<lambda>e.
             thenS (credit (l_treasury l) (penalty - reporter_amount)) (\<lambda>_.
               if reporter_amount \<noteq> 0
               then thenS (credit rep reporter_amount) (\<lambda>_.
                      thenS (log_event cr ''REPORTER_REWARD'' ep rep reporter_amount evidence [])
                        (\<lambda>e2 l'. (Inr [e, e2], l')))
               else (\<lambda>l'. (Inr [e], l')))) l1))"
    unfolding Let_def
    by (intro keeps_thenS growing keepsI) (erule keepsD [OF rest, rotated], intro grows_more, assumption)
  then show ?thesis by (intro keepsI) (auto simp: settle_slash_def split: if_splits dest: keepsD)
qed

lemma grows_pay: "keeps (grows l0) (pay_rewards cr ep pot weight_sum distributed ws)"
proof (induction ws arbitrary: distributed)
  case (Cons bw ws)
  obtain bid w where bw: "bw = (bid, w)" by fastforce
  have "keeps (grows l0) (thenS (position bid) (\<lambda>q.
       let amount = (if ws = [] then pot - distributed else pot * w div weight_sum)
       in thenS (credit (pos_owner q) amount) (\<lambda>_.
          thenS (log_event cr ''REWARD'' ep (pos_owner q) amount bid []) (\<lambda>e.
          thenS (pay_rewards cr ep pot weight_sum (distributed + amount) ws) (\<lambda>es l'.
            (Inr (e # es), l'))))))"
    unfolding Let_def by (intro keeps_thenS growing Cons; assumption)
  then show ?case by (intro keepsI) (auto simp: bw dest: keepsD)
qed (rule keepsI, simp)

lemma grows_distribute [growing]: "keeps (grows l0) (distribute_rewards cr ep pot weights)"
proof -
  have "keeps (grows l0) (thenS (debit t pot) (\<lambda>_. thenS (pay_rewards cr ep pot s 0 ws)
          (\<lambda>es l'. (Inr es, l'\<lparr>settled_epochs := insert ep (settled_epochs l')\<rparr>))))" for t s ws
    by (intro keeps_thenS growing grows_pay grows_more)
  then show ?thesis by (intro keepsI) (auto simp: distribute_rewards_def split: if_splits dest: keepsD)
qed

lemma grows_settle_round:
  assumes "settle_round cr commitments reveals vb rnd reward penalty (m, l) = (res, (m', l'))"
  shows "grows l l'"
proof -
  have led: "keeps (\<lambda>s. grows l (snd s)) (on_round_ledger f)" if "keeps (grows l) f" for f :: "ledger \<Rightarrow> 'b l_outcome"
    using that by (intro keepsI)
      (auto simp: on_round_ledger_def split: prod.splits sum.splits settlement_error.splits dest: keepsD)
  have "keeps (\<lambda>s. grows l (snd s)) (settle_round cr commitments reveals vb rnd reward penalty)"
    by (intro settle_round_keeps led growing)
      (rule keepsI, auto simp: on_round_manager_def split: prod.splits sum.splits)
  from keepsD [OF this _ assms] show ?thesis by simp
qed

lemma grows_trans: "grows l l' \<Longrightarrow> grows l' l'' \<Longrightarrow> grows l l''"
  by (auto simp: grows_def)

text \<open>A ledger a node can be started on: it is written and read back without loss.\<close>

definition startable :: "ledger \<Rightarrow> bool" where
  "startable l \<longleftrightarrow> ledger_ok l \<and> l_asset l \<noteq> [] \<and> finite (slash_ids l) \<and> finite (settled_epochs l)"

lemma startable_storable: "startable l \<Longrightarrow> storable l"
  by (simp add: startable_def storable_def ledger_ok_def)

lemma startable_grows: "startable l \<Longrightarrow> grows l l' \<Longrightarrow> ledger_ok l' \<Longrightarrow> startable l'"
  by (simp add: startable_def grows_def)

subsection \<open>The ledger of the services grows\<close>

definition holds :: "ledger \<Rightarrow> services \<Rightarrow> bool" where
  "holds l0 s \<longleftrightarrow> (\<exists>l. settlement (sv_manager s) = Some l \<and> grows l0 l)"

lemma holds_parts [simp]:
  "holds l0 (s\<lparr>sv_store := x\<rparr>) = holds l0 s" "holds l0 (s\<lparr>sv_settlements := t\<rparr>) = holds l0 s"
  by (simp_all add: holds_def)

lemma holds_same: "sv_manager s' = sv_manager s \<Longrightarrow> holds l0 s' = holds l0 s"
  by (simp add: holds_def)

lemma save_holds: "keeps (holds l0) (save f)" "keeps (holds l0) (save_ledger cr)"
  by (rule keepsI, metis save_manager save_ledger_manager holds_same)+

lemma admit_holds: "leads (holds l0) (on_membership (admit cr r approvers (Some b))) (holds l0)"
proof (rule leadsI)
  fix s s' :: services and res
  assume "holds l0 s" and call: "on_membership (admit cr r approvers (Some b)) s = (res, s')"
  then obtain l where l: "settlement (sv_manager s) = Some l" "grows l0 l" by (auto simp: holds_def)
  obtain q m where m: "admit cr r approvers (Some b) (sv_manager s) = (q, m)" by fastforce
  with call have s': "sv_manager s' = m" by (auto simp: on_membership_def split: sum.splits)
  obtain m1 where "settlement m = settlement m1" "m1 = sv_manager s \<or> settlement m1 = settlement (sv_manager s)
      \<or> (\<exists>q. on_settlement (settle_bond cr b (m_epoch (sv_manager s))) (sv_manager s) = (q, m1))"
    using m
    by (auto simp: admit_def admit_bond_def raise_m_def Let_def refresh_def set_record_def
        split: if_splits elim!: thenS_cases)
  moreover have "\<exists>l'. settlement m1 = Some l' \<and> grows l0 l'"
    if "on_settlement (settle_bond cr b (m_epoch (sv_manager s))) (sv_manager s) = (q, m1)" for q
    using that l by (auto simp: on_settlement_def split: prod.splits sum.splits dest: keepsD [OF grows_bond])
  ultimately show "holds l0 s'" using l unfolding holds_def s' by metis
qed

lemma settle_holds: "leads (holds l0) (settle_services cr rnd reward penalty) (holds l0)"
proof (rule leadsI)
  fix s s' :: services and res
  assume "holds l0 s" and call: "settle_services cr rnd reward penalty s = (res, s')"
  then obtain l where l: "settlement (sv_manager s) = Some l" "grows l0 l" by (auto simp: holds_def)
  let ?ep = "epoch_of (sv_manager s)"
  obtain q m l' where round: "settle_round cr (round_items ?ep rnd (sv_commitments s)) (round_items ?ep rnd (sv_reveals s))
      (validator_bonds (sv_manager s)) rnd reward penalty (sv_manager s, l) = (q, (m, l'))" by (metis prod.collapse)
  with l call have "s' = s\<lparr>sv_manager := m\<lparr>settlement := Some l'\<rparr>\<rparr>"
    by (auto simp: settle_services_def ledger_of_def Let_def)
  with grows_settle_round [OF round] l(2) show "holds l0 s'" by (auto simp: holds_def intro: grows_trans)
qed

interpretation growing: service_contract cr "holds l0" "holds l0" for cr l0
proof unfold_locales
  show "leads (holds l0) (onboard cr r b []) (holds l0)" for r b
    by (rule onboard_leads [where Q = "holds l0"]) (auto intro: admit_holds leads_keeps save_holds)
  show "leads (holds l0) (beacon_finalize cr rnd reward penalty) (holds l0)" for rnd reward penalty
    by (rule finalize_leads [where Q = "holds l0"]) (auto intro: settle_holds leads_keeps save_holds)
  show "leads (holds l0) (submit_commitment cr c) (holds l0)" "leads (holds l0) (submit_reveal cr v) (holds l0)" for c v
    by (rule leadsI, metis submit_manager holds_same)+
qed (simp_all add: save_holds)

subsection \<open>What the other rows leave alone\<close>

text \<open>
  Facts about the store that a row of another kind than the ledger's does not disturb: the services and
  the gossip node keep them, whatever they write.
\<close>

definition services_store :: "(durable_store \<Rightarrow> bool) \<Rightarrow> services \<Rightarrow> bool" where
  "services_store S s \<longleftrightarrow> (\<exists>db. sv_store s = Some db \<and> S db)"

definition gossip_store :: "(durable_store \<Rightarrow> bool) \<Rightarrow> gossip_node \<Rightarrow> bool" where
  "gossip_store S g \<longleftrightarrow> (\<exists>db. g_store g = Some db \<and> S db)"

lemma node_store: "services_store S (node_services n) = gossip_store S (vn_gossip n)"
  by (simp add: services_store_def gossip_store_def node_services_def)

lemma services_store_parts [simp]:
  "services_store S (s\<lparr>sv_manager := m\<rparr>) = services_store S s" "services_store S (s\<lparr>sv_settlements := t\<rparr>) = services_store S s"
  "services_store S (s\<lparr>sv_commitments := cs\<rparr>) = services_store S s" "services_store S (s\<lparr>sv_reveals := rs\<rparr>) = services_store S s"
  by (simp_all add: services_store_def)

lemma gossip_store_parts [simp]:
  "gossip_store S (bump k g) = gossip_store S g" "gossip_store S (count_failure e g) = gossip_store S g"
  "gossip_store S (emit out g) = gossip_store S g" "gossip_store S (g\<lparr>g_protocol := p\<rparr>) = gossip_store S g"
  by (simp_all add: gossip_store_def bump_def count_failure_def emit_def)

lemma manager_calls:
  "keeps (services_store S) (on_membership f)" "keeps (services_store S) (settle_services cr rnd reward penalty)"
  by (rule keepsI, auto simp: on_membership_def settle_services_def Let_def split: prod.splits sum.splits)+

lemma on_protocol_store: "keeps (gossip_store S) (on_protocol f)"
  by (rule keepsI) (auto simp: on_protocol_def split: prod.splits sum.splits)

locale store_fact =
  fixes S :: "durable_store \<Rightarrow> bool"
  assumes puts: "S db \<Longrightarrow> store_put kind key v ev db = (r, db') \<Longrightarrow> kind \<noteq> ''settlement_state'' \<Longrightarrow> S db'"
    and snapshots: "S db \<Longrightarrow> store_snapshot sid v base db = (q, db') \<Longrightarrow> S db'"
begin

lemma save_keeps: "kind \<noteq> ''settlement_state'' \<Longrightarrow> keeps (services_store S) (save (store_put kind key v ev))"
  by (rule keepsI) (auto simp: save_def services_store_def dest: puts split: prod.splits sum.splits)

lemma submit_keeps: "keeps (services_store S) (submit_commitment cr c)" "keeps (services_store S) (submit_reveal cr v)"
  by (rule keepsI, auto simp: submit_commitment_def submit_reveal_def raise_v_def
      split: option.splits if_splits elim!: keepsD [OF save_keeps, rotated 2])+

lemma on_store_keeps:
  "(\<And>db q db'. S db \<Longrightarrow> f db = (q, db') \<Longrightarrow> S db') \<Longrightarrow> keeps (gossip_store S) (on_store f)"
  by (rule keepsI) (auto simp: on_store_def gossip_store_def split: prod.splits sum.splits)

lemma persist_keeps: "kind \<noteq> ''settlement_state'' \<Longrightarrow> keeps (gossip_store S) (persist kind key payload)"
  unfolding persist_def by (rule on_store_keeps) (rule puts)

lemma snapshot_keeps: "keeps (gossip_store S) (on_store (store_snapshot sid payload base))"
  by (rule on_store_keeps) (rule snapshots)

lemma close_with_keeps: "keeps (gossip_store S) (close_with cr c cl)"
  unfolding close_with_def persist_closure_def
  by (intro keeps_thenS keeps_pair on_protocol_store persist_keeps snapshot_keeps) simp_all

lemma witness_keeps: "gossip_store S g \<Longrightarrow> witness_accept cr c g = (q, g') \<Longrightarrow> gossip_store S g'"
  unfolding witness_accept_def by (rule keepsD [OF on_protocol_store])

end

sublocale store_fact \<subseteq> gossip: node_invariant cr "gossip_store S" for cr
proof unfold_locales
  show "keeps (gossip_store S) (persist_capsule c)" "keeps (gossip_store S) (persist_receipt cr r)" for c r
    by (simp_all add: persist_capsule_def persist_receipt_def persist_keeps)
  show "gossip_store S g'" "gossip_store S (emit out g')"
    if "gossip_store S g" "witness_accept cr c g = (q, g')" for g g' c q out
    using witness_keeps [OF that] by simp_all
qed (simp_all add: close_with_keeps gossip_store_def file_receipt_def put_capsule_def Let_def bump_def)

context store_fact
begin

lemma section_keeps:
  assumes "gossip_store S g" "run_section cr w rest g = (task, g')"
  shows "gossip_store S g'"
proof (cases "\<exists>c. w = Equivocate c")
  case True
  with assms show ?thesis by (auto simp: run_section_def equivocate_def split: sum.splits if_splits)
next
  case False
  with assms show ?thesis by (intro gossip.run_section_kept [OF assms(1) _ assms(2)]) auto
qed

end

subsection \<open>The row of the ledger\<close>

text \<open>
  The row of the ledger in the store is \<open>R\<close>; or it is \<open>R\<close> still or the ledger the services work on. One
  message takes the first to the second: no coordinator changes the ledger after it has written it.
\<close>

definition ledger_row :: "durable_store \<Rightarrow> json option" where
  "ledger_row db = store_get db ''settlement_state'' ''ledger''"

lemma snapshot_row: "store_snapshot sid v base db = (q, db') \<Longrightarrow> ledger_row db' = ledger_row db"
  by (auto simp: store_snapshot_def Let_def ledger_row_def store_get_def split: if_splits elim!: db_transaction_cases)

interpretation booking: store_fact "\<lambda>db. ledger_row db = R" for R
proof
  show "ledger_row db' = R" if "ledger_row db = R" "store_put kind key v ev db = (r, db')" "kind \<noteq> ''settlement_state''"
    for kind key v ev db r db'
    using that durable.get_other [OF that(2)] by (simp add: ledger_row_def)
qed (simp add: snapshot_row)

abbreviation at_row :: "json option \<Rightarrow> services \<Rightarrow> bool" where
  "at_row R \<equiv> services_store (\<lambda>db. ledger_row db = R)"

abbreviation row_at :: "json option \<Rightarrow> gossip_node \<Rightarrow> bool" where
  "row_at R \<equiv> gossip_store (\<lambda>db. ledger_row db = R)"

definition row_current :: "crypto \<Rightarrow> json option \<Rightarrow> services \<Rightarrow> bool" where
  "row_current cr R s \<longleftrightarrow> at_row R s
     \<or> (\<exists>l. settlement (sv_manager s) = Some l \<and> at_row (Some (json_norm (ledger_to_dict cr l))) s)"

lemma at_row_current: "at_row R s \<Longrightarrow> row_current cr R s"
  by (simp add: row_current_def)

lemma row_current_kept: "kind \<noteq> ''settlement_state'' \<Longrightarrow> keeps (row_current cr R) (save (store_put kind key v ev))"
  by (rule keepsI) (auto simp: row_current_def save_manager dest: keepsD [OF booking.save_keeps])

lemma save_ledger_row: "leads (at_row R) (save_ledger cr) (row_current cr R)"
proof (rule leadsI)
  fix s s' :: services and q
  assume R: "at_row R s" and call: "save_ledger cr s = (q, s')"
  from R obtain db where db: "sv_store s = Some db" "ledger_row db = R" by (auto simp: services_store_def)
  show "row_current cr R s'"
  proof (cases "settlement (sv_manager s)")
    case None
    with R call show ?thesis by (simp add: save_ledger_def ledger_of_def at_row_current)
  next
    case (Some l)
    obtain x db' where put: "store_put ''settlement_state'' ''ledger'' (ledger_to_dict cr l) False db = (x, db')" by fastforce
    with Some call db have s': "s' = s\<lparr>sv_store := Some db'\<rparr>"
      by (auto simp: save_ledger_def ledger_of_def save_def ledger_persist_def split: sum.splits)
    show ?thesis
    proof (cases x)
      case (Inl e)
      with put have "ledger_row db' = R" unfolding ledger_row_def db(2) [unfolded ledger_row_def, symmetric]
        by (intro durable.put_failed) simp
      then show ?thesis by (simp add: s' row_current_def services_store_def)
    next
      case (Inr u)
      with put have "ledger_row db' = Some (json_norm (ledger_to_dict cr l))"
        unfolding ledger_row_def by (intro durable.get_same) simp
      with Some show ?thesis by (simp add: s' row_current_def services_store_def)
    qed
  qed
qed

interpretation booked: service_contract cr "at_row R" "row_current cr R" for cr R
proof unfold_locales
  show "leads (at_row R) (onboard cr r b []) (row_current cr R)" for r b
    by (rule onboard_leads [where Q = "at_row R"])
      (auto intro: leads_keeps manager_calls save_ledger_row at_row_current row_current_kept)
  show "leads (at_row R) (beacon_finalize cr rnd reward penalty) (row_current cr R)" for rnd reward penalty
    by (rule finalize_leads [where Q = "at_row R"])
      (auto intro: leads_keeps manager_calls save_ledger_row at_row_current row_current_kept)
  show "leads (at_row R) (submit_commitment cr c) (row_current cr R)" "leads (at_row R) (submit_reveal cr v) (row_current cr R)" for c v
    using keepsD [OF booking.submit_keeps(1)] keepsD [OF booking.submit_keeps(2)] by (blast intro: leadsI at_row_current)+
  show "keeps (row_current cr R) (save (store_put ''admission'' key payload True))" for key payload
    by (rule row_current_kept) simp
  show "at_row R (s\<lparr>sv_store := Some db'\<rparr>)"
    if "at_row R s" "sv_store s = Some db" "store_put ''availability_shard'' key payload True db = (q, db')" for s db key payload q db'
    using that booking.puts [OF _ that(3)] by (simp add: services_store_def)
qed (rule at_row_current)

subsection \<open>What is answered is stored\<close>

text \<open>
  An admission is answered, and a round settled, only when the ledger that shows it is in the store.
  A round that is settled already is answered without writing anything.
\<close>

definition row_exact :: "crypto \<Rightarrow> services \<Rightarrow> bool" where
  "row_exact cr s \<longleftrightarrow> (\<exists>l. settlement (sv_manager s) = Some l \<and> at_row (Some (json_norm (ledger_to_dict cr l))) s)"

lemma row_exact_kept: "kind \<noteq> ''settlement_state'' \<Longrightarrow> keeps (row_exact cr) (save (store_put kind key v ev))"
  by (rule keepsI) (auto simp: row_exact_def save_manager dest: keepsD [OF booking.save_keeps])

lemma save_ledger_exact:
  assumes "save_ledger cr s = (Inr u, s')" "sv_store s \<noteq> None"
  shows "row_exact cr s'"
proof -
  from assms obtain l db db' where l: "settlement (sv_manager s) = Some l" and s': "s' = s\<lparr>sv_store := Some db'\<rparr>"
    and put: "store_put ''settlement_state'' ''ledger'' (ledger_to_dict cr l) False db = (Inr (), db')"
    by (auto simp: save_ledger_def ledger_of_def save_def ledger_persist_def split: option.splits prod.splits sum.splits)
  from put have "ledger_row db' = Some (json_norm (ledger_to_dict cr l))"
    unfolding ledger_row_def by (rule durable.get_same)
  with l s' show ?thesis by (simp add: row_exact_def services_store_def)
qed

lemma report_exact:
  assumes "thenS (save_ledger cr) (\<lambda>_ s. case ledger_of s of Inl e \<Rightarrow> (Inl e, s)
      | Inr l \<Rightarrow> thenS (save (store_put kind key (f s l) True)) (\<lambda>_ s. (Inr c, s)) s) s = (Inr a, s')"
    and "sv_store s \<noteq> None" "kind \<noteq> ''settlement_state''"
  shows "row_exact cr s' \<and> a = c"
  using assms(1)
proof (rule thenS_Inr)
  fix u s1
  assume "save_ledger cr s = (Inr u, s1)"
    and rest: "(case ledger_of s1 of Inl e \<Rightarrow> (Inl e, s1)
      | Inr l \<Rightarrow> thenS (save (store_put kind key (f s1 l) True)) (\<lambda>_ s. (Inr c, s)) s1) = (Inr a, s')"
  then have "row_exact cr s1" using assms(2) save_ledger_exact by blast
  with rest show ?thesis
    by (auto split: sum.splits elim!: thenS_Inr dest: keepsD [OF row_exact_kept [OF assms(3)]])
qed

lemma onboard_stores:
  assumes "onboard cr r b approvers s = (Inr c, s')"
  shows "row_exact cr s'"
proof -
  from assms obtain s1 c1 where "sv_store s1 \<noteq> None"
    and rest: "thenS (save_ledger cr) (\<lambda>_ s. case ledger_of s of Inl e \<Rightarrow> (Inl e, s)
      | Inr l \<Rightarrow> thenS (save (store_put ''onboarding'' (ac_certificate_id c1)
          (admission_row cr r b c1 (sv_manager s) l) True)) (\<lambda>_ s. (Inr c1, s)) s) s1 = (Inr c, s')"
    unfolding onboard_def
    by (auto simp: raise_v_def split: if_splits sum.splits elim!: thenS_Inr [where m = "on_membership f" for f])
  from report_exact [OF rest this(1)] show ?thesis by simp
qed

lemma finalize_stores:
  assumes call: "beacon_finalize cr rnd reward penalty s = (Inr t, s')"
    and new: "t \<notin> snd ` set (sv_settlements s)" and store: "services_store S s"
  shows "row_exact cr s'"
proof -
  have "map_of (sv_settlements s) (epoch_of (sv_manager s), rnd) = None"
  proof (rule ccontr)
    assume "map_of (sv_settlements s) (epoch_of (sv_manager s), rnd) \<noteq> None"
    then obtain x where x: "map_of (sv_settlements s) (epoch_of (sv_manager s), rnd) = Some x" by blast
    with call have "x = t" by (simp add: beacon_finalize_def Let_def)
    with map_of_SomeD [OF x] new show False by force
  qed
  with call obtain s1 t1 k where settle: "settle_services cr rnd reward penalty s = (Inr t1, s1)"
    and rest: "(let s2 = s1\<lparr>sv_settlements := AList.update k t1 (sv_settlements s1)\<rparr> in
      if sv_store s2 = None then (Inr t1, s2)
      else thenS (save_ledger cr) (\<lambda>_ s. case ledger_of s of Inl e \<Rightarrow> (Inl e, s)
        | Inr l \<Rightarrow> thenS (save (store_put ''beacon_round'' (rs_id t1) (settlement_json cr t1 (sv_manager s) l) True))
            (\<lambda>_ s. (Inr t1, s)) s) s2) = (Inr t, s')"
    by (auto simp: beacon_finalize_def raise_v_def Let_def split: if_splits
        elim!: thenS_Inr [where m = "settle_services cr rnd reward penalty"])
  have store1: "sv_store s1 \<noteq> None"
    using keepsD [OF manager_calls(2) store settle] by (auto simp: services_store_def)
  then have no: "sv_store (s1\<lparr>sv_settlements := AList.update k t1 (sv_settlements s1)\<rparr>) \<noteq> None" by simp
  from report_exact [OF rest [unfolded Let_def if_not_P [OF no]] no] show ?thesis by simp
qed

lemma on_services_Inr:
  "on_services f n = (Inr a, n') \<Longrightarrow> f (node_services n) = (Inr a, node_services n')"
  by (auto simp: on_services_def node_services_def split: prod.splits sum.splits)

lemma try_answer_Inr:
  "try_answer f n = (Inr a, n') \<Longrightarrow> (\<And>e. a \<noteq> Refused e) \<Longrightarrow> f n = (Inr a, n')"
  by (auto simp: try_answer_def split: prod.splits sum.splits if_splits)

lemma read_field_Inr: "read_field f k msg n = (Inr a, n') \<Longrightarrow> n' = n"
  by (auto simp: read_field_def split: sum.splits)

lemma int_or_Inr: "int_or d k msg n = (Inr a, n') \<Longrightarrow> n' = n"
  by (auto simp: int_or_def split: sum.splits wire_error.splits)

lemma admit_stores:
  assumes "node_admit cr msg n = (Inr (AdmittedAs c), n')"
  shows "row_exact cr (node_services n')"
proof -
  from assms have "vn_onboards n" by (auto simp: node_admit_def split: if_splits)
  with assms obtain r b n0 n1 n2 where
    on: "on_services (onboard cr r b []) n0 = (Inr c, n1)"
    and row: "persist_admission r b c (node_bump ''admissions'' (n1\<lparr>vn_requests := insert (request_key cr r) (vn_requests n1)\<rparr>)) = (Inr (), n2)"
    and n': "node_services n' = node_services n2"
    unfolding node_admit_def
    by (auto dest!: try_answer_Inr elim!: thenS_Inr split: if_splits)
  from onboard_stores [OF on_services_Inr [OF on]]
  have "row_exact cr (node_services (node_bump ''admissions'' (n1\<lparr>vn_requests := insert (request_key cr r) (vn_requests n1)\<rparr>)))"
    by simp
  from keepsD [OF row_exact_kept this on_services_Inr [OF row [unfolded persist_admission_def]]] n' show ?thesis by simp
qed

lemma settle_stores:
  assumes "node_finalize cr msg n = (Inr (RoundSettled t), n')" "t \<notin> snd ` set (sv_settlements (vn_services n))"
    and "services_store S (node_services n)"
  shows "row_exact cr (node_services n')"
proof -
  from assms(1) have "vn_beacons n" by (auto simp: node_finalize_def split: if_splits)
  with assms(1) obtain rnd reward penalty n1 where
    call: "on_services (beacon_finalize cr rnd reward penalty) n = (Inr t, n1)" and n': "node_services n' = node_services n1"
    unfolding node_finalize_def
    by (auto dest!: try_answer_Inr read_field_Inr int_or_Inr elim!: thenS_Inr split: if_splits)
  have "t \<notin> snd ` set (sv_settlements (node_services n))" using assms(2) by (simp add: node_services_def)
  from finalize_stores [OF on_services_Inr [OF call] this assms(3)] n' show ?thesis by simp
qed

text \<open>No other handler gives these answers.\<close>

lemma other_answers:
  assumes "a = AdmittedAs c \<or> a = RoundSettled t"
  shows "node_commit cr msg n \<noteq> (Inr a, n')" "node_reveal cr msg n \<noteq> (Inr a, n')" "node_put cr msg n \<noteq> (Inr a, n')"
    "node_fetch msg n \<noteq> (Inr a, n')" "node_sample cr msg n \<noteq> (Inr a, n')" "node_repair cr msg n \<noteq> (Inr a, n')"
    "spawn f msg n \<noteq> (Inr a, n')"
  using assms
  by (auto simp: node_commit_def node_reveal_def node_put_def node_fetch_def node_sample_def node_repair_def
      with_provider_def spawn_def dest!: try_answer_Inr elim!: thenS_Inr split: if_splits option.splits sum.splits)

definition books :: "node_answer \<Rightarrow> validator_node \<Rightarrow> bool" where
  "books a n \<longleftrightarrow> (\<exists>c. a = AdmittedAs c) \<or> (\<exists>t. a = RoundSettled t \<and> t \<notin> snd ` set (sv_settlements (vn_services n)))"

lemma dispatch_stores:
  assumes call: "dispatch cr msg n = (Inr a, n')" and a: "books a n" and store: "services_store S (node_services n)"
  shows "row_exact cr (node_services n')"
proof -
  obtain c t where a': "a = AdmittedAs c \<or> a = RoundSettled t" using a by (auto simp: books_def)
  obtain kvs where msg: "msg = JObj kvs" using call by (cases msg) (simp_all add: dispatch_def)
  have "node_admit cr msg n = (Inr a, n') \<or> node_finalize cr msg n = (Inr a, n')"
    using call unfolding dispatch_def msg Let_def
    by (simp only: json.case other_answers [OF a'] split: if_split_asm) (use a' in auto)
  then show ?thesis
  proof
    assume adm: "node_admit cr msg n = (Inr a, n')"
    have "a \<noteq> RoundSettled t" for t
      using adm by (auto simp: node_admit_def dest!: try_answer_Inr elim!: thenS_Inr split: if_splits)
    with a adm show ?thesis by (auto simp: books_def intro: admit_stores)
  next
    assume fin: "node_finalize cr msg n = (Inr a, n')"
    have "a \<noteq> AdmittedAs c" for c
      using fin by (auto simp: node_finalize_def dest!: try_answer_Inr elim!: thenS_Inr split: if_splits)
    with a fin store show ?thesis by (auto simp: books_def intro: settle_stores)
  qed
qed

subsection \<open>A store that works goes on working\<close>

interpretation calming: store_fact "\<lambda>db. faults db = []"
proof
  show "faults db' = []" if "faults db = []" "store_put kind key v ev db = (r, db')" for kind key v ev db r db'
    using put_calm [OF that(1), of kind key v ev] that(2) by auto
  show "faults db' = []" if "faults db = []" "store_snapshot sid v base db = (q, db')" for sid v base db q db'
    using that by (auto simp: store_snapshot_def Let_def db_transaction_def split: if_splits)
qed

lemma save_ledger_calm: "keeps (services_store (\<lambda>db. faults db = [])) (save_ledger cr)"
proof (rule keepsI)
  fix s s' :: services and r
  assume "services_store (\<lambda>db. faults db = []) s" and call: "save_ledger cr s = (r, s')"
  then obtain db where db: "sv_store s = Some db" "faults db = []" by (auto simp: services_store_def)
  have "\<exists>db'. ledger_persist cr l db = (Inr (), db') \<and> faults db' = []" for l
    unfolding ledger_persist_def by (rule put_calm [OF db(2)])
  with call db show "services_store (\<lambda>db. faults db = []) s'"
    by (auto simp: save_ledger_def save_def services_store_def split: sum.splits prod.splits)
       (metis Pair_inject)+
qed

interpretation calmed: service_contract cr "services_store (\<lambda>db. faults db = [])" "services_store (\<lambda>db. faults db = [])" for cr
proof unfold_locales
  show "leads (services_store (\<lambda>db. faults db = [])) (onboard cr r b []) (services_store (\<lambda>db. faults db = []))" for r b
    by (rule onboard_leads [where Q = "services_store (\<lambda>db. faults db = [])"])
      (auto intro: leads_keeps manager_calls save_ledger_calm calming.save_keeps)
  show "leads (services_store (\<lambda>db. faults db = [])) (beacon_finalize cr rnd reward penalty) (services_store (\<lambda>db. faults db = []))"
    for rnd reward penalty
    by (rule finalize_leads [where Q = "services_store (\<lambda>db. faults db = [])"])
      (auto intro: leads_keeps manager_calls save_ledger_calm calming.save_keeps)
  show "services_store (\<lambda>db. faults db = []) (s\<lparr>sv_store := Some db'\<rparr>)"
    if "services_store (\<lambda>db. faults db = []) s" "sv_store s = Some db"
      "store_put ''availability_shard'' key payload True db = (q, db')" for s db key payload q db'
    using that calming.puts [OF _ that(3)] by (simp add: services_store_def)
qed (simp_all add: leads_keeps calming.submit_keeps calming.save_keeps)

subsection \<open>Runs of a node\<close>

text \<open>The tasks of a node take turns: it handles a message, or works on one section of a gossip task.\<close>

datatype node_event = Hears json | Works gossip_work "gossip_work list"

definition node_step :: "crypto \<Rightarrow> node_event \<Rightarrow> validator_node \<Rightarrow> validator_node" where
  "node_step cr ev n = (case ev of
     Hears msg \<Rightarrow> snd (dispatch cr msg n)
   | Works w rest \<Rightarrow> n\<lparr>vn_gossip := snd (run_section cr w rest (vn_gossip n))\<rparr>)"

abbreviation works_on :: "crypto \<Rightarrow> node_event list \<Rightarrow> validator_node \<Rightarrow> validator_node" where
  "works_on cr evs n \<equiv> fold (node_step cr) evs n"

definition ledger_held :: "validator_node \<Rightarrow> ledger option" where
  "ledger_held n = settlement (sv_manager (vn_services n))"

lemma step_ok:
  assumes "node_ok cr T n \<and> holds l0 (vn_services n)"
  shows "node_ok cr T (node_step cr ev n) \<and> holds l0 (vn_services (node_step cr ev n))"
proof (cases ev)
  case (Hears msg)
  obtain r n' where call: "dispatch cr msg n = (r, n')" by fastforce
  from assms dispatch_kept [OF _ call] growing.dispatch_leads [OF _ call, of l0] show ?thesis
    by (simp add: Hears node_step_def call node_services_def)
qed (use assms in \<open>simp add: node_step_def node_ok_def\<close>)

lemma run_ok:
  assumes "node_ok cr T n" "ledger_held n = Some l0"
  shows "node_ok cr T (works_on cr evs n) \<and> holds l0 (vn_services (works_on cr evs n))"
proof (induction evs rule: rev_induct)
  case Nil
  from assms show ?case by (simp add: holds_def ledger_held_def)
next
  case (snoc ev evs)
  from step_ok [OF this, of ev] show ?case by simp
qed

lemma step_row:
  assumes "row_at R (vn_gossip n)"
  shows "row_at R (vn_gossip (node_step cr ev n)) \<or> (\<exists>l. ledger_held (node_step cr ev n) = Some l
    \<and> row_at (Some (json_norm (ledger_to_dict cr l))) (vn_gossip (node_step cr ev n)))"
proof (cases ev)
  case (Hears msg)
  obtain r n' where call: "dispatch cr msg n = (r, n')" by fastforce
  from booked.dispatch_leads [OF _ call, of R] assms have "row_current cr R (node_services n')" by (simp add: node_store)
  then show ?thesis
    by (simp add: Hears node_step_def call row_current_def node_store) (auto simp: ledger_held_def node_services_def)
next
  case (Works w rest)
  from booking.section_keeps [OF assms prod.collapse [symmetric]] show ?thesis by (simp add: Works node_step_def)
qed

lemma calm_run:
  assumes "gossip_store (\<lambda>db. faults db = []) (vn_gossip n)"
  shows "gossip_store (\<lambda>db. faults db = []) (vn_gossip (works_on cr evs n))"
proof (induction evs rule: rev_induct)
  case (snoc ev evs)
  then show ?case
    using calmed.dispatch_leads [OF _ prod.collapse [symmetric]] calming.section_keeps [OF _ prod.collapse [symmetric]]
    by (cases ev) (simp_all add: node_step_def node_store)
qed (simp add: assms)

text \<open>
  The stored ledger is one the node held: at the start, or when some step of the run was done. Whatever
  was admitted or settled in the run was done by then.
\<close>

definition booked_event :: "crypto \<Rightarrow> validator_node \<Rightarrow> node_event \<Rightarrow> bool" where
  "booked_event cr n ev \<longleftrightarrow> (\<exists>msg a n'. ev = Hears msg \<and> dispatch cr msg n = (Inr a, n') \<and> books a n)"

lemma booked_step:
  assumes "booked_event cr n ev" "row_at R (vn_gossip n)"
  shows "\<exists>l. ledger_held (node_step cr ev n) = Some l
    \<and> row_at (Some (json_norm (ledger_to_dict cr l))) (vn_gossip (node_step cr ev n))"
proof -
  from assms(1) obtain msg a n' where ev: "ev = Hears msg" and call: "dispatch cr msg n = (Inr a, n')" and "books a n"
    by (auto simp: booked_event_def)
  with dispatch_stores [OF call] assms(2) have "row_exact cr (node_services n')" unfolding node_store [symmetric] by blast
  then show ?thesis by (simp add: ev node_step_def call row_exact_def node_store) (simp add: ledger_held_def node_services_def)
qed

lemma run_row:
  assumes "ledger_held n = Some l0" "row_at (Some (json_norm (ledger_to_dict cr l0))) (vn_gossip n)"
  shows "\<exists>i \<le> length evs. (\<exists>l. ledger_held (works_on cr (take i evs) n) = Some l
    \<and> row_at (Some (json_norm (ledger_to_dict cr l))) (vn_gossip (works_on cr evs n)))
    \<and> (\<forall>j < length evs. booked_event cr (works_on cr (take j evs) n) (evs ! j) \<longrightarrow> j < i)"
proof (induction evs rule: rev_induct)
  case Nil
  with assms show ?case by simp
next
  case (snoc ev evs)
  let ?n = "works_on cr evs n"
  from snoc obtain i l where i: "i \<le> length evs" and l: "ledger_held (works_on cr (take i evs) n) = Some l"
    and row: "row_at (Some (json_norm (ledger_to_dict cr l))) (vn_gossip ?n)"
    and all: "\<forall>j < length evs. booked_event cr (works_on cr (take j evs) n) (evs ! j) \<longrightarrow> j < i" by blast
  have now: ?case if "\<exists>k. ledger_held (node_step cr ev ?n) = Some k
      \<and> row_at (Some (json_norm (ledger_to_dict cr k))) (vn_gossip (node_step cr ev ?n))"
    using that by (intro exI [of _ "Suc (length evs)"]) auto
  show ?case
  proof (cases "booked_event cr ?n ev")
    case True
    from booked_step [OF this row] show ?thesis by (rule now)
  next
    case False
    from step_row [OF row, of cr ev] show ?thesis
    proof
      assume same: "row_at (Some (json_norm (ledger_to_dict cr l))) (vn_gossip (node_step cr ev ?n))"
      have "j < i" if "j < length (evs @ [ev])"
        "booked_event cr (works_on cr (take j (evs @ [ev])) n) ((evs @ [ev]) ! j)" for j
        using that all False by (cases "j = length evs") (simp_all add: nth_append)
      with i l same show ?thesis by (intro exI [of _ i]) simp
    qed (rule now)
  qed
qed

lemma run_stores:
  assumes ok: "node_ok cr T n" and l0: "ledger_held n = Some l0" "startable l0"
    and row: "row_at (Some (json_norm (ledger_to_dict cr l0))) (vn_gossip n)"
    and stop: "g_store (vn_gossip (works_on cr evs n)) = Some d"
  obtains i l where "i \<le> length evs" "ledger_held (works_on cr (take i evs) n) = Some l" "startable l"
    "grows l0 l" "total_value l \<le> T" "ledger_from_store cr d = Inr (ledger_sorted l)"
    "\<And>j. j < length evs \<Longrightarrow> booked_event cr (works_on cr (take j evs) n) (evs ! j) \<Longrightarrow> j < i"
proof -
  from run_row [OF l0(1) row, of evs] stop obtain i l where i: "i \<le> length evs"
    "ledger_held (works_on cr (take i evs) n) = Some l"
    and stored: "store_get d ''settlement_state'' ''ledger'' = Some (json_norm (ledger_to_dict cr l))"
    and j: "\<And>j. j < length evs \<Longrightarrow> booked_event cr (works_on cr (take j evs) n) (evs ! j) \<Longrightarrow> j < i"
    by (auto simp: gossip_store_def ledger_row_def)
  from run_ok [OF ok l0(1), of "take i evs"] i(2) have l: "grows l0 l" "ledger_ok l" "total_value l \<le> T"
    by (auto simp: holds_def ledger_held_def node_ok_def services_ok_def funds_ok_def)
  with l0(2) have "startable l" by (blast intro: startable_grows)
  from that [OF i this l(1,3) restore_ledger [OF startable_storable [OF this] stored] j] show ?thesis .
qed

end
