(* ===== verification/Daemon_Props.thy ===== *)
theory Daemon_Props
  imports Daemon Daemon_Run
begin

section \<open>A node that starts, and starts again\<close>

text \<open>
  What \<open>load_node\<close> guarantees: the ledger it leaves in the store is the one its manager works on,
  its funds are those of the configuration, and when the node has run and is started again over the
  store it leaves behind, the committee is that of the configuration and the ledger the stored one. The
  second start takes other branches: the ledger is read back, and the admissions are restored
  instead of being made again.
\<close>

subsection \<open>Folds that may raise\<close>

lemma foldE_invariant:
  assumes "foldE f xs s = Inr s'" "I s" "\<And>x s s'. x \<in> set xs \<Longrightarrow> I s \<Longrightarrow> f x s = Inr s' \<Longrightarrow> I s'"
  shows "I s'"
  using assms
proof (induction xs arbitrary: s)
  case (Cons x xs)
  from Cons.prems(1) obtain s1 where s1: "f x s = Inr s1" "foldE f xs s1 = Inr s'"
    by (auto simp: bindE_Inr_iff)
  have "I s1" by (rule Cons.prems(3) [OF _ Cons.prems(2) s1(1)]) simp
  then show ?case by (rule Cons.IH [OF s1(2)]) (rule Cons.prems(3), simp_all)
qed simp

lemma liftE_Inr_iff: "liftE f r = Inr a \<longleftrightarrow> r = Inr a"
  by (cases r) simp_all

subsection \<open>The genesis ledger\<close>

definition amount_of :: "string \<times> json \<Rightarrow> int" where
  "amount_of entry = (case as_integer (snd entry) of Inl _ \<Rightarrow> 0 | Inr i \<Rightarrow> i)"

definition genesis_total :: "json \<Rightarrow> int" where
  "genesis_total config = (case bindE (get_default ''genesis_balances'' (JObj []) config) dict_items of
     Inl _ \<Rightarrow> 0 | Inr entries \<Rightarrow> sum_list (map amount_of entries))"

lemma log_event_frame:
  "log_event cr kind ep acct amt related meta l = (r, l') \<Longrightarrow>
     balances l' = balances l \<and> bonds l' = bonds l \<and> l_asset l' = l_asset l \<and> l_treasury l' = l_treasury l
     \<and> reporter_bps l' = reporter_bps l \<and> slash_ids l' = slash_ids l \<and> settled_epochs l' = settled_epochs l"
  by (auto simp: log_event_def Let_def split: if_splits)

lemma fund_frame:
  assumes "fund cr acct amt ep source l = (Inr e, l')"
  shows "bonds l' = bonds l \<and> l_asset l' = l_asset l \<and> slash_ids l' = slash_ids l \<and> settled_epochs l' = settled_epochs l"
  using assms
  by (auto simp: fund_def Let_def credit_def split: if_splits elim!: thenS_cases dest!: log_event_frame)

lemma settle_bond_frame:
  assumes "settle_bond cr b ep l = (Inr e, l')"
  shows "has_key (bonds l') k = (k = sb_bond_id b \<or> has_key (bonds l) k) \<and> l_asset l' = l_asset l
    \<and> slash_ids l' = slash_ids l \<and> settled_epochs l' = settled_epochs l"
  using assms
  by (auto simp: settle_bond_def debit_def set_position_def split: if_splits elim!: thenS_cases dest!: log_event_frame)

lemma fund_genesis_step:
  assumes "fund_genesis cr entry l = Inr l'" "startable l" "bonds l = []"
  shows "startable l' \<and> bonds l' = [] \<and> total_value l' = total_value l + amount_of entry"
proof -
  obtain acct v where entry: "entry = (acct, v)" by fastforce
  from assms(1) entry obtain amt where amt: "as_integer v = Inr amt"
    and call: "(case fund cr acct amt 0 (Some (''genesis:'' @ acct)) l of
        (Inl e, _) \<Rightarrow> Inl (DaemonSettlement e) | (Inr _, k) \<Rightarrow> Inr k) = Inr l'"
    by (auto simp: fund_genesis_def bindE_Inr_iff liftE_Inr_iff)
  obtain q k where f: "fund cr acct amt 0 (Some (''genesis:'' @ acct)) l = (q, k)" by fastforce
  with call obtain e where "q = Inr e" "k = l'" by (cases q) simp_all
  with f have f: "fund cr acct amt 0 (Some (''genesis:'' @ acct)) l = (Inr e, l')" by simp
  from changesD [OF changes_fund _ f] assms(2) have "ledger_ok l'" "total_value l' = total_value l + amt"
    by (auto simp: startable_def)
  with fund_frame [OF f] assms(2,3) amt entry show ?thesis by (simp add: startable_def amount_of_def)
qed

lemma fund_genesis_all:
  assumes "foldE (fund_genesis cr) entries l = Inr l'" "startable l" "bonds l = []"
  shows "startable l' \<and> bonds l' = [] \<and> total_value l' = total_value l + sum_list (map amount_of entries)"
  using assms
proof (induction entries arbitrary: l)
  case (Cons x xs)
  from Cons.prems(1) obtain l1 where l1: "fund_genesis cr x l = Inr l1" "foldE (fund_genesis cr) xs l1 = Inr l'"
    by (auto simp: bindE_Inr_iff)
  from fund_genesis_step [OF l1(1) Cons.prems(2,3)] Cons.IH [OF l1(2)] show ?case by simp
qed simp

lemma genesis_ledger_startable:
  assumes "genesis_ledger cr config = Inr l"
  shows "startable l \<and> bonds l = [] \<and> total_value l = genesis_total config"
proof -
  from assms obtain ast tre l0 v entries where init: "ledger_init ast tre 1000 = Inr l0"
    and v: "get_default ''genesis_balances'' (JObj []) config = Inr v" "dict_items v = Inr entries"
    and fold: "foldE (fund_genesis cr) entries l0 = Inr l"
    by (auto simp: genesis_ledger_def bindE_Inr_iff liftE_Inr_iff)
  from init have "startable l0 \<and> bonds l0 = []" and "total_value l0 = 0"
    using ledger_init_ok [OF init] by (auto simp: startable_def ledger_init_def split: if_splits)
  with fund_genesis_all [OF fold] v show ?thesis by (simp add: genesis_total_def)
qed

subsection \<open>Seating the validators of the configuration\<close>

definition seated :: "crypto \<Rightarrow> admission_request \<Rightarrow> stake_bond \<Rightarrow> manager \<Rightarrow> manager" where
  "seated cr r b m = refresh cr (set_record (ar_validator_id r) (new_record r)
     (m\<lparr>m_bonds := AList.update (sb_bond_id b) b (m_bonds m),
        validator_bonds := AList.update (ar_validator_id r) (sb_bond_id b) (validator_bonds m),
        deposits := insert (ar_deposit_id r) (deposits m)\<rparr>))"

definition acceptable :: "crypto \<Rightarrow> admission_request \<Rightarrow> stake_bond \<Rightarrow> manager \<Rightarrow> bool" where
  "acceptable cr r b m \<longleftrightarrow> admission_verify cr r \<and> bond_verify cr b \<and> minimum_stake m \<le> ar_stake r
     \<and> \<not> has_key (m_records m) (ar_validator_id r) \<and> ar_deposit_id r \<notin> deposits m
     \<and> sb_owner_public_key b = ar_public_key r \<and> sb_amount b = ar_stake r"

lemma seated_settlement:
  "seated cr r b (m\<lparr>settlement := x\<rparr>) = (seated cr r b m)\<lparr>settlement := x\<rparr>"
  "settlement (seated cr r b m) = settlement m"
  by (simp_all add: seated_def refresh_def set_record_def build_snapshot_def)

lemma acceptable_settlement: "acceptable cr r b (m\<lparr>settlement := x\<rparr>) = acceptable cr r b m"
  by (simp add: acceptable_def)

lemma restore_admission_seats:
  "restore_admission cr r b m =
     (if \<not> admission_verify cr r \<or> \<not> bond_verify cr b
      then raise_m ''cannot restore invalid admission'' m
      else if ar_stake r < minimum_stake m \<or> ar_bond_id r \<noteq> Some (sb_bond_id b)
      then raise_m ''restored admission does not satisfy stake policy'' m
      else if has_key (m_records m) (ar_validator_id r) \<or> ar_deposit_id r \<in> deposits m
      then raise_m ''restored admission is duplicated'' m
      else if sb_owner_public_key b \<noteq> ar_public_key r \<or> sb_amount b \<noteq> ar_stake r
      then raise_m ''restored bond does not match admission'' m
      else (Inr (), seated cr r b m))"
  by (simp only: restore_admission_def seated_def)

lemma restore_returns:
  "restore_admission cr r b m = (Inr u, m') \<longleftrightarrow>
     acceptable cr r b m \<and> ar_bond_id r = Some (sb_bond_id b) \<and> m' = seated cr r b m"
  by (auto simp: restore_admission_seats raise_m_def acceptable_def)

lemma admit_bond_returns:
  assumes "admit_bond cr r (Some b) m = (Inr u, m1)" "settlement m = Some l"
  shows "bond_verify cr b \<and> sb_owner_public_key b = ar_public_key r \<and> sb_amount b = ar_stake r
    \<and> (\<exists>e l'. settle_bond cr b (m_epoch m) l = (Inr e, l')
      \<and> m1 = m\<lparr>settlement := Some l', m_bonds := AList.update (sb_bond_id b) b (m_bonds m),
           validator_bonds := AList.update (ar_validator_id r) (sb_bond_id b) (validator_bonds m)\<rparr>)"
proof -
  obtain q l' where call: "settle_bond cr b (m_epoch m) l = (q, l')" by fastforce
  from assms call show ?thesis
    by (cases q) (simp_all add: admit_bond_def raise_m_def on_settlement_def thenS_def split: if_splits)
qed

lemma admit_returns:
  assumes "admit cr r approvers (Some b) m = (Inr c, m')" "settlement m = Some l"
  shows "acceptable cr r b m
    \<and> (\<exists>e l'. settle_bond cr b (m_epoch m) l = (Inr e, l') \<and> m' = (seated cr r b m)\<lparr>settlement := Some l'\<rparr>)"
proof -
  obtain q m1 where adm: "admit_bond cr r (Some b) m = (q, m1)" by fastforce
  from assms(1) have checks: "admission_verify cr r" "minimum_stake m \<le> ar_stake r"
    "\<not> has_key (m_records m) (ar_validator_id r)" "ar_deposit_id r \<notin> deposits m"
    by (simp_all add: admit_def raise_m_def split: if_splits)
  from assms(1) adm obtain u where q: "q = Inr u"
    and m': "m' = refresh cr (set_record (ar_validator_id r) (new_record r)
      (m1\<lparr>deposits := insert (ar_deposit_id r) (deposits m1)\<rparr>))"
    by (cases q) (simp_all add: admit_def raise_m_def thenS_def Let_def split: if_splits)
  from admit_bond_returns [OF _ assms(2)] adm q obtain e l' where
    "bond_verify cr b" "sb_owner_public_key b = ar_public_key r" "sb_amount b = ar_stake r"
    and settle: "settle_bond cr b (m_epoch m) l = (Inr e, l')"
    and m1: "m1 = m\<lparr>settlement := Some l', m_bonds := AList.update (sb_bond_id b) b (m_bonds m),
           validator_bonds := AList.update (ar_validator_id r) (sb_bond_id b) (validator_bonds m)\<rparr>"
    by blast
  then have "acceptable cr r b m" using checks by (simp add: acceptable_def)
  moreover have "m' = (seated cr r b m)\<lparr>settlement := Some l'\<rparr>"
    unfolding m' m1 by (simp add: seated_def refresh_def set_record_def build_snapshot_def)
  ultimately show ?thesis using settle by blast
qed

lemma seat_cases:
  assumes "seat_validator cr r b m = Inr m'" "settlement m = Some l"
  obtains "has_key (by_id (m_snapshot m)) (ar_validator_id r)" "m' = m"
  | "\<not> has_key (by_id (m_snapshot m)) (ar_validator_id r)" "has_key (bonds l) (sb_bond_id b)"
    "acceptable cr r b m" "ar_bond_id r = Some (sb_bond_id b)" "m' = seated cr r b m"
  | e l' where "\<not> has_key (by_id (m_snapshot m)) (ar_validator_id r)" "\<not> has_key (bonds l) (sb_bond_id b)"
    "acceptable cr r b m" "settle_bond cr b (m_epoch m) l = (Inr e, l')"
    "m' = (seated cr r b m)\<lparr>settlement := Some l'\<rparr>"
proof (cases "has_key (by_id (m_snapshot m)) (ar_validator_id r)")
  case True
  with assms(1) have "m' = m" by (simp add: seat_validator_def)
  with True that(1) show ?thesis by blast
next
  case new: False
  show ?thesis
  proof (cases "has_key (bonds l) (sb_bond_id b)")
    case True
    with new assms obtain u where "restore_admission cr r b m = (Inr u, m')"
      by (auto simp: seat_validator_def settled_bonds_def run_manager_def split: prod.splits sum.splits)
    then have "acceptable cr r b m" "ar_bond_id r = Some (sb_bond_id b)" "m' = seated cr r b m"
      by (simp_all add: restore_returns)
    with new True that(2) show ?thesis by blast
  next
    case False
    with new assms obtain c where "admit cr r [] (Some b) m = (Inr c, m')"
      by (auto simp: seat_validator_def settled_bonds_def run_manager_def split: prod.splits sum.splits)
    from admit_returns [OF this assms(2)] new False that(3) show ?thesis by blast
  qed
qed

text \<open>Bonds stay settled, and seating the same validator on a later ledger restores it.\<close>

lemma seat_bonds:
  assumes "seat_validator cr r b m = Inr m'" "settlement m = Some l"
  shows "\<exists>l'. settlement m' = Some l' \<and> (\<forall>k. has_key (bonds l) k \<longrightarrow> has_key (bonds l') k)"
  using assms
proof (cases rule: seat_cases)
  case (3 e l')
  with settle_bond_frame [OF 3(4)] show ?thesis by simp
qed (use assms in \<open>simp_all add: seated_settlement\<close>)

lemma seat_again:
  assumes seat: "seat_validator cr r b m = Inr m'" "settlement m = Some l" "settlement m' = Some l'"
    and named: "ar_bond_id r = Some (sb_bond_id b)" and later: "\<forall>k. has_key (bonds l') k \<longrightarrow> has_key (bonds L) k"
  shows "seat_validator cr r b (m\<lparr>settlement := Some L\<rparr>) = Inr (m'\<lparr>settlement := Some L\<rparr>)"
proof -
  have restored: ?thesis
    if "\<not> has_key (by_id (m_snapshot m)) (ar_validator_id r)" "has_key (bonds L) (sb_bond_id b)"
      "acceptable cr r b m" "m'\<lparr>settlement := Some L\<rparr> = (seated cr r b m)\<lparr>settlement := Some L\<rparr>"
  proof -
    have "restore_admission cr r b (m\<lparr>settlement := Some L\<rparr>) = (Inr (), m'\<lparr>settlement := Some L\<rparr>)"
      unfolding restore_returns using that named by (simp add: acceptable_settlement seated_settlement)
    with that show ?thesis by (simp add: seat_validator_def settled_bonds_def run_manager_def)
  qed
  from seat(1,2) show ?thesis
  proof (cases rule: seat_cases)
    case 1
    then show ?thesis by (simp add: seat_validator_def)
  next
    case 2
    with seat later show ?thesis by (intro restored) (simp_all add: seated_settlement)
  next
    case (3 e k)
    with seat later settle_bond_frame [OF 3(4)] show ?thesis by (intro restored) (simp_all add: seated_settlement)
  qed
qed

text \<open>What a start keeps: the invariants of the manager and its ledger, and the funds.\<close>

definition loaded_ok :: "crypto \<Rightarrow> int \<Rightarrow> manager \<Rightarrow> bool" where
  "loaded_ok cr T m \<longleftrightarrow> (0 < minimum_stake m \<longrightarrow> manager_ok cr m)
     \<and> (\<exists>l. settlement m = Some l \<and> startable l \<and> total_value l = T)"

lemma seated_ok: "manager_ok cr m \<Longrightarrow> acceptable cr r b m \<Longrightarrow> manager_ok cr (seated cr r b m)"
  unfolding seated_def
  by (rule updated_ok) (simp_all add: acceptable_def new_record_ok)

lemma settlement_ok: "manager_ok cr (m\<lparr>settlement := x\<rparr>) = manager_ok cr m"
  by (simp add: manager_ok_def records_ok_def)

lemma seated_stake: "minimum_stake (seated cr r b m) = minimum_stake m"
  by (simp add: seated_def refresh_def set_record_def)

lemma seat_loaded:
  assumes "seat_validator cr r b m = Inr m'" "loaded_ok cr T m"
  shows "loaded_ok cr T m'"
proof -
  from assms(2) obtain l where l: "settlement m = Some l" "startable l" "total_value l = T"
    and ok: "0 < minimum_stake m \<Longrightarrow> manager_ok cr m"
    by (auto simp: loaded_ok_def)
  from assms(1) l(1) show ?thesis
  proof (cases rule: seat_cases)
    case 1
    with assms(2) show ?thesis by simp
  next
    case 2
    with l ok show ?thesis by (simp add: loaded_ok_def seated_ok seated_stake seated_settlement)
  next
    case (3 e l')
    from changesD [OF changes_settle_bond _ 3(4)] l have "ledger_ok l'" "total_value l' = T"
      by (auto simp: startable_def)
    with 3 l ok settle_bond_frame [OF 3(4)] show ?thesis
      by (simp add: loaded_ok_def seated_ok seated_stake settlement_ok startable_def)
  qed
qed

definition named :: "json \<Rightarrow> bool" where
  "named item = (case decode_row item of Inl _ \<Rightarrow> True | Inr (r, b) \<Rightarrow> ar_bond_id r = Some (sb_bond_id b))"

lemma genesis_admission_seats:
  "genesis_admission cr item m = Inr m' \<longleftrightarrow> (\<exists>r b. decode_row item = Inr (r, b) \<and> seat_validator cr r b m = Inr m')"
  by (auto simp: genesis_admission_def decode_row_def bindE_Inr_iff liftE_Inr_iff)

lemma genesis_bonds:
  assumes "foldE (genesis_admission cr) items m = Inr m'" "settlement m = Some l"
  shows "\<exists>l'. settlement m' = Some l' \<and> (\<forall>k. has_key (bonds l) k \<longrightarrow> has_key (bonds l') k)"
  using assms(1)
proof (rule foldE_invariant)
  fix x n n'
  assume "\<exists>l'. settlement n = Some l' \<and> (\<forall>k. has_key (bonds l) k \<longrightarrow> has_key (bonds l') k)"
    and "genesis_admission cr x n = Inr n'"
  then show "\<exists>l'. settlement n' = Some l' \<and> (\<forall>k. has_key (bonds l) k \<longrightarrow> has_key (bonds l') k)"
    using seat_bonds unfolding genesis_admission_seats by metis
qed (simp add: assms(2))

lemma genesis_again:
  assumes "foldE (genesis_admission cr) items m = Inr m'" "settlement m = Some l" "settlement m' = Some l'"
    and "list_all named items" "\<forall>k. has_key (bonds l') k \<longrightarrow> has_key (bonds L) k"
  shows "foldE (genesis_admission cr) items (m\<lparr>settlement := Some L\<rparr>) = Inr (m'\<lparr>settlement := Some L\<rparr>)"
  using assms
proof (induction items arbitrary: m l)
  case (Cons item items)
  from Cons.prems(1) obtain m1 where m1: "genesis_admission cr item m = Inr m1"
    and rest: "foldE (genesis_admission cr) items m1 = Inr m'"
    by (auto simp: bindE_Inr_iff)
  from m1 obtain r b where item: "decode_row item = Inr (r, b)" and seat: "seat_validator cr r b m = Inr m1"
    by (auto simp: genesis_admission_seats)
  from seat_bonds [OF seat Cons.prems(2)] obtain l1 where l1: "settlement m1 = Some l1" by blast
  from genesis_bonds [OF rest l1] Cons.prems(3,5) have "\<forall>k. has_key (bonds l1) k \<longrightarrow> has_key (bonds L) k" by simp
  moreover have "ar_bond_id r = Some (sb_bond_id b)" using Cons.prems(4) item by (simp add: named_def)
  ultimately have "seat_validator cr r b (m\<lparr>settlement := Some L\<rparr>) = Inr (m1\<lparr>settlement := Some L\<rparr>)"
    using seat_again [OF seat Cons.prems(2) l1] by blast
  then have "genesis_admission cr item (m\<lparr>settlement := Some L\<rparr>) = Inr (m1\<lparr>settlement := Some L\<rparr>)"
    using item by (auto simp: genesis_admission_seats)
  with Cons.IH [OF rest l1 Cons.prems(3) _ Cons.prems(5)] Cons.prems(4) show ?case by simp
qed simp

subsection \<open>The steps of a start\<close>

definition genesis_items :: "json \<Rightarrow> json list" where
  "genesis_items config = (case bindE (get_default ''genesis_admissions'' (JArr []) config) iterated of
     Inl _ \<Rightarrow> [] | Inr items \<Rightarrow> items)"

lemma load_membership_folds:
  assumes "load_membership cr config l = Inr m"
  obtains m0 where "load_manager cr config l = Inr m0" "foldE (genesis_admission cr) (genesis_items config) m0 = Inr m"
    "bindE (get_default ''genesis_admissions'' (JArr []) config) iterated = Inr (genesis_items config)"
proof -
  from assms obtain m0 v items where parts: "load_manager cr config l = Inr m0"
    "get_default ''genesis_admissions'' (JArr []) config = Inr v" "iterated v = Inr items"
    "foldE (genesis_admission cr) items m0 = Inr m"
    by (auto simp: load_membership_def bindE_Inr_iff)
  then have "genesis_items config = items" by (simp add: genesis_items_def)
  with parts show ?thesis by (intro that) simp_all
qed

lemma load_manager_new:
  assumes "load_manager cr config l = Inr m"
  obtains seed mins delay where "m = manager_init cr seed mins 10000 delay (Some l)"
    "\<And>k. load_manager cr config k = Inr (manager_init cr seed mins 10000 delay (Some k))"
proof -
  from assms obtain mc v seed mins delay where parts: "get_default ''membership'' (JObj []) config = Inr mc"
    "get_default ''genesis_seed'' (JStr ''mosaic-testnet-genesis'') config = Inr v"
    "(case v of JStr t \<Rightarrow> Inr t | _ \<Rightarrow> Inl DaemonAttributeError) = Inr seed"
    "get_int ''minimum_stake'' 1 mc = Inr mins" "get_int ''withdrawal_delay'' 3 mc = Inr delay"
    "m = manager_init cr seed mins 10000 delay (Some l)"
    by (auto simp: load_manager_def bindE_Inr_iff)
  show ?thesis by (rule that [OF parts(6)]) (simp add: load_manager_def parts)
qed

lemma manager_init_settlement:
  "(manager_init cr seed mins maxt delay x)\<lparr>settlement := y\<rparr> = manager_init cr seed mins maxt delay y"
  "settlement (manager_init cr seed mins maxt delay x) = x"
  by (simp_all add: manager_init_def refresh_def build_snapshot_def)

lemma load_membership_ok:
  assumes "load_membership cr config l = Inr m" "startable l"
  shows "loaded_ok cr (total_value l) m"
proof -
  from assms(1) obtain m0 where m0: "load_manager cr config l = Inr m0"
    and fold: "foldE (genesis_admission cr) (genesis_items config) m0 = Inr m"
    by (rule load_membership_folds)
  from m0 obtain seed mins delay where m0: "m0 = manager_init cr seed mins 10000 delay (Some l)"
    by (rule load_manager_new)
  have "loaded_ok cr (total_value l) m0"
    using manager_init_ok [of mins cr seed 10000 delay "Some l"] assms(2)
    by (auto simp: m0 loaded_ok_def manager_init_settlement) (simp add: manager_init_def refresh_def)
  with fold show ?thesis
    by (rule foldE_invariant) (auto simp: genesis_admission_seats intro: seat_loaded)
qed

lemma load_membership_again:
  assumes "load_membership cr config l = Inr m" "settlement m = Some k" "list_all named (genesis_items config)"
    and "\<forall>i. has_key (bonds k) i \<longrightarrow> has_key (bonds L) i"
  shows "load_membership cr config L = Inr (m\<lparr>settlement := Some L\<rparr>)"
proof -
  from assms(1) obtain m0 where m0: "load_manager cr config l = Inr m0"
    and fold: "foldE (genesis_admission cr) (genesis_items config) m0 = Inr m"
    and items: "bindE (get_default ''genesis_admissions'' (JArr []) config) iterated = Inr (genesis_items config)"
    by (rule load_membership_folds)
  from m0 obtain seed mins delay where init: "m0 = manager_init cr seed mins 10000 delay (Some l)"
    "load_manager cr config L = Inr (manager_init cr seed mins 10000 delay (Some L))"
    by (elim load_manager_new) blast
  have "foldE (genesis_admission cr) (genesis_items config) (m0\<lparr>settlement := Some L\<rparr>) = Inr (m\<lparr>settlement := Some L\<rparr>)"
    using fold _ assms(2,3,4) by (rule genesis_again) (simp add: init manager_init_settlement)
  with init items show ?thesis
    by (auto simp: load_membership_def manager_init_settlement bindE_Inr_iff)
qed

lemma load_membership_settled:
  assumes "load_membership cr config l = Inr m"
  shows "\<exists>k. settlement m = Some k \<and> (\<forall>i. has_key (bonds l) i \<longrightarrow> has_key (bonds k) i)"
proof -
  from assms obtain m0 where m0: "load_manager cr config l = Inr m0"
    and fold: "foldE (genesis_admission cr) (genesis_items config) m0 = Inr m"
    by (rule load_membership_folds)
  from m0 have "settlement m0 = Some l"
    by (rule load_manager_new) (simp add: manager_init_settlement)
  with genesis_bonds [OF fold] show ?thesis by blast
qed

lemma at_store_Inr: "at_store r db = (Inr a, db') \<longleftrightarrow> r = Inr a \<and> db' = db"
  by (auto simp: at_store_def)

text \<open>Only the ledger, the membership and the two writes depend on the store.\<close>

lemma load_node_steps:
  assumes "load_node cr cap ref now config db = (Inr s, db')"
  obtains l db1 m k nid limit p cd where
    "load_ledger cr config db = (Inr l, db1)" "load_membership cr config l = Inr m" "settlement m = Some k"
    "write_ledger cr k db1 = (Inr (), db')" "en_node s = built_node nid limit p m cd db'"
    "\<And>dbx l2 db2 m2 k2 db3. load_ledger cr config dbx = (Inr l2, db2) \<Longrightarrow> load_membership cr config l2 = Inr m2 \<Longrightarrow>
       settlement m2 = Some k2 \<Longrightarrow> write_ledger cr k2 db2 = (Inr (), db3) \<Longrightarrow>
       load_node cr cap ref now config dbx = (Inr (s\<lparr>en_node := built_node nid limit p m2 cd db3\<rparr>), db3)"
    "\<And>dbx l2 db2 e. load_ledger cr config dbx = (Inr l2, db2) \<Longrightarrow> load_membership cr config l2 = Inl e \<Longrightarrow>
       load_node cr cap ref now config dbx = (Inl e, db2)"
proof -
  from assms obtain nid p0 l db1 m u db2 cd p u2 port conns limit where
    nid: "liftE DaemonWire (text_field ''node_id'' config) = Inr nid"
    and p0: "load_protocol config nid = Inr p0"
    and l: "load_ledger cr config db = (Inr l, db1)" and m: "load_membership cr config l = Inr m"
    and w: "(case settlement m of Some k \<Rightarrow> write_ledger cr k | None \<Rightarrow> at_store (Inr ())) db1 = (Inr u, db2)"
    and cd: "load_codec config = Inr cd"
    and p: "bindE (get_default ''initial_seals'' (JArr []) config) (\<lambda>v.
       bindE (iterated v) (\<lambda>items. foldE (place_seal cr) items p0)) = Inr p"
    and peers: "bindE (liftE DaemonWire (jfield ''peers'' config)) (\<lambda>v.
       bindE (dict_items v) (\<lambda>entries. foldE read_endpoint entries ())) = Inr u2"
    and port: "liftE DaemonWire (int_field ''bind_port'' config) = Inr port"
    and conns: "get_int ''max_connections_per_peer'' 64 config = Inr conns"
    and limit: "get_int ''max_pending_capsules'' 10000 config = Inr limit"
    and s: "s = entry_init (built_node nid limit p m cd db2) conns cap ref now" and db': "db' = db2"
    unfolding load_node_def at_store_Inr by (elim thenS_Inr, simp only: at_store_Inr prod.inject sum.inject) blast
  from load_membership_settled [OF m] obtain k where k: "settlement m = Some k" by blast
  show ?thesis
  proof (rule that [OF l m k])
    show "write_ledger cr k db1 = (Inr (), db')" using w k db' by simp
    show "en_node s = built_node nid limit p m cd db'" using s db' by (simp add: entry_init_def)
    fix dbx l2 db2 m2 k2 db3
    assume "load_ledger cr config dbx = (Inr l2, db2)" "load_membership cr config l2 = Inr m2"
      "settlement m2 = Some k2" "write_ledger cr k2 db2 = (Inr (), db3)"
    then show "load_node cr cap ref now config dbx = (Inr (s\<lparr>en_node := built_node nid limit p m2 cd db3\<rparr>), db3)"
      unfolding load_node_def
      by (simp add: thenS_def at_store_def nid p0 cd p peers port conns limit s entry_init_def)
  next
    fix dbx l2 db2 e
    assume "load_ledger cr config dbx = (Inr l2, db2)" "load_membership cr config l2 = Inl e"
    then show "load_node cr cap ref now config dbx = (Inl e, db2)"
      unfolding load_node_def by (simp add: thenS_def at_store_def nid p0)
  qed
qed

subsection \<open>The ledger in the store\<close>

lemma from_store_startable:
  assumes "ledger_from_store cr db = Inr l" "ledger_ok l"
  shows "startable l"
proof -
  from assms(1) have "l_asset l \<noteq> []" "finite (slash_ids l)" "finite (settled_epochs l)"
    by (auto simp: ledger_from_store_def bindE_Inr_iff liftE_Inr_iff ledger_init_def Let_def
        split: option.splits if_splits)
  with assms(2) show ?thesis by (simp add: startable_def)
qed

lemma load_ledger_startable:
  assumes "load_ledger cr config db = (Inr l, db1)" "\<forall>l0. ledger_from_store cr db = Inr l0 \<longrightarrow> ledger_ok l0"
  shows "startable l"
proof (cases "ledger_from_store cr db")
  case (Inl e)
  with assms(1) have "genesis_ledger cr config = Inr l"
    by (auto simp: load_ledger_def at_store_Inr elim!: thenS_Inr)
  with genesis_ledger_startable show ?thesis by blast
next
  case (Inr l0)
  with assms have "l = l0" by (simp add: load_ledger_def)
  with Inr assms(2) show ?thesis by (simp add: from_store_startable)
qed

lemma ledger_sorted_twice: "ledger_sorted (ledger_sorted l) = ledger_sorted l"
  by (simp add: ledger_sorted_def sorted_dict_def sort_key_id_if_sorted)

lemma storable_sorted: "storable l \<Longrightarrow> storable (ledger_sorted l)"
  by (simp add: storable_def audit_sorted) (simp add: ledger_sorted_def)

lemma bonds_sorted: "has_key (bonds (ledger_sorted l)) k = has_key (bonds l) k"
  by (simp add: ledger_sorted_def has_key_def)

lemma write_ledger_stores:
  assumes "storable l" "write_ledger cr l db = (Inr (), db')"
  shows "ledger_from_store cr db' = Inr (ledger_sorted l)"
proof -
  obtain r where r: "ledger_persist cr l db = (r, db')" "liftE DaemonStorage r = Inr ()"
    using assms(2) by (auto simp: write_ledger_def split: prod.splits)
  then have "is_ok r" by (simp add: liftE_Inr_iff)
  with ledger_persist_roundtrip [OF assms(1) r(1)] show ?thesis by simp
qed

lemma write_ledger_calm:
  assumes "faults db = []"
  shows "\<exists>db'. write_ledger cr l db = (Inr (), db') \<and> faults db' = []"
  using put_calm [OF assms, of "''settlement_state''" "''ledger''" "ledger_to_dict cr l" False]
  by (auto simp: write_ledger_def ledger_persist_def)

subsection \<open>Starting and starting again\<close>

abbreviation manager_of :: "entry_node \<Rightarrow> manager" where
  "manager_of s \<equiv> sv_manager (vn_services (en_node s))"

lemma built_node_fields [simp]:
  "vn_services (built_node nid limit p m cd db) = services_init m (Some db)"
  "sv_manager (services_init m x) = m" "g_protocol (vn_gossip (built_node nid limit p m cd db)) = p"
  by (simp_all add: built_node_def services_init_def gossip_init_def)

text \<open>The clock decides nothing of a start but the refill of the rate buckets.\<close>

lemma load_node_clock:
  assumes "load_node cr cap ref now config db = (Inr s, db')"
  obtains s' where "load_node cr cap ref later config db = (Inr s', db')" "en_node s' = en_node s"
proof -
  from assms have "\<exists>s'. load_node cr cap ref later config db = (Inr s', db') \<and> en_node s' = en_node s"
    unfolding load_node_def at_store_Inr
    by (elim thenS_Inr, simp only: at_store_Inr prod.inject sum.inject)
      (auto simp: thenS_def at_store_def entry_init_def)
  with that show ?thesis by blast
qed

lemma started:
  assumes first: "load_node cr cap ref now config db = (Inr s, db')"
    and stored: "\<forall>l. ledger_from_store cr db = Inr l \<longrightarrow> ledger_ok l" and stake: "0 < minimum_stake (manager_of s)"
  obtains k where "ledger_held (en_node s) = Some k" "startable k" "node_ok cr (total_value k) (en_node s)"
    "row_at (Some (json_norm (ledger_to_dict cr k))) (vn_gossip (en_node s))"
proof -
  from first obtain l db1 m k nid limit p cd where
    l: "load_ledger cr config db = (Inr l, db1)" and m: "load_membership cr config l = Inr m"
    and k: "settlement m = Some k" and w: "write_ledger cr k db1 = (Inr (), db')"
    and s: "en_node s = built_node nid limit p m cd db'"
    by (elim load_node_steps) blast
  from load_membership_ok [OF m load_ledger_startable [OF l stored]] k stake s
  have ok: "startable k" "manager_ok cr m" by (simp_all add: loaded_ok_def)
  have "store_put ''settlement_state'' ''ledger'' (ledger_to_dict cr k) False db1 = (Inr (), db')"
    using w by (auto simp: write_ledger_def ledger_persist_def liftE_Inr_iff split: prod.splits)
  then have "store_get db' ''settlement_state'' ''ledger'' = Some (json_norm (ledger_to_dict cr k))"
    by (rule durable.get_same)
  then have "row_at (Some (json_norm (ledger_to_dict cr k))) (vn_gossip (en_node s))"
    by (simp add: s built_node_def gossip_init_def gossip_store_def ledger_row_def)
  moreover have "node_ok cr (total_value k) (en_node s)"
    using ok k by (intro node_ok_start [where m = m and db = "Some db'"]) (simp_all add: s startable_def)
  ultimately show ?thesis using k ok(1) s by (intro that) (simp_all add: ledger_held_def)
qed

text \<open>
  C12. A node can be stopped and started again. Let every admission of the configuration name its bond, and
  let the minimum stake be positive. A node starts, over an empty store or one with a sound ledger,
  and runs: it handles any messages from anyone, and its gossip tasks work in any order; the store may
  fail meanwhile. Wherever it stops, and whenever a start follows with a store that works, this start
  succeeds. The ledger it works on, and leaves in the store, is one the node held: no older than the last
  admission it has answered and the last round it has settled. It audits, with the balances it had
  then and no more value than at the first start. The membership and the protocol object are those
  of the first start: the validators of the configuration are back as they were admitted, and what
  the run has cut from their stake is not taken from them again.
\<close>

theorem daemon_starts_again:
  assumes first: "load_node cr cap ref now config db = (Inr s, db')"
    and stored: "\<forall>l. ledger_from_store cr db = Inr l \<longrightarrow> ledger_ok l"
    and config: "list_all named (genesis_items config)" and stake: "0 < minimum_stake (manager_of s)"
    and run: "n = works_on cr evs (en_node s)" and stop: "g_store (vn_gossip n) = Some d" "faults d = []"
  shows "\<exists>i k0 k s' d'. ledger_held (en_node s) = Some k0
    \<and> i \<le> length evs \<and> ledger_held (works_on cr (take i evs) (en_node s)) = Some k
    \<and> (\<forall>j < length evs. booked_event cr (works_on cr (take j evs) (en_node s)) (evs ! j) \<longrightarrow> j < i)
    \<and> audit k \<and> total_value k \<le> total_value k0
    \<and> load_node cr cap ref later config d = (Inr s', d')
    \<and> manager_of s' = (manager_of s)\<lparr>settlement := Some (ledger_sorted k)\<rparr>
    \<and> ledger_from_store cr d' = Inr (ledger_sorted k) \<and> balance_of (ledger_sorted k) = balance_of k
    \<and> g_protocol (vn_gossip (en_node s')) = g_protocol (vn_gossip (en_node s))"
proof -
  from started [OF first stored stake] obtain k0 where
    k0: "ledger_held (en_node s) = Some k0" "startable k0" and ok: "node_ok cr (total_value k0) (en_node s)"
    and row: "row_at (Some (json_norm (ledger_to_dict cr k0))) (vn_gossip (en_node s))" by blast
  from stop(1) have "g_store (vn_gossip (works_on cr evs (en_node s))) = Some d" unfolding run .
  from run_stores [OF ok k0 row this] obtain i k where
    i: "i \<le> length evs" "ledger_held (works_on cr (take i evs) (en_node s)) = Some k"
    and k: "startable k" "grows k0 k" "total_value k \<le> total_value k0" and L: "ledger_from_store cr d = Inr (ledger_sorted k)"
    and j: "\<And>j. j < length evs \<Longrightarrow> booked_event cr (works_on cr (take j evs) (en_node s)) (evs ! j) \<Longrightarrow> j < i"
    by blast
  let ?L = "ledger_sorted k"
  from first obtain l db1 m k1 nid limit p cd where m: "load_membership cr config l = Inr m" "settlement m = Some k1"
    and s: "en_node s = built_node nid limit p m cd db'"
    and again: "\<And>dbx l2 db2 m2 k2 db3. load_ledger cr config dbx = (Inr l2, db2) \<Longrightarrow> load_membership cr config l2 = Inr m2 \<Longrightarrow>
       settlement m2 = Some k2 \<Longrightarrow> write_ledger cr k2 db2 = (Inr (), db3) \<Longrightarrow>
       load_node cr cap ref now config dbx = (Inr (s\<lparr>en_node := built_node nid limit p m2 cd db3\<rparr>), db3)"
    by (elim load_node_steps) blast
  from k0(1) m(2) s have "k1 = k0" by (simp add: ledger_held_def)
  with k(2) have "\<forall>j. has_key (bonds k1) j \<longrightarrow> has_key (bonds ?L) j"
    unfolding bonds_sorted by (auto simp: grows_def has_key_def)
  with load_membership_again [OF m config] have m': "load_membership cr config ?L = Inr (m\<lparr>settlement := Some ?L\<rparr>)" by blast
  from k(1) have "storable k" "audit k" "wf_dict (balances k)"
    by (simp_all add: startable_storable) (simp_all add: startable_def ledger_ok_def)
  from write_ledger_calm [OF stop(2)] obtain d' where w: "write_ledger cr ?L d = (Inr (), d')" by blast
  from write_ledger_stores [OF storable_sorted [OF \<open>storable k\<close>] w]
  have returned: "ledger_from_store cr d' = Inr ?L" by (simp add: ledger_sorted_twice)
  have "load_ledger cr config d = (Inr ?L, d)" by (simp add: load_ledger_def L)
  from again [OF this m' _ w]
  have "load_node cr cap ref now config d = (Inr (s\<lparr>en_node := built_node nid limit p (m\<lparr>settlement := Some ?L\<rparr>) cd d'\<rparr>), d')"
    by simp
  then obtain s' where s': "load_node cr cap ref later config d = (Inr s', d')"
    "en_node s' = built_node nid limit p (m\<lparr>settlement := Some ?L\<rparr>) cd d'"
    by (rule load_node_clock [where later = later]) simp
  have "balance_of ?L = balance_of k"
    by (rule ext) (simp add: balance_of_def ledger_sorted_def sorted_dict_def map_of_sorted \<open>wf_dict (balances k)\<close>)
  with i j k(3) k0(1) \<open>audit k\<close> s s' returned show ?thesis by (intro exI [of _ i] exI [of _ k0] exI [of _ k]) auto
qed

text \<open>
  C35. A start mints the configured funds and nothing else. A node starts over a store without a readable
  ledger, with a positive minimum stake. Then whatever messages arrive, in any order, from anyone, its
  ledger audits and holds at most the sum of the genesis balances; in particular bonding the
  validators of the configuration creates no value.
\<close>

theorem daemon_supply:
  assumes "load_node cr cap ref now config db = (Inr s, db')" "ledger_from_store cr db = Inl e"
    and "0 < minimum_stake (manager_of s)" "n' = fold (\<lambda>msg n. snd (dispatch cr msg n)) msgs (en_node s)"
  shows "\<exists>l. settlement (sv_manager (vn_services n')) = Some l \<and> audit l \<and> total_value l \<le> genesis_total config"
proof -
  from assms(1) obtain l db1 m k nid limit p cd where
    l: "load_ledger cr config db = (Inr l, db1)" and m: "load_membership cr config l = Inr m"
    and k: "settlement m = Some k" and s: "en_node s = built_node nid limit p m cd db'"
    by (elim load_node_steps) blast
  from l assms(2) have "genesis_ledger cr config = Inr l"
    by (auto simp: load_ledger_def at_store_Inr elim!: thenS_Inr)
  then have l0: "startable l" "total_value l = genesis_total config"
    using genesis_ledger_startable by blast+
  from load_membership_ok [OF m l0(1)] k assms(3) s have m_ok: "manager_ok cr m" "ledger_ok k"
    and total: "total_value k = genesis_total config"
    by (simp_all add: loaded_ok_def l0(2) startable_def)
  have "node_ok cr (total_value k) n'"
    unfolding assms(4) by (rule messages_kept, rule node_ok_start [OF _ m_ok(1) k m_ok(2)]) (simp add: s)
  with total show ?thesis
    by (auto simp: node_ok_def services_ok_def funds_ok_def ledger_ok_def)
qed

text \<open>
  A configuration can work once only. \<open>admit\<close> takes a bond whose id is the deposit id when the
  request names no bond; \<open>restore_admission\<close> does not. When the first admission of the configuration is
  of this kind, the node starts, and every later start over its store raises.
\<close>

theorem unnamed_bond_blocks_restart:
  assumes first: "load_node cr cap ref now config db = (Inr s, db')" "ledger_from_store cr db = Inl e"
    and item: "genesis_items config = item # rest" "decode_row item = Inr (r, b)" "ar_bond_id r = None"
  shows "load_node cr cap ref now config db' =
    (Inl (DaemonMembership (MembershipError ''restored admission does not satisfy stake policy'')), db')"
proof -
  from first(1) obtain l db1 m k nid limit p cd where
    l: "load_ledger cr config db = (Inr l, db1)" and m: "load_membership cr config l = Inr m"
    and k: "settlement m = Some k" and w: "write_ledger cr k db1 = (Inr (), db')"
    and again: "\<And>dbx l2 db2 e. load_ledger cr config dbx = (Inr l2, db2) \<Longrightarrow> load_membership cr config l2 = Inl e \<Longrightarrow>
       load_node cr cap ref now config dbx = (Inl e, db2)"
    by (elim load_node_steps) blast
  from l first(2) have "genesis_ledger cr config = Inr l"
    by (auto simp: load_ledger_def at_store_Inr elim!: thenS_Inr)
  then have l0: "startable l" "bonds l = []" using genesis_ledger_startable by blast+
  from load_membership_ok [OF m l0(1)] k have "storable k"
    by (simp add: loaded_ok_def startable_storable)
  from m obtain m0 where m0: "load_manager cr config l = Inr m0"
    and fold: "foldE (genesis_admission cr) (item # rest) m0 = Inr m"
    and items: "bindE (get_default ''genesis_admissions'' (JArr []) config) iterated = Inr (item # rest)"
    unfolding item(1) [symmetric] by (rule load_membership_folds)
  from m0 obtain seed mins delay where m0: "m0 = manager_init cr seed mins 10000 delay (Some l)"
    and manager: "\<And>k. load_manager cr config k = Inr (manager_init cr seed mins 10000 delay (Some k))"
    by (elim load_manager_new) blast
  let ?m = "manager_init cr seed mins 10000 delay (Some (ledger_sorted k))"
  from fold item(2) obtain m1 where seat: "seat_validator cr r b m0 = Inr m1"
    and rest: "foldE (genesis_admission cr) rest m1 = Inr m"
    by (auto simp: bindE_Inr_iff genesis_admission_seats)
  have empty: "by_id (m_snapshot m0) = []" "by_id (m_snapshot ?m) = []" "settlement m0 = Some l"
    by (simp_all add: m0 manager_init_def refresh_def build_snapshot_def by_id_def dict_of_def)
  from seat empty(3) obtain e l' where "acceptable cr r b m0"
    and settle: "settle_bond cr b (m_epoch m0) l = (Inr e, l')" and m1: "m1 = (seated cr r b m0)\<lparr>settlement := Some l'\<rparr>"
    using empty(1) item(3) by (elim seat_cases) (auto simp: has_key_def)
  from genesis_bonds [OF rest] k m1 settle_bond_frame [OF settle] have "has_key (bonds k) (sb_bond_id b)" by auto
  moreover have "acceptable cr r b ?m"
    using \<open>acceptable cr r b m0\<close> by (simp add: acceptable_def m0 manager_init_def refresh_def)
  moreover have "\<not> has_key ([] :: (string, validator_record) dict) (ar_validator_id r)" by (simp add: has_key_def)
  ultimately have "seat_validator cr r b ?m =
      Inl (DaemonMembership (MembershipError ''restored admission does not satisfy stake policy''))"
    using empty(2) item(3)
    by (simp add: seat_validator_def settled_bonds_def manager_init_settlement bonds_sorted run_manager_def
        restore_admission_seats acceptable_def raise_m_def)
  then have "load_membership cr config (ledger_sorted k) =
      Inl (DaemonMembership (MembershipError ''restored admission does not satisfy stake policy''))"
    using items item(2) manager
    by (auto simp: load_membership_def bindE_Inr_iff genesis_admission_def decode_row_def liftE_Inr_iff)
  moreover from write_ledger_stores [OF \<open>storable k\<close> w] have "load_ledger cr config db' = (Inr (ledger_sorted k), db')"
    by (simp add: load_ledger_def)
  ultimately show ?thesis by (intro again)
qed

subsection \<open>A concrete configuration\<close>

text \<open>One genesis validator, admitted by a request that names its bond or by one that does not.\<close>

definition bare_request :: admission_request where
  "bare_request = admission_create demo_crypto alice ''w'' 10 ''b'' 0 None"

definition one_validator :: "admission_request \<Rightarrow> json" where
  "one_validator r = JObj
     [(''node_id'', JStr ''w''), (''members'', JObj []), (''settlement'', JObj [(''asset'', JStr ''M'')]),
      (''genesis_balances'', JObj [(identity demo_crypto alice, JInt 10)]),
      (''genesis_admissions'', JArr [JObj [(''request'', json_norm (admission_to_wire r)),
        (''bond'', json_norm (bond_to_wire alice_bond))]]),
      (''peers'', JObj []), (''bind_port'', JInt 7000)]"

lemma one_validator_items:
  "genesis_items (one_validator r) = [JObj [(''request'', json_norm (admission_to_wire r)),
     (''bond'', json_norm (bond_to_wire alice_bond))]]"
  "decode_row (JObj [(''request'', json_norm (admission_to_wire r)), (''bond'', json_norm (bond_to_wire alice_bond))])
     = Inr (r, alice_bond)"
  by (simp_all add: genesis_items_def one_validator_def get_default_def iterated_def decode_row_def jfield_def
      admission_roundtrip bond_roundtrip del: json_norm.simps(2))

lemma blank_ledger: "ledger_from_store cr blank_store = Inl (PersistSettlement (SettlementError ''settlement ledger state is missing''))"
  by (simp add: ledger_from_store_def store_get_def blank_store_def)

lemma alice_account: "identity_from_public_key demo_crypto ''a'' = ''61''"
  by code_simp

lemma genesis_event_ids:
  "event_id demo_crypto ''M'' ''BOND'' 0 ''61'' 10 ''b'' []
    \<noteq> event_id demo_crypto ''M'' ''FUND'' 0 ''61'' 10 ''genesis:61'' [(''source'', ''external'')]"
  by code_simp

definition alice_funded :: "ledger \<Rightarrow> bool" where
  "alice_funded l \<longleftrightarrow> bonds l = [] \<and> balances l = [(''61'', 10)] \<and> l_asset l = ''M''
     \<and> fst ` set (events l) = {event_id demo_crypto ''M'' ''FUND'' 0 ''61'' 10 ''genesis:61'' [(''source'', ''external'')]}"

lemma one_validator_ledger: "\<exists>l. genesis_ledger demo_crypto (one_validator r) = Inr l \<and> alice_funded l"
  by (simp add: genesis_ledger_def one_validator_def get_default_def get_text_def wire_simps as_text_def ledger_init_def
      dict_items_def fund_genesis_def as_integer_def fund_def thenS_def log_event_def credit_def balance_of_def
      Let_def has_key_def identity_def alice_def alice_account alice_funded_def)

lemmas seating_simps =
  seat_validator_def run_manager_def settled_bonds_def by_id_def dict_of_def build_snapshot_def admit_def
  admission_create_def admission_verify_def admission_statement_def manager_init_def refresh_def admit_bond_def
  alice_bond_def bond_create_def bond_verify_def bond_statement_def alice_def thenS_def on_settlement_def
  settle_bond_def has_key_def debit_def balance_of_def log_event_def set_position_def Let_def identity_def
  alice_account alice_funded_def genesis_event_ids

lemma one_validator_seated:
  assumes "r = alice_request \<or> r = bare_request" "alice_funded l"
  shows "\<exists>m. seat_validator demo_crypto r alice_bond (manager_init demo_crypto seed 1 10000 3 (Some l)) = Inr m"
  using assms(1)
proof
  assume "r = alice_request"
  then show ?thesis using assms(2) by (simp add: seating_simps alice_request_def)
next
  assume "r = bare_request"
  then show ?thesis using assms(2) by (simp add: seating_simps bare_request_def)
qed

lemma one_validator_starts:
  assumes "r = alice_request \<or> r = bare_request"
  shows "\<exists>s db'. load_node demo_crypto 10 10 0 (one_validator r) blank_store = (Inr s, db') \<and> faults db' = []
    \<and> minimum_stake (manager_of s) = 1"
proof -
  let ?c = "one_validator r"
  obtain l where l: "genesis_ledger demo_crypto ?c = Inr l" "alice_funded l"
    using one_validator_ledger by blast
  have "faults blank_store = []" by (simp add: blank_store_def)
  from write_ledger_calm [OF this] obtain db1 where w1: "write_ledger demo_crypto l blank_store = (Inr (), db1)"
    and calm: "faults db1 = []" by blast
  have ll: "load_ledger demo_crypto ?c blank_store = (Inr l, db1)"
    by (simp add: load_ledger_def blank_ledger thenS_def at_store_def l(1) w1)
  let ?m = "manager_init demo_crypto ''mosaic-testnet-genesis'' 1 10000 3 (Some l)"
  obtain m where seat: "seat_validator demo_crypto r alice_bond ?m = Inr m"
    using one_validator_seated [OF assms l(2)] by blast
  have "load_manager demo_crypto ?c l = Inr ?m"
    by (simp add: load_manager_def one_validator_def get_default_def get_int_def as_integer_def)
  moreover have "bindE (get_default ''genesis_admissions'' (JArr []) ?c) iterated = Inr (genesis_items ?c)"
    by (simp add: one_validator_def get_default_def iterated_def genesis_items_def)
  moreover have "genesis_admission demo_crypto (hd (genesis_items ?c)) ?m = Inr m"
    using seat by (auto simp: genesis_admission_seats one_validator_items)
  ultimately have lm: "load_membership demo_crypto ?c l = Inr m"
    by (auto simp: load_membership_def bindE_Inr_iff one_validator_items)
  from load_membership_settled [OF lm] obtain k where k: "settlement m = Some k" by blast
  from write_ledger_calm [OF calm] obtain db' where w: "write_ledger demo_crypto k db1 = (Inr (), db')"
    and calm': "faults db' = []" by blast
  have stake: "minimum_stake m = 1"
  proof -
    have "settlement ?m = Some l" by (simp add: manager_init_settlement)
    from seat this show ?thesis
      by (cases rule: seat_cases) (simp_all add: seated_stake, simp_all add: manager_init_def refresh_def)
  qed
  note config_simps = one_validator_def wire_simps as_text_def jfield_def wire_field_defs get_default_def dict_items_def
    get_int_def as_integer_def codec_init_def iterated_def
  have parts: "liftE DaemonWire (text_field ''node_id'' ?c) = Inr ''w''" "load_protocol ?c ''w'' = Inr (protocol_init [] 0)"
    "load_codec ?c = Inr \<lparr>data_shards = 5, parity_shards = 3, total_shards = 8\<rparr>"
    "bindE (get_default ''initial_seals'' (JArr []) ?c) (\<lambda>v.
       bindE (iterated v) (\<lambda>items. foldE (place_seal demo_crypto) items p)) = Inr p"
    "bindE (liftE DaemonWire (jfield ''peers'' ?c)) (\<lambda>v.
       bindE (dict_items v) (\<lambda>entries. foldE read_endpoint entries ())) = Inr ()"
    "liftE DaemonWire (int_field ''bind_port'' ?c) = Inr 7000" "get_int ''max_connections_per_peer'' 64 ?c = Inr 64"
    "get_int ''max_pending_capsules'' 10000 ?c = Inr 10000" for p
    by (simp_all add: load_protocol_def load_codec_def config_simps)
  have "\<exists>s. load_node demo_crypto 10 10 0 ?c blank_store = (Inr s, db') \<and> manager_of s = m"
    by (simp add: load_node_def thenS_def at_store_def parts ll lm k w entry_init_def)
  with calm' stake show ?thesis by blast
qed

text \<open>A day of that node: a request to settle a round, a capsule submitted, garbage, and a shutdown.\<close>

definition a_day :: "node_event list" where
  "a_day = [Hears (finalize_message 0 5), Works (Submit demo_capsule) [], Hears JNull,
     Works (Deliver (GCapsule demo_capsule)) [], Hears (JObj [(''type'', JStr ''SHUTDOWN'')])]"

theorem daemon_starts_again_witness:
  "\<exists>s db' d s' d' k. load_node demo_crypto 10 10 0 (one_validator alice_request) blank_store = (Inr s, db')
     \<and> g_store (vn_gossip (works_on demo_crypto a_day (en_node s))) = Some d
     \<and> load_node demo_crypto 10 10 100 (one_validator alice_request) d = (Inr s', d')
     \<and> m_snapshot (manager_of s') = m_snapshot (manager_of s)
     \<and> settlement (manager_of s') = Some (ledger_sorted k) \<and> audit k"
proof -
  obtain s db' where first: "load_node demo_crypto 10 10 0 (one_validator alice_request) blank_store = (Inr s, db')"
    and calm: "faults db' = []" and stake: "minimum_stake (manager_of s) = 1"
    using one_validator_starts [of alice_request] by blast
  have named: "list_all named (genesis_items (one_validator alice_request))"
    by (simp add: one_validator_items named_def) (simp add: alice_request_def admission_create_def alice_bond_def bond_create_def)
  from first have "g_store (vn_gossip (en_node s)) = Some db'"
    by (elim load_node_steps) (simp add: built_node_def gossip_init_def)
  with calm have "gossip_store (\<lambda>db. faults db = []) (vn_gossip (en_node s))" by (simp add: gossip_store_def)
  from calm_run [OF this, of demo_crypto a_day] obtain d where
    d: "g_store (vn_gossip (works_on demo_crypto a_day (en_node s))) = Some d" "faults d = []"
    by (auto simp: gossip_store_def)
  have "0 < minimum_stake (manager_of s)" using stake by simp
  from daemon_starts_again [OF first _ named this refl d, of 100] obtain i k0 k s' d' where "audit k"
    "load_node demo_crypto 10 10 100 (one_validator alice_request) d = (Inr s', d')"
    "manager_of s' = (manager_of s)\<lparr>settlement := Some (ledger_sorted k)\<rparr>" using blank_ledger by auto
  with first d(1) show ?thesis by auto
qed

theorem daemon_supply_witness:
  "\<exists>s db' l. load_node demo_crypto 10 10 0 (one_validator alice_request) blank_store = (Inr s, db')
     \<and> settlement (sv_manager (vn_services (snd (dispatch demo_crypto (finalize_message 0 5) (en_node s))))) = Some l
     \<and> audit l \<and> total_value l \<le> 10"
proof -
  obtain s db' where first: "load_node demo_crypto 10 10 0 (one_validator alice_request) blank_store = (Inr s, db')"
    and stake: "minimum_stake (manager_of s) = 1"
    using one_validator_starts [of alice_request] by blast
  have "genesis_total (one_validator alice_request) = 10"
    by (simp add: genesis_total_def one_validator_def get_default_def dict_items_def amount_of_def as_integer_def)
  with daemon_supply [OF first blank_ledger, of _ "[finalize_message 0 5]"] stake first show ?thesis by auto
qed

theorem unnamed_bond_blocks_restart_witness:
  "\<exists>s db'. load_node demo_crypto 10 10 0 (one_validator bare_request) blank_store = (Inr s, db')
     \<and> load_node demo_crypto 10 10 0 (one_validator bare_request) db' =
         (Inl (DaemonMembership (MembershipError ''restored admission does not satisfy stake policy'')), db')"
proof -
  obtain s db' where first: "load_node demo_crypto 10 10 0 (one_validator bare_request) blank_store = (Inr s, db')"
    using one_validator_starts [of bare_request] by blast
  have "ar_bond_id bare_request = None" by (simp add: bare_request_def admission_create_def)
  from unnamed_bond_blocks_restart [OF first blank_ledger one_validator_items this] first show ?thesis by blast
qed

end
