(* ===== verification/Json_Text.thy ===== *)
theory Json_Text
  imports Crypto
begin

section \<open>JSON texts: json.dumps and json.loads\<close>

text \<open>
  The text \<open>json.dumps(x, sort_keys=True, separators=(",", ":"))\<close> that crosses the network and the
  reader \<open>json.loads\<close>, the grammar with white space, escapes and numbers written out. A character is
  a code point below 256; a text that needs a larger one is outside the model (\<open>Unrepresentable\<close>).
  What Python prints for the float of a numeral is an argument, \<open>fl\<close>. The limits on recursion
  depth and on the digits of an integer are left out.
\<close>

datatype json_error = Malformed | Unrepresentable | OutOfFuel

subsection \<open>Writing\<close>

definition esc_ascii :: "char \<Rightarrow> string" where
  "esc_ascii c =
     (if c = CHR 0x5C then [CHR 0x5C, CHR 0x5C]
      else if c = CHR 0x22 then [CHR 0x5C, CHR 0x22]
      else if c = CHR 0x08 then [CHR 0x5C, CHR 0x62]
      else if c = CHR 0x0C then [CHR 0x5C, CHR 0x66]
      else if c = CHR 0x0A then [CHR 0x5C, CHR 0x6E]
      else if c = CHR 0x0D then [CHR 0x5C, CHR 0x72]
      else if c = CHR 0x09 then [CHR 0x5C, CHR 0x74]
      else if of_char c < (32::nat) \<or> (126::nat) < of_char c then [CHR 0x5C, CHR 0x75, CHR 0x30, CHR 0x30] @ hex_byte c
      else [c])"

definition text_ascii :: "string \<Rightarrow> string" where
  "text_ascii s = CHR 0x22 # concat (map esc_ascii s) @ [CHR 0x22]"

fun dumps :: "json \<Rightarrow> string" where
  "dumps JNull = ''null''"
| "dumps (JBool b) = (if b then ''true'' else ''false'')"
| "dumps (JInt i) = int_str i"
| "dumps (JFloat s) = s"
| "dumps (JStr s) = text_ascii s"
| "dumps (JArr vs) = CHR 0x5B # join_comma (map dumps vs) @ [CHR 0x5D]"
| "dumps (JObj kvs) =
     CHR 0x7B # join_comma (map (\<lambda>(k, s). text_ascii k @ CHR 0x3A # s)
       (sort_key fst (map (\<lambda>(k, v). (k, dumps v)) kvs))) @ [CHR 0x7D]"

subsection \<open>Reading\<close>

definition skip_space :: "string \<Rightarrow> string" where
  "skip_space = dropWhile (\<lambda>c. c \<in> {CHR 0x20, CHR 0x09, CHR 0x0A, CHR 0x0D})"

definition hex_value :: "char \<Rightarrow> nat option" where
  "hex_value c = (let n = of_char c :: nat in
     if 48 \<le> n \<and> n \<le> 57 then Some (n - 48)
     else if 97 \<le> n \<and> n \<le> 102 then Some (n - 87)
     else if 65 \<le> n \<and> n \<le> 70 then Some (n - 55) else None)"

definition code_point :: "char \<Rightarrow> char \<Rightarrow> char \<Rightarrow> char \<Rightarrow> json_error + char" where
  "code_point a b c d = (case (hex_value a, hex_value b, hex_value c, hex_value d) of
     (Some 0, Some 0, Some m, Some n) \<Rightarrow> Inr (char_of (16 * m + n))
   | (Some _, Some _, Some _, Some _) \<Rightarrow> Inl Unrepresentable
   | _ \<Rightarrow> Inl Malformed)"

definition short_escape :: "char \<Rightarrow> char option" where
  "short_escape c = map_of [(CHR 0x22, CHR 0x22), (CHR 0x5C, CHR 0x5C), (CHR 0x2F, CHR 0x2F), (CHR 0x62, CHR 0x08),
     (CHR 0x66, CHR 0x0C), (CHR 0x6E, CHR 0x0A), (CHR 0x72, CHR 0x0D), (CHR 0x74, CHR 0x09)] c"

definition put_char :: "char \<Rightarrow> json_error + string \<times> string \<Rightarrow> json_error + string \<times> string" where
  "put_char c r = (case r of Inl e \<Rightarrow> Inl e | Inr (s, rest) \<Rightarrow> Inr (c # s, rest))"

text \<open>What follows the opening quote, up to the closing one\<close>

function read_text :: "string \<Rightarrow> json_error + string \<times> string" where
  "read_text s = (case s of
     [] \<Rightarrow> Inl Malformed
   | c # cs \<Rightarrow>
       if c = CHR 0x22 then Inr ([], cs)
       else if c = CHR 0x5C then (case cs of
           [] \<Rightarrow> Inl Malformed
         | e # es \<Rightarrow>
             if e = CHR 0x75 then (case es of
                 p # q # r # t # rest \<Rightarrow> (case code_point p q r t of
                     Inl x \<Rightarrow> Inl x | Inr ch \<Rightarrow> put_char ch (read_text rest))
               | _ \<Rightarrow> Inl Malformed)
             else (case short_escape e of None \<Rightarrow> Inl Malformed | Some ch \<Rightarrow> put_char ch (read_text es)))
       else if of_char c < (32::nat) then Inl Malformed
       else put_char c (read_text cs))"
  by pat_completeness auto
termination by (relation "measure length") auto

declare read_text.simps [simp del]

definition digits_of :: "string \<Rightarrow> string" where
  "digits_of = takeWhile is_digit"

definition digits_value :: "string \<Rightarrow> int" where
  "digits_value ds = fold (\<lambda>c n. 10 * n + (of_char c - 48)) ds 0"

text \<open>\<open>(\.\d+)?\<close> and \<open>([eE][-+]?\d+)?\<close>\<close>

definition fraction_of :: "string \<Rightarrow> string" where
  "fraction_of s = (case s of
     c # cs \<Rightarrow> if c = CHR 0x2E \<and> digits_of cs \<noteq> [] then c # digits_of cs else [] | [] \<Rightarrow> [])"

definition exponent_of :: "string \<Rightarrow> string" where
  "exponent_of s = (case s of
     c # cs \<Rightarrow>
       if c \<in> {CHR 0x65, CHR 0x45}
       then (case cs of
           d # ds \<Rightarrow>
             if d \<in> {CHR 0x2B, CHR 0x2D} then (if digits_of ds \<noteq> [] then c # d # digits_of ds else [])
             else if digits_of cs \<noteq> [] then c # digits_of cs else []
         | [] \<Rightarrow> [])
       else []
   | [] \<Rightarrow> [])"

definition starts_with :: "string \<Rightarrow> string \<Rightarrow> bool" where
  "starts_with p s \<longleftrightarrow> take (length p) s = p"

definition read_number :: "(string \<Rightarrow> string) \<Rightarrow> string \<Rightarrow> json_error + json \<times> string" where
  "read_number fl s =
     (let neg = (s \<noteq> [] \<and> hd s = CHR 0x2D); s1 = (if neg then tl s else s); ds = digits_of s1;
          whole = (if ds \<noteq> [] \<and> hd ds = CHR 0x30 then [CHR 0x30] else ds);
          s2 = drop (length whole) s1; frac = fraction_of s2; s3 = drop (length frac) s2;
          expo = exponent_of s3; s4 = drop (length expo) s3
      in if whole = []
         then (if starts_with ''Infinity'' s1
               then Inr (JFloat (if neg then ''-Infinity'' else ''Infinity''), drop 8 s1) else Inl Malformed)
         else if frac = [] \<and> expo = []
         then Inr (JInt (if neg then - digits_value whole else digits_value whole), s2)
         else Inr (JFloat (fl ((if neg then [CHR 0x2D] else []) @ whole @ frac @ expo)), s4))"

definition read_atom :: "(string \<Rightarrow> string) \<Rightarrow> string \<Rightarrow> json_error + json \<times> string" where
  "read_atom fl s =
     (if starts_with ''null'' s then Inr (JNull, drop 4 s)
      else if starts_with ''true'' s then Inr (JBool True, drop 4 s)
      else if starts_with ''false'' s then Inr (JBool False, drop 5 s)
      else if starts_with ''NaN'' s then Inr (JFloat ''NaN'', drop 3 s)
      else read_number fl s)"

text \<open>The reader spends one unit of fuel per call; \<open>2n + 1\<close> is enough for \<open>n\<close> characters.\<close>

fun read_value :: "nat \<Rightarrow> (string \<Rightarrow> string) \<Rightarrow> string \<Rightarrow> json_error + json \<times> string"
  and read_items :: "nat \<Rightarrow> (string \<Rightarrow> string) \<Rightarrow> json list \<Rightarrow> string \<Rightarrow> json_error + json \<times> string"
  and read_members :: "nat \<Rightarrow> (string \<Rightarrow> string) \<Rightarrow> (string \<times> json) list \<Rightarrow> string \<Rightarrow> json_error + json \<times> string" where
  "read_value 0 fl s = Inl OutOfFuel"
| "read_items 0 fl acc s = Inl OutOfFuel"
| "read_members 0 fl acc s = Inl OutOfFuel"
| "read_value (Suc n) fl s =
     (case s of
        [] \<Rightarrow> Inl Malformed
      | c # cs \<Rightarrow>
          if c = CHR 0x22 then bindE (read_text cs) (\<lambda>(t, rest). Inr (JStr t, rest))
          else if c = CHR 0x5B then
            (case skip_space cs of
               [] \<Rightarrow> Inl Malformed
             | d # ds \<Rightarrow> if d = CHR 0x5D then Inr (JArr [], ds) else read_items n fl [] (d # ds))
          else if c = CHR 0x7B then
            (case skip_space cs of
               [] \<Rightarrow> Inl Malformed
             | d # ds \<Rightarrow> if d = CHR 0x7D then Inr (JObj [], ds) else read_members n fl [] (d # ds))
          else read_atom fl s)"
| "read_items (Suc n) fl acc s =
     bindE (read_value n fl s) (\<lambda>(v, rest).
       case skip_space rest of
         [] \<Rightarrow> Inl Malformed
       | c # cs \<Rightarrow>
           if c = CHR 0x5D then Inr (JArr (acc @ [v]), cs)
           else if c = CHR 0x2C then read_items n fl (acc @ [v]) (skip_space cs)
           else Inl Malformed)"
| "read_members (Suc n) fl acc s =
     (case s of
        [] \<Rightarrow> Inl Malformed
      | q # qs \<Rightarrow>
          if q \<noteq> CHR 0x22 then Inl Malformed
          else bindE (read_text qs) (\<lambda>(k, r1).
            case skip_space r1 of
              [] \<Rightarrow> Inl Malformed
            | c # cs \<Rightarrow>
                if c \<noteq> CHR 0x3A then Inl Malformed
                else bindE (read_value n fl (skip_space cs)) (\<lambda>(v, r2).
                  case skip_space r2 of
                    [] \<Rightarrow> Inl Malformed
                  | d # ds \<Rightarrow>
                      if d = CHR 0x7D then Inr (JObj (AList.update k v acc), ds)
                      else if d = CHR 0x2C then read_members n fl (AList.update k v acc) (skip_space ds)
                      else Inl Malformed)))"

definition loads :: "(string \<Rightarrow> string) \<Rightarrow> string \<Rightarrow> json_error + json" where
  "loads fl s =
     bindE (read_value (2 * length s + 1) fl (skip_space s)) (\<lambda>(v, rest).
       if skip_space rest = [] then Inr v else Inl Malformed)"

subsection \<open>Texts and numbers are read back\<close>

lemma read_text_simps [simp]:
  "read_text (CHR 0x22 # rest) = Inr ([], rest)"
  "read_text (CHR 0x5C # CHR 0x75 # p # q # r # t # rest) =
     (case code_point p q r t of Inl x \<Rightarrow> Inl x | Inr ch \<Rightarrow> put_char ch (read_text rest))"
  "e \<noteq> CHR 0x75 \<Longrightarrow> read_text (CHR 0x5C # e # rest) =
     (case short_escape e of None \<Rightarrow> Inl Malformed | Some ch \<Rightarrow> put_char ch (read_text rest))"
  "c \<noteq> CHR 0x22 \<Longrightarrow> c \<noteq> CHR 0x5C \<Longrightarrow> \<not> of_char c < (32::nat) \<Longrightarrow> read_text (c # rest) = put_char c (read_text rest)"
  by (subst read_text.simps, simp)+

lemma hex_value_digit: "n < 16 \<Longrightarrow> hex_value (hexdigit n) = Some n"
proof -
  have "list_all (\<lambda>n. hex_value (hexdigit n) = Some n) [0..<16]" by code_simp
  then show "n < 16 \<Longrightarrow> hex_value (hexdigit n) = Some n" by (simp add: list_all_iff)
qed

lemma code_point_byte: "code_point (CHR 0x30) (CHR 0x30) (hexdigit (of_char c div 16)) (hexdigit (of_char c mod 16)) = Inr c"
proof -
  have "of_char c div 16 < (16::nat)"
    using nat_of_char_less_256 [of c] by (simp add: div_less_iff_less_mult)
  then show ?thesis
    by (simp add: code_point_def hex_value_digit hex_value_def [of "CHR 0x30"])
qed

lemma read_escaped: "read_text (esc_ascii c @ rest) = put_char c (read_text rest)"
  by (auto simp: esc_ascii_def short_escape_def hex_byte_def code_point_byte)

lemma read_text_ascii: "read_text (concat (map esc_ascii s) @ CHR 0x22 # rest) = Inr (s, rest)"
  by (induction s) (simp_all add: read_escaped put_char_def)

text \<open>What may follow a number\<close>

definition delimited :: "string \<Rightarrow> bool" where
  "delimited r \<longleftrightarrow> (case r of [] \<Rightarrow> True | c # _ \<Rightarrow> \<not> is_digit c \<and> c \<notin> {CHR 0x2E, CHR 0x65, CHR 0x45})"

lemma digits_of_nat: "delimited r \<Longrightarrow> digits_of (nat_str n @ r) = nat_str n"
  unfolding digits_of_def
  by (subst takeWhile_append2) (auto simp: nat_str_digits delimited_def split: list.splits)

lemma digits_value_append: "digits_value (xs @ [c]) = 10 * digits_value xs + (of_char c - 48)"
  by (simp add: digits_value_def)

lemma hexdigit_value: "n < 10 \<Longrightarrow> of_char (hexdigit n) - 48 = int n"
proof -
  have "list_all (\<lambda>n. of_char (hexdigit n) - 48 = int n) [0..<10]" by code_simp
  then show "n < 10 \<Longrightarrow> of_char (hexdigit n) - 48 = int n" by (simp add: list_all_iff)
qed

lemma digits_value_nat: "digits_value (nat_str n) = int n"
proof (induction n rule: nat_str.induct)
  case (1 n)
  show ?case
  proof (cases "n < 10")
    case True
    then have "nat_str n = [] @ [hexdigit n]" by (simp add: nat_str.simps [of n])
    then show ?thesis using True hexdigit_value [of n]
      by (simp only: digits_value_append) (simp add: digits_value_def)
  next
    case False
    then have "nat_str n = nat_str (n div 10) @ [hexdigit (n mod 10)]" by (simp add: nat_str.simps [of n])
    moreover have "int n = 10 * int (n div 10) + int (n mod 10)" by presburger
    ultimately show ?thesis using False 1 hexdigit_value [of "n mod 10"] by (simp add: digits_value_append)
  qed
qed

lemma nat_str_zero: "hd (nat_str n) = CHR 0x30 \<Longrightarrow> n = 0"
proof (induction n rule: nat_str.induct)
  case (1 n)
  have "list_all (\<lambda>n. hexdigit n \<noteq> CHR 0x30) [1..<10]" by code_simp
  then have h: "hexdigit n = CHR 0x30 \<Longrightarrow> n < 10 \<Longrightarrow> n = 0" by (fastforce simp: list_all_iff)
  show ?case
  proof (cases "n < 10")
    case True
    with 1 h show ?thesis by (simp add: nat_str.simps [of n])
  next
    case False
    then have "nat_str n = nat_str (n div 10) @ [hexdigit (n mod 10)]" by (simp add: nat_str.simps [of n])
    with 1 False have "n div 10 = 0" by simp
    with False show ?thesis by simp
  qed
qed

lemma read_nat:
  assumes "delimited r"
  shows "read_number fl (nat_str n @ r) = Inr (JInt (int n), r)"
    "read_number fl (CHR 0x2D # nat_str n @ r) = Inr (JInt (- int n), r)"
proof -
  have hd: "hd (nat_str n @ r) \<noteq> CHR 0x2D"
    using hd_nat_str [of n] by (cases "nat_str n") (auto simp: is_digit_def)
  have tail: "fraction_of r = []" "exponent_of r = []"
    using assms by (auto simp: fraction_of_def exponent_of_def delimited_def split: list.splits)
  have n0: "nat_str 0 = ''0''" by (simp add: nat_str.simps [of 0] hexdigit_def)
  have v0: "digits_value ''0'' = 0" by (simp add: digits_value_def)
  have d0: "digits_of (CHR 0x30 # r) = ''0''" using digits_of_nat [OF assms, of 0] by (simp add: n0)
  have dn: "digits_of (nat_str n @ r) = nat_str n" "hd (nat_str n) \<noteq> CHR 0x30" if "n \<noteq> 0"
    using digits_of_nat [OF assms] nat_str_zero that by blast+
  show "read_number fl (nat_str n @ r) = Inr (JInt (int n), r)"
    using hd d0 dn by (cases "n = 0") (simp_all add: read_number_def Let_def tail n0 v0 digits_value_nat)
  show "read_number fl (CHR 0x2D # nat_str n @ r) = Inr (JInt (- int n), r)"
    using d0 dn by (cases "n = 0") (simp_all add: read_number_def Let_def tail n0 v0 digits_value_nat)
qed

lemma read_int: "delimited r \<Longrightarrow> read_number fl (int_str i @ r) = Inr (JInt i, r)"
  using read_nat [of r fl "nat i"] read_nat [of r fl "nat (- i)"] by (simp add: int_str_def)

subsection \<open>Values are read back\<close>

text \<open>A value of Python: no object has a key twice.\<close>

fun distinct_keys :: "json \<Rightarrow> bool" where
  "distinct_keys (JArr vs) = (\<forall>v \<in> set vs. distinct_keys v)"
| "distinct_keys (JObj kvs) = (distinct (map fst kvs) \<and> (\<forall>p \<in> set kvs. distinct_keys (snd p)))"
| "distinct_keys v = True"

definition pair_text :: "string \<times> json \<Rightarrow> string" where
  "pair_text p = text_ascii (fst p) @ CHR 0x3A # dumps (snd p)"

definition norm_pair :: "string \<times> json \<Rightarrow> string \<times> json" where
  "norm_pair p = (fst p, json_norm (snd p))"

lemma dumps_obj:
  "dumps (JObj kvs) = CHR 0x7B # join_comma (map pair_text (sort_key fst kvs)) @ [CHR 0x7D]"
  unfolding dumps.simps sort_key_map_pair map_map comp_def pair_text_def [abs_def]
  by (simp add: case_prod_unfold)

lemma norm_obj: "json_norm (JObj kvs) = JObj (map norm_pair (sort_key fst kvs))"
  unfolding json_norm.simps sort_key_map_pair norm_pair_def [abs_def] by (simp add: case_prod_unfold)

definition starter :: "string \<Rightarrow> bool" where
  "starter s \<longleftrightarrow> (case s of [] \<Rightarrow> False | c # _ \<Rightarrow>
     c \<notin> {CHR 0x20, CHR 0x09, CHR 0x0A, CHR 0x0D, CHR 0x5D, CHR 0x7D})"

lemma starter_append [simp]: "starter s \<Longrightarrow> starter (s @ r)"
  by (auto simp: starter_def split: list.splits)

lemma starter_skip [simp]: "starter s \<Longrightarrow> skip_space s = s"
  by (auto simp: starter_def skip_space_def split: list.splits)

lemma int_str_start: "\<exists>c cs. int_str i = c # cs \<and> (c = CHR 0x2D \<or> is_digit c)"
  using hd_int_str [of i] int_str_ne [of i] by (cases "int_str i") auto

lemma digit_chars: "is_digit c \<Longrightarrow> starter (c # cs) \<and> c \<notin> {CHR 0x22, CHR 0x5B, CHR 0x7B}"
  by (auto simp: is_digit_def starter_def)

lemma dumps_starter: "float_free v \<Longrightarrow> starter (dumps v)"
proof (cases v)
  case (JInt i)
  then show ?thesis using int_str_start [of i] digit_chars by (auto simp: starter_def)
qed (auto simp: starter_def text_ascii_def)

lemma join_starter: "xs \<noteq> [] \<Longrightarrow> starter (hd xs) \<Longrightarrow> starter (join_comma xs)"
  by (cases xs rule: join_comma.cases) simp_all

lemma delimited_simps [simp]:
  "delimited []" "delimited (CHR 0x2C # r)" "delimited (CHR 0x5D # r)" "delimited (CHR 0x7D # r)"
  by (simp_all add: delimited_def is_digit_def)

lemma skip_marks [simp]:
  "skip_space [] = []" "skip_space (CHR 0x2C # r) = CHR 0x2C # r" "skip_space (CHR 0x5D # r) = CHR 0x5D # r"
  "skip_space (CHR 0x7D # r) = CHR 0x7D # r" "skip_space (CHR 0x3A # r) = CHR 0x3A # r"
  by (simp_all add: skip_space_def)

definition reads_back :: "(string \<Rightarrow> string) \<Rightarrow> json \<Rightarrow> bool" where
  "reads_back fl v \<longleftrightarrow> starter (dumps v) \<and> (\<forall>f r. delimited r \<longrightarrow> 2 * length (dumps v) \<le> f \<longrightarrow>
     read_value f fl (dumps v @ r) = Inr (json_norm v, r))"

lemma read_items_back:
  assumes "vs \<noteq> []" "\<forall>v \<in> set vs. reads_back fl v" "2 * length (join_comma (map dumps vs)) + 1 \<le> f"
  shows "read_items f fl acc (join_comma (map dumps vs) @ CHR 0x5D # r) = Inr (JArr (acc @ map json_norm vs), r)"
  using assms
proof (induction vs arbitrary: f acc)
  case (Cons v vs)
  obtain n where f: "f = Suc n" using Cons.prems(3) by (cases f) auto
  have v: "delimited x \<Longrightarrow> 2 * length (dumps v) \<le> n \<Longrightarrow> read_value n fl (dumps v @ x) = Inr (json_norm v, x)" for x
    using Cons.prems(2) by (simp add: reads_back_def)
  show ?case
  proof (cases vs)
    case Nil
    with Cons.prems f v [of "CHR 0x5D # r"] show ?thesis by simp
  next
    case (Cons w ws)
    let ?rest = "join_comma (map dumps vs)"
    have joined: "join_comma (map dumps (v # vs)) = dumps v @ CHR 0x2C # ?rest" using Cons by simp
    have "starter ?rest" using Cons Cons.prems(2) by (intro join_starter) (simp_all add: reads_back_def)
    moreover have "read_items n fl (acc @ [json_norm v]) (?rest @ CHR 0x5D # r)
        = Inr (JArr ((acc @ [json_norm v]) @ map json_norm vs), r)"
      using Cons Cons.prems f joined by (intro Cons.IH) simp_all
    ultimately show ?thesis
      using Cons.prems(3) f joined v [of "CHR 0x2C # ?rest @ CHR 0x5D # r"] by simp
  qed
qed simp

lemma update_new: "k \<notin> fst ` set acc \<Longrightarrow> AList.update k v acc = acc @ [(k, v)]"
  by (induction acc) auto

lemma read_member:
  assumes "starter (dumps (snd p))" "read_value n fl (dumps (snd p) @ x) = Inr (v, x)"
  shows "read_members (Suc n) fl acc (pair_text p @ x) = (case skip_space x of
       [] \<Rightarrow> Inl Malformed
     | d # ds \<Rightarrow>
         if d = CHR 0x7D then Inr (JObj (AList.update (fst p) v acc), ds)
         else if d = CHR 0x2C then read_members n fl (AList.update (fst p) v acc) (skip_space ds)
         else Inl Malformed)"
  using assms by (simp add: pair_text_def text_ascii_def read_text_ascii)

lemma read_members_back:
  assumes "ps \<noteq> []" "\<forall>p \<in> set ps. reads_back fl (snd p)" "2 * length (join_comma (map pair_text ps)) + 1 \<le> f"
    and "distinct (map fst acc @ map fst ps)"
  shows "read_members f fl acc (join_comma (map pair_text ps) @ CHR 0x7D # r) = Inr (JObj (acc @ map norm_pair ps), r)"
  using assms
proof (induction ps arbitrary: f acc)
  case (Cons p ps)
  obtain n where f: "f = Suc n" using Cons.prems(3) by (cases f) auto
  have v: "delimited x \<Longrightarrow> 2 * length (dumps (snd p)) \<le> n \<Longrightarrow>
      read_value n fl (dumps (snd p) @ x) = Inr (json_norm (snd p), x)" for x
    using Cons.prems(2) by (simp add: reads_back_def)
  have first: "starter (dumps (snd p))" using Cons.prems(2) by (simp add: reads_back_def)
  have acc: "AList.update (fst p) (json_norm (snd p)) acc = acc @ [norm_pair p]"
    using Cons.prems(4) by (simp add: update_new norm_pair_def)
  show ?case
  proof (cases ps)
    case Nil
    have "2 * length (dumps (snd p)) \<le> n" using Nil Cons.prems(3) f by (simp add: pair_text_def)
    then have "read_value n fl (dumps (snd p) @ CHR 0x7D # r) = Inr (json_norm (snd p), CHR 0x7D # r)" by (simp add: v)
    from read_member [OF first this, of acc] show ?thesis using Nil f acc by simp
  next
    case (Cons w ws)
    let ?rest = "join_comma (map pair_text ps)"
    have joined: "join_comma (map pair_text (p # ps)) = pair_text p @ CHR 0x2C # ?rest" using Cons by simp
    have "starter ?rest"
      using Cons by (intro join_starter) (simp_all add: pair_text_def text_ascii_def starter_def)
    moreover have "read_members n fl (acc @ [norm_pair p]) (?rest @ CHR 0x7D # r)
        = Inr (JObj ((acc @ [norm_pair p]) @ map norm_pair ps), r)"
      using Cons Cons.prems f joined by (intro Cons.IH) (simp_all add: norm_pair_def)
    moreover have "2 * length (pair_text p) \<le> n" using Cons.prems(3) unfolding joined f by simp
    then have "2 * length (dumps (snd p)) \<le> n" by (simp add: pair_text_def)
    then have "read_value n fl (dumps (snd p) @ CHR 0x2C # ?rest @ CHR 0x7D # r)
        = Inr (json_norm (snd p), CHR 0x2C # ?rest @ CHR 0x7D # r)" by (simp add: v)
    note read_member [OF first this, of acc]
    ultimately show ?thesis unfolding joined f using acc by simp
  qed
qed simp

lemma atom_simps:
  "read_atom fl (''null'' @ r) = Inr (JNull, r)" "read_atom fl (''true'' @ r) = Inr (JBool True, r)"
  "read_atom fl (''false'' @ r) = Inr (JBool False, r)"
  by (simp_all add: read_atom_def starts_with_def)

lemma read_atom_int: "delimited r \<Longrightarrow> read_atom fl (int_str i @ r) = Inr (JInt i, r)"
  using int_str_start [of i] read_int [of r fl i] by (auto simp: read_atom_def starts_with_def is_digit_def)

lemma read_atom_value:
  "read_atom fl (c # cs) = Inr (v, r) \<Longrightarrow> c \<notin> {CHR 0x22, CHR 0x5B, CHR 0x7B} \<Longrightarrow> 0 < f \<Longrightarrow>
     read_value f fl (c # cs) = Inr (v, r)"
  by (cases f) simp_all

lemma atoms_back:
  "reads_back fl JNull" "reads_back fl (JBool b)" "reads_back fl (JInt i)" "reads_back fl (JStr s)"
proof -
  show "reads_back fl JNull" "reads_back fl (JBool b)"
    using dumps_starter [of JNull] dumps_starter [of "JBool b"] atom_simps [of fl]
    by (auto simp: reads_back_def intro!: read_atom_value)
  obtain c cs where c: "int_str i = c # cs" "c = CHR 0x2D \<or> is_digit c" using int_str_start by blast
  then have "c \<notin> {CHR 0x22, CHR 0x5B, CHR 0x7B}" using digit_chars by auto
  then have "read_value f fl (int_str i @ r) = Inr (JInt i, r)" if "delimited r" "0 < f" for f r
    using read_atom_int [OF that(1), of fl i] that(2) unfolding c by (simp add: read_atom_value)
  then show "reads_back fl (JInt i)" using dumps_starter [of "JInt i"] c by (auto simp: reads_back_def)
  have "read_value f fl (text_ascii s @ r) = Inr (JStr s, r)" if "0 < f" for f r
    using that by (cases f) (simp_all add: text_ascii_def read_text_ascii)
  then show "reads_back fl (JStr s)"
    using dumps_starter [of "JStr s"] by (auto simp: reads_back_def text_ascii_def)
qed

lemma dumps_reads_back: "float_free v \<Longrightarrow> distinct_keys v \<Longrightarrow> reads_back fl v"
proof (induction v)
  case (JArr vs)
  have "read_value f fl (dumps (JArr vs) @ r) = Inr (json_norm (JArr vs), r)"
    if f: "2 * length (dumps (JArr vs)) \<le> f" for f r
  proof -
    obtain n where n: "f = Suc n" using f by (cases f) auto
    show ?thesis
    proof (cases vs)
      case Nil
      with n show ?thesis by simp
    next
      case (Cons w ws)
      let ?body = "join_comma (map dumps vs)"
      have elems: "\<forall>v \<in> set vs. reads_back fl v" using JArr by simp
      then have fresh: "starter (?body @ CHR 0x5D # r)"
        using Cons by (intro starter_append join_starter) (simp_all add: reads_back_def)
      have "read_items n fl [] (?body @ CHR 0x5D # r) = Inr (JArr ([] @ map json_norm vs), r)"
        using f n Cons elems by (intro read_items_back) simp_all
      with n fresh show ?thesis
        by (cases "?body @ CHR 0x5D # r") (auto simp: starter_def)
    qed
  qed
  then show ?case using JArr.prems(1) dumps_starter [of "JArr vs"] unfolding reads_back_def by blast
next
  case (JObj kvs)
  have "read_value f fl (dumps (JObj kvs) @ r) = Inr (json_norm (JObj kvs), r)"
    if f: "2 * length (dumps (JObj kvs)) \<le> f" for f r
  proof -
    let ?ps = "sort_key fst kvs"
    obtain n where n: "f = Suc n" using f by (cases f) auto
    show ?thesis
    proof (cases ?ps)
      case Nil
      with n show ?thesis by (simp add: dumps_obj norm_obj del: dumps.simps json_norm.simps)
    next
      case (Cons w ws)
      let ?body = "join_comma (map pair_text ?ps)"
      have "\<forall>p \<in> set kvs. reads_back fl (snd p)"
      proof
        fix p assume p: "p \<in> set kvs"
        have "snd p \<in> Basic_BNFs.snds p" by (cases p) (simp add: prod_set_simps)
        with JObj.IH [OF p] JObj.prems p show "reads_back fl (snd p)" by simp
      qed
      then have elems: "\<forall>p \<in> set ?ps. reads_back fl (snd p)" by simp
      have fresh: "starter (?body @ CHR 0x7D # r)"
        using Cons by (intro starter_append join_starter) (simp_all add: pair_text_def text_ascii_def starter_def)
      have "distinct (map fst ?ps)" using JObj.prems by (simp add: map_sort_key_id)
      then have "read_members n fl [] (?body @ CHR 0x7D # r) = Inr (JObj ([] @ map norm_pair ?ps), r)"
        using f n Cons elems by (intro read_members_back) (simp_all add: dumps_obj del: dumps.simps)
      with n fresh show ?thesis
        by (cases "?body @ CHR 0x7D # r") (auto simp: starter_def dumps_obj norm_obj simp del: dumps.simps json_norm.simps)
    qed
  qed
  then show ?case using JObj.prems(1) dumps_starter [of "JObj kvs"] unfolding reads_back_def by blast
qed (simp_all add: atoms_back)

lemma loads_dumps: "float_free v \<Longrightarrow> distinct_keys v \<Longrightarrow> loads fl (dumps v) = Inr (json_norm v)"
  using dumps_reads_back [of v fl] unfolding reads_back_def loads_def
  by (auto dest!: spec [of _ "2 * length (dumps v) + 1"] spec [of _ "[]"])

subsection \<open>The fuel is enough\<close>

lemma put_char_Inr: "put_char c x = Inr (t, r) \<longleftrightarrow> (\<exists>t'. x = Inr (t', r) \<and> t = c # t')"
  by (auto simp: put_char_def split: sum.splits)

text \<open>What \<open>read_text\<close> reads next\<close>

lemma read_text_step:
  assumes "read_text s = Inr (t, r)"
  obtains cs where "s = CHR 0x22 # cs" "r = cs"
  | s' t' where "length s' < length s" "read_text s' = Inr (t', r)"
proof (cases s)
  case Nil
  with assms show ?thesis by (simp add: read_text.simps)
next
  case (Cons c cs)
  consider "c = CHR 0x22" | "c = CHR 0x5C" | "c \<noteq> CHR 0x22" "c \<noteq> CHR 0x5C" by blast
  then show ?thesis
  proof cases
    case 1
    with assms Cons that(1) show ?thesis by simp
  next
    case 2
    with assms Cons obtain e es where es: "cs = e # es" by (cases cs) (simp_all add: read_text.simps [of "[_]"])
    show ?thesis
    proof (cases "e = CHR 0x75")
      case True
      with assms Cons 2 es have "read_text (CHR 0x5C # CHR 0x75 # es) = Inr (t, r)" by simp
      then obtain p q u w rest ch t' where "es = p # q # u # w # rest" "read_text rest = Inr (t', r)"
        by (subst (asm) read_text.simps) (auto simp: put_char_Inr split: list.splits sum.splits)
      with that(2) [of rest t'] Cons es show ?thesis by simp
    next
      case False
      with assms Cons 2 es obtain t' where "read_text es = Inr (t', r)"
        by (auto simp: put_char_Inr split: option.splits)
      with that(2) [of es t'] Cons es show ?thesis by simp
    qed
  next
    case 3
    with assms Cons obtain t' where "read_text cs = Inr (t', r)"
      by (subst (asm) read_text.simps) (auto simp: put_char_Inr split: if_splits)
    with that(2) [of cs t'] Cons show ?thesis by simp
  qed
qed

lemma read_text_length: "read_text s = Inr (t, r) \<Longrightarrow> length r < length s"
proof (induction s arbitrary: t rule: measure_induct_rule [of length])
  case (less s)
  from less.prems show ?case
  proof (cases rule: read_text_step)
    case (2 s' t')
    with less.IH [OF this] show ?thesis by simp
  qed simp
qed

lemma drop_shorter: "s \<noteq> [] \<Longrightarrow> k \<noteq> 0 \<Longrightarrow> length (drop k s) < length s"
  by (cases s) auto

lemma read_number_length:
  assumes "read_number fl s = Inr (v, r)"
  shows "length r < length s"
proof -
  define s1 where "s1 = (if s \<noteq> [] \<and> hd s = CHR 0x2D then tl s else s)"
  define ds where "ds = digits_of s1"
  define whole where "whole = (if ds \<noteq> [] \<and> hd ds = CHR 0x30 then [CHR 0x30] else ds)"
  have le: "length s1 \<le> length s" by (simp add: s1_def)
  show ?thesis
  proof (cases "whole = []")
    case True
    with assms have "starts_with ''Infinity'' s1" "r = drop 8 s1"
      by (auto simp: read_number_def Let_def s1_def ds_def whole_def split: if_splits)
    moreover from this(1) have "s1 \<noteq> []" by (auto simp: starts_with_def)
    ultimately have "length r < length s1" using drop_shorter [of s1 8] by simp
    with le show ?thesis by simp
  next
    case False
    then have "s1 \<noteq> []" by (auto simp: whole_def ds_def digits_of_def split: if_splits)
    let ?s2 = "drop (length whole) s1"
    let ?s3 = "drop (length (fraction_of ?s2)) ?s2"
    from False assms have "r = ?s2 \<or> r = drop (length (exponent_of ?s3)) ?s3"
      unfolding read_number_def Let_def s1_def [symmetric] ds_def [symmetric] whole_def [symmetric]
      by (simp split: if_splits)
    then have "length r \<le> length ?s2" by auto
    with drop_shorter [OF \<open>s1 \<noteq> []\<close>, of "length whole"] False le show ?thesis by simp
  qed
qed

lemma read_atom_length:
  assumes "read_atom fl s = Inr (v, r)"
  shows "length r < length s"
proof (cases "s = []")
  case True
  with assms show ?thesis
    by (simp add: read_atom_def starts_with_def read_number_def digits_of_def)
next
  case False
  with assms read_number_length [of fl s v r] show ?thesis
    by (auto simp: read_atom_def split: if_splits)
qed

lemma skip_shorter: "length (skip_space s) \<le> length s"
  by (simp add: skip_space_def length_dropWhile_le)

lemma skip_Cons: "skip_space s = c # cs \<Longrightarrow> length cs < length s"
  using skip_shorter [of s] by simp

text \<open>Every reader leaves less than it was given.\<close>

lemma readers_length:
  "(\<forall>s v r. read_value f fl s = Inr (v, r) \<longrightarrow> length r < length s)
   \<and> (\<forall>acc s v r. read_items f fl acc s = Inr (v, r) \<longrightarrow> length r < length s)
   \<and> (\<forall>mem s v r. read_members f fl mem s = Inr (v, r) \<longrightarrow> length r < length s)"
proof (induction f)
  case (Suc n)
  then have V: "\<And>s v r. read_value n fl s = Inr (v, r) \<Longrightarrow> length r < length s"
    and I: "\<And>acc s v r. read_items n fl acc s = Inr (v, r) \<Longrightarrow> length r < length s"
    and M: "\<And>mem s v r. read_members n fl mem s = Inr (v, r) \<Longrightarrow> length r < length s" by blast+
  have "length r < length s" if call: "read_value (Suc n) fl s = Inr (v, r)" for s v r
  proof (cases s)
    case Nil
    with call show ?thesis by simp
  next
    case (Cons c cs)
    consider "c = CHR 0x22" | d ds where "c \<in> {CHR 0x5B, CHR 0x7B}" "skip_space cs = d # ds"
      | "c \<in> {CHR 0x5B, CHR 0x7B}" "skip_space cs = []" | "c \<notin> {CHR 0x22, CHR 0x5B, CHR 0x7B}"
      by (cases "skip_space cs") auto
    then show ?thesis
    proof cases
      case 1
      with call Cons read_text_length [of cs] show ?thesis by (auto simp: bindE_Inr_iff)
    next
      case 2
      with call Cons have "r = ds \<or> read_items n fl [] (d # ds) = Inr (v, r) \<or> read_members n fl [] (d # ds) = Inr (v, r)"
        by (auto split: if_splits)
      then have "length r < length (d # ds)" using I M by fastforce
      with skip_shorter [of cs] 2 Cons show ?thesis by simp
    next
      case 3
      with call Cons show ?thesis by auto
    next
      case 4
      with call Cons read_atom_length [of fl s v r] show ?thesis by auto
    qed
  qed
  moreover have "length r < length s" if call: "read_items (Suc n) fl acc s = Inr (v, r)" for acc s v r
  proof -
    from call obtain w rest where w: "read_value n fl s = Inr (w, rest)" by (auto simp: bindE_Inr_iff)
    with call obtain c cs where cs: "skip_space rest = c # cs" by (cases "skip_space rest") auto
    from call w cs have "r = cs \<or> read_items n fl (acc @ [w]) (skip_space cs) = Inr (v, r)" by (auto split: if_splits)
    then have "length r \<le> length cs" using I skip_shorter [of cs] by fastforce
    with V [OF w] skip_Cons [OF cs] show ?thesis by simp
  qed
  moreover have "length r < length s" if call: "read_members (Suc n) fl mem s = Inr (v, r)" for mem s v r
  proof -
    from call obtain qs where s: "s = CHR 0x22 # qs" by (auto split: list.splits if_splits)
    with call obtain k r1 where k: "read_text qs = Inr (k, r1)" by (auto simp: bindE_Inr_iff)
    with s call obtain cs where cs: "skip_space r1 = CHR 0x3A # cs"
      by (cases "skip_space r1") (auto split: if_splits)
    with s k call obtain w r2 where w: "read_value n fl (skip_space cs) = Inr (w, r2)"
      by (auto simp: bindE_Inr_iff)
    with s k cs call obtain d ds where ds: "skip_space r2 = d # ds" by (cases "skip_space r2") auto
    from call s k cs w ds have "r = ds \<or> read_members n fl (AList.update k w mem) (skip_space ds) = Inr (v, r)"
      by (auto split: if_splits)
    then have "length r \<le> length ds" using M skip_shorter [of ds] by fastforce
    with read_text_length [OF k] skip_Cons [OF cs] V [OF w] skip_shorter [of cs] skip_Cons [OF ds] s show ?thesis
      by simp
  qed
  ultimately show ?case by blast
qed simp

lemma no_fuel_text: "read_text s \<noteq> Inl OutOfFuel"
proof (induction s rule: measure_induct_rule [of length])
  case (less s)
  have put: "put_char c (read_text x) \<noteq> Inl OutOfFuel" if "length x < length s" for c x
    using less [OF that] by (auto simp: put_char_def split: sum.splits)
  have "code_point p q u w \<noteq> Inl OutOfFuel" for p q u w
    by (auto simp: code_point_def split: option.splits nat.splits)
  with put show ?case
    by (subst read_text.simps) (auto split: list.splits sum.splits option.splits if_splits)
qed

lemma no_fuel_atom: "read_atom fl s \<noteq> Inl OutOfFuel"
  by (simp add: read_atom_def read_number_def Let_def)

lemma bindE_not_Inl: "r \<noteq> Inl e \<Longrightarrow> (\<And>a. r = Inr a \<Longrightarrow> f a \<noteq> Inl e) \<Longrightarrow> bindE r f \<noteq> Inl e"
  by (cases r) simp_all

lemma fuel_enough:
  "(\<forall>s. 2 * length s < f \<longrightarrow> read_value f fl s \<noteq> Inl OutOfFuel)
   \<and> (\<forall>acc s. 2 * length s + 1 < f \<longrightarrow> read_items f fl acc s \<noteq> Inl OutOfFuel)
   \<and> (\<forall>mem s. 2 * length s + 1 < f \<longrightarrow> read_members f fl mem s \<noteq> Inl OutOfFuel)"
proof (induction f)
  case (Suc n)
  then have V: "\<And>s. 2 * length s < n \<Longrightarrow> read_value n fl s \<noteq> Inl OutOfFuel"
    and I: "\<And>acc s. 2 * length s + 1 < n \<Longrightarrow> read_items n fl acc s \<noteq> Inl OutOfFuel"
    and M: "\<And>mem s. 2 * length s + 1 < n \<Longrightarrow> read_members n fl mem s \<noteq> Inl OutOfFuel" by blast+
  have len: "\<And>s v r. read_value n fl s = Inr (v, r) \<Longrightarrow> length r < length s" using readers_length by blast
  have "read_value (Suc n) fl s \<noteq> Inl OutOfFuel" if f: "2 * length s < Suc n" for s
  proof (cases s)
    case (Cons c cs)
    have inner: "2 * length (d # ds) + 1 < n" if "skip_space cs = d # ds" for d ds
      using f Cons skip_shorter [of cs] that by simp
    have "bindE (read_text cs) (\<lambda>(t, rest). Inr (JStr t, rest)) \<noteq> Inl OutOfFuel"
      by (rule bindE_not_Inl [OF no_fuel_text]) auto
    then show ?thesis
      using Cons I [OF inner] M [OF inner] no_fuel_atom [of fl s] by (auto split: list.splits)
  qed simp
  moreover have "read_items (Suc n) fl acc s \<noteq> Inl OutOfFuel" if f: "2 * length s + 1 < Suc n" for acc s
    unfolding read_value.simps read_items.simps
  proof (rule bindE_not_Inl, rule V)
    fix a assume a: "read_value n fl s = Inr a"
    obtain w rest where wr: "a = (w, rest)" by fastforce
    have "2 * length (skip_space cs) + 1 < n" if "skip_space rest = c # cs" for c cs
      using len [of s w rest] a wr skip_Cons [OF that] skip_shorter [of cs] f by simp
    with I show "(case a of (v, rest) \<Rightarrow> case skip_space rest of
         [] \<Rightarrow> Inl Malformed
       | c # cs \<Rightarrow>
           if c = CHR 0x5D then Inr (JArr (acc @ [v]), cs)
           else if c = CHR 0x2C then read_items n fl (acc @ [v]) (skip_space cs)
           else Inl Malformed) \<noteq> Inl OutOfFuel"
      unfolding wr by (auto split: list.splits)
  qed (use f in simp)
  moreover have "read_members (Suc n) fl mem s \<noteq> Inl OutOfFuel" if f: "2 * length s + 1 < Suc n" for mem s
  proof (cases s)
    case (Cons q qs)
    have step: "bindE (read_value n fl (skip_space cs)) (\<lambda>(v, r2). case skip_space r2 of
          [] \<Rightarrow> Inl Malformed
        | d # ds \<Rightarrow>
            if d = CHR 0x7D then Inr (JObj (AList.update k v mem), ds)
            else if d = CHR 0x2C then read_members n fl (AList.update k v mem) (skip_space ds)
            else Inl Malformed) \<noteq> Inl OutOfFuel"
      if "read_text qs = Inr (k, r1)" "skip_space r1 = c # cs" for k r1 c cs
    proof (rule bindE_not_Inl, rule V)
      have shorter: "length (skip_space cs) + 1 < length qs + 1"
        using read_text_length [OF that(1)] skip_Cons [OF that(2)] skip_shorter [of cs] by simp
      then show "2 * length (skip_space cs) < n" using f Cons by simp
      fix a assume a: "read_value n fl (skip_space cs) = Inr a"
      obtain w r2 where wr: "a = (w, r2)" by fastforce
      have "2 * length (skip_space ds) + 1 < n" if "skip_space r2 = d # ds" for d ds
        using len [of "skip_space cs" w r2] a wr skip_Cons [OF that] skip_shorter [of ds] shorter f Cons by simp
      with M show "(case a of (v, r2) \<Rightarrow> case skip_space r2 of
          [] \<Rightarrow> Inl Malformed
        | d # ds \<Rightarrow>
            if d = CHR 0x7D then Inr (JObj (AList.update k v mem), ds)
            else if d = CHR 0x2C then read_members n fl (AList.update k v mem) (skip_space ds)
            else Inl Malformed) \<noteq> Inl OutOfFuel"
        unfolding wr by (auto split: list.splits)
    qed
    have "bindE (read_text qs) g \<noteq> Inl OutOfFuel"
      if "\<And>k r1. read_text qs = Inr (k, r1) \<Longrightarrow> g (k, r1) \<noteq> Inl OutOfFuel" for g :: "string \<times> string \<Rightarrow> json_error + json \<times> string"
      using that by (intro bindE_not_Inl [OF no_fuel_text]) auto
    with step Cons show ?thesis by (auto split: list.splits)
  qed simp
  ultimately show ?case by blast
qed simp

lemma loads_fuel:
  "loads fl s \<noteq> Inl OutOfFuel"
proof -
  have "read_value (2 * length s + 1) fl (skip_space s) \<noteq> Inl OutOfFuel"
    using fuel_enough [of "2 * length s + 1" fl] skip_shorter [of s] by (metis less_Suc_eq_le mult_le_mono2 Suc_eq_plus1)
  then show ?thesis unfolding loads_def by (rule bindE_not_Inl) (auto split: if_splits)
qed

end
