(* ===== verification/Frames.thy ===== *)
theory Frames
  imports Json_Text Node_Entry "HOL-Library.Word"
begin

section \<open>Frames on a stream (mosaic/network.py, ccd_nexus/network.py)\<close>

text \<open>
  \<open>write_frame\<close> and \<open>read_frame\<close> of both packages: four bytes of length, big endian, as
  \<open>struct.pack("!I", n)\<close> writes a 32-bit word, and the JSON text. A stream is the bytes that arrive
  until its end; a character is a byte. \<open>payload.decode("utf-8")\<close> is written out for code points
  below 256.
\<close>

datatype frame_error = IncompleteRead | InvalidLength | InvalidText | TooLarge | OutsideModel

definition max_frame :: nat where
  "max_frame = 4 * 1024 * 1024"

subsection \<open>Length fields\<close>

definition pack_word :: "32 word \<Rightarrow> string" where
  "pack_word w = map (\<lambda>k. char_of (unat (drop_bit (8 * k) w) mod 256)) [3, 2, 1, 0]"

definition unpack_word :: "string \<Rightarrow> 32 word" where
  "unpack_word s = fold (\<lambda>c w. push_bit 8 w + word_of_nat (of_char c)) s 0"

subsection \<open>Text\<close>

text \<open>Two bytes \<open>110000xx 10xxxxxx\<close> are a code point from 128 to 255; longer forms are larger.\<close>

fun decode_utf8 :: "string \<Rightarrow> frame_error + string" where
  "decode_utf8 [] = Inr []"
| "decode_utf8 [c] = (if of_char c < (128::nat) then Inr [c] else Inl InvalidText)"
| "decode_utf8 (c # d # cs) =
     (let n = of_char c :: nat; m = of_char d :: nat in
      if n < 128 then bindE (decode_utf8 (d # cs)) (\<lambda>t. Inr (c # t))
      else if n \<in> {194, 195} \<and> 128 \<le> m \<and> m < 192
      then bindE (decode_utf8 cs) (\<lambda>t. Inr (char_of ((n - 192) * 64 + (m - 128)) # t))
      else if 196 \<le> n \<and> n < 245 then Inl OutsideModel
      else Inl InvalidText)"

definition read_payload :: "(string \<Rightarrow> string) \<Rightarrow> string \<Rightarrow> frame_error + json" where
  "read_payload fl payload = bindE (decode_utf8 payload) (\<lambda>t.
     case loads fl t of
       Inr v \<Rightarrow> Inr v | Inl Unrepresentable \<Rightarrow> Inl OutsideModel | Inl _ \<Rightarrow> Inl InvalidText)"

subsection \<open>Frames\<close>

text \<open>\<open>readexactly(n)\<close>\<close>

definition read_exactly :: "nat \<Rightarrow> string \<Rightarrow> frame_error + string \<times> string" where
  "read_exactly n s = (if length s < n then Inl IncompleteRead else Inr (take n s, drop n s))"

definition read_frame :: "(string \<Rightarrow> string) \<Rightarrow> string \<Rightarrow> frame_error + json \<times> string" where
  "read_frame fl s =
     bindE (read_exactly 4 s) (\<lambda>(header, s1).
       let n = unat (unpack_word header) in
       if n = 0 \<or> max_frame < n then Inl InvalidLength
       else bindE (read_exactly n s1) (\<lambda>(payload, s2).
         bindE (read_payload fl payload) (\<lambda>v. Inr (v, s2))))"

definition write_frame :: "json \<Rightarrow> frame_error + string" where
  "write_frame v =
     (let payload = dumps v in
      if max_frame < length payload then Inl TooLarge
      else Inr (pack_word (word_of_nat (length payload)) @ payload))"

text \<open>What \<open>_handle\<close> of the node makes of the bytes of a connection\<close>

definition arrived :: "(string \<Rightarrow> string) \<Rightarrow> string \<Rightarrow> frame" where
  "arrived fl s = (case read_frame fl s of
     Inr (v, _) \<Rightarrow> Frame v | Inl IncompleteRead \<Rightarrow> FrameTruncated | Inl _ \<Rightarrow> FrameInvalid)"

text \<open>Reading frame after frame, at most \<open>k\<close>, and what is left of the stream\<close>

fun read_frames :: "(string \<Rightarrow> string) \<Rightarrow> nat \<Rightarrow> string \<Rightarrow> frame_error + json list \<times> string" where
  "read_frames fl 0 s = Inr ([], s)"
| "read_frames fl (Suc k) s =
     bindE (read_frame fl s) (\<lambda>(v, s1). bindE (read_frames fl k s1) (\<lambda>(vs, s2). Inr (v # vs, s2)))"

definition write_frames :: "json list \<Rightarrow> frame_error + string" where
  "write_frames vs = bindE (mapE write_frame vs) (\<lambda>fs. Inr (concat fs))"

subsection \<open>Length fields are read back\<close>

lemma word_bytes: "unpack_word s = word_of_nat (fold (\<lambda>c n. 256 * n + of_char c) s 0)"
proof -
  have "fold (\<lambda>c w. push_bit 8 w + word_of_nat (of_char c)) s (word_of_nat n) =
      (word_of_nat (fold (\<lambda>c n. 256 * n + of_char c) s n) :: 32 word)" for n
  proof (induction s arbitrary: n)
    case (Cons c s)
    have "push_bit 8 (word_of_nat n) + word_of_nat (of_char c) = (word_of_nat (256 * n + of_char c) :: 32 word)"
      by (simp add: push_bit_eq_mult mult.commute)
    with Cons.IH [of "256 * n + of_char c"] show ?case by (simp only: fold_simps)
  qed simp
  from this [of 0] show ?thesis by (simp add: unpack_word_def)
qed

lemma four_bytes: "n < 2 ^ 32 \<Longrightarrow>
    256 * (256 * (256 * (n div 2 ^ 24 mod 256) + n div 2 ^ 16 mod 256) + n div 2 ^ 8 mod 256) + n mod 256 = (n::nat)"
proof -
  assume n: "n < 2 ^ 32"
  have split: "256 * (m div 256) + m mod 256 = m" for m :: nat by simp
  have "n div 2 ^ 24 mod 256 = n div 2 ^ 24" using n by (simp add: less_mult_imp_div_less)
  moreover have "n div 2 ^ 24 = (n div 2 ^ 16) div 256" "n div 2 ^ 16 = (n div 2 ^ 8) div 256"
    by (simp_all flip: div_mult2_eq)
  ultimately show ?thesis using split [of "n div 2 ^ 16"] split [of "n div 2 ^ 8"] split [of n] by simp
qed

lemma unpack_pack: "unpack_word (pack_word w) = w"
proof -
  have "unat w < 2 ^ 32" using unsigned_less [of w] by simp
  then have "fold (\<lambda>c n. 256 * n + of_char c) (pack_word w) 0 = unat w"
    using four_bytes [of "unat w"]
    by (simp add: pack_word_def drop_bit_eq_div unat_div_distrib)
  then show ?thesis by (simp add: word_bytes)
qed

lemma pack_length [simp]: "length (pack_word w) = 4"
  by (simp add: pack_word_def)

subsection \<open>Frames are read back\<close>

lemma hex_byte_ascii: "d \<in> set (hex_byte c) \<Longrightarrow> of_char d < (128::nat)"
proof -
  have "list_all (\<lambda>n. of_char (hexdigit n) < (128::nat)) [0..<16]" by code_simp
  moreover have "of_char c div 16 < (16::nat)" using nat_of_char_less_256 [of c] by (simp add: div_less_iff_less_mult)
  ultimately show "d \<in> set (hex_byte c) \<Longrightarrow> of_char d < (128::nat)"
    by (auto simp: hex_byte_def list_all_iff)
qed

definition ascii :: "string \<Rightarrow> bool" where
  "ascii s \<longleftrightarrow> (\<forall>c \<in> set s. of_char c < (128::nat))"

lemma ascii_simps [simp]:
  "ascii []" "ascii (c # s) \<longleftrightarrow> of_char c < (128::nat) \<and> ascii s" "ascii (s @ t) \<longleftrightarrow> ascii s \<and> ascii t"
  by (auto simp: ascii_def)

lemma ascii_concat: "(\<And>x. x \<in> set xs \<Longrightarrow> ascii (f x)) \<Longrightarrow> ascii (concat (map f xs))"
  by (induction xs) auto

lemma ascii_join: "(\<And>x. x \<in> set xs \<Longrightarrow> ascii x) \<Longrightarrow> ascii (join_comma xs)"
  by (induction xs rule: join_comma.induct) auto

lemma ascii_text: "ascii (text_ascii s)"
proof -
  have "ascii (esc_ascii c)" for c
    using hex_byte_ascii [of _ c] by (auto simp: esc_ascii_def ascii_def)
  then show ?thesis by (simp add: text_ascii_def ascii_concat)
qed

lemma ascii_nat: "ascii (nat_str n)"
proof -
  have "is_digit c \<Longrightarrow> of_char c < (128::nat)" for c by (auto simp: is_digit_def)
  then show ?thesis using nat_str_digits by (auto simp: ascii_def)
qed

lemma ascii_dumps: "float_free v \<Longrightarrow> ascii (dumps v)"
proof (induction v)
  case (JObj kvs)
  have "ascii (pair_text p)" if p: "p \<in> set kvs" for p
  proof -
    have "snd p \<in> Basic_BNFs.snds p" by (cases p) (simp add: prod_set_simps)
    with JObj.IH [OF p] JObj.prems p show ?thesis by (simp add: pair_text_def ascii_text)
  qed
  then show ?case unfolding dumps_obj by (auto intro!: ascii_join)
next
  case (JArr vs)
  then show ?case by (auto intro!: ascii_join)
qed (simp_all add: ascii_text ascii_nat int_str_def)

lemma decode_ascii: "ascii s \<Longrightarrow> decode_utf8 s = Inr s"
  by (induction s rule: decode_utf8.induct) (simp_all add: Let_def)

lemma dumps_ne: "float_free v \<Longrightarrow> dumps v \<noteq> []"
  using dumps_starter [of v] by (auto simp: starter_def)

lemma read_written:
  assumes v: "float_free v" "distinct_keys v" and w: "write_frame v = Inr s"
  shows "read_frame fl (s @ rest) = Inr (json_norm v, rest)"
proof -
  let ?p = "dumps v"
  from w have len: "length ?p \<le> max_frame" and s: "s = pack_word (word_of_nat (length ?p)) @ ?p"
    by (auto simp: write_frame_def Let_def split: if_splits)
  from len have "length ?p < 2 ^ LENGTH(32)" by (simp add: max_frame_def)
  then have "unat (word_of_nat (length ?p) :: 32 word) = length ?p" by (simp add: unsigned_of_nat take_bit_nat_eq_self)
  moreover have "read_payload fl ?p = Inr (json_norm v)"
    using v by (simp add: read_payload_def decode_ascii ascii_dumps loads_dumps)
  ultimately show ?thesis
    using len dumps_ne [OF v(1)] unfolding s by (simp add: read_frame_def read_exactly_def unpack_pack Let_def)
qed

text \<open>
  C39. What is written to a stream is what is read from it. Messages that are Python values without floats
  are written one after the other; the reader finds exactly these messages, with their keys sorted,
  in this order, and leaves what follows on the stream untouched. No text can make the reader of the model
  run out of fuel, so its errors are those of the grammar.
\<close>

theorem frames_roundtrip:
  assumes "list_all (\<lambda>v. float_free v \<and> distinct_keys v) vs" "write_frames vs = Inr s"
  shows "read_frames fl (length vs) (s @ rest) = Inr (map json_norm vs, rest)
    \<and> (\<forall>t. loads fl t \<noteq> Inl OutOfFuel)"
proof -
  have "read_frames fl (length vs) (concat fs @ rest) = Inr (map json_norm vs, rest)"
    if "mapE write_frame vs = Inr fs" "list_all (\<lambda>v. float_free v \<and> distinct_keys v) vs" for fs
    using that
  proof (induction vs arbitrary: fs)
    case (Cons v vs)
    from Cons.prems(1) obtain f gs where f: "write_frame v = Inr f" "mapE write_frame vs = Inr gs" "fs = f # gs"
      by (auto simp: bindE_Inr_iff)
    with Cons read_written [of v f fl "concat gs @ rest"] show ?case by simp
  qed simp
  with assms loads_fuel show ?thesis by (auto simp: write_frames_def bindE_Inr_iff)
qed

theorem frames_roundtrip_witness:
  "\<exists>s. write_frames [JObj [(''b'', JInt (- 12)), (''a'', JStr ''q'')], JArr [JBool True]] = Inr s
     \<and> read_frames id 2 (s @ ''x'') = Inr ([JObj [(''a'', JStr ''q''), (''b'', JInt (- 12))], JArr [JBool True]], ''x'')"
proof -
  let ?vs = "[JObj [(''b'', JInt (- 12)), (''a'', JStr ''q'')], JArr [JBool True]]"
  have "\<exists>f. write_frame v = Inr f" if "v \<in> set ?vs" for v
  proof -
    have "list_all (\<lambda>v. length (dumps v) \<le> 100) ?vs" by code_simp
    with that have "\<not> max_frame < length (dumps v)" unfolding list_all_iff max_frame_def by fastforce
    then show ?thesis by (simp add: write_frame_def Let_def)
  qed
  then obtain f g where "write_frame (?vs ! 0) = Inr f" "write_frame (?vs ! 1) = Inr g" by fastforce
  then have s: "write_frames ?vs = Inr (f @ g)" by (simp add: write_frames_def)
  have "list_all (\<lambda>v. float_free v \<and> distinct_keys v) ?vs" by simp
  from frames_roundtrip [OF this s, of id "''x''"]
  have "read_frames id 2 ((f @ g) @ ''x'') = Inr (map json_norm ?vs, ''x'')" by (simp add: numeral_2_eq_2)
  moreover have "map json_norm ?vs = [JObj [(''a'', JStr ''q''), (''b'', JInt (- 12))], JArr [JBool True]]" by simp
  ultimately show ?thesis using s by metis
qed

text \<open>
  Bad lengths are refused before anything is read. A header that says 0, or more than four MiB, is
  an invalid frame, whatever follows; a node counts it as malformed.
\<close>

theorem bad_length_refused:
  assumes "length h = 4" "unat (unpack_word h) = 0 \<or> max_frame < unat (unpack_word h)"
  shows "read_frame fl (h @ s) = Inl InvalidLength \<and> arrived fl (h @ s) = FrameInvalid"
  using assms by (auto simp: read_frame_def read_exactly_def arrived_def Let_def)

end
