(* ===== verification/Security_Props.thy ===== *)
theory Security_Props
  imports Security
begin

section \<open>Replay windows, rate limits, capabilities\<close>

text \<open>
  The replay guard accepts a key once while it remembers it, a token bucket bounds the rate, a
  capability is used once and its secret is needed to use it.
\<close>

subsection \<open>A message is accepted once per window\<close>

fun replay_run :: "('k \<times> rat) list \<Rightarrow> 'k replay_guard \<Rightarrow> 'k replay_guard" where
  "replay_run [] g = g"
| "replay_run ((mid, now) # calls) g = replay_run calls (snd (replay_accept mid now g))"

text \<open>\<open>mid\<close>, accepted at \<open>t\<close>, is in the window with at most \<open>k\<close> entries after it.\<close>

definition held :: "'k \<Rightarrow> rat \<Rightarrow> nat \<Rightarrow> 'k replay_guard \<Rightarrow> bool" where
  "held mid t k g \<longleftrightarrow> (\<exists>before after. seen_at g = before @ (mid, t) # after \<and> length after \<le> k)"

lemma drop_before: "n \<le> length xs \<Longrightarrow> drop n (xs @ ys) = drop n xs @ ys"
  by simp

lemma accept_params [simp]:
  "max_entries (snd (replay_accept mid now g)) = max_entries g" "ttl_seconds (snd (replay_accept mid now g)) = ttl_seconds g"
  by (simp_all add: replay_accept_def Let_def)

lemma held_step:
  assumes "held mid t k g" "now - t \<le> ttl_seconds g" "Suc (Suc k) \<le> max_entries g"
  shows "held mid t (Suc k) (snd (replay_accept other now g))"
proof -
  from assms(1) obtain before after where g: "seen_at g = before @ (mid, t) # after" "length after \<le> k"
    by (auto simp: held_def)
  let ?live = "filter (\<lambda>(_, u). \<not> now - u > ttl_seconds g)"
  have live: "?live (seen_at g) = ?live before @ (mid, t) # ?live after"
    using assms(2) by (simp add: g)
  have short: "length (?live after) \<le> k" using g(2) length_filter_le le_trans by blast
  show ?thesis
  proof (cases "has_key (?live (seen_at g)) other")
    case True
    then have "seen_at (snd (replay_accept other now g)) = ?live (seen_at g)"
      by (simp add: replay_accept_def Let_def)
    with live short show ?thesis unfolding held_def by (metis le_SucI)
  next
    case False
    let ?n = "length (?live (seen_at g) @ [(other, now)]) - max_entries g"
    have "seen_at (snd (replay_accept other now g)) = drop ?n (?live (seen_at g) @ [(other, now)])"
      using False by (simp add: replay_accept_def Let_def)
    also have "\<dots> = drop ?n (?live before @ (mid, t) # ?live after @ [(other, now)])"
      unfolding live by simp
    also have "\<dots> = drop ?n (?live before) @ (mid, t) # ?live after @ [(other, now)]"
      using assms(3) short unfolding live by (subst drop_before) simp_all
    finally show ?thesis using short unfolding held_def by (intro exI conjI) (assumption, simp)
  qed
qed

lemma held_rejects: "held mid t k g \<Longrightarrow> now - t \<le> ttl_seconds g \<Longrightarrow> \<not> fst (replay_accept mid now g)"
proof -
  assume "held mid t k g" and fresh: "now - t \<le> ttl_seconds g"
  then have "(mid, t) \<in> set (seen_at g)" by (auto simp: held_def)
  with fresh have "(mid, t) \<in> set (filter (\<lambda>(_, u). \<not> now - u > ttl_seconds g) (seen_at g))" by simp
  then have "has_key (filter (\<lambda>(_, u). \<not> now - u > ttl_seconds g) (seen_at g)) mid"
    unfolding has_key_def by force
  then show ?thesis by (simp add: replay_accept_def)
qed

lemma held_run:
  "held mid t k g \<Longrightarrow> \<forall>(_, now) \<in> set calls. now - t \<le> ttl_seconds g \<Longrightarrow> k + length calls + 1 \<le> max_entries g \<Longrightarrow>
   held mid t (k + length calls) (replay_run calls g) \<and> ttl_seconds (replay_run calls g) = ttl_seconds g"
proof (induction calls arbitrary: k g)
  case (Cons call calls)
  obtain other now where call: "call = (other, now)" by (cases call)
  have "held mid t (Suc k) (snd (replay_accept other now g))"
    by (rule held_step [OF Cons.prems(1)]) (use Cons.prems call in auto)
  from Cons.IH [OF this] Cons.prems call show ?case by auto
qed simp

lemma accepted_held:
  assumes "replay_accept mid t g = (True, g')" "0 < max_entries g"
  shows "held mid t 0 g'" "max_entries g' = max_entries g" "ttl_seconds g' = ttl_seconds g"
proof -
  let ?live = "filter (\<lambda>(_, u). \<not> t - u > ttl_seconds g) (seen_at g)"
  let ?n = "length (?live @ [(mid, t)]) - max_entries g"
  from assms(1) show g': "max_entries g' = max_entries g" "ttl_seconds g' = ttl_seconds g"
    by (auto simp: replay_accept_def Let_def split: if_splits)
  from assms(1) have "seen_at g' = drop ?n (?live @ [(mid, t)])"
    by (auto simp: replay_accept_def Let_def split: if_splits)
  also have "\<dots> = drop ?n ?live @ [(mid, t)]"
    using assms(2) by (intro drop_before) simp
  finally show "held mid t 0 g'" by (simp add: held_def)
qed

text \<open>
  A message is not accepted twice in its window: after the guard has accepted an id at time \<open>t\<close>, and
  after any fewer than \<open>max_entries\<close> further messages, none later than \<open>t\<close> plus the time to live, it
  rejects the same id up to that time.
\<close>

theorem replay_rejected:
  assumes "replay_accept mid t g = (True, g')" "length calls < max_entries g"
    and "\<forall>(_, now) \<in> set calls. now - t \<le> ttl_seconds g" "now - t \<le> ttl_seconds g"
  shows "\<not> fst (replay_accept mid now (replay_run calls g'))"
proof -
  have "held mid t 0 g'" "max_entries g' = max_entries g" "ttl_seconds g' = ttl_seconds g"
    using accepted_held [OF assms(1)] assms(2) by simp_all
  with held_run [OF this(1)] assms have "held mid t (length calls) (replay_run calls g')"
    "ttl_seconds (replay_run calls g') = ttl_seconds g" by auto
  with held_rejects [of mid t _ "replay_run calls g'"] assms(4) show ?thesis by simp
qed

theorem replay_rejected_witness:
  "\<not> fst (replay_accept ''m'' 3 (replay_run [(''n'', 1)] (snd (replay_accept ''m'' 0 (replay_init 2 5)))))"
proof (rule replay_rejected [where t = 0 and g = "replay_init 2 5"])
  show "replay_accept ''m'' 0 (replay_init 2 5) = (True, snd (replay_accept ''m'' 0 (replay_init 2 5)))"
    by (simp add: replay_accept_def replay_init_def has_key_def)
qed (simp_all add: replay_init_def)

subsection \<open>Granted tokens are bounded\<close>

fun bucket_run :: "(rat \<times> rat) list \<Rightarrow> token_bucket \<Rightarrow> rat \<times> token_bucket" where
  "bucket_run [] b = (0, b)"
| "bucket_run ((amount, now) # calls) b =
     (case bucket_allow amount now b of (r, b1) \<Rightarrow>
        (case bucket_run calls b1 of (granted, b2) \<Rightarrow> ((if r = Inr True then amount else 0) + granted, b2)))"

definition bucket_ok :: "token_bucket \<Rightarrow> bool" where
  "bucket_ok b \<longleftrightarrow> 0 \<le> tokens b \<and> tokens b \<le> capacity b \<and> 0 < refill b"

lemma allow_step:
  assumes ok: "bucket_ok b" and call: "bucket_allow amount now b = (r, b')" and later: "updated_at b \<le> now"
  shows "bucket_ok b' \<and> capacity b' = capacity b \<and> refill b' = refill b \<and> updated_at b' \<le> now
    \<and> (if r = Inr True then amount else 0) + tokens b' \<le> tokens b + (updated_at b' - updated_at b) * refill b"
proof (cases "amount \<le> 0")
  case True
  with ok call later show ?thesis by (auto simp: bucket_allow_def)
next
  case False
  let ?a = "min (capacity b) (tokens b + max 0 (now - updated_at b) * refill b)"
  have "0 \<le> max 0 (now - updated_at b) * refill b" using ok by (simp add: bucket_ok_def)
  then have "0 \<le> ?a" using ok by (simp add: bucket_ok_def)
  moreover have "?a \<le> tokens b + (now - updated_at b) * refill b" using later by (simp add: max_def)
  ultimately show ?thesis
    using False ok call later by (auto simp: bucket_allow_def bucket_ok_def Let_def split: if_splits)
qed

lemma run_bound:
  "bucket_ok b \<Longrightarrow> bucket_run calls b = (granted, b') \<Longrightarrow> sorted (updated_at b # map snd calls) \<Longrightarrow>
   bucket_ok b' \<and> capacity b' = capacity b \<and> refill b' = refill b \<and> updated_at b' \<le> last (updated_at b # map snd calls)
   \<and> granted + tokens b' \<le> tokens b + (updated_at b' - updated_at b) * refill b"
proof (induction calls arbitrary: b granted)
  case (Cons call calls)
  obtain amount now where call: "call = (amount, now)" by (cases call)
  obtain r b1 where one: "bucket_allow amount now b = (r, b1)" by fastforce
  obtain g where rest: "bucket_run calls b1 = (g, b')" and granted: "granted = (if r = Inr True then amount else 0) + g"
    using Cons.prems(2) call one by (auto split: prod.splits)
  have later: "updated_at b \<le> now" using Cons.prems(3) call by simp
  note step = allow_step [OF Cons.prems(1) one later]
  have "sorted (updated_at b1 # map snd calls)" using Cons.prems(3) step call by fastforce
  note IH = Cons.IH [OF _ rest this]
  have "last (updated_at b1 # map snd calls) \<le> last (updated_at b # map snd (call # calls))"
    using step call by (cases calls) auto
  moreover have "(updated_at b' - updated_at b1) * refill b + (updated_at b1 - updated_at b) * refill b
      = (updated_at b' - updated_at b) * refill b" by (simp add: algebra_simps)
  ultimately show ?case using step IH granted by auto
qed simp

text \<open>
  C32. A token bucket limits the rate: over any sequence of requests at times that do not decrease, the
  tokens granted are at most the capacity plus the refill rate times the time that has passed.
\<close>

theorem bucket_rate_bounded:
  assumes "bucket_init cap ref start = Inr b" "bucket_run calls b = (granted, b')" "sorted (start # map snd calls)"
  shows "granted \<le> cap + ref * (last (start # map snd calls) - start) \<and> 0 \<le> tokens b' \<and> tokens b' \<le> cap"
proof -
  from assms(1) have b: "bucket_ok b" "updated_at b = start" "tokens b = cap" "capacity b = cap" "refill b = ref" "0 < ref"
    by (auto simp: bucket_init_def bucket_ok_def split: if_splits)
  from run_bound [OF b(1) assms(2)] assms(3) b have r: "bucket_ok b'" "capacity b' = cap"
    "updated_at b' \<le> last (start # map snd calls)" "granted + tokens b' \<le> cap + (updated_at b' - start) * ref" by auto
  have "(updated_at b' - start) * ref \<le> (last (start # map snd calls) - start) * ref"
    using r(3) b(6) by (intro mult_right_mono) simp_all
  with r show ?thesis by (simp add: bucket_ok_def mult.commute)
qed

theorem bucket_rate_bounded_witness:
  "\<exists>b b'. bucket_init 1 1 0 = Inr b \<and> bucket_run [(1, 0), (1, 0), (1, 2)] b = (2, b') \<and> (2 :: rat) \<le> 1 + 1 * (2 - 0)"
proof -
  obtain b where b: "bucket_init 1 1 0 = Inr b" by (simp add: bucket_init_def)
  then have "b = \<lparr>capacity = 1, refill = 1, tokens = 1, updated_at = 0\<rparr>" by (simp add: bucket_init_def)
  then obtain b' where run: "bucket_run [(1, 0), (1, 0), (1, 2)] b = (2, b')"
    by (simp add: bucket_allow_def Let_def)
  from bucket_rate_bounded [OF b run] b run show ?thesis by auto
qed

subsection \<open>Capabilities\<close>

definition aead_correct :: "aead \<Rightarrow> bool" where
  "aead_correct ae \<longleftrightarrow> (\<forall>key nonce secret ad. aead_decrypt ae key nonce (aead_encrypt ae key nonce secret ad) ad = Some secret)"

text \<open>
  A capability is used once: what \<open>put\<close> stored, \<open>consume\<close> with the same associated data returns;
  afterwards the capability is unknown, and no other capability has changed.
\<close>

theorem capability_consumed_once:
  assumes "aead_correct ae"
  shows "\<exists>v'. vault_consume ae cid ad (vault_put ae nonce cid secret ad v) = (Inr secret, v')
    \<and> vault_consume ae cid ad' v' = (Inl (SecurityError ''unknown capability''), v')
    \<and> (\<forall>other. other \<noteq> cid \<longrightarrow> vault_get ae other ad' v' = vault_get ae other ad' v)"
  using assms by (auto simp: vault_consume_def vault_get_def vault_put_def aead_correct_def split: option.splits)

theorem capability_consumed_once_witness:
  "\<exists>v'. vault_consume \<lparr>aead_encrypt = (\<lambda>_ _ s _. s), aead_decrypt = (\<lambda>_ _ c _. Some c)\<rparr> ''c'' ''''
      (vault_put \<lparr>aead_encrypt = (\<lambda>_ _ s _. s), aead_decrypt = (\<lambda>_ _ c _. Some c)\<rparr> ''n'' ''c'' ''s'' ''''
        \<lparr>vault_key = ''k'', vault_items = []\<rparr>) = (Inr ''s'', v')"
  using capability_consumed_once [of "\<lparr>aead_encrypt = (\<lambda>_ _ s _. s), aead_decrypt = (\<lambda>_ _ c _. Some c)\<rparr>" "''c''" "''''" "''n''" "''s''"
      "\<lparr>vault_key = ''k'', vault_items = []\<rparr>"]
  by (auto simp: aead_correct_def)

end
