(* ===== verification/Node_Entry_Props.thy ===== *)
theory Node_Entry_Props
  imports Node_Entry Security_Props Node_Props
begin

section \<open>Connections are counted, messages handled once, floods refused\<close>

text \<open>
  Runs of connections, frames and disconnections: the counts are exact, a message id is taken once
  per window, and the bucket of the node can be drained by one sender.
\<close>

subsection \<open>What a frame leaves alone\<close>

lemma entry_bump_fields [simp]:
  "en_guard (entry_bump k s) = en_guard s" "en_rate (entry_bump k s) = en_rate s"
  "en_limiters (entry_bump k s) = en_limiters s" "en_connections (entry_bump k s) = en_connections s"
  "en_max_connections (entry_bump k s) = en_max_connections s" "en_node (entry_bump k s) = node_bump k (en_node s)"
  "en_peer_capacity (entry_bump k s) = en_peer_capacity s" "en_peer_refill (entry_bump k s) = en_peer_refill s"
  by (simp_all add: entry_bump_def)

definition same_gate :: "entry_node \<Rightarrow> entry_node \<Rightarrow> bool" where
  "same_gate s s' \<longleftrightarrow> en_connections s' = en_connections s \<and> en_max_connections s' = en_max_connections s
     \<and> en_peer_capacity s' = en_peer_capacity s \<and> en_peer_refill s' = en_peer_refill s"

lemma same_gate_refl [intro, simp]: "same_gate s s"
  by (simp add: same_gate_def)

lemma same_gate_trans: "same_gate s s' \<Longrightarrow> same_gate s' s'' \<Longrightarrow> same_gate s s''"
  by (simp add: same_gate_def)

lemma bumps_fields: "same_gate s (fold entry_bump ks s) \<and> en_guard (fold entry_bump ks s) = en_guard s
    \<and> en_rate (fold entry_bump ks s) = en_rate s"
  by (induction ks arbitrary: s) (auto simp: same_gate_def)

lemma entry_failure_fields:
  "entry_failure e s = (r, s') \<Longrightarrow> same_gate s s' \<and> en_guard s' = en_guard s \<and> en_rate s' = en_rate s"
  using bumps_fields by (auto simp: entry_failure_def split: option.splits)

lemma dispatch_frame_fields:
  assumes "dispatch_frame cr msg s = (r, s')"
  shows "same_gate s s' \<and> en_guard s' = en_guard s \<and> en_rate s' = en_rate s"
proof -
  obtain q n where d: "dispatch cr msg (en_node s) = (q, n)" by fastforce
  show ?thesis
  proof (cases q)
    case (Inl e)
    with assms d have "entry_failure e (s\<lparr>en_node := n\<rparr>) = (r, s')" by (simp add: dispatch_frame_def)
    from entry_failure_fields [OF this] show ?thesis by (simp add: same_gate_def)
  next
    case (Inr a)
    with assms d show ?thesis by (auto simp: dispatch_frame_def same_gate_def)
  qed
qed

lemma admit_frame_fields:
  "admit_frame peer t1 t2 s = (ok, s') \<Longrightarrow>
   same_gate s s' \<and> en_guard s' = en_guard s \<and> en_node s' = en_node s \<and> en_rate s' = snd (bucket_take t1 (en_rate s))"
  by (auto simp: admit_frame_def same_gate_def split: prod.splits bool.splits option.splits)

lemma receive_message_cases:
  obtains (refused) s1 where "admit_frame peer t1 t2 s = (False, s1)"
      "receive_message cr peer (t1, t2, t3) msg s = (Inr None, entry_bump ''rate_limited'' s1)"
  | (unreadable) s1 e where "admit_frame peer t1 t2 s = (True, s1)" "message_key msg = Inl e"
      "receive_message cr peer (t1, t2, t3) msg s = entry_failure e s1"
  | (replayed) s1 k where "admit_frame peer t1 t2 s = (True, s1)" "message_key msg = Inr k"
      "\<not> fst (replay_accept k t3 (en_guard s1))"
      "receive_message cr peer (t1, t2, t3) msg s =
         (Inr None, entry_bump ''replay_rejected'' (s1\<lparr>en_guard := snd (replay_accept k t3 (en_guard s1))\<rparr>))"
  | (taken) s1 k where "admit_frame peer t1 t2 s = (True, s1)" "message_key msg = Inr k"
      "fst (replay_accept k t3 (en_guard s1))"
      "receive_message cr peer (t1, t2, t3) msg s = dispatch_frame cr msg
         (entry_bump ''received_messages'' (s1\<lparr>en_guard := snd (replay_accept k t3 (en_guard s1))\<rparr>))"
proof -
  obtain ok s1 where a: "admit_frame peer t1 t2 s = (ok, s1)" by fastforce
  show ?thesis
  proof (cases ok)
    case False
    with a show ?thesis by (intro refused) (simp_all add: receive_message_def)
  next
    case True
    with a have adm: "admit_frame peer t1 t2 s = (True, s1)" by simp
    show ?thesis
    proof (cases "message_key msg")
      case (Inl e)
      with adm show ?thesis by (intro unreadable [OF adm]) (simp_all add: receive_message_def)
    next
      case (Inr k)
      obtain new g where "replay_accept k t3 (en_guard s1) = (new, g)" by fastforce
      with adm Inr replayed taken show ?thesis by (cases new) (simp_all add: receive_message_def)
    qed
  qed
qed

lemma receive_message_fields:
  assumes "receive_message cr peer (t1, t2, t3) msg s = (r, s')"
  shows "same_gate s s' \<and> en_rate s' = snd (bucket_take t1 (en_rate s))
    \<and> (en_guard s' = en_guard s \<or> (\<exists>k. en_guard s' = snd (replay_accept k t3 (en_guard s))))"
proof (cases rule: receive_message_cases [of peer t1 t2 s cr t3 msg])
  case (refused s1)
  with assms admit_frame_fields [OF refused(1)] show ?thesis by (auto simp: same_gate_def)
next
  case (unreadable s1 e)
  with assms admit_frame_fields [OF unreadable(1)] entry_failure_fields [of e s1 r s'] show ?thesis
    by (auto simp: same_gate_def)
next
  case (replayed s1 k)
  with assms admit_frame_fields [OF replayed(1)] show ?thesis by (auto simp: same_gate_def)
next
  case (taken s1 k)
  with assms admit_frame_fields [OF taken(1)] dispatch_frame_fields [of cr msg _ r s'] show ?thesis
    by (auto simp: same_gate_def)
qed

lemma receive_frame_fields:
  assumes "receive_frame cr peer (t1, t2, t3) fr s = (r, s')"
  shows "same_gate s s' \<and> (en_guard s' = en_guard s \<or> (\<exists>k. en_guard s' = snd (replay_accept k t3 (en_guard s))))"
  using assms receive_message_fields [of cr peer t1 t2 t3 _ s r s']
  by (cases fr) (auto simp: receive_frame_def same_gate_def)

subsection \<open>Runs of the entry\<close>

datatype entry_event =
    Open string rat
  | Receive string "rat \<times> rat \<times> rat" frame
  | Close string

text \<open>The connections that are served, and the node; only these send frames and are closed.\<close>

fun entry_step :: "crypto \<Rightarrow> entry_event \<Rightarrow> string list \<times> entry_node \<Rightarrow> string list \<times> entry_node" where
  "entry_step cr (Open peer now) (os, s) =
     (case accept_connection peer now s of (r, s') \<Rightarrow> (if r = Inr True then peer # os else os, s'))"
| "entry_step cr (Receive peer clock fr) (os, s) =
     (os, if peer \<in> set os then snd (receive_frame cr peer clock fr s) else s)"
| "entry_step cr (Close peer) (os, s) =
     (if peer \<in> set os then (remove1 peer os, close_connection peer s) else (os, s))"

definition entry_run :: "crypto \<Rightarrow> entry_event list \<Rightarrow> string list \<times> entry_node \<Rightarrow> string list \<times> entry_node" where
  "entry_run cr es x = fold (entry_step cr) es x"

definition counted :: "string list \<times> entry_node \<Rightarrow> bool" where
  "counted x \<longleftrightarrow> (case x of (os, s) \<Rightarrow> 0 < en_peer_capacity s \<and> 0 < en_peer_refill s
     \<and> (\<forall>p. open_connections s p = int (count_list os p) \<and> has_key (en_connections s) p = (p \<in> set os)
          \<and> int (count_list os p) \<le> max 0 (en_max_connections s)))"

lemma count_gr_0: "0 < count_list xs x \<longleftrightarrow> x \<in> set xs"
  by (metis count_list_0_iff neq0_conv)

lemma count_remove1: "count_list (remove1 x xs) y = count_list xs y - (if x = y then 1 else 0)"
  by (induction xs) (auto simp: count_gr_0 Suc_diff_le dest: count_gr_0 [THEN iffD2])

lemma counted_same:
  "counted (os, s) \<Longrightarrow> en_connections s' = en_connections s \<Longrightarrow> en_max_connections s' = en_max_connections s \<Longrightarrow>
   en_peer_capacity s' = en_peer_capacity s \<Longrightarrow> en_peer_refill s' = en_peer_refill s \<Longrightarrow> counted (os, s')"
  by (simp add: counted_def open_connections_def)

lemma accept_counted:
  assumes ok: "counted (os, s)" and call: "accept_connection peer now s = (r, s')"
  shows "counted (if r = Inr True then peer # os else os, s')"
proof (cases "en_max_connections s \<le> open_connections s peer")
  case True
  with call have "r = Inr False" "s' = entry_bump ''rate_limited'' s" by (simp_all add: accept_connection_def)
  with counted_same [OF ok] show ?thesis by simp
next
  case False
  let ?s1 = "s\<lparr>en_connections := AList.update peer (open_connections s peer + 1) (en_connections s)\<rparr>"
  from ok obtain b where "bucket_init (en_peer_capacity s) (en_peer_refill s) now = Inr b"
    by (auto simp: counted_def bucket_init_def)
  with False call have r: "r = Inr True" and s': "en_connections s' = en_connections ?s1"
    "en_max_connections s' = en_max_connections s" "en_peer_capacity s' = en_peer_capacity s" "en_peer_refill s' = en_peer_refill s"
    by (auto simp: accept_connection_def Let_def split: if_splits)
  then have "open_connections s' p = open_connections s p + (if p = peer then 1 else 0)" for p
    by (simp add: open_connections_def update_conv')
  moreover have "has_key (en_connections s') p = (p = peer \<or> has_key (en_connections s) p)" for p
    by (simp add: s' has_key_update)
  ultimately show ?thesis using ok r s' False by (auto simp: counted_def)
qed

lemma close_counted:
  assumes ok: "counted (os, s)" and mem: "peer \<in> set os"
  shows "counted (remove1 peer os, close_connection peer s)"
proof -
  have "open_connections s peer = int (count_list os peer)" "0 < count_list os peer" "has_key (en_connections s) peer"
    using ok mem by (auto simp: counted_def count_gr_0)
  then obtain k where k: "map_of (en_connections s) peer = Some k" "k = int (count_list os peer)" "0 < k"
    by (auto simp: open_connections_def has_key_def split: option.splits)
  let ?s = "close_connection peer s"
  have conns: "en_connections ?s = (if k = 1 then AList.delete peer (en_connections s)
      else AList.update peer (k - 1) (en_connections s))"
    using k by (auto simp: close_connection_def Let_def)
  have same: "en_max_connections ?s = en_max_connections s" "en_peer_capacity ?s = en_peer_capacity s"
    "en_peer_refill ?s = en_peer_refill s" by (simp_all add: close_connection_def Let_def)
  have "open_connections ?s p = open_connections s p - (if p = peer then 1 else 0)" for p
    using k unfolding open_connections_def conns by (auto simp: update_conv' delete_conv')
  moreover have "has_key (en_connections ?s) p = (p \<in> set (remove1 peer os))" for p
  proof -
    have "p \<in> set (remove1 peer os) \<longleftrightarrow> 0 < count_list (remove1 peer os) p" by (rule count_gr_0 [symmetric])
    also have "\<dots> \<longleftrightarrow> 0 < count_list os p - (if peer = p then 1 else 0)" by (simp only: count_remove1)
    also have "\<dots> \<longleftrightarrow> (if p = peer then k \<noteq> 1 else has_key (en_connections s) p)"
      using k ok count_gr_0 [of os p] by (cases "p = peer") (auto simp: counted_def)
    moreover have "has_key (AList.delete peer (en_connections s)) p = (p \<noteq> peer \<and> has_key (en_connections s) p)"
      by (simp add: has_key_map_of)
    ultimately show ?thesis using k(1) unfolding conns by auto
  qed
  moreover have "int (count_list (remove1 peer os) p) = int (count_list os p) - (if p = peer then 1 else 0)" for p
    using k by (auto simp: count_remove1)
  moreover have "open_connections s p = int (count_list os p)" "int (count_list os p) \<le> max 0 (en_max_connections s)" for p
    using ok by (simp_all add: counted_def)
  moreover have "x - (if b then 1 else 0) \<le> m" if "x \<le> m" for x m :: int and b using that by simp
  ultimately show ?thesis using ok same by (simp add: counted_def)
qed

lemma entry_step_counted: "counted x \<Longrightarrow> counted (entry_step cr e x)"
proof (cases e)
  case (Open peer now)
  moreover assume "counted x"
  ultimately show ?thesis using accept_counted by (cases x) (auto split: prod.splits)
next
  case (Receive peer clock fr)
  obtain os s t1 t2 t3 where x: "x = (os, s)" "clock = (t1, t2, t3)" by (metis prod_cases3 surj_pair)
  assume "counted x"
  with x Receive receive_frame_fields [of cr peer t1 t2 t3 fr s] show ?thesis
    by (cases "receive_frame cr peer (t1, t2, t3) fr s") (auto simp: same_gate_def intro: counted_same)
next
  case (Close peer)
  moreover assume "counted x"
  ultimately show ?thesis using close_counted by (cases x) auto
qed

text \<open>
  Connections are counted exactly. From a node that has just been created, with positive parameters
  for its token buckets, any order of connections, frames and disconnections leaves, for each
  peer, the number of its connections that are served as its count, at most
  \<open>max_connections_per_peer\<close> of them, and no entry for a peer without connections.
\<close>

theorem connections_bounded:
  assumes "0 < cap" "0 < ref" "entry_run cr es ([], entry_init n limit cap ref now) = (os, s)"
  shows "open_connections s p = int (count_list os p) \<and> open_connections s p \<le> max 0 limit
    \<and> has_key (en_connections s) p = (p \<in> set os)"
proof -
  have run: "counted x \<Longrightarrow> counted (entry_run cr es x)" for x
    unfolding entry_run_def by (induction es arbitrary: x) (simp_all del: split_paired_All add: entry_step_counted)
  have limit: "en_max_connections (snd (entry_run cr es x)) = en_max_connections (snd x)" for x
    unfolding entry_run_def
  proof (induction es arbitrary: x)
    case (Cons e es)
    have "en_max_connections (snd (entry_step cr e x)) = en_max_connections (snd x)"
    proof (cases e)
      case (Open peer now)
      then show ?thesis by (cases x) (auto simp: accept_connection_def Let_def split: prod.splits if_splits sum.splits)
    next
      case (Receive peer clock fr)
      obtain os s t1 t2 t3 where x: "x = (os, s)" "clock = (t1, t2, t3)" by (metis prod_cases3 surj_pair)
      with Receive receive_frame_fields [of cr peer t1 t2 t3 fr s] show ?thesis
        by (cases "receive_frame cr peer (t1, t2, t3) fr s") (auto simp: same_gate_def)
    next
      case (Close peer)
      then show ?thesis by (cases x) (auto simp: close_connection_def Let_def)
    qed
    with Cons.IH show ?case by simp
  qed simp
  have "counted ([], entry_init n limit cap ref now)"
    using assms(1,2) by (simp add: counted_def entry_init_def open_connections_def has_key_def)
  from run [OF this] limit [of "([], entry_init n limit cap ref now)"] assms(3) show ?thesis
    by (simp add: counted_def entry_init_def)
qed

definition idle :: validator_node where
  "idle = validator_with bonded_services"

theorem connections_bounded_witness:
  "open_connections (snd (entry_run demo_crypto [Open ''p'' 0, Open ''p'' 1, Open ''p'' 2, Close ''p'']
     ([], entry_init idle 2 5 5 0))) ''p'' \<le> 2"
proof -
  obtain os s where "entry_run demo_crypto [Open ''p'' 0, Open ''p'' 1, Open ''p'' 2, Close ''p''] ([], entry_init idle 2 5 5 0) = (os, s)"
    by fastforce
  from connections_bounded [OF _ _ this, of "''p''"] this show ?thesis by simp
qed

subsection \<open>A message id is taken once\<close>

fun is_receive :: "entry_event \<Rightarrow> bool" where
  "is_receive (Receive _ _ _) = True"
| "is_receive _ = False"

fun not_after :: "rat \<Rightarrow> entry_event \<Rightarrow> bool" where
  "not_after limit (Receive _ (_, _, t3) _) = (t3 \<le> limit)"
| "not_after limit _ = True"

abbreviation frames_in :: "entry_event list \<Rightarrow> nat" where
  "frames_in es \<equiv> length (filter is_receive es)"

lemma held_mono: "held k t i g \<Longrightarrow> i \<le> j \<Longrightarrow> held k t j g"
  unfolding held_def by (meson le_trans)

lemma step_guard:
  assumes "entry_step cr e (os, s) = (os', s')"
  shows "en_guard s' = en_guard s \<or> (\<exists>p t1 t2 t3 fr k. e = Receive p (t1, t2, t3) fr
     \<and> en_guard s' = snd (replay_accept k t3 (en_guard s)))"
proof (cases e)
  case (Receive p clock fr)
  obtain t1 t2 t3 where clock: "clock = (t1, t2, t3)" by (metis prod_cases3)
  obtain r s1 where r: "receive_frame cr p (t1, t2, t3) fr s = (r, s1)" by fastforce
  with assms Receive clock have "s' = s1 \<or> s' = s" by (auto split: if_splits)
  with receive_frame_fields [OF r] Receive clock show ?thesis by blast
qed (use assms in \<open>auto simp: accept_connection_def close_connection_def Let_def split: prod.splits if_splits sum.splits\<close>)

lemma run_held:
  "held k t i (en_guard s) \<Longrightarrow> list_all (not_after (t + ttl_seconds (en_guard s))) es \<Longrightarrow>
   i + frames_in es + 1 \<le> max_entries (en_guard s) \<Longrightarrow> entry_run cr es (os, s) = (os', s') \<Longrightarrow>
   held k t (i + frames_in es) (en_guard s') \<and> ttl_seconds (en_guard s') = ttl_seconds (en_guard s)"
proof (induction es arbitrary: i os s)
  case (Cons e es)
  obtain os1 s1 where one: "entry_step cr e (os, s) = (os1, s1)" by fastforce
  with Cons.prems(4) have rest: "entry_run cr es (os1, s1) = (os', s')" by (simp add: entry_run_def)
  let ?i = "if is_receive e then Suc i else i"
  from step_guard [OF one] have "held k t ?i (en_guard s1) \<and> max_entries (en_guard s1) = max_entries (en_guard s)
    \<and> ttl_seconds (en_guard s1) = ttl_seconds (en_guard s)"
  proof
    assume "en_guard s1 = en_guard s"
    with held_mono [OF Cons.prems(1), of ?i] show ?thesis by simp
  next
    assume "\<exists>p t1 t2 t3 fr j. e = Receive p (t1, t2, t3) fr \<and> en_guard s1 = snd (replay_accept j t3 (en_guard s))"
    then obtain t3 j where e: "is_receive e" "t3 \<le> t + ttl_seconds (en_guard s)"
      and g: "en_guard s1 = snd (replay_accept j t3 (en_guard s))" using Cons.prems(2) by auto
    from held_step [OF Cons.prems(1), of t3 j] e Cons.prems(3) show ?thesis
      by (simp add: g)
  qed
  with Cons.IH [of ?i s1 os1] rest Cons.prems(2,3) show ?case by auto
qed (simp add: entry_run_def)

text \<open>
  C31. A message id is taken once. Once a frame has been taken, its id recorded at \<open>t\<close>, then after any
  run with fewer further frames than the guard has entries, all within its time to live, a frame with
  the same id is dropped: no handler runs, whoever sent it, and whatever else it says. Since
  anyone may choose the id of a message, a forged frame also keeps out the genuine one.
\<close>

theorem message_id_once:
  assumes taken: "admit_frame p t1 t2 s = (True, s0)" "message_key msg = Inr k" "fst (replay_accept k t (en_guard s0))"
    and first: "receive_message cr p (t1, t2, t) msg s = (r, s1)"
    and later: "entry_run cr es (os, s1) = (os', s2)" "frames_in es < max_entries (en_guard s)"
      "list_all (not_after (t + ttl_seconds (en_guard s))) es"
    and again: "message_key msg' = Inr k" "now'' \<le> t + ttl_seconds (en_guard s)"
  shows "\<exists>s3 counter. receive_message cr q (now, now', now'') msg' s2 = (Inr None, s3) \<and> en_node s3 = node_bump counter (en_node s2)"
proof -
  have g0: "en_guard s0 = en_guard s" using admit_frame_fields [OF taken(1)] by simp
  obtain g where g: "replay_accept k t (en_guard s) = (True, g)" using taken(3) g0 by (metis prod.collapse)
  have "en_guard s1 = g"
  proof (cases rule: receive_message_cases [of p t1 t2 s cr t msg])
    case (taken x j)
    with assms(1,2) g0 g first dispatch_frame_fields [of cr msg _ r s1] show ?thesis by auto
  qed (use taken g0 in auto)
  with accepted_held [OF g] later(2) have "held k t 0 (en_guard s1)" "max_entries (en_guard s1) = max_entries (en_guard s)"
    "ttl_seconds (en_guard s1) = ttl_seconds (en_guard s)" by simp_all
  with run_held [OF _ _ _ later(1)] later(2,3) have "held k t (frames_in es) (en_guard s2)"
    "ttl_seconds (en_guard s2) = ttl_seconds (en_guard s)" by fastforce+
  with held_rejects [of k t _ "en_guard s2" now''] again(2) have rejected: "\<not> fst (replay_accept k now'' (en_guard s2))" by simp
  show ?thesis
  proof (cases rule: receive_message_cases [of q now now' s2 cr now'' msg'])
    case (refused x)
    with admit_frame_fields [OF refused(1)] show ?thesis by auto
  next
    case (replayed x j)
    with admit_frame_fields [OF replayed(1)] show ?thesis by auto
  next
    case (unreadable x e)
    with again(1) show ?thesis by simp
  next
    case (taken x j)
    with admit_frame_fields [OF taken(1)] again(1) rejected show ?thesis by simp
  qed
qed

definition ping :: "string \<Rightarrow> json" where
  "ping kind = JObj [(''message_id'', JStr ''m1''), (''type'', JStr kind)]"

definition busy_node :: "validator_node \<Rightarrow> entry_node" where
  "busy_node n = (entry_init n 4 5 5 0)\<lparr>en_limiters :=
     [(''p'', \<lparr>capacity = 5, refill = 5, tokens = 5, updated_at = 0\<rparr>)]\<rparr>"

theorem message_id_once_witness:
  "\<exists>s3 counter. receive_message demo_crypto ''q'' (9, 9, 9) (ping ''SHUTDOWN'')
       (snd (entry_run demo_crypto [Close ''p''] ([''p''], snd (receive_message demo_crypto ''p'' (1, 1, 1) (ping ''METRICS'') (busy_node idle)))))
     = (Inr None, s3)
   \<and> en_node s3 = node_bump counter (en_node
       (snd (entry_run demo_crypto [Close ''p''] ([''p''], snd (receive_message demo_crypto ''p'' (1, 1, 1) (ping ''METRICS'') (busy_node idle))))))"
proof -
  let ?s = "busy_node idle"
  obtain s0 where s0: "admit_frame ''p'' 1 1 ?s = (True, s0)"
    by (simp add: admit_frame_def busy_node_def entry_init_def bucket_take_def bucket_allow_def)
  then have g: "en_guard s0 = replay_init 100000 300"
    using admit_frame_fields by (simp add: busy_node_def entry_init_def)
  obtain r s1 where r: "receive_message demo_crypto ''p'' (1, 1, 1) (ping ''METRICS'') ?s = (r, s1)" by fastforce
  obtain os' s2 where run: "entry_run demo_crypto [Close ''p''] ([''p''], s1) = (os', s2)" by fastforce
  have key: "message_key (ping kind) = Inr (JStr ''m1'')" for kind
    by (simp add: message_key_def ping_def truth_def)
  have "fst (replay_accept (JStr ''m1'') 1 (en_guard s0))"
    by (simp add: g replay_accept_def replay_init_def has_key_def)
  from message_id_once [OF s0 key this r run _ _ key [of "''SHUTDOWN''"], where now = 9 and now' = 9 and now'' = 9 and q = "''q''"] r run show ?thesis
    by (simp add: busy_node_def entry_init_def replay_init_def)
qed

subsection \<open>A flood\<close>

lemma take_at:
  assumes "updated_at b = t" "tokens b < of_nat (Suc n)"
  shows "updated_at (snd (bucket_take t b)) = t" "tokens (snd (bucket_take t b)) < of_nat n \<or> tokens (snd (bucket_take t b)) < 1"
  using assms by (auto simp: bucket_take_def bucket_allow_def Let_def min_def)

lemma flood_rate:
  "updated_at (en_rate s) = t \<Longrightarrow> tokens (en_rate s) < of_nat (length fs) + 1 \<Longrightarrow>
   updated_at (en_rate (fold (\<lambda>(t2, t3, msg) s. snd (receive_message cr p (t, t2, t3) msg s)) fs s)) = t
   \<and> tokens (en_rate (fold (\<lambda>(t2, t3, msg) s. snd (receive_message cr p (t, t2, t3) msg s)) fs s)) < 1"
proof (induction fs arbitrary: s)
  case (Cons f fs)
  obtain t2 t3 msg where f: "f = (t2, t3, msg)" by (metis prod_cases3)
  obtain r s1 where one: "receive_message cr p (t, t2, t3) msg s = (r, s1)" by fastforce
  then have rate: "en_rate s1 = snd (bucket_take t (en_rate s))" using receive_message_fields by blast
  have "tokens (en_rate s) < of_nat (Suc (length fs + 1))" using Cons.prems(2) by simp
  from take_at [OF Cons.prems(1) this] have "updated_at (en_rate s1) = t" "tokens (en_rate s1) < of_nat (length fs) + 1"
    unfolding rate by auto
  from Cons.IH [OF this] show ?case by (simp add: f one)
qed simp

text \<open>
  One sender silences a node. The bucket of the whole node is charged before the one of the sender,
  also for the frames that the sender's bucket then refuses. When it has fewer than \<open>n + 1\<close> tokens left,
  \<open>n\<close> frames that one sender gets through at one moment, whatever its own limit, make the node
  drop the next frame of every other sender at that moment.
\<close>

theorem flood_starves:
  assumes "updated_at (en_rate s) = t" "tokens (en_rate s) < of_nat (length fs) + 1"
    and "s' = fold (\<lambda>(t2, t3, msg) s. snd (receive_message cr p (t, t2, t3) msg s)) fs s"
  shows "\<exists>s''. receive_message cr q (t, t2, t3) msg s' = (Inr None, s'') \<and> en_node s'' = node_bump ''rate_limited'' (en_node s')"
proof -
  have "updated_at (en_rate s') = t" "tokens (en_rate s') < 1"
    using flood_rate [OF assms(1,2), of cr p] assms(3) by simp_all
  then have "\<not> fst (bucket_take t (en_rate s'))"
    by (auto simp: bucket_take_def bucket_allow_def Let_def)
  then obtain b where "bucket_take t (en_rate s') = (False, b)" by (cases "bucket_take t (en_rate s')") auto
  then have "admit_frame q t t2 s' = (False, s'\<lparr>en_rate := b\<rparr>)" by (simp add: admit_frame_def)
  then show ?thesis by (simp add: receive_message_def)
qed

theorem flood_starves_witness:
  "\<exists>s''. receive_message demo_crypto ''q'' (0, 0, 0) JNull
      (fold (\<lambda>(t2, t3, msg) s. snd (receive_message demo_crypto ''p'' (0, t2, t3) msg s)) (replicate 1000 (0, 0, JNull)) (entry_init idle 64 1 1 0))
    = (Inr None, s'')"
  using flood_starves [of "entry_init idle 64 1 1 0" 0 "replicate 1000 (0, 0, JNull)" _ demo_crypto "''p''" "''q''" 0 0 JNull, OF _ _ refl]
  by (auto simp: entry_init_def)

end
