(* ===== verification/Ccd_Wire.thy ===== *)
theory Ccd_Wire
  imports Domain Wire
begin

section \<open>Wire encodings of CCD/NEXUS (ccd_nexus/network.py)\<close>

text \<open>
  \<open>..._to_wire\<close> and \<open>..._from_wire\<close> for operations, votes and certificates. \<open>InputRef(**item)\<close> takes
  an object with exactly the fields of the class, whose values it does not convert; as in
  \<open>Wire_Base\<close>, texts must be JSON strings here, and versions JSON integers. \<open>_unb64\<close> of this
  module is \<open>b64decode\<close> without \<open>validate\<close>: characters outside the alphabet are skipped and what follows
  the padding is ignored.
\<close>

subsection \<open>base64 that skips\<close>

text \<open>The loop of \<open>binascii.a2b_base64\<close>: position in the group, bits left over, padding seen.\<close>

fun lenient_decode :: "nat \<Rightarrow> nat \<Rightarrow> nat \<Rightarrow> string \<Rightarrow> nat list option" where
  "lenient_decode quad left pads [] = (if quad = 0 then Some [] else None)"
| "lenient_decode quad left pads (c # cs) =
     (if c = CHR ''='' then
        (if 2 \<le> quad \<and> 4 \<le> quad + pads + 1 then Some []
         else lenient_decode quad left (if 2 \<le> quad then pads + 1 else pads) cs)
      else (case b64_value c of
        None \<Rightarrow> lenient_decode quad left pads cs
      | Some d \<Rightarrow>
          if quad = 0 then lenient_decode 1 d 0 cs
          else if quad = 1 then map_option (\<lambda>bs. (left * 4 + d div 16) # bs) (lenient_decode 2 (d mod 16) 0 cs)
          else if quad = 2 then map_option (\<lambda>bs. (left * 16 + d div 4) # bs) (lenient_decode 3 (d mod 4) 0 cs)
          else map_option (\<lambda>bs. (left * 64 + d) # bs) (lenient_decode 0 0 0 cs)))"

definition lenient_unb64 :: "string \<Rightarrow> wire_error + string" where
  "lenient_unb64 value =
     (if \<exists>c \<in> set value. 128 \<le> (of_char c :: nat) then Inl (WireValueError ''ordinal not in range(128)'')
      else (case lenient_decode 0 0 0 value of
        None \<Rightarrow> Inl (WireValueError ''Incorrect padding'') | Some bs \<Rightarrow> Inr (map char_of bs)))"

lemma lenient_encode: "\<forall>b \<in> set bs. b < 256 \<Longrightarrow> lenient_decode 0 0 0 (b64_encode bs) = Some bs"
proof (induction bs rule: b64_encode.induct)
  case (2 a)
  then have "a div 4 < 64" "a mod 4 * 16 < 64" by auto
  then show ?case by (simp add: b64_value_char b64_char_pad)
next
  case (3 a b)
  then have "a div 4 < 64" "a mod 4 * 16 + b div 16 < 64" "b mod 16 * 4 < 64" by auto
  moreover have "b div 16 < 16" using 3 by auto
  then have "(a mod 4 * 16 + b div 16) div 16 = a mod 4" "(a mod 4 * 16 + b div 16) mod 16 = b div 16"
    by simp_all
  ultimately show ?case by (simp add: b64_value_char b64_char_pad)
next
  case (4 a b c bs)
  then have "a div 4 < 64" "a mod 4 * 16 + b div 16 < 64" "b mod 16 * 4 + c div 64 < 64" "c mod 64 < 64"
    by auto
  moreover have "b div 16 < 16" "c div 64 < 4" using 4 by auto
  then have "(a mod 4 * 16 + b div 16) div 16 = a mod 4" "(a mod 4 * 16 + b div 16) mod 16 = b div 16"
    "(b mod 16 * 4 + c div 64) div 4 = b mod 16" "(b mod 16 * 4 + c div 64) mod 4 = c div 64"
    by simp_all
  ultimately show ?case using 4 by (simp add: b64_value_char b64_char_pad)
qed simp

lemma b64_char_ascii: "n < 64 \<Longrightarrow> (of_char (b64_char n) :: nat) < 128"
  unfolding b64_char_def by (auto simp: of_char_of take_bit_nat_def)

lemma b64_encode_ascii: "\<forall>b \<in> set bs. b < 256 \<Longrightarrow> c \<in> set (b64_encode bs) \<Longrightarrow> (of_char c :: nat) < 128"
proof (induction bs rule: b64_encode.induct)
  case (2 a)
  then have "a div 4 < 64" "a mod 4 * 16 < 64" by auto
  with 2 show ?case by (auto simp: b64_char_ascii)
next
  case (3 a b)
  then have "a div 4 < 64" "a mod 4 * 16 + b div 16 < 64" "b mod 16 * 4 < 64" by auto
  with 3 show ?case by (auto simp: b64_char_ascii)
next
  case (4 a b d bs)
  then have "a div 4 < 64" "a mod 4 * 16 + b div 16 < 64" "b mod 16 * 4 + d div 64 < 64" "d mod 64 < 64" by auto
  with 4 show ?case by (auto simp: b64_char_ascii)
qed simp

lemma lenient_unb64_b64 [simp]: "lenient_unb64 (b64 value) = Inr value"
proof -
  have small: "\<forall>b \<in> set (map of_char value). b < (256 :: nat)" by (simp add: nat_of_char_less_256)
  then have "\<not> (\<exists>c \<in> set (b64 value). 128 \<le> (of_char c :: nat))"
    unfolding b64_def using b64_encode_ascii by (meson not_less)
  with lenient_encode [OF small] show ?thesis by (simp add: lenient_unb64_def b64_def comp_def)
qed

definition base64_lenient :: "json \<Rightarrow> wire_error + string" where
  "base64_lenient v = bindE (as_text v) lenient_unb64"

definition lenient_field :: "string \<Rightarrow> json \<Rightarrow> wire_error + string" where
  "lenient_field k d = bindE (jfield k d) base64_lenient"

subsection \<open>Objects with exactly given fields\<close>

definition exact_fields :: "string list \<Rightarrow> json \<Rightarrow> wire_error + json" where
  "exact_fields ks v = (case v of
     JObj kvs \<Rightarrow> if set (map fst kvs) = set ks then Inr v else Inl WireTypeError | _ \<Rightarrow> Inl WireTypeError)"

definition as_int_value :: "json \<Rightarrow> wire_error + int" where
  "as_int_value v = (case v of JInt i \<Rightarrow> Inr i | _ \<Rightarrow> Inl WireTypeError)"

definition value_field :: "string \<Rightarrow> json \<Rightarrow> wire_error + int" where
  "value_field k d = bindE (jfield k d) as_int_value"

definition input_from_wire :: "json \<Rightarrow> wire_error + input_ref" where
  "input_from_wire v =
     bindE (exact_fields [''domain_id'', ''object_id'', ''expected_version''] v) (\<lambda>d.
     bindE (text_field ''domain_id'' d) (\<lambda>dom.
     bindE (text_field ''object_id'' d) (\<lambda>obj.
     bindE (value_field ''expected_version'' d) (\<lambda>ver.
       Inr \<lparr>in_domain = dom, in_object = obj, in_version = ver\<rparr>))))"

definition write_from_wire :: "json \<Rightarrow> wire_error + write_intent" where
  "write_from_wire v =
     bindE (exact_fields [''domain_id'', ''object_id'', ''expected_version'', ''new_owner'', ''new_payload''] v) (\<lambda>d.
     bindE (text_field ''domain_id'' d) (\<lambda>dom.
     bindE (text_field ''object_id'' d) (\<lambda>obj.
     bindE (value_field ''expected_version'' d) (\<lambda>ver.
     bindE (text_field ''new_owner'' d) (\<lambda>own.
     bindE (text_field ''new_payload'' d) (\<lambda>pay.
       Inr \<lparr>wr_domain = dom, wr_object = obj, wr_version = ver, new_owner = own, new_payload = pay\<rparr>))))))"

text \<open>A pair, read by \<open>item[0]\<close> and \<open>item[1]\<close>: further entries are not looked at.\<close>

definition pair_from_wire :: "(json \<Rightarrow> wire_error + 'a) \<Rightarrow> json \<Rightarrow> wire_error + string \<times> 'a" where
  "pair_from_wire f v = (case v of
     JArr (x # y # _) \<Rightarrow> bindE (as_text x) (\<lambda>k. bindE (f y) (\<lambda>a. Inr (k, a)))
   | JArr _ \<Rightarrow> Inl WireTypeError
   | _ \<Rightarrow> Inl WireTypeError)"

definition list_field :: "(json \<Rightarrow> wire_error + 'a) \<Rightarrow> string \<Rightarrow> json \<Rightarrow> wire_error + 'a list" where
  "list_field f k d = bindE (jfield k d) (\<lambda>v. bindE (as_list v) (mapE f))"

subsection \<open>Operations, votes, certificates\<close>

definition operation_to_wire :: "operation \<Rightarrow> json" where
  "operation_to_wire oper = JObj
     [(''op_id'', JStr (op_id oper)), (''epoch'', JInt (op_epoch oper)), (''signer'', JStr (op_signer oper)),
      (''signer_public_key'', JStr (b64 (op_public_key oper))),
      (''domain_ids'', JArr (map JStr (op_domains oper))), (''inputs'', JArr (map input_json (op_inputs oper))),
      (''writes'', JArr (map write_json (op_writes oper))),
      (''parent_certificates'', JArr (map JStr (op_parents oper))), (''nonce'', JInt (op_nonce oper)),
      (''signature'', JStr (b64 (op_signature oper)))]"

definition operation_from_wire :: "json \<Rightarrow> wire_error + operation" where
  "operation_from_wire d =
     bindE (text_field ''op_id'' d) (\<lambda>oid.
     bindE (int_field ''epoch'' d) (\<lambda>ep.
     bindE (text_field ''signer'' d) (\<lambda>who.
     bindE (lenient_field ''signer_public_key'' d) (\<lambda>pk.
     bindE (text_list_field ''domain_ids'' d) (\<lambda>doms.
     bindE (list_field input_from_wire ''inputs'' d) (\<lambda>ins.
     bindE (list_field write_from_wire ''writes'' d) (\<lambda>wrs.
     bindE (text_list_field ''parent_certificates'' d) (\<lambda>pars.
     bindE (int_field ''nonce'' d) (\<lambda>non.
     bindE (lenient_field ''signature'' d) (\<lambda>sig.
       Inr \<lparr>op_id = oid, op_epoch = ep, op_signer = who, op_public_key = pk, op_domains = doms, op_inputs = ins,
            op_writes = wrs, op_parents = pars, op_nonce = non, op_signature = sig\<rparr>))))))))))"

definition vote_to_wire :: "vote \<Rightarrow> json" where
  "vote_to_wire v = JObj
     [(''validator_id'', JStr (vt_validator v)), (''epoch'', JInt (vt_epoch v)), (''domain_id'', JStr (vt_domain v)),
      (''object_versions'', JArr (map (\<lambda>(k, n). JArr [JStr k, JInt n]) (vt_versions v))),
      (''op_id'', JStr (vt_op_id v)), (''dependency_digest'', JStr (vt_dependency v)),
      (''phase'', JStr (vt_phase v)), (''signature'', JStr (b64 (vt_signature v)))]"

definition vote_from_wire :: "json \<Rightarrow> wire_error + vote" where
  "vote_from_wire d =
     bindE (text_field ''validator_id'' d) (\<lambda>vid.
     bindE (int_field ''epoch'' d) (\<lambda>ep.
     bindE (text_field ''domain_id'' d) (\<lambda>dom.
     bindE (list_field (pair_from_wire as_integer) ''object_versions'' d) (\<lambda>vs.
     bindE (text_field ''op_id'' d) (\<lambda>oid.
     bindE (text_field ''dependency_digest'' d) (\<lambda>dep.
     bindE (text_field ''phase'' d) (\<lambda>ph.
     bindE (lenient_field ''signature'' d) (\<lambda>sig.
       Inr \<lparr>vt_validator = vid, vt_epoch = ep, vt_domain = dom, vt_versions = vs, vt_op_id = oid,
            vt_dependency = dep, vt_phase = ph, vt_signature = sig\<rparr>))))))))"

definition signatures_json :: "signature_items \<Rightarrow> json" where
  "signatures_json sigs = JArr (map (\<lambda>(who, s). JArr [JStr who, JStr (b64 s)]) sigs)"

definition certificate_to_wire :: "certificate \<Rightarrow> json" where
  "certificate_to_wire c = JObj
     [(''certificate_id'', JStr (ct_id c)), (''epoch'', JInt (ct_epoch c)),
      (''domain_ids'', JArr (map JStr (ct_domains c))), (''op_id'', JStr (ct_op_id c)), (''phase'', JStr (ct_phase c)),
      (''signers'', JArr (map JStr (ct_signers c))), (''signatures'', signatures_json (ct_signatures c)),
      (''statement_digest'', JStr (ct_statement c))]"

definition certificate_from_wire :: "json \<Rightarrow> wire_error + certificate" where
  "certificate_from_wire d =
     bindE (text_field ''certificate_id'' d) (\<lambda>cid.
     bindE (int_field ''epoch'' d) (\<lambda>ep.
     bindE (text_list_field ''domain_ids'' d) (\<lambda>doms.
     bindE (text_field ''op_id'' d) (\<lambda>oid.
     bindE (text_field ''phase'' d) (\<lambda>ph.
     bindE (text_list_field ''signers'' d) (\<lambda>who.
     bindE (list_field (pair_from_wire base64_lenient) ''signatures'' d) (\<lambda>sigs.
     bindE (text_field ''statement_digest'' d) (\<lambda>stmt.
       Inr \<lparr>ct_id = cid, ct_epoch = ep, ct_domains = doms, ct_op_id = oid, ct_phase = ph, ct_signers = who,
            ct_signatures = sigs, ct_statement = stmt\<rparr>))))))))"

definition dac_to_wire :: "availability_certificate \<Rightarrow> json" where
  "dac_to_wire da = JObj
     [(''certificate_id'', JStr (da_id da)), (''epoch'', JInt (da_epoch da)), (''op_id'', JStr (da_op_id da)),
      (''payload_digest'', JStr (da_payload da)), (''signers'', JArr (map JStr (da_signers da))),
      (''signatures'', signatures_json (da_signatures da)), (''statement_digest'', JStr (da_statement da))]"

definition dac_from_wire :: "json \<Rightarrow> wire_error + availability_certificate" where
  "dac_from_wire d =
     bindE (text_field ''certificate_id'' d) (\<lambda>cid.
     bindE (int_field ''epoch'' d) (\<lambda>ep.
     bindE (text_field ''op_id'' d) (\<lambda>oid.
     bindE (text_field ''payload_digest'' d) (\<lambda>pay.
     bindE (text_list_field ''signers'' d) (\<lambda>who.
     bindE (list_field (pair_from_wire base64_lenient) ''signatures'' d) (\<lambda>sigs.
     bindE (text_field ''statement_digest'' d) (\<lambda>stmt.
       Inr \<lparr>da_id = cid, da_epoch = ep, da_op_id = oid, da_payload = pay, da_signers = who, da_signatures = sigs,
            da_statement = stmt\<rparr>)))))))"

subsection \<open>Round trips\<close>

lemmas ccd_wire_simps = roundtrip_simps lenient_field_def base64_lenient_def list_field_def value_field_def

lemma exact_norm: "exact_fields ks (JObj kvs) = Inr (JObj kvs) \<Longrightarrow>
    exact_fields ks (json_norm (JObj kvs)) = Inr (json_norm (JObj kvs))"
proof -
  have "fst ` (\<lambda>(k, v). (k, json_norm v)) ` set kvs = fst ` set kvs" by force
  then show "exact_fields ks (JObj kvs) = Inr (JObj kvs) \<Longrightarrow> ?thesis"
    by (simp add: exact_fields_def split: if_splits)
qed

lemma input_roundtrip: "input_from_wire (json_norm (input_json i)) = Inr i"
  unfolding input_json_def input_from_wire_def
  by (subst exact_norm) (simp_all add: exact_fields_def ccd_wire_simps as_int_value_def del: json_norm.simps(2))

lemma write_roundtrip: "write_from_wire (json_norm (write_json w)) = Inr w"
  unfolding write_json_def write_from_wire_def
  by (subst exact_norm) (simp_all add: exact_fields_def ccd_wire_simps as_int_value_def del: json_norm.simps(2))

lemma mapE_norm: "(\<And>x. f (json_norm (g x)) = Inr x) \<Longrightarrow> mapE f (map json_norm (map g xs)) = Inr xs"
  using mapE_map [of xs f "\<lambda>x. json_norm (g x)" "\<lambda>x. x"] by (simp add: comp_def)

lemma pair_roundtrips:
  "pair_from_wire as_integer (json_norm ((\<lambda>(k, n). JArr [JStr k, JInt n]) p)) = Inr p"
  "pair_from_wire base64_lenient (json_norm ((\<lambda>(who, s). JArr [JStr who, JStr (b64 s)]) q)) = Inr q"
  by (auto simp: pair_from_wire_def wire_simps base64_lenient_def split: prod.splits)

lemmas lists_back = mapE_norm [OF input_roundtrip] mapE_norm [OF write_roundtrip]
  mapE_norm [where f = "pair_from_wire as_integer", OF pair_roundtrips(1)]
  mapE_norm [where f = "pair_from_wire base64_lenient", OF pair_roundtrips(2)]

lemma operation_roundtrip: "operation_from_wire (json_norm (operation_to_wire oper)) = Inr oper"
  unfolding operation_to_wire_def operation_from_wire_def
  by (simp add: ccd_wire_simps lists_back del: json_norm.simps(2) map_map)

lemma vote_roundtrip: "vote_from_wire (json_norm (vote_to_wire v)) = Inr v"
  unfolding vote_to_wire_def vote_from_wire_def
  by (simp add: ccd_wire_simps lists_back del: json_norm.simps(2) map_map)

lemma certificate_roundtrip: "certificate_from_wire (json_norm (certificate_to_wire c)) = Inr c"
  unfolding certificate_to_wire_def certificate_from_wire_def signatures_json_def
  by (simp add: ccd_wire_simps lists_back del: json_norm.simps(2) map_map)

lemma dac_roundtrip: "dac_from_wire (json_norm (dac_to_wire da)) = Inr da"
  unfolding dac_to_wire_def dac_from_wire_def signatures_json_def
  by (simp add: ccd_wire_simps lists_back del: json_norm.simps(2) map_map)

text \<open>
  C40. The CCD/NEXUS encodings lose nothing: operations, votes, certificates and data availability
  certificates that cross the network are read back as they were, so their signatures still verify.
\<close>

theorem ccd_wire_roundtrip:
  "operation_from_wire (json_norm (operation_to_wire oper)) = Inr oper
   \<and> vote_from_wire (json_norm (vote_to_wire v)) = Inr v
   \<and> certificate_from_wire (json_norm (certificate_to_wire c)) = Inr c
   \<and> dac_from_wire (json_norm (dac_to_wire da)) = Inr da"
  using operation_roundtrip vote_roundtrip certificate_roundtrip dac_roundtrip by blast

text \<open>
  Different texts for one signature. Because \<open>_unb64\<close> skips what is not in the alphabet, a message can be
  changed in transit, by blanks inside a signature for instance, and still be read as the same object;
  the reader of the other package refuses such a text.
\<close>

theorem base64_malleable:
  "lenient_unb64 (CHR '' '' # b64 s) = Inr s \<and> unb64 ''AA A='' \<noteq> lenient_unb64 ''AA A=''"
proof -
  have "b64_value (CHR '' '') = None" by (simp add: b64_value_def)
  then have "lenient_decode 0 0 0 (CHR '' '' # cs) = lenient_decode 0 0 0 cs" for cs by simp
  moreover have "\<not> 128 \<le> (of_char (CHR '' '') :: nat)" by simp
  moreover have "(\<exists>c \<in> set (CHR '' '' # b64 s). 128 \<le> (of_char c :: nat)) = (\<exists>c \<in> set (b64 s). 128 \<le> (of_char c :: nat))"
    using calculation(2) by auto
  ultimately have "lenient_unb64 (CHR '' '' # b64 s) = lenient_unb64 (b64 s)"
    by (simp only: lenient_unb64_def)
  moreover have "unb64 ''AA A='' \<noteq> lenient_unb64 ''AA A=''" by code_simp
  ultimately show ?thesis by simp
qed

end
