(* ===== verification/Ccd_Network.thy ===== *)
theory Ccd_Network
  imports Ccd_Wire
begin

section \<open>The CCD/NEXUS network node (ccd_nexus/network.py)\<close>

text \<open>
  \<open>DistributedNode\<close> runs the two phases over messages: the leader collects votes into certificates,
  the others vote and apply. As in \<open>Gossip\<close>, the code of a handler between two points where it
  waits is one function on the node (a section), what is left to do is a list of \<open>net_work\<close>, and what
  it sends is appended to \<open>nd_outbox\<close>; delivery, also to itself, is the environment's. The
  node's domain and committee are the pair \<open>nd_site\<close>. A future is the ticket of its submission.
  Frames, delays, byte counters and elapsed times are left out.
\<close>

datatype net_message =
    PrepareRequest operation availability_certificate string
  | PrepareVote vote
  | CommitRequest operation certificate string
  | CommitVote vote
  | CommitCertificate operation certificate string
  | Ack string string

datatype net_answer =
    NotLeader
  | OperationPending
  | Committed string string "string list" int
  | CommitTimeout string

datatype net_output =
    Everyone net_message
  | Others net_message
  | Peer string net_message
  | Reply net_answer

datatype net_work =
    Process net_message
  | SubmitOperation operation
  | Forge string net_message
  | MaybeFinish string
  | ExpireOperation string nat

datatype net_error = NetCcd ccd_error | NetWire wire_error | NetAttributeError

record pending_operation =
  po_operation :: operation
  po_dac :: availability_certificate
  po_prepare :: "certificate option"
  po_commit :: "certificate option"
  po_acks :: "string list"
  po_ticket :: nat

record dist_node =
  nd_id :: string
  nd_leader :: string
  nd_validator :: validator
  nd_site :: site
  nd_pending :: "(string, pending_operation) dict"
  nd_ticket :: nat
  nd_metrics :: "(string, int) dict"
  nd_outbox :: "net_output list"
  nd_stopped :: bool

type_synonym 'a net_outcome = "(dist_node, net_error, 'a) outcome"
type_synonym net_section = "dist_node \<Rightarrow> net_work list net_outcome"

definition dist_init :: "string \<Rightarrow> string \<Rightarrow> validator \<Rightarrow> site \<Rightarrow> dist_node" where
  "dist_init nid leader va st = \<lparr>nd_id = nid, nd_leader = leader, nd_validator = va, nd_site = st,
     nd_pending = [], nd_ticket = 0, nd_metrics = [], nd_outbox = [], nd_stopped = False\<rparr>"

definition net_bump :: "string \<Rightarrow> dist_node \<Rightarrow> dist_node" where
  "net_bump k n = n\<lparr>nd_metrics := AList.update k
     ((case map_of (nd_metrics n) k of None \<Rightarrow> 0 | Some i \<Rightarrow> i) + 1) (nd_metrics n)\<rparr>"

definition net_emit :: "net_output \<Rightarrow> dist_node \<Rightarrow> dist_node" where
  "net_emit out n = n\<lparr>nd_outbox := nd_outbox n @ [out]\<rparr>"

definition set_pending :: "string \<Rightarrow> pending_operation \<Rightarrow> dist_node \<Rightarrow> dist_node" where
  "set_pending oid po n = n\<lparr>nd_pending := AList.update oid po (nd_pending n)\<rparr>"

definition nd_committee :: "dist_node \<Rightarrow> qcommittee" where
  "nd_committee n = snd (nd_site n)"

definition net_record :: "crypto \<Rightarrow> vote \<Rightarrow> dist_node \<Rightarrow> (dist_node, ccd_error, unit) outcome" where
  "net_record cr v n = (case record_vote cr v (nd_committee n) of
     (r, qc) \<Rightarrow> (r, n\<lparr>nd_site := (fst (nd_site n), qc)\<rparr>))"

subsection \<open>Submitting\<close>

definition net_submit :: "crypto \<Rightarrow> operation \<Rightarrow> net_section" where
  "net_submit cr oper n =
     (if nd_id n \<noteq> nd_leader n then (Inr [], net_emit (Reply NotLeader) n)
      else if has_key (nd_pending n) (op_id oper) then (Inr [], net_emit (Reply OperationPending) n)
      else (case validate_operation cr (fst (nd_site n)) oper of
        Inl e \<Rightarrow> (Inl (NetCcd e), n)
      | Inr _ \<Rightarrow>
          (case issue_dac cr oper (nd_committee n) of
             (Inl e, qc) \<Rightarrow> (Inl (NetCcd e), n\<lparr>nd_site := (fst (nd_site n), qc)\<rparr>)
           | (Inr da, qc) \<Rightarrow>
               (Inr [ExpireOperation (op_id oper) (nd_ticket n)],
                net_emit (Everyone (PrepareRequest oper da (nd_id n)))
                  (set_pending (op_id oper) \<lparr>po_operation = oper, po_dac = da, po_prepare = None, po_commit = None,
                      po_acks = [], po_ticket = nd_ticket n\<rparr>
                    (n\<lparr>nd_site := (fst (nd_site n), qc), nd_ticket := nd_ticket n + 1\<rparr>))))))"

definition net_expire :: "string \<Rightarrow> nat \<Rightarrow> net_section" where
  "net_expire oid ticket n =
     (case map_of (nd_pending n) oid of
        None \<Rightarrow> (Inr [], n)
      | Some po \<Rightarrow>
          if po_ticket po = ticket
          then (Inr [], (net_emit (Reply (CommitTimeout oid)) n)\<lparr>nd_pending := AList.delete oid (nd_pending n)\<rparr>)
          else (Inr [], n))"

subsection \<open>Voting\<close>

text \<open>
  The part \<open>_on_prepare_request\<close> and \<open>_on_commit_request\<close> share: validate, vote, record, send; a
  Byzantine node then sends a second vote, for another dependency digest, which it does not record.
\<close>

definition cast_vote :: "crypto \<Rightarrow> operation \<Rightarrow> string \<Rightarrow> string \<Rightarrow> (vote \<Rightarrow> net_message) \<Rightarrow> net_section" where
  "cast_vote cr oper phase leader msg n =
     (let d = fst (nd_site n); vs = object_versions_of d oper;
          signed = (\<lambda>dep. sign_vote cr (nd_validator n) (op_epoch oper) (dm_id d) vs (op_id oper) dep phase);
          dep = dependency_digest cr oper
      in case validate_operation cr d oper of
           Inl e \<Rightarrow> (Inl (NetCcd e), n)
         | Inr _ \<Rightarrow>
             (case net_record cr (signed dep) n of
                (Inl e, n') \<Rightarrow> (Inl (NetCcd e), n')
              | (Inr _, n') \<Rightarrow>
                  (Inr (if va_byzantine (nd_validator n)
                        then [Forge leader (msg (signed (dep @ ''-equivocation'')))] else []),
                   net_emit (Peer leader (msg (signed dep))) n')))"

definition on_prepare_request :: "crypto \<Rightarrow> operation \<Rightarrow> availability_certificate \<Rightarrow> string \<Rightarrow> net_section" where
  "on_prepare_request cr oper da leader n =
     (case verify_dac cr (nd_committee n) oper da of
        Inl e \<Rightarrow> (Inl (NetCcd e), n)
      | Inr ok \<Rightarrow> if ok then cast_vote cr oper ''PREPARE'' leader PrepareVote n else (Inr [], n))"

definition on_commit_request :: "crypto \<Rightarrow> operation \<Rightarrow> certificate \<Rightarrow> string \<Rightarrow> net_section" where
  "on_commit_request cr oper ct leader n =
     (let d = fst (nd_site n) in
      case verify_certificate cr (nd_committee n) ct (op_epoch oper) (dm_id d) (object_versions_of d oper) oper of
        Inl e \<Rightarrow> (Inl (NetCcd e), n)
      | Inr ok \<Rightarrow> if ok then cast_vote cr oper ''COMMIT'' leader CommitVote n else (Inr [], n))"

subsection \<open>Counting votes\<close>

text \<open>
  \<open>_on_prepare_vote\<close> and \<open>_on_commit_vote\<close> up to their certificate: \<open>done\<close> tells whether there is one
  already, \<open>use\<close> is what they do with a new one. \<open>QuorumError\<close> is the only exception they catch.
\<close>

definition is_quorum_error :: "ccd_error \<Rightarrow> bool" where
  "is_quorum_error e = (case e of QuorumError _ \<Rightarrow> True | _ \<Rightarrow> False)"

definition count_vote ::
  "crypto \<Rightarrow> vote \<Rightarrow> string \<Rightarrow> (pending_operation \<Rightarrow> bool) \<Rightarrow>
   (pending_operation \<Rightarrow> certificate \<Rightarrow> net_section) \<Rightarrow> net_section" where
  "count_vote cr v phase done use n =
     (if nd_id n \<noteq> nd_leader n then (Inr [], n)
      else (case map_of (nd_pending n) (vt_op_id v) of
        None \<Rightarrow> (Inr [], n)
      | Some po \<Rightarrow>
          (case net_record cr v n of
             (Inl e, n') \<Rightarrow> if is_quorum_error e then (Inr [], net_bump ''equivocations'' n') else (Inl (NetCcd e), n')
           | (Inr _, n') \<Rightarrow>
               if done po then (Inr [], n')
               else (let oper = po_operation po; d = fst (nd_site n') in
                 case issue_certificate cr (nd_committee n') (op_epoch oper) (dm_id d)
                        (object_versions_of d oper) oper phase of
                   Inl e \<Rightarrow> if is_quorum_error e then (Inr [], n') else (Inl (NetCcd e), n')
                 | Inr ct \<Rightarrow> use po ct n'))))"

definition on_prepare_vote :: "crypto \<Rightarrow> vote \<Rightarrow> net_section" where
  "on_prepare_vote cr v =
     count_vote cr v ''PREPARE'' (\<lambda>po. po_prepare po \<noteq> None) (\<lambda>po ct n.
       (Inr [], net_emit (Everyone (CommitRequest (po_operation po) ct (nd_id n)))
                  (set_pending (vt_op_id v) (po\<lparr>po_prepare := Some ct\<rparr>) n)))"

definition net_apply :: "crypto \<Rightarrow> operation \<Rightarrow> certificate \<Rightarrow> dist_node \<Rightarrow> unit net_outcome" where
  "net_apply cr oper ct n = (case apply_committed cr oper ct (nd_site n) of
     (r, s) \<Rightarrow> (case r of Inl e \<Rightarrow> Inl (NetCcd e) | Inr _ \<Rightarrow> Inr (), n\<lparr>nd_site := s\<rparr>))"

definition on_commit_vote :: "crypto \<Rightarrow> vote \<Rightarrow> net_section" where
  "on_commit_vote cr v =
     count_vote cr v ''COMMIT'' (\<lambda>po. po_commit po \<noteq> None) (\<lambda>po ct n.
       thenS (net_apply cr (po_operation po) ct) (\<lambda>_ n.
         (Inr [MaybeFinish (op_id (po_operation po))],
          net_emit (Others (CommitCertificate (po_operation po) ct (nd_id n)))
            (set_pending (vt_op_id v)
              (po\<lparr>po_commit := Some ct, po_acks := List.insert (nd_id n) (po_acks po)\<rparr>) n)))
       (set_pending (vt_op_id v) (po\<lparr>po_commit := Some ct\<rparr>) n))"

subsection \<open>Applying and acknowledging\<close>

definition on_commit_certificate :: "crypto \<Rightarrow> operation \<Rightarrow> certificate \<Rightarrow> string \<Rightarrow> net_section" where
  "on_commit_certificate cr oper ct leader n =
     (let d = fst (nd_site n) in
      if nd_id n = nd_leader n then (Inr [], n)
      else (case verify_certificate cr (nd_committee n) ct (op_epoch oper) (dm_id d)
                   (object_versions_of d oper) oper of
        Inl e \<Rightarrow> (Inl (NetCcd e), n)
      | Inr ok \<Rightarrow>
          if \<not> ok then (Inr [], n)
          else thenS (net_apply cr oper ct) (\<lambda>_ n. (Inr [], net_emit (Peer leader (Ack (op_id oper) (nd_id n))) n)) n))"

definition maybe_finish :: "string \<Rightarrow> net_section" where
  "maybe_finish oid n =
     (case map_of (nd_pending n) oid of
        None \<Rightarrow> (Inr [], n)
      | Some po \<Rightarrow>
          (case qc_weight_of (nd_committee n) (po_acks po) of
             Inl _ \<Rightarrow> (Inr [], n)
           | Inr w \<Rightarrow>
               if w < qc_threshold (nd_committee n) then (Inr [], n)
               else (case po_commit po of
                  None \<Rightarrow> (Inl NetAttributeError, n)
                | Some ct \<Rightarrow>
                    (Inr [], (net_emit (Reply (Committed oid (ct_id ct) (sort (po_acks po)) w)) n)
                       \<lparr>nd_pending := AList.delete oid (nd_pending n)\<rparr>))))"

definition on_ack :: "string \<Rightarrow> string \<Rightarrow> net_section" where
  "on_ack oid who n =
     (case map_of (nd_pending n) oid of
        None \<Rightarrow> (Inr [], n)
      | Some po \<Rightarrow> maybe_finish oid (set_pending oid (po\<lparr>po_acks := List.insert who (po_acks po)\<rparr>) n))"

subsection \<open>Sections and tasks\<close>

fun process :: "crypto \<Rightarrow> net_message \<Rightarrow> net_section" where
  "process cr (PrepareRequest oper da leader) = on_prepare_request cr oper da leader"
| "process cr (PrepareVote v) = on_prepare_vote cr v"
| "process cr (CommitRequest oper ct leader) = on_commit_request cr oper ct leader"
| "process cr (CommitVote v) = on_commit_vote cr v"
| "process cr (CommitCertificate oper ct leader) = on_commit_certificate cr oper ct leader"
| "process cr (Ack oid who) = on_ack oid who"

fun net_section_of :: "crypto \<Rightarrow> net_work \<Rightarrow> net_section" where
  "net_section_of cr (Process m) n = process cr m n"
| "net_section_of cr (SubmitOperation oper) n = net_submit cr oper n"
| "net_section_of cr (Forge leader m) n = (Inr [], net_emit (Peer leader m) n)"
| "net_section_of cr (MaybeFinish oid) n = maybe_finish oid n"
| "net_section_of cr (ExpireOperation oid t) n = net_expire oid t n"

text \<open>\<open>except (\<dots>, ValueError, KeyError)\<close> of \<open>_handle_connection\<close>\<close>

definition net_caught :: "net_error \<Rightarrow> bool" where
  "net_caught e = (case e of
     NetCcd (CcdIndexError _) \<Rightarrow> False | NetCcd CcdZeroDivision \<Rightarrow> False | NetCcd _ \<Rightarrow> True
   | NetWire w \<Rightarrow> w \<noteq> WireTypeError
   | NetAttributeError \<Rightarrow> False)"

definition net_failed :: "net_error \<Rightarrow> dist_node \<Rightarrow> dist_node" where
  "net_failed e n = (if net_caught e then net_bump ''errors'' n else n)"

definition run_net_section :: "crypto \<Rightarrow> net_work \<Rightarrow> net_work list \<Rightarrow> dist_node \<Rightarrow> net_work list \<times> dist_node" where
  "run_net_section cr w rest n = (case net_section_of cr w n of
     (Inr ws, n') \<Rightarrow> (ws @ rest, n') | (Inl e, n') \<Rightarrow> ([], net_failed e n'))"

subsection \<open>Dispatch and sending\<close>

datatype net_dispatch = NetWork net_work | NetMetrics | NetStopping | NetUnknown

definition read_operation :: "json \<Rightarrow> wire_error + operation" where
  "read_operation msg = bindE (jfield ''operation'' msg) operation_from_wire"

definition read_vote :: "json \<Rightarrow> wire_error + vote" where
  "read_vote msg = bindE (jfield ''vote'' msg) vote_from_wire"

definition net_spawn :: "(json \<Rightarrow> wire_error + net_message) \<Rightarrow> json \<Rightarrow> dist_node \<Rightarrow> net_dispatch net_outcome" where
  "net_spawn f msg n = (case f msg of Inl e \<Rightarrow> (Inl (NetWire e), n) | Inr m \<Rightarrow> (Inr (NetWork (Process m)), n))"

definition net_dispatch :: "json \<Rightarrow> dist_node \<Rightarrow> net_dispatch net_outcome" where
  "net_dispatch msg n =
     (case msg of
        JObj kvs \<Rightarrow>
          (let kind = map_of kvs ''type'' in
           if kind = Some (JStr ''SUBMIT'')
           then (case read_operation msg of Inl e \<Rightarrow> (Inl (NetWire e), n) | Inr oper \<Rightarrow> (Inr (NetWork (SubmitOperation oper)), n))
           else if kind = Some (JStr ''PREPARE_REQUEST'')
           then net_spawn (\<lambda>m. bindE (read_operation m) (\<lambda>oper. bindE (jfield ''dac'' m) (\<lambda>da.
                  bindE (text_field ''leader_id'' m) (\<lambda>leader. bindE (dac_from_wire da) (\<lambda>da.
                    Inr (PrepareRequest oper da leader)))))) msg n
           else if kind = Some (JStr ''PREPARE_VOTE'')
           then net_spawn (\<lambda>m. bindE (read_vote m) (\<lambda>v. Inr (PrepareVote v))) msg n
           else if kind = Some (JStr ''COMMIT_REQUEST'')
           then net_spawn (\<lambda>m. bindE (read_operation m) (\<lambda>oper. bindE (jfield ''prepare_certificate'' m) (\<lambda>v.
                  bindE (certificate_from_wire v) (\<lambda>ct. bindE (text_field ''leader_id'' m) (\<lambda>leader.
                    Inr (CommitRequest oper ct leader)))))) msg n
           else if kind = Some (JStr ''COMMIT_VOTE'')
           then net_spawn (\<lambda>m. bindE (read_vote m) (\<lambda>v. Inr (CommitVote v))) msg n
           else if kind = Some (JStr ''COMMIT_CERTIFICATE'')
           then net_spawn (\<lambda>m. bindE (read_operation m) (\<lambda>oper. bindE (jfield ''certificate'' m) (\<lambda>v.
                  bindE (certificate_from_wire v) (\<lambda>ct. bindE (text_field ''leader_id'' m) (\<lambda>leader.
                    Inr (CommitCertificate oper ct leader)))))) msg n
           else if kind = Some (JStr ''ACK'')
           then net_spawn (\<lambda>m. bindE (text_field ''op_id'' m) (\<lambda>oid. bindE (text_field ''node_id'' m) (\<lambda>who.
                  Inr (Ack oid who)))) msg n
           else if kind = Some (JStr ''SHUTDOWN'') then (Inr NetStopping, n\<lparr>nd_stopped := True\<rparr>)
           else if kind = Some (JStr ''METRICS'') then (Inr NetMetrics, n)
           else (Inr NetUnknown, net_bump ''errors'' n))
      | _ \<Rightarrow> (Inl NetAttributeError, n))"

text \<open>A frame that has been read; a frame that cannot be read is \<open>None\<close>.\<close>

definition net_receive :: "json option \<Rightarrow> dist_node \<Rightarrow> net_dispatch option \<times> dist_node" where
  "net_receive fr n = (case fr of
     None \<Rightarrow> (None, net_bump ''errors'' n)
   | Some msg \<Rightarrow> (case net_dispatch msg (net_bump ''received_messages'' n) of
       (Inl e, n') \<Rightarrow> (None, net_failed e n') | (Inr a, n') \<Rightarrow> (Some a, n')))"

datatype net_attempt = NetDropped | NetFailed | NetSent

fun net_try_send :: "net_attempt list \<Rightarrow> nat \<Rightarrow> dist_node \<Rightarrow> bool \<times> dist_node" where
  "net_try_send [] k n = (False, n)"
| "net_try_send (a # as) k n =
     (let n1 = (if 0 < k then net_bump ''retries'' n else n) in
      case a of
        NetDropped \<Rightarrow> net_try_send as (k + 1) (net_bump ''dropped_messages'' n1)
      | NetFailed \<Rightarrow> net_try_send as (k + 1) (net_bump ''errors'' n1)
      | NetSent \<Rightarrow> (True, net_bump ''sent_messages'' n1))"

end
