(* ===== verification/Ccd_Agreement.thy ===== *)
theory Ccd_Agreement
  imports Ccd_Network Finality_Props
begin

section \<open>One operation per object version across CCD/NEXUS nodes\<close>

text \<open>
  Honest validators each run a node of their own, with a vote table of their own; the others may
  send anything. A certificate, of either phase, that verifies on some node names the only operation
  of its epoch, domain and object versions. Signatures enter as \<open>genuine\<close>: a signature in a
  certificate that verifies under the key of an honest validator was sent by its node before.
\<close>

subsection \<open>What a section sends and keeps\<close>

definition sent_votes :: "dist_node \<Rightarrow> vote set" where
  "sent_votes n = {v. \<exists>l. Peer l (PrepareVote v) \<in> set (nd_outbox n) \<or> Peer l (CommitVote v) \<in> set (nd_outbox n)}"

definition quiet :: "dist_node \<Rightarrow> dist_node \<Rightarrow> bool" where
  "quiet n n' \<longleftrightarrow> nd_validator n' = nd_validator n \<and> extends (nd_committee n) (nd_committee n')
     \<and> sent_votes n' = sent_votes n"

lemma quiet_refl [simp]: "quiet n n"
  by (simp add: quiet_def)

lemma quiet_trans: "quiet a b \<Longrightarrow> quiet b c \<Longrightarrow> quiet a c"
  using extends_trans by (auto simp: quiet_def)

lemma quietI:
  "nd_validator n' = nd_validator n \<Longrightarrow> extends (nd_committee n) (nd_committee n') \<Longrightarrow> nd_outbox n' = nd_outbox n \<Longrightarrow> quiet n n'"
  by (simp add: quiet_def sent_votes_def)

fun silent :: "net_output \<Rightarrow> bool" where
  "silent (Peer _ (PrepareVote _)) = False"
| "silent (Peer _ (CommitVote _)) = False"
| "silent _ = True"

lemma quiet_emit: "silent out \<Longrightarrow> quiet n (net_emit out n)"
  by (auto simp: quiet_def net_emit_def sent_votes_def nd_committee_def)

lemma quiet_simps [simp]:
  "quiet n (net_bump k n)" "quiet n (set_pending oid po n)" "quiet n (n\<lparr>nd_pending := d\<rparr>)"
  "quiet n (n\<lparr>nd_ticket := t\<rparr>)"
  by (simp_all add: quiet_def net_bump_def set_pending_def sent_votes_def nd_committee_def)

lemma quiet_failed: "quiet n (net_failed e n)"
  by (simp add: net_failed_def)

lemma quiet_record: "net_record cr v n = (r, n') \<Longrightarrow> quiet n n'"
  by (auto simp: net_record_def nd_committee_def intro!: quietI dest: record_vote_extends split: prod.splits)

lemma quiet_site: "extends (nd_committee n) (snd s) \<Longrightarrow> quiet n (n\<lparr>nd_site := s\<rparr>)"
  by (rule quietI) (simp_all add: nd_committee_def)

lemma apply_committed_committee: "apply_committed cr oper ct s = (r, s') \<Longrightarrow> snd s' = snd s"
  by (auto simp: apply_committed_def Let_def split: prod.splits sum.splits if_splits)

lemma quiet_apply: "net_apply cr oper ct n = (r, n') \<Longrightarrow> quiet n n'"
  using apply_committed_committee [of cr oper ct "nd_site n"]
  by (auto simp: net_apply_def nd_committee_def intro!: quiet_site split: prod.splits)

lemma quiet_expire: "net_expire oid t n = (r, n') \<Longrightarrow> quiet n n'"
  using quiet_trans [OF quiet_emit quiet_simps(3)]
  by (auto simp: net_expire_def split: option.splits if_splits)

lemma quiet_finish: "maybe_finish oid n = (r, n') \<Longrightarrow> quiet n n'"
  using quiet_trans [OF quiet_emit quiet_simps(3)]
  by (auto simp: maybe_finish_def split: option.splits if_splits sum.splits)

lemma quiet_ack: "on_ack oid who n = (r, n') \<Longrightarrow> quiet n n'"
  using quiet_trans [OF quiet_simps(2) quiet_finish]
  by (auto simp: on_ack_def split: option.splits)

lemma quiet_submit: "net_submit cr oper n = (r, n') \<Longrightarrow> quiet n n'"
proof -
  assume call: "net_submit cr oper n = (r, n')"
  have dac: "quiet n (n\<lparr>nd_site := (fst (nd_site n), qc)\<rparr>)" if "issue_dac cr oper (nd_committee n) = (q, qc)" for q qc
    using issue_dac_state [OF that] by (intro quiet_site) simp
  have rest: "quiet n (net_emit (Everyone m) (set_pending oid po (n\<lparr>nd_site := (fst (nd_site n), qc), nd_ticket := t\<rparr>)))"
    if "issue_dac cr oper (nd_committee n) = (q, qc)" for q qc m oid po t
    using quiet_trans [OF dac [OF that] quiet_trans [OF quiet_simps(4) quiet_trans [OF quiet_simps(2) quiet_emit]]]
    by simp
  show ?thesis
    using call dac rest quiet_emit
    by (auto simp: net_submit_def split: if_splits sum.splits prod.splits)
qed

lemma quiet_count:
  assumes call: "count_vote cr v phase stop use n = (r, n')"
    and use: "\<And>po ct m r m'. use po ct m = (r, m') \<Longrightarrow> quiet m m'"
  shows "quiet n n'"
proof (cases "nd_id n \<noteq> nd_leader n \<or> map_of (nd_pending n) (vt_op_id v) = None")
  case True
  with call show ?thesis by (elim disjE) (simp_all add: count_vote_def split: if_splits)
next
  case False
  then obtain po where po: "nd_id n = nd_leader n" "map_of (nd_pending n) (vt_op_id v) = Some po" by auto
  obtain q n1 where rec: "net_record cr v n = (q, n1)" by fastforce
  note one = quiet_record [OF rec]
  then have "quiet n (net_bump k n1)" for k using quiet_trans quiet_simps(1) by blast
  with call po rec one show ?thesis
    by (auto simp: count_vote_def Let_def split: sum.splits if_splits
        intro: quiet_trans [OF one use])
qed

lemma quiet_prepare_vote: "on_prepare_vote cr v n = (r, n') \<Longrightarrow> quiet n n'"
proof -
  have "quiet m (net_emit (Everyone x) (set_pending oid po m))" for m x oid po
    by (rule quiet_trans [OF quiet_simps(2) quiet_emit]) simp
  then show "on_prepare_vote cr v n = (r, n') \<Longrightarrow> ?thesis"
    unfolding on_prepare_vote_def by (elim quiet_count) auto
qed

lemma quiet_commit_vote: "on_commit_vote cr v n = (r, n') \<Longrightarrow> quiet n n'"
proof -
  have last: "quiet m (net_emit (Others x) (set_pending oid po m))" for m x oid po
    by (rule quiet_trans [OF quiet_simps(2) quiet_emit]) simp
  show "on_commit_vote cr v n = (r, n') \<Longrightarrow> ?thesis"
    unfolding on_commit_vote_def
  proof (erule quiet_count, erule thenS_cases)
    fix po ct m r m' e
    assume "r = Inl e" "net_apply cr (po_operation po) ct (set_pending (vt_op_id v) (po\<lparr>po_commit := Some ct\<rparr>) m) = (Inl e, m')"
    then show "quiet m m'" using quiet_trans [OF quiet_simps(2) quiet_apply] by blast
  qed (auto intro: quiet_trans [OF quiet_simps(2) quiet_trans [OF quiet_apply last]])
qed

lemma quiet_certificate: "on_commit_certificate cr oper ct l n = (r, n') \<Longrightarrow> quiet n n'"
  using quiet_trans [OF quiet_apply quiet_emit, of cr oper ct n]
  by (auto simp: on_commit_certificate_def Let_def split: if_splits sum.splits elim!: thenS_cases dest: quiet_apply)

text \<open>A vote an honest node sends: it has been recorded, and a commit vote answers a certificate.\<close>

definition casts :: "crypto \<Rightarrow> operation \<Rightarrow> string \<Rightarrow> dist_node \<Rightarrow> dist_node \<Rightarrow> bool" where
  "casts cr oper phase n n' \<longleftrightarrow>
     (let d = fst (nd_site n); v = sign_vote cr (nd_validator n) (op_epoch oper) (dm_id d) (object_versions_of d oper)
            (op_id oper) (dependency_digest cr oper) phase
      in nd_validator n' = nd_validator n \<and> record_vote cr v (nd_committee n) = (Inr (), nd_committee n')
         \<and> sent_votes n' = insert v (sent_votes n))"

lemma cast_vote_casts:
  assumes "cast_vote cr oper phase leader msg n = (r, n')" "msg = PrepareVote \<or> msg = CommitVote"
  shows "quiet n n' \<or> casts cr oper phase n n'"
proof -
  let ?d = "fst (nd_site n)"
  let ?v = "sign_vote cr (nd_validator n) (op_epoch oper) (dm_id ?d) (object_versions_of ?d oper)
            (op_id oper) (dependency_digest cr oper) phase"
  obtain q n1 where rec: "net_record cr ?v n = (q, n1)" by fastforce
  show ?thesis
  proof (cases "(\<exists>e. validate_operation cr ?d oper = Inl e) \<or> (\<exists>e. q = Inl e)")
    case True
    with assms(1) rec quiet_record [OF rec] show ?thesis
      by (auto simp: cast_vote_def Let_def split: sum.splits)
  next
    case False
    then have q: "q = Inr ()" "validate_operation cr ?d oper = Inr ()" by (cases q; cases "validate_operation cr ?d oper"; auto)+
    with assms(1) rec have n': "n' = net_emit (Peer leader (msg ?v)) n1" by (auto simp: cast_vote_def Let_def)
    from rec q(1) have "record_vote cr ?v (nd_committee n) = (Inr (), nd_committee n1)"
      "nd_validator n1 = nd_validator n" "sent_votes n1 = sent_votes n"
      by (auto simp: net_record_def nd_committee_def sent_votes_def split: prod.splits)
    moreover have "sent_votes n' = insert ?v (sent_votes n1)"
      using assms(2) by (auto simp: n' net_emit_def sent_votes_def)
    ultimately show ?thesis by (simp add: casts_def Let_def n' net_emit_def nd_committee_def)
  qed
qed

lemma section_sends:
  assumes call: "net_section_of cr w n = (r, n')" and honest: "\<And>l m. w \<noteq> Forge l m"
  obtains (quiet) "quiet n n'"
  | (prepare) oper where "casts cr oper ''PREPARE'' n n'"
  | (commit) oper ct l where "w = Process (CommitRequest oper ct l)" "casts cr oper ''COMMIT'' n n'"
      "verify_certificate cr (nd_committee n) ct (op_epoch oper) (dm_id (fst (nd_site n)))
         (object_versions_of (fst (nd_site n)) oper) oper = Inr True"
proof (cases w)
  case (Process m)
  with call have call: "process cr m n = (r, n')" by simp
  show ?thesis
  proof (cases m)
    case (PrepareRequest oper da l)
    with call have "n' = n \<or> cast_vote cr oper ''PREPARE'' l PrepareVote n = (r, n')"
      by (auto simp: on_prepare_request_def split: sum.splits if_splits)
    then have "quiet n n' \<or> casts cr oper ''PREPARE'' n n'"
      using cast_vote_casts [of cr oper "''PREPARE''" l PrepareVote n r n'] by auto
    with quiet prepare show ?thesis by blast
  next
    case (CommitRequest oper ct l)
    with call have "n' = n \<or> cast_vote cr oper ''COMMIT'' l CommitVote n = (r, n')
        \<and> verify_certificate cr (nd_committee n) ct (op_epoch oper) (dm_id (fst (nd_site n)))
            (object_versions_of (fst (nd_site n)) oper) oper = Inr True"
      by (auto simp: on_commit_request_def Let_def split: sum.splits if_splits)
    then show ?thesis
    proof
      assume "n' = n"
      with quiet show ?thesis by simp
    next
      assume "cast_vote cr oper ''COMMIT'' l CommitVote n = (r, n')
        \<and> verify_certificate cr (nd_committee n) ct (op_epoch oper) (dm_id (fst (nd_site n)))
            (object_versions_of (fst (nd_site n)) oper) oper = Inr True"
      then have sent: "quiet n n' \<or> casts cr oper ''COMMIT'' n n'" and ok: "verify_certificate cr (nd_committee n) ct
          (op_epoch oper) (dm_id (fst (nd_site n))) (object_versions_of (fst (nd_site n)) oper) oper = Inr True"
        using cast_vote_casts by blast+
      from sent show ?thesis
      proof
        assume "casts cr oper ''COMMIT'' n n'"
        with ok show ?thesis using commit Process CommitRequest by simp
      qed (rule quiet)
    qed
  next
    case (PrepareVote v)
    with call quiet_prepare_vote have "quiet n n'" by simp
    then show ?thesis by (rule quiet)
  next
    case (CommitVote v)
    with call quiet_commit_vote have "quiet n n'" by simp
    then show ?thesis by (rule quiet)
  next
    case (CommitCertificate oper ct l)
    with call quiet_certificate have "quiet n n'" by simp
    then show ?thesis by (rule quiet)
  next
    case (Ack oid who)
    with call quiet_ack have "quiet n n'" by simp
    then show ?thesis by (rule quiet)
  qed
next
  case (SubmitOperation oper)
  with call quiet_submit have "quiet n n'" by simp
  then show ?thesis by (rule quiet)
next
  case (Forge l m)
  with honest [of l m] show ?thesis by simp
next
  case (MaybeFinish oid)
  with call quiet_finish have "quiet n n'" by simp
  then show ?thesis by (rule quiet)
next
  case (ExpireOperation oid t)
  with call quiet_expire have "quiet n n'" by simp
  then show ?thesis by (rule quiet)
qed

subsection \<open>The network of the honest nodes\<close>

type_synonym net_state = "string \<Rightarrow> dist_node"

definition certified :: "crypto \<Rightarrow> certificate \<Rightarrow> int \<Rightarrow> string \<Rightarrow> object_versions \<Rightarrow> operation \<Rightarrow> json" where
  "certified cr ct ep dm vs oper = vote_fields (ct_phase ct) ep dm vs (op_id oper) (dependency_digest cr oper)"

definition genuine ::
  "crypto \<Rightarrow> qcommittee \<Rightarrow> string set \<Rightarrow> net_state \<Rightarrow> certificate \<Rightarrow> int \<Rightarrow> string \<Rightarrow> object_versions \<Rightarrow> operation \<Rightarrow> bool" where
  "genuine cr base H nodes ct ep dm vs oper \<longleftrightarrow> (\<forall>h \<in> H.
     signed_by cr base (certified cr ct ep dm vs oper) (ct_signatures ct) h \<longrightarrow>
     (\<exists>v \<in> sent_votes (nodes h). vote_statement v = certified cr ct ep dm vs oper))"

text \<open>What a message may carry to the node whose domain is \<open>d\<close>: \<open>verify_certificate\<close> is asked about these.\<close>

fun work_genuine :: "crypto \<Rightarrow> qcommittee \<Rightarrow> string set \<Rightarrow> net_state \<Rightarrow> domain \<Rightarrow> net_work \<Rightarrow> bool" where
  "work_genuine cr base H nodes d (Process (CommitRequest oper ct _)) =
     genuine cr base H nodes ct (op_epoch oper) (dm_id d) (object_versions_of d oper) oper"
| "work_genuine cr base H nodes d (Forge _ _) = False"
| "work_genuine cr base H nodes d _ = True"

text \<open>Any section of any honest node, at any time; the order of the tasks is not restricted.\<close>

inductive net_run :: "crypto \<Rightarrow> qcommittee \<Rightarrow> string set \<Rightarrow> net_state \<Rightarrow> net_state \<Rightarrow> bool" for cr base H nodes0 where
  started: "net_run cr base H nodes0 nodes0"
| works: "net_run cr base H nodes0 nodes \<Longrightarrow> h \<in> H \<Longrightarrow> work_genuine cr base H nodes (fst (nd_site (nodes h))) w \<Longrightarrow>
    run_net_section cr w [] (nodes h) = (ws, n') \<Longrightarrow> net_run cr base H nodes0 (nodes(h := n'))"

definition honest_node :: "qcommittee \<Rightarrow> string \<Rightarrow> dist_node \<Rightarrow> bool" where
  "honest_node base h n \<longleftrightarrow> qc_validators (nd_committee n) = qc_validators base
     \<and> map_of (qc_validators base) h = Some (nd_validator n)
     \<and> (\<forall>v \<in> sent_votes n. vt_validator v = h \<and> vt_phase v \<in> {''PREPARE'', ''COMMIT''}
          \<and> map_of (statements_at (nd_committee n) (vote_key_of v)) h = Some (vt_op_id v, vt_dependency v))"

definition prepared_by :: "qcommittee \<Rightarrow> string set \<Rightarrow> net_state \<Rightarrow> int \<Rightarrow> string \<Rightarrow> object_versions \<Rightarrow> string \<Rightarrow> string \<Rightarrow> bool" where
  "prepared_by base H nodes ep dm vs oid dep \<longleftrightarrow> (\<exists>Q \<subseteq> committee_keys base.
     qc_threshold base \<le> (\<Sum>vid \<in> Q. validator_weight base vid)
     \<and> (\<forall>h \<in> Q \<inter> H. \<exists>v \<in> sent_votes (nodes h). vote_statement v = vote_fields ''PREPARE'' ep dm vs oid dep))"

definition net_ok :: "qcommittee \<Rightarrow> string set \<Rightarrow> net_state \<Rightarrow> bool" where
  "net_ok base H nodes \<longleftrightarrow> (\<forall>h \<in> H. honest_node base h (nodes h)
     \<and> (\<forall>v \<in> sent_votes (nodes h). vt_phase v = ''COMMIT'' \<longrightarrow>
          prepared_by base H nodes (vt_epoch v) (vt_domain v) (vt_versions v) (vt_op_id v) (vt_dependency v)))"

lemma net_okD:
  assumes "net_ok base H nodes" "h \<in> H"
  shows "honest_node base h (nodes h)"
    and "v \<in> sent_votes (nodes h) \<Longrightarrow> vt_phase v = ''COMMIT'' \<Longrightarrow>
      prepared_by base H nodes (vt_epoch v) (vt_domain v) (vt_versions v) (vt_op_id v) (vt_dependency v)"
  using assms unfolding net_ok_def by blast+

lemma vote_fields_inject:
  "vote_fields phase ep dm vs oid dep = vote_fields phase' ep' dm' vs' oid' dep' \<longleftrightarrow>
   phase = phase' \<and> ep = ep' \<and> dm = dm' \<and> vs = vs' \<and> oid = oid' \<and> dep = dep'"
proof -
  have "inj (\<lambda>(k, n). JArr [JStr k, JInt n])" by (auto simp: inj_def)
  then have "versions_json vs = versions_json vs' \<longleftrightarrow> vs = vs'"
    by (simp add: versions_json_def inj_map_eq_map)
  then show ?thesis by (auto simp: vote_fields_def)
qed

lemma vote_statement_iff:
  "vote_statement v = vote_fields phase ep dm vs oid dep \<longleftrightarrow>
   vote_key_of v = (ep, dm, vs, phase) \<and> vt_op_id v = oid \<and> vt_dependency v = dep"
  by (auto simp: vote_statement_def vote_fields_inject vote_key_of_def)

lemma prepared_more:
  assumes "prepared_by base H nodes ep dm vs oid dep" "\<forall>h. sent_votes (nodes h) \<subseteq> sent_votes (nodes' h)"
  shows "prepared_by base H nodes' ep dm vs oid dep"
  using assms unfolding prepared_by_def by (meson subset_iff)

text \<open>A genuine certificate that verifies goes back to a quorum of prepare votes.\<close>

lemma quorum_signed_base:
  "qc_validators qc = qc_validators base \<Longrightarrow> quorum_signed cr qc stmt who sigs = quorum_signed cr base stmt who sigs"
  by (simp add: quorum_signed_def signed_by_def committee_keys_def validator_weight_def qc_threshold_def qc_total_weight_def)

lemma certificate_prepared:
  assumes ok: "net_ok base H nodes" and wf: "wf_qc base"
    and faulty: "3 * (\<Sum>vid \<in> committee_keys base - H. validator_weight base vid) \<le> qc_total_weight base"
    and gen: "genuine cr base H nodes ct ep dm vs oper" and same: "qc_validators qc = qc_validators base"
    and ver: "verify_certificate cr qc ct ep dm vs oper = Inr True"
  shows "prepared_by base H nodes ep dm vs (op_id oper) (dependency_digest cr oper)"
proof -
  let ?stmt = "vote_fields (ct_phase ct) ep dm vs (op_id oper) (dependency_digest cr oper)"
  from verified_certificate_signed [OF ver] have q: "quorum_signed cr base ?stmt (ct_signers ct) (ct_signatures ct)"
    by (simp add: quorum_signed_base [OF same])
  have sent: "\<exists>v \<in> sent_votes (nodes h). vote_statement v = ?stmt" if "h \<in> H" "signed_by cr base ?stmt (ct_signatures ct) h" for h
    using gen that unfolding genuine_def certified_def by blast
  have phase: "ct_phase ct = ''PREPARE'' \<or> ct_phase ct = ''COMMIT''"
    using ver by (auto simp: verify_certificate_def Let_def split: if_splits)
  then show ?thesis
  proof
    assume "ct_phase ct = ''PREPARE''"
    with q sent show ?thesis
      unfolding prepared_by_def quorum_signed_def by (intro exI [of _ "set (ct_signers ct)"]) auto
  next
    assume commit: "ct_phase ct = ''COMMIT''"
    obtain h where h: "h \<in> committee_keys base" "h \<notin> committee_keys base - H" "signed_by cr base ?stmt (ct_signatures ct) h"
      using quorum_signed_overlap [OF wf q q _ faulty] by blast
    then have "h \<in> H" by simp
    with sent h(3) obtain v where v: "v \<in> sent_votes (nodes h)" "vote_statement v = ?stmt" by blast
    then have "vt_phase v = ''COMMIT''" "vt_epoch v = ep" "vt_domain v = dm" "vt_versions v = vs"
      "vt_op_id v = op_id oper" "vt_dependency v = dependency_digest cr oper"
      using commit by (auto simp: vote_statement_iff vote_key_of_def)
    with net_okD(2) [OF ok \<open>h \<in> H\<close> v(1)] show ?thesis by simp
  qed
qed

lemma honest_quiet: "honest_node base h n \<Longrightarrow> quiet n n' \<Longrightarrow> honest_node base h n'"
  using extendsD [of "nd_committee n" "nd_committee n'"] extends_validators [of "nd_committee n" "nd_committee n'"]
  by (auto simp: honest_node_def quiet_def)

lemma honest_casts:
  assumes hon: "honest_node base h n" and wf: "wf_qc base" and cast: "casts cr oper phase n n'"
    and phase: "phase \<in> {''PREPARE'', ''COMMIT''}"
  shows "honest_node base h n'"
proof -
  let ?d = "fst (nd_site n)"
  let ?v = "sign_vote cr (nd_validator n) (op_epoch oper) (dm_id ?d) (object_versions_of ?d oper)
            (op_id oper) (dependency_digest cr oper) phase"
  from cast have c: "nd_validator n' = nd_validator n" "record_vote cr ?v (nd_committee n) = (Inr (), nd_committee n')"
    "sent_votes n' = insert ?v (sent_votes n)" by (simp_all add: casts_def Let_def)
  have vid: "vt_validator ?v = h" using hon wf_qcD [OF wf] by (simp add: honest_node_def sign_vote_def)
  note ext = record_vote_extends [OF c(2)]
  have "map_of (statements_at (nd_committee n') (vote_key_of ?v)) (vt_validator ?v) = Some (vt_op_id ?v, vt_dependency ?v)"
    using c(2) by (cases rule: record_vote_cases) simp_all
  then have new: "map_of (statements_at (nd_committee n') (vote_key_of ?v)) h = Some (vt_op_id ?v, vt_dependency ?v)"
    by (simp only: vid)
  moreover have "vt_phase ?v \<in> {''PREPARE'', ''COMMIT''}" using phase by (simp add: sign_vote_def)
  ultimately show ?thesis
    using hon c(1,3) vid extendsD [OF ext] extends_validators [OF ext] by (auto simp: honest_node_def)
qed

lemma net_step_ok:
  assumes ok: "net_ok base H nodes" and wf: "wf_qc base"
    and faulty: "3 * (\<Sum>vid \<in> committee_keys base - H. validator_weight base vid) \<le> qc_total_weight base"
    and h: "h \<in> H" and gen: "work_genuine cr base H nodes (fst (nd_site (nodes h))) w"
    and run: "run_net_section cr w [] (nodes h) = (ws, n')"
  shows "net_ok base H (nodes(h := n'))"
proof -
  obtain r n1 where call: "net_section_of cr w (nodes h) = (r, n1)" by fastforce
  have n': "quiet n1 n'" using run call quiet_failed by (auto simp: run_net_section_def split: sum.splits)
  have nf: "\<And>l m. w \<noteq> Forge l m" using gen by auto
  note hon = net_okD(1) [OF ok h]
  have honest: "honest_node base h n'" and grows: "sent_votes (nodes h) \<subseteq> sent_votes n'"
    and fresh: "\<forall>v \<in> sent_votes n' - sent_votes (nodes h). vt_phase v = ''COMMIT'' \<longrightarrow>
      prepared_by base H nodes (vt_epoch v) (vt_domain v) (vt_versions v) (vt_op_id v) (vt_dependency v)"
  proof (atomize (full), cases rule: section_sends [OF call nf])
    case 1
    with n' have "quiet (nodes h) n'" using quiet_trans by blast
    with honest_quiet [OF hon] show "honest_node base h n' \<and> sent_votes (nodes h) \<subseteq> sent_votes n' \<and>
      (\<forall>v \<in> sent_votes n' - sent_votes (nodes h). vt_phase v = ''COMMIT'' \<longrightarrow>
        prepared_by base H nodes (vt_epoch v) (vt_domain v) (vt_versions v) (vt_op_id v) (vt_dependency v))"
      by (simp add: quiet_def)
  next
    case (2 oper)
    from honest_quiet [OF honest_casts [OF hon wf 2] n'] n' 2
    show "honest_node base h n' \<and> sent_votes (nodes h) \<subseteq> sent_votes n' \<and>
      (\<forall>v \<in> sent_votes n' - sent_votes (nodes h). vt_phase v = ''COMMIT'' \<longrightarrow>
        prepared_by base H nodes (vt_epoch v) (vt_domain v) (vt_versions v) (vt_op_id v) (vt_dependency v))"
      by (auto simp: quiet_def casts_def Let_def sign_vote_def)
  next
    case (3 oper ct l)
    from gen 3(1) have "genuine cr base H nodes ct (op_epoch oper) (dm_id (fst (nd_site (nodes h))))
        (object_versions_of (fst (nd_site (nodes h))) oper) oper" by simp
    with certificate_prepared [OF ok wf faulty this _ 3(3)] hon
    have "prepared_by base H nodes (op_epoch oper) (dm_id (fst (nd_site (nodes h))))
        (object_versions_of (fst (nd_site (nodes h))) oper) (op_id oper) (dependency_digest cr oper)"
      by (simp add: honest_node_def)
    with honest_quiet [OF honest_casts [OF hon wf 3(2)] n'] n' 3(2)
    show "honest_node base h n' \<and> sent_votes (nodes h) \<subseteq> sent_votes n' \<and>
      (\<forall>v \<in> sent_votes n' - sent_votes (nodes h). vt_phase v = ''COMMIT'' \<longrightarrow>
        prepared_by base H nodes (vt_epoch v) (vt_domain v) (vt_versions v) (vt_op_id v) (vt_dependency v))"
      by (auto simp: quiet_def casts_def Let_def sign_vote_def)
  qed
  have more: "\<forall>k. sent_votes (nodes k) \<subseteq> sent_votes ((nodes(h := n')) k)" using grows by simp
  show ?thesis
    unfolding net_ok_def
  proof (intro ballI conjI impI)
    fix k v
    assume k: "k \<in> H"
    show "honest_node base k ((nodes(h := n')) k)" using honest net_okD(1) [OF ok k] by simp
    assume v: "v \<in> sent_votes ((nodes(h := n')) k)" "vt_phase v = ''COMMIT''"
    have "prepared_by base H nodes (vt_epoch v) (vt_domain v) (vt_versions v) (vt_op_id v) (vt_dependency v)"
    proof (cases "v \<in> sent_votes (nodes k)")
      case True
      from net_okD(2) [OF ok k this v(2)] show ?thesis .
    next
      case False
      with v fresh show ?thesis by (auto split: if_splits)
    qed
    from prepared_more [OF this more]
    show "prepared_by base H (nodes(h := n')) (vt_epoch v) (vt_domain v) (vt_versions v) (vt_op_id v) (vt_dependency v)" .
  qed
qed

text \<open>Nodes as they start: nothing sent, the validators of the committee, no Byzantine switch.\<close>

definition net_start :: "qcommittee \<Rightarrow> string set \<Rightarrow> net_state \<Rightarrow> bool" where
  "net_start base H nodes \<longleftrightarrow> (\<forall>h \<in> H. nd_outbox (nodes h) = [] \<and> qc_validators (nd_committee (nodes h)) = qc_validators base
     \<and> map_of (qc_validators base) h = Some (nd_validator (nodes h)))"

lemma net_run_ok:
  assumes "net_run cr base H nodes0 nodes" "net_start base H nodes0" "wf_qc base"
    "3 * (\<Sum>vid \<in> committee_keys base - H. validator_weight base vid) \<le> qc_total_weight base"
  shows "net_ok base H nodes"
  using assms
proof (induction rule: net_run.induct)
  case started
  then show ?case by (simp add: net_ok_def net_start_def honest_node_def sent_votes_def)
next
  case (works nodes h w ws n')
  then show ?case by (intro net_step_ok [OF works.IH]) simp_all
qed

lemma prepared_unique:
  assumes ok: "net_ok base H nodes" and wf: "wf_qc base"
    and faulty: "3 * (\<Sum>vid \<in> committee_keys base - H. validator_weight base vid) \<le> qc_total_weight base"
    and p: "prepared_by base H nodes ep dm vs oid dep" "prepared_by base H nodes ep dm vs oid' dep'"
  shows "oid = oid' \<and> dep = dep'"
proof -
  from p obtain Q Q' where Q: "Q \<subseteq> committee_keys base" "qc_threshold base \<le> (\<Sum>vid \<in> Q. validator_weight base vid)"
      "\<forall>h \<in> Q \<inter> H. \<exists>v \<in> sent_votes (nodes h). vote_statement v = vote_fields ''PREPARE'' ep dm vs oid dep"
    and Q': "Q' \<subseteq> committee_keys base" "qc_threshold base \<le> (\<Sum>vid \<in> Q'. validator_weight base vid)"
      "\<forall>h \<in> Q' \<inter> H. \<exists>v \<in> sent_votes (nodes h). vote_statement v = vote_fields ''PREPARE'' ep dm vs oid' dep'"
    unfolding prepared_by_def by blast
  from faulty have f: "3 * (\<Sum>vid \<in> committee_keys base - H. validator_weight base vid) \<le>
      (\<Sum>vid \<in> committee_keys base. validator_weight base vid)" by (simp add: qc_total_as_sum [OF wf])
  obtain h where h: "h \<in> Q" "h \<in> Q'" "h \<notin> committee_keys base - H" "h \<in> committee_keys base"
    by (rule quorum_committee.honest_overlap [OF wf Q(1) Q'(1) Q(2) Q'(2) Diff_subset f])
  with Q(3) Q'(3) obtain v v' where v: "h \<in> H" "v \<in> sent_votes (nodes h)" "v' \<in> sent_votes (nodes h)"
    "vote_key_of v = (ep, dm, vs, ''PREPARE'')" "vt_op_id v = oid" "vt_dependency v = dep"
    "vote_key_of v' = (ep, dm, vs, ''PREPARE'')" "vt_op_id v' = oid'" "vt_dependency v' = dep'"
    unfolding vote_statement_iff by blast
  from net_okD(1) [OF ok v(1)] v(2,3) have
    "map_of (statements_at (nd_committee (nodes h)) (vote_key_of v)) h = Some (vt_op_id v, vt_dependency v)"
    "map_of (statements_at (nd_committee (nodes h)) (vote_key_of v')) h = Some (vt_op_id v', vt_dependency v')"
    unfolding honest_node_def by blast+
  with v show ?thesis by simp
qed

text \<open>
  C8. Agreement of the CCD/NEXUS network. Every validator of \<open>H\<close> runs a node of its own that was started
  empty and then ran any sections in any order on any messages; the others send what they like and
  hold at most a third of the weight; nobody forges a vote of an honest validator. Then two
  certificates that verify for the same epoch, domain and object versions, on whatever nodes and of
  whatever phases, are for the same operation and the same dependencies.
\<close>

theorem network_agreement:
  assumes run: "net_run cr base H nodes0 nodes" "net_start base H nodes0" "wf_qc base"
    and faulty: "3 * (\<Sum>vid \<in> committee_keys base - H. validator_weight base vid) \<le> qc_total_weight base"
    and same: "qc_validators qc = qc_validators base" "qc_validators qc' = qc_validators base"
    and ct: "verify_certificate cr qc ct ep dm vs oper = Inr True" "genuine cr base H nodes ct ep dm vs oper"
    and ct': "verify_certificate cr qc' ct' ep dm vs oper' = Inr True" "genuine cr base H nodes ct' ep dm vs oper'"
  shows "op_id oper = op_id oper' \<and> dependency_digest cr oper = dependency_digest cr oper'"
proof -
  note ok = net_run_ok [OF run faulty]
  show ?thesis
    by (rule prepared_unique [OF ok run(3) faulty certificate_prepared [OF ok run(3) faulty ct(2) same(1) ct(1)]
          certificate_prepared [OF ok run(3) faulty ct'(2) same(2) ct'(1)]])
qed

subsection \<open>A prepare certificate commits\<close>

text \<open>
  C36. The commit phase can be left out. \<open>apply_committed\<close> takes the phase of a certificate from the
  certificate: a node that is not the leader and is sent, as a commit certificate, the certificate
  of the prepare phase applies the operation and acknowledges it, although nobody has voted to
  commit.
\<close>

theorem prepare_certificate_commits:
  assumes follower: "nd_id n \<noteq> nd_leader n" and valid: "validate_operation cr (fst (nd_site n)) oper = Inr ()"
    and prep: "ct_phase ct = ''PREPARE''"
    and ver: "verify_certificate cr (nd_committee n) ct (op_epoch oper) (dm_id (fst (nd_site n)))
        (object_versions_of (fst (nd_site n)) oper) oper = Inr True"
  shows "\<exists>n'. process cr (CommitCertificate oper ct leader) n = (Inr [], n')
    \<and> op_id oper \<in> set (dm_committed (fst (nd_site n')))
    \<and> (\<forall>k. map_of (dm_objects (fst (nd_site n'))) k =
         written (local_writes (fst (nd_site n)) oper) (dm_objects (fst (nd_site n))) k)
    \<and> Peer leader (Ack (op_id oper) (nd_id n)) \<in> set (nd_outbox n')"
proof -
  have ep: "op_epoch oper = dm_epoch (fst (nd_site n))" using valid by (simp add: validate_Inr)
  obtain d qc where site: "nd_site n = (d, qc)" by fastforce
  obtain d' where "apply_committed cr oper ct (d, qc) = (Inr (), (d', qc))" "applied d oper ct d'"
    using apply_committed_Inr [of cr d oper qc ct] valid ver ep site by (auto simp: nd_committee_def)
  then show ?thesis
    using follower ver site by (auto simp: on_commit_certificate_def Let_def net_apply_def thenS_def net_emit_def
        nd_committee_def applied_def)
qed

subsection \<open>Both on a committee of one\<close>

abbreviation demo_oper :: operation where
  "demo_oper \<equiv> demo_operation [''a'']"

definition demo_leader :: "string \<Rightarrow> qcommittee \<Rightarrow> dist_node" where
  "demo_leader leader qc = dist_init ''v'' leader demo_validator (demo_domain, qc)"

lemma demo_base: "wf_qc demo_committee" "qc_validators demo_committee = [(''v'', demo_validator)]"
  using demo_ready by (simp_all add: ready_def demo_committee_def new_committee_def)

lemma demo_exchange:
  obtains qc qc' da ct n where
    "qc_validators qc = qc_validators demo_committee" "qc_validators qc' = qc_validators demo_committee"
    "run_net_section demo_crypto (Process (PrepareRequest demo_oper da ''v'')) [] (demo_leader leader qc) = ([], n)"
    "nd_site n = (demo_domain, qc')" "nd_id n = ''v''" "nd_leader n = leader"
    "Peer ''v'' (PrepareVote (vote_of demo_crypto demo_domain demo_oper ''PREPARE'' demo_validator)) \<in> set (nd_outbox n)"
    "verify_certificate demo_crypto qc' ct 0 ''d'' (object_versions_of demo_domain demo_oper) demo_oper = Inr True"
    "ct_phase ct = ''PREPARE''"
proof -
  let ?st = "availability_statement demo_oper" and ?key = "phase_key demo_domain demo_oper ''PREPARE''"
  let ?qc = "count_signatures ?st (sign_all demo_crypto demo_committee ?st) demo_committee"
  have pos: "0 < qc_total_weight demo_committee" using demo_ready by (simp add: ready_def)
  obtain da where da: "verify_dac demo_crypto ?qc demo_oper da = Inr True"
    by (rule issue_dac_ok [OF demo_base(1) pos demo_sound])
  have vals: "qc_validators ?qc = qc_validators demo_committee" by (simp add: count_signatures_def)
  have vid: "va_id demo_validator = ''v''" "\<not> va_byzantine demo_validator" by (simp_all add: demo_validator_def)
  have "free_for demo_crypto ?qc ?key demo_oper"
    using demo_free [of demo_crypto ?key demo_oper]
    by (simp add: free_for_def statements_at_def count_signatures_def committee_keys_def)
  moreover have "map_of (qc_validators ?qc) (va_id demo_validator) = Some demo_validator" by (simp add: vals demo_base vid)
  ultimately obtain qc' where rec: "record_vote demo_crypto (vote_of demo_crypto demo_domain demo_oper ''PREPARE'' demo_validator) ?qc = (Inr (), qc')"
    "qc_validators qc' = qc_validators ?qc"
    "map_of (votes_at qc' ?key) = (map_of (votes_at ?qc ?key))(va_id demo_validator \<mapsto> vote_of demo_crypto demo_domain demo_oper ''PREPARE'' demo_validator)"
    by (rule_tac record_vote_of [OF _ demo_sound demo_epoch]) assumption+
  note qc' = rec [unfolded vid]
  have epoch: "dm_epoch demo_domain = 0" "dm_id demo_domain = ''d''" by (simp_all add: demo_defs)
  have "votes_ok demo_crypto ?qc"
    by (rule votes_ok_cong [of _ demo_committee]) (use demo_ready in \<open>simp_all add: ready_def\<close>)
  then have ok: "votes_ok demo_crypto qc'" using record_vote_ok qc'(1) by blast
  have wf: "wf_qc qc'" "0 < qc_total_weight qc'"
    using committee_cong [of qc' demo_committee] demo_base(1) pos qc'(2) vals by (simp_all add: qc_total_weight_def)
  obtain ct where ct: "issue_certificate demo_crypto qc' 0 ''d'' (object_versions_of demo_domain demo_oper) demo_oper ''PREPARE'' = Inr ct"
    by (rule all_voted_issue [OF wf(1) ok wf(2), of demo_domain demo_oper "''PREPARE''"])
      (use qc' vals in \<open>simp_all add: demo_base vid epoch\<close>)
  from issued_verifies [OF wf(1) ok ct]
  have ver: "verify_certificate demo_crypto qc' ct 0 ''d'' (object_versions_of demo_domain demo_oper) demo_oper = Inr True" by simp
  have phase: "ct_phase ct = ''PREPARE''"
    using ct by (auto simp: issue_certificate_def Let_def bindE_Inr_iff split: if_splits)
  define n where "n = net_emit (Peer ''v'' (PrepareVote (vote_of demo_crypto demo_domain demo_oper ''PREPARE'' demo_validator)))
    ((demo_leader leader ?qc)\<lparr>nd_site := (demo_domain, qc')\<rparr>)"
  have "validate_operation demo_crypto demo_domain demo_oper = Inr ()" by (rule site_valid) simp
  moreover have "vote_of demo_crypto demo_domain demo_oper ''PREPARE'' demo_validator =
      sign_vote demo_crypto demo_validator 0 ''d'' (object_versions_of demo_domain demo_oper) (op_id demo_oper)
        (dependency_digest demo_crypto demo_oper) ''PREPARE''" by (simp add: vote_of_def epoch)
  ultimately have "run_net_section demo_crypto (Process (PrepareRequest demo_oper da ''v'')) [] (demo_leader leader ?qc) = ([], n)"
    using da qc'(1) vid(2)
    by (simp add: run_net_section_def on_prepare_request_def cast_vote_def Let_def net_record_def nd_committee_def
        demo_leader_def dist_init_def epoch n_def)
  from that [OF vals _ this _ _ _ _ ver phase] qc'(2) vals show ?thesis
    by (simp add: n_def net_emit_def demo_leader_def dist_init_def)
qed

theorem network_agreement_witness:
  "\<exists>qc n ws qc' ct da. run_net_section demo_crypto (Process (PrepareRequest demo_oper da ''v'')) [] (demo_leader ''v'' qc) = (ws, n)
     \<and> verify_certificate demo_crypto qc' ct 0 ''d'' (object_versions_of demo_domain demo_oper) demo_oper = Inr True
     \<and> dependency_digest demo_crypto demo_oper = dependency_digest demo_crypto demo_oper"
proof -
  obtain qc qc' da ct n where ex: "qc_validators qc = qc_validators demo_committee" "qc_validators qc' = qc_validators demo_committee"
    "run_net_section demo_crypto (Process (PrepareRequest demo_oper da ''v'')) [] (demo_leader ''v'' qc) = ([], n)"
    "Peer ''v'' (PrepareVote (vote_of demo_crypto demo_domain demo_oper ''PREPARE'' demo_validator)) \<in> set (nd_outbox n)"
    "verify_certificate demo_crypto qc' ct 0 ''d'' (object_versions_of demo_domain demo_oper) demo_oper = Inr True"
    "ct_phase ct = ''PREPARE''"
    by (rule demo_exchange)
  let ?first = "\<lambda>_. demo_leader ''v'' qc" and ?H = "{''v''}"
  let ?last = "?first(''v'' := n)"
  have run: "net_run demo_crypto demo_committee ?H ?first ?last"
    by (rule net_run.works [where nodes = ?first and h = "''v''", OF net_run.started])
      (use ex(3) in \<open>simp_all del: process.simps\<close>)
  have start: "net_start demo_committee ?H ?first"
    using ex(1) by (simp add: net_start_def demo_leader_def dist_init_def nd_committee_def demo_base)
  have "vote_of demo_crypto demo_domain demo_oper ''PREPARE'' demo_validator \<in> sent_votes (?last ''v'')"
    using ex(4) by (auto simp: sent_votes_def)
  moreover have "vote_statement (vote_of demo_crypto demo_domain demo_oper ''PREPARE'' demo_validator) =
      certified demo_crypto ct 0 ''d'' (object_versions_of demo_domain demo_oper) demo_oper"
    by (simp add: certified_def ex(6) vote_of_def demo_defs)
  ultimately have gen: "genuine demo_crypto demo_committee ?H ?last ct 0 ''d'' (object_versions_of demo_domain demo_oper) demo_oper"
    unfolding genuine_def by blast
  have faulty: "3 * (\<Sum>vid \<in> committee_keys demo_committee - ?H. validator_weight demo_committee vid) \<le> qc_total_weight demo_committee"
    by (simp add: committee_keys_def demo_base qc_total_weight_def demo_validator_def)
  from network_agreement [OF run start demo_base(1) faulty ex(2) ex(2) ex(5) gen ex(5) gen] ex(3,5) show ?thesis
    by blast
qed

theorem prepare_certificate_commits_witness:
  "\<exists>ct n n'. ct_phase ct = ''PREPARE'' \<and> process demo_crypto (CommitCertificate demo_oper ct ''l'') n = (Inr [], n')
     \<and> op_id demo_oper \<in> set (dm_committed (fst (nd_site n')))"
proof -
  obtain qc qc' da ct n where ex: "qc_validators qc = qc_validators demo_committee" "qc_validators qc' = qc_validators demo_committee"
    "run_net_section demo_crypto (Process (PrepareRequest demo_oper da ''v'')) [] (demo_leader ''l'' qc) = ([], n)"
    "nd_site n = (demo_domain, qc')" "nd_id n = ''v''" "nd_leader n = ''l''"
    "Peer ''v'' (PrepareVote (vote_of demo_crypto demo_domain demo_oper ''PREPARE'' demo_validator)) \<in> set (nd_outbox n)"
    "verify_certificate demo_crypto qc' ct 0 ''d'' (object_versions_of demo_domain demo_oper) demo_oper = Inr True"
    "ct_phase ct = ''PREPARE''"
    by (rule demo_exchange)
  have "validate_operation demo_crypto (fst (nd_site n)) demo_oper = Inr ()" using site_valid [of "[''a'']"] by (simp add: ex(4))
  moreover have "nd_id n \<noteq> nd_leader n" by (simp add: ex)
  moreover have "dm_id demo_domain = ''d''" by (simp add: demo_defs)
  ultimately obtain n' where "process demo_crypto (CommitCertificate demo_oper ct ''l'') n = (Inr [], n')"
    "op_id demo_oper \<in> set (dm_committed (fst (nd_site n')))"
    using prepare_certificate_commits [of n demo_crypto demo_oper ct "''l''"] ex(4,8,9)
    by (auto simp: nd_committee_def simp del: process.simps)
  with ex(9) show ?thesis by blast
qed

end
