(* ===== verification/Events.thy ===== *)
theory Events
  imports Persistence
begin

section \<open>The hash-chained event log (testnet/events.py)\<close>

text \<open>
  \<open>EventLog\<close>: the lines of its file are the JSON values that \<open>json.dumps\<close> with \<open>sort_keys\<close> wrote and
  \<open>json.loads\<close> reads back, so a line is a value with its keys in order. The wall time is the text of
  the float that \<open>time.time\<close> returned. A line that is no object, which \<open>append\<close> never writes, has no
  fields here.
\<close>

datatype event_error = EventLogError string | EventWire wire_error

record chained_log =
  cl_lines :: "json list"
  cl_network :: string
  cl_version :: string
  cl_last_hash :: json

definition jget :: "string \<Rightarrow> json \<Rightarrow> json option" where
  "jget k v = (case v of JObj kvs \<Rightarrow> map_of kvs k | _ \<Rightarrow> None)"

definition genesis_hash :: json where
  "genesis_hash = JStr ''GENESIS''"

text \<open>The constructor: the hash of the last line, read through all of them.\<close>

fun last_event_hash :: "json \<Rightarrow> json list \<Rightarrow> event_error + json" where
  "last_event_hash h [] = Inr h"
| "last_event_hash h (e # es) = (case jget ''event_hash'' e of
     None \<Rightarrow> Inl (EventWire (WireKeyError ''event_hash'')) | Some h' \<Rightarrow> last_event_hash h' es)"

definition open_log :: "json list \<Rightarrow> string \<Rightarrow> string \<Rightarrow> event_error + chained_log" where
  "open_log file net ver = bindE (last_event_hash genesis_hash file) (\<lambda>h.
     Inr \<lparr>cl_lines = file, cl_network = net, cl_version = ver, cl_last_hash = h\<rparr>)"

definition hash_event :: "crypto \<Rightarrow> json \<Rightarrow> json \<Rightarrow> json" where
  "hash_event cr e previous = JStr (digest cr (JObj [(''event'', e), (''previous_event_hash'', previous)]))"

definition event_body :: "chained_log \<Rightarrow> string \<Rightarrow> string \<Rightarrow> string \<Rightarrow> (string \<times> json) list \<Rightarrow> (string \<times> json) list" where
  "event_body lg wall kind nid payload =
     [(''protocol'', JStr ''MOSAIC/TESTNET-EVENT/v1''), (''network_id'', JStr (cl_network lg)),
      (''software_version'', JStr (cl_version lg)), (''wall_time'', JFloat wall), (''kind'', JStr kind),
      (''node_id'', JStr nid), (''previous_event_hash'', cl_last_hash lg), (''payload'', JObj payload)]"

definition log_append ::
  "crypto \<Rightarrow> string \<Rightarrow> string \<Rightarrow> string \<Rightarrow> (string \<times> json) list \<Rightarrow> chained_log \<Rightarrow> (chained_log, event_error, json) outcome" where
  "log_append cr wall kind nid payload lg =
     (if kind = [] \<or> nid = [] then (Inl (EventLogError ''event kind and node_id are required''), lg)
      else (let body = event_body lg wall kind nid payload;
                event = body @ [(''event_id'', JStr (digest cr (JObj body)))];
                h = hash_event cr (JObj event) (cl_last_hash lg);
                line = JObj (event @ [(''event_hash'', h)])
            in (Inr line, lg\<lparr>cl_lines := cl_lines lg @ [json_norm line], cl_last_hash := h\<rparr>)))"

text \<open>\<open>copy = dict(event)\<close> without its hash\<close>

definition unhashed :: "json \<Rightarrow> json" where
  "unhashed e = (case e of JObj kvs \<Rightarrow> JObj (filter (\<lambda>(k, _). k \<noteq> ''event_hash'') kvs) | _ \<Rightarrow> e)"

fun chain_verifies :: "crypto \<Rightarrow> json \<Rightarrow> json list \<Rightarrow> bool" where
  "chain_verifies cr previous [] = True"
| "chain_verifies cr previous (e # es) \<longleftrightarrow>
     jget ''previous_event_hash'' e = Some previous
   \<and> jget ''event_hash'' e = Some (hash_event cr (unhashed e) previous)
   \<and> chain_verifies cr (hash_event cr (unhashed e) previous) es"

definition log_verify :: "crypto \<Rightarrow> chained_log \<Rightarrow> bool" where
  "log_verify cr lg = chain_verifies cr genesis_hash (cl_lines lg)"

subsection \<open>Appending keeps the chain\<close>

definition chained :: "crypto \<Rightarrow> chained_log \<Rightarrow> bool" where
  "chained cr lg \<longleftrightarrow> log_verify cr lg \<and> last_event_hash genesis_hash (cl_lines lg) = Inr (cl_last_hash lg)
     \<and> (\<exists>h. cl_last_hash lg = JStr h)"

lemma last_event_hash_append:
  "last_event_hash h es = Inr h' \<Longrightarrow> last_event_hash h (es @ es') = last_event_hash h' es'"
  by (induction es arbitrary: h) (auto split: option.splits)

lemma chain_verifies_append:
  "last_event_hash previous es = Inr h \<Longrightarrow> chain_verifies cr previous es \<Longrightarrow> chain_verifies cr h es' \<Longrightarrow>
   chain_verifies cr previous (es @ es')"
  by (induction es arbitrary: previous) auto

lemma hash_event_norm: "hash_event cr (json_norm e) previous = hash_event cr e previous"
  by (simp add: hash_event_def digest_def canonical_json_norm del: json_norm.simps)

lemma unhashed_norm:
  assumes "''event_hash'' \<notin> fst ` set kvs"
  shows "unhashed (json_norm (JObj (kvs @ [(''event_hash'', h)]))) = json_norm (JObj kvs)"
proof -
  have "filter (\<lambda>(k, _). k \<noteq> ''event_hash'') (map (\<lambda>(k, v). (k, json_norm v)) (kvs @ [(''event_hash'', h)]))
      = map (\<lambda>(k, v). (k, json_norm v)) kvs"
  proof -
    have "filter (\<lambda>x. fst x \<noteq> ''event_hash'') kvs = kvs"
      using assms by (intro filter_True) force
    then show ?thesis by (simp add: filter_map comp_def case_prod_unfold)
  qed
  then show ?thesis by (simp only: unhashed_def json_norm.simps json.case filter_sort)
qed

lemma jget_norm:
  assumes "distinct (map fst kvs)"
  shows "jget k (json_norm (JObj kvs)) = map_option json_norm (map_of kvs k)"
  using jfield_norm [OF assms, of k] by (auto simp: jget_def jfield_def split: option.splits)

lemma append_chained:
  assumes ok: "chained cr lg" and call: "log_append cr wall kind nid payload lg = (res, lg')"
  shows "chained cr lg'"
proof (cases "kind = [] \<or> nid = []")
  case True
  with ok call show ?thesis by (auto simp: log_append_def)
next
  case False
  let ?body = "event_body lg wall kind nid payload"
  let ?event = "?body @ [(''event_id'', JStr (digest cr (JObj ?body)))]"
  let ?h = "hash_event cr (JObj ?event) (cl_last_hash lg)"
  let ?line = "json_norm (JObj (?event @ [(''event_hash'', ?h)]))"
  from False call have lg': "cl_lines lg' = cl_lines lg @ [?line]" "cl_last_hash lg' = ?h"
    by (auto simp: log_append_def Let_def simp del: json_norm.simps)
  have keys: "distinct (map fst (?event @ [(''event_hash'', ?h)]))" by (simp add: event_body_def)
  have un: "unhashed ?line = json_norm (JObj ?event)"
    by (rule unhashed_norm) (auto simp: event_body_def)
  obtain p where p: "cl_last_hash lg = JStr p" using ok by (auto simp: chained_def)
  have prev: "jget ''previous_event_hash'' ?line = Some (cl_last_hash lg)"
    and hash: "jget ''event_hash'' ?line = Some ?h"
    unfolding jget_norm [OF keys] by (simp_all add: event_body_def p hash_event_def)
  from un prev hash have "chain_verifies cr (cl_last_hash lg) [?line]"
    by (simp add: hash_event_norm del: json_norm.simps)
  then have "log_verify cr lg'"
    using ok chain_verifies_append unfolding chained_def log_verify_def lg' by blast
  moreover have "last_event_hash genesis_hash (cl_lines lg') = Inr (cl_last_hash lg')"
    using ok last_event_hash_append [of genesis_hash "cl_lines lg" "cl_last_hash lg" "[?line]"] hash
    by (simp add: chained_def lg' del: json_norm.simps)
  ultimately show ?thesis by (simp add: chained_def lg' hash_event_def)
qed

subsection \<open>The last hash determines the log\<close>

text \<open>The hash after a list of events, and the objects hashed on the way.\<close>

definition chain_hash :: "crypto \<Rightarrow> json list \<Rightarrow> json" where
  "chain_hash cr es = foldl (\<lambda>h e. hash_event cr (unhashed e) h) genesis_hash es"

fun chain_objects :: "crypto \<Rightarrow> json \<Rightarrow> json list \<Rightarrow> json set" where
  "chain_objects cr h [] = {}"
| "chain_objects cr h (e # es) = insert (JObj [(''event'', unhashed e), (''previous_event_hash'', h)])
     (chain_objects cr (hash_event cr (unhashed e) h) es)"

lemma chain_objects_snoc:
  "chain_objects cr h (es @ [e]) = insert (JObj [(''event'', unhashed e),
     (''previous_event_hash'', foldl (\<lambda>h e. hash_event cr (unhashed e) h) h es)]) (chain_objects cr h es)"
  by (induction es arbitrary: h) auto

lemma chain_last_hash: "chain_verifies cr h es \<Longrightarrow> last_event_hash h es = Inr (foldl (\<lambda>h e. hash_event cr (unhashed e) h) h es)"
  by (induction es arbitrary: h) auto

lemma hash_not_genesis: "hash_event cr e h \<noteq> genesis_hash"
proof
  assume "hash_event cr e h = genesis_hash"
  then have "length (hex (sha256 cr (canonical_bytes (JObj [(''event'', e), (''previous_event_hash'', h)])))) = 7"
    by (simp add: hash_event_def genesis_hash_def digest_def)
  moreover have "even (length (hex bs))" for bs by (induction bs) (simp_all add: hex_def)
  ultimately show False by (metis odd_numeral)
qed

lemma chain_unique:
  "chain_hash cr es = chain_hash cr fs \<Longrightarrow>
   \<forall>x \<in> chain_objects cr genesis_hash es. \<forall>y \<in> chain_objects cr genesis_hash fs. digest cr x = digest cr y \<longrightarrow> x = y \<Longrightarrow>
   map unhashed es = map unhashed fs"
proof (induction es arbitrary: fs rule: rev_induct)
  case Nil
  then show ?case
    by (cases fs rule: rev_cases) (auto simp: chain_hash_def hash_not_genesis [symmetric])
next
  case (snoc e es)
  show ?case
  proof (cases fs rule: rev_cases)
    case Nil
    with snoc.prems(1) show ?thesis by (simp add: chain_hash_def hash_not_genesis)
  next
    case (snoc gs f)
    from snoc.prems(1) have d: "digest cr (JObj [(''event'', unhashed e), (''previous_event_hash'', chain_hash cr es)])
        = digest cr (JObj [(''event'', unhashed f), (''previous_event_hash'', chain_hash cr gs)])"
      by (simp add: snoc chain_hash_def hash_event_def)
    have "JObj [(''event'', unhashed e), (''previous_event_hash'', chain_hash cr es)]
        = JObj [(''event'', unhashed f), (''previous_event_hash'', chain_hash cr gs)]"
      using snoc.prems(2) d unfolding snoc chain_objects_snoc chain_hash_def by blast
    then have "unhashed e = unhashed f" "chain_hash cr es = chain_hash cr gs" by simp_all
    moreover have "map unhashed es = map unhashed gs"
      by (rule snoc.IH [OF \<open>chain_hash cr es = chain_hash cr gs\<close>]) (use snoc.prems(2) in \<open>simp add: snoc chain_objects_snoc\<close>)
    ultimately show ?thesis by (simp add: snoc)
  qed
qed

text \<open>
  C27. The last hash stands for the whole log. Opened over an empty file, a log verifies after any
  appends, and opening its file again gives the same last hash. If a log verifies and has the last hash of another log that
  verifies, and no two of the objects hashed in them collide, then both hold the same events in the
  same order: nothing can be changed, dropped or inserted unseen.
\<close>

theorem event_log_tamper_evident:
  assumes "chain_verifies cr genesis_hash file" "chain_verifies cr genesis_hash file'"
    and "open_log file net ver = Inr lg" "open_log file' net' ver' = Inr lg'" "cl_last_hash lg = cl_last_hash lg'"
    and "\<forall>x \<in> chain_objects cr genesis_hash file. \<forall>y \<in> chain_objects cr genesis_hash file'. digest cr x = digest cr y \<longrightarrow> x = y"
  shows "map unhashed file = map unhashed file'
    \<and> (\<forall>wall kind nid payload. kind \<noteq> [] \<and> nid \<noteq> [] \<longrightarrow> (\<exists>e lg2. log_append cr wall kind nid payload lg = (Inr e, lg2)
         \<and> log_verify cr lg2 \<and> open_log (cl_lines lg2) net ver = Inr lg2))"
proof
  from assms(1-4) have h: "cl_last_hash lg = chain_hash cr file" "cl_last_hash lg' = chain_hash cr file'"
    by (auto simp: open_log_def bindE_Inr_iff chain_last_hash chain_hash_def)
  with assms(5,6) show "map unhashed file = map unhashed file'" by (intro chain_unique) simp_all
  show "\<forall>wall kind nid payload. kind \<noteq> [] \<and> nid \<noteq> [] \<longrightarrow> (\<exists>e lg2. log_append cr wall kind nid payload lg = (Inr e, lg2)
         \<and> log_verify cr lg2 \<and> open_log (cl_lines lg2) net ver = Inr lg2)"
  proof (intro allI impI)
    fix wall kind nid :: string and payload
    assume ne: "kind \<noteq> [] \<and> nid \<noteq> []"
    obtain res lg2 where call: "log_append cr wall kind nid payload lg = (res, lg2)" by fastforce
    have lg: "cl_lines lg = file" "cl_network lg = net" "cl_version lg = ver"
      "last_event_hash genesis_hash file = Inr (cl_last_hash lg)"
      using assms(3) by (auto simp: open_log_def bindE_Inr_iff)
    have "\<exists>p. chain_hash cr file = JStr p"
      by (cases "file" rule: rev_cases) (simp_all add: chain_hash_def genesis_hash_def hash_event_def)
    then have "chained cr lg" using assms(1) lg h by (simp add: chained_def log_verify_def)
    from append_chained [OF this call] have "chained cr lg2" .
    moreover have "\<exists>e. res = Inr e" "cl_network lg2 = net" "cl_version lg2 = ver"
      using ne call lg by (auto simp: log_append_def Let_def)
    ultimately show "\<exists>e lg2. log_append cr wall kind nid payload lg = (Inr e, lg2)
         \<and> log_verify cr lg2 \<and> open_log (cl_lines lg2) net ver = Inr lg2"
      using call by (auto simp: chained_def open_log_def)
  qed
qed

theorem event_log_tamper_evident_witness:
  "\<exists>file lg. length file = 1 \<and> chain_verifies demo_crypto genesis_hash file \<and> open_log file ''net'' ''1'' = Inr lg
     \<and> (\<exists>e lg2. log_append demo_crypto ''2.5'' ''stop'' ''n'' [] lg = (Inr e, lg2) \<and> log_verify demo_crypto lg2)"
proof -
  let ?lg0 = "\<lparr>cl_lines = [], cl_network = ''net'', cl_version = ''1'', cl_last_hash = genesis_hash\<rparr>"
  have "chained demo_crypto ?lg0" by (simp add: chained_def log_verify_def genesis_hash_def)
  moreover obtain e lg where call: "log_append demo_crypto ''1.5'' ''start'' ''n'' [] ?lg0 = (Inr e, lg)"
    and one: "length (cl_lines lg) = 1"
    by (simp add: log_append_def Let_def del: json_norm.simps)
  ultimately have "chained demo_crypto lg" by (auto intro: append_chained)
  then have sound: "chain_verifies demo_crypto genesis_hash (cl_lines lg)" and op: "open_log (cl_lines lg) ''net'' ''1''
      = Inr \<lparr>cl_lines = cl_lines lg, cl_network = ''net'', cl_version = ''1'', cl_last_hash = cl_last_hash lg\<rparr>"
    by (simp_all add: chained_def log_verify_def open_log_def)
  have "\<forall>x \<in> chain_objects demo_crypto genesis_hash (cl_lines lg). \<forall>y \<in> chain_objects demo_crypto genesis_hash (cl_lines lg).
      digest demo_crypto x = digest demo_crypto y \<longrightarrow> x = y"
  proof -
    obtain x where "cl_lines lg = [x]" using one by (cases "cl_lines lg") auto
    then show ?thesis by simp
  qed
  from event_log_tamper_evident [OF sound sound op op refl this] have "\<exists>e lg2. log_append demo_crypto ''2.5'' ''stop'' ''n'' []
      \<lparr>cl_lines = cl_lines lg, cl_network = ''net'', cl_version = ''1'', cl_last_hash = cl_last_hash lg\<rparr> = (Inr e, lg2)
         \<and> log_verify demo_crypto lg2" by blast
  with one sound op show ?thesis by blast
qed

end
