(* ===== verification/Spec2Isabelle.thy ===== *)
theory Spec2Isabelle
  imports Outcomes Committee_Props Execution_Props Join_Live Governance_Props Availability_Node Persistence
    Gossip_Tasks Daemon_Props Frames
    Gossip_Live Node_Entry_Props Ccd_Agreement Events
begin

text \<open>
  A verification development for MOSAIC: the Python packages \<open>mosaic\<close> and \<open>ccd_nexus\<close> and the event
  log of \<open>testnet\<close>.

  \<^bold>\<open>The program.\<close> A MOSAIC validator is a process that holds a protocol object (resources whose states are
  sealed, capsules that spend a seal, receipts of witnesses, closures that a weighted quorum signs), a
  settlement ledger with bonded stake, a membership manager with its committee lottery and
  randomness rounds, a shard provider and a durable store. \<open>daemon.py\<close> builds it from a
  configuration, \<open>network.py\<close> lets it talk to the others. CCD/NEXUS is the earlier prototype: domains of
  versioned objects, a committee that votes in two phases, joins over several domains, and a network of
  its own.

  \<^bold>\<open>Conventions.\<close> A class is a record, a method a function on it; a method that may raise gives the pair of a
  result (\<open>Inl\<close> the exception, \<open>Inr\<close> the value) and the object as it left it, so what happened before an
  exception stays (\<open>outcome\<close>, \<open>thenS\<close> in \<open>Prelude\<close>). Dictionaries are association lists in insertion order
  (\<open>AList.update\<close>), sets are sets, Python integers are \<open>int\<close>, the bytes of GF(256) are \<open>nat\<close> with the bit
  operations, length fields are \<open>32 word\<close>, texts are ASCII. Record fields share one name space, so
  many carry a prefix of their class. Handlers that wait are cut into sections; tasks interleave at
  sections, in any order.

  \<^bold>\<open>Parameters and hypotheses.\<close> SHA-256 and Ed25519 (\<open>hashlib\<close>, package \<open>cryptography\<close>) are the record
  \<open>crypto\<close>; AES-GCM and HKDF are arguments of \<open>Security\<close>; the repr of floats is an argument of
  \<open>Json_Text\<close>; failing transactions of SQLite are a list in the state of the store; losses of a socket
  are the answers the environment gives. Theorems name what they use of them: \<open>sound_signatures\<close> (genuine
  signatures verify), \<open>no_collision\<close> and \<open>collision_free\<close> (given messages do not collide), \<open>unforged\<close> and
  \<open>genuine\<close> (a signature of an honest validator was made by its node). \<open>demo_crypto\<close> meets them all and
  carries the witnesses.

  \<^bold>\<open>Theories, by source file.\<close>

  \<open>ccd_nexus/crypto.py\<close>: \<open>Crypto\<close> (JSON values, \<open>canonical_bytes\<close>, digests, keys). Two values with the
  same canonical bytes are equal up to key order.

  \<open>mosaic/model.py\<close>, \<open>ectc.py\<close>: \<open>Model\<close>. \<open>mosaic/safety.py\<close>: \<open>Safety\<close>, with the locale of a committee in
  which the quorum argument is proved. \<open>mosaic/protocol.py\<close>: \<open>Protocol\<close>, and \<open>Execution_Protocol\<close> for
  \<open>apply_execution\<close>. \<open>Runs\<close> is the step relation of one validator; \<open>Closure_Safety\<close> and \<open>Agreement\<close> prove
  that closures of one predecessor and attempt close one capsule, \<open>Seals\<close> that every known seal is
  backed, \<open>Liveness\<close> and \<open>Protocol_Props\<close> what \<open>close\<close> and \<open>apply\<close> achieve and refuse, \<open>Outcomes\<close> bundles
  and abandoned capsules.

  \<open>mosaic/execution.py\<close>: \<open>Execution\<close>, \<open>Execution_Props\<close>. \<open>mosaic/economics.py\<close>: \<open>Economics\<close>,
  \<open>Economics_Props\<close> (conservation, solvency), \<open>Persistence\<close> (saving and restoring ledger and executor).

  \<open>mosaic/membership.py\<close>: \<open>Stake\<close>, \<open>Membership\<close>, \<open>Selection\<close>; \<open>Membership_Props\<close> and \<open>Committee_Props\<close>.
  \<open>mosaic/randomness.py\<close>: \<open>Randomness\<close>, \<open>Randomness_Props\<close>. \<open>mosaic/beacon.py\<close> and \<open>onboarding.py\<close>: \<open>Beacon\<close>,
  \<open>Beacon_Props\<close>, \<open>Onboarding_Props\<close>. \<open>mosaic/security.py\<close>: \<open>Security\<close>, \<open>Security_Props\<close>.

  \<open>mosaic/availability.py\<close>: \<open>Gf256\<close>, \<open>Gf_Matrix\<close> (the field, Gauss elimination), \<open>Erasure\<close>, \<open>Erasure_Codec\<close>,
  \<open>Erasure_Props\<close>, \<open>Erasure_Store\<close>. \<open>mosaic/availability_network.py\<close>: \<open>Availability_Node\<close>.
  \<open>mosaic/storage.py\<close>: \<open>Storage\<close>. \<open>testnet/events.py\<close>: \<open>Events\<close>.

  \<open>mosaic/network.py\<close>: \<open>Wire_Base\<close> and \<open>Wire\<close> (base64, \<open>int\<close>, the wire forms), \<open>Json_Text\<close> and \<open>Frames\<close> (JSON
  texts, frames on a stream), \<open>Gossip\<close> (the handlers that hold the protocol), \<open>Node\<close> (the services and
  the dispatch), \<open>Node_Entry\<close> (connections, rates, replay, restoring, sending). \<open>Gossip_Safety\<close> shows that a
  node refines \<open>MosaicProtocol\<close> and lifts agreement to gossip nodes; \<open>Gossip_Live\<close> that a quorum of receipts
  closes; \<open>Gossip_Tasks\<close> that handlers end; \<open>Gossip_Recovery\<close> that a restart keeps the seals;
  \<open>Gossip_Props\<close> that it does not keep the locks; \<open>Node_Props\<close> and \<open>Node_Entry_Props\<close> what any messages
  from anyone can and cannot do. \<open>mosaic/daemon.py\<close>: \<open>Daemon\<close>; \<open>Daemon_Run\<close> follows the
  ledger a node stores through any run of messages and gossip sections; \<open>Daemon_Props\<close> shows that a node can be
  stopped anywhere and started again, on which ledger and with which validators, and that no start mints
  value.

  \<open>ccd_nexus/models.py\<close>, \<open>quorum.py\<close>, \<open>domain.py\<close>, \<open>join.py\<close>: \<open>Ccd_Models\<close>, \<open>Quorum\<close>, \<open>Domain\<close>, \<open>Join\<close>, with
  \<open>Quorum_Props\<close>, \<open>Votes\<close>, \<open>Domain_Props\<close>, \<open>Finality\<close>, \<open>Finality_Props\<close>, \<open>Join_Props\<close> (the coordinator refines a
  ledger of atomic transactions), \<open>Join_Live\<close>. \<open>ccd_nexus/membership.py\<close>, \<open>governance.py\<close>: \<open>Governance\<close>,
  \<open>Governance_Props\<close>. \<open>ccd_nexus/network.py\<close>: \<open>Ccd_Wire\<close>, \<open>Ccd_Network\<close>, \<open>Ccd_Agreement\<close>.

  \<open>Prelude\<close> has the results, dictionaries and sorting all share; \<open>Demo\<close> the concrete values of the witnesses.

  \<^bold>\<open>Interfaces.\<close> The locales state what one part relies on of another and are interpreted on the model:
  the committee of a quorum, the field of the matrices, the durable store, the invariants of a gossip
  node (\<open>node_invariant\<close>, \<open>protocol_invariant\<close>, \<open>books_invariant\<close>) that reduce an invariant of a node to the few
  steps that matter, the facts about a store that no other row disturbs (\<open>store_fact\<close>), and what the
  coordinators promise a node that dispatches messages to them (\<open>service_contract\<close>, interpreted for the funds, the
  bonds, the stored ledger and a working store).

  \<^bold>\<open>Bounds and fuel.\<close> Loops of the code are structural or have a measure, and every function is total. The
  JSON reader takes fuel, \<open>2n + 1\<close> for \<open>n\<close> characters, and \<open>loads_fuel\<close> proves that it never runs out.
  A gossip task ends after at most \<open>2w + 3\<close> sections for \<open>w\<close> waiting capsules.

  \<^bold>\<open>Not modelled.\<close> Sockets, TLS contexts, the asyncio scheduler inside a section, signals and the command
  line: library code and I/O. Byte counters, error details, elapsed times and the status queues: nothing
  reads them. Fields of wrong JSON types where a text is expected give a type error at once, while Python
  may carry them further. The recursion and digit limits of \<open>json\<close>. Numbers of the configuration that are
  floats are rationals. The package exports are imports only; benchmarks, model checks, scripts of the
  paper and of the test network, and tests drive or measure the code above.
\<close>

end
